(* ===== verification/Prelude.thy ===== *)
theory Prelude
  imports Main "HOL-Library.Multiset" "HOL-Library.AList" "HOL-Library.Sublist"
begin

text \<open>
  Shared vocabulary of the development. Go strings are byte strings (\<open>string\<close>), a
  \<open>json.RawMessage\<close> is an optional byte string (None is the nil slice), times and
  durations are nanoseconds as unbounded integers unless a theory says otherwise, and a
  Go map whose iteration order matters is an association list with distinct keys: the
  order of the list stands for the (unspecified) iteration order, and a theorem about
  every such list holds for every order.
\<close>

subsection \<open>Names for the types of the model\<close>

type_synonym raw = "string option"
type_synonym time = int
type_synonym duration = int
type_synonym ('k, 'v) gomap = "('k \<times> 'v) list"

definition millisecond :: duration where
  "millisecond = 1000000"

definition second :: duration where
  "second = 1000 * millisecond"

definition minute :: duration where
  "minute = 60 * second"

definition hour :: duration where
  "hour = 60 * minute"

lemmas duration_units = hour_def minute_def second_def millisecond_def

text \<open>What a call of the Go runtime can do besides returning: it panics, or it blocks
  for ever on a channel operation.\<close>

datatype 'a outcome = Done 'a | Panic string | Blocked

fun bind_outcome :: "'a outcome \<Rightarrow> ('a \<Rightarrow> 'b outcome) \<Rightarrow> 'b outcome" where
  "bind_outcome (Done x) f = f x"
| "bind_outcome (Panic m) f = Panic m"
| "bind_outcome Blocked f = Blocked"

lemma bind_outcome_Done_iff:
  "bind_outcome x f = Done y \<longleftrightarrow> (\<exists>z. x = Done z \<and> f z = Done y)"
  by (cases x) auto

lemma bind_outcome_assoc:
  "bind_outcome (bind_outcome x f) g = bind_outcome x (\<lambda>y. bind_outcome (f y) g)"
  by (cases x) auto

subsection \<open>Collections of facts\<close>

named_theorems gomap_simps \<open>lookups in and updates of Go maps\<close>
named_theorems inv_intros \<open>operations keep their component's invariant\<close>
named_theorems frame_simps \<open>fields an operation does not write\<close>

subsection \<open>Go maps as association lists\<close>

text \<open>Well formed: no key twice.\<close>

definition gm_ok :: "('k, 'v) gomap \<Rightarrow> bool" where
  "gm_ok m \<longleftrightarrow> distinct (map fst m)"

abbreviation gm_get :: "('k, 'v) gomap \<Rightarrow> 'k \<Rightarrow> 'v option" where
  "gm_get m k \<equiv> map_of m k"

abbreviation gm_put :: "'k \<Rightarrow> 'v \<Rightarrow> ('k, 'v) gomap \<Rightarrow> ('k, 'v) gomap" where
  "gm_put k v m \<equiv> AList.update k v m"

abbreviation gm_del :: "'k \<Rightarrow> ('k, 'v) gomap \<Rightarrow> ('k, 'v) gomap" where
  "gm_del k m \<equiv> AList.delete k m"

abbreviation gm_has :: "('k, 'v) gomap \<Rightarrow> 'k \<Rightarrow> bool" where
  "gm_has m k \<equiv> map_of m k \<noteq> None"

lemma gm_ok_Nil [simp, inv_intros]: "gm_ok []"
  by (simp add: gm_ok_def)

lemma gm_ok_put [simp, inv_intros]: "gm_ok m \<Longrightarrow> gm_ok (gm_put k v m)"
  by (simp add: gm_ok_def distinct_update)

lemma gm_ok_del [simp, inv_intros]: "gm_ok m \<Longrightarrow> gm_ok (gm_del k m)"
  by (simp add: gm_ok_def distinct_delete)

lemma gm_ok_filter [simp, inv_intros]: "gm_ok m \<Longrightarrow> gm_ok (filter P m)"
  unfolding gm_ok_def by (induction m) auto

lemma gm_get_put [simp, gomap_simps]:
  "gm_get (gm_put k v m) k' = (if k' = k then Some v else gm_get m k')"
  by (simp add: update_conv')

lemma gm_get_del [simp, gomap_simps]:
  "gm_get (gm_del k m) k' = (if k' = k then None else gm_get m k')"
  by (simp add: delete_conv')

lemma gm_get_filter:
  "gm_ok m \<Longrightarrow>
     gm_get (filter (\<lambda>(k, v). P k v) m) k' =
     (case gm_get m k' of None \<Rightarrow> None | Some v \<Rightarrow> if P k' v then Some v else None)"
proof (induction m)
  case Nil
  then show ?case by simp
next
  case (Cons kv m)
  obtain k v where kv: "kv = (k, v)" by (cases kv)
  have fresh: "k \<notin> fst ` set m" and ok: "gm_ok m"
    using Cons.prems by (auto simp: gm_ok_def kv)
  have "gm_get m k = None"
    using fresh by (auto simp: map_of_eq_None_iff)
  then show ?case
    using Cons.IH [OF ok] by (auto simp: kv split: option.splits)
qed

lemma gm_get_mem: "gm_ok m \<Longrightarrow> gm_get m k = Some v \<longleftrightarrow> (k, v) \<in> set m"
  by (simp add: gm_ok_def)

lemma gm_put_mem:
  "gm_ok m \<Longrightarrow> (k', v') \<in> set (gm_put k v m) \<longleftrightarrow>
     (if k' = k then v' = v else (k', v') \<in> set m)"
  by (auto simp flip: gm_get_mem)

lemma gm_keys_put [gomap_simps]: "fst ` set (gm_put k v m) = insert k (fst ` set m)"
  by (simp add: dom_update)

subsection \<open>Sorting a slice by a key\<close>

text \<open>
  \<open>sort.Slice(xs, func(i, j) bool { return key(xs[i]) < key(xs[j]) })\<close> leaves the
  elements in ascending order of the key; \<open>sort_key\<close> does the same and, like Go's
  insertion sort on short slices, keeps the order of equal keys.
\<close>

definition sort_desc :: "('a \<Rightarrow> int) \<Rightarrow> 'a list \<Rightarrow> 'a list" where
  "sort_desc f xs = sort_key (\<lambda>x. - f x) xs"

lemma mset_sort_desc [simp]: "mset (sort_desc f xs) = mset xs"
  by (simp add: sort_desc_def)

lemma set_sort_desc [simp]: "set (sort_desc f xs) = set xs"
  by (simp add: sort_desc_def)

lemma length_sort_desc [simp]: "length (sort_desc f xs) = length xs"
  by (simp add: sort_desc_def)

lemma sorted_sort_desc: "sorted (map (\<lambda>x. - f x) (sort_desc f xs))"
  unfolding sort_desc_def by (rule sorted_sort_key)

subsection \<open>Lists\<close>

lemma filter_all_false: "(\<And>x. x \<in> set xs \<Longrightarrow> \<not> P x) \<Longrightarrow> filter P xs = []"
  by (auto simp: filter_empty_conv)

lemma distinct_filter_map: "distinct (map f xs) \<Longrightarrow> distinct (map f (filter P xs))"
  by (induction xs) auto

lemma find_Some_mem: "List.find P xs = Some x \<Longrightarrow> x \<in> set xs \<and> P x"
  by (auto simp: find_Some_iff)

lemma find_None_mem: "List.find P xs = None \<longleftrightarrow> (\<forall>x \<in> set xs. \<not> P x)"
  by (auto simp: find_None_iff)

text \<open>Go's 64-bit \<open>int\<close>: an overflowing sum wraps around.\<close>

definition wrap64 :: "int \<Rightarrow> int" where
  "wrap64 x = (x + 2 ^ 63) mod 2 ^ 64 - 2 ^ 63"

definition fits64 :: "int \<Rightarrow> bool" where
  "fits64 x \<longleftrightarrow> - (2 ^ 63) \<le> x \<and> x < 2 ^ 63"

lemma wrap64_id: "fits64 x \<Longrightarrow> wrap64 x = x"
  by (simp add: wrap64_def fits64_def)

lemma wrap64_high:
  assumes "2 ^ 63 \<le> x" "x < 2 ^ 64 + 2 ^ 63"
  shows "wrap64 x = x - 2 ^ 64"
proof -
  have "(x + 2 ^ 63) mod 2 ^ 64 = (x - 2 ^ 63 + 2 ^ 64) mod 2 ^ 64"
    by (simp add: algebra_simps)
  also have "\<dots> = (x - 2 ^ 63) mod 2 ^ 64" by (rule mod_add_self2)
  also have "\<dots> = x - 2 ^ 63" using assms by (intro mod_pos_pos_trivial) simp_all
  finally show ?thesis by (simp add: wrap64_def)
qed

lemma fits64_wrap64: "fits64 (wrap64 x)"
  using pos_mod_bound [of "2 ^ 64" "x + 2 ^ 63"] pos_mod_sign [of "2 ^ 64" "x + 2 ^ 63"]
  by (simp add: wrap64_def fits64_def)

text \<open>\<open>s[lo:hi]\<close> on a slice whose capacity is its length: out of range it panics.\<close>

definition slice_range :: "'a list \<Rightarrow> int \<Rightarrow> int \<Rightarrow> 'a list outcome" where
  "slice_range xs lo hi =
     (if 0 \<le> lo \<and> lo \<le> hi \<and> hi \<le> int (length xs)
      then Done (take (nat (hi - lo)) (drop (nat lo) xs)) else Panic ''slice bounds out of range'')"

text \<open>\<open>strings.Join(parts, sep)\<close>.\<close>

fun join_strs :: "string \<Rightarrow> string list \<Rightarrow> string" where
  "join_strs sep [] = []"
| "join_strs sep [x] = x"
| "join_strs sep (x # y # xs) = x @ sep @ join_strs sep (y # xs)"

text \<open>\<open>strings.HasPrefix\<close> and the slicing that follows it.\<close>

definition has_prefix :: "string \<Rightarrow> string \<Rightarrow> bool" where
  "has_prefix s p \<longleftrightarrow> take (length p) s = p"

lemma has_prefix_iff: "has_prefix s p \<longleftrightarrow> (\<exists>r. s = p @ r)"
  unfolding has_prefix_def by (metis append_eq_conv_conj append_take_drop_id)

lemma has_prefix_prefix: "has_prefix s p \<longleftrightarrow> prefix p s"
  by (auto simp: has_prefix_iff prefix_def)

subsection \<open>Numbers as text\<close>

definition digit_char :: "nat \<Rightarrow> char" where
  "digit_char d = (if d < 10 then char_of (48 + d) else char_of (87 + d))"

text \<open>\<open>%x\<close> of a byte string: two lower-case digits per byte.\<close>

definition hex_of :: "string \<Rightarrow> string" where
  "hex_of s = concat (map (\<lambda>c. [digit_char (of_char c div 16), digit_char (of_char c mod 16)]) s)"

text \<open>\<open>%d\<close>.\<close>

fun dec_nat :: "nat \<Rightarrow> string" where
  "dec_nat n = (if n < 10 then [digit_char n] else dec_nat (n div 10) @ [digit_char (n mod 10)])"

declare dec_nat.simps [simp del]

definition dec_of :: "int \<Rightarrow> string" where
  "dec_of i = (if i < 0 then CHR ''-'' # dec_nat (nat (- i)) else dec_nat (nat i))"

lemma digit_char_code:
  "k < 16 \<Longrightarrow> of_char (digit_char k) = (if k < 10 then 48 + k else 87 + k)"
  by (simp add: digit_char_def)

lemma digit_char_inj: "d < 16 \<Longrightarrow> e < 16 \<Longrightarrow> digit_char d = digit_char e \<longleftrightarrow> d = e"
proof
  assume b: "d < 16" "e < 16" and "digit_char d = digit_char e"
  then have "(if d < 10 then 48 + d else 87 + d) = (if e < 10 then 48 + e else 87 + e)"
    by (metis digit_char_code)
  then show "d = e" using b by (simp split: if_splits)
qed simp

lemma hex_of_Nil [simp]: "hex_of [] = []"
  by (simp add: hex_of_def)

lemma hex_of_Cons: "hex_of (c # s) =
    digit_char (of_char c div 16) # digit_char (of_char c mod 16) # hex_of s"
  by (simp add: hex_of_def)

lemma of_char_bound: "(of_char (c :: char) :: nat) < 256"
  by (metis nat_of_char_less_256)

lemma hex_of_inj: "hex_of s = hex_of t \<longleftrightarrow> s = t"
proof (induction s arbitrary: t)
  case Nil
  then show ?case by (cases t) (simp_all add: hex_of_Cons)
next
  case (Cons c s)
  show ?case
  proof (cases t)
    case Nil
    then show ?thesis by (simp add: hex_of_Cons)
  next
    case (Cons d u)
    have "(of_char c :: nat) div 16 = of_char d div 16 \<and> (of_char c :: nat) mod 16 = of_char d mod 16
        \<longleftrightarrow> (of_char c :: nat) = of_char d"
      by (metis div_mult_mod_eq)
    moreover have "(of_char c :: nat) div 16 < 16" "(of_char d :: nat) div 16 < 16"
      using of_char_bound [of c] of_char_bound [of d] by (simp_all add: div_less_iff_less_mult)
    ultimately show ?thesis
      using Cons.IH by (auto simp: Cons hex_of_Cons digit_char_inj)
  qed
qed

lemma dec_nat_digits: "c \<in> set (dec_nat n) \<Longrightarrow> 48 \<le> (of_char c :: nat) \<and> (of_char c :: nat) \<le> 57"
proof (induction n rule: dec_nat.induct)
  case (1 n)
  show ?case
  proof (cases "n < 10")
    case True
    then show ?thesis using 1(2) by (subst (asm) dec_nat.simps) (simp add: digit_char_code)
  next
    case False
    have "n mod 10 < 10" by simp
    then show ?thesis using 1(1) [OF False] 1(2) False
      by (subst (asm) dec_nat.simps) (auto simp: digit_char_code)
  qed
qed

lemma dec_nat_value: "fold (\<lambda>c a. 10 * a + (of_char c - 48)) (dec_nat n) 0 = (n :: nat)"
proof (induction n rule: dec_nat.induct)
  case (1 n)
  show ?case
  proof (cases "n < 10")
    case True
    then show ?thesis by (subst dec_nat.simps) (simp add: digit_char_code)
  next
    case False
    have "n mod 10 < 10" by simp
    then have "of_char (digit_char (n mod 10)) - 48 = n mod 10" by (simp add: digit_char_code)
    then show ?thesis using 1 [OF False] False by (subst dec_nat.simps) simp
  qed
qed

lemma dec_nat_inj: "dec_nat m = dec_nat n \<longleftrightarrow> m = n"
  by (metis dec_nat_value)

subsection \<open>Errors\<close>

text \<open>The \<open>error\<close> values the modules pass on: the two of package context, which callers
  recognise with \<open>errors.Is\<close>, and any other, known by its text.\<close>

datatype gerr = CtxCanceled | CtxDeadline | ErrMsg string

fun gerr_text :: "gerr \<Rightarrow> string" where
  "gerr_text CtxCanceled = ''context canceled''"
| "gerr_text CtxDeadline = ''context deadline exceeded''"
| "gerr_text (ErrMsg m) = m"

text \<open>\<open>%v\<close> of an error that may be nil.\<close>

definition err_verb :: "gerr option \<Rightarrow> string" where
  "err_verb e = (case e of None \<Rightarrow> ''<nil>'' | Some x \<Rightarrow> gerr_text x)"

end
