(* ===== verification/WfModel.thy ===== *)
theory WfModel
  imports Prelude
begin

text \<open>
  The data model of the workflow module (\<open>workflow/pkg/model\<close>): the status
  enumerations of \<open>status.go\<close>, the records of \<open>model.go\<close> and \<open>event.go\<close>,
  and their methods. A Go string enumeration is a datatype with one constructor per
  declared constant and one for any other string a row of the database may hold.
  A pointer to a time is an optional time; the gorm tags are left out.
\<close>

subsection \<open>Status enumerations\<close>

datatype workflow_status = WfActive | WfPaused | WfArchived | WfOther string

datatype exec_status = ExPending | ExRunning | ExPaused | ExCompleted | ExFailed
  | ExCancelled | ExTimeout | ExOther string

datatype task_status = TkPending | TkRunning | TkPaused | TkCompleted | TkFailed
  | TkSkipped | TkCancelled | TkRetrying | TkOther string

datatype trigger_type = TrManual | TrSchedule | TrEvent | TrApi | TrSubWorkflow | TrOther string

fun workflow_status_str :: "workflow_status \<Rightarrow> string" where
  "workflow_status_str WfActive = ''ACTIVE''"
| "workflow_status_str WfPaused = ''PAUSED''"
| "workflow_status_str WfArchived = ''ARCHIVED''"
| "workflow_status_str (WfOther s) = s"

fun exec_status_str :: "exec_status \<Rightarrow> string" where
  "exec_status_str ExPending = ''PENDING''"
| "exec_status_str ExRunning = ''RUNNING''"
| "exec_status_str ExPaused = ''PAUSED''"
| "exec_status_str ExCompleted = ''COMPLETED''"
| "exec_status_str ExFailed = ''FAILED''"
| "exec_status_str ExCancelled = ''CANCELLED''"
| "exec_status_str ExTimeout = ''TIMEOUT''"
| "exec_status_str (ExOther s) = s"

fun task_status_str :: "task_status \<Rightarrow> string" where
  "task_status_str TkPending = ''PENDING''"
| "task_status_str TkRunning = ''RUNNING''"
| "task_status_str TkPaused = ''PAUSED''"
| "task_status_str TkCompleted = ''COMPLETED''"
| "task_status_str TkFailed = ''FAILED''"
| "task_status_str TkSkipped = ''SKIPPED''"
| "task_status_str TkCancelled = ''CANCELLED''"
| "task_status_str TkRetrying = ''RETRYING''"
| "task_status_str (TkOther s) = s"

fun trigger_type_str :: "trigger_type \<Rightarrow> string" where
  "trigger_type_str TrManual = ''MANUAL''"
| "trigger_type_str TrSchedule = ''SCHEDULE''"
| "trigger_type_str TrEvent = ''EVENT''"
| "trigger_type_str TrApi = ''API''"
| "trigger_type_str TrSubWorkflow = ''SUB_WORKFLOW''"
| "trigger_type_str (TrOther s) = s"

text \<open>Node types are open: an application registers executors under names of its own.\<close>

type_synonym node_type = string

definition node_types :: "node_type list" where
  "node_types = [''HTTP'', ''GRPC'', ''SCRIPT'', ''SUB_WORKFLOW'', ''CONDITION'', ''PARALLEL'',
     ''SWITCH'', ''DELAY'', ''CALLBACK'', ''CUSTOM'', ''INPUT'', ''OUTPUT'', ''HUMAN_INPUT'']"

definition NodeTypeCondition :: node_type where
  "NodeTypeCondition = ''CONDITION''"

definition NodeTypeSwitch :: node_type where
  "NodeTypeSwitch = ''SWITCH''"

subsection \<open>Workflow definitions\<close>

type_synonym node_id = string

record node =
  nd_id :: node_id
  nd_workflow_id :: string
  nd_name :: string
  nd_type :: node_type
  nd_description :: string
  nd_timeout :: int
  nd_max_retries :: int
  nd_retry_delay :: int
  nd_retry_mode :: string
  nd_retry_max_delay :: int
  nd_skip_on_failure :: bool
  nd_config :: raw
  nd_input_mapping :: raw
  nd_output_mapping :: raw
  nd_condition_expr :: string
  nd_parallel_branches :: int
  nd_output_schema :: raw
  nd_order_no :: int
  nd_created_at :: time
  nd_updated_at :: time

record edge =
  ed_id :: string
  ed_workflow_id :: string
  ed_source_id :: node_id
  ed_target_id :: node_id
  ed_source_port :: string
  ed_target_port :: string
  ed_condition_expr :: string
  ed_label :: string
  ed_internal :: bool
  ed_order_no :: int
  ed_created_at :: time

record workflow =
  wf_id :: string
  wf_name :: string
  wf_description :: string
  wf_version :: int
  wf_status :: workflow_status
  wf_timeout :: int
  wf_max_retries :: int
  wf_nodes :: "node list"
  wf_edges :: "edge list"
  wf_created_at :: time
  wf_updated_at :: time

text \<open>\<open>Workflow.IsValid\<close>: the loop over the nodes with the set of IDs seen so far.\<close>

fun valid_nodes :: "node_id set \<Rightarrow> node list \<Rightarrow> bool" where
  "valid_nodes seen [] = True"
| "valid_nodes seen (n # ns) =
     (if nd_id n = [] \<or> nd_id n \<in> seen then False
      else valid_nodes (insert (nd_id n) seen) ns)"

definition workflow_is_valid :: "workflow \<Rightarrow> bool" where
  "workflow_is_valid w =
     (if wf_name w = [] \<or> length (wf_nodes w) = 0 then False
      else valid_nodes {} (wf_nodes w))"

lemma valid_nodes_iff:
  "valid_nodes seen ns \<longleftrightarrow>
     distinct (map nd_id ns) \<and> [] \<notin> set (map nd_id ns) \<and> set (map nd_id ns) \<inter> seen = {}"
  by (induction ns arbitrary: seen) auto

subsection \<open>Executions and tasks\<close>

record execution =
  ex_id :: string
  ex_workflow_id :: string
  ex_workflow_name :: string
  ex_workflow_ver :: int
  ex_trigger_type :: trigger_type
  ex_trigger_id :: string
  ex_status :: exec_status
  ex_input :: raw
  ex_output :: raw
  ex_state_data :: raw
  ex_current_node_id :: string
  ex_error :: string
  ex_timeout :: int
  ex_expires_at :: "time option"
  ex_version :: int
  ex_started_at :: "time option"
  ex_finished_at :: "time option"
  ex_created_at :: time
  ex_updated_at :: time

record task =
  tk_id :: string
  tk_execution_id :: string
  tk_node_id :: node_id
  tk_node_name :: string
  tk_node_type :: node_type
  tk_status :: task_status
  tk_input :: raw
  tk_output :: raw
  tk_error :: string
  tk_retry_count :: int
  tk_max_retries :: int
  tk_is_retry :: bool
  tk_attempt_id :: string
  tk_worker_id :: string
  tk_scheduled_at :: "time option"
  tk_started_at :: "time option"
  tk_finished_at :: "time option"
  tk_created_at :: time
  tk_updated_at :: time

record worker =
  wk_id :: string
  wk_address :: string
  wk_group :: string
  wk_status :: string
  wk_tags :: string
  wk_heartbeat :: time
  wk_started_at :: time
  wk_created_at :: time
  wk_updated_at :: time

fun exec_status_final :: "exec_status \<Rightarrow> bool" where
  "exec_status_final ExCompleted = True"
| "exec_status_final ExFailed = True"
| "exec_status_final ExCancelled = True"
| "exec_status_final ExTimeout = True"
| "exec_status_final _ = False"

definition execution_is_final :: "execution \<Rightarrow> bool" where
  "execution_is_final e = exec_status_final (ex_status e)"

fun can_transition_from :: "exec_status \<Rightarrow> exec_status \<Rightarrow> bool" where
  "can_transition_from ExPending target = (target = ExRunning \<or> target = ExCancelled)"
| "can_transition_from ExRunning target =
     (target = ExCompleted \<or> target = ExFailed \<or> target = ExPaused \<or>
      target = ExCancelled \<or> target = ExTimeout)"
| "can_transition_from ExPaused target = (target = ExRunning \<or> target = ExCancelled)"
| "can_transition_from _ target = False"

definition can_transition :: "execution \<Rightarrow> exec_status \<Rightarrow> bool" where
  "can_transition e target =
     (if execution_is_final e then False else can_transition_from (ex_status e) target)"

fun task_status_final :: "task_status \<Rightarrow> bool" where
  "task_status_final TkCompleted = True"
| "task_status_final TkFailed = True"
| "task_status_final TkSkipped = True"
| "task_status_final TkCancelled = True"
| "task_status_final _ = False"

definition task_is_final :: "task \<Rightarrow> bool" where
  "task_is_final t = task_status_final (tk_status t)"

subsection \<open>The life cycle of an execution\<close>

text \<open>The step relation that \<open>CanTransition\<close> describes, and the statuses an
  execution created in PENDING can reach by it.\<close>

inductive status_step :: "exec_status \<Rightarrow> exec_status \<Rightarrow> bool" where
  step: "\<not> exec_status_final s \<Longrightarrow> can_transition_from s t \<Longrightarrow> status_step s t"

inductive_cases status_stepE: "status_step s t"

inductive status_reachable :: "exec_status \<Rightarrow> bool" where
  init: "status_reachable ExPending"
| step: "status_reachable s \<Longrightarrow> status_step s t \<Longrightarrow> status_reachable t"

lemma status_step_iff: "status_step s t \<longleftrightarrow> \<not> exec_status_final s \<and> can_transition_from s t"
  by (auto intro: status_step.intros elim: status_stepE)

lemma can_transition_step: "can_transition e t \<longleftrightarrow> status_step (ex_status e) t"
  by (simp add: can_transition_def execution_is_final_def status_step_iff)

lemma status_step_declared: "status_step s t \<Longrightarrow> t \<noteq> ExPending \<and> (\<forall>u. t \<noteq> ExOther u)"
  by (cases s) (auto simp: status_step_iff)

lemma final_no_step: "exec_status_final s \<Longrightarrow> \<not> status_step s t"
  by (simp add: status_step_iff)

definition declared_status :: "exec_status \<Rightarrow> bool" where
  "declared_status s \<longleftrightarrow> (\<nexists>u. s = ExOther u)"

lemma declared_status_iff:
  "declared_status s \<longleftrightarrow>
     s \<in> {ExPending, ExRunning, ExPaused, ExCompleted, ExFailed, ExCancelled, ExTimeout}"
  by (cases s) (auto simp: declared_status_def)

lemma reachable_declared: "status_reachable s \<Longrightarrow> declared_status s"
  by (induction rule: status_reachable.induct)
    (auto simp: declared_status_def dest: status_step_declared)

lemma declared_reachable: "declared_status s \<Longrightarrow> status_reachable s"
proof -
  have r: "status_reachable ExRunning"
    by (rule status_reachable.step [OF status_reachable.init]) (simp add: status_step_iff)
  then have "status_reachable t" if "can_transition_from ExRunning t" for t
    using that by (auto intro!: status_reachable.step [OF r] simp: status_step_iff)
  then have "status_reachable t" if "t = ExRunning \<or> t = ExPending \<or> can_transition_from ExRunning t" for t
    using that r status_reachable.init by blast
  then show "declared_status s \<Longrightarrow> status_reachable s"
    unfolding declared_status_iff by (metis can_transition_from.simps(2) empty_iff insert_iff)
qed

lemma stuck_iff: "declared_status s \<Longrightarrow> (\<forall>t. \<not> status_step s t) \<longleftrightarrow> exec_status_final s"
  by (cases s) (auto simp: status_step_iff declared_status_def)

lemma status_of_some_execution: "\<exists>e :: execution. ex_status e = s"
  by (rule exI [of _ "(undefined :: execution)\<lparr>ex_status := s\<rparr>"]) simp

text \<open>C40. A workflow definition passes \<open>IsValid\<close> exactly when it has a name and at least one
  node and its node IDs are non-empty and pairwise different.\<close>

theorem workflow_is_valid_exact:
  "workflow_is_valid w =
     (wf_name w \<noteq> [] \<and> wf_nodes w \<noteq> [] \<and> distinct (map nd_id (wf_nodes w)) \<and>
      [] \<notin> nd_id ` set (wf_nodes w))"
  by (auto simp: workflow_is_valid_def valid_nodes_iff)

text \<open>C40. Life cycle of an execution: the statuses that \<open>CanTransition\<close> lets an execution
  created in PENDING reach are exactly the seven declared ones, the ones among them that
  permit no further transition are exactly the four that \<open>IsFinal\<close> names, and PENDING is
  never re-entered.\<close>

theorem execution_life_cycle:
  "{s. status_reachable s} =
     {ExPending, ExRunning, ExPaused, ExCompleted, ExFailed, ExCancelled, ExTimeout} \<and>
   {ex_status e | e. status_reachable (ex_status e) \<and> (\<forall>t. \<not> can_transition e t)} =
     {ExCompleted, ExFailed, ExCancelled, ExTimeout} \<and>
   \<not> can_transition e ExPending"
proof (intro conjI)
  show all: "{s. status_reachable s} =
      {ExPending, ExRunning, ExPaused, ExCompleted, ExFailed, ExCancelled, ExTimeout}"
    using reachable_declared declared_reachable by (auto simp: declared_status_iff)
  have eq: "status_reachable (ex_status e) \<and> (\<forall>t. \<not> can_transition e t) \<longleftrightarrow>
      status_reachable (ex_status e) \<and> exec_status_final (ex_status e)" for e
    using stuck_iff [of "ex_status e"] reachable_declared by (auto simp: can_transition_step)
  have "{ex_status e | e. status_reachable (ex_status e) \<and> (\<forall>t. \<not> can_transition e t)} =
      {ex_status e | e :: execution. status_reachable (ex_status e) \<and> exec_status_final (ex_status e)}"
    by (simp only: eq)
  also have "\<dots> = {s. status_reachable s \<and> exec_status_final s}"
    using status_of_some_execution by (intro set_eqI) (simp, metis)
  also have "\<dots> = {s. status_reachable s} \<inter> {s. exec_status_final s}"
    by (rule Collect_conj_eq)
  also have "\<dots> = {ExCompleted, ExFailed, ExCancelled, ExTimeout}"
    unfolding all by auto
  finally show "{ex_status e | e. status_reachable (ex_status e) \<and> (\<forall>t. \<not> can_transition e t)} =
     {ExCompleted, ExFailed, ExCancelled, ExTimeout}" .
qed (auto simp: can_transition_step dest: status_step_declared)

subsection \<open>Events\<close>

record event =
  ev_type :: string
  ev_execution_id :: string
  ev_node_id :: node_id
  ev_node_name :: string
  ev_node_type :: node_type
  ev_content :: string
  ev_error :: string
  ev_parent_node_id :: node_id
  ev_branch_id :: string
  ev_iteration_id :: string
  ev_timestamp :: int
  ev_duration :: int
  ev_input :: string
  ev_output :: string
  ev_retry_count :: int

text \<open>\<open>now\<close> is the clock in milliseconds.\<close>

definition new_workflow_event_with_parent ::
  "int \<Rightarrow> string \<Rightarrow> string \<Rightarrow> node_id \<Rightarrow> string \<Rightarrow> node_type \<Rightarrow> string \<Rightarrow>
   node_id \<Rightarrow> string \<Rightarrow> string \<Rightarrow> event" where
  "new_workflow_event_with_parent now etype exec_id nid nname ntype content parent branch iter =
     \<lparr>ev_type = etype, ev_execution_id = exec_id, ev_node_id = nid, ev_node_name = nname,
      ev_node_type = ntype, ev_content = content, ev_error = [], ev_parent_node_id = parent,
      ev_branch_id = branch, ev_iteration_id = iter, ev_timestamp = now, ev_duration = 0,
      ev_input = [], ev_output = [], ev_retry_count = 0\<rparr>"

definition new_workflow_event ::
  "int \<Rightarrow> string \<Rightarrow> string \<Rightarrow> node_id \<Rightarrow> string \<Rightarrow> node_type \<Rightarrow> string \<Rightarrow> event" where
  "new_workflow_event now etype exec_id nid nname ntype content =
     \<lparr>ev_type = etype, ev_execution_id = exec_id, ev_node_id = nid, ev_node_name = nname,
      ev_node_type = ntype, ev_content = content, ev_error = [], ev_parent_node_id = [],
      ev_branch_id = [], ev_iteration_id = [], ev_timestamp = now, ev_duration = 0,
      ev_input = [], ev_output = [], ev_retry_count = 0\<rparr>"

end
