(* ===== verification/Dag.thy ===== *)
theory Dag
  imports WfModel
begin

text \<open>
  The DAG of a workflow (\<open>workflow/pkg/engine/dag.go\<close>): construction from the
  definition, three-colour cycle detection, root and ready nodes, branch activation and
  Kahn's topological sort. Go maps keyed by node ID that are read with a default (adjacency,
  in-degree, colour) are total functions with that default. The two loops whose termination
  is not structural carry fuel; \<open>detect_cycle_total\<close> and \<open>topo_loop_total\<close> prove that the
  fuel they are started with is enough.
\<close>

subsection \<open>The graph and its construction\<close>

record edge_info =
  ei_target_id :: node_id
  ei_source_port :: string
  ei_target_port :: string
  ei_condition_expr :: string
  ei_label :: string

record dag =
  dg_workflow :: workflow
  dg_adj :: "node_id \<Rightarrow> edge_info list"
  dg_in_degree :: "node_id \<Rightarrow> int"
  dg_node_map :: "node_id \<rightharpoonup> node"
  dg_root_nodes :: "node list"

datatype dag_error = DagHasCycle "node_id list" | DagSortIncomplete | DagOutOfFuel

definition edge_info_of :: "edge \<Rightarrow> edge_info" where
  "edge_info_of e =
     \<lparr>ei_target_id = ed_target_id e, ei_source_port = ed_source_port e,
      ei_target_port = ed_target_port e, ei_condition_expr = ed_condition_expr e,
      ei_label = ed_label e\<rparr>"

fun dag_add_node :: "dag \<Rightarrow> node \<Rightarrow> dag" where
  "dag_add_node g n =
     g\<lparr>dg_node_map := (dg_node_map g)(nd_id n \<mapsto> n),
       dg_in_degree := (dg_in_degree g)(nd_id n := 0),
       dg_adj := (dg_adj g)(nd_id n := [])\<rparr>"

fun dag_add_edge :: "dag \<Rightarrow> edge \<Rightarrow> dag" where
  "dag_add_edge g e =
     (if ed_internal e then g
      else g\<lparr>dg_adj := (dg_adj g)(ed_source_id e := dg_adj g (ed_source_id e) @ [edge_info_of e]),
             dg_in_degree := (dg_in_degree g)(ed_target_id e := dg_in_degree g (ed_target_id e) + 1)\<rparr>)"

definition dag_empty :: "workflow \<Rightarrow> dag" where
  "dag_empty w =
     \<lparr>dg_workflow = w, dg_adj = (\<lambda>_. []), dg_in_degree = (\<lambda>_. 0),
      dg_node_map = Map.empty, dg_root_nodes = []\<rparr>"

definition dag_load :: "workflow \<Rightarrow> dag" where
  "dag_load w = foldl dag_add_edge (foldl dag_add_node (dag_empty w) (wf_nodes w)) (wf_edges w)"

subsection \<open>Cycle detection\<close>

datatype colour = White | Gray | Black

text \<open>
  \<open>dfs\<close> is the closure of \<open>detectCycle\<close>: it returns whether a cycle was found, the
  colours and the path stack. \<open>dfs_edges\<close> is its loop over the outgoing edges of the
  node on top of the stack.
\<close>

fun dfs :: "nat \<Rightarrow> (node_id \<Rightarrow> edge_info list) \<Rightarrow> node_id \<Rightarrow> (node_id \<Rightarrow> colour) \<Rightarrow> node_id list
    \<Rightarrow> (bool \<times> (node_id \<Rightarrow> colour) \<times> node_id list) option"
  and dfs_edges :: "nat \<Rightarrow> (node_id \<Rightarrow> edge_info list) \<Rightarrow> edge_info list \<Rightarrow> node_id
    \<Rightarrow> (node_id \<Rightarrow> colour) \<Rightarrow> node_id list
    \<Rightarrow> (bool \<times> (node_id \<Rightarrow> colour) \<times> node_id list) option"
where
  "dfs 0 adj v col path = None"
| "dfs (Suc fuel) adj v col path = dfs_edges fuel adj (adj v) v (col(v := Gray)) (path @ [v])"
| "dfs_edges fuel adj [] v col path = Some (False, col(v := Black), butlast path)"
| "dfs_edges fuel adj (e # es) v col path =
     (case col (ei_target_id e) of
        Gray \<Rightarrow> Some (True, col, path @ [ei_target_id e])
      | Black \<Rightarrow> dfs_edges fuel adj es v col path
      | White \<Rightarrow>
          (case dfs fuel adj (ei_target_id e) col path of
             None \<Rightarrow> None
           | Some (found, col', path') \<Rightarrow>
               if found then Some (True, col', path')
               else dfs_edges fuel adj es v col' path'))"

fun detect_from :: "nat \<Rightarrow> (node_id \<Rightarrow> edge_info list) \<Rightarrow> node_id list \<Rightarrow> (node_id \<Rightarrow> colour)
    \<Rightarrow> (bool \<times> node_id list) option" where
  "detect_from fuel adj [] col = Some (False, [])"
| "detect_from fuel adj (n # ns) col =
     (if col n = White then
        (case dfs fuel adj n col [] of
           None \<Rightarrow> None
         | Some (found, col', path) \<Rightarrow>
             if found then Some (True, path) else detect_from fuel adj ns col')
      else detect_from fuel adj ns col)"

definition dag_fuel :: "workflow \<Rightarrow> nat" where
  "dag_fuel w = Suc (length (wf_nodes w) + length (wf_edges w))"

definition detect_cycle :: "dag \<Rightarrow> (bool \<times> node_id list) option" where
  "detect_cycle g =
     detect_from (dag_fuel (dg_workflow g)) (dg_adj g) (map nd_id (wf_nodes (dg_workflow g)))
       (\<lambda>_. White)"

definition build_root_nodes :: "dag \<Rightarrow> dag" where
  "build_root_nodes g =
     g\<lparr>dg_root_nodes := sort_key nd_order_no
          (filter (\<lambda>n. dg_in_degree g (nd_id n) = 0) (wf_nodes (dg_workflow g)))\<rparr>"

definition new_dag :: "workflow \<Rightarrow> dag_error + dag" where
  "new_dag w =
     (let g = dag_load w in
      case detect_cycle g of
        None \<Rightarrow> Inl DagOutOfFuel
      | Some (found, path) \<Rightarrow>
          if found then Inl (DagHasCycle path) else Inr (build_root_nodes g))"

subsection \<open>Queries\<close>

definition get_node :: "dag \<Rightarrow> node_id \<Rightarrow> node option" where
  "get_node g v = dg_node_map g v"

definition get_root_nodes :: "dag \<Rightarrow> node list" where
  "get_root_nodes g = dg_root_nodes g"

definition get_downstream :: "dag \<Rightarrow> node_id \<Rightarrow> edge_info list" where
  "get_downstream g v = dg_adj g v"

definition get_activated_downstream :: "dag \<Rightarrow> node_id \<Rightarrow> string \<Rightarrow> edge_info list" where
  "get_activated_downstream g v out =
     (let all_edges = dg_adj g v in
      if length all_edges = 0 then []
      else case dg_node_map g v of
        None \<Rightarrow> all_edges
      | Some n \<Rightarrow>
          if nd_type n \<noteq> NodeTypeCondition \<and> nd_type n \<noteq> NodeTypeSwitch then all_edges
          else
            let activated = filter (\<lambda>e. ei_source_port e = out \<or> ei_source_port e = []) all_edges;
                default_edges = filter (\<lambda>e. \<not> (ei_source_port e = out \<or> ei_source_port e = []) \<and>
                                           ei_source_port e = ''default'') all_edges
            in if length activated = 0 \<and> length default_edges > 0 then default_edges
               else activated)"

definition get_dep_nodes :: "dag \<Rightarrow> node_id \<Rightarrow> node_id list" where
  "get_dep_nodes g v =
     map ed_source_id
       (filter (\<lambda>e. ed_target_id e = v \<and> \<not> ed_internal e) (wf_edges (dg_workflow g)))"

definition get_ready_nodes :: "dag \<Rightarrow> (node_id \<Rightarrow> bool) \<Rightarrow> node list" where
  "get_ready_nodes g completed =
     sort_key nd_order_no
       (filter (\<lambda>n. \<not> completed (nd_id n) \<and> list_all completed (get_dep_nodes g (nd_id n)))
          (wf_nodes (dg_workflow g)))"

subsection \<open>Topological sort\<close>

fun topo_edges :: "edge_info list \<Rightarrow> (node_id \<Rightarrow> int) \<Rightarrow> node_id list
    \<Rightarrow> (node_id \<Rightarrow> int) \<times> node_id list" where
  "topo_edges [] deg queue = (deg, queue)"
| "topo_edges (e # es) deg queue =
     (let t = ei_target_id e; deg' = deg(t := deg t - 1)
      in topo_edges es deg' (if deg' t = 0 then queue @ [t] else queue))"

fun topo_loop :: "nat \<Rightarrow> dag \<Rightarrow> (node_id \<Rightarrow> int) \<Rightarrow> node_id list \<Rightarrow> node_id list
    \<Rightarrow> node_id list option" where
  "topo_loop fuel g deg [] result = Some result"
| "topo_loop 0 g deg (v # queue) result = None"
| "topo_loop (Suc fuel) g deg (v # queue) result =
     (let (deg', queue') = topo_edges (dg_adj g v) deg queue
      in topo_loop fuel g deg' queue' (result @ [v]))"

text \<open>The code appends \<open>g.nodeMap[nodeID]\<close>, nil for an ID with no node: the list of
  optional nodes is the IDs read through the node map.\<close>

definition topological_sort :: "dag \<Rightarrow> dag_error + node option list" where
  "topological_sort g =
     (case topo_loop (dag_fuel (dg_workflow g)) g (dg_in_degree g) (map nd_id (dg_root_nodes g)) [] of
        None \<Rightarrow> Inl DagOutOfFuel
      | Some result \<Rightarrow>
          if length result \<noteq> length (wf_nodes (dg_workflow g)) then Inl DagSortIncomplete
          else Inr (map (dg_node_map g) result))"

subsection \<open>Cycle detection is sound and complete\<close>

definition succs :: "(node_id \<Rightarrow> edge_info list) \<Rightarrow> node_id \<Rightarrow> node_id set" where
  "succs adj u = ei_target_id ` set (adj u)"

definition edge_rel :: "(node_id \<Rightarrow> edge_info list) \<Rightarrow> (node_id \<times> node_id) set" where
  "edge_rel adj = {(u, v). v \<in> succs adj u}"

definition reaches_cycle :: "(node_id \<Rightarrow> edge_info list) \<Rightarrow> node_id \<Rightarrow> bool" where
  "reaches_cycle adj v \<longleftrightarrow> (\<exists>w. (v, w) \<in> (edge_rel adj)\<^sup>* \<and> (w, w) \<in> (edge_rel adj)\<^sup>+)"

definition cycle_path :: "(node_id \<Rightarrow> edge_info list) \<Rightarrow> node_id list \<Rightarrow> bool" where
  "cycle_path adj p \<longleftrightarrow>
     successively (\<lambda>u v. (u, v) \<in> edge_rel adj) p \<and>
     (\<exists>pre w mid. p = pre @ w # mid @ [w])"

text \<open>Black nodes are closed under edges and reach no cycle; the stack is the chain of
  gray nodes and ends next to the node being visited.\<close>

definition black_ok :: "(node_id \<Rightarrow> edge_info list) \<Rightarrow> (node_id \<Rightarrow> colour) \<Rightarrow> bool" where
  "black_ok adj col \<longleftrightarrow>
     (\<forall>b. col b = Black \<longrightarrow> \<not> reaches_cycle adj b \<and> (\<forall>s \<in> succs adj b. col s = Black))"

definition stack_ok :: "(node_id \<Rightarrow> edge_info list) \<Rightarrow> (node_id \<Rightarrow> colour) \<Rightarrow> node_id list \<Rightarrow> bool" where
  "stack_ok adj col path \<longleftrightarrow>
     set path = {x. col x = Gray} \<and>
     successively (\<lambda>u v. (u, v) \<in> edge_rel adj) path"

lemma successively_snoc:
  "successively P (xs @ [x]) \<longleftrightarrow> successively P xs \<and> (xs = [] \<or> P (last xs) x)"
  by (auto simp: successively_append_iff)

lemma reaches_cycle_step:
  assumes "reaches_cycle adj v"
  shows "(v, v) \<in> (edge_rel adj)\<^sup>+ \<or> (\<exists>s \<in> succs adj v. reaches_cycle adj s)"
proof -
  obtain w where w: "(v, w) \<in> (edge_rel adj)\<^sup>*" "(w, w) \<in> (edge_rel adj)\<^sup>+"
    using assms by (auto simp: reaches_cycle_def)
  from w(1) show ?thesis
  proof (cases rule: converse_rtranclE)
    case base
    with w(2) show ?thesis by simp
  next
    case (step s)
    with w(2) show ?thesis by (auto simp: reaches_cycle_def edge_rel_def)
  qed
qed

lemma black_closed:
  assumes "black_ok adj col" "col u = Black" "(u, w) \<in> (edge_rel adj)\<^sup>*"
  shows "col w = Black"
  using assms(3,2)
proof (induction rule: rtrancl_induct)
  case (step y z)
  then show ?case using assms(1) by (auto simp: black_ok_def edge_rel_def)
qed simp

lemma blacken_ok:
  assumes ok: "black_ok adj col" and v: "col v \<noteq> Black"
    and succs_black: "\<forall>s \<in> succs adj v. col s = Black"
  shows "black_ok adj (col(v := Black))"
proof -
  have "\<not> reaches_cycle adj v"
  proof
    assume "reaches_cycle adj v"
    then consider "(v, v) \<in> (edge_rel adj)\<^sup>+" | s where "s \<in> succs adj v" "reaches_cycle adj s"
      using reaches_cycle_step by blast
    then show False
    proof cases
      case 1
      then obtain s where "(v, s) \<in> edge_rel adj" "(s, v) \<in> (edge_rel adj)\<^sup>*"
        by (meson tranclD)
      then show False
        using black_closed [OF ok] succs_black v by (auto simp: edge_rel_def)
    next
      case 2
      then show False using ok succs_black by (auto simp: black_ok_def)
    qed
  qed
  with assms show ?thesis by (auto simp: black_ok_def)
qed

definition dfs_post where
  "dfs_post adj v col path found col' path' \<longleftrightarrow>
     (if found then cycle_path adj path' \<and> hd path' = hd (path @ [v])
      else path' = path \<and> black_ok adj col' \<and> stack_ok adj col' path \<and> col' v = Black \<and>
           (\<forall>x. col x = Black \<longrightarrow> col' x = Black))"

lemma found_cycle:
  assumes "stack_ok adj col (path @ [v])" "t \<in> succs adj v" "col t = Gray"
  shows "cycle_path adj ((path @ [v]) @ [t])"
proof -
  have "t \<in> set (path @ [v])" using assms unfolding stack_ok_def by blast
  then obtain pre mid where "path @ [v] = pre @ t # mid" by (meson split_list)
  then have "(path @ [v]) @ [t] = pre @ t # mid @ [t]" by simp
  moreover have "successively (\<lambda>u v. (u, v) \<in> edge_rel adj) ((path @ [v]) @ [t])"
    using assms by (subst successively_snoc) (simp add: stack_ok_def edge_rel_def)
  ultimately show ?thesis unfolding cycle_path_def by blast
qed

lemma dfs_correct:
  "dfs fuel adj v col path = Some (found, col', path') \<Longrightarrow>
     col v = White \<Longrightarrow> black_ok adj col \<Longrightarrow> stack_ok adj col path \<Longrightarrow>
     path = [] \<or> (last path, v) \<in> edge_rel adj \<Longrightarrow>
     dfs_post adj v col path found col' path'"
  "dfs_edges fuel adj es v col path = Some (found, col', path') \<Longrightarrow>
     path = stack @ [v] \<Longrightarrow> black_ok adj col \<Longrightarrow> stack_ok adj col path \<Longrightarrow> v \<notin> set stack \<Longrightarrow>
     ei_target_id ` set es \<subseteq> succs adj v \<Longrightarrow>
     \<forall>s \<in> succs adj v - ei_target_id ` set es. col s = Black \<Longrightarrow>
     dfs_post adj v col stack found col' path'"
proof (induction fuel adj v col path and fuel adj es v col path
    arbitrary: found col' path' and found col' path' stack rule: dfs_dfs_edges.induct)
  case (2 fuel adj v col path)
  have st: "stack_ok adj (col(v := Gray)) (path @ [v])" and fresh: "v \<notin> set path"
    using "2.prems" by (auto simp: stack_ok_def successively_snoc)
  have bk: "black_ok adj (col(v := Gray))"
    using "2.prems"(2,3) unfolding black_ok_def by (metis colour.distinct(1,3,5) fun_upd_apply)
  have "dfs_edges fuel adj (adj v) v (col(v := Gray)) (path @ [v]) = Some (found, col', path')"
    using "2.prems"(1) by simp
  then have "dfs_post adj v (col(v := Gray)) path found col' path'"
    by (rule "2.IH" [OF _ refl bk st fresh]) (auto simp: succs_def)
  then show ?case
    using "2.prems"(2) by (auto simp: dfs_post_def split: if_splits)
next
  case (3 fuel adj v col path)
  have res: "\<not> found" "col' = col(v := Black)" "path' = stack"
    using "3.prems"(1,2) by auto
  have "col v = Gray"
    using "3.prems"(2,4) by (auto simp: stack_ok_def)
  then have "black_ok adj col'"
    using blacken_ok [of adj col v] "3.prems"(3,7) res by simp
  moreover have "stack_ok adj col' stack"
    using "3.prems"(2,4,5) by (auto simp: res stack_ok_def successively_snoc)
  moreover have "col' v = Black" "\<forall>x. col x = Black \<longrightarrow> col' x = Black"
    by (simp_all add: res)
  ultimately show ?case using res(1,3) by (simp add: dfs_post_def)
next
  case (4 fuel adj e es v col path)
  show ?case
  proof (cases "col (ei_target_id e)")
    case Gray
    then show ?thesis
      using "4.prems" found_cycle [of adj col stack v "ei_target_id e"]
      by (auto simp: dfs_post_def hd_append)
  next
    case Black
    have rest: "\<forall>s \<in> succs adj v - ei_target_id ` set es. col s = Black"
      using "4.prems"(7) Black by auto
    have "dfs_edges fuel adj es v col path = Some (found, col', path')"
      using "4.prems"(1) Black by simp
    then show ?thesis
      using "4.IH"(3) [OF Black _ "4.prems"(2-5) _ rest] "4.prems"(6) by simp
  next
    case White
    then obtain f1 c1 p1 where d: "dfs fuel adj (ei_target_id e) col path = Some (f1, c1, p1)"
      using "4.prems"(1) by (auto split: option.splits)
    have "path = [] \<or> (last path, ei_target_id e) \<in> edge_rel adj"
      using "4.prems"(2,6) by (auto simp: edge_rel_def)
    then have post: "dfs_post adj (ei_target_id e) col path f1 c1 p1"
      by (rule "4.IH"(1) [OF White d White "4.prems"(3,4)])
    show ?thesis
    proof (cases f1)
      case True
      then have "found" "path' = p1" using "4.prems"(1) White d by auto
      then show ?thesis using True post "4.prems"(2) by (simp add: dfs_post_def hd_append)
    next
      case False
      then have c1: "black_ok adj c1" "stack_ok adj c1 path" "p1 = path"
          "c1 (ei_target_id e) = Black" and mono: "\<forall>x. col x = Black \<longrightarrow> c1 x = Black"
        using post by (simp_all add: dfs_post_def)
      have rest: "\<forall>s \<in> succs adj v - ei_target_id ` set es. c1 s = Black"
        using "4.prems"(7) c1(4) mono by auto
      have "dfs_edges fuel adj es v c1 p1 = Some (found, col', path')"
        using "4.prems"(1) White d False by simp
      then have "dfs_post adj v c1 stack found col' path'"
        using "4.IH"(2) [OF White d refl refl False _ _ c1(1) _ "4.prems"(5) _ rest]
          "4.prems"(2,6) c1(2,3) by simp
      then show ?thesis using mono by (auto simp: dfs_post_def)
    qed
  qed
qed simp

definition whites :: "node_id set \<Rightarrow> (node_id \<Rightarrow> colour) \<Rightarrow> node_id set" where
  "whites V col = {x \<in> V. col x = White}"

lemma whites_finite: "finite V \<Longrightarrow> finite (whites V col)"
  by (simp add: whites_def)

lemma whites_paint: "c \<noteq> White \<Longrightarrow> whites V (col(v := c)) \<subseteq> whites V col"
  by (auto simp: whites_def)

lemma whites_gray_card:
  assumes "finite V" "v \<in> V" "col v = White"
  shows "card (whites V (col(v := Gray))) < card (whites V col)"
proof (rule psubset_card_mono)
  show "finite (whites V col)" by (rule whites_finite [OF assms(1)])
  have "v \<in> whites V col" "v \<notin> whites V (col(v := Gray))"
    using assms by (simp_all add: whites_def)
  then show "whites V (col(v := Gray)) \<subset> whites V col"
    using whites_paint [of Gray V col v] by auto
qed

lemma dfs_total:
  "finite V \<Longrightarrow> (\<And>u. succs adj u \<subseteq> V) \<Longrightarrow> v \<in> V \<Longrightarrow> col v = White \<Longrightarrow>
     card (whites V col) \<le> fuel \<Longrightarrow>
     \<exists>found col' path'. dfs fuel adj v col path = Some (found, col', path') \<and>
       whites V col' \<subseteq> whites V col"
  "finite V \<Longrightarrow> (\<And>u. succs adj u \<subseteq> V) \<Longrightarrow> ei_target_id ` set es \<subseteq> V \<Longrightarrow>
     card (whites V col) \<le> fuel \<Longrightarrow>
     \<exists>found col' path'. dfs_edges fuel adj es v col path = Some (found, col', path') \<and>
       whites V col' \<subseteq> whites V col"
proof (induction fuel adj v col path and fuel adj es v col path rule: dfs_dfs_edges.induct)
  case (1 adj v col path)
  then have "v \<in> whites V col" "whites V col = {}"
    using whites_finite by (auto simp: whites_def)
  then show ?case by simp
next
  case (2 fuel adj v col path)
  have "card (whites V (col(v := Gray))) \<le> fuel"
    using whites_gray_card [of V v col, OF "2.prems"(1,3,4)] "2.prems"(5) by linarith
  then obtain f c p where "dfs_edges fuel adj (adj v) v (col(v := Gray)) (path @ [v]) = Some (f, c, p)"
      "whites V c \<subseteq> whites V (col(v := Gray))"
    using "2.IH" "2.prems"(1,2) by (metis succs_def)
  then show ?case using whites_paint [of Gray V col v] by auto
next
  case (3 fuel adj v col path)
  then show ?case using whites_paint [of Black V col v] by auto
next
  case (4 fuel adj e es v col path)
  show ?case
  proof (cases "col (ei_target_id e)")
    case Gray
    then show ?thesis by auto
  next
    case Black
    then show ?thesis using "4.IH"(3) "4.prems" by simp
  next
    case White
    then obtain f c p where d: "dfs fuel adj (ei_target_id e) col path = Some (f, c, p)"
        and c: "whites V c \<subseteq> whites V col"
      using "4.IH"(1) [OF White "4.prems"(1,2) _ White "4.prems"(4)] "4.prems"(3) by auto
    show ?thesis
    proof (cases f)
      case True
      then show ?thesis using White d c by auto
    next
      case False
      have "card (whites V c) \<le> fuel"
        using card_mono [OF whites_finite c] "4.prems"(1,4) by (meson order_trans)
      then show ?thesis
        using "4.IH"(2) [OF White d refl refl False "4.prems"(1,2)] "4.prems"(3) White d False c
        by fastforce
    qed
  qed
qed

lemma detect_from_correct:
  assumes "detect_from fuel adj ns col = Some (found, path)"
    and "black_ok adj col" "stack_ok adj col []"
  shows "if found then cycle_path adj path \<and> hd path \<in> set ns
         else (\<forall>n \<in> set ns. \<not> reaches_cycle adj n)"
  using assms
proof (induction ns arbitrary: col)
  case (Cons n ns)
  show ?case
  proof (cases "col n = White")
    case False
    then have "col n = Black"
      using Cons.prems(3) by (cases "col n") (auto simp: stack_ok_def)
    then have "\<not> reaches_cycle adj n" using Cons.prems(2) by (simp add: black_ok_def)
    then show ?thesis using False Cons.IH [OF _ Cons.prems(2,3)] Cons.prems(1) by auto
  next
    case True
    then obtain f c p where d: "dfs fuel adj n col [] = Some (f, c, p)"
      using Cons.prems(1) by (auto split: option.splits)
    have post: "dfs_post adj n col [] f c p"
      by (rule dfs_correct(1) [OF d True Cons.prems(2,3)]) simp
    show ?thesis
    proof (cases f)
      case f: True
      then have "found" "path = p" using Cons.prems(1) True d by auto
      then show ?thesis using post f by (simp add: dfs_post_def)
    next
      case f: False
      then have ok: "black_ok adj c" "stack_ok adj c []" "c n = Black"
        using post by (auto simp: dfs_post_def)
      then have "\<not> reaches_cycle adj n" by (auto simp: black_ok_def)
      then show ?thesis using Cons.IH [OF _ ok(1,2)] Cons.prems(1) True d f by auto
    qed
  qed
qed simp

lemma detect_from_total:
  assumes "finite V" "\<And>u. succs adj u \<subseteq> V" "set ns \<subseteq> V" "card (whites V col) \<le> fuel"
  shows "detect_from fuel adj ns col \<noteq> None"
  using assms(3,4)
proof (induction ns arbitrary: col)
  case (Cons n ns)
  show ?case
  proof (cases "col n = White")
    case True
    obtain f c p where d: "dfs fuel adj n col [] = Some (f, c, p)"
        and c: "whites V c \<subseteq> whites V col"
      using dfs_total(1) [where fuel = fuel and col = col and path = "[]", OF assms(1,2) _ True]
      Cons.prems by fastforce
    have "card (whites V c) \<le> fuel"
      using card_mono [OF whites_finite c] assms(1) Cons.prems(2) by (meson order_trans)
    then show ?thesis using Cons True d by auto
  qed (use Cons in auto)
qed simp

subsection \<open>The graph of a definition\<close>

definition deps :: "workflow \<Rightarrow> edge list" where
  "deps w = filter (\<lambda>e. \<not> ed_internal e) (wf_edges w)"

definition dep_rel :: "workflow \<Rightarrow> (node_id \<times> node_id) set" where
  "dep_rel w = {(ed_source_id e, ed_target_id e) | e. e \<in> set (deps w)}"

definition node_ids :: "workflow \<Rightarrow> node_id set" where
  "node_ids w = nd_id ` set (wf_nodes w)"

definition edges_declared :: "workflow \<Rightarrow> bool" where
  "edges_declared w \<longleftrightarrow>
     (\<forall>e \<in> set (deps w). ed_source_id e \<in> node_ids w \<and> ed_target_id e \<in> node_ids w)"

lemma load_nodes:
  "foldl dag_add_node g ns =
     g\<lparr>dg_node_map := dg_node_map g ++ map_of (rev (map (\<lambda>n. (nd_id n, n)) ns)),
       dg_in_degree := (\<lambda>x. if x \<in> nd_id ` set ns then 0 else dg_in_degree g x),
       dg_adj := (\<lambda>x. if x \<in> nd_id ` set ns then [] else dg_adj g x)\<rparr>"
  by (induction ns arbitrary: g) (auto simp: map_add_def fun_eq_iff split: option.splits)

lemma load_edges:
  "dg_adj (foldl dag_add_edge g es) u =
     dg_adj g u @ map edge_info_of (filter (\<lambda>e. \<not> ed_internal e \<and> ed_source_id e = u) es)"
  "dg_in_degree (foldl dag_add_edge g es) u =
     dg_in_degree g u + int (length (filter (\<lambda>e. \<not> ed_internal e \<and> ed_target_id e = u) es))"
  "dg_workflow (foldl dag_add_edge g es) = dg_workflow g"
  "dg_node_map (foldl dag_add_edge g es) = dg_node_map g"
  "dg_root_nodes (foldl dag_add_edge g es) = dg_root_nodes g"
  by (induction es arbitrary: g) auto

lemma dag_load_simps [simp]:
  "dg_workflow (dag_load w) = w"
  "dg_node_map (dag_load w) = map_of (rev (map (\<lambda>n. (nd_id n, n)) (wf_nodes w)))"
  "dg_adj (dag_load w) u = map edge_info_of (filter (\<lambda>e. ed_source_id e = u) (deps w))"
  "dg_in_degree (dag_load w) u = int (length (filter (\<lambda>e. ed_target_id e = u) (deps w)))"
  by (simp_all add: dag_load_def load_edges load_nodes dag_empty_def deps_def)

lemma build_root_nodes_simps [simp]:
  "dg_workflow (build_root_nodes g) = dg_workflow g"
  "dg_node_map (build_root_nodes g) = dg_node_map g"
  "dg_adj (build_root_nodes g) = dg_adj g"
  "dg_in_degree (build_root_nodes g) = dg_in_degree g"
  by (simp_all add: build_root_nodes_def)

lemma edge_rel_load: "edge_rel (dg_adj (dag_load w)) = dep_rel w"
  by (auto simp: edge_rel_def succs_def dep_rel_def edge_info_of_def image_iff)

lemma succs_load: "succs (dg_adj (dag_load w)) u \<subseteq> node_ids w \<union> ed_target_id ` set (deps w)"
  by (auto simp: succs_def edge_info_of_def)

definition dag_vertices :: "workflow \<Rightarrow> node_id set" where
  "dag_vertices w = node_ids w \<union> ed_target_id ` set (deps w)"

lemma dag_vertices_finite: "finite (dag_vertices w)"
  by (simp add: dag_vertices_def node_ids_def)

lemma dag_vertices_card: "card (dag_vertices w) \<le> length (wf_nodes w) + length (wf_edges w)"
proof -
  have "card (dag_vertices w) \<le> card (node_ids w) + card (ed_target_id ` set (deps w))"
    by (simp add: dag_vertices_def card_Un_le)
  also have "\<dots> \<le> length (wf_nodes w) + length (deps w)"
    unfolding node_ids_def by (meson add_mono card_image_le card_length finite_set order_trans)
  also have "\<dots> \<le> length (wf_nodes w) + length (wf_edges w)"
    by (simp add: deps_def)
  finally show ?thesis .
qed

lemma detect_cycle_total: "detect_cycle (dag_load w) \<noteq> None"
proof -
  have "card (whites (dag_vertices w) (\<lambda>_. White)) \<le> dag_fuel w"
    using dag_vertices_card [of w] by (simp add: whites_def dag_fuel_def)
  then show ?thesis
    unfolding detect_cycle_def
    by (intro detect_from_total [OF dag_vertices_finite])
       (use succs_load in \<open>auto simp: dag_vertices_def node_ids_def\<close>)
qed

lemma new_dag_cases:
  obtains (cycle) p where "new_dag w = Inl (DagHasCycle p)" "detect_cycle (dag_load w) = Some (True, p)"
        | (ok) p where "new_dag w = Inr (build_root_nodes (dag_load w))"
            "detect_cycle (dag_load w) = Some (False, p)"
proof -
  obtain found p where d: "detect_cycle (dag_load w) = Some (found, p)"
    using detect_cycle_total [of w] by auto
  show ?thesis
    using d cycle [of p] ok [of p] by (cases found) (simp_all add: new_dag_def)
qed

lemma detect_cycle_correct:
  assumes "detect_cycle (dag_load w) = Some (found, path)"
  shows "if found then cycle_path (dg_adj (dag_load w)) path \<and> hd path \<in> node_ids w
         else (\<forall>n \<in> node_ids w. \<not> reaches_cycle (dg_adj (dag_load w)) n)"
  using detect_from_correct [OF assms [unfolded detect_cycle_def]]
  by (simp add: black_ok_def stack_ok_def node_ids_def split: if_splits)

lemma new_dag_Inr:
  assumes "new_dag w = Inr g"
  shows "g = build_root_nodes (dag_load w)"
    "\<And>n. n \<in> node_ids w \<Longrightarrow> \<not> reaches_cycle (dg_adj (dag_load w)) n"
  using assms detect_cycle_correct by (cases w rule: new_dag_cases; force)+

lemma new_dag_acyclic:
  assumes "new_dag w = Inr g" "edges_declared w"
  shows "acyclic (dep_rel w)"
proof (rule acyclicI, intro allI notI)
  fix v
  assume v: "(v, v) \<in> (dep_rel w)\<^sup>+"
  then obtain u where "(v, u) \<in> dep_rel w" by (meson tranclD)
  then have "v \<in> node_ids w"
    using assms(2) by (auto simp: dep_rel_def edges_declared_def)
  then show False
    using new_dag_Inr(2) [OF assms(1)] v by (auto simp: reaches_cycle_def edge_rel_load)
qed

lemma dep_rel_finite: "finite (dep_rel w)"
proof -
  have "dep_rel w = (\<lambda>e. (ed_source_id e, ed_target_id e)) ` set (deps w)"
    by (auto simp: dep_rel_def)
  then show ?thesis by simp
qed

lemma minimal_open_node:
  assumes "acyclic (dep_rel w)" "edges_declared w" "v \<in> node_ids w" "v \<notin> D"
  obtains u where "u \<in> node_ids w" "u \<notin> D" "\<And>x. (x, u) \<in> dep_rel w \<Longrightarrow> x \<in> D"
proof -
  have "wf (dep_rel w)"
    using finite_acyclic_wf [OF dep_rel_finite assms(1)] .
  moreover have "v \<in> node_ids w - D" using assms(3,4) by simp
  ultimately obtain u where "u \<in> node_ids w - D"
      "\<And>y. (y, u) \<in> dep_rel w \<Longrightarrow> y \<notin> node_ids w - D"
    by (rule wfE_min) blast
  then show ?thesis
    using assms(2) by (intro that [of u]) (auto simp: dep_rel_def edges_declared_def)
qed

subsection \<open>Ready nodes\<close>

lemma get_dep_nodes_load:
  "dg_workflow g = w \<Longrightarrow> x \<in> set (get_dep_nodes g v) \<longleftrightarrow> (x, v) \<in> dep_rel w"
  by (auto simp: get_dep_nodes_def dep_rel_def deps_def)

lemma set_get_ready_nodes:
  "dg_workflow g = w \<Longrightarrow>
     n \<in> set (get_ready_nodes g completed) \<longleftrightarrow>
       n \<in> set (wf_nodes w) \<and> \<not> completed (nd_id n) \<and>
       (\<forall>x. (x, nd_id n) \<in> dep_rel w \<longrightarrow> completed x)"
  by (auto simp: get_ready_nodes_def list_all_iff get_dep_nodes_load)

lemma ready_progress:
  assumes "new_dag w = Inr g" "edges_declared w" "n \<in> set (wf_nodes w)" "\<not> completed (nd_id n)"
  shows "get_ready_nodes g completed \<noteq> []"
proof -
  have g: "dg_workflow g = w" using new_dag_Inr(1) [OF assms(1)] by simp
  have "nd_id n \<in> node_ids w" "nd_id n \<notin> {x. completed x}"
    using assms(3,4) by (auto simp: node_ids_def)
  then obtain u where u: "u \<in> node_ids w" "u \<notin> {x. completed x}"
      "\<And>x. (x, u) \<in> dep_rel w \<Longrightarrow> x \<in> {x. completed x}"
    by (rule minimal_open_node [OF new_dag_acyclic [OF assms(1,2)] assms(2)]) blast
  then obtain m where "m \<in> set (wf_nodes w)" "nd_id m = u"
    by (auto simp: node_ids_def)
  then have "m \<in> set (get_ready_nodes g completed)"
    using u set_get_ready_nodes [OF g] by auto
  then show ?thesis by auto
qed

subsection \<open>Kahn's algorithm\<close>

definition pending :: "workflow \<Rightarrow> node_id set \<Rightarrow> node_id \<Rightarrow> nat" where
  "pending w D t = length (filter (\<lambda>e. ed_target_id e = t \<and> ed_source_id e \<notin> D) (deps w))"

definition fan :: "edge_info list \<Rightarrow> node_id \<Rightarrow> nat" where
  "fan es t = length (filter (\<lambda>e. ei_target_id e = t) es)"

lemma fan_Cons [simp]: "fan (e # es) t = (if ei_target_id e = t then Suc (fan es t) else fan es t)"
  and fan_Nil [simp]: "fan [] t = 0"
  by (simp_all add: fan_def)

lemma pending_0: "pending w D t = 0 \<longleftrightarrow> (\<forall>x. (x, t) \<in> dep_rel w \<longrightarrow> x \<in> D)"
  by (auto simp: pending_def filter_empty_conv dep_rel_def)

lemma pending_pop:
  assumes "v \<notin> D"
  shows "pending w D t = pending w (insert v D) t + fan (dg_adj (dag_load w) v) t"
proof -
  have "length (filter (\<lambda>e. ed_target_id e = t \<and> ed_source_id e \<notin> D) es) =
        length (filter (\<lambda>e. ed_target_id e = t \<and> ed_source_id e \<notin> insert v D) es) +
        fan (map edge_info_of (filter (\<lambda>e. ed_source_id e = v) es)) t" for es
    using assms by (induction es) (auto simp: edge_info_of_def)
  then show ?thesis by (simp add: pending_def)
qed

lemma topo_edges_deg:
  "topo_edges es deg q = (deg', q') \<Longrightarrow> deg' t = deg t - int (fan es t)"
  by (induction es arbitrary: deg q) (auto simp: Let_def split: if_splits)

lemma topo_edges_queue:
  assumes "topo_edges es deg q = (deg', q')" "\<And>t. int (fan es t) \<le> deg t"
  shows "\<exists>qs. q' = q @ qs \<and> distinct qs \<and> set qs = {t. fan es t > 0 \<and> deg' t = 0}"
  using assms
proof (induction es arbitrary: deg q)
  case (Cons e es)
  let ?t = "ei_target_id e"
  let ?deg = "deg(?t := deg ?t - 1)"
  let ?q = "if ?deg ?t = 0 then q @ [?t] else q"
  have run: "topo_edges es ?deg ?q = (deg', q')"
    using Cons.prems(1) by (simp add: Let_def)
  have le: "int (fan es t) \<le> ?deg t" for t
    using Cons.prems(2) [of t] by auto
  have final: "deg' ?t = ?deg ?t - int (fan es ?t)"
    by (rule topo_edges_deg [OF run])
  obtain qs where qs: "q' = ?q @ qs" "distinct qs" "set qs = {t. fan es t > 0 \<and> deg' t = 0}"
    using Cons.IH [OF run le] by blast
  show ?case
  proof (cases "?deg ?t = 0")
    case True
    then have "fan es ?t = 0" using le [of ?t] by simp
    then show ?thesis
      using qs True final by (intro exI [of _ "?t # qs"]) auto
  next
    case False
    then show ?thesis using qs final by (intro exI [of _ qs]) auto
  qed
qed simp

definition kahn_inv :: "workflow \<Rightarrow> (node_id \<Rightarrow> int) \<Rightarrow> node_id list \<Rightarrow> node_id list \<Rightarrow> bool" where
  "kahn_inv w deg queue out \<longleftrightarrow>
     (\<forall>t. deg t = int (pending w (set out) t)) \<and>
     distinct (out @ queue) \<and>
     set (out @ queue) = {x \<in> dag_vertices w. pending w (set out) x = 0} \<and>
     (\<forall>i < length out. \<forall>x. (x, out ! i) \<in> dep_rel w \<longrightarrow> x \<in> set (take i out))"

lemma kahn_step:
  assumes inv: "kahn_inv w deg (v # queue) out"
    and run: "topo_edges (dg_adj (dag_load w) v) deg queue = (deg', queue')"
  shows "kahn_inv w deg' queue' (out @ [v])"
proof -
  let ?adj = "dg_adj (dag_load w) v"
  have v: "v \<notin> set out" and deg: "\<And>t. deg t = int (pending w (set out) t)"
    and dist: "distinct (out @ v # queue)"
    and verts: "set (out @ v # queue) = {x \<in> dag_vertices w. pending w (set out) x = 0}"
    using inv by (auto simp: kahn_inv_def)
  note pop = pending_pop [OF v, of w]
  have deg': "deg' t = int (pending w (set (out @ [v])) t)" for t
    using topo_edges_deg [OF run, of t] deg [of t] pop [of t] by simp
  obtain qs where qs: "queue' = queue @ qs" "distinct qs"
      "set qs = {t. fan ?adj t > 0 \<and> deg' t = 0}"
    using topo_edges_queue [OF run] deg pop by (metis le_add2 of_nat_mono)
  have fresh: "t \<notin> set (out @ v # queue)" if "fan ?adj t > 0" for t
    using that pop [of t] verts by auto
  have fan_vertex: "t \<in> dag_vertices w" if "fan ?adj t > 0" for t
    using that by (auto simp: fan_def dag_vertices_def edge_info_of_def filter_empty_conv)
  have pend: "pending w (set (out @ [v])) x = 0"
    if x: "x \<in> set (out @ v # queue)" for x
  proof -
    have "pending w (set out) x = 0" using x unfolding verts by blast
    then show ?thesis using pop [of x] by simp
  qed
  have "set ((out @ [v]) @ queue') = {x \<in> dag_vertices w. pending w (set (out @ [v])) x = 0}"
    (is "?L = ?R")
  proof
    show "?L \<subseteq> ?R"
    proof
      fix x assume "x \<in> ?L"
      then consider "x \<in> set (out @ v # queue)" | "x \<in> set qs"
        using qs(1) by auto
      then show "x \<in> ?R"
      proof cases
        case 1
        then show ?thesis using pend verts by blast
      next
        case 2
        then show ?thesis using qs(3) fan_vertex deg' [of x] by simp
      qed
    qed
    show "?R \<subseteq> ?L"
    proof
      fix x assume x: "x \<in> ?R"
      show "x \<in> ?L"
      proof (cases "fan ?adj x > 0")
        case True
        then show ?thesis using x qs(1,3) deg' by simp
      next
        case False
        then have "x \<in> set (out @ v # queue)" using x pop [of x] verts by simp
        then show ?thesis using qs(1) by auto
      qed
    qed
  qed
  moreover have "t \<notin> set (out @ v # queue)" if "t \<in> set qs" for t
    using that fresh unfolding qs(3) by blast
  then have "distinct ((out @ [v]) @ queue')"
    using dist qs(2) unfolding qs(1) by (simp add: disjoint_iff) blast
  moreover have "v \<in> set (out @ v # queue)" by simp
  then have "pending w (set out) v = 0"
    unfolding verts by blast
  then have "\<forall>x. (x, v) \<in> dep_rel w \<longrightarrow> x \<in> set out"
    by (simp only: pending_0)
  then have "\<forall>i < length (out @ [v]). \<forall>x. (x, (out @ [v]) ! i) \<in> dep_rel w \<longrightarrow>
      x \<in> set (take i (out @ [v]))"
    using inv by (simp add: kahn_inv_def nth_append less_Suc_eq)
  ultimately show ?thesis
    using deg' by (simp add: kahn_inv_def)
qed

lemma topo_loop_inv:
  assumes "dg_adj g = dg_adj (dag_load w)" "kahn_inv w deg queue out"
    "card (dag_vertices w) \<le> fuel + length out"
  shows "\<exists>res deg'. topo_loop fuel g deg queue out = Some res \<and> kahn_inv w deg' [] res"
  using assms
proof (induction fuel g deg queue out rule: topo_loop.induct)
  case (2 g deg v queue result)
  then have "set (result @ v # queue) \<subseteq> dag_vertices w" "distinct (result @ v # queue)"
    by (auto simp: kahn_inv_def)
  then have "length (result @ v # queue) \<le> card (dag_vertices w)"
    by (metis card_mono dag_vertices_finite distinct_card)
  then show ?case using "2.prems"(3) by simp
next
  case (3 fuel g deg v queue result)
  obtain deg' queue' where run: "topo_edges (dg_adj g v) deg queue = (deg', queue')"
    by fastforce
  then have "kahn_inv w deg' queue' (result @ [v])"
    using kahn_step "3.prems" by metis
  then show ?case using "3.IH" [OF run [symmetric] refl "3.prems"(1)] "3.prems"(3) run by simp
qed auto

lemma kahn_init:
  assumes "distinct (map nd_id (wf_nodes w))"
  shows "kahn_inv w (dg_in_degree (dag_load w))
           (map nd_id (dg_root_nodes (build_root_nodes (dag_load w)))) []"
proof -
  let ?roots = "dg_root_nodes (build_root_nodes (dag_load w))"
  have deg: "dg_in_degree (dag_load w) t = int (pending w {} t)" for t
    by (simp add: pending_def)
  have roots: "set ?roots = {n \<in> set (wf_nodes w). pending w {} (nd_id n) = 0}"
    using deg by (auto simp: build_root_nodes_def)
  have "inj_on nd_id (set (wf_nodes w))" "distinct (wf_nodes w)"
    using assms by (simp_all add: distinct_map)
  then have "distinct (map nd_id ?roots)"
    by (auto simp: distinct_map build_root_nodes_def intro: inj_on_subset)
  moreover have "pending w {} x \<noteq> 0" if "x \<in> ed_target_id ` set (deps w)" for x
    using that by (auto simp: pending_def filter_empty_conv)
  then have "set (map nd_id ?roots) = {x \<in> dag_vertices w. pending w {} x = 0}"
    using roots by (fastforce simp: dag_vertices_def node_ids_def)
  ultimately show ?thesis using deg by (simp add: kahn_inv_def)
qed

lemma kahn_complete:
  assumes "kahn_inv w deg [] out" "acyclic (dep_rel w)" "edges_declared w"
  shows "set out = node_ids w"
proof -
  have verts: "dag_vertices w = node_ids w"
    using assms(3) by (auto simp: dag_vertices_def edges_declared_def)
  have out: "set out = {x \<in> node_ids w. pending w (set out) x = 0}"
    using assms(1) by (simp add: kahn_inv_def verts)
  have "v \<in> set out" if "v \<in> node_ids w" for v
  proof (rule ccontr)
    assume "v \<notin> set out"
    with that obtain u where u: "u \<in> node_ids w" "u \<notin> set out"
        "\<And>x. (x, u) \<in> dep_rel w \<Longrightarrow> x \<in> set out"
      by (rule minimal_open_node [OF assms(2,3)]) blast
    then have "pending w (set out) u = 0" by (simp add: pending_0)
    then show False using u(1,2) out by blast
  qed
  then show ?thesis using out by blast
qed

lemma node_map_load:
  assumes "distinct (map nd_id (wf_nodes w))" "n \<in> set (wf_nodes w)"
  shows "dg_node_map (dag_load w) (nd_id n) = Some n"
proof -
  have "distinct (map fst (rev (map (\<lambda>n. (nd_id n, n)) (wf_nodes w))))"
    using assms(1) by (simp add: rev_map comp_def flip: rev_map)
  then show ?thesis using assms(2) by (simp add: map_of_eq_Some_iff)
qed

text \<open>The result of the sort, as the list of node IDs it visits.\<close>

lemma topological_sort_ids:
  assumes "new_dag w = Inr g" "edges_declared w" "distinct (map nd_id (wf_nodes w))"
  obtains out where "topological_sort g = Inr (map (dg_node_map g) out)"
    "distinct out" "set out = node_ids w"
    "\<And>i x. i < length out \<Longrightarrow> (x, out ! i) \<in> dep_rel w \<Longrightarrow> x \<in> set (take i out)"
proof -
  have g: "g = build_root_nodes (dag_load w)" by (rule new_dag_Inr(1) [OF assms(1)])
  have adj: "dg_adj g = dg_adj (dag_load w)" by (simp add: g)
  have fuel: "card (dag_vertices w) \<le> dag_fuel w + length []"
    using dag_vertices_card [of w] by (simp add: dag_fuel_def)
  obtain out deg' where run: "topo_loop (dag_fuel w) g (dg_in_degree (dag_load w))
        (map nd_id (dg_root_nodes g)) [] = Some out" and inv: "kahn_inv w deg' [] out"
    using topo_loop_inv [OF adj kahn_init [OF assms(3), folded g] fuel] by blast
  have set_out: "set out = node_ids w"
    by (rule kahn_complete [OF inv new_dag_acyclic [OF assms(1,2)] assms(2)])
  have dist: "distinct out" using inv by (simp add: kahn_inv_def)
  have "length out = length (wf_nodes w)"
    using distinct_card [OF dist] distinct_card [OF assms(3)] set_out by (simp add: node_ids_def)
  then have "topological_sort g = Inr (map (dg_node_map g) out)"
    using run by (simp add: topological_sort_def g)
  then show ?thesis
    using that dist set_out inv by (simp add: kahn_inv_def)
qed

subsection \<open>Sample graphs for the witnesses\<close>

definition sample_node :: "node_id \<Rightarrow> node_type \<Rightarrow> int \<Rightarrow> node" where
  "sample_node i ty k =
     \<lparr>nd_id = i, nd_workflow_id = ''w'', nd_name = i, nd_type = ty, nd_description = [], nd_timeout = 0,
      nd_max_retries = 0, nd_retry_delay = 0, nd_retry_mode = ''LINEAR'', nd_retry_max_delay = 300,
      nd_skip_on_failure = False, nd_config = None, nd_input_mapping = None,
      nd_output_mapping = None, nd_condition_expr = [], nd_parallel_branches = 1,
      nd_output_schema = None, nd_order_no = k, nd_created_at = 0, nd_updated_at = 0\<rparr>"

definition sample_edge :: "node_id \<Rightarrow> node_id \<Rightarrow> string \<Rightarrow> edge" where
  "sample_edge s t port =
     \<lparr>ed_id = s @ t, ed_workflow_id = ''w'', ed_source_id = s, ed_target_id = t,
      ed_source_port = port, ed_target_port = [], ed_condition_expr = [], ed_label = [],
      ed_internal = False, ed_order_no = 0, ed_created_at = 0\<rparr>"

definition sample_workflow :: "node list \<Rightarrow> edge list \<Rightarrow> workflow" where
  "sample_workflow ns es =
     \<lparr>wf_id = ''w'', wf_name = ''sample'', wf_description = [], wf_version = 1, wf_status = WfActive, wf_timeout = 0,
      wf_max_retries = 0, wf_nodes = ns, wf_edges = es,
      wf_created_at = 0, wf_updated_at = 0\<rparr>"

text \<open>A diamond whose nodes are declared out of order.\<close>

definition diamond :: workflow where
  "diamond = sample_workflow
     [sample_node ''d'' ''TEST'' 3, sample_node ''b'' ''TEST'' 2, sample_node ''c'' ''TEST'' 1,
      sample_node ''a'' ''TEST'' 0]
     [sample_edge ''a'' ''b'' [], sample_edge ''a'' ''c'' [], sample_edge ''b'' ''d'' [],
      sample_edge ''c'' ''d'' []]"

lemma diamond_new_dag: "new_dag diamond = Inr (projr (new_dag diamond))"
proof -
  have "\<not> isl (new_dag diamond)" by code_simp
  then show ?thesis by simp
qed

lemma diamond_declared: "edges_declared diamond"
  by (simp add: edges_declared_def deps_def node_ids_def diamond_def sample_workflow_def
      sample_edge_def sample_node_def)

lemma diamond_distinct: "distinct (map nd_id (wf_nodes diamond))"
  by (simp add: diamond_def sample_workflow_def sample_node_def)

subsection \<open>Properties\<close>

lemma reaches_cycle_load:
  "reaches_cycle (dg_adj (dag_load w)) n \<longleftrightarrow>
     (\<exists>v. (n, v) \<in> (dep_rel w)\<^sup>* \<and> (v, v) \<in> (dep_rel w)\<^sup>+)"
  by (simp add: reaches_cycle_def edge_rel_load)

lemma cycle_path_reaches:
  assumes "cycle_path adj p"
  shows "reaches_cycle adj (hd p)"
proof -
  have walk: "(x, last (x # xs)) \<in> (edge_rel adj)\<^sup>*"
    if "successively (\<lambda>u v. (u, v) \<in> edge_rel adj) (x # xs)" for x xs
    using that by (induction xs arbitrary: x) (auto intro: converse_rtrancl_into_rtrancl)
  obtain pre w mid where p: "p = pre @ w # mid @ [w]"
    and chain: "successively (\<lambda>u v. (u, v) \<in> edge_rel adj) p"
    using assms by (auto simp: cycle_path_def)
  have "successively (\<lambda>u v. (u, v) \<in> edge_rel adj) (w # mid @ [w])"
    using chain by (simp add: p successively_append_iff)
  then obtain y ys where y: "mid @ [w] = y # ys" "(w, y) \<in> edge_rel adj"
      "successively (\<lambda>u v. (u, v) \<in> edge_rel adj) (y # ys)"
    by (cases "mid @ [w]") auto
  then have "(y, w) \<in> (edge_rel adj)\<^sup>*"
    using walk [OF y(3)] by (metis last_snoc)
  then have loop: "(w, w) \<in> (edge_rel adj)\<^sup>+"
    using y(2) by (meson rtrancl_into_trancl2)
  have "successively (\<lambda>u v. (u, v) \<in> edge_rel adj) (pre @ [w])"
    using chain by (simp add: p successively_append_iff)
  then have "(hd p, w) \<in> (edge_rel adj)\<^sup>*"
    using walk [of "hd p" "tl (pre @ [w])"] by (cases pre) (auto simp: p)
  then show ?thesis using loop by (auto simp: reaches_cycle_def)
qed

text \<open>C2. Building the graph fails with a cycle error exactly when some declared node can
  reach a dependency cycle; the path reported in the error is a walk along the edges that
  starts at a declared node and ends by closing a cycle; in every other case the graph is
  built, so the colour search always ends and never runs out of fuel.\<close>

theorem new_dag_detects_cycles:
  "(\<exists>p. new_dag w = Inl (DagHasCycle p) \<and> cycle_path (dg_adj (dag_load w)) p \<and>
         hd p \<in> node_ids w) =
     (\<exists>n v. n \<in> node_ids w \<and> (n, v) \<in> (dep_rel w)\<^sup>* \<and> (v, v) \<in> (dep_rel w)\<^sup>+) \<and>
   (\<exists>g. new_dag w = Inr g) =
     (\<nexists>n v. n \<in> node_ids w \<and> (n, v) \<in> (dep_rel w)\<^sup>* \<and> (v, v) \<in> (dep_rel w)\<^sup>+)"
proof (cases w rule: new_dag_cases)
  case (cycle p)
  then have "cycle_path (dg_adj (dag_load w)) p" "hd p \<in> node_ids w"
    using detect_cycle_correct [of w True p] by simp_all
  moreover have "reaches_cycle (dg_adj (dag_load w)) (hd p)"
    using calculation(1) by (rule cycle_path_reaches)
  ultimately have "\<exists>n v. n \<in> node_ids w \<and> (n, v) \<in> (dep_rel w)\<^sup>* \<and> (v, v) \<in> (dep_rel w)\<^sup>+"
    unfolding reaches_cycle_load by blast
  then show ?thesis
    using cycle(1) \<open>cycle_path _ p\<close> \<open>hd p \<in> _\<close> by simp
next
  case (ok p)
  then show ?thesis
    using detect_cycle_correct [of w False p] by (auto simp: reaches_cycle_load)
qed

text \<open>C21. On a definition with distinct node IDs whose edges join declared nodes, the
  topological sort of an accepted graph succeeds, returns every node exactly once, and
  returns each node after all the nodes it depends on.\<close>

theorem topological_sort_correct:
  assumes "new_dag w = Inr g" "edges_declared w" "distinct (map nd_id (wf_nodes w))"
  shows "\<exists>ns. topological_sort g = Inr (map Some ns) \<and> mset ns = mset (wf_nodes w) \<and>
    (\<forall>i < length ns. \<forall>e \<in> set (deps w). ed_target_id e = nd_id (ns ! i) \<longrightarrow>
        ed_source_id e \<in> nd_id ` set (take i ns))"
proof -
  obtain out where run: "topological_sort g = Inr (map (dg_node_map g) out)"
    and out: "distinct out" "set out = node_ids w"
    and order: "\<And>i x. i < length out \<Longrightarrow> (x, out ! i) \<in> dep_rel w \<Longrightarrow> x \<in> set (take i out)"
    using topological_sort_ids [OF assms] by blast
  let ?node_of = "\<lambda>x. the (dg_node_map g x)"
  have known: "dg_node_map g x = Some (?node_of x) \<and> nd_id (?node_of x) = x \<and>
      ?node_of x \<in> set (wf_nodes w)" if "x \<in> set out" for x
    using that out(2) node_map_load [OF assms(3)] new_dag_Inr(1) [OF assms(1)]
    by (auto simp: node_ids_def)
  let ?ns = "map ?node_of out"
  have ids: "map nd_id ?ns = out"
    using known by (simp add: map_idI)
  have by_id: "?node_of (nd_id n) = n" if "n \<in> set (wf_nodes w)" for n
    using node_map_load [OF assms(3) that] new_dag_Inr(1) [OF assms(1)] by simp
  have "set ?ns = set (wf_nodes w)"
    using known by_id out(2) by (auto simp: node_ids_def image_iff)
  moreover have "distinct ?ns" "distinct (wf_nodes w)"
    using ids out(1) assms(3) distinct_map by metis+
  ultimately have "mset ?ns = mset (wf_nodes w)"
    using set_eq_iff_mset_eq_distinct by blast
  moreover have "topological_sort g = Inr (map Some ?ns)"
    using run known by simp
  moreover have "ed_source_id e \<in> nd_id ` set (take i ?ns)"
    if "i < length ?ns" "e \<in> set (deps w)" "ed_target_id e = nd_id (?ns ! i)" for i e
  proof -
    have i: "i < length out" using that(1) by simp
    have "nd_id (?ns ! i) = map nd_id ?ns ! i"
      using that(1) by (simp only: nth_map)
    then have "nd_id (?ns ! i) = out ! i" by (simp only: ids)
    then have t: "ed_target_id e = out ! i" by (simp only: that(3))
    have "(ed_source_id e, ed_target_id e) \<in> dep_rel w"
      unfolding dep_rel_def mem_Collect_eq by (intro exI [of _ e] conjI refl that(2))
    then have "(ed_source_id e, out ! i) \<in> dep_rel w"
      by (simp only: t)
    from order [OF i this] have "ed_source_id e \<in> set (take i out)"
      .
    also have "set (take i out) = nd_id ` set (take i ?ns)"
      by (metis ids list.set_map take_map)
    finally show ?thesis .
  qed
  ultimately show ?thesis by blast
qed

theorem topological_sort_correct_witness:
  "\<exists>ns. topological_sort (projr (new_dag diamond)) = Inr (map Some ns) \<and>
     mset ns = mset (wf_nodes diamond)"
  using topological_sort_correct [OF diamond_new_dag diamond_declared diamond_distinct] by blast

text \<open>While a declared node is not completed, the ready set of an accepted graph is
  not empty, whatever nodes are completed: the scheduler never stalls on an acyclic
  definition.\<close>

theorem ready_nodes_progress:
  assumes "new_dag w = Inr g" "edges_declared w" "n \<in> set (wf_nodes w)" "\<not> completed (nd_id n)"
  shows "get_ready_nodes g completed \<noteq> []"
  using assms by (rule ready_progress)

theorem ready_nodes_progress_witness:
  "get_ready_nodes (projr (new_dag diamond)) (\<lambda>v. v = ''a'') \<noteq> []"
  by (rule ready_nodes_progress [OF diamond_new_dag diamond_declared,
        where n = "sample_node ''d'' ''TEST'' 3"])
    (simp_all add: diamond_def sample_workflow_def sample_node_def)

text \<open>The ready nodes are exactly the declared nodes that are not completed and all
  of whose non-internal upstream nodes are, each as often as it is declared, in ascending
  order number.\<close>

theorem ready_nodes_exact:
  "mset (get_ready_nodes g completed) =
     mset (filter (\<lambda>n. \<not> completed (nd_id n) \<and>
        {ed_source_id e | e. e \<in> set (wf_edges (dg_workflow g)) \<and> \<not> ed_internal e \<and>
            ed_target_id e = nd_id n} \<subseteq> {v. completed v}) (wf_nodes (dg_workflow g))) \<and>
   sorted (map nd_order_no (get_ready_nodes g completed))"
proof -
  have "list_all completed (get_dep_nodes g v) \<longleftrightarrow>
      {ed_source_id e | e. e \<in> set (wf_edges (dg_workflow g)) \<and> \<not> ed_internal e \<and>
            ed_target_id e = v} \<subseteq> {v. completed v}" for v
    by (auto simp: list_all_iff get_dep_nodes_def)
  then show ?thesis by (simp add: get_ready_nodes_def)
qed

text \<open>Branch activation: every activated edge leaves the node; on a condition or
  switch node an edge is activated if its port is the output or empty, or, when there is no
  such edge, if its port is default; on any other node every edge is.\<close>

theorem activated_downstream_exact:
  "set (get_activated_downstream g v out) =
     (let es = set (dg_adj g v);
          hits = {e \<in> es. ei_source_port e \<in> {out, []}}
      in if \<exists>n. dg_node_map g v = Some n \<and> nd_type n \<in> {''CONDITION'', ''SWITCH''}
         then if hits = {} then {e \<in> es. ei_source_port e = ''default''} else hits
         else es)"
  by (auto simp: get_activated_downstream_def Let_def NodeTypeCondition_def NodeTypeSwitch_def
      filter_empty_conv split: option.splits)

end
