(* ===== verification/ExecContext.thy ===== *)
theory ExecContext
  imports Dag Complex_Main "HOL-Library.Char_ord"
begin

text \<open>
  The execution context of a run (\<open>workflow/pkg/engine/context.go\<close>): node outputs, the input
  of a node, variable references in templates, the context's own event channel and the trace
  records. Decoded JSON is the datatype \<open>json\<close>; package encoding/json and \<open>%v\<close> are the
  fields of \<open>codec\<close>, so that what is proved holds for every codec.
\<close>

subsection \<open>JSON values and the codec\<close>

datatype json = JNull | JBool bool | JNumber rat | JString string | JArray "json list"
  | JObject "(string \<times> json) list"

record codec =
  cd_unmarshal_value :: "raw \<Rightarrow> json option"
  cd_unmarshal_mapping :: "string \<Rightarrow> (string \<times> string) list option"
  cd_marshal_raws :: "(string, raw) gomap \<Rightarrow> raw"
  cd_verb :: "json \<Rightarrow> string"
  cd_quote :: "string \<Rightarrow> string"
  cd_marshal_strings :: "(string, string) gomap \<Rightarrow> raw"

subsection \<open>State\<close>

record node_trace =
  nt_node_id :: node_id
  nt_node_type :: node_type
  nt_node_name :: string
  nt_input :: raw
  nt_output :: raw
  nt_duration :: int
  nt_error :: string
  nt_timestamp :: time

record exec_context =
  ec_context :: nat
  ec_execution :: execution
  ec_workflow :: workflow
  ec_variables :: "(node_id, raw) gomap"
  ec_variable_values :: "(node_id, json) gomap"
  ec_events :: "event list"
  ec_events_closed :: bool
  ec_traces :: "node_trace list"

definition new_execution_context :: "nat \<Rightarrow> execution \<Rightarrow> workflow \<Rightarrow> exec_context" where
  "new_execution_context ctx e w =
     \<lparr>ec_context = ctx, ec_execution = e, ec_workflow = w, ec_variables = [],
      ec_variable_values = [], ec_events = [], ec_events_closed = False, ec_traces = []\<rparr>"

definition set_node_output :: "codec \<Rightarrow> node_id \<Rightarrow> raw \<Rightarrow> exec_context \<Rightarrow> exec_context" where
  "set_node_output cd n output ec =
     (let ec1 = ec\<lparr>ec_variables := gm_put n output (ec_variables ec)\<rparr> in
      case cd_unmarshal_value cd output of
        None \<Rightarrow> ec1
      | Some v \<Rightarrow> ec1\<lparr>ec_variable_values := gm_put n v (ec_variable_values ec1)\<rparr>)"

text \<open>A missing key of \<open>map[string]json.RawMessage\<close> reads as the nil message.\<close>

definition get_node_output :: "exec_context \<Rightarrow> node_id \<Rightarrow> raw" where
  "get_node_output ec n = (case gm_get (ec_variables ec) n of None \<Rightarrow> None | Some r \<Rightarrow> r)"

definition get_node_value :: "exec_context \<Rightarrow> node_id \<Rightarrow> json option" where
  "get_node_value ec n = gm_get (ec_variable_values ec) n"

subsection \<open>The input of a node\<close>

fun collect_mapped :: "(node_id, raw) gomap \<Rightarrow> string list \<Rightarrow> (string, raw) gomap \<Rightarrow>
    (string, raw) gomap" where
  "collect_mapped vars [] acc = acc"
| "collect_mapped vars (k # ks) acc =
     collect_mapped vars ks (case gm_get vars k of None \<Rightarrow> acc | Some r \<Rightarrow> gm_put k r acc)"

fun collect_upstream :: "(node_id, raw) gomap \<Rightarrow> node_id \<Rightarrow> edge list \<Rightarrow> (string, raw) gomap \<Rightarrow>
    (string, raw) gomap" where
  "collect_upstream vars n [] acc = acc"
| "collect_upstream vars n (e # es) acc =
     collect_upstream vars n es
       (if ed_target_id e = n \<and> \<not> ed_internal e then
          (case gm_get vars (ed_source_id e) of
             None \<Rightarrow> acc | Some r \<Rightarrow> gm_put (ed_source_id e) r acc)
        else acc)"

definition default_input :: "codec \<Rightarrow> exec_context \<Rightarrow> node \<Rightarrow> raw" where
  "default_input cd ec n =
     (let outputs = collect_upstream (ec_variables ec) (nd_id n) (wf_edges (ec_workflow ec)) []
      in if outputs \<noteq> [] then cd_marshal_raws cd outputs else ex_input (ec_execution ec))"

definition get_input :: "codec \<Rightarrow> exec_context \<Rightarrow> node \<Rightarrow> raw" where
  "get_input cd ec n =
     (case nd_input_mapping n of
        Some (c # m) \<Rightarrow>
          (case cd_unmarshal_mapping cd (c # m) of
             Some mapping \<Rightarrow>
               cd_marshal_raws cd (collect_mapped (ec_variables ec) (map fst mapping) [])
           | None \<Rightarrow> default_input cd ec n)
      | _ \<Rightarrow> default_input cd ec n)"

subsection \<open>Variable references\<close>

text \<open>\<open>strings.SplitN(s, ".", 2)\<close>.\<close>

definition split_dot :: "string \<Rightarrow> string \<times> string option" where
  "split_dot s = (takeWhile (\<lambda>c. c \<noteq> CHR ''.'') s,
     case dropWhile (\<lambda>c. c \<noteq> CHR ''.'') s of [] \<Rightarrow> None | c # r \<Rightarrow> Some r)"

text \<open>\<open>fmt.Sscanf(s, "%d", &idx)\<close>: leading blanks, a sign, digits; the rest is not read.\<close>

definition is_digit :: "char \<Rightarrow> bool" where
  "is_digit c \<longleftrightarrow> CHR ''0'' \<le> c \<and> c \<le> CHR ''9''"

definition digits_value :: "string \<Rightarrow> int" where
  "digits_value ds = fold (\<lambda>c v. 10 * v + (int (of_char c) - 48)) ds 0"

definition scan_digits :: "int \<Rightarrow> string \<Rightarrow> int option" where
  "scan_digits sign s =
     (let ds = takeWhile is_digit s; v = sign * digits_value ds
      in if ds = [] \<or> \<not> fits64 v then None else Some v)"

definition scan_int :: "string \<Rightarrow> int option" where
  "scan_int s = (case dropWhile (\<lambda>c. c = CHR '' '') s of
       [] \<Rightarrow> None
     | c # r \<Rightarrow> if c = CHR ''-'' then scan_digits (-1) r
                else if c = CHR ''+'' then scan_digits 1 r else scan_digits 1 (c # r))"

lemma split_dot_shorter: "split_dot s = (p, Some r) \<Longrightarrow> length r < length s"
  using length_dropWhile_le [of "\<lambda>c. c \<noteq> CHR ''.''" s]
  by (auto simp: split_dot_def split: list.splits)

text \<open>An absent result is the nil interface, which a JSON null is too.\<close>

definition non_null :: "json option \<Rightarrow> json option" where
  "non_null v = (if v = Some JNull then None else v)"

function resolve_json_path :: "json option \<Rightarrow> string \<Rightarrow> json option" where
  "resolve_json_path data path =
     (if path = [] then data
      else case data of
        Some (JObject m) \<Rightarrow>
          (case map_of m (fst (split_dot path)) of
             None \<Rightarrow> None
           | Some v \<Rightarrow> (case snd (split_dot path) of
                None \<Rightarrow> non_null (Some v)
              | Some r \<Rightarrow> if length r < length path
                          then resolve_json_path (non_null (Some v)) r else None))
      | Some (JArray vs) \<Rightarrow>
          (case scan_int (fst (split_dot path)) of
             None \<Rightarrow> None
           | Some i \<Rightarrow> if 0 \<le> i \<and> i < int (length vs) then
                (case snd (split_dot path) of
                   None \<Rightarrow> non_null (Some (vs ! nat i))
                 | Some r \<Rightarrow> if length r < length path
                             then resolve_json_path (non_null (Some (vs ! nat i))) r else None)
              else None)
      | _ \<Rightarrow> None)"
  by pat_completeness auto
termination by (relation "measure (\<lambda>(d, p). length p)") auto

declare resolve_json_path.simps [simp del]

text \<open>A match of \<open>\{\{([^}]+)\}\}\<close> at the start of a text: the path and what follows.\<close>

definition match_ref :: "string \<Rightarrow> (string \<times> string) option" where
  "match_ref s =
     (let body = takeWhile (\<lambda>c. c \<noteq> CHR ''}'') (drop 2 s);
          rest = dropWhile (\<lambda>c. c \<noteq> CHR ''}'') (drop 2 s)
      in if take 2 s = ''{{'' \<and> body \<noteq> [] \<and> take 2 rest = ''}}'' then Some (body, drop 2 rest)
         else None)"

lemma match_ref_shorter: "match_ref s = Some (b, r) \<Longrightarrow> length r < length s"
proof -
  assume "match_ref s = Some (b, r)"
  then have "take 2 s = ''{{''" "r = drop 2 (dropWhile (\<lambda>c. c \<noteq> CHR ''}'') (drop 2 s))"
    by (auto simp: match_ref_def Let_def split: if_splits)
  moreover from this have "s \<noteq> []" by auto
  moreover have "length (dropWhile (\<lambda>c. c \<noteq> CHR ''}'') (drop 2 s)) \<le> length (drop 2 s)"
    by (rule length_dropWhile_le)
  ultimately show ?thesis by (cases s) auto
qed

function replace_refs :: "(string \<Rightarrow> string) \<Rightarrow> string \<Rightarrow> string" where
  "replace_refs f s =
     (case match_ref s of
        Some (body, rest) \<Rightarrow> f body @ replace_refs f rest
      | None \<Rightarrow> (case s of [] \<Rightarrow> [] | c # cs \<Rightarrow> c # replace_refs f cs))"
  by pat_completeness auto
termination
  by (relation "measure (\<lambda>(f, s). length s)") (auto dest: match_ref_shorter)

declare replace_refs.simps [simp del]

definition resolve_ref :: "codec \<Rightarrow> exec_context \<Rightarrow> string \<Rightarrow> string" where
  "resolve_ref cd ec path =
     (let match = ''{{'' @ path @ ''}}''; head = fst (split_dot path) in
      case gm_get (ec_variable_values ec) head of
        None \<Rightarrow> (case get_node_output ec head of None \<Rightarrow> match | Some raw \<Rightarrow> raw)
      | Some v \<Rightarrow>
          (case snd (split_dot path) of
             Some (c # field) \<Rightarrow>
               (case resolve_json_path (non_null (Some v)) (c # field) of
                  None \<Rightarrow> match | Some r \<Rightarrow> cd_verb cd r)
           | _ \<Rightarrow> cd_verb cd v))"

definition resolve_template :: "codec \<Rightarrow> exec_context \<Rightarrow> string \<Rightarrow> string" where
  "resolve_template cd ec template = replace_refs (resolve_ref cd ec) template"

subsection \<open>Events and traces of the context\<close>

text \<open>A send in a select with a default: dropped when the buffer of 256 is full, but still a
  panic on a closed channel.\<close>

definition offer_event :: "event \<Rightarrow> exec_context \<Rightarrow> exec_context outcome" where
  "offer_event ev ec =
     (if ec_events_closed ec then Panic ''send on closed channel''
      else if length (ec_events ec) < 256 then Done (ec\<lparr>ec_events := ec_events ec @ [ev]\<rparr>)
      else Done ec)"

definition emit_event :: "int \<Rightarrow> string \<Rightarrow> node_id \<Rightarrow> string \<Rightarrow> node_type \<Rightarrow> string \<Rightarrow>
    exec_context \<Rightarrow> exec_context outcome" where
  "emit_event now etype n nname ntype content ec =
     offer_event (new_workflow_event now etype (ex_id (ec_execution ec)) n nname ntype content) ec"

definition emit_error_event :: "int \<Rightarrow> node_id \<Rightarrow> string \<Rightarrow> node_type \<Rightarrow> string \<Rightarrow>
    exec_context \<Rightarrow> exec_context outcome" where
  "emit_error_event now n nname ntype msg ec = emit_event now ''node.error'' n nname ntype msg ec"

definition emit_completed_event :: "int \<Rightarrow> node_id \<Rightarrow> string \<Rightarrow> node_type \<Rightarrow> duration \<Rightarrow>
    exec_context \<Rightarrow> exec_context outcome" where
  "emit_completed_event now n nname ntype d ec =
     (let ev = new_workflow_event now ''node.completed'' (ex_id (ec_execution ec)) n nname ntype []
      in offer_event (ev\<lparr>ev_duration := d div millisecond,
           ev_output := (case get_node_output ec n of None \<Rightarrow> [] | Some out \<Rightarrow> out)\<rparr>) ec)"

definition record_trace :: "time \<Rightarrow> node_id \<Rightarrow> node_type \<Rightarrow> string \<Rightarrow> raw \<Rightarrow> raw \<Rightarrow> duration \<Rightarrow>
    gerr option \<Rightarrow> exec_context \<Rightarrow> exec_context" where
  "record_trace now n ntype nname input output d err ec =
     ec\<lparr>ec_traces := ec_traces ec @
       [\<lparr>nt_node_id = n, nt_node_type = ntype, nt_node_name = nname, nt_input = input,
         nt_output = output, nt_duration = d div millisecond,
         nt_error = (case err of None \<Rightarrow> [] | Some e \<Rightarrow> gerr_text e), nt_timestamp = now\<rparr>]\<rparr>"

definition close_context :: "exec_context \<Rightarrow> exec_context outcome" where
  "close_context ec =
     (if ec_events_closed ec then Panic ''close of closed channel''
      else Done (ec\<lparr>ec_events_closed := True\<rparr>))"

subsection \<open>Lemmas\<close>

lemma collect_upstream_get:
  "gm_get (collect_upstream vars n es acc) k =
     (if \<exists>e \<in> set es. ed_target_id e = n \<and> \<not> ed_internal e \<and> ed_source_id e = k \<and> gm_has vars k
      then gm_get vars k else gm_get acc k)"
  by (induction es arbitrary: acc) (auto split: option.splits)

lemma collect_mapped_get:
  "gm_get (collect_mapped vars ks acc) k =
     (if k \<in> set ks \<and> gm_has vars k then gm_get vars k else gm_get acc k)"
  by (induction ks arbitrary: acc) (auto split: option.splits)

lemma collect_upstream_ok: "gm_ok acc \<Longrightarrow> gm_ok (collect_upstream vars n es acc)"
  by (induction es arbitrary: acc) (auto split: option.splits)

lemma replace_refs_Nil [simp]: "replace_refs f [] = []"
  by (simp add: replace_refs.simps match_ref_def)

lemma replace_refs_skip: "CHR ''{'' \<notin> set s \<Longrightarrow> replace_refs f (s @ t) = s @ replace_refs f t"
proof (induction s)
  case (Cons c s)
  then have "match_ref ((c # s) @ t) = None"
    by (cases "take 2 ((c # s) @ t)") (auto simp: match_ref_def take_Cons')
  then show ?case
    using Cons by (simp add: replace_refs.simps [of f "c # s @ t"])
qed simp

lemma replace_refs_ref:
  "path \<noteq> [] \<Longrightarrow> CHR ''}'' \<notin> set path \<Longrightarrow>
     replace_refs f (''{{'' @ path @ ''}}'' @ t) = f path @ replace_refs f t"
proof -
  assume p: "path \<noteq> []" "CHR ''}'' \<notin> set path"
  have "takeWhile (\<lambda>c. c \<noteq> CHR ''}'') (path @ ''}}'' @ t) = path"
    "dropWhile (\<lambda>c. c \<noteq> CHR ''}'') (path @ ''}}'' @ t) = ''}}'' @ t"
    using p(2) by (induction path) auto
  then have "match_ref (''{{'' @ path @ ''}}'' @ t) = Some (path, t)"
    using p(1) by (simp add: match_ref_def)
  then show ?thesis by (subst replace_refs.simps) simp
qed

subsection \<open>Properties\<close>

text \<open>Without an input mapping a node's input is the marshalled map from exactly those
  sources of its non-internal incoming edges that have produced an output to these outputs;
  when there is none, it is the input of the execution.\<close>

theorem node_input_aggregates_upstream:
  "\<exists>m. gm_ok m \<and>
     gm_get m = (\<lambda>k. if \<exists>e. e \<in> set (wf_edges (ec_workflow ec)) \<and> ed_target_id e = nd_id n \<and>
                         \<not> ed_internal e \<and> ed_source_id e = k
                     then gm_get (ec_variables ec) k else None) \<and>
     get_input cd ec (n\<lparr>nd_input_mapping := None\<rparr>) =
       (if m = [] then ex_input (ec_execution ec) else cd_marshal_raws cd m)"
proof (intro exI conjI)
  let ?m = "collect_upstream (ec_variables ec) (nd_id n) (wf_edges (ec_workflow ec)) []"
  show "gm_ok ?m" by (rule collect_upstream_ok) simp
  show "gm_get ?m = (\<lambda>k. if \<exists>e. e \<in> set (wf_edges (ec_workflow ec)) \<and> ed_target_id e = nd_id n \<and>
      \<not> ed_internal e \<and> ed_source_id e = k then gm_get (ec_variables ec) k else None)"
    by (rule ext) (auto simp: collect_upstream_get)
  show "get_input cd ec (n\<lparr>nd_input_mapping := None\<rparr>) =
      (if ?m = [] then ex_input (ec_execution ec) else cd_marshal_raws cd ?m)"
    by (simp add: get_input_def default_input_def)
qed

text \<open>Templates: text before the first brace is copied, a reference is replaced by the
  value of its node, and what follows is resolved in the same way; a reference to a node that
  has no output is left as it stands.\<close>

theorem template_references_resolve:
  assumes "CHR ''{'' \<notin> set s" "path \<noteq> []" "CHR ''}'' \<notin> set path"
  shows "resolve_template cd ec (s @ ''{{'' @ path @ ''}}'' @ t) =
      s @ (if get_node_value ec (fst (split_dot path)) = None \<and>
              get_node_output ec (fst (split_dot path)) = None
           then ''{{'' @ path @ ''}}'' else resolve_ref cd ec path) @ resolve_template cd ec t"
  using replace_refs_skip [OF assms(1)] replace_refs_ref [OF assms(2,3)]
  by (simp add: resolve_template_def resolve_ref_def get_node_value_def Let_def)

theorem template_references_resolve_witness:
  "\<forall>cd. \<exists>ec. resolve_template cd ec ''hi {{x.a}}!'' = ''hi {{x.a}}!''"
proof (intro allI exI)
  fix cd
  let ?ec = "new_execution_context 0 undefined undefined"
  show "resolve_template cd ?ec ''hi {{x.a}}!'' = ''hi {{x.a}}!''"
    using template_references_resolve [of "''hi ''" "''x.a''" cd ?ec "''!''"]
      replace_refs_skip [of "''!''" _ "[]"]
    by (simp add: new_execution_context_def get_node_value_def get_node_output_def
        resolve_template_def)
qed

end
