(* ===== verification/MemStore.thy ===== *)
theory MemStore
  imports WfModel "HOL-Library.List_Lexorder" "HOL-Library.Char_ord"
begin

text \<open>
  The workflow state store: the error types of \<open>workflow/pkg/store/store.go\<close> and every
  operation of \<open>MemoryStore\<close> (\<open>memory_store.go\<close>). The four Go maps are association lists in
  iteration order; each operation runs under the store's mutex, so it is one atomic
  function of the state, and the deep copies of the code are the value semantics of records.
  A listing whose slice bounds are out of range is a panic of the model too.
\<close>

subsection \<open>State and errors\<close>

datatype store_error =
    ErrVersionConflict string int int
  | ErrNotFound string string
  | ErrDuplicateTriggerID string string

fun store_error_text :: "store_error \<Rightarrow> string" where
  "store_error_text (ErrVersionConflict i cur expect) = ''store: version conflict for '' @ i"
| "store_error_text (ErrNotFound i ty) = ''store: '' @ ty @ '' not found: '' @ i"
| "store_error_text (ErrDuplicateTriggerID w t) =
     ''store: duplicate trigger_id '' @ t @ '' for workflow '' @ w"

record mem_store =
  ms_workflows :: "(string, workflow) gomap"
  ms_executions :: "(string, execution) gomap"
  ms_tasks :: "(string, task) gomap"
  ms_workers :: "(string, worker) gomap"

definition new_memory_store :: mem_store where
  "new_memory_store = \<lparr>ms_workflows = [], ms_executions = [], ms_tasks = [], ms_workers = []\<rparr>"

subsection \<open>Workflow definitions\<close>

definition create_workflow :: "mem_store \<Rightarrow> workflow \<Rightarrow> store_error + mem_store" where
  "create_workflow s w =
     (if gm_has (ms_workflows s) (wf_id w) then Inl (ErrDuplicateTriggerID (wf_id w) [])
      else Inr (s\<lparr>ms_workflows := gm_put (wf_id w) w (ms_workflows s)\<rparr>))"

definition update_workflow :: "mem_store \<Rightarrow> workflow \<Rightarrow> store_error + mem_store" where
  "update_workflow s w =
     (if \<not> gm_has (ms_workflows s) (wf_id w) then Inl (ErrNotFound (wf_id w) ''workflow'')
      else Inr (s\<lparr>ms_workflows := gm_put (wf_id w) w (ms_workflows s)\<rparr>))"

definition get_workflow :: "mem_store \<Rightarrow> string \<Rightarrow> store_error + workflow" where
  "get_workflow s i = (case gm_get (ms_workflows s) i of
       None \<Rightarrow> Inl (ErrNotFound i ''workflow'') | Some w \<Rightarrow> Inr w)"

definition get_workflow_with_nodes :: "mem_store \<Rightarrow> string \<Rightarrow> store_error + workflow" where
  "get_workflow_with_nodes s i = (case gm_get (ms_workflows s) i of
       None \<Rightarrow> Inl (ErrNotFound i ''workflow'') | Some w \<Rightarrow> Inr w)"

text \<open>The clamping of offset and limit both listings share; \<open>offset + limit\<close> is a 64-bit sum.\<close>

definition page_bounds :: "nat \<Rightarrow> int \<Rightarrow> int \<Rightarrow> int \<times> int" where
  "page_bounds n offset limit =
     (let lo = (if offset > int n then int n else offset);
          hi = wrap64 (lo + limit)
      in (lo, if limit \<le> 0 \<or> hi > int n then int n else hi))"

definition list_workflows :: "mem_store \<Rightarrow> int \<Rightarrow> int \<Rightarrow> (workflow list \<times> int) outcome" where
  "list_workflows s offset limit =
     (let ids = sort (map fst (ms_workflows s));
          b = page_bounds (length ids) offset limit
      in if wrap64 (snd b - fst b) < 0 then Panic ''makeslice: cap out of range''
         else bind_outcome (slice_range ids (fst b) (snd b))
           (\<lambda>page. Done (map (\<lambda>i. the (gm_get (ms_workflows s) i)) page, int (length ids))))"

subsection \<open>Executions\<close>

definition create_execution :: "mem_store \<Rightarrow> execution \<Rightarrow> store_error + mem_store" where
  "create_execution s e =
     (if gm_has (ms_executions s) (ex_id e)
      then Inl (ErrDuplicateTriggerID (ex_workflow_id e) (ex_trigger_id e))
      else Inr (s\<lparr>ms_executions := gm_put (ex_id e) e (ms_executions s)\<rparr>))"

text \<open>The optimistic lock; the second component of the result is the caller's record, whose
  version the code increments.\<close>

definition update_execution ::
  "mem_store \<Rightarrow> execution \<Rightarrow> store_error + (mem_store \<times> execution)" where
  "update_execution s e = (case gm_get (ms_executions s) (ex_id e) of
       None \<Rightarrow> Inl (ErrNotFound (ex_id e) ''execution'')
     | Some existing \<Rightarrow>
         if ex_version existing \<noteq> ex_version e
         then Inl (ErrVersionConflict (ex_id e) (ex_version existing) (ex_version e))
         else let e' = e\<lparr>ex_version := ex_version e + 1\<rparr>
              in Inr (s\<lparr>ms_executions := gm_put (ex_id e) e' (ms_executions s)\<rparr>, e'))"

definition get_execution :: "mem_store \<Rightarrow> string \<Rightarrow> store_error + execution" where
  "get_execution s i = (case gm_get (ms_executions s) i of
       None \<Rightarrow> Inl (ErrNotFound i ''execution'') | Some e \<Rightarrow> Inr e)"

definition list_executions ::
  "mem_store \<Rightarrow> string \<Rightarrow> int \<Rightarrow> int \<Rightarrow> (execution list \<times> int) outcome" where
  "list_executions s w offset limit =
     (let all = sort_desc ex_created_at
            (filter (\<lambda>e. w = [] \<or> ex_workflow_id e = w) (map snd (ms_executions s)));
          b = page_bounds (length all) offset limit
      in bind_outcome (slice_range all (fst b) (snd b)) (\<lambda>page. Done (page, int (length all))))"

definition get_execution_by_trigger_id :: "mem_store \<Rightarrow> string \<Rightarrow> string \<Rightarrow> execution option" where
  "get_execution_by_trigger_id s w t =
     List.find (\<lambda>e. ex_workflow_id e = w \<and> ex_trigger_id e = t) (map snd (ms_executions s))"

subsection \<open>Tasks\<close>

definition create_task :: "mem_store \<Rightarrow> task \<Rightarrow> mem_store" where
  "create_task s t = s\<lparr>ms_tasks := gm_put (tk_id t) t (ms_tasks s)\<rparr>"

definition update_task :: "mem_store \<Rightarrow> task \<Rightarrow> store_error + mem_store" where
  "update_task s t =
     (if \<not> gm_has (ms_tasks s) (tk_id t) then Inl (ErrNotFound (tk_id t) ''task'')
      else Inr (s\<lparr>ms_tasks := gm_put (tk_id t) t (ms_tasks s)\<rparr>))"

definition get_task :: "mem_store \<Rightarrow> string \<Rightarrow> store_error + task" where
  "get_task s i = (case gm_get (ms_tasks s) i of
       None \<Rightarrow> Inl (ErrNotFound i ''task'') | Some t \<Rightarrow> Inr t)"

definition list_tasks :: "mem_store \<Rightarrow> string \<Rightarrow> task list" where
  "list_tasks s x =
     sort_key tk_created_at (filter (\<lambda>t. tk_execution_id t = x) (map snd (ms_tasks s)))"

definition limit_to :: "int \<Rightarrow> 'a list \<Rightarrow> 'a list" where
  "limit_to limit xs = (if limit > 0 \<and> int (length xs) > limit then take (nat limit) xs else xs)"

definition list_tasks_by_status :: "mem_store \<Rightarrow> task_status \<Rightarrow> int \<Rightarrow> task list" where
  "list_tasks_by_status s st limit =
     limit_to limit
       (sort_key tk_created_at (filter (\<lambda>t. tk_status t = st) (map snd (ms_tasks s))))"

definition task_due :: "time \<Rightarrow> task \<Rightarrow> bool" where
  "task_due now t \<longleftrightarrow> tk_status t = TkPending \<and>
     (case tk_scheduled_at t of None \<Rightarrow> True | Some at \<Rightarrow> at < now \<or> at = now)"

definition get_pending_tasks :: "mem_store \<Rightarrow> int \<Rightarrow> int \<Rightarrow> task list" where
  "get_pending_tasks s now_timestamp limit =
     (let now = now_timestamp * second
      in limit_to limit
           (sort_key tk_created_at (filter (task_due now) (map snd (ms_tasks s)))))"

definition count_pending_dependencies :: "mem_store \<Rightarrow> string \<Rightarrow> node_id list \<Rightarrow> int" where
  "count_pending_dependencies s x deps =
     (if length deps = 0 then 0
      else int (length (filter
        (\<lambda>t. tk_execution_id t = x \<and> tk_node_id t \<in> set deps \<and>
             tk_status t \<noteq> TkCompleted \<and> tk_status t \<noteq> TkSkipped) (map snd (ms_tasks s)))))"

subsection \<open>Workers\<close>

definition register_worker :: "mem_store \<Rightarrow> worker \<Rightarrow> mem_store" where
  "register_worker s k = s\<lparr>ms_workers := gm_put (wk_id k) k (ms_workers s)\<rparr>"

definition update_worker_heartbeat :: "time \<Rightarrow> mem_store \<Rightarrow> string \<Rightarrow> store_error + mem_store" where
  "update_worker_heartbeat now s i = (case gm_get (ms_workers s) i of
       None \<Rightarrow> Inl (ErrNotFound i ''worker'')
     | Some k \<Rightarrow> Inr (s\<lparr>ms_workers := gm_put i (k\<lparr>wk_heartbeat := now\<rparr>) (ms_workers s)\<rparr>))"

definition list_active_workers :: "mem_store \<Rightarrow> string \<Rightarrow> worker list" where
  "list_active_workers s grp =
     filter (\<lambda>k. wk_status k = ''ACTIVE'' \<and> (grp = [] \<or> wk_group k = grp))
       (map snd (ms_workers s))"

text \<open>The cutoff is a 64-bit product of the timeout and a second.\<close>

definition remove_dead_workers :: "time \<Rightarrow> mem_store \<Rightarrow> int \<Rightarrow> mem_store" where
  "remove_dead_workers now s timeout_seconds =
     (let cutoff = now + wrap64 (- timeout_seconds * second)
      in s\<lparr>ms_workers := filter (\<lambda>(i, k). \<not> wk_heartbeat k < cutoff) (ms_workers s)\<rparr>)"

subsection \<open>Operation sequences\<close>

text \<open>The calls that write the store, and the store as the state machine they drive: the
  flag tells whether the call returned without an error.\<close>

datatype store_op =
    OpCreateWorkflow workflow | OpUpdateWorkflow workflow
  | OpCreateExecution execution | OpUpdateExecution execution
  | OpCreateTask task | OpUpdateTask task
  | OpRegisterWorker worker | OpHeartbeat time string | OpRemoveDeadWorkers time int

definition settle :: "mem_store \<Rightarrow> store_error + mem_store \<Rightarrow> mem_store \<times> bool" where
  "settle s r = (case r of Inl e \<Rightarrow> (s, False) | Inr s' \<Rightarrow> (s', True))"

fun store_step :: "mem_store \<Rightarrow> store_op \<Rightarrow> mem_store \<times> bool" where
  "store_step s (OpCreateWorkflow w) = settle s (create_workflow s w)"
| "store_step s (OpUpdateWorkflow w) = settle s (update_workflow s w)"
| "store_step s (OpCreateExecution e) = settle s (create_execution s e)"
| "store_step s (OpUpdateExecution e) = settle s (map_sum id fst (update_execution s e))"
| "store_step s (OpCreateTask t) = (create_task s t, True)"
| "store_step s (OpUpdateTask t) = settle s (update_task s t)"
| "store_step s (OpRegisterWorker k) = (register_worker s k, True)"
| "store_step s (OpHeartbeat now i) = settle s (update_worker_heartbeat now s i)"
| "store_step s (OpRemoveDeadWorkers now t) = (remove_dead_workers now s t, True)"

text \<open>A run: the state after each call is the state before the next one.\<close>

fun run_ops :: "('s \<Rightarrow> 'op \<Rightarrow> 's \<times> bool) \<Rightarrow> 's \<Rightarrow> 'op list \<Rightarrow> 's \<times> bool list" where
  "run_ops step s [] = (s, [])"
| "run_ops step s (a # as) =
     (let (s1, ok) = step s a; (s2, oks) = run_ops step s1 as in (s2, ok # oks))"

definition exec_version_of :: "mem_store \<Rightarrow> string \<Rightarrow> int option" where
  "exec_version_of s i = map_option ex_version (gm_get (ms_executions s) i)"

fun exec_write :: "store_op \<Rightarrow> (string \<times> int) option" where
  "exec_write (OpUpdateExecution e) = Some (ex_id e, ex_version e)"
| "exec_write _ = None"

text \<open>Well-formedness: no duplicate keys, and every record is stored under its own ID.\<close>

definition keyed :: "('a \<Rightarrow> string) \<Rightarrow> (string, 'a) gomap \<Rightarrow> bool" where
  "keyed key m \<longleftrightarrow> gm_ok m \<and> (\<forall>(i, x) \<in> set m. key x = i)"

definition store_ok :: "mem_store \<Rightarrow> bool" where
  "store_ok s \<longleftrightarrow> keyed wf_id (ms_workflows s) \<and> keyed ex_id (ms_executions s) \<and>
     keyed tk_id (ms_tasks s) \<and> keyed wk_id (ms_workers s)"

lemma keyed_Nil [simp]: "keyed key []"
  by (simp add: keyed_def)

lemma keyed_put [inv_intros]: "keyed key m \<Longrightarrow> key x = i \<Longrightarrow> keyed key (gm_put i x m)"
  by (auto simp: keyed_def gm_put_mem split: if_splits)

lemma keyed_filter [inv_intros]: "keyed key m \<Longrightarrow> keyed key (filter P m)"
  by (auto simp: keyed_def)

lemma keyed_get: "keyed key m \<Longrightarrow> gm_get m i = Some x \<Longrightarrow> key x = i"
  by (auto simp: keyed_def dest!: map_of_SomeD)

lemma keyed_get_key: "keyed key m \<Longrightarrow> x \<in> set (map snd m) \<longleftrightarrow> gm_get m (key x) = Some x"
  by (force simp: keyed_def gm_get_mem)

lemmas store_writes = create_workflow_def update_workflow_def create_execution_def
  update_execution_def create_task_def update_task_def register_worker_def
  update_worker_heartbeat_def remove_dead_workers_def settle_def Let_def

lemma store_step_ok: "store_ok s \<Longrightarrow> store_ok (fst (store_step s a))"
  by (cases a) (auto simp: store_ok_def store_writes intro!: inv_intros dest: keyed_get
      split: option.splits sum.splits)

subsection \<open>Optimistic locking, against its interface\<close>

text \<open>What a versioned store promises of a write: it succeeds only on the version it names,
  and then that version is one higher; any other call leaves an existing version alone.\<close>

locale versioned_store =
  fixes step :: "'s \<Rightarrow> 'op \<Rightarrow> 's \<times> bool"
    and version :: "'s \<Rightarrow> 'k \<Rightarrow> int option"
    and writes :: "'op \<Rightarrow> ('k \<times> int) option"
  assumes write_ok: "step s a = (s', True) \<Longrightarrow> writes a = Some (k, v) \<Longrightarrow>
      version s k = Some v \<and> version s' k = Some (v + 1)"
    and keeps: "step s a = (s', ok) \<Longrightarrow> version s k = Some v \<Longrightarrow>
      \<not> (ok \<and> (\<exists>u. writes a = Some (k, u))) \<Longrightarrow> version s' k = Some v"
begin

text \<open>The successful writes of a key in a run.\<close>

definition hits :: "'k \<Rightarrow> 'op list \<Rightarrow> bool list \<Rightarrow> nat" where
  "hits k as oks = length (filter (\<lambda>(a, ok). ok \<and> (\<exists>u. writes a = Some (k, u))) (zip as oks))"

lemma hits_Cons: "hits k (a # as) (ok # oks) =
    (if ok \<and> (\<exists>u. writes a = Some (k, u)) then 1 else 0) + hits k as oks"
  by (simp add: hits_def)

lemma version_count:
  "run_ops step s as = (s', oks) \<Longrightarrow> version s k = Some v \<Longrightarrow>
     version s' k = Some (v + int (hits k as oks))"
proof (induction as arbitrary: s v oks)
  case Nil
  then show ?case by (simp add: hits_def)
next
  case (Cons a as)
  obtain s1 ok where st: "step s a = (s1, ok)" by fastforce
  obtain oks' where run: "run_ops step s1 as = (s', oks')" and oks: "oks = ok # oks'"
    using Cons.prems(1) st by (auto split: prod.splits)
  show ?case
  proof (cases "ok \<and> (\<exists>u. writes a = Some (k, u))")
    case True
    then have "version s1 k = Some (v + 1)"
      using write_ok [of s a s1 k] st Cons.prems(2) by auto
    from Cons.IH [OF run this] show ?thesis using True by (simp add: oks hits_Cons)
  next
    case False
    have "version s1 k = Some v" by (rule keeps [OF st Cons.prems(2) False])
    from Cons.IH [OF run this] show ?thesis using False by (simp add: oks hits_Cons)
  qed
qed

text \<open>A write of a key on a version already passed fails.\<close>

lemma stale_write_fails:
  "run_ops step s as = (s', oks) \<Longrightarrow> version s k = Some c \<Longrightarrow> v < c \<Longrightarrow> j < length as \<Longrightarrow>
     writes (as ! j) = Some (k, v) \<Longrightarrow> \<not> oks ! j"
proof (induction as arbitrary: s c oks j)
  case Nil
  then show ?case by simp
next
  case (Cons a as)
  obtain s1 ok where st: "step s a = (s1, ok)" by fastforce
  obtain oks' where run: "run_ops step s1 as = (s', oks')" and oks: "oks = ok # oks'"
    using Cons.prems(1) st by (auto split: prod.splits)
  have "\<exists>c'. version s1 k = Some c' \<and> v < c'"
  proof (cases "ok \<and> (\<exists>u. writes a = Some (k, u))")
    case True
    then show ?thesis using write_ok [of s a s1 k] st Cons.prems(2,3) by auto
  next
    case False
    then show ?thesis using keeps [OF st Cons.prems(2) False] Cons.prems(3) by blast
  qed
  then show ?case
    using Cons.IH [OF run] Cons.prems write_ok [of s a s1 k v] st oks by (cases j) auto
qed

lemma run_length: "run_ops step s as = (s', oks) \<Longrightarrow> length oks = length as"
  by (induction as arbitrary: s oks) (auto simp: Let_def split: prod.splits)

text \<open>Of the writes that name one version of one key at most one succeeds.\<close>

lemma one_write_per_version:
  "run_ops step s as = (s', oks) \<Longrightarrow> i < j \<Longrightarrow> j < length as \<Longrightarrow>
     writes (as ! i) = Some (k, v) \<Longrightarrow> writes (as ! j) = Some (k, v) \<Longrightarrow> \<not> (oks ! i \<and> oks ! j)"
proof (induction as arbitrary: s oks i j)
  case Nil
  then show ?case by simp
next
  case (Cons a as)
  obtain s1 ok where st: "step s a = (s1, ok)" by fastforce
  obtain oks' where run: "run_ops step s1 as = (s', oks')" and oks: "oks = ok # oks'"
    using Cons.prems(1) st by (auto split: prod.splits)
  obtain j' where j: "j = Suc j'" using Cons.prems(2) by (cases j) auto
  show ?case
  proof (cases i)
    case 0
    then show ?thesis
      using stale_write_fails [OF run, of k "v + 1" v j'] write_ok [of s a s1 k v] st Cons.prems
      by (auto simp: oks j)
  next
    case (Suc i')
    then show ?thesis using Cons.IH [OF run, of i' j'] Cons.prems by (simp add: oks j)
  qed
qed

end

interpretation memory_store: versioned_store store_step exec_version_of exec_write
proof
  show "exec_version_of s k = Some v \<and> exec_version_of s' k = Some (v + 1)"
    if "store_step s a = (s', True)" "exec_write a = Some (k, v)" for s a s' k v
    using that by (cases a) (auto simp: exec_version_of_def store_writes
        split: option.splits if_splits)
  show "exec_version_of s' k = Some v"
    if "store_step s a = (s', ok)" "exec_version_of s k = Some v"
      "\<not> (ok \<and> (\<exists>u. exec_write a = Some (k, u)))" for s a s' k v ok
    using that by (cases a) (auto simp: exec_version_of_def store_writes
        split: option.splits if_splits sum.splits)
qed

subsection \<open>Paging\<close>

lemma limit_to_split:
  obtains rest where "limit_to limit xs @ rest = xs"
    "rest = [] \<or> int (length (limit_to limit xs)) = limit \<and> 0 < limit"
proof (cases "limit > 0 \<and> int (length xs) > limit")
  case True
  then show ?thesis using that [of "drop (nat limit) xs"] by (simp add: limit_to_def min_def)
next
  case False
  then have "limit_to limit xs = xs" by (auto simp: limit_to_def)
  then show ?thesis using that [of "[]"] by simp
qed

lemma slice_page:
  assumes "fits64 limit" "int (length xs) < 2 ^ 63"
  shows "slice_range xs (fst (page_bounds (length xs) offset limit))
        (snd (page_bounds (length xs) offset limit)) =
      (if offset < 0 \<or> 0 < limit \<and> 2 ^ 63 \<le> min offset (int (length xs)) + limit
       then Panic ''slice bounds out of range''
       else Done ((if 0 < limit then take (nat limit) else id) (drop (nat offset) xs)))"
proof -
  let ?lo = "min offset (int (length xs))"
  have lo: "(if offset > int (length xs) then int (length xs) else offset) = ?lo" by simp
  consider "offset < 0" | "0 \<le> offset" "limit \<le> 0"
    | "0 \<le> offset" "0 < limit" "?lo + limit < 2 ^ 63" | "0 \<le> offset" "0 < limit" "2 ^ 63 \<le> ?lo + limit"
    by linarith
  then show ?thesis
  proof cases
    case 1
    then show ?thesis by (simp add: slice_range_def page_bounds_def Let_def)
  next
    case 2
    then show ?thesis
      by (auto simp: slice_range_def page_bounds_def Let_def nat_diff_distrib)
  next
    case 3
    then have "wrap64 (?lo + limit) = ?lo + limit"
      by (intro wrap64_id) (simp add: fits64_def)
    then show ?thesis
      using 3 by (auto simp: slice_range_def page_bounds_def Let_def lo min_def split: if_splits)
  next
    case 4
    then have "wrap64 (?lo + limit) = ?lo + limit - 2 ^ 64"
      using assms by (intro wrap64_high) (simp_all add: fits64_def)
    moreover have "?lo + limit < 2 ^ 64"
      using assms by (intro le_less_trans [OF add_mono [of ?lo "2 ^ 63 - 1" limit "2 ^ 63 - 1"]])
        (auto simp: fits64_def)
    ultimately have "wrap64 (?lo + limit) < 0" by simp
    moreover have "0 \<le> ?lo" using 4 by simp
    ultimately show ?thesis
      using 4 by (simp add: slice_range_def page_bounds_def Let_def lo)
  qed
qed

subsection \<open>Sample records for the witnesses\<close>

definition sample_execution :: "string \<Rightarrow> int \<Rightarrow> int \<Rightarrow> execution" where
  "sample_execution i v c =
     \<lparr>ex_id = i, ex_workflow_id = ''w'', ex_workflow_name = ''sample'', ex_workflow_ver = 1,
      ex_trigger_type = TrApi, ex_trigger_id = ''t'', ex_status = ExPending, ex_input = None,
      ex_output = None, ex_state_data = None, ex_current_node_id = [], ex_error = [],
      ex_timeout = 0, ex_expires_at = None, ex_version = v, ex_started_at = None,
      ex_finished_at = None, ex_created_at = c, ex_updated_at = c\<rparr>"

definition sample_store :: mem_store where
  "sample_store = new_memory_store\<lparr>ms_executions :=
     [(''a'', sample_execution ''a'' 0 10), (''b'', sample_execution ''b'' 0 30),
      (''c'', sample_execution ''c'' 0 20)]\<rparr>"

subsection \<open>Properties\<close>

text \<open>C13. No lost update: in any sequence of store calls, two UpdateExecution calls that
  carry the same execution ID and the same version never both succeed, whatever other
  calls come between them.\<close>

theorem no_lost_update:
  assumes "run_ops store_step s as = (s', oks)" "i < j" "j < length as"
    "as ! i = OpUpdateExecution e" "as ! j = OpUpdateExecution f"
    "ex_id e = ex_id f" "ex_version e = ex_version f"
  shows "\<not> (oks ! i \<and> oks ! j)"
  using memory_store.one_write_per_version [OF assms(1-3)] assms(4-7) by simp

theorem no_lost_update_witness:
  "\<not> (snd (run_ops store_step sample_store
          [OpUpdateExecution (sample_execution ''a'' 0 10),
           OpUpdateExecution (sample_execution ''a'' 0 10)]) ! 0 \<and>
      snd (run_ops store_step sample_store
          [OpUpdateExecution (sample_execution ''a'' 0 10),
           OpUpdateExecution (sample_execution ''a'' 0 10)]) ! 1)"
  by (rule no_lost_update [OF surjective_pairing]) simp_all

text \<open>Version history: whatever calls run, an execution that is in the store stays in
  it, and its version grows by exactly the number of UpdateExecution calls for its ID that
  returned without error.\<close>

theorem execution_version_counts_updates:
  assumes "run_ops store_step s as = (s', oks)" "gm_get (ms_executions s) i = Some e"
  shows "\<exists>e'. gm_get (ms_executions s') i = Some e' \<and>
    ex_version e' = ex_version e + int (length (filter
      (\<lambda>(a, ok). ok \<and> (\<exists>f. a = OpUpdateExecution f \<and> ex_id f = i)) (zip as oks)))"
proof -
  have "exec_write a = Some (i, u) \<longleftrightarrow> (\<exists>f. a = OpUpdateExecution f \<and> ex_id f = i \<and> ex_version f = u)"
    for a u by (cases a) auto
  then have "(\<exists>u. exec_write a = Some (i, u)) \<longleftrightarrow> (\<exists>f. a = OpUpdateExecution f \<and> ex_id f = i)" for a
    by auto
  then show ?thesis
    using memory_store.version_count [OF assms(1), of i "ex_version e"] assms(2)
    by (auto simp: exec_version_of_def memory_store.hits_def)
qed

theorem execution_version_counts_updates_witness:
  "\<exists>e'. gm_get (ms_executions (fst (run_ops store_step sample_store
          [OpUpdateExecution (sample_execution ''a'' 0 10),
           OpUpdateExecution (sample_execution ''a'' 7 10)]))) ''a'' = Some e'"
  using execution_version_counts_updates [OF surjective_pairing, of sample_store "''a''"]
  by (fastforce simp: sample_store_def)

text \<open>Paging of ListExecutions on lists and limits of 64 bits: the listing holds the
  executions of the workflow (all of them for the empty workflow ID), newest first; the page
  is the part from the offset on, cut to the limit when that is positive; the total is the
  full count. A negative offset panics, and so does a positive limit whose sum with the
  clamped offset overflows.\<close>

theorem list_executions_pages:
  assumes "fits64 limit" "int (length (ms_executions s)) < 2 ^ 63"
  shows "\<exists>all. mset all = {# e \<in># mset (map snd (ms_executions s)). w = [] \<or> ex_workflow_id e = w #} \<and>
     sorted (map (\<lambda>e. - ex_created_at e) all) \<and>
     list_executions s w offset limit =
       (if offset < 0 \<or> 0 < limit \<and> 2 ^ 63 \<le> min offset (int (length all)) + limit
        then Panic ''slice bounds out of range''
        else Done ((if 0 < limit then take (nat limit) else id) (drop (nat offset) all),
                   int (length all)))"
proof -
  let ?f = "filter (\<lambda>e. w = [] \<or> ex_workflow_id e = w) (map snd (ms_executions s))"
  let ?all = "sort_desc ex_created_at ?f"
  let ?n = "int (length ?all)"
  have "length ?all \<le> length (ms_executions s)"
    by (metis length_filter_le length_map length_sort_desc)
  then have n: "?n < 2 ^ 63" using assms(2) by linarith
  have page: "slice_range ?all (fst (page_bounds (length ?all) offset limit))
        (snd (page_bounds (length ?all) offset limit)) =
      (if offset < 0 \<or> 0 < limit \<and> 2 ^ 63 \<le> min offset ?n + limit
       then Panic ''slice bounds out of range''
       else Done ((if 0 < limit then take (nat limit) else id) (drop (nat offset) ?all)))"
    by (rule slice_page [OF assms(1) n])
  show ?thesis
    by (intro exI [of _ ?all] conjI; (simp only: list_executions_def Let_def page)?)
      (auto simp: sorted_sort_desc)
qed

theorem list_executions_pages_witness:
  "\<exists>all. list_executions sample_store ''w'' 1 1 =
     Done (take 1 (drop 1 all), int (length all)) \<and>
     sorted (map (\<lambda>e. - ex_created_at e) all) \<and> length all = 3"
proof -
  have len: "length (ms_executions sample_store) = 3" by (simp add: sample_store_def)
  then obtain all where all: "mset all = {# e \<in># mset (map snd (ms_executions sample_store)).
        ''w'' = [] \<or> ex_workflow_id e = ''w'' #}"
    "sorted (map (\<lambda>e. - ex_created_at e) all)"
    "list_executions sample_store ''w'' 1 1 =
       (if 1 < (0::int) \<or> 0 < (1::int) \<and> 2 ^ 63 \<le> min 1 (int (length all)) + 1
        then Panic ''slice bounds out of range''
        else Done ((if 0 < (1::int) then take (nat 1) else id) (drop (nat 1) all), int (length all)))"
    using list_executions_pages [of 1 sample_store "''w''" 1] by (auto simp: fits64_def)
  moreover have "length all = 3"
    using arg_cong [OF all(1), of size] by (simp add: sample_store_def sample_execution_def)
  ultimately show ?thesis by auto
qed

text \<open>GetPendingTasks returns due tasks only, oldest first, none younger than one it
  leaves out, at most limit of them for a positive limit, and all of them otherwise or when
  they fit.\<close>

theorem get_pending_tasks_exact:
  "\<exists>rest. mset (get_pending_tasks s ts limit @ rest) =
       {# t \<in># mset (map snd (ms_tasks s)). tk_status t = TkPending \<and>
            (case tk_scheduled_at t of None \<Rightarrow> True | Some d \<Rightarrow> d \<le> ts * 1000000000) #} \<and>
     sorted (map tk_created_at (get_pending_tasks s ts limit @ rest)) \<and>
     (rest = [] \<or> int (length (get_pending_tasks s ts limit)) = limit \<and> 0 < limit)"
proof -
  let ?all = "sort_key tk_created_at (filter (task_due (ts * second)) (map snd (ms_tasks s)))"
  have due: "task_due (ts * second) t \<longleftrightarrow> tk_status t = TkPending \<and>
      (case tk_scheduled_at t of None \<Rightarrow> True | Some d \<Rightarrow> d \<le> ts * 1000000000)" for t
    by (auto simp: task_due_def duration_units split: option.splits)
  obtain rest where rest: "limit_to limit ?all @ rest = ?all"
      "rest = [] \<or> int (length (limit_to limit ?all)) = limit \<and> 0 < limit"
    by (rule limit_to_split)
  show ?thesis
    using rest by (intro exI [of _ rest]) (simp add: get_pending_tasks_def due)
qed

end
