(* ===== verification/Idempotent.thy ===== *)
theory Idempotent
  imports Prelude
begin

text \<open>
  Idempotency checking (\<open>workflow/pkg/idempotent/idempotent.go\<close>): the memory checker, the
  checker over a store, and the keys they generate. SHA-256 is the parameter \<open>sha\<close>; the
  store of \<open>StoreIdempotencyChecker\<close>, an interface of the package, is a pair of functions.
\<close>

subsection \<open>Keys\<close>

fun join_with_colon :: "string list \<Rightarrow> string outcome" where
  "join_with_colon [] = Panic ''index out of range''"
| "join_with_colon (p # ps) = Done (fold (\<lambda>q result. result @ '':'' @ q) ps p)"

definition memory_generate_key :: "(string \<Rightarrow> string) \<Rightarrow> string list \<Rightarrow> string outcome" where
  "memory_generate_key sha parts =
     bind_outcome (join_with_colon parts) (\<lambda>raw. Done (hex_of (sha raw)))"

text \<open>The loop of the other checker puts the colon before every part but the first.\<close>

fun store_key_loop :: "nat \<Rightarrow> string list \<Rightarrow> string \<Rightarrow> string" where
  "store_key_loop i [] raw = raw"
| "store_key_loop i (p # ps) raw =
     store_key_loop (Suc i) ps ((if i > 0 then raw @ '':'' else raw) @ p)"

definition store_generate_key :: "(string \<Rightarrow> string) \<Rightarrow> string list \<Rightarrow> string" where
  "store_generate_key sha parts = hex_of (sha (store_key_loop 0 parts []))"

subsection \<open>The memory checker\<close>

record mem_checker =
  mc_store :: "(string, time) gomap"
  mc_ttl :: duration

definition new_memory_checker :: "duration \<Rightarrow> mem_checker" where
  "new_memory_checker ttl = \<lparr>mc_store = [], mc_ttl = (if ttl = 0 then 24 * hour else ttl)\<rparr>"

definition is_processed :: "time \<Rightarrow> mem_checker \<Rightarrow> string \<Rightarrow> bool \<times> mem_checker" where
  "is_processed now c key = (case gm_get (mc_store c) key of
       None \<Rightarrow> (False, c\<lparr>mc_store := gm_del key (mc_store c)\<rparr>)
     | Some expires \<Rightarrow> if now > expires then (False, c\<lparr>mc_store := gm_del key (mc_store c)\<rparr>)
                       else (True, c))"

definition mark_processed :: "time \<Rightarrow> mem_checker \<Rightarrow> string \<Rightarrow> duration \<Rightarrow> mem_checker" where
  "mark_processed now c key ttl =
     c\<lparr>mc_store := gm_put key (now + (if ttl = 0 then mc_ttl c else ttl)) (mc_store c)\<rparr>"

subsection \<open>The checker over a store\<close>

record 's store_checker =
  sc_is_attempt_processed :: "'s \<Rightarrow> string \<Rightarrow> (string + bool) \<times> 's"
  sc_mark_attempt_processed :: "'s \<Rightarrow> string \<Rightarrow> duration \<Rightarrow> string option \<times> 's"
  sc_ttl :: duration

definition new_store_checker where
  "new_store_checker is_p mark ttl =
     \<lparr>sc_is_attempt_processed = is_p, sc_mark_attempt_processed = mark,
      sc_ttl = (if ttl = 0 then 24 * hour else ttl)\<rparr>"

definition store_is_processed :: "'s store_checker \<Rightarrow> 's \<Rightarrow> string \<Rightarrow> (string + bool) \<times> 's" where
  "store_is_processed c s key = sc_is_attempt_processed c s key"

definition store_mark_processed ::
  "'s store_checker \<Rightarrow> 's \<Rightarrow> string \<Rightarrow> duration \<Rightarrow> string option \<times> 's" where
  "store_mark_processed c s key ttl =
     sc_mark_attempt_processed c s key (if ttl = 0 then sc_ttl c else ttl)"

subsection \<open>Calls in sequence\<close>

text \<open>The calls the checker serves, each with the time at which it runs.\<close>

datatype check_call = IsProcessed time string | MarkProcessed time string duration

fun call_time :: "check_call \<Rightarrow> time" where
  "call_time (IsProcessed t k) = t"
| "call_time (MarkProcessed t k d) = t"

fun call_step :: "mem_checker \<Rightarrow> check_call \<Rightarrow> mem_checker" where
  "call_step c (IsProcessed now key) = snd (is_processed now c key)"
| "call_step c (MarkProcessed now key ttl) = mark_processed now c key ttl"

text \<open>What the checker promises: a set of keys with deadlines, seen at a time.\<close>

definition processed_until :: "mem_checker \<Rightarrow> string \<Rightarrow> time option" where
  "processed_until c key = gm_get (mc_store c) key"

definition live :: "mem_checker \<Rightarrow> time \<Rightarrow> string set" where
  "live c now = {key. \<exists>d. gm_get (mc_store c) key = Some d \<and> now \<le> d}"

lemma is_processed_live: "fst (is_processed now c key) \<longleftrightarrow> key \<in> live c now"
  by (auto simp: is_processed_def live_def split: option.splits)

lemma live_is_processed: "now \<le> later \<Longrightarrow> live (snd (is_processed now c key)) later = live c later"
  by (auto simp: is_processed_def live_def split: option.splits)

lemma live_mark: "live (mark_processed now c key ttl) later =
    (if later \<le> now + (if ttl = 0 then mc_ttl c else ttl) then insert key (live c later)
     else live c later - {key})"
  by (auto simp: mark_processed_def live_def)

lemma ttl_is_processed [frame_simps]: "mc_ttl (snd (is_processed now c key)) = mc_ttl c"
  by (simp add: is_processed_def split: option.splits)

lemma ttl_mark [frame_simps]: "mc_ttl (mark_processed now c key ttl) = mc_ttl c"
  by (simp add: mark_processed_def)

text \<open>The last mark of a key decides, among the calls made so far.\<close>

fun last_mark :: "mem_checker \<Rightarrow> check_call list \<Rightarrow> string \<Rightarrow> time option" where
  "last_mark c [] key = processed_until c key"
| "last_mark c (MarkProcessed now k ttl # as) key =
     last_mark (mark_processed now c k ttl) as key"
| "last_mark c (IsProcessed now k # as) key = last_mark c as key"

subsection \<open>Joining\<close>

lemma fold_colon: "fold (\<lambda>q result. result @ '':'' @ q) ps p = p @ concat (map (\<lambda>q. '':'' @ q) ps)"
  by (induction ps arbitrary: p) auto

lemma join_colon_concat: "join_strs '':'' (p # ps) = p @ concat (map (\<lambda>q. '':'' @ q) ps)"
  by (induction ps arbitrary: p) auto

lemma join_with_colon_join: "ps \<noteq> [] \<Longrightarrow> join_with_colon ps = Done (join_strs '':'' ps)"
  by (cases ps) (simp_all only: join_with_colon.simps fold_colon join_colon_concat)

lemma store_key_loop_Suc: "store_key_loop (Suc i) ps raw = raw @ concat (map (\<lambda>p. '':'' @ p) ps)"
  by (induction ps arbitrary: i raw) auto

lemma store_key_join: "store_key_loop 0 ps [] = join_strs '':'' ps"
  by (cases ps) (simp_all add: store_key_loop_Suc join_colon_concat)

text \<open>A join of two parts determines them when the first has no colon.\<close>

lemma split_at_colon:
  "CHR '':'' \<notin> set a \<Longrightarrow> CHR '':'' \<notin> set b \<Longrightarrow> a @ '':'' @ s = b @ '':'' @ t \<longleftrightarrow> a = b \<and> s = t"
proof (induction a arbitrary: b)
  case Nil
  then show ?case by (cases b) auto
next
  case (Cons x a)
  then show ?case by (cases b) auto
qed

subsection \<open>Deleting expired entries loses nothing\<close>

lemma fold_calls_live:
  "sorted (map call_time as @ [now]) \<Longrightarrow> (\<And>t. map call_time as \<noteq> [] \<and> hd (map call_time as) \<le> t \<or>
      now \<le> t \<Longrightarrow> live c t = live c' t) \<Longrightarrow> mc_ttl c = mc_ttl c' \<Longrightarrow>
   key \<in> live (fold (\<lambda>a c. call_step c a) as c) now \<longleftrightarrow>
     (case last_mark c' as key of None \<Rightarrow> False | Some d \<Rightarrow> now \<le> d)"
proof (induction as arbitrary: c c')
  case Nil
  then have "key \<in> live c now \<longleftrightarrow> key \<in> live c' now" by simp
  then show ?case by (auto simp: processed_until_def live_def split: option.splits)
next
  case (Cons a as)
  have same: "live c t = live c' t" if "call_time a \<le> t" for t
    using Cons.prems(2) [of t] that by simp
  have later: "call_time a \<le> t"
    if "map call_time as \<noteq> [] \<and> hd (map call_time as) \<le> t \<or> now \<le> t" for t
    using Cons.prems(1) that by (cases as) auto
  show ?case
  proof (cases a)
    case (IsProcessed t k)
    have "live (call_step c a) u = live c' u"
      if "map call_time as \<noteq> [] \<and> hd (map call_time as) \<le> u \<or> now \<le> u" for u
      using same [OF later [OF that]] later [OF that] by (simp add: IsProcessed live_is_processed)
    from Cons.IH [OF _ this] show ?thesis
      using Cons.prems(1,3) by (simp add: IsProcessed ttl_is_processed)
  next
    case (MarkProcessed t k d)
    have "live (call_step c a) u = live (mark_processed t c' k d) u"
      if "map call_time as \<noteq> [] \<and> hd (map call_time as) \<le> u \<or> now \<le> u" for u
      using same [OF later [OF that]] Cons.prems(3) by (simp add: MarkProcessed live_mark)
    from Cons.IH [OF _ this] show ?thesis
      using Cons.prems(1,3) by (simp add: MarkProcessed ttl_mark)
  qed
qed

subsection \<open>Properties\<close>



lemma generated_keys_separate_parts:
  assumes "CHR '':'' \<notin> set w1" "CHR '':'' \<notin> set w2"
    "inj_on sha {w1 @ '':'' @ t1, w2 @ '':'' @ t2}"
  shows "memory_generate_key sha [w1, t1] = Done (store_generate_key sha [w1, t1])"
    "memory_generate_key sha [] = Panic ''index out of range''"
    "store_generate_key sha [w1, t1] = store_generate_key sha [w2, t2] \<longleftrightarrow> w1 = w2 \<and> t1 = t2"
proof -
  show "memory_generate_key sha [w1, t1] = Done (store_generate_key sha [w1, t1])"
    by (simp add: memory_generate_key_def store_generate_key_def)
  show "memory_generate_key sha [] = Panic ''index out of range''"
    by (simp add: memory_generate_key_def)
  have "store_generate_key sha [w1, t1] = store_generate_key sha [w2, t2] \<longleftrightarrow>
      sha (w1 @ '':'' @ t1) = sha (w2 @ '':'' @ t2)"
    by (simp add: store_generate_key_def hex_of_inj)
  also have "\<dots> \<longleftrightarrow> w1 @ '':'' @ t1 = w2 @ '':'' @ t2"
    by (rule inj_on_eq_iff [OF assms(3)]) simp_all
  finally show "store_generate_key sha [w1, t1] = store_generate_key sha [w2, t2] \<longleftrightarrow> w1 = w2 \<and> t1 = t2"
    using split_at_colon [OF assms(1,2)] by simp
qed

text \<open>Both checkers hash the parts joined by colons, so they give the same key for the
  same parts, and MemoryIdempotencyChecker panics on no parts; when the workflow IDs contain no
  colon and the hash does not collide on the two texts, two (workflow, trigger) pairs get the
  same key only if they are equal.\<close>

theorem generated_keys_separate:
  assumes "CHR '':'' \<notin> set w1" "CHR '':'' \<notin> set w2"
    "inj_on sha {w1 @ '':'' @ t1, w2 @ '':'' @ t2}"
  shows "memory_generate_key sha [w1, t1] = Done (store_generate_key sha [w1, t1]) \<and>
    memory_generate_key sha [] = Panic ''index out of range'' \<and>
    (store_generate_key sha [w1, t1] = store_generate_key sha [w2, t2] \<longleftrightarrow> w1 = w2 \<and> t1 = t2)"
  using generated_keys_separate_parts [OF assms] by blast

theorem generated_keys_separate_witness:
  "store_generate_key (\<lambda>s. s) [''wf'', ''a:b''] \<noteq> store_generate_key (\<lambda>s. s) [''wf2'', ''b'']"
  using generated_keys_separate [of "''wf''" "''wf2''" "\<lambda>s. s" "''a:b''" "''b''"]
  by simp

text \<open>Without the side condition on colons the keys are not separate, for any hash: the
  trigger b:c of workflow a and the trigger c of workflow a:b share one key, so marking
  one makes the checker answer that the other was processed.\<close>

theorem generated_keys_collide:
  "memory_generate_key sha [a, b @ '':'' @ c] = memory_generate_key sha [a @ '':'' @ b, c] \<and>
   store_generate_key sha [a, b @ '':'' @ c] = store_generate_key sha [a @ '':'' @ b, c]"
  by (simp add: memory_generate_key_def store_generate_key_def)

end
