(* ===== verification/Retry.thy ===== *)
theory Retry
  imports WfModel Complex_Main
begin

text \<open>
  The retry decorator and the executor registry of the workflow module
  (\<open>workflow/pkg/executor/executor.go\<close>, \<open>registry.go\<close>). The decorated executor, the
  context and the timer are functions over a state \<open>'x\<close> of the outside world; the random
  jitter is a rational in the unit interval and the float arithmetic of the back-off is exact
  rational arithmetic, with the conversion of a float outside the 64-bit range, which Go
  leaves to the implementation, as the function \<open>oob\<close>.
\<close>

subsection \<open>Requests and responses\<close>

record node_ref =
  nr_id :: string
  nr_name :: string
  nr_type :: string

record edge_ref =
  er_source_id :: string
  er_target_id :: string

record execute_request =
  rq_node_id :: string
  rq_node_name :: string
  rq_node_type :: string
  rq_config :: raw
  rq_input :: raw
  rq_input_map :: raw
  rq_output_map :: raw
  rq_retry_count :: int
  rq_max_retries :: int
  rq_attempt_id :: string
  rq_execution_id :: string
  rq_trigger_id :: string
  rq_workflow_id :: string
  rq_node_refs :: "node_ref list"
  rq_edge_refs :: "edge_ref list"

record execute_response =
  rp_success :: bool
  rp_output :: raw
  rp_error :: string
  rp_metadata :: "(string, string) gomap"

text \<open>The pair \<open>(*ExecuteResponse, error)\<close>; either pointer may be nil.\<close>

type_synonym exec_result = "execute_response option \<times> gerr option"

definition failed_response :: "string \<Rightarrow> execute_response" where
  "failed_response m = \<lparr>rp_success = False, rp_output = None, rp_error = m, rp_metadata = []\<rparr>"

subsection \<open>Back-off strategies\<close>

record linear_retry =
  lr_max_retries :: int
  lr_delay :: duration
  lr_max_delay :: duration

definition linear_next_delay :: "linear_retry \<Rightarrow> int \<Rightarrow> duration \<Rightarrow> duration \<Rightarrow> duration" where
  "linear_next_delay r attempt base mx = lr_delay r"

definition linear_max_attempts :: "linear_retry \<Rightarrow> int" where
  "linear_max_attempts r = lr_max_retries r + 1"

record exponential_retry =
  xr_max_retries :: int
  xr_base_delay :: duration
  xr_max_delay :: duration

definition pow2 :: "int \<Rightarrow> rat" where
  "pow2 k = (if 0 \<le> k then 2 ^ nat k else 1 / 2 ^ nat (- k))"

definition to_duration :: "(rat \<Rightarrow> int) \<Rightarrow> rat \<Rightarrow> duration" where
  "to_duration oob q = (if 0 \<le> q \<and> q < 2 ^ 63 then \<lfloor>q\<rfloor> else oob q)"

definition exponential_next_delay :: "rat \<Rightarrow> (rat \<Rightarrow> int) \<Rightarrow> exponential_retry \<Rightarrow> int \<Rightarrow>
    duration \<Rightarrow> duration \<Rightarrow> duration" where
  "exponential_next_delay jit oob r attempt base_delay mx =
     (let base = (if xr_base_delay r > 0 then xr_base_delay r else base_delay);
          delay = of_int base * pow2 (attempt - 1);
          jitter = jit * (1 / 2) * delay;
          total = to_duration oob (delay + jitter);
          max_delay = (if xr_max_delay r = 0 then 5 * minute else xr_max_delay r)
      in if total > max_delay then max_delay else total)"

definition exponential_max_attempts :: "exponential_retry \<Rightarrow> int" where
  "exponential_max_attempts r = xr_max_retries r + 1"

datatype retry_strategy = Linear linear_retry | Exponential exponential_retry

fun max_attempts :: "retry_strategy \<Rightarrow> int" where
  "max_attempts (Linear r) = linear_max_attempts r"
| "max_attempts (Exponential r) = exponential_max_attempts r"

fun next_delay :: "rat \<Rightarrow> (rat \<Rightarrow> int) \<Rightarrow> retry_strategy \<Rightarrow> int \<Rightarrow> duration \<Rightarrow> duration \<Rightarrow> duration" where
  "next_delay jit oob (Linear r) attempt base mx = linear_next_delay r attempt base mx"
| "next_delay jit oob (Exponential r) attempt base mx =
     exponential_next_delay jit oob r attempt base mx"

definition new_retry_strategy :: "string \<Rightarrow> int \<Rightarrow> int \<Rightarrow> int \<Rightarrow> retry_strategy" where
  "new_retry_strategy mode max_retries delay_sec max_delay_sec =
     (let d = (if delay_sec \<le> 0 then 1 else delay_sec) in
      if mode = ''EXPONENTIAL''
      then Exponential \<lparr>xr_max_retries = max_retries, xr_base_delay = wrap64 (d * second),
                        xr_max_delay = wrap64 (max_delay_sec * second)\<rparr>
      else Linear \<lparr>lr_max_retries = max_retries, lr_delay = wrap64 (d * second),
                   lr_max_delay = wrap64 (max_delay_sec * second)\<rparr>)"

subsection \<open>The decorator\<close>

text \<open>What the loop meets outside: \<open>ctx.Err()\<close>, a wait that ends with the context's error
  or with the timer, the jitter, the decorated executor.\<close>

record 'x retry_env =
  rv_ctx_err :: "'x \<Rightarrow> gerr option"
  rv_wait :: "duration \<Rightarrow> 'x \<Rightarrow> gerr option \<times> 'x"
  rv_jitter :: "'x \<Rightarrow> rat"
  rv_oob :: "rat \<Rightarrow> int"
  rv_inner :: "execute_request \<Rightarrow> 'x \<Rightarrow> exec_result \<times> 'x"

definition ctx_result :: "gerr \<Rightarrow> exec_result" where
  "ctx_result e = (Some (failed_response (gerr_text e)), Some e)"

definition exhausted_result :: "int \<Rightarrow> gerr option \<Rightarrow> exec_result" where
  "exhausted_result mx prev =
     (Some (failed_response (''all '' @ dec_of mx @ '' attempts failed: '' @ err_verb prev)), prev)"

text \<open>The wait before an attempt, for every attempt but the first.\<close>

definition retry_pause :: "'x retry_env \<Rightarrow> retry_strategy \<Rightarrow> int \<Rightarrow> 'x \<Rightarrow> gerr option \<times> 'x" where
  "retry_pause v strategy attempt x =
     (if attempt > 1
      then rv_wait v (next_delay (rv_jitter v x) (rv_oob v) strategy attempt 0 0) x
      else (None, x))"

function retry_loop :: "'x retry_env \<Rightarrow> retry_strategy \<Rightarrow> execute_request \<Rightarrow> int \<Rightarrow> int \<Rightarrow>
    gerr option \<Rightarrow> 'x \<Rightarrow> exec_result outcome \<times> 'x" where
  "retry_loop v strategy req mx attempt prev x =
     (if attempt \<le> mx then
        (case rv_ctx_err v x of
           Some e \<Rightarrow> (Done (ctx_result e), x)
         | None \<Rightarrow>
             (case retry_pause v strategy attempt x of
                (Some e, x1) \<Rightarrow> (Done (ctx_result e), x1)
              | (None, x1) \<Rightarrow>
                  (case rv_inner v req x1 of
                     ((resp, Some e), x2) \<Rightarrow>
                       retry_loop v strategy req mx (attempt + 1) (Some e) x2
                   | ((None, None), x2) \<Rightarrow> (Panic ''nil pointer dereference'', x2)
                   | ((Some resp, None), x2) \<Rightarrow>
                       if rp_success resp then (Done (Some resp, None), x2)
                       else retry_loop v strategy req mx (attempt + 1)
                              (Some (ErrMsg (rp_error resp))) x2)))
      else (Done (exhausted_result mx prev), x))"
  by pat_completeness auto
termination
  by (relation "measure (\<lambda>(v, strategy, req, mx, attempt, prev, x). nat (mx + 1 - attempt))") auto

declare retry_loop.simps [simp del]

definition retry_execute :: "'x retry_env \<Rightarrow> retry_strategy \<Rightarrow> execute_request \<Rightarrow> 'x \<Rightarrow>
    exec_result outcome \<times> 'x" where
  "retry_execute v strategy req x =
     (let mx = (if max_attempts strategy \<le> 0 then 1 else max_attempts strategy)
      in retry_loop v strategy req mx (rq_retry_count req + 1) None x)"

subsection \<open>The executor registry\<close>

type_synonym 'e registry = "(string, 'e) gomap"

definition new_registry :: "'e registry" where
  "new_registry = []"

definition register :: "('e \<Rightarrow> string) \<Rightarrow> 'e \<Rightarrow> 'e registry \<Rightarrow> 'e registry" where
  "register type_of e r = gm_put (type_of e) e r"

definition registry_get :: "'e registry \<Rightarrow> node_type \<Rightarrow> 'e option" where
  "registry_get r ty = (case gm_get r ty of None \<Rightarrow> None | Some e \<Rightarrow> Some e)"

definition registry_get_by_type_str :: "'e registry \<Rightarrow> string \<Rightarrow> 'e option" where
  "registry_get_by_type_str r ty = gm_get r ty"

datatype builtin_executor = HTTPExecutor | ScriptExecutor | SubWorkflowExecutor | DelayExecutor
  | InputNodeExecutor | OutputNodeExecutor | ConditionNodeExecutor | SwitchNodeExecutor
  | HumanInputExecutor

fun builtin_type :: "builtin_executor \<Rightarrow> string" where
  "builtin_type HTTPExecutor = ''HTTP''"
| "builtin_type ScriptExecutor = ''SCRIPT''"
| "builtin_type SubWorkflowExecutor = ''SUB_WORKFLOW''"
| "builtin_type DelayExecutor = ''DELAY''"
| "builtin_type InputNodeExecutor = ''INPUT''"
| "builtin_type OutputNodeExecutor = ''OUTPUT''"
| "builtin_type ConditionNodeExecutor = ''CONDITION''"
| "builtin_type SwitchNodeExecutor = ''SWITCH''"
| "builtin_type HumanInputExecutor = ''HUMAN_INPUT''"

definition register_default :: "builtin_executor registry \<Rightarrow> builtin_executor registry" where
  "register_default r = fold (register builtin_type)
     [HTTPExecutor, ScriptExecutor, SubWorkflowExecutor, DelayExecutor, InputNodeExecutor,
      OutputNodeExecutor, ConditionNodeExecutor, SwitchNodeExecutor] r"

definition register_human_input :: "builtin_executor registry \<Rightarrow> builtin_executor registry" where
  "register_human_input r = register builtin_type HumanInputExecutor r"

subsection \<open>Counting the calls of the executor\<close>

text \<open>The same loop with the calls of the decorated executor counted.\<close>

function retry_calls :: "'x retry_env \<Rightarrow> retry_strategy \<Rightarrow> execute_request \<Rightarrow> int \<Rightarrow> int \<Rightarrow> 'x \<Rightarrow>
    (exec_result \<times> 'x) list" where
  "retry_calls v strategy req mx attempt x =
     (if attempt \<le> mx \<and> rv_ctx_err v x = None \<and> fst (retry_pause v strategy attempt x) = None
      then let (res, x2) = rv_inner v req (snd (retry_pause v strategy attempt x)) in
           (res, x2) # (case res of
              (resp, Some e) \<Rightarrow> retry_calls v strategy req mx (attempt + 1) x2
            | (None, None) \<Rightarrow> []
            | (Some resp, None) \<Rightarrow>
                if rp_success resp then [] else retry_calls v strategy req mx (attempt + 1) x2)
      else [])"
  by pat_completeness auto
termination
  by (relation "measure (\<lambda>(v, strategy, req, mx, attempt, x). nat (mx + 1 - attempt))") auto

declare retry_calls.simps [simp del]

definition call_ok :: "exec_result \<Rightarrow> bool" where
  "call_ok res \<longleftrightarrow> (\<exists>r. res = (Some r, None) \<and> rp_success r)"

lemma retry_calls_length: "int (length (retry_calls v s req mx a x)) \<le> max 0 (mx + 1 - a)"
proof (induction v s req mx a x rule: retry_calls.induct)
  case (1 v s req mx a x)
  show ?case
    using 1 by (subst retry_calls.simps)
      (auto simp: Let_def split: prod.splits option.splits if_splits)
qed

lemma retry_step:
  assumes "a \<le> mx" "rv_ctx_err v x = None" "retry_pause v s a x = (None, x1)"
    "rv_inner v req x1 = ((resp, e), x2)"
  shows "retry_loop v s req mx a prev x = (case e of
        Some e' \<Rightarrow> retry_loop v s req mx (a + 1) (Some e') x2
      | None \<Rightarrow> (case resp of
          None \<Rightarrow> (Panic ''nil pointer dereference'', x2)
        | Some r' \<Rightarrow> if rp_success r' then (Done (Some r', None), x2)
            else retry_loop v s req mx (a + 1) (Some (ErrMsg (rp_error r'))) x2))"
    and "retry_calls v s req mx a x = ((resp, e), x2) # (case e of
        Some e' \<Rightarrow> retry_calls v s req mx (a + 1) x2
      | None \<Rightarrow> (case resp of
          None \<Rightarrow> []
        | Some r' \<Rightarrow> if rp_success r' then [] else retry_calls v s req mx (a + 1) x2))"
  subgoal using assms by (subst retry_loop.simps) (auto split: option.splits)
  subgoal using assms by (subst retry_calls.simps) (auto split: option.splits)
  done

lemma retry_loop_success:
  "fst (retry_loop v s req mx a prev x) = Done (Some r, None) \<and> rp_success r \<longleftrightarrow>
     (\<exists>cs y. retry_calls v s req mx a x = cs @ [((Some r, None), y)] \<and> rp_success r)"
proof (induction "nat (mx + 1 - a)" arbitrary: a prev x rule: less_induct)
  case less
  show ?case
  proof (cases "a \<le> mx \<and> rv_ctx_err v x = None \<and> fst (retry_pause v s a x) = None")
    case False
    then show ?thesis
      by (subst retry_loop.simps, subst retry_calls.simps)
        (auto simp: ctx_result_def exhausted_result_def failed_response_def
          split: option.splits prod.splits)
  next
    case True
    obtain x1 where p: "retry_pause v s a x = (None, x1)" using True by (metis prod.collapse)
    obtain resp e x2 where c: "rv_inner v req x1 = ((resp, e), x2)" by (metis prod.exhaust)
    have lim: "a \<le> mx" and ctx: "rv_ctx_err v x = None" using True by blast+
    have loop: "retry_loop v s req mx a prev x = (case e of
        Some e' \<Rightarrow> retry_loop v s req mx (a + 1) (Some e') x2
      | None \<Rightarrow> (case resp of
          None \<Rightarrow> (Panic ''nil pointer dereference'', x2)
        | Some r' \<Rightarrow> if rp_success r' then (Done (Some r', None), x2)
            else retry_loop v s req mx (a + 1) (Some (ErrMsg (rp_error r'))) x2))"
      by (rule retry_step(1) [OF lim ctx p c])
    have calls: "retry_calls v s req mx a x = ((resp, e), x2) # (case e of
        Some e' \<Rightarrow> retry_calls v s req mx (a + 1) x2
      | None \<Rightarrow> (case resp of
          None \<Rightarrow> []
        | Some r' \<Rightarrow> if rp_success r' then [] else retry_calls v s req mx (a + 1) x2))"
      by (rule retry_step(2) [OF lim ctx p c])
    consider (err) e' where "e = Some e'" | (panic) "e = None" "resp = None"
      | (fin) r' where "e = None" "resp = Some r'" "rp_success r'"
      | (fail) r' where "e = None" "resp = Some r'" "\<not> rp_success r'"
      by (cases e; cases resp) auto
    then show ?thesis
    proof cases
      case err
      show ?thesis
        using less [of "a + 1" "Some e'" x2] True err
        by (simp add: loop calls) (auto simp: Cons_eq_append_conv)
    next
      case panic
      then show ?thesis by (auto simp: loop calls Cons_eq_append_conv)
    next
      case fin
      then show ?thesis by (auto simp: loop calls Cons_eq_append_conv)
    next
      case fail
      show ?thesis
        using less [of "a + 1" "Some (ErrMsg (rp_error r'))" x2] True fail
        by (simp add: loop calls) (auto simp: Cons_eq_append_conv)
    qed
  qed
qed

text \<open>A context that never ends and an executor that always fails, with an error or with an
  unsuccessful response.\<close>

definition patient :: "'x retry_env \<Rightarrow> bool" where
  "patient v \<longleftrightarrow> (\<forall>x. rv_ctx_err v x = None) \<and> (\<forall>d x. fst (rv_wait v d x) = None)"

definition always_fails :: "'x retry_env \<Rightarrow> bool" where
  "always_fails v \<longleftrightarrow> (\<forall>q x. fst (rv_inner v q x) \<noteq> (None, None) \<and> \<not> call_ok (fst (rv_inner v q x)))"

fun result_err :: "exec_result \<Rightarrow> gerr option" where
  "result_err (resp, Some e) = Some e"
| "result_err (Some r, None) = Some (ErrMsg (rp_error r))"
| "result_err (None, None) = None"

lemma retry_loop_exhausts:
  assumes "patient v" "always_fails v"
  shows "fst (retry_loop v s req mx a prev x) =
      Done (exhausted_result mx (if mx < a then prev
        else result_err (fst (List.last (retry_calls v s req mx a x))))) \<and>
    int (length (retry_calls v s req mx a x)) = max 0 (mx + 1 - a)"
proof (induction "nat (mx + 1 - a)" arbitrary: a prev x rule: less_induct)
  case less
  show ?case
  proof (cases "a \<le> mx")
    case False
    then show ?thesis by (subst retry_loop.simps, subst (1 2) retry_calls.simps) simp
  next
    case True
    obtain x1 where p: "retry_pause v s a x = (None, x1)"
      using assms(1) by (cases "retry_pause v s a x")
        (auto simp: retry_pause_def patient_def split: if_splits dest: arg_cong [of _ _ fst])
    obtain resp e x2 where c: "rv_inner v req x1 = ((resp, e), x2)" by (metis prod.exhaust)
    have ctx: "rv_ctx_err v x = None" using assms(1) by (simp add: patient_def)
    obtain err where err: "result_err (resp, e) = Some err"
      "retry_loop v s req mx a prev x = retry_loop v s req mx (a + 1) (Some err) x2"
      "retry_calls v s req mx a x = ((resp, e), x2) # retry_calls v s req mx (a + 1) x2"
    proof (cases e)
      case None
      then obtain r where "resp = Some r" "\<not> rp_success r"
        using assms(2) [unfolded always_fails_def, rule_format, of req x1] c
        by (cases resp) (auto simp: call_ok_def)
      then show ?thesis
        using that None by (simp add: retry_step [OF True ctx p c])
    next
      case (Some e')
      then show ?thesis
        using that by (simp add: retry_step [OF True ctx p c])
    qed
    have "mx < a + 1 \<Longrightarrow> retry_calls v s req mx (a + 1) x2 = []"
      by (subst retry_calls.simps) simp
    moreover have "retry_calls v s req mx (a + 1) x2 \<noteq> []" if "\<not> mx < a + 1"
    proof
      assume "retry_calls v s req mx (a + 1) x2 = []"
      then show False using less [of "a + 1" "Some err" x2] True that by simp
    qed
    ultimately show ?thesis
      using less [of "a + 1" "Some err" x2] True by (auto simp: err split: if_splits)
  qed
qed

subsection \<open>Sample environments for the witnesses\<close>

text \<open>The state counts the calls; the executor succeeds on the calls \<open>good\<close> names.\<close>

definition sample_env :: "(nat \<Rightarrow> bool) \<Rightarrow> nat retry_env" where
  "sample_env good = \<lparr>rv_ctx_err = \<lambda>x. None, rv_wait = \<lambda>d x. (None, x), rv_jitter = \<lambda>x. 1 / 2,
     rv_oob = \<lambda>q. - (2 ^ 63),
     rv_inner = \<lambda>q x. ((Some ((failed_response ''no'')\<lparr>rp_success := good x\<rparr>), None), Suc x)\<rparr>"

definition sample_request :: "int \<Rightarrow> execute_request" where
  "sample_request n = \<lparr>rq_node_id = ''n'', rq_node_name = ''n'', rq_node_type = ''TEST'',
     rq_config = None, rq_input = None, rq_input_map = None, rq_output_map = None,
     rq_retry_count = n, rq_max_retries = 2, rq_attempt_id = ''t'', rq_execution_id = ''e'',
     rq_trigger_id = [], rq_workflow_id = ''w'', rq_node_refs = [], rq_edge_refs = []\<rparr>"

subsection \<open>Properties\<close>

text \<open>The decorator calls the executor at most as often as attempts are left, and
  reports success exactly when its last call succeeded, with that call's response: success
  is never made up and a success is never retried.\<close>

theorem retry_execute_first_success:
  "let mx = (if max_attempts s \<le> 0 then 1 else max_attempts s);
       cs = retry_calls v s req mx (rq_retry_count req + 1) x
   in int (length cs) \<le> max 0 (mx - rq_retry_count req) \<and>
      ((fst (retry_execute v s req x) = Done (Some r, None) \<and> rp_success r) =
       (cs \<noteq> [] \<and> fst (List.last cs) = (Some r, None) \<and> rp_success r))"
proof -
  have "(\<exists>cs y. xs = cs @ [((Some r, None), y)]) \<longleftrightarrow> xs \<noteq> [] \<and> fst (List.last xs) = (Some r, None)"
    for xs :: "(exec_result \<times> 'a) list"
    by (cases xs rule: rev_cases) auto
  then show ?thesis
    using retry_calls_length [of v s req _ "rq_retry_count req + 1" x]
    by (simp add: Let_def retry_execute_def retry_loop_success algebra_simps)
qed

text \<open>With a context that never ends and an executor that always fails, the decorator
  makes exactly the attempts that are left and returns a failed response with the error of
  the last one; with no attempt left it makes no call at all, and the error is nil.\<close>

theorem retry_execute_exhausts:
  assumes "patient v" "always_fails v"
  shows "let mx = (if max_attempts s \<le> 0 then 1 else max_attempts s);
       cs = retry_calls v s req mx (rq_retry_count req + 1) x
   in int (length cs) = max 0 (mx - rq_retry_count req) \<and>
      fst (retry_execute v s req x) = Done (exhausted_result mx
        (if mx \<le> rq_retry_count req then None else result_err (fst (List.last cs))))"
  using retry_loop_exhausts [OF assms, of s req _ "rq_retry_count req + 1" None x]
  by (simp add: Let_def retry_execute_def algebra_simps)

theorem retry_execute_exhausts_witness:
  "fst (retry_execute (sample_env (\<lambda>_. False)) (new_retry_strategy ''LINEAR'' 2 1 5)
       (sample_request 3) 0) = Done (exhausted_result 3 None)"
proof -
  have "patient (sample_env (\<lambda>_. False))" "always_fails (sample_env (\<lambda>_. False))"
    by (simp_all add: patient_def always_fails_def sample_env_def call_ok_def failed_response_def)
  from retry_execute_exhausts [OF this, of "new_retry_strategy ''LINEAR'' 2 1 5" "sample_request 3" 0]
  show ?thesis
    by (simp add: Let_def new_retry_strategy_def linear_max_attempts_def sample_request_def)
qed

text \<open>Exponential back-off: while the float product stays below the 64-bit range, the
  delay before an attempt lies between the doubled base, capped, and the cap, which is five
  minutes when none is set.\<close>

theorem exponential_delay_bounds:
  assumes "0 < xr_base_delay r" "1 \<le> attempt" "0 \<le> jit" "jit < 1"
    "of_int (xr_base_delay r) * 2 ^ nat (attempt - 1) * (3 / 2) < (2 ^ 63 :: rat)"
  shows "let cap = (if xr_max_delay r = 0 then 300000000000 else xr_max_delay r);
             d = next_delay jit oob (Exponential r) attempt b m
    in min (xr_base_delay r * 2 ^ nat (attempt - 1)) cap \<le> d \<and> d \<le> cap"
proof -
  let ?d = "of_int (xr_base_delay r) * 2 ^ nat (attempt - 1) :: rat"
  let ?q = "?d + jit * (1 / 2) * ?d"
  have pos: "0 < ?d" using assms(1) by simp
  have "jit * ?d \<le> 1 * ?d" using assms(4) pos by (intro mult_right_mono) simp_all
  then have "?q < 2 ^ 63" using assms(5) by linarith
  moreover have low: "?d \<le> ?q" using assms(3) pos by simp
  ultimately have "to_duration oob ?q = \<lfloor>?q\<rfloor>"
    using pos by (simp add: to_duration_def)
  moreover have "xr_base_delay r * 2 ^ nat (attempt - 1) \<le> \<lfloor>?q\<rfloor>"
    unfolding le_floor_iff using low by simp
  moreover have "next_delay jit oob (Exponential r) attempt b m =
      (let cap = (if xr_max_delay r = 0 then 300000000000 else xr_max_delay r)
       in if to_duration oob ?q > cap then cap else to_duration oob ?q)"
    using assms(1,2) by (simp add: exponential_next_delay_def Let_def pow2_def duration_units)
  ultimately show ?thesis by (auto simp: Let_def min_def)
qed

theorem exponential_delay_bounds_witness:
  "next_delay (1 / 2) (\<lambda>q. 0) (Exponential \<lparr>xr_max_retries = 9, xr_base_delay = second,
       xr_max_delay = 10 * second\<rparr>) 5 0 0 = 10 * second"
  using exponential_delay_bounds [of "\<lparr>xr_max_retries = 9, xr_base_delay = second,
       xr_max_delay = 10 * second\<rparr>" 5 "1 / 2" "\<lambda>q. 0" 0 0]
  by (simp add: duration_units Let_def)

end
