(* ===== verification/Engine.thy ===== *)
theory Engine
  imports ExecContext MemStore Idempotent Retry
begin

text \<open>
  The workflow engine (\<open>workflow/pkg/engine/engine.go\<close>, \<open>hooks.go\<close>) over the memory store
  and the memory idempotency checker. A world holds the store, the table of running
  executions with their channels, the notifications sent to the observers, the timers and
  goroutines started, and a state \<open>'x\<close> of what is outside: contexts, executors, the consumers
  of the event channels. The nodes of a batch run one after the other in the order
  \<open>en_order\<close> gives, which stands for the scheduler; each node is atomic, as the maps the
  goroutines share are locked and each goroutine writes its own task only. A send that can
  never proceed is \<open>Blocked\<close>, a panic of a goroutine, which ends the process, is \<open>Panic\<close>.
\<close>

subsection \<open>State\<close>

record dag_snapshot =
  ds_completed_nodes :: "node_id \<Rightarrow> bool"
  ds_variables :: "(node_id, raw) gomap"
  ds_in_degree :: "(node_id, int) gomap"
  ds_ready :: "node_id list"

record event_chan =
  ch_buf :: "event list"
  ch_closed :: bool

text \<open>Channels that are replaced while a goroutine still holds the old one carry an
  identity; the closed ones are listed in the world.\<close>

record running_execution =
  rx_cancel :: nat
  rx_started :: time
  rx_events :: "event_chan option"
  rx_waiting_inputs :: "(node_id, string list) gomap"
  rx_debug_mode :: bool
  rx_breakpoints :: "node_id list"
  rx_step_ch :: "nat option"
  rx_paused_ch :: "nat option"
  rx_paused_at :: "time option"
  rx_snapshot :: "dag_snapshot option"

record engine_config =
  ec_max_parallel_tasks :: int
  ec_default_timeout :: duration
  ec_idempotency_ttl :: duration
  ec_pause_timeout :: duration
  ec_event_buffer_size :: int
  ec_log_name :: string

definition default_engine_config :: engine_config where
  "default_engine_config =
     \<lparr>ec_max_parallel_tasks = 10, ec_default_timeout = 30 * minute,
      ec_idempotency_ttl = 24 * hour, ec_pause_timeout = 0, ec_event_buffer_size = 256,
      ec_log_name = ''workflow.engine''\<rparr>"

datatype notification =
    ExecStarted string | ExecCompleted string "gerr option" | ExecPaused string
  | ExecResumed string | ExecCancelled string
  | TaskStarted node_id | TaskCompleted node_id "gerr option" | TaskSkipped node_id string
  | TaskRetrying node_id int

record 'x world =
  ew_store :: mem_store
  ew_idem :: mem_checker
  ew_running :: "(string, running_execution) gomap"
  ew_config :: engine_config
  ew_now :: time
  ew_next :: nat
  ew_closed :: "nat list"
  ew_obs :: "notification list"
  ew_timers :: "(time \<times> string) list"
  ew_spawned :: "(nat \<times> execution \<times> workflow) list"
  ew_out :: 'x

text \<open>What is outside: fresh IDs, the hash, the codec, contexts, executors by node type,
  timers, the consumers of the event channels (how many buffered events they have taken by
  the time of the next send), StepNext calls during a debug stop, and the order of a batch.\<close>

record 'x engine_env =
  en_uuid :: "nat \<Rightarrow> string"
  en_sha :: "string \<Rightarrow> string"
  en_codec :: codec
  en_ctx_err :: "nat \<Rightarrow> 'x \<Rightarrow> gerr option"
  en_with_cancel :: "nat \<Rightarrow> nat \<Rightarrow> 'x \<Rightarrow> 'x"
  en_cancel :: "nat \<Rightarrow> 'x \<Rightarrow> 'x"
  en_wait :: "nat \<Rightarrow> duration \<Rightarrow> 'x \<Rightarrow> gerr option \<times> 'x"
  en_jitter :: "'x \<Rightarrow> rat"
  en_oob :: "rat \<Rightarrow> int"
  en_executor :: "string \<Rightarrow> (nat \<Rightarrow> execute_request \<Rightarrow> 'x \<Rightarrow> exec_result \<times> 'x) option"
  en_taken :: "string \<Rightarrow> 'x \<Rightarrow> nat"
  en_took :: "'x \<Rightarrow> duration"
  en_step :: "string \<Rightarrow> 'x \<Rightarrow> bool"
  en_order :: "node list \<Rightarrow> node list"

definition fresh :: "'x world \<Rightarrow> nat \<times> 'x world" where
  "fresh w = (ew_next w, w\<lparr>ew_next := Suc (ew_next w)\<rparr>)"

abbreviation notify :: "notification \<Rightarrow> 'x world \<Rightarrow> 'x world" where
  "notify n w \<equiv> w\<lparr>ew_obs := ew_obs w @ [n]\<rparr>"

abbreviation set_running :: "string \<Rightarrow> running_execution \<Rightarrow> 'x world \<Rightarrow> 'x world" where
  "set_running i r w \<equiv> w\<lparr>ew_running := gm_put i r (ew_running w)\<rparr>"

definition new_running :: "nat \<Rightarrow> time \<Rightarrow> running_execution" where
  "new_running ctx now =
     \<lparr>rx_cancel = ctx, rx_started = now, rx_events = None, rx_waiting_inputs = [],
      rx_debug_mode = False, rx_breakpoints = [], rx_step_ch = None, rx_paused_ch = None,
      rx_paused_at = None, rx_snapshot = None\<rparr>"

text \<open>A store update whose error the code drops or inspects.\<close>

definition put_execution :: "execution \<Rightarrow> 'x world \<Rightarrow> store_error + (execution \<times> 'x world)" where
  "put_execution e w = (case update_execution (ew_store w) e of
       Inl err \<Rightarrow> Inl err
     | Inr (s, e') \<Rightarrow> Inr (e', w\<lparr>ew_store := s\<rparr>))"

definition put_task :: "task \<Rightarrow> 'x world \<Rightarrow> 'x world" where
  "put_task t w = (case update_task (ew_store w) t of
       Inl err \<Rightarrow> w | Inr s \<Rightarrow> w\<lparr>ew_store := s\<rparr>)"

subsection \<open>Pause signals\<close>

definition init_pause_signal :: "string \<Rightarrow> 'x world \<Rightarrow> 'x world" where
  "init_pause_signal i w = (case gm_get (ew_running w) i of
       None \<Rightarrow> w
     | Some r \<Rightarrow> if rx_paused_ch r = None
                 then let (c, w1) = fresh w in set_running i (r\<lparr>rx_paused_ch := Some c\<rparr>) w1
                 else w)"

definition signal_pause :: "string \<Rightarrow> 'x world \<Rightarrow> 'x world outcome" where
  "signal_pause i w = (case gm_get (ew_running w) i of
       None \<Rightarrow> Done w
     | Some r \<Rightarrow> (case rx_paused_ch r of
           None \<Rightarrow> Panic ''close of nil channel''
         | Some c \<Rightarrow> if c \<in> set (ew_closed w) then Done w
                     else Done (set_running i (r\<lparr>rx_paused_at := Some (ew_now w)\<rparr>)
                                 (w\<lparr>ew_closed := c # ew_closed w\<rparr>))))"

definition signal_resume :: "string \<Rightarrow> 'x world \<Rightarrow> 'x world" where
  "signal_resume i w = (case gm_get (ew_running w) i of
       None \<Rightarrow> w
     | Some r \<Rightarrow> let (c, w1) = fresh w in
         set_running i (r\<lparr>rx_paused_ch := Some c, rx_paused_at := None, rx_snapshot := None\<rparr>) w1)"

definition save_dag_snapshot :: "string \<Rightarrow> (node_id \<Rightarrow> bool) \<Rightarrow> (node_id, raw) gomap \<Rightarrow>
    (node_id, int) gomap \<Rightarrow> node_id list \<Rightarrow> 'x world \<Rightarrow> 'x world" where
  "save_dag_snapshot i completed vars in_degree ready w = (case gm_get (ew_running w) i of
       None \<Rightarrow> w
     | Some r \<Rightarrow> set_running i (r\<lparr>rx_snapshot := Some \<lparr>ds_completed_nodes = completed,
           ds_variables = vars, ds_in_degree = in_degree, ds_ready = ready\<rparr>\<rparr>) w)"

subsection \<open>Human input, event subscription, debugging\<close>

text \<open>The channel is the open one of the node, with an empty buffer, or a closed one.\<close>

definition wait_for_human_input :: "string \<Rightarrow> node_id \<Rightarrow> 'x world \<Rightarrow> bool \<times> 'x world" where
  "wait_for_human_input i n w = (case gm_get (ew_running w) i of
       None \<Rightarrow> (False, w)
     | Some r \<Rightarrow> (True, set_running i
           (r\<lparr>rx_waiting_inputs := gm_put n [] (rx_waiting_inputs r)\<rparr>) w))"

text \<open>The select with a default: the send when there is room, else the context's error when
  it has ended, else the error of the default; when both cases are ready either may be taken
  (\<open>prefer_send\<close>).\<close>

definition provide_human_input :: "bool \<Rightarrow> gerr option \<Rightarrow> string \<Rightarrow> node_id \<Rightarrow> string \<Rightarrow>
    'x world \<Rightarrow> gerr option \<times> 'x world" where
  "provide_human_input prefer_send ctx i n input w = (case gm_get (ew_running w) i of
       None \<Rightarrow> (Some (ErrMsg (''execution '' @ i @ '' not found'')), w)
     | Some r \<Rightarrow> (case gm_get (rx_waiting_inputs r) n of
           None \<Rightarrow> (Some (ErrMsg (''no waiting human input for execution '' @ i @ '' node '' @ n)), w)
         | Some buf \<Rightarrow>
             let sent = set_running i
               (r\<lparr>rx_waiting_inputs := gm_put n (buf @ [input]) (rx_waiting_inputs r)\<rparr>) w in
             if length buf < 1 \<and> (ctx = None \<or> prefer_send) then (None, sent)
             else (case ctx of
                 Some e \<Rightarrow> (Some e, w)
               | None \<Rightarrow> (Some (ErrMsg ''human input channel full or closed''), w))))"

text \<open>\<open>eventsForExec\<close>: the channel of a running execution, made on first use.\<close>

definition events_for_exec :: "string \<Rightarrow> 'x world \<Rightarrow> event_chan option \<times> 'x world" where
  "events_for_exec i w = (case gm_get (ew_running w) i of
       None \<Rightarrow> (None, w)
     | Some r \<Rightarrow> (case rx_events r of
           Some c \<Rightarrow> (Some c, w)
         | None \<Rightarrow> let c = \<lparr>ch_buf = [], ch_closed = False\<rparr> in
             (Some c, set_running i (r\<lparr>rx_events := Some c\<rparr>) w)))"

definition events :: "string \<Rightarrow> 'x world \<Rightarrow> (gerr + event_chan) \<times> 'x world" where
  "events i w = (case gm_get (ew_running w) i of
       None \<Rightarrow> (Inl (ErrMsg (''execution '' @ i @ '' not found'')), w)
     | Some r \<Rightarrow> (case rx_events r of
           Some c \<Rightarrow> (Inr c, w)
         | None \<Rightarrow> let c = \<lparr>ch_buf = [], ch_closed = False\<rparr> in
             (Inr c, set_running i (r\<lparr>rx_events := Some c\<rparr>) w)))"

definition set_channel :: "string \<Rightarrow> event_chan \<Rightarrow> 'x world \<Rightarrow> 'x world" where
  "set_channel i c w = (case gm_get (ew_running w) i of
       None \<Rightarrow> w | Some r \<Rightarrow> set_running i (r\<lparr>rx_events := Some c\<rparr>) w)"

definition set_breakpoints :: "string \<Rightarrow> node_id list \<Rightarrow> 'x world \<Rightarrow> gerr option \<times> 'x world" where
  "set_breakpoints i ns w = (case gm_get (ew_running w) i of
       None \<Rightarrow> (Some (ErrMsg (''execution '' @ i @ '' not found'')), w)
     | Some r \<Rightarrow> (None, set_running i
         (r\<lparr>rx_breakpoints := rx_breakpoints r @ ns, rx_debug_mode := True\<rparr>) w))"

definition step_next :: "string \<Rightarrow> 'x world \<Rightarrow> gerr option \<times> 'x world" where
  "step_next i w = (case gm_get (ew_running w) i of
       None \<Rightarrow> (Some (ErrMsg (''execution '' @ i @ '' not found'')), w)
     | Some r \<Rightarrow> (None, case rx_step_ch r of
           None \<Rightarrow> w
         | Some k \<Rightarrow> if k < 1 then set_running i (r\<lparr>rx_step_ch := Some (k + 1)\<rparr>) w else w))"

definition should_pause_for_debug :: "string \<Rightarrow> node_id \<Rightarrow> 'x world \<Rightarrow> bool" where
  "should_pause_for_debug i n w = (case gm_get (ew_running w) i of
       None \<Rightarrow> False | Some r \<Rightarrow> rx_debug_mode r \<and> n \<in> set (rx_breakpoints r))"

text \<open>The receive takes a buffered token, or one that a StepNext call sends meanwhile.\<close>

definition wait_for_debug_step :: "'x engine_env \<Rightarrow> string \<Rightarrow> 'x world \<Rightarrow> 'x world outcome" where
  "wait_for_debug_step v i w = (case gm_get (ew_running w) i of
       None \<Rightarrow> Done w
     | Some r \<Rightarrow>
         let k = (case rx_step_ch r of None \<Rightarrow> 0 | Some k \<Rightarrow> k) in
         if 0 < k then Done (set_running i (r\<lparr>rx_step_ch := Some (k - 1)\<rparr>) w)
         else if en_step v i (ew_out w) then Done (set_running i (r\<lparr>rx_step_ch := Some 0\<rparr>) w)
         else Blocked)"

subsection \<open>Events of an execution\<close>

text \<open>A blocking send on the channel of the execution: the consumers first take what they
  take; a full buffer that nobody reads blocks for ever.\<close>

definition send_event :: "'x engine_env \<Rightarrow> string \<Rightarrow> event \<Rightarrow> 'x world \<Rightarrow> 'x world outcome" where
  "send_event v i ev w = (case events_for_exec i w of
       (None, w1) \<Rightarrow> Done w1
     | (Some c, w1) \<Rightarrow>
         if ch_closed c then Panic ''send on closed channel''
         else let buf = drop (en_taken v i (ew_out w1)) (ch_buf c) in
              if length buf < 256 then Done (set_channel i (c\<lparr>ch_buf := buf @ [ev]\<rparr>) w1)
              else Blocked)"

text \<open>\<open>pushFinalEvent\<close>: a send that is dropped when the buffer is full, then the close.\<close>

definition push_final_event :: "'x engine_env \<Rightarrow> string \<Rightarrow> string \<Rightarrow> 'x world \<Rightarrow> 'x world outcome" where
  "push_final_event v i etype w = (case events_for_exec i w of
       (None, w1) \<Rightarrow> Done w1
     | (Some c, w1) \<Rightarrow>
         if ch_closed c then Panic ''send on closed channel''
         else let buf = drop (en_taken v i (ew_out w1)) (ch_buf c);
                  ev = new_workflow_event (ew_now w1) etype i [] [] [] []
              in Done (set_channel i \<lparr>ch_buf = (if length buf < 256 then buf @ [ev] else buf),
                                       ch_closed = True\<rparr> w1))"

subsection \<open>The state of one run\<close>

record run_state =
  rs_ec :: exec_context
  rs_completed :: "node_id \<Rightarrow> bool"
  rs_tasks :: "(node_id, task) gomap"
  rs_errs :: "gerr list"

type_synonym 'x run = "'x world \<times> run_state"

definition emit :: "string \<Rightarrow> node \<Rightarrow> string \<Rightarrow> 'x run \<Rightarrow> 'x run outcome" where
  "emit etype n content r = (case r of (w, s) \<Rightarrow>
     bind_outcome (emit_event (ew_now w) etype (nd_id n) (nd_name n) (nd_type n) content (rs_ec s))
       (\<lambda>ec. Done (w, s\<lparr>rs_ec := ec\<rparr>)))"

definition exec_id_of :: "run_state \<Rightarrow> string" where
  "exec_id_of s = ex_id (ec_execution (rs_ec s))"

text \<open>\<open>pushEvent\<close>, to the context's channel and to the engine's.\<close>

definition push_event :: "'x engine_env \<Rightarrow> string \<Rightarrow> node_id \<Rightarrow> string \<Rightarrow> node_type \<Rightarrow> string \<Rightarrow>
    'x run \<Rightarrow> 'x run outcome" where
  "push_event v etype n nname ntype content r = (case r of (w, s) \<Rightarrow>
     bind_outcome (emit_event (ew_now w) etype n nname ntype content (rs_ec s))
       (\<lambda>ec. bind_outcome
          (send_event v (exec_id_of s)
            (new_workflow_event (ew_now w) etype (exec_id_of s) n nname ntype content) w)
          (\<lambda>w1. Done (w1, s\<lparr>rs_ec := ec\<rparr>))))"

text \<open>The buffered error channel has room for one error per node of the definition.\<close>

definition push_err :: "nat \<Rightarrow> gerr \<Rightarrow> 'x run \<Rightarrow> 'x run outcome" where
  "push_err cap e r = (case r of (w, s) \<Rightarrow>
     if length (rs_errs s) < cap then Done (w, s\<lparr>rs_errs := rs_errs s @ [e]\<rparr>) else Blocked)"

text \<open>A change of the task that the task map and the goroutine share, with its UpdateTask.\<close>

definition save_task :: "task \<Rightarrow> 'x run \<Rightarrow> 'x run" where
  "save_task t r = (case r of (w, s) \<Rightarrow>
     (put_task t w, s\<lparr>rs_tasks := gm_put (tk_node_id t) t (rs_tasks s)\<rparr>))"

abbreviation notify_run :: "notification \<Rightarrow> 'x run \<Rightarrow> 'x run" where
  "notify_run n r \<equiv> (notify n (fst r), snd r)"

abbreviation mark_completed :: "node_id \<Rightarrow> 'x run \<Rightarrow> 'x run" where
  "mark_completed n r \<equiv> (fst r, (snd r)\<lparr>rs_completed := (rs_completed (snd r))(n := True)\<rparr>)"

subsection \<open>Executing a node\<close>

definition handle_node_failure :: "'x engine_env \<Rightarrow> nat \<Rightarrow> task \<Rightarrow> node \<Rightarrow> gerr \<Rightarrow> 'x run \<Rightarrow>
    'x run outcome" where
  "handle_node_failure v cap t n err r =
     (let t1 = t\<lparr>tk_status := TkFailed, tk_error := gerr_text err\<rparr>;
          r1 = notify_run (TaskCompleted (nd_id n) (Some err)) (save_task t1 r)
      in bind_outcome (emit ''node.error'' n (gerr_text err) r1)
        (\<lambda>r2. bind_outcome
           (push_event v ''node.error'' (nd_id n) (nd_name n) (nd_type n) (gerr_text err) r2)
           (\<lambda>(w, s).
              let d = (case (tk_started_at t1, tk_finished_at t1) of
                         (Some a, Some b) \<Rightarrow> b - a | _ \<Rightarrow> 0);
                  ec = record_trace (ew_now w) (nd_id n) (nd_type n) (nd_name n) (tk_input t1) None d
                         (Some err) (rs_ec s)
              in push_err cap err (w, s\<lparr>rs_ec := ec\<rparr>))))"

definition node_refs_of :: "workflow \<Rightarrow> node_ref list" where
  "node_refs_of g = map (\<lambda>n. \<lparr>nr_id = nd_id n, nr_name = nd_name n, nr_type = nd_type n\<rparr>) (wf_nodes g)"

definition edge_refs_of :: "workflow \<Rightarrow> edge_ref list" where
  "edge_refs_of g = map (\<lambda>e. \<lparr>er_source_id = ed_source_id e, er_target_id = ed_target_id e\<rparr>)
     (filter (\<lambda>e. \<not> ed_internal e) (wf_edges g))"

definition node_request :: "exec_context \<Rightarrow> node \<Rightarrow> task \<Rightarrow> execute_request" where
  "node_request ec n t =
     \<lparr>rq_node_id = nd_id n, rq_node_name = nd_name n, rq_node_type = nd_type n,
      rq_config = nd_config n, rq_input = tk_input t, rq_input_map = nd_input_mapping n,
      rq_output_map = nd_output_mapping n, rq_retry_count = tk_retry_count t,
      rq_max_retries = nd_max_retries n, rq_attempt_id = tk_attempt_id t,
      rq_execution_id = ex_id (ec_execution ec), rq_trigger_id = ex_trigger_id (ec_execution ec),
      rq_workflow_id = ex_workflow_id (ec_execution ec),
      rq_node_refs = node_refs_of (ec_workflow ec), rq_edge_refs = edge_refs_of (ec_workflow ec)\<rparr>"

fun emit_retries :: "node \<Rightarrow> int list \<Rightarrow> 'x run \<Rightarrow> 'x run outcome" where
  "emit_retries n [] r = Done r"
| "emit_retries n (a # as) r =
     bind_outcome (emit ''node.retrying'' n (''retry '' @ dec_of a) r)
       (\<lambda>r1. emit_retries n as (notify_run (TaskRetrying (nd_id n) a) r1))"

definition run_executor :: "'x engine_env \<Rightarrow> (nat \<Rightarrow> execute_request \<Rightarrow> 'x \<Rightarrow> exec_result \<times> 'x) \<Rightarrow>
    nat \<Rightarrow> node \<Rightarrow> execute_request \<Rightarrow> 'x world \<Rightarrow> exec_result outcome \<times> 'x world" where
  "run_executor v impl ctx n req w =
     (let env = \<lparr>rv_ctx_err = en_ctx_err v ctx, rv_wait = en_wait v ctx, rv_jitter = en_jitter v,
                 rv_oob = en_oob v, rv_inner = impl ctx\<rparr>;
          strategy = new_retry_strategy (nd_retry_mode n) (nd_max_retries n) (nd_retry_delay n)
                       (nd_retry_max_delay n);
          (res, x) = retry_execute env strategy req (ew_out w)
      in (res, w\<lparr>ew_out := x, ew_now := ew_now w + en_took v x\<rparr>))"

definition skip_node :: "'x engine_env \<Rightarrow> node \<Rightarrow> task \<Rightarrow> gerr \<Rightarrow> 'x run \<Rightarrow> 'x run outcome" where
  "skip_node v n t err r =
     (let t1 = t\<lparr>tk_status := TkSkipped, tk_error := gerr_text err\<rparr>;
          r1 = notify_run (TaskSkipped (nd_id n) (gerr_text err)) (save_task t1 r)
      in bind_outcome (emit ''node.skipped'' n (gerr_text err) r1)
        (\<lambda>(w, s). Done (mark_completed (nd_id n) (w, s\<lparr>rs_ec := set_node_output (en_codec v) (nd_id n)
           (Some (''{\"skipped\":true,\"reason\":'' @ cd_quote (en_codec v) (gerr_text err) @ ''}''))
           (rs_ec s)\<rparr>))))"

definition complete_node :: "'x engine_env \<Rightarrow> node \<Rightarrow> task \<Rightarrow> execute_response \<Rightarrow> 'x run \<Rightarrow>
    'x run outcome" where
  "complete_node v n t resp r =
     (let t1 = t\<lparr>tk_status := TkCompleted, tk_output := rp_output resp\<rparr>;
          (w1, s1) = notify_run (TaskCompleted (nd_id n) None) (save_task t1 r);
          ec1 = set_node_output (en_codec v) (nd_id n) (rp_output resp) (rs_ec s1);
          d = ew_now w1 - (case tk_started_at t1 of None \<Rightarrow> 0 | Some a \<Rightarrow> a)
      in bind_outcome (emit_completed_event (ew_now w1) (nd_id n) (nd_name n) (nd_type n) d ec1)
        (\<lambda>ec2. bind_outcome
           (push_event v ''node.completed'' (nd_id n) (nd_name n) (nd_type n)
             (case rp_output resp of None \<Rightarrow> [] | Some out \<Rightarrow> out) (w1, s1\<lparr>rs_ec := ec2\<rparr>))
           (\<lambda>(w3, s3). Done (mark_completed (nd_id n)
              (w3, s3\<lparr>rs_ec := record_trace (ew_now w3) (nd_id n) (nd_type n) (nd_name n)
                 (tk_input t1) (rp_output resp) d None (rs_ec s3)\<rparr>)))))"

definition run_task :: "'x engine_env \<Rightarrow> nat \<Rightarrow> node \<Rightarrow> task \<Rightarrow> 'x run \<Rightarrow> 'x run outcome" where
  "run_task v cap n t r =
     (let now = ew_now (fst r);
          t1 = t\<lparr>tk_status := TkRunning, tk_started_at := Some now, tk_worker_id := ''local''\<rparr>;
          r1 = notify_run (TaskStarted (nd_id n)) (save_task t1 r)
      in case en_executor v (nd_type n) of
           None \<Rightarrow> handle_node_failure v cap t1 n (ErrMsg (''no executor for type: '' @ nd_type n)) r1
         | Some impl \<Rightarrow>
             bind_outcome (emit_retries n (if tk_retry_count t1 > 0 then [1..tk_retry_count t1] else []) r1)
               (\<lambda>(w2, s2).
                  case run_executor v impl (ec_context (rs_ec s2)) n (node_request (rs_ec s2) n t1) w2 of
                    (Panic m, w3) \<Rightarrow> Panic m
                  | (Blocked, w3) \<Rightarrow> Blocked
                  | (Done (resp, err), w3) \<Rightarrow>
                      let t2 = t1\<lparr>tk_finished_at := Some (ew_now w3)\<rparr>;
                          fail = (\<lambda>e. if nd_skip_on_failure n then skip_node v n t2 e (w3, s2)
                                      else handle_node_failure v cap t2 n e (w3, s2))
                      in (case (resp, err) of
                            (_, Some e) \<Rightarrow> fail e
                          | (None, None) \<Rightarrow> Panic ''nil pointer dereference''
                          | (Some rp, None) \<Rightarrow>
                              if rp_success rp then complete_node v n t2 rp (w3, s2)
                              else fail (ErrMsg (rp_error rp)))))"

definition create_node_task :: "'x engine_env \<Rightarrow> node \<Rightarrow> 'x run \<Rightarrow> task \<times> 'x run" where
  "create_node_task v n r = (case r of (w, s) \<Rightarrow>
     let (i, w1) = fresh w; (a, w2) = fresh w1;
         t = \<lparr>tk_id = en_uuid v i, tk_execution_id = exec_id_of s, tk_node_id = nd_id n,
              tk_node_name = nd_name n, tk_node_type = nd_type n, tk_status = TkPending,
              tk_input = get_input (en_codec v) (rs_ec s) n, tk_output = None, tk_error = [],
              tk_retry_count = 0, tk_max_retries = nd_max_retries n, tk_is_retry = False,
              tk_attempt_id = en_uuid v a, tk_worker_id = [], tk_scheduled_at = None,
              tk_started_at = None, tk_finished_at = None, tk_created_at = 0, tk_updated_at = 0\<rparr>
     in (t, w2\<lparr>ew_store := create_task (ew_store w2) t\<rparr>,
         s\<lparr>rs_tasks := gm_put (nd_id n) t (rs_tasks s)\<rparr>))"

text \<open>The content of the debug and pause events, as UTF-8 bytes.\<close>

definition debug_pause_text :: string where
  "debug_pause_text = map char_of [230, 150, 173, 231, 130, 185, 230, 154, 130, 229, 129, 156 :: nat]"

definition paused_text :: string where
  "paused_text = map char_of
     [230, 137, 167, 232, 161, 140, 229, 183, 178, 230, 154, 130, 229, 129, 156 :: nat]"

definition debug_stop :: "'x engine_env \<Rightarrow> node \<Rightarrow> 'x run \<Rightarrow> 'x run outcome" where
  "debug_stop v n r = (case r of (w, s) \<Rightarrow>
     if should_pause_for_debug (exec_id_of s) (nd_id n) w
     then bind_outcome
       (send_event v (exec_id_of s) (new_workflow_event (ew_now w) ''node.debug.pause''
          (exec_id_of s) (nd_id n) (nd_name n) (nd_type n) debug_pause_text) w)
       (\<lambda>w1. bind_outcome (wait_for_debug_step v (exec_id_of s) w1) (\<lambda>w2. Done (w2, s)))
     else Done r)"

definition execute_node :: "'x engine_env \<Rightarrow> nat \<Rightarrow> node \<Rightarrow> 'x run \<Rightarrow> 'x run outcome" where
  "execute_node v cap n r =
     (case en_ctx_err v (ec_context (rs_ec (snd r))) (ew_out (fst r)) of
        Some e \<Rightarrow> push_err cap e r
      | None \<Rightarrow>
          bind_outcome (debug_stop v n r)
           (\<lambda>r1. bind_outcome
              (push_event v ''node.started'' (nd_id n) (nd_name n) (nd_type n) [] r1)
              (\<lambda>(w2, s2). bind_outcome
                 (send_event v (exec_id_of s2) (new_workflow_event (ew_now w2) ''node.started''
                    (exec_id_of s2) (nd_id n) (nd_name n) (nd_type n) []) w2)
                 (\<lambda>w3. case gm_get (rs_tasks s2) (nd_id n) of
                     Some t \<Rightarrow> if task_is_final t then Done (mark_completed (nd_id n) (w3, s2))
                               else run_task v cap n t (w3, s2)
                   | None \<Rightarrow> (case create_node_task v n (w3, s2) of
                         (t, r4) \<Rightarrow> run_task v cap n t r4)))))"

subsection \<open>Executing the graph\<close>

text \<open>The nodes of a batch, each skipped if it has been completed meanwhile; the semaphore
  needs room for at least one node.\<close>

fun run_batch :: "'x engine_env \<Rightarrow> nat \<Rightarrow> node list \<Rightarrow> 'x run \<Rightarrow> 'x run outcome" where
  "run_batch v cap [] r = Done r"
| "run_batch v cap (n # ns) r =
     (if rs_completed (snd r) (nd_id n) then run_batch v cap ns r
      else if ec_max_parallel_tasks (ew_config (fst r)) \<le> 0 then Blocked
      else bind_outcome (execute_node v cap n r) (run_batch v cap ns))"

definition remaining_deps :: "dag \<Rightarrow> (node_id \<Rightarrow> bool) \<Rightarrow> node_id \<Rightarrow> int" where
  "remaining_deps g completed n =
     int (length (filter (\<lambda>d. \<not> completed d) (get_dep_nodes g n)))"

definition pause_run :: "'x engine_env \<Rightarrow> dag \<Rightarrow> 'x run \<Rightarrow> 'x run outcome" where
  "pause_run v g r = (case r of (w, s) \<Rightarrow>
     let ready = map nd_id (get_ready_nodes g (rs_completed s));
         in_degree = fold (\<lambda>n m. gm_put (nd_id n) (remaining_deps g (rs_completed s) (nd_id n)) m)
                       (wf_nodes (dg_workflow g)) [];
         w1 = save_dag_snapshot (exec_id_of s) (rs_completed s) (ec_variables (rs_ec s)) in_degree ready w;
         e = (ec_execution (rs_ec s))\<lparr>ex_current_node_id := []\<rparr>;
         (e2, w2) = (case put_execution e w1 of Inl err \<Rightarrow> (e, w1) | Inr p \<Rightarrow> p);
         s2 = s\<lparr>rs_ec := (rs_ec s)\<lparr>ec_execution := e2\<rparr>\<rparr>
     in bind_outcome (push_event v ''workflow.paused'' [] (ex_workflow_name e2) [] paused_text (w2, s2))
       (\<lambda>(w3, s3). Done (
          if ec_pause_timeout (ew_config w3) > 0
          then w3\<lparr>ew_timers := ew_timers w3 @
                 [(ew_now w3 + ec_pause_timeout (ew_config w3), exec_id_of s3)]\<rparr>
          else w3, s3)))"

text \<open>The batch loop, with fuel for the batches; None is running out of fuel. The error is
  the first one in the channel.\<close>

fun dag_loop :: "'x engine_env \<Rightarrow> nat \<Rightarrow> nat option \<Rightarrow> dag \<Rightarrow> nat \<Rightarrow> 'x run \<Rightarrow>
    (gerr option \<times> 'x run) outcome option" where
  "dag_loop v cap paused g fuel r =
     (case en_ctx_err v (ec_context (rs_ec (snd r))) (ew_out (fst r)) of
        Some e \<Rightarrow> Some (Done (Some e, r))
      | None \<Rightarrow>
          if (case paused of None \<Rightarrow> False | Some c \<Rightarrow> c \<in> set (ew_closed (fst r)))
          then Some (bind_outcome (pause_run v g r) (\<lambda>r1. Done (None, r1)))
          else
            let ready = get_ready_nodes g (rs_completed (snd r)) in
            if ready = [] then Some (Done (None, r))
            else (case fuel of
                0 \<Rightarrow> None
              | Suc k \<Rightarrow> (case run_batch v cap (en_order v ready) r of
                    Panic m \<Rightarrow> Some (Panic m)
                  | Blocked \<Rightarrow> Some Blocked
                  | Done (w1, s1) \<Rightarrow> (case rs_errs s1 of
                        e # es \<Rightarrow> Some (Done (Some e, w1, s1\<lparr>rs_errs := es\<rparr>))
                      | [] \<Rightarrow> dag_loop v cap paused g k (w1, s1)))))"

declare dag_loop.simps [simp del]

definition execute_dag :: "'x engine_env \<Rightarrow> nat \<Rightarrow> dag \<Rightarrow> 'x run \<Rightarrow>
    (gerr option \<times> 'x run) outcome option" where
  "execute_dag v fuel g r = (case r of (w, s) \<Rightarrow>
     if ec_max_parallel_tasks (ew_config w) < 0 then Some (Panic ''makechan: size out of range'')
     else
       let cap = length (wf_nodes (dg_workflow g));
           w1 = init_pause_signal (exec_id_of s) w;
           paused = (case gm_get (ew_running w1) (exec_id_of s) of
                       None \<Rightarrow> None | Some rx \<Rightarrow> rx_paused_ch rx)
       in (case run_batch v cap (en_order v (get_root_nodes g)) (w1, s) of
             Panic m \<Rightarrow> Some (Panic m)
           | Blocked \<Rightarrow> Some Blocked
           | Done r2 \<Rightarrow> dag_loop v cap paused g fuel r2))"

subsection \<open>Executing a workflow\<close>

fun dag_error_text :: "dag_error \<Rightarrow> string" where
  "dag_error_text (DagHasCycle p) = ''workflow DAG has cycle: ['' @ join_strs '' '' p @ '']''"
| "dag_error_text _ = ''DAG has cycle (topological sort incomplete)''"

definition stop_running :: "string \<Rightarrow> 'x world \<Rightarrow> 'x world" where
  "stop_running i w = w\<lparr>ew_running := gm_del i (ew_running w)\<rparr>"

definition fail_execution :: "execution \<Rightarrow> gerr \<Rightarrow> 'x world \<Rightarrow> 'x world" where
  "fail_execution e err w =
     (let e1 = e\<lparr>ex_finished_at := Some (ew_now w), ex_status := ExFailed, ex_error := gerr_text err\<rparr>;
          w1 = (case put_execution e1 w of
                  Inl x \<Rightarrow> w
                | Inr (e2, w2) \<Rightarrow> notify (ExecCompleted (ex_id e) (Some err)) w2)
      in stop_running (ex_id e) w1)"

fun load_tasks :: "task list \<Rightarrow> run_state \<Rightarrow> run_state" where
  "load_tasks [] s = s"
| "load_tasks (t # ts) s = load_tasks ts
     (let s1 = s\<lparr>rs_tasks := gm_put (tk_node_id t) t (rs_tasks s)\<rparr> in
      if tk_status t = TkCompleted \<or> tk_status t = TkSkipped
      then s1\<lparr>rs_completed := (rs_completed s1)(tk_node_id t := True)\<rparr> else s1)"

definition finish_workflow :: "'x engine_env \<Rightarrow> dag \<Rightarrow> 'x run \<Rightarrow> 'x world outcome" where
  "finish_workflow v g r = (case r of (w, s) \<Rightarrow>
     let e = ec_execution (rs_ec s) in
     bind_outcome
       (if list_all (\<lambda>n. rs_completed s (nd_id n)) (wf_nodes (dg_workflow g)) then
          (case put_execution (e\<lparr>ex_finished_at := Some (ew_now w), ex_status := ExCompleted\<rparr>) w of
             Inl err \<Rightarrow> Done w
           | Inr (e1, w1) \<Rightarrow>
               push_final_event v (ex_id e) ''workflow.completed''
                 (notify (ExecCompleted (ex_id e) None) w1))
        else Done w)
       (\<lambda>w1. Done (stop_running (ex_id e) w1)))"

definition execute_workflow :: "'x engine_env \<Rightarrow> nat \<Rightarrow> nat \<Rightarrow> execution \<Rightarrow> workflow \<Rightarrow> 'x world \<Rightarrow>
    'x world outcome option" where
  "execute_workflow v fuel ctx e g w =
     (case new_dag g of
        Inl err \<Rightarrow> Some (Done (fail_execution e (ErrMsg (dag_error_text err)) w))
      | Inr d \<Rightarrow>
          (case put_execution (e\<lparr>ex_status := ExRunning, ex_started_at := Some (ew_now w)\<rparr>) w of
             Inl err \<Rightarrow> Some (Done w)
           | Inr (e1, w1) \<Rightarrow>
               let w2 = notify (ExecStarted (ex_id e)) w1;
                   s = \<lparr>rs_ec = new_execution_context ctx e1 g, rs_completed = \<lambda>_. False,
                        rs_tasks = [], rs_errs = []\<rparr>
               in (case push_event v ''workflow.started'' [] (ex_workflow_name e1) []
                          (case ex_input e1 of None \<Rightarrow> [] | Some i \<Rightarrow> i) (w2, s) of
                     Panic m \<Rightarrow> Some (Panic m)
                   | Blocked \<Rightarrow> Some Blocked
                   | Done (w3, s3) \<Rightarrow>
                       (case execute_dag v fuel d
                               (w3, load_tasks (list_tasks (ew_store w3) (ex_id e)) s3) of
                          None \<Rightarrow> None
                        | Some (Panic m) \<Rightarrow> Some (Panic m)
                        | Some Blocked \<Rightarrow> Some Blocked
                        | Some (Done (Some CtxCanceled, w4, s4)) \<Rightarrow>
                            Some (push_final_event v (ex_id e) ''workflow.cancelled'' w4)
                        | Some (Done (Some err, w4, s4)) \<Rightarrow>
                            Some (push_final_event v (ex_id e) ''workflow.failed''
                              (fail_execution (ec_execution (rs_ec s4)) err w4))
                        | Some (Done (None, r4)) \<Rightarrow> Some (finish_workflow v d r4)))))"

subsection \<open>The public operations\<close>

definition store_err :: "store_error \<Rightarrow> gerr" where
  "store_err e = ErrMsg (store_error_text e)"

text \<open>\<open>int64(d.Seconds())\<close> of a duration, which loses no second below the float precision.\<close>

definition timeout_seconds :: "duration \<Rightarrow> int" where
  "timeout_seconds d = (if d \<ge> 0 then d div second else - (- d div second))"

definition new_execution :: "engine_config \<Rightarrow> time \<Rightarrow> string \<Rightarrow> workflow \<Rightarrow> raw \<Rightarrow> trigger_type \<Rightarrow>
    string \<Rightarrow> execution" where
  "new_execution cfg now i g input tt trigger =
     (let timeout = (if wf_timeout g \<le> 0 \<and> ec_default_timeout cfg > 0
                     then timeout_seconds (ec_default_timeout cfg) else wf_timeout g)
      in \<lparr>ex_id = i, ex_workflow_id = wf_id g, ex_workflow_name = wf_name g,
          ex_workflow_ver = wf_version g, ex_trigger_type = tt, ex_trigger_id = trigger,
          ex_status = ExPending, ex_input = input, ex_output = None, ex_state_data = None,
          ex_current_node_id = [], ex_error = [], ex_timeout = timeout,
          ex_expires_at = (if timeout > 0 then Some (now + wrap64 (timeout * second)) else None),
          ex_version = 1, ex_started_at = None, ex_finished_at = None, ex_created_at = 0,
          ex_updated_at = 0\<rparr>)"

definition create_and_spawn :: "'x engine_env \<Rightarrow> nat \<Rightarrow> string \<Rightarrow> raw \<Rightarrow> trigger_type \<Rightarrow> string \<Rightarrow>
    'x world \<Rightarrow> (gerr + string) outcome \<times> 'x world" where
  "create_and_spawn v ctx wid input tt trigger w =
     (case get_workflow_with_nodes (ew_store w) wid of
        Inl err \<Rightarrow> (Done (Inl (ErrMsg (''load workflow failed: '' @ store_error_text err))), w)
      | Inr g \<Rightarrow>
          if wf_status g \<noteq> WfActive
          then (Done (Inl (ErrMsg (''workflow '' @ wf_id g @ '' is not active: '' @
                                   workflow_status_str (wf_status g)))), w)
          else
            let (k, w1) = fresh w;
                e = new_execution (ew_config w1) (ew_now w1) (en_uuid v k) g input tt trigger
            in (case create_execution (ew_store w1) e of
                  Inl err \<Rightarrow> (Done (Inl (ErrMsg (''create execution failed: '' @ store_error_text err))), w1)
                | Inr s \<Rightarrow>
                    let w2 = w1\<lparr>ew_store := s\<rparr>;
                        w3 = (if trigger \<noteq> [] then
                          (case memory_generate_key (en_sha v) [wid, trigger] of
                             Done key \<Rightarrow> w2\<lparr>ew_idem := mark_processed (ew_now w2) (ew_idem w2) key
                                               (ec_idempotency_ttl (ew_config w2))\<rparr>
                           | _ \<Rightarrow> w2) else w2);
                        (c, w4) = fresh w3;
                        w5 = w4\<lparr>ew_out := en_with_cancel v ctx c (ew_out w4)\<rparr>;
                        w6 = set_running (ex_id e) (new_running c (ew_now w5)) w5
                    in (Done (Inr (ex_id e)), w6\<lparr>ew_spawned := ew_spawned w6 @ [(c, e, g)]\<rparr>)))"

definition start_workflow :: "'x engine_env \<Rightarrow> nat \<Rightarrow> string \<Rightarrow> raw \<Rightarrow> trigger_type \<Rightarrow> string \<Rightarrow>
    'x world \<Rightarrow> (gerr + string) outcome \<times> 'x world" where
  "start_workflow v ctx wid input tt trigger w =
     (if trigger = [] then create_and_spawn v ctx wid input tt trigger w
      else (case memory_generate_key (en_sha v) [wid, trigger] of
          Panic m \<Rightarrow> (Panic m, w)
        | Blocked \<Rightarrow> (Blocked, w)
        | Done key \<Rightarrow>
            let (processed, idem) = is_processed (ew_now w) (ew_idem w) key;
                w1 = w\<lparr>ew_idem := idem\<rparr>
            in if processed then
                 (case get_execution_by_trigger_id (ew_store w1) wid trigger of
                    Some existing \<Rightarrow> (Done (Inr (ex_id existing)), w1)
                  | None \<Rightarrow> create_and_spawn v ctx wid input tt trigger w1)
               else create_and_spawn v ctx wid input tt trigger w1))"

definition pause_workflow :: "'x engine_env \<Rightarrow> string \<Rightarrow> 'x world \<Rightarrow> (gerr option \<times> 'x world) outcome" where
  "pause_workflow v i w =
     (case get_execution (ew_store w) i of
        Inl err \<Rightarrow> Done (Some (store_err err), w)
      | Inr e \<Rightarrow>
          if \<not> can_transition e ExPaused
          then Done (Some (ErrMsg (''cannot pause from state: '' @ exec_status_str (ex_status e))), w)
          else bind_outcome (signal_pause i w)
            (\<lambda>w1. case put_execution (e\<lparr>ex_status := ExPaused\<rparr>) w1 of
                Inl err \<Rightarrow> Done (Some (store_err err), w1)
              | Inr (e2, w2) \<Rightarrow>
                  bind_outcome (push_final_event v i ''workflow.paused'' w2)
                    (\<lambda>w3. Done (None, notify (ExecPaused i) w3))))"

definition resume_workflow :: "'x engine_env \<Rightarrow> nat \<Rightarrow> string \<Rightarrow> 'x world \<Rightarrow>
    (gerr option \<times> 'x world) outcome" where
  "resume_workflow v ctx i w =
     (case get_execution (ew_store w) i of
        Inl err \<Rightarrow> Done (Some (store_err err), w)
      | Inr e \<Rightarrow>
          if ex_status e \<noteq> ExPaused
          then Done (Some (ErrMsg (''can only resume paused execution, current: '' @
                                   exec_status_str (ex_status e))), w)
          else (case get_workflow_with_nodes (ew_store w) (ex_workflow_id e) of
              Inl err \<Rightarrow> Done (Some (store_err err), w)
            | Inr g \<Rightarrow>
                let w1 = signal_resume i w in
                (case put_execution (e\<lparr>ex_status := ExRunning\<rparr>) w1 of
                   Inl err \<Rightarrow> Done (Some (store_err err), w1)
                 | Inr (e2, w2) \<Rightarrow>
                     bind_outcome (push_final_event v i ''workflow.resumed'' (notify (ExecResumed i) w2))
                       (\<lambda>w3. let (c, w4) = fresh w3; (p, w5) = fresh w4;
                                 w6 = w5\<lparr>ew_out := en_with_cancel v ctx c (ew_out w5)\<rparr>;
                                 rx = (new_running c (ew_now w6))\<lparr>rx_paused_ch := Some p\<rparr>;
                                 w7 = set_running i rx w6
                             in Done (None, w7\<lparr>ew_spawned := ew_spawned w7 @ [(c, e2, g)]\<rparr>)))))"

definition cancel_workflow :: "'x engine_env \<Rightarrow> string \<Rightarrow> 'x world \<Rightarrow> gerr option \<times> 'x world" where
  "cancel_workflow v i w =
     (case get_execution (ew_store w) i of
        Inl err \<Rightarrow> (Some (store_err err), w)
      | Inr e \<Rightarrow>
          if execution_is_final e
          then (Some (ErrMsg (''execution already in final state: '' @ exec_status_str (ex_status e))), w)
          else
            let w1 = (case gm_get (ew_running w) i of
                        None \<Rightarrow> w
                      | Some rx \<Rightarrow> w\<lparr>ew_out := en_cancel v (rx_cancel rx) (ew_out w)\<rparr>)
            in (case put_execution
                       (e\<lparr>ex_status := ExCancelled, ex_finished_at := Some (ew_now w1)\<rparr>) w1 of
                  Inl err \<Rightarrow> (Some (store_err err), w1)
                | Inr (e2, w2) \<Rightarrow> (None, notify (ExecCancelled i) w2)))"

text \<open>The function the pause timer runs.\<close>

definition pause_timer_fired :: "'x engine_env \<Rightarrow> string \<Rightarrow> 'x world \<Rightarrow> 'x world" where
  "pause_timer_fired v i w =
     (case get_execution (ew_store w) i of
        Inl err \<Rightarrow> w
      | Inr e \<Rightarrow> if ex_status e \<noteq> ExPaused then w else snd (cancel_workflow v i w))"

definition get_execution_status :: "string \<Rightarrow> 'x world \<Rightarrow> store_error + execution" where
  "get_execution_status i w = get_execution (ew_store w) i"

definition get_execution_tasks :: "string \<Rightarrow> 'x world \<Rightarrow> task list" where
  "get_execution_tasks i w = list_tasks (ew_store w) i"

definition build_mock_input :: "codec \<Rightarrow> (string, string) gomap \<Rightarrow> raw" where
  "build_mock_input cd inputs =
     (if length inputs = 0 then Some ''{}''
      else cd_marshal_strings cd (fold (\<lambda>(k, x) m. gm_put k x m) inputs []))"

definition find_node_by_id :: "workflow \<Rightarrow> node_id \<Rightarrow> node option" where
  "find_node_by_id g i = List.find (\<lambda>n. nd_id n = i) (wf_nodes g)"

definition run_node :: "'x engine_env \<Rightarrow> nat \<Rightarrow> string \<Rightarrow> node_id \<Rightarrow> (string, string) gomap \<Rightarrow>
    'x world \<Rightarrow> exec_result \<times> 'x world" where
  "run_node v ctx wid i inputs w =
     (case get_workflow_with_nodes (ew_store w) wid of
        Inl err \<Rightarrow> ((None, Some (ErrMsg (''load workflow: '' @ store_error_text err))), w)
      | Inr g \<Rightarrow>
          (case find_node_by_id g i of
             None \<Rightarrow> ((None, Some (ErrMsg (''node '' @ i @ '' not found in workflow '' @ wid))), w)
           | Some n \<Rightarrow>
               (case en_executor v (nd_type n) of
                  None \<Rightarrow> ((None, Some (ErrMsg (''no executor for node type: '' @ nd_type n))), w)
                | Some impl \<Rightarrow>
                    let req = \<lparr>rq_node_id = i, rq_node_name = nd_name n, rq_node_type = nd_type n,
                          rq_config = nd_config n, rq_input = build_mock_input (en_codec v) inputs,
                          rq_input_map = None, rq_output_map = None, rq_retry_count = 0,
                          rq_max_retries = 0, rq_attempt_id = [], rq_execution_id = [],
                          rq_trigger_id = [], rq_workflow_id = [], rq_node_refs = [],
                          rq_edge_refs = []\<rparr>;
                        ((resp, err), x) = impl ctx req (ew_out w);
                        w1 = w\<lparr>ew_out := x\<rparr>
                    in (case err of Some e \<Rightarrow> ((None, Some e), w1) | None \<Rightarrow> ((resp, None), w1)))))"

text \<open>\<open>WaitExecution\<close>: after the first look, the store is read at each tick, or once more when
  the context ends; the list holds what the loop meets, with the store at that time. A wait
  that is still going on is None.\<close>

datatype wait_event = WaitTick mem_store | WaitCtxDone mem_store

fun wait_loop :: "string \<Rightarrow> wait_event list \<Rightarrow> (store_error + execution) option" where
  "wait_loop i [] = None"
| "wait_loop i (WaitCtxDone s # es) = Some (get_execution s i)"
| "wait_loop i (WaitTick s # es) =
     (case get_execution s i of
        Inl err \<Rightarrow> Some (Inl err)
      | Inr e \<Rightarrow> if execution_is_final e then Some (Inr e) else wait_loop i es)"

definition wait_execution :: "string \<Rightarrow> mem_store \<Rightarrow> wait_event list \<Rightarrow>
    (store_error + execution) option" where
  "wait_execution i s es =
     (case get_execution s i of
        Inl err \<Rightarrow> Some (Inl err)
      | Inr e \<Rightarrow> if execution_is_final e then Some (Inr e) else wait_loop i es)"

end
