(* ===== verification/EngineSafety.thy ===== *)
theory EngineSafety
  imports Engine
begin

text \<open>
  Safety of the engine's channels and of its public operations: what a pause does to the event
  channel, what becomes of the final event of a failed run, that a cancellation is final, how
  many events fit a channel nobody reads, and that a start with a trigger ID is idempotent.
\<close>

subsection \<open>Channels\<close>

lemma set_channel_frame [frame_simps]:
  "ew_store (set_channel i c w) = ew_store w" "ew_now (set_channel i c w) = ew_now w"
  "ew_closed (set_channel i c w) = ew_closed w" "ew_out (set_channel i c w) = ew_out w"
  "ew_config (set_channel i c w) = ew_config w" "ew_obs (set_channel i c w) = ew_obs w"
  by (simp_all add: set_channel_def split: option.splits)

lemma events_for_exec_frame:
  "events_for_exec i w = (r, w1) \<Longrightarrow> ew_store w1 = ew_store w \<and> ew_now w1 = ew_now w \<and>
     ew_closed w1 = ew_closed w \<and> ew_out w1 = ew_out w"
  by (auto simp: events_for_exec_def Let_def split: option.splits)

lemma send_event_frame: "send_event v i ev w = Done w1 \<Longrightarrow> ew_store w1 = ew_store w"
  by (auto simp: send_event_def Let_def frame_simps dest: events_for_exec_frame
      split: prod.splits option.splits if_splits)

lemma push_final_event_frames: "push_final_event v i et w = Done w1 \<Longrightarrow>
    ew_store w1 = ew_store w \<and> ew_closed w1 = ew_closed w"
  by (auto simp: push_final_event_def Let_def frame_simps dest: events_for_exec_frame
      split: prod.splits option.splits if_splits)

lemma push_final_closes:
  assumes "push_final_event v i et w = Done w1" "gm_get (ew_running w) i = Some rx"
  shows "\<exists>rx' c. gm_get (ew_running w1) i = Some rx' \<and> rx_events rx' = Some c \<and> ch_closed c \<and>
    rx_paused_ch rx' = rx_paused_ch rx"
  using assms
  by (auto simp: push_final_event_def events_for_exec_def set_channel_def Let_def
      split: option.splits if_splits)

lemma send_on_closed:
  assumes "gm_get (ew_running w) i = Some rx" "rx_events rx = Some c" "ch_closed c"
  shows "send_event v i ev w = Panic ''send on closed channel''"
  using assms by (simp add: send_event_def events_for_exec_def)

lemma put_execution_cases:
  obtains (err) x where "put_execution e w = Inl x"
  | (ok) cur where "gm_get (ms_executions (ew_store w)) (ex_id e) = Some cur"
      "ex_version cur = ex_version e"
      "put_execution e w = Inr (e\<lparr>ex_version := ex_version e + 1\<rparr>,
         w\<lparr>ew_store := (ew_store w)\<lparr>ms_executions :=
           gm_put (ex_id e) (e\<lparr>ex_version := ex_version e + 1\<rparr>) (ms_executions (ew_store w))\<rparr>\<rparr>)"
  by (cases "put_execution e w")
    (auto simp: put_execution_def update_execution_def Let_def split: option.splits if_splits)

lemma put_execution_stale:
  assumes "gm_get (ms_executions (ew_store w)) (ex_id e) = Some cur" "ex_version cur \<noteq> ex_version e"
  shows "\<exists>x. put_execution e w = Inl x"
  using assms by (simp add: put_execution_def update_execution_def)

definition stored :: "'x world \<Rightarrow> string \<Rightarrow> execution option" where
  "stored w i = gm_get (ms_executions (ew_store w)) i"

lemma get_execution_stored: "get_execution (ew_store w) i = (case stored w i of
    None \<Rightarrow> Inl (ErrNotFound i ''execution'') | Some e \<Rightarrow> Inr e)"
  by (simp add: get_execution_def stored_def)

lemma stored_simps [frame_simps]:
  "stored (w\<lparr>ew_out := x\<rparr>) i = stored w i" "stored (w\<lparr>ew_running := r\<rparr>) i = stored w i"
  "stored (w\<lparr>ew_obs := o'\<rparr>) i = stored w i" "stored (stop_running j w) i = stored w i"
  by (simp_all add: stored_def stop_running_def)

lemma put_execution_stored:
  "put_execution e w = Inr (e', w1) \<Longrightarrow> stored w1 (ex_id e) = Some e' \<and>
     (\<exists>cur. stored w (ex_id e) = Some cur \<and> ex_version cur = ex_version e) \<and>
     e' = e\<lparr>ex_version := ex_version e + 1\<rparr> \<and> ew_running w1 = ew_running w \<and>
     ew_closed w1 = ew_closed w \<and> ew_out w1 = ew_out w"
  by (cases rule: put_execution_cases [of e w]) (auto simp: stored_def)

lemma emit_event_open:
  "\<not> ec_events_closed ec \<Longrightarrow> \<exists>E. emit_event now etype n nname ntype content ec = Done (ec\<lparr>ec_events := E\<rparr>)"
  by (auto simp: emit_event_def offer_event_def Let_def intro: exI [of _ "ec_events ec"])

lemma signal_pause_Done:
  "signal_pause i w = Done w1 \<Longrightarrow> gm_get (ew_running w) i = Some rx \<Longrightarrow>
     \<exists>c rx'. rx_paused_ch rx = Some c \<and> c \<in> set (ew_closed w1) \<and>
       gm_get (ew_running w1) i = Some rx'"
  by (auto simp: signal_pause_def split: option.splits if_splits)

lemma push_event_closed:
  assumes "gm_get (ew_running w) (exec_id_of s) = Some rx" "rx_events rx = Some c" "ch_closed c"
    "\<not> ec_events_closed (rs_ec s)"
  shows "push_event v etype n nname ntype content (w, s) = Panic ''send on closed channel''"
  using emit_event_open [OF assms(4), of "ew_now w" etype n nname ntype content]
    send_on_closed [OF assms(1-3)] by (auto simp: push_event_def)

lemma save_dag_snapshot_running:
  "gm_get (ew_running w) i = Some rx \<Longrightarrow>
     \<exists>rx'. gm_get (ew_running (save_dag_snapshot i c vars d ready w)) i = Some rx' \<and>
       rx_events rx' = rx_events rx"
  by (simp add: save_dag_snapshot_def)

lemma pause_run_closed:
  assumes "gm_get (ew_running w) (exec_id_of s) = Some rx" "rx_events rx = Some c" "ch_closed c"
    "\<not> ec_events_closed (rs_ec s)"
  shows "pause_run v g (w, s) = Panic ''send on closed channel''"
proof -
  let ?e = "(ec_execution (rs_ec s))\<lparr>ex_current_node_id := []\<rparr>"
  let ?w = "save_dag_snapshot (exec_id_of s) (rs_completed s) (ec_variables (rs_ec s))
      (fold (\<lambda>n m. gm_put (nd_id n) (remaining_deps g (rs_completed s) (nd_id n)) m)
         (wf_nodes (dg_workflow g)) []) (map nd_id (get_ready_nodes g (rs_completed s))) w"
  obtain rx' where rx': "gm_get (ew_running ?w) (exec_id_of s) = Some rx'" "rx_events rx' = Some c"
    using save_dag_snapshot_running [OF assms(1), of "rs_completed s" "ec_variables (rs_ec s)"]
      assms(2) by metis
  obtain e2 w2 where p: "(case put_execution ?e ?w of Inl err \<Rightarrow> (?e, ?w) | Inr p \<Rightarrow> p) = (e2, w2)"
    by fastforce
  have "gm_get (ew_running w2) (exec_id_of s) = Some rx' \<and> ex_id e2 = exec_id_of s"
    using p rx'(1) by (auto simp: exec_id_of_def dest: put_execution_stored split: sum.splits)
  then have "push_event v ''workflow.paused'' [] (ex_workflow_name e2) [] paused_text
      (w2, s\<lparr>rs_ec := (rs_ec s)\<lparr>ec_execution := e2\<rparr>\<rparr>) = Panic ''send on closed channel''"
    using rx'(2) assms(3,4) by (intro push_event_closed) (auto simp: exec_id_of_def)
  then show ?thesis using p by (simp add: pause_run_def Let_def)
qed

subsection \<open>Sample world for the witnesses\<close>

definition sample_codec :: codec where
  "sample_codec = \<lparr>cd_unmarshal_value = \<lambda>_. None, cd_unmarshal_mapping = \<lambda>_. None,
     cd_marshal_raws = \<lambda>m. Some [], cd_verb = \<lambda>_. [], cd_quote = \<lambda>s. s,
     cd_marshal_strings = \<lambda>m. Some []\<rparr>"

text \<open>Executors of type TEST that succeed, contexts that never end, consumers that take as
  many events as given.\<close>

definition sample_env :: "nat \<Rightarrow> unit engine_env" where
  "sample_env taken = \<lparr>en_uuid = \<lambda>k. replicate (Suc k) CHR ''u'', en_sha = \<lambda>s. s,
     en_codec = sample_codec, en_ctx_err = \<lambda>c x. None, en_with_cancel = \<lambda>p c x. x,
     en_cancel = \<lambda>c x. x, en_wait = \<lambda>c d x. (None, x), en_jitter = \<lambda>x. 0, en_oob = \<lambda>q. 0,
     en_executor = \<lambda>ty. if ty = ''TEST'' then Some (\<lambda>c q x. ((Some ((failed_response [])
        \<lparr>rp_success := True\<rparr>), None), x)) else None,
     en_taken = \<lambda>i x. taken, en_took = \<lambda>x. 1, en_step = \<lambda>i x. False, en_order = \<lambda>ns. ns\<rparr>"

definition sample_world :: "exec_status \<Rightarrow> unit world" where
  "sample_world st =
     \<lparr>ew_store = new_memory_store\<lparr>ms_workflows := [(''w'', diamond)],
        ms_executions := [(''a'', (sample_execution ''a'' 1 0)\<lparr>ex_status := st\<rparr>)]\<rparr>,
      ew_idem = new_memory_checker 0,
      ew_running = [(''a'', (new_running 0 0)\<lparr>rx_paused_ch := Some 0\<rparr>)],
      ew_config = default_engine_config, ew_now = 0, ew_next = 1, ew_closed = [], ew_obs = [],
      ew_timers = [], ew_spawned = [], ew_out = ()\<rparr>"

lemma diamond_id: "wf_id diamond = ''w''" "wf_status diamond = WfActive" "wf_timeout diamond = 0"
  by (simp_all add: diamond_def sample_workflow_def)

lemmas sample_simps = sample_world_def new_memory_store_def sample_execution_def new_running_def

lemma sample_world_ok: "store_ok (ew_store (sample_world st))"
  by (simp add: store_ok_def keyed_def gm_ok_def sample_simps diamond_id)

subsection \<open>Properties\<close>

lemma pause_then_event_panics_parts:
  assumes "pause_workflow v i w = Done (None, w1)" "gm_get (ew_running w) i = Some rx"
    "exec_id_of s = i" "\<not> ec_events_closed (rs_ec s)"
    "en_ctx_err v (ec_context (rs_ec s)) (ew_out w1) = None"
  shows "send_event v i ev w1 = Panic ''send on closed channel''"
    "dag_loop v cap (rx_paused_ch rx) g fuel (w1, s) = Some (Panic ''send on closed channel'')"
proof -
  obtain e where e: "get_execution (ew_store w) i = Inr e" "can_transition e ExPaused"
    using assms(1) by (auto simp: pause_workflow_def split: sum.splits if_splits)
  obtain w2 where w2: "signal_pause i w = Done w2"
      "(case put_execution (e\<lparr>ex_status := ExPaused\<rparr>) w2 of
          Inl err \<Rightarrow> Done (Some (store_err err), w2)
        | Inr (e2, w2) \<Rightarrow> bind_outcome (push_final_event v i ''workflow.paused'' w2)
            (\<lambda>w3. Done (None, notify (ExecPaused i) w3))) = Done (None, w1)"
    using assms(1) by (auto simp: pause_workflow_def e bind_outcome_Done_iff)
  obtain e2 w3 w4 where pre: "signal_pause i w = Done w2"
      "put_execution (e\<lparr>ex_status := ExPaused\<rparr>) w2 = Inr (e2, w3)"
      "push_final_event v i ''workflow.paused'' w3 = Done w4" "w1 = notify (ExecPaused i) w4"
    using w2 by (cases "put_execution (e\<lparr>ex_status := ExPaused\<rparr>) w2")
      (auto simp: bind_outcome_Done_iff split: prod.splits)
  obtain c rx2 where c: "rx_paused_ch rx = Some c" "c \<in> set (ew_closed w2)"
      "gm_get (ew_running w2) i = Some rx2"
    using signal_pause_Done [OF pre(1) assms(2)] by blast
  have frame: "ew_running w3 = ew_running w2" "ew_closed w3 = ew_closed w2"
    using put_execution_stored [OF pre(2)] by auto
  obtain rx3 ch where rx3: "gm_get (ew_running w1) i = Some rx3" "rx_events rx3 = Some ch" "ch_closed ch"
    using push_final_closes [OF pre(3)] c(3) pre(4) by (auto simp: frame)
  show "send_event v i ev w1 = Panic ''send on closed channel''"
    by (rule send_on_closed [OF rx3])
  have "pause_run v g (w1, s) = Panic ''send on closed channel''"
    using rx3 assms(3,4) by (intro pause_run_closed) auto
  moreover have "c \<in> set (ew_closed w1)"
    using c(2) push_final_event_frames [OF pre(3)] by (simp add: pre(4) frame)
  ultimately show "dag_loop v cap (rx_paused_ch rx) g fuel (w1, s) =
      Some (Panic ''send on closed channel'')"
    using assms(5) by (subst dag_loop.simps) (simp add: c(1))
qed

text \<open>C23. After a PauseWorkflow that succeeded on an execution with a run, the event channel
  is closed while the run still uses it: every further event of the run panics, and so does
  the batch loop itself as soon as it notices the pause.\<close>

theorem pause_then_event_panics:
  assumes "pause_workflow v i w = Done (None, w1)" "gm_get (ew_running w) i = Some rx"
    "exec_id_of s = i" "\<not> ec_events_closed (rs_ec s)"
    "en_ctx_err v (ec_context (rs_ec s)) (ew_out w1) = None"
  shows "send_event v i ev w1 = Panic ''send on closed channel'' \<and>
    dag_loop v cap (rx_paused_ch rx) g fuel (w1, s) = Some (Panic ''send on closed channel'')"
  using pause_then_event_panics_parts [OF assms] by blast

theorem pause_then_event_panics_witness:
  "\<exists>w1. pause_workflow (sample_env 0) ''a'' (sample_world ExRunning) = Done (None, w1) \<and>
     (\<forall>ev. send_event (sample_env 0) ''a'' ev w1 = Panic ''send on closed channel'')"
proof -
  let ?p = "pause_workflow (sample_env 0) ''a'' (sample_world ExRunning)"
  let ?s = "\<lparr>rs_ec = new_execution_context 0 (sample_execution ''a'' 1 0) diamond,
     rs_completed = \<lambda>_. False, rs_tasks = [], rs_errs = []\<rparr>"
  have "\<exists>w1. ?p = Done (None, w1)"
    by (simp add: pause_workflow_def get_execution_def can_transition_def execution_is_final_def
        signal_pause_def put_execution_def update_execution_def push_final_event_def
        events_for_exec_def Let_def sample_simps)
  then obtain w1 where "?p = Done (None, w1)" by blast
  then show ?thesis
    using pause_then_event_panics [of "sample_env 0" "''a''" "sample_world ExRunning" w1 _ ?s]
    by (simp add: exec_id_of_def new_execution_context_def sample_env_def sample_simps)
qed

text \<open>When a run fails, its entry is deleted before the final event is pushed: the push
  finds no channel, so the workflow.failed event is never sent and a subscriber's channel is
  never closed.\<close>

theorem failed_run_loses_final_event:
  "push_final_event v (ex_id e) ''workflow.failed'' (fail_execution e err w) =
     Done (fail_execution e err w) \<and>
   gm_get (ew_running (fail_execution e err w)) (ex_id e) = None"
  by (simp add: push_final_event_def events_for_exec_def fail_execution_def stop_running_def Let_def)

lemma cancellation_is_final_parts:
  assumes "cancel_workflow v i w = (None, w1)" "ex_id e = i"
    "stored w i = Some cur" "ex_version e \<le> ex_version cur"
    "store_ok (ew_store w)"
  shows "\<exists>c. stored w1 i = Some c \<and> ex_status c = ExCancelled \<and>
      stored (fail_execution e err w1) i = Some c"
    "ec_execution (rs_ec s) = e \<Longrightarrow> finish_workflow v g (w1, s) = Done w2 \<Longrightarrow>
      map_option ex_status (stored w2 i) = Some ExCancelled"
proof -
  let ?w = "case gm_get (ew_running w) i of None \<Rightarrow> w
      | Some rx \<Rightarrow> w\<lparr>ew_out := en_cancel v (rx_cancel rx) (ew_out w)\<rparr>"
  let ?e = "cur\<lparr>ex_status := ExCancelled, ex_finished_at := Some (ew_now ?w)\<rparr>"
  have id: "ex_id cur = i"
    using assms(3,5) by (auto simp: store_ok_def stored_def dest: keyed_get)
  have "stored ?w i = Some cur" using assms(3) by (simp add: frame_simps split: option.splits)
  obtain w2 where put: "put_execution ?e ?w = Inr (?e\<lparr>ex_version := ex_version cur + 1\<rparr>, w2)"
      "w1 = notify (ExecCancelled i) w2"
    using assms(1) assms(3)
    by (auto simp: cancel_workflow_def get_execution_stored Let_def dest: put_execution_stored
        split: sum.splits if_splits)
  let ?c = "?e\<lparr>ex_version := ex_version cur + 1\<rparr>"
  have w1: "stored w1 i = Some ?c"
    using put_execution_stored [OF put(1)] put(2) id by (simp add: frame_simps)
  have stale: "\<exists>x. put_execution e' w1 = Inl x" if "ex_id e' = i" "ex_version e' = ex_version e" for e'
    using put_execution_stale [of w1 e' ?c] w1 that assms(4) by (auto simp: stored_def)
  show "\<exists>c. stored w1 i = Some c \<and> ex_status c = ExCancelled \<and> stored (fail_execution e err w1) i = Some c"
    using w1 stale [of "e\<lparr>ex_finished_at := Some (ew_now w1), ex_status := ExFailed, ex_error := gerr_text err\<rparr>"]
      assms(2) by (auto simp: fail_execution_def Let_def frame_simps)
  show "map_option ex_status (stored w2 i) = Some ExCancelled"
    if "ec_execution (rs_ec s) = e" "finish_workflow v g (w1, s) = Done w2" for w2
    using w1 that stale [of "e\<lparr>ex_finished_at := Some (ew_now w1), ex_status := ExCompleted\<rparr>"] assms(2)
    by (auto simp: finish_workflow_def Let_def frame_simps split: if_splits)
qed

text \<open>A cancellation is final: once CancelWorkflow has succeeded, neither the end of the
  run it interrupts nor its failure, which hold an execution record read no later than the
  cancellation, change the stored status.\<close>

theorem cancellation_is_final:
  assumes "cancel_workflow v i w = (None, w1)" "ex_id e = i"
    "stored w i = Some cur" "ex_version e \<le> ex_version cur" "store_ok (ew_store w)"
  shows "(\<exists>c. stored w1 i = Some c \<and> ex_status c = ExCancelled \<and>
      stored (fail_execution e err w1) i = Some c) \<and>
    (ec_execution (rs_ec s) = e \<and> finish_workflow v g (w1, s) = Done w2 \<longrightarrow>
      map_option ex_status (stored w2 i) = Some ExCancelled)"
  using cancellation_is_final_parts [OF assms] by blast

theorem cancellation_is_final_witness:
  "\<exists>c. stored (snd (cancel_workflow (sample_env 0) ''a'' (sample_world ExRunning))) ''a'' = Some c \<and>
     ex_status c = ExCancelled"
proof -
  have c: "cancel_workflow (sample_env 0) ''a'' (sample_world ExRunning) =
      (None, snd (cancel_workflow (sample_env 0) ''a'' (sample_world ExRunning)))"
    by (simp add: cancel_workflow_def get_execution_def execution_is_final_def put_execution_def
        update_execution_def Let_def sample_simps)
  have s: "stored (sample_world ExRunning) ''a'' =
      Some ((sample_execution ''a'' 1 0)\<lparr>ex_status := ExRunning\<rparr>)"
    by (simp add: stored_def sample_simps)
  have e: "ex_id (sample_execution ''a'' 1 0) = ''a''"
    "ex_version (sample_execution ''a'' 1 0) \<le>
       ex_version ((sample_execution ''a'' 1 0)\<lparr>ex_status := ExRunning\<rparr>)"
    by (simp_all add: sample_execution_def)
  from cancellation_is_final [OF c e(1) s e(2) sample_world_ok] show ?thesis by blast
qed

subsection \<open>Unread channels\<close>

fun send_all :: "'x engine_env \<Rightarrow> string \<Rightarrow> event list \<Rightarrow> 'x world \<Rightarrow> 'x world outcome" where
  "send_all v i [] w = Done w"
| "send_all v i (ev # evs) w = bind_outcome (send_event v i ev w) (send_all v i evs)"

lemma send_all_unread:
  assumes "\<forall>x. en_taken v i x = 0"
  shows "gm_get (ew_running w) i = Some rx \<Longrightarrow> rx_events rx = Some c \<Longrightarrow> \<not> ch_closed c \<Longrightarrow>
     length (ch_buf c) \<le> 256 \<Longrightarrow>
     (if length (ch_buf c) + length evs \<le> 256 then \<exists>w1. send_all v i evs w = Done w1
      else send_all v i evs w = Blocked)"
proof (induction evs arbitrary: w rx c)
  case (Cons ev evs)
  let ?c = "c\<lparr>ch_buf := ch_buf c @ [ev]\<rparr>"
  show ?case
  proof (cases "length (ch_buf c) < 256")
    case True
    have "send_event v i ev w = Done (set_running i (rx\<lparr>rx_events := Some ?c\<rparr>) w)"
      using Cons.prems True assms by (simp add: send_event_def events_for_exec_def set_channel_def)
    then show ?thesis
      using Cons.IH [of "set_running i (rx\<lparr>rx_events := Some ?c\<rparr>) w" "rx\<lparr>rx_events := Some ?c\<rparr>" ?c]
        Cons.prems True by (simp split: if_splits)
  next
    case False
    then have "send_event v i ev w = Blocked"
      using Cons.prems assms by (simp add: send_event_def events_for_exec_def)
    then show ?thesis using False by simp
  qed
qed auto

lemma unread_events_block_the_run_parts:
  assumes "gm_get (ew_running w) i = Some rx" "rx_events rx = None" "\<forall>x. en_taken v i x = 0"
  shows "(\<exists>w1. send_all v i evs w = Done w1) \<longleftrightarrow> length evs \<le> 256"
    "send_all v i evs w = Blocked \<longleftrightarrow> 256 < length evs"
proof -
  let ?c = "\<lparr>ch_buf = [], ch_closed = False\<rparr>"
  let ?w = "set_running i (rx\<lparr>rx_events := Some ?c\<rparr>) w"
  have "events_for_exec i w = (Some ?c, ?w)" "events_for_exec i ?w = (Some ?c, ?w)"
    using assms(1,2) by (simp_all add: events_for_exec_def Let_def)
  then have same: "send_event v i ev w = send_event v i ev ?w" for ev
    by (simp add: send_event_def)
  have *: "if length evs \<le> 256 then \<exists>w1. send_all v i evs w = Done w1
      else send_all v i evs w = Blocked"
  proof (cases evs)
    case (Cons ev evs')
    then have "send_all v i evs w = send_all v i evs ?w" by (simp add: same)
    then show ?thesis using send_all_unread [OF assms(3), of ?w _ ?c evs] by simp
  qed simp
  show "(\<exists>w1. send_all v i evs w = Done w1) \<longleftrightarrow> length evs \<le> 256"
    using * by (auto split: if_splits)
  show "send_all v i evs w = Blocked \<longleftrightarrow> 256 < length evs"
    using * by (auto split: if_splits)
qed

text \<open>The event channel of a run holds 256 events. While nobody reads it, which is the case
  when nobody has subscribed, as the engine makes the channel itself on the first event, any
  sequence of up to 256 sends returns and the 257th send blocks for ever.\<close>

theorem unread_events_block_the_run:
  assumes "gm_get (ew_running w) i = Some rx" "rx_events rx = None" "\<forall>x. en_taken v i x = 0"
  shows "((\<exists>w1. send_all v i evs w = Done w1) \<longleftrightarrow> length evs \<le> 256) \<and>
    (send_all v i evs w = Blocked \<longleftrightarrow> 256 < length evs)"
  using unread_events_block_the_run_parts [OF assms] by blast

theorem unread_events_block_the_run_witness:
  "\<forall>ev. send_all (sample_env 0) ''a'' (replicate 257 ev) (sample_world ExRunning) = Blocked"
  using unread_events_block_the_run [of "sample_world ExRunning" "''a''"
      "(new_running 0 0)\<lparr>rx_paused_ch := Some 0\<rparr>" "sample_env 0" "replicate 257 _"]
  by (simp add: sample_env_def sample_simps)

subsection \<open>Starting\<close>

lemma get_by_trigger_Some: "get_execution_by_trigger_id s wid t = Some e \<Longrightarrow>
    e \<in> set (map snd (ms_executions s)) \<and> ex_workflow_id e = wid \<and> ex_trigger_id e = t"
  by (auto simp: get_execution_by_trigger_id_def dest!: find_Some_mem)

lemma find_snoc: "List.find P (xs @ [x]) =
    (case List.find P xs of None \<Rightarrow> if P x then Some x else None | Some y \<Rightarrow> Some y)"
  by (induction xs) auto

lemma get_by_trigger_put_new:
  assumes "get_execution_by_trigger_id s wid t = None" "ex_workflow_id e = wid" "ex_trigger_id e = t"
    "gm_get (ms_executions s) (ex_id e) = None"
  shows "get_execution_by_trigger_id
      (s\<lparr>ms_executions := gm_put (ex_id e) e (ms_executions s)\<rparr>) wid t = Some e"
proof -
  have "gm_put k x m = m @ [(k, x)]" if "gm_get m k = None" for k :: string and x :: execution and m
    using that by (induction m) (auto split: if_splits)
  then show ?thesis
    using assms by (auto simp: get_execution_by_trigger_id_def find_snoc)
qed

lemma create_and_spawn_Inr:
  assumes "create_and_spawn v ctx wid input tt trig w = (Done (Inr i), w1)" "trig \<noteq> []"
    "memory_generate_key (en_sha v) [wid, trig] = Done key"
  obtains g e where "get_workflow_with_nodes (ew_store w) wid = Inr g" "wf_status g = WfActive"
    "e = new_execution (ew_config w) (ew_now w) i g input tt trig"
    "create_execution (ew_store w) e = Inr (ew_store w1)"
    "ew_idem w1 = mark_processed (ew_now w) (ew_idem w) key (ec_idempotency_ttl (ew_config w))"
  using assms
  by (auto simp: create_and_spawn_def fresh_def Let_def new_execution_def
      split: sum.splits if_splits)

text \<open>StartWorkflow with a trigger ID is idempotent: if it created an execution, as
  there was none of that trigger, then a second start of the same workflow and trigger within
  the idempotency TTL returns the same execution ID and changes nothing, whatever else of the
  world but the store and the checker has moved on.\<close>

theorem start_workflow_idempotent:
  assumes "start_workflow v ctx wid input tt trig w = (Done (Inr i), w1)" "trig \<noteq> []"
    "store_ok (ew_store w)" "get_execution_by_trigger_id (ew_store w) wid trig = None"
    "ew_store w2 = ew_store w1" "ew_idem w2 = ew_idem w1" "ew_now w \<le> ew_now w2"
    "ew_now w2 \<le> ew_now w + (if ec_idempotency_ttl (ew_config w) = 0 then mc_ttl (ew_idem w)
                              else ec_idempotency_ttl (ew_config w))"
  shows "start_workflow v ctx' wid input' tt' trig w2 = (Done (Inr i), w2)"
proof -
  obtain key where key: "memory_generate_key (en_sha v) [wid, trig] = Done key"
    by (auto simp: memory_generate_key_def)
  let ?w = "w\<lparr>ew_idem := snd (is_processed (ew_now w) (ew_idem w) key)\<rparr>"
  have "create_and_spawn v ctx wid input tt trig ?w = (Done (Inr i), w1)"
    using assms(1,2,4) key by (auto simp: start_workflow_def Let_def split: prod.splits if_splits)
  then obtain g e where g: "get_workflow_with_nodes (ew_store w) wid = Inr g"
      "e = new_execution (ew_config w) (ew_now w) i g input tt trig"
      "create_execution (ew_store w) e = Inr (ew_store w1)"
      "ew_idem w1 = mark_processed (ew_now w) (snd (is_processed (ew_now w) (ew_idem w) key)) key
         (ec_idempotency_ttl (ew_config w))"
    by (rule create_and_spawn_Inr [OF _ assms(2) key]) auto
  have "wf_id g = wid"
    using g(1) assms(3) by (auto simp: get_workflow_with_nodes_def store_ok_def dest: keyed_get
        split: option.splits)
  then have e: "ex_workflow_id e = wid" "ex_trigger_id e = trig" "ex_id e = i"
    by (simp_all add: g(2) new_execution_def Let_def)
  have find: "get_execution_by_trigger_id (ew_store w2) wid trig = Some e"
    using g(3) get_by_trigger_put_new [OF assms(4) e(1,2)]
    by (auto simp: assms(5) create_execution_def split: if_splits)
  have "fst (is_processed (ew_now w2) (ew_idem w2) key)"
    using assms(7,8) by (simp add: assms(6) g(4) is_processed_live live_mark ttl_is_processed
        split: if_splits)
  then have "is_processed (ew_now w2) (ew_idem w2) key = (True, ew_idem w2)"
    by (auto simp: is_processed_def split: option.splits if_splits)
  then show ?thesis using assms(2) key find e(3) by (simp add: start_workflow_def)
qed

theorem start_workflow_idempotent_witness:
  "\<exists>w1. start_workflow (sample_env 0) 0 ''w'' None TrApi ''new'' (sample_world ExRunning) =
       (Done (Inr ''uu''), w1) \<and>
     start_workflow (sample_env 0) 0 ''w'' None TrApi ''new'' (w1\<lparr>ew_now := 5 * second\<rparr>) =
       (Done (Inr ''uu''), w1\<lparr>ew_now := 5 * second\<rparr>)"
proof -
  let ?r = "start_workflow (sample_env 0) 0 ''w'' None TrApi ''new'' (sample_world ExRunning)"
  have r: "?r = (Done (Inr ''uu''), snd ?r)"
    by (simp add: start_workflow_def memory_generate_key_def is_processed_def new_memory_checker_def
        create_and_spawn_def get_workflow_with_nodes_def diamond_id fresh_def new_execution_def
        create_execution_def sample_env_def Let_def sample_simps)
  have none: "get_execution_by_trigger_id (ew_store (sample_world ExRunning)) ''w'' ''new'' = None"
    by (simp add: get_execution_by_trigger_id_def sample_simps)
  from start_workflow_idempotent [OF r _ sample_world_ok none,
      of "(snd ?r)\<lparr>ew_now := 5 * second\<rparr>" 0 None TrApi] r
  show ?thesis
    by (auto simp: sample_world_def default_engine_config_def duration_units)
qed

end
