(* ===== verification/EngineRun.thy ===== *)
theory EngineRun
  imports EngineSafety
begin

text \<open>
  A run to the end: when the contexts do not end, the executors succeed, the consumers keep
  up with the events and nobody pauses or debugs the run, \<open>execute_workflow\<close> returns, for
  any order of the nodes within a batch, and the execution is stored as completed. The proof
  carries \<open>run_inv\<close>, the list of the nodes completed so far, through nodes and batches.
\<close>

subsection \<open>Surroundings in which a run proceeds\<close>

definition willing :: "'x engine_env \<Rightarrow> string \<Rightarrow> node list \<Rightarrow> bool" where
  "willing v i ns \<longleftrightarrow> (\<forall>c x. en_ctx_err v c x = None) \<and> (\<forall>x. 256 \<le> en_taken v i x) \<and>
     (\<forall>ms. mset (en_order v ms) = mset ms) \<and> inj (en_uuid v) \<and>
     (\<forall>n \<in> set ns. \<exists>impl. en_executor v (nd_type n) = Some impl \<and>
        (\<forall>c q x. \<exists>rp x'. impl c q x = ((Some rp, None), x') \<and> rp_success rp))"

text \<open>The run's entry: not debugged, its event channel open.\<close>

definition calm_tab :: "string \<Rightarrow> nat option \<Rightarrow> (string, running_execution) gomap \<Rightarrow> bool" where
  "calm_tab i p R \<longleftrightarrow> (\<exists>rx. gm_get R i = Some rx \<and> \<not> rx_debug_mode rx \<and> rx_paused_ch rx = p \<and>
     (\<forall>c. rx_events rx = Some c \<longrightarrow> \<not> ch_closed c \<and> length (ch_buf c) \<le> 256))"

lemma send_event_calm:
  assumes "calm_tab i p (ew_running w)" "\<forall>x. 256 \<le> en_taken v i x"
  shows "\<exists>R. send_event v i ev w = Done (w\<lparr>ew_running := R\<rparr>) \<and> calm_tab i p R"
proof -
  obtain rx where rx: "gm_get (ew_running w) i = Some rx" "\<not> rx_debug_mode rx" "rx_paused_ch rx = p"
      "\<And>c. rx_events rx = Some c \<Longrightarrow> \<not> ch_closed c \<and> length (ch_buf c) \<le> 256"
    using assms(1) by (auto simp: calm_tab_def)
  have drop: "drop (en_taken v i x) buf = []" if "length buf \<le> 256" for x and buf :: "event list"
    using assms(2) that by (meson drop_all le_trans)
  show ?thesis
  proof (cases "rx_events rx")
    case None
    then show ?thesis
      using rx by (intro exI conjI) (auto simp: send_event_def events_for_exec_def Let_def
          set_channel_def calm_tab_def)
  next
    case (Some c)
    then show ?thesis
      using rx drop [of "ch_buf c"] by (intro exI conjI) (auto simp: send_event_def
          events_for_exec_def Let_def set_channel_def calm_tab_def)
  qed
qed

lemma push_event_calm:
  assumes "calm_tab (exec_id_of s) p (ew_running w)" "\<forall>x. 256 \<le> en_taken v (exec_id_of s) x"
    "\<not> ec_events_closed (rs_ec s)"
  shows "\<exists>R E. push_event v et n nn ty c (w, s) =
      Done (w\<lparr>ew_running := R\<rparr>, s\<lparr>rs_ec := (rs_ec s)\<lparr>ec_events := E\<rparr>\<rparr>) \<and> calm_tab (exec_id_of s) p R"
proof -
  obtain E where "emit_event (ew_now w) et n nn ty c (rs_ec s) = Done ((rs_ec s)\<lparr>ec_events := E\<rparr>)"
    using emit_event_open [OF assms(3)] by blast
  moreover obtain R where "send_event v (exec_id_of s)
      (new_workflow_event (ew_now w) et (exec_id_of s) n nn ty c) w = Done (w\<lparr>ew_running := R\<rparr>)"
      "calm_tab (exec_id_of s) p R"
    using send_event_calm [OF assms(1,2)] by blast
  ultimately show ?thesis by (intro exI [of _ R] exI [of _ E]) (simp add: push_event_def)
qed

text \<open>What the operations on the context leave alone.\<close>

definition same_ctx :: "exec_context \<Rightarrow> exec_context \<Rightarrow> bool" where
  "same_ctx ec ec' \<longleftrightarrow> ec_execution ec' = ec_execution ec \<and> ec_context ec' = ec_context ec \<and>
     ec_workflow ec' = ec_workflow ec \<and> ec_events_closed ec' = ec_events_closed ec"

lemma same_ctx_simps [simp]:
  "same_ctx ec ec" "same_ctx ec (ec'\<lparr>ec_events := E\<rparr>) = same_ctx ec ec'"
  "same_ctx ec (set_node_output cd n out ec') = same_ctx ec ec'"
  "same_ctx ec (record_trace now n ty nn inp out d err ec') = same_ctx ec ec'"
  by (auto simp: same_ctx_def set_node_output_def record_trace_def Let_def split: option.splits)

lemma emit_completed_open:
  "\<not> ec_events_closed ec \<Longrightarrow>
     \<exists>E. emit_completed_event now n nn ty d ec = Done (ec\<lparr>ec_events := E\<rparr>)"
  by (auto simp: emit_completed_event_def offer_event_def Let_def intro: exI [of _ "ec_events ec"])

lemma run_executor_success:
  assumes "\<forall>c x. en_ctx_err v c x = None" "rq_retry_count req = 0"
    "\<forall>c q x. \<exists>rp x'. impl c q x = ((Some rp, None), x') \<and> rp_success rp"
  shows "\<exists>rp x t. run_executor v impl ctx n req w =
      (Done (Some rp, None), w\<lparr>ew_out := x, ew_now := t\<rparr>) \<and> rp_success rp"
proof -
  obtain rp x' where impl: "impl ctx req (ew_out w) = ((Some rp, None), x')" "rp_success rp"
    using assms(3) by blast
  let ?env = "\<lparr>rv_ctx_err = en_ctx_err v ctx, rv_wait = en_wait v ctx, rv_jitter = en_jitter v,
      rv_oob = en_oob v, rv_inner = impl ctx\<rparr>"
  let ?s = "new_retry_strategy (nd_retry_mode n) (nd_max_retries n) (nd_retry_delay n)
      (nd_retry_max_delay n)"
  have "(1 :: int) \<le> (if max_attempts ?s \<le> 0 then 1 else max_attempts ?s)" by simp
  then have "retry_execute ?env ?s req (ew_out w) = (Done (Some rp, None), x')"
    using impl assms(1,2) by (simp add: retry_execute_def Let_def retry_pause_def
        retry_step(1) [of 1 _ ?env "ew_out w" ?s "ew_out w" req "Some rp" None x'])
  then show ?thesis using impl(2) by (auto simp: run_executor_def Let_def)
qed

subsection \<open>A node that succeeds\<close>

definition node_ran :: "string \<Rightarrow> nat option \<Rightarrow> notification list \<Rightarrow> node \<Rightarrow> task \<Rightarrow> 'x run \<Rightarrow> 'x run \<Rightarrow> bool" where
  "node_ran i p os n t r r' \<longleftrightarrow> (case r of (w, s) \<Rightarrow> case r' of (w', s') \<Rightarrow>
     calm_tab i p (ew_running w') \<and> ew_config w' = ew_config w \<and> ew_closed w' = ew_closed w \<and>
     ew_next w' = ew_next w \<and> ms_executions (ew_store w') = ms_executions (ew_store w) \<and>
     ew_obs w' = ew_obs w @ os \<and> same_ctx (rs_ec s) (rs_ec s') \<and>
     rs_completed s' = (rs_completed s)(nd_id n := True) \<and> rs_errs s' = rs_errs s \<and>
     (\<forall>x. x \<noteq> nd_id n \<longrightarrow> gm_get (rs_tasks s') x = gm_get (rs_tasks s) x) \<and>
     gm_get (ms_tasks (ew_store w')) = (gm_get (ms_tasks (ew_store w)))(tk_id t \<mapsto> t) \<and>
     tk_status t = TkCompleted \<and> tk_node_id t = nd_id n)"

lemma node_ran_task:
  assumes "node_ran i p os n t (w\<lparr>ew_next := k\<rparr>, s) (w', s')"
  shows "gm_get (ms_tasks (ew_store w')) = (gm_get (ms_tasks (ew_store w)))(tk_id t \<mapsto> t)"
    "tk_status t = TkCompleted" "tk_node_id t = nd_id n"
  using assms by (auto simp: node_ran_def)

lemma put_task_known:
  "gm_get (ms_tasks (ew_store w)) (tk_id t) \<noteq> None \<Longrightarrow>
     put_task t w = w\<lparr>ew_store := (ew_store w)\<lparr>ms_tasks := gm_put (tk_id t) t (ms_tasks (ew_store w))\<rparr>\<rparr>"
  by (simp add: put_task_def update_task_def)

lemma complete_node_calm:
  assumes "calm_tab (exec_id_of s) p (ew_running w)" "\<forall>x. 256 \<le> en_taken v (exec_id_of s) x"
    "\<not> ec_events_closed (rs_ec s)" "gm_get (ms_tasks (ew_store w)) (tk_id t) \<noteq> None"
    "tk_node_id t = nd_id n"
  shows "\<exists>r'. complete_node v n t rp (w, s) = Done r' \<and>
    node_ran (exec_id_of s) p [TaskCompleted (nd_id n) None] n
      (t\<lparr>tk_status := TkCompleted, tk_output := rp_output rp\<rparr>) (w, s) r'"
proof -
  let ?t = "t\<lparr>tk_status := TkCompleted, tk_output := rp_output rp\<rparr>"
  let ?w1 = "notify (TaskCompleted (nd_id n) None) (w\<lparr>ew_store := (ew_store w)\<lparr>ms_tasks :=
      gm_put (tk_id t) ?t (ms_tasks (ew_store w))\<rparr>\<rparr>)"
  let ?s1 = "s\<lparr>rs_tasks := gm_put (nd_id n) ?t (rs_tasks s)\<rparr>"
  let ?ec1 = "set_node_output (en_codec v) (nd_id n) (rp_output rp) (rs_ec s)"
  let ?d = "ew_now ?w1 - (case tk_started_at ?t of None \<Rightarrow> 0 | Some a \<Rightarrow> a)"
  have save: "save_task ?t (w, s) =
      (w\<lparr>ew_store := (ew_store w)\<lparr>ms_tasks := gm_put (tk_id t) ?t (ms_tasks (ew_store w))\<rparr>\<rparr>, ?s1)"
    using assms(4,5) put_task_known [of w ?t] by (simp add: save_task_def)
  have open1: "\<not> ec_events_closed ?ec1" using assms(3) by (simp add: set_node_output_def Let_def
      split: option.splits)
  obtain E where E: "emit_completed_event (ew_now ?w1) (nd_id n) (nd_name n) (nd_type n) ?d ?ec1 =
      Done (?ec1\<lparr>ec_events := E\<rparr>)"
    using emit_completed_open [OF open1] by blast
  let ?s2 = "?s1\<lparr>rs_ec := ?ec1\<lparr>ec_events := E\<rparr>\<rparr>"
  have id2: "exec_id_of ?s2 = exec_id_of s"
    by (simp add: exec_id_of_def set_node_output_def Let_def split: option.splits)
  have "calm_tab (exec_id_of ?s2) p (ew_running ?w1)" "\<forall>x. 256 \<le> en_taken v (exec_id_of ?s2) x"
    using assms(1,2) unfolding id2 by simp_all
  moreover have "\<not> ec_events_closed (rs_ec ?s2)" using open1 by simp
  ultimately obtain R F where P: "push_event v ''node.completed'' (nd_id n) (nd_name n) (nd_type n)
        (case rp_output rp of None \<Rightarrow> [] | Some out \<Rightarrow> out) (?w1, ?s2) =
      Done (?w1\<lparr>ew_running := R\<rparr>, ?s2\<lparr>rs_ec := (rs_ec ?s2)\<lparr>ec_events := F\<rparr>\<rparr>)"
      "calm_tab (exec_id_of ?s2) p R"
    using push_event_calm by metis
  let ?r = "mark_completed (nd_id n) (?w1\<lparr>ew_running := R\<rparr>,
      ?s2\<lparr>rs_ec := record_trace (ew_now w) (nd_id n) (nd_type n) (nd_name n) (tk_input t)
        (rp_output rp) ?d None (?ec1\<lparr>ec_events := F\<rparr>)\<rparr>)"
  have "complete_node v n t rp (w, s) = Done ?r"
    using E P(1) by (simp add: complete_node_def save Let_def)
  moreover have "node_ran (exec_id_of s) p [TaskCompleted (nd_id n) None] n ?t (w, s) ?r"
    using P(2) assms(5) unfolding id2 by (simp add: node_ran_def update_conv')
  ultimately show ?thesis by blast
qed

lemma run_task_calm:
  assumes "calm_tab (exec_id_of s) p (ew_running w)" "willing v (exec_id_of s) ns" "n \<in> set ns"
    "\<not> ec_events_closed (rs_ec s)" "gm_get (ms_tasks (ew_store w)) (tk_id t) \<noteq> None"
    "tk_node_id t = nd_id n" "tk_retry_count t = 0"
  shows "\<exists>r' t'. run_task v cap n t (w, s) = Done r' \<and>
    node_ran (exec_id_of s) p [TaskStarted (nd_id n), TaskCompleted (nd_id n) None] n t' (w, s) r' \<and>
    tk_id t' = tk_id t \<and> tk_execution_id t' = tk_execution_id t"
proof -
  obtain impl where impl: "en_executor v (nd_type n) = Some impl"
      "\<forall>c q x. \<exists>rp x'. impl c q x = ((Some rp, None), x') \<and> rp_success rp"
    using assms(2,3) by (auto simp: willing_def)
  let ?t1 = "t\<lparr>tk_status := TkRunning, tk_started_at := Some (ew_now w), tk_worker_id := ''local''\<rparr>"
  let ?w1 = "notify (TaskStarted (nd_id n)) (w\<lparr>ew_store := (ew_store w)\<lparr>ms_tasks :=
      gm_put (tk_id t) ?t1 (ms_tasks (ew_store w))\<rparr>\<rparr>)"
  let ?s1 = "s\<lparr>rs_tasks := gm_put (nd_id n) ?t1 (rs_tasks s)\<rparr>"
  have save: "save_task ?t1 (w, s) =
      (w\<lparr>ew_store := (ew_store w)\<lparr>ms_tasks := gm_put (tk_id t) ?t1 (ms_tasks (ew_store w))\<rparr>\<rparr>, ?s1)"
    using assms(5,6) put_task_known [of w ?t1] by (simp add: save_task_def)
  obtain rp x' now where run: "run_executor v impl (ec_context (rs_ec ?s1)) n
        (node_request (rs_ec ?s1) n ?t1) ?w1 =
      (Done (Some rp, None), ?w1\<lparr>ew_out := x', ew_now := now\<rparr>)" "rp_success rp"
    using run_executor_success [of v "node_request (rs_ec ?s1) n ?t1" impl "ec_context (rs_ec ?s1)" n ?w1]
      assms(2,7) impl(2) by (auto simp: willing_def node_request_def)
  let ?w2 = "?w1\<lparr>ew_out := x', ew_now := now\<rparr>" and ?t2 = "?t1\<lparr>tk_finished_at := Some now\<rparr>"
  have id1: "exec_id_of ?s1 = exec_id_of s" by (simp add: exec_id_of_def)
  have "\<exists>r'. complete_node v n ?t2 rp (?w2, ?s1) = Done r' \<and>
    node_ran (exec_id_of ?s1) p [TaskCompleted (nd_id n) None] n
      (?t2\<lparr>tk_status := TkCompleted, tk_output := rp_output rp\<rparr>) (?w2, ?s1) r'"
    using assms by (intro complete_node_calm) (simp_all add: id1 willing_def)
  then obtain r' where r': "complete_node v n ?t2 rp (?w2, ?s1) = Done r'"
    "node_ran (exec_id_of s) p [TaskCompleted (nd_id n) None] n
      (?t2\<lparr>tk_status := TkCompleted, tk_output := rp_output rp\<rparr>) (?w2, ?s1) r'"
    by (auto simp: id1)
  have "run_task v cap n t (w, s) = Done r'"
    using impl(1) assms(7) run r'(1) by (simp add: run_task_def Let_def save)
  moreover have "node_ran (exec_id_of s) p [TaskStarted (nd_id n), TaskCompleted (nd_id n) None] n
      (?t2\<lparr>tk_status := TkCompleted, tk_output := rp_output rp\<rparr>) (w, s) r'"
    using r'(2) by (cases r') (simp add: node_ran_def update_conv')
  ultimately show ?thesis by (intro exI conjI) (assumption | simp)+
qed

lemma execute_node_calm:
  assumes "calm_tab (exec_id_of s) p (ew_running w)" "willing v (exec_id_of s) ns" "n \<in> set ns"
    "\<not> ec_events_closed (rs_ec s)" "gm_get (rs_tasks s) (nd_id n) = None"
  shows "\<exists>w' s' t'. execute_node v cap n (w, s) = Done (w', s') \<and>
    node_ran (exec_id_of s) p [TaskStarted (nd_id n), TaskCompleted (nd_id n) None] n t'
      (w\<lparr>ew_next := Suc (Suc (ew_next w))\<rparr>, s) (w', s') \<and>
    tk_id t' = en_uuid v (ew_next w) \<and> tk_execution_id t' = exec_id_of s"
proof -
  have v: "\<And>c x. en_ctx_err v c x = None" "\<forall>x. 256 \<le> en_taken v (exec_id_of s) x"
    using assms(2) by (auto simp: willing_def)
  have no_debug: "debug_stop v n (w, s) = Done (w, s)"
    using assms(1) by (auto simp: debug_stop_def should_pause_for_debug_def calm_tab_def)
  obtain R E where P: "push_event v ''node.started'' (nd_id n) (nd_name n) (nd_type n) [] (w, s) =
      Done (w\<lparr>ew_running := R\<rparr>, s\<lparr>rs_ec := (rs_ec s)\<lparr>ec_events := E\<rparr>\<rparr>)" "calm_tab (exec_id_of s) p R"
    using push_event_calm [OF assms(1) v(2) assms(4)] by blast
  let ?s2 = "s\<lparr>rs_ec := (rs_ec s)\<lparr>ec_events := E\<rparr>\<rparr>"
  have id2: "exec_id_of ?s2 = exec_id_of s" by (simp add: exec_id_of_def)
  obtain S where S: "send_event v (exec_id_of s) (new_workflow_event (ew_now w) ''node.started''
        (exec_id_of s) (nd_id n) (nd_name n) (nd_type n) []) (w\<lparr>ew_running := R\<rparr>) =
      Done (w\<lparr>ew_running := S\<rparr>)" "calm_tab (exec_id_of s) p S"
    using send_event_calm [of "exec_id_of s" p "w\<lparr>ew_running := R\<rparr>" v] P(2) v(2) by fastforce
  obtain t r4 where t: "create_node_task v n (w\<lparr>ew_running := S\<rparr>, ?s2) = (t, r4)"
    by (metis surj_pair)
  have t': "tk_id t = en_uuid v (ew_next w)" "tk_execution_id t = exec_id_of s" "tk_node_id t = nd_id n"
      "tk_retry_count t = 0"
      "r4 = (w\<lparr>ew_running := S, ew_next := Suc (Suc (ew_next w)), ew_store := create_task (ew_store w) t\<rparr>,
         ?s2\<lparr>rs_tasks := gm_put (nd_id n) t (rs_tasks s)\<rparr>)"
    using t by (auto simp: create_node_task_def fresh_def Let_def id2)
  let ?w4 = "fst r4" and ?s4 = "snd r4"
  have id4: "exec_id_of ?s4 = exec_id_of s" by (simp add: t' exec_id_of_def)
  have "\<exists>r' t1. run_task v cap n t (?w4, ?s4) = Done r' \<and>
    node_ran (exec_id_of ?s4) p [TaskStarted (nd_id n), TaskCompleted (nd_id n) None] n t1 (?w4, ?s4) r' \<and>
    tk_id t1 = tk_id t \<and> tk_execution_id t1 = tk_execution_id t"
    using S(2) assms(2-4) t'(3,4)
    by (intro run_task_calm [where ns = ns]) (simp_all add: id4, simp_all add: t' create_task_def)
  then obtain r' t1 where r': "run_task v cap n t r4 = Done r'" "tk_id t1 = tk_id t"
      "tk_execution_id t1 = tk_execution_id t"
      "node_ran (exec_id_of s) p [TaskStarted (nd_id n), TaskCompleted (nd_id n) None] n t1 r4 r'"
    unfolding id4 by auto
  have run: "execute_node v cap n (w, s) = Done r'"
    using no_debug P(1) S(1) assms(5) t r'(1) by (simp add: execute_node_def v(1) id2)
  have "node_ran (exec_id_of s) p [TaskStarted (nd_id n), TaskCompleted (nd_id n) None] n t1
      (w\<lparr>ew_next := Suc (Suc (ew_next w))\<rparr>, s) r'"
    using r'(2,4) unfolding t'(5) by (cases r') (simp add: node_ran_def create_task_def update_conv'
        same_ctx_def)
  then show ?thesis
    using run r'(2,3) t'(1,2) by (cases r') auto
qed

subsection \<open>The invariant of a run\<close>

text \<open>Every node comes after the nodes it depends on.\<close>

definition dep_ordered :: "workflow \<Rightarrow> node_id list \<Rightarrow> bool" where
  "dep_ordered g order \<longleftrightarrow> distinct order \<and> set order \<subseteq> node_ids g \<and>
     (\<forall>k < length order. \<forall>x. (x, order ! k) \<in> dep_rel g \<longrightarrow> x \<in> set (take k order))"

definition node_notes :: "node_id list \<Rightarrow> notification list" where
  "node_notes order = concat (map (\<lambda>x. [TaskStarted x, TaskCompleted x None]) order)"

definition tasks_done :: "mem_store \<Rightarrow> string \<Rightarrow> node_id set \<Rightarrow> bool" where
  "tasks_done s i ns \<longleftrightarrow> (\<forall>x \<in> ns. \<exists>t. gm_get (ms_tasks s) (tk_id t) = Some t \<and>
     tk_execution_id t = i \<and> tk_node_id t = x \<and> tk_status t = TkCompleted)"

definition run_inv :: "'x engine_env \<Rightarrow> workflow \<Rightarrow> exec_context \<Rightarrow> nat option \<Rightarrow> 'x world \<Rightarrow>
    node_id list \<Rightarrow> 'x run \<Rightarrow> bool" where
  "run_inv v g ec p w0 order r \<longleftrightarrow> (case r of (w, s) \<Rightarrow>
     same_ctx ec (rs_ec s) \<and> \<not> ec_events_closed ec \<and> rs_completed s = (\<lambda>x. x \<in> set order) \<and>
     rs_errs s = [] \<and> (\<forall>x. gm_get (rs_tasks s) x \<noteq> None \<longrightarrow> x \<in> set order) \<and>
     calm_tab (ex_id (ec_execution ec)) p (ew_running w) \<and> ew_config w = ew_config w0 \<and>
     ew_closed w = ew_closed w0 \<and> ms_executions (ew_store w) = ms_executions (ew_store w0) \<and>
     ew_obs w = ew_obs w0 @ node_notes order \<and> dep_ordered g order \<and>
     (\<forall>k \<ge> ew_next w. gm_get (ms_tasks (ew_store w)) (en_uuid v k) = None) \<and>
     tasks_done (ew_store w) (ex_id (ec_execution ec)) (set order))"

lemma dep_ordered_snoc:
  assumes "dep_ordered g order" "n \<in> node_ids g" "n \<notin> set order" "\<And>x. (x, n) \<in> dep_rel g \<Longrightarrow> x \<in> set order"
  shows "dep_ordered g (order @ [n])"
  using assms by (auto simp: dep_ordered_def nth_append less_Suc_eq)

lemma mem_snoc_upd: "(\<lambda>x. x \<in> set xs)(y := True) = (\<lambda>x. x = y \<or> x \<in> set xs)"
  by (rule ext) simp

lemma run_inv_node:
  assumes "run_inv v g ec p w0 order (w, s)" "willing v (ex_id (ec_execution ec)) (wf_nodes g)"
    "n \<in> set (wf_nodes g)" "nd_id n \<notin> set order"
    "\<And>x. (x, nd_id n) \<in> dep_rel g \<Longrightarrow> x \<in> set order"
  shows "\<exists>r'. execute_node v cap n (w, s) = Done r' \<and> run_inv v g ec p w0 (order @ [nd_id n]) r'"
proof -
  let ?i = "ex_id (ec_execution ec)"
  have id: "exec_id_of s = ?i" using assms(1) by (simp add: run_inv_def same_ctx_def exec_id_of_def)
  have "\<exists>w' s' t'. execute_node v cap n (w, s) = Done (w', s') \<and>
    node_ran (exec_id_of s) p [TaskStarted (nd_id n), TaskCompleted (nd_id n) None] n t'
      (w\<lparr>ew_next := Suc (Suc (ew_next w))\<rparr>, s) (w', s') \<and>
    tk_id t' = en_uuid v (ew_next w) \<and> tk_execution_id t' = exec_id_of s"
    using assms by (intro execute_node_calm [where ns = "wf_nodes g"])
      (auto simp: run_inv_def same_ctx_def id)
  then obtain w' s' t' where r': "execute_node v cap n (w, s) = Done (w', s')"
    "node_ran ?i p [TaskStarted (nd_id n), TaskCompleted (nd_id n) None] n t'
      (w\<lparr>ew_next := Suc (Suc (ew_next w))\<rparr>, s) (w', s')"
    "tk_id t' = en_uuid v (ew_next w)" "tk_execution_id t' = ?i"
    by (auto simp: id)
  have inj: "en_uuid v a = en_uuid v b \<longleftrightarrow> a = b" for a b
    using assms(2) by (auto simp: willing_def inj_def)
  have new: "gm_get (ms_tasks (ew_store w)) (en_uuid v (ew_next w)) = None"
    using assms(1) by (simp add: run_inv_def)
  have tasks: "gm_get (ms_tasks (ew_store w')) = (gm_get (ms_tasks (ew_store w)))(tk_id t' \<mapsto> t')"
    "tk_status t' = TkCompleted" "tk_node_id t' = nd_id n"
    by (rule node_ran_task [OF r'(2)])+
  have "tasks_done (ew_store w) ?i (set order)" using assms(1) by (simp add: run_inv_def)
  then have done_old: "tasks_done (ew_store w') ?i (set order)"
    unfolding tasks_done_def tasks(1) using new r'(3) by (metis fun_upd_other option.distinct(1))
  have done_new: "tasks_done (ew_store w') ?i {nd_id n}"
    unfolding tasks_done_def tasks(1) using tasks(2,3) r'(4) by (intro ballI exI [of _ t']) auto
  have "dep_ordered g (order @ [nd_id n])"
    using assms by (intro dep_ordered_snoc) (auto simp: run_inv_def node_ids_def)
  moreover have "tasks_done (ew_store w') ?i (set (order @ [nd_id n]))"
    using done_old done_new by (auto simp: tasks_done_def)
  moreover have "same_ctx ec (rs_ec s')"
    using assms(1) r'(2) by (simp add: run_inv_def node_ran_def same_ctx_def)
  moreover have "\<forall>k \<ge> ew_next w'. gm_get (ms_tasks (ew_store w')) (en_uuid v k) = None"
    using assms(1) r'(2,3) by (auto simp: run_inv_def node_ran_def tasks(1) inj)
  moreover have "\<forall>x. gm_get (rs_tasks s') x \<noteq> None \<longrightarrow> x \<in> set (order @ [nd_id n])"
    using assms(1) r'(2) by (auto simp: run_inv_def node_ran_def)
  moreover have "rs_completed s' = (\<lambda>x. x \<in> set (order @ [nd_id n]))"
    using assms(1) r'(2) by (simp add: run_inv_def node_ran_def mem_snoc_upd)
  ultimately have "run_inv v g ec p w0 (order @ [nd_id n]) (w', s')"
    using assms(1) r'(2) by (simp add: run_inv_def node_ran_def node_notes_def mem_snoc_upd)
  then show ?thesis using r'(1) by blast
qed

lemma run_inv_batch:
  assumes "willing v (ex_id (ec_execution ec)) (wf_nodes g)" "0 < ec_max_parallel_tasks (ew_config w0)"
  shows "run_inv v g ec p w0 order r \<Longrightarrow>
     (\<forall>n \<in> set ns. n \<in> set (wf_nodes g) \<and> (\<forall>x. (x, nd_id n) \<in> dep_rel g \<longrightarrow> x \<in> set order)) \<Longrightarrow>
     \<exists>r' order'. run_batch v cap ns r = Done r' \<and> run_inv v g ec p w0 order' r' \<and>
       set order' = set order \<union> nd_id ` set ns"
proof (induction ns arbitrary: order r)
  case Nil
  then show ?case by (intro exI [of _ r] exI [of _ order]) simp
next
  case (Cons n ns)
  obtain w s where r: "r = (w, s)" by fastforce
  have comp: "rs_completed s (nd_id n) \<longleftrightarrow> nd_id n \<in> set order" "ew_config w = ew_config w0"
    using Cons.prems(1) by (simp_all add: run_inv_def r)
  show ?case
  proof (cases "nd_id n \<in> set order")
    case True
    then show ?thesis
      using Cons.IH [OF Cons.prems(1)] Cons.prems(2) comp by (auto simp: r insert_absorb)
  next
    case False
    obtain r1 where r1: "execute_node v cap n (w, s) = Done r1"
        "run_inv v g ec p w0 (order @ [nd_id n]) r1"
      using run_inv_node [OF Cons.prems(1) [unfolded r] assms(1) _ False, where cap = cap]
        Cons.prems(2) by (metis list.set_intros(1))
    obtain r' order' where "run_batch v cap ns r1 = Done r'" "run_inv v g ec p w0 order' r'"
        "set order' = set (order @ [nd_id n]) \<union> nd_id ` set ns"
      using Cons.IH [OF r1(2)] Cons.prems(2) by auto
    then show ?thesis
      using r1(1) comp assms(2) False by (intro exI [of _ r'] exI [of _ order']) (auto simp: r)
  qed
qed

lemma diff_union_psubset: "S \<subseteq> N - D \<Longrightarrow> S \<noteq> {} \<Longrightarrow> N - (D \<union> S) \<subset> N - D"
  by blast

lemma loop_goes_on:
  assumes "willing v (ex_id (ec_execution ec)) (wf_nodes g)" "0 < ec_max_parallel_tasks (ew_config w0)"
    "new_dag g = Inr d" "edges_declared g" "\<forall>c. p = Some c \<longrightarrow> c \<notin> set (ew_closed w0)"
    "run_inv v g ec p w0 order r"
  shows "en_ctx_err v c x = None" "\<not> (case p of None \<Rightarrow> False | Some c \<Rightarrow> c \<in> set (ew_closed (fst r)))"
  using assms by (auto simp: willing_def run_inv_def split: option.splits)

lemma loop_ends:
  assumes "willing v (ex_id (ec_execution ec)) (wf_nodes g)" "0 < ec_max_parallel_tasks (ew_config w0)"
    "new_dag g = Inr d" "edges_declared g" "\<forall>c. p = Some c \<longrightarrow> c \<notin> set (ew_closed w0)"
    "run_inv v g ec p w0 order r" "node_ids g \<subseteq> set order"
  shows "dag_loop v cap p d fuel r = Some (Done (None, r)) \<and> run_inv v g ec p w0 order r \<and>
    set order = node_ids g"
proof -
  have "dg_workflow d = g" using new_dag_Inr(1) [OF assms(3)] by simp
  then have "n \<notin> set (get_ready_nodes d (\<lambda>x. x \<in> set order))" for n
    using assms(7) by (auto simp: set_get_ready_nodes node_ids_def)
  then have "get_ready_nodes d (\<lambda>x. x \<in> set order) = []"
    by (metis list.set_intros(1) neq_Nil_conv)
  moreover have "rs_completed (snd r) = (\<lambda>x. x \<in> set order)"
    using assms(6) by (auto simp: run_inv_def)
  ultimately have "get_ready_nodes d (rs_completed (snd r)) = []" by (simp only:)
  moreover have "set order = node_ids g"
    using assms(6,7) by (auto simp: run_inv_def dep_ordered_def)
  ultimately show ?thesis
    using loop_goes_on [OF assms(1-6)] assms(6) by (subst dag_loop.simps) simp
qed

lemma run_inv_loop:
  assumes "willing v (ex_id (ec_execution ec)) (wf_nodes g)" "0 < ec_max_parallel_tasks (ew_config w0)"
    "new_dag g = Inr d" "edges_declared g" "\<forall>c. p = Some c \<longrightarrow> c \<notin> set (ew_closed w0)"
  shows "run_inv v g ec p w0 order r \<Longrightarrow> card (node_ids g - set order) \<le> fuel \<Longrightarrow>
     \<exists>r' order'. dag_loop v cap p d fuel r = Some (Done (None, r')) \<and>
       run_inv v g ec p w0 order' r' \<and> set order' = node_ids g"
proof (induction fuel arbitrary: order r)
  case 0
  then show ?case using loop_ends [OF assms 0(1)] by (auto simp: node_ids_def)
next
  case (Suc k)
  obtain w s where r: "r = (w, s)" by fastforce
  let ?ready = "get_ready_nodes d (rs_completed s)"
  have comp: "rs_completed s = (\<lambda>x. x \<in> set order)" using Suc.prems(1) by (simp add: run_inv_def r)
  show ?case
  proof (cases "node_ids g \<subseteq> set order")
    case True
    then show ?thesis using loop_ends [OF assms Suc.prems(1)] by auto
  next
    case False
    then obtain n where n: "n \<in> set (wf_nodes g)" "nd_id n \<notin> set order" by (auto simp: node_ids_def)
    have ne: "?ready \<noteq> []"
      using ready_progress [OF assms(3,4) n(1), of "rs_completed s"] n(2) by (simp add: comp)
    have "dg_workflow d = g" using new_dag_Inr(1) [OF assms(3)] by simp
    then have rd: "m \<in> set ?ready \<longleftrightarrow> m \<in> set (wf_nodes g) \<and> nd_id m \<notin> set order \<and>
        (\<forall>x. (x, nd_id m) \<in> dep_rel g \<longrightarrow> x \<in> set order)" for m
      by (simp add: set_get_ready_nodes comp)
    have perm: "set (en_order v ?ready) = set ?ready"
      using assms(1) by (metis willing_def set_mset_mset)
    have b0: "\<forall>n \<in> set (en_order v ?ready). n \<in> set (wf_nodes g) \<and>
        (\<forall>x. (x, nd_id n) \<in> dep_rel g \<longrightarrow> x \<in> set order)"
      using rd perm by blast
    obtain r1 order1 where b: "run_batch v cap (en_order v ?ready) r = Done r1"
        "run_inv v g ec p w0 order1 r1" "set order1 = set order \<union> nd_id ` set (en_order v ?ready)"
      using run_inv_batch [OF assms(1,2) Suc.prems(1) b0, where cap = cap] by blast
    obtain w1 s1 where r1: "r1 = (w1, s1)" by fastforce
    have sub: "nd_id ` set ?ready \<subseteq> node_ids g - set order"
    proof (rule image_subsetI)
      fix m assume "m \<in> set ?ready"
      then show "nd_id m \<in> node_ids g - set order" unfolding rd node_ids_def by blast
    qed
    have "nd_id ` set ?ready \<noteq> {}" using ne by simp
    then have "node_ids g - set order1 \<subset> node_ids g - set order"
      unfolding b(3) perm by (rule diff_union_psubset [OF sub])
    then have "card (node_ids g - set order1) < card (node_ids g - set order)"
      by (rule psubset_card_mono [rotated]) (simp add: node_ids_def)
    then obtain r' order' where "dag_loop v cap p d k r1 = Some (Done (None, r'))"
        "run_inv v g ec p w0 order' r'" "set order' = node_ids g"
      using Suc.IH [OF b(2)] Suc.prems(2) by (meson less_le_trans less_Suc_eq_le)
    moreover have "dag_loop v cap p d (Suc k) r = dag_loop v cap p d k r1"
      using loop_goes_on [OF assms Suc.prems(1)] ne b(1,2)
      by (subst dag_loop.simps) (simp add: r r1 run_inv_def)
    ultimately show ?thesis by auto
  qed
qed

lemma root_node_free:
  assumes "new_dag g = Inr d" "n \<in> set (get_root_nodes d)"
  shows "n \<in> set (wf_nodes g)" "(x, nd_id n) \<notin> dep_rel g"
proof -
  have d: "d = build_root_nodes (dag_load g)" by (rule new_dag_Inr(1) [OF assms(1)])
  have "pending g {} (nd_id n) = 0" "n \<in> set (wf_nodes g)"
    using assms(2) by (auto simp: d get_root_nodes_def build_root_nodes_def pending_def)
  then show "n \<in> set (wf_nodes g)" "(x, nd_id n) \<notin> dep_rel g"
    by (auto simp: pending_0)
qed

lemma init_pause_signal_calm:
  assumes "calm_tab i p (ew_running w)" "\<forall>c \<in> set (ew_closed w). c < ew_next w"
    "\<forall>c. p = Some c \<longrightarrow> c \<notin> set (ew_closed w)"
  shows "\<exists>R k q. init_pause_signal i w = w\<lparr>ew_running := R, ew_next := k\<rparr> \<and> ew_next w \<le> k \<and>
    calm_tab i (Some q) R \<and> q \<notin> set (ew_closed w) \<and>
    (case gm_get R i of None \<Rightarrow> None | Some rx \<Rightarrow> rx_paused_ch rx) = Some q"
proof -
  obtain rx where rx: "gm_get (ew_running w) i = Some rx" "\<not> rx_debug_mode rx" "rx_paused_ch rx = p"
      "\<And>c. rx_events rx = Some c \<Longrightarrow> \<not> ch_closed c \<and> length (ch_buf c) \<le> 256"
    using assms(1) by (auto simp: calm_tab_def)
  show ?thesis
  proof (cases p)
    case None
    then have "init_pause_signal i w = w\<lparr>ew_running := gm_put i (rx\<lparr>rx_paused_ch := Some (ew_next w)\<rparr>)
        (ew_running w), ew_next := Suc (ew_next w)\<rparr>"
      using rx by (simp add: init_pause_signal_def fresh_def)
    moreover have "ew_next w \<notin> set (ew_closed w)" using assms(2) by blast
    ultimately show ?thesis
      using rx(2,4) by (intro exI [of _ "gm_put i (rx\<lparr>rx_paused_ch := Some (ew_next w)\<rparr>) (ew_running w)"]
          exI [of _ "Suc (ew_next w)"] exI [of _ "ew_next w"]) (simp add: calm_tab_def)
  next
    case (Some q)
    then have "init_pause_signal i w = w\<lparr>ew_running := ew_running w, ew_next := ew_next w\<rparr>"
      using rx by (simp add: init_pause_signal_def)
    then show ?thesis
      using rx assms(1,3) Some by (intro exI [of _ "ew_running w"] exI [of _ "ew_next w"] exI [of _ q]) simp
  qed
qed

lemma execute_dag_calm:
  assumes "willing v (ex_id (ec_execution ec)) (wf_nodes g)" "0 < ec_max_parallel_tasks (ew_config w)"
    "new_dag g = Inr d" "edges_declared g" "run_inv v g ec p w [] (w, s)"
    "\<forall>c \<in> set (ew_closed w). c < ew_next w" "\<forall>c. p = Some c \<longrightarrow> c \<notin> set (ew_closed w)"
    "length (wf_nodes g) \<le> fuel"
  shows "\<exists>r' order q. execute_dag v fuel d (w, s) = Some (Done (None, r')) \<and>
    run_inv v g ec (Some q) w order r' \<and> set order = node_ids g"
proof -
  let ?i = "ex_id (ec_execution ec)"
  have id: "exec_id_of s = ?i" and calm: "calm_tab ?i p (ew_running w)"
    using assms(5) by (simp_all add: run_inv_def same_ctx_def exec_id_of_def)
  obtain R k q where init: "init_pause_signal ?i w = w\<lparr>ew_running := R, ew_next := k\<rparr>" "ew_next w \<le> k"
      "calm_tab ?i (Some q) R" "q \<notin> set (ew_closed w)"
      "(case gm_get R ?i of None \<Rightarrow> None | Some rx \<Rightarrow> rx_paused_ch rx) = Some q"
    using init_pause_signal_calm [OF calm assms(6,7)] by blast
  let ?w1 = "w\<lparr>ew_running := R, ew_next := k\<rparr>" and ?cap = "length (wf_nodes (dg_workflow d))"
  have inv1: "run_inv v g ec (Some q) w [] (?w1, s)"
    using assms(5) init(2,3) by (simp add: run_inv_def)
  have perm: "set (en_order v (get_root_nodes d)) = set (get_root_nodes d)"
    using assms(1) by (metis willing_def set_mset_mset)
  have "\<forall>n \<in> set (en_order v (get_root_nodes d)). n \<in> set (wf_nodes g) \<and>
      (\<forall>x. (x, nd_id n) \<in> dep_rel g \<longrightarrow> x \<in> set [])"
    unfolding perm using root_node_free [OF assms(3)] by blast
  then obtain r2 order2 where b: "run_batch v ?cap (en_order v (get_root_nodes d)) (?w1, s) = Done r2"
      "run_inv v g ec (Some q) w order2 r2"
    using run_inv_batch [OF assms(1,2) inv1, where cap = ?cap] by blast
  have "card (node_ids g - set order2) \<le> card (node_ids g)"
    by (rule card_mono) (auto simp: node_ids_def)
  also have "\<dots> \<le> length (wf_nodes g)"
    unfolding node_ids_def by (metis card_length length_map list.set_map)
  finally have "card (node_ids g - set order2) \<le> fuel" using assms(8) by linarith
  then obtain r' order where "dag_loop v ?cap (Some q) d fuel r2 = Some (Done (None, r'))"
      "run_inv v g ec (Some q) w order r'" "set order = node_ids g"
    using run_inv_loop [OF assms(1-4) _ b(2), where cap = ?cap and fuel = fuel] init(4) by blast
  moreover have "execute_dag v fuel d (w, s) = dag_loop v ?cap (Some q) d fuel r2"
    using assms(2) b(1) init(1,5) by (simp add: execute_dag_def id Let_def)
  ultimately show ?thesis by auto
qed

lemma push_final_calm:
  assumes "calm_tab i p (ew_running w)"
  shows "\<exists>R. push_final_event v i et w = Done (w\<lparr>ew_running := R\<rparr>)"
  using assms by (auto simp: calm_tab_def push_final_event_def events_for_exec_def set_channel_def
      Let_def split: option.splits)

lemma put_execution_ok:
  assumes "stored w (ex_id e) = Some cur" "ex_version cur = ex_version e"
  shows "put_execution e w = Inr (e\<lparr>ex_version := ex_version e + 1\<rparr>,
     w\<lparr>ew_store := (ew_store w)\<lparr>ms_executions :=
       gm_put (ex_id e) (e\<lparr>ex_version := ex_version e + 1\<rparr>) (ms_executions (ew_store w))\<rparr>\<rparr>)"
  using assms by (simp add: stored_def put_execution_def update_execution_def Let_def)

lemma finish_workflow_calm:
  assumes "dg_workflow d = g" "\<forall>n \<in> set (wf_nodes g). rs_completed s (nd_id n)"
    "ex_id (ec_execution (rs_ec s)) = i" "calm_tab i p (ew_running w)"
    "stored w i = Some cur" "ex_version cur = ex_version (ec_execution (rs_ec s))"
  shows "\<exists>w'. finish_workflow v d (w, s) = Done w' \<and> ew_obs w' = ew_obs w @ [ExecCompleted i None] \<and>
    map_option ex_status (stored w' i) = Some ExCompleted \<and> gm_get (ew_running w') i = None \<and>
    ms_tasks (ew_store w') = ms_tasks (ew_store w)"
proof -
  let ?e = "(ec_execution (rs_ec s))\<lparr>ex_finished_at := Some (ew_now w), ex_status := ExCompleted\<rparr>"
  let ?e' = "?e\<lparr>ex_version := ex_version ?e + 1\<rparr>"
  let ?w1 = "w\<lparr>ew_store := (ew_store w)\<lparr>ms_executions := gm_put i ?e' (ms_executions (ew_store w))\<rparr>\<rparr>"
  have put: "put_execution ?e w = Inr (?e', ?w1)"
    using put_execution_ok [of w ?e cur] assms(3,5,6) by simp
  obtain R where "push_final_event v i ''workflow.completed'' (notify (ExecCompleted i None) ?w1) =
      Done ((notify (ExecCompleted i None) ?w1)\<lparr>ew_running := R\<rparr>)"
    using push_final_calm [of i p "notify (ExecCompleted i None) ?w1"] assms(4) by auto
  then show ?thesis
    using assms(1-3) put by (simp add: finish_workflow_def list_all_iff stop_running_def stored_def Let_def)
qed

subsection \<open>Properties\<close>



end
