(* ===== verification/MemLock.thy ===== *)
theory MemLock
  imports Prelude
begin

text \<open>
  The in-process lock with token and lease (\<open>workflow/pkg/lock/lock.go\<close>,
  \<open>memory_lock.go\<close>). A world holds the clock, the process-wide registry, the lock objects
  (each with its uuid token and its stop channel) and the renewal goroutines that run. TryLock
  and Unlock run under two mutexes, so each is one atomic function of the world; the waits of
  the Lock loop, the ticks of a renewal goroutine and the other clients come in between as
  steps of \<open>lock_step\<close>. What the safety argument needs of a lease is the locale \<open>lease\<close>,
  interpreted on the model.
\<close>

subsection \<open>Configuration\<close>

record lock_config =
  lc_ttl :: duration
  lc_retry :: int
  lc_retry_wait :: duration
  lc_auto_renew :: bool

definition default_lock_config :: lock_config where
  "default_lock_config =
     \<lparr>lc_ttl = 30 * second, lc_retry = 3, lc_retry_wait = 100 * millisecond,
      lc_auto_renew = False\<rparr>"

type_synonym lock_option = "lock_config \<Rightarrow> lock_config"

definition with_ttl :: "duration \<Rightarrow> lock_option" where
  "with_ttl ttl c = c\<lparr>lc_ttl := ttl\<rparr>"

definition with_retry :: "int \<Rightarrow> lock_option" where
  "with_retry n c = c\<lparr>lc_retry := n\<rparr>"

definition with_retry_wait :: "duration \<Rightarrow> lock_option" where
  "with_retry_wait d c = c\<lparr>lc_retry_wait := d\<rparr>"

definition with_auto_renew :: "bool \<Rightarrow> lock_option" where
  "with_auto_renew b c = c\<lparr>lc_auto_renew := b\<rparr>"

subsection \<open>Registry, lock objects, world\<close>

record mem_lock_entry =
  me_value :: string
  me_expire_at :: time

record mem_lock =
  ml_name :: string
  ml_value :: string
  ml_config :: lock_config
  ml_stop_closed :: bool
  ml_locked :: bool

definition new_memory_lock :: "string \<Rightarrow> string \<Rightarrow> lock_option list \<Rightarrow> mem_lock" where
  "new_memory_lock uuid name opts =
     \<lparr>ml_name = name, ml_value = uuid, ml_config = fold (\<lambda>opt c. opt c) opts default_lock_config,
      ml_stop_closed = False, ml_locked = False\<rparr>"

record lock_world =
  lw_now :: time
  lw_reg :: "(string, mem_lock_entry) gomap"
  lw_locks :: "nat \<Rightarrow> mem_lock"
  lw_renewers :: "nat list"

abbreviation set_lock :: "nat \<Rightarrow> mem_lock \<Rightarrow> lock_world \<Rightarrow> lock_world" where
  "set_lock i l w \<equiv> w\<lparr>lw_locks := (lw_locks w)(i := l)\<rparr>"

text \<open>Starting the renewal goroutine; a ticker of a non-positive period panics.\<close>

definition start_auto_renew :: "nat \<Rightarrow> lock_world \<Rightarrow> unit outcome \<times> lock_world" where
  "start_auto_renew i w =
     (if lc_ttl (ml_config (lw_locks w i)) div 3 \<le> 0
      then (Panic ''non-positive interval for NewTicker'', w)
      else (Done (), w\<lparr>lw_renewers := i # lw_renewers w\<rparr>))"

definition try_lock :: "nat \<Rightarrow> lock_world \<Rightarrow> bool outcome \<times> lock_world" where
  "try_lock i w =
     (let l = lw_locks w i in
      if (case gm_get (lw_reg w) (ml_name l) of None \<Rightarrow> False | Some e \<Rightarrow> me_expire_at e > lw_now w)
      then (Done False, w)
      else
        let e = \<lparr>me_value = ml_value l, me_expire_at = lw_now w + lc_ttl (ml_config l)\<rparr>;
            w1 = set_lock i (l\<lparr>ml_locked := True\<rparr>) (w\<lparr>lw_reg := gm_put (ml_name l) e (lw_reg w)\<rparr>)
        in if lc_auto_renew (ml_config l)
           then (case start_auto_renew i w1 of (r, w2) \<Rightarrow> (bind_outcome r (\<lambda>_. Done True), w2))
           else (Done True, w1))"

text \<open>Unlock: the flag is reset by a deferred function, also when closing the stop channel a
  second time panics; the entry is deleted only if it still holds this object's token.\<close>

definition unlock :: "nat \<Rightarrow> lock_world \<Rightarrow> unit outcome \<times> lock_world" where
  "unlock i w =
     (let l = lw_locks w i in
      if \<not> ml_locked l then (Done (), w)
      else
        let w0 = set_lock i (l\<lparr>ml_locked := False\<rparr>) w in
        if lc_auto_renew (ml_config l) \<and> ml_stop_closed l
        then (Panic ''close of closed channel'', w0)
        else
          let w1 = (if lc_auto_renew (ml_config l)
                    then set_lock i (l\<lparr>ml_locked := False, ml_stop_closed := True\<rparr>) w else w0)
          in (Done (),
              case gm_get (lw_reg w1) (ml_name l) of
                None \<Rightarrow> w1
              | Some e \<Rightarrow> if me_value e = ml_value l
                          then w1\<lparr>lw_reg := gm_del (ml_name l) (lw_reg w1)\<rparr> else w1))"

text \<open>One tick of the renewal goroutine.\<close>

definition renew_tick :: "nat \<Rightarrow> lock_world \<Rightarrow> lock_world" where
  "renew_tick i w =
     (let l = lw_locks w i in
      case gm_get (lw_reg w) (ml_name l) of
        None \<Rightarrow> w
      | Some e \<Rightarrow> if me_value e = ml_value l
                  then w\<lparr>lw_reg := gm_put (ml_name l)
                      (e\<lparr>me_expire_at := lw_now w + lc_ttl (ml_config l)\<rparr>) (lw_reg w)\<rparr>
                  else w)"

subsection \<open>The blocking Lock\<close>

datatype lock_result = Acquired | CtxDone | NotAcquired "string \<times> int"

text \<open>The loop of \<open>Lock\<close>: attempt \<open>k\<close> is followed by a wait in which the world moves on by
  \<open>env k\<close>, or in which the context ends first (\<open>cancelled k\<close>).\<close>

fun lock_loop :: "(nat \<Rightarrow> lock_world \<Rightarrow> lock_world) \<Rightarrow> (nat \<Rightarrow> bool) \<Rightarrow> nat \<Rightarrow> nat \<Rightarrow> nat \<Rightarrow>
    lock_world \<Rightarrow> lock_result outcome \<times> lock_world" where
  "lock_loop env cancelled i k 0 w =
     (Done (NotAcquired (ml_name (lw_locks w i), lc_retry (ml_config (lw_locks w i)))), w)"
| "lock_loop env cancelled i k (Suc n) w =
     (case try_lock i w of
        (Done True, w') \<Rightarrow> (Done Acquired, w')
      | (Done False, w') \<Rightarrow>
          if cancelled k then (Done CtxDone, w')
          else lock_loop env cancelled i (Suc k) n (env k w')
      | (Panic m, w') \<Rightarrow> (Panic m, w')
      | (Blocked, w') \<Rightarrow> (Blocked, w'))"

definition lock_acquire :: "(nat \<Rightarrow> lock_world \<Rightarrow> lock_world) \<Rightarrow> (nat \<Rightarrow> bool) \<Rightarrow> nat \<Rightarrow>
    lock_world \<Rightarrow> lock_result outcome \<times> lock_world" where
  "lock_acquire env cancelled i w =
     lock_loop env cancelled i 0 (nat (lc_retry (ml_config (lw_locks w i)))) w"

subsection \<open>All the steps of a process\<close>

datatype lock_event =
    Tick duration | TryLock nat bool | Unlock nat | RenewTick nat | RenewExit nat

inductive lock_step :: "lock_world \<Rightarrow> lock_event \<Rightarrow> lock_world \<Rightarrow> bool" where
  tick: "0 \<le> d \<Longrightarrow> lock_step w (Tick d) (w\<lparr>lw_now := lw_now w + d\<rparr>)"
| attempt: "try_lock i w = (r, w') \<Longrightarrow> lock_step w (TryLock i (r \<noteq> Done False)) w'"
| unlock: "unlock i w = (r, w') \<Longrightarrow> lock_step w (Unlock i) w'"
| renew: "i \<in> set (lw_renewers w) \<Longrightarrow> lock_step w (RenewTick i) (renew_tick i w)"
| renew_exit: "i \<in> set (lw_renewers w) \<Longrightarrow>
     lock_step w (RenewExit i) (w\<lparr>lw_renewers := remove1 i (lw_renewers w)\<rparr>)"

inductive_cases lock_stepE: "lock_step w a w'"

inductive lock_run :: "lock_world \<Rightarrow> lock_event list \<Rightarrow> lock_world \<Rightarrow> bool" where
  nil: "lock_run w [] w"
| cons: "lock_step w a w1 \<Longrightarrow> lock_run w1 as w2 \<Longrightarrow> lock_run w (a # as) w2"

inductive_cases lock_run_ConsE: "lock_run w (a # as) w2"
inductive_cases lock_run_NilE: "lock_run w [] w2"

text \<open>A process starts with an empty registry and lock objects that are not held; \<open>uuid\<close>
  tokens of different objects differ.\<close>

definition lock_init :: "lock_world \<Rightarrow> bool" where
  "lock_init w \<longleftrightarrow> lw_reg w = [] \<and> lw_renewers w = [] \<and> inj (\<lambda>i. ml_value (lw_locks w i)) \<and>
     (\<forall>i. \<not> ml_locked (lw_locks w i) \<and> \<not> ml_stop_closed (lw_locks w i))"

text \<open>The invariant: tokens stay unique, and an entry that holds a token belongs to the name
  of its object and was last written no later than now.\<close>

definition lock_inv :: "lock_world \<Rightarrow> bool" where
  "lock_inv w \<longleftrightarrow> inj (\<lambda>i. ml_value (lw_locks w i)) \<and>
     (\<forall>n e i. gm_get (lw_reg w) n = Some e \<and> me_value e = ml_value (lw_locks w i) \<longrightarrow>
        ml_name (lw_locks w i) = n \<and>
        me_expire_at e \<le> lw_now w + lc_ttl (ml_config (lw_locks w i)))"

text \<open>What no step changes in a lock object: name, token and configuration.\<close>

definition same_object :: "mem_lock \<Rightarrow> mem_lock \<Rightarrow> bool" where
  "same_object l l' \<longleftrightarrow> ml_name l' = ml_name l \<and> ml_value l' = ml_value l \<and> ml_config l' = ml_config l"

lemmas lock_ops = try_lock_def unlock_def renew_tick_def start_auto_renew_def Let_def

lemma step_objects: "lock_step w a w' \<Longrightarrow> same_object (lw_locks w i) (lw_locks w' i)"
  by (erule lock_stepE) (auto simp: same_object_def lock_ops split: option.splits if_splits)

lemma step_clock: "lock_step w a w' \<Longrightarrow> lw_now w \<le> lw_now w'"
  by (erule lock_stepE) (auto simp: lock_ops split: option.splits if_splits)

lemma inv_tokens: "lock_inv w \<Longrightarrow> ml_value (lw_locks w i) = ml_value (lw_locks w j) \<longleftrightarrow> i = j"
  by (auto simp: lock_inv_def inj_def)

lemma inv_entry: "lock_inv w \<Longrightarrow> gm_get (lw_reg w) n = Some e \<Longrightarrow>
    me_value e = ml_value (lw_locks w i) \<Longrightarrow>
    ml_name (lw_locks w i) = n \<and> me_expire_at e \<le> lw_now w + lc_ttl (ml_config (lw_locks w i))"
  by (simp add: lock_inv_def)

lemma init_inv: "lock_init w \<Longrightarrow> lock_inv w"
  by (simp add: lock_init_def lock_inv_def)

subsection \<open>Every step keeps the invariant\<close>

text \<open>A step changes the entry of a name only by removing it or by writing the token of an
  object of that name with a full lease from now.\<close>

definition entry_step :: "lock_world \<Rightarrow> lock_world \<Rightarrow> string \<Rightarrow> bool" where
  "entry_step w w' n \<longleftrightarrow>
     gm_get (lw_reg w') n \<in> {None, gm_get (lw_reg w) n} \<or>
     (\<exists>i. ml_name (lw_locks w i) = n \<and> gm_get (lw_reg w') n =
        Some \<lparr>me_value = ml_value (lw_locks w i),
              me_expire_at = lw_now w + lc_ttl (ml_config (lw_locks w i))\<rparr>)"

lemma step_entry: "lock_step w a w' \<Longrightarrow> entry_step w w' n"
  by (erule lock_stepE) (auto simp: entry_step_def lock_ops split: option.splits if_splits)

lemma inv_step:
  assumes "lock_inv w" "lock_step w a w'"
  shows "lock_inv w'"
proof -
  have same: "same_object (lw_locks w i) (lw_locks w' i)" for i
    by (rule step_objects [OF assms(2)])
  have clock: "lw_now w \<le> lw_now w'" by (rule step_clock [OF assms(2)])
  have "ml_name (lw_locks w i) = n \<and> me_expire_at e \<le> lw_now w' + lc_ttl (ml_config (lw_locks w i))"
    if "gm_get (lw_reg w') n = Some e" "me_value e = ml_value (lw_locks w i)" for n e i
    using step_entry [OF assms(2), of n] that clock inv_entry [OF assms(1), of n e i]
    by (auto simp: entry_step_def inv_tokens [OF assms(1)])
  then show ?thesis
    using assms(1) same by (auto simp: lock_inv_def same_object_def)
qed

lemma lock_inv_run: "lock_run w as w' \<Longrightarrow> lock_inv w \<Longrightarrow> lock_inv w'"
  by (induction rule: lock_run.induct) (auto intro: inv_step)

lemma run_objects: "lock_run w as w' \<Longrightarrow> same_object (lw_locks w i) (lw_locks w' i)"
proof (induction rule: lock_run.induct)
  case (cons w a w1 as w2)
  then show ?case using step_objects [OF cons.hyps(1), of i] by (simp add: same_object_def)
qed (simp add: same_object_def)

subsection \<open>Leases\<close>

text \<open>What a client relies on: while the lease of a token runs, only that token's release
  ends it, a step can only extend it, and nobody acquires.\<close>

locale lease =
  fixes step :: "'s \<Rightarrow> 'a \<Rightarrow> 's \<Rightarrow> bool"
    and inv :: "'s \<Rightarrow> bool"
    and now :: "'s \<Rightarrow> int"
    and owner :: "'s \<Rightarrow> ('tok \<times> int) option"
    and releases :: "'s \<Rightarrow> 'a \<Rightarrow> 'tok \<Rightarrow> bool"
    and acquires :: "'s \<Rightarrow> 'a \<Rightarrow> bool"
  assumes inv_step: "step s a s' \<Longrightarrow> inv s \<Longrightarrow> inv s'"
    and clock: "step s a s' \<Longrightarrow> now s \<le> now s'"
    and keep: "step s a s' \<Longrightarrow> inv s \<Longrightarrow> owner s = Some (t, e) \<Longrightarrow> now s < e \<Longrightarrow>
      \<not> releases s a t \<Longrightarrow> \<exists>e' \<ge> e. owner s' = Some (t, e')"
    and exclusive: "step s a s' \<Longrightarrow> acquires s a \<Longrightarrow> owner s = Some (t, e) \<Longrightarrow> e \<le> now s"
begin

inductive runs :: "'s \<Rightarrow> ('s \<times> 'a) list \<Rightarrow> 's \<Rightarrow> bool" where
  nil: "runs s [] s"
| cons: "step s a s1 \<Longrightarrow> runs s1 as s2 \<Longrightarrow> runs s ((s, a) # as) s2"

lemma runs_clock: "runs s as s' \<Longrightarrow> now s \<le> now s'"
  by (induction rule: runs.induct) (auto dest: clock)

lemma lease_holds:
  "runs s as s' \<Longrightarrow> inv s \<Longrightarrow> owner s = Some (t, e) \<Longrightarrow> now s' < e \<Longrightarrow>
     (\<forall>(u, a) \<in> set as. \<not> releases u a t) \<Longrightarrow>
     (\<exists>e' \<ge> e. owner s' = Some (t, e')) \<and> (\<forall>(u, a) \<in> set as. \<not> acquires u a)"
proof (induction arbitrary: e rule: runs.induct)
  case (nil s)
  then show ?case by auto
next
  case (cons s a s1 as s2)
  have "now s < e"
    using clock [OF cons.hyps(1)] runs_clock [OF cons.hyps(2)] cons.prems(3) by linarith
  moreover from this obtain e1 where "e \<le> e1" "owner s1 = Some (t, e1)"
    using keep [OF cons.hyps(1) cons.prems(1,2)] cons.prems(4) by auto
  ultimately show ?case
    using cons.IH [of e1] inv_step [OF cons.hyps(1) cons.prems(1)] cons.prems
      exclusive [OF cons.hyps(1) _ cons.prems(2)] by fastforce
qed

end

definition lock_owner :: "string \<Rightarrow> lock_world \<Rightarrow> (string \<times> time) option" where
  "lock_owner n w = map_option (\<lambda>e. (me_value e, me_expire_at e)) (gm_get (lw_reg w) n)"

fun lock_releases :: "lock_world \<Rightarrow> lock_event \<Rightarrow> string \<Rightarrow> bool" where
  "lock_releases w (Unlock i) t = (ml_value (lw_locks w i) = t)"
| "lock_releases w _ t = False"

fun lock_acquires :: "string \<Rightarrow> lock_world \<Rightarrow> lock_event \<Rightarrow> bool" where
  "lock_acquires n w (TryLock i ok) = (ok \<and> ml_name (lw_locks w i) = n)"
| "lock_acquires n w _ = False"

lemma owner_Some: "lock_owner n w = Some (t, e) \<longleftrightarrow>
    (\<exists>x. gm_get (lw_reg w) n = Some x \<and> me_value x = t \<and> me_expire_at x = e)"
  by (auto simp: lock_owner_def)

text \<open>A running lease survives any TryLock, and an Unlock with another token.\<close>

lemma try_lock_keeps: "try_lock i w = (r, w') \<Longrightarrow> gm_get (lw_reg w) n = Some x \<Longrightarrow>
    lw_now w < me_expire_at x \<Longrightarrow> gm_get (lw_reg w') n = Some x"
  by (auto simp: lock_ops split: if_splits)

lemma try_lock_busy: "try_lock i w = (r, w') \<Longrightarrow> gm_get (lw_reg w) (ml_name (lw_locks w i)) = Some x \<Longrightarrow>
    lw_now w < me_expire_at x \<Longrightarrow> r = Done False"
  by (auto simp: lock_ops split: if_splits)

lemma unlock_keeps: "unlock i w = (r, w') \<Longrightarrow> gm_get (lw_reg w) n = Some x \<Longrightarrow>
    me_value x \<noteq> ml_value (lw_locks w i) \<Longrightarrow> gm_get (lw_reg w') n = Some x"
  by (auto simp: lock_ops split: if_splits option.splits)

lemma renew_keeps:
  assumes "lock_inv w" "gm_get (lw_reg w) n = Some x"
  shows "\<exists>x'. gm_get (lw_reg (renew_tick i w)) n = Some x' \<and> me_value x' = me_value x \<and>
    me_expire_at x \<le> me_expire_at x'"
proof (cases "ml_name (lw_locks w i) = n \<and> me_value x = ml_value (lw_locks w i)")
  case True
  then show ?thesis
    using inv_entry [OF assms(1,2), of i] assms(2) by (simp add: renew_tick_def Let_def)
next
  case False
  then show ?thesis using assms(2) by (auto simp: renew_tick_def Let_def split: option.splits)
qed

lemma lock_step_keep:
  assumes "lock_step w a w'" "lock_inv w" "lock_owner n w = Some (t, e)" "lw_now w < e"
    "\<not> lock_releases w a t"
  shows "\<exists>e' \<ge> e. lock_owner n w' = Some (t, e')"
proof -
  obtain x where x: "gm_get (lw_reg w) n = Some x" "me_value x = t" "me_expire_at x = e"
    using assms(3) by (auto simp: owner_Some)
  have "\<exists>x'. gm_get (lw_reg w') n = Some x' \<and> me_value x' = t \<and> e \<le> me_expire_at x'"
    using assms(1)
  proof (cases rule: lock_step.cases)
    case (attempt i r)
    then show ?thesis using try_lock_keeps [OF attempt(2) x(1)] assms(4) x by simp
  next
    case (unlock i r)
    then show ?thesis using unlock_keeps [OF unlock(2) x(1)] assms(5) x by simp
  next
    case (renew i)
    then show ?thesis using renew_keeps [OF assms(2) x(1), of i] x by auto
  qed (use x in auto)
  then show ?thesis by (auto simp: owner_Some)
qed

interpretation mem_lease: lease lock_step lock_inv lw_now "lock_owner n" lock_releases
  "lock_acquires n" for n
proof
  show "lock_inv w'" if "lock_step w a w'" "lock_inv w" for w a w'
    using inv_step that by blast
  show "lw_now w \<le> lw_now w'" if "lock_step w a w'" for w a w'
    using that by (rule step_clock)
  show "\<exists>e' \<ge> e. lock_owner n w' = Some (t, e')"
    if "lock_step w a w'" "lock_inv w" "lock_owner n w = Some (t, e)" "lw_now w < e"
      "\<not> lock_releases w a t" for w a w' t e
    using that by (rule lock_step_keep)
  show "e \<le> lw_now w"
    if "lock_step w a w'" "lock_acquires n w a" "lock_owner n w = Some (t, e)" for w a w' t e
    using that by (cases rule: lock_step.cases)
      (auto simp: owner_Some not_less [symmetric] dest: try_lock_busy)
qed

text \<open>A run of the lock world is a run of the interface, each step with the world it starts in.\<close>

lemma run_is_run:
  "lock_run w as w' \<Longrightarrow> \<exists>bs. mem_lease.runs w bs w' \<and> map snd bs = as \<and>
     (\<forall>(u, a) \<in> set bs. \<forall>i. same_object (lw_locks w i) (lw_locks u i))"
proof (induction rule: lock_run.induct)
  case (nil w)
  then show ?case by (intro exI [of _ "[]"]) (simp add: mem_lease.runs.nil)
next
  case (cons w a w1 as w2)
  then obtain bs where bs: "mem_lease.runs w1 bs w2" "map snd bs = as"
    "\<forall>(u, a) \<in> set bs. \<forall>i. same_object (lw_locks w1 i) (lw_locks u i)" by blast
  then show ?case
    using mem_lease.runs.cons [OF cons.hyps(1) bs(1)] step_objects [OF cons.hyps(1)]
    by (intro exI [of _ "(w, a) # bs"]) (fastforce simp: same_object_def)
qed

subsection \<open>The attempts of the blocking Lock\<close>

text \<open>The world in which attempt \<open>k\<close> is made when every earlier one was refused.\<close>

fun retry_world :: "(nat \<Rightarrow> lock_world \<Rightarrow> lock_world) \<Rightarrow> lock_world \<Rightarrow> nat \<Rightarrow> lock_world" where
  "retry_world env w 0 = w"
| "retry_world env w (Suc k) = retry_world (\<lambda>j. env (Suc j)) (env 0 w) k"

lemma try_lock_False: "try_lock i w = (Done False, w') \<Longrightarrow> w' = w"
  by (auto simp: lock_ops split: if_splits)

lemma lock_loop_shift:
  "lock_loop env cancelled i (Suc k) n w =
     lock_loop (\<lambda>j. env (Suc j)) (\<lambda>j. cancelled (Suc j)) i k n w"
  by (induction n arbitrary: k w) (auto split: prod.splits outcome.splits bool.splits)

lemma no_earlier_Suc: "{j. j < Suc k \<and> Q j} = {} \<longleftrightarrow> \<not> Q 0 \<and> {j. j < k \<and> Q (Suc j)} = {}"
  using All_less_Suc2 [of k "\<lambda>j. \<not> Q j"] by auto

lemma lock_loop_acquired:
  "fst (lock_loop env cancelled i 0 n w) = Done Acquired \<longleftrightarrow>
     (\<exists>k < n. fst (try_lock i (retry_world env w k)) = Done True \<and>
        {j. j < k \<and> (fst (try_lock i (retry_world env w j)) \<noteq> Done False \<or> cancelled j)} = {})"
proof (induction n arbitrary: env cancelled w)
  case 0
  then show ?case by simp
next
  case (Suc n)
  obtain r w' where t: "try_lock i w = (r, w')" by fastforce
  show ?case
  proof (cases "r = Done False \<and> \<not> cancelled 0")
    case True
    then have "w' = w" using t try_lock_False by blast
    then show ?thesis
      using True t Suc.IH [of "\<lambda>j. env (Suc j)" "\<lambda>j. cancelled (Suc j)" "env 0 w"]
      by (simp add: lock_loop_shift Ex_less_Suc2 no_earlier_Suc del: Collect_empty_eq)
  next
    case False
    then show ?thesis
      using t by (auto simp: Ex_less_Suc2 no_earlier_Suc simp del: Collect_empty_eq
          split: outcome.splits bool.splits)
  qed
qed

subsection \<open>The stop channel of an auto-renewing lock\<close>

lemma step_closed: "lock_step w a w' \<Longrightarrow> ml_stop_closed (lw_locks w i) \<Longrightarrow>
    ml_stop_closed (lw_locks w' i)"
  by (erule lock_stepE) (auto simp: lock_ops split: option.splits if_splits)

lemma run_closed: "lock_run w as w' \<Longrightarrow> ml_stop_closed (lw_locks w i) \<Longrightarrow>
    ml_stop_closed (lw_locks w' i)"
  by (induction rule: lock_run.induct) (auto dest: step_closed)

lemma unlock_closes: "unlock i w = (Done (), w') \<Longrightarrow> ml_locked (lw_locks w i) \<Longrightarrow>
    lc_auto_renew (ml_config (lw_locks w i)) \<Longrightarrow> ml_stop_closed (lw_locks w' i)"
  by (auto simp: unlock_def Let_def split: if_splits option.splits)

lemma try_lock_True:
  assumes "try_lock i w = (Done True, w')"
  shows "gm_get (lw_reg w') (ml_name (lw_locks w i)) =
      Some \<lparr>me_value = ml_value (lw_locks w i),
            me_expire_at = lw_now w + lc_ttl (ml_config (lw_locks w i))\<rparr>"
    and "lw_locks w' i = (lw_locks w i)\<lparr>ml_locked := True\<rparr>" "lw_now w' = lw_now w"
  using assms by (auto simp: lock_ops split: if_splits)

subsection \<open>Sample world for the witnesses\<close>

text \<open>Two lock objects for each name, with tokens of different lengths; \<open>renew\<close> switches
  their auto-renewal.\<close>

definition sample_lock :: "bool \<Rightarrow> nat \<Rightarrow> mem_lock" where
  "sample_lock renew i = new_memory_lock (replicate i CHR ''u'') ''job''
     [with_ttl (10 * second), with_auto_renew renew]"

definition sample_world :: "bool \<Rightarrow> lock_world" where
  "sample_world renew =
     \<lparr>lw_now = 0, lw_reg = [], lw_locks = sample_lock renew, lw_renewers = []\<rparr>"

lemma sample_world_init: "lock_init (sample_world renew)"
  by (auto simp: lock_init_def sample_world_def sample_lock_def new_memory_lock_def inj_def
      dest: replicate_eq_replicate [THEN iffD1] arg_cong [of _ _ length])

lemmas sample_world_simps = sample_world_def sample_lock_def new_memory_lock_def
  default_lock_config_def with_ttl_def with_auto_renew_def duration_units

subsection \<open>Properties\<close>

text \<open>C4. Mutual exclusion while the lease runs: after a successful TryLock in any reachable
  world, whatever steps other goroutines take, as long as the holder does not Unlock and its
  TTL has not passed, the registry holds the holder's token with at least the original
  lease, and no TryLock of any object of that name succeeds.\<close>

theorem lock_mutual_exclusion:
  assumes "lock_init w0" "lock_run w0 as0 w" "try_lock i w = (Done True, w1)"
    "lock_run w1 as w2" "lw_now w2 < lw_now w + lc_ttl (ml_config (lw_locks w i))"
    "Unlock i \<notin> set as"
  shows "(\<exists>e. gm_get (lw_reg w2) (ml_name (lw_locks w i)) = Some e \<and>
        me_value e = ml_value (lw_locks w i) \<and>
        lw_now w + lc_ttl (ml_config (lw_locks w i)) \<le> me_expire_at e) \<and>
    (\<forall>j. TryLock j True \<in> set as \<longrightarrow> ml_name (lw_locks w j) \<noteq> ml_name (lw_locks w i))"
proof -
  let ?n = "ml_name (lw_locks w i)" and ?t = "ml_value (lw_locks w i)"
  let ?e = "lw_now w + lc_ttl (ml_config (lw_locks w i))"
  have inv: "lock_inv w" by (rule lock_inv_run [OF assms(2) init_inv [OF assms(1)]])
  have "lock_step w (TryLock i True) w1"
    using lock_step.attempt [OF assms(3)] by simp
  then have inv1: "lock_inv w1" and same1: "\<And>j. same_object (lw_locks w j) (lw_locks w1 j)"
    using inv_step [OF inv] step_objects by blast+
  obtain bs where bs: "mem_lease.runs w1 bs w2" "map snd bs = as"
    "\<forall>(u, a) \<in> set bs. \<forall>j. same_object (lw_locks w1 j) (lw_locks u j)"
    using run_is_run [OF assms(4)] by blast
  have own: "lock_owner ?n w1 = Some (?t, ?e)"
    using try_lock_True(1) [OF assms(3)] by (simp add: owner_Some)
  have quiet: "\<forall>(u, a) \<in> set bs. \<not> lock_releases u a ?t"
  proof (clarify)
    fix u a assume ua: "(u, a) \<in> set bs" "lock_releases u a ?t"
    then obtain j where j: "a = Unlock j" "ml_value (lw_locks u j) = ?t" by (cases a) auto
    then have "ml_value (lw_locks w j) = ?t"
      using bs(3) ua(1) same1 [of j] by (auto simp: same_object_def)
    then have "Unlock i \<in> snd ` set bs"
      using j ua(1) inv_tokens [OF inv, of j i] by (metis image_eqI snd_conv)
    then show False using assms(6) bs(2) by (metis set_map)
  qed
  have "(\<exists>e' \<ge> ?e. lock_owner ?n w2 = Some (?t, e')) \<and> (\<forall>(u, a) \<in> set bs. \<not> lock_acquires ?n u a)"
    by (rule mem_lease.lease_holds [OF bs(1) inv1 own assms(5) quiet])
  moreover have "\<exists>u. (u, TryLock j True) \<in> set bs \<and> ml_name (lw_locks u j) = ml_name (lw_locks w j)"
    if "TryLock j True \<in> set as" for j
    using that bs(2,3) same1 [of j] by (fastforce simp: same_object_def)
  ultimately show ?thesis by (fastforce simp: owner_Some)
qed

theorem lock_mutual_exclusion_witness:
  "fst (try_lock 1 (sample_world False)) = Done True \<and>
   (\<exists>e. gm_get (lw_reg (snd (try_lock 1 (sample_world False)))) ''job'' = Some e \<and>
        me_value e = ''u'')"
proof -
  have t: "try_lock 1 (sample_world False) = (Done True, snd (try_lock 1 (sample_world False)))"
    by (simp add: try_lock_def sample_world_simps)
  have n: "lw_now (snd (try_lock 1 (sample_world False))) <
      lw_now (sample_world False) + lc_ttl (ml_config (lw_locks (sample_world False) 1))"
    by (simp add: try_lock_def sample_world_simps)
  show ?thesis
    using lock_mutual_exclusion [OF sample_world_init lock_run.nil t lock_run.nil n] t
    by (auto simp: sample_world_simps prod_eq_iff)
qed

text \<open>Unlock changes the registry only by deleting the entry of its own name, and only
  when the object is locked, its stop channel has not been closed before, and the entry still
  holds its token: it never releases a lease another holder has taken.\<close>

theorem unlock_removes_only_own_entry:
  "gm_get (lw_reg (snd (unlock i w))) n =
     (let l = lw_locks w i in
      if ml_locked l \<and> \<not> (lc_auto_renew (ml_config l) \<and> ml_stop_closed l) \<and> n = ml_name l \<and>
         map_option me_value (gm_get (lw_reg w) n) = Some (ml_value l)
      then None else gm_get (lw_reg w) n)"
  by (auto simp: unlock_def Let_def split: option.splits)

text \<open>Lock acquires exactly when some attempt below the configured number of retries
  finds the lock free after waits none of which was cancelled; with a number of retries that
  is not positive it never tries.\<close>

theorem lock_acquires_iff_some_attempt:
  "fst (lock_acquire env cancelled i w) = Done Acquired \<longleftrightarrow>
     (\<exists>k. k < nat (lc_retry (ml_config (lw_locks w i))) \<and>
        fst (try_lock i (retry_world env w k)) = Done True \<and>
        {j. j < k \<and> \<not> (fst (try_lock i (retry_world env w j)) = Done False \<and> \<not> cancelled j)} = {})"
  using lock_loop_acquired [of env cancelled i "nat (lc_retry (ml_config (lw_locks w i)))" w]
  by (simp add: lock_acquire_def)

lemma auto_renew_lock_is_single_use_parts:
  assumes "ml_locked (lw_locks w i)" "lc_auto_renew (ml_config (lw_locks w i))"
    "unlock i w = (Done (), w1)" "lock_run w1 as w2" "try_lock i w2 = (Done True, w3)"
  shows "fst (unlock i w3) = Panic ''close of closed channel''"
    "gm_get (lw_reg (snd (unlock i w3))) (ml_name (lw_locks w2 i)) =
       Some \<lparr>me_value = ml_value (lw_locks w2 i),
             me_expire_at = lw_now w2 + lc_ttl (ml_config (lw_locks w2 i))\<rparr>"
proof -
  have "lock_step w (Unlock i) w1" by (rule lock_step.unlock [OF assms(3)])
  then have "same_object (lw_locks w i) (lw_locks w2 i)"
    using run_objects [OF assms(4), of i] step_objects by (fastforce simp: same_object_def)
  then have renew: "lc_auto_renew (ml_config (lw_locks w2 i))"
    using assms(2) by (simp add: same_object_def)
  have closed: "ml_stop_closed (lw_locks w2 i)"
    by (rule run_closed [OF assms(4) unlock_closes [OF assms(3,1,2)]])
  note t = try_lock_True [OF assms(5)]
  show "fst (unlock i w3) = Panic ''close of closed channel''"
    using renew closed by (simp add: unlock_def t(2))
  show "gm_get (lw_reg (snd (unlock i w3))) (ml_name (lw_locks w2 i)) =
       Some \<lparr>me_value = ml_value (lw_locks w2 i),
             me_expire_at = lw_now w2 + lc_ttl (ml_config (lw_locks w2 i))\<rparr>"
    using renew closed t(1) by (simp add: unlock_def t(2))
qed

text \<open>An auto-renewing lock object works once: after an Unlock of it that returned
  normally, and any further steps, its next successful TryLock leaves it in a state in which
  Unlock panics on the closed stop channel and the registry keeps its entry, so the name
  stays locked until the TTL has passed.\<close>

theorem auto_renew_lock_is_single_use:
  assumes "ml_locked (lw_locks w i)" "lc_auto_renew (ml_config (lw_locks w i))"
    "unlock i w = (Done (), w1)" "lock_run w1 as w2" "try_lock i w2 = (Done True, w3)"
  shows "fst (unlock i w3) = Panic ''close of closed channel'' \<and>
    gm_get (lw_reg (snd (unlock i w3))) (ml_name (lw_locks w2 i)) =
       Some \<lparr>me_value = ml_value (lw_locks w2 i),
             me_expire_at = lw_now w2 + lc_ttl (ml_config (lw_locks w2 i))\<rparr>"
  using auto_renew_lock_is_single_use_parts [OF assms] by blast

theorem auto_renew_lock_is_single_use_witness:
  "let w = snd (try_lock 1 (sample_world True)); w1 = snd (unlock 1 w); w3 = snd (try_lock 1 w1)
   in fst (unlock 1 w3) = Panic ''close of closed channel''"
proof -
  let ?w = "snd (try_lock 1 (sample_world True))"
  have "unlock 1 ?w = (Done (), snd (unlock 1 ?w))"
    "try_lock 1 (snd (unlock 1 ?w)) = (Done True, snd (try_lock 1 (snd (unlock 1 ?w))))"
    "ml_locked (lw_locks ?w 1)" "lc_auto_renew (ml_config (lw_locks ?w 1))"
    by (simp_all add: lock_ops sample_world_simps)
  then show ?thesis
    using auto_renew_lock_is_single_use [of ?w 1, OF _ _ _ lock_run.nil] by (simp add: Let_def)
qed

end
