(* ===== verification/LruCache.thy ===== *)
theory LruCache
  imports Prelude Complex_Main
begin

text \<open>
  The LRU cache with expirations (\<open>tools/cache/cache.go\<close>): the map from keys to elements of
  the recency list, the list itself (front first, every element with the identity Go's
  \<open>*list.Element\<close> gives it), the optional capacity, and the state of the clean-up
  goroutines. Every operation runs under the cache's mutex, so it is one function of the
  cache and of the time at which it runs. \<open>recency_list\<close> is the abstract cache: the pairs
  of key and item, most recently used first; the operations are shown to implement the
  abstract ones.
\<close>

subsection \<open>Values and items\<close>

datatype cache_value =
    VInt int | VInt64 int | VInt32 int | VFloat rat | VString string | VBytes string
  | VOther string

text \<open>\<open>strconv.ParseUint(s, 10, 64)\<close> and \<open>ParseInt\<close>: digits are read until the number leaves
  the 64-bit range or a character is not a digit.\<close>

datatype uint_result = UOk int | USyntax | URange

definition digit_val :: "char \<Rightarrow> int option" where
  "digit_val c = (let n = of_char c :: int in if 48 \<le> n \<and> n \<le> 57 then Some (n - 48) else None)"

fun parse_digits :: "int \<Rightarrow> string \<Rightarrow> uint_result" where
  "parse_digits n [] = UOk n"
| "parse_digits n (c # cs) =
     (case digit_val c of
        None \<Rightarrow> USyntax
      | Some d \<Rightarrow> if 10 * n + d \<ge> 2 ^ 64 then URange else parse_digits (10 * n + d) cs)"

definition parse_uint :: "string \<Rightarrow> uint_result" where
  "parse_uint s = (if s = [] then USyntax else parse_digits 0 s)"

text \<open>The value that \<open>i, _ := strconv.ParseInt(s, 10, 64)\<close> leaves in \<open>i\<close>.\<close>

definition signed_value :: "bool \<Rightarrow> uint_result \<Rightarrow> int" where
  "signed_value neg u =
     (case u of
        USyntax \<Rightarrow> 0
      | URange \<Rightarrow> if neg then - (2 ^ 63) else 2 ^ 63 - 1
      | UOk n \<Rightarrow> if neg then max (- (2 ^ 63)) (- n) else min (2 ^ 63 - 1) n)"

definition parse_int64 :: "string \<Rightarrow> int" where
  "parse_int64 s =
     (case s of
        [] \<Rightarrow> 0
      | c # cs \<Rightarrow> if c = CHR ''-'' then signed_value True (parse_uint cs)
                  else if c = CHR ''+'' then signed_value False (parse_uint cs)
                  else signed_value False (parse_uint s))"

text \<open>A float is truncated towards zero; outside the range of \<open>int64\<close> the result is left to
  the implementation (the parameter \<open>oob\<close>).\<close>

definition truncate_rat :: "rat \<Rightarrow> int" where
  "truncate_rat q = (if 0 \<le> q then \<lfloor>q\<rfloor> else \<lceil>q\<rceil>)"

fun to_int64 :: "(rat \<Rightarrow> int) \<Rightarrow> cache_value \<Rightarrow> int" where
  "to_int64 oob (VInt n) = n"
| "to_int64 oob (VInt64 n) = n"
| "to_int64 oob (VInt32 n) = n"
| "to_int64 oob (VFloat q) = (if fits64 (truncate_rat q) then truncate_rat q else oob q)"
| "to_int64 oob (VString s) = parse_int64 s"
| "to_int64 oob (VBytes s) = 0"
| "to_int64 oob (VOther s) = 0"

record cache_item =
  ci_value :: cache_value
  ci_expiration :: int
  ci_access_time :: int

text \<open>\<open>now.Add(d).UnixNano()\<close> wraps around outside the 64-bit range.\<close>

definition expiration_at :: "time \<Rightarrow> duration \<Rightarrow> int" where
  "expiration_at now d = wrap64 (now + d)"

definition is_expired :: "time \<Rightarrow> cache_item \<Rightarrow> bool" where
  "is_expired now it = (if ci_expiration it = 0 then False else now > ci_expiration it)"

subsection \<open>The cache\<close>

record lru_entry =
  le_key :: string
  le_item :: cache_item

text \<open>A clean-up goroutine is about to evaluate its select (None), or waits in it for its
  ticker and for the stop channel it read (Some).\<close>

record lru_cache =
  lru_items :: "(string, nat) gomap"
  lru_list :: "(nat \<times> lru_entry) list"
  lru_capacity :: int
  lru_next :: nat
  lru_stop_chan :: "nat option"
  lru_stopped :: bool
  lru_closed :: "nat list"
  lru_chans :: nat
  lru_cleaners :: "nat option list"

definition new_lru_cache :: "int \<Rightarrow> lru_cache" where
  "new_lru_cache cap =
     \<lparr>lru_items = [], lru_list = [], lru_capacity = cap, lru_next = 0,
      lru_stop_chan = None, lru_stopped = False, lru_closed = [], lru_chans = 0,
      lru_cleaners = []\<rparr>"

definition new_global_cache :: lru_cache where
  "new_global_cache = new_lru_cache 0"

definition new_global_cache_with_capacity :: "int \<Rightarrow> lru_cache" where
  "new_global_cache_with_capacity cap = new_lru_cache cap"

definition new_goroutine_cache :: lru_cache where
  "new_goroutine_cache = new_lru_cache 0"

definition new_goroutine_cache_with_capacity :: "int \<Rightarrow> lru_cache" where
  "new_goroutine_cache_with_capacity cap = new_lru_cache cap"

text \<open>Package \<open>container/list\<close>: an element is found by its identity.\<close>

definition push_front :: "lru_entry \<Rightarrow> lru_cache \<Rightarrow> lru_cache" where
  "push_front en c =
     c\<lparr>lru_list := (lru_next c, en) # lru_list c,
       lru_items := gm_put (le_key en) (lru_next c) (lru_items c), lru_next := Suc (lru_next c)\<rparr>"

definition move_to_front :: "nat \<Rightarrow> lru_cache \<Rightarrow> lru_cache" where
  "move_to_front e c =
     (case map_of (lru_list c) e of
        None \<Rightarrow> c
      | Some en \<Rightarrow> c\<lparr>lru_list := (e, en) # AList.delete e (lru_list c)\<rparr>)"

text \<open>\<open>entry.value = item\<close> through the pointer the element holds.\<close>

definition write_item :: "nat \<Rightarrow> cache_item \<Rightarrow> lru_cache \<Rightarrow> lru_cache" where
  "write_item e it c =
     c\<lparr>lru_list := map (\<lambda>(e', en). (e', if e' = e then en\<lparr>le_item := it\<rparr> else en)) (lru_list c)\<rparr>"

definition remove_element :: "nat \<Rightarrow> lru_cache \<Rightarrow> lru_cache" where
  "remove_element e c =
     (case map_of (lru_list c) e of
        None \<Rightarrow> c
      | Some en \<Rightarrow> c\<lparr>lru_items := gm_del (le_key en) (lru_items c),
                     lru_list := AList.delete e (lru_list c)\<rparr>)"

definition evict :: "lru_cache \<Rightarrow> lru_cache" where
  "evict c = (if lru_list c = [] then c else remove_element (fst (last (lru_list c))) c)"

definition over_capacity :: "lru_cache \<Rightarrow> bool" where
  "over_capacity c \<longleftrightarrow> lru_capacity c > 0 \<and> int (length (lru_list c)) > lru_capacity c"

definition set_with_expiration :: "time \<Rightarrow> string \<Rightarrow> cache_value \<Rightarrow> duration \<Rightarrow>
    lru_cache \<Rightarrow> lru_cache" where
  "set_with_expiration now key v d c =
     (let exp = (if d > 0 then expiration_at now d else 0);
          item = \<lparr>ci_value = v, ci_expiration = exp, ci_access_time = now\<rparr>
      in case gm_get (lru_items c) key of
           Some e \<Rightarrow> move_to_front e (write_item e item c)
         | None \<Rightarrow>
             let c' = push_front \<lparr>le_key = key, le_item = item\<rparr> c
             in if over_capacity c' then evict c' else c')"

definition lru_set :: "time \<Rightarrow> string \<Rightarrow> cache_value \<Rightarrow> lru_cache \<Rightarrow> lru_cache" where
  "lru_set now key v c = set_with_expiration now key v 0 c"

definition item_of :: "nat \<Rightarrow> lru_cache \<Rightarrow> cache_item option" where
  "item_of e c = map_option le_item (map_of (lru_list c) e)"

definition lru_get :: "time \<Rightarrow> string \<Rightarrow> lru_cache \<Rightarrow> cache_value option \<times> lru_cache" where
  "lru_get now key c =
     (case gm_get (lru_items c) key of
        None \<Rightarrow> (None, c)
      | Some e \<Rightarrow>
          (case item_of e c of
             None \<Rightarrow> (None, c)
           | Some it \<Rightarrow>
               if is_expired now it then (None, remove_element e c)
               else (Some (ci_value it),
                     move_to_front e (write_item e (it\<lparr>ci_access_time := now\<rparr>) c))))"

definition lru_delete :: "string \<Rightarrow> lru_cache \<Rightarrow> lru_cache" where
  "lru_delete key c =
     (case gm_get (lru_items c) key of None \<Rightarrow> c | Some e \<Rightarrow> remove_element e c)"

text \<open>The second half of \<open>Incr\<close>, reached when the key is absent or was just removed.\<close>

definition incr_fresh :: "time \<Rightarrow> string \<Rightarrow> duration \<Rightarrow> lru_cache \<Rightarrow> int \<times> lru_cache" where
  "incr_fresh now key ttl c =
     (let item = \<lparr>ci_value = VInt64 1,
                  ci_expiration = (if ttl > 0 then expiration_at now ttl else 0),
                  ci_access_time = now\<rparr>;
          c' = push_front \<lparr>le_key = key, le_item = item\<rparr> c
      in (1, if over_capacity c' then evict c' else c'))"

definition lru_incr :: "(rat \<Rightarrow> int) \<Rightarrow> time \<Rightarrow> string \<Rightarrow> duration \<Rightarrow> lru_cache \<Rightarrow>
    int \<times> lru_cache" where
  "lru_incr oob now key ttl c =
     (case gm_get (lru_items c) key of
        None \<Rightarrow> incr_fresh now key ttl c
      | Some e \<Rightarrow>
          (case item_of e c of
             None \<Rightarrow> incr_fresh now key ttl c
           | Some it \<Rightarrow>
               if is_expired now it then incr_fresh now key ttl (remove_element e c)
               else
                 let n = wrap64 (to_int64 oob (ci_value it) + 1);
                     it' = it\<lparr>ci_value := VInt64 n,
                              ci_expiration := (if ttl > 0 then expiration_at now ttl
                                                else ci_expiration it),
                              ci_access_time := now\<rparr>
                 in (n, move_to_front e (write_item e it' c))))"

definition lru_clear :: "lru_cache \<Rightarrow> lru_cache" where
  "lru_clear c = c\<lparr>lru_items := [], lru_list := []\<rparr>"

definition lru_size :: "lru_cache \<Rightarrow> int" where
  "lru_size c = int (length (lru_list c))"

definition lru_keys :: "lru_cache \<Rightarrow> string list" where
  "lru_keys c = map (\<lambda>(e, en). le_key en) (lru_list c)"

text \<open>The loop of \<open>CleanupExpired\<close> visits the elements from the back; it reads the previous
  element before it removes the current one, so it visits those that were there.\<close>

fun cleanup_loop :: "time \<Rightarrow> nat list \<Rightarrow> lru_cache \<Rightarrow> lru_cache" where
  "cleanup_loop now [] c = c"
| "cleanup_loop now (e # es) c =
     (case item_of e c of
        None \<Rightarrow> cleanup_loop now es c
      | Some it \<Rightarrow> if ci_expiration it > 0 \<and> now > ci_expiration it
                   then cleanup_loop now es (remove_element e c) else cleanup_loop now es c)"

definition cleanup_expired :: "time \<Rightarrow> lru_cache \<Rightarrow> lru_cache" where
  "cleanup_expired now c = cleanup_loop now (rev (map fst (lru_list c))) c"

definition get_capacity :: "lru_cache \<Rightarrow> int" where
  "get_capacity c = lru_capacity c"

text \<open>Every eviction shortens the list, so the loop of \<open>SetCapacity\<close> ends.\<close>

lemma delete_shorter: "e \<in> fst ` set xs \<Longrightarrow> length (AList.delete e xs) < length xs"
  by (induction xs) (auto simp: length_delete_le le_imp_less_Suc)

lemma evict_shorter: "lru_list c \<noteq> [] \<Longrightarrow> length (lru_list (evict c)) < length (lru_list c)"
proof -
  assume ne: "lru_list c \<noteq> []"
  then have "fst (last (lru_list c)) \<in> fst ` set (lru_list c)" by simp
  moreover from this obtain en where "map_of (lru_list c) (fst (last (lru_list c))) = Some en"
    by (metis map_of_eq_None_iff not_None_eq)
  ultimately show ?thesis
    using ne delete_shorter by (fastforce simp: evict_def remove_element_def)
qed

function evict_loop :: "lru_cache \<Rightarrow> lru_cache" where
  "evict_loop c = (if over_capacity c then evict_loop (evict c) else c)"
  by pat_completeness auto

termination evict_loop
  by (relation "measure (\<lambda>c. length (lru_list c))")
    (auto simp: over_capacity_def intro!: evict_shorter)

declare evict_loop.simps [simp del]

definition set_capacity :: "int \<Rightarrow> lru_cache \<Rightarrow> lru_cache" where
  "set_capacity cap c = evict_loop (c\<lparr>lru_capacity := cap\<rparr>)"

subsection \<open>The clean-up goroutines\<close>

definition start_cleanup :: "lru_cache \<Rightarrow> lru_cache" where
  "start_cleanup c =
     (if lru_stop_chan c \<noteq> None \<and> \<not> lru_stopped c then c
      else c\<lparr>lru_stop_chan := Some (lru_chans c), lru_chans := Suc (lru_chans c),
             lru_stopped := False, lru_cleaners := lru_cleaners c @ [None]\<rparr>)"

definition stop_cleanup :: "lru_cache \<Rightarrow> lru_cache" where
  "stop_cleanup c =
     (case lru_stop_chan c of
        Some ch \<Rightarrow> if \<not> lru_stopped c
                   then c\<lparr>lru_closed := ch # lru_closed c, lru_stopped := True\<rparr> else c
      | None \<Rightarrow> c)"

text \<open>The steps of goroutine \<open>g\<close>: it evaluates its select, reading the cache's stop channel;
  its ticker fires; it sees its channel closed and returns.\<close>

definition cleaner_select :: "nat \<Rightarrow> lru_cache \<Rightarrow> lru_cache" where
  "cleaner_select g c = c\<lparr>lru_cleaners := (lru_cleaners c)[g := lru_stop_chan c]\<rparr>"

definition cleaner_tick :: "time \<Rightarrow> nat \<Rightarrow> lru_cache \<Rightarrow> lru_cache" where
  "cleaner_tick now g c = (cleanup_expired now c)\<lparr>lru_cleaners := (lru_cleaners c)[g := None]\<rparr>"

definition cleaner_exit :: "nat \<Rightarrow> lru_cache \<Rightarrow> lru_cache" where
  "cleaner_exit g c = c\<lparr>lru_cleaners := take g (lru_cleaners c) @ drop (Suc g) (lru_cleaners c)\<rparr>"

subsection \<open>The cache of a context\<close>

text \<open>A context is nil, or it carries a \<open>GoroutineCache\<close> under the package's key, or not. A
  ContextCache without a cache drops writes and finds nothing.\<close>

type_synonym cache_ctx = "lru_cache option option"

definition get_cache :: "cache_ctx \<Rightarrow> lru_cache option" where
  "get_cache ctx = (case ctx of None \<Rightarrow> None | Some v \<Rightarrow> v)"

definition with_cache :: "cache_ctx \<Rightarrow> cache_ctx outcome" where
  "with_cache ctx =
     (case ctx of
        None \<Rightarrow> Panic ''cannot create context from nil parent''
      | Some v \<Rightarrow> Done (Some (Some new_goroutine_cache)))"

definition with_cache_capacity :: "int \<Rightarrow> cache_ctx \<Rightarrow> cache_ctx outcome" where
  "with_cache_capacity cap ctx =
     (case ctx of
        None \<Rightarrow> Panic ''cannot create context from nil parent''
      | Some v \<Rightarrow> Done (Some (Some (new_goroutine_cache_with_capacity cap))))"

text \<open>Running an operation on the cache the context leads to, with the answer for no cache.\<close>

definition on_ctx :: "'r \<Rightarrow> (lru_cache \<Rightarrow> 'r \<times> lru_cache) \<Rightarrow> cache_ctx \<Rightarrow> 'r \<times> cache_ctx" where
  "on_ctx dflt f ctx =
     (case get_cache ctx of
        None \<Rightarrow> (dflt, ctx)
      | Some c \<Rightarrow> (case f c of (r, c') \<Rightarrow> (r, Some (Some c'))))"

definition ctx_set_with_expiration :: "time \<Rightarrow> string \<Rightarrow> cache_value \<Rightarrow> duration \<Rightarrow>
    cache_ctx \<Rightarrow> cache_ctx" where
  "ctx_set_with_expiration now k v d ctx =
     snd (on_ctx () (\<lambda>c. ((), set_with_expiration now k v d c)) ctx)"

definition ctx_set :: "time \<Rightarrow> string \<Rightarrow> cache_value \<Rightarrow> cache_ctx \<Rightarrow> cache_ctx" where
  "ctx_set now k v ctx = ctx_set_with_expiration now k v 0 ctx"

definition ctx_get :: "time \<Rightarrow> string \<Rightarrow> cache_ctx \<Rightarrow> cache_value option \<times> cache_ctx" where
  "ctx_get now k ctx = on_ctx None (lru_get now k) ctx"

definition ctx_delete :: "string \<Rightarrow> cache_ctx \<Rightarrow> cache_ctx" where
  "ctx_delete k ctx = snd (on_ctx () (\<lambda>c. ((), lru_delete k c)) ctx)"

definition ctx_clear :: "cache_ctx \<Rightarrow> cache_ctx" where
  "ctx_clear ctx = snd (on_ctx () (\<lambda>c. ((), lru_clear c)) ctx)"

definition ctx_size :: "cache_ctx \<Rightarrow> int" where
  "ctx_size ctx = fst (on_ctx 0 (\<lambda>c. (lru_size c, c)) ctx)"

definition ctx_keys :: "cache_ctx \<Rightarrow> string list" where
  "ctx_keys ctx = fst (on_ctx [] (\<lambda>c. (lru_keys c, c)) ctx)"

definition ctx_cleanup_expired :: "time \<Rightarrow> cache_ctx \<Rightarrow> cache_ctx" where
  "ctx_cleanup_expired now ctx = snd (on_ctx () (\<lambda>c. ((), cleanup_expired now c)) ctx)"

definition ctx_capacity :: "cache_ctx \<Rightarrow> int" where
  "ctx_capacity ctx = fst (on_ctx 0 (\<lambda>c. (get_capacity c, c)) ctx)"

definition ctx_set_capacity :: "int \<Rightarrow> cache_ctx \<Rightarrow> cache_ctx" where
  "ctx_set_capacity cap ctx = snd (on_ctx () (\<lambda>c. ((), set_capacity cap c)) ctx)"

subsection \<open>Well-formedness and the recency list\<close>

abbreviation key_ids :: "(nat \<times> lru_entry) list \<Rightarrow> (string \<times> nat) list" where
  "key_ids xs \<equiv> map (\<lambda>(e, en). (le_key en, e)) xs"

abbreviation key_items :: "(nat \<times> lru_entry) list \<Rightarrow> (string \<times> cache_item) list" where
  "key_items xs \<equiv> map (\<lambda>(e, en). (le_key en, le_item en)) xs"

definition recency_list :: "lru_cache \<Rightarrow> (string \<times> cache_item) list" where
  "recency_list c = key_items (lru_list c)"

text \<open>No element and no key is twice in the list, and the map leads exactly to the elements
  of the list; outside an operation the list respects the capacity.\<close>

definition linked :: "lru_cache \<Rightarrow> bool" where
  "linked c \<longleftrightarrow> distinct (map fst (lru_list c)) \<and>
     distinct (map (\<lambda>(e, en). le_key en) (lru_list c)) \<and> gm_ok (lru_items c) \<and>
     (\<forall>k. gm_get (lru_items c) k = map_of (key_ids (lru_list c)) k) \<and>
     (\<forall>e \<in> fst ` set (lru_list c). e < lru_next c)"

definition lru_wf :: "lru_cache \<Rightarrow> bool" where
  "lru_wf c \<longleftrightarrow> linked c \<and> \<not> over_capacity c"

lemma linkedD:
  assumes "linked c"
  shows "distinct (map fst (lru_list c))" "distinct (map (\<lambda>(e, en). le_key en) (lru_list c))"
    "gm_ok (lru_items c)" "gm_get (lru_items c) k = map_of (key_ids (lru_list c)) k"
    "e \<in> fst ` set (lru_list c) \<Longrightarrow> e < lru_next c"
  using assms by (auto simp: linked_def)

text \<open>An element found through its key.\<close>

lemma found_element:
  "distinct (map fst xs) \<Longrightarrow> distinct (map (\<lambda>(e, en). le_key en) xs) \<Longrightarrow>
   map_of (key_ids xs) k = Some e \<Longrightarrow>
     \<exists>en. map_of xs e = Some en \<and> le_key en = k \<and> map_of (key_items xs) k = Some (le_item en) \<and>
       key_items (AList.delete e xs) = AList.delete k (key_items xs) \<and>
       key_ids (AList.delete e xs) = AList.delete k (key_ids xs)"
proof (induction xs)
  case Nil
  then show ?case by simp
next
  case (Cons x xs)
  obtain e' en' where x: "x = (e', en')" by (cases x)
  have id: "AList.delete e' xs = xs"
    "AList.delete (le_key en') (key_items xs) = key_items xs"
    "AList.delete (le_key en') (key_ids xs) = key_ids xs"
    using Cons.prems(1,2) by (force simp: x intro!: delete_id)+
  show ?case
  proof (cases "le_key en' = k")
    case True
    then show ?thesis using Cons.prems(3) id by (simp add: x)
  next
    case False
    then have at: "map_of (key_ids xs) k = Some e" using Cons.prems(3) by (simp add: x)
    then have "e \<in> fst ` set xs" by (force dest: map_of_SomeD)
    then have "e' \<noteq> e" using Cons.prems(1) by (auto simp: x)
    then show ?thesis
      using Cons.IH [OF _ _ at] Cons.prems(1,2) False by (auto simp: x)
  qed
qed

lemma absent_key: "map_of (key_ids xs) k = None \<longleftrightarrow> map_of (key_items xs) k = None"
  by (induction xs) auto

lemma distinct_keys_delete:
  "distinct (map (\<lambda>(e, en). le_key en) xs) \<Longrightarrow>
   distinct (map (\<lambda>(e, en). le_key en) (AList.delete e xs))"
  by (auto simp: AList.delete_eq intro: distinct_filter_map)

lemma remove_element_linked:
  assumes "linked c" "gm_get (lru_items c) k = Some e"
  shows "linked (remove_element e c) \<and>
    recency_list (remove_element e c) = AList.delete k (recency_list c)"
proof -
  note l = linkedD [OF assms(1)]
  have "map_of (key_ids (lru_list c)) k = Some e" using assms(2) l(4) by simp
  from found_element [OF l(1,2) this] obtain en where
    en: "map_of (lru_list c) e = Some en" "le_key en = k"
    "key_items (AList.delete e (lru_list c)) = AList.delete k (key_items (lru_list c))"
    "key_ids (AList.delete e (lru_list c)) = AList.delete k (key_ids (lru_list c))" by auto
  have "fst ` set (AList.delete e (lru_list c)) \<subseteq> fst ` set (lru_list c)"
    by (auto simp: AList.delete_eq)
  then show ?thesis
    using en l by (auto simp: remove_element_def linked_def recency_list_def distinct_delete
        distinct_keys_delete delete_conv')
qed

lemma key_items_write:
  "AList.delete e (map (\<lambda>(e', en). (e', if e' = e then en\<lparr>le_item := it\<rparr> else en)) xs) =
   AList.delete e xs"
  by (induction xs) auto

lemma map_of_write:
  "map_of (map (\<lambda>(e', en). (e', if e' = e then en\<lparr>le_item := it\<rparr> else en)) xs) e =
   map_option (\<lambda>en. en\<lparr>le_item := it\<rparr>) (map_of xs e)"
  by (induction xs) auto

lemma distinct_Cons_delete:
  "distinct (map f xs) \<Longrightarrow> x \<in> set xs \<Longrightarrow> f y = f x \<Longrightarrow>
   distinct (map f (y # filter (\<lambda>z. f z \<noteq> f x) xs))"
  by (auto simp: distinct_filter_map)

lemma touch_linked:
  assumes "linked c" "gm_get (lru_items c) k = Some e"
  shows "linked (move_to_front e (write_item e it c)) \<and>
    recency_list (move_to_front e (write_item e it c)) = (k, it) # AList.delete k (recency_list c)"
proof -
  note l = linkedD [OF assms(1)]
  have at: "map_of (key_ids (lru_list c)) k = Some e" using assms(2) l(4) by simp
  from found_element [OF l(1,2) this] obtain en where
    en: "map_of (lru_list c) e = Some en" "le_key en = k"
    "key_items (AList.delete e (lru_list c)) = AList.delete k (key_items (lru_list c))"
    "key_ids (AList.delete e (lru_list c)) = AList.delete k (key_ids (lru_list c))" by auto
  let ?xs = "AList.delete e (lru_list c)"
  have fresh: "e \<notin> fst ` set ?xs" by (rule delete_notin_dom)
  have "k \<notin> fst ` set (key_ids ?xs)" unfolding en(4) by (rule delete_notin_dom)
  then have fresh': "k \<notin> (\<lambda>(e, en). le_key en) ` set ?xs" by (force simp: image_iff)
  have below: "e < lru_next c" using en(1) l(5) by (force dest: map_of_SomeD)
  have sub: "\<forall>x \<in> fst ` set ?xs. x < lru_next c"
    using dom_delete_subset [of e "lru_list c"] l(5) by blast
  have eq: "lru_list (move_to_front e (write_item e it c)) = (e, en\<lparr>le_item := it\<rparr>) # ?xs"
    by (simp add: move_to_front_def write_item_def key_items_write map_of_write en(1))
  have rest: "lru_items (move_to_front e (write_item e it c)) = lru_items c"
    "lru_next (move_to_front e (write_item e it c)) = lru_next c"
    by (auto simp: move_to_front_def write_item_def split: option.splits)
  have look: "map_of (key_ids (lru_list (move_to_front e (write_item e it c)))) k' =
      map_of (key_ids (lru_list c)) k'" for k'
    using at by (simp add: eq en(2,4) delete_conv')
  show ?thesis
    unfolding linked_def look rest
    using l fresh fresh' below sub
    by (auto simp: eq en(2,3) recency_list_def distinct_delete distinct_keys_delete)
qed

lemma push_front_linked:
  assumes "linked c" "gm_get (lru_items c) (le_key en) = None"
  shows "linked (push_front en c) \<and>
    recency_list (push_front en c) = (le_key en, le_item en) # recency_list c"
proof -
  note l = linkedD [OF assms(1)]
  have "map_of (key_ids (lru_list c)) (le_key en) = None" using assms(2) l(4) by simp
  then have "le_key en \<notin> (\<lambda>(e, en). le_key en) ` set (lru_list c)"
    by (force simp: map_of_eq_None_iff image_iff)
  moreover have "lru_next c \<notin> fst ` set (lru_list c)" using l(5) by blast
  ultimately show ?thesis
    using l by (auto simp: push_front_def linked_def recency_list_def less_SucI)
qed

lemma evict_linked:
  assumes "linked c"
  shows "linked (evict c) \<and> recency_list (evict c) = butlast (recency_list c)"
proof (cases "lru_list c = []")
  case True
  then show ?thesis using assms by (simp add: evict_def recency_list_def)
next
  case False
  then obtain ys e en where xs: "lru_list c = ys @ [(e, en)]"
    by (metis append_butlast_last_id prod.collapse)
  note l = linkedD [OF assms]
  have fresh: "le_key en \<notin> fst ` set (key_items ys)" "le_key en \<notin> fst ` set (key_ids ys)"
    using l(2) by (force simp: xs)+
  have "map_of (key_ids ys) (le_key en) = None" using fresh(2) by (simp add: map_of_eq_None_iff)
  then have at: "gm_get (lru_items c) (le_key en) = Some e"
    using l(4) by (simp add: xs map_add_def)
  have "AList.delete (le_key en) (key_items ys) = key_items ys"
    using fresh(1) by (rule delete_id)
  then have "AList.delete (le_key en) (recency_list c) = butlast (recency_list c)"
    by (simp add: recency_list_def xs AList.delete_eq)
  then show ?thesis
    using remove_element_linked [OF assms at] by (simp add: evict_def xs)
qed

subsection \<open>The abstract cache\<close>

text \<open>The operations on the recency list: a capacity keeps the front of the list.\<close>

definition truncate_to :: "int \<Rightarrow> 'a list \<Rightarrow> 'a list" where
  "truncate_to cap xs = (if cap > 0 then take (nat cap) xs else xs)"

type_synonym recency = "(string \<times> cache_item) list"

definition spec_put :: "int \<Rightarrow> string \<Rightarrow> cache_item \<Rightarrow> recency \<Rightarrow> recency" where
  "spec_put cap k it xs = truncate_to cap ((k, it) # AList.delete k xs)"

definition spec_get :: "time \<Rightarrow> string \<Rightarrow> recency \<Rightarrow> cache_value option \<times> recency" where
  "spec_get now k xs =
     (case map_of xs k of
        None \<Rightarrow> (None, xs)
      | Some it \<Rightarrow>
          if is_expired now it then (None, AList.delete k xs)
          else (Some (ci_value it), (k, it\<lparr>ci_access_time := now\<rparr>) # AList.delete k xs))"

definition spec_count :: "(rat \<Rightarrow> int) \<Rightarrow> time \<Rightarrow> string \<Rightarrow> recency \<Rightarrow> int" where
  "spec_count oob now k xs =
     (case map_of xs k of
        None \<Rightarrow> 1
      | Some it \<Rightarrow> if is_expired now it then 1 else wrap64 (to_int64 oob (ci_value it) + 1))"

definition spec_deadline :: "time \<Rightarrow> string \<Rightarrow> duration \<Rightarrow> recency \<Rightarrow> int" where
  "spec_deadline now k ttl xs =
     (if ttl > 0 then expiration_at now ttl
      else case map_of xs k of
        None \<Rightarrow> 0 | Some it \<Rightarrow> if is_expired now it then 0 else ci_expiration it)"

definition spec_incr :: "(rat \<Rightarrow> int) \<Rightarrow> int \<Rightarrow> time \<Rightarrow> string \<Rightarrow> duration \<Rightarrow> recency \<Rightarrow>
    int \<times> recency" where
  "spec_incr oob cap now k ttl xs =
     (let n = spec_count oob now k xs in
      (n, spec_put cap k \<lparr>ci_value = VInt64 n, ci_expiration = spec_deadline now k ttl xs,
                          ci_access_time = now\<rparr> xs))"

definition spec_cleanup :: "time \<Rightarrow> recency \<Rightarrow> recency" where
  "spec_cleanup now xs =
     filter (\<lambda>(k, it). \<not> (ci_expiration it > 0 \<and> now > ci_expiration it)) xs"

subsection \<open>Every operation implements its abstract one\<close>

lemma element_ops_frame [frame_simps]:
  "lru_capacity (remove_element e c) = lru_capacity c"
  "lru_capacity (move_to_front e c) = lru_capacity c"
  "lru_capacity (write_item e it c) = lru_capacity c"
  "lru_capacity (push_front en c) = lru_capacity c"
  "lru_capacity (evict c) = lru_capacity c"
  by (auto simp: remove_element_def move_to_front_def write_item_def push_front_def evict_def
      split: option.splits)

lemma length_recency: "length (recency_list c) = length (lru_list c)"
  by (simp add: recency_list_def)

lemma not_over_capacity: "\<not> over_capacity c \<longleftrightarrow>
    (lru_capacity c > 0 \<longrightarrow> length (recency_list c) \<le> nat (lru_capacity c))"
  by (auto simp: over_capacity_def length_recency)

lemma truncate_id: "(cap > 0 \<longrightarrow> length xs \<le> nat cap) \<Longrightarrow> truncate_to cap xs = xs"
  by (simp add: truncate_to_def)

lemma linked_lookup:
  assumes "linked c"
  shows "gm_get (lru_items c) k = None \<longleftrightarrow> map_of (recency_list c) k = None"
    "gm_get (lru_items c) k = Some e \<Longrightarrow> item_of e c = map_of (recency_list c) k"
    "gm_get (lru_items c) k = Some e \<Longrightarrow> \<exists>it. map_of (recency_list c) k = Some it"
proof -
  note l = linkedD [OF assms]
  show "gm_get (lru_items c) k = None \<longleftrightarrow> map_of (recency_list c) k = None"
    unfolding l(4) recency_list_def by (rule absent_key)
  assume "gm_get (lru_items c) k = Some e"
  then have "map_of (key_ids (lru_list c)) k = Some e" by (simp add: l(4))
  from found_element [OF l(1,2) this]
  show "item_of e c = map_of (recency_list c) k" "\<exists>it. map_of (recency_list c) k = Some it"
    by (auto simp: item_of_def recency_list_def)
qed

lemma recency_distinct: "linked c \<Longrightarrow> distinct (map fst (recency_list c))"
  using linkedD(2) [of c] by (simp add: recency_list_def comp_def case_prod_unfold)

text \<open>Writing an item under a key, whether it is there or not.\<close>

definition put_item :: "string \<Rightarrow> cache_item \<Rightarrow> lru_cache \<Rightarrow> lru_cache" where
  "put_item k it c =
     (case gm_get (lru_items c) k of
        Some e \<Rightarrow> move_to_front e (write_item e it c)
      | None \<Rightarrow>
          let c' = push_front \<lparr>le_key = k, le_item = it\<rparr> c
          in if over_capacity c' then evict c' else c')"

lemma delete_length_mem:
  "k \<in> fst ` set xs \<Longrightarrow> length ((k, v) # AList.delete k xs) \<le> length xs"
  using delete_shorter [of k xs] by (simp add: Suc_leI)

lemma take_is_butlast: "length xs = Suc n \<Longrightarrow> take n xs = butlast xs"
  by (simp add: butlast_conv_take)

lemma put_item_refines:
  assumes "lru_wf c"
  shows "lru_wf (put_item k it c) \<and> lru_capacity (put_item k it c) = lru_capacity c \<and>
    recency_list (put_item k it c) = spec_put (lru_capacity c) k it (recency_list c)"
proof (cases "gm_get (lru_items c) k")
  case (Some e)
  have l: "linked c" and cap: "\<not> over_capacity c" using assms by (auto simp: lru_wf_def)
  note t = touch_linked [OF l Some, of it]
  have "k \<in> fst ` set (recency_list c)"
    using linked_lookup(3) [OF l Some] by (force dest: map_of_SomeD)
  then have "lru_capacity c > 0 \<longrightarrow>
      length ((k, it) # AList.delete k (recency_list c)) \<le> nat (lru_capacity c)"
    using cap delete_length_mem [of k "recency_list c" it] by (auto simp: not_over_capacity)
  then show ?thesis
    using t by (simp add: put_item_def Some lru_wf_def not_over_capacity frame_simps spec_put_def
        truncate_id)
next
  case None
  have l: "linked c" and cap: "\<not> over_capacity c" using assms by (auto simp: lru_wf_def)
  let ?c = "push_front \<lparr>le_key = k, le_item = it\<rparr> c"
  have p: "linked ?c" "recency_list ?c = (k, it) # recency_list c"
    using push_front_linked [OF l, of "\<lparr>le_key = k, le_item = it\<rparr>"] None by auto
  have "k \<notin> fst ` set (recency_list c)"
    using linked_lookup(1) [OF l, of k] None by (simp add: map_of_eq_None_iff)
  then have fresh: "AList.delete k (recency_list c) = recency_list c" by (rule delete_id)
  show ?thesis
  proof (cases "over_capacity ?c")
    case True
    have eq: "Suc (length (recency_list c)) = Suc (nat (lru_capacity c))" "lru_capacity c > 0"
      using True cap by (auto simp: over_capacity_def frame_simps push_front_def length_recency)
    note e = evict_linked [OF p(1)]
    have "recency_list (evict ?c) = take (nat (lru_capacity c)) ((k, it) # recency_list c)"
      using e p(2) eq(1) by (simp only: take_is_butlast length_Cons)
    moreover from this have "length (recency_list (evict ?c)) \<le> nat (lru_capacity c)" by simp
    ultimately show ?thesis
      using e eq(2) True by (simp add: put_item_def None lru_wf_def not_over_capacity frame_simps
          spec_put_def truncate_to_def fresh)
  next
    case False
    then have "lru_capacity c > 0 \<longrightarrow> length ((k, it) # recency_list c) \<le> nat (lru_capacity c)"
      using p(2) by (simp add: not_over_capacity frame_simps)
    then show ?thesis
      using p False by (simp add: put_item_def None lru_wf_def frame_simps spec_put_def truncate_id
          fresh)
  qed
qed

lemma remove_element_refines:
  assumes "lru_wf c" "gm_get (lru_items c) k = Some e"
  shows "lru_wf (remove_element e c) \<and> lru_capacity (remove_element e c) = lru_capacity c \<and>
    recency_list (remove_element e c) = AList.delete k (recency_list c)"
  using remove_element_linked [of c k e] assms length_delete_le [of k "recency_list c"]
  by (auto simp: lru_wf_def not_over_capacity frame_simps)

lemma set_refines:
  "lru_wf c \<Longrightarrow> lru_wf (set_with_expiration now k v d c) \<and>
    lru_capacity (set_with_expiration now k v d c) = lru_capacity c \<and>
    recency_list (set_with_expiration now k v d c) =
      spec_put (lru_capacity c) k
        \<lparr>ci_value = v, ci_expiration = (if d > 0 then expiration_at now d else 0),
         ci_access_time = now\<rparr> (recency_list c)"
  using put_item_refines [of c k
      "\<lparr>ci_value = v, ci_expiration = (if d > 0 then expiration_at now d else 0),
        ci_access_time = now\<rparr>"]
  by (simp add: set_with_expiration_def put_item_def Let_def)

lemma delete_refines:
  assumes "lru_wf c"
  shows "lru_wf (lru_delete k c) \<and> lru_capacity (lru_delete k c) = lru_capacity c \<and>
    recency_list (lru_delete k c) = AList.delete k (recency_list c)"
proof (cases "gm_get (lru_items c) k")
  case None
  then have "k \<notin> fst ` set (recency_list c)"
    using linked_lookup(1) [of c k] assms by (simp add: lru_wf_def map_of_eq_None_iff)
  then show ?thesis using assms None by (simp add: lru_delete_def)
qed (use remove_element_refines [OF assms] in \<open>simp add: lru_delete_def\<close>)

lemma get_refines:
  assumes "lru_wf c"
  shows "fst (lru_get now k c) = fst (spec_get now k (recency_list c)) \<and>
    lru_wf (snd (lru_get now k c)) \<and> lru_capacity (snd (lru_get now k c)) = lru_capacity c \<and>
    recency_list (snd (lru_get now k c)) = snd (spec_get now k (recency_list c))"
proof (cases "gm_get (lru_items c) k")
  case None
  then show ?thesis
    using assms linked_lookup(1) [of c k] by (simp add: lru_wf_def lru_get_def spec_get_def)
next
  case (Some e)
  have l: "linked c" and cap: "\<not> over_capacity c" using assms by (auto simp: lru_wf_def)
  obtain it where it: "map_of (recency_list c) k = Some it" "item_of e c = Some it"
    using linked_lookup(2,3) [OF l Some] by auto
  show ?thesis
  proof (cases "is_expired now it")
    case True
    then show ?thesis
      using remove_element_refines [OF assms Some] it by (simp add: lru_get_def Some spec_get_def)
  next
    case False
    have "k \<in> fst ` set (recency_list c)" using it(1) by (force dest: map_of_SomeD)
    then have "lru_capacity c > 0 \<longrightarrow>
        Suc (length (AList.delete k (recency_list c))) \<le> nat (lru_capacity c)"
      using cap delete_length_mem [of k "recency_list c" it] by (auto simp: not_over_capacity)
    then show ?thesis
      using touch_linked [OF l Some, of "it\<lparr>ci_access_time := now\<rparr>"] False it
      by (simp add: lru_get_def Some spec_get_def lru_wf_def not_over_capacity frame_simps)
  qed
qed

lemma incr_fresh_put: "gm_get (lru_items c) k = None \<Longrightarrow> incr_fresh now k ttl c =
    (1, put_item k \<lparr>ci_value = VInt64 1,
                    ci_expiration = (if ttl > 0 then expiration_at now ttl else 0),
                    ci_access_time = now\<rparr> c)"
  by (simp add: incr_fresh_def put_item_def Let_def)

lemma delete_delete: "AList.delete k (AList.delete k xs) = AList.delete k xs"
  by (rule delete_idem)

lemma incr_refines:
  assumes "lru_wf c"
  shows "fst (lru_incr oob now k ttl c) = fst (spec_incr oob (lru_capacity c) now k ttl (recency_list c)) \<and>
    lru_wf (snd (lru_incr oob now k ttl c)) \<and>
    lru_capacity (snd (lru_incr oob now k ttl c)) = lru_capacity c \<and>
    recency_list (snd (lru_incr oob now k ttl c)) =
      snd (spec_incr oob (lru_capacity c) now k ttl (recency_list c))"
proof (cases "gm_get (lru_items c) k")
  case None
  then have "map_of (recency_list c) k = None"
    using linked_lookup(1) [of c k] assms by (simp add: lru_wf_def)
  then show ?thesis
    using put_item_refines [OF assms] None
    by (simp add: lru_incr_def incr_fresh_put spec_incr_def spec_count_def spec_deadline_def)
next
  case (Some e)
  have l: "linked c" using assms by (simp add: lru_wf_def)
  obtain it where it: "map_of (recency_list c) k = Some it" "item_of e c = Some it"
    using linked_lookup(2,3) [OF l Some] by auto
  show ?thesis
  proof (cases "is_expired now it")
    case True
    note r = remove_element_refines [OF assms Some]
    have "map_of (recency_list (remove_element e c)) k = None"
      using r by (simp add: delete_conv')
    then have "gm_get (lru_items (remove_element e c)) k = None"
      using r linked_lookup(1) by (auto simp: lru_wf_def)
    then show ?thesis
      using put_item_refines [of "remove_element e c" k] r True it
      by (simp add: lru_incr_def Some incr_fresh_put spec_incr_def spec_count_def
          spec_deadline_def spec_put_def delete_delete)
  next
    case False
    then have n: "(if ttl > 0 then expiration_at now ttl else ci_expiration it) =
        spec_deadline now k ttl (recency_list c)"
      "wrap64 (to_int64 oob (ci_value it) + 1) = spec_count oob now k (recency_list c)"
      by (simp_all add: spec_deadline_def spec_count_def it(1))
    have "lru_incr oob now k ttl c =
        (spec_count oob now k (recency_list c),
         put_item k (it\<lparr>ci_value := VInt64 (spec_count oob now k (recency_list c)),
           ci_expiration := spec_deadline now k ttl (recency_list c), ci_access_time := now\<rparr>) c)"
      unfolding n [symmetric] using False it by (simp add: lru_incr_def Some put_item_def Let_def)
    moreover have "it\<lparr>ci_value := v, ci_expiration := d, ci_access_time := t\<rparr> =
        \<lparr>ci_value = v, ci_expiration = d, ci_access_time = t\<rparr>" for v d t
      by (cases it) simp
    ultimately show ?thesis
      using put_item_refines [OF assms, of k] by (simp add: spec_incr_def Let_def)
  qed
qed

lemma cleanup_loop_refines:
  "lru_wf c \<Longrightarrow> lru_wf (cleanup_loop now es c) \<and>
    lru_capacity (cleanup_loop now es c) = lru_capacity c \<and>
    lru_list (cleanup_loop now es c) =
      filter (\<lambda>(e, en). \<not> (e \<in> set es \<and> ci_expiration (le_item en) > 0 \<and>
                          now > ci_expiration (le_item en))) (lru_list c)"
proof (induction es arbitrary: c)
  case Nil
  then show ?case by simp
next
  case (Cons e es)
  let ?dead = "\<lambda>it. ci_expiration it > 0 \<and> now > ci_expiration it"
  have l: "linked c" using Cons.prems by (simp add: lru_wf_def)
  note d = linkedD [OF l]
  show ?case
  proof (cases "map_of (lru_list c) e")
    case None
    then have "\<forall>(e', en) \<in> set (lru_list c). e' \<noteq> e" by (force simp: map_of_eq_None_iff)
    then have "filter (\<lambda>(e', en). \<not> (e' \<in> set (e # es) \<and> ?dead (le_item en))) (lru_list c) =
        filter (\<lambda>(e', en). \<not> (e' \<in> set es \<and> ?dead (le_item en))) (lru_list c)"
      by (intro filter_cong) auto
    then show ?thesis using Cons.IH [OF Cons.prems] None by (simp add: item_of_def)
  next
    case (Some en)
    then have mem: "(e, en) \<in> set (lru_list c)" by (rule map_of_SomeD)
    have uniq: "en' = en" if "(e, en') \<in> set (lru_list c)" for en'
      using Some that d(1) by (simp add: map_of_eq_Some_iff)
    show ?thesis
    proof (cases "?dead (le_item en)")
      case True
      have "(le_key en, e) \<in> set (key_ids (lru_list c))" using mem by force
      moreover have "distinct (map fst (key_ids (lru_list c)))"
        using d(2) by (simp add: comp_def case_prod_unfold)
      ultimately have "gm_get (lru_items c) (le_key en) = Some e" by (simp add: d(4))
      note r = remove_element_refines [OF Cons.prems this]
      have "lru_list (remove_element e c) = filter (\<lambda>(e', en). e' \<noteq> e) (lru_list c)"
        using Some by (auto simp: remove_element_def AList.delete_eq intro!: filter_cong)
      then have "filter (\<lambda>(e', en). \<not> (e' \<in> set es \<and> ?dead (le_item en))) (lru_list (remove_element e c)) =
          filter (\<lambda>(e', en). \<not> (e' \<in> set (e # es) \<and> ?dead (le_item en))) (lru_list c)"
        using True uniq by (auto intro!: filter_cong)
      then show ?thesis using Cons.IH [of "remove_element e c"] r True Some by (simp add: item_of_def)
    next
      case False
      then have "filter (\<lambda>(e', en). \<not> (e' \<in> set (e # es) \<and> ?dead (le_item en))) (lru_list c) =
          filter (\<lambda>(e', en). \<not> (e' \<in> set es \<and> ?dead (le_item en))) (lru_list c)"
        using uniq by (intro filter_cong) auto
      then show ?thesis using Cons.IH [OF Cons.prems] Some False by (auto simp: item_of_def)
    qed
  qed
qed

lemma cleanup_refines:
  assumes "lru_wf c"
  shows "lru_wf (cleanup_expired now c) \<and> lru_capacity (cleanup_expired now c) = lru_capacity c \<and>
    recency_list (cleanup_expired now c) = spec_cleanup now (recency_list c)"
proof -
  have "lru_list (cleanup_expired now c) =
      filter (\<lambda>(e, en). \<not> (ci_expiration (le_item en) > 0 \<and> now > ci_expiration (le_item en))) (lru_list c)"
    using cleanup_loop_refines [OF assms, of now "rev (map fst (lru_list c))"]
    by (force simp: cleanup_expired_def intro!: filter_cong)
  then have "recency_list (cleanup_expired now c) = spec_cleanup now (recency_list c)"
    by (simp add: recency_list_def spec_cleanup_def filter_map comp_def case_prod_unfold)
  then show ?thesis
    using cleanup_loop_refines [OF assms] by (simp add: cleanup_expired_def)
qed

lemma evict_loop_refines:
  "linked c \<Longrightarrow> lru_wf (evict_loop c) \<and> lru_capacity (evict_loop c) = lru_capacity c \<and>
    recency_list (evict_loop c) = truncate_to (lru_capacity c) (recency_list c)"
proof (induction c rule: evict_loop.induct)
  case (1 c)
  show ?case
  proof (cases "over_capacity c")
    case True
    note e = evict_linked [OF "1.prems"]
    have long: "nat (lru_capacity c) < length (recency_list c)" "lru_capacity c > 0"
      using True by (auto simp: over_capacity_def length_recency)
    then have "take (nat (lru_capacity c)) (butlast (recency_list c)) =
        take (nat (lru_capacity c)) (recency_list c)"
      by (simp add: take_butlast)
    then show ?thesis
      using "1.IH" [OF True] e True long(2)
      by (simp add: evict_loop.simps [of c] frame_simps truncate_to_def)
  next
    case False
    then have "evict_loop c = c" by (subst evict_loop.simps) simp
    then show ?thesis
      using "1.prems" False truncate_id [of "lru_capacity c" "recency_list c"]
      by (simp add: lru_wf_def not_over_capacity)
  qed
qed

lemma set_capacity_refines:
  assumes "lru_wf c"
  shows "lru_wf (set_capacity cap c) \<and> lru_capacity (set_capacity cap c) = cap \<and>
    recency_list (set_capacity cap c) = truncate_to cap (recency_list c)"
proof -
  have "linked (c\<lparr>lru_capacity := cap\<rparr>)" using assms by (simp add: lru_wf_def linked_def)
  then show ?thesis
    using evict_loop_refines [of "c\<lparr>lru_capacity := cap\<rparr>"]
    by (simp add: set_capacity_def recency_list_def)
qed

subsection \<open>Sequences of operations\<close>

datatype cache_op =
    CSet string cache_value duration | CGet string | CDelete string | CIncr string duration
  | CClear | CSize | CKeys | CCleanup | CCapacity | CSetCapacity int

datatype cache_reply = RUnit | RValue "cache_value option" | RInt int | RKeys "string list"

fun cache_step :: "(rat \<Rightarrow> int) \<Rightarrow> time \<Rightarrow> cache_op \<Rightarrow> lru_cache \<Rightarrow> cache_reply \<times> lru_cache" where
  "cache_step oob now (CSet k v d) c = (RUnit, set_with_expiration now k v d c)"
| "cache_step oob now (CGet k) c = (case lru_get now k c of (r, c') \<Rightarrow> (RValue r, c'))"
| "cache_step oob now (CDelete k) c = (RUnit, lru_delete k c)"
| "cache_step oob now (CIncr k d) c = (case lru_incr oob now k d c of (n, c') \<Rightarrow> (RInt n, c'))"
| "cache_step oob now CClear c = (RUnit, lru_clear c)"
| "cache_step oob now CSize c = (RInt (lru_size c), c)"
| "cache_step oob now CKeys c = (RKeys (lru_keys c), c)"
| "cache_step oob now CCleanup c = (RUnit, cleanup_expired now c)"
| "cache_step oob now CCapacity c = (RInt (get_capacity c), c)"
| "cache_step oob now (CSetCapacity n) c = (RUnit, set_capacity n c)"

fun cache_run :: "(rat \<Rightarrow> int) \<Rightarrow> (time \<times> cache_op) list \<Rightarrow> lru_cache \<Rightarrow>
    cache_reply list \<times> lru_cache" where
  "cache_run oob [] c = ([], c)"
| "cache_run oob ((now, a) # as) c =
     (case cache_step oob now a c of (r, c1) \<Rightarrow>
        case cache_run oob as c1 of (rs, c2) \<Rightarrow> (r # rs, c2))"

type_synonym abstract_cache = "int \<times> recency"

fun spec_step :: "(rat \<Rightarrow> int) \<Rightarrow> time \<Rightarrow> cache_op \<Rightarrow> abstract_cache \<Rightarrow>
    cache_reply \<times> abstract_cache" where
  "spec_step oob now (CSet k v d) (cap, xs) =
     (RUnit, cap, spec_put cap k
        \<lparr>ci_value = v, ci_expiration = (if d > 0 then expiration_at now d else 0),
         ci_access_time = now\<rparr> xs)"
| "spec_step oob now (CGet k) (cap, xs) =
     (case spec_get now k xs of (r, ys) \<Rightarrow> (RValue r, cap, ys))"
| "spec_step oob now (CDelete k) (cap, xs) = (RUnit, cap, AList.delete k xs)"
| "spec_step oob now (CIncr k d) (cap, xs) =
     (case spec_incr oob cap now k d xs of (n, ys) \<Rightarrow> (RInt n, cap, ys))"
| "spec_step oob now CClear (cap, xs) = (RUnit, cap, [])"
| "spec_step oob now CSize (cap, xs) = (RInt (int (length xs)), cap, xs)"
| "spec_step oob now CKeys (cap, xs) = (RKeys (map fst xs), cap, xs)"
| "spec_step oob now CCleanup (cap, xs) = (RUnit, cap, spec_cleanup now xs)"
| "spec_step oob now CCapacity (cap, xs) = (RInt cap, cap, xs)"
| "spec_step oob now (CSetCapacity n) (cap, xs) = (RUnit, n, truncate_to n xs)"

fun spec_run :: "(rat \<Rightarrow> int) \<Rightarrow> (time \<times> cache_op) list \<Rightarrow> abstract_cache \<Rightarrow>
    cache_reply list \<times> abstract_cache" where
  "spec_run oob [] a = ([], a)"
| "spec_run oob ((now, x) # xs) a =
     (case spec_step oob now x a of (r, a1) \<Rightarrow>
        case spec_run oob xs a1 of (rs, a2) \<Rightarrow> (r # rs, a2))"

definition abs_cache :: "lru_cache \<Rightarrow> abstract_cache" where
  "abs_cache c = (lru_capacity c, recency_list c)"

lemma new_lru_wf: "lru_wf (new_lru_cache cap) \<and> abs_cache (new_lru_cache cap) = (cap, [])"
  by (simp add: lru_wf_def linked_def new_lru_cache_def over_capacity_def abs_cache_def
      recency_list_def)

lemma cache_step_refines:
  assumes "lru_wf c"
  shows "lru_wf (snd (cache_step oob now a c)) \<and>
    (fst (cache_step oob now a c), abs_cache (snd (cache_step oob now a c))) =
      spec_step oob now a (abs_cache c)"
proof (cases a)
  case (CSet k v d)
  then show ?thesis using set_refines [OF assms] by (simp add: abs_cache_def)
next
  case (CGet k)
  then show ?thesis using get_refines [OF assms, of now k]
    by (simp add: abs_cache_def case_prod_unfold)
next
  case (CDelete k)
  then show ?thesis using delete_refines [OF assms] by (simp add: abs_cache_def)
next
  case (CIncr k d)
  then show ?thesis using incr_refines [OF assms, of oob now k d]
    by (simp add: abs_cache_def case_prod_unfold)
next
  case CClear
  then show ?thesis using assms
    by (simp add: abs_cache_def lru_clear_def lru_wf_def linked_def over_capacity_def recency_list_def)
next
  case CSize
  then show ?thesis using assms by (simp add: abs_cache_def lru_size_def length_recency)
next
  case CKeys
  then show ?thesis using assms
    by (simp add: abs_cache_def lru_keys_def recency_list_def comp_def case_prod_unfold)
next
  case CCleanup
  then show ?thesis using cleanup_refines [OF assms] by (simp add: abs_cache_def)
next
  case CCapacity
  then show ?thesis using assms by (simp add: abs_cache_def get_capacity_def)
next
  case (CSetCapacity n)
  then show ?thesis using set_capacity_refines [OF assms] by (simp add: abs_cache_def)
qed

lemma cache_run_refines:
  "lru_wf c \<Longrightarrow> lru_wf (snd (cache_run oob as c)) \<and>
     (fst (cache_run oob as c), abs_cache (snd (cache_run oob as c))) = spec_run oob as (abs_cache c)"
proof (induction as arbitrary: c)
  case (Cons x as)
  obtain now a where x: "x = (now, a)" by (cases x)
  show ?case
    using cache_step_refines [OF Cons.prems, of oob now a]
      Cons.IH [of "snd (cache_step oob now a c)"]
    by (auto simp: x split: prod.splits)
qed simp

text \<open>C3. Every sequence of operations on a new cache, at any times, answers exactly what the
  abstract cache answers: the recency list with truncation to the capacity, in which Set, Get
  and Incr move a key to the front, a Get of an expired key removes it, and Incr counts from 1
  again. No key is twice in the list, and its length never exceeds a positive capacity.\<close>

theorem lru_cache_refines_recency_list:
  "(let (replies, c) = cache_run oob as (new_lru_cache cap) in
      (replies, abs_cache c) = spec_run oob as (cap, []) \<and>
      distinct (lru_keys c) \<and> \<not> (0 < get_capacity c \<and> get_capacity c < lru_size c))"
proof -
  let ?r = "cache_run oob as (new_lru_cache cap)"
  have r: "lru_wf (snd ?r)" "(fst ?r, abs_cache (snd ?r)) = spec_run oob as (cap, [])"
    using cache_run_refines [of "new_lru_cache cap" oob as] new_lru_wf [of cap] by auto
  moreover have "distinct (lru_keys (snd ?r))"
    using recency_distinct [of "snd ?r"] r(1)
    by (simp add: lru_wf_def lru_keys_def recency_list_def comp_def case_prod_unfold)
  moreover have "\<not> (0 < get_capacity (snd ?r) \<and> get_capacity (snd ?r) < lru_size (snd ?r))"
    using r(1) by (simp add: lru_wf_def over_capacity_def get_capacity_def lru_size_def)
  ultimately show ?thesis by (simp add: case_prod_unfold Let_def)
qed

subsection \<open>What the capacity guarantees\<close>

text \<open>The operations that can change the order of the keys only through the keys of \<open>S\<close>.\<close>

fun touches_only :: "string set \<Rightarrow> cache_op \<Rightarrow> bool" where
  "touches_only S (CSet k v d) \<longleftrightarrow> k \<in> S"
| "touches_only S (CGet k) \<longleftrightarrow> k \<in> S"
| "touches_only S (CDelete k) \<longleftrightarrow> k \<in> S"
| "touches_only S (CIncr k d) \<longleftrightarrow> k \<in> S"
| "touches_only S CClear \<longleftrightarrow> False"
| "touches_only S (CSetCapacity n) \<longleftrightarrow> False"
| "touches_only S _ \<longleftrightarrow> True"

text \<open>The key is in the list behind keys of \<open>S\<close> only, with value \<open>v\<close> and deadline \<open>d\<close>
  (0 for none).\<close>

definition held :: "string set \<Rightarrow> string \<Rightarrow> cache_value \<Rightarrow> int \<Rightarrow> recency \<Rightarrow> bool" where
  "held S k v d xs \<longleftrightarrow> distinct (map fst xs) \<and>
     (\<exists>pre it post. xs = pre @ (k, it) # post \<and> fst ` set pre \<subseteq> S \<and> ci_value it = v \<and>
        ci_expiration it = d)"

lemma heldI:
  "xs = pre @ (k, it) # post \<Longrightarrow> distinct (map fst xs) \<Longrightarrow> fst ` set pre \<subseteq> S \<Longrightarrow>
   ci_value it = v \<Longrightarrow> ci_expiration it = d \<Longrightarrow> held S k v d xs"
  unfolding held_def by blast

lemma heldE:
  assumes "held S k v d xs"
  obtains pre it post where "xs = pre @ (k, it) # post" "distinct (map fst xs)"
    "fst ` set pre \<subseteq> S" "ci_value it = v" "ci_expiration it = d"
  using assms unfolding held_def by blast

lemma delete_append: "AList.delete k (xs @ ys) = AList.delete k xs @ AList.delete k ys"
  by (simp add: AList.delete_eq)

lemma held_delete:
  assumes "held S k v d xs" "k' \<noteq> k"
  shows "held S k v d (AList.delete k' xs)"
  using assms(1)
proof (rule heldE)
  fix pre it post
  assume x: "xs = pre @ (k, it) # post" "distinct (map fst xs)" "fst ` set pre \<subseteq> S"
    "ci_value it = v" "ci_expiration it = d"
  show ?thesis
  proof (rule heldI)
    show "AList.delete k' xs = AList.delete k' pre @ (k, it) # AList.delete k' post"
      using assms(2) by (simp add: x(1) delete_append)
    show "fst ` set (AList.delete k' pre) \<subseteq> S"
      using dom_delete_subset [of k' pre] x(3) by blast
  qed (use x in \<open>simp_all add: distinct_delete\<close>)
qed

text \<open>Distinct keys of \<open>S\<close> in front of a key leave it within the capacity.\<close>

lemma truncate_keeps:
  assumes "distinct (map fst pre)" "fst ` set pre \<subseteq> S" "finite S" "cap > 0 \<longrightarrow> int (card S) < cap"
  shows "\<exists>post'. truncate_to cap (pre @ x # post) = pre @ x # post'"
proof (cases "cap > 0")
  case True
  have "length (map fst pre) = card (set (map fst pre))"
    using assms(1) by (metis distinct_card)
  also have "\<dots> \<le> card S" using assms(2,3) by (intro card_mono) auto
  finally have "length pre < nat cap" using assms(4) True by (simp add: zless_nat_eq_int_zless)
  then obtain m where "nat cap = length pre + Suc m" using less_iff_Suc_add by auto
  then show ?thesis using True by (auto simp: truncate_to_def)
qed (auto simp: truncate_to_def)

lemma distinct_truncate: "distinct (map fst xs) \<Longrightarrow> distinct (map fst (truncate_to cap xs))"
  by (simp add: truncate_to_def distinct_take flip: take_map)

lemma held_put:
  assumes "held S k v d xs" "k \<notin> S" "k' \<in> S" "finite S" "cap > 0 \<longrightarrow> int (card S) < cap"
  shows "held S k v d (spec_put cap k' it' xs)"
proof -
  have "held S k v d (AList.delete k' xs)" by (rule held_delete) (use assms in auto)
  then show ?thesis
  proof (rule heldE)
    fix pre it post
    assume x: "AList.delete k' xs = pre @ (k, it) # post" "distinct (map fst (AList.delete k' xs))"
      "fst ` set pre \<subseteq> S" "ci_value it = v" "ci_expiration it = d"
    have "k' \<notin> fst ` set (AList.delete k' xs)" by (rule delete_notin_dom)
    then have dist: "distinct (map fst ((k', it') # AList.delete k' xs))" using x(2) by simp
    have sub: "fst ` set ((k', it') # pre) \<subseteq> S" using x(3) assms(3) by auto
    have "distinct (map fst ((k', it') # pre))" using dist by (simp add: x(1))
    from truncate_keeps [OF this sub assms(4,5), of "(k, it)" post]
    obtain post' where p: "spec_put cap k' it' xs = ((k', it') # pre) @ (k, it) # post'"
      by (auto simp: spec_put_def x(1))
    moreover have "distinct (map fst (spec_put cap k' it' xs))"
      unfolding spec_put_def using dist by (rule distinct_truncate)
    ultimately show ?thesis using sub x(4,5) by (rule heldI)
  qed
qed

lemma held_cleanup:
  assumes "held S k v d xs" "d = 0 \<or> now \<le> d"
  shows "held S k v d (spec_cleanup now xs)"
proof (rule heldE [OF assms(1)])
  fix pre it post
  assume x: "xs = pre @ (k, it) # post" "distinct (map fst xs)" "fst ` set pre \<subseteq> S"
    "ci_value it = v" "ci_expiration it = d"
  show ?thesis
  proof (rule heldI)
    show "spec_cleanup now xs = spec_cleanup now pre @ (k, it) # spec_cleanup now post"
      using assms(2) by (auto simp: x(1,5) spec_cleanup_def)
    show "distinct (map fst (spec_cleanup now xs))"
      using x(2) unfolding spec_cleanup_def by (rule distinct_filter_map)
    show "fst ` set (spec_cleanup now pre) \<subseteq> S" using x(3) by (auto simp: spec_cleanup_def)
  qed (use x in simp_all)
qed

lemma map_of_append_none:
  "distinct (map fst (pre @ (k, it) # post)) \<Longrightarrow> map_of (pre @ (k, it) # post) k = Some it"
  by (subst map_of_eq_Some_iff) auto

lemma held_get: "held S k v d xs \<Longrightarrow>
    fst (spec_get now k xs) = (if d = 0 \<or> now \<le> d then Some v else None)"
  by (erule heldE) (auto simp: spec_get_def is_expired_def map_of_append_none
      simp del: map_of_append)

lemma spec_put_uncapped: "spec_put 0 k it xs = (k, it) # AList.delete k xs"
  by (simp add: spec_put_def truncate_to_def)

text \<open>A Get moves a key of \<open>S\<close> to the front like a put without a capacity.\<close>

lemma held_spec_get:
  assumes "held S k v d xs" "k \<notin> S" "k' \<in> S" "finite S"
  shows "held S k v d (snd (spec_get now k' xs))"
  using assms held_put [OF assms, of 0] held_delete [OF assms(1), of k']
  by (auto simp: spec_get_def spec_put_uncapped split: option.splits)

lemma held_step:
  assumes "held S k v d xs" "k \<notin> S" "finite S" "cap > 0 \<longrightarrow> int (card S) < cap"
    "touches_only S a" "d = 0 \<or> now \<le> d"
  shows "\<exists>r ys. spec_step oob now a (cap, xs) = (r, cap, ys) \<and> held S k v d ys"
proof (cases a)
  case (CGet k')
  then show ?thesis using held_spec_get [OF assms(1,2) _ assms(3), of k' now] assms(5)
    by (auto simp: case_prod_unfold)
next
  case (CDelete k')
  then have "k' \<noteq> k" using assms(2,5) by auto
  then show ?thesis using held_delete [OF assms(1)] CDelete by simp
qed (use assms held_put [OF assms(1,2) _ assms(3,4)] held_delete [OF assms(1)] held_cleanup [OF assms(1,6)]
      in \<open>auto simp: spec_incr_def Let_def\<close>)

lemma held_run:
  "held S k v d xs \<Longrightarrow> k \<notin> S \<Longrightarrow> finite S \<Longrightarrow> (cap > 0 \<longrightarrow> int (card S) < cap) \<Longrightarrow>
   \<forall>(now, a) \<in> set as. touches_only S a \<and> (d = 0 \<or> now \<le> d) \<Longrightarrow>
     \<exists>ys. snd (spec_run oob as (cap, xs)) = (cap, ys) \<and> held S k v d ys"
proof (induction as arbitrary: xs)
  case (Cons x as)
  obtain now a where x: "x = (now, a)" by (cases x)
  obtain r ys where "spec_step oob now a (cap, xs) = (r, cap, ys)" "held S k v d ys"
    using held_step [OF Cons.prems(1-4), of a now oob] Cons.prems(5) by (auto simp: x)
  then show ?case
    using Cons.IH [of ys] Cons.prems by (auto simp: x case_prod_unfold)
qed simp

text \<open>The same on the cache itself: what holds right after the key was written, and what a
  sequence of operations on other keys keeps.\<close>

lemma set_held:
  assumes "lru_wf c" "k \<notin> S" "finite S" "lru_capacity c > 0 \<longrightarrow> int (card S) < lru_capacity c"
  shows "held S k v (if d > 0 then expiration_at now d else 0)
    (recency_list (set_with_expiration now k v d c))"
proof -
  let ?c1 = "set_with_expiration now k v d c"
  let ?it = "\<lparr>ci_value = v, ci_expiration = (if d > 0 then expiration_at now d else 0),
              ci_access_time = now\<rparr>"
  note r = set_refines [OF assms(1), of now k v d]
  obtain post where "recency_list ?c1 = [] @ (k, ?it) # post"
    using truncate_keeps [of "[]" S "lru_capacity c" "(k, ?it)"] assms(3,4) r
    by (auto simp: spec_put_def)
  moreover have "distinct (map fst (recency_list ?c1))"
    by (rule recency_distinct) (use r in \<open>simp add: lru_wf_def\<close>)
  ultimately show ?thesis by (rule heldI) simp_all
qed

lemma run_held:
  assumes "lru_wf c" "held S k v d (recency_list c)" "k \<notin> S" "finite S"
    "lru_capacity c > 0 \<longrightarrow> int (card S) < lru_capacity c"
    "\<forall>(now, a) \<in> set as. touches_only S a \<and> (d = 0 \<or> now \<le> d)"
  shows "lru_wf (snd (cache_run oob as c)) \<and>
    lru_capacity (snd (cache_run oob as c)) = lru_capacity c \<and>
    held S k v d (recency_list (snd (cache_run oob as c)))"
proof -
  obtain ys where "snd (spec_run oob as (abs_cache c)) = (lru_capacity c, ys)" "held S k v d ys"
    using held_run [OF assms(2-6)] by (auto simp: abs_cache_def)
  moreover have "lru_wf (snd (cache_run oob as c))"
    "abs_cache (snd (cache_run oob as c)) = snd (spec_run oob as (abs_cache c))"
    using cache_run_refines [OF assms(1), of oob as] by (auto simp: prod_eq_iff)
  ultimately show ?thesis by (simp add: abs_cache_def)
qed

lemma reachable_wf: "lru_wf (snd (cache_run oob as (new_lru_cache cap)))"
  using cache_run_refines [of "new_lru_cache cap" oob as] new_lru_wf [of cap] by simp

text \<open>The cache evicts only what was used least recently: after a Set of a key without
  expiration, and any operations that use fewer distinct other keys than the capacity (and
  neither clear the cache nor change its capacity), a Get still answers the value.\<close>

theorem recently_used_key_survives:
  assumes "c = snd (cache_run oob before (new_lru_cache cap))"
    "finite S" "k \<notin> S" "get_capacity c > 0 \<longrightarrow> int (card S) < get_capacity c"
    "\<forall>a \<in> snd ` set after. touches_only S a"
  shows "fst (lru_get t2 k (snd (cache_run oob after (lru_set t1 k v c)))) = Some v"
proof -
  have c: "lru_wf c" using reachable_wf assms(1) by blast
  let ?c1 = "lru_set t1 k v c"
  have cap: "lru_capacity c > 0 \<longrightarrow> int (card S) < lru_capacity c"
    using assms(4) by (simp add: get_capacity_def)
  have c1: "lru_wf ?c1" "lru_capacity ?c1 = lru_capacity c" "held S k v 0 (recency_list ?c1)"
    using set_refines [OF c, of t1 k v 0] set_held [OF c assms(3,2) cap, of v 0 t1]
    by (simp_all add: lru_set_def)
  note r = run_held [OF c1(1,3) assms(3,2), of after oob]
  have "lru_wf (snd (cache_run oob after ?c1)) \<and>
      held S k v 0 (recency_list (snd (cache_run oob after ?c1)))"
    using r cap assms(5) by (fastforce simp: c1(2))
  then show ?thesis
    using get_refines [of "snd (cache_run oob after ?c1)" t2 k] held_get by fastforce
qed

theorem recently_used_key_survives_witness:
  "fst (lru_get 9 ''a'' (snd (cache_run (\<lambda>_. 0) [(2, CSet ''b'' (VInt 2) 0), (3, CGet ''b'')]
     (lru_set 1 ''a'' (VInt 1)
        (snd (cache_run (\<lambda>_. 0) [(0, CSet ''z'' (VInt 0) 0)] (new_lru_cache 2))))))) = Some (VInt 1)"
proof -
  have "get_capacity (snd (cache_run (\<lambda>_. 0) [(0, CSet ''z'' (VInt 0) 0)] (new_lru_cache 2))) = 2"
    using cache_run_refines [of "new_lru_cache 2" "\<lambda>_. 0" "[(0, CSet ''z'' (VInt 0) 0)]"] new_lru_wf [of 2]
    by (simp add: abs_cache_def get_capacity_def)
  then show ?thesis
    using recently_used_key_survives [OF refl, of "{''b''}" "''a''" "\<lambda>_. 0"
        "[(0, CSet ''z'' (VInt 0) 0)]" 2 "[(2, CSet ''b'' (VInt 2) 0), (3, CGet ''b'')]" 9 1 "VInt 1"]
    by simp
qed

subsection \<open>Expiration\<close>

lemma get_after_set:
  assumes "lru_wf c"
  shows "fst (lru_get t k (set_with_expiration now k v d c)) =
    (if is_expired t \<lparr>ci_value = v, ci_expiration = (if d > 0 then expiration_at now d else 0),
                      ci_access_time = now\<rparr> then None else Some v) \<and>
    map_of (recency_list (set_with_expiration now k v d c)) k =
      Some \<lparr>ci_value = v, ci_expiration = (if d > 0 then expiration_at now d else 0),
            ci_access_time = now\<rparr>"
proof -
  let ?it = "\<lparr>ci_value = v, ci_expiration = (if d > 0 then expiration_at now d else 0),
              ci_access_time = now\<rparr>"
  note r = set_refines [OF assms, of now k v d]
  obtain zs where "recency_list (set_with_expiration now k v d c) = (k, ?it) # zs"
    using r truncate_keeps [of "[]" "{}" "lru_capacity c" "(k, ?it)"]
    by (auto simp: spec_put_def)
  then show ?thesis
    using get_refines [of "set_with_expiration now k v d c" t k] r by (simp add: spec_get_def)
qed

lemma wrapped_deadline:
  assumes "0 \<le> now" "fits64 now" "fits64 d" "0 < d" "2 ^ 63 \<le> now + d"
  shows "expiration_at now d < 0"
  using wrap64_high [of "now + d"] assms by (simp add: expiration_at_def fits64_def)

text \<open>C27. A key set with a positive expiration answers until its deadline and not after it;
  but when the deadline leaves the 64-bit range of nanoseconds it wraps to a time before 1970,
  and then the key is expired at once while \<open>CleanupExpired\<close> never removes it.\<close>

theorem expiration_and_its_overflow:
  assumes "c = snd (cache_run oob before (new_lru_cache cap))"
    "0 \<le> now" "fits64 now" "0 < d" "fits64 d" "0 \<le> t"
  shows "fst (lru_get t k (set_with_expiration now k v d c)) =
      (if 2 ^ 63 \<le> now + d \<or> now + d < t then None else Some v) \<and>
    (2 ^ 63 \<le> now + d \<longrightarrow>
       k \<in> set (lru_keys (cleanup_expired t (set_with_expiration now k v d c))))"
proof -
  have c: "lru_wf c" using reachable_wf assms(1) by blast
  let ?c = "set_with_expiration now k v d c"
  let ?it = "\<lparr>ci_value = v, ci_expiration = expiration_at now d, ci_access_time = now\<rparr>"
  note g = get_after_set [OF c, of t k now v d]
  have wf: "lru_wf ?c" using set_refines [OF c] by blast
  show ?thesis
  proof (cases "2 ^ 63 \<le> now + d")
    case True
    have neg: "expiration_at now d < 0" using wrapped_deadline assms True by blast
    have "(k, ?it) \<in> set (recency_list ?c)" using g assms(4) by (auto dest: map_of_SomeD)
    then have "(k, ?it) \<in> set (recency_list (cleanup_expired t ?c))"
      using cleanup_refines [OF wf] neg by (simp add: spec_cleanup_def)
    then have "k \<in> set (lru_keys (cleanup_expired t ?c))"
      by (force simp: lru_keys_def recency_list_def)
    then show ?thesis using g neg assms(4,6) True by (simp add: is_expired_def)
  next
    case False
    then have "expiration_at now d = now + d"
      using assms(2-5) by (simp add: expiration_at_def wrap64_id fits64_def)
    then show ?thesis using g assms(2,4) False by (simp add: is_expired_def)
  qed
qed

theorem expiration_and_its_overflow_witness:
  "let c = set_with_expiration 1700000000000000000 ''k'' (VInt 1) (2 ^ 63 - 1) (new_lru_cache 0) in
     fst (lru_get 1700000000000000000 ''k'' c) = None \<and>
     ''k'' \<in> set (lru_keys (cleanup_expired 1700000000000000000 c))"
  using expiration_and_its_overflow [of "new_lru_cache 0" undefined "[]" 0 1700000000000000000
      "2 ^ 63 - 1" 1700000000000000000 "''k''" "VInt 1"]
  by (simp add: fits64_def Let_def)

subsection \<open>Stopping the clean-up\<close>

inductive cleaner_step :: "lru_cache \<Rightarrow> lru_cache \<Rightarrow> bool" where
  start: "cleaner_step c (start_cleanup c)"
| stop: "cleaner_step c (stop_cleanup c)"
| select: "g < length (lru_cleaners c) \<Longrightarrow> lru_cleaners c ! g = None \<Longrightarrow>
    cleaner_step c (cleaner_select g c)"
| tick: "g < length (lru_cleaners c) \<Longrightarrow> lru_cleaners c ! g = Some ch \<Longrightarrow>
    cleaner_step c (cleaner_tick now g c)"
| exit: "g < length (lru_cleaners c) \<Longrightarrow> lru_cleaners c ! g = Some ch \<Longrightarrow>
    ch \<in> set (lru_closed c) \<Longrightarrow> cleaner_step c (cleaner_exit g c)"
| operation: "cleaner_step c (snd (cache_step oob now a c))"

inductive cleaner_reach :: "lru_cache \<Rightarrow> bool" where
  new: "cleaner_reach (new_lru_cache cap)"
| step: "cleaner_reach c \<Longrightarrow> cleaner_step c c' \<Longrightarrow> cleaner_reach c'"

text \<open>No goroutine waits for a channel that nobody can close any more.\<close>

definition cleaners_ok :: "lru_cache \<Rightarrow> bool" where
  "cleaners_ok c \<longleftrightarrow>
     (\<forall>ch. Some ch \<in> set (lru_cleaners c) \<longrightarrow>
        ch \<in> set (lru_closed c) \<or> lru_stop_chan c = Some ch \<and> \<not> lru_stopped c) \<and>
     (lru_cleaners c \<noteq> [] \<longrightarrow> lru_stop_chan c \<noteq> None) \<and>
     (\<forall>ch. lru_stop_chan c = Some ch \<longrightarrow> ch < lru_chans c \<and>
        (lru_stopped c \<longleftrightarrow> ch \<in> set (lru_closed c))) \<and>
     (\<forall>ch \<in> set (lru_closed c). ch < lru_chans c) \<and> distinct (lru_closed c)"

definition same_cleaners :: "lru_cache \<Rightarrow> lru_cache \<Rightarrow> bool" where
  "same_cleaners c c' \<longleftrightarrow> lru_stop_chan c' = lru_stop_chan c \<and> lru_stopped c' = lru_stopped c \<and>
     lru_closed c' = lru_closed c \<and> lru_chans c' = lru_chans c \<and> lru_cleaners c' = lru_cleaners c"

lemma same_cleaners_trans: "same_cleaners a b \<Longrightarrow> same_cleaners b c \<Longrightarrow> same_cleaners a c"
  by (simp add: same_cleaners_def)

lemma same_cleaners_element_ops [simp]:
  "same_cleaners c c" "same_cleaners c (push_front en c)" "same_cleaners c (write_item e it c)"
  "same_cleaners c (move_to_front e c)" "same_cleaners c (remove_element e c)"
  by (auto simp: same_cleaners_def push_front_def write_item_def move_to_front_def
      remove_element_def split: option.splits)

lemma same_cleaners_evict [simp]: "same_cleaners c (evict c)"
  by (simp add: evict_def)

lemma same_cleaners_evict_loop: "same_cleaners c (evict_loop c)"
proof (induction c rule: evict_loop.induct)
  case (1 c)
  then show ?case
    by (cases "over_capacity c")
      (auto simp: evict_loop.simps [of c] intro: same_cleaners_trans [OF same_cleaners_evict])
qed

lemma same_cleaners_cleanup_loop: "same_cleaners c (cleanup_loop now es c)"
  by (induction es arbitrary: c)
    (auto split: option.splits intro: same_cleaners_trans [OF same_cleaners_element_ops(5)])

lemma same_cleaners_cleanup: "same_cleaners c (cleanup_expired now c)"
  by (simp add: cleanup_expired_def same_cleaners_cleanup_loop)

lemma same_cleaners_touch: "same_cleaners c (move_to_front e (write_item e' it c))"
  by (rule same_cleaners_trans [OF same_cleaners_element_ops(3) [of c e' it]]) simp

lemma same_cleaners_push_evict: "same_cleaners c (evict (push_front en c))"
  by (rule same_cleaners_trans [OF same_cleaners_element_ops(2) [of c en]]) simp

lemma same_cleaners_fresh: "same_cleaners c (snd (incr_fresh now k ttl c))"
  by (simp add: incr_fresh_def Let_def same_cleaners_push_evict)

lemma same_cleaners_step: "same_cleaners c (snd (cache_step oob now a c))"
proof (cases a)
  case (CIncr k d)
  then show ?thesis
    by (auto simp: lru_incr_def Let_def case_prod_unfold same_cleaners_fresh same_cleaners_touch
        split: option.splits
        intro: same_cleaners_trans [OF same_cleaners_element_ops(5) same_cleaners_fresh])
next
  case (CSetCapacity n)
  have "same_cleaners c (c\<lparr>lru_capacity := n\<rparr>)" by (simp add: same_cleaners_def)
  then show ?thesis
    using same_cleaners_evict_loop same_cleaners_trans by (fastforce simp: CSetCapacity set_capacity_def)
qed (auto simp: set_with_expiration_def lru_get_def lru_delete_def lru_clear_def Let_def
    same_cleaners_push_evict same_cleaners_touch same_cleaners_cleanup case_prod_unfold
    split: option.splits, simp add: same_cleaners_def)

lemma cleaners_ok_frame: "same_cleaners c c' \<Longrightarrow> cleaners_ok c \<Longrightarrow> cleaners_ok c'"
  by (simp add: same_cleaners_def cleaners_ok_def)

lemma cleaners_ok_start: "cleaners_ok c \<Longrightarrow> cleaners_ok (start_cleanup c)"
  by (fastforce simp: cleaners_ok_def start_cleanup_def less_Suc_eq)

lemma cleaners_ok_stop: "cleaners_ok c \<Longrightarrow> cleaners_ok (stop_cleanup c)"
  by (auto simp: cleaners_ok_def stop_cleanup_def split: option.splits)

lemma cleaners_ok_select:
  assumes "cleaners_ok c" "g < length (lru_cleaners c)"
  shows "cleaners_ok (cleaner_select g c)"
proof -
  have "lru_cleaners c \<noteq> []" using assms(2) by auto
  then show ?thesis
    using assms(1) set_update_subset_insert [of "lru_cleaners c" g "lru_stop_chan c"]
    by (fastforce simp: cleaners_ok_def cleaner_select_def)
qed

lemma cleaners_ok_tick:
  assumes "cleaners_ok c"
  shows "cleaners_ok (cleaner_tick now g c)"
proof -
  have "cleaners_ok (cleanup_expired now c)"
    by (rule cleaners_ok_frame [OF same_cleaners_cleanup assms])
  moreover have "lru_cleaners (cleanup_expired now c) = lru_cleaners c"
    using same_cleaners_cleanup [of c now] by (simp add: same_cleaners_def)
  ultimately show ?thesis
    using set_update_subset_insert [of "lru_cleaners c" g None]
    by (fastforce simp: cleaners_ok_def cleaner_tick_def)
qed

lemma cleaners_ok_exit:
  assumes "cleaners_ok c"
  shows "cleaners_ok (cleaner_exit g c)"
proof -
  have "set (take g (lru_cleaners c) @ drop (Suc g) (lru_cleaners c)) \<subseteq> set (lru_cleaners c)"
    using set_take_subset [of g "lru_cleaners c"] set_drop_subset [of "Suc g" "lru_cleaners c"]
    by simp
  then show ?thesis using assms by (fastforce simp: cleaners_ok_def cleaner_exit_def)
qed

lemma reach_cleaners_ok: "cleaner_reach c \<Longrightarrow> cleaners_ok c"
proof (induction rule: cleaner_reach.induct)
  case (new cap)
  show ?case by (simp add: cleaners_ok_def new_lru_cache_def)
next
  case (step c c')
  from step.hyps(2) step.IH show ?case
    by (cases rule: cleaner_step.cases)
      (auto intro: cleaners_ok_start cleaners_ok_stop cleaners_ok_select cleaners_ok_tick
        cleaners_ok_exit cleaners_ok_frame [OF same_cleaners_step])
qed

text \<open>StopCleanup reaches every clean-up goroutine: in every reachable state the channel a
  goroutine waits for is closed already or is the one StopCleanup closes, no channel is ever
  closed twice, and once StopCleanup has run, a goroutine that waits sees a closed channel and
  one that still has to evaluate its select reads a closed channel.\<close>

theorem stop_cleanup_stops_every_cleaner:
  assumes "cleaner_reach c"
  shows "distinct (lru_closed (stop_cleanup c)) \<and>
    list_all (\<lambda>w. case w of
        Some ch \<Rightarrow> ch \<in> set (lru_closed (stop_cleanup c))
      | None \<Rightarrow> lru_stop_chan (stop_cleanup c) \<in> Some ` set (lru_closed (stop_cleanup c)))
      (lru_cleaners (stop_cleanup c))"
proof -
  have ok: "cleaners_ok (stop_cleanup c)"
    using cleaners_ok_stop reach_cleaners_ok assms by blast
  have stopped: "lru_stop_chan (stop_cleanup c) \<noteq> None \<Longrightarrow> lru_stopped (stop_cleanup c)"
    by (auto simp: stop_cleanup_def split: option.splits)
  have closed: "lru_stop_chan (stop_cleanup c) \<in> Some ` set (lru_closed (stop_cleanup c))"
    if "lru_cleaners (stop_cleanup c) \<noteq> []"
    using ok stopped that by (auto simp: cleaners_ok_def)
  have "(case w of Some ch \<Rightarrow> ch \<in> set (lru_closed (stop_cleanup c))
      | None \<Rightarrow> lru_stop_chan (stop_cleanup c) \<in> Some ` set (lru_closed (stop_cleanup c)))"
    if "w \<in> set (lru_cleaners (stop_cleanup c))" for w
  proof (cases w)
    case None
    have "lru_cleaners (stop_cleanup c) \<noteq> []" using that by auto
    then show ?thesis using closed None by simp
  next
    case (Some ch)
    then show ?thesis using ok stopped that by (auto simp: cleaners_ok_def)
  qed
  then show ?thesis using ok by (auto simp: cleaners_ok_def list_all_iff)
qed

theorem stop_cleanup_stops_every_cleaner_witness:
  "lru_cleaners (stop_cleanup (cleaner_select 0 (start_cleanup (new_lru_cache 0)))) = [Some 0] \<and>
   list_all (\<lambda>w. case w of Some ch \<Rightarrow> ch \<in> {0} | None \<Rightarrow> False)
     (lru_cleaners (stop_cleanup (cleaner_select 0 (start_cleanup (new_lru_cache 0)))))"
proof -
  let ?c = "start_cleanup (new_lru_cache 0)"
  have "cleaner_step ?c (cleaner_select 0 ?c)"
    by (rule cleaner_step.select) (simp_all add: start_cleanup_def new_lru_cache_def)
  then have "cleaner_reach (cleaner_select 0 ?c)"
    by (blast intro: cleaner_reach.intros cleaner_step.start)
  from stop_cleanup_stops_every_cleaner [OF this] show ?thesis
    by (simp add: start_cleanup_def new_lru_cache_def cleaner_select_def stop_cleanup_def)
qed

end
