(* ===== verification/FrameCache.thy ===== *)
theory FrameCache
  imports LruCache
begin

text \<open>
  The framework's cache (\<open>frame/pkg/cache\<close>): the \<open>Cache\<close> interface with its two providers,
  \<open>LocalCache\<close> over the LRU cache and \<open>RedisCache\<close> over a Redis client, the adapter that
  gives the packages under \<open>tools\<close> a cache without contexts, the process-wide and the named
  caches, and the resource scope (\<open>frame/pkg/resource\<close>) that selects one of them. The Redis
  client is a parameter: a record of its calls on a state the model does not look into. JSON
  encoding of values other than integers and JSON decoding are parameters too.
\<close>

subsection \<open>The Cache interface\<close>

text \<open>A state-passing operation that may fail.\<close>

type_synonym ('s, 'r) cache_call = "'s \<Rightarrow> (gerr + 'r) \<times> 's"

record 's frame_cache =
  fc_get :: "string \<Rightarrow> ('s, string) cache_call"
  fc_set :: "string \<Rightarrow> cache_value \<Rightarrow> duration \<Rightarrow> ('s, unit) cache_call"
  fc_delete :: "string list \<Rightarrow> ('s, unit) cache_call"
  fc_exists :: "string \<Rightarrow> ('s, bool) cache_call"
  fc_expire :: "string \<Rightarrow> duration \<Rightarrow> ('s, unit) cache_call"
  fc_incr :: "string \<Rightarrow> duration \<Rightarrow> ('s, int) cache_call"

subsection \<open>LocalCache\<close>

definition key_not_found :: gerr where
  "key_not_found = ErrMsg ''key not found''"

text \<open>\<open>json.Marshal\<close>: integers in decimal, every other value as \<open>enc\<close> says.\<close>

fun json_marshal :: "(cache_value \<Rightarrow> gerr + string) \<Rightarrow> cache_value \<Rightarrow> gerr + string" where
  "json_marshal enc (VInt n) = Inr (dec_of n)"
| "json_marshal enc (VInt64 n) = Inr (dec_of n)"
| "json_marshal enc (VInt32 n) = Inr (dec_of n)"
| "json_marshal enc v = enc v"

fun value_text :: "(cache_value \<Rightarrow> gerr + string) \<Rightarrow> cache_value \<Rightarrow> gerr + string" where
  "value_text enc (VString s) = Inr s"
| "value_text enc (VBytes s) = Inr s"
| "value_text enc v = json_marshal enc v"

definition local_get :: "(cache_value \<Rightarrow> gerr + string) \<Rightarrow> time \<Rightarrow> string \<Rightarrow>
    (lru_cache, string) cache_call" where
  "local_get enc now key c =
     (case lru_get now key c of
        (None, c') \<Rightarrow> (Inl key_not_found, c')
      | (Some v, c') \<Rightarrow> (value_text enc v, c'))"

definition local_set :: "time \<Rightarrow> string \<Rightarrow> cache_value \<Rightarrow> duration \<Rightarrow>
    (lru_cache, unit) cache_call" where
  "local_set now key v d c = (Inr (), set_with_expiration now key v d c)"

definition local_delete :: "string list \<Rightarrow> (lru_cache, unit) cache_call" where
  "local_delete keys c = (Inr (), fold lru_delete keys c)"

definition local_exists :: "time \<Rightarrow> string \<Rightarrow> (lru_cache, bool) cache_call" where
  "local_exists now key c = (case lru_get now key c of (r, c') \<Rightarrow> (Inr (r \<noteq> None), c'))"

definition local_expire :: "time \<Rightarrow> string \<Rightarrow> duration \<Rightarrow> (lru_cache, unit) cache_call" where
  "local_expire now key d c =
     (case lru_get now key c of
        (None, c') \<Rightarrow> (Inl key_not_found, c')
      | (Some v, c') \<Rightarrow> (Inr (), set_with_expiration now key v d c'))"

definition local_get_object :: "(cache_value \<Rightarrow> gerr + string) \<Rightarrow> (string \<Rightarrow> gerr + 'd) \<Rightarrow>
    time \<Rightarrow> string \<Rightarrow> (lru_cache, 'd) cache_call" where
  "local_get_object enc dec now key c =
     (case lru_get now key c of
        (None, c') \<Rightarrow> (Inl key_not_found, c')
      | (Some v, c') \<Rightarrow>
          (case json_marshal enc v of Inl e \<Rightarrow> (Inl e, c') | Inr data \<Rightarrow> (dec data, c')))"

definition local_set_object :: "time \<Rightarrow> string \<Rightarrow> cache_value \<Rightarrow> duration \<Rightarrow>
    (lru_cache, unit) cache_call" where
  "local_set_object now key v d c = (Inr (), set_with_expiration now key v d c)"

definition local_incr :: "(rat \<Rightarrow> int) \<Rightarrow> time \<Rightarrow> string \<Rightarrow> duration \<Rightarrow>
    (lru_cache, int) cache_call" where
  "local_incr oob now key ttl c = (case lru_incr oob now key ttl c of (n, c') \<Rightarrow> (Inr n, c'))"

text \<open>A process with a LocalCache: the clock and the cache.\<close>

record local_world =
  wl_now :: time
  wl_cache :: lru_cache

definition on_cache :: "(time \<Rightarrow> (lru_cache, 'r) cache_call) \<Rightarrow> (local_world, 'r) cache_call" where
  "on_cache f w = (case f (wl_now w) (wl_cache w) of (r, c) \<Rightarrow> (r, w\<lparr>wl_cache := c\<rparr>))"

definition local_cache_ops :: "(rat \<Rightarrow> int) \<Rightarrow> (cache_value \<Rightarrow> gerr + string) \<Rightarrow>
    local_world frame_cache" where
  "local_cache_ops oob enc =
     \<lparr>fc_get = (\<lambda>k. on_cache (\<lambda>now. local_get enc now k)),
      fc_set = (\<lambda>k v d. on_cache (\<lambda>now. local_set now k v d)),
      fc_delete = (\<lambda>ks. on_cache (\<lambda>now. local_delete ks)),
      fc_exists = (\<lambda>k. on_cache (\<lambda>now. local_exists now k)),
      fc_expire = (\<lambda>k d. on_cache (\<lambda>now. local_expire now k d)),
      fc_incr = (\<lambda>k d. on_cache (\<lambda>now. local_incr oob now k d))\<rparr>"

subsection \<open>RedisCache\<close>

record 's redis_client =
  rc_get :: "string \<Rightarrow> ('s, string) cache_call"
  rc_set :: "string \<Rightarrow> cache_value \<Rightarrow> duration \<Rightarrow> ('s, unit) cache_call"
  rc_del :: "string list \<Rightarrow> ('s, unit) cache_call"
  rc_exists :: "string \<Rightarrow> ('s, int) cache_call"
  rc_expire :: "string \<Rightarrow> duration \<Rightarrow> ('s, unit) cache_call"
  rc_incr :: "string \<Rightarrow> ('s, int) cache_call"

definition redis_get :: "'s redis_client \<Rightarrow> string \<Rightarrow> ('s, string) cache_call" where
  "redis_get rc key s = rc_get rc key s"

definition redis_set :: "'s redis_client \<Rightarrow> string \<Rightarrow> cache_value \<Rightarrow> duration \<Rightarrow>
    ('s, unit) cache_call" where
  "redis_set rc key v d s = rc_set rc key v d s"

definition redis_delete :: "'s redis_client \<Rightarrow> string list \<Rightarrow> ('s, unit) cache_call" where
  "redis_delete rc keys s = rc_del rc keys s"

definition redis_exists :: "'s redis_client \<Rightarrow> string \<Rightarrow> ('s, bool) cache_call" where
  "redis_exists rc key s =
     (case rc_exists rc key s of (Inl e, s') \<Rightarrow> (Inl e, s') | (Inr n, s') \<Rightarrow> (Inr (n > 0), s'))"

definition redis_expire :: "'s redis_client \<Rightarrow> string \<Rightarrow> duration \<Rightarrow> ('s, unit) cache_call" where
  "redis_expire rc key d s = rc_expire rc key d s"

definition redis_get_object :: "(string \<Rightarrow> gerr + 'd) \<Rightarrow> 's redis_client \<Rightarrow> string \<Rightarrow>
    ('s, 'd) cache_call" where
  "redis_get_object dec rc key s =
     (case rc_get rc key s of (Inl e, s') \<Rightarrow> (Inl e, s') | (Inr val, s') \<Rightarrow> (dec val, s'))"

definition redis_set_object :: "(cache_value \<Rightarrow> gerr + string) \<Rightarrow> 's redis_client \<Rightarrow> string \<Rightarrow>
    cache_value \<Rightarrow> duration \<Rightarrow> ('s, unit) cache_call" where
  "redis_set_object enc rc key v d s =
     (case json_marshal enc v of
        Inl e \<Rightarrow> (Inl e, s)
      | Inr data \<Rightarrow> rc_set rc key (VBytes data) d s)"

definition redis_incr :: "'s redis_client \<Rightarrow> string \<Rightarrow> duration \<Rightarrow> ('s, int) cache_call" where
  "redis_incr rc key ttl s =
     (case rc_incr rc key s of
        (Inl e, s1) \<Rightarrow> (Inl e, s1)
      | (Inr n, s1) \<Rightarrow>
          if n = 1 \<and> ttl > 0
          then (case rc_expire rc key ttl s1 of
                  (Inl e, s2) \<Rightarrow> (Inl e, s2)
                | (Inr u, s2) \<Rightarrow> (Inr n, s2))
          else (Inr n, s1))"

definition redis_cache_ops :: "'s redis_client \<Rightarrow> 's frame_cache" where
  "redis_cache_ops rc =
     \<lparr>fc_get = redis_get rc, fc_set = redis_set rc, fc_delete = redis_delete rc,
      fc_exists = redis_exists rc, fc_expire = redis_expire rc, fc_incr = redis_incr rc\<rparr>"

subsection \<open>The cache without contexts\<close>

record 's tools_cache =
  tc_get :: "string \<Rightarrow> ('s, string) cache_call"
  tc_set :: "string \<Rightarrow> string \<Rightarrow> duration \<Rightarrow> ('s, unit) cache_call"
  tc_delete :: "string \<Rightarrow> ('s, unit) cache_call"
  tc_exists :: "string \<Rightarrow> ('s, bool) cache_call"
  tc_incr :: "string \<Rightarrow> duration \<Rightarrow> ('s, int) cache_call"

definition as_tools_cache :: "'s frame_cache \<Rightarrow> 's tools_cache" where
  "as_tools_cache c =
     \<lparr>tc_get = fc_get c, tc_set = (\<lambda>key value ttl. fc_set c key (VString value) ttl),
      tc_delete = (\<lambda>key. fc_delete c [key]), tc_exists = fc_exists c, tc_incr = fc_incr c\<rparr>"

subsection \<open>The resource scope of a context\<close>

record scope =
  sc_name :: string
  sc_config :: string
  sc_db :: string
  sc_cache :: string

definition scope_empty :: "scope \<Rightarrow> bool" where
  "scope_empty s \<longleftrightarrow> sc_config s = [] \<and> sc_db s = [] \<and> sc_cache s = []"

text \<open>The part of a context this package reads: the scope last bound to it.\<close>

type_synonym scope_ctx = "scope option"

definition with_scope :: "scope_ctx \<Rightarrow> scope \<Rightarrow> scope_ctx" where
  "with_scope ctx s = Some s"

definition scope_from_context :: "scope_ctx \<Rightarrow> scope option" where
  "scope_from_context ctx = ctx"

subsection \<open>The process-wide and the named caches\<close>

record redis_config =
  rd_addr :: string
  rd_password :: string
  rd_db :: int
  rd_pool_size :: int

text \<open>A cache is a Redis client, known by its options, or the one local cache with its state.\<close>

datatype cache_inst = RedisInst redis_config | LocalInst lru_cache

record cache_globals =
  cg_cache :: "cache_inst option"
  cg_redis :: "redis_config option"
  cg_named :: "(string, cache_inst) gomap"

definition no_caches :: cache_globals where
  "no_caches = \<lparr>cg_cache = None, cg_redis = None, cg_named = []\<rparr>"

definition init_global_cache_with_object :: "redis_config \<Rightarrow> cache_globals \<Rightarrow> cache_globals" where
  "init_global_cache_with_object client g = g\<lparr>cg_redis := Some client, cg_cache := Some (RedisInst client)\<rparr>"

text \<open>\<open>ping\<close> is what the server answers to the new client.\<close>

definition init_global_cache_with_config :: "(redis_config \<Rightarrow> gerr option) \<Rightarrow> redis_config \<Rightarrow>
    cache_globals \<Rightarrow> gerr option \<times> cache_globals" where
  "init_global_cache_with_config ping cfg g =
     (if cg_cache g \<noteq> None then (None, g)
      else case ping cfg of
        Some e \<Rightarrow> (Some (ErrMsg (''failed to connect redis: '' @ gerr_text e)), g)
      | None \<Rightarrow> (None, g\<lparr>cg_redis := Some cfg, cg_cache := Some (RedisInst cfg)\<rparr>))"

definition new_local_cache :: "int \<Rightarrow> cache_inst" where
  "new_local_cache capacity = LocalInst (start_cleanup (new_global_cache_with_capacity capacity))"

definition init_global_cache_with_local :: "int \<Rightarrow> cache_globals \<Rightarrow> cache_globals" where
  "init_global_cache_with_local capacity g =
     (if cg_cache g \<noteq> None then g else g\<lparr>cg_cache := Some (new_local_cache capacity)\<rparr>)"

text \<open>\<open>cfg\<close> is the loaded configuration's Redis section, if a configuration is loaded.\<close>

definition init_global_cache_with_default :: "(redis_config \<Rightarrow> gerr option) \<Rightarrow>
    redis_config option \<Rightarrow> cache_globals \<Rightarrow> gerr option \<times> cache_globals" where
  "init_global_cache_with_default ping cfg g =
     (case cfg of
        None \<Rightarrow> (None, init_global_cache_with_local 10000 g)
      | Some rd \<Rightarrow>
          if rd_addr rd \<noteq> [] \<and> rd_addr rd \<noteq> ''localhost:6379''
          then (case init_global_cache_with_config ping rd g of
                  (None, g') \<Rightarrow> (None, g')
                | (Some e, g') \<Rightarrow> (None, init_global_cache_with_local 10000 g'))
          else (None, init_global_cache_with_local 10000 g))"

text \<open>\<open>close_client\<close> is what closing the client returns.\<close>

definition close_caches :: "(redis_config \<Rightarrow> gerr option) \<Rightarrow> cache_globals \<Rightarrow>
    gerr option \<times> cache_globals" where
  "close_caches close_client g =
     (case cg_redis g of
        Some client \<Rightarrow> (close_client client, g\<lparr>cg_redis := None, cg_cache := None\<rparr>)
      | None \<Rightarrow> (None, g\<lparr>cg_cache := None\<rparr>))"

text \<open>The local cache that \<open>Close\<close> drops has its clean-up goroutine stopped.\<close>

definition closed_local_cache :: "cache_globals \<Rightarrow> lru_cache option" where
  "closed_local_cache g =
     (case (cg_redis g, cg_cache g) of
        (None, Some (LocalInst c)) \<Rightarrow> Some (stop_cleanup c)
      | _ \<Rightarrow> None)"

text \<open>\<open>%q\<close> of a name of printable ASCII characters.\<close>

definition go_quote :: "string \<Rightarrow> string" where
  "go_quote s =
     [char_of (34::nat)] @
     concat (map (\<lambda>c. if of_char c \<in> {34, 92::nat} then [char_of (92::nat), c] else [c]) s) @
     [char_of (34::nat)]"

definition init_named_cache_with_config :: "(redis_config \<Rightarrow> gerr option) \<Rightarrow> string \<Rightarrow>
    redis_config option \<Rightarrow> cache_globals \<Rightarrow> gerr option \<times> cache_globals" where
  "init_named_cache_with_config ping name cfg g =
     (if name = [] then (Some (ErrMsg ''cache: named cache name cannot be empty''), g)
      else case cfg of
        None \<Rightarrow> (Some (ErrMsg (''cache: named cache '' @ go_quote name @ '' config cannot be nil'')), g)
      | Some rd \<Rightarrow>
          if gm_has (cg_named g) name then (None, g)
          else case ping rd of
            Some e \<Rightarrow>
              (Some (ErrMsg (''cache: init named cache '' @ go_quote name @ '': '' @ gerr_text e)), g)
          | None \<Rightarrow> (None, g\<lparr>cg_named := gm_put name (RedisInst rd) (cg_named g)\<rparr>))"

definition init_named_cache_with_local :: "string \<Rightarrow> int \<Rightarrow> cache_globals \<Rightarrow> cache_globals" where
  "init_named_cache_with_local name capacity g =
     (if name = [] then g
      else if gm_has (cg_named g) name then g
      else g\<lparr>cg_named := gm_put name (new_local_cache capacity) (cg_named g)\<rparr>)"

definition has_named_cache :: "string \<Rightarrow> cache_globals \<Rightarrow> bool" where
  "has_named_cache name g \<longleftrightarrow> gm_has (cg_named g) name"

definition get_named_cache :: "string \<Rightarrow> cache_globals \<Rightarrow> cache_inst option" where
  "get_named_cache name g = gm_get (cg_named g) name"

definition get_cache_from :: "scope_ctx \<Rightarrow> cache_globals \<Rightarrow> cache_inst option" where
  "get_cache_from ctx g =
     (case scope_from_context ctx of
        Some s \<Rightarrow> if sc_cache s \<noteq> [] then get_named_cache (sc_cache s) g else cg_cache g
      | None \<Rightarrow> cg_cache g)"

text \<open>The calls that set up and tear down caches.\<close>

datatype cache_setup =
    InitObject redis_config | InitConfig redis_config | InitLocal int
  | InitDefault "redis_config option" | CloseCaches
  | InitNamedConfig string "redis_config option" | InitNamedLocal string int

fun setup_step :: "(redis_config \<Rightarrow> gerr option) \<Rightarrow> cache_setup \<Rightarrow> cache_globals \<Rightarrow> cache_globals" where
  "setup_step ping (InitObject c) g = init_global_cache_with_object c g"
| "setup_step ping (InitConfig c) g = snd (init_global_cache_with_config ping c g)"
| "setup_step ping (InitLocal n) g = init_global_cache_with_local n g"
| "setup_step ping (InitDefault c) g = snd (init_global_cache_with_default ping c g)"
| "setup_step ping CloseCaches g = snd (close_caches (\<lambda>_. None) g)"
| "setup_step ping (InitNamedConfig n c) g = snd (init_named_cache_with_config ping n c g)"
| "setup_step ping (InitNamedLocal n cap) g = init_named_cache_with_local n cap g"

definition setup_run :: "(redis_config \<Rightarrow> gerr option) \<Rightarrow> cache_setup list \<Rightarrow> cache_globals \<Rightarrow>
    cache_globals" where
  "setup_run ping as g = fold (setup_step ping) as g"

lemmas cache_setup_defs = init_global_cache_with_object_def init_global_cache_with_config_def
  init_global_cache_with_local_def init_global_cache_with_default_def close_caches_def
  init_named_cache_with_config_def init_named_cache_with_local_def

lemma setup_step_named:
  assumes "gm_get (cg_named g) n = Some c"
  shows "gm_get (cg_named (setup_step ping a g)) n = Some c"
  using assms by (cases a) (auto simp: cache_setup_defs split: option.splits if_splits)

lemma setup_run_named:
  "gm_get (cg_named g) n = Some c \<Longrightarrow> gm_get (cg_named (setup_run ping as g)) n = Some c"
proof (induction as arbitrary: g)
  case (Cons a as)
  then show ?case
    using Cons.IH [OF setup_step_named [OF Cons.prems]] by (simp add: setup_run_def)
qed (simp add: setup_run_def)

text \<open>A scope that names a cache never falls back to the process-wide one and never
  changes caches: before the name is registered the context resolves to no cache at all, and
  from the first registration on every later set-up call, registrations under the same name
  and Close included, leaves the context resolving to that same cache.\<close>

theorem scoped_cache_is_fixed:
  assumes "sc_cache s \<noteq> []"
  shows "(get_named_cache (sc_cache s) g = None \<longrightarrow> get_cache_from (with_scope ctx s) g = None) \<and>
    (get_named_cache (sc_cache s) g = Some c \<longrightarrow>
       get_cache_from (with_scope ctx s) (setup_run ping as g) = Some c)"
  using assms setup_run_named [of g "sc_cache s" c ping as]
  by (simp add: get_cache_from_def with_scope_def scope_from_context_def get_named_cache_def)

theorem scoped_cache_is_fixed_witness:
  "let s = \<lparr>sc_name = ''lum'', sc_config = [], sc_db = [], sc_cache = ''c''\<rparr>;
       g = init_named_cache_with_local ''c'' 5 no_caches
   in get_cache_from (with_scope None s)
        (setup_run (\<lambda>_. None) [InitLocal 1, InitNamedLocal ''c'' 9, CloseCaches] g) =
      Some (new_local_cache 5)"
  using scoped_cache_is_fixed
    [of "\<lparr>sc_name = ''lum'', sc_config = [], sc_db = [], sc_cache = ''c''\<rparr>"
        "init_named_cache_with_local ''c'' 5 no_caches" None "new_local_cache 5" "\<lambda>_. None"
        "[InitLocal 1, InitNamedLocal ''c'' 9, CloseCaches]"]
  by (simp add: init_named_cache_with_local_def no_caches_def get_named_cache_def Let_def)

end
