(* ===== verification/Limiter.thy ===== *)
theory Limiter
  imports FrameCache
begin

text \<open>
  The limiters that keep their state in a cache (\<open>tools/ratelimit/cache_limiter.go\<close>), the
  one-time verification codes built on them (\<open>tools/verifycode/manager.go\<close>), and the wrappers
  the framework puts around both (\<open>frame/pkg/ratelimit\<close>, \<open>frame/pkg/verifycode\<close>). They are
  written against the interface \<open>tools_cache\<close>; the locale \<open>code_store\<close> states what the
  verification codes need of it and is interpreted on the framework's local cache. The
  random digits of a code come from \<open>crypto/rand\<close>: they are an argument.
\<close>

subsection \<open>Limiters\<close>

definition interval_allow :: "'s tools_cache \<Rightarrow> string \<Rightarrow> duration \<Rightarrow> 's \<Rightarrow> bool \<times> 's" where
  "interval_allow c key interval s =
     (case tc_exists c key s of
        (Inl e, s1) \<Rightarrow> (True, s1)
      | (Inr ex, s1) \<Rightarrow>
          if ex then (False, s1)
          else (case tc_set c key ''1'' interval s1 of (r, s2) \<Rightarrow> (True, s2)))"

definition count_allow :: "'s tools_cache \<Rightarrow> string \<Rightarrow> int \<Rightarrow> duration \<Rightarrow> 's \<Rightarrow> bool \<times> 's" where
  "count_allow c key limit window s =
     (case tc_incr c key window s of
        (Inl e, s1) \<Rightarrow> (True, s1)
      | (Inr n, s1) \<Rightarrow> (n \<le> limit, s1))"

subsection \<open>Verification codes\<close>

record code_config =
  vc_code_length :: int
  vc_ttl :: duration
  vc_send_interval :: duration
  vc_daily_limit :: int

type_synonym code_option = "code_config \<Rightarrow> code_config"

definition with_code_length :: "int \<Rightarrow> code_option" where
  "with_code_length n m = (if n > 0 then m\<lparr>vc_code_length := n\<rparr> else m)"

definition with_code_ttl :: "duration \<Rightarrow> code_option" where
  "with_code_ttl d m = (if d > 0 then m\<lparr>vc_ttl := d\<rparr> else m)"

definition with_send_interval :: "duration \<Rightarrow> code_option" where
  "with_send_interval d m = (if d \<ge> 0 then m\<lparr>vc_send_interval := d\<rparr> else m)"

definition with_daily_limit :: "int \<Rightarrow> code_option" where
  "with_daily_limit n m = (if n \<ge> 0 then m\<lparr>vc_daily_limit := n\<rparr> else m)"

definition new_manager :: "code_option list \<Rightarrow> code_config" where
  "new_manager opts = fold (\<lambda>opt m. opt m) opts
     \<lparr>vc_code_length = 6, vc_ttl = 5 * minute, vc_send_interval = 60 * second,
      vc_daily_limit = 10\<rparr>"

datatype code_error = ErrIntervalLimited | ErrDailyLimited | ErrRandom gerr | ErrStore gerr

text \<open>\<open>digits i\<close> is the \<open>i\<close>-th answer of the random source: a digit below ten, or an error.\<close>

fun random_digits :: "(nat \<Rightarrow> gerr + nat) \<Rightarrow> nat \<Rightarrow> nat \<Rightarrow> gerr + string" where
  "random_digits digits i 0 = Inr []"
| "random_digits digits i (Suc n) =
     (case digits i of
        Inl e \<Rightarrow> Inl (ErrMsg (''verifycode: generate code: '' @ gerr_text e))
      | Inr d \<Rightarrow>
          (case random_digits digits (Suc i) n of
             Inl e \<Rightarrow> Inl e
           | Inr ds \<Rightarrow> Inr (char_of (48 + d) # ds)))"

definition random_code :: "(nat \<Rightarrow> gerr + nat) \<Rightarrow> int \<Rightarrow> gerr + string" where
  "random_code digits len = random_digits digits 0 (nat len)"

definition code_key :: "string \<Rightarrow> string" where
  "code_key key = ''vc:code:'' @ key"

definition interval_key :: "string \<Rightarrow> string" where
  "interval_key key = ''vc:interval:'' @ key"

definition daily_key :: "string \<Rightarrow> string" where
  "daily_key key = ''vc:daily:'' @ key"

text \<open>The last part of Generate, after both limiters let the request pass.\<close>

definition store_code :: "'s tools_cache \<Rightarrow> code_config \<Rightarrow> (nat \<Rightarrow> gerr + nat) \<Rightarrow> string \<Rightarrow>
    's \<Rightarrow> (code_error + string) \<times> 's" where
  "store_code c m digits key s =
     (case random_code digits (vc_code_length m) of
        Inl e \<Rightarrow> (Inl (ErrRandom e), s)
      | Inr code \<Rightarrow>
          (case tc_set c (code_key key) code (vc_ttl m) s of
             (Inl e, s1) \<Rightarrow> (Inl (ErrStore e), s1)
           | (Inr u, s1) \<Rightarrow> (Inr code, s1)))"

definition generate :: "'s tools_cache \<Rightarrow> code_config \<Rightarrow> (nat \<Rightarrow> gerr + nat) \<Rightarrow> string \<Rightarrow>
    's \<Rightarrow> (code_error + string) \<times> 's" where
  "generate c m digits key s =
     (case (if vc_send_interval m > 0
            then interval_allow c (interval_key key) (vc_send_interval m) s else (True, s)) of
        (False, s1) \<Rightarrow> (Inl ErrIntervalLimited, s1)
      | (True, s1) \<Rightarrow>
          (case (if vc_daily_limit m > 0
                 then count_allow c (daily_key key) (vc_daily_limit m) (24 * hour) s1
                 else (True, s1)) of
             (False, s2) \<Rightarrow> (Inl ErrDailyLimited, s2)
           | (True, s2) \<Rightarrow> store_code c m digits key s2))"

text \<open>Verify makes two calls of the cache: it reads and compares, then it deletes.\<close>

definition verify_read :: "'s tools_cache \<Rightarrow> string \<Rightarrow> string \<Rightarrow> 's \<Rightarrow> bool \<times> 's" where
  "verify_read c key input s =
     (case tc_get c (code_key key) s of
        (Inl e, s1) \<Rightarrow> (False, s1)
      | (Inr stored, s1) \<Rightarrow> (stored \<noteq> [] \<and> stored = input, s1))"

definition verify :: "'s tools_cache \<Rightarrow> string \<Rightarrow> string \<Rightarrow> 's \<Rightarrow> bool \<times> 's" where
  "verify c key input s =
     (case verify_read c key input s of
        (False, s1) \<Rightarrow> (False, s1)
      | (True, s1) \<Rightarrow> (True, snd (tc_delete c (code_key key) s1)))"

subsection \<open>The wrappers of the framework\<close>

text \<open>The cache the context resolves to, if any.\<close>

definition frame_allow_interval :: "'s frame_cache option \<Rightarrow> string \<Rightarrow> duration \<Rightarrow> 's \<Rightarrow> bool \<times> 's" where
  "frame_allow_interval fc key interval s =
     (case fc of None \<Rightarrow> (True, s) | Some c \<Rightarrow> interval_allow (as_tools_cache c) key interval s)"

definition frame_allow_count :: "'s frame_cache option \<Rightarrow> string \<Rightarrow> int \<Rightarrow> duration \<Rightarrow> 's \<Rightarrow>
    bool \<times> 's" where
  "frame_allow_count fc key limit window s =
     (case fc of None \<Rightarrow> (True, s) | Some c \<Rightarrow> count_allow (as_tools_cache c) key limit window s)"

datatype frame_code_error = CacheNotAvailable | CodeError code_error

definition frame_generate :: "'s frame_cache option \<Rightarrow> (nat \<Rightarrow> gerr + nat) \<Rightarrow> string \<Rightarrow> 's \<Rightarrow>
    (frame_code_error + string) \<times> 's" where
  "frame_generate fc digits key s =
     (case fc of
        None \<Rightarrow> (Inl CacheNotAvailable, s)
      | Some c \<Rightarrow>
          (case generate (as_tools_cache c) (new_manager []) digits key s of
             (Inl e, s1) \<Rightarrow> (Inl (CodeError e), s1)
           | (Inr code, s1) \<Rightarrow> (Inr code, s1)))"

definition frame_verify :: "'s frame_cache option \<Rightarrow> string \<Rightarrow> string \<Rightarrow> 's \<Rightarrow> bool \<times> 's" where
  "frame_verify fc key input s =
     (case fc of None \<Rightarrow> (False, s) | Some c \<Rightarrow> verify (as_tools_cache c) key input s)"

subsection \<open>Runs of the code manager\<close>

datatype code_event = Generate string "nat \<Rightarrow> gerr + nat" | Verify string string | Wait duration

datatype code_answer = Sent "code_error + string" | Verified bool | Waited

fun code_step :: "'s tools_cache \<Rightarrow> (duration \<Rightarrow> 's \<Rightarrow> 's) \<Rightarrow> code_config \<Rightarrow> code_event \<Rightarrow> 's \<Rightarrow>
    code_answer \<times> 's" where
  "code_step c elapse m (Generate key digits) s =
     (case generate c m digits key s of (r, s') \<Rightarrow> (Sent r, s'))"
| "code_step c elapse m (Verify key input) s =
     (case verify c key input s of (r, s') \<Rightarrow> (Verified r, s'))"
| "code_step c elapse m (Wait d) s = (Waited, elapse d s)"

fun code_run :: "'s tools_cache \<Rightarrow> (duration \<Rightarrow> 's \<Rightarrow> 's) \<Rightarrow> code_config \<Rightarrow> code_event list \<Rightarrow>
    's \<Rightarrow> code_answer list \<times> 's" where
  "code_run c elapse m [] s = ([], s)"
| "code_run c elapse m (e # es) s =
     (case code_step c elapse m e s of (a, s1) \<Rightarrow>
        case code_run c elapse m es s1 of (as, s2) \<Rightarrow> (a # as, s2))"

fun generates :: "string \<Rightarrow> code_event \<Rightarrow> bool" where
  "generates key (Generate k d) \<longleftrightarrow> k = key"
| "generates key _ \<longleftrightarrow> False"

text \<open>The answers to the Verify calls of a key.\<close>

fun verify_answers :: "string \<Rightarrow> code_event list \<Rightarrow> code_answer list \<Rightarrow> code_answer list" where
  "verify_answers key (Verify k x # es) (a # as) =
     (if k = key then a # verify_answers key es as else verify_answers key es as)"
| "verify_answers key (e # es) (a # as) = verify_answers key es as"
| "verify_answers key _ _ = []"

lemma code_keys_differ [simp]:
  "code_key k = code_key k' \<longleftrightarrow> k = k'" "interval_key k \<noteq> code_key k'" "daily_key k \<noteq> code_key k'"
  by (simp_all add: code_key_def interval_key_def daily_key_def)

subsection \<open>What the codes need of a store\<close>

text \<open>The text a key has in the store may get lost at any time (it expires, it is evicted), but
  only a Set or an Incr of that key gives it one, and a Delete takes it away.\<close>

locale code_store =
  fixes c :: "'s tools_cache"
    and elapse :: "duration \<Rightarrow> 's \<Rightarrow> 's"
    and inv :: "'s \<Rightarrow> bool"
    and stored :: "'s \<Rightarrow> string \<Rightarrow> string option"
  assumes get_stored: "inv s \<Longrightarrow> fst (tc_get c k s) = Inr x \<Longrightarrow> stored s k = Some x"
    and inv_get: "inv s \<Longrightarrow> inv (snd (tc_get c k s))"
    and inv_set: "inv s \<Longrightarrow> inv (snd (tc_set c k v d s))"
    and inv_delete: "inv s \<Longrightarrow> inv (snd (tc_delete c k s))"
    and inv_exists: "inv s \<Longrightarrow> inv (snd (tc_exists c k s))"
    and inv_incr: "inv s \<Longrightarrow> inv (snd (tc_incr c k d s))"
    and inv_elapse: "inv s \<Longrightarrow> inv (elapse d s)"
    and gone_get: "inv s \<Longrightarrow> stored s k' = None \<Longrightarrow> stored (snd (tc_get c k s)) k' = None"
    and gone_set: "inv s \<Longrightarrow> stored s k' = None \<Longrightarrow> k \<noteq> k' \<Longrightarrow>
      stored (snd (tc_set c k v d s)) k' = None"
    and gone_delete: "inv s \<Longrightarrow> stored s k' = None \<or> k = k' \<Longrightarrow>
      stored (snd (tc_delete c k s)) k' = None"
    and gone_exists: "inv s \<Longrightarrow> stored s k' = None \<Longrightarrow> stored (snd (tc_exists c k s)) k' = None"
    and gone_incr: "inv s \<Longrightarrow> stored s k' = None \<Longrightarrow> k \<noteq> k' \<Longrightarrow>
      stored (snd (tc_incr c k d s)) k' = None"
    and gone_elapse: "inv s \<Longrightarrow> stored s k' = None \<Longrightarrow> stored (elapse d s) k' = None"
begin

lemma inv_interval: "inv s \<Longrightarrow> inv (snd (interval_allow c k d s))"
  using inv_exists [of s k] inv_set [of "snd (tc_exists c k s)" k "''1''" d]
  by (auto simp: interval_allow_def split: prod.splits sum.splits)

lemma gone_interval:
  assumes "inv s" "stored s k' = None" "k \<noteq> k'"
  shows "stored (snd (interval_allow c k d s)) k' = None"
  using gone_exists [OF assms(1,2), of k] inv_exists [OF assms(1), of k]
    gone_set [of "snd (tc_exists c k s)" k' k "''1''" d] assms(3)
  by (auto simp: interval_allow_def split: prod.splits sum.splits)

lemma inv_count: "inv s \<Longrightarrow> inv (snd (count_allow c k n d s))"
  using inv_incr [of s k d] by (auto simp: count_allow_def split: prod.splits sum.splits)

lemma gone_count: "inv s \<Longrightarrow> stored s k' = None \<Longrightarrow> k \<noteq> k' \<Longrightarrow>
    stored (snd (count_allow c k n d s)) k' = None"
  using gone_incr [of s k' k d] by (auto simp: count_allow_def split: prod.splits sum.splits)

lemma store_code_keeps:
  assumes "inv s"
  shows "inv (snd (store_code c m digits k s)) \<and>
    (stored s (code_key k') = None \<and> k \<noteq> k' \<longrightarrow>
       stored (snd (store_code c m digits k s)) (code_key k') = None)"
  using assms by (simp add: store_code_def case_prod_unfold inv_set gone_set split: sum.split)

text \<open>The two limiters in front, each of which may be switched off.\<close>

lemma limiters_keep:
  assumes "inv s"
  shows "inv (snd (if b then interval_allow c (interval_key k) d s else (True, s)))"
    "inv (snd (if b then count_allow c (daily_key k) n d s else (True, s)))"
    "stored s (code_key k') = None \<Longrightarrow>
       stored (snd (if b then interval_allow c (interval_key k) d s else (True, s))) (code_key k') = None"
    "stored s (code_key k') = None \<Longrightarrow>
       stored (snd (if b then count_allow c (daily_key k) n d s else (True, s))) (code_key k') = None"
  using assms by (simp_all add: inv_interval inv_count gone_interval gone_count)

lemma generate_keeps:
  assumes "inv s"
  shows "inv (snd (generate c m digits k s)) \<and>
    (stored s (code_key k') = None \<and> k \<noteq> k' \<longrightarrow>
       stored (snd (generate c m digits k s)) (code_key k') = None)"
proof -
  let ?l1 = "if vc_send_interval m > 0 then interval_allow c (interval_key k) (vc_send_interval m) s
    else (True, s)"
  let ?l2 = "if vc_daily_limit m > 0
    then count_allow c (daily_key k) (vc_daily_limit m) (24 * hour) (snd ?l1) else (True, snd ?l1)"
  have i: "inv (snd ?l1)" by (rule limiters_keep(1) [OF assms])
  have i2: "inv (snd ?l2)" by (rule limiters_keep(2) [OF i])
  have g: "stored s (code_key k') = None \<Longrightarrow> stored (snd ?l1) (code_key k') = None"
    by (rule limiters_keep(3) [OF assms])
  then have g2: "stored s (code_key k') = None \<Longrightarrow> stored (snd ?l2) (code_key k') = None"
    by (intro limiters_keep(4) [OF i]) blast
  have eq: "generate c m digits k s =
      (if \<not> fst ?l1 then (Inl ErrIntervalLimited, snd ?l1)
       else if \<not> fst ?l2 then (Inl ErrDailyLimited, snd ?l2)
       else store_code c m digits k (snd ?l2))"
    unfolding generate_def by (simp only: case_prod_unfold) (auto split: bool.splits)
  obtain r1 s1 where l1: "?l1 = (r1, s1)" by (cases ?l1)
  obtain r2 s2 where l2: "?l2 = (r2, s2)" by (cases ?l2)
  show ?thesis
    unfolding eq using i i2 g g2 store_code_keeps [OF i2, of m digits k k'] unfolding l2
    unfolding l1 by auto
qed

lemma verify_keeps:
  assumes "inv s"
  shows "inv (snd (verify c k x s)) \<and>
    (stored s k' = None \<longrightarrow> stored (snd (verify c k x s)) k' = None) \<and>
    (fst (verify c k x s) \<longrightarrow> stored s (code_key k) \<noteq> None \<and>
       stored (snd (verify c k x s)) (code_key k) = None)"
proof (cases "tc_get c (code_key k) s")
  case (Pair r s1)
  have s1: "inv s1" "stored s k' = None \<Longrightarrow> stored s1 k' = None"
    using inv_get [OF assms, of "code_key k"] gone_get [OF assms, of k' "code_key k"]
    by (simp_all add: Pair)
  show ?thesis
    using s1 inv_delete [OF s1(1), of "code_key k"] gone_delete [OF s1(1)]
      get_stored [OF assms, of "code_key k"]
    by (auto simp: verify_def verify_read_def Pair split: sum.splits bool.splits)
qed

lemma gone_run:
  "inv s \<Longrightarrow> stored s (code_key k) = None \<Longrightarrow> \<forall>e \<in> set es. \<not> generates k e \<Longrightarrow>
     set (verify_answers k es (fst (code_run c elapse m es s))) \<subseteq> {Verified False}"
proof (induction es arbitrary: s)
  case (Cons e es)
  let ?s = "snd (code_step c elapse m e s)"
  have "inv ?s \<and> stored ?s (code_key k) = None"
    using Cons.prems generate_keeps [OF Cons.prems(1)] verify_keeps [OF Cons.prems(1)]
      inv_elapse [OF Cons.prems(1)] gone_elapse [OF Cons.prems(1)]
    by (cases e) (auto simp: case_prod_unfold)
  then have ih: "set (verify_answers k es (fst (code_run c elapse m es ?s))) \<subseteq> {Verified False}"
    using Cons.IH [of ?s] Cons.prems(3) by simp
  have "fst (verify c k x s) = False" for x
    using verify_keeps [OF Cons.prems(1), of k x] Cons.prems(2) by auto
  then show ?case
    using ih by (cases e) (auto simp: case_prod_unfold)
qed simp

lemma inv_run: "inv s \<Longrightarrow> inv (snd (code_run c elapse m es s))"
proof (induction es arbitrary: s)
  case (Cons e es)
  have "inv (snd (code_step c elapse m e s))"
    using generate_keeps [OF Cons.prems] verify_keeps [OF Cons.prems] inv_elapse [OF Cons.prems]
    by (cases e) (auto simp: case_prod_unfold)
  then show ?case using Cons.IH by (simp add: case_prod_unfold)
qed simp

lemma one_time:
  assumes "inv s" "fst (verify c k x s)" "\<forall>e \<in> set es. \<not> generates k e"
  shows "set (verify_answers k es (fst (code_run c elapse m es (snd (verify c k x s))))) \<subseteq>
    {Verified False}"
  using verify_keeps [OF assms(1), of k x] assms(2,3) gone_run by blast

end

subsection \<open>The local cache keeps that contract\<close>

abbreviation local_tools :: "(rat \<Rightarrow> int) \<Rightarrow> (cache_value \<Rightarrow> gerr + string) \<Rightarrow>
    local_world tools_cache" where
  "local_tools oob enc \<equiv> as_tools_cache (local_cache_ops oob enc)"

definition advance :: "duration \<Rightarrow> local_world \<Rightarrow> local_world" where
  "advance d w = w\<lparr>wl_now := wl_now w + d\<rparr>"

definition new_local_world :: "time \<Rightarrow> int \<Rightarrow> local_world" where
  "new_local_world now cap = \<lparr>wl_now = now, wl_cache = new_global_cache_with_capacity cap\<rparr>"

definition local_inv :: "local_world \<Rightarrow> bool" where
  "local_inv w \<longleftrightarrow> lru_wf (wl_cache w)"

definition local_stored :: "(cache_value \<Rightarrow> gerr + string) \<Rightarrow> local_world \<Rightarrow> string \<Rightarrow> string option" where
  "local_stored enc w k =
     map_option (\<lambda>it. case value_text enc (ci_value it) of Inl e \<Rightarrow> [] | Inr x \<Rightarrow> x)
       (map_of (recency_list (wl_cache w)) k)"

lemmas local_op_defs = as_tools_cache_def local_cache_ops_def on_cache_def local_get_def
  local_set_def local_delete_def local_exists_def local_incr_def case_prod_unfold

lemma local_tools_simps:
  "snd (tc_get (local_tools oob enc) k w) = w\<lparr>wl_cache := snd (lru_get (wl_now w) k (wl_cache w))\<rparr>"
  "fst (tc_get (local_tools oob enc) k w) =
     (case fst (lru_get (wl_now w) k (wl_cache w)) of
        None \<Rightarrow> Inl key_not_found | Some v \<Rightarrow> value_text enc v)"
  "tc_set (local_tools oob enc) k v d w =
     (Inr (), w\<lparr>wl_cache := set_with_expiration (wl_now w) k (VString v) d (wl_cache w)\<rparr>)"
  "tc_delete (local_tools oob enc) k w = (Inr (), w\<lparr>wl_cache := lru_delete k (wl_cache w)\<rparr>)"
  "tc_exists (local_tools oob enc) k w =
     (Inr (fst (lru_get (wl_now w) k (wl_cache w)) \<noteq> None),
      w\<lparr>wl_cache := snd (lru_get (wl_now w) k (wl_cache w))\<rparr>)"
  "tc_incr (local_tools oob enc) k d w =
     (Inr (fst (lru_incr oob (wl_now w) k d (wl_cache w))),
      w\<lparr>wl_cache := snd (lru_incr oob (wl_now w) k d (wl_cache w))\<rparr>)"
  by (simp_all add: local_op_defs split: option.split prod.split)

lemma map_of_take: "map_of ys k = None \<Longrightarrow> map_of (take n ys) k = None"
  by (auto simp: map_of_eq_None_iff dest: in_set_takeD)

lemma spec_put_gone: "map_of xs k' = None \<Longrightarrow> k \<noteq> k' \<Longrightarrow> map_of (spec_put cap k it xs) k' = None"
  by (auto simp: spec_put_def truncate_to_def map_of_take delete_conv')

lemma spec_get_gone: "map_of xs k' = None \<Longrightarrow> map_of (snd (spec_get now k xs)) k' = None"
  by (auto simp: spec_get_def delete_conv' split: option.split)

lemma spec_get_value: "fst (spec_get now k xs) = Some v \<Longrightarrow> \<exists>it. map_of xs k = Some it \<and> ci_value it = v"
  by (auto simp: spec_get_def split: option.splits if_splits)

lemma spec_incr_gone: "map_of xs k' = None \<Longrightarrow> k \<noteq> k' \<Longrightarrow>
    map_of (snd (spec_incr oob cap now k d xs)) k' = None"
  by (simp add: spec_incr_def Let_def spec_put_gone)

lemma local_get_stored:
  assumes "local_inv w" "fst (tc_get (local_tools oob enc) k w) = Inr x"
  shows "local_stored enc w k = Some x"
proof -
  obtain v where v: "fst (lru_get (wl_now w) k (wl_cache w)) = Some v" "value_text enc v = Inr x"
    using assms(2) by (auto simp: local_tools_simps split: option.splits)
  then have "fst (spec_get (wl_now w) k (recency_list (wl_cache w))) = Some v"
    using get_refines assms(1) by (simp add: local_inv_def)
  from spec_get_value [OF this] show ?thesis using v(2) by (auto simp: local_stored_def)
qed

interpretation local_codes: code_store "local_tools oob enc" advance local_inv "local_stored enc"
  for oob enc
proof unfold_locales
  show "local_inv s \<Longrightarrow> fst (tc_get (local_tools oob enc) k s) = Inr x \<Longrightarrow>
    local_stored enc s k = Some x" for s k x by (rule local_get_stored)
qed (auto simp: local_inv_def local_tools_simps local_stored_def advance_def get_refines set_refines
    delete_refines incr_refines spec_get_gone spec_put_gone spec_incr_gone delete_conv')

lemma new_local_inv: "local_inv (new_local_world now cap)"
  using new_lru_wf [of cap]
  by (simp add: local_inv_def new_local_world_def new_global_cache_with_capacity_def)

text \<open>C20. On the local cache a verification code works once: in every state a process can
  reach, after a Verify of a key that succeeded, every later Verify of the same key fails,
  whatever its input, as long as no new code is generated for that key; other keys, waiting,
  and the loss of entries in between do not change that.\<close>

theorem verification_code_is_one_time:
  assumes "w = snd (code_run (local_tools oob enc) advance m before (new_local_world now cap))"
    "verify (local_tools oob enc) key input w = (True, w')"
    "\<forall>e \<in> set after. \<not> generates key e"
  shows "set (verify_answers key after (fst (code_run (local_tools oob enc) advance m after w')))
    \<subseteq> {Verified False}"
proof -
  have "local_inv w" unfolding assms(1) by (rule local_codes.inv_run [OF new_local_inv])
  then show ?thesis
    using local_codes.one_time [of w oob enc key input after m] assms(2,3) by simp
qed

theorem verification_code_is_one_time_witness:
  "let m = new_manager [with_code_length 1, with_send_interval 0, with_daily_limit 0];
       c = local_tools (\<lambda>_. 0) (\<lambda>_. Inr []);
       w = snd (code_run c advance m [Generate ''u'' (\<lambda>_. Inr 7)] (new_local_world 5 0));
       w' = snd (verify c ''u'' ''7'' w)
   in fst (verify c ''u'' ''7'' w) \<and>
      set (verify_answers ''u'' [Verify ''u'' ''7'', Wait 1]
        (fst (code_run c advance m [Verify ''u'' ''7'', Wait 1] w'))) \<subseteq> {Verified False}"
proof -
  let ?m = "new_manager [with_code_length 1, with_send_interval 0, with_daily_limit 0]"
  let ?c = "local_tools (\<lambda>_. 0) (\<lambda>_. Inr [])"
  let ?w = "snd (code_run ?c advance ?m [Generate ''u'' (\<lambda>_. Inr 7)] (new_local_world 5 0))"
  have "fst (verify ?c ''u'' ''7'' ?w)" by code_simp
  then show ?thesis
    using verification_code_is_one_time [OF refl, of "\<lambda>_. 0" "\<lambda>_. Inr []" "''u''" "''7''" ?m
        "[Generate ''u'' (\<lambda>_. Inr 7)]" 5 0 "snd (verify ?c ''u'' ''7'' ?w)" "[Verify ''u'' ''7'', Wait 1]"]
    by (simp add: Let_def prod_eq_iff)
qed

text \<open>The one-time guarantee does not cover concurrent requests: Verify reads the code in
  one call of the cache and deletes it in another, so a second request that reads between the
  two finds the same code and is accepted too.\<close>

theorem concurrent_verify_accepts_twice:
  assumes "w = snd (code_run (local_tools oob enc) advance m before (new_local_world now cap))"
    "verify_read (local_tools oob enc) key input w = (True, w1)"
  shows "fst (verify_read (local_tools oob enc) key input w1)"
proof -
  let ?k = "code_key key"
  have inv: "lru_wf (wl_cache w)"
    using local_codes.inv_run [OF new_local_inv] unfolding assms(1) by (simp add: local_inv_def)
  obtain v where v: "fst (lru_get (wl_now w) ?k (wl_cache w)) = Some v"
    "value_text enc v = Inr input" "input \<noteq> []"
    "w1 = w\<lparr>wl_cache := snd (lru_get (wl_now w) ?k (wl_cache w))\<rparr>"
    using assms(2) by (auto simp: verify_read_def case_prod_unfold local_tools_simps
        split: sum.splits option.splits)
  note g = get_refines [OF inv, of "wl_now w" ?k]
  have s: "fst (spec_get (wl_now w) ?k (recency_list (wl_cache w))) = Some v" using g v(1) by simp
  then obtain it where it: "map_of (recency_list (wl_cache w)) ?k = Some it" "ci_value it = v"
    "\<not> is_expired (wl_now w) it"
    by (auto simp: spec_get_def split: option.splits if_splits)
  have "fst (spec_get (wl_now w) ?k (snd (spec_get (wl_now w) ?k (recency_list (wl_cache w))))) = Some v"
    using it by (auto simp: spec_get_def is_expired_def split: if_splits)
  then have "fst (lru_get (wl_now w1) ?k (wl_cache w1)) = Some v"
    using g get_refines [of "snd (lru_get (wl_now w) ?k (wl_cache w))" "wl_now w" ?k] v(4) by simp
  then show ?thesis
    using v(2,3) by (simp add: verify_read_def case_prod_unfold local_tools_simps)
qed

theorem concurrent_verify_accepts_twice_witness:
  "let m = new_manager [with_code_length 1, with_send_interval 0, with_daily_limit 0];
       c = local_tools (\<lambda>_. 0) (\<lambda>_. Inr []);
       w = snd (code_run c advance m [Generate ''u'' (\<lambda>_. Inr 7)] (new_local_world 5 0))
   in fst (verify_read c ''u'' ''7'' (snd (verify_read c ''u'' ''7'' w)))"
proof -
  let ?m = "new_manager [with_code_length 1, with_send_interval 0, with_daily_limit 0]"
  let ?c = "local_tools (\<lambda>_. 0) (\<lambda>_. Inr [])"
  let ?w = "snd (code_run ?c advance ?m [Generate ''u'' (\<lambda>_. Inr 7)] (new_local_world 5 0))"
  have "fst (verify_read ?c ''u'' ''7'' ?w)" by code_simp
  then show ?thesis
    using concurrent_verify_accepts_twice [OF refl, of "\<lambda>_. 0" "\<lambda>_. Inr []" "''u''" "''7''" ?m
        "[Generate ''u'' (\<lambda>_. Inr 7)]" 5 0 "snd (verify_read ?c ''u'' ''7'' ?w)"]
    by (simp add: Let_def prod_eq_iff)
qed

subsection \<open>The limiters on the local cache\<close>

text \<open>The interval limiter on the local cache lets a key pass once per interval: after it
  let the key pass, and any operations of the process on fewer distinct other keys than the
  capacity, it refuses the key up to the end of the interval and lets it pass afterwards.\<close>

theorem interval_limiter_once_per_interval:
  assumes "c = snd (cache_run oob before (new_lru_cache cap))"
    "interval_allow (local_tools oob enc) key d \<lparr>wl_now = t, wl_cache = c\<rparr> = (True, w1)"
    "0 \<le> t" "0 < d" "fits64 (t + d)"
    "finite S" "key \<notin> S" "get_capacity c > 0 \<longrightarrow> int (card S) < get_capacity c"
    "\<forall>(now, a) \<in> set after. touches_only S a \<and> now \<le> t + d"
  shows "fst (interval_allow (local_tools oob enc) key d'
      \<lparr>wl_now = t2, wl_cache = snd (cache_run oob after (wl_cache w1))\<rparr>) = (t + d < t2)"
proof -
  have c: "lru_wf c" using reachable_wf assms(1) by blast
  let ?c1 = "snd (lru_get t key c)"
  let ?c2 = "set_with_expiration t key (VString ''1'') d ?c1"
  have c1: "lru_wf ?c1" "lru_capacity ?c1 = lru_capacity c" using get_refines [OF c] by auto
  have cap: "lru_capacity ?c1 > 0 \<longrightarrow> int (card S) < lru_capacity ?c1"
    using assms(8) c1(2) by (simp add: get_capacity_def)
  have w1: "wl_cache w1 = ?c2"
    using assms(2) by (auto simp: interval_allow_def local_tools_simps split: if_splits)
  have dl: "(if d > 0 then expiration_at t d else 0) = t + d"
    using assms(4,5) by (simp add: expiration_at_def wrap64_id)
  have c2: "lru_wf ?c2" "lru_capacity ?c2 = lru_capacity ?c1"
    "held S key (VString ''1'') (t + d) (recency_list ?c2)"
    using set_refines [OF c1(1)] set_held [OF c1(1) assms(7,6) cap, of _ d t] by (simp_all add: dl)
  have "\<forall>(now, a) \<in> set after. touches_only S a \<and> (t + d = 0 \<or> now \<le> t + d)"
    using assms(9) by fastforce
  from run_held [OF c2(1,3) assms(7,6) _ this, of oob]
  have r: "lru_wf (snd (cache_run oob after ?c2))"
    "held S key (VString ''1'') (t + d) (recency_list (snd (cache_run oob after ?c2)))"
    using cap c2(2) by auto
  have "fst (lru_get t2 key (snd (cache_run oob after ?c2))) =
      (if t2 \<le> t + d then Some (VString ''1'') else None)"
    using get_refines [OF r(1), of t2 key] held_get [OF r(2), of t2] assms(3,4) by simp
  then show ?thesis by (auto simp: interval_allow_def local_tools_simps w1)
qed

theorem interval_limiter_once_per_interval_witness:
  "fst (interval_allow (local_tools (\<lambda>_. 0) (\<lambda>_. Inr [])) ''k'' 60 \<lparr>wl_now = 60, wl_cache =
     snd (cache_run (\<lambda>_. 0) [(20, CSet ''x'' (VInt 1) 0)]
       (wl_cache (snd (interval_allow (local_tools (\<lambda>_. 0) (\<lambda>_. Inr [])) ''k'' 60
          \<lparr>wl_now = 10, wl_cache = snd (cache_run (\<lambda>_. 0) [] (new_lru_cache 2))\<rparr>))))\<rparr>) = False"
proof -
  let ?w = "snd (interval_allow (local_tools (\<lambda>_. 0) (\<lambda>_. Inr [])) ''k'' 60
          \<lparr>wl_now = 10, wl_cache = snd (cache_run (\<lambda>_. 0) [] (new_lru_cache 2))\<rparr>)"
  have "interval_allow (local_tools (\<lambda>_. 0) (\<lambda>_. Inr [])) ''k'' 60
      \<lparr>wl_now = 10, wl_cache = snd (cache_run (\<lambda>_. 0) [] (new_lru_cache 2))\<rparr> = (True, ?w)"
    by (simp add: interval_allow_def local_tools_simps lru_get_def new_lru_cache_def)
  from interval_limiter_once_per_interval [OF refl this, of "{''x''}" "[(20, CSet ''x'' (VInt 1) 0)]" 60 60]
  show ?thesis by (simp add: fits64_def get_capacity_def new_lru_cache_def)
qed

text \<open>The answers to one key's calls of the counting limiter at the times of a list.\<close>

fun count_calls :: "(rat \<Rightarrow> int) \<Rightarrow> (cache_value \<Rightarrow> gerr + string) \<Rightarrow> string \<Rightarrow> int \<Rightarrow> duration \<Rightarrow>
    time list \<Rightarrow> lru_cache \<Rightarrow> bool list" where
  "count_calls oob enc key limit window [] c = []"
| "count_calls oob enc key limit window (t # ts) c =
     (case count_allow (local_tools oob enc) key limit window \<lparr>wl_now = t, wl_cache = c\<rparr> of
        (b, w) \<Rightarrow> b # count_calls oob enc key limit window ts (wl_cache w))"

text \<open>Each call comes no later than a window after the previous one.\<close>

fun within_window :: "duration \<Rightarrow> time \<Rightarrow> time list \<Rightarrow> bool" where
  "within_window window t [] \<longleftrightarrow> True"
| "within_window window t (u # us) \<longleftrightarrow>
     0 \<le> u \<and> u \<le> t + window \<and> fits64 (u + window) \<and> within_window window u us"

lemma count_allow_local:
  "count_allow (local_tools oob enc) key limit window \<lparr>wl_now = t, wl_cache = c\<rparr> =
    (fst (lru_incr oob t key window c) \<le> limit,
     \<lparr>wl_now = t, wl_cache = snd (lru_incr oob t key window c)\<rparr>)"
  by (simp add: count_allow_def local_tools_simps)

lemma spec_put_front: "\<exists>zs. spec_put cap k it xs = (k, it) # zs"
  using truncate_keeps [of "[]" "{}" cap "(k, it)" "AList.delete k xs"] by (auto simp: spec_put_def)

lemma incr_counts:
  assumes "lru_wf c" "0 < window" "fits64 (t + window)"
  shows "lru_wf (snd (lru_incr oob t key window c)) \<and>
    fst (lru_incr oob t key window c) = spec_count oob t key (recency_list c) \<and>
    (\<exists>it. map_of (recency_list (snd (lru_incr oob t key window c))) key = Some it \<and>
      ci_value it = VInt64 (spec_count oob t key (recency_list c)) \<and> ci_expiration it = t + window)"
proof -
  note r = incr_refines [OF assms(1), of oob t key window]
  obtain zs where "snd (spec_incr oob (lru_capacity c) t key window (recency_list c)) =
      (key, \<lparr>ci_value = VInt64 (spec_count oob t key (recency_list c)),
            ci_expiration = t + window, ci_access_time = t\<rparr>) # zs"
    using spec_put_front assms(2,3)
    by (fastforce simp: spec_incr_def Let_def spec_deadline_def expiration_at_def wrap64_id)
  then show ?thesis using r by (simp add: spec_incr_def Let_def)
qed

lemma count_calls_continue:
  "lru_wf c \<Longrightarrow> map_of (recency_list c) key = Some it \<Longrightarrow> ci_value it = VInt64 (int n) \<Longrightarrow>
   ci_expiration it = t + window \<Longrightarrow> 0 < window \<Longrightarrow> within_window window t ts \<Longrightarrow> 0 \<le> t \<Longrightarrow>
   int (n + length ts) < 2 ^ 63 \<Longrightarrow>
     count_calls oob enc key limit window ts c =
       map (\<lambda>i. int i \<le> limit) [Suc n ..< Suc n + length ts]"
proof (induction ts arbitrary: c it n t)
  case (Cons u us)
  have u: "0 \<le> u" "u \<le> t + window" "fits64 (u + window)" "within_window window u us"
    using Cons.prems(6) by simp_all
  have "spec_count oob u key (recency_list c) = wrap64 (int n + 1)"
    using Cons.prems(2-4) u(2) by (simp add: spec_count_def is_expired_def)
  also have "\<dots> = int (Suc n)"
    using Cons.prems(8) by (subst wrap64_id) (simp_all add: fits64_def)
  finally have n: "spec_count oob u key (recency_list c) = int (Suc n)" .
  obtain it' where it': "lru_wf (snd (lru_incr oob u key window c))"
    "fst (lru_incr oob u key window c) = int (Suc n)"
    "map_of (recency_list (snd (lru_incr oob u key window c))) key = Some it'"
    "ci_value it' = VInt64 (int (Suc n))" "ci_expiration it' = u + window"
    using incr_counts [OF Cons.prems(1,5) u(3), of oob key] unfolding n by blast
  have "count_calls oob enc key limit window us (snd (lru_incr oob u key window c)) =
      map (\<lambda>i. int i \<le> limit) [Suc (Suc n) ..< Suc (Suc n) + length us]"
    using Cons.prems(8) by (intro Cons.IH [OF it'(1,3,4,5) Cons.prems(5) u(4,1)]) simp
  then show ?case
    using it'(2) by (simp add: count_allow_local upt_conv_Cons del: upt_Suc)
qed simp

text \<open>C37. On the local cache the window of the counting limiter slides: the limiter lets the
  first \<open>limit\<close> calls of a key pass and refuses all that follow for as long as no two
  neighbouring calls are more than a window apart, however long that lasts, because every call,
  refused ones included, moves the deadline.\<close>

theorem count_limiter_window_slides:
  assumes "c = snd (cache_run oob before (new_lru_cache cap))"
    "fst (lru_get t key c) = None" "0 \<le> t" "0 < window" "fits64 (t + window)"
    "within_window window t ts" "int (Suc (length ts)) < 2 ^ 63"
  shows "count_calls oob enc key limit window (t # ts) c =
    map (\<lambda>i. int i \<le> limit) [1 ..< Suc (Suc (length ts))]"
proof -
  have c: "lru_wf c" using reachable_wf assms(1) by blast
  have "fst (spec_get t key (recency_list c)) = None"
    using get_refines [OF c, of t key] assms(2) by simp
  then have one: "spec_count oob t key (recency_list c) = 1"
    by (auto simp: spec_get_def spec_count_def split: option.splits if_splits)
  obtain it where it: "lru_wf (snd (lru_incr oob t key window c))"
    "fst (lru_incr oob t key window c) = 1"
    "map_of (recency_list (snd (lru_incr oob t key window c))) key = Some it"
    "ci_value it = VInt64 (int 1)" "ci_expiration it = t + window"
    using incr_counts [OF c assms(4,5), of oob key] unfolding one by auto
  have "count_calls oob enc key limit window ts (snd (lru_incr oob t key window c)) =
      map (\<lambda>i. int i \<le> limit) [Suc 1 ..< Suc 1 + length ts]"
    using assms(7) by (intro count_calls_continue [OF it(1,3,4,5) assms(4,6,3)]) simp
  moreover have "[1 ..< Suc (Suc (length ts))] = 1 # [Suc 1 ..< Suc 1 + length ts]"
    by (simp add: upt_conv_Cons del: upt_Suc)
  ultimately show ?thesis using it(2) by (simp add: count_allow_local del: upt_Suc)
qed

theorem count_limiter_window_slides_witness:
  "count_calls (\<lambda>_. 0) (\<lambda>_. Inr []) ''k'' 2 10 [0, 9, 18, 27]
     (snd (cache_run (\<lambda>_. 0) [] (new_lru_cache 0))) = [True, True, False, False]"
  using count_limiter_window_slides [OF refl, of 0 "''k''" "\<lambda>_. 0" "[]" 0 10 "[9, 18, 27]" "\<lambda>_. Inr []" 2]
  by (simp add: lru_get_def new_lru_cache_def fits64_def upt_rec)

end
