(* ===== verification/TokenBucket.thy ===== *)
theory TokenBucket
  imports Prelude Complex_Main
begin

text \<open>
  Admission control of the web middleware: the token bucket of \<open>tools/ratelimit/tokenbucket.go\<close>,
  its copy in \<open>frame/pkg/middleware/ratelimit.go\<close> with the store of one bucket per key, the
  two rate-limiting middlewares, and the circuit breaker. A \<open>float64\<close> is a rational number:
  rounding is not modelled. Each bucket and the breaker work under a mutex, so every operation
  is one function of its state and the time; a request takes its bucket from the store in one
  step and a token in another, so the clean-up can come in between.
\<close>

subsection \<open>The token bucket of package ratelimit\<close>

record token_bucket =
  tb_tokens :: rat
  tb_max :: rat
  tb_rate :: rat
  tb_last :: time

definition seconds :: "duration \<Rightarrow> rat" where
  "seconds d = of_int d / 1000000000"

definition new_token_bucket :: "time \<Rightarrow> rat \<Rightarrow> int \<Rightarrow> token_bucket" where
  "new_token_bucket now rate burst =
     \<lparr>tb_tokens = of_int burst, tb_max = of_int burst, tb_rate = rate, tb_last = now\<rparr>"

definition allow_n :: "int \<Rightarrow> time \<Rightarrow> token_bucket \<Rightarrow> bool \<times> token_bucket" where
  "allow_n n now tb =
     (let elapsed = seconds (now - tb_last tb);
          tb1 = tb\<lparr>tb_last := now, tb_tokens := tb_tokens tb + elapsed * tb_rate tb\<rparr>;
          tb2 = (if tb_tokens tb1 > tb_max tb1 then tb1\<lparr>tb_tokens := tb_max tb1\<rparr> else tb1)
      in if tb_tokens tb2 < of_int n then (False, tb2)
         else (True, tb2\<lparr>tb_tokens := tb_tokens tb2 - of_int n\<rparr>))"

definition bucket_allow :: "time \<Rightarrow> token_bucket \<Rightarrow> bool \<times> token_bucket" where
  "bucket_allow now tb = allow_n 1 now tb"

definition available :: "time \<Rightarrow> token_bucket \<Rightarrow> rat" where
  "available now tb =
     (let tokens = tb_tokens tb + seconds (now - tb_last tb) * tb_rate tb
      in if tokens > tb_max tb then tb_max tb else tokens)"

subsection \<open>The token bucket of the middleware\<close>

definition mw_new_token_bucket :: "time \<Rightarrow> rat \<Rightarrow> int \<Rightarrow> token_bucket" where
  "mw_new_token_bucket now rate burst =
     \<lparr>tb_tokens = of_int burst, tb_max = of_int burst, tb_rate = rate, tb_last = now\<rparr>"

definition mw_allow :: "time \<Rightarrow> token_bucket \<Rightarrow> bool \<times> token_bucket" where
  "mw_allow now tb =
     (let elapsed = seconds (now - tb_last tb);
          tb1 = tb\<lparr>tb_tokens := tb_tokens tb + elapsed * tb_rate tb\<rparr>;
          tb2 = (if tb_tokens tb1 > tb_max tb1 then tb1\<lparr>tb_tokens := tb_max tb1\<rparr> else tb1);
          tb3 = tb2\<lparr>tb_last := now\<rparr>
      in if tb_tokens tb3 \<ge> 1 then (True, tb3\<lparr>tb_tokens := tb_tokens tb3 - 1\<rparr>)
         else (False, tb3))"

subsection \<open>One bucket per key\<close>

text \<open>Buckets are pointers: the store maps a key to the index of its bucket.\<close>

record limiter_store =
  ls_buckets :: "(string, nat) gomap"
  ls_heap :: "token_bucket list"
  ls_rate :: rat
  ls_burst :: int

definition new_rate_limiter_store :: "rat \<Rightarrow> int \<Rightarrow> limiter_store" where
  "new_rate_limiter_store rate burst =
     \<lparr>ls_buckets = [], ls_heap = [], ls_rate = rate, ls_burst = burst\<rparr>"

definition get_bucket :: "time \<Rightarrow> string \<Rightarrow> limiter_store \<Rightarrow> nat \<times> limiter_store" where
  "get_bucket now key s =
     (case gm_get (ls_buckets s) key of
        Some i \<Rightarrow> (i, s)
      | None \<Rightarrow>
          (let i = length (ls_heap s) in
           (i, s\<lparr>ls_heap := ls_heap s @ [mw_new_token_bucket now (ls_rate s) (ls_burst s)],
                 ls_buckets := gm_put key i (ls_buckets s)\<rparr>)))"

text \<open>One round of the clean-up goroutine.\<close>

definition cleanup_buckets :: "time \<Rightarrow> limiter_store \<Rightarrow> limiter_store" where
  "cleanup_buckets now s =
     s\<lparr>ls_buckets := filter (\<lambda>(key, i). \<not> now - tb_last (ls_heap s ! i) > 10 * minute) (ls_buckets s)\<rparr>"

definition allow_at :: "time \<Rightarrow> nat \<Rightarrow> limiter_store \<Rightarrow> bool \<times> limiter_store" where
  "allow_at now i s =
     (case mw_allow now (ls_heap s ! i) of (b, tb) \<Rightarrow> (b, s\<lparr>ls_heap := (ls_heap s)[i := tb]\<rparr>))"

subsection \<open>The rate-limiting middlewares\<close>

text \<open>What a middleware does with a request: it calls the next handler, or it answers with the
  given handler or with a status and a code.\<close>

datatype mw_action = CallNext | CallHandler | AbortWith int int

record rate_limiter_config =
  rl_rate :: rat
  rl_burst :: int
  rl_has_exceed_handler :: bool

definition int_of_float :: "rat \<Rightarrow> int" where
  "int_of_float q = (if 0 \<le> q then \<lfloor>q\<rfloor> else \<lceil>q\<rceil>)"

definition normalize_rate_config :: "rate_limiter_config \<Rightarrow> rate_limiter_config" where
  "normalize_rate_config c =
     (let c1 = (if rl_rate c \<le> 0 then c\<lparr>rl_rate := 100\<rparr> else c)
      in if rl_burst c1 \<le> 0 then c1\<lparr>rl_burst := int_of_float (rl_rate c1)\<rparr> else c1)"

definition new_rate_limiter :: "rate_limiter_config \<Rightarrow> rate_limiter_config \<times> limiter_store" where
  "new_rate_limiter c =
     (let c1 = normalize_rate_config c in (c1, new_rate_limiter_store (rl_rate c1) (rl_burst c1)))"

definition exceed_action :: "rate_limiter_config \<Rightarrow> mw_action" where
  "exceed_action c = (if rl_has_exceed_handler c then CallHandler else AbortWith 429 42900)"

text \<open>A request of \<open>key\<close> that takes its bucket at \<open>t1\<close> and its token at \<open>t2\<close>.\<close>

definition rate_limit_request :: "rate_limiter_config \<Rightarrow> string \<Rightarrow> time \<Rightarrow> time \<Rightarrow> limiter_store \<Rightarrow>
    mw_action \<times> limiter_store" where
  "rate_limit_request c key t1 t2 s =
     (case get_bucket t1 key s of (i, s1) \<Rightarrow>
        case allow_at t2 i s1 of (b, s2) \<Rightarrow> (if b then CallNext else exceed_action c, s2))"

definition new_global_rate_limiter :: "time \<Rightarrow> rat \<Rightarrow> int \<Rightarrow> token_bucket" where
  "new_global_rate_limiter now rate burst =
     (let r = (if rate \<le> 0 then 1000 else rate);
          b = (if burst \<le> 0 then int_of_float r else burst)
      in mw_new_token_bucket now r b)"

definition global_rate_limit_request :: "time \<Rightarrow> token_bucket \<Rightarrow> mw_action \<times> token_bucket" where
  "global_rate_limit_request now tb =
     (case mw_allow now tb of (b, tb1) \<Rightarrow> (if b then CallNext else AbortWith 429 42900, tb1))"

subsection \<open>The circuit breaker\<close>

record breaker_config =
  cb_threshold :: int
  cb_window :: duration
  cb_cool_down :: duration
  cb_has_on_open :: bool

datatype breaker_state = StateClosed | StateOpen | StateHalfOpen

record breaker =
  cb_config :: breaker_config
  cb_state :: breaker_state
  cb_failures :: "time list"
  cb_last_open :: time

definition normalize_breaker_config :: "breaker_config \<Rightarrow> breaker_config" where
  "normalize_breaker_config c =
     (let c1 = (if cb_threshold c \<le> 0 then c\<lparr>cb_threshold := 10\<rparr> else c);
          c2 = (if cb_window c1 \<le> 0 then c1\<lparr>cb_window := 60 * second\<rparr> else c1)
      in if cb_cool_down c2 \<le> 0 then c2\<lparr>cb_cool_down := 30 * second\<rparr> else c2)"

text \<open>The zero time of \<open>lastOpen\<close> is \<open>zero\<close>; it is not read before the breaker opens.\<close>

definition new_breaker :: "time \<Rightarrow> breaker_config \<Rightarrow> breaker" where
  "new_breaker zero c =
     \<lparr>cb_config = normalize_breaker_config c, cb_state = StateClosed, cb_failures = [],
      cb_last_open = zero\<rparr>"

definition breaker_allow :: "time \<Rightarrow> breaker \<Rightarrow> bool \<times> breaker" where
  "breaker_allow now cb =
     (case cb_state cb of
        StateClosed \<Rightarrow> (True, cb)
      | StateOpen \<Rightarrow>
          if now - cb_last_open cb > cb_cool_down (cb_config cb)
          then (True, cb\<lparr>cb_state := StateHalfOpen\<rparr>) else (False, cb)
      | StateHalfOpen \<Rightarrow> (True, cb))"

definition record_success :: "breaker \<Rightarrow> breaker" where
  "record_success cb =
     (if cb_state cb = StateHalfOpen then cb\<lparr>cb_state := StateClosed, cb_failures := []\<rparr> else cb)"

definition record_failure :: "time \<Rightarrow> breaker \<Rightarrow> breaker" where
  "record_failure now cb =
     (let valid = filter (\<lambda>t. t > now - cb_window (cb_config cb)) (cb_failures cb @ [now]);
          cb1 = cb\<lparr>cb_failures := valid\<rparr>
      in if cb_state cb1 = StateHalfOpen then cb1\<lparr>cb_state := StateOpen, cb_last_open := now\<rparr>
         else if int (length valid) \<ge> cb_threshold (cb_config cb1)
         then cb1\<lparr>cb_state := StateOpen, cb_last_open := now\<rparr> else cb1)"

text \<open>The two halves of a request: before the next handler, and after it.\<close>

definition breaker_begin :: "time \<Rightarrow> breaker \<Rightarrow> mw_action \<times> breaker" where
  "breaker_begin now cb =
     (case breaker_allow now cb of
        (True, cb1) \<Rightarrow> (CallNext, cb1)
      | (False, cb1) \<Rightarrow>
          (if cb_has_on_open (cb_config cb) then CallHandler else AbortWith 503 50300, cb1))"

definition default_is_failure :: "int \<Rightarrow> bool" where
  "default_is_failure status \<longleftrightarrow> status \<ge> 500"

definition breaker_end :: "time \<Rightarrow> bool \<Rightarrow> breaker \<Rightarrow> breaker" where
  "breaker_end now failed cb = (if failed then record_failure now cb else record_success cb)"

subsection \<open>What a token bucket guarantees\<close>

text \<open>The tokens granted by the calls \<open>AllowN(n)\<close> at the times of a list.\<close>

fun bucket_run :: "(time \<times> int) list \<Rightarrow> token_bucket \<Rightarrow> int \<times> token_bucket" where
  "bucket_run [] tb = (0, tb)"
| "bucket_run ((t, n) # calls) tb =
     (case allow_n n t tb of (b, tb1) \<Rightarrow>
        case bucket_run calls tb1 of (k, tb2) \<Rightarrow> ((if b then n else 0) + k, tb2))"

lemma seconds_add: "seconds (a - b) + seconds (b - c) = seconds (a - c)"
  by (simp add: seconds_def field_simps)

lemma seconds_mono: "a \<le> b \<Longrightarrow> 0 \<le> seconds (b - a)"
  by (simp add: seconds_def)

definition refilled :: "time \<Rightarrow> token_bucket \<Rightarrow> rat" where
  "refilled t tb = min (tb_max tb) (tb_tokens tb + seconds (t - tb_last tb) * tb_rate tb)"

lemma allow_n_refilled:
  "allow_n n t tb =
     (if refilled t tb < of_int n then (False, tb\<lparr>tb_last := t, tb_tokens := refilled t tb\<rparr>)
      else (True, tb\<lparr>tb_last := t, tb_tokens := refilled t tb - of_int n\<rparr>))"
  by (auto simp: allow_n_def refilled_def Let_def min_def)

lemma available_refilled: "available t tb = refilled t tb"
  by (auto simp: available_def refilled_def Let_def min_def)

text \<open>Rate and capacity are fixed, and the level stays between zero and the capacity.\<close>

definition bucket_ok :: "rat \<Rightarrow> int \<Rightarrow> token_bucket \<Rightarrow> bool" where
  "bucket_ok rate burst tb \<longleftrightarrow> tb_rate tb = rate \<and> tb_max tb = of_int burst \<and>
     0 \<le> tb_tokens tb \<and> tb_tokens tb \<le> tb_max tb"

lemma refilled_bounds:
  assumes "bucket_ok rate burst tb" "0 \<le> rate" "tb_last tb \<le> t"
  shows "tb_tokens tb \<le> refilled t tb" "refilled t tb \<le> of_int burst"
    "refilled t tb \<le> tb_tokens tb + rate * seconds (t - tb_last tb)"
  using assms seconds_mono [OF assms(3)]
  by (auto simp: bucket_ok_def refilled_def mult.commute)

lemma allow_n_ok:
  assumes "bucket_ok rate burst tb" "0 \<le> rate" "tb_last tb \<le> t" "0 \<le> n"
  shows "bucket_ok rate burst (snd (allow_n n t tb))" "tb_last (snd (allow_n n t tb)) = t"
    "of_int (if fst (allow_n n t tb) then n else 0) + tb_tokens (snd (allow_n n t tb)) = refilled t tb"
proof -
  have "0 \<le> refilled t tb" using refilled_bounds(1) [OF assms(1-3)] assms(1)
    by (simp add: bucket_ok_def)
  moreover have "(0::rat) \<le> of_int n" using assms(4) by simp
  ultimately show "bucket_ok rate burst (snd (allow_n n t tb))"
    "tb_last (snd (allow_n n t tb)) = t"
    "of_int (if fst (allow_n n t tb) then n else 0) + tb_tokens (snd (allow_n n t tb)) = refilled t tb"
    using refilled_bounds(2) [OF assms(1-3)] assms(1)
    by (auto simp: allow_n_refilled bucket_ok_def)
qed

lemma bucket_run_bound:
  "bucket_ok rate burst tb \<Longrightarrow> 0 \<le> rate \<Longrightarrow> sorted (tb_last tb # map fst calls) \<Longrightarrow>
   \<forall>(t, n) \<in> set calls. 0 \<le> n \<Longrightarrow>
     bucket_ok rate burst (snd (bucket_run calls tb)) \<and>
     tb_last (snd (bucket_run calls tb)) = last (tb_last tb # map fst calls) \<and>
     of_int (fst (bucket_run calls tb)) + tb_tokens (snd (bucket_run calls tb)) \<le>
       tb_tokens tb + rate * seconds (last (tb_last tb # map fst calls) - tb_last tb)"
proof (induction calls arbitrary: tb)
  case Nil
  then show ?case by (simp add: seconds_def)
next
  case (Cons call calls)
  obtain t n where call: "call = (t, n)" by (cases call)
  let ?tb = "snd (allow_n n t tb)"
  have t: "tb_last tb \<le> t" "0 \<le> n" using Cons.prems(3,4) by (auto simp: call)
  note a = allow_n_ok [OF Cons.prems(1,2) t]
  have ih: "bucket_ok rate burst (snd (bucket_run calls ?tb)) \<and>
      tb_last (snd (bucket_run calls ?tb)) = last (t # map fst calls) \<and>
      of_int (fst (bucket_run calls ?tb)) + tb_tokens (snd (bucket_run calls ?tb)) \<le>
        tb_tokens ?tb + rate * seconds (last (t # map fst calls) - t)"
    using Cons.IH [OF a(1) Cons.prems(2)] Cons.prems(3,4) by (simp add: call a(2))
  have "rate * seconds (last (t # map fst calls) - t) + rate * seconds (t - tb_last tb) =
      rate * seconds (last (t # map fst calls) - tb_last tb)"
    by (simp add: seconds_add distrib_left [symmetric])
  then show ?case
    using ih a(3) refilled_bounds(3) [OF Cons.prems(1,2) t(1)]
    by (simp add: call case_prod_unfold)
qed

lemma new_bucket_ok: "0 \<le> burst \<Longrightarrow> bucket_ok rate burst (new_token_bucket now rate burst)"
  by (simp add: bucket_ok_def new_token_bucket_def)



fun answers :: "(time \<Rightarrow> token_bucket \<Rightarrow> bool \<times> token_bucket) \<Rightarrow> time list \<Rightarrow> token_bucket \<Rightarrow> bool list" where
  "answers f [] tb = []"
| "answers f (t # ts) tb = (case f t tb of (b, tb1) \<Rightarrow> b # answers f ts tb1)"

lemma mw_allow_eq: "mw_allow t tb = bucket_allow t tb"
  by (auto simp: mw_allow_def bucket_allow_def allow_n_def Let_def)

lemma mw_new_eq: "mw_new_token_bucket now rate burst = new_token_bucket now rate burst"
  by (simp add: mw_new_token_bucket_def new_token_bucket_def)

text \<open>The bucket the middleware has of its own behaves like the one of the tools package:
  created alike, every sequence of calls at any times gets the same answers.\<close>

theorem middleware_bucket_equals_tools_bucket:
  "answers mw_allow ts (mw_new_token_bucket now rate burst) =
   answers bucket_allow ts (new_token_bucket now rate burst)"
proof -
  have "mw_allow = bucket_allow" by (intro ext) (rule mw_allow_eq)
  then show ?thesis by (simp add: mw_new_eq)
qed

subsection \<open>Requests of the keyed limiter\<close>

datatype limiter_event = LRequest string time time | LCleanup time

fun limiter_run :: "rate_limiter_config \<Rightarrow> limiter_event list \<Rightarrow> limiter_store \<Rightarrow>
    mw_action list \<times> limiter_store" where
  "limiter_run c [] s = ([], s)"
| "limiter_run c (LRequest key t1 t2 # es) s =
     (case rate_limit_request c key t1 t2 s of (a, s1) \<Rightarrow>
        case limiter_run c es s1 of (as, s2) \<Rightarrow> (a # as, s2))"
| "limiter_run c (LCleanup t # es) s = limiter_run c es (cleanup_buckets t s)"

text \<open>A bucket without capacity never grants a token.\<close>

definition dry :: "token_bucket \<Rightarrow> bool" where
  "dry tb \<longleftrightarrow> tb_max tb = 0"

lemma mw_allow_dry: "dry tb \<Longrightarrow> \<not> fst (mw_allow t tb) \<and> dry (snd (mw_allow t tb))"
  by (auto simp: dry_def mw_allow_def Let_def)

definition dry_store :: "limiter_store \<Rightarrow> bool" where
  "dry_store s \<longleftrightarrow> ls_burst s = 0 \<and> list_all dry (ls_heap s) \<and>
     (\<forall>(k, i) \<in> set (ls_buckets s). i < length (ls_heap s))"

lemma put_subset: "set (gm_put k v m) \<subseteq> insert (k, v) (set m)"
  by (induction m) auto

lemma dry_get_bucket:
  assumes "dry_store s" "get_bucket now key s = (i, s1)"
  shows "dry_store s1 \<and> i < length (ls_heap s1)"
proof (cases "gm_get (ls_buckets s) key")
  case (Some j)
  then show ?thesis using assms by (force simp: get_bucket_def dry_store_def dest: map_of_SomeD)
next
  case None
  have "dry (mw_new_token_bucket now (ls_rate s) (ls_burst s))"
    using assms(1) by (simp add: dry_def mw_new_token_bucket_def dry_store_def)
  then show ?thesis
    using assms None put_subset [of key "length (ls_heap s)" "ls_buckets s"]
    by (fastforce simp: get_bucket_def dry_store_def Let_def less_SucI)
qed

lemma dry_request:
  assumes "dry_store s"
  shows "fst (rate_limit_request c key t1 t2 s) = exceed_action c \<and>
    dry_store (snd (rate_limit_request c key t1 t2 s))"
proof -
  obtain i s1 where g: "get_bucket t1 key s = (i, s1)" by (cases "get_bucket t1 key s")
  have s1: "dry_store s1" "i < length (ls_heap s1)" using dry_get_bucket [OF assms g] by auto
  have "dry (ls_heap s1 ! i)" using s1 by (simp add: dry_store_def list_all_length)
  note d = mw_allow_dry [OF this, of t2]
  have "list_all dry ((ls_heap s1)[i := snd (mw_allow t2 (ls_heap s1 ! i))])"
    using d s1 set_update_subset_insert [of "ls_heap s1" i]
    by (fastforce simp: dry_store_def list_all_iff)
  then show ?thesis
    using d s1 by (simp add: rate_limit_request_def g allow_at_def case_prod_unfold dry_store_def)
qed

lemma dry_run:
  "dry_store s \<Longrightarrow> set (fst (limiter_run c es s)) \<subseteq> {exceed_action c}"
proof (induction c es s rule: limiter_run.induct)
  case (2 c key t1 t2 es s)
  note d = dry_request [OF "2.prems", of c key t1 t2]
  have "set (fst (limiter_run c es (snd (rate_limit_request c key t1 t2 s)))) \<subseteq> {exceed_action c}"
    using "2.IH" [of "fst (rate_limit_request c key t1 t2 s)"
        "snd (rate_limit_request c key t1 t2 s)"] d by (simp add: prod_eq_iff)
  then show ?case using d by (simp add: case_prod_unfold)
next
  case (3 c t es s)
  have "dry_store (cleanup_buckets t s)"
    using "3.prems" by (auto simp: dry_store_def cleanup_buckets_def)
  then show ?case using "3.IH" by simp
qed simp

text \<open>A rate limiter configured with fewer than one request per second and no burst admits
  nobody: the default burst is the rate cut to an integer, zero, so no bucket of any key ever
  holds a token, whenever the requests come and whatever the clean-up removes.\<close>

theorem fractional_rate_admits_nobody:
  assumes "0 < rl_rate c" "rl_rate c < 1" "rl_burst c \<le> 0" "new_rate_limiter c = (c1, s)"
  shows "set (fst (limiter_run c1 es s)) \<subseteq> {exceed_action c} \<and> CallNext \<noteq> exceed_action c"
proof -
  have "\<lfloor>rl_rate c\<rfloor> = 0" using assms(1,2) by (simp add: floor_eq_iff)
  then have "dry_store s" "exceed_action c1 = exceed_action c"
    using assms by (auto simp: new_rate_limiter_def normalize_rate_config_def int_of_float_def
        new_rate_limiter_store_def dry_store_def exceed_action_def Let_def)
  then show ?thesis using dry_run [of s c1 es] by (simp add: exceed_action_def)
qed

theorem fractional_rate_admits_nobody_witness:
  "let c = \<lparr>rl_rate = 1 / 2, rl_burst = 0, rl_has_exceed_handler = False\<rparr>;
       (c1, s) = new_rate_limiter c
   in set (fst (limiter_run c1 [LRequest ''ip'' 0 0, LRequest ''ip'' 0 9000000000] s))
        \<subseteq> {AbortWith 429 42900}"
  using fractional_rate_admits_nobody
    [of "\<lparr>rl_rate = 1 / 2, rl_burst = 0, rl_has_exceed_handler = False\<rparr>"
        "fst (new_rate_limiter \<lparr>rl_rate = 1 / 2, rl_burst = 0, rl_has_exceed_handler = False\<rparr>)"
        "snd (new_rate_limiter \<lparr>rl_rate = 1 / 2, rl_burst = 0, rl_has_exceed_handler = False\<rparr>)"
        "[LRequest ''ip'' 0 0, LRequest ''ip'' 0 9000000000]"]
  by (simp add: Let_def case_prod_unfold exceed_action_def)

subsection \<open>What the circuit breaker guarantees\<close>

datatype breaker_event = BBegin time | BEnd time bool

fun event_time :: "breaker_event \<Rightarrow> time" where
  "event_time (BBegin t) = t"
| "event_time (BEnd t failed) = t"

fun breaker_step :: "breaker_event \<Rightarrow> breaker \<Rightarrow> mw_action option \<times> breaker" where
  "breaker_step (BBegin t) cb = (case breaker_begin t cb of (a, cb1) \<Rightarrow> (Some a, cb1))"
| "breaker_step (BEnd t failed) cb = (None, breaker_end t failed cb)"

fun breaker_run :: "breaker_event list \<Rightarrow> breaker \<Rightarrow> mw_action option list \<times> breaker" where
  "breaker_run [] cb = ([], cb)"
| "breaker_run (e # es) cb =
     (case breaker_step e cb of (a, cb1) \<Rightarrow> case breaker_run es cb1 of (as, cb2) \<Rightarrow> (a # as, cb2))"

lemmas breaker_defs = breaker_begin_def breaker_allow_def breaker_end_def record_success_def
  record_failure_def Let_def

lemma breaker_config_kept: "cb_config (snd (breaker_step e cb)) = cb_config cb"
  by (cases e) (auto simp: breaker_defs split: breaker_state.split if_splits)

lemma open_step:
  assumes "cb_state cb = StateOpen" "cb_last_open cb \<le> event_time e"
    "event_time e \<le> cb_last_open cb + cb_cool_down (cb_config cb)"
  shows "fst (breaker_step e cb) \<noteq> Some CallNext \<and> cb_state (snd (breaker_step e cb)) = StateOpen \<and>
    cb_last_open cb \<le> cb_last_open (snd (breaker_step e cb)) \<and>
    cb_last_open (snd (breaker_step e cb)) \<le> event_time e"
  using assms by (cases e) (auto simp: breaker_defs split: if_splits)

lemma open_run:
  "cb_state cb = StateOpen \<Longrightarrow> L \<le> cb_last_open cb \<Longrightarrow>
   sorted (cb_last_open cb # map event_time es) \<Longrightarrow>
   \<forall>e \<in> set es. event_time e \<le> L + cb_cool_down (cb_config cb) \<Longrightarrow>
     Some CallNext \<notin> set (fst (breaker_run es cb)) \<and> cb_state (snd (breaker_run es cb)) = StateOpen"
proof (induction es arbitrary: cb)
  case (Cons e es)
  let ?cb = "snd (breaker_step e cb)"
  have o: "fst (breaker_step e cb) \<noteq> Some CallNext" "cb_state ?cb = StateOpen"
    "cb_last_open cb \<le> cb_last_open ?cb" "cb_last_open ?cb \<le> event_time e"
    using open_step [OF Cons.prems(1), of e] Cons.prems(2-4) by force+
  have "sorted (cb_last_open ?cb # map event_time es)"
    using Cons.prems(3) o(4) by fastforce
  then have "Some CallNext \<notin> set (fst (breaker_run es ?cb)) \<and>
      cb_state (snd (breaker_run es ?cb)) = StateOpen"
    using Cons.prems(2,4) o(3) by (intro Cons.IH [OF o(2)]) (auto simp: breaker_config_kept)
  then show ?case using o(1) by (simp add: case_prod_unfold)
qed simp

text \<open>The failures reported so far, and those of them that lie in the window of the last one.\<close>

fun failure_times :: "breaker_event list \<Rightarrow> time list" where
  "failure_times [] = []"
| "failure_times (BEnd t True # es) = t # failure_times es"
| "failure_times (e # es) = failure_times es"

definition recent :: "duration \<Rightarrow> time list \<Rightarrow> time list" where
  "recent w fs = filter (\<lambda>t. t > last fs - w) fs"

lemma failure_times_append: "failure_times (xs @ ys) = failure_times xs @ failure_times ys"
  by (induction xs rule: failure_times.induct) auto

lemma failure_times_bound: "\<forall>e \<in> set es. event_time e \<le> u \<Longrightarrow> \<forall>t \<in> set (failure_times es). t \<le> u"
  by (induction es rule: failure_times.induct) auto

lemma recent_snoc:
  assumes "\<forall>t \<in> set fs. t \<le> u"
  shows "filter (\<lambda>t. t > u - w) (recent w fs @ [u]) = recent w (fs @ [u])"
proof (cases "fs = []")
  case False
  then have "last fs \<le> u" using assms by simp
  then show ?thesis by (auto simp: recent_def intro!: filter_cong)
qed (simp add: recent_def)

lemma breaker_run_snoc:
  "snd (breaker_run (es @ [e]) cb) = snd (breaker_step e (snd (breaker_run es cb)))"
  by (induction es arbitrary: cb) (auto simp: case_prod_unfold)

lemma breaker_run_config: "cb_config (snd (breaker_run es cb)) = cb_config cb"
  by (induction es arbitrary: cb) (simp_all add: case_prod_unfold breaker_config_kept)

text \<open>Whether some failure was the one that filled the window.\<close>

definition tripped :: "breaker_config \<Rightarrow> time list \<Rightarrow> bool" where
  "tripped c fs \<longleftrightarrow>
     list_ex (\<lambda>k. int (length (recent (cb_window c) (take k fs))) \<ge> cb_threshold c) [1 ..< Suc (length fs)]"

lemma tripped_snoc:
  "tripped c (fs @ [t]) \<longleftrightarrow>
     tripped c fs \<or> int (length (recent (cb_window c) (fs @ [t]))) \<ge> cb_threshold c"
proof -
  have "list_ex (\<lambda>k. int (length (recent (cb_window c) (take k (fs @ [t])))) \<ge> cb_threshold c)
      [1 ..< Suc (length fs)] \<longleftrightarrow> tripped c fs"
    unfolding tripped_def by (auto simp: list_ex_iff)
  then show ?thesis by (simp add: tripped_def)
qed

lemma breaker_answers_snoc:
  "fst (breaker_run (es @ [e]) cb) = fst (breaker_run es cb) @ [fst (breaker_step e (snd (breaker_run es cb)))]"
  by (induction es arbitrary: cb) (auto simp: case_prod_unfold)

lemma breaker_run_append:
  "fst (breaker_run (es @ es') cb) = fst (breaker_run es cb) @ fst (breaker_run es' (snd (breaker_run es cb)))"
  by (induction es arbitrary: cb) (auto simp: case_prod_unfold)

lemma closed_run:
  assumes "sorted (map event_time es)" "cb_state cb = StateClosed" "cb_failures cb = []"
    "\<not> tripped (cb_config cb) (failure_times es)"
  shows "cb_state (snd (breaker_run es cb)) = StateClosed \<and>
    cb_failures (snd (breaker_run es cb)) = recent (cb_window (cb_config cb)) (failure_times es) \<and>
    set (fst (breaker_run es cb)) \<subseteq> {None, Some CallNext}"
  using assms(1,4)
proof (induction es rule: rev_induct)
  case Nil
  then show ?case by (simp add: assms(2,3) recent_def)
next
  case (snoc e es)
  let ?cb = "snd (breaker_run es cb)"
  have cfg: "cb_config ?cb = cb_config cb" by (rule breaker_run_config)
  have sorted: "sorted (map event_time es)" "\<forall>x \<in> set es. event_time x \<le> event_time e"
    using snoc.prems(1) by (auto simp: sorted_append)
  have "\<not> tripped (cb_config cb) (failure_times es)"
  proof -
    have "failure_times [e] = [] \<or> failure_times [e] = [event_time e]"
    proof (cases e)
      case (BEnd t failed)
      then show ?thesis by (cases failed) simp_all
    qed simp
    then show ?thesis using snoc.prems(2) by (auto simp: failure_times_append tripped_snoc)
  qed
  note ih = snoc.IH [OF sorted(1) this]
  show ?case
  proof (cases "\<exists>t. e = BEnd t True")
    case True
    then obtain t where e: "e = BEnd t True" by blast
    have "\<forall>u \<in> set (failure_times es). u \<le> t"
      using failure_times_bound [of es t] sorted(2) by (simp add: e)
    note r = recent_snoc [OF this, of "cb_window (cb_config cb)"]
    have "\<not> int (length (recent (cb_window (cb_config cb)) (failure_times es @ [t]))) \<ge>
        cb_threshold (cb_config cb)"
      using snoc.prems(2) by (simp add: e failure_times_append tripped_snoc)
    then show ?thesis
      using ih r by (simp add: breaker_run_snoc breaker_answers_snoc e failure_times_append
          breaker_end_def record_failure_def Let_def cfg)
  next
    case False
    then have "failure_times [e] = []" by (cases e) auto
    then have "failure_times (es @ [e]) = failure_times es" by (simp add: failure_times_append)
    then show ?thesis
      using ih False by (cases e) (auto simp: breaker_run_snoc breaker_answers_snoc breaker_begin_def
          breaker_allow_def breaker_end_def record_success_def)
  qed
qed

text \<open>A new circuit breaker lets every request pass until a reported failure is the
  threshold-th one within the window; from then on, for the whole cool-down, it refuses every
  request, whatever requests still under way report.\<close>

theorem circuit_breaker_contract:
  assumes "cb = new_breaker zero c" "k = normalize_breaker_config c"
    "sorted (map event_time (es @ BEnd t True # es'))" "\<not> tripped k (failure_times es)"
    "int (length (recent (cb_window k) (failure_times es @ [t]))) \<ge> cb_threshold k"
    "\<forall>e \<in> set es'. event_time e \<le> t + cb_cool_down k"
  shows "set (fst (breaker_run es cb)) \<subseteq> {None, Some CallNext} \<and>
    Some CallNext \<notin> set (fst (breaker_run es' (snd (breaker_run (es @ [BEnd t True]) cb))))"
proof -
  have cb: "cb_config cb = k" "cb_state cb = StateClosed" "cb_failures cb = []"
    by (simp_all add: assms(1,2) new_breaker_def)
  let ?cb = "snd (breaker_run es cb)"
  let ?cb1 = "snd (breaker_run (es @ [BEnd t True]) cb)"
  have sorted: "sorted (map event_time es)" "\<forall>e \<in> set es. event_time e \<le> t"
    "sorted (t # map event_time es')"
    using assms(3) by (auto simp: sorted_append)
  have closed: "cb_state ?cb = StateClosed" "cb_failures ?cb = recent (cb_window k) (failure_times es)"
    "set (fst (breaker_run es cb)) \<subseteq> {None, Some CallNext}"
    using closed_run [OF sorted(1) cb(2,3)] assms(4) by (auto simp: cb(1))
  have cfg: "cb_config ?cb = k" by (simp add: breaker_run_config cb(1))
  note r = recent_snoc [OF failure_times_bound [OF sorted(2)], of "cb_window k"]
  have "cb_state ?cb1 = StateOpen \<and> cb_last_open ?cb1 = t \<and> cb_config ?cb1 = k"
    using closed(1,2) r assms(5)
    by (simp add: breaker_run_snoc breaker_end_def record_failure_def Let_def cfg)
  then have "Some CallNext \<notin> set (fst (breaker_run es' ?cb1))"
    using open_run [of ?cb1 t es'] sorted(3) assms(6) by simp
  then show ?thesis using closed(3) by simp
qed

theorem circuit_breaker_contract_witness:
  "let c = \<lparr>cb_threshold = 2, cb_window = 10, cb_cool_down = 5, cb_has_on_open = False\<rparr>;
       cb = new_breaker 0 c
   in Some CallNext \<notin> set (fst (breaker_run [BBegin 12, BEnd 13 False, BBegin 14]
        (snd (breaker_run ([BBegin 1, BEnd 2 True] @ [BEnd 11 True]) cb))))"
proof -
  let ?c = "\<lparr>cb_threshold = 2, cb_window = 10, cb_cool_down = 5, cb_has_on_open = False\<rparr>"
  have "normalize_breaker_config ?c = ?c" by (simp add: normalize_breaker_config_def)
  then show ?thesis
    using circuit_breaker_contract [OF refl refl, of "[BBegin 1, BEnd 2 True]" 11
        "[BBegin 12, BEnd 13 False, BBegin 14]" ?c 0]
    by (simp add: tripped_def recent_def Let_def del: breaker_run.simps)
qed

end
