(* ===== verification/Numbers.thy ===== *)
theory Numbers
  imports Prelude Complex_Main
begin

text \<open>
  The numeric helpers of \<open>tools/num/number.go\<close>. A Go \<open>int\<close> is an integer between
  \<open>- 2 ^ 63\<close> and \<open>2 ^ 63 - 1\<close> whose operations wrap around (\<open>wrap64\<close>); division truncates
  and panics on a zero divisor; a \<open>float64\<close> is a rational number (no rounding, no NaN). The
  loop of \<open>IsPrime\<close> squares its counter with wrap-around, so it is a partial function, which
  is then shown to return. Formatting and parsing of floats are parameters.
\<close>

subsection \<open>Go's integer arithmetic\<close>

definition quot :: "int \<Rightarrow> int \<Rightarrow> int" where
  "quot a b = (if (a < 0) = (b < 0) then \<bar>a\<bar> div \<bar>b\<bar> else - (\<bar>a\<bar> div \<bar>b\<bar>))"

definition rem :: "int \<Rightarrow> int \<Rightarrow> int" where
  "rem a b = (if a < 0 then - (\<bar>a\<bar> mod \<bar>b\<bar>) else \<bar>a\<bar> mod \<bar>b\<bar>)"

definition go_div :: "int \<Rightarrow> int \<Rightarrow> int outcome" where
  "go_div a b = (if b = 0 then Panic ''integer divide by zero'' else Done (wrap64 (quot a b)))"

definition go_rem :: "int \<Rightarrow> int \<Rightarrow> int outcome" where
  "go_rem a b = (if b = 0 then Panic ''integer divide by zero'' else Done (rem a b))"

lemma rem_abs: "b \<noteq> 0 \<Longrightarrow> \<bar>rem a b\<bar> < \<bar>b\<bar>"
  by (simp add: rem_def)

lemma quot_rem: "a = b * quot a b + rem a b"
proof -
  obtain q r where qr: "\<bar>a\<bar> div \<bar>b\<bar> = q" "\<bar>a\<bar> mod \<bar>b\<bar> = r" "\<bar>a\<bar> = \<bar>b\<bar> * q + r"
    by (metis mult_div_mod_eq)
  show ?thesis unfolding quot_def rem_def qr(1,2)
    using qr(3) by (auto simp: abs_if split: if_splits)
qed

lemma rem_nonneg: "0 \<le> a \<Longrightarrow> 0 < b \<Longrightarrow> rem a b = a mod b"
  by (simp add: rem_def)

lemma quot_nonneg: "0 \<le> a \<Longrightarrow> 0 < b \<Longrightarrow> quot a b = a div b"
  by (simp add: quot_def)

subsection \<open>Comparing\<close>

definition min_of :: "int list \<Rightarrow> int" where
  "min_of nums = (case nums of [] \<Rightarrow> 0 | x # xs \<Rightarrow> fold (\<lambda>num m. if num < m then num else m) xs x)"

definition max_of :: "int list \<Rightarrow> int" where
  "max_of nums = (case nums of [] \<Rightarrow> 0 | x # xs \<Rightarrow> fold (\<lambda>num m. if num > m then num else m) xs x)"

definition min_float :: "rat list \<Rightarrow> rat" where
  "min_float nums = (case nums of [] \<Rightarrow> 0 | x # xs \<Rightarrow> fold (\<lambda>num m. if num < m then num else m) xs x)"

definition max_float :: "rat list \<Rightarrow> rat" where
  "max_float nums = (case nums of [] \<Rightarrow> 0 | x # xs \<Rightarrow> fold (\<lambda>num m. if num > m then num else m) xs x)"

definition clamp :: "int \<Rightarrow> int \<Rightarrow> int \<Rightarrow> int" where
  "clamp num lo hi = (if num < lo then lo else if num > hi then hi else num)"

definition clamp_float :: "rat \<Rightarrow> rat \<Rightarrow> rat \<Rightarrow> rat" where
  "clamp_float num lo hi = (if num < lo then lo else if num > hi then hi else num)"

subsection \<open>Numbers as text in a base\<close>

text \<open>\<open>strconv.FormatInt\<close>; \<open>digit_char\<close> has the digits up to base 36.\<close>

function format_nat :: "nat \<Rightarrow> nat \<Rightarrow> string" where
  "format_nat b n = (if b < 2 then [] else if n < b then [digit_char n]
     else format_nat b (n div b) @ [digit_char (n mod b)])"
  by pat_completeness auto

termination format_nat
  by (relation "measure snd") (auto intro: div_less_dividend)

declare format_nat.simps [simp del]

definition format_int :: "int \<Rightarrow> nat \<Rightarrow> string" where
  "format_int i b = (if i < 0 then CHR ''-'' # format_nat b (nat (- i)) else format_nat b (nat i))"

text \<open>\<open>strconv.ParseInt(s, base, 64)\<close>, base 0 with its prefixes and underscores included.\<close>

datatype num_error =
    NumSyntax string | NumRange string | NumBase int | NumOverflow string | NumUnsupported string

definition lower_code :: "char \<Rightarrow> nat" where
  "lower_code c = (let n = of_char c in if 65 \<le> n \<and> n \<le> 90 then n + 32 else n)"

definition digit_of :: "char \<Rightarrow> nat option" where
  "digit_of c =
     (let n = lower_code c in
      if 48 \<le> n \<and> n \<le> 57 then Some (n - 48)
      else if 97 \<le> n \<and> n \<le> 122 then Some (n - 87) else None)"

datatype parse_state = POk nat | PSyntax | PRange

fun parse_digits_in :: "nat \<Rightarrow> bool \<Rightarrow> nat \<Rightarrow> string \<Rightarrow> parse_state" where
  "parse_digits_in b base0 n [] = POk n"
| "parse_digits_in b base0 n (c # cs) =
     (if base0 \<and> c = CHR ''_'' then parse_digits_in b base0 n cs
      else case digit_of c of
        None \<Rightarrow> PSyntax
      | Some d \<Rightarrow>
          if d \<ge> b then PSyntax
          else if n * b + d \<ge> 2 ^ 64 then PRange
          else parse_digits_in b base0 (n * b + d) cs)"

text \<open>What was seen last: the start, a digit or prefix, an underscore, anything else.\<close>

datatype seen = SawStart | SawDigit | SawUnderscore | SawOther

fun underscore_loop :: "bool \<Rightarrow> seen \<Rightarrow> string \<Rightarrow> bool" where
  "underscore_loop hex saw [] \<longleftrightarrow> saw \<noteq> SawUnderscore"
| "underscore_loop hex saw (c # cs) \<longleftrightarrow>
     (if 48 \<le> (of_char c :: nat) \<and> (of_char c :: nat) \<le> 57 \<or>
         hex \<and> 97 \<le> lower_code c \<and> lower_code c \<le> 102
      then underscore_loop hex SawDigit cs
      else if c = CHR ''_'' then saw = SawDigit \<and> underscore_loop hex SawUnderscore cs
      else saw \<noteq> SawUnderscore \<and> underscore_loop hex SawOther cs)"

text \<open>The prefix \<open>0b\<close>, \<open>0o\<close> or \<open>0x\<close>, as its base and the rest of the string.\<close>

definition base_prefix :: "string \<Rightarrow> (nat \<times> string) option" where
  "base_prefix s =
     (case s of
        z # l # rest \<Rightarrow>
          if z = CHR ''0'' then
            (if lower_code l = 98 then Some (2, rest)
             else if lower_code l = 111 then Some (8, rest)
             else if lower_code l = 120 then Some (16, rest) else None)
          else None
      | _ \<Rightarrow> None)"

definition underscore_ok :: "string \<Rightarrow> bool" where
  "underscore_ok s =
     (case base_prefix s of
        Some (b, rest) \<Rightarrow> underscore_loop (b = 16) SawDigit rest
      | None \<Rightarrow> underscore_loop False SawStart s)"

definition parse_uint_in :: "nat \<Rightarrow> string \<Rightarrow> parse_state" where
  "parse_uint_in base s =
     (if s = [] then PSyntax
      else if base \<noteq> 0 then parse_digits_in base False 0 s
      else
        let (b, rest) = (if hd s \<noteq> CHR ''0'' then (10, s)
                         else if length s \<ge> 3
                         then (case base_prefix s of Some br \<Rightarrow> br | None \<Rightarrow> (8, tl s))
                         else (8, tl s));
            r = parse_digits_in b True 0 rest
        in case r of
             POk n \<Rightarrow> if CHR ''_'' \<in> set rest \<and> \<not> underscore_ok s then PSyntax else POk n
           | e \<Rightarrow> e)"

definition parse_int :: "string \<Rightarrow> int \<Rightarrow> num_error + int" where
  "parse_int s base =
     (if s = [] then Inl (NumSyntax s)
      else
        let neg = (hd s = CHR ''-'');
            digits = (if hd s = CHR ''-'' \<or> hd s = CHR ''+'' then tl s else s)
        in if digits \<noteq> [] \<and> \<not> (base = 0 \<or> 2 \<le> base \<and> base \<le> 36) then Inl (NumBase base)
           else case parse_uint_in (nat base) digits of
             PSyntax \<Rightarrow> Inl (NumSyntax s)
           | PRange \<Rightarrow> Inl (NumRange s)
           | POk n \<Rightarrow>
               if \<not> neg \<and> int n \<ge> 2 ^ 63 \<or> neg \<and> int n > 2 ^ 63 then Inl (NumRange s)
               else Inr (if neg then - int n else int n))"

definition atoi :: "string \<Rightarrow> num_error + int" where
  "atoi s = parse_int s 10"

definition to_binary :: "int \<Rightarrow> string" where
  "to_binary num = format_int num 2"

definition to_octal :: "int \<Rightarrow> string" where
  "to_octal num = format_int num 8"

definition to_hex :: "int \<Rightarrow> string" where
  "to_hex num = format_int num 16"

definition from_binary :: "string \<Rightarrow> num_error + int" where
  "from_binary s = parse_int s 2"

definition from_octal :: "string \<Rightarrow> num_error + int" where
  "from_octal s = parse_int s 8"

definition from_hex :: "string \<Rightarrow> num_error + int" where
  "from_hex s = parse_int s 16"

definition to_base :: "int \<Rightarrow> int \<Rightarrow> string" where
  "to_base num base = (if base < 2 \<or> base > 36 then [] else format_int num (nat base))"

definition from_base :: "string \<Rightarrow> int \<Rightarrow> num_error + int" where
  "from_base s base = parse_int s base"

subsection \<open>Converting values\<close>

text \<open>The dynamic types the conversions distinguish; a value of any other type is known by the
  name of its type and its default format.\<close>

datatype num_value =
    NInt int | NInt8 int | NInt16 int | NInt32 int | NInt64 int
  | NUint int | NUint8 int | NUint16 int | NUint32 int | NUint64 int
  | NFloat32 rat | NFloat64 rat | NString string | NBool bool | NOther string string

text \<open>\<open>int(f)\<close> truncates; outside the range of int the result is the implementation's
  (\<open>oob\<close>).\<close>

definition float_to_int :: "(rat \<Rightarrow> int) \<Rightarrow> rat \<Rightarrow> int" where
  "float_to_int oob q =
     (let n = (if 0 \<le> q then \<lfloor>q\<rfloor> else \<lceil>q\<rceil>) in if fits64 n then n else oob q)"

fun to_int :: "(rat \<Rightarrow> int) \<Rightarrow> num_value \<Rightarrow> num_error + int" where
  "to_int oob (NInt n) = Inr n"
| "to_int oob (NInt8 n) = Inr n"
| "to_int oob (NInt16 n) = Inr n"
| "to_int oob (NInt32 n) = Inr n"
| "to_int oob (NInt64 n) = Inr n"
| "to_int oob (NUint n) =
     (if n > 2 ^ 63 - 1 then Inl (NumOverflow ''uint value overflows int'') else Inr n)"
| "to_int oob (NUint8 n) = Inr n"
| "to_int oob (NUint16 n) = Inr n"
| "to_int oob (NUint32 n) = Inr n"
| "to_int oob (NUint64 n) =
     (if n > 2 ^ 63 - 1 then Inl (NumOverflow ''uint64 value overflows int'') else Inr n)"
| "to_int oob (NFloat32 q) = Inr (float_to_int oob q)"
| "to_int oob (NFloat64 q) = Inr (float_to_int oob q)"
| "to_int oob (NString s) = atoi s"
| "to_int oob (NBool b) = Inr (if b then 1 else 0)"
| "to_int oob (NOther t s) = Inl (NumUnsupported t)"

definition to_int_default :: "(rat \<Rightarrow> int) \<Rightarrow> num_value \<Rightarrow> int \<Rightarrow> int" where
  "to_int_default oob v d = (case to_int oob v of Inl e \<Rightarrow> d | Inr n \<Rightarrow> n)"

text \<open>\<open>parse_float\<close> is \<open>strconv.ParseFloat\<close> with 64 bits.\<close>

fun to_float :: "(string \<Rightarrow> num_error + rat) \<Rightarrow> num_value \<Rightarrow> num_error + rat" where
  "to_float parse_float (NInt n) = Inr (of_int n)"
| "to_float parse_float (NInt8 n) = Inr (of_int n)"
| "to_float parse_float (NInt16 n) = Inr (of_int n)"
| "to_float parse_float (NInt32 n) = Inr (of_int n)"
| "to_float parse_float (NInt64 n) = Inr (of_int n)"
| "to_float parse_float (NUint n) = Inr (of_int n)"
| "to_float parse_float (NUint8 n) = Inr (of_int n)"
| "to_float parse_float (NUint16 n) = Inr (of_int n)"
| "to_float parse_float (NUint32 n) = Inr (of_int n)"
| "to_float parse_float (NUint64 n) = Inr (of_int n)"
| "to_float parse_float (NFloat32 q) = Inr q"
| "to_float parse_float (NFloat64 q) = Inr q"
| "to_float parse_float (NString s) = parse_float s"
| "to_float parse_float (NBool b) = Inr (if b then 1 else 0)"
| "to_float parse_float (NOther t s) = Inl (NumUnsupported t)"

definition to_float_default :: "(string \<Rightarrow> num_error + rat) \<Rightarrow> num_value \<Rightarrow> rat \<Rightarrow> rat" where
  "to_float_default parse_float v d = (case to_float parse_float v of Inl e \<Rightarrow> d | Inr q \<Rightarrow> q)"

text \<open>\<open>fmt\<close> is \<open>strconv.FormatFloat\<close> with format g and the shortest precision, of 32 or 64
  bits.\<close>

fun to_string :: "(rat \<Rightarrow> nat \<Rightarrow> string) \<Rightarrow> num_value \<Rightarrow> string" where
  "to_string fmt (NInt n) = format_int n 10"
| "to_string fmt (NInt8 n) = format_int n 10"
| "to_string fmt (NInt16 n) = format_int n 10"
| "to_string fmt (NInt32 n) = format_int n 10"
| "to_string fmt (NInt64 n) = format_int n 10"
| "to_string fmt (NUint n) = format_int n 10"
| "to_string fmt (NUint8 n) = format_int n 10"
| "to_string fmt (NUint16 n) = format_int n 10"
| "to_string fmt (NUint32 n) = format_int n 10"
| "to_string fmt (NUint64 n) = format_int n 10"
| "to_string fmt (NFloat32 q) = fmt q 32"
| "to_string fmt (NFloat64 q) = fmt q 64"
| "to_string fmt (NString s) = s"
| "to_string fmt (NBool b) = (if b then ''true'' else ''false'')"
| "to_string fmt (NOther t s) = s"

subsection \<open>Thousands separators\<close>

text \<open>The loop over the integer part from its last byte; \<open>done_bytes\<close> bytes are done.\<close>

fun comma_loop :: "nat \<Rightarrow> string \<Rightarrow> string \<Rightarrow> string" where
  "comma_loop done_bytes [] result = result"
| "comma_loop done_bytes (c # cs) result =
     comma_loop (Suc done_bytes) cs
       (c # (if done_bytes > 0 \<and> done_bytes mod 3 = 0 then CHR '','' # result else result))"

fun split_dot :: "string \<Rightarrow> string list" where
  "split_dot [] = [[]]"
| "split_dot (c # cs) =
     (if c = CHR ''.'' then [] # split_dot cs
      else case split_dot cs of [] \<Rightarrow> [[c]] | p # ps \<Rightarrow> (c # p) # ps)"

text \<open>\<open>text\<close> is \<open>strconv.FormatFloat(num, 'f', -1, 64)\<close>.\<close>

definition commas_of :: "string \<Rightarrow> string" where
  "commas_of text =
     (let parts = split_dot text;
          result = comma_loop 0 (rev (hd parts)) []
      in if length parts > 1 then result @ ''.'' @ parts ! 1 else result)"

definition format_number_with_commas :: "(rat \<Rightarrow> string) \<Rightarrow> rat \<Rightarrow> string" where
  "format_number_with_commas fmt num = commas_of (fmt num)"

definition format_currency :: "(rat \<Rightarrow> string) \<Rightarrow> rat \<Rightarrow> string \<Rightarrow> string" where
  "format_currency fmt num symbol = symbol @ format_number_with_commas fmt num"

subsection \<open>Arithmetic\<close>

definition abs_int :: "int \<Rightarrow> int" where
  "abs_int num = (if num < 0 then wrap64 (- num) else num)"

definition abs_float :: "rat \<Rightarrow> rat" where
  "abs_float num = \<bar>num\<bar>"

definition math_round :: "rat \<Rightarrow> int" where
  "math_round q = (if 0 \<le> q then \<lfloor>q + 1 / 2\<rfloor> else \<lceil>q - 1 / 2\<rceil>)"

definition round_int :: "(rat \<Rightarrow> int) \<Rightarrow> rat \<Rightarrow> int" where
  "round_int oob num = float_to_int oob (of_int (math_round num))"

definition floor_int :: "(rat \<Rightarrow> int) \<Rightarrow> rat \<Rightarrow> int" where
  "floor_int oob num = float_to_int oob (of_int \<lfloor>num\<rfloor>)"

definition ceil_int :: "(rat \<Rightarrow> int) \<Rightarrow> rat \<Rightarrow> int" where
  "ceil_int oob num = float_to_int oob (of_int \<lceil>num\<rceil>)"

definition mod_int :: "int \<Rightarrow> int \<Rightarrow> int outcome" where
  "mod_int a b = go_rem a b"

definition sum_int :: "int list \<Rightarrow> int" where
  "sum_int nums = fold (\<lambda>num s. wrap64 (s + num)) nums 0"

definition sum_float :: "rat list \<Rightarrow> rat" where
  "sum_float nums = fold (\<lambda>num s. s + num) nums 0"

definition average :: "int list \<Rightarrow> rat" where
  "average nums = (if nums = [] then 0 else of_int (sum_int nums) / of_nat (length nums))"

definition average_float :: "rat list \<Rightarrow> rat" where
  "average_float nums = (if nums = [] then 0 else sum_float nums / of_nat (length nums))"

text \<open>\<open>draw n\<close> is \<open>rand.IntN(n)\<close>, which panics unless \<open>n\<close> is positive.\<close>

definition random_int :: "(int \<Rightarrow> int) \<Rightarrow> int \<Rightarrow> int \<Rightarrow> int outcome" where
  "random_int draw lo hi =
     (let n = wrap64 (wrap64 (hi - lo) + 1) in
      if n \<le> 0 then Panic ''invalid argument to IntN'' else Done (wrap64 (draw n + lo)))"

subsection \<open>Predicates\<close>

definition is_even :: "int \<Rightarrow> bool" where
  "is_even num \<longleftrightarrow> rem num 2 = 0"

definition is_odd :: "int \<Rightarrow> bool" where
  "is_odd num \<longleftrightarrow> rem num 2 \<noteq> 0"

definition is_positive :: "rat \<Rightarrow> bool" where
  "is_positive num \<longleftrightarrow> num > 0"

definition is_negative :: "rat \<Rightarrow> bool" where
  "is_negative num \<longleftrightarrow> num < 0"

definition is_zero :: "rat \<Rightarrow> bool" where
  "is_zero num \<longleftrightarrow> num = 0"

definition is_integer :: "rat \<Rightarrow> bool" where
  "is_integer num \<longleftrightarrow> of_int \<lfloor>num\<rfloor> = num"

partial_function (option) prime_loop :: "int \<Rightarrow> int \<Rightarrow> bool option" where
  "prime_loop num i =
     (if wrap64 (i * i) \<le> num
      then if rem num i = 0 \<or> rem num (wrap64 (i + 2)) = 0 then Some False
           else prime_loop num (wrap64 (i + 6))
      else Some True)"

definition is_prime :: "int \<Rightarrow> bool option" where
  "is_prime num =
     (if num \<le> 1 then Some False
      else if num \<le> 3 then Some True
      else if rem num 2 = 0 \<or> rem num 3 = 0 then Some False
      else prime_loop num 5)"

subsection \<open>Loops over integers\<close>

function gcd_int :: "int \<Rightarrow> int \<Rightarrow> int" where
  "gcd_int a b = (if b \<noteq> 0 then gcd_int b (rem a b) else a)"
  by pat_completeness auto

termination gcd_int
  by (relation "measure (\<lambda>(a, b). nat \<bar>b\<bar>)") (auto simp: rem_abs)

declare gcd_int.simps [simp del]

definition lcm_int :: "int \<Rightarrow> int \<Rightarrow> int" where
  "lcm_int a b = (if a = 0 \<or> b = 0 then 0 else wrap64 (quot (wrap64 (a * b)) (gcd_int a b)))"

text \<open>\<open>for i := 2; i <= num; i++ \<open>{ result *= i }\<close>\<close>, with \<open>n\<close> rounds to go.\<close>

fun factorial_loop :: "int \<Rightarrow> int \<Rightarrow> nat \<Rightarrow> int" where
  "factorial_loop result i 0 = result"
| "factorial_loop result i (Suc n) = factorial_loop (wrap64 (result * i)) (i + 1) n"

definition factorial :: "int \<Rightarrow> int" where
  "factorial num =
     (if num < 0 then 0 else if num = 0 \<or> num = 1 then 1 else factorial_loop 1 2 (nat (num - 1)))"

fun fib_loop :: "int \<Rightarrow> int \<Rightarrow> nat \<Rightarrow> int" where
  "fib_loop a b 0 = b"
| "fib_loop a b (Suc n) = fib_loop b (wrap64 (a + b)) n"

definition fibonacci :: "int \<Rightarrow> int" where
  "fibonacci n = (if n \<le> 0 then 0 else if n = 1 \<or> n = 2 then 1 else fib_loop 1 1 (nat (n - 2)))"

text \<open>The slice filled from index 2 on; \<open>make\<close> panics on a negative length.\<close>

fun fib_fill :: "int list \<Rightarrow> nat \<Rightarrow> int list" where
  "fib_fill sq 0 = sq"
| "fib_fill sq (Suc n) =
     fib_fill (sq @ [wrap64 (sq ! (length sq - 1) + sq ! (length sq - 2))]) n"

definition fibonacci_sequence :: "int \<Rightarrow> int list outcome" where
  "fibonacci_sequence n =
     (if n < 0 then Panic ''makeslice: len out of range''
      else if n = 0 then Done [] else if n = 1 then Done [1]
      else Done (fib_fill [1, 1] (nat (n - 2))))"

lemma quot_10_less: "num \<noteq> 0 \<Longrightarrow> \<bar>quot num 10\<bar> < \<bar>num\<bar>"
  by (simp add: quot_def abs_if) (auto simp: int_div_less_self)

function digit_loop :: "int \<Rightarrow> int \<Rightarrow> int" where
  "digit_loop n num = (if num \<noteq> 0 then digit_loop (n + 1) (quot num 10) else n)"
  by pat_completeness auto

termination digit_loop
  by (relation "measure (\<lambda>(n, num). nat \<bar>num\<bar>)") (auto dest: quot_10_less)

definition digit_count :: "int \<Rightarrow> int" where
  "digit_count num = (if num = 0 then 1 else digit_loop 0 num)"

function digit_sum_loop :: "int \<Rightarrow> int \<Rightarrow> int" where
  "digit_sum_loop s num = (if num \<noteq> 0 then digit_sum_loop (s + rem num 10) (quot num 10) else s)"
  by pat_completeness auto

termination digit_sum_loop
  by (relation "measure (\<lambda>(s, num). nat \<bar>num\<bar>)") (auto dest: quot_10_less)

definition sum_of_digits :: "int \<Rightarrow> int" where
  "sum_of_digits num = digit_sum_loop 0 num"

function reverse_loop :: "int \<Rightarrow> int \<Rightarrow> int" where
  "reverse_loop r num =
     (if num \<noteq> 0 then reverse_loop (wrap64 (wrap64 (r * 10) + rem num 10)) (quot num 10) else r)"
  by pat_completeness auto

termination reverse_loop
  by (relation "measure (\<lambda>(r, num). nat \<bar>num\<bar>)") (auto dest: quot_10_less)

definition reverse_number :: "int \<Rightarrow> int" where
  "reverse_number num = reverse_loop 0 num"

declare digit_loop.simps [simp del] digit_sum_loop.simps [simp del] reverse_loop.simps [simp del]

subsection \<open>Printing and reading in a base\<close>

lemma digit_char_of: "d < 36 \<Longrightarrow> of_char (digit_char d) = (if d < 10 then 48 + d else 87 + d)"
  by (simp add: digit_char_def)

lemma digit_of_digit_char: "d < 36 \<Longrightarrow> digit_of (digit_char d) = Some d"
  by (auto simp: digit_of_def lower_code_def digit_char_of Let_def)

lemma digit_char_no_sign: "d < 36 \<Longrightarrow> digit_char d \<noteq> CHR ''-'' \<and> digit_char d \<noteq> CHR ''+''"
proof -
  assume d: "d < 36"
  have "of_char (digit_char d) \<ge> (48::nat)" using d by (simp add: digit_char_of)
  then show ?thesis by auto
qed

lemma format_nat_digits:
  "2 \<le> b \<Longrightarrow> b \<le> 36 \<Longrightarrow> format_nat b n \<noteq> [] \<and> set (format_nat b n) \<subseteq> digit_char ` {..<36}"
proof (induction b n rule: format_nat.induct)
  case (1 b n)
  then show ?case
    by (subst (1 2) format_nat.simps) (auto intro!: imageI less_le_trans [of _ b 36])
qed

lemma parse_digits_snoc:
  "parse_digits_in b False n (xs @ [c]) =
     (case parse_digits_in b False n xs of POk m \<Rightarrow> parse_digits_in b False m [c] | e \<Rightarrow> e)"
  by (induction xs arbitrary: n) (auto split: option.splits)

lemma parse_format_nat:
  "2 \<le> b \<Longrightarrow> b \<le> 36 \<Longrightarrow> n < 2 ^ 64 \<Longrightarrow> parse_digits_in b False 0 (format_nat b n) = POk n"
proof (induction b n rule: format_nat.induct)
  case (1 b n)
  show ?case
  proof (cases "n < b")
    case True
    then show ?thesis using "1.prems"
      by (simp add: format_nat.simps [of b n] digit_of_digit_char)
  next
    case False
    have "n div b < 2 ^ 64"
      using "1.prems"(3) by (meson div_le_dividend le_less_trans)
    then have "parse_digits_in b False 0 (format_nat b (n div b)) = POk (n div b)"
      using "1.IH" "1.prems" False by simp
    moreover have "\<not> b \<le> n mod b" using "1.prems"(1) by (simp add: not_le)
    moreover have "n mod b < 36" using "1.prems" by (meson less_le_trans mod_less_divisor zero_less_numeral)
    ultimately show ?thesis
      using "1.prems" False
      by (simp add: format_nat.simps [of b n] parse_digits_snoc digit_of_digit_char)
  qed
qed

lemma parse_format_int:
  assumes "fits64 n" "2 \<le> b" "b \<le> 36"
  shows "parse_int (format_int n b) (int b) = Inr n"
proof -
  let ?m = "nat \<bar>n\<bar>"
  have m: "?m < 2 ^ 64" using assms(1) by (auto simp: fits64_def nat_less_iff abs_if)
  note d = format_nat_digits [OF assms(2,3), of ?m]
  then have "hd (format_nat b ?m) \<in> digit_char ` {..<36}" by (meson hd_in_set subsetD)
  then obtain k where "hd (format_nat b ?m) = digit_char k" "k < 36" by auto
  then have sign: "hd (format_nat b ?m) \<noteq> CHR ''-'' \<and> hd (format_nat b ?m) \<noteq> CHR ''+''"
    using digit_char_no_sign [of k] by simp
  have u: "parse_uint_in b (format_nat b ?m) = POk ?m"
    using d assms(2) parse_format_nat [OF assms(2,3) m] by (simp add: parse_uint_in_def)
  show ?thesis
  proof (cases "n < 0")
    case True
    then have "format_int n b = CHR ''-'' # format_nat b ?m" by (simp add: format_int_def)
    then show ?thesis
      using True u d assms by (simp add: parse_int_def fits64_def)
  next
    case False
    then have "format_int n b = format_nat b ?m" by (simp add: format_int_def)
    then show ?thesis
      using False u d sign assms by (simp add: parse_int_def fits64_def)
  qed
qed

text \<open>Printing a 64-bit integer in a base and reading it back gives the integer: for the
  general functions in every base from 2 to 36, for the binary, octal and hexadecimal ones, and
  for the decimal text that ToString prints and ToInt reads.\<close>

theorem number_text_round_trip:
  assumes "fits64 n" "2 \<le> b" "b \<le> 36"
  shows "from_base (to_base n b) b = Inr n \<and> from_binary (to_binary n) = Inr n \<and>
    from_octal (to_octal n) = Inr n \<and> from_hex (to_hex n) = Inr n \<and>
    to_int oob (NString (to_string fmt (NInt n))) = Inr n"
proof -
  have "parse_int (format_int n (nat b)) (int (nat b)) = Inr n"
    using assms by (intro parse_format_int) auto
  then have "from_base (to_base n b) b = Inr n"
    using assms(2,3) by (simp add: from_base_def to_base_def)
  then show ?thesis
    using parse_format_int [OF assms(1), of 2] parse_format_int [OF assms(1), of 8]
      parse_format_int [OF assms(1), of 16] parse_format_int [OF assms(1), of 10]
    by (simp add: from_binary_def to_binary_def from_octal_def to_octal_def from_hex_def to_hex_def
        atoi_def)
qed

theorem number_text_round_trip_witness:
  "from_base (to_base (- 255) 16) 16 = Inr (- 255) \<and> from_hex (to_hex (- 255)) = Inr (- 255)"
  using number_text_round_trip [of "- 255" 16 "\<lambda>_. 0" "\<lambda>_ _. []"] by (simp add: fits64_def)

subsection \<open>Primality\<close>

lemma rem_zero_iff: "0 \<le> a \<Longrightarrow> 0 < b \<Longrightarrow> rem a b = 0 \<longleftrightarrow> b dvd a"
  by (simp add: rem_nonneg dvd_eq_mod_eq_0)

text \<open>The squares the loop compares stay in range when the number leaves room for one more
  step.\<close>

lemma square_in_range:
  fixes i :: int
  assumes "5 \<le> i" "i * i \<le> num" "num \<le> 2 ^ 63 - 2 ^ 36"
  shows "i < 2 ^ 32" "fits64 ((i + 6) * (i + 6))" "wrap64 (i + 2) = i + 2" "wrap64 (i + 6) = i + 6"
proof -
  show i: "i < 2 ^ 32"
  proof (rule ccontr)
    assume "\<not> i < 2 ^ 32"
    then have "(2 ^ 32) * (2 ^ 32) \<le> i * i" by (intro mult_mono) auto
    then show False using assms(2,3) by simp
  qed
  have "(i + 6) * (i + 6) = i * i + 12 * i + 36" by (simp add: algebra_simps)
  moreover have "0 \<le> i * i" by simp
  ultimately show "fits64 ((i + 6) * (i + 6))"
    using i assms by (simp add: fits64_def)
  show "wrap64 (i + 2) = i + 2" "wrap64 (i + 6) = i + 6"
    using i assms(1) by (simp_all add: wrap64_id fits64_def)
qed

definition no_divisor_below :: "int \<Rightarrow> int \<Rightarrow> bool" where
  "no_divisor_below num i \<longleftrightarrow> (\<forall>d. 1 < d \<and> d < i \<longrightarrow> \<not> d dvd num)"

lemma no_divisor_step:
  assumes "no_divisor_below num i" "i mod 6 = 5" "5 \<le> i" "\<not> i dvd num" "\<not> (i + 2) dvd num"
  shows "no_divisor_below num (i + 6)"
proof -
  have small: "\<not> 2 dvd num" "\<not> 3 dvd num"
    using assms(1,3) by (auto simp: no_divisor_below_def)
  have "\<not> d dvd num" if d: "1 < d" "d < i + 6" for d
  proof
    assume dvd: "d dvd num"
    then have "i \<le> d" using assms(1) d by (meson no_divisor_below_def not_less)
    then have "d \<in> {i, i + 1, i + 2, i + 3, i + 4, i + 5}" using d(2) by auto
    moreover have "2 dvd (i + 1)" "2 dvd (i + 3)" "2 dvd (i + 5)" "3 dvd (i + 4)"
      using assms(2) by presburger+
    ultimately have "d = i \<or> d = i + 2 \<or> 2 dvd num \<or> 3 dvd num"
      using dvd dvd_trans by blast
    then show False using assms(4,5) small dvd by auto
  qed
  then show ?thesis by (simp add: no_divisor_below_def)
qed

lemma no_divisor_end:
  assumes "no_divisor_below num i" "num < i * i" "1 < num" "0 < i"
  shows "no_divisor_below num num"
proof -
  have "\<not> d dvd num" if d: "1 < d" "d < num" for d
  proof
    assume "d dvd num"
    then obtain e where e: "num = d * e" by (elim dvdE)
    have "1 < e" using e d assms(3) by (metis int_one_le_iff_zero_less less_le mult.right_neutral
          not_less order.asym zero_less_mult_iff)
    moreover have "e dvd num" using e by simp
    moreover have "d < i \<or> e < i"
    proof (rule ccontr)
      assume "\<not> (d < i \<or> e < i)"
      then have "i * i \<le> d * e" using assms(4) by (intro mult_mono) auto
      then show False using assms(2) e by simp
    qed
    ultimately show False using assms(1) d \<open>d dvd num\<close> by (auto simp: no_divisor_below_def)
  qed
  then show ?thesis by (simp add: no_divisor_below_def)
qed

lemma prime_loop_correct:
  assumes "no_divisor_below num i" "i mod 6 = 5" "5 \<le> i" "fits64 (i * i)" "4 \<le> num"
    "num \<le> 2 ^ 63 - 2 ^ 36"
  shows "prime_loop num i = Some (no_divisor_below num num)"
  using assms
proof (induction "nat (num - i)" arbitrary: i rule: less_induct)
  case less
  have sq: "wrap64 (i * i) = i * i" using less.prems(4) by (rule wrap64_id)
  show ?case
  proof (cases "i * i \<le> num")
    case False
    then show ?thesis
      using no_divisor_end [OF less.prems(1)] less.prems(3,5) by (simp add: prime_loop.simps sq)
  next
    case True
    note r = square_in_range [OF less.prems(3) True less.prems(6)]
    have lt: "i + 2 < num"
    proof -
      have "5 * i \<le> i * i" using less.prems(3) by (intro mult_right_mono) auto
      then show ?thesis using True less.prems(3) by linarith
    qed
    show ?thesis
    proof (cases "i dvd num \<or> (i + 2) dvd num")
      case d: True
      have "1 < i" "1 < i + 2" "i < num" using lt less.prems(3) by auto
      then have "\<not> no_divisor_below num num"
        using d lt unfolding no_divisor_below_def by blast
      then show ?thesis
        using d True less.prems(3,5) r by (subst prime_loop.simps) (simp add: sq rem_zero_iff)
    next
      case d: False
      have "prime_loop num (i + 6) = Some (no_divisor_below num num)"
      proof (rule less.hyps)
        show "nat (num - (i + 6)) < nat (num - i)" using lt by simp
        show "no_divisor_below num (i + 6)" using no_divisor_step less.prems(1-3) d by blast
        show "(i + 6) mod 6 = 5" using less.prems(2) by presburger
      qed (use less.prems r in simp_all)
      then show ?thesis
        using d True less.prems(3,5) r by (subst prime_loop.simps) (simp add: sq rem_zero_iff)
    qed
  qed
qed

text \<open>C36. IsPrime returns, and its answer is whether the number has no divisor but one and
  itself, for every number up to \<open>2 ^ 63 - 2 ^ 36\<close>: up to there the square of the loop counter
  cannot wrap around.\<close>

theorem is_prime_correct:
  assumes "num \<le> 2 ^ 63 - 2 ^ 36"
  shows "is_prime num = Some (1 < num \<and> {d. 1 < d \<and> d < num \<and> d dvd num} = {})"
proof -
  have set_iff: "{d. 1 < d \<and> d < num \<and> d dvd num} = {} \<longleftrightarrow> no_divisor_below num num"
    by (auto simp: no_divisor_below_def)
  consider "num \<le> 1" | "num = 2" | "num = 3" | "4 \<le> num" by linarith
  then show ?thesis
  proof cases
    case 4
    have below: "no_divisor_below num 5 \<longleftrightarrow> \<not> 2 dvd num \<and> \<not> 3 dvd num"
    proof -
      have "d = 2 \<or> d = 3 \<or> d = 4" if "1 < d" "d < 5" for d :: int using that by auto
      moreover have "(4 :: int) dvd num \<longrightarrow> 2 dvd num" by presburger
      ultimately show ?thesis by (auto simp: no_divisor_below_def)
    qed
    have big: "2 < num" "3 < num" using 4 by auto
    show ?thesis
    proof (cases "2 dvd num \<or> 3 dvd num")
      case True
      then have "\<not> no_divisor_below num num" using big unfolding no_divisor_below_def by force
      then show ?thesis unfolding set_iff using True 4 by (simp add: is_prime_def rem_zero_iff)
    next
      case False
      then have "prime_loop num 5 = Some (no_divisor_below num num)"
        using prime_loop_correct [of num 5] below 4 assms by (simp add: fits64_def)
      then show ?thesis unfolding set_iff using False 4 by (simp add: is_prime_def rem_zero_iff)
    qed
  next
    case 3
    have "\<not> d dvd 3" if "1 < d" "d < 3" for d :: int
    proof -
      have "d = 2" using that by simp
      then show ?thesis by simp
    qed
    then show ?thesis using 3 by (auto simp: is_prime_def)
  qed (auto simp: is_prime_def)
qed

theorem is_prime_correct_witness:
  "is_prime 91 = Some (1 < (91 :: int) \<and> {d. 1 < d \<and> d < 91 \<and> d dvd (91 :: int)} = {})"
  using is_prime_correct [of 91] by simp

subsection \<open>Greatest common divisors\<close>

lemma gcd_int_abs: "\<bar>gcd_int a b\<bar> = gcd a b"
proof (induction a b rule: gcd_int.induct)
  case (1 a b)
  show ?case
  proof (cases "b = 0")
    case False
    have "gcd b (rem a b) = gcd b a"
    proof -
      have "rem a b = a - quot a b * b" using quot_rem [of a b] by (simp add: algebra_simps)
      then show ?thesis by (metis gcd_diff1 gcd_add_mult gcd.commute diff_conv_add_uminus
            minus_mult_left add.commute)
    qed
    then show ?thesis using "1.IH" [OF False] False
      by (simp add: gcd_int.simps [of a b] gcd.commute)
  qed (simp add: gcd_int.simps [of a 0])
qed

lemma gcd_int_pos: "0 \<le> a \<Longrightarrow> 0 \<le> b \<Longrightarrow> 0 \<le> gcd_int a b"
proof (induction a b rule: gcd_int.induct)
  case (1 a b)
  then show ?case
    by (subst gcd_int.simps) (simp add: rem_nonneg)
qed

text \<open>GCD returns the greatest common divisor up to its sign, and exactly for arguments that
  are not negative; LCM of positive arguments returns the least common multiple whenever their
  product fits 64 bits.\<close>

theorem gcd_lcm_correct:
  "\<bar>gcd_int a b\<bar> = gcd a b \<and>
   (if 0 \<le> a \<and> 0 \<le> b then gcd_int a b else gcd a b) = gcd a b \<and>
   (if 0 < a \<and> 0 < b \<and> fits64 (a * b) then lcm_int a b else lcm a b) = lcm a b"
proof -
  have pos: "gcd_int a b = gcd a b" if "0 \<le> a" "0 \<le> b"
    using gcd_int_abs [of a b] gcd_int_pos [OF that] by simp
  have "lcm_int a b = lcm a b" if ab: "0 < a" "0 < b" "fits64 (a * b)"
  proof -
    have prod: "a * b = lcm a b * gcd a b"
      using ab prod_gcd_lcm_int [of a b] by (simp add: mult.commute)
    have g: "0 < gcd a b" using ab(1) by simp
    have "lcm a b * gcd a b div gcd a b = lcm a b" using g by (intro nonzero_mult_div_cancel_right) simp
    then have "(a * b) div gcd a b = lcm a b" using prod by argo
    moreover have "quot (a * b) (gcd a b) = (a * b) div gcd a b"
      using ab g by (intro quot_nonneg) simp_all
    moreover have "lcm a b \<le> a * b" using ab by (intro zdvd_imp_le) simp_all
    then have "fits64 (lcm a b)" using ab(3) lcm_ge_0_int [of a b] unfolding fits64_def by linarith
    ultimately show ?thesis
      using ab pos by (simp add: lcm_int_def wrap64_id)
  qed
  then show ?thesis using gcd_int_abs pos by simp
qed

subsection \<open>Thousands separators\<close>

text \<open>The commas of a string of which \<open>k\<close> more bytes follow.\<close>

fun grouped :: "nat \<Rightarrow> string \<Rightarrow> string" where
  "grouped k [] = []"
| "grouped k (c # cs) =
     (if length cs + k > 0 \<and> (length cs + k) mod 3 = 0 then c # CHR '','' # grouped k cs
      else c # grouped k cs)"

lemma comma_loop_append:
  "comma_loop k (xs @ ys) r = comma_loop (k + length xs) ys (comma_loop k xs r)"
  by (induction xs arbitrary: k r) auto

lemma comma_loop_grouped: "comma_loop k (rev s) r = grouped k s @ r"
proof (induction s arbitrary: r)
  case (Cons c s)
  show ?case by (simp add: comma_loop_append Cons.IH add.commute)
qed simp

lemma grouped_append: "grouped k (xs @ ys) = grouped (length ys + k) xs @ grouped k ys"
  by (induction xs) (auto simp: add_ac)

lemma grouped_filter: "filter (\<lambda>c. c \<noteq> CHR '','') (grouped k s) = filter (\<lambda>c. c \<noteq> CHR '','') s"
  by (induction s) auto

lemma grouped_short: "length s \<le> 3 \<Longrightarrow> grouped 0 s = s"
  by (induction s) auto

lemma split_dot_plain: "CHR ''.'' \<notin> set s \<Longrightarrow> split_dot s = [s]"
  by (induction s) auto

lemma commas_plain: "CHR ''.'' \<notin> set s \<Longrightarrow> commas_of s = grouped 0 s"
  using comma_loop_grouped [of 0 s "[]"] by (simp add: commas_of_def split_dot_plain)

lemma filter_id_mem: "x \<notin> set s \<Longrightarrow> filter (\<lambda>c. c \<noteq> x) s = s"
  by (induction s) auto

lemma grouped_cong:
  assumes "m mod 3 = k mod 3" "0 < m" "0 < k"
  shows "grouped m zs = grouped k zs"
proof (induction zs)
  case (Cons c zs)
  have "(length zs + m) mod 3 = (length zs + k) mod 3"
    using assms(1) by (metis mod_add_right_eq)
  then show ?case using Cons.IH assms(2,3) by simp
qed simp

lemma grouped_split:
  assumes "xs \<noteq> []" "ys \<noteq> []" "length ys mod 3 = 0"
  shows "grouped 0 (xs @ ys) = grouped 0 xs @ CHR '','' # grouped 0 ys"
proof -
  obtain zs c where xs: "xs = zs @ [c]" using assms(1) by (metis rev_exhaust)
  have "Suc (length ys) mod 3 = Suc 0 mod 3" using assms(3) by presburger
  then have "grouped (Suc (length ys)) zs = grouped (Suc 0) zs"
    by (intro grouped_cong) simp_all
  then show ?thesis using assms(2,3) by (simp add: xs grouped_append)
qed

text \<open>FormatNumberWithCommas of a number whose text is digits only changes nothing but to
  put a comma in front of every group of three digits counted from the right; of a negative
  number it treats the sign as one more digit, so with three, six, nine, ... digits the text
  begins with a minus followed by a comma.\<close>

theorem commas_group_by_three:
  assumes "CHR ''.'' \<notin> set s" "CHR '','' \<notin> set s" "s \<noteq> []"
    "fmt n = s" "fmt m = CHR ''-'' # s"
  shows "filter (\<lambda>c. c \<noteq> CHR '','') (format_number_with_commas fmt n) = s \<and>
    (length s \<le> 3 \<longrightarrow> format_number_with_commas fmt n = s) \<and>
    (\<forall>xs ys. s = xs @ ys \<and> xs \<noteq> [] \<and> ys \<noteq> [] \<and> length ys mod 3 = 0 \<longrightarrow>
       format_number_with_commas fmt n = commas_of xs @ '','' @ commas_of ys) \<and>
    format_number_with_commas fmt m =
      (if length s mod 3 = 0 then ''-,'' else ''-'') @ format_number_with_commas fmt n"
proof -
  have "CHR ''.'' \<notin> set (CHR ''-'' # s)" using assms(1) by simp
  then have m: "commas_of (CHR ''-'' # s) = grouped 0 (CHR ''-'' # s)" by (rule commas_plain)
  have "commas_of (xs @ ys) = commas_of xs @ '','' @ commas_of ys"
    if "s = xs @ ys" "xs \<noteq> []" "ys \<noteq> []" "length ys mod 3 = 0" for xs ys
    using that assms(1) grouped_split [OF that(2-4)] by (simp add: commas_plain)
  then show ?thesis
    using assms(3) m grouped_filter [of 0 s] grouped_short [of s]
    by (auto simp: format_number_with_commas_def assms(4,5) commas_plain [OF assms(1)]
        filter_id_mem [OF assms(2)])
qed

theorem commas_group_by_three_witness:
  "let fmt = (\<lambda>q :: rat. if q < 0 then ''-123456'' else ''123456'') in
   format_number_with_commas fmt (- 123456) = ''-,'' @ format_number_with_commas fmt 123456"
  using commas_group_by_three [of "''123456''" "\<lambda>q :: rat. if q < 0 then ''-123456'' else ''123456''"
      123456 "- 123456"]
  by (simp add: Let_def)

end
