(* ===== verification/Saas.thy ===== *)
theory Saas
  imports Prelude
begin

text \<open>
  saas/pkg: who owns a datum and who may see it (\<open>model/ownership.go\<close>,
  \<open>model/access.go\<close>, \<open>model/log.go\<close>, \<open>context.go\<close>, \<open>operations.go\<close>). The tables live
  in a database behind gorm, which is not part of the repository: the model takes its
  calls as a record of functions on an unknown state, a WHERE clause as the predicate
  on rows it denotes. What the operations rely on is stated as laws of these calls
  (\<open>gorm_laws\<close>) and holds of the concrete tables at the end of the theory.
\<close>

subsection \<open>Rows\<close>

record ownership =
  ow_id :: nat
  ow_data_id :: nat
  ow_data_type :: string
  ow_owner_id :: nat
  ow_created_at :: time
  ow_updated_at :: time

record data_access =
  da_id :: nat
  da_data_id :: nat
  da_data_type :: string
  da_tenant_id :: nat
  da_access_level :: int
  da_grant_type :: int
  da_granted_by :: nat
  da_constraints :: string
  da_expire_at :: "time option"
  da_created_at :: time
  da_updated_at :: time

record share_log =
  sl_data_id :: nat
  sl_data_type :: string
  sl_from_tenant :: nat
  sl_to_tenant :: nat
  sl_action :: string
  sl_access_level :: int
  sl_operator_id :: nat
  sl_created_at :: time

definition access_read :: int where "access_read = 1"
definition access_write :: int where "access_write = 2"
definition access_admin :: int where "access_admin = 3"
definition grant_direct :: int where "grant_direct = 1"
definition grant_inherit :: int where "grant_inherit = 2"
definition grant_proxy :: int where "grant_proxy = 3"

definition access_is_expired :: "time \<Rightarrow> data_access \<Rightarrow> bool" where
  "access_is_expired now d = (case da_expire_at d of None \<Rightarrow> False | Some e \<Rightarrow> e < now)"

subsection \<open>The gorm calls the operations make\<close>

text \<open>
  \<open>First\<close> answers a row or an error (gorm.ErrRecordNotFound among them), a write answers
  its error. \<open>db_upsert_acc\<close> is \<open>Where(..).Assign(a).FirstOrCreate(&a)\<close>. The operations
  that read for themselves use \<open>db_find\<close> calls.
\<close>

record 's gorm =
  db_create_own :: "ownership \<Rightarrow> 's \<Rightarrow> gerr option \<times> 's"
  db_first_own :: "(ownership \<Rightarrow> bool) \<Rightarrow> 's \<Rightarrow> gerr + ownership"
  db_save_own :: "ownership \<Rightarrow> 's \<Rightarrow> gerr option \<times> 's"
  db_delete_own :: "(ownership \<Rightarrow> bool) \<Rightarrow> 's \<Rightarrow> gerr option \<times> 's"
  db_batch_own :: "ownership list \<Rightarrow> nat \<Rightarrow> 's \<Rightarrow> gerr option \<times> 's"
  db_find_own :: "(ownership \<Rightarrow> bool) \<Rightarrow> 's \<Rightarrow> gerr + ownership list"
  db_create_acc :: "data_access \<Rightarrow> 's \<Rightarrow> gerr option \<times> 's"
  db_upsert_acc :: "(data_access \<Rightarrow> bool) \<Rightarrow> data_access \<Rightarrow> 's \<Rightarrow> gerr option \<times> 's"
  db_delete_acc :: "(data_access \<Rightarrow> bool) \<Rightarrow> 's \<Rightarrow> gerr option \<times> 's"
  db_batch_acc :: "data_access list \<Rightarrow> nat \<Rightarrow> 's \<Rightarrow> gerr option \<times> 's"
  db_find_acc :: "(data_access \<Rightarrow> bool) \<Rightarrow> 's \<Rightarrow> gerr + data_access list"
  db_create_log :: "share_log \<Rightarrow> 's \<Rightarrow> gerr option \<times> 's"

subsection \<open>The tenant of a request\<close>

text \<open>The context value under the private key: absent, a \<open>uint64\<close>, or (never written by
  this package) something of another type.\<close>

datatype tenant_value = TenantId nat | OtherValue

type_synonym tenant_ctx = "tenant_value option"

definition with_tenant :: "tenant_ctx \<Rightarrow> nat \<Rightarrow> tenant_ctx" where
  "with_tenant ctx t = Some (TenantId t)"

definition get_tenant_from_context :: "tenant_ctx \<Rightarrow> nat option" where
  "get_tenant_from_context ctx = (case ctx of Some (TenantId t) \<Rightarrow> Some t | _ \<Rightarrow> None)"

definition no_tenant :: gerr where
  "no_tenant = ErrMsg ''no tenant in context''"

definition tenant_from_context :: "tenant_ctx \<Rightarrow> gerr + nat" where
  "tenant_from_context ctx = (case get_tenant_from_context ctx of
     None \<Rightarrow> Inl no_tenant | Some t \<Rightarrow> Inr t)"

subsection \<open>Operations\<close>

definition own_key :: "string \<Rightarrow> nat \<Rightarrow> ownership \<Rightarrow> bool" where
  "own_key dt i r = (ow_data_type r = dt \<and> ow_data_id r = i)"

definition own_by :: "string \<Rightarrow> nat \<Rightarrow> nat \<Rightarrow> ownership \<Rightarrow> bool" where
  "own_by dt i t r = (own_key dt i r \<and> ow_owner_id r = t)"

definition acc_key :: "string \<Rightarrow> nat \<Rightarrow> data_access \<Rightarrow> bool" where
  "acc_key dt i r = (da_data_type r = dt \<and> da_data_id r = i)"

definition acc_of :: "string \<Rightarrow> nat \<Rightarrow> nat \<Rightarrow> data_access \<Rightarrow> bool" where
  "acc_of dt i t r = (acc_key dt i r \<and> da_tenant_id r = t)"

definition new_ownership :: "time \<Rightarrow> string \<Rightarrow> nat \<Rightarrow> nat \<Rightarrow> ownership" where
  "new_ownership now dt i t = \<lparr>ow_id = 0, ow_data_id = i, ow_data_type = dt, ow_owner_id = t,
     ow_created_at = now, ow_updated_at = now\<rparr>"

definition new_access :: "time \<Rightarrow> string \<Rightarrow> nat \<Rightarrow> nat \<Rightarrow> int \<Rightarrow> nat \<Rightarrow> time option \<Rightarrow> data_access" where
  "new_access now dt i t level by ex = \<lparr>da_id = 0, da_data_id = i, da_data_type = dt, da_tenant_id = t,
     da_access_level = level, da_grant_type = grant_direct, da_granted_by = by, da_constraints = [],
     da_expire_at = ex, da_created_at = now, da_updated_at = now\<rparr>"

definition new_log :: "time \<Rightarrow> string \<Rightarrow> nat \<Rightarrow> nat \<Rightarrow> nat \<Rightarrow> string \<Rightarrow> int \<Rightarrow> share_log" where
  "new_log now dt i from_t to_t action level = \<lparr>sl_data_id = i, sl_data_type = dt, sl_from_tenant = from_t,
     sl_to_tenant = to_t, sl_action = action, sl_access_level = level, sl_operator_id = from_t,
     sl_created_at = now\<rparr>"

definition create_data :: "'s gorm \<Rightarrow> time \<Rightarrow> tenant_ctx \<Rightarrow> string \<Rightarrow> nat \<Rightarrow> 's \<Rightarrow> gerr option \<times> 's" where
  "create_data g now ctx dt i s =
     (case tenant_from_context ctx of
        Inl e \<Rightarrow> (Some e, s)
      | Inr t \<Rightarrow> (case db_create_own g (new_ownership now dt i t) s of
            (Some e, s1) \<Rightarrow> (Some e, s1)
          | (None, s1) \<Rightarrow> db_create_acc g (new_access now dt i t access_admin t None) s1))"

text \<open>\<open>json.Marshal\<close> of the constraints is an argument: the text it gives, empty when it
  fails (the error is dropped), and None for nil constraints. The error of the upsert is
  dropped too.\<close>

definition share_data :: "'s gorm \<Rightarrow> time \<Rightarrow> tenant_ctx \<Rightarrow> string \<Rightarrow> nat \<Rightarrow> nat \<Rightarrow> int \<Rightarrow> time option \<Rightarrow>
    string option \<Rightarrow> 's \<Rightarrow> gerr option \<times> 's" where
  "share_data g now ctx dt i to level ex constraints s =
     (case tenant_from_context ctx of
        Inl e \<Rightarrow> (Some e, s)
      | Inr t \<Rightarrow> (case db_first_own g (own_by dt i t) s of
            Inl e \<Rightarrow> (Some (ErrMsg ''no permission to share''), s)
          | Inr _ \<Rightarrow>
              let a0 = new_access now dt i to level t ex;
                  a = (case constraints of None \<Rightarrow> a0 | Some c \<Rightarrow> a0\<lparr>da_constraints := c\<rparr>);
                  s1 = snd (db_upsert_acc g (acc_of dt i to) a s)
              in db_create_log g (new_log now dt i t to ''grant'' level) s1))"

definition revoke_access :: "'s gorm \<Rightarrow> time \<Rightarrow> tenant_ctx \<Rightarrow> string \<Rightarrow> nat \<Rightarrow> nat \<Rightarrow> 's \<Rightarrow>
    gerr option \<times> 's" where
  "revoke_access g now ctx dt i from_t s =
     (case tenant_from_context ctx of
        Inl e \<Rightarrow> (Some e, s)
      | Inr t \<Rightarrow> (case db_first_own g (own_by dt i t) s of
            Inl e \<Rightarrow> (Some (ErrMsg ''no permission to revoke''), s)
          | Inr _ \<Rightarrow> (case db_delete_acc g (acc_of dt i from_t) s of
                (Some e, s1) \<Rightarrow> (Some e, s1)
              | (None, s1) \<Rightarrow> db_create_log g (new_log now dt i t from_t ''revoke'' 0) s1)))"

definition transfer_ownership :: "'s gorm \<Rightarrow> time \<Rightarrow> tenant_ctx \<Rightarrow> string \<Rightarrow> nat \<Rightarrow> nat \<Rightarrow> 's \<Rightarrow>
    gerr option \<times> 's" where
  "transfer_ownership g now ctx dt i new_owner s =
     (case tenant_from_context ctx of
        Inl e \<Rightarrow> (Some e, s)
      | Inr t \<Rightarrow> (case db_first_own g (own_by dt i t) s of
            Inl e \<Rightarrow> (Some (ErrMsg ''no permission to transfer''), s)
          | Inr r \<Rightarrow> (case db_save_own g (r\<lparr>ow_owner_id := new_owner, ow_updated_at := now\<rparr>) s of
                (Some e, s1) \<Rightarrow> (Some e, s1)
              | (None, s1) \<Rightarrow>
                  let s2 = snd (db_delete_acc g (acc_of dt i t) s1)
                  in db_create_acc g (new_access now dt i new_owner access_admin t None) s2)))"

definition delete_data :: "'s gorm \<Rightarrow> tenant_ctx \<Rightarrow> string \<Rightarrow> nat \<Rightarrow> 's \<Rightarrow> gerr option \<times> 's" where
  "delete_data g ctx dt i s =
     (case tenant_from_context ctx of
        Inl e \<Rightarrow> (Some e, s)
      | Inr t \<Rightarrow> (case db_first_own g (own_by dt i t) s of
            Inl e \<Rightarrow> (Some (ErrMsg ''no permission to delete''), s)
          | Inr _ \<Rightarrow>
              let s1 = snd (db_delete_own g (own_key dt i) s);
                  s2 = snd (db_delete_acc g (acc_key dt i) s1)
              in (None, s2)))"

definition get_data_owner :: "'s gorm \<Rightarrow> string \<Rightarrow> nat \<Rightarrow> 's \<Rightarrow> gerr + nat" where
  "get_data_owner g dt i s = (case db_first_own g (own_key dt i) s of
     Inl e \<Rightarrow> Inl e | Inr r \<Rightarrow> Inr (ow_owner_id r))"

text \<open>\<open>expire_at IS NULL OR expire_at > ?\<close>.\<close>

definition acc_live :: "time \<Rightarrow> data_access \<Rightarrow> bool" where
  "acc_live now r = (case da_expire_at r of None \<Rightarrow> True | Some e \<Rightarrow> e > now)"

definition get_data_accessors :: "'s gorm \<Rightarrow> time \<Rightarrow> string \<Rightarrow> nat \<Rightarrow> 's \<Rightarrow> gerr + data_access list" where
  "get_data_accessors g now dt i s = db_find_acc g (\<lambda>r. acc_key dt i r \<and> acc_live now r) s"

definition cleanup_expired_access :: "'s gorm \<Rightarrow> time \<Rightarrow> 's \<Rightarrow> gerr option \<times> 's" where
  "cleanup_expired_access g now s =
     db_delete_acc g (\<lambda>r. case da_expire_at r of None \<Rightarrow> False | Some e \<Rightarrow> e < now) s"

definition batch_create_data :: "'s gorm \<Rightarrow> time \<Rightarrow> string \<Rightarrow> nat \<Rightarrow> nat list \<Rightarrow> 's \<Rightarrow> gerr option \<times> 's" where
  "batch_create_data g now dt t ids s =
     (case db_batch_own g (map (\<lambda>i. new_ownership now dt i t) ids) 100 s of
        (Some e, s1) \<Rightarrow> (Some e, s1)
      | (None, s1) \<Rightarrow> db_batch_acc g (map (\<lambda>i. new_access now dt i t access_admin t None) ids) 100 s1)"

text \<open>\<open>ListTenantData\<close>: the page of the union's IDs in ascending order, without
  duplicates; the two sub-selects are the \<open>db_find\<close> calls, the paging is SQL's.
  \<open>(page - 1) * pageSize\<close> is computed in 64 bits; an
  offset that wrapped to a negative number reads as 0 here, as in SQLite.\<close>

definition page_bounds :: "int \<Rightarrow> int \<Rightarrow> int \<times> int" where
  "page_bounds page psize =
     (let p = (if page \<le> 0 then 1 else page);
          z = (if psize \<le> 0 then 20 else psize);
          z' = (if z > 1000 then 1000 else z)
      in (z', wrap64 ((p - 1) * z')))"

definition list_tenant_data :: "'s gorm \<Rightarrow> time \<Rightarrow> string \<Rightarrow> nat \<Rightarrow> int \<Rightarrow> int \<Rightarrow> 's \<Rightarrow>
    gerr + (nat list \<times> int)" where
  "list_tenant_data g now dt t page psize s =
     (case db_find_own g (\<lambda>r. ow_data_type r = dt \<and> ow_owner_id r = t) s of
        Inl e \<Rightarrow> Inl e
      | Inr os \<Rightarrow> (case db_find_acc g (\<lambda>r. da_data_type r = dt \<and> da_tenant_id r = t \<and> acc_live now r) s of
            Inl e \<Rightarrow> Inl e
          | Inr acs \<Rightarrow>
              let ids = sort (remdups (map ow_data_id os @ map da_data_id acs));
                  (limit, offset) = page_bounds page psize
              in Inr (take (nat limit) (drop (nat offset) ids), int (length ids))))"

definition count_of :: "(gerr + 'a list) \<Rightarrow> int" where
  "count_of r = (case r of Inl e \<Rightarrow> 0 | Inr xs \<Rightarrow> int (length xs))"

definition get_tenant_data_stats :: "'s gorm \<Rightarrow> time \<Rightarrow> nat \<Rightarrow> 's \<Rightarrow> (string \<times> int) list" where
  "get_tenant_data_stats g now t s =
     [(''owned'', count_of (db_find_own g (\<lambda>r. ow_owner_id r = t) s)),
      (''accessible'', count_of (db_find_acc g (\<lambda>r. da_tenant_id r = t \<and> acc_live now r) s)),
      (''shared'', count_of (db_find_acc g (\<lambda>r. da_granted_by r = t \<and> da_tenant_id r \<noteq> t) s))]"

subsection \<open>Requests in a sequence\<close>

datatype saas_call =
    CallCreate tenant_ctx string nat
  | CallShare tenant_ctx string nat nat int "time option" "string option"
  | CallRevoke tenant_ctx string nat nat
  | CallTransfer tenant_ctx string nat nat
  | CallDelete tenant_ctx string nat

fun call_ctx :: "saas_call \<Rightarrow> tenant_ctx" where
  "call_ctx (CallCreate c _ _) = c"
| "call_ctx (CallShare c _ _ _ _ _ _) = c"
| "call_ctx (CallRevoke c _ _ _) = c"
| "call_ctx (CallTransfer c _ _ _) = c"
| "call_ctx (CallDelete c _ _) = c"

fun call_data :: "saas_call \<Rightarrow> string \<times> nat" where
  "call_data (CallCreate _ dt i) = (dt, i)"
| "call_data (CallShare _ dt i _ _ _ _) = (dt, i)"
| "call_data (CallRevoke _ dt i _) = (dt, i)"
| "call_data (CallTransfer _ dt i _) = (dt, i)"
| "call_data (CallDelete _ dt i) = (dt, i)"

fun is_create :: "saas_call \<Rightarrow> bool" where
  "is_create (CallCreate _ _ _) = True"
| "is_create _ = False"

fun saas_step :: "'s gorm \<Rightarrow> time \<times> saas_call \<Rightarrow> 's \<Rightarrow> gerr option \<times> 's" where
  "saas_step g (now, CallCreate c dt i) s = create_data g now c dt i s"
| "saas_step g (now, CallShare c dt i to l ex k) s = share_data g now c dt i to l ex k s"
| "saas_step g (now, CallRevoke c dt i f) s = revoke_access g now c dt i f s"
| "saas_step g (now, CallTransfer c dt i n) s = transfer_ownership g now c dt i n s"
| "saas_step g (now, CallDelete c dt i) s = delete_data g c dt i s"

fun saas_run :: "'s gorm \<Rightarrow> (time \<times> saas_call) list \<Rightarrow> 's \<Rightarrow> gerr option list \<times> 's" where
  "saas_run g [] s = ([], s)"
| "saas_run g (c # cs) s = (case saas_step g c s of
     (e, s1) \<Rightarrow> (case saas_run g cs s1 of (es, s2) \<Rightarrow> (e # es, s2)))"

subsection \<open>What the operations rely on\<close>

text \<open>
  The laws of the database calls over the rows \<open>owns\<close> and \<open>accs\<close> a state holds: a read
  answers rows that satisfy its condition, a write that reports an error changed nothing,
  and each write touches only its table and the rows of its condition. Primary keys
  are distinct in a well-formed state, and every write keeps it well formed. In a \<open>healthy\<close> state no call fails for want of the database.
\<close>

locale gorm_tables =
  fixes g :: "'s gorm"
    and owns :: "'s \<Rightarrow> ownership list"
    and accs :: "'s \<Rightarrow> data_access list"
    and wf_tables :: "'s \<Rightarrow> bool"
    and healthy :: "'s \<Rightarrow> bool"
  assumes own_ids: "wf_tables s \<Longrightarrow> distinct (map ow_id (owns s))"
    and first_own: "db_first_own g P s = Inr r \<Longrightarrow> r \<in> set (owns s) \<and> P r"
    and first_own_healthy: "healthy s \<Longrightarrow> r \<in> set (owns s) \<Longrightarrow> P r \<Longrightarrow> \<exists>r'. db_first_own g P s = Inr r'"
    and find_own: "healthy s \<Longrightarrow> db_find_own g P s = Inr (filter P (owns s))"
    and find_acc: "healthy s \<Longrightarrow> db_find_acc g Q s = Inr (filter Q (accs s))"
    and create_own: "db_create_own g o1 s = (e, s1) \<Longrightarrow> accs s1 = accs s \<and>
          (\<exists>k. owns s1 = (if e = None then owns s @ [o1\<lparr>ow_id := k\<rparr>] else owns s)) \<and>
          (wf_tables s \<longrightarrow> wf_tables s1) \<and> (healthy s \<longrightarrow> e = None \<and> healthy s1)"
    and save_own: "db_save_own g o1 s = (e, s1) \<Longrightarrow> accs s1 = accs s \<and>
          (ow_id o1 \<in> ow_id ` set (owns s) \<longrightarrow>
             owns s1 = (if e = None then map (\<lambda>x. if ow_id x = ow_id o1 then o1 else x) (owns s) else owns s)) \<and>
          (wf_tables s \<longrightarrow> wf_tables s1) \<and> (healthy s \<longrightarrow> e = None \<and> healthy s1)"
    and delete_own: "db_delete_own g P s = (e, s1) \<Longrightarrow> accs s1 = accs s \<and>
          owns s1 = (if e = None then filter (\<lambda>x. \<not> P x) (owns s) else owns s) \<and>
          (wf_tables s \<longrightarrow> wf_tables s1) \<and> (healthy s \<longrightarrow> e = None \<and> healthy s1)"
    and create_acc: "db_create_acc g a s = (e, s1) \<Longrightarrow> owns s1 = owns s \<and>
          (\<exists>k. accs s1 = (if e = None then accs s @ [a\<lparr>da_id := k\<rparr>] else accs s)) \<and>
          (wf_tables s \<longrightarrow> wf_tables s1) \<and> (healthy s \<longrightarrow> e = None \<and> healthy s1)"
    and upsert_acc: "db_upsert_acc g (acc_of dt i t) a s = (e, s1) \<Longrightarrow> acc_of dt i t a \<Longrightarrow> owns s1 = owns s \<and>
          filter (\<lambda>x. \<not> acc_of dt i t x) (accs s1) = filter (\<lambda>x. \<not> acc_of dt i t x) (accs s) \<and>
          (wf_tables s \<longrightarrow> wf_tables s1) \<and> (healthy s \<longrightarrow> e = None \<and> healthy s1 \<and>
             (\<exists>r \<in> set (accs s1). acc_of dt i t r \<and> (da_expire_at a \<noteq> None \<longrightarrow> da_expire_at r = da_expire_at a)))"
    and delete_acc: "db_delete_acc g Q s = (e, s1) \<Longrightarrow> owns s1 = owns s \<and>
          accs s1 = (if e = None then filter (\<lambda>x. \<not> Q x) (accs s) else accs s) \<and>
          (wf_tables s \<longrightarrow> wf_tables s1) \<and> (healthy s \<longrightarrow> e = None \<and> healthy s1)"
    and create_log: "db_create_log g l s = (e, s1) \<Longrightarrow> owns s1 = owns s \<and> accs s1 = accs s \<and>
          (wf_tables s \<longrightarrow> wf_tables s1) \<and> (healthy s \<longrightarrow> e = None \<and> healthy s1)"
begin

text \<open>The rows of one datum.\<close>

definition datum :: "string \<Rightarrow> nat \<Rightarrow> 's \<Rightarrow> ownership list \<times> data_access list" where
  "datum dt i s = (filter (own_key dt i) (owns s), filter (acc_key dt i) (accs s))"

lemma log_keeps:
  assumes "db_create_log g l s = (e, s1)"
  shows "datum dt i s1 = datum dt i s"
  using create_log [OF assms] by (simp add: datum_def)

lemma filter_disjoint:
  assumes "\<And>x. R x \<Longrightarrow> \<not> Q x"
  shows "filter R (filter (\<lambda>x. \<not> Q x) xs) = filter R xs"
  using assms by (induction xs) auto

lemma upsert_keeps:
  assumes u: "db_upsert_acc g (acc_of dt' j t) a s = (e, s1)" and q: "acc_of dt' j t a" and d: "\<And>x. acc_key dt i x \<Longrightarrow> \<not> acc_of dt' j t x"
  shows "datum dt i s1 = datum dt i s"
proof -
  have "filter (acc_key dt i) (accs s1) = filter (acc_key dt i) (filter (\<lambda>x. \<not> acc_of dt' j t x) (accs s1))"
    by (rule filter_disjoint [OF d, symmetric])
  also have "\<dots> = filter (acc_key dt i) (filter (\<lambda>x. \<not> acc_of dt' j t x) (accs s))"
    using upsert_acc [OF u q] by simp
  also have "\<dots> = filter (acc_key dt i) (accs s)" by (rule filter_disjoint [OF d])
  finally show ?thesis using upsert_acc [OF u q] by (simp add: datum_def)
qed

lemma delete_acc_keeps:
  assumes u: "db_delete_acc g Q s = (e, s1)" and d: "\<And>x. acc_key dt i x \<Longrightarrow> \<not> Q x"
  shows "datum dt i s1 = datum dt i s"
  using delete_acc [OF u] filter_disjoint [of "acc_key dt i" Q "accs s", OF d] by (simp add: datum_def)

lemma delete_own_keeps:
  assumes u: "db_delete_own g P s = (e, s1)" and d: "\<And>x. own_key dt i x \<Longrightarrow> \<not> P x"
  shows "datum dt i s1 = datum dt i s"
  using delete_own [OF u] filter_disjoint [of "own_key dt i" P "owns s", OF d] by (simp add: datum_def)

lemma create_own_keeps:
  assumes "db_create_own g o1 s = (e, s1)" "\<not> own_key dt i o1"
  shows "datum dt i s1 = datum dt i s"
  using create_own [OF assms(1)] assms(2) by (auto simp: datum_def own_key_def split: if_splits)

lemma create_acc_keeps:
  assumes "db_create_acc g a s = (e, s1)" "\<not> acc_key dt i a"
  shows "datum dt i s1 = datum dt i s"
  using create_acc [OF assms(1)] assms(2) by (auto simp: datum_def acc_key_def split: if_splits)

lemma save_own_keeps:
  assumes u: "db_save_own g (r\<lparr>ow_owner_id := n, ow_updated_at := t\<rparr>) s = (e, s1)" and w: "wf_tables s"
    and r: "r \<in> set (owns s)" "\<not> own_key dt i r"
  shows "datum dt i s1 = datum dt i s"
proof -
  let ?r = "r\<lparr>ow_owner_id := n, ow_updated_at := t\<rparr>"
  have same: "x = r" if "x \<in> set (owns s)" "ow_id x = ow_id r" for x
    using own_ids [OF w] that r(1) by (auto simp: distinct_map inj_on_def)
  have "filter (own_key dt i) (map (\<lambda>x. if ow_id x = ow_id r then ?r else x) xs) = filter (own_key dt i) xs"
    if "set xs \<subseteq> set (owns s)" for xs
    using that
  proof (induction xs)
    case (Cons x xs)
    then show ?case using same [of x] r(2) by (auto simp: own_key_def)
  qed simp
  then show ?thesis using save_own [OF u] r(1) by (auto simp: datum_def split: if_splits)
qed

text \<open>The same facts as rewriting rules.\<close>

lemma keeps_simps:
  "datum dt i (snd (db_create_log g l s)) = datum dt i s"
  "\<not> own_key dt i o1 \<Longrightarrow> datum dt i (snd (db_create_own g o1 s)) = datum dt i s"
  "\<not> acc_key dt i a \<Longrightarrow> datum dt i (snd (db_create_acc g a s)) = datum dt i s"
  "acc_of dt' j u a \<Longrightarrow> \<forall>x. acc_key dt i x \<longrightarrow> \<not> acc_of dt' j u x \<Longrightarrow>
     datum dt i (snd (db_upsert_acc g (acc_of dt' j u) a s)) = datum dt i s"
  "\<forall>x. acc_key dt i x \<longrightarrow> \<not> Q x \<Longrightarrow> datum dt i (snd (db_delete_acc g Q s)) = datum dt i s"
  "\<forall>x. own_key dt i x \<longrightarrow> \<not> P x \<Longrightarrow> datum dt i (snd (db_delete_own g P s)) = datum dt i s"
  "wf_tables s \<Longrightarrow> r \<in> set (owns s) \<Longrightarrow> \<not> own_key dt i r \<Longrightarrow>
     datum dt i (snd (db_save_own g (r\<lparr>ow_owner_id := n, ow_updated_at := t\<rparr>) s)) = datum dt i s"
  by (blast intro: log_keeps create_own_keeps create_acc_keeps upsert_keeps delete_acc_keeps
      delete_own_keeps save_own_keeps prod.collapse [symmetric])+

lemma wf_tables_simps:
  "wf_tables s \<Longrightarrow> wf_tables (snd (db_create_log g l s))"
  "wf_tables s \<Longrightarrow> wf_tables (snd (db_create_own g o1 s))"
  "wf_tables s \<Longrightarrow> wf_tables (snd (db_create_acc g a s))"
  "acc_of dt i t a \<Longrightarrow> wf_tables s \<Longrightarrow> wf_tables (snd (db_upsert_acc g (acc_of dt i t) a s))"
  "wf_tables s \<Longrightarrow> wf_tables (snd (db_delete_acc g Q s))"
  "wf_tables s \<Longrightarrow> wf_tables (snd (db_delete_own g P s))"
  "wf_tables s \<Longrightarrow> wf_tables (snd (db_save_own g o1 s))"
  using create_log [of l s] create_own [of o1 s] create_acc [of a s] upsert_acc [of dt i t a s]
    delete_acc [of Q s] delete_own [of P s] save_own [of o1 s]
  by (metis prod.collapse)+

lemma step_wf_tables: "wf_tables s \<Longrightarrow> wf_tables (snd (saas_step g tc s))"
  by (cases "(g, tc, s)" rule: saas_step.cases)
    (auto simp: create_data_def share_data_def revoke_access_def transfer_ownership_def delete_data_def
      case_prod_unfold Let_def acc_of_def acc_key_def new_access_def wf_tables_simps
      split: sum.splits option.splits)

text \<open>A call about another datum leaves the rows of this one alone.\<close>

lemma other_datum_keeps:
  assumes "wf_tables s" "call_data c \<noteq> (dt, i)"
  shows "datum dt i (snd (saas_step g (now, c) s)) = datum dt i s"
proof (cases c)
  case (CallCreate ctx dt' j)
  then show ?thesis using assms
    by (simp add: create_data_def case_prod_unfold new_ownership_def new_access_def own_key_def acc_key_def
        keeps_simps split: sum.splits option.splits)
next
  case (CallShare ctx dt' j to l ex k)
  then show ?thesis using assms
    by (auto simp: share_data_def Let_def new_access_def acc_of_def acc_key_def
        keeps_simps split: sum.splits option.splits)
next
  case (CallRevoke ctx dt' j f)
  then show ?thesis using assms
    by (auto simp: revoke_access_def case_prod_unfold acc_of_def acc_key_def keeps_simps
        split: sum.splits option.splits)
next
  case (CallTransfer ctx dt' j n)
  then show ?thesis using assms
    by (auto simp: transfer_ownership_def case_prod_unfold Let_def new_access_def acc_of_def acc_key_def
        own_by_def own_key_def keeps_simps dest!: first_own split: sum.splits option.splits)
next
  case (CallDelete ctx dt' j)
  then show ?thesis using assms
    by (auto simp: delete_data_def Let_def acc_key_def own_key_def keeps_simps split: sum.splits)
qed

text \<open>A call about this datum by a tenant who does not own it, other than CreateData, is
  refused and writes nothing.\<close>

lemma not_owner_refused:
  assumes "call_data c = (dt, i)" "\<not> is_create c"
    and no: "\<And>t. get_tenant_from_context (call_ctx c) = Some t \<Longrightarrow> \<forall>r \<in> set (owns s). \<not> own_by dt i t r"
  shows "snd (saas_step g (now, c) s) = s \<and> fst (saas_step g (now, c) s) \<noteq> None"
  using assms
  by (cases c) (auto simp: share_data_def revoke_access_def transfer_ownership_def delete_data_def
      tenant_from_context_def dest!: first_own split: sum.splits option.splits)

text \<open>The owner of a datum, while nobody but it may own the datum.\<close>

definition owned_only_by :: "string \<Rightarrow> nat \<Rightarrow> nat \<Rightarrow> 's \<Rightarrow> bool" where
  "owned_only_by dt i t s = (\<forall>r \<in> set (owns s). own_key dt i r \<longrightarrow> ow_owner_id r = t)"

lemma owned_only_by_datum:
  "datum dt i s1 = datum dt i s \<Longrightarrow> owned_only_by dt i t s1 = owned_only_by dt i t s"
proof -
  have "owned_only_by dt i t u = (\<forall>r \<in> set (fst (datum dt i u)). ow_owner_id r = t)" for u
    by (auto simp: owned_only_by_def datum_def)
  then show "datum dt i s1 = datum dt i s \<Longrightarrow> owned_only_by dt i t s1 = owned_only_by dt i t s" by simp
qed

lemma foreign_step:
  assumes "wf_tables s" "owned_only_by dt i o1 s"
    and "call_data c = (dt, i) \<Longrightarrow> \<not> is_create c \<and> get_tenant_from_context (call_ctx c) \<noteq> Some o1"
  shows "datum dt i (snd (saas_step g (now, c) s)) = datum dt i s \<and>
     (call_data c = (dt, i) \<longrightarrow> fst (saas_step g (now, c) s) \<noteq> None)"
proof (cases "call_data c = (dt, i)")
  case True
  have "snd (saas_step g (now, c) s) = s \<and> fst (saas_step g (now, c) s) \<noteq> None"
    using assms(3) [OF True] assms(2)
    by (intro not_owner_refused [OF True]) (auto simp: own_by_def owned_only_by_def)
  then show ?thesis by simp
next
  case False
  then show ?thesis using other_datum_keeps [OF assms(1) False] by simp
qed

lemma foreign_run:
  assumes "wf_tables s" "owned_only_by dt i o1 s"
    and "\<forall>(now, c) \<in> set cs. call_data c = (dt, i) \<longrightarrow>
       \<not> is_create c \<and> get_tenant_from_context (call_ctx c) \<noteq> Some o1"
  shows "datum dt i (snd (saas_run g cs s)) = datum dt i s \<and>
     length (fst (saas_run g cs s)) = length cs \<and>
     (\<forall>k < length cs. call_data (snd (cs ! k)) = (dt, i) \<longrightarrow> fst (saas_run g cs s) ! k \<noteq> None)"
  using assms
proof (induction cs arbitrary: s)
  case Nil
  then show ?case by simp
next
  case (Cons tc cs)
  obtain now c where tc: "tc = (now, c)" by (cases tc)
  obtain e s1 where st: "saas_step g (now, c) s = (e, s1)" by force
  obtain es s2 where rn: "saas_run g cs s1 = (es, s2)" by force
  have f: "datum dt i s1 = datum dt i s \<and> (call_data c = (dt, i) \<longrightarrow> e \<noteq> None)"
  proof -
    have "\<not> is_create c \<and> get_tenant_from_context (call_ctx c) \<noteq> Some o1" if "call_data c = (dt, i)"
      using Cons.prems(3) tc that by simp
    then have "datum dt i (snd (saas_step g (now, c) s)) = datum dt i s \<and>
       (call_data c = (dt, i) \<longrightarrow> fst (saas_step g (now, c) s) \<noteq> None)"
      by (rule foreign_step [OF Cons.prems(1,2)])
    then show ?thesis unfolding st by simp
  qed
  have "owned_only_by dt i o1 s1" using owned_only_by_datum [OF conjunct1 [OF f], of o1] Cons.prems(2) by simp
  moreover have "wf_tables s1" using step_wf_tables [OF Cons.prems(1), of "(now, c)"] by (simp add: st)
  moreover have "\<forall>(now, c) \<in> set cs. call_data c = (dt, i) \<longrightarrow>
       \<not> is_create c \<and> get_tenant_from_context (call_ctx c) \<noteq> Some o1"
    using Cons.prems(3) by simp
  ultimately have ih: "datum dt i s2 = datum dt i s1" "length es = length cs"
     "\<forall>k < length cs. call_data (snd (cs ! k)) = (dt, i) \<longrightarrow> es ! k \<noteq> None"
    using Cons.IH [of s1] rn by auto
  have run: "saas_run g (tc # cs) s = (e # es, s2)" by (simp add: tc st rn)
  have "(e # es) ! k \<noteq> None" if "k < length (tc # cs)" "call_data (snd ((tc # cs) ! k)) = (dt, i)" for k
    using that f ih(3) by (cases k) (simp_all add: tc)
  then show ?case unfolding run using f ih(1,2) by auto
qed

text \<open>When the database works: what the operations of an owner leave behind.\<close>

lemma healthy_first:
  assumes "healthy s" "r \<in> set (owns s)" "P r"
  obtains r' where "db_first_own g P s = Inr r'" "r' \<in> set (owns s)" "P r'"
  using first_own_healthy [where P = P, OF assms] first_own [where P = P] by blast

lemma create_data_healthy:
  assumes "healthy s" "get_tenant_from_context ctx = Some t"
  shows "\<exists>s1. create_data g now ctx dt i s = (None, s1) \<and> healthy s1 \<and>
     (\<exists>r \<in> set (owns s1). own_by dt i t r) \<and> (\<exists>a \<in> set (accs s1). acc_of dt i t a \<and> da_expire_at a = None) \<and>
     set (owns s) \<subseteq> set (owns s1) \<and> set (accs s) \<subseteq> set (accs s1)"
proof -
  obtain e s1 where c: "db_create_own g (new_ownership now dt i t) s = (e, s1)" by force
  obtain e2 s2 where c2: "db_create_acc g (new_access now dt i t access_admin t None) s1 = (e2, s2)" by force
  have h: "e = None" "healthy s1" using create_own [OF c] assms(1) by auto
  have h2: "e2 = None" "healthy s2" using create_acc [OF c2] h(2) by auto
  have "create_data g now ctx dt i s = (None, s2)"
    using c c2 h(1) h2(1) assms(2) by (simp add: create_data_def tenant_from_context_def)
  then show ?thesis
    using create_own [OF c] create_acc [OF c2] h h2
    by (auto simp: own_by_def own_key_def new_ownership_def acc_of_def acc_key_def new_access_def)
qed

lemma delete_data_healthy:
  assumes "healthy s" "get_tenant_from_context ctx = Some t" "r \<in> set (owns s)" "own_by dt i t r"
  shows "\<exists>s1. delete_data g ctx dt i s = (None, s1) \<and> healthy s1 \<and> datum dt i s1 = ([], [])"
proof -
  obtain r' where r': "db_first_own g (own_by dt i t) s = Inr r'" 
    by (rule healthy_first [where P = "own_by dt i t", OF assms(1,3,4)])
  obtain e s1 where c: "db_delete_own g (own_key dt i) s = (e, s1)" by force
  obtain e2 s2 where c2: "db_delete_acc g (acc_key dt i) s1 = (e2, s2)" by force
  have "delete_data g ctx dt i s = (None, s2)"
    using r' c c2 assms(2) by (simp add: delete_data_def tenant_from_context_def)
  moreover have "healthy s2" "datum dt i s2 = ([], [])"
    using delete_own [OF c] delete_acc [OF c2] assms(1) by (auto simp: datum_def filter_empty_conv)
  ultimately show ?thesis by blast
qed

lemma share_data_healthy:
  assumes "healthy s" "get_tenant_from_context ctx = Some t" "r \<in> set (owns s)" "own_by dt i t r"
  shows "\<exists>s1. share_data g now ctx dt i b level ex k s = (None, s1) \<and> healthy s1 \<and> owns s1 = owns s \<and>
     (\<exists>a \<in> set (accs s1). acc_of dt i b a \<and> (ex \<noteq> None \<longrightarrow> da_expire_at a = ex))"
proof -
  obtain r' where r': "db_first_own g (own_by dt i t) s = Inr r'" 
    by (rule healthy_first [where P = "own_by dt i t", OF assms(1,3,4)])
  let ?a = "case k of None \<Rightarrow> new_access now dt i b level t ex | Some c \<Rightarrow> new_access now dt i b level t ex\<lparr>da_constraints := c\<rparr>"
  obtain e s1 where c: "db_upsert_acc g (acc_of dt i b) ?a s = (e, s1)" by force
  obtain e2 s2 where c2: "db_create_log g (new_log now dt i t b ''grant'' level) s1 = (e2, s2)" by force
  have a: "acc_of dt i b ?a" "da_expire_at ?a = ex"
    by (auto simp: acc_of_def acc_key_def new_access_def split: option.splits)
  have "share_data g now ctx dt i b level ex k s = (e2, s2)"
    using r' c c2 assms(2) by (simp add: share_data_def tenant_from_context_def Let_def)
  then show ?thesis
    using upsert_acc [OF c a(1)] create_log [OF c2] assms(1) a(2) by auto
qed

lemma revoke_access_healthy:
  assumes "healthy s" "get_tenant_from_context ctx = Some t" "r \<in> set (owns s)" "own_by dt i t r"
  shows "\<exists>s1. revoke_access g now ctx dt i b s = (None, s1) \<and> healthy s1 \<and> owns s1 = owns s \<and>
     (\<forall>a \<in> set (accs s1). \<not> acc_of dt i b a)"
proof -
  obtain r' where r': "db_first_own g (own_by dt i t) s = Inr r'" 
    by (rule healthy_first [where P = "own_by dt i t", OF assms(1,3,4)])
  obtain e s1 where c: "db_delete_acc g (acc_of dt i b) s = (e, s1)" by force
  obtain e2 s2 where c2: "db_create_log g (new_log now dt i t b ''revoke'' 0) s1 = (e2, s2)" by force
  have h: "e = None" using delete_acc [OF c] assms(1) by simp
  have "revoke_access g now ctx dt i b s = (e2, s2)"
    using r' c c2 assms(2) h by (simp add: revoke_access_def tenant_from_context_def)
  then show ?thesis
    using delete_acc [OF c] create_log [OF c2] assms(1) by auto
qed

end

subsection \<open>Tables that satisfy the laws\<close>

text \<open>
  The four tables as lists of rows with automatic primary keys, as the models of
  \<open>saas/pkg/model\<close> declare them; \<open>tb_faults\<close> says which of the next calls fail, none for
  ever when it is empty.
\<close>

record tables =
  tb_own :: "ownership list"
  tb_acc :: "data_access list"
  tb_log :: "share_log list"
  tb_next :: nat
  tb_faults :: "bool list"

definition db_down :: gerr where
  "db_down = ErrMsg ''database is down''"

definition db_write :: "(tables \<Rightarrow> tables) \<Rightarrow> tables \<Rightarrow> gerr option \<times> tables" where
  "db_write f s = (case tb_faults s of
     [] \<Rightarrow> (None, f s)
   | down # rest \<Rightarrow> let s1 = s\<lparr>tb_faults := rest\<rparr> in if down then (Some db_down, s1) else (None, f s1))"

definition db_read :: "(tables \<Rightarrow> gerr + 'a) \<Rightarrow> tables \<Rightarrow> gerr + 'a" where
  "db_read f s = (case tb_faults s of True # rest \<Rightarrow> Inl db_down | _ \<Rightarrow> f s)"

definition first_row :: "('a \<Rightarrow> bool) \<Rightarrow> 'a list \<Rightarrow> gerr + 'a" where
  "first_row P xs = (case List.find P xs of None \<Rightarrow> Inl (ErrMsg ''record not found'') | Some r \<Rightarrow> Inr r)"

definition fresh_id :: "tables \<Rightarrow> nat" where
  "fresh_id s = Suc (Max (set (0 # tb_next s # map ow_id (tb_own s))))"

definition insert_own :: "ownership \<Rightarrow> tables \<Rightarrow> tables" where
  "insert_own r s = s\<lparr>tb_own := tb_own s @ [r\<lparr>ow_id := fresh_id s\<rparr>], tb_next := fresh_id s\<rparr>"

definition insert_acc :: "data_access \<Rightarrow> tables \<Rightarrow> tables" where
  "insert_acc r s = s\<lparr>tb_acc := tb_acc s @ [r\<lparr>da_id := fresh_id s\<rparr>], tb_next := fresh_id s\<rparr>"

text \<open>\<open>Assign\<close> with a struct writes its non-zero fields.\<close>

definition assign_acc :: "data_access \<Rightarrow> data_access \<Rightarrow> data_access" where
  "assign_acc a r = r\<lparr>
     da_access_level := (if da_access_level a = 0 then da_access_level r else da_access_level a),
     da_grant_type := da_grant_type a, da_granted_by := da_granted_by a,
     da_constraints := (if da_constraints a = [] then da_constraints r else da_constraints a),
     da_expire_at := (if da_expire_at a = None then da_expire_at r else da_expire_at a),
     da_updated_at := da_updated_at a\<rparr>"

fun update_first :: "('a \<Rightarrow> bool) \<Rightarrow> ('a \<Rightarrow> 'a) \<Rightarrow> 'a list \<Rightarrow> 'a list" where
  "update_first P f [] = []"
| "update_first P f (x # xs) = (if P x then f x # xs else x # update_first P f xs)"

definition upsert_row :: "(data_access \<Rightarrow> bool) \<Rightarrow> data_access \<Rightarrow> tables \<Rightarrow> tables" where
  "upsert_row P a s = (if List.find P (tb_acc s) = None then insert_acc a s
     else s\<lparr>tb_acc := update_first P (assign_acc a) (tb_acc s)\<rparr>)"

definition table_db :: "tables gorm" where
  "table_db = \<lparr>
     db_create_own = (\<lambda>r. db_write (insert_own r)),
     db_first_own = (\<lambda>P. db_read (\<lambda>s. first_row P (tb_own s))),
     db_save_own = (\<lambda>r. db_write (\<lambda>s. s\<lparr>tb_own := map (\<lambda>x. if ow_id x = ow_id r then r else x) (tb_own s)\<rparr>)),
     db_delete_own = (\<lambda>P. db_write (\<lambda>s. s\<lparr>tb_own := filter (\<lambda>x. \<not> P x) (tb_own s)\<rparr>)),
     db_batch_own = (\<lambda>rs n. db_write (fold insert_own rs)),
     db_find_own = (\<lambda>P. db_read (\<lambda>s. Inr (filter P (tb_own s)))),
     db_create_acc = (\<lambda>r. db_write (insert_acc r)),
     db_upsert_acc = (\<lambda>P a. db_write (upsert_row P a)),
     db_delete_acc = (\<lambda>P. db_write (\<lambda>s. s\<lparr>tb_acc := filter (\<lambda>x. \<not> P x) (tb_acc s)\<rparr>)),
     db_batch_acc = (\<lambda>rs n. db_write (fold insert_acc rs)),
     db_find_acc = (\<lambda>P. db_read (\<lambda>s. Inr (filter P (tb_acc s)))),
     db_create_log = (\<lambda>l. db_write (\<lambda>s. s\<lparr>tb_log := tb_log s @ [l]\<rparr>))\<rparr>"

definition keys_distinct :: "tables \<Rightarrow> bool" where
  "keys_distinct s = distinct (map ow_id (tb_own s))"

definition no_faults :: "tables \<Rightarrow> bool" where
  "no_faults s = (tb_faults s = [])"

lemma db_write_cases:
  assumes "db_write f s = (e, s1)"
  shows "(e = None \<and> (\<exists>k. s1 = f (s\<lparr>tb_faults := k\<rparr>)) \<or> e = Some db_down \<and> (\<exists>k. s1 = s\<lparr>tb_faults := k\<rparr>)) \<and>
     (no_faults s \<longrightarrow> e = None \<and> s1 = f s)"
proof (cases "tb_faults s")
  case Nil
  then have "s = s\<lparr>tb_faults := []\<rparr>" by simp
  then have "\<exists>k. f s = f (s\<lparr>tb_faults := k\<rparr>)" by metis
  then show ?thesis using assms Nil by (auto simp: db_write_def no_faults_def)
next
  case (Cons a list)
  then show ?thesis using assms by (auto simp: db_write_def no_faults_def Let_def split: if_splits)
qed

lemma db_read_Inr: "db_read f s = Inr x \<Longrightarrow> f s = Inr x"
  by (auto simp: db_read_def split: list.splits bool.splits)

lemma db_read_no_faults: "no_faults s \<Longrightarrow> db_read f s = f s"
  by (simp add: db_read_def no_faults_def)

lemma first_row_Inr: "first_row P xs = Inr r \<Longrightarrow> r \<in> set xs \<and> P r"
  by (auto simp: first_row_def split: option.splits dest: find_Some_mem)

lemma first_row_found: "r \<in> set xs \<Longrightarrow> P r \<Longrightarrow> \<exists>r'. first_row P xs = Inr r'"
  by (auto simp: first_row_def find_None_mem split: option.splits)

lemma fresh_id_new: "x \<in> set (tb_own s) \<Longrightarrow> ow_id x \<noteq> fresh_id s"
proof
  assume x: "x \<in> set (tb_own s)" and e: "ow_id x = fresh_id s"
  have "ow_id x \<le> Max (set (0 # tb_next s # map ow_id (tb_own s)))" using x by (intro Max_ge) auto
  then show False using e by (simp add: fresh_id_def)
qed

lemma keys_distinct_insert: "keys_distinct s \<Longrightarrow> keys_distinct (insert_own r s)"
  using fresh_id_new [of _ s] by (fastforce simp: keys_distinct_def insert_own_def)

lemma update_first_others:
  "(\<And>x. P x \<Longrightarrow> P (f x)) \<Longrightarrow> filter (\<lambda>x. \<not> P x) (update_first P f xs) = filter (\<lambda>x. \<not> P x) xs"
  by (induction xs) auto

lemma update_first_hits:
  "x \<in> set xs \<Longrightarrow> P x \<Longrightarrow> \<exists>y \<in> set xs. P y \<and> f y \<in> set (update_first P f xs)"
  by (induction xs) auto

lemma acc_of_assign: "acc_of dt i t r \<Longrightarrow> acc_of dt i t (assign_acc a r)"
  by (simp add: acc_of_def acc_key_def assign_acc_def)

lemma upsert_others:
  "acc_of dt i t a \<Longrightarrow> filter (\<lambda>x. \<not> acc_of dt i t x) (tb_acc (upsert_row (acc_of dt i t) a s)) =
     filter (\<lambda>x. \<not> acc_of dt i t x) (tb_acc s)"
  by (auto simp: upsert_row_def insert_acc_def update_first_others acc_of_assign)
    (simp_all add: acc_of_def acc_key_def)

lemma upsert_hit:
  assumes "acc_of dt i t a"
  shows "\<exists>r \<in> set (tb_acc (upsert_row (acc_of dt i t) a s)).
     acc_of dt i t r \<and> (da_expire_at a \<noteq> None \<longrightarrow> da_expire_at r = da_expire_at a)"
proof (cases "List.find (acc_of dt i t) (tb_acc s)")
  case None
  then show ?thesis using assms by (auto simp: upsert_row_def insert_acc_def acc_of_def acc_key_def)
next
  case (Some x)
  then obtain y where "acc_of dt i t y" "assign_acc a y \<in> set (update_first (acc_of dt i t) (assign_acc a) (tb_acc s))"
    using update_first_hits [of x "tb_acc s" "acc_of dt i t" "assign_acc a"] find_Some_mem [OF Some] by auto
  moreover have "da_expire_at a \<noteq> None \<longrightarrow> da_expire_at (assign_acc a y) = da_expire_at a"
    by (simp add: assign_acc_def)
  ultimately show ?thesis using Some acc_of_assign [of dt i t y a]
    by (intro bexI [of _ "assign_acc a y"]) (simp_all add: upsert_row_def)
qed

lemma upsert_fields [simp]:
  "tb_own (upsert_row P a s) = tb_own s" "tb_faults (upsert_row P a s) = tb_faults s"
  by (simp_all add: upsert_row_def insert_acc_def)

interpretation sql: gorm_tables table_db tb_own tb_acc keys_distinct no_faults
proof unfold_locales
  show "distinct (map ow_id (tb_own s))" if "keys_distinct s" for s using that by (simp add: keys_distinct_def)
  show "r \<in> set (tb_own s) \<and> P r" if "db_first_own table_db P s = Inr r" for P s r
    using that by (auto simp: table_db_def dest: db_read_Inr first_row_Inr)
  show "\<exists>r'. db_first_own table_db P s = Inr r'" if "no_faults s" "r \<in> set (tb_own s)" "P r" for s r P
    using that by (simp add: table_db_def db_read_no_faults first_row_found)
  show "db_find_own table_db P s = Inr (filter P (tb_own s))" if "no_faults s" for s P
    using that by (simp add: table_db_def db_read_no_faults)
  show "db_find_acc table_db P s = Inr (filter P (tb_acc s))" if "no_faults s" for s P
    using that by (simp add: table_db_def db_read_no_faults)
next
  fix r s e s1
  assume "db_create_own table_db r s = (e, s1)"
  then have w: "db_write (insert_own r) s = (e, s1)" by (simp add: table_db_def)
  have k: "keys_distinct s \<Longrightarrow> keys_distinct (insert_own r (s\<lparr>tb_faults := l\<rparr>))" for l
    by (rule keys_distinct_insert) (simp add: keys_distinct_def)
  show "tb_acc s1 = tb_acc s \<and> (\<exists>k. tb_own s1 = (if e = None then tb_own s @ [r\<lparr>ow_id := k\<rparr>] else tb_own s)) \<and>
      (keys_distinct s \<longrightarrow> keys_distinct s1) \<and> (no_faults s \<longrightarrow> e = None \<and> no_faults s1)"
  proof -
    have "keys_distinct (s\<lparr>tb_faults := l\<rparr>) = keys_distinct s" for l by (simp add: keys_distinct_def)
    then have "keys_distinct s \<longrightarrow> keys_distinct s1" using db_write_cases [OF w] k by metis
    then show ?thesis using db_write_cases [OF w] by (auto simp: insert_own_def no_faults_def)
  qed
next
  fix r s e s1
  assume "db_save_own table_db r s = (e, s1)"
  then have w: "db_write (\<lambda>s. s\<lparr>tb_own := map (\<lambda>x. if ow_id x = ow_id r then r else x) (tb_own s)\<rparr>) s = (e, s1)"
    by (simp add: table_db_def)
  have k: "map ow_id (map (\<lambda>x. if ow_id x = ow_id r then r else x) xs) = map ow_id xs" for xs
    by (induction xs) auto
  show "tb_acc s1 = tb_acc s \<and> (ow_id r \<in> ow_id ` set (tb_own s) \<longrightarrow>
        tb_own s1 = (if e = None then map (\<lambda>x. if ow_id x = ow_id r then r else x) (tb_own s) else tb_own s)) \<and>
      (keys_distinct s \<longrightarrow> keys_distinct s1) \<and> (no_faults s \<longrightarrow> e = None \<and> no_faults s1)"
    using db_write_cases [OF w] k by (auto simp: no_faults_def keys_distinct_def simp del: map_map)
next
  fix P s e s1
  assume "db_delete_own table_db P s = (e, s1)"
  then have w: "db_write (\<lambda>s. s\<lparr>tb_own := filter (\<lambda>x. \<not> P x) (tb_own s)\<rparr>) s = (e, s1)"
    by (simp add: table_db_def)
  show "tb_acc s1 = tb_acc s \<and> tb_own s1 = (if e = None then filter (\<lambda>x. \<not> P x) (tb_own s) else tb_own s) \<and>
      (keys_distinct s \<longrightarrow> keys_distinct s1) \<and> (no_faults s \<longrightarrow> e = None \<and> no_faults s1)"
    using db_write_cases [OF w] by (auto simp: no_faults_def keys_distinct_def distinct_filter_map)
next
  fix r s e s1
  assume "db_create_acc table_db r s = (e, s1)"
  then have w: "db_write (insert_acc r) s = (e, s1)" by (simp add: table_db_def)
  show "tb_own s1 = tb_own s \<and> (\<exists>k. tb_acc s1 = (if e = None then tb_acc s @ [r\<lparr>da_id := k\<rparr>] else tb_acc s)) \<and>
      (keys_distinct s \<longrightarrow> keys_distinct s1) \<and> (no_faults s \<longrightarrow> e = None \<and> no_faults s1)"
    using db_write_cases [OF w] by (auto simp: insert_acc_def no_faults_def keys_distinct_def)
next
  fix dt i t a s e s1
  assume u: "db_upsert_acc table_db (acc_of dt i t) a s = (e, s1)" and a: "acc_of dt i t a"
  then have w: "db_write (upsert_row (acc_of dt i t) a) s = (e, s1)" by (simp add: table_db_def)
  show "tb_own s1 = tb_own s \<and>
      filter (\<lambda>x. \<not> acc_of dt i t x) (tb_acc s1) = filter (\<lambda>x. \<not> acc_of dt i t x) (tb_acc s) \<and>
      (keys_distinct s \<longrightarrow> keys_distinct s1) \<and>
      (no_faults s \<longrightarrow> e = None \<and> no_faults s1 \<and> (\<exists>r \<in> set (tb_acc s1). acc_of dt i t r \<and>
         (da_expire_at a \<noteq> None \<longrightarrow> da_expire_at r = da_expire_at a)))"
    using db_write_cases [OF w] upsert_hit [OF a, of s]
    by (auto simp: no_faults_def keys_distinct_def upsert_others [OF a])
next
  fix Q s e s1
  assume "db_delete_acc table_db Q s = (e, s1)"
  then have w: "db_write (\<lambda>s. s\<lparr>tb_acc := filter (\<lambda>x. \<not> Q x) (tb_acc s)\<rparr>) s = (e, s1)"
    by (simp add: table_db_def)
  show "tb_own s1 = tb_own s \<and> tb_acc s1 = (if e = None then filter (\<lambda>x. \<not> Q x) (tb_acc s) else tb_acc s) \<and>
      (keys_distinct s \<longrightarrow> keys_distinct s1) \<and> (no_faults s \<longrightarrow> e = None \<and> no_faults s1)"
    using db_write_cases [OF w] by (auto simp: no_faults_def keys_distinct_def)
next
  fix l s e s1
  assume "db_create_log table_db l s = (e, s1)"
  then have w: "db_write (\<lambda>s. s\<lparr>tb_log := tb_log s @ [l]\<rparr>) s = (e, s1)" by (simp add: table_db_def)
  show "tb_own s1 = tb_own s \<and> tb_acc s1 = tb_acc s \<and>
      (keys_distinct s \<longrightarrow> keys_distinct s1) \<and> (no_faults s \<longrightarrow> e = None \<and> no_faults s1)"
    using db_write_cases [OF w] by (auto simp: no_faults_def keys_distinct_def)
qed

subsection \<open>Isolation\<close>

text \<open>C6. The tenants are isolated from each other as far as creation allows: while the
  rows of a datum name one owner, no sequence of calls by other tenants or about other data,
  in which nobody else calls CreateData on the datum, changes its ownership or access rows,
  and each call on the datum by another tenant is answered with an error, whatever calls of
  the database fail in between.\<close>

theorem tenants_are_isolated:
  assumes "gorm_tables g owns accs wf_tables healthy" and "wf_tables s"
    and "\<forall>r \<in> set (owns s). own_key dt i r \<longrightarrow> ow_owner_id r = o1"
    and "\<forall>(now, c) \<in> set cs. call_data c = (dt, i) \<longrightarrow>
       \<not> is_create c \<and> get_tenant_from_context (call_ctx c) \<noteq> Some o1"
    and "saas_run g cs s = (es, s1)"
  shows "filter (own_key dt i) (owns s1) = filter (own_key dt i) (owns s) \<and>
    filter (acc_key dt i) (accs s1) = filter (acc_key dt i) (accs s) \<and>
    length es = length cs \<and>
    (\<forall>k < length cs. call_data (snd (cs ! k)) = (dt, i) \<longrightarrow> es ! k \<noteq> None)"
  using gorm_tables.foreign_run [OF assms(1,2) _ assms(4)] assms(3,5)
  by (simp add: gorm_tables.owned_only_by_def [OF assms(1)] gorm_tables.datum_def [OF assms(1)])

definition example_tables :: tables where
  "example_tables = \<lparr>tb_own = [new_ownership 0 ''orders'' 7 1\<lparr>ow_id := 1\<rparr>],
     tb_acc = [new_access 0 ''orders'' 7 1 3 1 None\<lparr>da_id := 1\<rparr>], tb_log = [], tb_next = 1, tb_faults = []\<rparr>"

definition intruder :: "(time \<times> saas_call) list" where
  "intruder = [(5, CallShare (Some (TenantId 2)) ''orders'' 7 2 3 None None),
     (6, CallTransfer (Some (TenantId 2)) ''orders'' 7 2), (7, CallDelete None ''orders'' 7),
     (8, CallCreate (Some (TenantId 2)) ''orders'' 8)]"

theorem tenants_are_isolated_witness:
  "filter (own_key ''orders'' 7) (tb_own (snd (saas_run table_db intruder example_tables))) =
     filter (own_key ''orders'' 7) (tb_own example_tables)"
proof -
  have "\<forall>(now, c) \<in> set intruder. call_data c = (''orders'', 7) \<longrightarrow>
      \<not> is_create c \<and> get_tenant_from_context (call_ctx c) \<noteq> Some 1"
    by (simp add: intruder_def get_tenant_from_context_def)
  from tenants_are_isolated [OF sql.gorm_tables_axioms _ _ this prod.collapse [symmetric], of example_tables]
  show ?thesis by (simp add: example_tables_def keys_distinct_def new_ownership_def)
qed

text \<open>CreateData does not ask whether the datum has an owner, and the tables have no
  unique index on it: a second tenant that calls CreateData on a datum of another becomes
  an owner beside it, and may then delete the rows of the datum, the first owner's among
  them.\<close>

theorem second_creator_takes_over:
  assumes "gorm_tables g owns accs wf_tables healthy" and "healthy s"
    and "get_tenant_from_context ctx = Some t"
  shows "case create_data g now ctx dt i s of (e, s1) \<Rightarrow> e = None \<and>
     (\<exists>r \<in> set (owns s1). own_by dt i t r) \<and>
     (\<forall>r \<in> set (owns s). r \<in> set (owns s1)) \<and>
     (case delete_data g ctx dt i s1 of (e2, s2) \<Rightarrow> e2 = None \<and>
        \<not> (\<exists>r \<in> set (owns s2). own_key dt i r) \<and> \<not> (\<exists>a \<in> set (accs s2). acc_key dt i a))"
proof -
  obtain s1 where s1: "create_data g now ctx dt i s = (None, s1)" "healthy s1" "set (owns s) \<subseteq> set (owns s1)"
    and own: "\<exists>r \<in> set (owns s1). own_by dt i t r"
    using gorm_tables.create_data_healthy [OF assms, of now dt i] by blast
  obtain r where r: "r \<in> set (owns s1)" "own_by dt i t r" using own by blast
  obtain s2 where "delete_data g ctx dt i s1 = (None, s2)" "gorm_tables.datum owns accs dt i s2 = ([], [])"
    using gorm_tables.delete_data_healthy [OF assms(1) s1(2) assms(3) r] by blast
  then show ?thesis
    using s1 own by (auto simp: gorm_tables.datum_def [OF assms(1)] filter_empty_conv)
qed

theorem second_creator_takes_over_witness:
  "fst (create_data table_db 3 (Some (TenantId 2)) ''orders'' 7 example_tables) = None \<and>
   tb_own (snd (delete_data table_db (Some (TenantId 2)) ''orders'' 7
     (snd (create_data table_db 3 (Some (TenantId 2)) ''orders'' 7 example_tables)))) = []"
proof -
  have "no_faults example_tables" "get_tenant_from_context (Some (TenantId 2)) = Some 2"
    by (simp_all add: no_faults_def example_tables_def get_tenant_from_context_def)
  from second_creator_takes_over [OF sql.gorm_tables_axioms this, where now = 3 and dt = "''orders''" and i = 7]
  have "fst (create_data table_db 3 (Some (TenantId 2)) ''orders'' 7 example_tables) = None"
    by (simp add: case_prod_unfold)
  then show ?thesis by code_simp
qed

end
