(* ===== verification/SaasScope.thy ===== *)
theory SaasScope
  imports Complex_Main Saas
begin

text \<open>
  saas/pkg, what a tenant gets to see: the constraints of an access record
  (\<open>model/constraint.go\<close>, \<open>CheckConstraint\<close> of \<open>model/access.go\<close>), the query scopes of
  \<open>scope.go\<close> and the tenant hierarchy of \<open>model/tenant.go\<close> and \<open>utils.go\<close>. A scope is the
  WHERE clause it adds, with its sub-selects as predicates on the rows of \<open>Saas\<close>.
\<close>

subsection \<open>Values of an interface\<close>

text \<open>The dynamic types the code tells apart; floats are rationals (JSON has no NaN).\<close>

datatype gval =
    GNil | GBool bool | GInt int | GInt32 int | GInt64 int | GUint int | GUint64 int
  | GFloat32 rat | GFloat64 rat | GStr string | GList "gval list" | GMap "(string \<times> gval) list"
  | GStrs "string list" | GInts "int list" | GFloats "rat list"

fun type_tag :: "gval \<Rightarrow> nat" where
  "type_tag GNil = 0" | "type_tag (GBool _) = 1" | "type_tag (GInt _) = 2" | "type_tag (GInt32 _) = 3"
| "type_tag (GInt64 _) = 4" | "type_tag (GUint _) = 5" | "type_tag (GUint64 _) = 6"
| "type_tag (GFloat32 _) = 7" | "type_tag (GFloat64 _) = 8" | "type_tag (GStr _) = 9"
| "type_tag (GList _) = 10" | "type_tag (GMap _) = 11" | "type_tag (GStrs _) = 12"
| "type_tag (GInts _) = 13" | "type_tag (GFloats _) = 14"

text \<open>\<open>==\<close> on two interface values: equal dynamic types and equal values; maps and slices are
  not comparable, so two values of the same such type panic.\<close>

definition iface_eq :: "gval \<Rightarrow> gval \<Rightarrow> bool outcome" where
  "iface_eq a b = (if type_tag a \<noteq> type_tag b then Done False
     else if type_tag a \<ge> 10 then Panic ''comparing uncomparable type'' else Done (a = b))"

text \<open>\<open>float64(n)\<close> of an integer of up to 64 bits: exact up to 2 ^ 53, then rounded to 53
  significant bits, ties to even.\<close>

fun bit_len :: "nat \<Rightarrow> nat" where
  "bit_len n = (if n = 0 then 0 else Suc (bit_len (n div 2)))"

declare bit_len.simps [simp del]

definition round_bits :: "nat \<Rightarrow> nat" where
  "round_bits n = (let e = bit_len n - 53; q = n div 2 ^ e; r = n mod 2 ^ e; half = 2 ^ e div 2
     in (if e > 0 \<and> (r > half \<or> r = half \<and> odd q) then Suc q else q) * 2 ^ e)"

definition f64_of_int :: "int \<Rightarrow> rat" where
  "f64_of_int n = (if n < 0 then - of_nat (round_bits (nat (- n))) else of_nat (round_bits (nat n)))"

fun to_float64 :: "gval \<Rightarrow> rat option" where
  "to_float64 (GInt n) = Some (f64_of_int n)"
| "to_float64 (GInt32 n) = Some (f64_of_int n)"
| "to_float64 (GInt64 n) = Some (f64_of_int n)"
| "to_float64 (GUint n) = Some (f64_of_int n)"
| "to_float64 (GUint64 n) = Some (f64_of_int n)"
| "to_float64 (GFloat32 x) = Some x"
| "to_float64 (GFloat64 x) = Some x"
| "to_float64 _ = None"

fun value_to_string :: "gval \<Rightarrow> string option" where
  "value_to_string (GStr s) = Some s"
| "value_to_string _ = None"

subsection \<open>Constraints\<close>

definition compare_numeric :: "gval \<Rightarrow> gval \<Rightarrow> int" where
  "compare_numeric actual expected =
     (case to_float64 actual of
        None \<Rightarrow> - 2
      | Some a \<Rightarrow> (case to_float64 expected of
            None \<Rightarrow> 2
          | Some b \<Rightarrow> if a < b then - 1 else if a > b then 1 else 0))"

fun member_eq :: "gval \<Rightarrow> gval list \<Rightarrow> bool outcome" where
  "member_eq actual [] = Done False"
| "member_eq actual (item # items) =
     bind_outcome (iface_eq actual item) (\<lambda>same. if same then Done True else member_eq actual items)"

fun value_in :: "gval \<Rightarrow> gval \<Rightarrow> bool outcome" where
  "value_in actual (GList l) = member_eq actual l"
| "value_in actual (GStrs l) = Done (\<exists>x \<in> set l. actual = GStr x)"
| "value_in actual (GInts l) = Done (\<exists>x \<in> set l. actual = GInt x)"
| "value_in actual (GFloats l) = Done (\<exists>x \<in> set l. actual = GFloat64 x)"
| "value_in actual _ = Done False"

text \<open>\<open>strings.Contains\<close>.\<close>

fun str_contains :: "string \<Rightarrow> string \<Rightarrow> bool" where
  "str_contains [] p = (p = [])"
| "str_contains (c # s) p = (has_prefix (c # s) p \<or> str_contains s p)"

definition like_value :: "gval \<Rightarrow> gval \<Rightarrow> bool outcome" where
  "like_value actual v = (case value_to_string actual of
     None \<Rightarrow> Done False
   | Some str \<Rightarrow> (case v of GStr p \<Rightarrow> Done (str_contains str p)
       | _ \<Rightarrow> Panic ''interface conversion: interface is not string''))"

definition compare_values :: "gval \<Rightarrow> gval \<Rightarrow> bool outcome" where
  "compare_values actual expected =
     (case expected of
        GMap m \<Rightarrow>
          (case gm_get m ''__eq'' of Some v \<Rightarrow> iface_eq actual v | None \<Rightarrow>
          (case gm_get m ''__ne'' of Some v \<Rightarrow> bind_outcome (iface_eq actual v) (\<lambda>b. Done (\<not> b)) | None \<Rightarrow>
          (case gm_get m ''__in'' of Some v \<Rightarrow> value_in actual v | None \<Rightarrow>
          (case gm_get m ''__like'' of Some v \<Rightarrow> like_value actual v | None \<Rightarrow>
          (case gm_get m ''__gt'' of Some v \<Rightarrow> Done (compare_numeric actual v > 0) | None \<Rightarrow>
          (case gm_get m ''__gte'' of Some v \<Rightarrow> Done (compare_numeric actual v \<ge> 0) | None \<Rightarrow>
          (case gm_get m ''__lt'' of Some v \<Rightarrow> Done (compare_numeric actual v < 0) | None \<Rightarrow>
          (case gm_get m ''__lte'' of Some v \<Rightarrow> Done (compare_numeric actual v \<le> 0) | None \<Rightarrow>
             Done False))))))))
      | _ \<Rightarrow> iface_eq actual expected)"

fun validate_constraint :: "(string, gval) gomap \<Rightarrow> (string, gval) gomap \<Rightarrow> bool outcome" where
  "validate_constraint data [] = Done True"
| "validate_constraint data ((key, expected) # rest) =
     (case gm_get data key of
        None \<Rightarrow> Done False
      | Some actual \<Rightarrow> bind_outcome (compare_values actual expected)
          (\<lambda>ok. if ok then validate_constraint data rest else Done False))"

text \<open>\<open>json.Unmarshal\<close> into a \<open>map[string]interface{}\<close> is the argument \<open>unmarshal\<close>; JSON null
  gives a nil map, the empty list.\<close>

definition parse_constraint :: "(string \<Rightarrow> gerr + (string, gval) gomap) \<Rightarrow> string \<Rightarrow>
    gerr + (string, gval) gomap" where
  "parse_constraint unmarshal s = (if s = [] then Inr [] else unmarshal s)"

definition check_constraint :: "(string \<Rightarrow> gerr + (string, gval) gomap) \<Rightarrow> data_access \<Rightarrow>
    (string, gval) gomap \<Rightarrow> bool outcome" where
  "check_constraint unmarshal d data =
     (if da_constraints d = [] then Done True
      else (case parse_constraint unmarshal (da_constraints d) of
          Inl e \<Rightarrow> Done False
        | Inr c \<Rightarrow> if c = [] then Done True else validate_constraint data c))"

subsection \<open>Scopes\<close>

record saas_config =
  enable_hierarchy :: bool
  enable_constraint :: bool
  cleanup_interval :: duration

definition default_saas_config :: saas_config where
  "default_saas_config = \<lparr>enable_hierarchy = True, enable_constraint = False, cleanup_interval = hour\<rparr>"

text \<open>The clause a scope adds: \<open>1 = 0\<close>, or \<open>id IN\<close> of a list or of sub-selects, which the
  database evaluates with the query itself.\<close>

datatype scope_clause =
    WhereFalse
  | WhereIds "nat list"
  | WhereOwn "ownership \<Rightarrow> bool"
  | WhereAcc "data_access \<Rightarrow> bool"
  | WhereUnion "ownership \<Rightarrow> bool" "data_access \<Rightarrow> bool"

definition admits_own :: "'s gorm \<Rightarrow> (ownership \<Rightarrow> bool) \<Rightarrow> 's \<Rightarrow> gerr + nat list" where
  "admits_own g P s = (case db_find_own g P s of Inl e \<Rightarrow> Inl e | Inr rs \<Rightarrow> Inr (map ow_data_id rs))"

definition admits_acc :: "'s gorm \<Rightarrow> (data_access \<Rightarrow> bool) \<Rightarrow> 's \<Rightarrow> gerr + nat list" where
  "admits_acc g P s = (case db_find_acc g P s of Inl e \<Rightarrow> Inl e | Inr rs \<Rightarrow> Inr (map da_data_id rs))"

fun clause_ids :: "'s gorm \<Rightarrow> scope_clause \<Rightarrow> 's \<Rightarrow> gerr + nat list" where
  "clause_ids g WhereFalse s = Inr []"
| "clause_ids g (WhereIds ids) s = Inr ids"
| "clause_ids g (WhereOwn P) s = admits_own g P s"
| "clause_ids g (WhereAcc Q) s = admits_acc g Q s"
| "clause_ids g (WhereUnion P Q) s =
     (case admits_own g P s of Inl e \<Rightarrow> Inl e | Inr ids \<Rightarrow>
        (case admits_acc g Q s of Inl e \<Rightarrow> Inl e | Inr js \<Rightarrow> Inr (remdups (ids @ js))))"

definition own_rows :: "string \<Rightarrow> nat \<Rightarrow> ownership \<Rightarrow> bool" where
  "own_rows dt t r = (ow_data_type r = dt \<and> ow_owner_id r = t)"

definition live_rows :: "time \<Rightarrow> string \<Rightarrow> nat \<Rightarrow> data_access \<Rightarrow> bool" where
  "live_rows now dt t r = (da_data_type r = dt \<and> da_tenant_id r = t \<and> acc_live now r)"

definition tenant_scope :: "time \<Rightarrow> tenant_ctx \<Rightarrow> string \<Rightarrow> scope_clause" where
  "tenant_scope now ctx dt = (case tenant_from_context ctx of
     Inl e \<Rightarrow> WhereFalse | Inr t \<Rightarrow> WhereUnion (own_rows dt t) (live_rows now dt t))"

definition tenant_scope_with_own :: "tenant_ctx \<Rightarrow> string \<Rightarrow> scope_clause" where
  "tenant_scope_with_own ctx dt = (case tenant_from_context ctx of
     Inl e \<Rightarrow> WhereFalse | Inr t \<Rightarrow> WhereOwn (own_rows dt t))"

definition tenant_scope_with_access :: "time \<Rightarrow> tenant_ctx \<Rightarrow> string \<Rightarrow> int list \<Rightarrow> scope_clause" where
  "tenant_scope_with_access now ctx dt levels = (case tenant_from_context ctx of
     Inl e \<Rightarrow> WhereFalse
   | Inr t \<Rightarrow> WhereAcc (\<lambda>r. live_rows now dt t r \<and> (levels \<noteq> [] \<longrightarrow> da_access_level r \<in> set levels)))"

text \<open>Tenants, and the calls on their table.\<close>

record tenant =
  tn_id :: nat
  tn_name :: string
  tn_parent_id :: "nat option"
  tn_path :: string
  tn_level :: int
  tn_status :: int
  tn_config :: string
  tn_created_at :: time
  tn_updated_at :: time

definition tenant_is_root :: "tenant \<Rightarrow> bool" where
  "tenant_is_root t = (tn_parent_id t = None)"

record 's tenant_db =
  td_first :: "nat \<Rightarrow> 's \<Rightarrow> gerr + tenant"
  td_find :: "(tenant \<Rightarrow> bool) \<Rightarrow> 's \<Rightarrow> gerr + tenant list"
  td_find_by_level :: "(tenant \<Rightarrow> bool) \<Rightarrow> 's \<Rightarrow> gerr + tenant list"
  td_save :: "tenant \<Rightarrow> 's \<Rightarrow> gerr option \<times> 's"

definition has_children :: "'s tenant_db \<Rightarrow> tenant \<Rightarrow> 's \<Rightarrow> bool" where
  "has_children d t s = (case td_find d (\<lambda>x. tn_parent_id x = Some (tn_id t)) s of
     Inl e \<Rightarrow> False | Inr xs \<Rightarrow> xs \<noteq> [])"

text \<open>SQL's \<open>LIKE\<close>: \<open>%\<close> stands for any text, \<open>_\<close> for one character.\<close>

fun sql_like :: "string \<Rightarrow> string \<Rightarrow> bool" where
  "sql_like [] t = (t = [])"
| "sql_like (p # ps) t =
     (if p = CHR ''%'' then sql_like ps t \<or> (case t of [] \<Rightarrow> False | c # cs \<Rightarrow> sql_like (p # ps) cs)
      else (case t of [] \<Rightarrow> False | c # cs \<Rightarrow> (p = CHR ''_'' \<or> p = c) \<and> sql_like ps cs))"

definition path_like :: "tenant \<Rightarrow> tenant \<Rightarrow> bool" where
  "path_like rt t = sql_like (tn_path rt @ ''%'') (tn_path t)"

definition tenant_scope_with_children :: "saas_config \<Rightarrow> 's tenant_db \<Rightarrow> tenant_ctx \<Rightarrow> string \<Rightarrow> 's \<Rightarrow>
    scope_clause" where
  "tenant_scope_with_children cfg d ctx dt s =
     (case tenant_from_context ctx of
        Inl e \<Rightarrow> WhereFalse
      | Inr t \<Rightarrow>
          if \<not> enable_hierarchy cfg then tenant_scope_with_own ctx dt
          else (case td_first d t s of
              Inl e \<Rightarrow> WhereFalse
            | Inr tenant \<Rightarrow>
                let children = (case td_find d (path_like tenant) s of Inl e \<Rightarrow> [] | Inr xs \<Rightarrow> xs);
                    ids = t # map tn_id children
                in WhereOwn (\<lambda>r. ow_data_type r = dt \<and> ow_owner_id r \<in> set ids)))"

text \<open>The conditions of the constraint query: \<open>id = ?\<close> and a comparison of a column with a
  bound value.\<close>

datatype sql_cond = IdIs nat | ColCond string string gval

definition char_between :: "char \<Rightarrow> char \<Rightarrow> char \<Rightarrow> bool" where
  "char_between lo hi c = ((of_char lo :: nat) \<le> of_char c \<and> (of_char c :: nat) \<le> of_char hi)"

definition ident_start :: "char \<Rightarrow> bool" where
  "ident_start c = (char_between CHR ''a'' CHR ''z'' c \<or> char_between CHR ''A'' CHR ''Z'' c \<or> c = CHR ''_'')"

definition ident_char :: "char \<Rightarrow> bool" where
  "ident_char c = (ident_start c \<or> char_between CHR ''0'' CHR ''9'' c)"

definition valid_column_name :: "string \<Rightarrow> bool" where
  "valid_column_name s = (case s of [] \<Rightarrow> False | c # cs \<Rightarrow> ident_start c \<and> list_all ident_char cs)"

definition sql_operators :: "(string \<times> string) list" where
  "sql_operators = [(''__gt'', '' > ?''), (''__gte'', '' >= ?''), (''__lt'', '' < ?''), (''__lte'', '' <= ?''),
     (''__eq'', '' = ?''), (''__ne'', '' != ?''), (''__in'', '' IN ?'')]"

fun first_operator :: "(string \<times> string) list \<Rightarrow> (string, gval) gomap \<Rightarrow> (string \<times> gval) option" where
  "first_operator [] m = None"
| "first_operator ((name, sql) # ops) m =
     (case gm_get m name of Some v \<Rightarrow> Some (sql, v) | None \<Rightarrow> first_operator ops m)"

fun constraint_conds :: "(string, gval) gomap \<Rightarrow> sql_cond list \<Rightarrow> bool \<Rightarrow> sql_cond list option" where
  "constraint_conds [] q valid = (if valid then Some q else None)"
| "constraint_conds ((key, val) # rest) q valid =
     (if \<not> valid_column_name key then None
      else (case val of
          GMap m \<Rightarrow> (case first_operator sql_operators m of
              Some (sql, v) \<Rightarrow> constraint_conds rest (q @ [ColCond key sql v]) valid
            | None \<Rightarrow> constraint_conds rest q False)
        | _ \<Rightarrow> constraint_conds rest (q @ [ColCond key '' = ?'' val]) valid))"

text \<open>\<open>biz_count table conditions\<close> is the count on the business table.\<close>

definition access_is_valid :: "(string \<Rightarrow> gerr + (string, gval) gomap) \<Rightarrow> (string \<Rightarrow> sql_cond list \<Rightarrow> gerr + int) \<Rightarrow>
    string \<Rightarrow> data_access \<Rightarrow> bool" where
  "access_is_valid unmarshal biz_count dt a =
     (if da_constraints a = [] then True
      else (case parse_constraint unmarshal (da_constraints a) of
          Inl e \<Rightarrow> False
        | Inr c \<Rightarrow> if c = [] then True
            else (case constraint_conds c [IdIs (da_data_id a)] True of
                None \<Rightarrow> False
              | Some q \<Rightarrow> (case biz_count dt q of Inl e \<Rightarrow> False | Inr cnt \<Rightarrow> cnt > 0))))"

definition tenant_scope_with_constraint :: "saas_config \<Rightarrow> (string \<Rightarrow> gerr + (string, gval) gomap) \<Rightarrow>
    (string \<Rightarrow> sql_cond list \<Rightarrow> gerr + int) \<Rightarrow> 's gorm \<Rightarrow> time \<Rightarrow> tenant_ctx \<Rightarrow> string \<Rightarrow> 's \<Rightarrow> scope_clause" where
  "tenant_scope_with_constraint cfg unmarshal biz_count g now ctx dt s =
     (case tenant_from_context ctx of
        Inl e \<Rightarrow> WhereFalse
      | Inr t \<Rightarrow>
          if \<not> enable_constraint cfg then tenant_scope now ctx dt
          else
            let accesses = (case db_find_acc g (live_rows now dt t) s of Inl e \<Rightarrow> [] | Inr acs \<Rightarrow> acs);
                ids = map da_data_id (filter (access_is_valid unmarshal biz_count dt) accesses)
            in if ids = [] then WhereFalse else WhereIds ids)"

subsection \<open>The tenant hierarchy\<close>

definition update_tenant_path :: "'s tenant_db \<Rightarrow> tenant \<Rightarrow> 's \<Rightarrow> gerr option \<times> tenant \<times> 's" where
  "update_tenant_path d t s =
     (case tn_parent_id t of
        None \<Rightarrow>
          let t1 = t\<lparr>tn_path := ''/'' @ dec_nat (tn_id t) @ ''/'', tn_level := 1\<rparr>
          in (case td_save d t1 s of (e, s1) \<Rightarrow> (e, t1, s1))
      | Some p \<Rightarrow> (case td_first d p s of
            Inl e \<Rightarrow> (Some e, t, s)
          | Inr parent \<Rightarrow>
              let t1 = t\<lparr>tn_path := tn_path parent @ dec_nat (tn_id t) @ ''/'', tn_level := tn_level parent + 1\<rparr>
              in (case td_save d t1 s of (e, s1) \<Rightarrow> (e, t1, s1))))"

definition get_tenant_children :: "'s tenant_db \<Rightarrow> nat \<Rightarrow> 's \<Rightarrow> gerr + tenant list" where
  "get_tenant_children d i s = (case td_first d i s of
     Inl e \<Rightarrow> Inl e | Inr t \<Rightarrow> td_find d (path_like t) s)"

datatype tree_node = TreeNode nat string int "tree_node list"

text \<open>\<open>buildTree\<close> recurses for ever on a cycle of parents: None when the fuel ends.\<close>

fun build_tree :: "nat \<Rightarrow> tenant list \<Rightarrow> nat option \<Rightarrow> tree_node list option"
  and build_nodes :: "nat \<Rightarrow> tenant list \<Rightarrow> nat option \<Rightarrow> tenant list \<Rightarrow> tree_node list option"
where
  "build_tree 0 tenants parent = None"
| "build_tree (Suc fuel) tenants parent = build_nodes fuel tenants parent tenants"
| "build_nodes fuel tenants parent [] = Some []"
| "build_nodes fuel tenants parent (t # ts) =
     (if tn_parent_id t = parent
      then (case build_tree fuel tenants (Some (tn_id t)) of
          None \<Rightarrow> None
        | Some children \<Rightarrow> (case build_nodes fuel tenants parent ts of
              None \<Rightarrow> None
            | Some nodes \<Rightarrow> Some (TreeNode (tn_id t) (tn_name t) (tn_level t) children # nodes)))
      else build_nodes fuel tenants parent ts)"

definition get_tenant_tree :: "'s tenant_db \<Rightarrow> nat \<Rightarrow> nat option \<Rightarrow> 's \<Rightarrow> (gerr + tree_node list) option" where
  "get_tenant_tree d fuel root_id s =
     (case root_id of
        None \<Rightarrow> (case td_find_by_level d (\<lambda>_. True) s of
            Inl e \<Rightarrow> Some (Inl e)
          | Inr ts \<Rightarrow> map_option Inr (build_tree fuel ts None))
      | Some i \<Rightarrow> (case td_first d i s of
            Inl e \<Rightarrow> Some (Inl e)
          | Inr rt \<Rightarrow> (case td_find_by_level d (path_like rt) s of
                Inl e \<Rightarrow> Some (Inl e)
              | Inr ts \<Rightarrow> map_option Inr (build_tree fuel ts (tn_parent_id rt)))))"

subsection \<open>Shared data is seen until it expires or is revoked\<close>

lemma tenant_scope_ids:
  assumes "gorm_tables g owns accs wf_tables healthy" "healthy s" "get_tenant_from_context ctx = Some t"
  shows "\<exists>ids. clause_ids g (tenant_scope now ctx dt) s = Inr ids \<and>
     (\<forall>i. i \<in> set ids \<longleftrightarrow> (\<exists>r \<in> set (owns s). own_by dt i t r) \<or>
        (\<exists>a \<in> set (accs s). acc_of dt i t a \<and> acc_live now a))"
  using gorm_tables.find_own [OF assms(1,2)] gorm_tables.find_acc [OF assms(1,2)] assms(3)
  by (auto simp: tenant_scope_def tenant_from_context_def admits_own_def admits_acc_def own_rows_def
      live_rows_def own_by_def own_key_def acc_of_def acc_key_def)

definition sees :: "'s gorm \<Rightarrow> time \<Rightarrow> nat \<Rightarrow> string \<Rightarrow> nat \<Rightarrow> 's \<Rightarrow> bool" where
  "sees g now t dt i s = (case clause_ids g (tenant_scope now (with_tenant None t) dt) s of
     Inl e \<Rightarrow> False | Inr ids \<Rightarrow> i \<in> set ids)"

lemma sees_iff:
  assumes "gorm_tables g owns accs wf_tables healthy" "healthy s"
  shows "sees g now t dt i s \<longleftrightarrow> (\<exists>r \<in> set (owns s). own_by dt i t r) \<or>
     (\<exists>a \<in> set (accs s). acc_of dt i t a \<and> acc_live now a)"
proof -
  have "get_tenant_from_context (with_tenant None t) = Some t"
    by (simp add: with_tenant_def get_tenant_from_context_def)
  then show ?thesis
    using tenant_scope_ids [OF assms, of "with_tenant None t" t now dt] by (auto simp: sees_def)
qed

text \<open>Sharing takes effect and ends: when the database works and an owner shares a datum
  with a tenant that does not own it, the scope of that tenant shows the datum at every time
  before the expiry given, and after the owner has revoked the access it shows it no more.\<close>

theorem sharing_takes_effect:
  assumes "gorm_tables g owns accs wf_tables healthy" and "healthy s"
    and "get_tenant_from_context ctx = Some t"
    and "\<exists>r \<in> set (owns s). own_by dt i t r" and "\<not> (\<exists>r \<in> set (owns s). own_by dt i b r)"
  shows "case share_data g now ctx dt i b level (Some ex) k s of (e, s1) \<Rightarrow> e = None \<and>
     (\<forall>later. later < ex \<longrightarrow> sees g later b dt i s1) \<and>
     (case revoke_access g now2 ctx dt i b s1 of (e2, s2) \<Rightarrow> e2 = None \<and>
        (\<forall>later. \<not> sees g later b dt i s2))"
proof -
  obtain r where r: "r \<in> set (owns s)" "own_by dt i t r" using assms(4) by blast
  obtain s1 a where s1: "share_data g now ctx dt i b level (Some ex) k s = (None, s1)" "healthy s1"
      "owns s1 = owns s" and a: "a \<in> set (accs s1)" "acc_of dt i b a" "da_expire_at a = Some ex"
    using gorm_tables.share_data_healthy [OF assms(1-3) r, of now b level "Some ex" k] by auto
  obtain s2 where s2: "revoke_access g now2 ctx dt i b s1 = (None, s2)" "healthy s2"
      "owns s2 = owns s1" "\<forall>a \<in> set (accs s2). \<not> acc_of dt i b a"
    using gorm_tables.revoke_access_healthy [OF assms(1) s1(2) assms(3), of r dt i now2 b] r s1(3) by auto
  have "sees g later b dt i s1" if "later < ex" for later
    using a that by (auto simp: sees_iff [OF assms(1) s1(2)] acc_live_def)
  moreover have "\<not> sees g later b dt i s2" for later
    using s1(3) s2(3,4) assms(5) by (auto simp: sees_iff [OF assms(1) s2(2)])
  ultimately show ?thesis using s1(1) s2(1) by simp
qed

theorem sharing_takes_effect_witness:
  "sees table_db 50 2 ''orders'' 7
     (snd (share_data table_db 5 (Some (TenantId 1)) ''orders'' 7 2 1 (Some 100) None example_tables))"
proof -
  have "no_faults example_tables" "get_tenant_from_context (Some (TenantId 1)) = Some 1"
    "\<exists>r \<in> set (tb_own example_tables). own_by ''orders'' 7 1 r"
    "\<not> (\<exists>r \<in> set (tb_own example_tables). own_by ''orders'' 7 2 r)"
    by (simp_all add: no_faults_def example_tables_def get_tenant_from_context_def new_ownership_def
        own_by_def own_key_def)
  from sharing_takes_effect [OF sql.gorm_tables_axioms this, where now = 5 and level = 1 and ex = 100
      and k = None]
  show ?thesis by (auto simp: case_prod_unfold)
qed

subsection \<open>Constraints reach the database as data\<close>

definition safe_cond :: "sql_cond \<Rightarrow> bool" where
  "safe_cond c = (case c of IdIs i \<Rightarrow> True
     | ColCond key op v \<Rightarrow> valid_column_name key \<and> op \<in> snd ` set sql_operators)"

lemma first_operator_sql: "first_operator ops m = Some (sql, v) \<Longrightarrow> sql \<in> snd ` set ops"
  by (induction ops m rule: first_operator.induct) (auto split: option.splits)

lemma constraint_conds_safe:
  "constraint_conds c q valid = Some q' \<Longrightarrow> list_all safe_cond q \<Longrightarrow> list_all safe_cond q'"
proof (induction c q valid rule: constraint_conds.induct)
  case (1 q valid)
  then show ?case by (auto split: if_splits)
next
  case (2 key val rest q valid)
  have eq: "'' = ?'' \<in> snd ` set sql_operators" by (simp add: sql_operators_def)
  show ?case
  proof (cases val)
    case (GMap m)
    show ?thesis
    proof (cases "first_operator sql_operators m")
      case None
      then show ?thesis using 2 GMap by (auto split: if_splits)
    next
      case (Some p)
      obtain sql v where p: "p = (sql, v)" by (cases p)
      have "safe_cond (ColCond key sql v)" if "valid_column_name key"
        using first_operator_sql [of sql_operators m sql v] Some that by (simp add: p safe_cond_def)
      then show ?thesis using 2 GMap Some p by (auto split: if_splits)
    qed
  qed (use 2 eq in \<open>auto simp: safe_cond_def split: if_splits\<close>)
qed

text \<open>The constraint scope on a database that works shows exactly the data with a live
  access record of the tenant that has no constraints, or whose constraints decode and,
  unless they are empty, pass as conditions of a count on the business table that is
  positive; every column name of every such condition is an identifier and every operator
  one of the seven known, so no text of the constraints is read as SQL.\<close>

theorem constraint_scope_exact:
  assumes "gorm_tables g owns accs wf_tables healthy" and "healthy s"
    and "enable_constraint cfg" and "get_tenant_from_context ctx = Some t"
  shows "\<exists>ids. clause_ids g (tenant_scope_with_constraint cfg unmarshal biz_count g now ctx dt s) s = Inr ids \<and>
     (\<forall>i. i \<in> set ids \<longleftrightarrow> (\<exists>a \<in> set (accs s). acc_of dt i t a \<and> acc_live now a \<and>
        (da_constraints a = [] \<or> (\<exists>c. unmarshal (da_constraints a) = Inr c \<and>
           (c = [] \<or> (\<exists>q n. constraint_conds c [IdIs i] True = Some q \<and> list_all safe_cond q \<and>
              biz_count dt q = Inr n \<and> n > 0))))))"
proof -
  have v: "access_is_valid unmarshal biz_count dt a \<longleftrightarrow>
      (da_constraints a = [] \<or> (\<exists>c. unmarshal (da_constraints a) = Inr c \<and>
         (c = [] \<or> (\<exists>q n. constraint_conds c [IdIs (da_data_id a)] True = Some q \<and> list_all safe_cond q \<and>
            biz_count dt q = Inr n \<and> n > 0))))" for a
  proof -
    have "list_all safe_cond q" if "constraint_conds c [IdIs (da_data_id a)] True = Some q" for c q
      by (rule constraint_conds_safe [OF that]) (simp add: safe_cond_def)
    then show ?thesis
      by (auto simp: access_is_valid_def parse_constraint_def split: sum.splits option.splits)
        (metis old.sum.exhaust)+
  qed
  let ?ids = "map da_data_id (filter (access_is_valid unmarshal biz_count dt) (filter (live_rows now dt t) (accs s)))"
  have "clause_ids g (tenant_scope_with_constraint cfg unmarshal biz_count g now ctx dt s) s = Inr ?ids"
    using gorm_tables.find_acc [OF assms(1,2)] assms(3,4)
    by (simp add: tenant_scope_with_constraint_def tenant_from_context_def Let_def filter_empty_conv)
  moreover have "i \<in> set ?ids \<longleftrightarrow> (\<exists>a \<in> set (accs s). acc_of dt i t a \<and> acc_live now a \<and>
      access_is_valid unmarshal biz_count dt a)" for i
    by (auto simp: live_rows_def acc_of_def acc_key_def)
  moreover have "(\<exists>a \<in> set (accs s). acc_of dt i t a \<and> acc_live now a \<and>
        access_is_valid unmarshal biz_count dt a) \<longleftrightarrow>
      (\<exists>a \<in> set (accs s). acc_of dt i t a \<and> acc_live now a \<and>
        (da_constraints a = [] \<or> (\<exists>c. unmarshal (da_constraints a) = Inr c \<and>
         (c = [] \<or> (\<exists>q n. constraint_conds c [IdIs i] True = Some q \<and> list_all safe_cond q \<and>
            biz_count dt q = Inr n \<and> n > 0)))))" for i
    by (intro bex_cong refl) (auto simp: v acc_of_def acc_key_def)
  ultimately show ?thesis by simp
qed

definition example_unmarshal :: "string \<Rightarrow> gerr + (string, gval) gomap" where
  "example_unmarshal s = (if s = ''{\"amount\":{\"__lt\":9}}''
     then Inr [(''amount'', GMap [(''__lt'', GFloat64 9)])] else Inl (ErrMsg ''invalid character''))"

definition shared_tables :: tables where
  "shared_tables = example_tables\<lparr>tb_acc := [new_access 0 ''orders'' 7 2 1 1 (Some 100)
     \<lparr>da_id := 4, da_constraints := ''{\"amount\":{\"__lt\":9}}''\<rparr>]\<rparr>"

theorem constraint_scope_exact_witness:
  "clause_ids table_db (tenant_scope_with_constraint (default_saas_config\<lparr>enable_constraint := True\<rparr>)
     example_unmarshal (\<lambda>dt q. Inr 1) table_db 50 (Some (TenantId 2)) ''orders'' shared_tables) shared_tables =
     Inr [7] \<and>
   (\<exists>ids. clause_ids table_db (tenant_scope_with_constraint (default_saas_config\<lparr>enable_constraint := True\<rparr>)
     example_unmarshal (\<lambda>dt q. Inr 1) table_db 50 (Some (TenantId 2)) ''orders'' shared_tables) shared_tables =
     Inr ids)"
proof -
  have "no_faults shared_tables" "get_tenant_from_context (Some (TenantId 2)) = Some 2"
    "enable_constraint (default_saas_config\<lparr>enable_constraint := True\<rparr>)"
    by (simp_all add: no_faults_def example_tables_def shared_tables_def get_tenant_from_context_def)
  from constraint_scope_exact [OF sql.gorm_tables_axioms this(1,3,2), of example_unmarshal "\<lambda>dt q. Inr 1" 50 "''orders''"]
  have "\<exists>ids. clause_ids table_db (tenant_scope_with_constraint (default_saas_config\<lparr>enable_constraint := True\<rparr>)
     example_unmarshal (\<lambda>dt q. Inr 1) table_db 50 (Some (TenantId 2)) ''orders'' shared_tables) shared_tables =
     Inr ids" by blast
  moreover have "clause_ids table_db (tenant_scope_with_constraint (default_saas_config\<lparr>enable_constraint := True\<rparr>)
     example_unmarshal (\<lambda>dt q. Inr 1) table_db 50 (Some (TenantId 2)) ''orders'' shared_tables) shared_tables =
     Inr [7]" by code_simp
  ultimately show ?thesis by blast
qed

subsection \<open>Comparisons that let everything pass\<close>

text \<open>C32. The order operators of a constraint fail open, and only one operator is looked at:
  \<open>compareNumeric\<close> reports a value that is not a number as -2 and a bound that is not a
  number as 2, so \<open>__lt\<close> and \<open>__lte\<close> are passed by every value that is not a number,
  \<open>__gt\<close> and \<open>__gte\<close> by every number when the bound is none; of a pair of bounds
  \<open>__gte\<close> and \<open>__lt\<close> on one column the upper one is ignored; and a \<open>__like\<close> whose
  operand is no text panics.\<close>

theorem order_constraints_fail_open:
  "(to_float64 actual = None \<longrightarrow> compare_values actual (GMap [(''__lt'', v)]) = Done True \<and>
      compare_values actual (GMap [(''__lte'', v)]) = Done True \<and>
      compare_values actual (GMap [(''__gt'', v)]) = Done False \<and>
      compare_values actual (GMap [(''__gte'', v)]) = Done False) \<and>
   (to_float64 actual \<noteq> None \<and> to_float64 v = None \<longrightarrow>
      compare_values actual (GMap [(''__gt'', v)]) = Done True \<and>
      compare_values actual (GMap [(''__gte'', v)]) = Done True) \<and>
   compare_values actual (GMap [(''__gte'', lo), (''__lt'', hi)]) = compare_values actual (GMap [(''__gte'', lo)]) \<and>
   (value_to_string v = None \<longrightarrow> compare_values (GStr str) (GMap [(''__like'', v)]) =
      Panic ''interface conversion: interface is not string'')"
  by (auto simp: compare_values_def compare_numeric_def like_value_def split: option.splits gval.splits)

theorem order_constraints_fail_open_witness:
  "compare_values (GStr ''free'') (GMap [(''__lt'', GFloat64 100)]) = Done True \<and>
   compare_values (GInt64 500) (GMap [(''__gt'', GStr ''1000'')]) = Done True \<and>
   compare_values (GStr ''x'') (GMap [(''__like'', GInt 1)]) \<noteq> Done True"
  using order_constraints_fail_open [of "GStr ''free''" "GFloat64 100"]
    order_constraints_fail_open [of "GInt64 500" "GStr ''1000''"]
    order_constraints_fail_open [of _ "GInt 1" _ _ "''x''"] by simp

subsection \<open>Materialised paths\<close>

text \<open>Every path is the one \<open>UpdateTenantPath\<close> computes from the parent's.\<close>

definition path_of_tenant :: "tenant list \<Rightarrow> tenant \<Rightarrow> bool" where
  "path_of_tenant ts t = (case tn_parent_id t of
     None \<Rightarrow> tn_path t = ''/'' @ dec_nat (tn_id t) @ ''/'' \<and> tn_level t = 1
   | Some p \<Rightarrow> list_ex (\<lambda>q. tn_id q = p \<and> tn_path t = tn_path q @ dec_nat (tn_id t) @ ''/'' \<and>
       tn_level t = tn_level q + 1) ts)"

definition hierarchy_ok :: "tenant list \<Rightarrow> bool" where
  "hierarchy_ok ts = (distinct (map tn_id ts) \<and> list_all (path_of_tenant ts) ts)"

definition parent_rel :: "tenant list \<Rightarrow> (tenant \<times> tenant) set" where
  "parent_rel ts = {(t, q). t \<in> set ts \<and> q \<in> set ts \<and> tn_parent_id t = Some (tn_id q)}"

lemma same_tenant:
  "hierarchy_ok ts \<Longrightarrow> t \<in> set ts \<Longrightarrow> q \<in> set ts \<Longrightarrow> tn_id t = tn_id q \<Longrightarrow> t = q"
  by (auto simp: hierarchy_ok_def distinct_map inj_on_def)

lemma hierarchy_cases:
  assumes "hierarchy_ok ts" "t \<in> set ts"
  obtains (top) "tn_parent_id t = None" "tn_path t = ''/'' @ dec_nat (tn_id t) @ ''/''" "tn_level t = 1"
  | (child) q where "q \<in> set ts" "(t, q) \<in> parent_rel ts"
      "tn_path t = tn_path q @ dec_nat (tn_id t) @ ''/''" "tn_level t = tn_level q + 1"
  using assms
  by (auto simp: hierarchy_ok_def list_all_iff path_of_tenant_def list_ex_iff parent_rel_def split: option.splits)

lemma hierarchy_induct [consumes 2, case_names top child]:
  assumes "hierarchy_ok ts" "t \<in> set ts"
    and "\<And>t. t \<in> set ts \<Longrightarrow> tn_parent_id t = None \<Longrightarrow> tn_path t = ''/'' @ dec_nat (tn_id t) @ ''/'' \<Longrightarrow>
        tn_level t = 1 \<Longrightarrow> P t"
    and "\<And>t q. t \<in> set ts \<Longrightarrow> q \<in> set ts \<Longrightarrow> (t, q) \<in> parent_rel ts \<Longrightarrow>
        tn_path t = tn_path q @ dec_nat (tn_id t) @ ''/'' \<Longrightarrow> tn_level t = tn_level q + 1 \<Longrightarrow> P q \<Longrightarrow> P t"
  shows "P t"
  using assms(2)
proof (induction "length (tn_path t)" arbitrary: t rule: less_induct)
  case less
  from assms(1) less.prems show ?case
  proof (cases rule: hierarchy_cases)
    case top
    then show ?thesis using assms(3) less.prems by blast
  next
    case (child q)
    then have "P q" by (intro less.hyps) simp_all
    then show ?thesis using assms(4) child less.prems by blast
  qed
qed

lemma dec_nat_no: "CHR ''/'' \<notin> set (dec_nat n)" "CHR ''%'' \<notin> set (dec_nat n)" "CHR ''_'' \<notin> set (dec_nat n)"
  by (auto dest!: dec_nat_digits)

lemma path_shape:
  assumes "hierarchy_ok ts" "t \<in> set ts"
  shows "CHR ''%'' \<notin> set (tn_path t) \<and> CHR ''_'' \<notin> set (tn_path t) \<and>
     (\<exists>a. tn_path t = a @ ''/'') \<and> (\<exists>a. (a = ''/'' \<or> (\<exists>b. a = b @ ''/'')) \<and> tn_path t = a @ dec_nat (tn_id t) @ ''/'')"
  using assms by (induction rule: hierarchy_induct) (auto simp: dec_nat_no)

lemma sql_like_prefix:
  "CHR ''%'' \<notin> set p \<Longrightarrow> CHR ''_'' \<notin> set p \<Longrightarrow> sql_like (p @ ''%'') t \<longleftrightarrow> prefix p t"
proof (induction p arbitrary: t)
  case Nil
  have "sql_like ''%'' t" by (induction t) auto
  then show ?case by simp
next
  case (Cons c p)
  then show ?case by (cases t) auto
qed

lemma split_at_slash:
  assumes "a @ x = b @ y" "CHR ''/'' \<notin> set x" "CHR ''/'' \<notin> set y" "\<exists>a'. a = a' @ ''/''" "\<exists>b'. b = b' @ ''/''"
  shows "x = y"
proof -
  obtain us where "a = b @ us \<and> us @ x = y \<or> a @ us = b \<and> x = us @ y"
    using assms(1) by (auto simp: append_eq_append_conv2)
  moreover have "CHR ''/'' \<in> set us" if "us \<noteq> []" "a = b @ us \<or> b = a @ us"
    using that assms(4,5) by (metis last_appendR last_in_set last_snoc)
  ultimately show ?thesis using assms(2,3) by (cases "us = []") auto
qed

lemma prefix_is_ancestor:
  assumes "hierarchy_ok ts" "t \<in> set ts" "r \<in> set ts" "prefix (tn_path r) (tn_path t)"
  shows "(t, r) \<in> (parent_rel ts)\<^sup>*"
  using assms(1,2,4)
proof (induction rule: hierarchy_induct)
  case (top t)
  have shape: "\<exists>a. (a = ''/'' \<or> (\<exists>b. a = b @ ''/'')) \<and> tn_path r = a @ dec_nat (tn_id r) @ ''/''"
    using path_shape [OF assms(1,3)] by blast
  then obtain a where a: "a = ''/'' \<or> (\<exists>b. a = b @ ''/'')" "tn_path r = a @ dec_nat (tn_id r) @ ''/''" by blast
  have ne: "dec_nat (tn_id r) \<noteq> []" by (subst dec_nat.simps) simp
  from top.prems a(2) top.hyps(3) have "prefix ((a @ dec_nat (tn_id r)) @ ''/'') ((''/'' @ dec_nat (tn_id t)) @ ''/'')"
    by simp
  then have "a @ dec_nat (tn_id r) = ''/'' @ dec_nat (tn_id t) \<or>
      prefix ((a @ dec_nat (tn_id r)) @ ''/'') (''/'' @ dec_nat (tn_id t))"
    by (simp only: prefix_snoc append_same_eq)
  moreover have "\<not> prefix ((a @ dec_nat (tn_id r)) @ ''/'') (''/'' @ dec_nat (tn_id t))"
  proof
    assume "prefix ((a @ dec_nat (tn_id r)) @ ''/'') (''/'' @ dec_nat (tn_id t))"
    then obtain z where "(a @ dec_nat (tn_id r)) @ ''/'' @ z = ''/'' @ dec_nat (tn_id t)" by (auto simp: prefix_def)
    then have "tl (a @ dec_nat (tn_id r)) @ ''/'' @ z = dec_nat (tn_id t)" using ne
      by (cases "a @ dec_nat (tn_id r)") auto
    then show False using dec_nat_no(1) [of "tn_id t"] by (metis in_set_conv_decomp append_Cons append_Nil)
  qed
  ultimately have eq: "a @ dec_nat (tn_id r) = ''/'' @ dec_nat (tn_id t)" by blast
  have "\<exists>b. a = b @ ''/''" "\<exists>b. ''/'' = b @ ''/''" using a(1) by auto
  then have "dec_nat (tn_id r) = dec_nat (tn_id t)"
    by (rule split_at_slash [OF eq dec_nat_no(1) dec_nat_no(1)])
  then show ?case using same_tenant [OF assms(1,3) top.hyps(1)] by (auto simp: dec_nat_inj)
next
  case (child t q)
  have shape: "\<exists>a. (a = ''/'' \<or> (\<exists>b. a = b @ ''/'')) \<and> tn_path r = a @ dec_nat (tn_id r) @ ''/''"
    using path_shape [OF assms(1,3)] by blast
  then obtain a where a: "\<exists>b. a = b @ ''/''" "tn_path r = a @ dec_nat (tn_id r) @ ''/''" by auto
  have q: "\<exists>b. tn_path q = b @ ''/''" using path_shape [OF assms(1) child.hyps(2)] by blast
  from child.prems a(2) child.hyps(4)
  have "prefix ((a @ dec_nat (tn_id r)) @ ''/'') ((tn_path q @ dec_nat (tn_id t)) @ ''/'')" by simp
  then have "a @ dec_nat (tn_id r) = tn_path q @ dec_nat (tn_id t) \<or>
      prefix ((a @ dec_nat (tn_id r)) @ ''/'') (tn_path q @ dec_nat (tn_id t))"
    by (simp only: prefix_snoc append_same_eq)
  then have "a @ dec_nat (tn_id r) = tn_path q @ dec_nat (tn_id t) \<or>
      prefix (tn_path r) (tn_path q @ dec_nat (tn_id t))"
    using a(2) by simp
  then show ?case
  proof
    assume "a @ dec_nat (tn_id r) = tn_path q @ dec_nat (tn_id t)"
    then have "dec_nat (tn_id r) = dec_nat (tn_id t)"
      by (rule split_at_slash [OF _ dec_nat_no(1) dec_nat_no(1) a(1) q])
    then show ?thesis using same_tenant [OF assms(1,3) child.hyps(1)] by (auto simp: dec_nat_inj)
  next
    assume "prefix (tn_path r) (tn_path q @ dec_nat (tn_id t))"
    moreover have "\<not> (\<exists>us. tn_path r = tn_path q @ us \<and> us \<noteq> [] \<and> prefix us (dec_nat (tn_id t)))"
    proof
      assume "\<exists>us. tn_path r = tn_path q @ us \<and> us \<noteq> [] \<and> prefix us (dec_nat (tn_id t))"
      then obtain us where us: "tn_path r = tn_path q @ us" "us \<noteq> []" "prefix us (dec_nat (tn_id t))" by blast
      have "last (tn_path r) = CHR ''/''" using a(2) by simp
      then have "CHR ''/'' \<in> set us" using us(1,2) by (metis last_appendR last_in_set)
      then show False using us(3) dec_nat_no(1) [of "tn_id t"] by (auto simp: prefix_def)
    qed
    ultimately have "prefix (tn_path r) (tn_path q)" by (auto simp: prefix_append)
    then show ?thesis using child.IH child.hyps(3) by (meson converse_rtrancl_into_rtrancl)
  qed
qed

lemma ancestor_is_prefix:
  assumes "hierarchy_ok ts" "(t, r) \<in> (parent_rel ts)\<^sup>*"
  shows "prefix (tn_path r) (tn_path t)"
  using assms(2)
proof (induction rule: converse_rtrancl_induct)
  case (step t q)
  have mem: "t \<in> set ts" "q \<in> set ts" "tn_parent_id t = Some (tn_id q)" using step.hyps(1) by (auto simp: parent_rel_def)
  have "tn_path t = tn_path q @ dec_nat (tn_id t) @ ''/''"
    using assms(1) mem(1)
  proof (cases rule: hierarchy_cases)
    case (child q')
    have "tn_id q' = tn_id q" using child(2) mem(3) by (simp add: parent_rel_def)
    then have "q' = q" by (rule same_tenant [OF assms(1) child(1) mem(2)])
    then show ?thesis using child(3) by simp
  qed (use mem(3) in simp)
  then show ?case using step.IH by (auto simp: prefix_def)
qed simp

lemma path_like_iff:
  assumes "hierarchy_ok ts" "t \<in> set ts" "r \<in> set ts"
  shows "path_like r t \<longleftrightarrow> (t, r) \<in> (parent_rel ts)\<^sup>*"
proof -
  have "CHR ''%'' \<notin> set (tn_path r)" "CHR ''_'' \<notin> set (tn_path r)" using path_shape [OF assms(1,3)] by blast+
  then have "path_like r t \<longleftrightarrow> prefix (tn_path r) (tn_path t)" 
    unfolding path_like_def by (rule sql_like_prefix)
  then show ?thesis using prefix_is_ancestor [OF assms] ancestor_is_prefix [OF assms(1)] by blast
qed

subsection \<open>The table of tenants\<close>

definition save_tenant :: "tenant \<Rightarrow> tenant list \<Rightarrow> tenant list" where
  "save_tenant t ts = (if tn_id t \<in> tn_id ` set ts then map (\<lambda>x. if tn_id x = tn_id t then t else x) ts
     else ts @ [t])"

locale tenant_table =
  fixes d :: "'s tenant_db"
    and tenants :: "'s \<Rightarrow> tenant list"
    and up :: "'s \<Rightarrow> bool"
  assumes first_tenant: "td_first d i s = Inr t \<Longrightarrow> t \<in> set (tenants s) \<and> tn_id t = i"
    and find_tenants: "up s \<Longrightarrow> td_find d P s = Inr (filter P (tenants s))"
    and find_by_level: "up s \<Longrightarrow> \<exists>xs. td_find_by_level d P s = Inr xs \<and> mset xs = mset (filter P (tenants s))"
    and save_row: "td_save d t s = (None, s1) \<Longrightarrow> tenants s1 = save_tenant t (tenants s)"
begin

lemma children_are_descendants:
  assumes "up s" "hierarchy_ok (tenants s)" "td_first d i s = Inr r"
  shows "get_tenant_children d i s = Inr (filter (\<lambda>t. (t, r) \<in> (parent_rel (tenants s))\<^sup>*) (tenants s))"
proof -
  have r: "r \<in> set (tenants s)" using first_tenant [OF assms(3)] by blast
  have "filter (path_like r) (tenants s) = filter (\<lambda>t. (t, r) \<in> (parent_rel (tenants s))\<^sup>*) (tenants s)"
    by (rule filter_cong) (simp_all add: path_like_iff [OF assms(2) _ r])
  then show ?thesis using find_tenants [OF assms(1)] assms(3) by (simp add: get_tenant_children_def)
qed

lemma update_path_keeps:
  assumes "distinct (map tn_id (tenants s))"
    and "hierarchy_ok (filter (\<lambda>x. tn_id x \<noteq> tn_id t) (tenants s))" (is "hierarchy_ok ?rest")
    and "tn_parent_id t \<noteq> Some (tn_id t)"
    and "update_tenant_path d t s = (None, t1, s1)"
  shows "hierarchy_ok (tenants s1)"
proof -
  have t1: "tn_id t1 = tn_id t" and "tenants s1 = save_tenant t1 (tenants s)" and path: "path_of_tenant ?rest t1"
  proof -
    show "tn_id t1 = tn_id t" "tenants s1 = save_tenant t1 (tenants s)"
      using assms(4) by (auto simp: update_tenant_path_def Let_def dest: save_row split: option.splits sum.splits prod.splits)
    show "path_of_tenant ?rest t1"
      using assms(3,4) by (fastforce simp: update_tenant_path_def Let_def path_of_tenant_def list_ex_iff
          dest: first_tenant split: option.splits sum.splits prod.splits)
  qed
  have "set (tenants s1) = insert t1 (set ?rest)"
    using t1 \<open>tenants s1 = save_tenant t1 (tenants s)\<close> by (auto simp: save_tenant_def image_iff)
  moreover have "distinct (map tn_id (tenants s1))"
  proof -
    have "map tn_id (map (\<lambda>x. if tn_id x = tn_id t1 then t1 else x) xs) = map tn_id xs" for xs
      by (induction xs) auto
    then show ?thesis
      using assms(1) \<open>tenants s1 = save_tenant t1 (tenants s)\<close> by (auto simp: save_tenant_def simp del: map_map)
  qed
  moreover have "path_of_tenant (tenants s1) x" if "path_of_tenant ?rest x" for x
    using that \<open>set (tenants s1) = insert t1 (set ?rest)\<close>
    by (auto simp: path_of_tenant_def list_ex_iff split: option.splits)
  ultimately show ?thesis using assms(2) path by (auto simp: hierarchy_ok_def list_all_iff)
qed

end

text \<open>The table as a list of rows in primary-key order.\<close>

definition tenant_rows :: "tenant list tenant_db" where
  "tenant_rows = \<lparr>td_first = (\<lambda>i ts. first_row (\<lambda>t. tn_id t = i) ts),
     td_find = (\<lambda>P ts. Inr (filter P ts)),
     td_find_by_level = (\<lambda>P ts. Inr (sort_key tn_level (filter P ts))),
     td_save = (\<lambda>t ts. (None, save_tenant t ts))\<rparr>"

interpretation rows: tenant_table tenant_rows "\<lambda>ts. ts" "\<lambda>ts. True"
  by unfold_locales (auto simp: tenant_rows_def dest: first_row_Inr)

text \<open>The paths implement the hierarchy: on tenants whose paths are those UpdateTenantPath
  computes, the LIKE query of GetTenantChildren answers exactly the tenants from which a
  chain of parents leads to the tenant asked for (itself among them, and no tenant whose
  number merely begins with the same digits), and the scope with children admits exactly
  the data that these tenants own.\<close>

theorem tenant_paths_implement_hierarchy:
  assumes "tenant_table d tenants up" and "gorm_tables g owns accs wf_tables healthy"
    and "up s" and "healthy s" and "hierarchy_ok (tenants s)" and "td_first d i s = Inr r"
    and "enable_hierarchy cfg"
  shows "get_tenant_children d i s = Inr (filter (\<lambda>t. (t, r) \<in> (parent_rel (tenants s))\<^sup>*) (tenants s)) \<and>
    (\<exists>ids. clause_ids g (tenant_scope_with_children cfg d (with_tenant None i) dt s) s = Inr ids \<and>
       (\<forall>k. k \<in> set ids \<longleftrightarrow> (\<exists>t \<in> set (tenants s). (t, r) \<in> (parent_rel (tenants s))\<^sup>* \<and>
          (\<exists>x \<in> set (owns s). own_by dt k (tn_id t) x))))"
proof -
  have c: "get_tenant_children d i s = Inr (filter (\<lambda>t. (t, r) \<in> (parent_rel (tenants s))\<^sup>*) (tenants s))"
    by (rule tenant_table.children_are_descendants [OF assms(1,3,5,6)])
  then have f: "td_find d (path_like r) s = Inr (filter (\<lambda>t. (t, r) \<in> (parent_rel (tenants s))\<^sup>*) (tenants s))"
    using assms(6) by (simp add: get_tenant_children_def)
  have r: "r \<in> set (tenants s)" "tn_id r = i" using tenant_table.first_tenant [OF assms(1,6)] by auto
  have "i \<in> tn_id ` {t \<in> set (tenants s). (t, r) \<in> (parent_rel (tenants s))\<^sup>*}" using r by auto
  then show ?thesis
    using c f assms(6,7) gorm_tables.find_own [OF assms(2,4)]
    by (auto simp: tenant_scope_with_children_def with_tenant_def tenant_from_context_def
        get_tenant_from_context_def Let_def admits_own_def own_by_def own_key_def insert_absorb)
qed

definition tenant_row :: "nat \<Rightarrow> nat option \<Rightarrow> string \<Rightarrow> int \<Rightarrow> tenant" where
  "tenant_row i parent path level = \<lparr>tn_id = i, tn_name = [], tn_parent_id = parent, tn_path = path,
     tn_level = level, tn_status = 1, tn_config = [], tn_created_at = 0, tn_updated_at = 0\<rparr>"

definition example_tenants :: "tenant list" where
  "example_tenants = [tenant_row 1 None ''/1/'' 1, tenant_row 2 (Some 1) ''/1/2/'' 2,
     tenant_row 3 (Some 2) ''/1/2/3/'' 3, tenant_row 12 None ''/12/'' 1]"

text \<open>A table of tenants nobody may write, beside the tables of \<open>Saas\<close>.\<close>

definition fixed_tenants :: "tenant list \<Rightarrow> 's tenant_db" where
  "fixed_tenants ts = \<lparr>td_first = (\<lambda>i s. first_row (\<lambda>t. tn_id t = i) ts),
     td_find = (\<lambda>P s. Inr (filter P ts)),
     td_find_by_level = (\<lambda>P s. Inr (sort_key tn_level (filter P ts))),
     td_save = (\<lambda>t s. (Some db_down, s))\<rparr>"

lemma fixed_tenants_table: "tenant_table (fixed_tenants ts) (\<lambda>s. ts) (\<lambda>s. True)"
  by unfold_locales (auto simp: fixed_tenants_def dest: first_row_Inr)

theorem tenant_paths_implement_hierarchy_witness:
  "map tn_id (filter (\<lambda>t. (t, tenant_row 1 None ''/1/'' 1) \<in> (parent_rel example_tenants)\<^sup>*) example_tenants) = [1, 2, 3]"
proof -
  have ok: "hierarchy_ok example_tenants" by code_simp
  have first: "td_first (fixed_tenants example_tenants) 1 example_tables = Inr (tenant_row 1 None ''/1/'' 1)"
    by (simp add: fixed_tenants_def example_tenants_def tenant_row_def first_row_def)
  have "get_tenant_children (fixed_tenants example_tenants) 1 example_tables =
      Inr (filter (\<lambda>t. (t, tenant_row 1 None ''/1/'' 1) \<in> (parent_rel example_tenants)\<^sup>*) example_tenants)"
    using tenant_paths_implement_hierarchy [OF fixed_tenants_table sql.gorm_tables_axioms _ _ ok first,
        of "default_saas_config"]
    by (simp add: no_faults_def example_tables_def default_saas_config_def)
  moreover have "get_tenant_children (fixed_tenants example_tenants) 1 example_tables =
      Inr [tenant_row 1 None ''/1/'' 1, tenant_row 2 (Some 1) ''/1/2/'' 2, tenant_row 3 (Some 2) ''/1/2/3/'' 3]"
    by code_simp
  ultimately show ?thesis by (simp add: tenant_row_def)
qed

text \<open>The path update moves one row: a tenant that gets a new parent leaves the paths of its
  children behind, and the children query of the old parent still answers them.\<close>

lemma reparenting_leaves_children_behind:
  "map tn_id (filter (path_like (tenant_row 1 None ''/1/'' 1))
     (snd (snd (update_tenant_path tenant_rows (tenant_row 2 (Some 12) ''/1/2/'' 2) example_tenants)))) = [1, 3]"
  by code_simp

subsection \<open>The tree\<close>

fun tree_ids :: "tree_node list \<Rightarrow> nat list" where
  "tree_ids [] = []"
| "tree_ids (TreeNode i nm lv cs # ns) = i # tree_ids cs @ tree_ids ns"

text \<open>Levels that grow along the parents, as \<open>UpdateTenantPath\<close> computes them, bound the depth.\<close>

definition levels_ok :: "tenant list \<Rightarrow> int \<Rightarrow> bool" where
  "levels_ok ts top_level = (distinct (map tn_id ts) \<and> (\<forall>t \<in> set ts. tn_level t \<le> top_level) \<and>
     (\<forall>(t, q) \<in> parent_rel ts. tn_level t = tn_level q + 1))"

definition below :: "tenant list \<Rightarrow> nat option \<Rightarrow> tenant list \<Rightarrow> tenant set" where
  "below ts parent us = {t \<in> set ts. \<exists>u \<in> set us. tn_parent_id u = parent \<and> (t, u) \<in> (parent_rel ts)\<^sup>*}"

lemma level_mono:
  assumes "levels_ok ts l" "(t, u) \<in> (parent_rel ts)\<^sup>*"
  shows "tn_level u \<le> tn_level t \<and> (t \<noteq> u \<longrightarrow> tn_level u < tn_level t)"
  using assms(2)
proof (induction rule: converse_rtrancl_induct)
  case (step t q)
  then have "tn_level t = tn_level q + 1" using assms(1) by (auto simp: levels_ok_def)
  then show ?case using step.IH by auto
qed simp

lemma parent_unique:
  assumes "levels_ok ts l" "(t, q) \<in> parent_rel ts" "(t, q') \<in> parent_rel ts"
  shows "q = q'"
  using assms by (auto simp: levels_ok_def parent_rel_def distinct_map inj_on_def)

lemma siblings_disjoint:
  assumes l: "levels_ok ts l" and u: "tn_parent_id u = tn_parent_id v" and uv: "(u, v) \<in> (parent_rel ts)\<^sup>*"
    and v: "v \<in> set ts"
  shows "u = v"
proof (rule ccontr)
  assume "u \<noteq> v"
  then obtain w where w: "(u, w) \<in> parent_rel ts" "(w, v) \<in> (parent_rel ts)\<^sup>*" using uv by (metis converse_rtranclE)
  then have "(v, w) \<in> parent_rel ts" using u v by (auto simp: parent_rel_def)
  then have "tn_level v = tn_level w + 1" using l by (auto simp: levels_ok_def)
  then show False using level_mono [OF l w(2)] by simp
qed

lemma comparable:
  assumes l: "levels_ok ts l" and "(t, u) \<in> (parent_rel ts)\<^sup>*" "(t, v) \<in> (parent_rel ts)\<^sup>*"
  shows "(u, v) \<in> (parent_rel ts)\<^sup>* \<or> (v, u) \<in> (parent_rel ts)\<^sup>*"
proof -
  have "single_valued (parent_rel ts)" using parent_unique [OF l] by (auto simp: single_valued_def)
  then show ?thesis using assms(2,3) by (rule single_valued_confluent)
qed

lemma below_split:
  assumes "u \<in> set ts"
  shows "{t \<in> set ts. (t, u) \<in> (parent_rel ts)\<^sup>*} = insert u (below ts (Some (tn_id u)) ts)"
proof -
  have "(t, u) \<in> (parent_rel ts)\<^sup>* \<and> t \<in> set ts \<longleftrightarrow>
      t = u \<or> t \<in> set ts \<and> (\<exists>c \<in> set ts. tn_parent_id c = Some (tn_id u) \<and> (t, c) \<in> (parent_rel ts)\<^sup>*)" for t
  proof
    assume a: "(t, u) \<in> (parent_rel ts)\<^sup>* \<and> t \<in> set ts"
    then show "t = u \<or> t \<in> set ts \<and> (\<exists>c \<in> set ts. tn_parent_id c = Some (tn_id u) \<and> (t, c) \<in> (parent_rel ts)\<^sup>*)"
      by (cases "t = u") (auto simp: parent_rel_def elim: rtranclE)
  next
    assume "t = u \<or> t \<in> set ts \<and> (\<exists>c \<in> set ts. tn_parent_id c = Some (tn_id u) \<and> (t, c) \<in> (parent_rel ts)\<^sup>*)"
    then show "(t, u) \<in> (parent_rel ts)\<^sup>* \<and> t \<in> set ts"
      using assms by (auto simp: parent_rel_def intro: rtrancl_into_rtrancl)
  qed
  then show ?thesis using assms by (auto simp: below_def)
qed

lemma not_below_itself:
  assumes "levels_ok ts l" "t \<in> set ts"
  shows "t \<notin> below ts (Some (tn_id t)) ts"
proof
  assume "t \<in> below ts (Some (tn_id t)) ts"
  then obtain c where c: "c \<in> set ts" "tn_parent_id c = Some (tn_id t)" "(t, c) \<in> (parent_rel ts)\<^sup>*"
    by (auto simp: below_def)
  then have "(c, t) \<in> parent_rel ts" using assms(2) by (auto simp: parent_rel_def)
  then have "tn_level c = tn_level t + 1" using assms(1) by (auto simp: levels_ok_def)
  then show False using level_mono [OF assms(1) c(3)] by simp
qed

lemma below_disjoint:
  assumes l: "levels_ok ts l" and t: "t \<in> set ts" "tn_parent_id t = p" "t \<notin> set us" "set us \<subseteq> set ts"
    and x: "(x, t) \<in> (parent_rel ts)\<^sup>*"
  shows "x \<notin> below ts p us"
proof
  assume "x \<in> below ts p us"
  then obtain u where u: "u \<in> set us" "tn_parent_id u = p" "(x, u) \<in> (parent_rel ts)\<^sup>*" by (auto simp: below_def)
  have "t = u"
    using comparable [OF l x u(3)] siblings_disjoint [OF l, of t u] siblings_disjoint [OF l, of u t] t u
    by (metis subsetD)
  then show False using t(3) u(1) by simp
qed

lemma build_nodes_below:
  assumes l: "levels_ok ts l"
    and tree: "\<And>t. t \<in> set ts \<Longrightarrow> tn_parent_id t = p \<Longrightarrow> \<exists>ns. build_tree fuel ts (Some (tn_id t)) = Some ns \<and>
       distinct (tree_ids ns) \<and> set (tree_ids ns) = tn_id ` below ts (Some (tn_id t)) ts"
    and us: "distinct us" "set us \<subseteq> set ts"
  shows "\<exists>ns. build_nodes fuel ts p us = Some ns \<and> distinct (tree_ids ns) \<and>
     set (tree_ids ns) = tn_id ` below ts p us"
  using us
proof (induction us)
  case Nil
  then show ?case by (simp add: below_def)
next
  case (Cons t us)
  have t: "t \<in> set ts" "t \<notin> set us" "set us \<subseteq> set ts" using Cons.prems by auto
  obtain ns where ns: "build_nodes fuel ts p us = Some ns" "distinct (tree_ids ns)"
      "set (tree_ids ns) = tn_id ` below ts p us" using Cons by auto
  show ?case
  proof (cases "tn_parent_id t = p")
    case False
    then have "below ts p (t # us) = below ts p us" by (auto simp: below_def)
    then show ?thesis using ns False by simp
  next
    case True
    obtain cs where cs: "build_tree fuel ts (Some (tn_id t)) = Some cs" "distinct (tree_ids cs)"
        "set (tree_ids cs) = tn_id ` below ts (Some (tn_id t)) ts" using tree [OF t(1) True] by blast
    have inj: "inj_on tn_id (set ts)" using l by (simp add: levels_ok_def distinct_map)
    have sub: "below ts q vs \<subseteq> set ts" for q vs by (auto simp: below_def)
    let ?own = "{x \<in> set ts. (x, t) \<in> (parent_rel ts)\<^sup>*}"
    have own: "?own = insert t (below ts (Some (tn_id t)) ts)" by (rule below_split [OF t(1)])
    have all: "below ts p (t # us) = ?own \<union> below ts p us" using True by (auto simp: below_def)
    have "?own \<inter> below ts p us = {}" using below_disjoint [OF l t(1) True t(2,3)] by blast
    then have "tn_id ` ?own \<inter> tn_id ` below ts p us = {}"
      using inj sub [of p us] by (auto simp: inj_on_def)
    then have dis: "tn_id ` insert t (below ts (Some (tn_id t)) ts) \<inter> tn_id ` below ts p us = {}"
      by (simp only: own)
    have "tn_id t \<notin> tn_id ` below ts (Some (tn_id t)) ts"
      using inj sub [of "Some (tn_id t)" ts] not_below_itself [OF l t(1)] t(1) by (auto simp: inj_on_def)
    then show ?thesis using ns cs True dis all own by (auto simp: image_Un)
  qed
qed

lemma build_tree_below:
  assumes l: "levels_ok ts l" and "fuel > 0"
    and "\<And>t. t \<in> set ts \<Longrightarrow> tn_parent_id t = p \<Longrightarrow> l + 2 - tn_level t \<le> int fuel"
  shows "\<exists>ns. build_tree fuel ts p = Some ns \<and> distinct (tree_ids ns) \<and>
     set (tree_ids ns) = tn_id ` below ts p ts"
  using assms(2,3)
proof (induction fuel arbitrary: p)
  case (Suc fuel)
  have "\<exists>ns. build_tree fuel ts (Some (tn_id t)) = Some ns \<and> distinct (tree_ids ns) \<and>
      set (tree_ids ns) = tn_id ` below ts (Some (tn_id t)) ts" if t: "t \<in> set ts" "tn_parent_id t = p" for t
  proof (rule Suc.IH)
    have lt: "tn_level t \<le> l" using l t(1) by (simp add: levels_ok_def)
    have b: "l + 2 - tn_level t \<le> int (Suc fuel)" by (rule Suc.prems(2) [OF t])
    then show "fuel > 0" using lt by simp
    fix c
    assume "c \<in> set ts" "tn_parent_id c = Some (tn_id t)"
    then have "(c, t) \<in> parent_rel ts" using t(1) by (simp add: parent_rel_def)
    then have "tn_level c = tn_level t + 1" using l by (auto simp: levels_ok_def)
    then show "l + 2 - tn_level c \<le> int fuel" using b by simp
  qed
  moreover have "distinct ts" using l by (simp add: levels_ok_def distinct_map)
  ultimately show ?case using build_nodes_below [OF l, of p fuel ts] by simp
qed simp

lemma hierarchy_level:
  assumes "hierarchy_ok ts" "(t, q) \<in> parent_rel ts"
  shows "tn_level t = tn_level q + 1"
proof -
  have mem: "t \<in> set ts" "q \<in> set ts" "tn_parent_id t = Some (tn_id q)" using assms(2) by (auto simp: parent_rel_def)
  from assms(1) mem(1) show ?thesis
  proof (cases rule: hierarchy_cases)
    case (child q')
    have "tn_id q' = tn_id q" using child(2) mem(3) by (simp add: parent_rel_def)
    then have "q' = q" by (rule same_tenant [OF assms(1) child(1) mem(2)])
    then show ?thesis using child(4) by simp
  qed (use mem(3) in simp)
qed

lemma hierarchy_level_pos: "hierarchy_ok ts \<Longrightarrow> t \<in> set ts \<Longrightarrow> tn_level t \<ge> 1"
  by (induction rule: hierarchy_induct) simp_all

lemma descendants_chain:
  assumes "(t, r) \<in> (parent_rel ts)\<^sup>*" "r \<in> set ts"
    and xs: "set xs = {t \<in> set ts. (t, r) \<in> (parent_rel ts)\<^sup>*}"
  shows "(t, r) \<in> (parent_rel xs)\<^sup>*"
  using assms(1)
proof (induction rule: converse_rtrancl_induct)
  case (step t q)
  have "t \<in> set xs" "q \<in> set xs"
    using step.hyps by (auto simp: xs parent_rel_def intro: converse_rtrancl_into_rtrancl)
  then have "(t, q) \<in> parent_rel xs" using step.hyps(1) by (simp add: parent_rel_def)
  then show ?case using step.IH by (rule converse_rtrancl_into_rtrancl)
qed simp

text \<open>C54. \<open>GetTenantTree\<close> of a tenant returns, on a hierarchy whose paths and levels are those
  UpdateTenantPath computes: enough fuel is the greatest level plus two, and the tree then
  holds the tenant and each of its descendants exactly once and nobody else.\<close>

theorem tenant_tree_complete:
  assumes "tenant_table d tenants up" and "up s" and "hierarchy_ok (tenants s)"
    and "td_first d i s = Inr r" and "\<forall>t \<in> set (tenants s). tn_level t + 2 \<le> int fuel"
  shows "\<exists>ns. get_tenant_tree d fuel (Some i) s = Some (Inr ns) \<and> distinct (tree_ids ns) \<and>
    set (tree_ids ns) = tn_id ` {t \<in> set (tenants s). (t, r) \<in> (parent_rel (tenants s))\<^sup>*}"
proof -
  let ?ts = "tenants s"
  have r: "r \<in> set ?ts" using tenant_table.first_tenant [OF assms(1,4)] by blast
  obtain xs where q: "td_find_by_level d (path_like r) s = Inr xs" and m: "mset xs = mset (filter (path_like r) ?ts)"
    using tenant_table.find_by_level [OF assms(1,2)] by blast
  have "set xs = set (filter (path_like r) ?ts)" using m by (rule mset_eq_setD)
  then have xs: "set xs = {t \<in> set ?ts. (t, r) \<in> (parent_rel ?ts)\<^sup>*}"
    using path_like_iff [OF assms(3) _ r] by auto
  have sub: "parent_rel xs \<subseteq> parent_rel ?ts" by (auto simp: parent_rel_def xs)
  have "mset (map tn_id xs) = mset (map tn_id (filter (path_like r) ?ts))" using m by simp
  then have "distinct (map tn_id xs)"
    using assms(3) by (metis distinct_filter_map hierarchy_ok_def mset_eq_imp_distinct_iff)
  then have l: "levels_ok xs (int fuel - 2)"
    using assms(5) sub hierarchy_level [OF assms(3)] by (auto simp: levels_ok_def xs)
  have pos: "tn_level t \<ge> 1" if "t \<in> set ?ts" for t using hierarchy_level_pos [OF assms(3) that] .
  have "fuel > 0" using assms(5) pos [OF r] r by fastforce
  moreover have "int fuel - 2 + 2 - tn_level t \<le> int fuel" if "t \<in> set xs" for t
    using pos [of t] that by (simp add: xs)
  ultimately obtain ns where ns: "build_tree fuel xs (tn_parent_id r) = Some ns" "distinct (tree_ids ns)"
      "set (tree_ids ns) = tn_id ` below xs (tn_parent_id r) xs"
    using build_tree_below [OF l] by blast
  have "r \<in> set xs" using r by (simp add: xs)
  then have "below xs (tn_parent_id r) xs = set xs"
    using descendants_chain [OF _ r xs] xs by (auto simp: below_def)
  then show ?thesis using ns q assms(4) by (simp add: get_tenant_tree_def xs)
qed

theorem tenant_tree_complete_witness:
  "get_tenant_tree tenant_rows 5 (Some 1) example_tenants \<noteq> None"
proof -
  have ok: "hierarchy_ok example_tenants" by code_simp
  have first: "td_first tenant_rows 1 example_tenants = Inr (tenant_row 1 None ''/1/'' 1)"
    by (simp add: tenant_rows_def example_tenants_def tenant_row_def first_row_def)
  have "\<forall>t \<in> set example_tenants. tn_level t + 2 \<le> int 5" by (simp add: example_tenants_def tenant_row_def)
  from tenant_tree_complete [OF rows.tenant_table_axioms TrueI ok first this] show ?thesis by auto
qed

end
