(* ===== verification/ServiceRegistry.thy ===== *)
theory ServiceRegistry
  imports Prelude "HOL-Library.Word"
begin

text \<open>
  frame/pkg/registry/registry.go: instances of services in etcd, the two load balancers and
  the caching resolver. The etcd client is a parameter; a registry and a watcher are the
  interfaces the code declares, as records of functions on a state.
\<close>

subsection \<open>Instances\<close>

record service_instance =
  si_id :: string
  si_name :: string
  si_version :: string
  si_address :: string
  si_port :: int
  si_metadata :: "(string, string) gomap"
  si_weight :: int

definition endpoint :: "service_instance \<Rightarrow> string" where
  "endpoint s = si_address s @ '':'' @ dec_of (si_port s)"

subsection \<open>The etcd registry\<close>

record etcd_config =
  ec_dial_timeout :: duration
  ec_prefix :: string
  ec_ttl :: int

definition normalize_etcd_config :: "etcd_config \<Rightarrow> etcd_config" where
  "normalize_etcd_config c = c\<lparr>
     ec_dial_timeout := (if ec_dial_timeout c \<le> 0 then 5 * second else ec_dial_timeout c),
     ec_prefix := (if ec_prefix c = [] then ''/services/'' else ec_prefix c),
     ec_ttl := (if ec_ttl c \<le> 0 then 15 else ec_ttl c)\<rparr>"

text \<open>The calls of the client: a grant answers a lease, a get all key-value pairs under a
  prefix.\<close>

record 's etcd =
  et_grant :: "int \<Rightarrow> 's \<Rightarrow> (gerr + int) \<times> 's"
  et_put :: "string \<Rightarrow> string \<Rightarrow> int \<Rightarrow> 's \<Rightarrow> gerr option \<times> 's"
  et_keep_alive :: "int \<Rightarrow> 's \<Rightarrow> gerr option \<times> 's"
  et_revoke :: "int \<Rightarrow> 's \<Rightarrow> 's"
  et_delete :: "string \<Rightarrow> 's \<Rightarrow> gerr option \<times> 's"
  et_get_prefix :: "string \<Rightarrow> 's \<Rightarrow> gerr + (string \<times> string) list"
  et_close :: "'s \<Rightarrow> gerr option \<times> 's"

record etcd_registry =
  er_prefix :: string
  er_ttl :: int
  er_leases :: "(string, int) gomap"

definition new_etcd_registry :: "etcd_config \<Rightarrow> etcd_registry" where
  "new_etcd_registry c = (let c' = normalize_etcd_config c
     in \<lparr>er_prefix = ec_prefix c', er_ttl = ec_ttl c', er_leases = []\<rparr>)"

definition instance_key :: "etcd_registry \<Rightarrow> service_instance \<Rightarrow> string" where
  "instance_key r i = er_prefix r @ si_name i @ ''/'' @ si_id i"

definition service_prefix :: "etcd_registry \<Rightarrow> string \<Rightarrow> string" where
  "service_prefix r name = er_prefix r @ name @ ''/''"

text \<open>\<open>json.Marshal\<close> of an instance cannot fail: its fields are strings and numbers. The
  encoder and the decoder are arguments.\<close>

definition register_instance :: "'s etcd \<Rightarrow> (service_instance \<Rightarrow> string) \<Rightarrow> service_instance \<Rightarrow>
    etcd_registry \<times> 's \<Rightarrow> gerr option \<times> etcd_registry \<times> 's" where
  "register_instance et marshal i rs = (case rs of (r, s) \<Rightarrow>
     (case et_grant et (er_ttl r) s of
        (Inl e, s1) \<Rightarrow> (Some (ErrMsg (''failed to create lease: '' @ gerr_text e)), r, s1)
      | (Inr lease, s1) \<Rightarrow>
          let key = instance_key r i
          in (case et_put et key (marshal i) lease s1 of
              (Some e, s2) \<Rightarrow> (Some (ErrMsg (''failed to register service: '' @ gerr_text e)), r, s2)
            | (None, s2) \<Rightarrow> (case et_keep_alive et lease s2 of
                  (Some e, s3) \<Rightarrow> (Some (ErrMsg (''failed to keep alive: '' @ gerr_text e)), r, s3)
                | (None, s3) \<Rightarrow> (None, r\<lparr>er_leases := gm_put key lease (er_leases r)\<rparr>, s3)))))"

definition deregister_instance :: "'s etcd \<Rightarrow> service_instance \<Rightarrow> etcd_registry \<times> 's \<Rightarrow>
    gerr option \<times> etcd_registry \<times> 's" where
  "deregister_instance et i rs = (case rs of (r, s) \<Rightarrow>
     let key = instance_key r i;
         (r1, s1) = (case gm_get (er_leases r) key of
            None \<Rightarrow> (r, s)
          | Some lease \<Rightarrow> (r\<lparr>er_leases := gm_del key (er_leases r)\<rparr>, et_revoke et lease s));
         (e, s2) = et_delete et key s1
     in (e, r1, s2))"

definition get_service :: "'s etcd \<Rightarrow> (string \<Rightarrow> service_instance option) \<Rightarrow> etcd_registry \<Rightarrow> string \<Rightarrow> 's \<Rightarrow>
    gerr + service_instance list" where
  "get_service et unmarshal r name s =
     (case et_get_prefix et (service_prefix r name) s of
        Inl e \<Rightarrow> Inl (ErrMsg (''failed to get service '' @ name @ '': '' @ gerr_text e))
      | Inr kvs \<Rightarrow> Inr (List.map_filter (\<lambda>kv. unmarshal (snd kv)) kvs))"

definition close_registry :: "'s etcd \<Rightarrow> etcd_registry \<times> 's \<Rightarrow> gerr option \<times> etcd_registry \<times> 's" where
  "close_registry et rs = (case rs of (r, s) \<Rightarrow>
     let s1 = fold (et_revoke et) (map snd (er_leases r)) s;
         (e, s2) = et_close et s1
     in (e, r\<lparr>er_leases := []\<rparr>, s2))"

text \<open>\<open>etcdWatcher.Next\<close>: what its select found.\<close>

datatype watch_event = CtxDone gerr | ChanClosed | ChanResp "gerr option"

definition watcher_next :: "'s etcd \<Rightarrow> (string \<Rightarrow> service_instance option) \<Rightarrow> etcd_registry \<Rightarrow> string \<Rightarrow>
    watch_event \<Rightarrow> 's \<Rightarrow> gerr + service_instance list" where
  "watcher_next et unmarshal r name ev s =
     (case ev of
        CtxDone e \<Rightarrow> Inl e
      | ChanClosed \<Rightarrow> Inl (ErrMsg ''watcher closed'')
      | ChanResp (Some e) \<Rightarrow> Inl e
      | ChanResp None \<Rightarrow> get_service et unmarshal r name s)"

subsection \<open>Load balancers\<close>

text \<open>\<open>Pick\<close> answers an index of the slice, None for nil; the counter is a \<open>uint64\<close>.\<close>

definition rr_pick :: "64 word \<Rightarrow> 'a list \<Rightarrow> nat option \<times> 64 word" where
  "rr_pick counter xs = (if xs = [] then (None, counter)
     else (Some (unat (counter mod word_of_nat (length xs))), counter + 1))"

fun rr_picks :: "nat \<Rightarrow> 64 word \<Rightarrow> 'a list \<Rightarrow> nat option list \<times> 64 word" where
  "rr_picks 0 counter xs = ([], counter)"
| "rr_picks (Suc n) counter xs = (case rr_pick counter xs of
     (r, c1) \<Rightarrow> (case rr_picks n c1 xs of (rs, c2) \<Rightarrow> (r # rs, c2)))"

definition weight_of :: "service_instance \<Rightarrow> int" where
  "weight_of i = (if si_weight i \<le> 0 then 1 else si_weight i)"

fun total_weight :: "service_instance list \<Rightarrow> int \<Rightarrow> int" where
  "total_weight [] acc = acc"
| "total_weight (i # xs) acc = total_weight xs (wrap64 (acc + weight_of i))"

fun weighted_find :: "service_instance list \<Rightarrow> nat \<Rightarrow> int \<Rightarrow> int \<Rightarrow> nat" where
  "weighted_find [] k cumulative target = 0"
| "weighted_find (i # xs) k cumulative target =
     (let c = wrap64 (cumulative + weight_of i) in if c > target then k else weighted_find xs (Suc k) c target)"

text \<open>The clock is \<open>time.Now().UnixNano()\<close>; a total that wrapped to 0 divides by zero. The
  remainder of a negative total takes the sign of the clock, which is positive.\<close>

definition weighted_pick :: "time \<Rightarrow> service_instance list \<Rightarrow> nat option outcome" where
  "weighted_pick clock xs =
     (if xs = [] then Done None
      else let total = total_weight xs 0
        in if total = 0 then Panic ''integer divide by zero''
           else Done (Some (weighted_find xs 0 0 (clock mod \<bar>total\<bar>))))"

subsection \<open>The resolver\<close>

text \<open>A registry as the resolver uses it: a lookup and whether a watch can be started. The
  goroutine of a watcher runs until its \<open>Next\<close> fails.\<close>

record 's registry_ops =
  ro_get_service :: "string \<Rightarrow> 's \<Rightarrow> gerr + service_instance list"
  ro_watch :: "string \<Rightarrow> 's \<Rightarrow> gerr option"

datatype watcher_state = Watching | WatchEnded

record resolver =
  rv_cache :: "string \<Rightarrow> service_instance list option"
  rv_watchers :: "string \<Rightarrow> watcher_state option"
  rv_cancelled :: bool

definition new_resolver :: resolver where
  "new_resolver = \<lparr>rv_cache = (\<lambda>_. None), rv_watchers = (\<lambda>_. None), rv_cancelled = False\<rparr>"

definition start_watch :: "'s registry_ops \<Rightarrow> string \<Rightarrow> 's \<Rightarrow> resolver \<Rightarrow> resolver" where
  "start_watch ro name s r =
     (if rv_watchers r name \<noteq> None then r
      else (case ro_watch ro name s of
          Some e \<Rightarrow> r
        | None \<Rightarrow> r\<lparr>rv_watchers := (rv_watchers r)(name := Some Watching)\<rparr>))"

definition resolve_all :: "'s registry_ops \<Rightarrow> string \<Rightarrow> 's \<Rightarrow> resolver \<Rightarrow>
    (gerr + service_instance list) \<times> resolver" where
  "resolve_all ro name s r =
     (case rv_cache r name of
        Some (i # rest) \<Rightarrow> (Inr (i # rest), r)
      | _ \<Rightarrow> (case ro_get_service ro name s of
            Inl e \<Rightarrow> (Inl e, r)
          | Inr xs \<Rightarrow> (Inr xs, start_watch ro name s (r\<lparr>rv_cache := (rv_cache r)(name := Some xs)\<rparr>))))"

definition resolve :: "'s registry_ops \<Rightarrow> (service_instance list \<Rightarrow> service_instance option) \<Rightarrow> string \<Rightarrow> 's \<Rightarrow>
    resolver \<Rightarrow> (gerr + service_instance option) \<times> resolver" where
  "resolve ro pick name s r =
     (case resolve_all ro name s r of
        (Inl e, r1) \<Rightarrow> (Inl e, r1)
      | (Inr xs, r1) \<Rightarrow> if xs = [] then (Inl (ErrMsg (''no instances found for service: '' @ name)), r1)
                       else (Inr (pick xs), r1))"

text \<open>One turn of the goroutine of a watcher, with the answer of its \<open>Next\<close>.\<close>

definition watcher_turn :: "string \<Rightarrow> gerr + service_instance list \<Rightarrow> resolver \<Rightarrow> resolver" where
  "watcher_turn name answer r =
     (if rv_watchers r name \<noteq> Some Watching then r
      else (case answer of
          Inl e \<Rightarrow> r\<lparr>rv_watchers := (rv_watchers r)(name := Some WatchEnded)\<rparr>
        | Inr xs \<Rightarrow> r\<lparr>rv_cache := (rv_cache r)(name := Some xs)\<rparr>))"

definition close_resolver :: "resolver \<Rightarrow> resolver" where
  "close_resolver r = r\<lparr>rv_watchers := (\<lambda>_. None), rv_cancelled := True\<rparr>"

datatype resolver_step = ResolveStep string | TurnStep string "gerr + service_instance list"

fun resolver_run :: "'s registry_ops \<Rightarrow> (resolver_step \<times> 's) list \<Rightarrow> resolver \<Rightarrow> resolver" where
  "resolver_run ro [] r = r"
| "resolver_run ro ((ResolveStep name, s) # cs) r = resolver_run ro cs (snd (resolve_all ro name s r))"
| "resolver_run ro ((TurnStep name a, s) # cs) r = resolver_run ro cs (watcher_turn name a r)"

subsection \<open>Keys\<close>

lemma prefix_separates:
  assumes "CHR ''/'' \<notin> set (si_name i)" "CHR ''/'' \<notin> set name"
  shows "has_prefix (instance_key r i) (service_prefix r name) \<longleftrightarrow> si_name i = name"
proof -
  have "prefix (name @ ''/'') (si_name i @ ''/'' @ si_id i) \<longleftrightarrow> si_name i = name"
  proof
    assume "prefix (name @ ''/'') (si_name i @ ''/'' @ si_id i)"
    then obtain z where "name @ CHR ''/'' # z = si_name i @ CHR ''/'' # si_id i" by (auto simp: prefix_def)
    then have "takeWhile (\<lambda>c. c \<noteq> CHR ''/'') (name @ CHR ''/'' # z) =
        takeWhile (\<lambda>c. c \<noteq> CHR ''/'') (si_name i @ CHR ''/'' # si_id i)" by simp
    moreover have "takeWhile (\<lambda>c. c \<noteq> CHR ''/'') (x @ CHR ''/'' # y) = x" if "CHR ''/'' \<notin> set x" for x y
      using that by (subst takeWhile_append2) auto
    ultimately show "si_name i = name" using assms by simp
  qed simp
  then show ?thesis by (simp add: has_prefix_prefix instance_key_def service_prefix_def)
qed

text \<open>A name with a slash falls under the prefix of another service.\<close>

lemma nested_name_is_listed:
  "si_name i = name @ ''/'' @ rest \<Longrightarrow> has_prefix (instance_key r i) (service_prefix r name)"
  by (simp add: has_prefix_prefix instance_key_def service_prefix_def)

subsection \<open>Fairness of the balancers\<close>

lemma rr_picks_nth:
  assumes "xs \<noteq> []" "length xs < 2 ^ 64" "unat c + n \<le> 2 ^ 64"
  shows "fst (rr_picks n c xs) = map (\<lambda>k. Some ((unat c + k) mod length xs)) [0..<n]"
  using assms(3)
proof (induction n arbitrary: c)
  case 0
  then show ?case by simp
next
  case (Suc n)
  have first: "unat (c mod word_of_nat (length xs)) = unat c mod length xs"
    using assms(2) by (simp add: unat_mod unat_of_nat)
  show ?case
  proof (cases "n = 0")
    case True
    then show ?thesis using assms(1) first by (simp add: rr_pick_def)
  next
    case False
    then have "unat c + 1 < 2 ^ 64" using Suc.prems by simp
    then have next_c: "unat (c + 1) = Suc (unat c)" by (simp add: unat_word_ariths)
    have "fst (rr_picks n (c + 1) xs) = map (\<lambda>k. Some ((unat (c + 1) + k) mod length xs)) [0..<n]"
      using Suc.prems next_c by (intro Suc.IH) simp
    also have "\<dots> = map (\<lambda>k. Some ((unat c + k) mod length xs)) (map Suc [0..<n])"
      by (simp add: next_c comp_def)
    finally have "fst (rr_picks n (c + 1) xs) = map (\<lambda>k. Some ((unat c + k) mod length xs)) [Suc 0..<Suc n]"
      by (simp only: map_Suc_upt)
    then show ?thesis
      using assms(1) first by (simp add: rr_pick_def case_prod_unfold upt_conv_Cons del: upt_Suc)
  qed
qed

lemma mod_shift_inj:
  assumes "(c + j) mod n = (c + k) mod n" "j \<le> k" "k < (n :: nat)"
  shows "j = k"
proof -
  have "n dvd (c + k) - (c + j)" using assms(1,2) by (subst mod_eq_dvd_iff_nat [symmetric]) simp_all
  then show ?thesis using assms(2,3) by (auto dest: dvd_imp_le)
qed

lemma full_round:
  assumes "n > 0"
  shows "mset (map (\<lambda>k. (c + k) mod n) [0..<n]) = mset [0..<n]"
proof -
  have inj: "inj_on (\<lambda>k. (c + k) mod n) {0..<n}"
    by (rule inj_onI) (metis atLeastLessThan_iff mod_shift_inj nat_le_linear)
  then have d: "distinct (map (\<lambda>k. (c + k) mod n) [0..<n])" by (simp add: distinct_map)
  have "(\<lambda>k. (c + k) mod n) ` {0..<n} = {0..<n}"
    using inj assms by (intro card_subset_eq) (auto simp: card_image)
  then have "set (map (\<lambda>k. (c + k) mod n) [0..<n]) = set [0..<n]" by simp
  then show ?thesis using d by (simp only: set_eq_iff_mset_eq_distinct [symmetric] distinct_upt)
qed

text \<open>The round-robin balancer is fair while its 64-bit counter does not wrap: any as many
  consecutive picks as there are instances choose each instance exactly once, and the k-th
  pick is the instance at the counter plus k modulo their number.\<close>

theorem round_robin_fair:
  assumes "xs \<noteq> []" and "length xs < 2 ^ 63" and "unat c + n \<le> 2 ^ 64"
  shows "fst (rr_picks n c xs) = map (\<lambda>k. Some ((unat c + k) mod length xs)) [0..<n] \<and>
     (n = length xs \<longrightarrow> mset (fst (rr_picks n c xs)) = mset (map Some [0..<n]))"
proof -
  have picks: "fst (rr_picks n c xs) = map (\<lambda>k. Some ((unat c + k) mod length xs)) [0..<n]"
    using assms by (intro rr_picks_nth) simp_all
  have "mset (fst (rr_picks n c xs)) = mset (map Some [0..<n])" if "n = length xs"
  proof -
    have "fst (rr_picks n c xs) = map Some (map (\<lambda>k. (unat c + k) mod length xs) [0..<n])"
      by (simp add: picks)
    then have "mset (fst (rr_picks n c xs)) = image_mset Some (mset (map (\<lambda>k. (unat c + k) mod n) [0..<n]))"
      using that by (simp only: mset_map)
    also have "\<dots> = image_mset Some (mset [0..<n])" proof -
      have "n > 0" using assms(1) that by simp
      then show ?thesis by (simp only: full_round)
    qed
    finally show ?thesis by (simp only: mset_map)
  qed
  then show ?thesis using picks by blast
qed

theorem round_robin_fair_witness:
  "fst (rr_picks 3 5 ''abc'') = [Some 2, Some 0, Some 1]"
  using round_robin_fair [of "''abc''" 5 3] by (simp add: upt_conv_Cons)

text \<open>At the wrap the order jumps: with three instances the picks around it choose the first
  twice in a row.\<close>

lemma round_robin_wraps: "fst (rr_picks 2 (2 ^ 64 - 1) ''abc'') = [Some 0, Some 0]"
  by code_simp

text \<open>The weights a balancer counts with, as a number line cut at the partial sums.\<close>

definition sum_weights :: "service_instance list \<Rightarrow> int" where
  "sum_weights xs = sum_list (map weight_of xs)"

lemma weight_pos: "weight_of i \<ge> 1"
  by (simp add: weight_of_def)

lemma sum_weights_nonneg: "0 \<le> sum_weights xs"
  unfolding sum_weights_def by (rule sum_list_nonneg) (auto simp: weight_of_def)

lemma total_weight_sum: "0 \<le> acc \<Longrightarrow> acc + sum_weights xs < 2 ^ 63 \<Longrightarrow> total_weight xs acc = acc + sum_weights xs"
proof (induction xs arbitrary: acc)
  case (Cons i xs)
  have "0 \<le> sum_weights xs" "weight_of i \<ge> 1" by (simp_all add: sum_weights_nonneg weight_pos)
  then have "fits64 (acc + weight_of i)" using Cons.prems by (simp add: fits64_def sum_weights_def)
  then show ?case using Cons \<open>weight_of i \<ge> 1\<close> by (simp add: wrap64_id sum_weights_def)
qed (simp add: sum_weights_def)

lemma weighted_find_iff:
  assumes "0 \<le> cum" "cum \<le> t" "t < cum + sum_weights xs" "cum + sum_weights xs < 2 ^ 63"
  shows "\<exists>j < length xs. weighted_find xs k cum t = k + j \<and>
     cum + sum_weights (take j xs) \<le> t \<and> t < cum + sum_weights (take (Suc j) xs)"
  using assms
proof (induction xs arbitrary: k cum)
  case Nil
  then show ?case by (simp add: sum_weights_def)
next
  case (Cons i xs)
  have w: "0 \<le> sum_weights xs" "weight_of i \<ge> 1" by (simp_all add: sum_weights_nonneg weight_pos)
  then have "fits64 (cum + weight_of i)" using Cons.prems by (simp add: fits64_def sum_weights_def)
  then have wr: "wrap64 (cum + weight_of i) = cum + weight_of i" by (rule wrap64_id)
  show ?case
  proof (cases "cum + weight_of i > t")
    case True
    then show ?thesis using Cons.prems wr by (intro exI [of _ 0]) (simp add: sum_weights_def Let_def)
  next
    case False
    have "\<exists>j < length xs. weighted_find xs (Suc k) (cum + weight_of i) t = Suc k + j \<and>
       cum + weight_of i + sum_weights (take j xs) \<le> t \<and> t < cum + weight_of i + sum_weights (take (Suc j) xs)"
      using Cons.prems False w by (intro Cons.IH) (simp_all add: sum_weights_def)
    then obtain j where "j < length xs" "weighted_find xs (Suc k) (cum + weight_of i) t = Suc k + j"
       "cum + weight_of i + sum_weights (take j xs) \<le> t" "t < cum + weight_of i + sum_weights (take (Suc j) xs)"
      by blast
    then show ?thesis using False wr by (intro exI [of _ "Suc j"]) (simp add: sum_weights_def Let_def)
  qed
qed

lemma sum_weights_take_mono: "i \<le> j \<Longrightarrow> sum_weights (take i xs) \<le> sum_weights (take j xs)"
proof -
  assume "i \<le> j"
  then have "take j xs = take i xs @ take (j - i) (drop i xs)" by (metis le_add_diff_inverse take_add)
  then show ?thesis using sum_weights_nonneg [of "take (j - i) (drop i xs)"] by (simp add: sum_weights_def)
qed

text \<open>The weighted balancer chooses in proportion to the weights: while the weights (one
  for each that is not positive) sum up to less than 2 ^ 63, it returns an instance whatever
  the clock shows, and over a full period of the clock the instance at index k is chosen
  exactly as often as its weight says.\<close>

theorem weighted_pick_proportional:
  assumes "sum_weights xs < 2 ^ 63" and "k < length xs"
  shows "card {t \<in> {0..<sum_weights xs}. weighted_pick t xs = Done (Some k)} = nat (weight_of (xs ! k)) \<and>
    (\<forall>clock. \<exists>j < length xs. weighted_pick clock xs = Done (Some j))"
proof -
  have ne: "xs \<noteq> []" using assms(2) by auto
  have "weight_of (xs ! k) \<le> sum_weights xs"
    unfolding sum_weights_def using assms(2) weight_pos
    by (intro member_le_sum_list) (auto intro: order_trans [of 0 1])
  then have pos: "sum_weights xs > 0" using weight_pos [of "xs ! k"] by linarith
  have tot: "total_weight xs 0 = sum_weights xs" using total_weight_sum [of 0 xs] assms(1) by simp
  have pick: "weighted_pick t xs = Done (Some (weighted_find xs 0 0 (t mod sum_weights xs)))" for t
    using ne pos by (simp add: weighted_pick_def tot)
  have found: "\<exists>j < length xs. weighted_find xs 0 0 t = j \<and> sum_weights (take j xs) \<le> t \<and>
      t < sum_weights (take (Suc j) xs)" if "0 \<le> t" "t < sum_weights xs" for t
    using weighted_find_iff [of 0 t xs 0] that assms(1) by simp
  have step: "sum_weights (take (Suc k) xs) = sum_weights (take k xs) + weight_of (xs ! k)"
    using assms(2) by (simp add: sum_weights_def take_Suc_conv_app_nth)
  have low: "0 \<le> sum_weights (take k xs)" by (rule sum_weights_nonneg)
  have high: "sum_weights (take (Suc k) xs) \<le> sum_weights xs"
    using sum_weights_take_mono [of "Suc k" "length xs" xs] assms(2) by simp
  have iff: "weighted_find xs 0 0 t = k \<longleftrightarrow> sum_weights (take k xs) \<le> t \<and> t < sum_weights (take (Suc k) xs)"
    if t: "0 \<le> t" "t < sum_weights xs" for t
  proof
    assume "weighted_find xs 0 0 t = k"
    then show "sum_weights (take k xs) \<le> t \<and> t < sum_weights (take (Suc k) xs)" using found [OF t] by blast
  next
    assume b: "sum_weights (take k xs) \<le> t \<and> t < sum_weights (take (Suc k) xs)"
    obtain j where j: "weighted_find xs 0 0 t = j" "sum_weights (take j xs) \<le> t" "t < sum_weights (take (Suc j) xs)"
      using found [OF t] by blast
    have "\<not> j < k" using sum_weights_take_mono [of "Suc j" k xs] j(3) b by auto
    moreover have "\<not> k < j" using sum_weights_take_mono [of "Suc k" j xs] j(2) b by auto
    ultimately show "weighted_find xs 0 0 t = k" using j(1) by simp
  qed
  have "{t \<in> {0..<sum_weights xs}. weighted_pick t xs = Done (Some k)} =
      {t \<in> {0..<sum_weights xs}. weighted_find xs 0 0 t = k}"
    by (rule Collect_cong) (auto simp: pick)
  also have "\<dots> = {t \<in> {0..<sum_weights xs}. sum_weights (take k xs) \<le> t \<and> t < sum_weights (take (Suc k) xs)}"
    by (rule Collect_cong) (use iff in \<open>metis atLeastLessThan_iff\<close>)
  also have "\<dots> = {sum_weights (take k xs)..<sum_weights (take (Suc k) xs)}"
    using low high by auto
  finally have "{t \<in> {0..<sum_weights xs}. weighted_pick t xs = Done (Some k)} =
      {sum_weights (take k xs)..<sum_weights (take (Suc k) xs)}" .
  moreover have "\<exists>j < length xs. weighted_pick clock xs = Done (Some j)" for clock
    using found [of "clock mod sum_weights xs"] pos by (auto simp: pick)
  ultimately show ?thesis by (simp add: step)
qed

definition example_instance :: "string \<Rightarrow> int \<Rightarrow> service_instance" where
  "example_instance i w = \<lparr>si_id = i, si_name = ''pay'', si_version = [], si_address = ''10.0.0.1'', si_port = 80,
     si_metadata = [], si_weight = w\<rparr>"

theorem weighted_pick_proportional_witness:
  "card {t \<in> {0..<4}. weighted_pick t [example_instance ''a'' 3, example_instance ''b'' 0] = Done (Some 0)} = 3"
  using weighted_pick_proportional [of "[example_instance ''a'' 3, example_instance ''b'' 0]" 0]
  by (simp add: sum_weights_def weight_of_def example_instance_def)

subsection \<open>A watch that fails\<close>

lemma stale_resolve:
  assumes "rv_watchers r name = Some WatchEnded" "rv_cache r name = Some (i # rest)"
  shows "rv_watchers (snd (resolve_all ro n s r)) name = Some WatchEnded \<and>
     rv_cache (snd (resolve_all ro n s r)) name = Some (i # rest)"
proof (cases "n = name")
  case True
  then show ?thesis using assms by (simp add: resolve_all_def)
next
  case False
  have w: "rv_watchers (start_watch ro n s q) name = rv_watchers q name" "rv_cache (start_watch ro n s q) = rv_cache q" for q
    using False by (auto simp: start_watch_def split: option.splits)
  show ?thesis using assms False by (auto simp: resolve_all_def w split: option.splits list.splits sum.splits)
qed

lemma stale_turn:
  assumes "rv_watchers r name = Some WatchEnded" "rv_cache r name = Some (i # rest)"
  shows "rv_watchers (watcher_turn n a r) name = Some WatchEnded \<and>
     rv_cache (watcher_turn n a r) name = Some (i # rest)"
  using assms by (auto simp: watcher_turn_def split: sum.splits)

lemma stale_run:
  assumes "rv_watchers r name = Some WatchEnded" "rv_cache r name = Some (i # rest)"
  shows "rv_cache (resolver_run ro cs r) name = Some (i # rest)"
  using assms
  by (induction ro cs r rule: resolver_run.induct) (simp_all add: stale_resolve stale_turn)

text \<open>C31. A failed watch freezes the cache: once \<open>Next\<close> of the watcher of a service has
  returned an error while instances are cached, the resolver answers with those instances
  for ever, whatever the registry holds and whatever else is resolved, because the entry in
  \<open>watchers\<close> stays and the cache is asked first.\<close>

theorem failed_watch_freezes_cache:
  assumes "rv_watchers r name = Some Watching" and "rv_cache r name = Some (i # rest)"
    and "r1 = resolver_run ro cs (watcher_turn name (Inl e) r)"
  shows "resolve_all ro name s r1 = (Inr (i # rest), r1) \<and> resolve ro pick name s r1 = (Inr (pick (i # rest)), r1)"
proof -
  have "rv_cache r1 name = Some (i # rest)"
    unfolding assms(3) by (rule stale_run) (simp_all add: watcher_turn_def assms)
  then show ?thesis by (simp add: resolve_all_def resolve_def)
qed

definition empty_registry :: "unit registry_ops" where
  "empty_registry = \<lparr>ro_get_service = (\<lambda>n s. Inr []), ro_watch = (\<lambda>n s. None)\<rparr>"

theorem failed_watch_freezes_cache_witness:
  "fst (resolve_all empty_registry ''pay'' () (resolver_run empty_registry [(ResolveStep ''pay'', ()), (ResolveStep ''x'', ())]
     (watcher_turn ''pay'' (Inl CtxCanceled) (new_resolver\<lparr>rv_cache := (\<lambda>_. None)(''pay'' := Some [example_instance ''a'' 1]),
        rv_watchers := (\<lambda>_. None)(''pay'' := Some Watching)\<rparr>)))) = Inr [example_instance ''a'' 1]"
  using failed_watch_freezes_cache [OF _ _ refl, where name = "''pay''" and i = "example_instance ''a'' 1"
      and rest = "[]" and ro = empty_registry and s = "()" and e = CtxCanceled
      and cs = "[(ResolveStep ''pay'', ()), (ResolveStep ''x'', ())]"
      and r = "new_resolver\<lparr>rv_cache := (\<lambda>_. None)(''pay'' := Some [example_instance ''a'' 1]),
        rv_watchers := (\<lambda>_. None)(''pay'' := Some Watching)\<rparr>"]
  by simp

end
