(* ===== verification/WebSession.thy ===== *)
theory WebSession
  imports LruCache
begin

text \<open>
  frame/pkg/session/session.go: sessions, their stores and the gin middleware. A request is
  the cookie it brings and the operations its handler makes; the response is the list of
  cookies set. The store is the interface \<open>Store\<close>, a record of functions; the Redis client
  and the JSON codec are parameters.
\<close>

subsection \<open>A session\<close>

datatype session_value = SvInt int | SvFloat rat | SvNumber string | SvString string | SvOther string

type_synonym session_data = "(string, session_value) gomap"

record session =
  ss_id :: string
  ss_data :: session_data
  ss_modified :: bool

definition session_get :: "session \<Rightarrow> string \<Rightarrow> session_value option" where
  "session_get s k = gm_get (ss_data s) k"

definition session_get_string :: "session \<Rightarrow> string \<Rightarrow> string" where
  "session_get_string s k = (case session_get s k of Some (SvString x) \<Rightarrow> x | _ \<Rightarrow> [])"

text \<open>\<open>int(v)\<close> of a float outside the range is left to the implementation (\<open>oob\<close>).\<close>

definition session_get_int :: "(rat \<Rightarrow> int) \<Rightarrow> session \<Rightarrow> string \<Rightarrow> int" where
  "session_get_int oob s k = (case session_get s k of
     Some (SvInt n) \<Rightarrow> n
   | Some (SvFloat q) \<Rightarrow> if fits64 (truncate_rat q) then truncate_rat q else oob q
   | Some (SvNumber t) \<Rightarrow> parse_int64 t
   | _ \<Rightarrow> 0)"

definition session_set :: "string \<Rightarrow> session_value \<Rightarrow> session \<Rightarrow> session" where
  "session_set k v s = s\<lparr>ss_data := gm_put k v (ss_data s), ss_modified := True\<rparr>"

definition session_delete :: "string \<Rightarrow> session \<Rightarrow> session" where
  "session_delete k s = s\<lparr>ss_data := gm_del k (ss_data s), ss_modified := True\<rparr>"

definition session_clear :: "session \<Rightarrow> session" where
  "session_clear s = s\<lparr>ss_data := [], ss_modified := True\<rparr>"

definition session_all :: "session \<Rightarrow> session_data" where
  "session_all s = ss_data s"

subsection \<open>Stores\<close>

record 's session_store =
  st_get :: "time \<Rightarrow> string \<Rightarrow> 's \<Rightarrow> gerr + session_data option"
  st_set :: "time \<Rightarrow> string \<Rightarrow> session_data \<Rightarrow> duration \<Rightarrow> 's \<Rightarrow> gerr option \<times> 's"
  st_delete :: "time \<Rightarrow> string \<Rightarrow> 's \<Rightarrow> gerr option \<times> 's"
  st_exists :: "time \<Rightarrow> string \<Rightarrow> 's \<Rightarrow> gerr + bool"

record memory_entry =
  me_data :: session_data
  me_expires_at :: time

type_synonym memory_sessions = "(string, memory_entry) gomap"

definition memory_session_get :: "time \<Rightarrow> string \<Rightarrow> memory_sessions \<Rightarrow> gerr + session_data option" where
  "memory_session_get now i m = (case gm_get m i of
     None \<Rightarrow> Inr None | Some e \<Rightarrow> if now > me_expires_at e then Inr None else Inr (Some (me_data e)))"

definition memory_session_set :: "time \<Rightarrow> string \<Rightarrow> session_data \<Rightarrow> duration \<Rightarrow> memory_sessions \<Rightarrow>
    gerr option \<times> memory_sessions" where
  "memory_session_set now i d max_age m = (None, gm_put i \<lparr>me_data = d, me_expires_at = now + max_age\<rparr> m)"

definition memory_session_delete :: "time \<Rightarrow> string \<Rightarrow> memory_sessions \<Rightarrow> gerr option \<times> memory_sessions" where
  "memory_session_delete now i m = (None, gm_del i m)"

definition memory_session_exists :: "time \<Rightarrow> string \<Rightarrow> memory_sessions \<Rightarrow> gerr + bool" where
  "memory_session_exists now i m = (case gm_get m i of
     None \<Rightarrow> Inr False | Some e \<Rightarrow> Inr (\<not> now > me_expires_at e))"

definition memory_session_store :: "memory_sessions session_store" where
  "memory_session_store = \<lparr>st_get = memory_session_get, st_set = memory_session_set,
     st_delete = memory_session_delete, st_exists = memory_session_exists\<rparr>"

text \<open>One tick of the clean-up goroutine, and the gauge.\<close>

definition memory_session_cleanup :: "time \<Rightarrow> memory_sessions \<Rightarrow> memory_sessions" where
  "memory_session_cleanup now m = filter (\<lambda>(i, e). \<not> now > me_expires_at e) m"

definition memory_session_size :: "time \<Rightarrow> memory_sessions \<Rightarrow> int" where
  "memory_session_size now m = int (length (filter (\<lambda>(i, e). now < me_expires_at e) m))"

text \<open>The Redis store: \<open>rs_get\<close> answers None for redis.Nil.\<close>

record 's redis_sessions =
  rs_get :: "time \<Rightarrow> string \<Rightarrow> 's \<Rightarrow> gerr + string option"
  rs_set :: "time \<Rightarrow> string \<Rightarrow> string \<Rightarrow> duration \<Rightarrow> 's \<Rightarrow> gerr option \<times> 's"
  rs_del :: "time \<Rightarrow> string \<Rightarrow> 's \<Rightarrow> gerr option \<times> 's"
  rs_exists :: "time \<Rightarrow> string \<Rightarrow> 's \<Rightarrow> gerr + int"

definition redis_session_key :: "string \<Rightarrow> string \<Rightarrow> string" where
  "redis_session_key pre i = (if pre = [] then ''session:'' else pre) @ i"

definition redis_session_store :: "(session_data \<Rightarrow> gerr + string) \<Rightarrow> (string \<Rightarrow> gerr + session_data) \<Rightarrow>
    's redis_sessions \<Rightarrow> string \<Rightarrow> 's session_store" where
  "redis_session_store marshal unmarshal c pre = \<lparr>
     st_get = (\<lambda>now i s. case rs_get c now (redis_session_key pre i) s of
        Inl e \<Rightarrow> Inl e
      | Inr None \<Rightarrow> Inr None
      | Inr (Some t) \<Rightarrow> (case unmarshal t of Inl e \<Rightarrow> Inl e | Inr d \<Rightarrow> Inr (Some d))),
     st_set = (\<lambda>now i d max_age s. case marshal d of
        Inl e \<Rightarrow> (Some e, s) | Inr t \<Rightarrow> rs_set c now (redis_session_key pre i) t max_age s),
     st_delete = (\<lambda>now i s. rs_del c now (redis_session_key pre i) s),
     st_exists = (\<lambda>now i s. case rs_exists c now (redis_session_key pre i) s of
        Inl e \<Rightarrow> Inl e | Inr n \<Rightarrow> Inr (n > 0))\<rparr>"

subsection \<open>The middleware\<close>

record session_config =
  sc_cookie_name :: string
  sc_max_age :: duration
  sc_path :: string
  sc_domain :: string
  sc_secure :: bool
  sc_http_only :: bool

definition default_session_config :: session_config where
  "default_session_config = \<lparr>sc_cookie_name = ''landc_session'', sc_max_age = 24 * hour, sc_path = ''/'',
     sc_domain = [], sc_secure = False, sc_http_only = True\<rparr>"

definition normalize_session_config :: "session_config option \<Rightarrow> session_config" where
  "normalize_session_config oc = (let c = (case oc of None \<Rightarrow> default_session_config | Some c \<Rightarrow> c)
     in c\<lparr>sc_cookie_name := (if sc_cookie_name c = [] then ''landc_session'' else sc_cookie_name c),
          sc_max_age := (if sc_max_age c \<le> 0 then 24 * hour else sc_max_age c),
          sc_path := (if sc_path c = [] then ''/'' else sc_path c)\<rparr>)"

text \<open>A cookie of the response: name, value and \<open>Max-Age\<close> in seconds (negative: delete it).\<close>

type_synonym cookie = "string \<times> string \<times> int"

datatype handler_op = HSet string session_value | HDelete string | HClear | HDestroy

record 's exchange =
  xc_session :: session
  xc_cookies :: "cookie list"
  xc_errors :: "gerr list"
  xc_store :: 's

definition destroy_session :: "'s session_store \<Rightarrow> session_config \<Rightarrow> time \<Rightarrow> 's exchange \<Rightarrow> gerr option \<times> 's exchange" where
  "destroy_session st c now x = (case st_delete st now (ss_id (xc_session x)) (xc_store x) of
     (Some e, s1) \<Rightarrow> (Some e, x\<lparr>xc_store := s1\<rparr>)
   | (None, s1) \<Rightarrow> (None, x\<lparr>xc_store := s1, xc_cookies := xc_cookies x @ [(sc_cookie_name c, [], - 1)]\<rparr>))"

fun handler_step :: "'s session_store \<Rightarrow> session_config \<Rightarrow> time \<Rightarrow> handler_op \<Rightarrow> 's exchange \<Rightarrow> 's exchange" where
  "handler_step st c now (HSet k v) x = x\<lparr>xc_session := session_set k v (xc_session x)\<rparr>"
| "handler_step st c now (HDelete k) x = x\<lparr>xc_session := session_delete k (xc_session x)\<rparr>"
| "handler_step st c now HClear x = x\<lparr>xc_session := session_clear (xc_session x)\<rparr>"
| "handler_step st c now HDestroy x = snd (destroy_session st c now x)"

definition load_session :: "'s session_store \<Rightarrow> time \<Rightarrow> string \<Rightarrow> string \<Rightarrow> 's \<Rightarrow> bool \<times> session" where
  "load_session st now cookie uuid s =
     (if cookie = [] then (True, \<lparr>ss_id = uuid, ss_data = [], ss_modified = False\<rparr>)
      else (False, \<lparr>ss_id = cookie,
         ss_data = (case st_get st now cookie s of Inr (Some d) \<Rightarrow> d | _ \<Rightarrow> []), ss_modified = False\<rparr>))"

definition save_session :: "'s session_store \<Rightarrow> session_config \<Rightarrow> time \<Rightarrow> bool \<Rightarrow> 's exchange \<Rightarrow> 's exchange" where
  "save_session st c now is_new x =
     (let sess = xc_session x in
      if ss_modified sess \<or> is_new
      then (case st_set st now (ss_id sess) (ss_data sess) (sc_max_age c) (xc_store x) of
          (e, s1) \<Rightarrow> x\<lparr>xc_store := s1,
             xc_errors := xc_errors x @ (case e of None \<Rightarrow> [] | Some err \<Rightarrow> [err]),
             xc_cookies := xc_cookies x @ [(sc_cookie_name c, ss_id sess, sc_max_age c div second)]\<rparr>)
      else x)"

text \<open>A request: the cookie it brings (empty when there is none), the identifier
  \<open>generate.UUID\<close> would give, the times of its start and its end, and the handler.\<close>

definition session_request :: "'s session_store \<Rightarrow> session_config \<Rightarrow> time \<Rightarrow> time \<Rightarrow> string \<Rightarrow> string \<Rightarrow>
    handler_op list \<Rightarrow> 's \<Rightarrow> 's exchange" where
  "session_request st c now later cookie uuid ops s =
     (case load_session st now cookie uuid s of (is_new, sess) \<Rightarrow>
        save_session st c later is_new
          (fold (handler_step st c now) ops
             \<lparr>xc_session = sess, xc_cookies = [], xc_errors = [], xc_store = s\<rparr>))"

subsection \<open>What the middleware relies on\<close>

text \<open>The effect of the handler on the data of its session.\<close>

fun op_data :: "handler_op \<Rightarrow> session_data \<Rightarrow> session_data" where
  "op_data (HSet k v) d = gm_put k v d"
| "op_data (HDelete k) d = gm_del k d"
| "op_data HClear d = []"
| "op_data HDestroy d = d"

text \<open>A store keeps, for every identifier, the data of the last write and when it expires.\<close>

locale session_laws =
  fixes st :: "'s session_store"
    and view :: "'s \<Rightarrow> string \<Rightarrow> (session_data \<times> time) option"
  assumes get_law: "st_get st now i s = Inr (case view s i of None \<Rightarrow> None
          | Some (d, e) \<Rightarrow> if now > e then None else Some d)"
    and set_law: "st_set st now i d a s = (e, s1) \<Longrightarrow> e = None \<and> view s1 = (view s)(i := Some (d, now + a))"
    and delete_law: "st_delete st now i s = (e, s1) \<Longrightarrow> e = None \<and> view s1 = (view s)(i := None)"
begin

lemma step_session:
  "ss_id (xc_session (handler_step st c now p x)) = ss_id (xc_session x) \<and>
   ss_data (xc_session (handler_step st c now p x)) = op_data p (ss_data (xc_session x)) \<and>
   ss_modified (xc_session (handler_step st c now p x)) = (ss_modified (xc_session x) \<or> p \<noteq> HDestroy)"
  by (cases p) (auto simp: session_set_def session_delete_def session_clear_def destroy_session_def
      split: prod.splits option.splits)

lemma step_store:
  "(\<forall>j. j \<noteq> ss_id (xc_session x) \<longrightarrow> view (xc_store (handler_step st c now p x)) j = view (xc_store x) j) \<and>
   xc_errors (handler_step st c now p x) = xc_errors x \<and>
   (p \<noteq> HDestroy \<longrightarrow> xc_cookies (handler_step st c now p x) = xc_cookies x)"
proof (cases p)
  case HDestroy
  obtain e s1 where d: "st_delete st now (ss_id (xc_session x)) (xc_store x) = (e, s1)" by force
  then show ?thesis using delete_law [OF d] HDestroy by (simp add: destroy_session_def d)
qed simp_all

lemma run_session:
  "ss_id (xc_session (fold (handler_step st c now) ops x)) = ss_id (xc_session x) \<and>
   ss_data (xc_session (fold (handler_step st c now) ops x)) = fold op_data ops (ss_data (xc_session x)) \<and>
   ss_modified (xc_session (fold (handler_step st c now) ops x)) =
     (ss_modified (xc_session x) \<or> (\<exists>p \<in> set ops. p \<noteq> HDestroy)) \<and>
   (\<forall>j. j \<noteq> ss_id (xc_session x) \<longrightarrow> view (xc_store (fold (handler_step st c now) ops x)) j = view (xc_store x) j) \<and>
   xc_errors (fold (handler_step st c now) ops x) = xc_errors x \<and>
   (HDestroy \<notin> set ops \<longrightarrow> xc_cookies (fold (handler_step st c now) ops x) = xc_cookies x)"
proof (induction ops arbitrary: x)
  case (Cons p ops)
  show ?case
    using Cons [of "handler_step st c now p x"] step_session [of c now p x] step_store [of x c now p] by auto
qed simp

lemma request_saves:
  assumes changed: "cookie = [] \<or> (\<exists>p \<in> set ops. p \<noteq> HDestroy)"
    and x: "x = session_request st c now later cookie uuid ops s"
    and i: "i = (if cookie = [] then uuid else cookie)"
    and d: "d = fold op_data ops (ss_data (snd (load_session st now cookie uuid s)))"
  shows "view (xc_store x) i = Some (d, later + sc_max_age c) \<and>
     (\<forall>j. j \<noteq> i \<longrightarrow> view (xc_store x) j = view s j) \<and> xc_errors x = [] \<and>
     (\<exists>before. xc_cookies x = before @ [(sc_cookie_name c, i, sc_max_age c div second)] \<and>
        (HDestroy \<notin> set ops \<longrightarrow> before = []))"
proof -
  obtain new sess where l: "load_session st now cookie uuid s = (new, sess)" by force
  let ?x0 = "\<lparr>xc_session = sess, xc_cookies = [], xc_errors = [], xc_store = s\<rparr>"
  let ?x1 = "fold (handler_step st c now) ops ?x0"
  have id: "ss_id sess = i" using l by (auto simp: load_session_def i split: if_splits)
  have r: "ss_id (xc_session ?x1) = i" "ss_data (xc_session ?x1) = d"
      "ss_modified (xc_session ?x1) \<or> new"
      "\<forall>j. j \<noteq> i \<longrightarrow> view (xc_store ?x1) j = view s j" "xc_errors ?x1 = []"
      "HDestroy \<notin> set ops \<longrightarrow> xc_cookies ?x1 = []"
    using run_session [of c now ops ?x0] changed id l by (auto simp: d load_session_def split: if_splits)
  obtain e s1 where w: "st_set st later i d (sc_max_age c) (xc_store ?x1) = (e, s1)" by force
  have "x = ?x1\<lparr>xc_store := s1, xc_errors := xc_errors ?x1 @ (case e of None \<Rightarrow> [] | Some err \<Rightarrow> [err]),
      xc_cookies := xc_cookies ?x1 @ [(sc_cookie_name c, i, sc_max_age c div second)]\<rparr>"
    using r(3) w by (simp add: x session_request_def l save_session_def Let_def r(1,2))
  then show ?thesis using set_law [OF w] r(4,5,6) by auto
qed

lemma load_saved:
  assumes "view s i = Some (d, e)" "i \<noteq> []"
  shows "load_session st t i uuid s =
     (False, \<lparr>ss_id = i, ss_data = (if t > e then [] else d), ss_modified = False\<rparr>)"
  using assms by (simp add: load_session_def get_law)

end

definition memory_view :: "memory_sessions \<Rightarrow> string \<Rightarrow> (session_data \<times> time) option" where
  "memory_view m i = map_option (\<lambda>e. (me_data e, me_expires_at e)) (gm_get m i)"

interpretation memory: session_laws memory_session_store memory_view
  by unfold_locales
    (auto simp: memory_session_store_def memory_session_get_def memory_session_set_def memory_session_delete_def
      memory_view_def fun_eq_iff split: option.splits)

text \<open>The clean-up never changes what a request loads at the same time or later.\<close>

lemma cleanup_invisible:
  assumes "gm_ok m" "now \<le> t"
  shows "load_session memory_session_store t i uuid (memory_session_cleanup now m) =
     load_session memory_session_store t i uuid m"
  using assms
  by (auto simp: load_session_def memory_session_store_def memory_session_get_def memory_session_cleanup_def
      gm_get_filter split: option.splits)

lemma memory_request_ok:
  assumes "gm_ok m"
  shows "gm_ok (xc_store (session_request memory_session_store c now later cookie uuid ops m))"
proof -
  have "gm_ok (xc_store (fold (handler_step memory_session_store c now) ops x))" if "gm_ok (xc_store x)" for x
    using that
  proof (induction ops arbitrary: x)
    case (Cons p ops)
    have "gm_ok (xc_store (handler_step memory_session_store c now p x))"
      using Cons.prems by (cases p) (simp_all add: destroy_session_def memory_session_store_def memory_session_delete_def)
    then show ?case using Cons.IH by simp
  qed simp
  then show ?thesis
    using assms by (auto simp: session_request_def load_session_def save_session_def Let_def
        memory_session_store_def memory_session_set_def)
qed

text \<open>A session lives from request to request: when a request brings no cookie, or its
  handler changes the session and does not destroy it, the response sets one cookie with
  the session's identifier, and a later request with that cookie loads the data as the
  handler left it up to the configured age after the end of the first request, and no data
  after it, also when the memory store was cleaned up in between; the sessions of other
  identifiers stay as they were.\<close>

theorem session_survives_requests:
  assumes "cookie = [] \<or> ops \<noteq> []" and "HDestroy \<notin> set ops"
    and "i = (if cookie = [] then uuid else cookie)" and "i \<noteq> []" and "gm_ok m"
    and "x = session_request memory_session_store c now later cookie uuid ops m"
    and "d = fold op_data ops (ss_data (snd (load_session memory_session_store now cookie uuid m)))"
  shows "xc_cookies x = [(sc_cookie_name c, i, sc_max_age c div second)] \<and>
    (\<forall>tick t. tick \<le> t \<longrightarrow> load_session memory_session_store t i uuid2 (memory_session_cleanup tick (xc_store x)) =
       (False, \<lparr>ss_id = i, ss_data = (if t > later + sc_max_age c then [] else d), ss_modified = False\<rparr>)) \<and>
    (\<forall>j t. j \<noteq> i \<longrightarrow> memory_session_get t j (xc_store x) = memory_session_get t j m)"
proof -
  have ch: "cookie = [] \<or> (\<exists>p \<in> set ops. p \<noteq> HDestroy)"
    using assms(1,2) by (cases ops) auto
  note r = memory.request_saves [OF ch assms(6,3,7)]
  have ok: "gm_ok (xc_store x)" unfolding assms(6) by (rule memory_request_ok [OF assms(5)])
  have "load_session memory_session_store t i uuid2 (memory_session_cleanup tick (xc_store x)) =
      (False, \<lparr>ss_id = i, ss_data = (if t > later + sc_max_age c then [] else d), ss_modified = False\<rparr>)"
    if "tick \<le> t" for tick t
    using cleanup_invisible [OF ok that] memory.load_saved [OF conjunct1 [OF r] assms(4)] by simp
  moreover have "memory_session_get t j (xc_store x) = memory_session_get t j m" if "j \<noteq> i" for j t
    using r that memory.get_law [of t j] by (simp add: memory_session_store_def)
  moreover have "xc_cookies x = [(sc_cookie_name c, i, sc_max_age c div second)]" using r assms(2) by auto
  ultimately show ?thesis by blast
qed

theorem session_survives_requests_witness:
  "snd (load_session memory_session_store 50 ''u1'' ''u2'' (xc_store (session_request memory_session_store
      default_session_config 5 6 [] ''u1'' [HSet ''user'' (SvInt 7)] []))) =
     \<lparr>ss_id = ''u1'', ss_data = [(''user'', SvInt 7)], ss_modified = False\<rparr>"
proof -
  let ?m = "[] :: memory_sessions" and ?ops = "[HSet ''user'' (SvInt 7)]"
  have d: "fold op_data ?ops (ss_data (snd (load_session memory_session_store 5 [] ''u1'' ?m))) = [(''user'', SvInt 7)]"
    by (simp add: load_session_def)
  have "\<forall>tick t. tick \<le> t \<longrightarrow> load_session memory_session_store t ''u1'' ''u2'' (memory_session_cleanup tick
      (xc_store (session_request memory_session_store default_session_config 5 6 [] ''u1'' ?ops ?m))) =
      (False, \<lparr>ss_id = ''u1'', ss_data = (if t > 6 + sc_max_age default_session_config then []
         else fold op_data ?ops (ss_data (snd (load_session memory_session_store 5 [] ''u1'' ?m)))), ss_modified = False\<rparr>)"
    by (rule conjunct1 [OF conjunct2 [OF session_survives_requests [OF _ _ _ _ gm_ok_Nil refl refl]]]) simp_all
  then have "load_session memory_session_store 50 ''u1'' ''u2'' (memory_session_cleanup 0
      (xc_store (session_request memory_session_store default_session_config 5 6 [] ''u1'' ?ops ?m))) =
      (False, \<lparr>ss_id = ''u1'', ss_data = [(''user'', SvInt 7)], ss_modified = False\<rparr>)"
    unfolding d by (simp add: default_session_config_def duration_units)
  then show ?thesis using cleanup_invisible [OF memory_request_ok [OF gm_ok_Nil], of 0 50] by simp
qed

text \<open>Two ways round the session. The identifier is the client's: whatever value a request
  brings in the cookie, known to the store or not, becomes the identifier under which the
  changed session is stored (session fixation). And a destroyed session comes back: if the
  handler changed the session anywhere in the request, the middleware saves it after the
  handler, so that after a handler which calls Destroy the data are still loaded under the
  old cookie, and the response sets the cookie again after deleting it.\<close>

theorem destroyed_session_comes_back:
  assumes "cookie \<noteq> []" and "\<exists>p \<in> set ops. p \<noteq> HDestroy"
    and "x = session_request memory_session_store c now later cookie uuid ops m"
    and "t \<le> later + sc_max_age c"
  shows "load_session memory_session_store t cookie uuid2 (xc_store x) = (False, \<lparr>ss_id = cookie,
      ss_data = fold op_data ops (case memory_session_get now cookie m of Inr (Some d) \<Rightarrow> d | _ \<Rightarrow> []),
      ss_modified = False\<rparr>) \<and>
    last (xc_cookies x) = (sc_cookie_name c, cookie, sc_max_age c div second)"
proof -
  have ch: "cookie = [] \<or> (\<exists>p \<in> set ops. p \<noteq> HDestroy)" using assms(2) by blast
  have i: "cookie = (if cookie = [] then uuid else cookie)" using assms(1) by simp
  note r = memory.request_saves [OF ch assms(3) i refl]
  have "ss_data (snd (load_session memory_session_store now cookie uuid m)) =
      (case memory_session_get now cookie m of Inr (Some d) \<Rightarrow> d | _ \<Rightarrow> [])"
    using assms(1) by (simp add: load_session_def memory_session_store_def)
  then show ?thesis
    using r memory.load_saved [OF conjunct1 [OF r] assms(1), of t uuid2] assms(4) by auto
qed

theorem destroyed_session_comes_back_witness:
  "ss_data (snd (load_session memory_session_store 50 ''chosen'' ''u2'' (xc_store (session_request memory_session_store
      default_session_config 5 6 ''chosen'' ''u1'' [HSet ''user'' (SvInt 7), HDestroy] [])))) = [(''user'', SvInt 7)]"
  using destroyed_session_comes_back [OF _ _ refl, where cookie = "''chosen''" and t = 50 and later = 6 and now = 5
      and ops = "[HSet ''user'' (SvInt 7), HDestroy]" and c = default_session_config and uuid = "''u1''"
      and m = "[]" and ?uuid2.0 = "''u2''"]
  by (simp add: default_session_config_def duration_units memory_session_get_def)

end
