(* ===== verification/Migrations.thy ===== *)
theory Migrations
  imports Prelude "HOL-Library.Char_ord" "HOL-Library.List_Lexorder"
begin

text \<open>
  frame/pkg/db/migration.go: the migrator. The database is a parameter with the gorm calls
  the code makes; the laws they satisfy are the locale \<open>migration_db\<close>, which the table at
  the end of the theory implements. Versions compare as Go strings do, byte by byte.
\<close>

record migration_record =
  mr_version :: string
  mr_name :: string
  mr_applied_at :: time

text \<open>A migration: \<open>Up\<close> and \<open>Down\<close> work on the transaction, \<open>Down\<close> may be nil.\<close>

record 's migration =
  mg_version :: string
  mg_name :: string
  mg_up :: "'s \<Rightarrow> gerr option \<times> 's"
  mg_down :: "('s \<Rightarrow> gerr option \<times> 's) option"

record 's mig_db =
  md_init :: "'s \<Rightarrow> gerr option \<times> 's"
  md_records :: "'s \<Rightarrow> gerr + migration_record list"
  md_records_desc :: "'s \<Rightarrow> gerr + migration_record list"
  md_tx :: "('s \<Rightarrow> gerr option \<times> 's) \<Rightarrow> 's \<Rightarrow> gerr option \<times> 's"
  md_create :: "migration_record \<Rightarrow> 's \<Rightarrow> gerr option \<times> 's"
  md_delete :: "string \<Rightarrow> 's \<Rightarrow> gerr option \<times> 's"

type_synonym 's migrator = "'s migration list"

definition new_migrator :: "'s migrator" where
  "new_migrator = []"

definition register_migrations :: "'s migration list \<Rightarrow> 's migrator \<Rightarrow> 's migrator" where
  "register_migrations ms m = m @ ms"

definition sorted_migrations :: "'s migrator \<Rightarrow> 's migration list" where
  "sorted_migrations m = sort_key mg_version m"

definition pending_migrations :: "(string \<Rightarrow> bool) \<Rightarrow> 's migrator \<Rightarrow> 's migration list" where
  "pending_migrations applied m = filter (\<lambda>x. \<not> applied (mg_version x)) (sorted_migrations m)"

definition find_migration :: "string \<Rightarrow> 's migrator \<Rightarrow> 's migration option" where
  "find_migration v m = List.find (\<lambda>x. mg_version x = v) m"

definition wrap_err :: "string \<Rightarrow> gerr \<Rightarrow> gerr" where
  "wrap_err t e = ErrMsg (t @ gerr_text e)"

definition applied_records :: "'s mig_db \<Rightarrow> 's \<Rightarrow> gerr + migration_record list" where
  "applied_records d s = (case md_records_desc d s of
     Inl e \<Rightarrow> Inl (wrap_err ''failed to query migration records: '' e) | Inr rs \<Rightarrow> Inr rs)"

definition applied_versions :: "'s mig_db \<Rightarrow> 's \<Rightarrow> gerr + (string \<Rightarrow> bool)" where
  "applied_versions d s = (case md_records d s of
     Inl e \<Rightarrow> Inl (wrap_err ''failed to query migration records: '' e)
   | Inr rs \<Rightarrow> Inr (\<lambda>v. v \<in> mr_version ` set rs))"

definition apply_up :: "'s mig_db \<Rightarrow> time \<Rightarrow> 's migration \<Rightarrow> 's \<Rightarrow> gerr option \<times> 's" where
  "apply_up d now x = md_tx d (\<lambda>s. case mg_up x s of
     (Some e, s1) \<Rightarrow> (Some e, s1)
   | (None, s1) \<Rightarrow> md_create d \<lparr>mr_version = mg_version x, mr_name = mg_name x, mr_applied_at = now\<rparr> s1)"

definition apply_down :: "'s mig_db \<Rightarrow> string \<Rightarrow> ('s \<Rightarrow> gerr option \<times> 's) \<Rightarrow> 's \<Rightarrow> gerr option \<times> 's" where
  "apply_down d v down = md_tx d (\<lambda>s. case down s of
     (Some e, s1) \<Rightarrow> (Some e, s1) | (None, s1) \<Rightarrow> md_delete d v s1)"

text \<open>The loops of \<open>Up\<close> and \<open>UpTo\<close> (which stops after the version it looks for, if it comes).\<close>

fun up_loop :: "'s mig_db \<Rightarrow> time \<Rightarrow> string option \<Rightarrow> 's migration list \<Rightarrow> 's \<Rightarrow> gerr option \<times> 's" where
  "up_loop d now target [] s = (None, s)"
| "up_loop d now target (x # xs) s =
     (case apply_up d now x s of
        (Some e, s1) \<Rightarrow> (Some (wrap_err (''migration '' @ mg_version x @ '' ('' @ mg_name x @ '') failed: '') e), s1)
      | (None, s1) \<Rightarrow> if target = Some (mg_version x) then (None, s1) else up_loop d now target xs s1)"

definition run_pending :: "'s mig_db \<Rightarrow> time \<Rightarrow> string option \<Rightarrow> 's migrator \<Rightarrow> 's \<Rightarrow> gerr option \<times> 's" where
  "run_pending d now target m s =
     (case md_init d s of
        (Some e, s1) \<Rightarrow> (Some (wrap_err ''failed to init migration table: '' e), s1)
      | (None, s1) \<Rightarrow> (case applied_versions d s1 of
            Inl e \<Rightarrow> (Some e, s1)
          | Inr applied \<Rightarrow> up_loop d now target (pending_migrations applied m) s1))"

definition migrate_up :: "'s mig_db \<Rightarrow> time \<Rightarrow> 's migrator \<Rightarrow> 's \<Rightarrow> gerr option \<times> 's" where
  "migrate_up d now m s = run_pending d now None m s"

definition migrate_up_to :: "'s mig_db \<Rightarrow> time \<Rightarrow> string \<Rightarrow> 's migrator \<Rightarrow> 's \<Rightarrow> gerr option \<times> 's" where
  "migrate_up_to d now v m s = run_pending d now (Some v) m s"

fun down_loop :: "'s mig_db \<Rightarrow> 's migrator \<Rightarrow> nat \<Rightarrow> migration_record list \<Rightarrow> 's \<Rightarrow> gerr option \<times> 's" where
  "down_loop d m 0 rs s = (None, s)"
| "down_loop d m (Suc n) [] s = (None, s)"
| "down_loop d m (Suc n) (r # rs) s =
     (case find_migration (mr_version r) m of
        None \<Rightarrow> (Some (ErrMsg (''migration '' @ mr_version r @ '' not found in registered migrations'')), s)
      | Some x \<Rightarrow> (case mg_down x of
            None \<Rightarrow> (Some (ErrMsg (''migration '' @ mg_version x @ '' ('' @ mg_name x @ '') has no Down function'')), s)
          | Some down \<Rightarrow> (case apply_down d (mg_version x) down s of
                (Some e, s1) \<Rightarrow> (Some (wrap_err (''rollback '' @ mg_version x @ '' ('' @ mg_name x @ '') failed: '') e), s1)
              | (None, s1) \<Rightarrow> down_loop d m n rs s1)))"

definition migrate_down :: "'s mig_db \<Rightarrow> int \<Rightarrow> 's migrator \<Rightarrow> 's \<Rightarrow> gerr option \<times> 's" where
  "migrate_down d steps m s =
     (case md_init d s of
        (Some e, s1) \<Rightarrow> (Some (wrap_err ''failed to init migration table: '' e), s1)
      | (None, s1) \<Rightarrow> (case applied_records d s1 of
            Inl e \<Rightarrow> (Some e, s1)
          | Inr rs \<Rightarrow> down_loop d m (nat (if steps \<le> 0 then 1 else steps))
                       (rev (sort_key mr_version (rev rs))) s1))"

definition migrate_reset :: "'s mig_db \<Rightarrow> 's migrator \<Rightarrow> 's \<Rightarrow> gerr option \<times> 's" where
  "migrate_reset d m s =
     (case md_init d s of
        (Some e, s1) \<Rightarrow> (Some (wrap_err ''failed to init migration table: '' e), s1)
      | (None, s1) \<Rightarrow> (case applied_records d s1 of
            Inl e \<Rightarrow> (Some e, s1) | Inr rs \<Rightarrow> migrate_down d (int (length rs)) m s1))"

record migration_status =
  mt_version :: string
  mt_name :: string
  mt_applied :: bool
  mt_applied_at :: "time option"

definition migrate_status :: "'s mig_db \<Rightarrow> 's migrator \<Rightarrow> 's \<Rightarrow> (gerr + migration_status list) \<times> 's" where
  "migrate_status d m s =
     (case md_init d s of
        (Some e, s1) \<Rightarrow> (Inl (wrap_err ''failed to init migration table: '' e), s1)
      | (None, s1) \<Rightarrow> (case applied_versions d s1 of
            Inl e \<Rightarrow> (Inl e, s1)
          | Inr applied \<Rightarrow> (case applied_records d s1 of
                Inl e \<Rightarrow> (Inl e, s1)
              | Inr rs \<Rightarrow> (Inr (map (\<lambda>x. \<lparr>mt_version = mg_version x, mt_name = mg_name x,
                    mt_applied = applied (mg_version x),
                    mt_applied_at = map_option mr_applied_at
                      (List.find (\<lambda>r. mr_version r = mg_version x) (rev rs))\<rparr>) (sorted_migrations m)), s1))))"

definition pending_count :: "'s mig_db \<Rightarrow> 's migrator \<Rightarrow> 's \<Rightarrow> (gerr + int) \<times> 's" where
  "pending_count d m s =
     (case md_init d s of
        (Some e, s1) \<Rightarrow> (Inl e, s1)
      | (None, s1) \<Rightarrow> (case applied_versions d s1 of
            Inl e \<Rightarrow> (Inl e, s1)
          | Inr applied \<Rightarrow> (Inr (int (length (pending_migrations applied m))), s1)))"

subsection \<open>What the migrator relies on\<close>

text \<open>
  \<open>versions\<close> are the recorded versions, \<open>schema\<close> everything else. Creating the table and the
  records touches no schema; a transaction whose function or whose commit fails leaves the
  state it started from; a created record is new (the version column is unique).
\<close>

locale migration_db =
  fixes d :: "'s mig_db"
    and versions :: "'s \<Rightarrow> string list"
    and schema :: "'s \<Rightarrow> 'a"
  assumes init: "md_init d s = (e, s1) \<Longrightarrow> versions s1 = versions s \<and> schema s1 = schema s"
    and records: "md_records d s = Inr rs \<Longrightarrow> set (map mr_version rs) = set (versions s)"
    and records_desc: "md_records_desc d s = Inr rs \<Longrightarrow> mset (map mr_version rs) = mset (versions s)"
    and tx: "md_tx d f s = (e, s1) \<Longrightarrow> (case f s of (Some err, s2) \<Rightarrow> e = Some err \<and> s1 = s
          | (None, s2) \<Rightarrow> if e = None then s1 = s2 else s1 = s)"
    and create: "md_create d r s = (None, s1) \<Longrightarrow> schema s1 = schema s \<and> mr_version r \<notin> set (versions s) \<and>
          versions s1 = versions s @ [mr_version r]"
    and delete: "md_delete d v s = (None, s1) \<Longrightarrow> schema s1 = schema s \<and>
          versions s1 = filter (\<lambda>w. w \<noteq> v) (versions s)"
begin

text \<open>The migrations of a list have all been applied, one after the other.\<close>

fun ups_done :: "time \<Rightarrow> 's migration list \<Rightarrow> 's \<Rightarrow> 's \<Rightarrow> bool" where
  "ups_done now [] s s1 = (s1 = s)"
| "ups_done now (x # xs) s s1 = (\<exists>t. apply_up d now x s = (None, t) \<and> ups_done now xs t s1)"

lemma ups_done_append: "ups_done now (xs @ ys) s s1 \<longleftrightarrow> (\<exists>t. ups_done now xs s t \<and> ups_done now ys t s1)"
  by (induction xs arbitrary: s) auto

lemma apply_up_None:
  assumes "apply_up d now x s = (None, s1)"
  shows "\<exists>t. mg_up x s = (None, t) \<and> schema s1 = schema t \<and> versions s1 = versions t @ [mg_version x]"
proof -
  obtain e t where up: "mg_up x s = (e, t)" by force
  show ?thesis
  proof (cases e)
    case None
    obtain e2 t2 where cr: "md_create d \<lparr>mr_version = mg_version x, mr_name = mg_name x, mr_applied_at = now\<rparr> t = (e2, t2)"
      by force
    then show ?thesis
      using tx [OF assms [unfolded apply_up_def]] create [of _ t t2] up None
      by (cases e2) (auto dest!: create)
  next
    case (Some err)
    then show ?thesis using tx [OF assms [unfolded apply_up_def]] up by simp
  qed
qed

lemma apply_up_Some: "apply_up d now x s = (Some e, s1) \<Longrightarrow> s1 = s"
  unfolding apply_up_def by (drule tx) (auto split: prod.splits option.splits)

lemma ups_done_versions:
  assumes "ups_done now xs s s1" "\<forall>x \<in> set xs. \<forall>t. versions (snd (mg_up x t)) = versions t"
  shows "versions s1 = versions s @ map mg_version xs"
  using assms
proof (induction xs arbitrary: s)
  case (Cons x xs)
  then obtain t where t: "apply_up d now x s = (None, t)" "ups_done now xs t s1" by auto
  obtain u where "mg_up x s = (None, u)" "versions t = versions u @ [mg_version x]"
    using apply_up_None [OF t(1)] by blast
  moreover have "versions u = versions s" using Cons.prems(2) calculation(1) by (metis list.set_intros(1) snd_conv)
  ultimately show ?case using Cons.IH [OF t(2)] Cons.prems(2) by simp
qed simp

lemma up_loop_done:
  assumes "up_loop d now None xs s = (e, s1)"
  shows "\<exists>ys zs. xs = ys @ zs \<and> ups_done now ys s s1 \<and> (e = None \<longleftrightarrow> zs = [])"
  using assms
proof (induction xs arbitrary: s)
  case (Cons x xs)
  obtain e1 t where a: "apply_up d now x s = (e1, t)" by force
  show ?case
  proof (cases e1)
    case None
    then have "up_loop d now None xs t = (e, s1)" using Cons.prems a by simp
    from Cons.IH [OF this] obtain ys zs where "xs = ys @ zs" "ups_done now ys t s1" "e = None \<longleftrightarrow> zs = []" by blast
    then show ?thesis using a None by (intro exI [of _ "x # ys"] exI [of _ zs]) auto
  next
    case (Some err)
    then show ?thesis using Cons.prems a apply_up_Some [of now x s err t]
      by (intro exI [of _ "[]"] exI [of _ "x # xs"]) auto
  qed
qed simp

lemma up_applies:
  assumes "\<forall>x \<in> set m. \<forall>t. versions (snd (mg_up x t)) = versions t" and "migrate_up d now m s = (e, s1)"
  shows "\<exists>s0 ys zs. versions s0 = versions s \<and> schema s0 = schema s \<and>
     sorted (map mg_version (ys @ zs)) \<and>
     mset (ys @ zs) = mset (filter (\<lambda>x. mg_version x \<notin> set (versions s)) m) \<and>
     ups_done now ys s0 s1 \<and> versions s1 = versions s @ map mg_version ys \<and> (e = None \<longrightarrow> zs = [])"
proof -
  obtain P where Pd: "P = filter (\<lambda>x. mg_version x \<notin> set (versions s)) (sort_key mg_version m)" by blast
  have P: "sorted (map mg_version P)" "mset P = mset (filter (\<lambda>x. mg_version x \<notin> set (versions s)) m)"
    by (simp_all add: Pd sorted_filter)
  obtain e0 s0 where i: "md_init d s = (e0, s0)" by force
  have s0: "versions s0 = versions s" "schema s0 = schema s" using init [OF i] by auto
  show ?thesis
  proof (cases "e0 = None \<and> (\<exists>ap. applied_versions d s0 = Inr ap)")
    case False
    then have "e \<noteq> None" "s1 = s0"
      using assms(2) i by (auto simp: migrate_up_def run_pending_def split: option.splits sum.splits)
    then show ?thesis using P s0
      by - (rule exI [of _ s0], rule exI [of _ "[]"], rule exI [of _ P], auto)
  next
    case True
    then obtain ap where ap: "applied_versions d s0 = Inr ap" by blast
    then have "ap = (\<lambda>v. v \<in> set (versions s))"
      using records [of s0] s0 by (auto simp: applied_versions_def fun_eq_iff split: sum.splits)
    then have "up_loop d now None P s0 = (e, s1)"
      using assms(2) i ap True by (simp add: migrate_up_def run_pending_def pending_migrations_def sorted_migrations_def Pd)
    from up_loop_done [OF this] obtain ys zs where yz: "P = ys @ zs" "ups_done now ys s0 s1" "e = None \<longleftrightarrow> zs = []"
      by blast
    have "set ys \<subseteq> set P" by (simp only: yz(1) set_append Un_upper1)
    then have "\<forall>x \<in> set ys. \<forall>t. versions (snd (mg_up x t)) = versions t" using assms(1) by (auto simp: Pd)
    then have "versions s1 = versions s @ map mg_version ys" using ups_done_versions [OF yz(2)] s0 by simp
    then show ?thesis using P yz s0 
      by - (rule exI [of _ s0], rule exI [of _ ys], rule exI [of _ zs], simp only: simp_thms)
  qed
qed

text \<open>Rolling back: the loop over the records of the applied migrations, latest first.\<close>

definition reverts :: "'s migration \<Rightarrow> bool" where
  "reverts x = (\<exists>dn. mg_down x = Some dn \<and> (\<forall>t. versions (snd (dn t)) = versions t) \<and>
     (\<forall>a b t t2. mg_up x a = (None, b) \<longrightarrow> schema t = schema b \<longrightarrow> dn t = (None, t2) \<longrightarrow> schema t2 = schema a))"

lemma apply_down_None:
  assumes "apply_down d v dn s = (None, s1)"
  shows "\<exists>t. dn s = (None, t) \<and> schema s1 = schema t \<and> versions s1 = filter (\<lambda>w. w \<noteq> v) (versions t)"
proof -
  obtain e t where dn: "dn s = (e, t)" by force
  show ?thesis
  proof (cases e)
    case None
    obtain e2 t2 where de: "md_delete d v t = (e2, t2)" by force
    then show ?thesis
      using tx [OF assms [unfolded apply_down_def]] dn None by (cases e2) (auto dest!: delete)
  next
    case (Some err)
    then show ?thesis using tx [OF assms [unfolded apply_down_def]] dn by simp
  qed
qed

lemma find_migration_distinct:
  "distinct (map mg_version m) \<Longrightarrow> x \<in> set m \<Longrightarrow> find_migration (mg_version x) m = Some x"
  unfolding find_migration_def by (induction m) (auto simp: image_iff)

lemma down_loop_reverts:
  assumes "distinct (map mg_version m)" "set Q \<subseteq> set m" "distinct (map mg_version Q)"
    and "\<forall>x \<in> set m. reverts x" and "\<forall>x \<in> set m. \<forall>t. versions (snd (mg_up x t)) = versions t"
    and "ups_done now Q s0 s1" and "map mr_version rs = rev (map mg_version Q)"
    and "schema t = schema s1" and "versions t = map mg_version Q"
    and "down_loop d m (length Q) rs t = (None, t2)"
  shows "schema t2 = schema s0 \<and> versions t2 = []"
  using assms(2,3,6-10)
proof (induction Q arbitrary: s1 rs t rule: rev_induct)
  case (snoc x Q)
  obtain r rs' where rs: "rs = r # rs'" "mr_version r = mg_version x" "map mr_version rs' = rev (map mg_version Q)"
    using snoc.prems(4) by (cases rs) auto
  have x: "x \<in> set m" using snoc.prems(1) by simp
  obtain u where u: "ups_done now Q s0 u" "apply_up d now x u = (None, s1)"
    using snoc.prems(3) by (auto simp: ups_done_append)
  obtain b where b: "mg_up x u = (None, b)" "schema s1 = schema b" using apply_up_None [OF u(2)] by blast
  obtain dn where dn: "mg_down x = Some dn" "\<forall>t. versions (snd (dn t)) = versions t"
      "\<forall>a b t t2. mg_up x a = (None, b) \<longrightarrow> schema t = schema b \<longrightarrow> dn t = (None, t2) \<longrightarrow> schema t2 = schema a"
    using assms(4) x unfolding reverts_def by blast
  obtain e t1 where ad: "apply_down d (mg_version x) dn t = (e, t1)" by force
  have "down_loop d m (Suc (length Q)) (r # rs') t = (None, t2)" using snoc.prems(7) by (simp add: rs(1))
  then have e: "e = None" and rest: "down_loop d m (length Q) rs' t1 = (None, t2)"
    by (simp_all add: rs(2) find_migration_distinct [OF assms(1) x] dn(1) ad split: option.splits)
  obtain t' where t': "dn t = (None, t')" "schema t1 = schema t'"
      "versions t1 = filter (\<lambda>w. w \<noteq> mg_version x) (versions t')"
    using apply_down_None [of "mg_version x" dn t t1] ad e by blast
  have "schema t1 = schema u" using dn(3) b t' snoc.prems(5) by metis
  moreover have "versions t1 = map mg_version Q"
  proof -
    have "versions t' = map mg_version (Q @ [x])" using dn(2) t'(1) snoc.prems(6) by (metis snd_conv)
    moreover have "filter (\<lambda>w. w \<noteq> mg_version x) (map mg_version Q) = map mg_version Q"
      using snoc.prems(2) by (intro filter_True) force
    ultimately show ?thesis by (simp add: t'(3))
  qed
  ultimately show ?case
    using snoc.IH [OF _ _ u(1) rs(3) _ _ rest] snoc.prems(1,2) by simp
qed simp

lemma records_of_run:
  assumes "md_records_desc d s = Inr rs" "versions s = map mg_version P" "sorted (map mg_version P)"
  shows "length rs = length P \<and> map mr_version (rev (sort_key mr_version (rev rs))) = rev (map mg_version P)"
proof -
  have m: "mset (map mr_version rs) = mset (map mg_version P)" using records_desc [OF assms(1)] assms(2) by simp
  have "sort (map mg_version P) = map mr_version (sort_key mr_version (rev rs))"
    using m by (intro properties_for_sort) simp_all
  then have "map mr_version (sort_key mr_version (rev rs)) = map mg_version P"
    using assms(3) by (simp add: sorted_sort_id)
  then show ?thesis using mset_eq_length [OF m] by (simp flip: rev_map)
qed

lemma reset_undoes:
  assumes "distinct (map mg_version m)" "\<forall>x \<in> set m. reverts x"
    and "\<forall>x \<in> set m. \<forall>t. versions (snd (mg_up x t)) = versions t"
    and "versions s = []" and "migrate_up d now m s = (None, s1)" and "migrate_reset d m s1 = (None, s2)"
  shows "schema s2 = schema s \<and> versions s2 = []"
proof -
  obtain s0 ys where up: "schema s0 = schema s" "sorted (map mg_version ys)" "mset ys = mset m"
      "ups_done now ys s0 s1" "versions s1 = map mg_version ys"
    using up_applies [OF assms(3,5)] assms(4) by auto
  have sub: "set ys \<subseteq> set m" using up(3) by (metis order_refl set_mset_mset)
  have dis: "distinct (map mg_version ys)"
    using assms(1) up(3) by (metis mset_eq_imp_distinct_iff mset_map)
  obtain e0 t0 where i0: "md_init d s1 = (e0, t0)" by force
  obtain rs where rs: "md_records_desc d t0 = Inr rs" and down: "migrate_down d (int (length rs)) m t0 = (None, s2)"
    using assms(6) i0 by (auto simp: migrate_reset_def applied_records_def split: option.splits sum.splits)
  have t0: "versions t0 = map mg_version ys" "schema t0 = schema s1" using init [OF i0] up(5) by auto
  have len: "length rs = length ys" using records_of_run [OF rs t0(1) up(2)] by blast
  obtain e1 t1 where i1: "md_init d t0 = (e1, t1)" by force
  obtain rs1 where rs1: "md_records_desc d t1 = Inr rs1" and loop: "down_loop d m
      (nat (if int (length rs) \<le> 0 then 1 else int (length rs))) (rev (sort_key mr_version (rev rs1))) t1 = (None, s2)"
    using down i1 by (auto simp: migrate_down_def applied_records_def split: option.splits sum.splits)
  have t1: "versions t1 = map mg_version ys" "schema t1 = schema s1" using init [OF i1] t0 by auto
  note r = records_of_run [OF rs1 t1(1) up(2)]
  have "down_loop d m (length ys) (rev (sort_key mr_version (rev rs1))) t1 = (None, s2)"
  proof (cases "ys = []")
    case True
    then show ?thesis using loop r len by simp
  next
    case False
    then show ?thesis using loop len by simp
  qed
  then have "schema s2 = schema s0 \<and> versions s2 = []"
    using down_loop_reverts [OF assms(1) sub dis assms(2,3) up(4) conjunct2 [OF r] t1(2,1)] by blast
  then show ?thesis using up(1) by simp
qed

end

subsection \<open>A database that satisfies the laws\<close>

text \<open>A schema of any type beside the table of records, with transactions that undo what a
  failed function did and a unique version column.\<close>

definition table_migrations :: "('a \<times> migration_record list) mig_db" where
  "table_migrations = \<lparr>
     md_init = (\<lambda>s. (None, s)),
     md_records = (\<lambda>s. Inr (snd s)),
     md_records_desc = (\<lambda>s. Inr (rev (sort_key mr_version (snd s)))),
     md_tx = (\<lambda>f s. case f s of (Some e, s1) \<Rightarrow> (Some e, s) | (None, s1) \<Rightarrow> (None, s1)),
     md_create = (\<lambda>r s. if mr_version r \<in> mr_version ` set (snd s)
        then (Some (ErrMsg ''UNIQUE constraint failed''), s) else (None, fst s, snd s @ [r])),
     md_delete = (\<lambda>v s. (None, fst s, filter (\<lambda>r. mr_version r \<noteq> v) (snd s)))\<rparr>"

interpretation mtable: migration_db table_migrations "\<lambda>s. map mr_version (snd s)" fst
  by unfold_locales
    (auto simp: table_migrations_def filter_map comp_def split: prod.splits option.splits if_splits)

text \<open>C24. \<open>Up\<close> applies the registered migrations that are not recorded, in the order of their
  versions, each in its transaction, and records each: whatever fails, the migrations
  applied are an initial part of that order, the records are the old ones and theirs, and
  the state is the one after the last of them; if \<open>Up\<close> reports no error, all are applied, so
  that no registered version is pending any more.\<close>

theorem up_applies_pending_in_order:
  assumes "migration_db d versions schema"
    and "\<forall>x \<in> set m. \<forall>t. versions (snd (mg_up x t)) = versions t"
    and "migrate_up d now m s = (e, s1)"
  shows "\<exists>s0 ys zs. schema s0 = schema s \<and> migration_db.ups_done d now ys s0 s1 \<and>
    sorted (map mg_version (ys @ zs)) \<and>
    mset (ys @ zs) = mset (filter (\<lambda>x. mg_version x \<notin> set (versions s)) m) \<and>
    versions s1 = versions s @ map mg_version ys \<and>
    (e = None \<longrightarrow> zs = [] \<and> (\<forall>x \<in> set m. mg_version x \<in> set (versions s1)))"
proof -
  obtain s0 ys zs where u: "schema s0 = schema s" "sorted (map mg_version (ys @ zs))"
      "mset (ys @ zs) = mset (filter (\<lambda>x. mg_version x \<notin> set (versions s)) m)"
      "migration_db.ups_done d now ys s0 s1" "versions s1 = versions s @ map mg_version ys" "e = None \<longrightarrow> zs = []"
    using migration_db.up_applies [OF assms] by blast
  have "mg_version x \<in> set (versions s1)" if "e = None" "x \<in> set m" for x
  proof (cases "mg_version x \<in> set (versions s)")
    case False
    have "mset ys = mset (filter (\<lambda>x. mg_version x \<notin> set (versions s)) m)" using u(3,6) that(1) by simp
    then have "set ys = set (filter (\<lambda>x. mg_version x \<notin> set (versions s)) m)" by (rule mset_eq_setD)
    then show ?thesis using False that(2) by (auto simp: u(5))
  qed (simp add: u(5))
  then show ?thesis using u by blast
qed

definition example_migration :: "string \<Rightarrow> int \<Rightarrow> (int list \<times> migration_record list) migration" where
  "example_migration v n = \<lparr>mg_version = v, mg_name = ''add'', mg_up = (\<lambda>(t, rs). (None, n # t, rs)),
     mg_down = Some (\<lambda>(t, rs). (None, tl t, rs))\<rparr>"

definition example_migrations :: "(int list \<times> migration_record list) migration list" where
  "example_migrations = [example_migration ''20260102'' 2, example_migration ''20260101'' 1]"

definition empty_database :: "int list \<times> migration_record list" where
  "empty_database = ([], [])"

theorem up_applies_pending_in_order_witness:
  "(\<exists>ys :: (int list \<times> migration_record list) migration list. sorted (map mg_version ys) \<and> map mr_version (snd (snd
       (migrate_up table_migrations 5 example_migrations empty_database))) = map mg_version ys) \<and>
   map mr_version (snd (snd (migrate_up table_migrations 5 example_migrations empty_database))) =
     [''20260101'', ''20260102'']"
proof
  have "\<forall>x \<in> set example_migrations. \<forall>t. map mr_version (snd (snd (mg_up x t))) = map mr_version (snd t)"
    by (simp add: example_migrations_def example_migration_def)
  note up = up_applies_pending_in_order [where now = 5, OF mtable.migration_db_axioms this prod.collapse [symmetric],
      of empty_database]
  have "map mr_version (snd empty_database) = []" by (simp add: empty_database_def)
  then show "\<exists>ys :: (int list \<times> migration_record list) migration list. sorted (map mg_version ys) \<and> map mr_version (snd (snd
      (migrate_up table_migrations 5 example_migrations empty_database))) = map mg_version ys"
    using up by (auto simp: sorted_append)
  show "map mr_version (snd (snd (migrate_up table_migrations 5 example_migrations empty_database))) =
      [''20260101'', ''20260102'']"
    by code_simp
qed

text \<open>C34. \<open>Reset\<close> undoes \<open>Up\<close>: on a database without records, if every registered migration has
  a \<open>Down\<close> that takes the schema back to what it was before its \<open>Up\<close>, and neither \<open>Up\<close> nor
  the \<open>Reset\<close> after it reports an error, the schema is the one from before and no version
  is recorded.\<close>

theorem reset_undoes_up:
  assumes "migration_db d versions schema" and "distinct (map mg_version m)"
    and "\<forall>x \<in> set m. migration_db.reverts versions schema x"
    and "\<forall>x \<in> set m. \<forall>t. versions (snd (mg_up x t)) = versions t"
    and "versions s = []" and "migrate_up d now m s = (None, s1)" and "migrate_reset d m s1 = (None, s2)"
  shows "schema s2 = schema s \<and> versions s2 = []"
  by (rule migration_db.reset_undoes [OF assms])

lemma example_reverts: "migration_db.reverts (\<lambda>s. map mr_version (snd s)) fst (example_migration v n)"
  unfolding mtable.reverts_def by (auto simp: example_migration_def)

theorem reset_undoes_up_witness:
  "fst (snd (migrate_reset table_migrations example_migrations
     (snd (migrate_up table_migrations 5 example_migrations ([7], []))))) = [7]"
proof -
  have "distinct (map mg_version example_migrations)"
    "\<forall>x \<in> set example_migrations. migration_db.reverts (\<lambda>s. map mr_version (snd s)) fst x"
    "\<forall>x \<in> set example_migrations. \<forall>t. map mr_version (snd (snd (mg_up x t))) = map mr_version (snd t)"
    by (simp_all add: example_migrations_def example_reverts) (simp_all add: example_migration_def)
  moreover have "fst (migrate_up table_migrations 5 example_migrations ([7], [])) = None"
    "fst (migrate_reset table_migrations example_migrations
       (snd (migrate_up table_migrations 5 example_migrations ([7], [])))) = None"
    by code_simp+
  ultimately show ?thesis
    using reset_undoes_up [OF mtable.migration_db_axioms, of example_migrations "([7], [])" 5]
    by (metis fst_conv list.simps(8) prod.collapse snd_conv)
qed

text \<open>\<open>Down\<close> goes by version, not by the time of application: with a late migration of a
  lower version, one step back undoes the greatest version, not the latest migration.\<close>

lemma down_goes_by_version:
  "map mr_version (snd (snd (migrate_down table_migrations 1 example_migrations
     ([1, 2], [\<lparr>mr_version = ''20260102'', mr_name = ''add'', mr_applied_at = 5\<rparr>,
               \<lparr>mr_version = ''20260101'', mr_name = ''add'', mr_applied_at = 9\<rparr>])))) = [''20260101'']"
  by code_simp

text \<open>\<open>UpTo\<close> with a version that is not pending applies everything.\<close>

lemma up_to_unknown_version:
  "snd (migrate_up_to table_migrations 5 ''20250101'' example_migrations ([], [])) =
     snd (migrate_up table_migrations 5 example_migrations ([], []))"
  by code_simp

end
