(* ===== verification/GoStrings.thy ===== *)
theory GoStrings
  imports Prelude
begin

text \<open>
  What the text helpers of tools/ use of Go: the runes of a string (UTF-8 as
  \<open>utf8.DecodeRune\<close> reads it), the functions of package strings, and package regexp for the
  patterns of the sources: a matcher by derivatives over runes, with the language a pattern
  denotes as its specification.
\<close>

subsection \<open>Runes\<close>

definition cont_byte :: "nat \<Rightarrow> nat \<Rightarrow> nat \<Rightarrow> bool" where
  "cont_byte lo hi b = (lo \<le> b \<and> b \<le> hi)"

text \<open>The number of bytes of the valid sequence at the front, 0 if there is none.\<close>

fun rune_width :: "nat list \<Rightarrow> nat" where
  "rune_width [] = 0"
| "rune_width (a # bs) =
     (if a < 128 then 1
      else if 194 \<le> a \<and> a \<le> 223 then
        (case bs of b # _ \<Rightarrow> if cont_byte 128 191 b then 2 else 0 | _ \<Rightarrow> 0)
      else if 224 \<le> a \<and> a \<le> 239 then
        (case bs of b # c # _ \<Rightarrow>
           if cont_byte (if a = 224 then 160 else 128) (if a = 237 then 159 else 191) b \<and> cont_byte 128 191 c
           then 3 else 0 | _ \<Rightarrow> 0)
      else if 240 \<le> a \<and> a \<le> 244 then
        (case bs of b # c # d # _ \<Rightarrow>
           if cont_byte (if a = 240 then 144 else 128) (if a = 244 then 143 else 191) b \<and>
              cont_byte 128 191 c \<and> cont_byte 128 191 d then 4 else 0 | _ \<Rightarrow> 0)
      else 0)"

fun rune_value :: "nat list \<Rightarrow> nat" where
  "rune_value [a] = a"
| "rune_value [a, b] = (a - 192) * 64 + (b - 128)"
| "rune_value [a, b, c] = (a - 224) * 4096 + (b - 128) * 64 + (c - 128)"
| "rune_value [a, b, c, d] = (a - 240) * 262144 + (b - 128) * 4096 + (c - 128) * 64 + (d - 128)"
| "rune_value _ = 65533"

text \<open>The runes of a string with the bytes each was read from; a byte that starts no valid
  sequence is the rune U+FFFD.\<close>

function segments :: "string \<Rightarrow> (nat \<times> string) list" where
  "segments [] = []"
| "segments (c # s) =
     (let w = rune_width (map of_char (c # s)) in
      if w = 0 then (65533, [c]) # segments s
      else (rune_value (map of_char (take w (c # s))), take w (c # s)) # segments (drop w (c # s)))"
  by pat_completeness auto
termination
  by (relation "measure length") auto

declare segments.simps(2) [simp del]

definition runes :: "string \<Rightarrow> nat list" where
  "runes s = map fst (segments s)"

text \<open>\<open>string(runes)\<close>: UTF-8, with U+FFFD for what is no Unicode scalar value.\<close>

definition encode_rune :: "nat \<Rightarrow> string" where
  "encode_rune r =
     (if r < 128 then [char_of r]
      else if r < 2048 then [char_of (192 + r div 64), char_of (128 + r mod 64)]
      else if 55296 \<le> r \<and> r \<le> 57343 \<or> r > 1114111 then [char_of (239 :: nat), char_of (191 :: nat), char_of (189 :: nat)]
      else if r < 65536 then [char_of (224 + r div 4096), char_of (128 + r div 64 mod 64), char_of (128 + r mod 64)]
      else [char_of (240 + r div 262144), char_of (128 + r div 4096 mod 64), char_of (128 + r div 64 mod 64),
            char_of (128 + r mod 64)])"

definition string_of_runes :: "nat list \<Rightarrow> string" where
  "string_of_runes rs = concat (map encode_rune rs)"

definition ascii :: "string \<Rightarrow> bool" where
  "ascii s = list_all (\<lambda>c. (of_char c :: nat) < 128) s"

lemma segments_bytes: "concat (map snd (segments s)) = s"
proof (induction s rule: segments.induct)
  case (2 c s)
  then show ?case
    by (cases "rune_width (map of_char (c # s)) = 0")
      (simp_all add: segments.simps(2) Let_def del: rune_width.simps)
qed simp

lemma segments_ascii_Cons:
  "(of_char c :: nat) < 128 \<Longrightarrow> segments (c # s) = (of_char c, [c]) # segments s"
  by (simp add: segments.simps(2))

lemma runes_ascii: "ascii s \<Longrightarrow> runes s = map of_char s"
  by (induction s) (simp_all add: ascii_def runes_def segments_ascii_Cons)

text \<open>A rune below 128 is read from its own byte alone.\<close>

lemma rune_width_cases:
  "rune_width bs \<in> {0, 1, 2, 3, 4} \<and> (rune_width bs = 1 \<longrightarrow> (\<exists>a r. bs = a # r \<and> a < 128)) \<and>
   (rune_width bs \<ge> 2 \<longrightarrow> rune_value (take (rune_width bs) bs) \<ge> 128)"
proof (cases bs)
  case (Cons a r)
  have two: "a \<ge> 194 \<Longrightarrow> (a - 192) * 64 + (b - 128) \<ge> 128" for b :: nat by (simp add: algebra_simps)
  have three: "cont_byte 160 191 b \<Longrightarrow> (b - 128) * 64 \<ge> (128 :: nat)" for b by (auto simp: cont_byte_def)
  have four: "cont_byte 144 191 b \<Longrightarrow> (b - 128) * 4096 \<ge> (128 :: nat)" for b by (auto simp: cont_byte_def)
  consider "a < 128" | "128 \<le> a" "a < 194" | "194 \<le> a" "a \<le> 223" | "224 \<le> a" "a \<le> 239" | "240 \<le> a" "a \<le> 244" | "a > 244"
    by linarith
  then show ?thesis
  proof cases
    case 3
    then show ?thesis using two by (auto simp: Cons split: list.splits if_splits)
  next
    case 4
    have "a \<noteq> 224 \<Longrightarrow> (a - 224) * 4096 \<ge> 128" using 4 by simp
    then show ?thesis using 4 by (auto simp: Cons split: list.splits if_splits dest!: three)
  next
    case 5
    have "a \<noteq> 240 \<Longrightarrow> (a - 240) * 262144 \<ge> 128" using 5 by simp
    then show ?thesis using 5 by (auto simp: Cons split: list.splits if_splits dest!: four)
  qed (auto simp: Cons)
qed simp

declare rune_width.simps [simp del]

lemma runes_below_128: "list_all (\<lambda>r. r < 128) (runes s) \<longleftrightarrow> ascii s"
proof
  show "ascii s \<Longrightarrow> list_all (\<lambda>r. r < 128) (runes s)"
    by (simp add: runes_ascii) (simp add: ascii_def list_all_iff)
  show "list_all (\<lambda>r. r < 128) (runes s) \<Longrightarrow> ascii s"
  proof (induction s rule: segments.induct)
    case (2 c s)
    let ?w = "rune_width (map of_char (c # s))"
    have w: "?w \<in> {0, 1, 2, 3, 4}" "?w = 1 \<Longrightarrow> (of_char c :: nat) < 128"
        "?w \<ge> 2 \<Longrightarrow> rune_value (map of_char (take ?w (c # s))) \<ge> 128"
      using rune_width_cases [of "map of_char (c # s)"] unfolding take_map by auto
    show ?case
    proof (cases "?w = 0")
      case True
      then show ?thesis using 2(3) by (simp add: runes_def segments.simps(2) Let_def)
    next
      case False
      have hd: "rune_value (map of_char (take ?w (c # s))) < 128" and tl: "list_all (\<lambda>r. r < 128) (runes (drop ?w (c # s)))"
        using 2(3) False by (simp_all add: runes_def segments.simps(2) Let_def)
      from w(1) False have "?w = 1 \<or> 2 \<le> ?w" by auto
      then have one: "?w = 1" using w(3) hd by linarith
      then show ?thesis using 2(2) [OF refl False] tl w(2) [OF one] by (simp add: ascii_def)
    qed
  qed (simp add: ascii_def)
qed

lemma runes_inj_ascii: "ascii t \<Longrightarrow> runes s = runes t \<longleftrightarrow> s = t"
proof
  assume t: "ascii t" and e: "runes s = runes t"
  then have "list_all (\<lambda>r. r < 128) (runes s)" by (simp add: runes_below_128)
  then have "ascii s" by (simp add: runes_below_128)
  then have "map (of_char :: char \<Rightarrow> nat) s = map of_char t" using e t by (simp add: runes_ascii)
  then show "s = t" by (rule map_injective) (simp add: inj_on_def)
qed simp

subsection \<open>Package strings\<close>

text \<open>\<open>unicode.IsSpace\<close>.\<close>

definition rune_is_space :: "nat \<Rightarrow> bool" where
  "rune_is_space r = (9 \<le> r \<and> r \<le> 13 \<or> r = 32 \<or> r = 133 \<or> r = 160 \<or> r = 5760 \<or> 8192 \<le> r \<and> r \<le> 8202 \<or>
     r = 8232 \<or> r = 8233 \<or> r = 8239 \<or> r = 8287 \<or> r = 12288)"

definition trim_segments :: "(nat \<times> string) list \<Rightarrow> (nat \<times> string) list" where
  "trim_segments ss = rev (dropWhile (\<lambda>x. rune_is_space (fst x)) (rev (dropWhile (\<lambda>x. rune_is_space (fst x)) ss)))"

definition trim_space :: "string \<Rightarrow> string" where
  "trim_space s = concat (map snd (trim_segments (segments s)))"

fun str_index :: "string \<Rightarrow> string \<Rightarrow> nat option" where
  "str_index [] p = (if p = [] then Some 0 else None)"
| "str_index (c # s) p = (if has_prefix (c # s) p then Some 0 else map_option Suc (str_index s p))"

definition str_has :: "string \<Rightarrow> string \<Rightarrow> bool" where
  "str_has s p = (str_index s p \<noteq> None)"

text \<open>\<open>strings.Split\<close> with a separator that is not empty, and the pieces of \<open>strings.Replace\<close>.\<close>

lemma str_index_length: "str_index s p = Some i \<Longrightarrow> i + length p \<le> length s"
proof (induction s p arbitrary: i rule: str_index.induct)
  case (2 c s p)
  show ?case
  proof (cases "has_prefix (c # s) p")
    case True
    then obtain r where "c # s = p @ r" by (auto simp: has_prefix_iff)
    then have "length (c # s) = length p + length r" by (metis length_append)
    then show ?thesis using 2(2) True by simp
  qed (use 2 in auto)
qed (simp split: if_splits)

function str_split :: "string \<Rightarrow> string \<Rightarrow> string list" where
  "str_split sep s = (if sep = [] then map snd (segments s)
     else (case str_index s sep of
         None \<Rightarrow> [s]
       | Some i \<Rightarrow> take i s # str_split sep (drop (i + length sep) s)))"
  by pat_completeness auto
termination
  by (relation "measure (\<lambda>(sep, s). length s)") (auto dest!: str_index_length simp: less_diff_conv2 intro: diff_less)

declare str_split.simps [simp del]

text \<open>\<open>strings.FieldsFunc\<close> on a predicate of single-byte runes.\<close>

fun fields_by :: "(char \<Rightarrow> bool) \<Rightarrow> string \<Rightarrow> string \<Rightarrow> string list" where
  "fields_by f acc [] = (if acc = [] then [] else [acc])"
| "fields_by f acc (c # s) =
     (if f c then (if acc = [] then fields_by f [] s else acc # fields_by f [] s)
      else fields_by f (acc @ [c]) s)"

definition replace_all :: "string \<Rightarrow> string \<Rightarrow> string \<Rightarrow> string" where
  "replace_all s old new_s = join_strs new_s (str_split old s)"

lemma str_index_split: "str_index s p = Some m \<Longrightarrow> s = take m s @ p @ drop (m + length p) s"
proof (induction s p arbitrary: m rule: str_index.induct)
  case (2 c s p)
  then show ?case
    by (auto simp: has_prefix_def split: if_splits) (metis append_take_drop_id)+
qed (simp split: if_splits)

lemma str_index_None_char: "str_index s [c] = None \<longleftrightarrow> c \<notin> set s"
  by (induction s) (auto simp: has_prefix_def)

lemma str_index_char: "c \<notin> set a \<Longrightarrow> str_index (a @ c # b) [c] = Some (length a)"
  by (induction a) (auto simp: has_prefix_def)

lemma str_split_none: "c \<notin> set s \<Longrightarrow> str_split [c] s = [s]"
  using str_index_None_char [of s c] by (subst str_split.simps) simp

lemma str_split_char: "c \<notin> set a \<Longrightarrow> str_split [c] (a @ c # b) = a # str_split [c] b"
  by (subst str_split.simps) (simp add: str_index_char)

lemma str_split_join:
  "xs \<noteq> [] \<Longrightarrow> \<forall>x \<in> set xs. c \<notin> set x \<Longrightarrow> str_split [c] (join_strs [c] xs) = xs"
  by (induction "[c]" xs rule: join_strs.induct) (simp_all add: str_split_none str_split_char)

lemma str_index_absent: "c \<notin> set s \<Longrightarrow> str_index s (c # p) = None"
  by (induction s) (auto simp: has_prefix_def)

lemma replace_all_absent: "c \<notin> set s \<Longrightarrow> replace_all s (c # p) t = s"
  unfolding replace_all_def by (subst str_split.simps) (simp add: str_index_absent)

text \<open>A text without spaces at its ends is left alone.\<close>

definition no_outer_space :: "string \<Rightarrow> bool" where
  "no_outer_space s = (s = [] \<or> \<not> rune_is_space (fst (hd (segments s))) \<and> \<not> rune_is_space (fst (last (segments s))))"

lemma segments_Nil [simp]: "segments s = [] \<longleftrightarrow> s = []"
  by (cases s) (simp_all add: segments.simps(2) Let_def)

lemma trim_space_id: "no_outer_space s \<Longrightarrow> trim_space s = s"
proof -
  assume a: "no_outer_space s"
  show ?thesis
  proof (cases "s = []")
    case False
    then have n: "segments s \<noteq> []" by simp
    have h: "dropWhile (\<lambda>x. rune_is_space (fst x)) (segments s) = segments s"
      using a False n by (cases "segments s") (auto simp: no_outer_space_def)
    have "dropWhile (\<lambda>x. rune_is_space (fst x)) (rev (segments s)) = rev (segments s)"
      using a False n by (cases "segments s" rule: rev_cases) (auto simp: no_outer_space_def)
    then show ?thesis by (simp add: trim_space_def trim_segments_def h segments_bytes)
  qed (simp add: trim_space_def trim_segments_def)
qed

text \<open>Decoding starts afresh at an ASCII byte.\<close>

lemma rune_width_length: "rune_width bs \<le> length bs"
  by (cases bs) (auto simp: rune_width.simps split: list.splits)

lemma rune_width_append: "xs \<noteq> [] \<Longrightarrow> c < 128 \<Longrightarrow> rune_width (xs @ c # ys) = rune_width xs"
proof (cases xs)
  case (Cons a r)
  assume c: "c < 128"
  then show ?thesis
    by (cases r rule: remdups_adj.cases; cases "tl (tl r)")
      (auto simp: Cons rune_width.simps cont_byte_def split: list.splits)
qed simp

lemma segments_step: "s \<noteq> [] \<Longrightarrow> segments s =
    (let w = rune_width (map of_char s) in
     if w = 0 then (65533, [hd s]) # segments (tl s)
     else (rune_value (map of_char (take w s)), take w s) # segments (drop w s))"
  by (cases s) (simp_all add: segments.simps(2) Let_def)

lemma segments_append:
  "(of_char c :: nat) < 128 \<Longrightarrow> segments (a @ c # b) = segments a @ segments (c # b)"
proof (induction a rule: segments.induct)
  case (2 d a)
  define s where "s = d # a"
  let ?w = "rune_width (map of_char s)"
  have w: "rune_width (map of_char (s @ c # b)) = ?w"
    using rune_width_append [of "map of_char s" "of_char c"] 2(3) by (simp add: s_def)
  have l: "?w \<le> length s" using rune_width_length [of "map of_char s"] by simp
  have s: "s \<noteq> []" "hd s = d" "tl s = a" by (simp_all add: s_def)
  have "segments (s @ c # b) = segments s @ segments (c # b)"
  proof (cases "?w = 0")
    case True
    then show ?thesis using 2 w s by (simp add: segments_step [of s] segments_step [of "d # a @ c # b"] segments_step [of "d # a"] s_def)
  next
    case False
    then have "segments (drop ?w s @ c # b) = segments (drop ?w s) @ segments (c # b)"
      using 2 by (simp add: s_def)
    then show ?thesis using False w l s by (simp add: segments_step [of s] segments_step [of "s @ c # b"] Let_def)
  qed
  then show ?case by (simp add: s_def)
qed simp

lemma no_outer_space_join:
  "(of_char c :: nat) < 128 \<Longrightarrow> \<not> rune_is_space (of_char c) \<Longrightarrow> no_outer_space a \<Longrightarrow> no_outer_space b \<Longrightarrow>
   no_outer_space (a @ c # b)"
  by (cases "a = []"; cases "b = []") (simp_all add: no_outer_space_def segments_append segments_ascii_Cons)

subsection \<open>Encoding what was decoded\<close>

definition scalar :: "nat \<Rightarrow> bool" where
  "scalar r = (r \<le> 1114111 \<and> \<not> (55296 \<le> r \<and> r \<le> 57343))"

lemma of_char_of_small: "n < 256 \<Longrightarrow> (of_char (char_of (n :: nat)) :: nat) = n"
  by simp

lemma sixty_four:
  fixes r :: nat
  obtains p n m where "r = 4096 * p + 64 * n + m" "n < 64" "m < 64" "r div 4096 = p" "r div 64 mod 64 = n" "r mod 64 = m"
proof
  have "r div 4096 = r div 64 div 64" using div_mult2_eq [of r 64 64] by simp
  then show "r = 4096 * (r div 4096) + 64 * (r div 64 mod 64) + r mod 64"
    using mult_div_mod_eq [of 64 r] mult_div_mod_eq [of 64 "r div 64"] by linarith
qed simp_all

lemma encode_width:
  "scalar r \<Longrightarrow> rune_width (map of_char (encode_rune r @ s)) = length (encode_rune r) \<and>
     rune_value (map of_char (encode_rune r)) = r \<and> encode_rune r \<noteq> []"
proof -
  assume r: "scalar r"
  obtain p n m where d: "r = 4096 * p + 64 * n + m" "n < 64" "m < 64"
    and e: "r div 4096 = p" "r div 64 mod 64 = n" "r mod 64 = m" by (rule sixty_four)
  consider "r < 128" | "128 \<le> r" "r < 2048" | "2048 \<le> r" "r < 65536" | "65536 \<le> r" by linarith
  then show ?thesis
  proof cases
    case 1
    then show ?thesis by (simp add: encode_rune_def rune_width.simps)
  next
    case 2
    then have "2 \<le> r div 64" "r div 64 < 32" by (simp_all add: less_eq_div_iff_mult_less_eq less_mult_imp_div_less)
    then show ?thesis using 2
      by (simp add: encode_rune_def rune_width.simps cont_byte_def)
  next
    case 3
    have h: "p < 16" "p = 0 \<longrightarrow> 32 \<le> n" "p = 13 \<longrightarrow> n \<le> 31" using d 3 r by (auto simp: scalar_def)
    show ?thesis using 3 r h d(2,3)
      by (simp add: encode_rune_def e rune_width.simps cont_byte_def scalar_def) (simp add: d(1))
  next
    case 4
    have r': "r \<le> 1114111" using r by (simp add: scalar_def)
    obtain a b where p: "p = 64 * a + b" "b < 64" "p div 64 = a" "p mod 64 = b"
      by (metis mult_div_mod_eq mod_less_divisor zero_less_numeral)
    have a: "r div 262144 = a" using div_mult2_eq [of r 4096 64] e(1) p(3) by simp
    have h: "a \<le> 4" "a = 0 \<longrightarrow> 16 \<le> b" "a = 4 \<longrightarrow> b \<le> 15" using d p(1) 4 r' by auto
    show ?thesis using 4 r h d(2,3) p(2)
      by (simp add: encode_rune_def e a p(4) rune_width.simps cont_byte_def scalar_def) (simp add: d(1) p(1))
  qed
qed

lemma segments_encode: "scalar r \<Longrightarrow> segments (encode_rune r @ s) = (r, encode_rune r) # segments s"
  using encode_width [of r s] by (simp add: segments_step [of "encode_rune r @ s"] Let_def)

text \<open>Decoding reads back what was encoded.\<close>

lemma runes_of_string: "list_all scalar rs \<Longrightarrow> runes (string_of_runes rs) = rs"
  by (induction rs) (simp_all add: string_of_runes_def runes_def segments_encode)

lemma runes_of_string_append: "list_all scalar rs \<Longrightarrow> runes (string_of_runes rs @ s) = rs @ runes s"
  by (induction rs) (simp_all add: string_of_runes_def runes_def segments_encode)

text \<open>A decoded rune can be encoded.\<close>

lemma rune_value_scalar: "rune_width bs \<noteq> 0 \<Longrightarrow> scalar (rune_value (take (rune_width bs) bs))"
proof (cases bs)
  case (Cons a r)
  assume w: "rune_width bs \<noteq> 0"
  consider "a < 128" | "194 \<le> a" "a \<le> 223" | "224 \<le> a" "a \<le> 239" | "240 \<le> a" "a \<le> 244"
    | "128 \<le> a" "a < 194" | "244 < a" by linarith
  then show ?thesis
  proof cases
    case 2
    then show ?thesis using w
      by (auto simp: Cons rune_width.simps cont_byte_def scalar_def split: list.splits if_splits)
  next
    case 3
    then show ?thesis using w
      by (auto simp: Cons rune_width.simps cont_byte_def scalar_def split: list.splits if_splits)
  next
    case 4
    then show ?thesis using w
      by (auto simp: Cons rune_width.simps cont_byte_def scalar_def split: list.splits if_splits)
  qed (use w in \<open>auto simp: Cons rune_width.simps scalar_def\<close>)
qed (simp add: rune_width.simps)

lemma runes_scalar: "list_all scalar (runes s)"
proof (induction s rule: segments.induct)
  case (2 c s)
  define t where "t = c # s"
  then have t: "t \<noteq> []" "tl t = s" by simp_all
  have "list_all scalar (runes t)"
  proof (cases "rune_width (map of_char t) = 0")
    case True
    then show ?thesis using 2(1) t by (simp add: t_def runes_def segments_step [of "c # s"] Let_def) (simp add: scalar_def)
  next
    case False
    then have "list_all scalar (runes (drop (rune_width (map of_char t)) t))" using 2(2) by (simp add: t_def)
    then show ?thesis using rune_value_scalar [OF False] False t
      by (simp add: runes_def segments_step [of t] Let_def take_map)
  qed
  then show ?case by (simp add: t_def)
qed (simp add: runes_def)

text \<open>\<open>utf8.ValidString\<close>: re-encoding the runes gives the bytes.\<close>

definition valid_utf8 :: "string \<Rightarrow> bool" where
  "valid_utf8 s = (string_of_runes (runes s) = s)"

lemma ascii_valid_utf8: "ascii s \<Longrightarrow> valid_utf8 s"
  unfolding valid_utf8_def by (simp add: runes_ascii) (induction s, simp_all add: ascii_def string_of_runes_def encode_rune_def)

lemma valid_utf8_of_runes: "list_all scalar rs \<Longrightarrow> valid_utf8 (string_of_runes rs)"
  by (simp add: valid_utf8_def runes_of_string)

end
