(* ===== verification/GoRegexp.thy ===== *)
theory GoRegexp
  imports GoStrings
begin

text \<open>
  Package regexp for the patterns the sources write down: \<open>MatchString\<close> of an anchored
  pattern as a matcher by derivatives over the runes of the text, and the language the
  pattern denotes. The two agree for every pattern (\<open>re_match_lang\<close>), so a validator is
  reasoned about through its language and evaluated through the matcher.
\<close>

subsection \<open>Patterns and their languages\<close>

text \<open>A class is a list of rune ranges, negated or not.\<close>

datatype re = RNone | REps | RCls bool "(nat \<times> nat) list" | RSeq re re | RAlt re re | RStar re

definition in_class :: "bool \<Rightarrow> (nat \<times> nat) list \<Rightarrow> nat \<Rightarrow> bool" where
  "in_class neg rs c = (neg \<noteq> list_ex (\<lambda>(a, b). a \<le> c \<and> c \<le> b) rs)"

inductive_set star_lang :: "nat list set \<Rightarrow> nat list set" for A where
  star_Nil: "[] \<in> star_lang A"
| star_app: "u \<in> A \<Longrightarrow> v \<in> star_lang A \<Longrightarrow> u @ v \<in> star_lang A"

definition conc :: "nat list set \<Rightarrow> nat list set \<Rightarrow> nat list set" where
  "conc A B = {u @ v | u v. u \<in> A \<and> v \<in> B}"

primrec lang :: "re \<Rightarrow> nat list set" where
  "lang RNone = {}"
| "lang REps = {[]}"
| "lang (RCls neg rs) = {[c] | c. in_class neg rs c}"
| "lang (RSeq r s) = conc (lang r) (lang s)"
| "lang (RAlt r s) = lang r \<union> lang s"
| "lang (RStar r) = star_lang (lang r)"

subsection \<open>The matcher\<close>

primrec nullable :: "re \<Rightarrow> bool" where
  "nullable RNone = False"
| "nullable REps = True"
| "nullable (RCls neg rs) = False"
| "nullable (RSeq r s) = (nullable r \<and> nullable s)"
| "nullable (RAlt r s) = (nullable r \<or> nullable s)"
| "nullable (RStar r) = True"

text \<open>Sequences and alternatives that drop what cannot match, to keep derivatives small.\<close>

fun mk_seq :: "re \<Rightarrow> re \<Rightarrow> re" where
  "mk_seq RNone s = RNone"
| "mk_seq REps s = s"
| "mk_seq r s = RSeq r s"

fun mk_alt :: "re \<Rightarrow> re \<Rightarrow> re" where
  "mk_alt RNone s = s"
| "mk_alt r RNone = r"
| "mk_alt r s = RAlt r s"

primrec deriv :: "nat \<Rightarrow> re \<Rightarrow> re" where
  "deriv c RNone = RNone"
| "deriv c REps = RNone"
| "deriv c (RCls neg rs) = (if in_class neg rs c then REps else RNone)"
| "deriv c (RSeq r s) = (if nullable r then mk_alt (mk_seq (deriv c r) s) (deriv c s) else mk_seq (deriv c r) s)"
| "deriv c (RAlt r s) = mk_alt (deriv c r) (deriv c s)"
| "deriv c (RStar r) = mk_seq (deriv c r) (RStar r)"

definition re_match :: "re \<Rightarrow> nat list \<Rightarrow> bool" where
  "re_match r w = nullable (fold deriv w r)"

lemma concI: "u \<in> A \<Longrightarrow> v \<in> B \<Longrightarrow> u @ v \<in> conc A B"
  by (auto simp: conc_def)

lemma conc_Cons: "c # w \<in> conc A B \<longleftrightarrow> (\<exists>u v. c # u \<in> A \<and> v \<in> B \<and> w = u @ v) \<or> [] \<in> A \<and> c # w \<in> B"
proof
  assume "c # w \<in> conc A B"
  then obtain u v where uv: "c # w = u @ v" "u \<in> A" "v \<in> B" by (auto simp: conc_def)
  then show "(\<exists>u v. c # u \<in> A \<and> v \<in> B \<and> w = u @ v) \<or> [] \<in> A \<and> c # w \<in> B"
    by (cases u) auto
next
  assume "(\<exists>u v. c # u \<in> A \<and> v \<in> B \<and> w = u @ v) \<or> [] \<in> A \<and> c # w \<in> B"
  then show "c # w \<in> conc A B"
    by (metis append_Cons append_Nil concI)
qed

lemma star_Cons: "c # w \<in> star_lang A \<longleftrightarrow> (\<exists>u v. c # u \<in> A \<and> v \<in> star_lang A \<and> w = u @ v)"
proof
  have "x \<in> star_lang A \<Longrightarrow> x = c # w \<Longrightarrow> \<exists>u v. c # u \<in> A \<and> v \<in> star_lang A \<and> w = u @ v" for x
  proof (induction rule: star_lang.induct)
    case (star_app u v)
    then show ?case by (cases u) auto
  qed simp
  then show "c # w \<in> star_lang A \<Longrightarrow> \<exists>u v. c # u \<in> A \<and> v \<in> star_lang A \<and> w = u @ v" by blast
next
  assume "\<exists>u v. c # u \<in> A \<and> v \<in> star_lang A \<and> w = u @ v"
  then show "c # w \<in> star_lang A" by (metis append_Cons star_app)
qed

lemma lang_mk_seq: "lang (mk_seq r s) = conc (lang r) (lang s)"
  by (cases "(r, s)" rule: mk_seq.cases) (auto simp: conc_def)

lemma lang_mk_alt: "lang (mk_alt r s) = lang r \<union> lang s"
  by (cases "(r, s)" rule: mk_alt.cases) auto

lemma nullable_lang: "nullable r \<longleftrightarrow> [] \<in> lang r"
  by (induction r) (auto simp: conc_def intro: star_Nil)

lemma deriv_lang: "w \<in> lang (deriv c r) \<longleftrightarrow> c # w \<in> lang r"
proof (induction r arbitrary: w)
  case (RSeq r s)
  have "w \<in> conc (lang (deriv c r)) (lang s) \<longleftrightarrow> (\<exists>u v. c # u \<in> lang r \<and> v \<in> lang s \<and> w = u @ v)"
    using RSeq.IH(1) by (auto simp: conc_def)
  then show ?case
    using RSeq.IH(2) by (auto simp: lang_mk_seq lang_mk_alt conc_Cons nullable_lang)
next
  case (RStar r)
  then show ?case by (auto simp: lang_mk_seq star_Cons conc_def)
qed (auto simp: lang_mk_alt)

text \<open>The matcher decides the language.\<close>

lemma re_match_lang: "re_match r w \<longleftrightarrow> w \<in> lang r"
  unfolding re_match_def by (induction w arbitrary: r) (simp_all add: nullable_lang deriv_lang)

subsection \<open>Abbreviated patterns\<close>

definition re_any :: "(nat \<times> nat) list \<Rightarrow> re" where
  "re_any rs = RCls False rs"

definition re_chr :: "char \<Rightarrow> re" where
  "re_chr c = RCls False [(of_char c, of_char c)]"

fun re_seqs :: "re list \<Rightarrow> re" where
  "re_seqs [] = REps"
| "re_seqs [r] = r"
| "re_seqs (r # rs) = RSeq r (re_seqs rs)"

fun re_alts :: "re list \<Rightarrow> re" where
  "re_alts [] = RNone"
| "re_alts [r] = r"
| "re_alts (r # rs) = RAlt r (re_alts rs)"

definition re_lit :: "string \<Rightarrow> re" where
  "re_lit s = re_seqs (map re_chr s)"

definition re_opt :: "re \<Rightarrow> re" where
  "re_opt r = RAlt r REps"

definition re_plus :: "re \<Rightarrow> re" where
  "re_plus r = RSeq r (RStar r)"

text \<open>\<open>r{n}\<close>, \<open>r{n,m}\<close> and \<open>r{n,}\<close>.\<close>

fun re_times :: "nat \<Rightarrow> re \<Rightarrow> re" where
  "re_times 0 r = REps"
| "re_times (Suc n) r = RSeq r (re_times n r)"

fun re_upto :: "nat \<Rightarrow> re \<Rightarrow> re" where
  "re_upto 0 r = REps"
| "re_upto (Suc n) r = RAlt REps (RSeq r (re_upto n r))"

definition re_range :: "nat \<Rightarrow> nat \<Rightarrow> re \<Rightarrow> re" where
  "re_range n m r = RSeq (re_times n r) (re_upto (m - n) r)"

definition re_least :: "nat \<Rightarrow> re \<Rightarrow> re" where
  "re_least n r = RSeq (re_times n r) (RStar r)"

definition digits :: "(nat \<times> nat) list" where "digits = [(48, 57)]"
definition uppers :: "(nat \<times> nat) list" where "uppers = [(65, 90)]"
definition lowers :: "(nat \<times> nat) list" where "lowers = [(97, 122)]"

definition re_digit :: re where
  "re_digit = re_any digits"

text \<open>\<open>^r$\<close> on a string, and an unanchored class.\<close>

definition full_match :: "re \<Rightarrow> string \<Rightarrow> bool" where
  "full_match r s = re_match r (runes s)"

definition has_class :: "(nat \<times> nat) list \<Rightarrow> string \<Rightarrow> bool" where
  "has_class rs s = list_ex (in_class False rs) (runes s)"

lemma lang_class_times:
  "w \<in> lang (re_times n (RCls neg rs)) \<longleftrightarrow> length w = n \<and> list_all (in_class neg rs) w"
proof (induction n arbitrary: w)
  case (Suc n)
  show ?case
  proof (cases w)
    case (Cons c v)
    then show ?thesis using Suc by (auto simp: conc_Cons)
  qed (auto simp: conc_def)
qed auto

lemma lang_class_upto:
  "w \<in> lang (re_upto n (RCls neg rs)) \<longleftrightarrow> length w \<le> n \<and> list_all (in_class neg rs) w"
proof (induction n arbitrary: w)
  case (Suc n)
  show ?case
  proof (cases w)
    case (Cons c v)
    then show ?thesis using Suc by (auto simp: conc_Cons)
  qed (auto simp: conc_def)
qed auto

lemma lang_class_star: "w \<in> lang (RStar (RCls neg rs)) \<longleftrightarrow> list_all (in_class neg rs) w"
proof (induction w)
  case Nil
  then show ?case by (simp add: star_Nil)
next
  case (Cons c v)
  then show ?case by (auto simp: star_Cons)
qed

lemma lang_class_range:
  "n \<le> m \<Longrightarrow> w \<in> lang (re_range n m (RCls neg rs)) \<longleftrightarrow>
     n \<le> length w \<and> length w \<le> m \<and> list_all (in_class neg rs) w"
proof
  assume nm: "n \<le> m"
  show "w \<in> lang (re_range n m (RCls neg rs)) \<Longrightarrow> n \<le> length w \<and> length w \<le> m \<and> list_all (in_class neg rs) w"
    using nm by (auto simp: re_range_def conc_def lang_class_times lang_class_upto)
  assume a: "n \<le> length w \<and> length w \<le> m \<and> list_all (in_class neg rs) w"
  then have "take n w \<in> lang (re_times n (RCls neg rs))" "drop n w \<in> lang (re_upto (m - n) (RCls neg rs))"
    by (auto simp: lang_class_times lang_class_upto list_all_iff dest: in_set_takeD in_set_dropD)
  then show "w \<in> lang (re_range n m (RCls neg rs))"
    using concI by (fastforce simp: re_range_def)
qed

end
