(* ===== verification/Validators.thy ===== *)
theory Validators
  imports GoRegexp Numbers
begin

text \<open>
  tools/tag/validate.go: the validators of values. A validator is a value of
  \<open>validator\<close> (one constructor per Go type), \<open>validate\<close> its method, an answer None the nil
  error. Patterns written in the source are translated to \<open>re\<close>; a pattern given by the user,
  \<open>time.Parse\<close>, \<open>json.Unmarshal\<close> and \<open>strconv.ParseFloat\<close> are in the environment.
\<close>

subsection \<open>Values\<close>

text \<open>The dynamic types the code tells apart. \<open>TAnys\<close> is \<open>[]interface{}\<close>, \<open>TSlice\<close> any other slice
  or array, with its elements; numbers carry their value, floats are rationals.\<close>

datatype tval =
    TNil | TString string | TStrings "string list" | TAnys "tval list" | TSlice "tval list"
  | TInt int | TInt8 int | TInt16 int | TInt32 int | TInt64 int
  | TUint int | TUint8 int | TUint16 int | TUint32 int | TUint64 int
  | TFloat32 rat | TFloat64 rat | TBool bool | TOther

text \<open>The elements \<open>reflect\<close> sees in a slice or array.\<close>

fun slice_elems :: "tval \<Rightarrow> tval list option" where
  "slice_elems (TStrings ss) = Some (map TString ss)"
| "slice_elems (TAnys vs) = Some vs"
| "slice_elems (TSlice vs) = Some vs"
| "slice_elems _ = None"

record venv =
  ve_regexp :: "string \<Rightarrow> (string \<Rightarrow> bool) option"
  ve_time_parse :: "string \<Rightarrow> string \<Rightarrow> bool"
  ve_json :: "string \<Rightarrow> bool"
  ve_parse_float :: "string \<Rightarrow> bool"
  ve_float_int :: "rat \<Rightarrow> int"

type_synonym verdict = "string option outcome"

abbreviation valid :: verdict where
  "valid \<equiv> Done None"

abbreviation invalid :: "string \<Rightarrow> verdict" where
  "invalid m \<equiv> Done (Some m)"

definition check :: "bool \<Rightarrow> string \<Rightarrow> verdict" where
  "check ok m = (if ok then valid else invalid m)"

subsection \<open>Formats\<close>

definition is_valid_email :: "string \<Rightarrow> bool" where
  "is_valid_email = full_match (re_seqs
     [re_plus (re_any (lowers @ uppers @ digits @ [(46, 46), (95, 95), (37, 37), (43, 43), (45, 45)])), re_chr CHR ''@'',
      re_plus (re_any (lowers @ uppers @ digits @ [(46, 46), (45, 45)])), re_chr CHR ''.'',
      re_least 2 (re_any (lowers @ uppers))])"

text \<open>\<open>\s\<close> is tab, newline, form feed, carriage return and space; \<open>.\<close> is all but newline.\<close>

definition re_spaces :: "(nat \<times> nat) list" where
  "re_spaces = [(9, 10), (12, 13), (32, 32)]"

definition is_valid_url :: "string \<Rightarrow> bool" where
  "is_valid_url = full_match (re_seqs
     [re_lit ''http'', re_opt (re_chr CHR ''s''), re_lit ''://'',
      RCls True (re_spaces @ [(47, 47), (36, 36), (46, 46), (63, 63), (35, 35)]), RCls True [(10, 10)],
      RStar (RCls True re_spaces)])"

definition phone_class :: "(nat \<times> nat) list" where
  "phone_class = digits @ re_spaces @ [(45, 45), (43, 43), (40, 41)]"

definition is_valid_phone :: "string \<Rightarrow> bool" where
  "is_valid_phone phone = (full_match (re_plus (re_any phone_class)) phone \<and>
     length (replace_all phone ''[^0-9]'' []) \<ge> 10)"

definition is_valid_date :: "venv \<Rightarrow> string \<Rightarrow> bool" where
  "is_valid_date v s = ve_time_parse v ''2006-01-02'' s"

definition is_valid_datetime :: "venv \<Rightarrow> string \<Rightarrow> bool" where
  "is_valid_datetime v s = (ve_time_parse v ''2006-01-02T15:04:05Z07:00'' s \<or> ve_time_parse v ''2006-01-02 15:04:05'' s)"

definition re_hex :: re where
  "re_hex = re_any (digits @ [(97, 102), (65, 70)])"

definition is_valid_uuid :: "string \<Rightarrow> bool" where
  "is_valid_uuid = full_match (re_seqs
     [re_times 8 re_hex, re_chr CHR ''-'', re_times 4 re_hex, re_chr CHR ''-'', re_times 4 re_hex, re_chr CHR ''-'',
      re_times 4 re_hex, re_chr CHR ''-'', re_times 12 re_hex])"

definition re_octet :: re where
  "re_octet = re_alts
     [re_seqs [re_lit ''25'', re_any [(48, 53)]],
      re_seqs [re_lit ''2'', re_any [(48, 52)], re_digit],
      re_seqs [re_opt (re_any [(48, 49)]), re_digit, re_opt re_digit]]"

definition re_ipv4 :: re where
  "re_ipv4 = RSeq (re_times 3 (RSeq re_octet (re_chr CHR ''.''))) re_octet"

definition is_valid_ipv4 :: "string \<Rightarrow> bool" where
  "is_valid_ipv4 = full_match re_ipv4"

definition is_valid_ipv6 :: "string \<Rightarrow> bool" where
  "is_valid_ipv6 = full_match (RSeq (re_times 7 (RSeq (re_range 1 4 re_hex) (re_chr CHR '':''))) (re_range 1 4 re_hex))"

definition is_valid_ip :: "string \<Rightarrow> bool" where
  "is_valid_ip ip = (is_valid_ipv4 ip \<or> is_valid_ipv6 ip)"

definition is_telephone :: "string \<Rightarrow> bool" where
  "is_telephone = full_match (re_seqs [re_range 3 4 re_digit, re_opt (re_chr CHR ''-''), re_range 7 8 re_digit])"

definition is_passport :: "string \<Rightarrow> bool" where
  "is_passport = full_match (RSeq (re_any (lowers @ uppers)) (re_range 5 17 (re_any (lowers @ uppers @ digits))))"

definition is_postcode :: "string \<Rightarrow> bool" where
  "is_postcode = full_match (re_times 6 re_digit)"

definition is_resident_id :: "string \<Rightarrow> bool" where
  "is_resident_id = full_match (re_seqs
     [re_any [(49, 57)], re_times 5 re_digit, RAlt (re_lit ''19'') (re_lit ''20''), re_times 2 re_digit,
      RAlt (RSeq (re_chr CHR ''0'') (re_any [(49, 57)])) (RSeq (re_chr CHR ''1'') (re_any [(48, 50)])),
      re_alts [RSeq (re_chr CHR ''0'') (re_any [(49, 57)]), RSeq (re_any [(49, 50)]) re_digit,
               RSeq (re_chr CHR ''3'') (re_any [(48, 49)])],
      re_times 3 re_digit, re_any (digits @ [(88, 88), (120, 120)])])"

definition is_bank_card :: "string \<Rightarrow> bool" where
  "is_bank_card = full_match (re_range 16 19 re_digit)"

definition is_qq :: "string \<Rightarrow> bool" where
  "is_qq = full_match (RSeq (re_any [(49, 57)]) (re_range 4 12 re_digit))"

definition is_mac :: "string \<Rightarrow> bool" where
  "is_mac = full_match (RSeq (re_times 5 (RSeq (re_times 2 re_hex) (re_any [(58, 58), (45, 45)]))) (re_times 2 re_hex))"

definition is_domain :: "string \<Rightarrow> bool" where
  "is_domain = full_match (re_seqs
     [re_any (lowers @ uppers @ digits), RStar (re_any (lowers @ uppers @ digits @ [(45, 45), (46, 46)])),
      re_any (lowers @ uppers @ digits)])"

text \<open>The special characters of a strong password: \<open>! @ # $ % ^ & * ( ) _ + - = [ ] { } ; ' : " \ | , . < > / ?\<close>.\<close>

definition specials :: "(nat \<times> nat) list" where
  "specials = [(33, 33), (64, 64), (35, 38), (94, 94), (42, 42), (40, 41), (95, 95), (43, 43), (45, 45), (61, 61), (91, 91), (93, 93),
     (123, 123), (125, 125), (59, 59), (39, 39), (58, 58), (34, 34), (92, 92), (124, 124), (44, 44), (46, 46), (60, 60),
     (62, 62), (47, 47), (63, 63)]"

subsection \<open>Validators\<close>

datatype required_rule =
    RequiredIf string tval | RequiredUnless string tval | RequiredWith "string list" | RequiredWithAll "string list"
  | RequiredWithout "string list" | RequiredWithoutAll "string list"

datatype order_rule = Before string | BeforeEqual string | After string | AfterEqual string

datatype equal_rule = Same string | Different string

record validation_options =
  vo_case_insensitive :: bool
  vo_bail_early :: bool
  vo_for_each :: bool

datatype validator =
    VOptions validator validation_options | VRequired | VRequiredRule required_rule | VOrderRule order_rule
  | VEqualRule equal_rule | VMin int | VMax int | VLength int
  | VPattern string | VDate | VDateTime | VDateFormat string | VFormat string | VArray | VEnums "string list" | VEmail
  | VPhone | VPhoneLoose | VTelephone | VPassport | VPassword | VPassword2 | VPassword3 | VPostcode | VResidentID
  | VBankCard | VQQ | VEnum "string list" | VIP | VIPv4 | VIPv6 | VMAC | VURL | VDomain | VSize int | VBetween int int
  | VIn "string list" | VNotIn "string list" | VJSON | VInteger | VFloat | VBoolean | VString | VNumber
  | VRegex string | VNotRegex string

text \<open>The shape most string validators share: nil passes, the empty string fails, and so does
  what is no string.\<close>

definition string_rule :: "tval \<Rightarrow> string \<Rightarrow> string \<Rightarrow> (string \<Rightarrow> verdict) \<Rightarrow> verdict" where
  "string_rule x empty_msg type_msg test =
     (case x of
        TNil \<Rightarrow> valid
      | TString s \<Rightarrow> if s = [] then invalid empty_msg else test s
      | _ \<Rightarrow> invalid type_msg)"

definition format_rule :: "tval \<Rightarrow> string \<Rightarrow> (string \<Rightarrow> bool) \<Rightarrow> verdict" where
  "format_rule x msg test = string_rule x msg ''value must be a string'' (\<lambda>s. check (test s) msg)"

definition required :: "tval \<Rightarrow> verdict" where
  "required x = check (case x of
     TNil \<Rightarrow> False | TString s \<Rightarrow> trim_space s \<noteq> [] | TStrings l \<Rightarrow> l \<noteq> [] | TAnys l \<Rightarrow> l \<noteq> [] | TSlice l \<Rightarrow> True
   | TInt n \<Rightarrow> n \<noteq> 0 | TInt8 n \<Rightarrow> n \<noteq> 0 | TInt16 n \<Rightarrow> n \<noteq> 0 | TInt32 n \<Rightarrow> n \<noteq> 0 | TInt64 n \<Rightarrow> n \<noteq> 0
   | TUint n \<Rightarrow> n \<noteq> 0 | TUint8 n \<Rightarrow> n \<noteq> 0 | TUint16 n \<Rightarrow> n \<noteq> 0 | TUint32 n \<Rightarrow> n \<noteq> 0 | TUint64 n \<Rightarrow> n \<noteq> 0
   | TFloat32 q \<Rightarrow> q \<noteq> 0 | TFloat64 q \<Rightarrow> q \<noteq> 0 | TBool b \<Rightarrow> b | TOther \<Rightarrow> True) ''value is required''"

text \<open>\<open>uint8(v.Min)\<close> and the like keep the low bits. Floats are compared exactly: the bounds an
  application writes down are far below 2 ^ 53.\<close>

definition low_bits :: "nat \<Rightarrow> int \<Rightarrow> int" where
  "low_bits w n = n mod 2 ^ w"

definition min_ok :: "int \<Rightarrow> tval \<Rightarrow> bool" where
  "min_ok m x = (case x of
     TInt n \<Rightarrow> \<not> n < m | TInt8 n \<Rightarrow> \<not> n < m | TInt16 n \<Rightarrow> \<not> n < m | TInt32 n \<Rightarrow> \<not> n < m | TInt64 n \<Rightarrow> \<not> n < m
   | TUint n \<Rightarrow> \<not> n < low_bits 64 m
   | TUint8 n \<Rightarrow> \<not> (m < 0 \<or> n < low_bits 8 m) | TUint16 n \<Rightarrow> \<not> (m < 0 \<or> n < low_bits 16 m)
   | TUint32 n \<Rightarrow> \<not> (m < 0 \<or> n < low_bits 32 m) | TUint64 n \<Rightarrow> \<not> (m < 0 \<or> n < low_bits 64 m)
   | TFloat32 q \<Rightarrow> \<not> q < of_int m | TFloat64 q \<Rightarrow> \<not> q < of_int m
   | TString s \<Rightarrow> \<not> int (length s) < m | _ \<Rightarrow> True)"

definition max_ok :: "int \<Rightarrow> tval \<Rightarrow> bool" where
  "max_ok m x = (case x of
     TInt n \<Rightarrow> \<not> n > m | TInt8 n \<Rightarrow> \<not> n > m | TInt16 n \<Rightarrow> \<not> n > m | TInt32 n \<Rightarrow> \<not> n > m | TInt64 n \<Rightarrow> \<not> n > m
   | TUint n \<Rightarrow> \<not> n > low_bits 64 m
   | TUint8 n \<Rightarrow> \<not> (m < 0 \<or> n > low_bits 8 m) | TUint16 n \<Rightarrow> \<not> (m < 0 \<or> n > low_bits 16 m)
   | TUint32 n \<Rightarrow> \<not> (m < 0 \<or> n > low_bits 32 m) | TUint64 n \<Rightarrow> \<not> (m < 0 \<or> n > low_bits 64 m)
   | TFloat32 q \<Rightarrow> \<not> q > of_int m | TFloat64 q \<Rightarrow> \<not> q > of_int m
   | TString s \<Rightarrow> \<not> int (length s) > m | _ \<Rightarrow> True)"

definition bound_msg :: "tval \<Rightarrow> string \<Rightarrow> int \<Rightarrow> string" where
  "bound_msg x rel m = (case x of TString s \<Rightarrow> ''value length must be '' | _ \<Rightarrow> ''value must be '') @ rel @ dec_of m"

subsection \<open>The Validate methods\<close>

definition validate_required :: "tval \<Rightarrow> verdict" where
  "validate_required x = required x"

text \<open>The validators that would compare with other fields accept everything.\<close>

definition validate_required_rule :: "required_rule \<Rightarrow> tval \<Rightarrow> verdict" where
  "validate_required_rule r x = (case r of
     RequiredIf f v \<Rightarrow> valid | RequiredUnless f v \<Rightarrow> valid | RequiredWith fs \<Rightarrow> valid
   | RequiredWithAll fs \<Rightarrow> valid | RequiredWithout fs \<Rightarrow> valid | RequiredWithoutAll fs \<Rightarrow> valid)"

definition validate_order_rule :: "order_rule \<Rightarrow> tval \<Rightarrow> verdict" where
  "validate_order_rule r x =
     (case r of Before f \<Rightarrow> valid | BeforeEqual f \<Rightarrow> valid | After f \<Rightarrow> valid | AfterEqual f \<Rightarrow> valid)"

definition validate_equal_rule :: "equal_rule \<Rightarrow> tval \<Rightarrow> verdict" where
  "validate_equal_rule r x = (case r of Same f \<Rightarrow> valid | Different f \<Rightarrow> valid)"

definition validate_min :: "int \<Rightarrow> tval \<Rightarrow> verdict" where
  "validate_min m x = check (min_ok m x) (bound_msg x ''at least '' m)"

definition validate_max :: "int \<Rightarrow> tval \<Rightarrow> verdict" where
  "validate_max m x = check (max_ok m x) (bound_msg x ''at most '' m)"

definition validate_length :: "int \<Rightarrow> tval \<Rightarrow> verdict" where
  "validate_length n x = (case x of
     TString s \<Rightarrow> check (int (length s) = n) (''value length must be exactly '' @ dec_of n)
   | TStrings l \<Rightarrow> check (int (length l) = n) (''array length must be exactly '' @ dec_of n)
   | _ \<Rightarrow> valid)"

text \<open>\<open>regexp.MustCompile\<close> of what does not compile; the panic's text stops where the
  package's own message begins.\<close>

definition regexp_panic :: "string \<Rightarrow> string" where
  "regexp_panic p = ''regexp: Compile('' @ p @ '')''"

text \<open>The pattern is compiled, and panics, before the type of the value is looked at.\<close>

definition validate_pattern :: "venv \<Rightarrow> string \<Rightarrow> tval \<Rightarrow> verdict" where
  "validate_pattern v p x = (if x = TNil then valid
     else (case ve_regexp v p of
         None \<Rightarrow> Panic (regexp_panic p)
       | Some m \<Rightarrow> (case x of TString s \<Rightarrow> check (m s) (''value does not match pattern '' @ p) | _ \<Rightarrow> valid)))"

definition validate_date :: "venv \<Rightarrow> tval \<Rightarrow> verdict" where
  "validate_date v x = format_rule x ''value must be a valid date'' (is_valid_date v)"

definition validate_datetime :: "venv \<Rightarrow> tval \<Rightarrow> verdict" where
  "validate_datetime v x = format_rule x ''value must be a valid datetime'' (is_valid_datetime v)"

definition validate_date_format :: "venv \<Rightarrow> string \<Rightarrow> tval \<Rightarrow> verdict" where
  "validate_date_format v f x = string_rule x ''value must be a valid date'' ''value must be a string''
     (\<lambda>s. check (ve_time_parse v f s) (''value must be a valid date in format '' @ f))"

text \<open>\<open>FormatValidator\<close>: an unknown format accepts every string.\<close>

definition validate_format :: "venv \<Rightarrow> string \<Rightarrow> tval \<Rightarrow> verdict" where
  "validate_format v f x = (case x of
     TString s \<Rightarrow>
       (if f = ''email'' then check (is_valid_email s) ''value must be a valid email address''
        else if f = ''url'' then check (is_valid_url s) ''value must be a valid URL''
        else if f = ''phone'' then check (is_valid_phone s) ''value must be a valid phone number''
        else if f = ''date'' then check (is_valid_date v s) ''value must be a valid date''
        else if f = ''datetime'' then check (is_valid_datetime v s) ''value must be a valid datetime''
        else if f = ''uuid'' then check (is_valid_uuid s) ''value must be a valid UUID''
        else if f = ''ipv4'' then check (is_valid_ipv4 s) ''value must be a valid IPv4 address''
        else if f = ''ipv6'' then check (is_valid_ipv6 s) ''value must be a valid IPv6 address''
        else if f = ''ip'' then check (is_valid_ip s) ''value must be a valid IP address''
        else valid)
   | _ \<Rightarrow> valid)"

definition validate_array :: "tval \<Rightarrow> verdict" where
  "validate_array x = (case slice_elems x of
     None \<Rightarrow> invalid ''value must be an array''
   | Some l \<Rightarrow> check (l \<noteq> []) ''array cannot be empty'')"

definition one_of_msg :: "string \<Rightarrow> string list \<Rightarrow> string" where
  "one_of_msg pre vs = pre @ join_strs '', '' vs"

definition validate_enums :: "string list \<Rightarrow> tval \<Rightarrow> verdict" where
  "validate_enums vs x = (let m = one_of_msg ''value must be one of: '' vs in
     string_rule x m ''value must be a string'' (\<lambda>s. check (s \<in> set vs) m))"

definition validate_email :: "tval \<Rightarrow> verdict" where
  "validate_email x = format_rule x ''value must be a valid email address'' is_valid_email"

definition validate_phone :: "tval \<Rightarrow> verdict" where
  "validate_phone x = format_rule x ''value must be a valid phone number'' is_valid_phone"

definition validate_phone_loose :: "tval \<Rightarrow> verdict" where
  "validate_phone_loose x = format_rule x ''value must be a valid phone number'' (has_class digits)"

definition validate_telephone :: "tval \<Rightarrow> verdict" where
  "validate_telephone x = format_rule x ''value must be a valid telephone number'' is_telephone"

definition validate_passport :: "tval \<Rightarrow> verdict" where
  "validate_passport x = format_rule x ''value must be a valid passport'' is_passport"

definition password_length :: "string \<Rightarrow> bool" where
  "password_length s = (\<not> (length s < 6 \<or> length s > 18))"

definition password_rule :: "tval \<Rightarrow> (string \<Rightarrow> verdict) \<Rightarrow> verdict" where
  "password_rule x test = string_rule x ''value must be a valid password'' ''value must be a string''
     (\<lambda>s. if password_length s then test s else invalid ''password length must be between 6 and 18'')"

definition validate_password :: "tval \<Rightarrow> verdict" where
  "validate_password x = password_rule x (\<lambda>s. valid)"

definition mixed_password :: "string \<Rightarrow> bool" where
  "mixed_password s = (has_class uppers s \<and> has_class lowers s \<and> has_class digits s)"

definition validate_password2 :: "tval \<Rightarrow> verdict" where
  "validate_password2 x = password_rule x (\<lambda>s. check (mixed_password s)
     ''password must contain uppercase letters, lowercase letters and numbers'')"

definition validate_password3 :: "tval \<Rightarrow> verdict" where
  "validate_password3 x = password_rule x (\<lambda>s. check (mixed_password s \<and> has_class specials s)
     ''password must contain uppercase letters, lowercase letters, numbers and special characters'')"

definition validate_postcode :: "tval \<Rightarrow> verdict" where
  "validate_postcode x = format_rule x ''value must be a valid postcode'' is_postcode"

definition validate_resident_id :: "tval \<Rightarrow> verdict" where
  "validate_resident_id x = format_rule x ''value must be a valid resident ID'' is_resident_id"

definition validate_bank_card :: "tval \<Rightarrow> verdict" where
  "validate_bank_card x = format_rule x ''value must be a valid bank card number'' is_bank_card"

definition validate_qq :: "tval \<Rightarrow> verdict" where
  "validate_qq x = format_rule x ''value must be a valid QQ number'' is_qq"

definition validate_ip :: "tval \<Rightarrow> verdict" where
  "validate_ip x = format_rule x ''value must be a valid IP address'' is_valid_ip"

definition validate_ipv4 :: "tval \<Rightarrow> verdict" where
  "validate_ipv4 x = format_rule x ''value must be a valid IPv4 address'' is_valid_ipv4"

definition validate_ipv6 :: "tval \<Rightarrow> verdict" where
  "validate_ipv6 x = format_rule x ''value must be a valid IPv6 address'' is_valid_ipv6"

definition validate_mac :: "tval \<Rightarrow> verdict" where
  "validate_mac x = format_rule x ''value must be a valid MAC address'' is_mac"

definition validate_url :: "tval \<Rightarrow> verdict" where
  "validate_url x = format_rule x ''value must be a valid URL'' is_valid_url"

definition validate_domain :: "tval \<Rightarrow> verdict" where
  "validate_domain x = format_rule x ''value must be a valid domain'' is_domain"

text \<open>\<open>EnumValidator\<close> lets every value that is no string pass.\<close>

definition validate_enum :: "string list \<Rightarrow> tval \<Rightarrow> verdict" where
  "validate_enum vs x = (case x of
     TString s \<Rightarrow> check (s \<in> set vs) (one_of_msg ''value must be one of: '' vs) | _ \<Rightarrow> valid)"

definition validate_size :: "int \<Rightarrow> tval \<Rightarrow> verdict" where
  "validate_size n x = (case x of
     TNil \<Rightarrow> valid
   | TString s \<Rightarrow> check (int (length s) = n) (''value length must be exactly '' @ dec_of n)
   | _ \<Rightarrow> (case slice_elems x of
       Some l \<Rightarrow> check (int (length l) = n) (''array length must be exactly '' @ dec_of n)
     | None \<Rightarrow> invalid ''size validation only applies to strings and arrays''))"

definition between_msg :: "string \<Rightarrow> int \<Rightarrow> int \<Rightarrow> string" where
  "between_msg pre lo hi = pre @ '' must be between '' @ dec_of lo @ '' and '' @ dec_of hi"

definition validate_between :: "int \<Rightarrow> int \<Rightarrow> tval \<Rightarrow> verdict" where
  "validate_between lo hi x = (case x of
     TNil \<Rightarrow> valid
   | TString s \<Rightarrow> check (\<not> (int (length s) < lo \<or> int (length s) > hi)) (between_msg ''value length'' lo hi)
   | TInt n \<Rightarrow> check (\<not> (n < lo \<or> n > hi)) (between_msg ''value'' lo hi)
   | TFloat64 q \<Rightarrow> check (\<not> (q < of_int lo \<or> q > of_int hi)) (between_msg ''value'' lo hi)
   | _ \<Rightarrow> (case slice_elems x of
       Some l \<Rightarrow> check (\<not> (int (length l) < lo \<or> int (length l) > hi)) (between_msg ''array length'' lo hi)
     | None \<Rightarrow> invalid ''between validation applies to strings, numbers, and arrays''))"

definition validate_in :: "string list \<Rightarrow> tval \<Rightarrow> verdict" where
  "validate_in vs x = (let m = one_of_msg ''value must be one of: '' vs in
     string_rule x m ''in validation only applies to strings'' (\<lambda>s. check (s \<in> set vs) m))"

definition validate_not_in :: "string list \<Rightarrow> tval \<Rightarrow> verdict" where
  "validate_not_in vs x = (let m = one_of_msg ''value must not be one of: '' vs in
     string_rule x m ''not-in validation only applies to strings'' (\<lambda>s. check (s \<notin> set vs) m))"

definition validate_json :: "venv \<Rightarrow> tval \<Rightarrow> verdict" where
  "validate_json v x = string_rule x ''value must be a valid JSON'' ''json validation only applies to strings''
     (\<lambda>s. check (ve_json v s) ''value must be a valid JSON'')"

fun is_int_value :: "tval \<Rightarrow> bool" where
  "is_int_value (TInt n) = True" | "is_int_value (TInt8 n) = True" | "is_int_value (TInt16 n) = True"
| "is_int_value (TInt32 n) = True" | "is_int_value (TInt64 n) = True" | "is_int_value (TUint n) = True"
| "is_int_value (TUint8 n) = True" | "is_int_value (TUint16 n) = True" | "is_int_value (TUint32 n) = True"
| "is_int_value (TUint64 n) = True" | "is_int_value _ = False"

text \<open>\<open>int(val)\<close> of a float out of range is left to the platform: \<open>ve_float_int\<close> there.\<close>

definition validate_integer :: "venv \<Rightarrow> tval \<Rightarrow> verdict" where
  "validate_integer v x = (let m = ''value must be a valid integer'' in
     if is_int_value x then valid
     else (case x of
         TNil \<Rightarrow> valid
       | TString s \<Rightarrow> if s = [] then invalid m else check (case atoi s of Inr n \<Rightarrow> True | Inl e \<Rightarrow> False) m
       | TFloat64 q \<Rightarrow> check (\<not> q \<noteq> of_int (float_to_int (ve_float_int v) q)) m
       | _ \<Rightarrow> invalid ''integer validation applies to numbers and strings''))"

fun is_float_value :: "tval \<Rightarrow> bool" where
  "is_float_value (TFloat32 q) = True" | "is_float_value (TFloat64 q) = True" | "is_float_value _ = False"

definition float_rule :: "venv \<Rightarrow> tval \<Rightarrow> string \<Rightarrow> string \<Rightarrow> verdict" where
  "float_rule v x m type_msg =
     (if is_float_value x \<or> is_int_value x \<or> x = TNil then valid
      else (case x of
          TString s \<Rightarrow> if s = [] then invalid m else check (ve_parse_float v s) m
        | _ \<Rightarrow> invalid type_msg))"

definition validate_float :: "venv \<Rightarrow> tval \<Rightarrow> verdict" where
  "validate_float v x = float_rule v x ''value must be a valid float'' ''float validation applies to numbers and strings''"

text \<open>\<open>strings.ToLower\<close> sends no other rune to a letter of "true" or "false", so lowering
  the ASCII letters decides the comparison.\<close>

definition lower_codes :: "string \<Rightarrow> nat list" where
  "lower_codes s = map lower_code s"

definition validate_boolean :: "tval \<Rightarrow> verdict" where
  "validate_boolean x = (let m = ''value must be a valid boolean'' in case x of
     TNil \<Rightarrow> valid
   | TBool b \<Rightarrow> valid
   | TString s \<Rightarrow> if s = [] then invalid m
       else check (\<not> (lower_codes s \<noteq> map of_char ''true'' \<and> lower_codes s \<noteq> map of_char ''false'')) m
   | _ \<Rightarrow> invalid ''boolean validation applies to booleans and strings'')"

definition validate_string :: "tval \<Rightarrow> verdict" where
  "validate_string x = (case x of TNil \<Rightarrow> valid | TString s \<Rightarrow> valid | _ \<Rightarrow> invalid ''value must be a string'')"

definition validate_number :: "venv \<Rightarrow> tval \<Rightarrow> verdict" where
  "validate_number v x = float_rule v x ''value must be a valid number'' ''number validation applies to numbers and strings''"

definition regex_rule :: "venv \<Rightarrow> string \<Rightarrow> bool \<Rightarrow> tval \<Rightarrow> string \<Rightarrow> string \<Rightarrow> verdict" where
  "regex_rule v p wanted x m type_msg = string_rule x m type_msg
     (\<lambda>s. case ve_regexp v p of None \<Rightarrow> Panic (regexp_panic p) | Some f \<Rightarrow> check (f s = wanted) m)"

definition validate_regex :: "venv \<Rightarrow> string \<Rightarrow> tval \<Rightarrow> verdict" where
  "validate_regex v p x = regex_rule v p True x (''value must match pattern '' @ p) ''regex validation only applies to strings''"

definition validate_not_regex :: "venv \<Rightarrow> string \<Rightarrow> tval \<Rightarrow> verdict" where
  "validate_not_regex v p x = regex_rule v p False x (''value must not match pattern '' @ p)
     ''not-regex validation only applies to strings''"

text \<open>The loop of \<open>optionsValidator\<close>: only \<open>BailEarly\<close> returns an error, and it leaves the
  loop after the first element whatever the answer.\<close>

fun each_loop :: "bool \<Rightarrow> (tval \<Rightarrow> verdict) \<Rightarrow> nat \<Rightarrow> tval list \<Rightarrow> verdict" where
  "each_loop bail f i [] = valid"
| "each_loop bail f i (x # xs) =
     (case f x of
        Panic p \<Rightarrow> Panic p
      | Blocked \<Rightarrow> Blocked
      | Done (Some e) \<Rightarrow> if bail then invalid (''element '' @ dec_nat i @ '': '' @ e) else each_loop bail f (Suc i) xs
      | Done None \<Rightarrow> if bail then valid else each_loop bail f (Suc i) xs)"

definition validate_options :: "validation_options \<Rightarrow> (tval \<Rightarrow> verdict) \<Rightarrow> tval \<Rightarrow> verdict" where
  "validate_options opt f x =
     (if vo_for_each opt then
        (if x = TNil then valid
         else (case slice_elems x of Some l \<Rightarrow> each_loop (vo_bail_early opt) f 0 l | None \<Rightarrow> f x))
      else f x)"

fun validate :: "venv \<Rightarrow> validator \<Rightarrow> tval \<Rightarrow> verdict" where
  "validate v (VOptions w opt) x = validate_options opt (validate v w) x"
| "validate v VRequired x = validate_required x"
| "validate v (VRequiredRule r) x = validate_required_rule r x"
| "validate v (VOrderRule r) x = validate_order_rule r x"
| "validate v (VEqualRule r) x = validate_equal_rule r x"
| "validate v (VMin m) x = validate_min m x"
| "validate v (VMax m) x = validate_max m x"
| "validate v (VLength n) x = validate_length n x"
| "validate v (VPattern p) x = validate_pattern v p x"
| "validate v VDate x = validate_date v x"
| "validate v VDateTime x = validate_datetime v x"
| "validate v (VDateFormat f) x = validate_date_format v f x"
| "validate v (VFormat f) x = validate_format v f x"
| "validate v VArray x = validate_array x"
| "validate v (VEnums vs) x = validate_enums vs x"
| "validate v VEmail x = validate_email x"
| "validate v VPhone x = validate_phone x"
| "validate v VPhoneLoose x = validate_phone_loose x"
| "validate v VTelephone x = validate_telephone x"
| "validate v VPassport x = validate_passport x"
| "validate v VPassword x = validate_password x"
| "validate v VPassword2 x = validate_password2 x"
| "validate v VPassword3 x = validate_password3 x"
| "validate v VPostcode x = validate_postcode x"
| "validate v VResidentID x = validate_resident_id x"
| "validate v VBankCard x = validate_bank_card x"
| "validate v VQQ x = validate_qq x"
| "validate v (VEnum vs) x = validate_enum vs x"
| "validate v VIP x = validate_ip x"
| "validate v VIPv4 x = validate_ipv4 x"
| "validate v VIPv6 x = validate_ipv6 x"
| "validate v VMAC x = validate_mac x"
| "validate v VURL x = validate_url x"
| "validate v VDomain x = validate_domain x"
| "validate v (VSize n) x = validate_size n x"
| "validate v (VBetween lo hi) x = validate_between lo hi x"
| "validate v (VIn vs) x = validate_in vs x"
| "validate v (VNotIn vs) x = validate_not_in vs x"
| "validate v VJSON x = validate_json v x"
| "validate v VInteger x = validate_integer v x"
| "validate v VFloat x = validate_float v x"
| "validate v VBoolean x = validate_boolean x"
| "validate v VString x = validate_string x"
| "validate v VNumber x = validate_number v x"
| "validate v (VRegex p) x = validate_regex v p x"
| "validate v (VNotRegex p) x = validate_not_regex v p x"


subsection \<open>What is accepted\<close>

text \<open>A decimal octet: one to three digits worth at most 255.\<close>

definition digit_value :: "nat list \<Rightarrow> nat" where
  "digit_value w = fold (\<lambda>d a. 10 * a + (d - 48)) w 0"

definition is_octet :: "nat list \<Rightarrow> bool" where
  "is_octet w = (w \<noteq> [] \<and> length w \<le> 3 \<and> list_all (\<lambda>d. 48 \<le> d \<and> d \<le> 57) w \<and> digit_value w \<le> 255)"

definition octet_text :: "string \<Rightarrow> bool" where
  "octet_text t = is_octet (map of_char t)"

lemma Nil_conc: "[] \<in> conc A B \<longleftrightarrow> [] \<in> A \<and> [] \<in> B"
  by (auto simp: conc_def)

lemma Cons_alt: "c # w \<in> lang (RAlt r s) \<longleftrightarrow> c # w \<in> lang r \<or> c # w \<in> lang s"
  by simp

lemmas octet_simps = re_octet_def re_lit_def re_any_def re_chr_def re_opt_def re_digit_def digits_def in_class_def
  re_match_def is_octet_def digit_value_def

lemma octet_1: "re_match re_octet [a] = is_octet [a]"
  by (auto simp: octet_simps)

lemma octet_2: "re_match re_octet [a, b] = is_octet [a, b]"
  by (auto simp: octet_simps)

lemma octet_3: "re_match re_octet [a, b, c] = is_octet [a, b, c]"
  by (auto simp: octet_simps)

lemma octet_lang: "w \<in> lang re_octet \<longleftrightarrow> is_octet w"
proof (cases "w \<noteq> [] \<and> length w \<le> 3")
  case True
  then consider a where "w = [a]" | a b where "w = [a, b]" | a b c where "w = [a, b, c]"
    by (cases w rule: remdups_adj.cases; cases "tl (tl w)") (auto simp: Suc_le_eq numeral_3_eq_3)
  then show ?thesis
    by cases (simp_all add: octet_1 octet_2 octet_3 flip: re_match_lang)
next
  case False
  have "w \<in> lang re_octet \<Longrightarrow> w \<noteq> [] \<and> length w \<le> 3"
    by (auto simp: octet_simps conc_def)
  then show ?thesis using False by (auto simp: is_octet_def)
qed

lemma conc_assoc: "conc (conc A B) C = conc A (conc B C)"
  unfolding conc_def by (auto simp: append_assoc) (metis append.assoc)+

lemma dotted_conc:
  "w \<in> conc (conc (lang re_octet) (lang (re_chr CHR ''.''))) B \<longleftrightarrow> (\<exists>a v. w = a @ 46 # v \<and> is_octet a \<and> v \<in> B)"
  unfolding conc_assoc by (auto simp: conc_def octet_lang re_chr_def in_class_def)

lemma ipv4_lang: "w \<in> lang re_ipv4 \<longleftrightarrow>
    (\<exists>a b c d. w = a @ 46 # b @ 46 # c @ 46 # d \<and> is_octet a \<and> is_octet b \<and> is_octet c \<and> is_octet d)"
proof -
  let ?r = "RSeq re_octet (re_chr CHR ''.'')"
  let ?R = "conc (lang re_octet) (lang (re_chr CHR ''.''))"
  have "lang re_ipv4 = conc ?R (conc ?R (conc ?R (conc {[]} (lang re_octet))))"
    by (simp add: re_ipv4_def numeral_3_eq_3 flip: conc_assoc)
  moreover have "conc {[]} A = A" for A by (simp add: conc_def)
  ultimately show ?thesis by (simp only: dotted_conc octet_lang) blast
qed

lemma is_octet_ascii: "is_octet w \<Longrightarrow> list_all (\<lambda>r. r < 128) w"
  by (auto simp: is_octet_def list_all_iff)

lemma of_char_dot: "(of_char c :: nat) = 46 \<longleftrightarrow> c = CHR ''.''"
proof -
  have "(of_char CHR ''.'' :: nat) = 46" by simp
  then show ?thesis by (metis of_char_eq_iff)
qed

lemma codes_split_dot:
  "map of_char s = a @ 46 # w \<Longrightarrow> \<exists>a' s'. s = a' @ CHR ''.'' # s' \<and> a = map of_char a' \<and> w = map of_char s'"
  for a :: "nat list"
  by (auto simp: map_eq_append_conv map_eq_Cons_conv of_char_dot) blast

text \<open>C40. \<open>IsValidIPv4\<close> accepts a string exactly when it is four decimal octets of one to three
  digits, each worth at most 255, joined by dots.
\<close>

theorem ipv4_exact:
  "is_valid_ipv4 s \<longleftrightarrow>
     (\<exists>a b c d. s = join_strs ''.'' [a, b, c, d] \<and> octet_text a \<and> octet_text b \<and> octet_text c \<and> octet_text d)"
proof
  assume "is_valid_ipv4 s"
  then obtain a b c d where w: "runes s = a @ 46 # b @ 46 # c @ 46 # d"
    and o: "is_octet a" "is_octet b" "is_octet c" "is_octet d"
    by (auto simp: is_valid_ipv4_def full_match_def re_match_lang ipv4_lang)
  then have "list_all (\<lambda>r. r < 128) (runes s)" by (simp add: is_octet_ascii)
  then have "runes s = map of_char s" by (simp add: runes_below_128 runes_ascii)
  with w have "map of_char s = a @ 46 # b @ 46 # c @ 46 # d" by simp
  then obtain a' s1 where 1: "s = a' @ CHR ''.'' # s1" "a = map of_char a'" "map of_char s1 = b @ 46 # c @ 46 # d"
    using codes_split_dot by metis
  from 1(3) obtain b' s2 where 2: "s1 = b' @ CHR ''.'' # s2" "b = map of_char b'" "map of_char s2 = c @ 46 # d"
    using codes_split_dot by metis
  from 2(3) obtain c' s3 where 3: "s2 = c' @ CHR ''.'' # s3" "c = map of_char c'" "map of_char s3 = d"
    using codes_split_dot by metis
  with o have "s = join_strs ''.'' [a', b', c', s3] \<and> octet_text a' \<and> octet_text b' \<and> octet_text c' \<and> octet_text s3"
    using 1 2 3 by (simp add: octet_text_def)
  then show "\<exists>a b c d. s = join_strs ''.'' [a, b, c, d] \<and> octet_text a \<and> octet_text b \<and> octet_text c \<and> octet_text d"
    by blast
next
  assume "\<exists>a b c d. s = join_strs ''.'' [a, b, c, d] \<and> octet_text a \<and> octet_text b \<and> octet_text c \<and> octet_text d"
  then obtain a b c d where s: "s = join_strs ''.'' [a, b, c, d]"
    and o: "octet_text a" "octet_text b" "octet_text c" "octet_text d" by blast
  have "ascii t" if "octet_text t" for t
    using that by (auto simp: octet_text_def is_octet_def ascii_def list_all_iff)
  with o have "ascii s" by (simp add: s ascii_def)
  then have "runes s = map of_char a @ 46 # map of_char b @ 46 # map of_char c @ 46 # map of_char d"
    by (simp add: runes_ascii s)
  with o show "is_valid_ipv4 s"
    unfolding is_valid_ipv4_def full_match_def re_match_lang ipv4_lang octet_text_def by blast
qed

text \<open>\<open>MinValidator\<close> on an unsigned value narrower than int keeps the low bits of the bound: it is
  exact for the bounds the width can hold, rejects every value for a negative bound, and a
  bound of one more than the width holds accepts every value.
\<close>

theorem unsigned_min_wraps:
  "(0 \<le> n \<and> n < 256 \<and> 0 \<le> m \<and> m < 256 \<longrightarrow> (validate v (VMin m) (TUint8 n) = valid \<longleftrightarrow> m \<le> n)) \<and>
   (m < 0 \<longrightarrow> validate v (VMin m) (TUint8 n) \<noteq> valid) \<and>
   (0 \<le> n \<longrightarrow> validate v (VMin 256) (TUint8 n) = valid \<and> validate v (VMin 65536) (TUint16 n) = valid)"
  by (auto simp: validate_min_def check_def min_ok_def low_bits_def)

text \<open>An environment in which only the pattern "a" compiles and every text parses.\<close>

definition small_env :: venv where
  "small_env = \<lparr>ve_regexp = (\<lambda>p. if p = ''a'' then Some (\<lambda>s. s = ''a'') else None), ve_time_parse = (\<lambda>f s. True),
     ve_json = (\<lambda>s. True), ve_parse_float = (\<lambda>s. True), ve_float_int = (\<lambda>q. 0)\<rparr>"

theorem unsigned_min_wraps_witness:
  "validate small_env (VMin 200) (TUint8 44) \<noteq> valid \<and> validate small_env (VMin 40) (TUint8 44) = valid \<and>
   validate small_env (VMin (- 1)) (TUint8 44) \<noteq> valid \<and> validate small_env (VMin 256) (TUint8 44) = valid"
  using unsigned_min_wraps [where n = 44 and m = 200 and v = small_env]
    unsigned_min_wraps [where n = 44 and m = 40 and v = small_env]
    unsigned_min_wraps [where n = 44 and m = "- 1" and v = small_env] by simp

text \<open>Verdicts of validators whose patterns all compile.\<close>

fun patterns_compile :: "venv \<Rightarrow> validator \<Rightarrow> bool" where
  "patterns_compile v (VOptions w opt) = patterns_compile v w"
| "patterns_compile v (VPattern p) = (ve_regexp v p \<noteq> None)"
| "patterns_compile v (VRegex p) = (ve_regexp v p \<noteq> None)"
| "patterns_compile v (VNotRegex p) = (ve_regexp v p \<noteq> None)"
| "patterns_compile v _ = True"

lemma check_Done: "\<exists>r. check b m = Done r"
  by (simp add: check_def)

lemma string_rule_Done: "(\<And>s. \<exists>r. f s = Done r) \<Longrightarrow> \<exists>r. string_rule x m t f = Done r"
  by (auto simp: string_rule_def split: tval.split)

lemma each_loop_Done: "(\<And>x. \<exists>r. f x = Done r) \<Longrightarrow> \<exists>r. each_loop bail f i l = Done r"
proof (induction l arbitrary: i)
  case (Cons x l)
  obtain r where r: "f x = Done r" using Cons.prems by blast
  then show ?case using Cons by (cases r) auto
qed simp

lemma validate_options_Done: "(\<And>x. \<exists>r. f x = Done r) \<Longrightarrow> \<exists>r. validate_options opt f x = Done r"
  by (simp add: validate_options_def each_loop_Done split: option.split)

lemmas simple_validator_defs = validate_required_def required_def validate_min_def validate_max_def validate_length_def
  validate_array_def validate_enum_def validate_size_def validate_between_def validate_integer_def float_rule_def
  validate_float_def validate_number_def validate_boolean_def validate_string_def validate_format_def validate_pattern_def

lemmas cross_rule_defs = validate_required_rule_def validate_order_rule_def validate_equal_rule_def

lemmas text_validator_defs = validate_date_def validate_datetime_def validate_date_format_def validate_enums_def
  validate_email_def validate_phone_def validate_phone_loose_def validate_telephone_def validate_passport_def
  validate_password_def validate_password2_def validate_password3_def validate_postcode_def validate_resident_id_def
  validate_bank_card_def validate_qq_def validate_ip_def validate_ipv4_def validate_ipv6_def validate_mac_def
  validate_url_def validate_domain_def validate_in_def validate_not_in_def validate_json_def validate_regex_def
  validate_not_regex_def password_rule_def format_rule_def regex_rule_def

lemma validate_total: "patterns_compile v w \<Longrightarrow> \<exists>r. validate v w x = Done r"
proof (induction w arbitrary: x)
  case (VOptions w opt)
  then show ?case by (simp add: validate_options_Done)
qed (auto simp: text_validator_defs Let_def check_Done intro!: string_rule_Done,
     (auto simp: simple_validator_defs check_def cross_rule_defs Let_def
      split: tval.split option.split required_rule.split order_rule.split equal_rule.split)+)

text \<open>C40. A validator returns, an error or nil, on every value when the patterns it was given compile;
  with a \<open>PatternValidator\<close> whose pattern does not, every value other than nil panics.
\<close>

theorem validators_return:
  "(patterns_compile v w \<longrightarrow> (\<exists>r. validate v w x = Done r)) \<and>
   (ve_regexp v p = None \<and> x \<noteq> TNil \<longrightarrow> validate v (VPattern p) x = Panic (regexp_panic p))"
  by (simp add: validate_total validate_pattern_def)

theorem validators_return_witness:
  "(\<exists>r. validate small_env (VOptions (VPattern ''a'') \<lparr>vo_case_insensitive = False, vo_bail_early = True, vo_for_each = True\<rparr>)
       (TAnys [TString ''b'', TNil]) = Done r) \<and>
   validate small_env (VPattern ''('') (TInt 1) = Panic (regexp_panic ''('')"
  using validators_return [where v = small_env and p = "''(''" and x = "TInt 1"]
    validators_return [where v = small_env and x = "TAnys [TString ''b'', TNil]" and
      w = "VOptions (VPattern ''a'') \<lparr>vo_case_insensitive = False, vo_bail_early = True, vo_for_each = True\<rparr>"]
  by (simp add: small_env_def)

subsection \<open>Element-wise validation and phone numbers\<close>

lemma dec_nat_0: "dec_nat 0 = ''0''"
  by code_simp

lemma each_loop_keeps_going:
  "(\<And>x. \<exists>r. f x = Done r) \<Longrightarrow> each_loop False f i l = valid"
proof (induction l arbitrary: i)
  case (Cons x l)
  obtain r where r: "f x = Done r" using Cons.prems by blast
  then show ?case using Cons by (cases r) auto
qed simp

text \<open>Element-wise validation looks at no more than the first element: with \<open>BailEarly\<close> the answer
  is that of element 0 whatever follows it, and without it every slice is accepted.
\<close>

theorem foreach_checks_first_element_only:
  assumes "vo_for_each opt" and "slice_elems x = Some (y # ys)" and "patterns_compile v w"
  shows "validate v (VOptions w opt) x =
    (if vo_bail_early opt
     then (case validate v w y of Done (Some e) \<Rightarrow> invalid (''element 0: '' @ e) | r \<Rightarrow> r)
     else valid)"
proof -
  have "x \<noteq> TNil" using assms(2) by auto
  moreover have "each_loop True f 0 (y # ys) = (case f y of Done (Some e) \<Rightarrow> invalid (''element 0: '' @ e) | r \<Rightarrow> r)" for f
    by (cases "f y") (auto simp: dec_nat_0 split: option.split)
  moreover have "each_loop False (validate v w) 0 (y # ys) = valid"
    using each_loop_keeps_going validate_total assms(3) by blast
  ultimately show ?thesis using assms by (simp add: validate_options_def del: each_loop.simps)
qed

theorem foreach_checks_first_element_only_witness:
  "validate small_env (VOptions VEmail \<lparr>vo_case_insensitive = False, vo_bail_early = False, vo_for_each = True\<rparr>)
     (TStrings [''x'', ''y'']) = valid \<and>
   validate small_env (VOptions VEmail \<lparr>vo_case_insensitive = False, vo_bail_early = True, vo_for_each = True\<rparr>)
     (TStrings [[], ''y'']) = invalid ''element 0: value must be a valid email address''"
  using foreach_checks_first_element_only [where v = small_env and w = VEmail and x = "TStrings [''x'', ''y'']" and
      opt = "\<lparr>vo_case_insensitive = False, vo_bail_early = False, vo_for_each = True\<rparr>"]
    foreach_checks_first_element_only [where v = small_env and w = VEmail and x = "TStrings [[], ''y'']" and
      opt = "\<lparr>vo_case_insensitive = False, vo_bail_early = True, vo_for_each = True\<rparr>"]
  by (simp add: validate_email_def format_rule_def string_rule_def)

lemma phone_class_ascii: "in_class False phone_class c \<Longrightarrow> c < 91"
  by (auto simp: in_class_def phone_class_def digits_def re_spaces_def)

lemma plus_class: "full_match (re_plus (re_any rs)) s \<longleftrightarrow> s \<noteq> [] \<and> list_all (in_class False rs) (runes s)"
proof -
  have "w \<in> lang (re_plus (re_any rs)) \<longleftrightarrow> w \<noteq> [] \<and> list_all (in_class False rs) w" for w
    by (cases w) (auto simp: re_plus_def re_any_def conc_Cons Nil_conc lang_class_star simp del: lang.simps(6))
  moreover have "runes s \<noteq> [] \<longleftrightarrow> s \<noteq> []" by (simp add: runes_def)
  ultimately show ?thesis by (simp add: full_match_def re_match_lang)
qed

text \<open>\<open>IsValidPhone\<close> counts no digits: it accepts every text of ten or more characters, all of
  them digits, spaces, dashes, plus signs or parentheses, ten dashes for one.
\<close>

theorem phone_counts_no_digits:
  "(is_valid_phone s \<longleftrightarrow> length s \<ge> 10 \<and> list_all (\<lambda>c. in_class False phone_class (of_char c)) s) \<and>
   is_valid_phone ''----------''"
proof -
  have "is_valid_phone s \<longleftrightarrow> length s \<ge> 10 \<and> list_all (\<lambda>c. in_class False phone_class (of_char c)) s" for s
  proof (cases "list_all (\<lambda>c. in_class False phone_class (of_char c)) s")
    case True
    then have "ascii s" by (fastforce simp: ascii_def list_all_iff dest!: phone_class_ascii)
    moreover have "CHR ''['' \<notin> set s" using True by (auto simp: list_all_iff dest!: phone_class_ascii)
    ultimately show ?thesis using True
      by (auto simp: is_valid_phone_def plus_class runes_ascii list.pred_map comp_def replace_all_absent)
  next
    case False
    have "\<not> list_all (in_class False phone_class) (runes s)"
    proof
      assume a: "list_all (in_class False phone_class) (runes s)"
      then have "ascii s" by (fastforce simp: list_all_iff dest!: phone_class_ascii simp flip: runes_below_128)
      with a False show False by (simp add: runes_ascii list.pred_map comp_def)
    qed
    with False show ?thesis by (simp add: is_valid_phone_def plus_class)
  qed
  then show ?thesis by (simp add: in_class_def phone_class_def)
qed

end
