(* ===== verification/Tags.thy ===== *)
theory Tags
  imports Validators
begin

text \<open>
  tools/tag/tag.go: struct tags as text: \<open>Parse\<close>, \<open>ParseAll\<close>, \<open>GetTag\<close> and the builders, with
  the Parse helpers of validate.go that read a bound out of a tag. A nil \<open>*Tag\<close> is None. The
  map of options is an association list; where Go ranges over it, the list is the order of
  the iteration.
\<close>

subsection \<open>Tags\<close>

record tag =
  tag_name :: string
  tag_value :: string
  tag_options :: "(string, string) gomap"
  tag_original :: string

definition ignore_tag :: string where "ignore_tag = ''-''"
definition omit_empty_tag :: string where "omit_empty_tag = ''omitempty''"

definition bare_tag :: "string \<Rightarrow> string \<Rightarrow> string \<Rightarrow> tag" where
  "bare_tag n v original = \<lparr>tag_name = n, tag_value = v, tag_options = [], tag_original = original\<rparr>"

text \<open>One option: a key with a value, or a key alone, which is "true".\<close>

definition add_parsed_option :: "string \<Rightarrow> (string, string) gomap \<Rightarrow> (string, string) gomap" where
  "add_parsed_option part opts =
     (let opt = trim_space part in
      case str_index opt ''='' of
        Some i \<Rightarrow> gm_put (trim_space (take i opt)) (trim_space (drop (i + 1) opt)) opts
      | None \<Rightarrow> gm_put opt ''true'' opts)"

definition parse_options :: "string list \<Rightarrow> (string, string) gomap" where
  "parse_options parts = fold add_parsed_option parts []"

definition parse_tag :: "string \<Rightarrow> tag option" where
  "parse_tag t =
     (if t = [] then None
      else
        let parts = str_split '','' t; main = trim_space (hd parts) in
        if main = ignore_tag then Some (bare_tag ignore_tag [] t)
        else
          let nv = (case str_index main '':'' of
                      Some i \<Rightarrow> (trim_space (take i main), trim_space (drop (i + 1) main))
                    | None \<Rightarrow> (trim_space main, []))
          in Some ((bare_tag (fst nv) (snd nv) t)\<lparr>tag_options := parse_options (tl parts)\<rparr>))"

definition parse_all :: "string \<Rightarrow> tag list" where
  "parse_all tags =
     List.map_filter (\<lambda>part. let p = trim_space part in if p = [] then None else parse_tag p)
       (fields_by (\<lambda>c. c = CHR '' '' \<or> c = CHR '','') [] tags)"

text \<open>A struct field is what \<open>reflect.StructTag.Get\<close> answers for each key of its tag.\<close>

type_synonym struct_field = "string \<Rightarrow> string"

definition get_tag :: "struct_field \<Rightarrow> string \<Rightarrow> tag option" where
  "get_tag field k =
     (let s = field k in
      if s = [] then None
      else if s = ''-'' then Some (bare_tag ignore_tag [] s)
      else let parts = str_split '','' s in
           Some ((bare_tag k (trim_space (hd parts)) s)\<lparr>tag_options := parse_options (tl parts)\<rparr>))"

definition get_tag_value :: "struct_field \<Rightarrow> string \<Rightarrow> string" where
  "get_tag_value field k = (case get_tag field k of None \<Rightarrow> [] | Some t \<Rightarrow> tag_value t)"

definition has_tag :: "struct_field \<Rightarrow> string \<Rightarrow> bool" where
  "has_tag field k = (field k \<noteq> [])"

definition has_tag_option :: "struct_field \<Rightarrow> string \<Rightarrow> string \<Rightarrow> bool" where
  "has_tag_option field k opt = (case get_tag field k of None \<Rightarrow> False | Some t \<Rightarrow> gm_has (tag_options t) opt)"

definition get_tag_option :: "struct_field \<Rightarrow> string \<Rightarrow> string \<Rightarrow> string" where
  "get_tag_option field k opt =
     (case get_tag field k of None \<Rightarrow> [] | Some t \<Rightarrow> (case gm_get (tag_options t) opt of None \<Rightarrow> [] | Some v \<Rightarrow> v))"

subsection \<open>Builders\<close>

definition build :: "string \<Rightarrow> string \<Rightarrow> string" where
  "build n v = (if v = [] then n else n @ '':'' @ v)"

definition build_with_options :: "string \<Rightarrow> string \<Rightarrow> (string, string) gomap \<Rightarrow> string" where
  "build_with_options n v opts =
     build n v @
     concat (map (\<lambda>(k, x). '','' @ k) (filter (\<lambda>(k, x). x = ''true'') opts)) @
     concat (map (\<lambda>(k, x). '','' @ k @ ''='' @ x) (filter (\<lambda>(k, x). x \<noteq> ''true'') opts))"

definition build_json_tag :: "string \<Rightarrow> (string, string) gomap \<Rightarrow> string" where "build_json_tag f opts = build_with_options ''json'' f opts"
definition build_yaml_tag :: "string \<Rightarrow> (string, string) gomap \<Rightarrow> string" where "build_yaml_tag f opts = build_with_options ''yaml'' f opts"
definition build_xml_tag :: "string \<Rightarrow> (string, string) gomap \<Rightarrow> string" where "build_xml_tag f opts = build_with_options ''xml'' f opts"
definition build_db_tag :: "string \<Rightarrow> (string, string) gomap \<Rightarrow> string" where "build_db_tag f opts = build_with_options ''db'' f opts"
definition build_form_tag :: "string \<Rightarrow> (string, string) gomap \<Rightarrow> string" where "build_form_tag f opts = build_with_options ''form'' f opts"
definition build_query_tag :: "string \<Rightarrow> (string, string) gomap \<Rightarrow> string" where "build_query_tag f opts = build_with_options ''query'' f opts"
definition build_header_tag :: "string \<Rightarrow> (string, string) gomap \<Rightarrow> string" where "build_header_tag f opts = build_with_options ''header'' f opts"
definition build_uri_tag :: "(string, string) gomap \<Rightarrow> string" where "build_uri_tag opts = build_with_options ''uri'' [] opts"
definition build_url_tag :: "(string, string) gomap \<Rightarrow> string" where "build_url_tag opts = build_with_options ''url'' [] opts"
definition build_email_tag :: "(string, string) gomap \<Rightarrow> string" where "build_email_tag opts = build_with_options ''email'' [] opts"

definition build_required_tag :: string where "build_required_tag = ''required''"
definition build_optional_tag :: string where "build_optional_tag = ''optional''"
definition build_min_tag :: "int \<Rightarrow> string" where "build_min_tag n = ''min='' @ dec_of n"
definition build_max_tag :: "int \<Rightarrow> string" where "build_max_tag n = ''max='' @ dec_of n"
definition build_length_tag :: "int \<Rightarrow> string" where "build_length_tag n = ''length='' @ dec_of n"
definition build_pattern_tag :: "string \<Rightarrow> string" where "build_pattern_tag p = ''pattern='' @ p"
definition build_format_tag :: "string \<Rightarrow> string" where "build_format_tag f = ''format='' @ f"
definition build_enum_tag :: "string list \<Rightarrow> string" where "build_enum_tag vs = ''enum='' @ join_strs '','' vs"
definition build_alias_tag :: "string \<Rightarrow> string" where "build_alias_tag a = ''alias='' @ a"

text \<open>\<open>%v\<close> of the value is an argument.\<close>

definition build_default_tag :: "string \<Rightarrow> string" where "build_default_tag printed = ''default='' @ printed"
definition build_example_tag :: "string \<Rightarrow> string" where "build_example_tag printed = ''example='' @ printed"
definition build_description_tag :: "string \<Rightarrow> string" where "build_description_tag d = ''description='' @ d"
definition build_validate_tag :: "string \<Rightarrow> string" where "build_validate_tag r = ''validate='' @ r"

definition add_omit_empty :: "string \<Rightarrow> string" where
  "add_omit_empty t = (if t = [] then omit_empty_tag else t @ '','' @ omit_empty_tag)"

definition add_option :: "string \<Rightarrow> string \<Rightarrow> string" where
  "add_option t opt = (if t = [] then opt else t @ '','' @ opt)"

definition add_option_with_value :: "string \<Rightarrow> string \<Rightarrow> string \<Rightarrow> string" where
  "add_option_with_value t opt v = (if t = [] then opt @ ''='' @ v else t @ '','' @ opt @ ''='' @ v)"

definition is_ignore_tag :: "string \<Rightarrow> bool" where
  "is_ignore_tag t = (t = ignore_tag)"

definition has_omit_empty :: "string \<Rightarrow> bool" where
  "has_omit_empty t = str_has t omit_empty_tag"

definition get_tag_value_from_string :: "string \<Rightarrow> string" where
  "get_tag_value_from_string t = (case parse_tag t of None \<Rightarrow> [] | Some x \<Rightarrow> tag_value x)"

definition get_tag_options_from_string :: "string \<Rightarrow> (string, string) gomap" where
  "get_tag_options_from_string t = (case parse_tag t of None \<Rightarrow> [] | Some x \<Rightarrow> tag_options x)"

definition tag_string :: "tag option \<Rightarrow> string" where
  "tag_string t = (case t of None \<Rightarrow> [] | Some x \<Rightarrow> tag_original x)"

subsection \<open>Reading a bound out of a tag\<close>

datatype tag_error = MissingValue string | BadNumber num_error

definition tag_number :: "string \<Rightarrow> tag option \<Rightarrow> tag_error + int" where
  "tag_number what t =
     (case t of
        None \<Rightarrow> Inl (MissingValue what)
      | Some x \<Rightarrow> if tag_value x = [] then Inl (MissingValue what)
                 else (case atoi (tag_value x) of Inl e \<Rightarrow> Inl (BadNumber e) | Inr n \<Rightarrow> Inr n))"

definition tag_text :: "string \<Rightarrow> tag option \<Rightarrow> tag_error + string" where
  "tag_text what t =
     (case t of
        None \<Rightarrow> Inl (MissingValue what)
      | Some x \<Rightarrow> if tag_value x = [] then Inl (MissingValue what) else Inr (tag_value x))"

definition parse_min :: "tag option \<Rightarrow> tag_error + int" where "parse_min = tag_number ''min value''"
definition parse_max :: "tag option \<Rightarrow> tag_error + int" where "parse_max = tag_number ''max value''"
definition parse_length :: "tag option \<Rightarrow> tag_error + int" where "parse_length = tag_number ''length value''"
definition parse_pattern :: "tag option \<Rightarrow> tag_error + string" where "parse_pattern = tag_text ''pattern value''"
definition parse_format :: "tag option \<Rightarrow> tag_error + string" where "parse_format = tag_text ''format value''"
definition parse_default :: "tag option \<Rightarrow> tag_error + string" where "parse_default = tag_text ''default value''"

definition parse_enum :: "tag option \<Rightarrow> tag_error + string list" where
  "parse_enum t = (case tag_text ''enum values'' t of Inl e \<Rightarrow> Inl e | Inr v \<Rightarrow> Inr (str_split '','' v))"

subsection \<open>Round trips\<close>

definition opt_text :: "string \<times> string \<Rightarrow> string" where
  "opt_text = (\<lambda>(k, x). if x = ''true'' then k else k @ ''='' @ x)"

definition build_order :: "(string, string) gomap \<Rightarrow> (string, string) gomap" where
  "build_order opts = filter (\<lambda>(k, x). x = ''true'') opts @ filter (\<lambda>(k, x). x \<noteq> ''true'') opts"

lemma join_strs_Cons: "join_strs sep (x # xs) = x @ concat (map (\<lambda>y. sep @ y) xs)"
  by (induction xs arbitrary: x) simp_all

lemma build_with_options_join:
  "build_with_options n v opts = join_strs '','' (build n v # map opt_text (build_order opts))"
proof -
  have "concat (map (\<lambda>(k, x). '','' @ k) (filter (\<lambda>(k, x). x = ''true'') opts)) =
      concat (map (\<lambda>y. '','' @ y) (map opt_text (filter (\<lambda>(k, x). x = ''true'') opts)))"
    by (induction opts) (auto simp: opt_text_def)
  moreover have "concat (map (\<lambda>(k, x). '','' @ k @ ''='' @ x) (filter (\<lambda>(k, x). x \<noteq> ''true'') opts)) =
      concat (map (\<lambda>y. '','' @ y) (map opt_text (filter (\<lambda>(k, x). x \<noteq> ''true'') opts)))"
    by (induction opts) (auto simp: opt_text_def)
  ultimately show ?thesis
    unfolding build_with_options_def join_strs_Cons build_order_def by (simp only: map_append concat_append)
qed

text \<open>Keys, values and names that survive being written into a tag.\<close>

definition clean :: "char \<Rightarrow> string \<Rightarrow> bool" where
  "clean c s = (no_outer_space s \<and> c \<notin> set s \<and> CHR '','' \<notin> set s)"

definition clean_value :: "string \<Rightarrow> bool" where
  "clean_value s = (no_outer_space s \<and> CHR '','' \<notin> set s)"

lemma add_parsed_opt_text:
  "clean CHR ''='' k \<Longrightarrow> clean_value x \<Longrightarrow> add_parsed_option (opt_text (k, x)) m = gm_put k x m"
proof (cases "x = ''true''")
  case True
  assume "clean CHR ''='' k"
  then show ?thesis
    by (simp add: True opt_text_def add_parsed_option_def clean_def trim_space_id str_index_absent)
next
  case False
  assume k: "clean CHR ''='' k" and x: "clean_value x"
  then have "no_outer_space (k @ CHR ''='' # x)"
    by (intro no_outer_space_join) (simp_all add: clean_def clean_value_def rune_is_space_def)
  then show ?thesis using False k x
    by (simp add: opt_text_def add_parsed_option_def clean_def clean_value_def trim_space_id str_index_char)
qed

lemma fold_gm_put_get:
  "gm_ok ps \<Longrightarrow> map_of (fold (\<lambda>(k, x). gm_put k x) ps m) k =
     (case map_of ps k of Some x \<Rightarrow> Some x | None \<Rightarrow> map_of m k)"
proof (induction ps arbitrary: m)
  case (Cons p ps)
  obtain a b where p: "p = (a, b)" by (cases p)
  have "map_of ps a = None" using Cons.prems by (simp add: p gm_ok_def map_of_eq_None_iff)
  moreover have "gm_ok ps" using Cons.prems by (simp add: gm_ok_def)
  ultimately show ?case using Cons.IH by (auto simp: p split: option.splits)
qed simp

lemma parse_options_texts:
  assumes "\<forall>(k, x) \<in> set ps. clean CHR ''='' k \<and> clean_value x"
  shows "parse_options (map opt_text ps) = fold (\<lambda>(k, x). gm_put k x) ps []"
  unfolding parse_options_def fold_map comp_def
proof (rule fold_cong)
  fix p
  assume p: "p \<in> set ps"
  obtain k x where "p = (k, x)" by fastforce
  then show "add_parsed_option (opt_text p) = (case p of (k, x) \<Rightarrow> gm_put k x)"
    using p assms by (auto simp: fun_eq_iff add_parsed_opt_text)
qed simp_all

lemma build_order_ok: "gm_ok opts \<Longrightarrow> gm_ok (build_order opts)"
  unfolding build_order_def gm_ok_def distinct_map
  by (auto simp: distinct_map intro: inj_on_subset dest: inj_onD)

lemma build_order_get: "gm_ok opts \<Longrightarrow> map_of (build_order opts) k = map_of opts k"
proof -
  assume ok: "gm_ok opts"
  have "set (build_order opts) = set opts" by (auto simp: build_order_def)
  then have "map_of (build_order opts) k = Some x \<longleftrightarrow> map_of opts k = Some x" for x
    using gm_get_mem [OF ok, of k x] gm_get_mem [OF build_order_ok [OF ok], of k x] by simp
  then show ?thesis by (metis not_None_eq)
qed

lemma build_parse_round_trip_lemma:
  assumes "clean CHR '':'' n" and "n \<noteq> []" and "clean_value v" and "v = [] \<longrightarrow> n \<noteq> ignore_tag"
    and "gm_ok opts" and "\<forall>(k, x) \<in> set opts. clean CHR ''='' k \<and> clean_value x"
  shows "\<exists>t. parse_tag (build_with_options n v opts) = Some t \<and> tag_name t = n \<and> tag_value t = v \<and>
    (\<forall>k. gm_get (tag_options t) k = gm_get opts k)"
proof -
  let ?s = "build_with_options n v opts"
  let ?ps = "build_order opts"
  have ps: "\<forall>(k, x) \<in> set ?ps. clean CHR ''='' k \<and> clean_value x" using assms(6) by (auto simp: build_order_def)
  have ok: "gm_ok ?ps" using assms(5) by (rule build_order_ok)
  have split: "str_split '','' ?s = build n v # map opt_text ?ps"
    unfolding build_with_options_join
    by (rule str_split_join) (use assms(1,3) ps in \<open>auto simp: build_def clean_def clean_value_def opt_text_def split: if_splits\<close>)
  have ne: "?s \<noteq> []" using assms(2) by (simp add: build_with_options_def build_def)
  have opts: "parse_options (map opt_text ?ps) = fold (\<lambda>(k, x). gm_put k x) ?ps []"
    by (rule parse_options_texts [OF ps])
  have get: "map_of (fold (\<lambda>(k, x). gm_put k x) ?ps []) k = map_of opts k" for k
    using fold_gm_put_get [OF ok, of "[]" k] build_order_get [OF assms(5), of k] by (simp split: option.splits)
  show ?thesis
  proof (cases "v = []")
    case True
    then have "build n v = n" "n \<noteq> ignore_tag" using assms(4) by (simp_all add: build_def)
    moreover have "trim_space n = n" "str_index n '':'' = None"
      using assms(1) by (simp_all add: clean_def trim_space_id str_index_absent)
    ultimately show ?thesis using True ne split opts get
      by (simp add: parse_tag_def bare_tag_def Let_def)
  next
    case False
    have main: "trim_space (n @ CHR '':'' # v) = n @ CHR '':'' # v"
      using assms(1,3) by (intro trim_space_id no_outer_space_join) (simp_all add: clean_def clean_value_def rune_is_space_def)
    have "n @ CHR '':'' # v \<noteq> ignore_tag" using assms(2) by (cases n) (auto simp: ignore_tag_def)
    moreover have "str_index (n @ CHR '':'' # v) '':'' = Some (length n)"
      using assms(1) by (simp add: clean_def str_index_char)
    ultimately show ?thesis using False ne split opts get main assms(1,3)
      by (simp add: parse_tag_def bare_tag_def Let_def build_def clean_def clean_value_def trim_space_id)
  qed
qed



lemma dec_of_format: "dec_of n = format_int n 10"
proof -
  have "dec_nat m = format_nat 10 m" for m
    by (induction m rule: dec_nat.induct) (subst dec_nat.simps, subst format_nat.simps, simp)
  then show ?thesis by (simp add: dec_of_def format_int_def)
qed

lemma atoi_dec_of: "fits64 n \<Longrightarrow> atoi (dec_of n) = Inr n"
  using parse_format_int [of n 10] by (simp add: atoi_def dec_of_format)

lemma dec_of_chars: "c \<in> set (dec_of n) \<Longrightarrow> c = CHR ''-'' \<or> 48 \<le> (of_char c :: nat) \<and> (of_char c :: nat) \<le> 57"
  using dec_nat_digits by (auto simp: dec_of_def split: if_splits)

lemma ascii_trim: "ascii s \<Longrightarrow> list_all (\<lambda>c. \<not> rune_is_space (of_char c)) s \<Longrightarrow> no_outer_space s"
proof (cases "s = []")
  case False
  assume a: "ascii s" and s: "list_all (\<lambda>c. \<not> rune_is_space (of_char c)) s"
  have "map fst (segments s) = map of_char s" using runes_ascii [OF a] by (simp add: runes_def)
  moreover have "segments s \<noteq> []" using False by simp
  ultimately have "fst (hd (segments s)) = of_char (hd s)" "fst (last (segments s)) = of_char (last s)"
    using False by (metis list.map_sel(1), metis last_map)
  then show ?thesis using False s by (simp add: no_outer_space_def list_all_iff)
qed (simp add: no_outer_space_def)

lemma dec_of_clean: "clean_value (dec_of n)" "CHR '':'' \<notin> set (dec_of n)" "CHR ''='' \<notin> set (dec_of n)"
proof -
  have "ascii (dec_of n)" "list_all (\<lambda>c. \<not> rune_is_space (of_char c)) (dec_of n)"
    using dec_of_chars [of _ n] by (force simp: ascii_def rune_is_space_def list_all_iff)+
  then show "clean_value (dec_of n)" using dec_of_chars [of _ n] by (force simp: clean_value_def intro: ascii_trim)
  show "CHR '':'' \<notin> set (dec_of n)" "CHR ''='' \<notin> set (dec_of n)" using dec_of_chars [of _ n] by force+
qed

text \<open>The tag \<open>BuildMinTag\<close> writes cannot be read by \<open>Parse\<close> and \<open>ParseMin\<close>: the builder puts
  "=" where the parser looks for ":", so every bound is lost; \<open>Build\<close> with the same name and
  number is read back exactly.
\<close>

theorem min_tag_does_not_parse_back:
  "parse_min (parse_tag (build_min_tag n)) = Inl (MissingValue ''min value'') \<and>
   (fits64 n \<longrightarrow> parse_min (parse_tag (build ''min'' (dec_of n))) = Inr n)"
proof
  have "dec_nat m \<noteq> []" for m by (subst dec_nat.simps) simp
  then have ne: "dec_of n \<noteq> []" by (simp add: dec_of_def)
  have "no_outer_space (''min'' @ CHR ''='' # dec_of n)"
    using dec_of_clean(1) [of n] by (intro no_outer_space_join) (simp_all add: clean_value_def rune_is_space_def no_outer_space_def segments_ascii_Cons)
  then have "trim_space (''min='' @ dec_of n) = ''min='' @ dec_of n" using trim_space_id by simp
  moreover have "str_split '','' (''min='' @ dec_of n) = [''min='' @ dec_of n]"
    using dec_of_clean(1) [of n] by (intro str_split_none) (simp add: clean_value_def)
  moreover have "str_index (''min='' @ dec_of n) '':'' = None"
    using dec_of_clean(2) [of n] by (intro str_index_absent) simp
  ultimately show "parse_min (parse_tag (build_min_tag n)) = Inl (MissingValue ''min value'')"
    by (simp add: parse_min_def tag_number_def parse_tag_def build_min_tag_def bare_tag_def ignore_tag_def Let_def)
  have "\<exists>t. parse_tag (build_with_options ''min'' (dec_of n) []) = Some t \<and> tag_name t = ''min'' \<and> tag_value t = dec_of n \<and>
      (\<forall>k. gm_get (tag_options t) k = gm_get [] k)"
    using dec_of_clean(1) [of n] ne
    by (intro build_parse_round_trip_lemma) (simp_all add: clean_def rune_is_space_def no_outer_space_def segments_ascii_Cons)
  then obtain t where "parse_tag (build ''min'' (dec_of n)) = Some t" "tag_value t = dec_of n"
    by (auto simp: build_with_options_def)
  then show "fits64 n \<longrightarrow> parse_min (parse_tag (build ''min'' (dec_of n))) = Inr n"
    using ne by (simp add: parse_min_def tag_number_def atoi_dec_of)
qed

theorem min_tag_does_not_parse_back_witness:
  "parse_min (parse_tag (build_min_tag 5)) = Inl (MissingValue ''min value'') \<and>
   parse_min (parse_tag (build ''min'' (dec_of 5))) = Inr 5"
  using min_tag_does_not_parse_back [of 5] by (simp add: fits64_def)

end
