(* ===== verification/StrTools.thy ===== *)
theory StrTools
  imports GoRegexp Numbers
begin

text \<open>
  tools/str/string.go: the text helpers, over runes where the source converts to \<open>[]rune\<close> and
  over bytes where it slices the string. The tables of package unicode are the record
  \<open>ucd\<close>; \<open>ucd_ok\<close> states what the proofs use of them.
\<close>

subsection \<open>The tables of package unicode\<close>

record ucd =
  uc_letter :: "nat \<Rightarrow> bool"
  uc_digit :: "nat \<Rightarrow> bool"
  uc_upper :: "nat \<Rightarrow> bool"
  uc_lower :: "nat \<Rightarrow> bool"
  uc_han :: "nat \<Rightarrow> bool"
  uc_to_upper :: "nat \<Rightarrow> nat"
  uc_to_lower :: "nat \<Rightarrow> nat"
  uc_to_title :: "nat \<Rightarrow> nat"

definition alnum :: "ucd \<Rightarrow> nat \<Rightarrow> bool" where
  "alnum u r = (uc_letter u r \<or> uc_digit u r)"

text \<open>The tables on ASCII, where no rune is Han.\<close>

definition ascii_ucd :: ucd where
  "ascii_ucd = \<lparr>uc_letter = (\<lambda>r. 65 \<le> r \<and> r \<le> 90 \<or> 97 \<le> r \<and> r \<le> 122), uc_digit = (\<lambda>r. 48 \<le> r \<and> r \<le> 57),
     uc_upper = (\<lambda>r. 65 \<le> r \<and> r \<le> 90), uc_lower = (\<lambda>r. 97 \<le> r \<and> r \<le> 122), uc_han = (\<lambda>r. False),
     uc_to_upper = (\<lambda>r. if 97 \<le> r \<and> r \<le> 122 then r - 32 else r),
     uc_to_lower = (\<lambda>r. if 65 \<le> r \<and> r \<le> 90 then r + 32 else r),
     uc_to_title = (\<lambda>r. if 97 \<le> r \<and> r \<le> 122 then r - 32 else r)\<rparr>"

subsection \<open>Package strings, continued\<close>

definition index_int :: "nat option \<Rightarrow> int" where
  "index_int i = (case i of None \<Rightarrow> - 1 | Some n \<Rightarrow> int n)"

definition str_last_index :: "string \<Rightarrow> string \<Rightarrow> nat option" where
  "str_last_index s p =
     (case filter (\<lambda>i. has_prefix (drop i s) p) [0..<Suc (length s)] of [] \<Rightarrow> None | is \<Rightarrow> Some (List.last is))"

definition has_suffix :: "string \<Rightarrow> string \<Rightarrow> bool" where
  "has_suffix s p = (length p \<le> length s \<and> drop (length s - length p) s = p)"

definition str_repeat :: "string \<Rightarrow> int \<Rightarrow> string outcome" where
  "str_repeat s n = (if n < 0 then Panic ''strings: negative Repeat count'' else Done (concat (replicate (nat n) s)))"

text \<open>\<open>genSplit\<close>: at most \<open>n\<close> pieces, \<open>save\<close> bytes of each separator kept; \<open>explode\<close> for the
  empty separator.\<close>

fun split_pieces :: "nat \<Rightarrow> string \<Rightarrow> nat \<Rightarrow> string \<Rightarrow> string list" where
  "split_pieces 0 sep save s = [s]"
| "split_pieces (Suc n) sep save s =
     (case str_index s sep of
        None \<Rightarrow> [s]
      | Some m \<Rightarrow> take (m + save) s # split_pieces n sep save (drop (m + length sep) s))"

fun explode_pieces :: "nat \<Rightarrow> string list \<Rightarrow> string list" where
  "explode_pieces 0 segs = (if segs = [] then [] else [concat segs])"
| "explode_pieces (Suc n) [] = []"
| "explode_pieces (Suc n) (x # segs) = x # explode_pieces n segs"

definition gen_split :: "string \<Rightarrow> string \<Rightarrow> nat \<Rightarrow> int \<Rightarrow> string list" where
  "gen_split s sep save n =
     (let most = (if n < 0 then length s else nat n - 1) in
      if n = 0 then []
      else if sep = [] then explode_pieces most (map snd (segments s))
      else split_pieces (min most (length s)) sep save s)"

text \<open>\<open>strings.Replace\<close>; an empty \<open>old\<close> matches before the first rune and after every rune.\<close>

fun insert_after :: "nat \<Rightarrow> string \<Rightarrow> string list \<Rightarrow> string" where
  "insert_after 0 t segs = concat segs"
| "insert_after (Suc k) t [] = []"
| "insert_after (Suc k) t (x # segs) = x @ t @ insert_after k t segs"

definition str_replace :: "string \<Rightarrow> string \<Rightarrow> string \<Rightarrow> int \<Rightarrow> string" where
  "str_replace s old t n =
     (if old = t \<or> n = 0 then s
      else if old = [] then
        (let segs = map snd (segments s); k = (if n < 0 then length segs else nat n - 1) in t @ insert_after k t segs)
      else join_strs t (gen_split s old 0 (if n < 0 then - 1 else n + 1)))"

definition str_count :: "string \<Rightarrow> string \<Rightarrow> int" where
  "str_count s p = (if p = [] then int (length (runes s)) + 1 else int (length (str_split p s)) - 1)"

fun fields_of :: "string \<Rightarrow> (nat \<times> string) list \<Rightarrow> string list" where
  "fields_of acc [] = (if acc = [] then [] else [acc])"
| "fields_of acc ((r, b) # segs) =
     (if rune_is_space r then (if acc = [] then fields_of [] segs else acc # fields_of [] segs)
      else fields_of (acc @ b) segs)"

definition str_fields :: "string \<Rightarrow> string list" where
  "str_fields s = fields_of [] (segments s)"

subsection \<open>Emptiness, length, slices\<close>

definition is_empty :: "string \<Rightarrow> bool" where "is_empty s = (s = [])"
definition is_not_empty :: "string \<Rightarrow> bool" where "is_not_empty s = (\<not> is_empty s)"
definition is_blank :: "string \<Rightarrow> bool" where "is_blank s = (trim_space s = [])"
definition is_not_blank :: "string \<Rightarrow> bool" where "is_not_blank s = (\<not> is_blank s)"

definition length_of :: "string \<Rightarrow> int" where
  "length_of s = int (length (runes s))"

definition sub_runes :: "nat list \<Rightarrow> int \<Rightarrow> int \<Rightarrow> nat list" where
  "sub_runes rs start stop =
     (let start = (if start < 0 then 0 else start);
          stop = (if stop > int (length rs) then int (length rs) else stop)
      in if start > stop then [] else take (nat (stop - start)) (drop (nat start) rs))"

definition sub_string :: "string \<Rightarrow> int \<Rightarrow> int \<Rightarrow> string" where
  "sub_string s start stop = string_of_runes (sub_runes (runes s) start stop)"

definition sub_string_start :: "string \<Rightarrow> int \<Rightarrow> string" where
  "sub_string_start s start = sub_string s start (length_of s)"

definition concat_strs :: "string list \<Rightarrow> string" where "concat_strs ss = join_strs [] ss"
definition replace :: "string \<Rightarrow> string \<Rightarrow> string \<Rightarrow> int \<Rightarrow> string" where "replace s old t n = str_replace s old t n"
definition replace_every :: "string \<Rightarrow> string \<Rightarrow> string \<Rightarrow> string" where "replace_every s old t = str_replace s old t (- 1)"
definition replace_first :: "string \<Rightarrow> string \<Rightarrow> string \<Rightarrow> string" where "replace_first s old t = str_replace s old t 1"
definition remove_all :: "string \<Rightarrow> string \<Rightarrow> string" where "remove_all s p = str_replace s p [] (- 1)"
definition split :: "string \<Rightarrow> string \<Rightarrow> string list" where "split s sep = gen_split s sep 0 (- 1)"
definition split_trim :: "string \<Rightarrow> string \<Rightarrow> string list" where "split_trim s sep = map trim_space (split s sep)"
definition split_n :: "string \<Rightarrow> string \<Rightarrow> int \<Rightarrow> string list" where "split_n s sep n = gen_split s sep 0 n"
definition split_after :: "string \<Rightarrow> string \<Rightarrow> string list" where "split_after s sep = gen_split s sep (length sep) (- 1)"
definition split_after_n :: "string \<Rightarrow> string \<Rightarrow> int \<Rightarrow> string list" where "split_after_n s sep n = gen_split s sep (length sep) n"

definition trim_cutset :: "char \<Rightarrow> bool" where
  "trim_cutset c = ((of_char c :: nat) \<in> {32, 9, 10, 13, 12})"

definition trim :: "string \<Rightarrow> string" where "trim s = trim_space s"
definition trim_left :: "string \<Rightarrow> string" where "trim_left s = dropWhile trim_cutset s"
definition trim_right :: "string \<Rightarrow> string" where "trim_right s = rev (dropWhile trim_cutset (rev s))"
definition contains :: "string \<Rightarrow> string \<Rightarrow> bool" where "contains s p = str_has s p"
definition starts_with :: "string \<Rightarrow> string \<Rightarrow> bool" where "starts_with s p = has_prefix s p"
definition ends_with :: "string \<Rightarrow> string \<Rightarrow> bool" where "ends_with s p = has_suffix s p"
definition index_of :: "string \<Rightarrow> string \<Rightarrow> int" where "index_of s p = index_int (str_index s p)"
definition last_index_of :: "string \<Rightarrow> string \<Rightarrow> int" where "last_index_of s p = index_int (str_last_index s p)"
definition repeat :: "string \<Rightarrow> int \<Rightarrow> string outcome" where "repeat s n = str_repeat s n"
definition count_of :: "string \<Rightarrow> string \<Rightarrow> int" where "count_of s p = str_count s p"
definition join :: "string list \<Rightarrow> string \<Rightarrow> string" where "join ss sep = join_strs sep ss"

definition remove_prefix :: "string \<Rightarrow> string \<Rightarrow> string" where
  "remove_prefix s p = (if has_prefix s p then drop (length p) s else s)"

definition remove_suffix :: "string \<Rightarrow> string \<Rightarrow> string" where
  "remove_suffix s p = (if has_suffix s p then take (length s - length p) s else s)"

text \<open>The swap loop of \<open>Reverse\<close> and of \<open>ReverseWords\<close>: \<open>i\<close> and \<open>j\<close> close in on the middle.\<close>

function swap_loop :: "'a list \<Rightarrow> nat \<Rightarrow> nat \<Rightarrow> 'a list" where
  "swap_loop xs i j = (if i < j then swap_loop (xs[i := xs ! j, j := xs ! i]) (i + 1) (j - 1) else xs)"
  by pat_completeness auto
termination
  by (relation "measure (\<lambda>(xs, i, j). j - i)") auto

declare swap_loop.simps [simp del]

definition reverse :: "string \<Rightarrow> string" where
  "reverse s = string_of_runes (swap_loop (runes s) 0 (length (runes s) - 1))"

definition reverse_words :: "string \<Rightarrow> string" where
  "reverse_words s = join_strs '' '' (swap_loop (str_fields s) 0 (length (str_fields s) - 1))"

subsection \<open>Padding\<close>

text \<open>\<open>strings.Repeat(padStr, (n+len(padStr)-1)/len(padStr))[:n]\<close>: \<open>n\<close> counts runes to add,
  the slice takes bytes.\<close>

definition padding_of :: "string \<Rightarrow> nat \<Rightarrow> string" where
  "padding_of p n = take n (concat (replicate ((n + length p - 1) div length p) p))"

definition pad_left :: "string \<Rightarrow> int \<Rightarrow> string \<Rightarrow> string" where
  "pad_left s n p =
     (if p = [] then s else if length_of s \<ge> n then s
      else padding_of p (nat (n - length_of s)) @ s)"

definition pad_right :: "string \<Rightarrow> int \<Rightarrow> string \<Rightarrow> string" where
  "pad_right s n p =
     (if p = [] then s else if length_of s \<ge> n then s
      else s @ padding_of p (nat (n - length_of s)))"

definition pad_center :: "string \<Rightarrow> int \<Rightarrow> string \<Rightarrow> string" where
  "pad_center s n p =
     (if p = [] then s else if length_of s \<ge> n then s
      else let k = nat (n - length_of s); l = k div 2; r = k - l in padding_of p l @ s @ padding_of p r)"

subsection \<open>Case and naming conventions\<close>

definition to_upper :: "ucd \<Rightarrow> string \<Rightarrow> string" where
  "to_upper u s = string_of_runes (map (uc_to_upper u) (runes s))"

definition to_lower :: "ucd \<Rightarrow> string \<Rightarrow> string" where
  "to_lower u s = string_of_runes (map (uc_to_lower u) (runes s))"

fun title_loop :: "ucd \<Rightarrow> bool \<Rightarrow> nat list \<Rightarrow> nat list" where
  "title_loop u at_start [] = []"
| "title_loop u at_start (r # rs) =
     (if rune_is_space r then r # title_loop u True rs
      else (if at_start then uc_to_title u r else r) # title_loop u False rs)"

definition to_title :: "ucd \<Rightarrow> string \<Rightarrow> string" where
  "to_title u s = string_of_runes (title_loop u True (runes s))"

fun camel_loop :: "ucd \<Rightarrow> bool \<Rightarrow> nat list \<Rightarrow> nat list" where
  "camel_loop u cap [] = []"
| "camel_loop u cap (r # rs) =
     (if alnum u r then (if cap then uc_to_upper u r else uc_to_lower u r) # camel_loop u False rs
      else camel_loop u True rs)"

definition to_camel_case :: "ucd \<Rightarrow> string \<Rightarrow> string" where
  "to_camel_case u s =
     (case camel_loop u False (runes s) of [] \<Rightarrow> string_of_runes [] | r # rs \<Rightarrow> string_of_runes (uc_to_lower u r # rs))"

text \<open>The loop \<open>ToSnakeCase\<close> and \<open>ToKebabCase\<close> share, with their separator: \<open>prev\<close> is the rune
  before (None for the first), \<open>acc\<close> the result so far.\<close>

fun snake_loop :: "ucd \<Rightarrow> nat \<Rightarrow> nat option \<Rightarrow> nat list \<Rightarrow> nat list \<Rightarrow> nat list" where
  "snake_loop u sep prev acc [] = acc"
| "snake_loop u sep prev acc (r # rs) =
     snake_loop u sep (Some r)
       (if uc_upper u r then
          (case prev of None \<Rightarrow> acc | Some p \<Rightarrow> if alnum u p then acc @ [sep] else acc) @ [uc_to_lower u r]
        else if alnum u r then acc @ [uc_to_lower u r]
        else if acc \<noteq> [] \<and> List.last acc \<noteq> sep then acc @ [sep] else acc) rs"

definition strip_last :: "nat \<Rightarrow> nat list \<Rightarrow> nat list" where
  "strip_last sep rs = (if rs \<noteq> [] \<and> List.last rs = sep then butlast rs else rs)"

definition snake_runes :: "ucd \<Rightarrow> nat \<Rightarrow> nat list \<Rightarrow> nat list" where
  "snake_runes u sep rs = strip_last sep (snake_loop u sep None [] rs)"

definition to_snake_case :: "ucd \<Rightarrow> string \<Rightarrow> string" where
  "to_snake_case u s = string_of_runes (snake_runes u 95 (runes s))"

definition to_kebab_case :: "ucd \<Rightarrow> string \<Rightarrow> string" where
  "to_kebab_case u s = string_of_runes (snake_runes u 45 (runes s))"

definition capitalize :: "ucd \<Rightarrow> string \<Rightarrow> string" where
  "capitalize u s = (case runes s of [] \<Rightarrow> s | r # rs \<Rightarrow> string_of_runes (uc_to_upper u r # rs))"

definition uncapitalize :: "ucd \<Rightarrow> string \<Rightarrow> string" where
  "uncapitalize u s = (case runes s of [] \<Rightarrow> s | r # rs \<Rightarrow> string_of_runes (uc_to_lower u r # rs))"

definition swap_case :: "ucd \<Rightarrow> string \<Rightarrow> string" where
  "swap_case u s = string_of_runes (map (\<lambda>r. if uc_upper u r then uc_to_lower u r
     else if uc_lower u r then uc_to_upper u r else r) (runes s))"

subsection \<open>Parts of a string\<close>

definition sub_string_between :: "string \<Rightarrow> string \<Rightarrow> string \<Rightarrow> string" where
  "sub_string_between s start stop =
     (case str_index s start of
        None \<Rightarrow> []
      | Some i \<Rightarrow>
          let rest = drop (i + length start) s in
          (case str_index rest stop of None \<Rightarrow> [] | Some j \<Rightarrow> take j rest))"

definition sub_string_before :: "string \<Rightarrow> string \<Rightarrow> string" where
  "sub_string_before s sep = (case str_index s sep of None \<Rightarrow> s | Some i \<Rightarrow> take i s)"

definition sub_string_after :: "string \<Rightarrow> string \<Rightarrow> string" where
  "sub_string_after s sep = (case str_index s sep of None \<Rightarrow> [] | Some i \<Rightarrow> drop (i + length sep) s)"

definition truncate_str :: "string \<Rightarrow> int \<Rightarrow> string \<Rightarrow> string" where
  "truncate_str s max_len ending =
     (if length_of s \<le> max_len then s
      else if max_len \<le> length_of ending then sub_string s 0 max_len
      else sub_string s 0 (max_len - length_of ending) @ ending)"

definition abbreviate :: "string \<Rightarrow> int \<Rightarrow> string" where
  "abbreviate s max_len = truncate_str s max_len ''...''"

definition trim_all :: "string \<Rightarrow> string" where
  "trim_all s = string_of_runes (filter (\<lambda>r. \<not> rune_is_space r) (runes s))"

definition normalize_space :: "string \<Rightarrow> string" where
  "normalize_space s = join_strs '' '' (str_fields s)"

function wrap_loop :: "nat \<Rightarrow> nat list \<Rightarrow> string list" where
  "wrap_loop n rs = (if rs = [] \<or> n = 0 then [] else string_of_runes (take n rs) # wrap_loop n (drop n rs))"
  by pat_completeness auto
termination
  by (relation "measure (\<lambda>(n, rs). length rs)") auto

declare wrap_loop.simps [simp del]

definition wrap :: "string \<Rightarrow> int \<Rightarrow> string list" where
  "wrap s n = (if n \<le> 0 then [s] else wrap_loop (nat n) (runes s))"

fun first_non_blank_loop :: "nat list \<Rightarrow> string" where
  "first_non_blank_loop [] = []"
| "first_non_blank_loop (r # rs) = (if \<not> rune_is_space r then encode_rune r else first_non_blank_loop rs)"

definition first_non_blank :: "string \<Rightarrow> string" where
  "first_non_blank s = first_non_blank_loop (runes s)"

definition last_non_blank :: "string \<Rightarrow> string" where
  "last_non_blank s = first_non_blank_loop (rev (runes s))"

text \<open>\<open>n %= length\<close> keeps the sign of \<open>n\<close>.\<close>

definition rotate_runes :: "nat list \<Rightarrow> int \<Rightarrow> nat list" where
  "rotate_runes rs n =
     (let m = rem n (int (length rs)); k = nat (if m < 0 then m + int (length rs) else m) in drop k rs @ take k rs)"

definition rotate_str :: "string \<Rightarrow> int \<Rightarrow> string" where
  "rotate_str s n = (if runes s = [] then s else string_of_runes (rotate_runes (runes s) n))"

subsection \<open>Counting and classifying\<close>

definition count_chars :: "string \<Rightarrow> nat \<Rightarrow> int" where
  "count_chars s r = fold (\<lambda>x n. if x = r then n + 1 else n) (runes s) 0"

definition count_words :: "string \<Rightarrow> int" where "count_words s = int (length (str_fields s))"

definition is_numeric :: "ucd \<Rightarrow> string \<Rightarrow> bool" where
  "is_numeric u s = (list_all (uc_digit u) (runes s) \<and> s \<noteq> [])"

definition is_alphabetic :: "ucd \<Rightarrow> string \<Rightarrow> bool" where
  "is_alphabetic u s = (list_all (uc_letter u) (runes s) \<and> s \<noteq> [])"

definition is_alphanumeric :: "ucd \<Rightarrow> string \<Rightarrow> bool" where
  "is_alphanumeric u s = (list_all (\<lambda>r. \<not> (\<not> uc_letter u r \<and> \<not> uc_digit u r)) (runes s) \<and> s \<noteq> [])"

definition is_chinese :: "ucd \<Rightarrow> string \<Rightarrow> bool" where
  "is_chinese u s = list_ex (uc_han u) (runes s)"

definition str_is_email :: "string \<Rightarrow> bool" where
  "str_is_email = full_match (re_seqs
     [re_plus (re_any (lowers @ uppers @ digits @ [(46, 46), (95, 95), (37, 37), (43, 43), (45, 45)])), re_chr CHR ''@'',
      re_plus (re_any (lowers @ uppers @ digits @ [(46, 46), (45, 45)])), re_chr CHR ''.'',
      re_least 2 (re_any (lowers @ uppers))])"

definition str_is_url :: "string \<Rightarrow> bool" where
  "str_is_url = full_match (re_seqs
     [re_opt (re_seqs [re_lit ''http'', re_opt (re_chr CHR ''s''), re_lit ''://'']),
      re_plus (re_any (digits @ lowers @ [(46, 46), (45, 45)])), re_chr CHR ''.'',
      re_range 2 6 (re_any (lowers @ [(46, 46)])),
      RStar (RStar (re_any (digits @ uppers @ lowers @ [(47, 47), (95, 95), (32, 32), (46, 46), (45, 45)]))),
      re_opt (re_chr CHR ''/'')])"

definition str_is_phone :: "string \<Rightarrow> bool" where
  "str_is_phone = full_match (re_seqs [re_chr CHR ''1'', re_any [(51, 57)], re_times 9 re_digit])"

definition is_id_card :: "string \<Rightarrow> bool" where
  "is_id_card = full_match (re_seqs
     [re_any [(49, 57)], re_times 5 re_digit, re_alts [re_lit ''18'', re_lit ''19'', re_lit ''20''], re_times 2 re_digit,
      RAlt (RSeq (re_chr CHR ''0'') (re_any [(49, 57)])) (RSeq (re_chr CHR ''1'') (re_any [(48, 50)])),
      re_alts [RSeq (re_chr CHR ''0'') (re_any [(49, 57)]), RSeq (re_any [(49, 50)]) re_digit,
               RSeq (re_chr CHR ''3'') (re_any [(48, 49)])],
      re_times 3 re_digit, re_any (digits @ [(88, 88), (120, 120)])])"

definition is_chinese_id_card :: "string \<Rightarrow> bool" where
  "is_chinese_id_card s = is_id_card s"

fun palindrome_loop :: "nat list \<Rightarrow> nat \<Rightarrow> nat \<Rightarrow> bool" where
  "palindrome_loop rs i 0 = True"
| "palindrome_loop rs i (Suc j) = (if i < Suc j then (if rs ! i \<noteq> rs ! Suc j then False else palindrome_loop rs (i + 1) j) else True)"

definition is_palindrome :: "string \<Rightarrow> bool" where
  "is_palindrome s = palindrome_loop (runes s) 0 (length (runes s) - 1)"

subsection \<open>Sets of runes, lines, numbers\<close>

fun intersect_loop :: "nat set \<Rightarrow> nat list \<Rightarrow> nat list" where
  "intersect_loop m [] = []"
| "intersect_loop m (r # rs) = (if r \<in> m then r # intersect_loop (m - {r}) rs else intersect_loop m rs)"

definition intersect :: "string \<Rightarrow> string \<Rightarrow> string" where
  "intersect s1 s2 = string_of_runes (intersect_loop (set (runes s2)) (runes s1))"

text \<open>\<open>order\<close> lists the keys of the map in the order Go ranges over them.\<close>

definition union_of :: "(nat list \<Rightarrow> nat list) \<Rightarrow> string \<Rightarrow> string \<Rightarrow> string" where
  "union_of order s1 s2 = string_of_runes (order (remdups (runes s1 @ runes s2)))"

definition difference :: "string \<Rightarrow> string \<Rightarrow> string" where
  "difference s1 s2 = string_of_runes (filter (\<lambda>r. r \<notin> set (runes s2)) (runes s1))"

definition repeat_with_sep :: "string \<Rightarrow> int \<Rightarrow> string \<Rightarrow> string" where
  "repeat_with_sep s n sep = (if n \<le> 0 then [] else join_strs sep (replicate (nat n) s))"

definition newline :: string where "newline = [char_of (10 :: nat)]"

definition indent :: "string \<Rightarrow> string \<Rightarrow> string" where
  "indent s ind = join_strs newline (map (\<lambda>l. ind @ l) (str_split newline s))"

definition unindent :: "string \<Rightarrow> string" where
  "unindent s = join_strs newline (map (dropWhile (\<lambda>c. (of_char c :: nat) \<in> {32, 9})) (str_split newline s))"

definition str_to_int :: "string \<Rightarrow> num_error + int" where "str_to_int s = atoi s"

definition str_to_int_default :: "string \<Rightarrow> int \<Rightarrow> int" where
  "str_to_int_default s d = (case atoi s of Inl e \<Rightarrow> d | Inr n \<Rightarrow> n)"

text \<open>\<open>strconv.ParseBool\<close>.\<close>

definition parse_bool :: "string \<Rightarrow> num_error + bool" where
  "parse_bool s =
     (if s \<in> {''1'', ''t'', ''T'', ''true'', ''TRUE'', ''True''} then Inr True
      else if s \<in> {''0'', ''f'', ''F'', ''false'', ''FALSE'', ''False''} then Inr False
      else Inl (NumSyntax s))"

definition to_bool :: "string \<Rightarrow> num_error + bool" where "to_bool s = parse_bool s"

definition to_bool_default :: "string \<Rightarrow> bool \<Rightarrow> bool" where
  "to_bool_default s d = (case parse_bool s of Inl e \<Rightarrow> d | Inr b \<Rightarrow> b)"

text \<open>\<open>randomString\<close> with the draws of \<open>rand.IntN\<close> in a list; a negative length panics in \<open>make\<close>.\<close>

definition random_string :: "nat list \<Rightarrow> int \<Rightarrow> string \<Rightarrow> string outcome" where
  "random_string draws n charset =
     (if n < 0 then Panic ''makeslice: len out of range''
      else Done (map (\<lambda>i. charset ! (draws ! i mod length charset)) [0..<nat n]))"

subsection \<open>Reversal and palindromes\<close>

lemma swap_loop_nth:
  "j < length xs \<Longrightarrow> length (swap_loop xs i j) = length xs \<and>
     (\<forall>k < length xs. swap_loop xs i j ! k = (if i \<le> k \<and> k \<le> j then xs ! (i + j - k) else xs ! k))"
proof (induction xs i j rule: swap_loop.induct)
  case (1 xs i j)
  show ?case
  proof (cases "i < j")
    case True
    let ?ys = "xs[i := xs ! j, j := xs ! i]"
    have IH: "length (swap_loop ?ys (i + 1) (j - 1)) = length ?ys"
      "\<forall>k < length ?ys. swap_loop ?ys (i + 1) (j - 1) ! k =
         (if i + 1 \<le> k \<and> k \<le> j - 1 then ?ys ! (i + 1 + (j - 1) - k) else ?ys ! k)"
      using 1 True by simp_all
    have "swap_loop xs i j ! k = (if i \<le> k \<and> k \<le> j then xs ! (i + j - k) else xs ! k)" if k: "k < length xs" for k
      using IH(2) k True 1(2) by (auto simp: swap_loop.simps [of xs] nth_list_update)
    then show ?thesis using IH(1) True by (simp add: swap_loop.simps [of xs])
  next
    case False
    then have "i \<le> k \<and> k \<le> j \<Longrightarrow> i + j - k = k" for k by linarith
    then show ?thesis using False by (auto simp: swap_loop.simps [of xs])
  qed
qed

lemma swap_loop_rev: "swap_loop xs 0 (length xs - 1) = rev xs"
proof (cases "xs = []")
  case False
  then show ?thesis using swap_loop_nth [of "length xs - 1" xs 0]
    by (auto intro!: nth_equalityI simp: rev_nth)
qed (simp add: swap_loop.simps)

lemma palindrome_loop_nth:
  "palindrome_loop rs i j \<longleftrightarrow> (\<forall>k. i \<le> k \<and> k \<le> j \<longrightarrow> rs ! k = rs ! (i + j - k))"
proof (induction rs i j rule: palindrome_loop.induct)
  case (2 rs i j)
  show ?case
  proof (cases "i < Suc j")
    case True
    have "(\<forall>k. i \<le> k \<and> k \<le> Suc j \<longrightarrow> rs ! k = rs ! (i + Suc j - k)) \<longleftrightarrow>
        rs ! i = rs ! Suc j \<and> (\<forall>k. i + 1 \<le> k \<and> k \<le> j \<longrightarrow> rs ! k = rs ! (i + 1 + j - k))"
      (is "?L \<longleftrightarrow> ?R")
    proof
      assume l: ?L
      have "rs ! i = rs ! (i + Suc j - i)" using l True by (metis le_refl less_imp_le)
      with l show ?R by auto
    next
      assume r: ?R
      show ?L
      proof (intro allI impI)
        fix k assume k: "i \<le> k \<and> k \<le> Suc j"
        then consider "k = i" | "k = Suc j" | "i + 1 \<le> k" "k \<le> j" by linarith
        then show "rs ! k = rs ! (i + Suc j - k)" using r by cases auto
      qed
    qed
    then show ?thesis using 2 True by simp
  next
    case False
    then show ?thesis by (auto dest: le_antisym)
  qed
qed auto

lemma palindrome_rev: "is_palindrome s \<longleftrightarrow> rev (runes s) = runes s"
proof (cases "runes s = []")
  case False
  then have r: "k \<le> length (runes s) - 1 \<longleftrightarrow> k < length (runes s)" for k
    by (metis Suc_pred' le_simps(2) length_greater_0_conv)
  have "is_palindrome s \<longleftrightarrow> (\<forall>k < length (runes s). runes s ! k = rev (runes s) ! k)"
    unfolding is_palindrome_def palindrome_loop_nth by (simp add: rev_nth r Suc_eq_plus1_left del: One_nat_def)
  then show ?thesis by (metis length_rev nth_equalityI)
qed (simp add: is_palindrome_def)

lemma reverse_rev: "reverse s = string_of_runes (rev (runes s))"
  unfolding reverse_def swap_loop_rev ..

lemma runes_reverse: "runes (reverse s) = rev (runes s)"
  by (simp add: reverse_rev runes_of_string runes_scalar)

text \<open>\<open>Reverse\<close> reverses the runes; on valid UTF-8 it is its own inverse, and the strings it leaves
  alone are those \<open>IsPalindrome\<close> accepts.
\<close>

theorem reverse_involution:
  "runes (reverse s) = rev (runes s) \<and> (valid_utf8 s \<longrightarrow> reverse (reverse s) = s \<and> (is_palindrome s \<longleftrightarrow> reverse s = s))"
proof -
  have "reverse (reverse s) = s" if "valid_utf8 s"
    using that unfolding reverse_rev [of "reverse s"] by (simp add: runes_reverse valid_utf8_def)
  moreover have "is_palindrome s \<longleftrightarrow> reverse s = s" if "valid_utf8 s"
    using that unfolding palindrome_rev by (metis reverse_rev runes_reverse valid_utf8_def)
  ultimately show ?thesis by (simp add: runes_reverse)
qed

theorem reverse_involution_witness:
  "reverse (reverse ''abc'') = ''abc'' \<and> (is_palindrome ''abc'' \<longleftrightarrow> reverse ''abc'' = ''abc'')"
  using reverse_involution [of "''abc''"] ascii_valid_utf8 [of "''abc''"] by (simp add: ascii_def)

subsection \<open>Cutting and filling\<close>

lemma length_of_nonneg [simp]: "0 \<le> length_of s"
  by (simp add: length_of_def)

lemma sub_runes_scalar: "list_all scalar (sub_runes (runes s) a b)"
  using runes_scalar [of s]
  by (auto simp: sub_runes_def Let_def list_all_iff dest!: in_set_takeD in_set_dropD)

lemma runes_sub_string: "runes (sub_string s a b) = sub_runes (runes s) a b"
  by (simp add: sub_string_def runes_of_string sub_runes_scalar)

lemma runes_sub_string_append: "runes (sub_string s a b @ t) = sub_runes (runes s) a b @ runes t"
  by (simp add: sub_string_def runes_of_string_append sub_runes_scalar)

lemma sub_runes_take: "0 \<le> n \<Longrightarrow> sub_runes rs 0 n = take (nat n) rs"
  by (auto simp: sub_runes_def)

text \<open>\<open>Truncate\<close> keeps a text that fits and otherwise gives one of exactly the length asked for:
  the beginning of the text followed by the suffix, or the beginning alone where the suffix
  leaves no room.
\<close>

theorem truncate_exact:
  assumes "0 \<le> n"
  shows "length_of (truncate_str s n t) = min (length_of s) n \<and>
    (n < length_of s \<longrightarrow> runes (truncate_str s n t) =
       (if n \<le> length_of t then take (nat n) (runes s) else take (nat (n - length_of t)) (runes s) @ runes t))"
proof -
  have t: "n < length_of s \<Longrightarrow> runes (truncate_str s n t) =
       (if n \<le> length_of t then take (nat n) (runes s) else take (nat (n - length_of t)) (runes s) @ runes t)"
    using assms by (simp add: truncate_str_def runes_sub_string runes_sub_string_append sub_runes_take)
  moreover have "length_of (truncate_str s n t) = min (length_of s) n"
  proof (cases "n < length_of s")
    case True
    then show ?thesis using t assms by (auto simp: length_of_def)
  next
    case False
    then show ?thesis by (simp add: truncate_str_def)
  qed
  ultimately show ?thesis by blast
qed

theorem truncate_exact_witness:
  "length_of (truncate_str ''abcdef'' 5 ''..'') = min (length_of ''abcdef'') 5"
  using truncate_exact [of 5 "''abcdef''" "''..''"] by simp

lemma ascii_append [simp]: "ascii (a @ b) \<longleftrightarrow> ascii a \<and> ascii b"
  by (simp add: ascii_def)

lemma ascii_take: "ascii a \<Longrightarrow> ascii (take n a)"
  by (auto simp: ascii_def list_all_iff dest: in_set_takeD)

lemma ascii_replicate: "ascii a \<Longrightarrow> ascii (concat (replicate n a))"
  by (induction n) (simp_all add: ascii_def)

lemma padding_length: "p \<noteq> [] \<Longrightarrow> length (padding_of p n) = n"
proof -
  assume "p \<noteq> []"
  then have l: "0 < length p" by simp
  let ?q = "(n + length p - 1) div length p"
  have "?q * length p + (n + length p - 1) mod length p = n + length p - 1" by (rule div_mult_mod_eq)
  moreover have "(n + length p - 1) mod length p < length p" using l by (rule mod_less_divisor)
  ultimately have "n \<le> ?q * length p" using l by linarith
  then show ?thesis unfolding padding_of_def by (simp add: length_concat sum_list_replicate)
qed

lemma padding_ascii: "ascii p \<Longrightarrow> ascii (padding_of p n)"
  by (simp add: padding_of_def ascii_take ascii_replicate)

lemma segments_ascii_append: "ascii a \<Longrightarrow> segments (a @ b) = segments a @ segments b"
  by (induction a) (simp_all add: ascii_def segments_ascii_Cons)

lemma runes_append_ascii: "ascii b \<Longrightarrow> runes (a @ b) = runes a @ runes b"
  by (cases b) (simp_all add: runes_def segments_append ascii_def)

lemma runes_ascii_append: "ascii a \<Longrightarrow> runes (a @ b) = runes a @ runes b"
  by (simp add: runes_def segments_ascii_append)

lemma length_of_padding: "ascii p \<Longrightarrow> p \<noteq> [] \<Longrightarrow> length (runes (padding_of p k)) = k"
  by (simp add: runes_ascii padding_ascii padding_length)

lemma length_of_pad:
  "ascii p \<Longrightarrow> p \<noteq> [] \<Longrightarrow> length_of (padding_of p k @ s) = int k + length_of s \<and>
     length_of (s @ padding_of p k) = length_of s + int k"
  by (simp add: length_of_def runes_append_ascii runes_ascii_append padding_ascii length_of_padding)

text \<open>Padding with ASCII text gives exactly the length asked for and keeps the text whole; padding
  with a longer character is cut inside it, and the result is no valid UTF-8.
\<close>

theorem padding_lengths:
  "(ascii p \<and> p \<noteq> [] \<longrightarrow> length_of (pad_left s n p) = max (length_of s) n \<and>
      length_of (pad_right s n p) = max (length_of s) n \<and> length_of (pad_center s n p) = max (length_of s) n) \<and>
   \<not> valid_utf8 (pad_left ''a'' 2 (encode_rune 233))"
proof
  have "length_of (padding_of p l @ s @ padding_of p r) = int l + length_of s + int r"
    if "ascii p" "p \<noteq> []" for l r
    using that length_of_pad [of p r s] length_of_pad [of p l "s @ padding_of p r"] by simp
  then show "ascii p \<and> p \<noteq> [] \<longrightarrow> length_of (pad_left s n p) = max (length_of s) n \<and>
      length_of (pad_right s n p) = max (length_of s) n \<and> length_of (pad_center s n p) = max (length_of s) n"
    by (auto simp: pad_left_def pad_right_def pad_center_def length_of_pad Let_def)
  have "pad_left ''a'' 2 (encode_rune 233) = [char_of (195 :: nat), CHR ''a'']"
    by (simp add: pad_left_def padding_of_def length_of_def runes_ascii ascii_def encode_rune_def)
  moreover have "runes [char_of (195 :: nat), CHR ''a''] = [65533, 97]"
    by (simp add: runes_def segments_step rune_width.simps cont_byte_def Let_def)
  ultimately show "\<not> valid_utf8 (pad_left ''a'' 2 (encode_rune 233))"
    by (simp add: valid_utf8_def string_of_runes_def encode_rune_def)
qed

theorem padding_lengths_witness:
  "length_of (pad_left ''7'' 3 ''0'') = max (length_of ''7'') 3 \<and> length_of (pad_center ''7'' 4 ''ab'') = max (length_of ''7'') 4"
  using padding_lengths [of "''0''" "''7''" 3] padding_lengths [of "''ab''" "''7''" 4] by (simp add: ascii_def)

subsection \<open>Wrapping and rotating\<close>

lemma wrap_loop_lines:
  assumes "0 < n" and "list_all scalar rs"
  shows "concat (map runes (wrap_loop n rs)) = rs \<and>
    (\<forall>i < length (wrap_loop n rs). length (runes (wrap_loop n rs ! i)) \<le> n \<and>
       (Suc i < length (wrap_loop n rs) \<longrightarrow> length (runes (wrap_loop n rs ! i)) = n))"
  using assms
proof (induction n rs rule: wrap_loop.induct)
  case (1 n rs)
  show ?case
  proof (cases "rs = []")
    case False
    have sc: "list_all scalar (take n rs)" "list_all scalar (drop n rs)"
      using 1(3) by (auto simp: list_all_iff dest: in_set_takeD in_set_dropD)
    have IH: "concat (map runes (wrap_loop n (drop n rs))) = drop n rs \<and>
      (\<forall>i < length (wrap_loop n (drop n rs)). length (runes (wrap_loop n (drop n rs) ! i)) \<le> n \<and>
       (Suc i < length (wrap_loop n (drop n rs)) \<longrightarrow> length (runes (wrap_loop n (drop n rs) ! i)) = n))"
      using 1 False sc(2) by simp
    have w: "wrap_loop n rs = string_of_runes (take n rs) # wrap_loop n (drop n rs)"
      using False 1(2) by (subst wrap_loop.simps) simp
    have more: "wrap_loop n (drop n rs) \<noteq> [] \<Longrightarrow> n < length rs"
      by (subst (asm) wrap_loop.simps) (simp split: if_splits)
    show ?thesis
      unfolding w using IH sc more
      by (auto simp: runes_of_string nth_Cons split: nat.splits)
  qed (simp add: wrap_loop.simps)
qed

text \<open>\<open>Wrap\<close> cuts a text into lines without losing a rune: every line but the last has exactly
  the width asked for, the last no more.
\<close>

theorem wrap_exact:
  assumes "0 < n"
  shows "concat (map runes (wrap s n)) = runes s \<and>
    (\<forall>i < length (wrap s n). length_of (wrap s n ! i) \<le> n \<and> (Suc i < length (wrap s n) \<longrightarrow> length_of (wrap s n ! i) = n))"
  using wrap_loop_lines [of "nat n" "runes s"] assms runes_scalar [of s] by (auto simp: wrap_def length_of_def)

theorem wrap_exact_witness:
  "concat (map runes (wrap ''abcde'' 2)) = runes ''abcde''"
  using wrap_exact [of 2 "''abcde''"] by simp

lemma rotate_runes_rotate: "rs \<noteq> [] \<Longrightarrow> rotate_runes rs n = List.rotate (nat (n mod int (length rs))) rs"
proof -
  assume rs: "rs \<noteq> []"
  let ?l = "int (length rs)"
  let ?m = "rem n ?l"
  have l: "0 < ?l" using rs by simp
  have mod: "(if ?m < 0 then ?m + ?l else ?m) = n mod ?l"
  proof -
    have "n mod ?l = ?m mod ?l" using quot_rem [of n ?l] by (metis mod_mult_self4)
    moreover have "\<bar>?m\<bar> < ?l" using rem_abs [of ?l n] l by simp
    ultimately show ?thesis
      using l mod_pos_pos_trivial [of "?m + ?l" ?l] mod_pos_pos_trivial [of ?m ?l] by (auto simp: abs_if split: if_splits)
  qed
  have "nat (n mod ?l) < length rs" using l by (simp add: nat_less_iff)
  then show ?thesis by (simp add: rotate_runes_def Let_def mod rotate_drop_take)
qed

lemma runes_rotate: "runes s \<noteq> [] \<Longrightarrow> runes (rotate_str s n) = List.rotate (nat (n mod length_of s)) (runes s)"
  using runes_scalar [of s]
  by (simp add: rotate_str_def rotate_runes_rotate length_of_def) (simp add: runes_of_string list_all_iff)

text \<open>\<open>Rotate\<close> is a group action of the integers on the runes: rotating by m and then by n is
  rotating by m + n, whatever their signs and sizes, and rotating back restores valid UTF-8.
\<close>

theorem rotate_group_action:
  "runes (rotate_str (rotate_str s m) n) = runes (rotate_str s (m + n)) \<and>
   (valid_utf8 s \<longrightarrow> rotate_str (rotate_str s n) (- n) = s)"
proof (cases "runes s = []")
  case False
  let ?l = "length_of s"
  have l: "0 < ?l" using False by (simp add: length_of_def)
  have r: "runes (rotate_str (rotate_str s m) n) = runes (rotate_str s (m + n))" for m n
  proof -
    have "runes (rotate_str s m) \<noteq> []" "length_of (rotate_str s m) = ?l"
      using False runes_rotate [of s m] by (simp_all add: length_of_def)
    then have "runes (rotate_str (rotate_str s m) n) = List.rotate (nat (n mod ?l) + nat (m mod ?l)) (runes s)"
      using False by (simp add: runes_rotate rotate_rotate)
    also have "\<dots> = List.rotate (nat ((m + n) mod ?l)) (runes s)"
    proof -
      have "int ((nat (n mod ?l) + nat (m mod ?l)) mod length (runes s)) = (m + n) mod ?l"
        using l by (simp add: length_of_def zmod_int mod_add_eq add.commute)
      then have "(nat (n mod ?l) + nat (m mod ?l)) mod length (runes s) = nat ((m + n) mod ?l)" by linarith
      then show ?thesis by (metis rotate_conv_mod)
    qed
    finally show ?thesis using False by (simp add: runes_rotate)
  qed
  have restore: "string_of_runes (runes (rotate_str t k)) = rotate_str t k" if "runes t \<noteq> []" for t k
  proof -
    have "list_all scalar (rotate_runes (runes t) k)"
      using runes_scalar [of t] that by (simp add: rotate_runes_rotate list_all_iff)
    then show ?thesis using that by (simp add: rotate_str_def runes_of_string)
  qed
  have "rotate_str (rotate_str s n) (- n) = s" if v: "valid_utf8 s"
  proof -
    have "runes (rotate_str (rotate_str s n) (- n)) = runes s"
      using r [of n "- n"] False runes_rotate [of s 0] by simp
    moreover have "runes (rotate_str s n) \<noteq> []" using False by (simp add: runes_rotate)
    ultimately show ?thesis using restore v by (metis valid_utf8_def)
  qed
  with r show ?thesis by simp
qed (simp add: rotate_str_def)

theorem rotate_group_action_witness:
  "rotate_str (rotate_str ''abcd'' (- 7)) (- (- 7)) = ''abcd''"
  using rotate_group_action [where s = "''abcd''" and n = "- 7"] ascii_valid_utf8 [of "''abcd''"] by (simp add: ascii_def)

subsection \<open>Naming conventions are canonical forms\<close>

text \<open>What the tables say of letters: capitals are letters, lowering a letter or digit gives one that
  is lowered already, and makes no capital; the separator is no letter.\<close>

definition ucd_ok :: "ucd \<Rightarrow> nat \<Rightarrow> bool" where
  "ucd_ok u sep \<longleftrightarrow> \<not> alnum u sep \<and> scalar sep \<and>
     (\<forall>r. (uc_upper u r \<longrightarrow> alnum u r) \<and>
        (alnum u r \<longrightarrow> alnum u (uc_to_lower u r) \<and> uc_to_lower u (uc_to_lower u r) = uc_to_lower u r \<and>
           (scalar r \<longrightarrow> scalar (uc_to_lower u r)) \<and> (\<not> uc_upper u r \<longrightarrow> \<not> uc_upper u (uc_to_lower u r))))"

text \<open>A canonical text: lowered letters and digits with single separators between them, one before
  every rune that is still a capital.\<close>

fun link_ok :: "ucd \<Rightarrow> nat \<Rightarrow> nat option \<Rightarrow> nat \<Rightarrow> bool" where
  "link_ok u sep prev x =
     (if x = sep then (case prev of None \<Rightarrow> False | Some p \<Rightarrow> p \<noteq> sep)
      else alnum u x \<and> uc_to_lower u x = x \<and> (uc_upper u x \<longrightarrow> prev = None \<or> prev = Some sep))"

fun canonical :: "ucd \<Rightarrow> nat \<Rightarrow> nat option \<Rightarrow> nat list \<Rightarrow> bool" where
  "canonical u sep prev [] = True"
| "canonical u sep prev (x # xs) = (link_ok u sep prev x \<and> canonical u sep (Some x) xs)"

abbreviation last_of :: "nat option \<Rightarrow> nat list \<Rightarrow> nat option" where
  "last_of prev xs \<equiv> (if xs = [] then prev else Some (List.last xs))"

lemma canonical_append:
  "canonical u sep prev (xs @ ys) \<longleftrightarrow> canonical u sep prev xs \<and> canonical u sep (last_of prev xs) ys"
  by (induction xs arbitrary: prev) auto

definition in_step :: "ucd \<Rightarrow> nat \<Rightarrow> nat option \<Rightarrow> nat list \<Rightarrow> bool" where
  "in_step u sep prev acc = (case prev of None \<Rightarrow> acc = []
     | Some p \<Rightarrow> if alnum u p then acc \<noteq> [] \<and> List.last acc \<noteq> sep else acc = [] \<or> List.last acc = sep)"

lemma snake_loop_canonical:
  assumes "ucd_ok u sep" "canonical u sep None acc" "in_step u sep prev acc"
  shows "canonical u sep None (snake_loop u sep prev acc rs)"
  using assms
proof (induction u sep prev acc rs rule: snake_loop.induct)
  case (2 u sep prev acc r rs)
  have u: "\<not> alnum u sep" "uc_upper u r \<Longrightarrow> alnum u r"
    "alnum u r \<Longrightarrow> alnum u (uc_to_lower u r) \<and> uc_to_lower u (uc_to_lower u r) = uc_to_lower u r \<and>
       (\<not> uc_upper u r \<longrightarrow> \<not> uc_upper u (uc_to_lower u r))"
    using 2(2) by (auto simp: ucd_ok_def)
  have ns: "alnum u r \<Longrightarrow> uc_to_lower u r \<noteq> sep" using u by metis
  show ?case
    unfolding snake_loop.simps
  proof (rule 2(1) [OF 2(2)], goal_cases)
    case 1
    show ?case using 2(3,4) u ns
      by (auto simp: canonical_append in_step_def split: option.splits if_splits)
  next
    case 2
    show ?case using u ns by (auto simp: in_step_def split: option.splits)
  qed
qed simp

lemma snake_loop_fixes:
  assumes "ucd_ok u sep" "canonical u sep (last_of None acc) rs"
  shows "snake_loop u sep (last_of None acc) acc rs = acc @ rs"
  using assms(2)
proof (induction rs arbitrary: acc)
  case (Cons x rs)
  have u: "\<not> alnum u sep" "\<not> uc_upper u sep" using assms(1) by (auto simp: ucd_ok_def)
  have "snake_loop u sep (Some x) (acc @ [x]) rs = (acc @ [x]) @ rs"
    using Cons.IH [of "acc @ [x]"] Cons.prems by simp
  then show ?case using Cons.prems u by (auto split: option.splits if_splits)
qed simp

lemma snake_runes_canonical:
  assumes "ucd_ok u sep"
  shows "canonical u sep None (snake_runes u sep rs) \<and>
    (snake_runes u sep rs \<noteq> [] \<longrightarrow> List.last (snake_runes u sep rs) \<noteq> sep)"
proof -
  let ?w = "snake_loop u sep None [] rs"
  have c: "canonical u sep None ?w"
    by (rule snake_loop_canonical [OF assms]) (simp_all add: in_step_def)
  show ?thesis
  proof (cases "?w \<noteq> [] \<and> List.last ?w = sep")
    case True
    then obtain v where v: "?w = v @ [sep]" by (metis append_butlast_last_id)
    have "canonical u sep None v" "v \<noteq> [] \<longrightarrow> List.last v \<noteq> sep"
      using c unfolding v canonical_append by (auto split: if_splits)
    then show ?thesis using v by (simp add: snake_runes_def strip_last_def)
  next
    case False
    then show ?thesis using c by (auto simp: snake_runes_def strip_last_def)
  qed
qed

lemma snake_runes_idem:
  assumes "ucd_ok u sep"
  shows "snake_runes u sep (snake_runes u sep rs) = snake_runes u sep rs"
  using snake_loop_fixes [OF assms, of "[]" "snake_runes u sep rs"] snake_runes_canonical [OF assms, of rs]
  by (auto simp: snake_runes_def [of u sep "snake_runes u sep rs"] strip_last_def)

lemma snake_loop_scalar:
  assumes "ucd_ok u sep" "list_all scalar acc" "list_all scalar rs"
  shows "list_all scalar (snake_loop u sep prev acc rs)"
  using assms
proof (induction u sep prev acc rs rule: snake_loop.induct)
  case (2 u sep prev acc r rs)
  have "scalar sep" "alnum u r \<Longrightarrow> scalar (uc_to_lower u r)" "uc_upper u r \<Longrightarrow> alnum u r"
    using 2(2,4) by (auto simp: ucd_ok_def)
  then show ?case unfolding snake_loop.simps
    by (intro 2(1) [OF 2(2)]) (use 2(3,4) in \<open>auto split: option.splits\<close>)
qed simp

lemma snake_runes_scalar:
  assumes "ucd_ok u sep"
  shows "list_all scalar (snake_runes u sep (runes s))"
  using snake_loop_scalar [OF assms _ runes_scalar [of s], of "[]" None]
  by (auto simp: snake_runes_def strip_last_def list_all_iff dest: in_set_butlastD)

lemma canonical_single_separators:
  "canonical u sep prev rs \<Longrightarrow> successively (\<lambda>a b. \<not> (a = sep \<and> b = sep)) rs"
proof (induction rs arbitrary: prev)
  case (Cons x rs)
  then have "successively (\<lambda>a b. \<not> (a = sep \<and> b = sep)) rs" by (metis canonical.simps(2))
  then show ?case using Cons.prems by (cases rs) (auto split: if_splits)
qed simp

text \<open>C39. \<open>ToSnakeCase\<close> and \<open>ToKebabCase\<close> give canonical names: converting again changes nothing, and a
  name neither starts nor ends with the separator and never has two in a row.
\<close>

theorem snake_case_canonical:
  assumes "ucd_ok u 95" and "ucd_ok u 45"
  shows "to_snake_case u (to_snake_case u s) = to_snake_case u s \<and>
    to_kebab_case u (to_kebab_case u s) = to_kebab_case u s \<and>
    (let rs = runes (to_snake_case u s) in
       (rs \<noteq> [] \<longrightarrow> hd rs \<noteq> 95 \<and> List.last rs \<noteq> 95) \<and> successively (\<lambda>a b. \<not> (a = 95 \<and> b = 95)) rs)"
proof -
  have r: "runes (to_snake_case u s) = snake_runes u 95 (runes s)" "runes (to_kebab_case u s) = snake_runes u 45 (runes s)"
    using assms by (simp_all add: to_snake_case_def to_kebab_case_def runes_of_string snake_runes_scalar)
  have c: "canonical u 95 None (snake_runes u 95 (runes s))"
    "snake_runes u 95 (runes s) \<noteq> [] \<longrightarrow> List.last (snake_runes u 95 (runes s)) \<noteq> 95"
    using snake_runes_canonical [OF assms(1)] by blast+
  have "to_snake_case u (to_snake_case u s) = to_snake_case u s" "to_kebab_case u (to_kebab_case u s) = to_kebab_case u s"
    unfolding to_snake_case_def [of u "to_snake_case u s"] to_kebab_case_def [of u "to_kebab_case u s"] r
    using assms by (simp_all add: snake_runes_idem to_snake_case_def to_kebab_case_def)
  moreover have "snake_runes u 95 (runes s) \<noteq> [] \<longrightarrow> hd (snake_runes u 95 (runes s)) \<noteq> 95"
    using c(1) by (cases "snake_runes u 95 (runes s)") auto
  ultimately show ?thesis
    using c canonical_single_separators [OF c(1)] by (simp add: r)
qed

lemma ascii_ucd_ok: "r \<in> {45, 95} \<Longrightarrow> ucd_ok ascii_ucd r"
  by (auto simp: ucd_ok_def ascii_ucd_def alnum_def scalar_def)

theorem snake_case_canonical_witness:
  "to_snake_case ascii_ucd (to_snake_case ascii_ucd ''HTTPServer-v2'') = to_snake_case ascii_ucd ''HTTPServer-v2''"
  using snake_case_canonical [of ascii_ucd "''HTTPServer-v2''"] by (simp add: ascii_ucd_ok)

subsection \<open>Splitting and joining\<close>

lemma join_split_pieces: "sep \<noteq> [] \<Longrightarrow> join_strs sep (split_pieces n sep 0 s) = s"
proof (induction n arbitrary: s)
  case (Suc n)
  show ?case
  proof (cases "str_index s sep")
    case (Some m)
    have "s = take m s @ sep @ drop (m + length sep) s" by (rule str_index_split [OF Some])
    moreover have "split_pieces n sep 0 (drop (m + length sep) s) \<noteq> []"
      by (cases n) (simp_all split: option.split)
    ultimately show ?thesis using Suc.IH [OF Suc.prems, of "drop (m + length sep) s"] Some
      by (cases "split_pieces n sep 0 (drop (m + length sep) s)") simp_all
  qed simp
qed simp

lemma concat_split_pieces: "concat (split_pieces n sep (length sep) s) = s"
proof (induction n arbitrary: s)
  case (Suc n)
  show ?case
  proof (cases "str_index s sep")
    case (Some m)
    then have "take (m + length sep) s @ drop (m + length sep) s = s" by simp
    then show ?thesis using Suc.IH Some by simp
  qed simp
qed simp

lemma concat_explode: "concat (explode_pieces n segs) = concat segs"
  by (induction n segs rule: explode_pieces.induct) simp_all

lemma join_strs_empty: "join_strs [] xs = concat xs"
  by (induction "[] :: string" xs rule: join_strs.induct) simp_all

lemma gen_split_round_trip:
  "n \<noteq> 0 \<Longrightarrow> join_strs sep (gen_split s sep 0 n) = s \<and> concat (gen_split s sep (length sep) n) = s"
  by (cases "sep = []")
    (simp_all add: gen_split_def Let_def join_split_pieces concat_split_pieces concat_explode join_strs_empty segments_bytes)

lemma split_pieces_length: "length (split_pieces n sep save s) \<le> Suc n"
  by (induction n sep save s rule: split_pieces.induct) (auto split: option.split)

lemma split_pieces_min_length: "length (split_pieces (min n k) sep save s) \<le> Suc n"
  using split_pieces_length [of "min n k" sep save s] by simp

lemma explode_pieces_length: "length (explode_pieces n segs) \<le> Suc n"
  by (induction n segs rule: explode_pieces.induct) auto

text \<open>C35. Splitting loses nothing: joining what \<open>SplitN\<close> gives with the separator, or concatenating what
  \<open>SplitAfterN\<close> gives, is the text again, for every separator (the empty one too) and every bound
  but 0; a positive bound bounds the number of pieces, and 0 gives none.
\<close>

theorem split_round_trip:
  "(n \<noteq> 0 \<longrightarrow> join (split_n s sep n) sep = s \<and> concat_strs (split_after_n s sep n) = s) \<and>
   (0 < n \<longrightarrow> int (length (split_n s sep n)) \<le> n) \<and> split_n s sep 0 = [] \<and>
   join (split s sep) sep = s \<and> concat_strs (split_after s sep) = s"
proof -
  have "int (length (split_n s sep n)) \<le> n" if "0 < n"
  proof -
    have "length (gen_split s sep 0 n) \<le> Suc (nat n - 1)"
      using that split_pieces_min_length [of "nat n - 1" "length s" sep 0 s]
        explode_pieces_length [of "nat n - 1" "map snd (segments s)"]
      by (auto simp: gen_split_def Let_def intro: le_trans)
    then show ?thesis using that by (simp add: split_n_def)
  qed
  then show ?thesis
    using gen_split_round_trip [of n sep s] gen_split_round_trip [of "- 1" sep s]
    by (simp add: split_n_def split_def split_after_n_def split_after_def join_def concat_strs_def join_strs_empty gen_split_def)
qed

theorem split_round_trip_witness:
  "join (split_n ''a,b,c'' '','' 2) '','' = ''a,b,c'' \<and> length (split_n ''a,b,c'' '','' 2) \<le> 2"
  using split_round_trip [of 2 "''a,b,c''" "'',''"] by simp

end
