(* ===== verification/WsHub.thy ===== *)
theory WsHub
  imports Prelude
begin

text \<open>
  frame/pkg/websocket/websocket.go: the hub of connections and rooms. A connection is a number
  (the value of its counter) in the hub's heap; the channels of the hub are queues with the
  capacity \<open>make\<close> gave them. The main loop takes an item from any channel that has one
  (\<open>run_step\<close>, in the order a scheduler picks), the clients fill the channels, close
  connections and send; \<open>hub_step\<close> is one step of either. Sending on a closed channel panics.
\<close>

subsection \<open>State\<close>

record conn =
  c_id :: string
  c_send :: "string list"
  c_send_closed :: bool
  c_rooms :: "string set"
  c_closed :: bool

record broadcast_msg =
  bm_data :: string
  bm_room :: string
  bm_exclude :: string

datatype callback = OnConnect nat | OnDisconnect nat

record hub =
  connections :: "(string, nat) gomap"
  hrooms :: "(string, (string, nat) gomap) gomap"
  q_register :: "nat list"
  q_unregister :: "nat list"
  q_broadcast :: "broadcast_msg list"
  q_join :: "(nat \<times> string) list"
  q_leave :: "(nat \<times> string) list"
  heap :: "nat \<Rightarrow> conn"
  next_conn :: nat
  send_buffer :: nat
  calls :: "callback list"

definition blank_conn :: conn where
  "blank_conn = \<lparr>c_id = [], c_send = [], c_send_closed = False, c_rooms = {}, c_closed = False\<rparr>"

definition new_hub :: hub where
  "new_hub = \<lparr>connections = [], hrooms = [], q_register = [], q_unregister = [], q_broadcast = [], q_join = [], q_leave = [],
     heap = (\<lambda>n. blank_conn), next_conn = 0, send_buffer = 256, calls = []\<rparr>"

definition reg_cap :: nat where "reg_cap = 64"
definition broadcast_cap :: nat where "broadcast_cap = 256"

definition set_conn :: "nat \<Rightarrow> (conn \<Rightarrow> conn) \<Rightarrow> hub \<Rightarrow> hub" where
  "set_conn n f h = h\<lparr>heap := (heap h)(n := f (heap h n))\<rparr>"

definition generate_conn_id :: "nat \<Rightarrow> nat \<Rightarrow> string" where
  "generate_conn_id ms n = ''conn_'' @ dec_nat ms @ ''_'' @ dec_nat n"

subsection \<open>What the main loop does with an item\<close>

definition handle_register :: "nat \<Rightarrow> hub \<Rightarrow> hub" where
  "handle_register n h =
     h\<lparr>connections := gm_put (c_id (heap h n)) n (connections h), calls := calls h @ [OnConnect n]\<rparr>"

definition members_of :: "hub \<Rightarrow> string \<Rightarrow> (string, nat) gomap" where
  "members_of h room = (case gm_get (hrooms h) room of None \<Rightarrow> [] | Some ms \<Rightarrow> ms)"

text \<open>Deleting a member, and the room when it was the last.\<close>

definition drop_member :: "string \<Rightarrow> string \<Rightarrow> (string, (string, nat) gomap) gomap \<Rightarrow> (string, (string, nat) gomap) gomap" where
  "drop_member cid room rooms =
     (case gm_get rooms room of
        None \<Rightarrow> rooms
      | Some ms \<Rightarrow> let ms' = gm_del cid ms in if ms' = [] then gm_del room rooms else gm_put room ms' rooms)"

text \<open>The rooms of the connection are visited in the order of the hub's map; their order does not matter.\<close>

definition drop_everywhere :: "string \<Rightarrow> string set \<Rightarrow> (string, (string, nat) gomap) gomap \<Rightarrow> (string, (string, nat) gomap) gomap" where
  "drop_everywhere cid rs rooms = fold (drop_member cid) (filter (\<lambda>r. r \<in> rs) (map fst rooms)) rooms"

definition handle_unregister :: "nat \<Rightarrow> hub \<Rightarrow> hub" where
  "handle_unregister n h =
     (let c = heap h n;
          h' = (if gm_has (connections h) (c_id c) then
                  h\<lparr>connections := gm_del (c_id c) (connections h), hrooms := drop_everywhere (c_id c) (c_rooms c) (hrooms h)\<rparr>
                else h)
      in h'\<lparr>calls := calls h' @ [OnDisconnect n]\<rparr>)"

text \<open>The select with a default: a closed channel panics, a full one is skipped.\<close>

definition try_send :: "nat \<Rightarrow> string \<Rightarrow> hub \<Rightarrow> hub outcome" where
  "try_send n data h =
     (if c_send_closed (heap h n) then Panic ''send on closed channel''
      else if length (c_send (heap h n)) < send_buffer h then Done (set_conn n (c_send_update (\<lambda>b. b @ [data])) h)
      else Done h)"

fun broadcast_loop :: "string \<Rightarrow> string \<Rightarrow> (string \<times> nat) list \<Rightarrow> hub \<Rightarrow> hub outcome" where
  "broadcast_loop data exclude [] h = Done h"
| "broadcast_loop data exclude ((cid, n) # ms) h =
     (if cid = exclude then broadcast_loop data exclude ms h
      else bind_outcome (try_send n data h) (broadcast_loop data exclude ms))"

definition targets :: "hub \<Rightarrow> broadcast_msg \<Rightarrow> (string, nat) gomap" where
  "targets h m = (if bm_room m = [] then connections h else members_of h (bm_room m))"

definition handle_broadcast :: "broadcast_msg \<Rightarrow> hub \<Rightarrow> hub outcome" where
  "handle_broadcast m h = broadcast_loop (bm_data m) (bm_exclude m) (targets h m) h"

definition handle_join :: "nat \<times> string \<Rightarrow> hub \<Rightarrow> hub" where
  "handle_join op h =
     (let n = fst op; room = snd op in
      set_conn n (c_rooms_update (\<lambda>rs. insert room rs))
        (h\<lparr>hrooms := gm_put room (gm_put (c_id (heap h n)) n (members_of h room)) (hrooms h)\<rparr>))"

definition handle_leave :: "nat \<times> string \<Rightarrow> hub \<Rightarrow> hub" where
  "handle_leave op h =
     (let n = fst op; room = snd op in
      set_conn n (c_rooms_update (\<lambda>rs. rs - {room})) (h\<lparr>hrooms := drop_member (c_id (heap h n)) room (hrooms h)\<rparr>))"

datatype channel = ChRegister | ChUnregister | ChBroadcast | ChJoin | ChLeave

text \<open>One turn of the loop on a channel that has an item; None when the channel is empty.\<close>

fun run_step :: "channel \<Rightarrow> hub \<Rightarrow> hub outcome option" where
  "run_step ChRegister h = (case q_register h of [] \<Rightarrow> None | n # q \<Rightarrow> Some (Done (handle_register n (h\<lparr>q_register := q\<rparr>))))"
| "run_step ChUnregister h = (case q_unregister h of [] \<Rightarrow> None | n # q \<Rightarrow> Some (Done (handle_unregister n (h\<lparr>q_unregister := q\<rparr>))))"
| "run_step ChBroadcast h = (case q_broadcast h of [] \<Rightarrow> None | m # q \<Rightarrow> Some (handle_broadcast m (h\<lparr>q_broadcast := q\<rparr>)))"
| "run_step ChJoin h = (case q_join h of [] \<Rightarrow> None | op # q \<Rightarrow> Some (Done (handle_join op (h\<lparr>q_join := q\<rparr>))))"
| "run_step ChLeave h = (case q_leave h of [] \<Rightarrow> None | op # q \<Rightarrow> Some (Done (handle_leave op (h\<lparr>q_leave := q\<rparr>))))"

subsection \<open>What the clients do\<close>

text \<open>A send to a channel that is full waits: there is no step until the loop makes room.\<close>

definition accept :: "nat \<Rightarrow> hub \<Rightarrow> hub option" where
  "accept ms h =
     (if length (q_register h) < reg_cap then
        let n = next_conn h + 1 in
        Some (set_conn n (\<lambda>c. blank_conn\<lparr>c_id := generate_conn_id ms n\<rparr>)
          (h\<lparr>q_register := q_register h @ [n], next_conn := n\<rparr>))
      else None)"

definition conn_close :: "nat \<Rightarrow> hub \<Rightarrow> hub option" where
  "conn_close n h =
     (if c_closed (heap h n) then Some h
      else if length (q_unregister h) < reg_cap then
        Some ((set_conn n (\<lambda>c. c\<lparr>c_closed := True, c_send_closed := True\<rparr>) h)\<lparr>q_unregister := q_unregister h @ [n]\<rparr>)
      else None)"

text \<open>\<open>Conn.Send\<close> looks at the flag and then sends: two steps, between which others run.\<close>

datatype send_error = ConnClosed string | BufferFull string | ConnNotFound string

definition send_check :: "nat \<Rightarrow> hub \<Rightarrow> send_error + unit" where
  "send_check n h = (if c_closed (heap h n) then Inl (ConnClosed (c_id (heap h n))) else Inr ())"

definition send_put :: "nat \<Rightarrow> string \<Rightarrow> hub \<Rightarrow> ((send_error + unit) \<times> hub) outcome" where
  "send_put n data h =
     (if c_send_closed (heap h n) then Panic ''send on closed channel''
      else if length (c_send (heap h n)) < send_buffer h
      then Done (Inr (), set_conn n (c_send_update (\<lambda>b. b @ [data])) h)
      else Done (Inl (BufferFull (c_id (heap h n))), h))"

definition conn_send :: "nat \<Rightarrow> string \<Rightarrow> hub \<Rightarrow> ((send_error + unit) \<times> hub) outcome" where
  "conn_send n data h = (case send_check n h of Inl e \<Rightarrow> Done (Inl e, h) | Inr _ \<Rightarrow> send_put n data h)"

definition send_to :: "string \<Rightarrow> string \<Rightarrow> hub \<Rightarrow> ((send_error + unit) \<times> hub) outcome" where
  "send_to cid data h =
     (case gm_get (connections h) cid of None \<Rightarrow> Done (Inl (ConnNotFound cid), h) | Some n \<Rightarrow> conn_send n data h)"

text \<open>\<open>writePump\<close> takes the next message.\<close>

definition write_next :: "nat \<Rightarrow> hub \<Rightarrow> (string \<times> hub) option" where
  "write_next n h =
     (case c_send (heap h n) of [] \<Rightarrow> None | m # b \<Rightarrow> Some (m, set_conn n (c_send_update (\<lambda>_. b)) h))"

definition post_broadcast :: "broadcast_msg \<Rightarrow> hub \<Rightarrow> hub option" where
  "post_broadcast m h =
     (if length (q_broadcast h) < broadcast_cap then Some (h\<lparr>q_broadcast := q_broadcast h @ [m]\<rparr>) else None)"

definition broadcast_all :: "string \<Rightarrow> hub \<Rightarrow> hub option" where
  "broadcast_all data h = post_broadcast \<lparr>bm_data = data, bm_room = [], bm_exclude = []\<rparr> h"

definition broadcast_to_room :: "string \<Rightarrow> string \<Rightarrow> hub \<Rightarrow> hub option" where
  "broadcast_to_room room data h = post_broadcast \<lparr>bm_data = data, bm_room = room, bm_exclude = []\<rparr> h"

definition broadcast_exclude :: "string \<Rightarrow> string \<Rightarrow> hub \<Rightarrow> hub option" where
  "broadcast_exclude data cid h = post_broadcast \<lparr>bm_data = data, bm_room = [], bm_exclude = cid\<rparr> h"

definition broadcast_to_room_exclude :: "string \<Rightarrow> string \<Rightarrow> string \<Rightarrow> hub \<Rightarrow> hub option" where
  "broadcast_to_room_exclude room data cid h = post_broadcast \<lparr>bm_data = data, bm_room = room, bm_exclude = cid\<rparr> h"

definition join_room :: "nat \<Rightarrow> string \<Rightarrow> hub \<Rightarrow> hub option" where
  "join_room n room h = (if length (q_join h) < reg_cap then Some (h\<lparr>q_join := q_join h @ [(n, room)]\<rparr>) else None)"

definition leave_room :: "nat \<Rightarrow> string \<Rightarrow> hub \<Rightarrow> hub option" where
  "leave_room n room h = (if length (q_leave h) < reg_cap then Some (h\<lparr>q_leave := q_leave h @ [(n, room)]\<rparr>) else None)"

definition get_conn :: "string \<Rightarrow> hub \<Rightarrow> nat option" where
  "get_conn cid h = gm_get (connections h) cid"

definition conn_count :: "hub \<Rightarrow> nat" where
  "conn_count h = length (connections h)"

definition room_count :: "string \<Rightarrow> hub \<Rightarrow> nat" where
  "room_count room h = (case gm_get (hrooms h) room of Some ms \<Rightarrow> length ms | None \<Rightarrow> 0)"

subsection \<open>Steps\<close>

datatype label =
    LRun channel | LAccept nat | LClose nat | LPut nat string | LWrite nat | LBroadcast broadcast_msg
  | LJoin nat string | LLeave nat string

text \<open>The connections handed out so far.\<close>

definition live :: "nat \<Rightarrow> hub \<Rightarrow> bool" where
  "live n h = (1 \<le> n \<and> n \<le> next_conn h)"

inductive hub_step :: "hub \<Rightarrow> label \<Rightarrow> hub \<Rightarrow> bool" where
  step_run: "run_step ch h = Some (Done h') \<Longrightarrow> hub_step h (LRun ch) h'"
| step_accept: "accept ms h = Some h' \<Longrightarrow> hub_step h (LAccept ms) h'"
| step_close: "conn_close n h = Some h' \<Longrightarrow> live n h \<Longrightarrow> hub_step h (LClose n) h'"
| step_put: "send_put n data h = Done (r, h') \<Longrightarrow> live n h \<Longrightarrow> hub_step h (LPut n data) h'"
| step_write: "write_next n h = Some (m, h') \<Longrightarrow> live n h \<Longrightarrow> hub_step h (LWrite n) h'"
| step_broadcast: "post_broadcast m h = Some h' \<Longrightarrow> hub_step h (LBroadcast m) h'"
| step_join: "join_room n room h = Some h' \<Longrightarrow> live n h \<Longrightarrow> hub_step h (LJoin n room) h'"
| step_leave: "leave_room n room h = Some h' \<Longrightarrow> live n h \<Longrightarrow> hub_step h (LLeave n room) h'"

inductive reachable :: "hub \<Rightarrow> bool" where
  start: "reachable new_hub"
| onward: "reachable h \<Longrightarrow> hub_step h l h' \<Longrightarrow> reachable h'"

inductive_cases hub_stepE: "hub_step h l h'"

subsection \<open>Members of rooms\<close>

definition look :: "(string, (string, nat) gomap) gomap \<Rightarrow> string \<Rightarrow> string \<Rightarrow> nat option" where
  "look rs r i = (case gm_get rs r of None \<Rightarrow> None | Some ms \<Rightarrow> gm_get ms i)"

definition rooms_ok :: "(string, (string, nat) gomap) gomap \<Rightarrow> bool" where
  "rooms_ok rs \<longleftrightarrow> gm_ok rs \<and> (\<forall>r ms. gm_get rs r = Some ms \<longrightarrow> ms \<noteq> [] \<and> gm_ok ms)"

lemma look_members: "look (hrooms h) r i = gm_get (members_of h r) i"
  by (simp add: look_def members_of_def split: option.split)

lemma look_drop_member:
  "look (drop_member cid room rs) r i = (if r = room \<and> i = cid then None else look rs r i)"
proof (cases "gm_get rs room")
  case (Some ms)
  have "gm_del cid ms = [] \<Longrightarrow> i \<noteq> cid \<Longrightarrow> gm_get ms i = None"
    using gm_get_del [of cid ms i] by simp
  then show ?thesis using Some
    by (auto simp: drop_member_def look_def Let_def)
qed (auto simp: drop_member_def look_def)

lemma rooms_ok_drop_member: "rooms_ok rs \<Longrightarrow> rooms_ok (drop_member cid room rs)"
  by (auto simp: rooms_ok_def drop_member_def Let_def split: option.split if_splits)

lemma look_drop_fold:
  "look (fold (drop_member cid) xs rs) r i = (if i = cid \<and> r \<in> set xs then None else look rs r i)"
  by (induction xs arbitrary: rs) (auto simp: look_drop_member)

lemma look_drop_everywhere:
  "look (drop_everywhere cid s rs) r i = (if i = cid \<and> r \<in> s then None else look rs r i)"
proof -
  have "r \<notin> fst ` set rs \<Longrightarrow> look rs r i = None"
    by (simp add: look_def flip: map_of_eq_None_iff)
  then show ?thesis by (auto simp: drop_everywhere_def look_drop_fold)
qed

lemma rooms_ok_drop_everywhere: "rooms_ok rs \<Longrightarrow> rooms_ok (drop_everywhere cid s rs)"
proof -
  have "rooms_ok rs \<Longrightarrow> rooms_ok (fold (drop_member cid) xs rs)" for xs
    by (induction xs arbitrary: rs) (auto intro: rooms_ok_drop_member)
  then show "rooms_ok rs \<Longrightarrow> ?thesis" by (simp add: drop_everywhere_def)
qed

lemma members_ok: "rooms_ok (hrooms h) \<Longrightarrow> gm_ok (members_of h r)"
  by (auto simp: rooms_ok_def members_of_def split: option.split)

subsection \<open>Connection ids differ\<close>

lemma append_char_inj: "a @ c # b = a' @ c # b' \<Longrightarrow> c \<notin> set b \<Longrightarrow> c \<notin> set b' \<Longrightarrow> b = b'"
  by (auto simp: append_eq_append_conv2 Cons_eq_append_conv append_eq_Cons_conv)

lemma generate_conn_id_inj: "generate_conn_id ms n = generate_conn_id ms' n' \<Longrightarrow> n = n'"
proof -
  assume e: "generate_conn_id ms n = generate_conn_id ms' n'"
  have d: "CHR ''_'' \<notin> set (dec_nat k)" for k
    using dec_nat_digits [of "CHR ''_''" k] by auto
  have "dec_nat ms @ CHR ''_'' # dec_nat n = dec_nat ms' @ CHR ''_'' # dec_nat n'"
    using e by (simp add: generate_conn_id_def)
  then show ?thesis using append_char_inj d dec_nat_inj by metis
qed

subsection \<open>The invariant\<close>

definition hub_ok :: "hub \<Rightarrow> bool" where
  "hub_ok h \<longleftrightarrow>
     gm_ok (connections h) \<and> rooms_ok (hrooms h) \<and>
     (\<forall>n. live n h \<longrightarrow> (\<exists>ms. c_id (heap h n) = generate_conn_id ms n)) \<and>
     (\<forall>i n. gm_get (connections h) i = Some n \<longrightarrow> live n h \<and> i = c_id (heap h n)) \<and>
     (\<forall>r i n. look (hrooms h) r i = Some n \<longrightarrow> live n h \<and> i = c_id (heap h n) \<and> r \<in> c_rooms (heap h n)) \<and>
     (\<forall>n r. live n h \<and> r \<in> c_rooms (heap h n) \<and>
        (gm_get (connections h) (c_id (heap h n)) = Some n \<or> n \<in> set (q_register h)) \<longrightarrow>
        look (hrooms h) r (c_id (heap h n)) = Some n) \<and>
     distinct (q_register h) \<and>
     (\<forall>n \<in> set (q_register h). live n h \<and> gm_get (connections h) (c_id (heap h n)) \<noteq> Some n) \<and>
     (\<forall>n \<in> set (q_unregister h). live n h) \<and>
     (\<forall>x \<in> set (q_join h) \<union> set (q_leave h). live (fst x) h)"

text \<open>A step as the lookups see it: which connections are registered afterwards, who is in which
  room, and what became of the rooms each connection remembers.\<close>

lemma hub_ok_change:
  assumes ok: "hub_ok h" and maps: "gm_ok (connections h')" "rooms_ok (hrooms h')"
    and heap: "next_conn h' = next_conn h" "\<And>m. c_id (heap h' m) = c_id (heap h m)"
    and conns: "\<And>i m. gm_get (connections h') i = Some m \<Longrightarrow>
        gm_get (connections h) i = Some m \<or> m \<in> set (q_register h) \<and> i = c_id (heap h m)"
    and sound: "\<And>r i m. look (hrooms h') r i = Some m \<Longrightarrow> live m h \<and> i = c_id (heap h m) \<and> r \<in> c_rooms (heap h' m)"
    and complete: "\<And>m r. live m h \<Longrightarrow> r \<in> c_rooms (heap h' m) \<Longrightarrow>
        gm_get (connections h') (c_id (heap h m)) = Some m \<or> m \<in> set (q_register h') \<Longrightarrow>
        look (hrooms h') r (c_id (heap h m)) = Some m"
    and queues: "distinct (q_register h')" "set (q_register h') \<subseteq> set (q_register h)"
      "\<And>m. m \<in> set (q_register h') \<Longrightarrow> gm_get (connections h') (c_id (heap h m)) \<noteq> Some m"
      "set (q_unregister h') \<subseteq> set (q_unregister h)" "set (q_join h') \<subseteq> set (q_join h)" "set (q_leave h') \<subseteq> set (q_leave h)"
  shows "hub_ok h'"
proof -
  have live: "live m h' \<longleftrightarrow> live m h" for m using heap(1) by (simp add: live_def)
  have old: "\<forall>i n. gm_get (connections h) i = Some n \<longrightarrow> live n h \<and> i = c_id (heap h n)"
    "\<forall>n \<in> set (q_register h). live n h"
    using ok unfolding hub_ok_def by blast+
  have c: "\<forall>i n. gm_get (connections h') i = Some n \<longrightarrow> live n h \<and> i = c_id (heap h n)"
    using conns old by blast
  show ?thesis
    unfolding hub_ok_def live heap(2)
  proof (intro conjI)
    show "\<forall>n \<in> set (q_register h'). live n h \<and> gm_get (connections h') (c_id (heap h n)) \<noteq> Some n"
      using queues(2,3) old(2) by blast
    show "\<forall>n. live n h \<longrightarrow> (\<exists>ms. c_id (heap h n) = generate_conn_id ms n)"
      "\<forall>n \<in> set (q_unregister h'). live n h" "\<forall>x \<in> set (q_join h') \<union> set (q_leave h'). live (fst x) h"
      using ok queues(4-6) unfolding hub_ok_def by blast+
  qed (use maps sound complete queues c in blast)+
qed

lemma hub_ok_ids: "hub_ok h \<Longrightarrow> live n h \<Longrightarrow> live m h \<Longrightarrow> c_id (heap h n) = c_id (heap h m) \<Longrightarrow> n = m"
  unfolding hub_ok_def using generate_conn_id_inj by metis

lemma hub_ok_new: "hub_ok new_hub"
  by (simp add: hub_ok_def new_hub_def rooms_ok_def look_def live_def)

lemma look_put:
  "look (gm_put room (gm_put cid n (members_of h room)) (hrooms h)) r i =
     (if r = room \<and> i = cid then Some n else look (hrooms h) r i)"
  by (auto simp: look_def members_of_def split: option.split)

lemma rooms_ok_put: "rooms_ok (hrooms h) \<Longrightarrow> rooms_ok (gm_put room (gm_put cid n (members_of h room)) (hrooms h))"
  using members_ok [of h room] by (auto simp: rooms_ok_def)

lemma hub_ok_accept: "hub_ok h \<Longrightarrow> accept ms h = Some h' \<Longrightarrow> hub_ok h'"
proof -
  assume ok: "hub_ok h" and a: "accept ms h = Some h'"
  let ?n = "next_conn h + 1"
  have h': "h' = set_conn ?n (\<lambda>c. blank_conn\<lparr>c_id := generate_conn_id ms ?n\<rparr>)
      (h\<lparr>q_register := q_register h @ [?n], next_conn := ?n\<rparr>)"
    using a by (simp add: accept_def Let_def split: if_splits)
  have fresh: "\<not> live ?n h" by (simp add: live_def)
  have live: "live m h' \<longleftrightarrow> live m h \<or> m = ?n" for m by (auto simp: h' live_def set_conn_def)
  have heap: "live m h \<Longrightarrow> heap h' m = heap h m" for m using fresh by (auto simp: h' set_conn_def)
  have new: "c_id (heap h' ?n) = generate_conn_id ms ?n" "c_rooms (heap h' ?n) = {}"
    by (simp_all add: h' set_conn_def blank_conn_def)
  have same: "connections h' = connections h" "hrooms h' = hrooms h" "q_register h' = q_register h @ [?n]"
    "q_unregister h' = q_unregister h" "q_join h' = q_join h" "q_leave h' = q_leave h"
    by (simp_all add: h' set_conn_def)
  note o = ok [unfolded hub_ok_def]
  show ?thesis
    unfolding hub_ok_def same
  proof (intro conjI)
    show "\<forall>n. live n h' \<longrightarrow> (\<exists>ms. c_id (heap h' n) = generate_conn_id ms n)"
      using o unfolding live by (metis heap new(1))
    show "\<forall>n r. live n h' \<and> r \<in> c_rooms (heap h' n) \<and>
        (gm_get (connections h) (c_id (heap h' n)) = Some n \<or> n \<in> set (q_register h @ [?n])) \<longrightarrow>
        look (hrooms h) r (c_id (heap h' n)) = Some n"
    proof (intro allI impI, elim conjE)
      fix n r
      assume a: "live n h'" "r \<in> c_rooms (heap h' n)"
        "gm_get (connections h) (c_id (heap h' n)) = Some n \<or> n \<in> set (q_register h @ [?n])"
      then have "n \<noteq> ?n" using new(2) by auto
      then show "look (hrooms h) r (c_id (heap h' n)) = Some n" using a live heap o by auto
    qed
    show "\<forall>n \<in> set (q_register h @ [?n]). live n h' \<and> gm_get (connections h) (c_id (heap h' n)) \<noteq> Some n"
      using o fresh live heap by (metis Un_iff empty_iff empty_set list.set_intros(1) list.simps(15) set_append insert_iff)
    show "distinct (q_register h @ [?n])" using o fresh by auto
    show "\<forall>i n. gm_get (connections h) i = Some n \<longrightarrow> live n h' \<and> i = c_id (heap h' n)"
      "\<forall>r i n. look (hrooms h) r i = Some n \<longrightarrow> live n h' \<and> i = c_id (heap h' n) \<and> r \<in> c_rooms (heap h' n)"
      using o live heap by metis+
  qed (use o live in blast)+
qed

lemma queued_live:
  "hub_ok h \<Longrightarrow> n \<in> set (q_register h) \<union> set (q_unregister h) \<union> fst ` set (q_join h) \<union> fst ` set (q_leave h) \<Longrightarrow> live n h"
  unfolding hub_ok_def by auto

lemma hub_ok_register:
  assumes ok: "hub_ok h" and q: "q_register h = n # q"
  shows "hub_ok (handle_register n (h\<lparr>q_register := q\<rparr>))"
proof -
  note o = ok [unfolded hub_ok_def]
  have n: "live n h" "n \<in> set (q_register h)" using queued_live [OF ok] q by simp_all
  have ids: "live m h \<Longrightarrow> c_id (heap h m) = c_id (heap h n) \<longleftrightarrow> m = n" for m using hub_ok_ids [OF ok _ n(1)] by blast
  let ?h = "handle_register n (h\<lparr>q_register := q\<rparr>)"
  have conns: "gm_get (connections ?h) i = (if i = c_id (heap h n) then Some n else gm_get (connections h) i)" for i
    by (simp add: handle_register_def)
  have same: "heap ?h = heap h" "hrooms ?h = hrooms h" "q_register ?h = q" "q_unregister ?h = q_unregister h"
    "q_join ?h = q_join h" "q_leave ?h = q_leave h" "next_conn ?h = next_conn h"
    by (simp_all add: handle_register_def)
  have maps: "gm_ok (connections ?h)" "rooms_ok (hrooms ?h)" using o by (simp_all add: handle_register_def)
  have dq: "distinct q" "n \<notin> set q" "set q \<subseteq> set (q_register h)" using o q by auto
  show ?thesis
  proof (rule hub_ok_change [OF ok maps], unfold same conns)
    fix m r
    assume m: "live m h" "r \<in> c_rooms (heap h m)"
      "(if c_id (heap h m) = c_id (heap h n) then Some n else gm_get (connections h) (c_id (heap h m))) = Some m \<or> m \<in> set q"
    then have "gm_get (connections h) (c_id (heap h m)) = Some m \<or> m \<in> set (q_register h)"
      using n dq by (auto split: if_splits)
    then show "look (hrooms h) r (c_id (heap h m)) = Some m" using o m by blast
  next
    fix m
    assume m: "m \<in> set q"
    then have "live m h" "m \<noteq> n" using queued_live [OF ok] dq by auto
    then show "(if c_id (heap h m) = c_id (heap h n) then Some n else gm_get (connections h) (c_id (heap h m))) \<noteq> Some m"
      using ids m dq o by auto
  next
    fix i m
    assume "(if i = c_id (heap h n) then Some n else gm_get (connections h) i) = Some m"
    then show "gm_get (connections h) i = Some m \<or> m \<in> set (q_register h) \<and> i = c_id (heap h m)"
      using n by (auto split: if_splits)
  qed (use o dq in blast)+
qed

lemma hub_ok_unregister:
  assumes ok: "hub_ok h" and q: "q_unregister h = n # q"
  shows "hub_ok (handle_unregister n (h\<lparr>q_unregister := q\<rparr>))"
proof -
  note o = ok [unfolded hub_ok_def]
  have n: "live n h" using queued_live [OF ok] q by simp
  have ids: "live m h \<Longrightarrow> c_id (heap h m) = c_id (heap h n) \<longleftrightarrow> m = n" for m using hub_ok_ids [OF ok _ n] by blast
  have gone: "gm_get (connections h) (c_id (heap h n)) = Some y \<Longrightarrow> y = n" for y using o ids by metis
  let ?h = "handle_unregister n (h\<lparr>q_unregister := q\<rparr>)"
  have conns: "gm_get (connections ?h) i = (if i = c_id (heap h n) then None else gm_get (connections h) i)" for i
    by (auto simp: handle_unregister_def Let_def)
  have lk: "look (hrooms ?h) r i = (if i = c_id (heap h n) \<and> r \<in> c_rooms (heap h n) \<and> gm_has (connections h) (c_id (heap h n))
       then None else look (hrooms h) r i)" for r i
    by (auto simp: handle_unregister_def Let_def look_drop_everywhere)
  have same: "heap ?h = heap h" "q_register ?h = q_register h" "q_unregister ?h = q" "q_join ?h = q_join h"
    "q_leave ?h = q_leave h" "next_conn ?h = next_conn h"
    by (simp_all add: handle_unregister_def Let_def)
  have maps: "gm_ok (connections ?h)" "rooms_ok (hrooms ?h)"
    using o by (auto simp: handle_unregister_def Let_def rooms_ok_drop_everywhere)
  show ?thesis
  proof (rule hub_ok_change [OF ok maps], unfold same conns lk)
    fix m r
    assume m: "live m h" "r \<in> c_rooms (heap h m)"
      "(if c_id (heap h m) = c_id (heap h n) then None else gm_get (connections h) (c_id (heap h m))) = Some m \<or> m \<in> set (q_register h)"
    then have "gm_get (connections h) (c_id (heap h m)) = Some m \<or> m \<in> set (q_register h)" by (auto split: if_splits)
    then have l: "look (hrooms h) r (c_id (heap h m)) = Some m" using o m by blast
    have "\<not> gm_has (connections h) (c_id (heap h n))" if "m = n"
    proof
      assume "gm_has (connections h) (c_id (heap h n))"
      then have "gm_get (connections h) (c_id (heap h n)) = Some n" using gone by auto
      moreover have "n \<in> set (q_register h)" using m(3) that by simp
      ultimately show False using o by blast
    qed
    then show "(if c_id (heap h m) = c_id (heap h n) \<and> r \<in> c_rooms (heap h n) \<and> gm_has (connections h) (c_id (heap h n))
        then None else look (hrooms h) r (c_id (heap h m))) = Some m"
      using l ids [OF m(1)] by auto
  qed (use o q in \<open>auto split: if_splits\<close>)
qed

lemma hub_ok_join:
  assumes ok: "hub_ok h" and q: "q_join h = (n, room) # q"
  shows "hub_ok (handle_join (n, room) (h\<lparr>q_join := q\<rparr>))"
proof -
  note o = ok [unfolded hub_ok_def]
  have n: "live n h" using queued_live [OF ok] q by simp
  have ids: "live m h \<Longrightarrow> c_id (heap h m) = c_id (heap h n) \<longleftrightarrow> m = n" for m using hub_ok_ids [OF ok _ n] by blast
  have mem: "members_of (h\<lparr>q_join := q\<rparr>) room = members_of h room" by (simp add: members_of_def)
  let ?h = "handle_join (n, room) (h\<lparr>q_join := q\<rparr>)"
  have lk: "look (hrooms ?h) r i = (if r = room \<and> i = c_id (heap h n) then Some n else look (hrooms h) r i)" for r i
    by (simp add: handle_join_def set_conn_def Let_def mem look_put)
  have rooms: "c_rooms (heap ?h m) = (if m = n then insert room (c_rooms (heap h m)) else c_rooms (heap h m))" for m
    by (simp add: handle_join_def set_conn_def Let_def)
  have same: "connections ?h = connections h" "q_register ?h = q_register h" "q_unregister ?h = q_unregister h" "q_join ?h = q"
    "q_leave ?h = q_leave h" "next_conn ?h = next_conn h" "c_id (heap ?h m) = c_id (heap h m)" for m
    by (simp_all add: handle_join_def set_conn_def Let_def)
  have maps: "gm_ok (connections ?h)" "rooms_ok (hrooms ?h)"
    using o by (auto simp: handle_join_def set_conn_def Let_def mem rooms_ok_put)
  show ?thesis
  proof (rule hub_ok_change [OF ok maps], unfold same lk rooms)
    fix m r
    assume m: "live m h" "r \<in> (if m = n then insert room (c_rooms (heap h m)) else c_rooms (heap h m))"
      "gm_get (connections h) (c_id (heap h m)) = Some m \<or> m \<in> set (q_register h)"
    then have "r \<in> c_rooms (heap h m) \<Longrightarrow> look (hrooms h) r (c_id (heap h m)) = Some m" using o by blast
    then show "(if r = room \<and> c_id (heap h m) = c_id (heap h n) then Some n else look (hrooms h) r (c_id (heap h m))) = Some m"
      using m(2) ids [OF m(1)] by (auto split: if_splits)
  next
    fix r i m
    assume "(if r = room \<and> i = c_id (heap h n) then Some n else look (hrooms h) r i) = Some m"
    then show "live m h \<and> i = c_id (heap h m) \<and> r \<in> (if m = n then insert room (c_rooms (heap h m)) else c_rooms (heap h m))"
      using n o by (auto split: if_splits)
  qed (use o q in \<open>auto split: if_splits\<close>)
qed

lemma hub_ok_leave:
  assumes ok: "hub_ok h" and q: "q_leave h = (n, room) # q"
  shows "hub_ok (handle_leave (n, room) (h\<lparr>q_leave := q\<rparr>))"
proof -
  note o = ok [unfolded hub_ok_def]
  have n: "live n h" using queued_live [OF ok] q by simp
  have ids: "live m h \<Longrightarrow> c_id (heap h m) = c_id (heap h n) \<longleftrightarrow> m = n" for m using hub_ok_ids [OF ok _ n] by blast
  let ?h = "handle_leave (n, room) (h\<lparr>q_leave := q\<rparr>)"
  have lk: "look (hrooms ?h) r i = (if r = room \<and> i = c_id (heap h n) then None else look (hrooms h) r i)" for r i
    by (simp add: handle_leave_def set_conn_def Let_def look_drop_member)
  have rooms: "c_rooms (heap ?h m) = (if m = n then c_rooms (heap h m) - {room} else c_rooms (heap h m))" for m
    by (simp add: handle_leave_def set_conn_def Let_def)
  have same: "connections ?h = connections h" "q_register ?h = q_register h" "q_unregister ?h = q_unregister h" "q_join ?h = q_join h"
    "q_leave ?h = q" "next_conn ?h = next_conn h" "c_id (heap ?h m) = c_id (heap h m)" for m
    by (simp_all add: handle_leave_def set_conn_def Let_def)
  have maps: "gm_ok (connections ?h)" "rooms_ok (hrooms ?h)"
    using o by (auto simp: handle_leave_def set_conn_def Let_def rooms_ok_drop_member)
  show ?thesis
  proof (rule hub_ok_change [OF ok maps], unfold same lk rooms)
    fix m r
    assume m: "live m h" "r \<in> (if m = n then c_rooms (heap h m) - {room} else c_rooms (heap h m))"
      "gm_get (connections h) (c_id (heap h m)) = Some m \<or> m \<in> set (q_register h)"
    then have "look (hrooms h) r (c_id (heap h m)) = Some m" using o by (auto split: if_splits)
    then show "(if r = room \<and> c_id (heap h m) = c_id (heap h n) then None else look (hrooms h) r (c_id (heap h m))) = Some m"
      using m(2) ids [OF m(1)] by (auto split: if_splits)
  qed (use o q ids in \<open>auto split: if_splits\<close>)
qed

text \<open>Broadcasts write send buffers only.\<close>

lemma hub_ok_set_conn:
  assumes "hub_ok h" "\<And>c. c_id (f c) = c_id c \<and> c_rooms (f c) = c_rooms c"
  shows "hub_ok (set_conn n f h)"
  using assms unfolding hub_ok_def live_def set_conn_def by simp

lemma try_send_ok: "try_send n data h = Done h' \<Longrightarrow> hub_ok h \<Longrightarrow> hub_ok h'"
  using hub_ok_set_conn [of h "c_send_update (\<lambda>b. b @ [data])" n] by (auto simp: try_send_def split: if_splits)

lemma broadcast_loop_ok: "broadcast_loop data ex ms h = Done h' \<Longrightarrow> hub_ok h \<Longrightarrow> hub_ok h'"
proof (induction data ex ms h rule: broadcast_loop.induct)
  case (2 data exclude cid n ms h)
  then show ?case by (auto simp: bind_outcome_Done_iff split: if_splits dest: try_send_ok)
qed simp

lemma hub_ok_run:
  assumes ok: "hub_ok h" and r: "run_step ch h = Some (Done h')"
  shows "hub_ok h'"
proof (cases ch)
  case ChRegister
  then show ?thesis using r hub_ok_register [OF ok] by (auto split: list.splits)
next
  case ChUnregister
  then show ?thesis using r hub_ok_unregister [OF ok] by (auto split: list.splits)
next
  case ChBroadcast
  then obtain m q where "q_broadcast h = m # q"
    and l: "broadcast_loop (bm_data m) (bm_exclude m) (targets (h\<lparr>q_broadcast := q\<rparr>) m) (h\<lparr>q_broadcast := q\<rparr>) = Done h'"
    using r by (auto simp: handle_broadcast_def split: list.splits)
  have "hub_ok (h\<lparr>q_broadcast := q\<rparr>)" using ok unfolding hub_ok_def live_def by simp
  with l show ?thesis by (rule broadcast_loop_ok)
next
  case ChJoin
  then show ?thesis using r hub_ok_join [OF ok] by (auto split: list.splits)
next
  case ChLeave
  then show ?thesis using r hub_ok_leave [OF ok] by (auto split: list.splits)
qed

lemma hub_ok_enqueue:
  "hub_ok h \<Longrightarrow> live n h \<Longrightarrow> hub_ok (h\<lparr>q_join := q_join h @ [(n, room)]\<rparr>)"
  "hub_ok h \<Longrightarrow> live n h \<Longrightarrow> hub_ok (h\<lparr>q_leave := q_leave h @ [(n, room)]\<rparr>)"
  "hub_ok h \<Longrightarrow> hub_ok (h\<lparr>q_broadcast := b\<rparr>)"
  unfolding hub_ok_def live_def by (simp_all add: ball_Un)

lemma hub_ok_step: "hub_step h l h' \<Longrightarrow> hub_ok h \<Longrightarrow> hub_ok h'"
proof (induction rule: hub_step.induct)
  case (step_run ch h h')
  then show ?case using hub_ok_run by blast
next
  case (step_accept ms h h')
  then show ?case using hub_ok_accept by blast
next
  case (step_close n h h')
  let ?f = "\<lambda>c. c\<lparr>c_closed := True, c_send_closed := True\<rparr>"
  let ?h = "set_conn n ?f h"
  have "hub_ok ?h" using step_close(3) by (rule hub_ok_set_conn) simp
  moreover have "live n ?h" "q_unregister ?h = q_unregister h" using step_close(2) by (simp_all add: live_def set_conn_def)
  ultimately have "hub_ok (?h\<lparr>q_unregister := q_unregister h @ [n]\<rparr>)" unfolding hub_ok_def live_def by auto
  then show ?case using step_close by (simp add: conn_close_def split: if_splits)
next
  case (step_put n data h r h')
  then show ?case
    using hub_ok_set_conn [OF step_put(3), of "c_send_update (\<lambda>b. b @ [data])" n] by (auto simp: send_put_def split: if_splits)
next
  case (step_write n h m h')
  then show ?case
    by (auto simp: write_next_def intro!: hub_ok_set_conn split: list.splits)
next
  case (step_broadcast m h h')
  then show ?case using hub_ok_enqueue(3) by (auto simp: post_broadcast_def split: if_splits)
next
  case (step_join n room h h')
  have "h' = h\<lparr>q_join := q_join h @ [(n, room)]\<rparr>" using step_join(1) by (simp add: join_room_def split: if_splits)
  then show ?case using hub_ok_enqueue(1) [OF step_join(3,2)] by simp
next
  case (step_leave n room h h')
  have "h' = h\<lparr>q_leave := q_leave h @ [(n, room)]\<rparr>" using step_leave(1) by (simp add: leave_room_def split: if_splits)
  then show ?case using hub_ok_enqueue(2) [OF step_leave(3,2)] by simp
qed

lemma reachable_ok: "reachable h \<Longrightarrow> hub_ok h"
  by (induction rule: reachable.induct) (auto intro: hub_ok_new hub_ok_step)



subsection \<open>Broadcasts\<close>

definition wanted :: "hub \<Rightarrow> broadcast_msg \<Rightarrow> nat \<Rightarrow> bool" where
  "wanted h m n = (\<exists>i. (i, n) \<in> set (targets h m) \<and> i \<noteq> bm_exclude m)"

lemma broadcast_loop_effect:
  "distinct (map snd ms) \<Longrightarrow>
   broadcast_loop data ex ms h =
     (if \<exists>(i, n) \<in> set ms. i \<noteq> ex \<and> c_send_closed (heap h n) then Panic ''send on closed channel''
      else Done (h\<lparr>heap := (\<lambda>n. if (\<exists>i. (i, n) \<in> set ms \<and> i \<noteq> ex) \<and> length (c_send (heap h n)) < send_buffer h
        then c_send_update (\<lambda>b. b @ [data]) (heap h n) else heap h n)\<rparr>))"
proof (induction ms arbitrary: h)
  case (Cons p ms)
  obtain i n where p: "p = (i, n)" by (cases p)
  have nn: "(j, n) \<notin> set ms" for j using Cons.prems by (auto simp: p image_iff)
  show ?case
  proof (cases "i = ex \<or> c_send_closed (heap h n)")
    case True
    then show ?thesis using Cons nn by (auto simp: p try_send_def intro!: ext arg_cong [where f = "\<lambda>f. h\<lparr>heap := f\<rparr>"])
  next
    case False
    let ?h = "if length (c_send (heap h n)) < send_buffer h then set_conn n (c_send_update (\<lambda>b. b @ [data])) h else h"
    have t: "try_send n data h = Done ?h" using False by (simp add: try_send_def)
    have "c_send_closed (heap ?h m) = c_send_closed (heap h m)" "send_buffer ?h = send_buffer h" for m
      by (simp_all add: set_conn_def)
    moreover have "m \<noteq> n \<Longrightarrow> heap ?h m = heap h m" for m by (simp add: set_conn_def)
    ultimately show ?thesis using Cons False nn t
      by (auto simp: p set_conn_def fun_eq_iff intro!: arg_cong [where f = "\<lambda>f. h\<lparr>heap := f\<rparr>"])
  qed
qed simp

lemma targets_distinct: "hub_ok h \<Longrightarrow> distinct (map snd (targets h m))"
proof -
  assume ok: "hub_ok h"
  note o = ok [unfolded hub_ok_def]
  have gm: "gm_ok (targets h m)" using o members_ok by (auto simp: targets_def)
  have key: "i = c_id (heap h n)" if "(i, n) \<in> set (targets h m)" for i n
  proof -
    have "gm_get (targets h m) i = Some n" using that gm by (simp add: gm_get_mem)
    then show ?thesis using o by (metis look_members targets_def)
  qed
  have "inj_on snd (set (targets h m))"
    by (rule inj_onI) (metis key prod.collapse)
  then show ?thesis using gm unfolding gm_ok_def distinct_map by blast
qed


text \<open>A client that connected as number 1 at time 0, asked to join a room and disconnected before the
  loop came to the request.\<close>

definition hub_at :: "(string, nat) gomap \<Rightarrow> (string, (string, nat) gomap) gomap \<Rightarrow> nat list \<Rightarrow> nat list \<Rightarrow> (nat \<times> string) list \<Rightarrow>
    conn \<Rightarrow> callback list \<Rightarrow> hub" where
  "hub_at cs rs reg unreg joins c log = \<lparr>connections = cs, hrooms = rs, q_register = reg, q_unregister = unreg, q_broadcast = [],
     q_join = joins, q_leave = [], heap = (\<lambda>n. blank_conn)(1 := c), next_conn = 1, send_buffer = 256, calls = log\<rparr>"

definition first_conn :: "string set \<Rightarrow> bool \<Rightarrow> conn" where
  "first_conn rs closed = \<lparr>c_id = generate_conn_id 0 1, c_send = [], c_send_closed = closed, c_rooms = rs, c_closed = closed\<rparr>"

definition late_join :: "string \<Rightarrow> hub" where
  "late_join room = hub_at [] [(room, [(generate_conn_id 0 1, 1)])] [] [] [] (first_conn {room} True) [OnConnect 1, OnDisconnect 1]"

lemma late_join_reachable: "reachable (late_join room)"
proof -
  let ?i = "generate_conn_id 0 1"
  let ?o = "first_conn {} False"
  let ?c = "first_conn {} True"
  note defs = hub_at_def first_conn_def set_conn_def blank_conn_def new_hub_def reg_cap_def live_def
  have "hub_step new_hub (LAccept 0) (hub_at [] [] [1] [] [] ?o [])"
    by (rule step_accept) (simp add: accept_def Let_def defs)
  moreover have "hub_step (hub_at [] [] [1] [] [] ?o []) (LRun ChRegister) (hub_at [(?i, 1)] [] [] [] [] ?o [OnConnect 1])"
    by (rule step_run) (simp add: handle_register_def defs)
  moreover have "hub_step (hub_at [(?i, 1)] [] [] [] [] ?o [OnConnect 1]) (LJoin 1 room) (hub_at [(?i, 1)] [] [] [] [(1, room)] ?o [OnConnect 1])"
    by (rule step_join) (simp_all add: join_room_def defs)
  moreover have "hub_step (hub_at [(?i, 1)] [] [] [] [(1, room)] ?o [OnConnect 1]) (LClose 1)
      (hub_at [(?i, 1)] [] [] [1] [(1, room)] ?c [OnConnect 1])"
    by (rule step_close) (simp_all add: conn_close_def defs)
  moreover have "hub_step (hub_at [(?i, 1)] [] [] [1] [(1, room)] ?c [OnConnect 1]) (LRun ChUnregister)
      (hub_at [] [] [] [] [(1, room)] ?c [OnConnect 1, OnDisconnect 1])"
    by (rule step_run) (simp add: handle_unregister_def drop_everywhere_def defs)
  moreover have "hub_step (hub_at [] [] [] [] [(1, room)] ?c [OnConnect 1, OnDisconnect 1]) (LRun ChJoin) (late_join room)"
    by (rule step_run) (simp add: handle_join_def members_of_def late_join_def defs)
  ultimately show ?thesis by (meson onward start)
qed

text \<open>C40. Disconnecting races with everything else. A request to join that the loop takes after the
  disconnection leaves the dead connection in the room with nothing left to remove it, and every
  broadcast to that room panics from then on; and a \<open>Send\<close> that saw the connection open panics when
  \<open>Close\<close> comes first.
\<close>

theorem disconnect_races:
  "(\<exists>h. reachable h \<and> conn_count h = 0 \<and> q_register h = [] \<and> q_unregister h = [] \<and> q_leave h = [] \<and> q_join h = [] \<and>
      room_count ''lobby'' h = 1 \<and>
      (\<forall>data. handle_broadcast \<lparr>bm_data = data, bm_room = ''lobby'', bm_exclude = []\<rparr> h = Panic ''send on closed channel'')) \<and>
   (\<forall>h n data. \<not> c_closed (heap h n) \<and> length (q_unregister h) < 64 \<longrightarrow>
      send_check n h = Inr () \<and> (\<exists>h'. conn_close n h = Some h' \<and> send_put n data h' = Panic ''send on closed channel''))"
proof
  let ?h = "late_join ''lobby''"
  have "conn_count ?h = 0 \<and> q_register ?h = [] \<and> q_unregister ?h = [] \<and> q_leave ?h = [] \<and> q_join ?h = [] \<and> room_count ''lobby'' ?h = 1 \<and>
      (\<forall>data. handle_broadcast \<lparr>bm_data = data, bm_room = ''lobby'', bm_exclude = []\<rparr> ?h = Panic ''send on closed channel'')"
    by (simp add: late_join_def hub_at_def first_conn_def conn_count_def room_count_def handle_broadcast_def targets_def
        members_of_def try_send_def generate_conn_id_def)
  then show "\<exists>h. reachable h \<and> conn_count h = 0 \<and> q_register h = [] \<and> q_unregister h = [] \<and> q_leave h = [] \<and> q_join h = [] \<and>
      room_count ''lobby'' h = 1 \<and>
      (\<forall>data. handle_broadcast \<lparr>bm_data = data, bm_room = ''lobby'', bm_exclude = []\<rparr> h = Panic ''send on closed channel'')"
    using late_join_reachable by blast
qed (auto simp: send_check_def conn_close_def send_put_def set_conn_def reg_cap_def)


theorem disconnect_races_witness:
  "send_check 1 (hub_at [] [] [1] [] [] (first_conn {} False) []) = Inr () \<and>
   (\<exists>h'. conn_close 1 (hub_at [] [] [1] [] [] (first_conn {} False) []) = Some h' \<and>
     send_put 1 ''x'' h' = Panic ''send on closed channel'')"
  using conjunct2 [OF disconnect_races, rule_format, of "hub_at [] [] [1] [] [] (first_conn {} False) []" 1 "''x''"]
  by (simp add: hub_at_def first_conn_def)


subsection \<open>Upgrading\<close>

record upgrader =
  read_buffer :: int
  write_buffer :: int
  handshake_timeout :: int

definition to_gorilla :: "upgrader \<Rightarrow> upgrader" where
  "to_gorilla u = \<lparr>read_buffer = (if read_buffer u \<le> 0 then 1024 else read_buffer u),
     write_buffer = (if write_buffer u \<le> 0 then 1024 else write_buffer u),
     handshake_timeout = (if handshake_timeout u \<le> 0 then 10 * second else handshake_timeout u)\<rparr>"

text \<open>\<open>parse\<close> is \<open>url.Parse\<close> (scheme and host), \<open>fold_eq\<close> \<open>strings.EqualFold\<close>.\<close>

definition default_check_origin ::
  "(string \<Rightarrow> (string \<times> string) option) \<Rightarrow> (string \<Rightarrow> string \<Rightarrow> bool) \<Rightarrow> bool \<Rightarrow> string \<Rightarrow> string \<Rightarrow> bool" where
  "default_check_origin parse fold_eq tls host origin =
     (if origin = [] then True
      else (case parse origin of
          None \<Rightarrow> False
        | Some (scheme, ohost) \<Rightarrow>
            if scheme \<noteq> (if tls then ''https'' else ''http'') then False else fold_eq ohost host))"

end
