(* ===== verification/ApiCore.thy ===== *)
theory ApiCore
  imports GoStrings Complex_Main
begin

text \<open>
  api/core (errors.go, converter.go, headers.go) and frame/pkg/response: error values and their
  conversion, the response envelope and the helpers that write it, and the extraction of request
  headers, the client address above all. JSON is a data type; parsing it is left to the theories
  that read bodies. Times are left out of responses.
\<close>

subsection \<open>JSON values and errors\<close>

datatype json = JNull | JBool bool | JNum rat | JStr string | JArr "json list" | JObj "(string \<times> json) list"

text \<open>A Go error: \<open>*core.Error\<close> or any other, with its text and what it wraps.\<close>

datatype goerr =
    ApiErr (api_code: int) (api_message: string) (api_details: "json option") (api_cause: "goerr option")
  | OtherErr string "goerr option"

definition code_success :: int where "code_success = 10000"
definition code_bad_request :: int where "code_bad_request = 40000"
definition code_invalid_params :: int where "code_invalid_params = 40001"
definition code_business_error :: int where "code_business_error = 40002"
definition code_unauthorized :: int where "code_unauthorized = 40100"
definition code_forbidden :: int where "code_forbidden = 40300"
definition code_not_found :: int where "code_not_found = 40400"
definition code_validation_failed :: int where "code_validation_failed = 42201"
definition code_internal :: int where "code_internal = 50000"
definition code_database :: int where "code_database = 50001"
definition custom_min :: int where "custom_min = 60000"
definition custom_max :: int where "custom_max = 99999"

definition new_error :: "int \<Rightarrow> string \<Rightarrow> goerr" where
  "new_error code msg = ApiErr code msg None None"

definition new_error_with_details :: "int \<Rightarrow> string \<Rightarrow> json \<Rightarrow> goerr" where
  "new_error_with_details code msg d = ApiErr code msg (Some d) None"

definition new_error_with_cause :: "int \<Rightarrow> string \<Rightarrow> goerr \<Rightarrow> goerr" where
  "new_error_with_cause code msg c = ApiErr code msg None (Some c)"

text \<open>\<open>Error()\<close>; the text of another error is its own.\<close>

primrec error_text :: "goerr \<Rightarrow> string" where
  "error_text (ApiErr code msg d c) =
     (case map_option error_text c of
        Some t \<Rightarrow> ''['' @ dec_of code @ ''] '' @ msg @ '': '' @ t
      | None \<Rightarrow> ''['' @ dec_of code @ ''] '' @ msg)"
| "error_text (OtherErr t w) = t"

definition unwrap :: "goerr \<Rightarrow> goerr option" where
  "unwrap e = (case e of ApiErr _ _ _ c \<Rightarrow> c | OtherErr _ w \<Rightarrow> w)"

definition clone :: "goerr \<Rightarrow> goerr" where
  "clone e = (case e of ApiErr code msg d c \<Rightarrow> ApiErr code msg d c | OtherErr t w \<Rightarrow> OtherErr t w)"

definition is_custom_error :: "int \<Rightarrow> bool" where
  "is_custom_error code = (code \<ge> custom_min \<and> code \<le> custom_max)"

definition custom_range_text :: "int \<Rightarrow> string" where
  "custom_range_text code = ''custom error code must be in range ['' @ dec_of custom_min @ '', '' @ dec_of custom_max @ ''], got '' @ dec_of code"

definition new_custom_error :: "int \<Rightarrow> string \<Rightarrow> string + goerr" where
  "new_custom_error code msg =
     (if code < custom_min \<or> code > custom_max then Inl (custom_range_text code) else Inr (ApiErr code msg None None))"

definition new_custom_error_with_details :: "int \<Rightarrow> string \<Rightarrow> json \<Rightarrow> string + goerr" where
  "new_custom_error_with_details code msg d =
     (if code < custom_min \<or> code > custom_max then Inl (custom_range_text code) else Inr (ApiErr code msg (Some d) None))"

definition new_custom_error_with_cause :: "int \<Rightarrow> string \<Rightarrow> goerr \<Rightarrow> string + goerr" where
  "new_custom_error_with_cause code msg c =
     (if code < custom_min \<or> code > custom_max then Inl (custom_range_text code) else Inr (ApiErr code msg None (Some c)))"

text \<open>The type assertion looks at the error itself, not at what it wraps.\<close>

definition convert_framework_error :: "goerr option \<Rightarrow> goerr option" where
  "convert_framework_error e =
     (case e of
        None \<Rightarrow> None
      | Some (ApiErr code msg d c) \<Rightarrow> Some (ApiErr code msg d c)
      | Some (OtherErr t w) \<Rightarrow> Some (new_error_with_cause code_internal ''Internal Server Error'' (OtherErr t w)))"

subsection \<open>Responses\<close>

record response =
  r_code :: int
  r_message :: string
  r_data :: "json option"
  r_details :: "json option"
  r_trace :: string
  r_latency :: int

text \<open>The data of a handler: a response of its own or plain data.\<close>

datatype handler_data = OwnResponse response | PlainData "json option"

definition convert_response :: "handler_data \<Rightarrow> response" where
  "convert_response d =
     (case d of
        OwnResponse r \<Rightarrow> r
      | PlainData x \<Rightarrow> \<lparr>r_code = code_success, r_message = ''success'', r_data = x, r_details = None, r_trace = [], r_latency = 0\<rparr>)"

record response_builder =
  rb_converter :: "(goerr option \<Rightarrow> goerr option) \<times> (handler_data \<Rightarrow> response)"
  rb_response :: "(handler_data \<Rightarrow> response) option"
  rb_error :: "(goerr option \<Rightarrow> goerr option) option"

definition new_response_builder :: response_builder where
  "new_response_builder = \<lparr>rb_converter = (convert_framework_error, convert_response), rb_response = None, rb_error = None\<rparr>"

definition build_response :: "response_builder \<Rightarrow> handler_data \<Rightarrow> response" where
  "build_response b d = (case rb_response b of Some f \<Rightarrow> f d | None \<Rightarrow> snd (rb_converter b) d)"

definition build_error :: "response_builder \<Rightarrow> goerr option \<Rightarrow> goerr option" where
  "build_error b e = (case rb_error b of Some f \<Rightarrow> f e | None \<Rightarrow> fst (rb_converter b) e)"

definition error_envelope :: "goerr \<Rightarrow> string \<Rightarrow> int \<Rightarrow> response" where
  "error_envelope e trace latency =
     (case e of
        ApiErr code msg d c \<Rightarrow> \<lparr>r_code = code, r_message = msg, r_data = None, r_details = d, r_trace = trace, r_latency = latency\<rparr>
      | OtherErr t w \<Rightarrow> \<lparr>r_code = code_internal, r_message = t, r_data = None, r_details = None, r_trace = trace, r_latency = latency\<rparr>)"

definition build_error_response :: "response_builder \<Rightarrow> goerr option \<Rightarrow> string \<Rightarrow> int \<Rightarrow> response" where
  "build_error_response b e trace latency =
     error_envelope (case build_error b e of None \<Rightarrow> new_error code_success ''success'' | Some x \<Rightarrow> x) trace latency"

definition build_success_response :: "response_builder \<Rightarrow> handler_data \<Rightarrow> string \<Rightarrow> int \<Rightarrow> response" where
  "build_success_response b d trace latency = (build_response b d)\<lparr>r_trace := trace, r_latency := latency\<rparr>"

subsection \<open>The helpers of frame/pkg/response\<close>

text \<open>What a helper writes: the HTTP status and the body. \<open>tr\<close> and \<open>lat\<close> come from the gin context.\<close>

definition success_with_message :: "string \<Rightarrow> int \<Rightarrow> string \<Rightarrow> json option \<Rightarrow> int \<times> response" where
  "success_with_message tr lat msg d =
     (200, \<lparr>r_code = code_success, r_message = msg, r_data = d, r_details = None, r_trace = tr, r_latency = lat\<rparr>)"

definition success :: "string \<Rightarrow> int \<Rightarrow> json option \<Rightarrow> int \<times> response" where
  "success tr lat d =
     (200, \<lparr>r_code = code_success, r_message = ''success'', r_data = d, r_details = None, r_trace = tr, r_latency = lat\<rparr>)"

definition success_page :: "string \<Rightarrow> int \<Rightarrow> json \<Rightarrow> int \<Rightarrow> int \<Rightarrow> int \<Rightarrow> int \<times> response" where
  "success_page tr lat xs tot page sz = success tr lat (Some (JObj
     [(''list'', xs), (''total'', JNum (of_int tot)), (''page'', JNum (of_int page)), (''size'', JNum (of_int sz))]))"

definition error_with_http_status :: "string \<Rightarrow> int \<Rightarrow> int \<Rightarrow> int \<Rightarrow> string \<Rightarrow> int \<times> response" where
  "error_with_http_status tr lat status code msg =
     (status, \<lparr>r_code = code, r_message = msg, r_data = None, r_details = None, r_trace = tr, r_latency = lat\<rparr>)"

definition error_response :: "string \<Rightarrow> int \<Rightarrow> int \<Rightarrow> string \<Rightarrow> int \<times> response" where
  "error_response tr lat code msg =
     (200, \<lparr>r_code = code, r_message = msg, r_data = None, r_details = None, r_trace = tr, r_latency = lat\<rparr>)"

definition error_with_details :: "string \<Rightarrow> int \<Rightarrow> int \<Rightarrow> string \<Rightarrow> json option \<Rightarrow> int \<times> response" where
  "error_with_details tr lat code msg d =
     (200, \<lparr>r_code = code, r_message = msg, r_data = None, r_details = d, r_trace = tr, r_latency = lat\<rparr>)"

definition error_from_core :: "string \<Rightarrow> int \<Rightarrow> goerr option \<Rightarrow> int \<times> response" where
  "error_from_core tr lat e =
     (case e of
        Some (ApiErr code msg d c) \<Rightarrow> error_response tr lat code msg
      | _ \<Rightarrow> success tr lat None)"

definition bad_request :: "string \<Rightarrow> int \<Rightarrow> string \<Rightarrow> int \<times> response" where "bad_request tr lat msg = error_response tr lat code_bad_request msg"
definition unauthorized :: "string \<Rightarrow> int \<Rightarrow> string \<Rightarrow> int \<times> response" where "unauthorized tr lat msg = error_with_http_status tr lat 401 code_unauthorized msg"
definition forbidden :: "string \<Rightarrow> int \<Rightarrow> string \<Rightarrow> int \<times> response" where "forbidden tr lat msg = error_with_http_status tr lat 403 code_forbidden msg"
definition not_found :: "string \<Rightarrow> int \<Rightarrow> string \<Rightarrow> int \<times> response" where "not_found tr lat msg = error_with_http_status tr lat 404 code_not_found msg"
definition internal_server_error :: "string \<Rightarrow> int \<Rightarrow> string \<Rightarrow> int \<times> response" where "internal_server_error tr lat msg = error_response tr lat code_internal msg"
definition database_error :: "string \<Rightarrow> int \<Rightarrow> string \<Rightarrow> int \<times> response" where "database_error tr lat msg = error_response tr lat code_database msg"
definition validation_error :: "string \<Rightarrow> int \<Rightarrow> string \<Rightarrow> int \<times> response" where "validation_error tr lat msg = error_response tr lat code_validation_failed msg"

subsection \<open>Request headers\<close>

text \<open>A request as the extractor reads it: the values of each header line by canonical name, the remote
  address split into host and port where \<open>net.SplitHostPort\<close> can. \<open>netlib\<close> holds \<open>net.ParseIP\<close> and, for a CIDR that
  parses, \<open>Contains\<close>.\<close>

record http_request =
  rq_headers :: "string \<Rightarrow> string list"
  rq_remote_addr :: string
  rq_split_host :: "string option"

record netlib =
  parse_ip :: "string \<Rightarrow> nat option"
  cidr_contains :: "string \<Rightarrow> (nat \<Rightarrow> bool) option"

record header_extractor =
  custom_extractors :: "(string, http_request \<Rightarrow> string) gomap"
  trusted_proxies :: "string list"

text \<open>\<open>Header.Get\<close>: the first line of that name.\<close>

definition header_get :: "http_request \<Rightarrow> string \<Rightarrow> string" where
  "header_get r k = (case rq_headers r k of [] \<Rightarrow> [] | v # _ \<Rightarrow> v)"

definition new_header_extractor :: header_extractor where
  "new_header_extractor = \<lparr>custom_extractors = [],
     trusted_proxies = [''127.0.0.1/32'', ''10.0.0.0/8'', ''172.16.0.0/12'', ''192.168.0.0/16'']\<rparr>"

definition with_custom_extractor :: "string \<Rightarrow> (http_request \<Rightarrow> string) \<Rightarrow> header_extractor \<Rightarrow> header_extractor" where
  "with_custom_extractor k f e = e\<lparr>custom_extractors := gm_put k f (custom_extractors e)\<rparr>"

definition with_trusted_proxies :: "string list \<Rightarrow> header_extractor \<Rightarrow> header_extractor" where
  "with_trusted_proxies ps e = e\<lparr>trusted_proxies := ps\<rparr>"

definition get_remote_ip :: "http_request \<Rightarrow> string" where
  "get_remote_ip r = (case rq_split_host r of Some ip \<Rightarrow> ip | None \<Rightarrow> rq_remote_addr r)"

fun trusted_loop :: "netlib \<Rightarrow> nat \<Rightarrow> string list \<Rightarrow> bool" where
  "trusted_loop nl ip [] = False"
| "trusted_loop nl ip (c # cs) =
     (case cidr_contains nl c of None \<Rightarrow> trusted_loop nl ip cs | Some f \<Rightarrow> if f ip then True else trusted_loop nl ip cs)"

definition is_trusted_proxy :: "netlib \<Rightarrow> header_extractor \<Rightarrow> string \<Rightarrow> bool" where
  "is_trusted_proxy nl e s = (case parse_ip nl s of None \<Rightarrow> False | Some ip \<Rightarrow> trusted_loop nl ip (trusted_proxies e))"

text \<open>From the right, the first entry that is no trusted proxy.\<close>

fun forwarded_loop :: "(string \<Rightarrow> bool) \<Rightarrow> string list \<Rightarrow> string option" where
  "forwarded_loop trusted [] = None"
| "forwarded_loop trusted (x # xs) =
     (let c = trim_space x in if \<not> trusted c then Some c else forwarded_loop trusted xs)"

definition extract_client_ip :: "netlib \<Rightarrow> header_extractor \<Rightarrow> http_request \<Rightarrow> string" where
  "extract_client_ip nl e r =
     (let remote = get_remote_ip r; xff = header_get r ''X-Forwarded-For''; real = header_get r ''X-Real-Ip'' in
      if is_trusted_proxy nl e remote then
        (if xff \<noteq> [] then
           (let ips = str_split '','' xff in
            case forwarded_loop (is_trusted_proxy nl e) (rev ips) of Some c \<Rightarrow> c | None \<Rightarrow> trim_space (hd ips))
         else if real \<noteq> [] then real
         else remote)
      else remote)"

definition first_header :: "http_request \<Rightarrow> string list \<Rightarrow> string" where
  "first_header r ks = (case dropWhile (\<lambda>k. header_get r k = []) ks of [] \<Rightarrow> [] | k # _ \<Rightarrow> header_get r k)"

definition extract_request_id :: "string \<Rightarrow> http_request \<Rightarrow> string" where
  "extract_request_id fresh r =
     (let h = first_header r [''X-Request-Id'', ''X-Trace-Id''] in if h = [] then fresh else h)"

definition extract_user_agent :: "http_request \<Rightarrow> string" where
  "extract_user_agent r = header_get r ''User-Agent''"

definition extract_device_fingerprint :: "http_request \<Rightarrow> string" where
  "extract_device_fingerprint r = first_header r [''X-Device-Fingerprint'', ''X-Device-Id'', ''X-Device-Token'', ''X-Session-Id'']"

definition extract_headers :: "netlib \<Rightarrow> string \<Rightarrow> header_extractor \<Rightarrow> http_request \<Rightarrow> (string, string) gomap" where
  "extract_headers nl fresh e r =
     fold (\<lambda>(k, f) m. if f r \<noteq> [] then gm_put k (f r) m else m) (custom_extractors e)
       [(''X-Request-ID'', extract_request_id fresh r), (''X-Client-IP'', extract_client_ip nl e r),
        (''X-User-Agent'', extract_user_agent r), (''X-Device-Fingerprint'', extract_device_fingerprint r)]"

text \<open>Injection: set every header that is not empty, the custom ones last.\<close>

definition inject_headers :: "(string, string) gomap \<Rightarrow> (string, string) gomap \<Rightarrow> (string, string) gomap \<Rightarrow> (string, string) gomap" where
  "inject_headers custom headers w =
     fold (\<lambda>(k, v) m. if v \<noteq> [] then gm_put k v m else m) custom
       (fold (\<lambda>(k, v) m. if v \<noteq> [] then gm_put k v m else m) headers w)"

definition process :: "netlib \<Rightarrow> string \<Rightarrow> header_extractor \<Rightarrow> (string, string) gomap \<Rightarrow> http_request \<Rightarrow> (string, string) gomap \<Rightarrow>
    (string, string) gomap \<times> (string, string) gomap" where
  "process nl fresh e custom r w = (let hs = extract_headers nl fresh e r in (hs, inject_headers custom hs w))"

subsection \<open>The client address\<close>

lemma str_split_append:
  "str_split [c] (a @ c # b) = str_split [c] a @ str_split [c] b"
proof (induction "length a" arbitrary: a rule: less_induct)
  case less
  show ?case
  proof (cases "c \<in> set a")
    case True
    then obtain u v where a: "a = u @ c # v" and u: "c \<notin> set u" by (meson split_list_first)
    have "str_split [c] (v @ c # b) = str_split [c] v @ str_split [c] b" by (rule less) (simp add: a)
    then show ?thesis by (simp add: a str_split_char u)
  qed (simp add: str_split_char str_split_none)
qed

lemma forwarded_loop_trusted:
  "\<forall>x \<in> set xs. t (trim_space x) \<Longrightarrow> forwarded_loop t (xs @ ys) = forwarded_loop t ys"
  by (induction xs) (simp_all add: Let_def)

lemma forwarded_loop_rev:
  assumes "\<not> t (trim_space ip)" "\<forall>x \<in> set chain. t (trim_space x)"
  shows "forwarded_loop t (rev (pre @ ip # chain)) = Some (trim_space ip)"
  using forwarded_loop_trusted [of "rev chain" t "ip # rev pre"] assms by (simp add: Let_def)

lemma forwarded_sound:
  "forwarded_loop t xs = Some c \<Longrightarrow> \<not> t c"
  by (induction xs) (auto simp: Let_def split: if_splits)

text \<open>The chain a proxy network builds: what the client sent, the address the first of our proxies saw, and
  the addresses of the proxies behind it.\<close>

lemma extract_client_ip_chain:
  assumes "is_trusted_proxy nl e (get_remote_ip r)" "header_get r ''X-Forwarded-For'' = sent @ CHR '','' # join_strs '','' (ip # chain)"
    and "\<forall>x \<in> set (ip # chain). CHR '','' \<notin> set x"
    and "\<not> is_trusted_proxy nl e (trim_space ip)" "\<forall>x \<in> set chain. is_trusted_proxy nl e (trim_space x)"
  shows "extract_client_ip nl e r = trim_space ip"
proof -
  have "str_split '','' (header_get r ''X-Forwarded-For'') = str_split '','' sent @ ip # chain"
    using assms(3) by (simp add: assms(2) str_split_append str_split_join)
  then show ?thesis
    using assms(1) forwarded_loop_rev [OF assms(4,5), of "str_split '','' sent"]
    by (simp add: extract_client_ip_def Let_def assms(2) del: rev.simps rev_append)
qed

lemma extract_client_ip_untrusted:
  "\<not> is_trusted_proxy nl e (get_remote_ip r) \<Longrightarrow> extract_client_ip nl e r = get_remote_ip r"
  by (simp add: extract_client_ip_def Let_def)

lemma extract_client_ip_first_line:
  assumes "is_trusted_proxy nl e (get_remote_ip r)" "rq_headers r ''X-Forwarded-For'' = forged # rest" "forged \<noteq> []"
    "CHR '','' \<notin> set forged" "\<not> is_trusted_proxy nl e (trim_space forged)"
  shows "extract_client_ip nl e r = trim_space forged"
  using assms by (simp add: extract_client_ip_def Let_def header_get_def str_split_none)

text \<open>C14. The address of an untrusted peer is what the connection says, whatever its headers hold; behind
  trusted proxies that append to one X-Forwarded-For line it is the address the outermost of them saw,
  whatever the client put before it. With several lines of that name, though, only the first is read: a
  proxy that adds a line of its own leaves the choice of the address to the client.\<close>

theorem client_ip_spoof_proof:
  assumes "rq_remote_addr r' = rq_remote_addr r" "rq_split_host r' = rq_split_host r"
    and "\<forall>x \<in> set (ip # chain). CHR '','' \<notin> set x"
    and "\<not> is_trusted_proxy nl e (trim_space ip)" "\<forall>x \<in> set chain. is_trusted_proxy nl e (trim_space x)"
    and "forged \<noteq> []" "CHR '','' \<notin> set forged" "\<not> is_trusted_proxy nl e (trim_space forged)"
  shows "(\<not> is_trusted_proxy nl e (get_remote_ip r) \<longrightarrow> extract_client_ip nl e r' = extract_client_ip nl e r)
    \<and> (is_trusted_proxy nl e (get_remote_ip r) \<longrightarrow>
        (rq_headers r' ''X-Forwarded-For'' = [sent @ CHR '','' # join_strs '','' (ip # chain)] \<longrightarrow>
           extract_client_ip nl e r' = trim_space ip)
      \<and> (rq_headers r' ''X-Forwarded-For'' = [forged, join_strs '','' (ip # chain)] \<longrightarrow>
           extract_client_ip nl e r' = trim_space forged))"
proof -
  have eq: "get_remote_ip r' = get_remote_ip r" using assms(1,2) by (simp add: get_remote_ip_def split: option.split)
  show ?thesis
    using extract_client_ip_untrusted [of nl e r] extract_client_ip_untrusted [of nl e r']
      extract_client_ip_chain [of nl e r' sent ip chain] extract_client_ip_first_line [of nl e r' forged]
      assms(3-8) by (auto simp: eq header_get_def)
qed

definition demo_netlib :: netlib where
  "demo_netlib = \<lparr>parse_ip = (\<lambda>s. if s = ''10.0.0.2'' then Some 2 else if s = ''8.8.8.8'' then Some 8 else None),
     cidr_contains = (\<lambda>s. if s = ''10.0.0.0/8'' then Some (\<lambda>ip. ip = 2) else None)\<rparr>"

definition demo_request :: "string list \<Rightarrow> http_request" where
  "demo_request xff = \<lparr>rq_headers = (\<lambda>k. if k = ''X-Forwarded-For'' then xff else []),
     rq_remote_addr = ''10.0.0.2:99'', rq_split_host = Some ''10.0.0.2''\<rparr>"

lemma client_ip_spoof_proof_witness:
  "extract_client_ip demo_netlib new_header_extractor (demo_request [''1.1.1.1,8.8.8.8,10.0.0.2'']) = ''8.8.8.8''
   \<and> extract_client_ip demo_netlib new_header_extractor (demo_request [''1.1.1.1'', ''8.8.8.8,10.0.0.2'']) = ''1.1.1.1''"
proof -
  have t: "is_trusted_proxy demo_netlib new_header_extractor (get_remote_ip (demo_request x))" for x
    by (simp add: is_trusted_proxy_def get_remote_ip_def demo_request_def demo_netlib_def new_header_extractor_def)
  have sp: "trim_space ''8.8.8.8'' = ''8.8.8.8''" "trim_space ''10.0.0.2'' = ''10.0.0.2''" "trim_space ''1.1.1.1'' = ''1.1.1.1''"
    by code_simp+
  have u: "\<not> is_trusted_proxy demo_netlib new_header_extractor ''8.8.8.8''" "\<not> is_trusted_proxy demo_netlib new_header_extractor ''1.1.1.1''"
    "is_trusted_proxy demo_netlib new_header_extractor ''10.0.0.2''"
    by (simp_all add: is_trusted_proxy_def demo_netlib_def new_header_extractor_def)
  show ?thesis
    using client_ip_spoof_proof [of "demo_request [''1.1.1.1,8.8.8.8,10.0.0.2'']" "demo_request []" "''8.8.8.8''" "[''10.0.0.2'']"
        demo_netlib new_header_extractor "''1.1.1.1''" "''1.1.1.1''"]
      client_ip_spoof_proof [of "demo_request [''1.1.1.1'', ''8.8.8.8,10.0.0.2'']" "demo_request []" "''8.8.8.8''" "[''10.0.0.2'']"
        demo_netlib new_header_extractor "''1.1.1.1''" "[]"] t u
    by (simp add: sp) (simp add: demo_request_def)
qed

subsection \<open>What the envelope keeps of an error\<close>

text \<open>A core error keeps its code wherever it is converted; an error that only wraps one does not, and
  converting twice changes nothing.\<close>

lemma convert_idem: "convert_framework_error (convert_framework_error e) = convert_framework_error e"
  by (simp add: convert_framework_error_def new_error_with_cause_def split: option.split goerr.split)

theorem error_conversion_exact:
  "let b = new_response_builder in
     r_code (build_error_response b (Some (ApiErr code msg d c)) tr lat) = code
   \<and> r_message (build_error_response b (Some (ApiErr code msg d c)) tr lat) = msg
   \<and> r_details (build_error_response b (Some (ApiErr code msg d c)) tr lat) = d
   \<and> r_code (build_error_response b None tr lat) = code_success
   \<and> r_code (build_error_response b (Some (OtherErr t (Some (ApiErr code msg d c)))) tr lat) = code_internal
   \<and> map_option unwrap (convert_framework_error (Some (OtherErr t w))) = Some (Some (OtherErr t w))
   \<and> build_error b (build_error b e) = build_error b e
   \<and> (code_internal \<noteq> code_success)
   \<and> (new_custom_error n msg = (if is_custom_error n then Inr (new_error n msg) else Inl (custom_range_text n)))"
  by (auto simp: new_response_builder_def build_error_response_def build_error_def convert_framework_error_def
      error_envelope_def new_error_def new_error_with_cause_def unwrap_def new_custom_error_def is_custom_error_def
      code_internal_def code_success_def Let_def split: option.split goerr.split)

end
