(* ===== verification/Auth.thy ===== *)
theory Auth
  imports StrTools
begin

text \<open>
  frame/pkg/auth/auth.go: the JWT configuration, the keys it loads, and the tokens made and
  read with them. The JWT library, x509 and PEM decoding and the file system are parameters:
  \<open>jwtlib\<close>, \<open>x509lib\<close>, \<open>keyfs\<close>. \<open>jwt_lib_ok\<close> states what the library documents of signing and parsing.
\<close>

subsection \<open>Algorithms and keys\<close>

datatype alg = HS256 | RS256 | ES256

definition alg_name :: "alg \<Rightarrow> string" where
  "alg_name a = (case a of HS256 \<Rightarrow> ''HS256'' | RS256 \<Rightarrow> ''RS256'' | ES256 \<Rightarrow> ''ES256'')"

text \<open>A key: the shared secret, or one half of the numbered key pair; anything else has its Go type.\<close>

datatype key = Secret string | RsaPrivate nat | EcPrivate nat | RsaPublic nat | EcPublic nat | OtherKey string

record jwt_config =
  jc_secret :: string
  jc_expire :: duration
  jc_issuer :: string
  jc_method :: string
  jc_private_path :: string
  jc_public_path :: string
  jc_private :: "key option"
  jc_public :: "key option"

record token_option =
  to_role :: string
  to_client :: string
  to_scope :: string
  to_ip :: string
  to_device :: string
  to_type :: string
  to_expire :: duration

record claims =
  cl_user :: nat
  cl_username :: string
  cl_role :: string
  cl_client :: string
  cl_scope :: string
  cl_ip :: string
  cl_device :: string
  cl_type :: string
  cl_expires :: time
  cl_issued :: time
  cl_not_before :: time
  cl_issuer :: string

definition min_secret_length :: nat where "min_secret_length = 32"

definition validate_secret :: "string \<Rightarrow> string option" where
  "validate_secret s =
     (if s = [] then Some ''JWT secret is not configured: set LANDC_JWT_SECRET environment variable or jwt.secret in config''
      else if length s < min_secret_length then
        Some (''JWT secret is too weak: expected at least '' @ dec_of (int min_secret_length) @ '' characters, got '' @ dec_of (int (length s)))
      else None)"

definition signing_method :: "ucd \<Rightarrow> jwt_config \<Rightarrow> string + alg" where
  "signing_method u c =
     (let m0 = to_upper u (trim_space (jc_method c)); m = (if m0 = [] then ''HS256'' else m0) in
      if m = ''HS256'' then Inr HS256
      else if m = ''RS256'' then Inr RS256
      else if m = ''ES256'' then Inr ES256
      else Inl (''unsupported signing method: '' @ jc_method c))"

subsection \<open>Loading keys\<close>

text \<open>Files: the permission bits, or why \<open>Stat\<close> fails, and the content, or why reading fails.\<close>

record keyfs =
  kf_windows :: bool
  kf_stat :: "string \<Rightarrow> string + nat"
  kf_read :: "string \<Rightarrow> string + string"

text \<open>PEM decoding gives the type and the bytes of the first block; each x509 parser a key or an error.
  The last is the public key of a certificate.\<close>

record x509lib =
  xl_pem :: "string \<Rightarrow> (string \<times> string) option"
  xl_pkcs1 :: "string \<Rightarrow> string + key"
  xl_ec :: "string \<Rightarrow> string + key"
  xl_pkcs8 :: "string \<Rightarrow> string + key"
  xl_pkix :: "string \<Rightarrow> string + key"
  xl_pkcs1_public :: "string \<Rightarrow> string + key"
  xl_certificate :: "string \<Rightarrow> string + key"
  xl_type_name :: "key \<Rightarrow> string"

text \<open>\<open>%o\<close>.\<close>

fun oct_nat :: "nat \<Rightarrow> string" where
  "oct_nat n = (if n < 8 then [char_of (48 + n)] else oct_nat (n div 8) @ [char_of (48 + n mod 8)])"

declare oct_nat.simps [simp del]

definition parse_pem_file :: "keyfs \<Rightarrow> x509lib \<Rightarrow> string \<Rightarrow> bool \<Rightarrow> string + key" where
  "parse_pem_file fs xl path private =
     (case (if private \<and> \<not> kf_windows fs then
              (case kf_stat fs path of
                 Inl e \<Rightarrow> Some (''stat key file '' @ path @ '': '' @ e)
               | Inr perm \<Rightarrow>
                   if perm mod 64 \<noteq> 0 then
                     Some (''private key file '' @ path @ '' has insecure permissions '' @ oct_nat perm @ '' (want 0600 or stricter)'')
                   else None)
            else None) of
        Some e \<Rightarrow> Inl e
      | None \<Rightarrow>
        (case kf_read fs path of
           Inl e \<Rightarrow> Inl (''read key file '' @ path @ '': '' @ e)
         | Inr content \<Rightarrow>
           (case xl_pem xl content of
              None \<Rightarrow> Inl (''invalid PEM data in '' @ path)
            | Some (t, bs) \<Rightarrow>
                if private then
                  (if t = ''RSA PRIVATE KEY'' then xl_pkcs1 xl bs
                   else if t = ''EC PRIVATE KEY'' then xl_ec xl bs
                   else if t = ''PRIVATE KEY'' then
                     (case xl_pkcs8 xl bs of
                        Inl e \<Rightarrow> Inl e
                      | Inr (RsaPrivate n) \<Rightarrow> Inr (RsaPrivate n)
                      | Inr (EcPrivate n) \<Rightarrow> Inr (EcPrivate n)
                      | Inr k \<Rightarrow> Inl (''unsupported PKCS#8 private key type: '' @ xl_type_name xl k))
                   else Inl (''unsupported private key PEM type: '' @ t))
                else if t = ''PUBLIC KEY'' then xl_pkix xl bs
                else if t = ''RSA PUBLIC KEY'' then xl_pkcs1_public xl bs
                else if t = ''CERTIFICATE'' then
                  (case xl_certificate xl bs of
                     Inl e \<Rightarrow> Inl e
                   | Inr (RsaPublic n) \<Rightarrow> Inr (RsaPublic n)
                   | Inr (EcPublic n) \<Rightarrow> Inr (EcPublic n)
                   | Inr k \<Rightarrow> Inl (''unsupported certificate public key type: '' @ xl_type_name xl k))
                else Inl (''unsupported public key PEM type: '' @ t))))"

text \<open>The cache is keyed by the path alone and keeps errors too.\<close>

type_synonym key_cache = "string \<rightharpoonup> (string + key)"

record auth_env =
  ae_ucd :: ucd
  ae_fs :: keyfs
  ae_x509 :: x509lib

definition load_pem_key :: "auth_env \<Rightarrow> string \<Rightarrow> bool \<Rightarrow> key_cache \<Rightarrow> (string + key) \<times> key_cache" where
  "load_pem_key env path private m =
     (case m path of
        Some r \<Rightarrow> (r, m)
      | None \<Rightarrow> let r = parse_pem_file (ae_fs env) (ae_x509 env) path private in (r, m(path \<mapsto> r)))"

definition signing_key :: "auth_env \<Rightarrow> jwt_config \<Rightarrow> alg \<Rightarrow> key_cache \<Rightarrow> (string + key) \<times> key_cache" where
  "signing_key env c a m =
     (if a = HS256 then (Inr (Secret (jc_secret c)), m)
      else if jc_private_path c \<noteq> [] then load_pem_key env (jc_private_path c) True m
      else case jc_private c of
        Some k \<Rightarrow> (Inr k, m)
      | None \<Rightarrow> (Inl ''private key not configured: set jwt.private_key_path or provide PrivateKey'', m))"

definition public_key_from_private :: "auth_env \<Rightarrow> jwt_config \<Rightarrow> key_cache \<Rightarrow> (string + key) \<times> key_cache" where
  "public_key_from_private env c m =
     (case signing_key env c RS256 m of
        (Inl e, m') \<Rightarrow> (Inl ''public key not configured: set jwt.public_key_path or provide PublicKey'', m')
      | (Inr (RsaPrivate n), m') \<Rightarrow> (Inr (RsaPublic n), m')
      | (Inr (EcPrivate n), m') \<Rightarrow> (Inr (EcPublic n), m')
      | (Inr k, m') \<Rightarrow> (Inl ''unsupported private key type for public key derivation'', m'))"

definition verifying_key :: "auth_env \<Rightarrow> jwt_config \<Rightarrow> alg \<Rightarrow> key_cache \<Rightarrow> (string + key) \<times> key_cache" where
  "verifying_key env c a m =
     (if a = HS256 then (Inr (Secret (jc_secret c)), m)
      else if jc_public_path c \<noteq> [] then load_pem_key env (jc_public_path c) False m
      else case jc_public c of
        Some k \<Rightarrow> (Inr k, m)
      | None \<Rightarrow> public_key_from_private env c m)"

text \<open>Every algorithm but HS256 asks for the private key.\<close>

definition validate_config :: "auth_env \<Rightarrow> jwt_config \<Rightarrow> key_cache \<Rightarrow> string option \<times> key_cache" where
  "validate_config env c m =
     (case signing_method (ae_ucd env) c of
        Inl e \<Rightarrow> (Some e, m)
      | Inr HS256 \<Rightarrow> (validate_secret (jc_secret c), m)
      | Inr a \<Rightarrow> (case signing_key env c a m of (Inl e, m') \<Rightarrow> (Some e, m') | (Inr k, m') \<Rightarrow> (None, m')))"

subsection \<open>The JWT library\<close>

text \<open>Signing; parsing with a key function and a list of admitted algorithm names at a point in time; the
  algorithm and the claims a token carries; whether its signature fits a key; dates as the library keeps
  them.\<close>

record jwtlib =
  jl_sign :: "string \<Rightarrow> claims \<Rightarrow> key \<Rightarrow> string + string"
  jl_parse :: "time \<Rightarrow> string \<Rightarrow> (string \<Rightarrow> key_cache \<Rightarrow> (string + key) \<times> key_cache) \<Rightarrow> string list \<Rightarrow> key_cache \<Rightarrow>
    (string + claims) \<times> key_cache"
  jl_alg :: "string \<Rightarrow> string"
  jl_claims :: "string \<Rightarrow> claims"
  jl_verifies :: "string \<Rightarrow> string \<Rightarrow> key \<Rightarrow> bool"
  jl_date :: "time \<Rightarrow> time"

text \<open>The private half signs, the public one (or the same secret) verifies.\<close>

definition key_pair :: "alg \<Rightarrow> key \<Rightarrow> key \<Rightarrow> bool" where
  "key_pair a sk vk = (case a of
      HS256 \<Rightarrow> (case sk of Secret s \<Rightarrow> vk = Secret s | _ \<Rightarrow> False)
    | RS256 \<Rightarrow> (case sk of RsaPrivate n \<Rightarrow> vk = RsaPublic n | _ \<Rightarrow> False)
    | ES256 \<Rightarrow> (case sk of EcPrivate n \<Rightarrow> vk = EcPublic n | _ \<Rightarrow> False))"

definition live :: "time \<Rightarrow> claims \<Rightarrow> bool" where
  "live now c = (now < cl_expires c \<and> cl_not_before c \<le> now)"

text \<open>Documented behaviour: a signed token carries the algorithm and the claims and verifies with the other
  half of the key, and signing with a key of another type is an error; a parse that succeeds has asked the
  key function for the token's own algorithm, which is admitted, the signature verifies and the claims are
  valid at the time; a parse succeeds when all that holds; dates are truncated to seconds.\<close>

definition jwt_lib_ok :: "jwtlib \<Rightarrow> bool" where
  "jwt_lib_ok l =
     ((\<forall>a c sk tok. jl_sign l (alg_name a) c sk = Inr tok \<longrightarrow>
         jl_alg l tok = alg_name a \<and> jl_claims l tok = c \<and> (\<exists>vk. key_pair a sk vk) \<and>
         (\<forall>vk. key_pair a sk vk \<longrightarrow> jl_verifies l (alg_name a) tok vk))
    \<and> (\<forall>now tok kf valid m c m'. jl_parse l now tok kf valid m = (Inr c, m') \<longrightarrow>
         jl_alg l tok \<in> set valid \<and> c = jl_claims l tok \<and> live now c \<and>
         (\<exists>k. kf (jl_alg l tok) m = (Inr k, m') \<and> jl_verifies l (jl_alg l tok) tok k))
    \<and> (\<forall>now tok kf valid m k m'. jl_alg l tok \<in> set valid \<longrightarrow> live now (jl_claims l tok) \<longrightarrow>
         kf (jl_alg l tok) m = (Inr k, m') \<longrightarrow> jl_verifies l (jl_alg l tok) tok k \<longrightarrow>
         jl_parse l now tok kf valid m = (Inr (jl_claims l tok), m'))
    \<and> (\<forall>t. jl_date l t \<le> t \<and> t < jl_date l t + second))"

subsection \<open>Tokens\<close>

record auth_state =
  au_config :: "jwt_config option"
  au_cache :: key_cache

definition init_jwt :: "jwt_config option \<Rightarrow> auth_state \<Rightarrow> auth_state" where
  "init_jwt cfg s = \<lparr>au_config = cfg, au_cache = Map.empty\<rparr>"

record jwt_section =
  js_secret :: string
  js_expire :: string
  js_issuer :: string
  js_method :: string
  js_private_path :: string
  js_public_path :: string

text \<open>\<open>parse_duration\<close> is \<open>time.ParseDuration\<close>; a duration that does not parse counts as zero.\<close>

definition init_from_config :: "(string \<Rightarrow> duration option) \<Rightarrow> jwt_section option \<Rightarrow> auth_state \<Rightarrow> auth_state" where
  "init_from_config parse_duration cfg s =
     (case cfg of
        None \<Rightarrow> s
      | Some j \<Rightarrow>
          if js_secret j = [] \<and> js_private_path j = [] \<and> js_public_path j = [] \<and> js_method j = [] then s
          else
            let e = (if js_expire j \<noteq> [] then (case parse_duration (js_expire j) of None \<Rightarrow> 0 | Some d \<Rightarrow> d) else 0) in
            init_jwt (Some \<lparr>jc_secret = js_secret j, jc_expire = e, jc_issuer = js_issuer j, jc_method = js_method j,
              jc_private_path = js_private_path j, jc_public_path = js_public_path j, jc_private = None, jc_public = None\<rparr>) s)"

definition not_initialized :: string where
  "not_initialized = ''JWT config not initialized: call auth.InitJWT() (or use landc bootstrap / web.NewServer which auto-init from config.yaml jwt section)''"

definition token_claims :: "jwtlib \<Rightarrow> time \<times> time \<times> time \<Rightarrow> jwt_config \<Rightarrow> nat \<Rightarrow> string \<Rightarrow> token_option \<Rightarrow> claims" where
  "token_claims l ts cfg user name opt =
     (let e = (if to_expire opt = 0 then jc_expire cfg else to_expire opt) in
      \<lparr>cl_user = user, cl_username = name, cl_role = to_role opt, cl_client = to_client opt, cl_scope = to_scope opt,
       cl_ip = to_ip opt, cl_device = to_device opt, cl_type = to_type opt,
       cl_expires = jl_date l (fst ts + e), cl_issued = jl_date l (fst (snd ts)), cl_not_before = jl_date l (snd (snd ts)),
       cl_issuer = jc_issuer cfg\<rparr>)"

text \<open>The clock is read three times.\<close>

definition generate_token_with_opts :: "jwtlib \<Rightarrow> auth_env \<Rightarrow> time \<times> time \<times> time \<Rightarrow> nat \<Rightarrow> string \<Rightarrow> token_option \<Rightarrow> auth_state \<Rightarrow>
    (string + string) \<times> auth_state" where
  "generate_token_with_opts l env ts user name opt s =
     (case au_config s of
        None \<Rightarrow> (Inl not_initialized, s)
      | Some cfg \<Rightarrow>
        (case validate_config env cfg (au_cache s) of
           (Some e, m) \<Rightarrow> (Inl e, s\<lparr>au_cache := m\<rparr>)
         | (None, m) \<Rightarrow>
           (case signing_method (ae_ucd env) cfg of
              Inl e \<Rightarrow> (Inl e, s\<lparr>au_cache := m\<rparr>)
            | Inr a \<Rightarrow>
              (case signing_key env cfg a m of
                 (Inl e, m') \<Rightarrow> (Inl e, s\<lparr>au_cache := m'\<rparr>)
               | (Inr k, m') \<Rightarrow> (jl_sign l (alg_name a) (token_claims l ts cfg user name opt) k, s\<lparr>au_cache := m'\<rparr>)))))"

definition empty_option :: token_option where
  "empty_option = \<lparr>to_role = [], to_client = [], to_scope = [], to_ip = [], to_device = [], to_type = [], to_expire = 0\<rparr>"

definition generate_token :: "jwtlib \<Rightarrow> auth_env \<Rightarrow> time \<times> time \<times> time \<Rightarrow> nat \<Rightarrow> string \<Rightarrow> string list \<Rightarrow> auth_state \<Rightarrow>
    (string + string) \<times> auth_state" where
  "generate_token l env ts user name roles s =
     generate_token_with_opts l env ts user name
       (case roles of [] \<Rightarrow> empty_option | r # _ \<Rightarrow> empty_option\<lparr>to_role := r\<rparr>) s"

definition key_function :: "auth_env \<Rightarrow> jwt_config \<Rightarrow> alg \<Rightarrow> string \<Rightarrow> key_cache \<Rightarrow> (string + key) \<times> key_cache" where
  "key_function env cfg a token_alg m =
     (if token_alg \<noteq> alg_name a then (Inl (''unexpected signing method: '' @ token_alg), m) else verifying_key env cfg a m)"

definition parse_token :: "jwtlib \<Rightarrow> auth_env \<Rightarrow> time \<Rightarrow> string \<Rightarrow> auth_state \<Rightarrow> (string + claims) \<times> auth_state" where
  "parse_token l env now tok s =
     (case au_config s of
        None \<Rightarrow> (Inl not_initialized, s)
      | Some cfg \<Rightarrow>
        (case validate_config env cfg (au_cache s) of
           (Some e, m) \<Rightarrow> (Inl e, s\<lparr>au_cache := m\<rparr>)
         | (None, m) \<Rightarrow>
           (case signing_method (ae_ucd env) cfg of
              Inl e \<Rightarrow> (Inl e, s\<lparr>au_cache := m\<rparr>)
            | Inr a \<Rightarrow>
              (case jl_parse l now tok (key_function env cfg a) [alg_name a] m of
                 (r, m') \<Rightarrow> (r, s\<lparr>au_cache := m'\<rparr>)))))"

text \<open>Of the overrides, only the role and the client are looked at.\<close>

definition refresh_option :: "claims \<Rightarrow> token_option list \<Rightarrow> token_option" where
  "refresh_option c opts =
     (let o0 = \<lparr>to_role = cl_role c, to_client = cl_client c, to_scope = cl_scope c, to_ip = cl_ip c, to_device = cl_device c,
                to_type = cl_type c, to_expire = 0\<rparr> in
      case opts of
        [] \<Rightarrow> o0
      | x # _ \<Rightarrow>
          (let o1 = (if to_role x \<noteq> [] then o0\<lparr>to_role := to_role x\<rparr> else o0) in
           if to_client x \<noteq> [] then o1\<lparr>to_client := to_client x\<rparr> else o1))"

definition refresh_token :: "jwtlib \<Rightarrow> auth_env \<Rightarrow> time \<Rightarrow> time \<times> time \<times> time \<Rightarrow> string \<Rightarrow> token_option list \<Rightarrow> auth_state \<Rightarrow>
    (string + string) \<times> auth_state" where
  "refresh_token l env now ts tok opts s =
     (case parse_token l env now tok s of
        (Inl e, s') \<Rightarrow> (Inl e, s')
      | (Inr c, s') \<Rightarrow> generate_token_with_opts l env ts (cl_user c) (cl_username c) (refresh_option c opts) s')"

subsection \<open>Loading a key twice\<close>

lemma load_pem_key_again:
  "load_pem_key env p b m = (r, m') \<Longrightarrow> load_pem_key env p b' m' = (r, m')"
  by (auto simp: load_pem_key_def Let_def split: option.splits)

lemma signing_key_again:
  "signing_key env c a m = (r, m') \<Longrightarrow> signing_key env c a m' = (r, m')"
  by (auto simp: signing_key_def load_pem_key_again split: if_splits option.splits)

lemma signing_key_asymmetric:
  "a \<noteq> HS256 \<Longrightarrow> b \<noteq> HS256 \<Longrightarrow> signing_key env c a = signing_key env c b"
  by (rule ext) (simp add: signing_key_def)

lemma validate_config_again:
  "validate_config env c m = (r, m') \<Longrightarrow> validate_config env c m' = (r, m')"
  by (auto simp: validate_config_def dest: signing_key_again split: sum.splits alg.splits prod.splits)

lemma validate_config_ok:
  assumes "validate_config env c m = (None, m')"
  obtains (hmac) "signing_method (ae_ucd env) c = Inr HS256" "m' = m" "validate_secret (jc_secret c) = None"
        | (asymmetric) a k where "signing_method (ae_ucd env) c = Inr a" "a \<noteq> HS256" "signing_key env c a m = (Inr k, m')"
  using assms by (auto simp: validate_config_def split: sum.splits alg.splits prod.splits)

subsection \<open>Making and reading a token\<close>

text \<open>What a successful call leaves behind: the algorithm, the key that signed, both again in reach.\<close>

lemma generate_token_ok:
  assumes g: "generate_token_with_opts l env ts user name opt s = (Inr tok, s')" and c: "au_config s = Some cfg"
  obtains a k where "signing_method (ae_ucd env) cfg = Inr a" "signing_key env cfg a (au_cache s') = (Inr k, au_cache s')"
    "validate_config env cfg (au_cache s') = (None, au_cache s')" "au_config s' = Some cfg"
    "jl_sign l (alg_name a) (token_claims l ts cfg user name opt) k = Inr tok"
proof -
  obtain m a k m' where h: "validate_config env cfg (au_cache s) = (None, m)" "signing_method (ae_ucd env) cfg = Inr a"
    "signing_key env cfg a m = (Inr k, m')" "jl_sign l (alg_name a) (token_claims l ts cfg user name opt) k = Inr tok"
    "s' = s\<lparr>au_cache := m'\<rparr>"
    using g by (auto simp: generate_token_with_opts_def c split: prod.splits option.splits sum.splits)
  have "m' = m" using h(1)
  proof (cases rule: validate_config_ok)
    case hmac
    then show ?thesis using h(2,3) by (simp add: signing_key_def)
  next
    case (asymmetric b k')
    then show ?thesis using h(2,3) signing_key_again by fastforce
  qed
  with h validate_config_again [OF h(1)] signing_key_again [OF h(3)] c show ?thesis by (intro that) auto
qed

lemma verifying_key_derived:
  assumes "signing_key env cfg a m = (Inr k, m)" "key_pair a k vk" "jc_public_path cfg = []" "jc_public cfg = None"
  shows "verifying_key env cfg a m = (Inr vk, m)"
proof (cases a)
  case HS256
  then show ?thesis using assms(1,2) by (auto simp: verifying_key_def signing_key_def key_pair_def)
next
  case RS256
  then show ?thesis using assms
    by (auto simp: verifying_key_def public_key_from_private_def key_pair_def split: key.splits)
next
  case ES256
  then have "signing_key env cfg RS256 m = (Inr k, m)" using assms(1) signing_key_asymmetric [of RS256 ES256] by simp
  then show ?thesis using ES256 assms(2-)
    by (auto simp: verifying_key_def public_key_from_private_def key_pair_def split: key.splits)
qed

lemma parse_token_step:
  assumes "au_config s = Some cfg" "validate_config env cfg (au_cache s) = (None, m)" "signing_method (ae_ucd env) cfg = Inr a"
  shows "parse_token l env now tok s = (let (r, m') = jl_parse l now tok (key_function env cfg a) [alg_name a] m in (r, s\<lparr>au_cache := m'\<rparr>))"
  using assms by (simp add: parse_token_def)

lemma parse_token_ok:
  assumes "parse_token l env now tok s = (Inr c, s')"
  obtains cfg a m m' where "au_config s = Some cfg" "validate_config env cfg (au_cache s) = (None, m)"
    "signing_method (ae_ucd env) cfg = Inr a"
    "jl_parse l now tok (key_function env cfg a) [alg_name a] m = (Inr c, m')" "s' = s\<lparr>au_cache := m'\<rparr>"
  using assms by (auto simp: parse_token_def split: option.splits prod.splits sum.splits)

text \<open>The library's laws, one by one.\<close>

lemmas jwt_laws = jwt_lib_ok_def [THEN iffD1]

lemma jwt_sign_law:
  assumes "jwt_lib_ok l" "jl_sign l (alg_name a) c sk = Inr tok"
  shows "jl_alg l tok = alg_name a" "jl_claims l tok = c"
    "\<exists>vk. key_pair a sk vk \<and> jl_verifies l (alg_name a) tok vk"
  using jwt_laws [OF assms(1), THEN conjunct1, rule_format, OF assms(2)] by auto

lemma jwt_parse_law:
  assumes "jwt_lib_ok l" "jl_parse l now tok kf valid m = (Inr c, m')"
  shows "jl_alg l tok \<in> set valid" "c = jl_claims l tok" "live now c"
    "\<exists>k. kf (jl_alg l tok) m = (Inr k, m') \<and> jl_verifies l (jl_alg l tok) tok k"
  using jwt_laws [OF assms(1), THEN conjunct2, THEN conjunct1, rule_format, OF assms(2)] by auto

lemma jwt_parse_complete:
  assumes "jwt_lib_ok l" "jl_alg l tok \<in> set valid" "live now (jl_claims l tok)" "kf (jl_alg l tok) m = (Inr k, m')"
    "jl_verifies l (jl_alg l tok) tok k"
  shows "jl_parse l now tok kf valid m = (Inr (jl_claims l tok), m')"
  by (rule jwt_laws [OF assms(1), THEN conjunct2, THEN conjunct2, THEN conjunct1, rule_format]) (fact assms)+

lemma jwt_date_law: "jwt_lib_ok l \<Longrightarrow> jl_date l t \<le> t \<and> t < jl_date l t + second"
  using jwt_laws [THEN conjunct2, THEN conjunct2, THEN conjunct2, rule_format] .

subsection \<open>What a token is good for\<close>

definition demo_claims :: claims where
  "demo_claims = \<lparr>cl_user = 7, cl_username = ''ann'', cl_role = [], cl_client = [], cl_scope = [], cl_ip = [], cl_device = [],
     cl_type = [], cl_expires = 3600000000000, cl_issued = 0, cl_not_before = 0, cl_issuer = []\<rparr>"

definition demo_jwtlib :: jwtlib where
  "demo_jwtlib = \<lparr>jl_sign = (\<lambda>a c k. if a = ''HS256'' \<and> c = demo_claims \<and> k = Secret (replicate 32 (CHR ''s'')) then Inr ''t'' else Inl ''no''),
     jl_parse = (\<lambda>now tok kf valid m.
       if tok = ''t'' \<and> ''HS256'' \<in> set valid then
         (case kf ''HS256'' m of
            (Inl e, m') \<Rightarrow> (Inl e, m')
          | (Inr k, m') \<Rightarrow> if k = Secret (replicate 32 (CHR ''s'')) \<and> live now demo_claims then (Inr demo_claims, m') else (Inl ''invalid'', m'))
       else (Inl ''method'', m)),
     jl_alg = (\<lambda>tok. if tok = ''t'' then ''HS256'' else ''none''),
     jl_claims = (\<lambda>tok. demo_claims),
     jl_verifies = (\<lambda>a tok k. a = ''HS256'' \<and> tok = ''t'' \<and> k = Secret (replicate 32 (CHR ''s''))),
     jl_date = (\<lambda>t. t - t mod second)\<rparr>"

lemma alg_name_inject [simp]: "alg_name a = alg_name b \<longleftrightarrow> a = b"
  by (cases a; cases b) (simp_all add: alg_name_def)

lemma alg_name_hs [simp]: "alg_name a = ''HS256'' \<longleftrightarrow> a = HS256" "''HS256'' = alg_name a \<longleftrightarrow> a = HS256"
  by (cases a; simp add: alg_name_def)+

lemma demo_jwtlib_ok: "jwt_lib_ok demo_jwtlib"
proof -
  have "t - t mod second \<le> t \<and> t < t - t mod second + second" for t :: int by (simp add: duration_units)
  then show ?thesis unfolding jwt_lib_ok_def demo_jwtlib_def
    by (auto simp: key_pair_def split: if_splits prod.splits sum.splits)
qed

text \<open>The configuration of the witnesses.\<close>

definition demo_env :: auth_env where
  "demo_env = \<lparr>ae_ucd = ascii_ucd,
     ae_fs = \<lparr>kf_windows = False, kf_stat = (\<lambda>p. Inl ''none''), kf_read = (\<lambda>p. if p = ''pub.pem'' then Inr ''pem'' else Inl ''none'')\<rparr>,
     ae_x509 = \<lparr>xl_pem = (\<lambda>s. Some (''PUBLIC KEY'', s)), xl_pkcs1 = (\<lambda>s. Inl ''no''), xl_ec = (\<lambda>s. Inl ''no''), xl_pkcs8 = (\<lambda>s. Inl ''no''),
       xl_pkix = (\<lambda>s. Inr (RsaPublic 1)), xl_pkcs1_public = (\<lambda>s. Inl ''no''), xl_certificate = (\<lambda>s. Inl ''no''), xl_type_name = (\<lambda>k. [])\<rparr>\<rparr>"

definition demo_config :: jwt_config where
  "demo_config = \<lparr>jc_secret = replicate 32 (CHR ''s''), jc_expire = 3600000000000, jc_issuer = [], jc_method = [],
     jc_private_path = [], jc_public_path = [], jc_private = None, jc_public = None\<rparr>"

definition demo_auth :: auth_state where
  "demo_auth = \<lparr>au_config = Some demo_config, au_cache = Map.empty\<rparr>"


lemma demo_signing: "signing_method ascii_ucd demo_config = Inr HS256"
  by (simp add: signing_method_def demo_config_def trim_space_def trim_segments_def to_upper_def runes_def string_of_runes_def Let_def)

lemma demo_generate:
  "generate_token_with_opts demo_jwtlib demo_env (0, 0, 0) 7 ''ann'' empty_option demo_auth = (Inr ''t'', demo_auth)"
  by (simp add: generate_token_with_opts_def demo_auth_def validate_config_def demo_signing demo_env_def signing_key_def
      validate_secret_def min_secret_length_def demo_jwtlib_def token_claims_def empty_option_def Let_def)
     (simp add: demo_config_def demo_claims_def duration_units)



lemma demo_parse: "parse_token demo_jwtlib demo_env 5 ''t'' demo_auth = (Inr demo_claims, demo_auth)"
  by (simp add: parse_token_def demo_auth_def validate_config_def demo_signing demo_env_def validate_secret_def
      min_secret_length_def demo_jwtlib_def key_function_def verifying_key_def)
     (simp add: demo_config_def demo_claims_def live_def)


text \<open>A service that only verifies, with an RS256 or ES256 public key and no private one, has its verifying
  key, and can use none of it: every token is refused for want of a private key.\<close>

theorem verifier_only_service_rejects_all:
  assumes "au_config s = Some cfg" "signing_method (ae_ucd env) cfg = Inr a" "a \<noteq> HS256"
    and "jc_private_path cfg = []" "jc_private cfg = None"
  shows "parse_token l env now tok s = (Inl ''private key not configured: set jwt.private_key_path or provide PrivateKey'', s)
    \<and> (jc_public_path cfg = [] \<longrightarrow> jc_public cfg = Some k \<longrightarrow> verifying_key env cfg a (au_cache s) = (Inr k, au_cache s))
    \<and> (jc_public_path cfg \<noteq> [] \<longrightarrow> au_cache s = Map.empty \<longrightarrow>
         fst (verifying_key env cfg a (au_cache s)) = parse_pem_file (ae_fs env) (ae_x509 env) (jc_public_path cfg) False)"
  using assms by (cases a) (simp_all add: parse_token_def validate_config_def signing_key_def verifying_key_def load_pem_key_def Let_def)

lemma verifier_only_service_rejects_all_witness:
  "parse_token demo_jwtlib demo_env 5 ''t'' (demo_auth\<lparr>au_config := Some (demo_config\<lparr>jc_method := ''RS256'', jc_public_path := ''pub.pem''\<rparr>)\<rparr>)
     = (Inl ''private key not configured: set jwt.private_key_path or provide PrivateKey'',
        demo_auth\<lparr>au_config := Some (demo_config\<lparr>jc_method := ''RS256'', jc_public_path := ''pub.pem''\<rparr>)\<rparr>)
   \<and> parse_pem_file (ae_fs demo_env) (ae_x509 demo_env) ''pub.pem'' False = Inr (RsaPublic 1)"
proof -
  have m: "signing_method ascii_ucd (demo_config\<lparr>jc_method := ''RS256'', jc_public_path := ''pub.pem''\<rparr>) = Inr RS256" by code_simp
  show ?thesis
    using verifier_only_service_rejects_all [of "demo_auth\<lparr>au_config := Some (demo_config\<lparr>jc_method := ''RS256'', jc_public_path := ''pub.pem''\<rparr>)\<rparr>"
        "demo_config\<lparr>jc_method := ''RS256'', jc_public_path := ''pub.pem''\<rparr>" demo_env RS256 demo_jwtlib 5 "''t''"]
    by (simp add: demo_env_def m parse_pem_file_def) (simp add: demo_config_def)
qed

text \<open>A refresh needs a live token; the new one keeps the identity, the scope, the address, the device and the
  type, whatever the overrides say, takes an override of role and client, and always expires by the
  configured time, never by the override's.\<close>

theorem refresh_exact:
  assumes lib: "jwt_lib_ok l" and c: "au_config s = Some cfg"
    and r: "refresh_token l env now (t1, t2, t3) tok opts s = (Inr tok', s')"
  shows "live now (jl_claims l tok)
    \<and> jl_claims l tok' = (jl_claims l tok)\<lparr>
        cl_role := (case opts of [] \<Rightarrow> cl_role (jl_claims l tok) | x # _ \<Rightarrow> if to_role x = [] then cl_role (jl_claims l tok) else to_role x),
        cl_client := (case opts of [] \<Rightarrow> cl_client (jl_claims l tok) | x # _ \<Rightarrow> if to_client x = [] then cl_client (jl_claims l tok) else to_client x),
        cl_expires := jl_date l (t1 + jc_expire cfg), cl_issued := jl_date l t2, cl_not_before := jl_date l t3, cl_issuer := jc_issuer cfg\<rparr>"
proof -
  obtain cl s1 where p: "parse_token l env now tok s = (Inr cl, s1)"
    and g: "generate_token_with_opts l env (t1, t2, t3) (cl_user cl) (cl_username cl) (refresh_option cl opts) s1 = (Inr tok', s')"
    using r by (auto simp: refresh_token_def split: prod.splits sum.splits)
  obtain a' m m' where h: "s1 = s\<lparr>au_cache := m'\<rparr>" "jl_parse l now tok (key_function env cfg a') [alg_name a'] m = (Inr cl, m')"
    using parse_token_ok [OF p] c by (metis option.inject)
  note law = jwt_parse_law [OF lib h(2)]
  have c1: "au_config s1 = Some cfg" using c h(1) by simp
  obtain a k where "jl_sign l (alg_name a) (token_claims l (t1, t2, t3) cfg (cl_user cl) (cl_username cl) (refresh_option cl opts)) k = Inr tok'"
    using generate_token_ok [OF g c1] by blast
  from jwt_sign_law(2) [OF lib this] show ?thesis
    using law(2,3) by (cases opts) (simp_all add: token_claims_def refresh_option_def Let_def)
qed

lemma refresh_exact_witness:
  "live 5 (jl_claims demo_jwtlib ''t'') \<and> cl_expires (jl_claims demo_jwtlib ''t'') = 3600000000000"
proof -
  have "refresh_token demo_jwtlib demo_env 5 (0, 0, 0) ''t'' [empty_option\<lparr>to_expire := 9\<rparr>] demo_auth = (Inr ''t'', demo_auth)"
    using demo_parse demo_generate
    by (simp add: refresh_token_def refresh_option_def demo_claims_def empty_option_def)
  from refresh_exact [OF demo_jwtlib_ok _ this, of demo_config] show ?thesis
    by (simp add: demo_auth_def demo_jwtlib_def demo_config_def demo_claims_def)
qed

end
