(* ===== verification/GinMiddleware.thy ===== *)
theory GinMiddleware
  imports ApiCore Auth
begin

text \<open>
  The gin middlewares: api/middleware/gin (response envelope, CSRF, idempotency keys) and
  frame/pkg/middleware (CORS, bearer tokens, roles, trace, errors, recovery). A middleware is given the rest
  of the chain as a function; calling it is \<open>c.Next()\<close>, not calling it goes with \<open>c.Abort()\<close>. What gin and
  encoding/json do with a body is the record \<open>ginlib\<close>.
\<close>

subsection \<open>The context of a request\<close>

datatype wire = WResponse response | WJson json | WBytes string

datatype ctx_val = CStr string | CNat nat | CHeaders "(string, string) gomap"

datatype gin_error_type = ErrorTypeBind | ErrorTypeRender | ErrorTypePrivate | ErrorTypePublic | ErrorTypeOther nat

record gin_error =
  ge_err :: goerr
  ge_type :: gin_error_type

record gin_ctx =
  gx_method :: string
  gx_path :: string
  gx_req :: "string \<Rightarrow> string"
  gx_cookie :: "string \<Rightarrow> string option"
  gx_keys :: "string \<rightharpoonup> ctx_val"
  gx_headers :: "string \<rightharpoonup> string"
  gx_cookies_set :: "(string \<times> string) list"
  gx_status :: int
  gx_body :: string
  gx_written :: bool
  gx_aborted :: bool
  gx_errors :: "gin_error list"

record ginlib =
  gl_render :: "wire \<Rightarrow> string"
  gl_marshal :: "response \<Rightarrow> string option"
  gl_unmarshal :: "string \<Rightarrow> json option"
  gl_unmarshal_response :: "string \<Rightarrow> response option"

definition gin_set :: "string \<Rightarrow> ctx_val \<Rightarrow> gin_ctx \<Rightarrow> gin_ctx" where
  "gin_set k v c = c\<lparr>gx_keys := (gx_keys c)(k \<mapsto> v)\<rparr>"

definition gin_header :: "string \<Rightarrow> string \<Rightarrow> gin_ctx \<Rightarrow> gin_ctx" where
  "gin_header k v c = c\<lparr>gx_headers := (gx_headers c)(k \<mapsto> v)\<rparr>"

definition gin_abort :: "gin_ctx \<Rightarrow> gin_ctx" where
  "gin_abort c = c\<lparr>gx_aborted := True\<rparr>"

definition gin_json :: "ginlib \<Rightarrow> int \<Rightarrow> wire \<Rightarrow> gin_ctx \<Rightarrow> gin_ctx" where
  "gin_json g st w c = c\<lparr>gx_status := st, gx_body := gx_body c @ gl_render g w, gx_written := True\<rparr>"

text \<open>\<open>c.GetString\<close>.\<close>

definition gin_get_string :: "gin_ctx \<Rightarrow> string \<Rightarrow> string" where
  "gin_get_string c k = (case gx_keys c k of Some (CStr s) \<Rightarrow> s | _ \<Rightarrow> [])"

text \<open>The helpers of frame/pkg/response, at a given latency.\<close>

definition write_response :: "ginlib \<Rightarrow> int \<times> response \<Rightarrow> gin_ctx \<Rightarrow> gin_ctx" where
  "write_response g r c = gin_json g (fst r) (WResponse (snd r)) c"

definition trace_of :: "gin_ctx \<Rightarrow> string" where
  "trace_of c = gin_get_string c ''trace_id''"

subsection \<open>CSRF\<close>

record csrf_config =
  cs_cookie :: string
  cs_header :: string
  cs_secure :: bool

definition default_csrf :: csrf_config where
  "default_csrf = \<lparr>cs_cookie = ''_csrf_token'', cs_header = ''X-CSRF-Token'', cs_secure = False\<rparr>"

definition csrf_denied :: "ginlib \<Rightarrow> string \<Rightarrow> gin_ctx \<Rightarrow> gin_ctx" where
  "csrf_denied g msg c = gin_abort (gin_json g 403 (WJson (JObj [(''code'', JNum 40300), (''message'', JStr msg)])) c)"

definition safe_method :: "string \<Rightarrow> bool" where
  "safe_method m = (m = ''GET'' \<or> m = ''HEAD'' \<or> m = ''OPTIONS'')"

text \<open>\<open>fresh\<close> is the token drawn for this request.\<close>

definition csrf :: "ginlib \<Rightarrow> csrf_config \<Rightarrow> string \<Rightarrow> (gin_ctx \<Rightarrow> gin_ctx) \<Rightarrow> gin_ctx \<Rightarrow> gin_ctx" where
  "csrf g cfg fresh nxt c =
     (if safe_method (gx_method c) then
        nxt (gin_set ''_csrf_token'' (CStr fresh) (c\<lparr>gx_cookies_set := gx_cookies_set c @ [(cs_cookie cfg, fresh)]\<rparr>))
      else case gx_cookie c (cs_cookie cfg) of
        None \<Rightarrow> csrf_denied g ''CSRF token missing in cookie'' c
      | Some ck \<Rightarrow>
          if ck = [] then csrf_denied g ''CSRF token missing in cookie'' c
          else let h = gx_req c (cs_header cfg) in
            if h = [] then csrf_denied g ''CSRF token missing in header'' c
            else if ck \<noteq> h then csrf_denied g ''CSRF token mismatch'' c
            else nxt c)"

subsection \<open>CORS, trace, errors\<close>

definition no_content :: "gin_ctx \<Rightarrow> gin_ctx" where
  "no_content c = gin_abort (c\<lparr>gx_status := 204, gx_written := True\<rparr>)"

definition cors_headers :: "gin_ctx \<Rightarrow> gin_ctx" where
  "cors_headers c = gin_header ''Access-Control-Max-Age'' ''86400''
     (gin_header ''Access-Control-Allow-Methods'' ''POST, OPTIONS, GET, PUT, DELETE, PATCH''
     (gin_header ''Access-Control-Allow-Headers'' ''Content-Type, Content-Length, Accept-Encoding, X-CSRF-Token, Authorization, accept, origin, Cache-Control, X-Requested-With, X-Trace-ID, X-Request-ID'' c))"

definition cors :: "string list \<Rightarrow> (gin_ctx \<Rightarrow> gin_ctx) \<Rightarrow> gin_ctx \<Rightarrow> gin_ctx" where
  "cors origins nxt c =
     (let o' = gx_req c ''Origin''; options = (gx_method c = ''OPTIONS'');
          go = (\<lambda>c. if options then no_content (cors_headers c) else nxt (cors_headers c)) in
      if origins = [] then go (gin_header ''Access-Control-Allow-Origin'' ''*'' c)
      else if o' \<noteq> [] \<and> o' \<in> set origins then
        go (gin_header ''Access-Control-Allow-Credentials'' ''true'' (gin_header ''Access-Control-Allow-Origin'' o' c))
      else if options then no_content c
      else nxt c)"

text \<open>\<open>fresh\<close> is the UUID drawn; the span goes into the request's context and is not kept here.\<close>

definition trace_middleware :: "string \<Rightarrow> (gin_ctx \<Rightarrow> gin_ctx) \<Rightarrow> gin_ctx \<Rightarrow> gin_ctx" where
  "trace_middleware fresh nxt c =
     (let t0 = gx_req c ''X-Trace-ID'';
          t1 = (if t0 = [] then gx_req c ''X-Request-ID'' else t0);
          t = (if t1 = [] then fresh else t1) in
      nxt (gin_header ''X-Trace-ID'' t (gin_set ''trace_id'' (CStr t) c)))"

definition error_handler :: "ginlib \<Rightarrow> int \<Rightarrow> (gin_ctx \<Rightarrow> gin_ctx) \<Rightarrow> gin_ctx \<Rightarrow> gin_ctx" where
  "error_handler g lat nxt c0 =
     (let c = nxt c0 in
      if gx_written c then c
      else if gx_errors c \<noteq> [] then
        (case ge_err (List.last (gx_errors c)) of
           ApiErr code msg d cause \<Rightarrow> write_response g (error_from_core (trace_of c) lat (Some (ApiErr code msg d cause))) c
         | OtherErr t w \<Rightarrow> write_response g (internal_server_error (trace_of c) lat t) c)
      else c)"

text \<open>The rest of the chain returns its context, or panics in one.\<close>

definition recovery :: "ginlib \<Rightarrow> int \<Rightarrow> (gin_ctx \<Rightarrow> gin_ctx + gin_ctx) \<Rightarrow> gin_ctx \<Rightarrow> gin_ctx" where
  "recovery g lat nxt c0 =
     (case nxt c0 of
        Inr c \<Rightarrow> c
      | Inl c \<Rightarrow> gin_abort (write_response g (internal_server_error (trace_of c) lat ''internal server error'') c))"

subsection \<open>Bearer tokens and roles\<close>

definition auth_skip_paths :: "string list" where
  "auth_skip_paths = [''/health'', ''/ready'', ''/metrics'', ''/healthz'', ''/livez'', ''/readyz'']"

definition auth_denied :: "ginlib \<Rightarrow> int \<Rightarrow> string \<Rightarrow> gin_ctx \<Rightarrow> gin_ctx" where
  "auth_denied g lat msg c = gin_abort (write_response g (unauthorized (trace_of c) lat msg) c)"

definition set_claims :: "claims \<Rightarrow> gin_ctx \<Rightarrow> gin_ctx" where
  "set_claims cl c = c\<lparr>gx_keys := (gx_keys c)(''user_id'' \<mapsto> CNat (cl_user cl), ''username'' \<mapsto> CStr (cl_username cl),
     ''role'' \<mapsto> CStr (cl_role cl), ''client_id'' \<mapsto> CStr (cl_client cl), ''scope'' \<mapsto> CStr (cl_scope cl), ''ip'' \<mapsto> CStr (cl_ip cl),
     ''device_fingerprint'' \<mapsto> CStr (cl_device cl), ''token_type'' \<mapsto> CStr (cl_type cl))\<rparr>"

definition auth_with_skip :: "ginlib \<Rightarrow> jwtlib \<Rightarrow> auth_env \<Rightarrow> time \<Rightarrow> int \<Rightarrow> string list \<Rightarrow>
    (gin_ctx \<times> auth_state \<Rightarrow> gin_ctx \<times> auth_state) \<Rightarrow> gin_ctx \<times> auth_state \<Rightarrow> gin_ctx \<times> auth_state" where
  "auth_with_skip g l env now lat extra nxt cs =
     (let (c, s) = cs; h = gx_req c ''Authorization'' in
      if gx_path c \<in> set auth_skip_paths \<union> {p \<in> set extra. p \<noteq> []} then nxt (c, s)
      else if h = [] then (auth_denied g lat ''authorization header is required'' c, s)
      else let parts = split_n h '' '' 2 in
        if length parts \<noteq> 2 \<or> parts ! 0 \<noteq> ''Bearer'' then (auth_denied g lat ''authorization header format is invalid'' c, s)
        else case parse_token l env now (parts ! 1) s of
          (Inl e, s') \<Rightarrow> (auth_denied g lat ''invalid or expired token'' c, s')
        | (Inr cl, s') \<Rightarrow> nxt (set_claims cl c, s'))"

definition auth_middleware :: "ginlib \<Rightarrow> jwtlib \<Rightarrow> auth_env \<Rightarrow> time \<Rightarrow> int \<Rightarrow>
    (gin_ctx \<times> auth_state \<Rightarrow> gin_ctx \<times> auth_state) \<Rightarrow> gin_ctx \<times> auth_state \<Rightarrow> gin_ctx \<times> auth_state" where
  "auth_middleware g l env now lat = auth_with_skip g l env now lat []"

definition role_denied :: "ginlib \<Rightarrow> int \<Rightarrow> string \<Rightarrow> gin_ctx \<Rightarrow> gin_ctx" where
  "role_denied g lat msg c = gin_abort (write_response g (forbidden (trace_of c) lat msg) c)"

definition role_required :: "ginlib \<Rightarrow> int \<Rightarrow> string list \<Rightarrow>
    (gin_ctx \<times> auth_state \<Rightarrow> gin_ctx \<times> auth_state) \<Rightarrow> gin_ctx \<times> auth_state \<Rightarrow> gin_ctx \<times> auth_state" where
  "role_required g lat roles nxt cs =
     (let (c, s) = cs; r = gin_get_string c ''role'' in
      if r = [] then (role_denied g lat ''no role found'' c, s)
      else if r \<in> set roles then nxt (c, s)
      else (role_denied g lat ''insufficient permissions'' c, s))"

subsection \<open>Idempotency keys\<close>

record idem_result =
  ir_status :: int
  ir_body :: string
  ir_headers :: "(string, string) gomap"

type_synonym idem_store = "string \<rightharpoonup> idem_result \<times> time"

definition idem_get :: "time \<Rightarrow> string \<Rightarrow> idem_store \<Rightarrow> idem_result option" where
  "idem_get now k st = (case st k of None \<Rightarrow> None | Some (r, e) \<Rightarrow> if now > e then None else Some r)"

definition idem_set :: "time \<Rightarrow> string \<Rightarrow> idem_result \<Rightarrow> duration \<Rightarrow> idem_store \<Rightarrow> idem_store" where
  "idem_set now k r ttl st = st(k \<mapsto> (r, now + ttl))"

definition idem_cleanup :: "time \<Rightarrow> idem_store \<Rightarrow> idem_store" where
  "idem_cleanup now st = (\<lambda>k. case st k of None \<Rightarrow> None | Some (r, e) \<Rightarrow> if now > e then None else Some (r, e))"

record idem_config =
  ic_header :: string
  ic_ttl :: duration

definition default_idem :: idem_config where
  "default_idem = \<lparr>ic_header = ''Idempotency-Key'', ic_ttl = 24 * hour\<rparr>"

text \<open>The rest of the chain acts on the context, the store and the application's state. The first component
  is what a handler finds of the key: \<open>_idempotency_key\<close>, with the store and the time to live.\<close>

definition idem_replay :: "ginlib \<Rightarrow> idem_result \<Rightarrow> gin_ctx \<Rightarrow> gin_ctx" where
  "idem_replay g r c = gin_abort (gin_json g (ir_status r) (WBytes (ir_body r)) (fold (\<lambda>(k, v). gin_header k v) (ir_headers r) c))"

definition idempotency :: "ginlib \<Rightarrow> idem_config \<Rightarrow> time \<Rightarrow>
    ((string \<times> duration) option \<Rightarrow> gin_ctx \<Rightarrow> idem_store \<Rightarrow> 'w \<Rightarrow> gin_ctx \<times> idem_store \<times> 'w) \<Rightarrow>
    gin_ctx \<Rightarrow> idem_store \<Rightarrow> 'w \<Rightarrow> gin_ctx \<times> idem_store \<times> 'w" where
  "idempotency g cfg now nxt c st w =
     (if gx_method c = ''GET'' then nxt None c st w
      else let k = gx_req c (ic_header cfg) in
        if k = [] then nxt None c st w
        else case idem_get now k st of
          Some r \<Rightarrow> (idem_replay g r c, st, w)
        | None \<Rightarrow> nxt (Some (k, ic_ttl cfg)) c st w)"

text \<open>What a handler saves has no headers.\<close>

definition save_idempotency_result :: "time \<Rightarrow> (string \<times> duration) option \<Rightarrow> int \<Rightarrow> string option \<Rightarrow> idem_store \<Rightarrow> idem_store" where
  "save_idempotency_result now key status body st =
     (case key of
        None \<Rightarrow> st
      | Some (k, ttl) \<Rightarrow>
        (case body of None \<Rightarrow> st | Some b \<Rightarrow> idem_set now k \<lparr>ir_status = status, ir_body = b, ir_headers = []\<rparr> ttl st))"

subsection \<open>The response envelope\<close>

definition convert_gin_error :: "(gin_error + goerr \<Rightarrow> goerr option) option \<Rightarrow> gin_error \<Rightarrow> goerr option" where
  "convert_gin_error custom e =
     (case custom of
        Some f \<Rightarrow> f (Inl e)
      | None \<Rightarrow>
        (case ge_err e of
           ApiErr code msg d c \<Rightarrow> Some (ApiErr code msg d c)
         | OtherErr t w \<Rightarrow>
           (case ge_type e of
              ErrorTypeBind \<Rightarrow> Some (new_error code_validation_failed ''Validation Failed'')
            | ErrorTypeRender \<Rightarrow> Some (new_error code_internal ''Render Error'')
            | ErrorTypePublic \<Rightarrow> Some (new_error code_bad_request t)
            | ErrorTypePrivate \<Rightarrow> Some (new_error_with_cause code_internal ''Internal Server Error'' (OtherErr t w))
            | ErrorTypeOther n \<Rightarrow> Some (new_error_with_cause code_internal ''Internal Server Error'' (OtherErr t w)))))"

text \<open>The same for an error that is no gin error.\<close>

definition convert_plain_error :: "(gin_error + goerr \<Rightarrow> goerr option) option \<Rightarrow> goerr \<Rightarrow> goerr option" where
  "convert_plain_error custom e =
     (case e of
        ApiErr code msg d c \<Rightarrow> Some (ApiErr code msg d c)
      | OtherErr t w \<Rightarrow> (case custom of Some f \<Rightarrow> f (Inr e) | None \<Rightarrow> convert_framework_error (Some e)))"

record gin_config =
  gc_custom :: "(gin_error + goerr \<Rightarrow> goerr option) option"
  gc_builder :: response_builder
  gc_parser :: "(gin_ctx \<Rightarrow> string \<Rightarrow> goerr option) option"

definition default_gin_config :: gin_config where
  "default_gin_config = \<lparr>gc_custom = None, gc_builder = new_response_builder, gc_parser = None\<rparr>"

definition build_gin_response :: "ginlib \<Rightarrow> gin_config \<Rightarrow> string \<Rightarrow> int \<Rightarrow> gin_ctx \<Rightarrow> response" where
  "build_gin_response g cfg tr lat c =
     (let b = gc_builder cfg; body = gx_body c in
      if gx_errors c \<noteq> [] then
        build_error_response b (convert_gin_error (gc_custom cfg) (List.last (gx_errors c))) tr lat
      else if body \<noteq> [] then
        (case (case gc_parser cfg of Some f \<Rightarrow> f c body | None \<Rightarrow> None) of
           Some e \<Rightarrow> build_error_response b (convert_plain_error (gc_custom cfg) e) tr lat
         | None \<Rightarrow>
           (case gl_unmarshal_response g body of
              Some r \<Rightarrow>
                if r_code r \<noteq> 0 then r\<lparr>r_trace := tr, r_latency := lat\<rparr>
                else (case gl_unmarshal g body of
                        Some j \<Rightarrow> build_success_response b (PlainData (Some j)) tr lat
                      | None \<Rightarrow> build_success_response b (PlainData (Some (JStr body))) tr lat)
            | None \<Rightarrow>
                (case gl_unmarshal g body of
                   Some j \<Rightarrow> build_success_response b (PlainData (Some j)) tr lat
                 | None \<Rightarrow> build_success_response b (PlainData (Some (JStr body))) tr lat)))
      else build_success_response b (PlainData None) tr lat)"

definition status_code :: "int \<Rightarrow> int" where
  "status_code st = (if st = 0 then 200 else st)"

text \<open>The intercepted context starts with an empty body and no status, writes nothing out, and keeps the last
  positive status; the answer is then written in one piece. Trace and headers are those of api/core.\<close>

definition gin_middleware :: "ginlib \<Rightarrow> gin_config \<Rightarrow> string \<Rightarrow> int \<Rightarrow> (gin_ctx \<Rightarrow> gin_ctx) \<Rightarrow> gin_ctx \<Rightarrow> int \<times> string" where
  "gin_middleware g cfg tr lat nxt c0 =
     (let c = nxt ((gin_set ''trace_id'' (CStr tr) c0)\<lparr>gx_body := [], gx_status := 0\<rparr>);
          r = build_gin_response g cfg tr lat c in
      case gl_marshal g r of
        None \<Rightarrow> (500, ''{\"code\":50000,\"message\":\"internal server error\",\"trace_id\":\"'' @ tr @ ''\"}'')
      | Some b \<Rightarrow> (status_code (gx_status c), b))"

subsection \<open>Who reaches a protected handler\<close>

lemma split_two:
  assumes "h \<noteq> []"
  shows "split_n h [d] 2 = (case str_index h [d] of None \<Rightarrow> [h] | Some m \<Rightarrow> [take m h, drop (Suc m) h])"
proof -
  have "min 1 (length h) = Suc 0" using assms by (cases h) auto
  then show ?thesis by (simp add: split_n_def gen_split_def split: option.split)
qed

lemma split_bearer:
  assumes "h \<noteq> []"
  shows "length (split_n h '' '' 2) = 2 \<and> split_n h '' '' 2 ! 0 = ''Bearer'' \<longleftrightarrow> (\<exists>tok. h = ''Bearer '' @ tok)"
    and "h = ''Bearer '' @ tok \<Longrightarrow> split_n h '' '' 2 = [''Bearer'', tok]"
proof -
  show 2: "h = ''Bearer '' @ tok \<Longrightarrow> split_n h '' '' 2 = [''Bearer'', tok]" for tok
    using str_index_char [of "CHR '' ''" "''Bearer''" tok] split_two [OF assms, of "CHR '' ''"] by simp
  show "length (split_n h '' '' 2) = 2 \<and> split_n h '' '' 2 ! 0 = ''Bearer'' \<longleftrightarrow> (\<exists>tok. h = ''Bearer '' @ tok)"
  proof
    assume a: "length (split_n h '' '' 2) = 2 \<and> split_n h '' '' 2 ! 0 = ''Bearer''"
    then obtain m where m: "str_index h '' '' = Some m" "take m h = ''Bearer''"
      by (auto simp: split_two [OF assms] split: option.splits)
    from str_index_split [OF m(1)] m(2) have "h = ''Bearer'' @ '' '' @ drop (m + 1) h" by simp
    then have "h = ''Bearer '' @ drop (m + 1) h" by simp
    then show "\<exists>tok. h = ''Bearer '' @ tok" by blast
  qed (use 2 in auto)
qed

lemma auth_with_skip_cases:
  "auth_with_skip g l env now lat extra nxt (c, s) =
     (if gx_path c \<in> set auth_skip_paths \<union> {p \<in> set extra. p \<noteq> []} then nxt (c, s)
      else if \<exists>tok. gx_req c ''Authorization'' = ''Bearer '' @ tok then
        (case parse_token l env now (drop 7 (gx_req c ''Authorization'')) s of
           (Inl e, s') \<Rightarrow> (auth_denied g lat ''invalid or expired token'' c, s')
         | (Inr cl, s') \<Rightarrow> nxt (set_claims cl c, s'))
      else (auth_denied g lat (if gx_req c ''Authorization'' = [] then ''authorization header is required''
              else ''authorization header format is invalid'') c, s))"
proof (cases "gx_req c ''Authorization'' = []")
  case True
  then show ?thesis by (simp add: auth_with_skip_def Let_def)
next
  case False
  show ?thesis
  proof (cases "\<exists>tok. gx_req c ''Authorization'' = ''Bearer '' @ tok")
    case True
    then obtain tok where t: "gx_req c ''Authorization'' = ''Bearer '' @ tok" by blast
    from split_bearer(2) [OF False t] t show ?thesis by (simp add: auth_with_skip_def Let_def)
  next
    case no: False
    with split_bearer(1) [OF False] False show ?thesis by (auto simp: auth_with_skip_def Let_def)
  qed
qed

definition rejected :: "gin_ctx \<times> 's \<Rightarrow> bool" where
  "rejected cs = (gx_aborted (fst cs) \<and> gx_status (fst cs) \<in> {401, 403})"

lemma denied_rejected:
  "rejected (auth_denied g lat msg c, s)" "rejected (role_denied g lat msg c, s)" "rejected (csrf_denied g msg c, s)"
  by (simp_all add: rejected_def auth_denied_def role_denied_def csrf_denied_def gin_abort_def write_response_def gin_json_def
      unauthorized_def forbidden_def error_with_http_status_def)

lemma gin_get_role [simp]: "gin_get_string (set_claims cl c) ''role'' = cl_role cl"
  by (simp add: gin_get_string_def set_claims_def)

lemma role_required_cases:
  "role_required g lat roles nxt (c, s) =
     (if gin_get_string c ''role'' \<noteq> [] \<and> gin_get_string c ''role'' \<in> set roles then nxt (c, s)
      else (role_denied g lat (if gin_get_string c ''role'' = [] then ''no role found'' else ''insufficient permissions'') c, s))"
  by (simp add: role_required_def Let_def)


subsection \<open>CORS\<close>

text \<open>Credentials are allowed only to an origin of the list that the request names itself, never with the
  wildcard answer, and a preflight never reaches the handler. An empty list is the wildcard; a list that
  holds the wildcard as a string admits no origin but that very string.\<close>

theorem cors_credentials_safe:
  assumes "gx_headers c ''Access-Control-Allow-Credentials'' = None" "gx_headers c ''Access-Control-Allow-Origin'' = None"
    and "\<forall>c. h c = c"
  shows "(gx_headers (cors os h c) ''Access-Control-Allow-Credentials'' = Some v \<longrightarrow>
            gx_headers (cors os h c) ''Access-Control-Allow-Origin'' = Some (gx_req c ''Origin'') \<and> gx_req c ''Origin'' \<in> set os \<and> gx_req c ''Origin'' \<noteq> [])
    \<and> (gx_headers (cors os h c) ''Access-Control-Allow-Origin'' = Some o' \<longrightarrow> (os = [] \<and> o' = ''*'') \<or> (o' = gx_req c ''Origin'' \<and> o' \<in> set os))
    \<and> (gx_method c = ''OPTIONS'' \<longrightarrow> (\<forall>h'. cors os h' c = cors os h c) \<and> gx_aborted (cors os h c) \<and> gx_status (cors os h c) = 204)
    \<and> (gx_req c ''Origin'' \<noteq> ''*'' \<longrightarrow> gx_headers (cors [''*''] h c) ''Access-Control-Allow-Origin'' = None)"
  using assms by (auto simp: cors_def Let_def no_content_def cors_headers_def gin_header_def gin_abort_def split: if_splits)

subsection \<open>CSRF\<close>

text \<open>A request that may change something passes exactly when its cookie is not empty and equals its header;
  anything else is answered 403 whatever the handler. Every safe request draws a new token and overwrites
  the cookie, so the header of a page loaded before the last safe request no longer fits.\<close>

theorem csrf_double_submit:
  "(\<not> safe_method (gx_method c) \<longrightarrow>
      (if \<exists>t. t \<noteq> [] \<and> gx_cookie c (cs_cookie cfg) = Some t \<and> gx_req c (cs_header cfg) = t then csrf g cfg fresh h c = h c
       else rejected (csrf g cfg fresh h c, s) \<and> csrf g cfg fresh h' c = csrf g cfg fresh h c))
   \<and> (safe_method (gx_method c) \<longrightarrow> (\<exists>c'. csrf g cfg fresh h c = h c' \<and> (cs_cookie cfg, fresh) \<in> set (gx_cookies_set c')
        \<and> gin_get_string c' ''_csrf_token'' = fresh))
   \<and> (\<not> safe_method (gx_method c) \<longrightarrow> gx_cookie c (cs_cookie cfg) = Some newer \<longrightarrow> gx_req c (cs_header cfg) = older \<longrightarrow> older \<noteq> newer \<longrightarrow>
        rejected (csrf g cfg fresh h c, s))"
proof (intro conjI impI)
  assume "safe_method (gx_method c)"
  then have "csrf g cfg fresh h c =
      h (gin_set ''_csrf_token'' (CStr fresh) (c\<lparr>gx_cookies_set := gx_cookies_set c @ [(cs_cookie cfg, fresh)]\<rparr>))"
    by (simp add: csrf_def)
  then show "\<exists>c'. csrf g cfg fresh h c = h c' \<and> (cs_cookie cfg, fresh) \<in> set (gx_cookies_set c') \<and> gin_get_string c' ''_csrf_token'' = fresh"
    by (intro exI [of _ "gin_set ''_csrf_token'' (CStr fresh) (c\<lparr>gx_cookies_set := gx_cookies_set c @ [(cs_cookie cfg, fresh)]\<rparr>)"])
       (simp add: gin_set_def gin_get_string_def)
qed (auto simp: csrf_def Let_def denied_rejected split: option.split)

subsection \<open>Idempotency: once in sequence\<close>

lemma idem_get_cleanup: "now' \<le> now \<Longrightarrow> idem_get now k (idem_cleanup now' st) = idem_get now k st"
  by (auto simp: idem_get_def idem_cleanup_def split: option.split)

lemma idempotency_hit:
  assumes "gx_method c \<noteq> ''GET''" "gx_req c (ic_header cfg) = k" "k \<noteq> []" "idem_get now k st = Some r"
  shows "idempotency g cfg now h c st w = (idem_replay g r c, st, w)"
  using assms by (simp add: idempotency_def)

lemma idempotency_miss:
  assumes "gx_method c \<noteq> ''GET''" "gx_req c (ic_header cfg) = k" "k \<noteq> []" "idem_get now k st = None"
  shows "idempotency g cfg now h c st w = h (Some (k, ic_ttl cfg)) c st w"
  using assms by (simp add: idempotency_def)

definition saving_handler :: "ginlib \<Rightarrow> time \<Rightarrow> ('w \<Rightarrow> int \<times> string \<times> 'w) \<Rightarrow> (string \<times> duration) option \<Rightarrow> gin_ctx \<Rightarrow> idem_store \<Rightarrow> 'w \<Rightarrow>
    gin_ctx \<times> idem_store \<times> 'w" where
  "saving_handler g t f key c st w =
     (let (status, body, w') = f w in
      (gin_json g status (WBytes body) c, save_idempotency_result t key status (Some body) st, w'))"


subsection \<open>What the envelope keeps\<close>

text \<open>With the default configuration: the last core error decides code, message and details, and the body is
  dropped; a body that reads as an envelope with a code keeps its fields, and only those, whatever else the
  body holds; any other body becomes the data of a success. Trace and latency are always the request's, and
  the status is the handler's, 200 when it set none: an error only attached to the context goes out as 200.\<close>

theorem envelope_exact:
  assumes "r = build_gin_response g default_gin_config tr lat c"
  shows "(gx_errors c \<noteq> [] \<longrightarrow> ge_err (List.last (gx_errors c)) = ApiErr code msg d cause \<longrightarrow>
            r = \<lparr>r_code = code, r_message = msg, r_data = None, r_details = d, r_trace = tr, r_latency = lat\<rparr>)
    \<and> (gx_errors c = [] \<longrightarrow> gx_body c \<noteq> [] \<longrightarrow> gl_unmarshal_response g (gx_body c) = Some r0 \<longrightarrow> r_code r0 \<noteq> 0 \<longrightarrow>
         r = r0\<lparr>r_trace := tr, r_latency := lat\<rparr> \<and> build_gin_response (g\<lparr>gl_unmarshal := u\<rparr>) default_gin_config tr lat c = r)
    \<and> (gx_errors c = [] \<longrightarrow> (case gl_unmarshal_response g (gx_body c) of None \<Rightarrow> True | Some r0 \<Rightarrow> r_code r0 = 0) \<longrightarrow>
         r = \<lparr>r_code = code_success, r_message = ''success'',
              r_data = (if gx_body c = [] then None else Some (case gl_unmarshal g (gx_body c) of None \<Rightarrow> JStr (gx_body c) | Some j \<Rightarrow> j)),
              r_details = None, r_trace = tr, r_latency = lat\<rparr>)
    \<and> r_trace r = tr \<and> r_latency r = lat
    \<and> (gl_marshal g (build_gin_response g cfg tr lat (h ((gin_set ''trace_id'' (CStr tr) c0)\<lparr>gx_body := [], gx_status := 0\<rparr>))) = Some b \<longrightarrow>
         gx_status (h ((gin_set ''trace_id'' (CStr tr) c0)\<lparr>gx_body := [], gx_status := 0\<rparr>)) = 0 \<longrightarrow>
         gin_middleware g cfg tr lat h c0 = (200, b))"
  unfolding assms
  by (auto simp: build_gin_response_def default_gin_config_def new_response_builder_def build_error_response_def build_error_def
      convert_gin_error_def convert_framework_error_def error_envelope_def build_success_response_def build_response_def convert_response_def
      gin_middleware_def status_code_def Let_def split: option.split goerr.split gin_error_type.split)

subsection \<open>Witnesses\<close>

definition demo_ctx :: "string \<Rightarrow> string \<Rightarrow> (string \<Rightarrow> string) \<Rightarrow> gin_ctx" where
  "demo_ctx m p req = \<lparr>gx_method = m, gx_path = p, gx_req = req, gx_cookie = (\<lambda>k. Some ''new''), gx_keys = Map.empty,
     gx_headers = Map.empty, gx_cookies_set = [], gx_status = 0, gx_body = [], gx_written = False, gx_aborted = False, gx_errors = []\<rparr>"

text \<open>Bodies are single bytes: \<open>1\<close> is an envelope that holds nothing but a code.\<close>

definition demo_ginlib :: ginlib where
  "demo_ginlib = \<lparr>gl_render = (\<lambda>w. case w of WBytes b \<Rightarrow> b | _ \<Rightarrow> ''r''), gl_marshal = (\<lambda>r. Some (dec_of (r_code r))),
     gl_unmarshal = (\<lambda>b. if b = ''1'' then Some (JObj [(''code'', JNum 86), (''name'', JStr ''China'')]) else None),
     gl_unmarshal_response = (\<lambda>b. if b = ''1'' then
        Some \<lparr>r_code = 86, r_message = [], r_data = None, r_details = None, r_trace = [], r_latency = 0\<rparr> else None)\<rparr>"

definition bearer_ctx :: gin_ctx where
  "bearer_ctx = demo_ctx ''POST'' ''/a'' (\<lambda>k. if k = ''Authorization'' then ''Bearer t'' else [])"


lemma cors_credentials_safe_witness:
  "gx_headers (cors [''*''] (\<lambda>c. c) bearer_ctx) ''Access-Control-Allow-Origin'' = None"
  using cors_credentials_safe [where c = bearer_ctx and h = "\<lambda>c. c" and os = "[]"] by (simp add: bearer_ctx_def demo_ctx_def)

lemma csrf_double_submit_witness:
  "rejected (csrf demo_ginlib default_csrf ''x'' (\<lambda>c. c) (demo_ctx ''POST'' ''/a'' (\<lambda>k. ''old'')), ())
   \<and> csrf demo_ginlib default_csrf ''x'' (\<lambda>c. c) (demo_ctx ''POST'' ''/a'' (\<lambda>k. ''new'')) = demo_ctx ''POST'' ''/a'' (\<lambda>k. ''new'')"
  using csrf_double_submit [where c = "demo_ctx ''POST'' ''/a'' (\<lambda>k. ''old'')" and cfg = default_csrf and g = demo_ginlib and fresh = "''x''"
      and h = "\<lambda>c. c" and s = "()" and newer = "''new''" and older = "''old''"]
    csrf_double_submit [where c = "demo_ctx ''POST'' ''/a'' (\<lambda>k. ''new'')" and cfg = default_csrf and g = demo_ginlib and fresh = "''x''"
      and h = "\<lambda>c. c" and s = "()"]
  by (simp add: demo_ctx_def safe_method_def)


lemma envelope_exact_witness:
  "r_data (build_gin_response demo_ginlib default_gin_config ''t'' 0 (bearer_ctx\<lparr>gx_body := ''1''\<rparr>)) = None
   \<and> gl_unmarshal demo_ginlib ''1'' = Some (JObj [(''code'', JNum 86), (''name'', JStr ''China'')])"
  using envelope_exact [OF refl, where c = "bearer_ctx\<lparr>gx_body := ''1''\<rparr>" and g = demo_ginlib and tr = "''t''" and lat = 0
      and ?r0.0 = "\<lparr>r_code = 86, r_message = [], r_data = None, r_details = None, r_trace = [], r_latency = 0\<rparr>"]
  by (simp add: bearer_ctx_def demo_ctx_def demo_ginlib_def)

end
