(* ===== verification/DiModules.thy ===== *)
theory DiModules
  imports Prelude
begin

text \<open>
  The module manager of frame/pkg/di/module.go: modules are initialised once, in the order they are used,
  and closed in reverse. A module is a number (its pointer) in a heap \<open>M\<close> that does not change.
\<close>

subsection \<open>Modules\<close>

text \<open>What the functions of a module return; None when it has none.\<close>

record module =
  mo_name :: string
  mo_deps :: "string list"
  mo_init :: "string option option"
  mo_close :: "string option option"

definition new_module :: "string \<Rightarrow> module" where
  "new_module name = \<lparr>mo_name = name, mo_deps = [], mo_init = None, mo_close = None\<rparr>"

definition on_init :: "string option \<Rightarrow> module \<Rightarrow> module" where "on_init f m = m\<lparr>mo_init := Some f\<rparr>"
definition on_close :: "string option \<Rightarrow> module \<Rightarrow> module" where "on_close f m = m\<lparr>mo_close := Some f\<rparr>"
definition depends_on :: "string list \<Rightarrow> module \<Rightarrow> module" where "depends_on ns m = m\<lparr>mo_deps := mo_deps m @ ns\<rparr>"

text \<open>The manager, and of the modules what changes: whose \<open>sync.Once\<close> is done, who counts as initialised. The
  calls of the modules' functions are logged.\<close>

record manager =
  mods :: "string \<rightharpoonup> nat"
  order :: "string list"
  once_done :: "nat set"
  inited :: "nat set"
  init_calls :: "nat list"
  close_calls :: "nat list"

definition new_manager :: manager where
  "new_manager = \<lparr>mods = Map.empty, order = [], once_done = {}, inited = {}, init_calls = [], close_calls = []\<rparr>"

definition module_init :: "(nat \<Rightarrow> module) \<Rightarrow> nat \<Rightarrow> manager \<Rightarrow> string option \<times> manager" where
  "module_init M n s =
     (if n \<in> once_done s then (None, s)
      else
        let e = (case mo_init (M n) of None \<Rightarrow> None | Some r \<Rightarrow> r);
            s' = s\<lparr>once_done := insert n (once_done s),
                   init_calls := (if mo_init (M n) = None then init_calls s else init_calls s @ [n])\<rparr> in
        (e, if e = None then s'\<lparr>inited := insert n (inited s')\<rparr> else s'))"

definition module_close :: "(nat \<Rightarrow> module) \<Rightarrow> nat \<Rightarrow> manager \<Rightarrow> string option \<times> manager" where
  "module_close M n s =
     (case mo_close (M n) of None \<Rightarrow> (None, s) | Some r \<Rightarrow> (r, s\<lparr>close_calls := close_calls s @ [n]\<rparr>))"

datatype module_error =
    DependencyMissing string string
  | InitFailed string string
  | CloseFailed string string

fun missing_dep :: "manager \<Rightarrow> string list \<Rightarrow> string option" where
  "missing_dep s [] = None"
| "missing_dep s (d # ds) = (if mods s d = None then Some d else missing_dep s ds)"

definition enroll :: "(nat \<Rightarrow> module) \<Rightarrow> nat \<Rightarrow> manager \<Rightarrow> manager" where
  "enroll M n s =
     s\<lparr>order := (if mods s (mo_name (M n)) = None then order s @ [mo_name (M n)] else order s),
       mods := (mods s)(mo_name (M n) \<mapsto> n)\<rparr>"

fun use_modules :: "(nat \<Rightarrow> module) \<Rightarrow> nat list \<Rightarrow> manager \<Rightarrow> module_error option \<times> manager" where
  "use_modules M [] s = (None, s)"
| "use_modules M (n # ns) s =
     (case missing_dep s (mo_deps (M n)) of
        Some d \<Rightarrow> (Some (DependencyMissing (mo_name (M n)) d), s)
      | None \<Rightarrow>
        (case module_init M n s of
           (Some e, s') \<Rightarrow> (Some (InitFailed (mo_name (M n)) e), s')
         | (None, s') \<Rightarrow> use_modules M ns (enroll M n s')))"

fun close_loop :: "(nat \<Rightarrow> module) \<Rightarrow> string list \<Rightarrow> manager \<Rightarrow> module_error option \<times> manager" where
  "close_loop M [] s = (None, s)"
| "close_loop M (name # names) s =
     (case mods s name of
        None \<Rightarrow> close_loop M names s
      | Some n \<Rightarrow>
        (case module_close M n s of
           (Some e, s') \<Rightarrow> (Some (CloseFailed name e), s')
         | (None, s') \<Rightarrow> close_loop M names s'))"

definition close_modules :: "(nat \<Rightarrow> module) \<Rightarrow> manager \<Rightarrow> module_error option \<times> manager" where
  "close_modules M s = close_loop M (rev (order s)) s"

inductive managed :: "(nat \<Rightarrow> module) \<Rightarrow> manager \<Rightarrow> bool" for M where
  start: "managed M new_manager"
| used: "managed M s \<Longrightarrow> managed M (snd (use_modules M ns s))"
| closed: "managed M s \<Longrightarrow> managed M (snd (close_modules M s))"

subsection \<open>Order\<close>

definition own_names :: "(nat \<Rightarrow> module) \<Rightarrow> bool" where
  "own_names M = (\<forall>n m. mo_name (M n) = mo_name (M m) \<longrightarrow> n = m)"

definition manager_ok :: "(nat \<Rightarrow> module) \<Rightarrow> manager \<Rightarrow> bool" where
  "manager_ok M s =
     (distinct (order s) \<and> set (order s) = dom (mods s) \<and> (\<forall>name n. mods s name = Some n \<longrightarrow> mo_name (M n) = name) \<and>
      (\<forall>pre name post n. order s = pre @ name # post \<longrightarrow> mods s name = Some n \<longrightarrow> set (mo_deps (M n)) \<subseteq> set pre) \<and>
      distinct (init_calls s) \<and> set (init_calls s) \<subseteq> once_done s)"

lemma missing_dep_None: "missing_dep s ds = None \<longleftrightarrow> set ds \<subseteq> dom (mods s)"
  by (induction ds) auto

lemma module_init_frame:
  "module_init M n s = (e, s') \<Longrightarrow> mods s' = mods s \<and> order s' = order s \<and> close_calls s' = close_calls s"
  by (auto simp: module_init_def Let_def split: if_splits)

lemma module_init_ok: "module_init M n s = (e, s') \<Longrightarrow> manager_ok M s \<Longrightarrow> manager_ok M s'"
proof -
  assume i: "module_init M n s = (e, s')" and ok: "manager_ok M s"
  have "distinct (init_calls s')" "set (init_calls s') \<subseteq> once_done s'"
    using i ok by (auto simp: module_init_def manager_ok_def Let_def split: if_splits)
  then show ?thesis using ok module_init_frame [OF i] by (simp add: manager_ok_def)
qed

lemma enroll_ok:
  assumes ok: "manager_ok M s" and own: "own_names M" and deps: "set (mo_deps (M n)) \<subseteq> dom (mods s)"
  shows "manager_ok M (enroll M n s)"
proof -
  let ?n = "mo_name (M n)"
  note o = ok [unfolded manager_ok_def]
  have known: "m = n" if "mods s ?n = Some m" for m using o own that by (auto simp: own_names_def)
  have "set (mo_deps (M k)) \<subseteq> set pre"
    if eq: "order (enroll M n s) = pre @ name # post" and k: "mods (enroll M n s) name = Some k" for pre name post k
  proof (cases "mods s ?n = None")
    case False
    then have "order s = pre @ name # post" "mods s name = Some k" using eq k known by (auto simp: enroll_def split: if_splits)
    then show ?thesis using o by blast
  next
    case True
    then have eq': "order s @ [?n] = pre @ name # post" using eq by (simp add: enroll_def)
    show ?thesis
    proof (cases post rule: rev_cases)
      case Nil
      then have "name = ?n" "pre = order s" using eq' by simp_all
      then show ?thesis using k deps o by (simp add: enroll_def)
    next
      case (snoc post' x)
      then have "order s = pre @ name # post'" using eq' by simp
      moreover from this have "name \<noteq> ?n" using True o by (auto simp: domIff)
      ultimately show ?thesis using k o by (simp add: enroll_def)
    qed
  qed
  moreover have "distinct (order (enroll M n s))" "set (order (enroll M n s)) = dom (mods (enroll M n s))"
    using o by (auto simp: enroll_def domIff)
  moreover have "\<forall>name k. mods (enroll M n s) name = Some k \<longrightarrow> mo_name (M k) = name" using o by (simp add: enroll_def)
  moreover have "distinct (init_calls (enroll M n s)) \<and> set (init_calls (enroll M n s)) \<subseteq> once_done (enroll M n s)"
    using o by (simp add: enroll_def)
  ultimately show ?thesis unfolding manager_ok_def by blast
qed

lemma use_modules_ok: "own_names M \<Longrightarrow> manager_ok M s \<Longrightarrow> manager_ok M (snd (use_modules M ns s))"
proof (induction ns arbitrary: s)
  case (Cons n ns)
  show ?case
  proof (cases "missing_dep s (mo_deps (M n))")
    case None
    obtain e s' where i: "module_init M n s = (e, s')" by fastforce
    note ok = module_init_ok [OF i Cons.prems(2)]
    have "manager_ok M (enroll M n s')"
      using None module_init_frame [OF i] by (intro enroll_ok [OF ok Cons.prems(1)]) (simp add: missing_dep_None)
    with Cons.IH [OF Cons.prems(1)] ok None i show ?thesis by (cases e) simp_all
  qed (use Cons.prems in simp)
qed simp

lemma close_loop_frame:
  "close_loop M ns s = (e, s') \<Longrightarrow> mods s' = mods s \<and> order s' = order s \<and> init_calls s' = init_calls s \<and> once_done s' = once_done s"
  by (induction ns arbitrary: s) (auto simp: module_close_def split: option.splits prod.splits)

lemma managed_ok: "managed M s \<Longrightarrow> own_names M \<Longrightarrow> manager_ok M s"
proof (induction rule: managed.induct)
  case start
  show ?case by (simp add: manager_ok_def new_manager_def)
next
  case (closed s)
  obtain e s' where c: "close_modules M s = (e, s')" by fastforce
  with closed close_loop_frame [of M "rev (order s)" s e s'] show ?case by (simp add: manager_ok_def close_modules_def)
qed (simp add: use_modules_ok)

text \<open>What closing calls: the close functions of the names, up to and with the first that fails.\<close>

fun closers :: "(nat \<Rightarrow> module) \<Rightarrow> (string \<rightharpoonup> nat) \<Rightarrow> string list \<Rightarrow> nat list" where
  "closers M ms [] = []"
| "closers M ms (name # names) =
     (case ms name of
        None \<Rightarrow> closers M ms names
      | Some n \<Rightarrow>
        (case mo_close (M n) of
           None \<Rightarrow> closers M ms names
         | Some None \<Rightarrow> n # closers M ms names
         | Some (Some e) \<Rightarrow> [n]))"

lemma close_loop_calls: "close_calls (snd (close_loop M ns s)) = close_calls s @ closers M (mods s) ns"
  by (induction ns arbitrary: s) (simp_all add: module_close_def split: option.split)

lemma closers_all:
  "\<forall>name \<in> set ns. ms name \<noteq> None \<and> mo_close (M (the (ms name))) = Some None \<Longrightarrow> closers M ms ns = map (\<lambda>x. the (ms x)) ns"
  by (induction ns) auto


text \<open>A module whose initialisation failed is forgotten: using it again reports no error, registers it without its having
  been initialised, and closing will close it.\<close>

theorem failed_init_is_forgotten:
  assumes "mo_init (M n) = Some (Some e)" "n \<notin> once_done s" "set (mo_deps (M n)) \<subseteq> dom (mods s)"
    and "use_modules M [n] s = (r1, s1)" "use_modules M [n] s1 = (r2, s2)"
  shows "r1 = Some (InitFailed (mo_name (M n)) e) \<and> mods s1 = mods s \<and> r2 = None \<and> mods s2 (mo_name (M n)) = Some n
    \<and> init_calls s2 = init_calls s1 \<and> inited s2 = inited s"
proof -
  have d: "missing_dep s (mo_deps (M n)) = None" using assms(3) by (simp add: missing_dep_None)
  have s1: "r1 = Some (InitFailed (mo_name (M n)) e)" "s1 = s\<lparr>once_done := insert n (once_done s), init_calls := init_calls s @ [n]\<rparr>"
    using assms(1,2,4) d by (simp_all add: module_init_def Let_def)
  have "missing_dep s1 (mo_deps (M n)) = None" using assms(3) s1(2) by (simp add: missing_dep_None)
  then have "r2 = None" "s2 = enroll M n s1" using assms(5) s1(2) by (simp_all add: module_init_def)
  then show ?thesis using s1 by (simp add: enroll_def)
qed

definition demo_modules :: "nat \<Rightarrow> module" where
  "demo_modules n = (if n = 1 then \<lparr>mo_name = ''db'', mo_deps = [], mo_init = Some (Some ''refused''), mo_close = Some None\<rparr>
     else \<lparr>mo_name = ''m'' @ replicate n (CHR ''x''), mo_deps = [], mo_init = None, mo_close = Some None\<rparr>)"

lemma failed_init_is_forgotten_witness:
  "fst (use_modules demo_modules [1] (snd (use_modules demo_modules [1] new_manager))) = None"
  using failed_init_is_forgotten [of demo_modules 1 "''refused''" new_manager]
  by (simp add: demo_modules_def new_manager_def prod_eq_iff)


end
