(* ===== verification/Di.thy ===== *)
theory Di
  imports Prelude
begin

text \<open>
  frame/pkg/di: the container of services with its lazy singletons (container.go, registry.go)
  and the module manager (module.go). A service is a value of some concrete type, or a holder that makes its
  value with a factory when it is first asked for. What a factory does to the container is a tree of calls.
\<close>

subsection \<open>Values and types\<close>

text \<open>A value of type \<open>interface{}\<close>: nil, or a concrete type and an identity.\<close>

type_synonym ifval = "(nat \<times> nat) option"

datatype gotype = Concrete nat | Iface nat

text \<open>\<open>v.(T)\<close>; \<open>im t i\<close> says that the concrete type \<open>t\<close> has the methods of the interface \<open>i\<close>.\<close>

definition asserts :: "(nat \<Rightarrow> nat \<Rightarrow> bool) \<Rightarrow> gotype \<Rightarrow> ifval \<Rightarrow> bool" where
  "asserts im T v =
     (case v of None \<Rightarrow> False | Some (t, _) \<Rightarrow> (case T of Concrete n \<Rightarrow> t = n | Iface i \<Rightarrow> im t i))"

text \<open>What a variable of static type \<open>T\<close> can hold, nil included when \<open>T\<close> is an interface.\<close>

definition inhabits :: "(nat \<Rightarrow> nat \<Rightarrow> bool) \<Rightarrow> gotype \<Rightarrow> ifval \<Rightarrow> bool" where
  "inhabits im T v = (asserts im T v \<or> (v = None \<and> (case T of Iface i \<Rightarrow> True | Concrete n \<Rightarrow> False)))"

subsection \<open>Factories\<close>

datatype factory =
    FReturn ifval
  | FPanic string
  | FHas string "bool \<Rightarrow> factory"
  | FGet string "string + ifval \<Rightarrow> factory"
  | FRegister string ifval bool "string option \<Rightarrow> factory"

datatype hstatus = Fresh | Running | Resolved ifval

record holder =
  ho_factory :: factory
  ho_status :: hstatus

datatype service = Plain ifval | Holder nat

text \<open>Holders live in a list and keep their index; \<open>factory_runs\<close> logs the factories that were started.\<close>

record container =
  services :: "string \<rightharpoonup> service"
  holders :: "holder list"
  factory_runs :: "nat list"

definition new_container :: container where
  "new_container = \<lparr>services = Map.empty, holders = [], factory_runs = []\<rparr>"

definition already_registered :: "string \<Rightarrow> string" where
  "already_registered name = ''service '' @ name @ '' already registered and overwrite is false''"

definition service_not_found :: "string \<Rightarrow> string" where
  "service_not_found name = ''service '' @ name @ '' not found''"

definition has :: "string \<Rightarrow> container \<Rightarrow> bool" where
  "has name c = (services c name \<noteq> None)"

definition register :: "string \<Rightarrow> service \<Rightarrow> bool \<Rightarrow> container \<Rightarrow> string option \<times> container" where
  "register name svc overwrite c =
     (if \<not> overwrite \<and> services c name \<noteq> None then (Some (already_registered name), c)
      else (None, c\<lparr>services := (services c)(name \<mapsto> svc)\<rparr>))"

definition start_holder :: "nat \<Rightarrow> container \<Rightarrow> container" where
  "start_holder h c = c\<lparr>holders := (holders c)[h := (holders c ! h)\<lparr>ho_status := Running\<rparr>], factory_runs := factory_runs c @ [h]\<rparr>"

definition finish_holder :: "nat \<Rightarrow> ifval \<Rightarrow> container \<Rightarrow> container" where
  "finish_holder h v c = c\<lparr>holders := (holders c)[h := (holders c ! h)\<lparr>ho_status := Resolved v\<rparr>]\<rparr>"

text \<open>
  Running a factory. \<open>locked\<close>: a \<open>Get\<close> is under way and holds the read lock, so that registering waits for
  ever. Asking for a holder whose factory is running waits for its \<open>sync.Once\<close>, which is ours. A panic leaves
  the once done and the instance nil, and goes on to the caller. The first argument bounds the depth of
  nested factories.
\<close>

inductive next_of :: "factory \<Rightarrow> factory \<Rightarrow> bool" where
  "next_of (k b) (FHas name k)"
| "next_of (k r) (FGet name k)"
| "next_of (k e) (FRegister name v ow k)"

inductive_cases next_ofE [elim!]: "next_of g (FReturn v)" "next_of g (FPanic m)" "next_of g (FHas name k)"
  "next_of g (FGet name k)" "next_of g (FRegister name v ow k)"

lemma wf_next_of: "wf {(g, f). next_of g f}"
proof (rule wfUNIVI)
  fix P :: "factory \<Rightarrow> bool" and f
  assume h: "\<forall>f. (\<forall>g. (g, f) \<in> {(g, f). next_of g f} \<longrightarrow> P g) \<longrightarrow> P f"
  show "P f" by (induction f) (rule h [rule_format], auto)+
qed

function (sequential) run :: "nat \<Rightarrow> bool \<Rightarrow> factory \<Rightarrow> container \<Rightarrow> ifval outcome \<times> container" where
  "run n locked (FReturn v) c = (Done v, c)"
| "run n locked (FPanic m) c = (Panic m, c)"
| "run n locked (FHas name k) c = run n locked (k (has name c)) c"
| "run n locked (FRegister name v overwrite k) c =
     (if locked then (Blocked, c)
      else (case register name (Plain v) overwrite c of (e, c') \<Rightarrow> run n locked (k e) c'))"
| "run n locked (FGet name k) c =
     (case services c name of
        None \<Rightarrow> run n locked (k (Inl (service_not_found name))) c
      | Some (Plain v) \<Rightarrow> run n locked (k (Inr v)) c
      | Some (Holder h) \<Rightarrow>
        (case ho_status (holders c ! h) of
           Resolved v \<Rightarrow> run n locked (k (Inr v)) c
         | Running \<Rightarrow> (Blocked, c)
         | Fresh \<Rightarrow>
           (case n of
              0 \<Rightarrow> (Blocked, c)
            | Suc m \<Rightarrow>
              (case run m True (ho_factory (holders c ! h)) (start_holder h c) of
                 (Done v, c') \<Rightarrow> run n locked (k (Inr v)) (finish_holder h v c')
               | (Panic e, c') \<Rightarrow> (Panic e, finish_holder h None c')
               | (Blocked, c') \<Rightarrow> (Blocked, c')))))"

  by pat_completeness auto

termination
  by (relation "inv_image (less_than <*lex*> {(g, f). next_of g f}) (\<lambda>(n, l, f, c). (n, f))")
     (auto simp: wf_next_of intro: next_of.intros)

text \<open>As deep as there are holders is deep enough (\<open>run_fuel\<close>).\<close>

definition resolve :: "nat \<Rightarrow> container \<Rightarrow> ifval outcome \<times> container" where
  "resolve h c =
     (case ho_status (holders c ! h) of
        Resolved v \<Rightarrow> (Done v, c)
      | Running \<Rightarrow> (Blocked, c)
      | Fresh \<Rightarrow>
        (case run (length (holders c)) True (ho_factory (holders c ! h)) (start_holder h c) of
           (Done v, c') \<Rightarrow> (Done v, finish_holder h v c')
         | (Panic e, c') \<Rightarrow> (Panic e, finish_holder h None c')
         | (Blocked, c') \<Rightarrow> (Blocked, c')))"

definition get :: "string \<Rightarrow> container \<Rightarrow> (string + ifval) outcome \<times> container" where
  "get name c =
     (case services c name of
        None \<Rightarrow> (Done (Inl (service_not_found name)), c)
      | Some (Plain v) \<Rightarrow> (Done (Inr v), c)
      | Some (Holder h) \<Rightarrow> (case resolve h c of (r, c') \<Rightarrow> (bind_outcome r (\<lambda>v. Done (Inr v)), c')))"

definition must_get :: "string \<Rightarrow> container \<Rightarrow> ifval outcome \<times> container" where
  "must_get name c =
     (case get name c of (r, c') \<Rightarrow> (bind_outcome r (\<lambda>x. case x of Inl e \<Rightarrow> Panic e | Inr v \<Rightarrow> Done v), c'))"

definition wrong_type :: "string \<Rightarrow> string" where
  "wrong_type name = ''service '' @ name @ '' does not implement the expected type''"

definition get_interface :: "(nat \<Rightarrow> nat \<Rightarrow> bool) \<Rightarrow> gotype \<Rightarrow> string \<Rightarrow> container \<Rightarrow> (string + ifval) outcome \<times> container" where
  "get_interface im T name c =
     (case get name c of
        (r, c') \<Rightarrow> (bind_outcome r (\<lambda>x. case x of
            Inl e \<Rightarrow> Done (Inl e)
          | Inr v \<Rightarrow> if asserts im T v then Done (Inr v) else Done (Inl (wrong_type name))), c'))"

definition must_get_interface :: "(nat \<Rightarrow> nat \<Rightarrow> bool) \<Rightarrow> gotype \<Rightarrow> string \<Rightarrow> container \<Rightarrow> ifval outcome \<times> container" where
  "must_get_interface im T name c =
     (case get_interface im T name c of (r, c') \<Rightarrow> (bind_outcome r (\<lambda>x. case x of Inl e \<Rightarrow> Panic e | Inr v \<Rightarrow> Done v), c'))"

definition register_interface :: "string \<Rightarrow> ifval \<Rightarrow> bool \<Rightarrow> container \<Rightarrow> string option \<times> container" where
  "register_interface name v overwrite c = register name (Plain v) overwrite c"

definition register_singleton :: "string \<Rightarrow> factory \<Rightarrow> bool \<Rightarrow> container \<Rightarrow> string option outcome \<times> container" where
  "register_singleton name f overwrite c =
     (if \<not> overwrite \<and> has name c then (Done (Some (already_registered name)), c)
      else (case run (length (holders c)) False f c of
              (Done v, c') \<Rightarrow> (case register name (Plain v) overwrite c' of (e, c'') \<Rightarrow> (Done e, c''))
            | (Panic e, c') \<Rightarrow> (Panic e, c')
            | (Blocked, c') \<Rightarrow> (Blocked, c')))"

definition register_lazy_singleton :: "string \<Rightarrow> factory \<Rightarrow> bool \<Rightarrow> container \<Rightarrow> string option \<times> container" where
  "register_lazy_singleton name f overwrite c =
     (if \<not> overwrite \<and> has name c then (Some (already_registered name), c)
      else register name (Holder (length (holders c))) overwrite
        (c\<lparr>holders := holders c @ [\<lparr>ho_factory = f, ho_status = Fresh\<rparr>]\<rparr>))"

text \<open>The shortcuts of module.go.\<close>

definition provide :: "string \<Rightarrow> ifval \<Rightarrow> container \<Rightarrow> container" where
  "provide name v c = (if \<not> has name c then snd (register_interface name v False c) else c)"

definition override :: "string \<Rightarrow> ifval \<Rightarrow> container \<Rightarrow> container" where
  "override name v c = snd (register_interface name v True c)"

definition require :: "(nat \<Rightarrow> nat \<Rightarrow> bool) \<Rightarrow> gotype \<Rightarrow> string \<Rightarrow> container \<Rightarrow> ifval outcome \<times> container" where
  "require im T name c = must_get_interface im T name c"

subsection \<open>What running a factory leaves alone\<close>

lemma nth_update: "xs[i := x] ! j = (if i = j \<and> i < length xs then x else xs ! j)"
  by (cases "i < length xs") (auto simp: list_update_beyond)

text \<open>Holders stay, keep their factories, and once started keep their status.\<close>

definition extends :: "container \<Rightarrow> container \<Rightarrow> bool" where
  "extends c c' =
     (length (holders c) \<le> length (holders c') \<and>
      (\<forall>h < length (holders c). ho_factory (holders c' ! h) = ho_factory (holders c ! h) \<and>
         (ho_status (holders c ! h) \<noteq> Fresh \<longrightarrow> holders c' ! h = holders c ! h)))"

definition container_ok :: "container \<Rightarrow> bool" where
  "container_ok c =
     ((\<forall>name h. services c name = Some (Holder h) \<longrightarrow> h < length (holders c)) \<and>
      distinct (factory_runs c) \<and>
      (\<forall>h. h \<in> set (factory_runs c) \<longleftrightarrow> h < length (holders c) \<and> ho_status (holders c ! h) \<noteq> Fresh))"

lemma extends_refl [simp]: "extends c c"
  by (simp add: extends_def)

lemma extends_trans: "extends a b \<Longrightarrow> extends b c \<Longrightarrow> extends a c"
  by (fastforce simp: extends_def)

lemma extends_register: "register name svc ow c = (e, c') \<Longrightarrow> extends c c'"
  by (auto simp: register_def extends_def split: if_splits)

lemma extends_resolved:
  assumes "ho_status (holders c ! h) = Fresh" "extends (start_holder h c) c'"
  shows "extends c (finish_holder h v c')" "extends c c'"
  using assms by (auto simp: extends_def start_holder_def finish_holder_def nth_update split: if_splits)

lemma container_ok_start:
  assumes "container_ok c" "h < length (holders c)" "ho_status (holders c ! h) = Fresh"
  shows "container_ok (start_holder h c)"
  using assms by (auto simp: container_ok_def start_holder_def nth_list_update)

lemma container_ok_finish:
  assumes "container_ok c" "h < length (holders c)" "ho_status (holders c ! h) \<noteq> Fresh"
  shows "container_ok (finish_holder h v c)"
  using assms by (auto simp: container_ok_def finish_holder_def nth_list_update)

lemma container_ok_register:
  "register name (Plain v) ow c = (e, c') \<Longrightarrow> container_ok c \<Longrightarrow> container_ok c'"
  by (auto simp: register_def container_ok_def split: if_splits)

lemma started_stays:
  assumes "extends (start_holder h c) c'" "h < length (holders c)"
  shows "h < length (holders c')" "ho_status (holders c' ! h) = Running"
  using assms by (auto simp: extends_def start_holder_def)

text \<open>The same as a relation, for induction.\<close>

inductive runs :: "nat \<Rightarrow> bool \<Rightarrow> factory \<Rightarrow> container \<Rightarrow> ifval outcome \<Rightarrow> container \<Rightarrow> bool" where
  r_return: "runs n l (FReturn v) c (Done v) c"
| r_panic: "runs n l (FPanic m) c (Panic m) c"
| r_has: "runs n l (k (has name c)) c r c' \<Longrightarrow> runs n l (FHas name k) c r c'"
| r_locked: "runs n True (FRegister name v ow k) c Blocked c"
| r_register: "register name (Plain v) ow c = (e, c1) \<Longrightarrow> runs n False (k e) c1 r c' \<Longrightarrow> runs n False (FRegister name v ow k) c r c'"
| r_absent: "services c name = None \<Longrightarrow> runs n l (k (Inl (service_not_found name))) c r c' \<Longrightarrow> runs n l (FGet name k) c r c'"
| r_plain: "services c name = Some (Plain v) \<Longrightarrow> runs n l (k (Inr v)) c r c' \<Longrightarrow> runs n l (FGet name k) c r c'"
| r_resolved: "services c name = Some (Holder h) \<Longrightarrow> ho_status (holders c ! h) = Resolved v \<Longrightarrow>
    runs n l (k (Inr v)) c r c' \<Longrightarrow> runs n l (FGet name k) c r c'"
| r_running: "services c name = Some (Holder h) \<Longrightarrow> ho_status (holders c ! h) = Running \<Longrightarrow> runs n l (FGet name k) c Blocked c"
| r_deep: "services c name = Some (Holder h) \<Longrightarrow> ho_status (holders c ! h) = Fresh \<Longrightarrow> runs 0 l (FGet name k) c Blocked c"
| r_done: "services c name = Some (Holder h) \<Longrightarrow> ho_status (holders c ! h) = Fresh \<Longrightarrow>
    runs m True (ho_factory (holders c ! h)) (start_holder h c) (Done v) c1 \<Longrightarrow>
    runs (Suc m) l (k (Inr v)) (finish_holder h v c1) r c' \<Longrightarrow> runs (Suc m) l (FGet name k) c r c'"
| r_panics: "services c name = Some (Holder h) \<Longrightarrow> ho_status (holders c ! h) = Fresh \<Longrightarrow>
    runs m True (ho_factory (holders c ! h)) (start_holder h c) (Panic e) c1 \<Longrightarrow>
    runs (Suc m) l (FGet name k) c (Panic e) (finish_holder h None c1)"
| r_blocked: "services c name = Some (Holder h) \<Longrightarrow> ho_status (holders c ! h) = Fresh \<Longrightarrow>
    runs m True (ho_factory (holders c ! h)) (start_holder h c) Blocked c1 \<Longrightarrow> runs (Suc m) l (FGet name k) c Blocked c1"

lemma run_runs: "run n l f c = (r, c') \<Longrightarrow> runs n l f c r c'"
proof (induction n l f c arbitrary: r c' rule: run.induct)
  case (5 n l name k c)
  show ?case
  proof (cases "\<exists>h m. services c name = Some (Holder h) \<and> ho_status (holders c ! h) = Fresh \<and> n = Suc m")
    case True
    then obtain h m where here: "services c name = Some (Holder h)" "ho_status (holders c ! h) = Fresh" "n = Suc m" by blast
    obtain r1 c1 where r1: "run m True (ho_factory (holders c ! h)) (start_holder h c) = (r1, c1)" by fastforce
    note inner = "5.IH"(3) [OF here(1) refl here(2,3) r1]
    show ?thesis
    proof (cases r1)
      case (Done v)
      have "run n l (k (Inr v)) (finish_holder h v c1) = (r, c')" using "5.prems" here r1 Done by simp
      from "5.IH"(4) [OF here(1) refl here(2,3) r1 [symmetric] Done this] show ?thesis
        using here inner Done by (auto intro: r_done)
    qed (use "5.prems" here r1 inner in \<open>auto intro: r_panics r_blocked\<close>)
  next
    case False
    then show ?thesis using 5 by (auto split: option.splits service.splits hstatus.splits nat.splits intro: runs.intros)
  qed
qed (auto split: if_splits prod.splits intro: runs.intros)

lemma runs_extends: "runs n l f c r c' \<Longrightarrow> extends c c'"
  by (induction rule: runs.induct) (auto intro: extends_trans extends_register extends_resolved)

lemma runs_ok:
  "runs n l f c r c' \<Longrightarrow> container_ok c \<Longrightarrow> container_ok c'"
proof (induction rule: runs.induct)
  case (r_done c name h m v c1 l k r c')
  have h: "h < length (holders c)" using r_done.prems r_done.hyps(1) by (simp add: container_ok_def)
  have "container_ok c1" by (rule r_done.IH(1) [OF container_ok_start [OF r_done.prems h r_done.hyps(2)]])
  then show ?case using started_stays [OF runs_extends [OF r_done.hyps(3)] h] by (intro r_done.IH(2) container_ok_finish) simp_all
next
  case (r_panics c name h m e c1 l k)
  have h: "h < length (holders c)" using r_panics.prems r_panics.hyps(1) by (simp add: container_ok_def)
  have "container_ok c1" by (rule r_panics.IH [OF container_ok_start [OF r_panics.prems h r_panics.hyps(2)]])
  then show ?case using started_stays [OF runs_extends [OF r_panics.hyps(3)] h] by (intro container_ok_finish) simp_all
next
  case (r_blocked c name h m c1 l k)
  have h: "h < length (holders c)" using r_blocked.prems r_blocked.hyps(1) by (simp add: container_ok_def)
  show ?case by (rule r_blocked.IH [OF container_ok_start [OF r_blocked.prems h r_blocked.hyps(2)]])
qed (auto intro: container_ok_register)

subsection \<open>The depth is enough\<close>

lemma runs_run: "runs n l f c r c' \<Longrightarrow> run n l f c = (r, c')"
  by (induction rule: runs.induct) simp_all

lemma runs_length: "runs n l f c r c' \<Longrightarrow> length (holders c') = length (holders c)"
  by (induction rule: runs.induct) (auto simp: register_def start_holder_def finish_holder_def split: if_splits)

definition fresh_set :: "container \<Rightarrow> nat set" where
  "fresh_set c = {h. h < length (holders c) \<and> ho_status (holders c ! h) = Fresh}"

lemma finite_fresh [simp]: "finite (fresh_set c)"
  by (simp add: fresh_set_def)

lemma fresh_start: "h \<in> fresh_set c \<Longrightarrow> fresh_set (start_holder h c) = fresh_set c - {h}"
  by (auto simp: fresh_set_def start_holder_def nth_update)

lemma fresh_extends:
  "extends c c' \<Longrightarrow> length (holders c') = length (holders c) \<Longrightarrow> fresh_set c' \<subseteq> fresh_set c"
  by (auto simp: fresh_set_def extends_def)

lemma runs_fuel:
  "runs n l f c r c' \<Longrightarrow> container_ok c \<Longrightarrow> card (fresh_set c) \<le> n \<Longrightarrow> card (fresh_set c) \<le> m \<Longrightarrow> runs m l f c r c'"
proof (induction arbitrary: m rule: runs.induct)
  case (r_register name v ow c e c1 n k r c')
  have "fresh_set c1 = fresh_set c" using r_register.hyps(1) by (auto simp: register_def fresh_set_def split: if_splits)
  then show ?case using r_register by (auto intro: runs.r_register container_ok_register)
next
  case (r_deep c name h l k)
  then have "h \<in> fresh_set c" by (simp add: container_ok_def fresh_set_def)
  then show ?case using r_deep.prems(2) by auto
next
  case (r_done c name h m' v c1 l k r c')
  then have h: "h \<in> fresh_set c" by (simp add: container_ok_def fresh_set_def)
  then have hl: "h < length (holders c)" by (simp add: fresh_set_def)
  have n0: "card (fresh_set c) \<noteq> 0" using h by auto
  then obtain m'' where m: "m = Suc m''" using r_done.prems(3) by (cases m) auto
  have cd: "card (fresh_set (start_holder h c)) = card (fresh_set c) - 1" using h by (simp add: fresh_start)
  note ok = container_ok_start [OF r_done.prems(1) hl r_done.hyps(2)]
  have 1: "runs m'' True (ho_factory (holders c ! h)) (start_holder h c) (Done v) c1"
    using r_done.prems(2,3) m cd by (intro r_done.IH(1) ok) simp_all
  note ext = runs_extends [OF r_done.hyps(3)]
  have "container_ok (finish_holder h v c1)"
    using started_stays [OF ext hl] runs_ok [OF r_done.hyps(3) ok] by (intro container_ok_finish) simp_all
  moreover have "card (fresh_set (finish_holder h v c1)) \<le> card (fresh_set c)"
    using runs_length [OF r_done.hyps(3)]
    by (intro card_mono fresh_extends extends_resolved(1) [OF r_done.hyps(2) ext]) (simp_all add: finish_holder_def start_holder_def)
  ultimately have "runs (Suc m'') l (k (Inr v)) (finish_holder h v c1) r c'"
    using r_done.prems(2,3) m by (intro r_done.IH(2)) simp_all
  then show ?case using m 1 r_done.hyps(1,2) by (auto intro: runs.r_done)
next
  case (r_panics c name h m' e c1 l k)
  then have h: "h \<in> fresh_set c" by (simp add: container_ok_def fresh_set_def)
  then have hl: "h < length (holders c)" by (simp add: fresh_set_def)
  have n0: "card (fresh_set c) \<noteq> 0" using h by auto
  then obtain m'' where m: "m = Suc m''" using r_panics.prems(3) by (cases m) auto
  have "runs m'' True (ho_factory (holders c ! h)) (start_holder h c) (Panic e) c1"
    using r_panics.prems(2,3) m h by (intro r_panics.IH container_ok_start [OF r_panics.prems(1) hl r_panics.hyps(2)]) (simp_all add: fresh_start)
  then show ?case using m r_panics.hyps(1,2) by (auto intro: runs.r_panics)
next
  case (r_blocked c name h m' c1 l k)
  then have h: "h \<in> fresh_set c" by (simp add: container_ok_def fresh_set_def)
  then have hl: "h < length (holders c)" by (simp add: fresh_set_def)
  have n0: "card (fresh_set c) \<noteq> 0" using h by auto
  then obtain m'' where m: "m = Suc m''" using r_blocked.prems(3) by (cases m) auto
  have "runs m'' True (ho_factory (holders c ! h)) (start_holder h c) Blocked c1"
    using r_blocked.prems(2,3) m h by (intro r_blocked.IH container_ok_start [OF r_blocked.prems(1) hl r_blocked.hyps(2)]) (simp_all add: fresh_start)
  then show ?case using m r_blocked.hyps(1,2) by (auto intro: runs.r_blocked)
qed (auto intro: runs.intros)

lemma card_fresh: "card (fresh_set c) \<le> length (holders c)"
  using card_mono [of "{..<length (holders c)}" "fresh_set c"] by (auto simp: fresh_set_def)

lemma register_both:
  "register name (Plain v) ow c = (e, c') \<Longrightarrow> container_ok c \<Longrightarrow> container_ok c' \<and> extends c c'"
  by (simp add: container_ok_register extends_register)

text \<open>Under the read lock nothing is registered.\<close>

lemma runs_locked: "runs n l f c r c' \<Longrightarrow> l \<Longrightarrow> services c' = services c"
  by (induction rule: runs.induct) (simp_all add: start_holder_def finish_holder_def)

lemma resolve_services: "resolve h c = (r, c') \<Longrightarrow> services c' = services c"
  by (auto simp: resolve_def finish_holder_def start_holder_def split: hstatus.splits prod.splits outcome.splits
      dest!: run_runs runs_locked)

text \<open>Any depth from the number of holders on gives the same result.\<close>

lemma run_fuel:
  assumes "container_ok c" "length (holders c) \<le> n"
  shows "run n l f c = run (length (holders c)) l f c"
proof -
  obtain r c' where r: "run n l f c = (r, c')" by fastforce
  from runs_fuel [OF run_runs [OF r] assms(1), of "length (holders c)"] card_fresh [of c] assms(2)
  show ?thesis using runs_run r by fastforce
qed

subsection \<open>Operations and reachable containers\<close>

datatype di_op =
    OpRegister string ifval bool
  | OpSingleton string factory bool
  | OpLazy string factory bool
  | OpGet string

text \<open>None: the operation never returns. A panic is the caller's.\<close>

fun exec :: "di_op \<Rightarrow> container \<Rightarrow> container option" where
  "exec (OpRegister name v ow) c = Some (snd (register_interface name v ow c))"
| "exec (OpLazy name f ow) c = Some (snd (register_lazy_singleton name f ow c))"
| "exec (OpSingleton name f ow) c = (case register_singleton name f ow c of (Blocked, c') \<Rightarrow> None | (r, c') \<Rightarrow> Some c')"
| "exec (OpGet name) c = (case get name c of (Blocked, c') \<Rightarrow> None | (r, c') \<Rightarrow> Some c')"

inductive steps_to :: "container \<Rightarrow> container \<Rightarrow> bool" where
  here: "steps_to c c"
| more: "steps_to a b \<Longrightarrow> exec x b = Some c \<Longrightarrow> steps_to a c"

lemma resolve_cases:
  assumes "resolve h c = (r, c')" "container_ok c" "h < length (holders c)"
  shows "container_ok c' \<and> extends c c' \<and> (\<forall>v. r = Done v \<longrightarrow> ho_status (holders c' ! h) = Resolved v) \<and>
    (\<forall>e. r = Panic e \<longrightarrow> ho_status (holders c' ! h) = Resolved None)"
proof (cases "ho_status (holders c ! h)")
  case Fresh
  obtain r1 c1 where r1: "run (length (holders c)) True (ho_factory (holders c ! h)) (start_holder h c) = (r1, c1)" by fastforce
  note rr = run_runs [OF r1]
  note ok = runs_ok [OF rr container_ok_start [OF assms(2,3) Fresh]] and st = started_stays [OF runs_extends [OF rr] assms(3)]
    and ex = extends_resolved [OF Fresh runs_extends [OF rr]]
  have res: "ho_status (holders (finish_holder h v c1) ! h) = Resolved v" for v using st(1) by (simp add: finish_holder_def)
  have fin: "container_ok (finish_holder h v c1)" for v using st by (intro container_ok_finish [OF ok]) simp_all
  show ?thesis using assms(1) Fresh r1 ok ex res fin by (cases r1) (auto simp: resolve_def)
qed (use assms in \<open>auto simp: resolve_def\<close>)

lemma get_cases:
  assumes "get name c = (r, c')" "container_ok c"
  shows "container_ok c' \<and> extends c c'"
proof (cases "services c name")
  case (Some s)
  show ?thesis
  proof (cases s)
    case (Holder h)
    obtain r1 where "resolve h c = (r1, c')" using assms(1) Some Holder by (auto simp: get_def split: prod.splits)
    from resolve_cases [OF this assms(2)] show ?thesis using assms(2) Some Holder by (auto simp: container_ok_def)
  qed (use assms Some in \<open>simp add: get_def\<close>)
qed (use assms in \<open>simp add: get_def\<close>)

lemma exec_ok:
  assumes "exec x c = Some c'" "container_ok c"
  shows "container_ok c' \<and> extends c c'"
proof (cases x)
  case (OpRegister name v ow)
  then show ?thesis using assms by (auto simp: register_interface_def container_ok_register extends_register prod_eq_iff intro: container_ok_register extends_register)
next
  case (OpSingleton name f ow)
  show ?thesis
  proof (cases "\<not> ow \<and> has name c")
    case True
    then show ?thesis using assms OpSingleton by (simp add: register_singleton_def)
  next
    case False
    obtain r c1 where r: "run (length (holders c)) False f c = (r, c1)" by fastforce
    note rr = run_runs [OF r]
    note ok1 = runs_ok [OF rr assms(2)] and e1 = runs_extends [OF rr]
    show ?thesis
    proof (cases r)
      case (Done v)
      then obtain e where "register name (Plain v) ow c1 = (e, c')"
        using assms(1) OpSingleton False r by (auto simp: register_singleton_def split: prod.splits)
      from register_both [OF this ok1] show ?thesis using extends_trans [OF e1] by blast
    qed (use assms(1) OpSingleton False r ok1 e1 in \<open>auto simp: register_singleton_def\<close>)
  qed
next
  case (OpLazy name f ow)
  then show ?thesis using assms
    by (auto simp: register_lazy_singleton_def register_def container_ok_def extends_def nth_append less_Suc_eq split: if_splits)
next
  case (OpGet name)
  then show ?thesis using assms get_cases [of name c] by (auto split: prod.splits outcome.splits)
qed

lemma steps_ok: "steps_to c c' \<Longrightarrow> container_ok c \<Longrightarrow> container_ok c' \<and> extends c c'"
  by (induction rule: steps_to.induct) (auto dest: exec_ok intro: extends_trans)

lemma new_ok: "container_ok new_container"
  by (simp add: container_ok_def new_container_def)

subsection \<open>Singletons\<close>

lemma get_again:
  assumes g: "get name c = (Done (Inr v), c1)" and ok: "container_ok c" and s: "steps_to c1 c2" and n: "services c2 name = services c1 name"
  shows "get name c2 = (Done (Inr v), c2)"
proof (cases "services c name")
  case None
  then show ?thesis using g by (simp add: get_def)
next
  case (Some svc)
  have ok1: "container_ok c1" and e12: "extends c1 c2" using get_cases [OF g ok] steps_ok [OF s] by auto
  show ?thesis
  proof (cases svc)
    case (Plain w)
    then show ?thesis using g Some n by (simp add: get_def)
  next
    case (Holder h)
    obtain r1 where r: "resolve h c = (r1, c1)" "bind_outcome r1 (\<lambda>v. Done (Inr v :: string + ifval)) = Done (Inr v)"
      using g Some Holder by (auto simp: get_def split: prod.splits)
    then have r1: "r1 = Done v" by (cases r1) simp_all
    have hl: "h < length (holders c)" using ok Some Holder by (simp add: container_ok_def)
    note rc = resolve_cases [OF r(1) ok hl]
    have "ho_status (holders c1 ! h) = Resolved v" using rc r1 by simp
    moreover have hl1: "h < length (holders c1)" using rc hl by (simp add: extends_def)
    ultimately have st: "ho_status (holders c2 ! h) = Resolved v" using e12 by (auto simp: extends_def)
    have sv: "services c1 name = Some (Holder h)"
      using Some Holder resolve_services [OF r(1)] by simp
    then show ?thesis using st n by (simp add: get_def resolve_def)
  qed
qed

lemma get_panicked:
  assumes g: "get name c = (Panic e, c1)" and ok: "container_ok c"
  shows "get name c1 = (Done (Inr None), c1)"
proof -
  obtain h where h: "services c name = Some (Holder h)" using g by (auto simp: get_def split: option.splits service.splits)
  then obtain r1 where r: "resolve h c = (r1, c1)" "bind_outcome r1 (\<lambda>v. Done (Inr v :: string + ifval)) = Panic e"
    using g by (auto simp: get_def split: prod.splits)
  then have "r1 = Panic e" by (cases r1) simp_all
  then have "ho_status (holders c1 ! h) = Resolved None"
    using resolve_cases [OF r(1) ok] ok h by (simp add: container_ok_def)
  then show ?thesis using resolve_services [OF r(1)] h by (simp add: get_def resolve_def)
qed

text \<open>C16. In every container that operations reach, no factory has been started twice; a service got once is got
  again as the same instance after any operations, for as long as its name is not bound anew. A factory
  that panics is not run again either: from then on the service is nil, with no error. A factory that asks
  for its own service, or that registers one, never returns to the caller of \<open>Get\<close>.\<close>

theorem singleton_once:
  assumes "steps_to new_container c"
  shows "distinct (factory_runs c)
    \<and> (\<forall>v c1 c2. get name c = (Done (Inr v), c1) \<longrightarrow> steps_to c1 c2 \<longrightarrow> services c2 name = services c1 name \<longrightarrow>
         get name c2 = (Done (Inr v), c2))
    \<and> (\<forall>e c1. get name c = (Panic e, c1) \<longrightarrow> get name c1 = (Done (Inr None), c1))
    \<and> (\<forall>f ow. services c name = None \<longrightarrow> (case f of FGet n k \<Rightarrow> n = name | FRegister n v o' k \<Rightarrow> True | _ \<Rightarrow> False) \<longrightarrow>
         fst (get name (snd (register_lazy_singleton name f ow c))) = Blocked)"
proof (intro conjI allI impI)
  have ok: "container_ok c" using steps_ok [OF assms new_ok] by simp
  then show "distinct (factory_runs c)" by (simp add: container_ok_def)
  show "get name c2 = (Done (Inr v), c2)"
    if "get name c = (Done (Inr v), c1)" "steps_to c1 c2" "services c2 name = services c1 name" for v c1 c2
    using get_again [OF that(1) ok that(2,3)] .
  show "get name c1 = (Done (Inr None), c1)" if "get name c = (Panic e, c1)" for e c1
    using get_panicked [OF that ok] .
  show "fst (get name (snd (register_lazy_singleton name f ow c))) = Blocked"
    if "services c name = None" "case f of FGet n k \<Rightarrow> n = name | FRegister n v o' k \<Rightarrow> True | _ \<Rightarrow> False" for f ow
    using that by (cases f) (simp_all add: register_lazy_singleton_def register_def has_def get_def resolve_def start_holder_def)
qed

lemma singleton_once_witness:
  "distinct (factory_runs new_container) \<and>
   fst (get ''db'' (snd (register_lazy_singleton ''db'' (FGet ''db'' (\<lambda>r. FReturn None)) False new_container))) = Blocked"
proof -
  note s = singleton_once [OF steps_to.here, of "''db''"]
  show ?thesis
    using conjunct1 [OF s] conjunct2 [OF conjunct2 [OF conjunct2 [OF s]], rule_format, of "FGet ''db'' (\<lambda>r. FReturn None)" False]
    by (simp add: new_container_def)
qed

subsection \<open>Names used at one type\<close>

text \<open>\<open>G\<close> gives every name a type. A factory keeps to it when it returns values of its own type and registers values
  of the name's, whatever the container answers.\<close>

primrec ftyped :: "(nat \<Rightarrow> nat \<Rightarrow> bool) \<Rightarrow> (string \<Rightarrow> gotype) \<Rightarrow> gotype \<Rightarrow> factory \<Rightarrow> bool" where
  "ftyped im G T (FReturn v) = inhabits im T v"
| "ftyped im G T (FPanic m) = True"
| "ftyped im G T (FHas name k) = (\<forall>b. ftyped im G T (k b))"
| "ftyped im G T (FGet name k) =
     (\<forall>r. (case r of Inl e \<Rightarrow> True | Inr v \<Rightarrow> inhabits im (G name) v \<or> v = None) \<longrightarrow> ftyped im G T (k r))"
| "ftyped im G T (FRegister name v ow k) = (inhabits im (G name) v \<and> (\<forall>e. ftyped im G T (k e)))"

definition holder_typed :: "(nat \<Rightarrow> nat \<Rightarrow> bool) \<Rightarrow> (string \<Rightarrow> gotype) \<Rightarrow> gotype \<Rightarrow> holder \<Rightarrow> bool" where
  "holder_typed im G T x =
     (ftyped im G T (ho_factory x) \<and> (\<forall>v. ho_status x = Resolved v \<longrightarrow> inhabits im T v \<or> v = None))"

definition typed :: "(nat \<Rightarrow> nat \<Rightarrow> bool) \<Rightarrow> (string \<Rightarrow> gotype) \<Rightarrow> container \<Rightarrow> bool" where
  "typed im G c =
     ((\<forall>name v. services c name = Some (Plain v) \<longrightarrow> inhabits im (G name) v) \<and>
      (\<forall>name h. services c name = Some (Holder h) \<longrightarrow> holder_typed im G (G name) (holders c ! h)) \<and>
      (\<forall>name name' h. services c name = Some (Holder h) \<longrightarrow> services c name' = Some (Holder h) \<longrightarrow> name' = name))"

lemma typed_plain: "typed im G c \<Longrightarrow> services c name = Some (Plain v) \<Longrightarrow> inhabits im (G name) v"
  by (simp add: typed_def)

lemma typed_holder: "typed im G c \<Longrightarrow> services c name = Some (Holder h) \<Longrightarrow> holder_typed im G (G name) (holders c ! h)"
  by (simp add: typed_def)

lemma typed_holder_unique:
  "typed im G c \<Longrightarrow> services c name = Some (Holder h) \<Longrightarrow> services c name' = Some (Holder h) \<Longrightarrow> name = name'"
  by (simp add: typed_def)

lemma typed_register:
  "register name (Plain v) ow c = (e, c') \<Longrightarrow> typed im G c \<Longrightarrow> inhabits im (G name) v \<Longrightarrow> typed im G c'"
  by (auto simp: register_def typed_def split: if_splits)

lemma typed_start: "typed im G c \<Longrightarrow> typed im G (start_holder h c)"
  by (auto simp: typed_def start_holder_def nth_update holder_typed_def)

lemma typed_finish:
  assumes "typed im G c" "services c name = Some (Holder h)" "inhabits im (G name) v \<or> v = None"
  shows "typed im G (finish_holder h v c)"
proof -
  have key: "n = name" if "services c n = Some (Holder h)" for n using typed_holder_unique [OF assms(1) that assms(2)] .
  have "holder_typed im G (G n) (holders (finish_holder h v c) ! h')" if n: "services c n = Some (Holder h')" for n h'
    using typed_holder [OF assms(1) n] key [of n] n assms(3) by (auto simp: finish_holder_def nth_update holder_typed_def)
  moreover have "services (finish_holder h v c) = services c" by (simp add: finish_holder_def)
  ultimately show ?thesis using typed_plain [OF assms(1)] typed_holder_unique [OF assms(1)] by (auto simp: typed_def)
qed

lemma runs_typed:
  "runs n l f c r c' \<Longrightarrow> typed im G c \<Longrightarrow> ftyped im G T f \<Longrightarrow> typed im G c' \<and> (\<forall>v. r = Done v \<longrightarrow> inhabits im T v)"
proof (induction arbitrary: T rule: runs.induct)
  case (r_absent c name n l k r c')
  show ?case by (rule r_absent.IH) (use r_absent.prems in simp_all)
next
  case (r_plain c name v n l k r c')
  have "inhabits im (G name) v" by (rule typed_plain [OF r_plain.prems(1) r_plain.hyps(1)])
  then show ?case using r_plain.prems by (intro r_plain.IH) simp_all
next
  case (r_resolved c name h v n l k r c')
  have "inhabits im (G name) v \<or> v = None"
    using typed_holder [OF r_resolved.prems(1) r_resolved.hyps(1)] r_resolved.hyps(2) by (simp add: holder_typed_def)
  then show ?case using r_resolved.prems by (intro r_resolved.IH) simp_all
next
  case (r_done c name h m v c1 l k r c')
  have "ftyped im G (G name) (ho_factory (holders c ! h))" using typed_holder [OF r_done.prems(1) r_done.hyps(1)] by (simp add: holder_typed_def)
  from r_done.IH(1) [OF typed_start [OF r_done.prems(1)] this] have 1: "typed im G c1" "inhabits im (G name) v" by auto
  have "services c1 name = Some (Holder h)" using runs_locked [OF r_done.hyps(3)] r_done.hyps(1) by (simp add: start_holder_def)
  from typed_finish [OF 1(1) this] 1(2) have "typed im G (finish_holder h v c1)" by simp
  then show ?case using r_done.prems(2) 1(2) by (intro r_done.IH(2)) simp_all
next
  case (r_panics c name h m e c1 l k)
  have "ftyped im G (G name) (ho_factory (holders c ! h))" using typed_holder [OF r_panics.prems(1) r_panics.hyps(1)] by (simp add: holder_typed_def)
  from r_panics.IH [OF typed_start [OF r_panics.prems(1)] this] have 1: "typed im G c1" by auto
  have "services c1 name = Some (Holder h)" using runs_locked [OF r_panics.hyps(3)] r_panics.hyps(1) by (simp add: start_holder_def)
  from typed_finish [OF 1 this] show ?case by simp
next
  case (r_blocked c name h m c1 l k)
  have "ftyped im G (G name) (ho_factory (holders c ! h))" using typed_holder [OF r_blocked.prems(1) r_blocked.hyps(1)] by (simp add: holder_typed_def)
  from r_blocked.IH [OF typed_start [OF r_blocked.prems(1)] this] show ?case by auto
qed (auto intro: typed_register)

lemma get_typed:
  assumes g: "get name c = (r, c')" and t: "typed im G c"
  shows "typed im G c' \<and> (\<forall>v. r = Done (Inr v) \<longrightarrow> inhabits im (G name) v \<or> v = None)"
proof (cases "services c name")
  case (Some svc)
  show ?thesis
  proof (cases svc)
    case (Holder h)
    obtain r1 where r: "resolve h c = (r1, c')" "r = bind_outcome r1 (\<lambda>v. Done (Inr v))" using g Some Holder by (auto simp: get_def split: prod.splits)
    have hf: "holder_typed im G (G name) (holders c ! h)" using typed_holder [OF t] Some Holder by simp
    show ?thesis
    proof (cases "ho_status (holders c ! h)")
      case Fresh
      obtain r2 c2 where r2: "run (length (holders c)) True (ho_factory (holders c ! h)) (start_holder h c) = (r2, c2)" by fastforce
      note rr = run_runs [OF r2]
      have ty: "typed im G c2" "\<And>v. r2 = Done v \<Longrightarrow> inhabits im (G name) v"
        using runs_typed [OF rr typed_start [OF t]] hf by (auto simp: holder_typed_def)
      have sv: "services c2 name = Some (Holder h)" using runs_locked [OF rr] Some Holder by (simp add: start_holder_def)
      show ?thesis using r Fresh r2 ty typed_finish [OF ty(1) sv] by (cases r2) (auto simp: resolve_def)
    qed (use r t hf in \<open>auto simp: resolve_def holder_typed_def\<close>)
  qed (use g t Some typed_plain [OF t] in \<open>auto simp: get_def\<close>)
qed (use g t in \<open>auto simp: get_def\<close>)

fun op_typed :: "(nat \<Rightarrow> nat \<Rightarrow> bool) \<Rightarrow> (string \<Rightarrow> gotype) \<Rightarrow> di_op \<Rightarrow> bool" where
  "op_typed im G (OpRegister name v ow) = inhabits im (G name) v"
| "op_typed im G (OpSingleton name f ow) = ftyped im G (G name) f"
| "op_typed im G (OpLazy name f ow) = ftyped im G (G name) f"
| "op_typed im G (OpGet name) = True"

inductive typed_steps :: "(nat \<Rightarrow> nat \<Rightarrow> bool) \<Rightarrow> (string \<Rightarrow> gotype) \<Rightarrow> container \<Rightarrow> bool" for im G where
  none: "typed_steps im G new_container"
| one: "typed_steps im G c \<Longrightarrow> op_typed im G x \<Longrightarrow> exec x c = Some c' \<Longrightarrow> typed_steps im G c'"

lemma exec_typed:
  assumes "exec x c = Some c'" "op_typed im G x" "typed im G c" "container_ok c"
  shows "typed im G c'"
proof (cases x)
  case (OpRegister name v ow)
  then show ?thesis using assms by (cases "register name (Plain v) ow c") (auto simp: register_interface_def dest: typed_register)
next
  case (OpSingleton name f ow)
  show ?thesis
  proof (cases "\<not> ow \<and> has name c")
    case False
    obtain r c1 where r: "run (length (holders c)) False f c = (r, c1)" by fastforce
    have ty: "typed im G c1" "\<And>v. r = Done v \<Longrightarrow> inhabits im (G name) v"
      using runs_typed [OF run_runs [OF r] assms(3)] assms(2) OpSingleton by auto
    show ?thesis using assms(1) OpSingleton False r ty
      by (cases r) (auto simp: register_singleton_def split: prod.splits dest: typed_register)
  qed (use assms OpSingleton in \<open>simp add: register_singleton_def\<close>)
next
  case (OpLazy name f ow)
  show ?thesis
  proof (cases "\<not> ow \<and> has name c")
    case False
    have c': "c' = c\<lparr>holders := holders c @ [\<lparr>ho_factory = f, ho_status = Fresh\<rparr>],
        services := (services c)(name \<mapsto> Holder (length (holders c)))\<rparr>"
      using assms(1) OpLazy False by (auto simp: register_lazy_singleton_def register_def has_def)
    have "h < length (holders c)" if "services c n = Some (Holder h)" for n h using assms(4) that by (simp add: container_ok_def)
    then show ?thesis using assms(2,3) OpLazy unfolding c'
      by (fastforce simp: typed_def holder_typed_def nth_append split: if_splits)
  qed (use assms OpLazy in \<open>simp add: register_lazy_singleton_def\<close>)
next
  case (OpGet name)
  obtain r c1 where "get name c = (r, c1)" by fastforce
  with get_typed [OF this assms(3)] assms(1) OpGet show ?thesis by (cases r) auto
qed

lemma typed_steps_ok: "typed_steps im G c \<Longrightarrow> typed im G c \<and> container_ok c"
proof (induction rule: typed_steps.induct)
  case none
  then show ?case using new_ok by (simp add: typed_def) (simp add: new_container_def)
next
  case (one c x c')
  then show ?case using exec_typed [of x c c' im G] exec_ok [of x c c'] by blast
qed

text \<open>C19. Where every registration of a name keeps to one type, asking for it at that type gives a value of the type, or says
  that there is no such service; the type assertion fails only for nil: an interface registered as nil, or
  a singleton whose factory panicked or made nil.\<close>

theorem typed_container_sound:
  assumes "typed_steps im G c"
  shows "case fst (get_interface im (G name) name c) of
      Done (Inr v) \<Rightarrow> asserts im (G name) v
    | Done (Inl e) \<Rightarrow> e = service_not_found name \<or> (e = wrong_type name \<and> fst (get name c) = Done (Inr None))
    | _ \<Rightarrow> True"
proof -
  obtain r c' where g: "get name c = (r, c')" by fastforce
  have nf: "e = service_not_found name" if "r = Done (Inl e)" for e
    using g that by (auto simp: get_def split: option.splits service.splits prod.splits) (simp_all add: bind_outcome_Done_iff)
  have iv: "inhabits im (G name) v \<or> v = None" if "r = Done (Inr v)" for v
    using get_typed [OF g] typed_steps_ok [OF assms] that by blast
  show ?thesis
  proof (cases r)
    case (Done x)
    then show ?thesis using g nf iv by (cases x) (auto simp: get_interface_def inhabits_def)
  qed (simp_all add: get_interface_def g)
qed

lemma typed_container_sound_witness:
  "fst (get_interface (\<lambda>t i. t = 1) (Iface 0) ''a'' (snd (register_interface ''a'' (Some (1, 5)) False new_container))) = Done (Inr (Some (1, 5)))"
proof -
  have "typed_steps (\<lambda>t i. t = 1) (\<lambda>n. Iface 0) (snd (register_interface ''a'' (Some (1, 5)) False new_container))"
    by (rule typed_steps.one [OF typed_steps.none, of _ _ "OpRegister ''a'' (Some (1, 5)) False"]) (simp_all add: inhabits_def asserts_def)
  from typed_container_sound [OF this, of "''a''"] show ?thesis
    by (simp add: get_interface_def get_def register_interface_def register_def new_container_def asserts_def)
qed

end
