(* ===== verification/ProxyCall.thy ===== *)
theory ProxyCall
  imports ApiCore StrTools Di
begin

text \<open>
  frame/pkg/di/gateway.go: gateways, and the HTTP client behind a remote one, together with the
  envelope of frame/pkg/response that the other side answers with. The JSON codec, the transport and
  decoding into the response type are parameters.
\<close>

subsection \<open>Remote calls\<close>

text \<open>A request value: its Meta tag where it is a struct, and its JSON or why it has none.\<close>

record call_request =
  cr_struct :: bool
  cr_path :: string
  cr_method :: string
  cr_payload :: "string + json"

record wire_request =
  wr_method :: string
  wr_url :: string
  wr_body :: "json option"
  wr_headers :: "(string, string) gomap"

record dispatcher =
  pd_base_url :: string
  pd_headers :: "(string, string) gomap"

text \<open>What comes back: why the request failed, or the status and the body, or why reading it failed.\<close>

type_synonym transport = "wire_request \<Rightarrow> string + int \<times> (string + string)"

record jsonlib =
  jn_parse :: "string \<Rightarrow> string + json"
  jn_new_request :: "string \<Rightarrow> string \<Rightarrow> string option"

definition build_request :: "ucd \<Rightarrow> jsonlib \<Rightarrow> dispatcher \<Rightarrow> string \<Rightarrow> call_request \<Rightarrow> string + wire_request" where
  "build_request u j p name req =
     (let path0 = (if cr_struct req then cr_path req else []);
          method0 = (if cr_struct req then cr_method req else []);
          path = (if path0 = [] then ''/'' @ to_lower u name else path0);
          m = (if method0 = [] then ''POST'' else method0);
          url = pd_base_url p @ path;
          headers = fold (\<lambda>(k, v). gm_put k v) (pd_headers p) [(''Content-Type'', ''application/json'')] in
      case (if m = ''GET'' then Inr None
            else case cr_payload req of Inl e \<Rightarrow> Inl (''marshal request failed: '' @ e) | Inr x \<Rightarrow> Inr (Some x)) of
        Inl e \<Rightarrow> Inl e
      | Inr body \<Rightarrow>
        (case jn_new_request j m url of
           Some e \<Rightarrow> Inl (''create request failed: '' @ e)
         | None \<Rightarrow> Inr \<lparr>wr_method = m, wr_url = url, wr_body = body, wr_headers = headers\<rparr>))"

text \<open>Field names match whatever the case of their letters; the last one counts.\<close>

definition ascii_lower :: "char \<Rightarrow> char" where
  "ascii_lower c = (let n = of_char c :: nat in if 65 \<le> n \<and> n \<le> 90 then char_of (n + 32) else c)"

definition json_field :: "string \<Rightarrow> (string \<times> json) list \<Rightarrow> json option" where
  "json_field k fs = map_option snd (find (\<lambda>(k', v). map ascii_lower k' = k) (rev fs))"

text \<open>Decoding into a struct: any object, and null, which changes nothing; the text is the library's.\<close>

definition struct_fields :: "json \<Rightarrow> ((string \<times> json) list) option" where
  "struct_fields v = (case v of JObj fs \<Rightarrow> Some fs | JNull \<Rightarrow> Some [] | _ \<Rightarrow> None)"

text \<open>\<open>decode\<close> fills the response type; None stands for the nil pointer of \<open>CallVoid\<close>.\<close>

definition unmarshal_response :: "jsonlib \<Rightarrow> (json \<Rightarrow> string + 'r) option \<Rightarrow> string \<Rightarrow> string + 'r option" where
  "unmarshal_response j decode body =
     (case decode of
        None \<Rightarrow> Inr None
      | Some d \<Rightarrow>
        (case jn_parse j body of
           Inl e \<Rightarrow> Inl (''unmarshal response failed: '' @ e)
         | Inr v \<Rightarrow>
           (case struct_fields v of
              None \<Rightarrow> Inl ''unmarshal response failed: json: cannot unmarshal into struct''
            | Some fs \<Rightarrow>
              (case json_field ''data'' fs of
                 Some x \<Rightarrow>
                   if x \<noteq> JNull then
                     (case d x of Inl e \<Rightarrow> Inl (''unmarshal response data failed: '' @ e) | Inr r \<Rightarrow> Inr (Some r))
                   else (case d v of Inl e \<Rightarrow> Inl (''unmarshal response failed: '' @ e) | Inr r \<Rightarrow> Inr (Some r))
               | None \<Rightarrow> (case d v of Inl e \<Rightarrow> Inl (''unmarshal response failed: '' @ e) | Inr r \<Rightarrow> Inr (Some r))))))"

text \<open>The error text of an answer that is not 200.\<close>

definition error_message :: "jsonlib \<Rightarrow> int \<Rightarrow> string \<Rightarrow> string" where
  "error_message j status body =
     (case jn_parse j body of
        Inr v \<Rightarrow>
          (case struct_fields v of
             Some fs \<Rightarrow>
               (case json_field ''error'' fs of
                  Some (JStr t) \<Rightarrow> if t \<noteq> [] then t else ''remote service returned status '' @ dec_of status @ '': '' @ body
                | _ \<Rightarrow> ''remote service returned status '' @ dec_of status @ '': '' @ body)
           | None \<Rightarrow> ''remote service returned status '' @ dec_of status @ '': '' @ body)
      | Inl e \<Rightarrow> ''remote service returned status '' @ dec_of status @ '': '' @ body)"

definition call :: "ucd \<Rightarrow> jsonlib \<Rightarrow> transport \<Rightarrow> dispatcher \<Rightarrow> string \<Rightarrow> call_request \<Rightarrow> (json \<Rightarrow> string + 'r) option \<Rightarrow> string + 'r option" where
  "call u j send p name req decode =
     (case build_request u j p name req of
        Inl e \<Rightarrow> Inl e
      | Inr r \<Rightarrow>
        (case send r of
           Inl e \<Rightarrow> Inl (''request failed: '' @ e)
         | Inr (status, Inl e) \<Rightarrow> Inl (''read response failed: '' @ e)
         | Inr (status, Inr body) \<Rightarrow>
             if status \<noteq> 200 then Inl (error_message j status body) else unmarshal_response j decode body))"

text \<open>\<open>Call\<close> and \<open>CallVoid\<close>.\<close>

definition call_generic :: "ucd \<Rightarrow> jsonlib \<Rightarrow> transport \<Rightarrow> dispatcher \<Rightarrow> string \<Rightarrow> call_request \<Rightarrow> (json \<Rightarrow> string + 'r) \<Rightarrow> string + 'r option" where
  "call_generic u j send p name req decode = call u j send p name req (Some decode)"

definition call_void :: "ucd \<Rightarrow> jsonlib \<Rightarrow> transport \<Rightarrow> dispatcher \<Rightarrow> string \<Rightarrow> call_request \<Rightarrow> string option" where
  "call_void u j send p name req =
     (case (call u j send p name req (None :: (json \<Rightarrow> string + unit) option)) of Inl e \<Rightarrow> Some e | Inr _ \<Rightarrow> None)"

subsection \<open>Gateways\<close>

record remote_config =
  rc_base_url :: string
  rc_headers :: "(string, string) gomap"
  rc_existing :: "dispatcher option"

definition new_proxy_client :: "string \<Rightarrow> (remote_config \<Rightarrow> remote_config) list \<Rightarrow> dispatcher" where
  "new_proxy_client base opts =
     (let cfg = fold (\<lambda>f c. f c) opts \<lparr>rc_base_url = base, rc_headers = [], rc_existing = None\<rparr> in
      \<lparr>pd_base_url = rc_base_url cfg, pd_headers = rc_headers cfg\<rparr>)"

text \<open>The factories that generated code registered, by gateway; a gateway without one panics.\<close>

type_synonym proxy_factories = "string \<rightharpoonup> dispatcher \<Rightarrow> ifval"

definition register_proxy_factory :: "string \<Rightarrow> (dispatcher \<Rightarrow> ifval) \<Rightarrow> proxy_factories \<Rightarrow> proxy_factories" where
  "register_proxy_factory name f pf = pf(name \<mapsto> f)"

definition provide_remote :: "(nat \<Rightarrow> nat \<Rightarrow> bool) \<Rightarrow> gotype \<Rightarrow> string \<Rightarrow> string \<Rightarrow> (remote_config \<Rightarrow> remote_config) list \<Rightarrow>
    proxy_factories \<Rightarrow> container \<Rightarrow> container outcome" where
  "provide_remote im T name base opts pf c =
     (let cfg = fold (\<lambda>f c. f c) opts \<lparr>rc_base_url = base, rc_headers = [], rc_existing = None\<rparr>;
          client = (case rc_existing cfg of Some d \<Rightarrow> d | None \<Rightarrow> new_proxy_client base opts);
          none = Panic (''Gateway['' @ name @ '']: no proxy factory registered for interface'') in
      case pf name of
        None \<Rightarrow> none
      | Some f \<Rightarrow> if asserts im T (f client) then Done (override name (f client) c) else none)"

definition gateway_get :: "(nat \<Rightarrow> nat \<Rightarrow> bool) \<Rightarrow> gotype \<Rightarrow> string \<Rightarrow> container \<Rightarrow> ifval outcome \<times> container" where
  "gateway_get im T name c = require im T name c"

subsection \<open>What the other side sends\<close>

text \<open>The tags of \<open>core.Response\<close>: data and details are left out when nil.\<close>

definition response_json :: "json \<Rightarrow> response \<Rightarrow> json" where
  "response_json timestamp r =
     JObj ([(''code'', JNum (of_int (r_code r))), (''message'', JStr (r_message r))]
       @ (case r_data r of None \<Rightarrow> [] | Some x \<Rightarrow> [(''data'', x)])
       @ (case r_details r of None \<Rightarrow> [] | Some x \<Rightarrow> [(''details'', x)])
       @ [(''trace_id'', JStr (r_trace r)), (''latency'', JNum (of_int (r_latency r))), (''timestamp'', timestamp)])"

subsection \<open>What arrives\<close>

lemma lower_names:
  "map ascii_lower ''code'' \<noteq> ''data''" "map ascii_lower ''message'' \<noteq> ''data''" "map ascii_lower ''data'' = ''data''"
  "map ascii_lower ''details'' \<noteq> ''data''" "map ascii_lower ''trace_id'' \<noteq> ''data''" "map ascii_lower ''latency'' \<noteq> ''data''"
  "map ascii_lower ''timestamp'' \<noteq> ''data''"
  by code_simp+

lemma data_of_response:
  "\<exists>fs. response_json ts r = JObj fs \<and> struct_fields (response_json ts r) = Some fs \<and> json_field ''data'' fs = r_data r"
  unfolding response_json_def struct_fields_def json_field_def
  by (cases "r_data r"; cases "r_details r") (simp_all add: lower_names del: list.map)

lemma call_answer:
  assumes "build_request u j p name req = Inr r" "send r = Inr (200, Inr body)"
  shows "call u j send p name req d = unmarshal_response j d body"
  using assms by (simp add: call_def)

lemma unmarshal_envelope:
  assumes "jn_parse j body = Inr (response_json ts rs)"
  shows "unmarshal_response j (Some d) body =
     (case r_data rs of
        Some x \<Rightarrow> if x \<noteq> JNull then (case d x of Inl e \<Rightarrow> Inl (''unmarshal response data failed: '' @ e) | Inr r \<Rightarrow> Inr (Some r))
                  else (case d (response_json ts rs) of Inl e \<Rightarrow> Inl (''unmarshal response failed: '' @ e) | Inr r \<Rightarrow> Inr (Some r))
      | None \<Rightarrow> (case d (response_json ts rs) of Inl e \<Rightarrow> Inl (''unmarshal response failed: '' @ e) | Inr r \<Rightarrow> Inr (Some r)))"
  using data_of_response [of ts rs] assms by (auto simp: unmarshal_response_def)


text \<open>A refused payment.\<close>

definition refused :: "int \<times> response" where
  "refused = error_response [] 0 code_business_error ''no funds''"

definition pay_lib :: jsonlib where
  "pay_lib = \<lparr>jn_parse = (\<lambda>b. Inr (response_json JNull (snd refused))), jn_new_request = (\<lambda>m u. None)\<rparr>"

definition pay_request :: call_request where
  "pay_request = \<lparr>cr_struct = True, cr_path = ''/pay'', cr_method = ''POST'', cr_payload = Inr (JObj [])\<rparr>"


end
