(* ===== verification/ExecNodes.thy ===== *)
theory ExecNodes
  imports Dag Retry ApiCore StrTools
begin

text \<open>
  workflow/pkg/executor/nodes.go: the input, output, condition, switch and human input nodes, and with
  workflow/pkg/engine/dag.go the ports their output picks. The JSON parser, the decoding of
  the configurations, \<open>%v\<close> of values that are neither strings, booleans nor integers, and the JavaScript
  engine are the record \<open>nodelib\<close>.
\<close>

subsection \<open>Configurations and values\<close>

record condition_config =
  cc_expression :: string
  cc_field :: string
  cc_operator :: string
  cc_expected :: string

record switch_config =
  sc_cases :: "(string \<times> string) list"
  sc_default :: string
  sc_field :: string
  sc_extension :: bool
  sc_insensitive :: bool

text \<open>The decoding of a condition's configuration ignores its error and keeps what it has read.\<close>

record nodelib =
  nl_parse :: "string \<Rightarrow> json option"
  nl_show :: "json \<Rightarrow> string"
  nl_condition :: "string \<Rightarrow> condition_config"
  nl_switch :: "string \<Rightarrow> string + switch_config"
  nl_js :: "json option \<Rightarrow> string \<Rightarrow> bool option"
  nl_ucd :: ucd

definition empty_condition :: condition_config where
  "empty_condition = \<lparr>cc_expression = [], cc_field = [], cc_operator = [], cc_expected = []\<rparr>"

definition empty_switch :: switch_config where
  "empty_switch = \<lparr>sc_cases = [], sc_default = [], sc_field = [], sc_extension = False, sc_insensitive = False\<rparr>"

text \<open>A JSON object as a map: the last of equal keys counts; null is the nil map.\<close>

definition parse_object :: "nodelib \<Rightarrow> string \<Rightarrow> (string \<times> json) list option" where
  "parse_object l s =
     (case nl_parse l s of Some (JObj fs) \<Rightarrow> Some fs | Some JNull \<Rightarrow> Some [] | _ \<Rightarrow> None)"

definition object_get :: "(string \<times> json) list \<Rightarrow> string \<Rightarrow> json option" where
  "object_get fs k = map_of (rev fs) k"

text \<open>\<open>%v\<close> of a float64 that is an integer: the shortest digits, with an exponent from \<open>1e+06\<close> on.\<close>

definition exponent_text :: "nat \<Rightarrow> string" where
  "exponent_text e = ''e+'' @ (if e < 10 then ''0'' else []) @ dec_nat e"

definition show_nat :: "nat \<Rightarrow> string" where
  "show_nat n =
     (let ds = dec_nat n; e = length ds - 1 in
      if e < 6 then ds
      else
        let sig = rev (dropWhile (\<lambda>c. c = CHR ''0'') (rev ds)) in
        hd sig # (if tl sig = [] then [] else CHR ''.'' # tl sig) @ exponent_text e)"

definition show_int :: "int \<Rightarrow> string" where
  "show_int i = (if i < 0 then CHR ''-'' # show_nat (nat (- i)) else show_nat (nat i))"

definition show_value :: "nodelib \<Rightarrow> json \<Rightarrow> string" where
  "show_value l v =
     (case v of
        JNull \<Rightarrow> ''<nil>''
      | JBool b \<Rightarrow> if b then ''true'' else ''false''
      | JStr s \<Rightarrow> s
      | JNum q \<Rightarrow> if q = of_int \<lfloor>q\<rfloor> \<and> \<bar>q\<bar> < 2 ^ 53 then show_int \<lfloor>q\<rfloor> else nl_show l v
      | _ \<Rightarrow> nl_show l v)"

definition trim_quotes :: "string \<Rightarrow> string" where
  "trim_quotes s = rev (dropWhile (\<lambda>c. c = CHR 34) (rev (dropWhile (\<lambda>c. c = CHR 34) s)))"

definition quoted :: "string \<Rightarrow> string" where
  "quoted s = CHR 34 # s @ [CHR 34]"

definition raw_text :: "raw \<Rightarrow> string" where
  "raw_text r = (case r of None \<Rightarrow> [] | Some s \<Rightarrow> s)"

definition succeeded :: "raw \<Rightarrow> execute_response" where
  "succeeded out = \<lparr>rp_success = True, rp_output = out, rp_error = [], rp_metadata = []\<rparr>"

subsection \<open>Input and output\<close>

definition input_execute :: "execute_request \<Rightarrow> exec_result" where
  "input_execute req = (Some (succeeded (rq_input req)), None)"

definition output_execute :: "execute_request \<Rightarrow> exec_result" where
  "output_execute req =
     (let out = (case rq_input req of None \<Rightarrow> Some ''{}'' | Some s \<Rightarrow> Some s) in (Some (succeeded out), None))"

subsection \<open>Conditions\<close>

definition evaluate_condition_expression :: "nodelib \<Rightarrow> string \<Rightarrow> string \<Rightarrow> bool" where
  "evaluate_condition_expression l input expression =
     (if trim_space expression = [] then False
      else case nl_js l (if input \<noteq> [] then nl_parse l input else None) (''Boolean('' @ expression @ '')'') of
        None \<Rightarrow> False
      | Some b \<Rightarrow> b)"

definition evaluate_json_field :: "nodelib \<Rightarrow> string \<Rightarrow> condition_config \<Rightarrow> bool" where
  "evaluate_json_field l input cfg =
     (case parse_object l input of
        None \<Rightarrow> False
      | Some fs \<Rightarrow>
        (case object_get fs (cc_field cfg) of
           None \<Rightarrow> cc_operator cfg = ''not_exists''
         | Some v \<Rightarrow>
             let s = show_value l v; op = cc_operator cfg in
             if op = ''equals'' \<or> op = [] then s = cc_expected cfg
             else if op = ''not_equals'' then s \<noteq> cc_expected cfg
             else if op = ''contains'' then str_has s (cc_expected cfg)
             else if op = ''exists'' then True
             else if op = ''not_exists'' then False
             else s \<noteq> [] \<and> s \<noteq> ''false'' \<and> s \<noteq> ''0''))"

text \<open>The fields that speak for themselves, in this order, if they have a type that does.\<close>

definition success_field :: "(string \<times> json) list \<Rightarrow> bool option" where
  "success_field fs =
     (case object_get fs ''success'' of
        Some (JBool b) \<Rightarrow> Some b
      | Some (JStr s) \<Rightarrow> Some (s = ''true'' \<or> s = ''ok'' \<or> s = ''success'')
      | _ \<Rightarrow> None)"

definition status_field :: "(string \<times> json) list \<Rightarrow> bool option" where
  "status_field fs =
     (case object_get fs ''status'' of
        Some (JStr s) \<Rightarrow> Some (s = ''ok'' \<or> s = ''success'' \<or> s = ''completed'')
      | _ \<Rightarrow> None)"

definition code_field :: "(string \<times> json) list \<Rightarrow> bool option" where
  "code_field fs = (case object_get fs ''code'' of Some (JNum q) \<Rightarrow> Some (q \<ge> 200 \<and> q < 300) | _ \<Rightarrow> None)"

definition negatives :: "string list" where
  "negatives = [''false'', ''0'', ''null'', ''undefined'', ''no'', ''fail'', ''error'', ''[]'', ''{}'']"

definition evaluate_truth :: "nodelib \<Rightarrow> string \<Rightarrow> bool" where
  "evaluate_truth l input =
     (case parse_object l input of
        Some fs \<Rightarrow>
          (case success_field fs of
             Some b \<Rightarrow> b
           | None \<Rightarrow>
             (case status_field fs of
                Some b \<Rightarrow> b
              | None \<Rightarrow> (case code_field fs of Some b \<Rightarrow> b | None \<Rightarrow> fs \<noteq> [])))
      | None \<Rightarrow>
          let cleaned = trim_quotes (trim_space input) in
          if cleaned = [] then False else cleaned \<notin> set negatives)"

definition condition_result :: "nodelib \<Rightarrow> execute_request \<Rightarrow> bool" where
  "condition_result l req =
     (let input = raw_text (rq_input req);
          cfg = (case rq_config req of None \<Rightarrow> empty_condition | Some s \<Rightarrow> nl_condition l s) in
      if cc_field cfg \<noteq> [] then evaluate_json_field l input cfg
      else if cc_expression cfg \<noteq> [] then evaluate_condition_expression l input (cc_expression cfg)
      else evaluate_truth l input)"

definition condition_execute :: "nodelib \<Rightarrow> execute_request \<Rightarrow> exec_result" where
  "condition_execute l req =
     (Some (succeeded (Some (quoted (if condition_result l req then ''true'' else ''false'')))), None)"

subsection \<open>Switches\<close>

text \<open>\<open>filepath.Ext\<close>.\<close>

fun ext_of_rev :: "string \<Rightarrow> string \<Rightarrow> string" where
  "ext_of_rev acc [] = []"
| "ext_of_rev acc (c # cs) =
     (if c = CHR ''/'' then [] else if c = CHR ''.'' then c # acc else ext_of_rev (c # acc) cs)"

definition extract_extension :: "nodelib \<Rightarrow> string \<Rightarrow> string" where
  "extract_extension l name = remove_prefix (to_lower (nl_ucd l) (ext_of_rev [] (rev name))) ''.''"

definition extract_match_value :: "nodelib \<Rightarrow> raw \<Rightarrow> switch_config \<Rightarrow> string" where
  "extract_match_value l input cfg =
     (let rawv = trim_quotes (raw_text input) in
      if sc_field cfg \<noteq> [] then
        (case parse_object l rawv of
           None \<Rightarrow> rawv
         | Some fs \<Rightarrow>
           (case object_get fs (sc_field cfg) of
              None \<Rightarrow> rawv
            | Some v \<Rightarrow> let s = show_value l v in if sc_extension cfg then extract_extension l s else s))
      else if sc_extension cfg then extract_extension l rawv
      else rawv)"

fun switch_loop :: "(string \<Rightarrow> string) \<Rightarrow> string \<Rightarrow> (string \<times> string) list \<Rightarrow> string \<Rightarrow> string" where
  "switch_loop nrm v [] matched = matched"
| "switch_loop nrm v ((value, out) # cs) matched = (if v = nrm value then out else switch_loop nrm v cs matched)"

definition switch_matched :: "nodelib \<Rightarrow> raw \<Rightarrow> switch_config \<Rightarrow> string" where
  "switch_matched l input cfg =
     (let nrm = (if sc_insensitive cfg then to_lower (nl_ucd l) else (\<lambda>s. s)) in
      switch_loop nrm (nrm (extract_match_value l input cfg)) (sc_cases cfg)
        (if sc_default cfg = [] then ''default'' else sc_default cfg))"

definition switch_execute :: "nodelib \<Rightarrow> execute_request \<Rightarrow> exec_result" where
  "switch_execute l req =
     (case (case rq_config req of None \<Rightarrow> Inr empty_switch | Some s \<Rightarrow> nl_switch l s) of
        Inl e \<Rightarrow> (Some (failed_response (''invalid config: '' @ e)), None)
      | Inr cfg \<Rightarrow> (Some (succeeded (Some (quoted (switch_matched l (rq_input req) cfg)))), None))"

subsection \<open>Human input\<close>

text \<open>What is known when the select fires: the context is done, or the channel gives a text.\<close>

datatype human_event = HumanCanceled gerr | HumanInput string

definition human_execute :: "(string \<Rightarrow> string \<Rightarrow> bool) option \<Rightarrow> human_event \<Rightarrow> execute_request \<Rightarrow> exec_result" where
  "human_execute waiting ev req =
     (case waiting of
        None \<Rightarrow> (Some (failed_response ''human input not supported: no input channel''), None)
      | Some f \<Rightarrow>
          if \<not> f (rq_execution_id req) (rq_node_id req) then (Some (failed_response ''human input not available''), None)
          else case ev of
            HumanCanceled e \<Rightarrow> (Some (failed_response ''canceled''), Some e)
          | HumanInput s \<Rightarrow> (Some (succeeded (Some s)), None))"

subsection \<open>Numbers as text\<close>

lemma length_dec_nat: "length (dec_nat n) \<le> Suc k \<longleftrightarrow> n < 10 ^ Suc k"
proof (induction k arbitrary: n)
  case 0
  have "length (dec_nat n) \<ge> 2" if "\<not> n < 10"
  proof -
    have "dec_nat (n div 10) \<noteq> []" by (subst dec_nat.simps) simp
    then show ?thesis using that by (subst dec_nat.simps) (simp add: Suc_le_eq)
  qed
  then show ?case by (cases "n < 10") (subst dec_nat.simps, simp, fastforce)
next
  case (Suc k)
  show ?case
  proof (cases "n < 10")
    case True
    moreover have "10 \<le> (10 :: nat) ^ Suc (Suc k)" by simp
    ultimately have "n < 10 ^ Suc (Suc k)" by linarith
    then show ?thesis using True by (subst dec_nat.simps) simp
  next
    case False
    have "length (dec_nat n) = Suc (length (dec_nat (n div 10)))" using False by (subst dec_nat.simps) simp
    moreover have "n div 10 < 10 ^ Suc k \<longleftrightarrow> n < 10 ^ Suc (Suc k)" by (simp add: div_less_iff_less_mult mult.commute)
    ultimately show ?thesis using Suc [of "n div 10"] by simp
  qed
qed

lemma show_nat_plain: "show_nat n = dec_nat n \<longleftrightarrow> n < 10 ^ 6"
proof (cases "n < 10 ^ 6")
  case True
  then have "length (dec_nat n) - 1 < 6" using length_dec_nat [of n 5] by simp
  then show ?thesis using True by (simp add: show_nat_def Let_def del: diff_less_mono)
next
  case False
  then have "\<not> length (dec_nat n) - 1 < 6" using length_dec_nat [of n 5] by simp
  then have "CHR ''e'' \<in> set (show_nat n)" by (simp add: show_nat_def Let_def exponent_text_def)
  moreover have "CHR ''e'' \<notin> set (dec_nat n)" using dec_nat_digits [of "CHR ''e''" n] by auto
  ultimately show ?thesis using False by metis
qed

lemma show_int_plain: "show_int i = dec_of i \<longleftrightarrow> \<bar>i\<bar> < 10 ^ 6"
  using show_nat_plain [of "nat i"] show_nat_plain [of "nat (- i)"] by (auto simp: show_int_def dec_of_def)

text \<open>A condition or a switch on a numeric field compares the text \<open>%v\<close> gives for a float64: an integer is found
  by its decimal digits only below a million; from there on the text has an exponent and no such case matches.\<close>

theorem numeric_match_threshold:
  assumes "parse_object l input = Some fs" "object_get fs field = Some (JNum (of_int i))" "\<bar>i\<bar> < 2 ^ 53"
  shows "(evaluate_json_field l input \<lparr>cc_expression = [], cc_field = field, cc_operator = ''equals'', cc_expected = dec_of i\<rparr>
            \<longleftrightarrow> \<bar>i\<bar> < 10 ^ 6)
    \<and> (field \<noteq> [] \<longrightarrow> trim_quotes input = input \<longrightarrow> out \<noteq> ''default'' \<longrightarrow>
         (switch_matched l (Some input) (empty_switch\<lparr>sc_field := field, sc_cases := [(dec_of i, out)]\<rparr>) = out \<longleftrightarrow> \<bar>i\<bar> < 10 ^ 6))"
proof -
  have "\<bar>rat_of_int i\<bar> < 2 ^ 53" using assms(3) by (metis of_int_abs of_int_less_iff of_int_numeral of_int_power)
  then have v: "show_value l (JNum (of_int i)) = show_int i" by (simp add: show_value_def)
  show ?thesis
    using assms v show_int_plain [of i]
    by (auto simp: evaluate_json_field_def switch_matched_def extract_match_value_def empty_switch_def raw_text_def Let_def)
qed

definition demo_nodelib :: "(string \<times> json) list \<Rightarrow> nodelib" where
  "demo_nodelib fs = \<lparr>nl_parse = (\<lambda>s. Some (JObj fs)), nl_show = (\<lambda>v. ''?''), nl_condition = (\<lambda>s. empty_condition),
     nl_switch = (\<lambda>s. Inr (empty_switch\<lparr>sc_field := ''kind'', sc_cases := [(''pdf'', ''p1''), (''csv'', ''p2'')]\<rparr>)),
     nl_js = (\<lambda>v s. None), nl_ucd = ascii_ucd\<rparr>"

lemma numeric_match_threshold_witness:
  "\<not> evaluate_json_field (demo_nodelib [(''n'', JNum (of_int 1000000))]) ''x''
      \<lparr>cc_expression = [], cc_field = ''n'', cc_operator = ''equals'', cc_expected = dec_of 1000000\<rparr>"
proof -
  have p: "parse_object (demo_nodelib [(''n'', JNum (of_int 1000000))]) ''x'' = Some [(''n'', JNum (of_int 1000000))]"
    by (simp add: parse_object_def demo_nodelib_def)
  have g: "object_get [(''n'', JNum (of_int 1000000))] ''n'' = Some (JNum (of_int 1000000))" by (simp add: object_get_def)
  show ?thesis using numeric_match_threshold [OF p g] by simp
qed

subsection \<open>From a switch to its edges\<close>

lemma switch_loop_find:
  "switch_loop nrm v cs d = (case find (\<lambda>(x, out). v = nrm x) cs of Some (x, out) \<Rightarrow> out | None \<Rightarrow> d)"
  by (induction nrm v cs d rule: switch_loop.induct) simp_all

lemma trim_quoted: "CHR 34 \<notin> set s \<Longrightarrow> trim_quotes (quoted s) = s"
proof -
  assume q: "CHR 34 \<notin> set s"
  have "dropWhile (\<lambda>c. c = CHR 34) (s @ [CHR 34]) = (if s = [] then [] else s @ [CHR 34])"
    using q by (cases s) auto
  moreover have "dropWhile (\<lambda>c. c = CHR 34) (rev s) = rev s" using q by (cases "rev s") (auto simp: dropWhile_eq_self_iff)
  ultimately show ?thesis by (simp add: trim_quotes_def quoted_def)
qed

text \<open>C31. A switch succeeds with the output of the first case whose value equals the one extracted, or with the default, in
  quotes; the engine's reading of that output picks the edges with this port or with none, and
  when there are none the edges with the port \<open>default\<close>. A condition picks \<open>true\<close> or \<open>false\<close> in the
  same way.\<close>

theorem branch_ports_exact:
  assumes cfg: "rq_config req = Some s" "nl_switch l s = Inr cfg"
    and clean: "\<forall>out \<in> insert (sc_default cfg) (snd ` set (sc_cases cfg)). CHR 34 \<notin> set out"
    and node: "dg_node_map g n = Some nd"
    and nrm: "nrm = (if sc_insensitive cfg then to_lower (nl_ucd l) else (\<lambda>s. s))"
    and edges: "picked = (\<lambda>p. let hits = {e \<in> set (dg_adj g n). ei_source_port e \<in> {p, []}} in
        if hits = {} then {e \<in> set (dg_adj g n). ei_source_port e = ''default''} else hits)"
  shows "(nd_type nd = NodeTypeSwitch \<longrightarrow>
           (\<exists>out. switch_execute l req = (Some (succeeded (Some out)), None) \<and>
              set (get_activated_downstream g n (trim_quotes out)) =
                picked (case find (\<lambda>(x, o'). nrm (extract_match_value l (rq_input req) cfg) = nrm x) (sc_cases cfg) of
                          Some (x, o') \<Rightarrow> o'
                        | None \<Rightarrow> if sc_default cfg = [] then ''default'' else sc_default cfg)))
    \<and> (nd_type nd = NodeTypeCondition \<longrightarrow>
         (\<exists>out. condition_execute l req = (Some (succeeded (Some out)), None) \<and>
            set (get_activated_downstream g n (trim_quotes out)) = picked (if condition_result l req then ''true'' else ''false'')))"
proof -
  have act: "set (get_activated_downstream g n p) = picked p" if "nd_type nd \<in> {NodeTypeSwitch, NodeTypeCondition}" for p
    using that node by (auto simp: edges get_activated_downstream_def Let_def filter_empty_conv)
  let ?m = "switch_matched l (rq_input req) cfg"
  have m: "?m = (case find (\<lambda>(x, o'). nrm (extract_match_value l (rq_input req) cfg) = nrm x) (sc_cases cfg) of
        Some (x, o') \<Rightarrow> o' | None \<Rightarrow> if sc_default cfg = [] then ''default'' else sc_default cfg)"
    by (simp add: switch_matched_def switch_loop_find nrm Let_def)
  have "CHR 34 \<notin> set ?m"
  proof (cases "find (\<lambda>(x, o'). nrm (extract_match_value l (rq_input req) cfg) = nrm x) (sc_cases cfg)")
    case None
    then show ?thesis using clean by (simp add: m)
  next
    case (Some xo)
    then have "snd xo \<in> snd ` set (sc_cases cfg)" by (metis find_Some_iff nth_mem imageI)
    then have "CHR 34 \<notin> set (snd xo)" using clean by blast
    then show ?thesis using Some by (cases xo) (simp add: m)
  qed
  then have "trim_quotes (quoted ?m) = ?m" by (rule trim_quoted)
  moreover have "switch_execute l req = (Some (succeeded (Some (quoted ?m))), None)" using cfg by (simp add: switch_execute_def)
  moreover have "trim_quotes (quoted (if condition_result l req then ''true'' else ''false'')) = (if condition_result l req then ''true'' else ''false'')"
    by (rule trim_quoted) simp
  ultimately show ?thesis using act m unfolding condition_execute_def by fastforce
qed

text \<open>A file name routed by its extension.\<close>

definition demo_dag :: dag where
  "demo_dag = \<lparr>dg_workflow = sample_workflow [] [],
     dg_adj = (\<lambda>n. [\<lparr>ei_target_id = ''a'', ei_source_port = ''p1'', ei_target_port = [], ei_condition_expr = [], ei_label = []\<rparr>,
                   \<lparr>ei_target_id = ''b'', ei_source_port = ''p2'', ei_target_port = [], ei_condition_expr = [], ei_label = []\<rparr>]),
     dg_in_degree = (\<lambda>n. 0), dg_node_map = (\<lambda>n. Some (sample_node ''s'' NodeTypeSwitch 0)), dg_root_nodes = []\<rparr>"

lemma branch_ports_exact_witness:
  "\<exists>out. switch_execute (demo_nodelib [(''kind'', JStr ''csv'')]) ((sample_request 0)\<lparr>rq_config := Some ''c''\<rparr>) = (Some (succeeded (Some out)), None) \<and>
     map ei_target_id (get_activated_downstream demo_dag ''s'' (trim_quotes out)) = [''b'']"
proof -
  let ?req = "(sample_request 0)\<lparr>rq_config := Some ''c''\<rparr>" and ?l = "demo_nodelib [(''kind'', JStr ''csv'')]"
  let ?cfg = "empty_switch\<lparr>sc_field := ''kind'', sc_cases := [(''pdf'', ''p1''), (''csv'', ''p2'')]\<rparr>"
  have v: "extract_match_value ?l (rq_input ?req) ?cfg = ''csv''"
    by (simp add: extract_match_value_def parse_object_def demo_nodelib_def object_get_def show_value_def empty_switch_def Let_def)
  have c: "rq_config ?req = Some ''c''" "nl_switch ?l ''c'' = Inr ?cfg" by (simp_all add: demo_nodelib_def)
  have q: "\<forall>out \<in> insert (sc_default ?cfg) (snd ` set (sc_cases ?cfg)). CHR 34 \<notin> set out" by (simp add: empty_switch_def)
  have n: "dg_node_map demo_dag ''s'' = Some (sample_node ''s'' NodeTypeSwitch 0)" by (simp add: demo_dag_def)
  have ty: "nd_type (sample_node ''s'' NodeTypeSwitch 0) = NodeTypeSwitch" by (simp add: sample_node_def)
  have i: "sc_insensitive ?cfg = False" by (simp add: empty_switch_def)
  obtain out where o: "switch_execute ?l ?req = (Some (succeeded (Some out)), None)"
    using conjunct1 [OF branch_ports_exact [OF c q n refl refl], rule_format, OF ty] by blast
  have "switch_matched ?l (rq_input ?req) ?cfg = ''p2''" using v i by (simp add: switch_matched_def)
  then have "out = quoted ''p2''" using o(1) c by (simp add: switch_execute_def succeeded_def)
  then have t: "trim_quotes out = ''p2''" by (simp add: trim_quoted)
  show ?thesis using o(1) by (intro exI [of _ out]) (simp add: t get_activated_downstream_def demo_dag_def sample_node_def)
qed

end
