(* ===== verification/CmdLine.thy ===== *)
theory CmdLine
  imports StrTools
begin

text \<open>
  frame/pkg/cmd: the argument parser (parser.go), the choice of the command to run (command.go), and the
  filling of a command's input from the parser (command_object.go), with the part of \<open>fmt.Sscanf\<close> it uses.
\<close>

subsection \<open>The parser\<close>

record parser_option =
  po_case_sensitive :: bool
  po_strict :: bool

record parser =
  pr_args :: "string list"
  pr_options :: "string \<rightharpoonup> string"
  pr_arguments :: "string list"
  pr_supported :: "string \<rightharpoonup> bool"
  pr_aliases :: "string \<rightharpoonup> string"
  pr_option :: parser_option

definition no_option :: parser_option where
  "no_option = \<lparr>po_case_sensitive = False, po_strict = False\<rparr>"

text \<open>Setting an alias sets the main name too; setting the main name sets all its aliases.\<close>

definition set_option_value :: "string \<Rightarrow> string \<Rightarrow> parser \<Rightarrow> parser" where
  "set_option_value name v p =
     (case pr_aliases p name of
        Some main \<Rightarrow> p\<lparr>pr_options := (pr_options p)(main \<mapsto> v, name \<mapsto> v)\<rparr>
      | None \<Rightarrow> p\<lparr>pr_options := (\<lambda>k. if k = name \<or> pr_aliases p k = Some name then Some v else pr_options p k)\<rparr>)"

definition unknown_option :: "parser \<Rightarrow> string \<Rightarrow> bool" where
  "unknown_option p name = (dom (pr_supported p) \<noteq> {} \<and> pr_supported p name = None \<and> pr_aliases p name = None)"

definition needs_value :: "parser \<Rightarrow> bool \<Rightarrow> string \<Rightarrow> bool" where
  "needs_value p dflt name = (case pr_supported p name of Some b \<Rightarrow> b | None \<Rightarrow> dflt)"

text \<open>What follows an option without a value of its own: the next argument when it takes one. The pair is the parser
  and the arguments that are left; None is the early return.\<close>

definition follow_option :: "string \<Rightarrow> bool \<Rightarrow> string list \<Rightarrow> parser \<Rightarrow> parser \<times> string list" where
  "follow_option name takes rest p =
     (case rest of
        v # rest' \<Rightarrow> if takes \<and> \<not> has_prefix v ''-'' then (set_option_value name v p, rest') else (set_option_value name [] p, rest)
      | [] \<Rightarrow> (set_option_value name [] p, []))"

definition parse_item :: "string \<Rightarrow> string list \<Rightarrow> parser \<Rightarrow> (parser \<times> string list) option" where
  "parse_item arg rest p =
     (if has_prefix arg ''-'' then
        if has_prefix arg ''--'' then
          let parts = split_n (drop 2 arg) ''='' 2; name = parts ! 0 in
          if unknown_option p name \<and> po_strict (pr_option p) then None
          else if length parts = 2 then Some (set_option_value name (parts ! 1) p, rest)
          else Some (follow_option name (needs_value p False name) rest p)
        else if length arg = 2 then
          let name = encode_rune (of_char (arg ! 1)) in
          if unknown_option p name \<and> po_strict (pr_option p) then None
          else Some (follow_option name (needs_value p (dom (pr_supported p) = {}) name) rest p)
        else Some (p, rest)
      else Some (p\<lparr>pr_arguments := pr_arguments p @ [arg]\<rparr>, rest))"

lemma follow_option_rest: "length (snd (follow_option name takes rest p)) \<le> length rest"
  by (auto simp: follow_option_def split: list.splits)

lemma parse_item_rest: "parse_item arg rest p = Some (p', rest') \<Longrightarrow> length rest' \<le> length rest"
  using follow_option_rest [of _ _ rest p]
  by (auto simp: parse_item_def Let_def split: if_splits dest: sym) (metis snd_conv)+

function parse_loop :: "string list \<Rightarrow> parser \<Rightarrow> parser" where
  "parse_loop [] p = p"
| "parse_loop (arg # rest) p = (case parse_item arg rest p of None \<Rightarrow> p | Some (p', rest') \<Rightarrow> parse_loop rest' p')"
  by pat_completeness auto

termination
  by (relation "measure (\<lambda>(xs, p). length xs)") (auto dest: parse_item_rest)

definition parse :: "parser \<Rightarrow> parser" where
  "parse p = (case pr_args p of [] \<Rightarrow> p | _ # args \<Rightarrow> parse_loop args p)"

definition new_parser :: "string list \<Rightarrow> parser" where
  "new_parser args = parse \<lparr>pr_args = args, pr_options = Map.empty, pr_arguments = [], pr_supported = Map.empty,
     pr_aliases = Map.empty, pr_option = no_option\<rparr>"

text \<open>The names of an option, separated by commas: the main one, then its aliases.\<close>

definition add_supported :: "string \<times> bool \<Rightarrow> parser \<Rightarrow> parser" where
  "add_supported ob p =
     (case str_split '','' (fst ob) of
        [] \<Rightarrow> p
      | main # aliases \<Rightarrow>
          fold (\<lambda>a p. p\<lparr>pr_aliases := (pr_aliases p)(a \<mapsto> main), pr_supported := (pr_supported p)(a \<mapsto> snd ob)\<rparr>) aliases
            (p\<lparr>pr_supported := (pr_supported p)(main \<mapsto> snd ob)\<rparr>))"

text \<open>The error is always nil.\<close>

definition parse_with_args :: "string list \<Rightarrow> (string, bool) gomap \<Rightarrow> parser_option list \<Rightarrow> parser \<times> string option" where
  "parse_with_args args supported options =
     (parse (fold add_supported supported
        \<lparr>pr_args = args, pr_options = Map.empty, pr_arguments = [], pr_supported = Map.empty, pr_aliases = Map.empty,
         pr_option = (case options of [] \<Rightarrow> no_option | o1 # _ \<Rightarrow> o1)\<rparr>), None)"

definition get_arg :: "parser \<Rightarrow> int \<Rightarrow> string" where
  "get_arg p i = (if i \<ge> 0 \<and> i < int (length (pr_arguments p)) then pr_arguments p ! nat i else [])"

definition get_opt :: "parser \<Rightarrow> string \<Rightarrow> string" where
  "get_opt p name = (case pr_options p name of Some v \<Rightarrow> v | None \<Rightarrow> [])"

definition has_opt :: "parser \<Rightarrow> string \<Rightarrow> bool" where
  "has_opt p name = (pr_options p name \<noteq> None)"

subsection \<open>Commands\<close>

text \<open>A command: its name, whether it is strict, the options it supports, the number of its function, and its
  children.\<close>

datatype command = Command (cm_name: string) (cm_strict: bool) (cm_supported: "(string, bool) gomap") (cm_func: "nat option")
  (cm_commands: "command list")

datatype outcome_of_run = RunError string | RunFunc nat parser | RunHelp string

definition sub_command :: "command \<Rightarrow> string list \<Rightarrow> command option" where
  "sub_command c args = (if length args > 1 then find (\<lambda>s. cm_name s = args ! 1) (cm_commands c) else None)"

lemma sub_command_args: "sub_command c args = Some s \<Longrightarrow> 1 < length args"
  by (simp add: sub_command_def split: if_splits)

function run_with_args :: "command \<Rightarrow> string list \<Rightarrow> outcome_of_run" where
  "run_with_args c args =
     (if args = [] then RunError ''no command provided''
      else case sub_command c args of
        Some s \<Rightarrow> run_with_args s (cm_name s # drop 2 args)
      | None \<Rightarrow>
        (case parse_with_args args (cm_supported c) [\<lparr>po_case_sensitive = False, po_strict = cm_strict c\<rparr>] of
           (p, Some e) \<Rightarrow> RunError e
         | (p, None) \<Rightarrow> (case cm_func c of Some f \<Rightarrow> RunFunc f p | None \<Rightarrow> RunHelp (cm_name c))))"
  by pat_completeness auto

termination
  by (relation "measure (\<lambda>(c, xs). length xs)") (auto dest: sub_command_args)

declare run_with_args.simps [simp del]

subsection \<open>Fields of an input\<close>

datatype field_kind = KString | KInt nat | KUint nat | KBool

datatype field_value = VString string | VInt int | VBool bool

record field_spec =
  fs_name :: string
  fs_short :: string
  fs_arg :: bool
  fs_kind :: field_kind

definition zero_value :: "field_kind \<Rightarrow> field_value" where
  "zero_value k = (case k of KString \<Rightarrow> VString [] | KInt w \<Rightarrow> VInt 0 | KUint w \<Rightarrow> VInt 0 | KBool \<Rightarrow> VBool False)"

definition is_digit :: "char \<Rightarrow> bool" where
  "is_digit c = (48 \<le> (of_char c :: nat) \<and> (of_char c :: nat) \<le> 57)"

text \<open>\<open>SkipSpace\<close> of the scanner: what follows the white space, None when a newline stands in it.\<close>

definition skip_space :: "string \<Rightarrow> string option" where
  "skip_space s =
     (let blanks = takeWhile (\<lambda>x. rune_is_space (fst x)) (segments s) in
      if \<exists>x \<in> set blanks. fst x = 10 then None else Some (drop (length (concat (map snd blanks))) s))"

definition digits_value :: "string \<Rightarrow> nat" where
  "digits_value ds = fold (\<lambda>c a. 10 * a + (of_char c - 48)) ds 0"

text \<open>\<open>%d\<close> into an int64 or uint64: the digits at the start, None when there are none or too many.\<close>

definition scan_int :: "string \<Rightarrow> int option" where
  "scan_int s0 =
     (case skip_space s0 of None \<Rightarrow> None | Some s1 \<Rightarrow>
      let (neg, s2) = (case s1 of c # cs \<Rightarrow> if c = CHR ''-'' then (True, cs) else if c = CHR ''+'' then (False, cs) else (False, s1) | [] \<Rightarrow> (False, s1));
          ds = takeWhile is_digit s2; v = (if neg then - int (digits_value ds) else int (digits_value ds)) in
      if ds = [] \<or> v < - (2 ^ 63) \<or> v \<ge> 2 ^ 63 then None else Some v)"

definition scan_uint :: "string \<Rightarrow> int option" where
  "scan_uint s0 =
     (case skip_space s0 of None \<Rightarrow> None | Some s1 \<Rightarrow>
      let ds = takeWhile is_digit s1 in
      if ds = [] \<or> digits_value ds \<ge> 2 ^ 64 then None else Some (int (digits_value ds)))"

definition accept :: "char list \<Rightarrow> string \<Rightarrow> (bool \<times> string)" where
  "accept cs s = (case s of c # r \<Rightarrow> if c \<in> set cs then (True, r) else (False, s) | [] \<Rightarrow> (False, s))"

text \<open>\<open>%t\<close>: 0 and 1, and t, true, f, false in any case; None on an error.\<close>

fun accept_all :: "char list list \<Rightarrow> string \<Rightarrow> bool" where
  "accept_all [] s = True"
| "accept_all (cs # css) s = (case accept cs s of (True, r) \<Rightarrow> accept_all css r | (False, r) \<Rightarrow> False)"

definition scan_bool :: "string \<Rightarrow> bool option" where
  "scan_bool s0 =
     (case skip_space s0 of
        None \<Rightarrow> None
      | Some [] \<Rightarrow> None
      | Some (c # s) \<Rightarrow>
          if c = CHR ''0'' then Some False
          else if c = CHR ''1'' then Some True
          else if c \<in> {CHR ''t'', CHR ''T''} then
            (case accept ''rR'' s of (True, r) \<Rightarrow> if accept_all [''uU'', ''eE''] r then Some True else None | (False, r) \<Rightarrow> Some True)
          else if c \<in> {CHR ''f'', CHR ''F''} then
            (case accept ''aA'' s of (True, r) \<Rightarrow> if accept_all [''lL'', ''sS'', ''eE''] r then Some False else None | (False, r) \<Rightarrow> Some False)
          else Some False)"

definition wrap_signed :: "nat \<Rightarrow> int \<Rightarrow> int" where
  "wrap_signed w v = (v + 2 ^ (w - 1)) mod 2 ^ w - 2 ^ (w - 1)"

text \<open>The error of the scan is dropped and zero stored; narrow integers keep the low bits.\<close>

definition set_field_value :: "field_kind \<Rightarrow> string \<Rightarrow> field_value" where
  "set_field_value k s =
     (case k of
        KString \<Rightarrow> VString s
      | KInt w \<Rightarrow> VInt (wrap_signed w (case scan_int s of Some v \<Rightarrow> v | None \<Rightarrow> 0))
      | KUint w \<Rightarrow> VInt ((case scan_uint s of Some v \<Rightarrow> v | None \<Rightarrow> 0) mod 2 ^ w)
      | KBool \<Rightarrow> VBool (case scan_bool s of Some b \<Rightarrow> b | None \<Rightarrow> False))"

text \<open>Every positional field reads the first argument.\<close>

definition fill_field :: "parser \<Rightarrow> field_spec \<Rightarrow> field_value" where
  "fill_field p f =
     (let v = (if fs_arg f then get_arg p 0
               else let o1 = (if fs_short f \<noteq> [] then get_opt p (fs_short f) else []) in
                    if o1 = [] then get_opt p (fs_name f) else o1) in
      if v \<noteq> [] then set_field_value (fs_kind f) v else zero_value (fs_kind f))"

definition fill_input_from_parser :: "parser \<Rightarrow> field_spec list \<Rightarrow> field_value list" where
  "fill_input_from_parser p fs = map (fill_field p) fs"

text \<open>The options a struct declares: all of them take a value.\<close>

definition supported_of_fields :: "field_spec list \<Rightarrow> (string, bool) gomap" where
  "supported_of_fields fs =
     fold (\<lambda>f m. if fs_arg f then m else gm_put (if fs_short f \<noteq> [] then fs_short f @ '','' @ fs_name f else fs_name f) True m) fs []"

subsection \<open>What a command line means\<close>

text \<open>The command lines people write: positional arguments, \<open>--name=value\<close>, \<open>--name value\<close> and \<open>-c value\<close>.\<close>

datatype item = Positional string | LongEq string string | Long string string | Short char string

fun render :: "item \<Rightarrow> string list" where
  "render (Positional s) = [s]"
| "render (LongEq n v) = [''--'' @ n @ ''='' @ v]"
| "render (Long n v) = [''--'' @ n, v]"
| "render (Short c v) = [''-'' @ [c], v]"

definition plain :: "string \<Rightarrow> bool" where
  "plain s = (\<not> has_prefix s ''-'')"

fun item_ok :: "parser \<Rightarrow> item \<Rightarrow> bool" where
  "item_ok p (Positional s) = plain s"
| "item_ok p (LongEq n v) = (CHR ''='' \<notin> set n \<and> pr_supported p n \<noteq> None)"
| "item_ok p (Long n v) = (CHR ''='' \<notin> set n \<and> plain v \<and> pr_supported p n = Some True)"
| "item_ok p (Short c v) = (c \<noteq> CHR ''-'' \<and> (of_char c :: nat) < 128 \<and> plain v \<and> pr_supported p [c] = Some True)"

fun option_of :: "item \<Rightarrow> (string \<times> string) option" where
  "option_of (Positional s) = None"
| "option_of (LongEq n v) = Some (n, v)"
| "option_of (Long n v) = Some (n, v)"
| "option_of (Short c v) = Some ([c], v)"

fun positional_of :: "item \<Rightarrow> string list" where
  "positional_of (Positional s) = [s]"
| "positional_of _ = []"

definition positionals :: "item list \<Rightarrow> string list" where
  "positionals items = concat (map positional_of items)"

text \<open>Whether setting the option \<open>n\<close> sets the option \<open>k\<close>, and the last value that was given to \<open>k\<close>.\<close>

definition touches :: "parser \<Rightarrow> string \<Rightarrow> string \<Rightarrow> bool" where
  "touches p n k = (k = n \<or> pr_aliases p n = Some k \<or> pr_aliases p n = None \<and> pr_aliases p k = Some n)"

definition given_to :: "parser \<Rightarrow> string \<Rightarrow> item \<Rightarrow> string option" where
  "given_to p k i = (case option_of i of Some (n, v) \<Rightarrow> if touches p n k then Some v else None | None \<Rightarrow> None)"

definition last_given :: "parser \<Rightarrow> string \<Rightarrow> item list \<Rightarrow> string option" where
  "last_given p k items = fold (\<lambda>i r. case given_to p k i of Some v \<Rightarrow> Some v | None \<Rightarrow> r) items None"

lemma set_option_same [simp]:
  "pr_aliases (set_option_value n v p) = pr_aliases p" "pr_supported (set_option_value n v p) = pr_supported p"
  "pr_arguments (set_option_value n v p) = pr_arguments p" "pr_option (set_option_value n v p) = pr_option p"
  by (auto simp: set_option_value_def split: option.splits)

lemma set_option_get: "pr_options (set_option_value n v p) k = (if touches p n k then Some v else pr_options p k)"
  by (auto simp: set_option_value_def touches_def split: option.splits)

lemma split_eq_value: "CHR ''='' \<notin> set n \<Longrightarrow> split_n (n @ CHR ''='' # v) ''='' 2 = [n, v]"
  by (simp add: split_n_def gen_split_def numeral_2_eq_2 str_index_char)

lemma split_eq_none: "CHR ''='' \<notin> set n \<Longrightarrow> split_n n ''='' 2 = [n]"
  using str_index_None_char [of n "CHR ''=''"] by (cases n) (simp_all add: split_n_def gen_split_def numeral_2_eq_2)

lemma long_prefix: "has_prefix (''--'' @ n) ''-''" "has_prefix (''--'' @ n) ''--''"
  by (simp_all add: has_prefix_def)

lemma short_prefix: "has_prefix [CHR ''-'', c] ''-''" "c \<noteq> CHR ''-'' \<Longrightarrow> \<not> has_prefix [CHR ''-'', c] ''--''"
  by (simp_all add: has_prefix_def)

text \<open>One item is read whole, and what it does to the parser.\<close>

definition item_effect :: "item \<Rightarrow> parser \<Rightarrow> parser" where
  "item_effect i p = (case option_of i of
      Some (n, v) \<Rightarrow> set_option_value n v p
    | None \<Rightarrow> p\<lparr>pr_arguments := pr_arguments p @ positional_of i\<rparr>)"

lemma item_effect_same [simp]:
  "pr_aliases (item_effect i p) = pr_aliases p" "pr_supported (item_effect i p) = pr_supported p"
  by (auto simp: item_effect_def split: option.splits)

lemma item_effect_arguments: "pr_arguments (item_effect i p) = pr_arguments p @ positional_of i"
  by (cases i) (auto simp: item_effect_def)

lemma item_effect_options:
  "pr_options (item_effect i p) k = (case given_to p k i of Some v \<Rightarrow> Some v | None \<Rightarrow> pr_options p k)"
  by (auto simp: item_effect_def given_to_def set_option_get split: option.splits)

lemma parse_loop_item:
  assumes "item_ok p i"
  shows "parse_loop (render i @ rest) p = parse_loop rest (item_effect i p)"
proof (cases i)
  case (Positional s)
  then show ?thesis using assms by (simp add: parse_item_def item_effect_def plain_def)
next
  case (LongEq n v)
  then have ok: "CHR ''='' \<notin> set n" "pr_supported p n \<noteq> None" using assms by auto
  have "parse_item (''--'' @ n @ ''='' @ v) rest p = Some (set_option_value n v p, rest)"
    using ok(2) long_prefix [of "n @ ''='' @ v"]
    by (simp add: parse_item_def Let_def split_eq_value [OF ok(1)] unknown_option_def)
  then show ?thesis by (simp add: LongEq item_effect_def)
next
  case (Long n v)
  then have ok: "CHR ''='' \<notin> set n" "pr_supported p n = Some True" "plain v" using assms by auto
  have "parse_item (''--'' @ n) (v # rest) p = Some (set_option_value n v p, rest)"
    using ok(2,3) long_prefix [of n]
    by (simp add: parse_item_def Let_def split_eq_none [OF ok(1)] unknown_option_def needs_value_def follow_option_def plain_def)
  then show ?thesis by (simp add: Long item_effect_def)
next
  case (Short c v)
  then have ok: "c \<noteq> CHR ''-''" "(of_char c :: nat) < 128" "pr_supported p [c] = Some True" "plain v" using assms by auto
  have "parse_item [CHR ''-'', c] (v # rest) p = Some (set_option_value [c] v p, rest)"
    using ok(2,3,4) short_prefix(1) short_prefix(2) [OF ok(1)]
    by (simp add: parse_item_def Let_def unknown_option_def needs_value_def follow_option_def plain_def encode_rune_def)
  then show ?thesis by (simp add: Short item_effect_def)
qed


lemma touches_effect [simp]: "touches (item_effect i p) = touches p"
  by (simp add: touches_def fun_eq_iff)

lemma item_ok_effect [simp]: "item_ok (item_effect i p) j = item_ok p j"
  by (cases j) simp_all

lemma given_to_effect [simp]: "given_to (item_effect i p) k = given_to p k"
  by (auto simp: given_to_def fun_eq_iff split: option.splits)

lemma last_given_fold:
  "fold (\<lambda>i r. case given_to p k i of Some v \<Rightarrow> Some v | None \<Rightarrow> r) items o1 =
     (case last_given p k items of Some v \<Rightarrow> Some v | None \<Rightarrow> o1)"
  unfolding last_given_def
  by (induction items rule: rev_induct) (auto split: option.splits)

lemma parse_loop_items:
  "list_all (item_ok p) items \<Longrightarrow>
     parse_loop (concat (map render items) @ rest) p = parse_loop rest (fold item_effect items p)"
  by (induction items arbitrary: p) (simp_all add: parse_loop_item list.pred_set)

lemma fold_item_effect:
  "pr_arguments (fold item_effect items p) = pr_arguments p @ positionals items \<and>
   pr_options (fold item_effect items p) k = (case last_given p k items of Some v \<Rightarrow> Some v | None \<Rightarrow> pr_options p k) \<and>
   pr_aliases (fold item_effect items p) = pr_aliases p \<and> pr_supported (fold item_effect items p) = pr_supported p"
proof (induction items arbitrary: p)
  case (Cons i items)
  have "last_given p k (i # items) = (case last_given p k items of Some v \<Rightarrow> Some v | None \<Rightarrow> given_to p k i)"
    using last_given_fold [of p k items "given_to p k i"]
    by (cases "given_to p k i") (simp_all add: last_given_def split: option.splits)
  moreover have "last_given (item_effect i p) k items = last_given p k items" by (simp add: last_given_def)
  ultimately show ?case
    using Cons [of "item_effect i p"]
    by (auto simp: item_effect_arguments item_effect_options positionals_def split: option.splits)
qed (simp add: positionals_def last_given_def)

text \<open>A command line of supported options in any of the three forms, mixed with positional arguments, is read
  without loss: the positional arguments are kept in order, an option that is a main name has the last value
  given to it or to one of its aliases, and an alias the last value given to it or to its main name, but not
  to another alias of the same option.\<close>

theorem command_line_parsed:
  assumes "list_all (item_ok p) items"
  shows "pr_arguments (parse_loop (concat (map render items)) p) = pr_arguments p @ positionals items \<and>
         pr_options (parse_loop (concat (map render items)) p) k =
           (case last_given p k items of Some v \<Rightarrow> Some v | None \<Rightarrow> pr_options p k)"
  using parse_loop_items [OF assms, of "[]"] fold_item_effect [of items p k] by simp

lemma command_line_parsed_witness:
  "pr_options (parse_loop [''in'', ''--out=a'', ''-o'', ''b'', ''x'']
      \<lparr>pr_args = [], pr_options = Map.empty, pr_arguments = [], pr_supported = [''o'' \<mapsto> True, ''out'' \<mapsto> True],
       pr_aliases = [''out'' \<mapsto> ''o''], pr_option = no_option\<rparr>) ''out'' = Some ''b''"
  using command_line_parsed [of "\<lparr>pr_args = [], pr_options = Map.empty, pr_arguments = [],
      pr_supported = [''o'' \<mapsto> True, ''out'' \<mapsto> True], pr_aliases = [''out'' \<mapsto> ''o''], pr_option = no_option\<rparr>"
    "[Positional ''in'', LongEq ''out'' ''a'', Short CHR ''o'' ''b'', Positional ''x'']" "''out''"]
  by (simp add: plain_def has_prefix_def last_given_def given_to_def touches_def)

text \<open>A strict parser that meets a long option it does not know stops there: whatever follows on the command
  line is dropped, and the error it returns is nil.\<close>

theorem strict_drops_the_rest:
  assumes "list_all (item_ok p) items" "po_strict (pr_option p)" "CHR ''='' \<notin> set n" "unknown_option p n"
  shows "parse_loop (concat (map render items) @ (''--'' @ n) # rest) p = parse_loop (concat (map render items)) p \<and>
         snd (parse_with_args args supported options) = None"
proof -
  let ?q = "fold item_effect items p"
  have q: "pr_aliases ?q = pr_aliases p" "pr_supported ?q = pr_supported p" using fold_item_effect [of items p] by auto
  have strict: "po_strict (pr_option ?q)"
    using assms(2) by (induction items arbitrary: p) (auto simp: item_effect_def split: option.splits)
  have "parse_item (''--'' @ n) rest ?q = None"
    using strict assms(4) long_prefix [of n]
    by (simp add: parse_item_def Let_def split_eq_none [OF assms(3)] unknown_option_def q)
  then show ?thesis
    using parse_loop_items [OF assms(1), of "(''--'' @ n) # rest"] parse_loop_items [OF assms(1), of "[]"]
    by (simp add: parse_with_args_def)
qed

lemma strict_drops_the_rest_witness:
  "pr_arguments (parse_loop [''a'', ''--nope'', ''b'']
      \<lparr>pr_args = [], pr_options = Map.empty, pr_arguments = [], pr_supported = [''out'' \<mapsto> True],
       pr_aliases = Map.empty, pr_option = \<lparr>po_case_sensitive = False, po_strict = True\<rparr>\<rparr>) = [''a'']"
  using strict_drops_the_rest [of "\<lparr>pr_args = [], pr_options = Map.empty, pr_arguments = [], pr_supported = [''out'' \<mapsto> True],
       pr_aliases = Map.empty, pr_option = \<lparr>po_case_sensitive = False, po_strict = True\<rparr>\<rparr>" "[Positional ''a'']" "''nope''" "[''b'']"]
  by (simp add: plain_def has_prefix_def unknown_option_def parse_item_def)

subsection \<open>The input of a command\<close>

definition names_of :: "field_spec \<Rightarrow> string list" where
  "names_of f = (if fs_arg f then [] else if fs_short f \<noteq> [] then [fs_short f, fs_name f] else [fs_name f])"

definition well_declared :: "field_spec list \<Rightarrow> bool" where
  "well_declared fs = (distinct (concat (map names_of fs)) \<and> list_all (\<lambda>f. list_all (\<lambda>n. CHR '','' \<notin> set n) (names_of f)) fs)"

text \<open>The items a user of these fields may write.\<close>

fun declared_item :: "field_spec list \<Rightarrow> item \<Rightarrow> bool" where
  "declared_item fs (Positional s) = plain s"
| "declared_item fs (LongEq n v) = (CHR ''='' \<notin> set n \<and> n \<in> set (concat (map names_of fs)))"
| "declared_item fs (Long n v) = (CHR ''='' \<notin> set n \<and> plain v \<and> n \<in> set (concat (map names_of fs)))"
| "declared_item fs (Short c v) = (c \<noteq> CHR ''-'' \<and> (of_char c :: nat) < 128 \<and> plain v \<and> [c] \<in> set (concat (map names_of fs)))"

definition given_by :: "field_spec \<Rightarrow> item list \<Rightarrow> string option" where
  "given_by f items = fold (\<lambda>i r. case option_of i of
     Some (n, v) \<Rightarrow> if n \<in> set (names_of f) then Some v else r | None \<Rightarrow> r) items None"

definition set_or_zero :: "field_kind \<Rightarrow> string \<Rightarrow> field_value" where
  "set_or_zero k s = (if s \<noteq> [] then set_field_value k s else zero_value k)"

definition field_key :: "field_spec \<Rightarrow> string" where
  "field_key f = (if fs_short f \<noteq> [] then fs_short f @ '','' @ fs_name f else fs_name f)"

lemma supported_of_fields_set:
  "set (supported_of_fields fs) = {(field_key f, True) |f. f \<in> set fs \<and> \<not> fs_arg f}"
proof -
  have "gm_ok m \<Longrightarrow> (\<forall>x \<in> set m. snd x) \<Longrightarrow>
      set (fold (\<lambda>f m. if fs_arg f then m else gm_put (field_key f) True m) fs m) =
        set m \<union> {(field_key f, True) |f. f \<in> set fs \<and> \<not> fs_arg f}" for m
  proof (induction fs arbitrary: m)
    case (Cons f fs)
    show ?case
    proof (cases "fs_arg f")
      case False
      have "set (gm_put (field_key f) True m) = insert (field_key f, True) (set m)"
        using Cons.prems by (auto simp: gm_put_mem split: if_splits)
      then show ?thesis using Cons.IH [of "gm_put (field_key f) True m"] Cons.prems False by auto
    qed (use Cons in auto)
  qed simp
  from this [of "[]"] show ?thesis by (simp add: supported_of_fields_def field_key_def cong: if_cong)
qed

lemma split_field_key:
  "well_declared fs \<Longrightarrow> f \<in> set fs \<Longrightarrow> \<not> fs_arg f \<Longrightarrow> str_split '','' (field_key f) = names_of f"
  by (auto simp: well_declared_def list_all_iff names_of_def field_key_def str_split_char str_split_none)

text \<open>What the parser knows after the options are declared.\<close>

definition declares :: "(string \<times> bool) list \<Rightarrow> parser \<Rightarrow> bool" where
  "declares L p = (
     (\<forall>n. pr_supported p n = (if \<exists>x \<in> set L. n \<in> set (str_split '','' (fst x)) then Some True else None)) \<and>
     (\<forall>a m. pr_aliases p a = Some m \<longrightarrow> (\<exists>x \<in> set L. hd (str_split '','' (fst x)) = m \<and> a \<in> set (tl (str_split '','' (fst x))))) \<and>
     (\<forall>x \<in> set L. \<forall>a \<in> set (tl (str_split '','' (fst x))). pr_aliases p a \<noteq> None))"

lemma add_aliases:
  "pr_supported (fold (\<lambda>a p. p\<lparr>pr_aliases := (pr_aliases p)(a \<mapsto> m), pr_supported := (pr_supported p)(a \<mapsto> b)\<rparr>) as p) n =
     (if n \<in> set as then Some b else pr_supported p n) \<and>
   pr_aliases (fold (\<lambda>a p. p\<lparr>pr_aliases := (pr_aliases p)(a \<mapsto> m), pr_supported := (pr_supported p)(a \<mapsto> b)\<rparr>) as p) n =
     (if n \<in> set as then Some m else pr_aliases p n)"
  by (induction as arbitrary: p) auto

lemma str_split_ne: "str_split [c] s \<noteq> []"
  by (subst str_split.simps) (auto split: option.splits)

lemma add_supported_get:
  "pr_supported (add_supported x p) n = (if n \<in> set (str_split '','' (fst x)) then Some (snd x) else pr_supported p n)"
  "pr_aliases (add_supported x p) n =
     (if n \<in> set (tl (str_split '','' (fst x))) then Some (hd (str_split '','' (fst x))) else pr_aliases p n)"
  using str_split_ne [of "CHR '',''" "fst x"] by (auto simp: add_supported_def add_aliases split: list.splits)

lemma fold_add_supported:
  "list_all snd L \<Longrightarrow> pr_supported p = Map.empty \<Longrightarrow> pr_aliases p = Map.empty \<Longrightarrow> declares L (fold add_supported L p)"
proof (induction L rule: rev_induct)
  case (snoc x L)
  then have "declares L (fold add_supported L p)" "snd x" by simp_all
  then show ?case by (auto simp: declares_def add_supported_get split: if_splits)
qed (simp add: declares_def)

lemma declares_fields:
  assumes "well_declared fs" "declares (supported_of_fields fs) p"
  shows "pr_supported p n = (if n \<in> set (concat (map names_of fs)) then Some True else None)"
    and "pr_aliases p a = Some m \<Longrightarrow> \<exists>f \<in> set fs. names_of f = [m, a]"
    and "f \<in> set fs \<Longrightarrow> names_of f = [m, a] \<Longrightarrow> pr_aliases p a \<noteq> None"
proof -
  have S: "set (supported_of_fields fs) = (\<lambda>f. (field_key f, True)) ` {f \<in> set fs. \<not> fs_arg f}"
    using supported_of_fields_set by blast
  note sk = split_field_key [OF assms(1)]
  note D = assms(2) [unfolded declares_def S ball_simps bex_simps mem_Collect_eq fst_conv]
  have none: "fs_arg f \<Longrightarrow> names_of f = []" for f by (simp add: names_of_def)
  have "(\<exists>f \<in> {f \<in> set fs. \<not> fs_arg f}. n \<in> set (str_split '','' (field_key f))) = (n \<in> set (concat (map names_of fs)))"
    using sk none by fastforce
  then show "pr_supported p n = (if n \<in> set (concat (map names_of fs)) then Some True else None)"
    using D by simp
  show "\<exists>f \<in> set fs. names_of f = [m, a]" if "pr_aliases p a = Some m"
  proof -
    have "\<exists>f. (f \<in> set fs \<and> \<not> fs_arg f) \<and> hd (str_split '','' (field_key f)) = m \<and> a \<in> set (tl (str_split '','' (field_key f)))"
      using D that by (elim conjE) (drule spec, drule spec, erule mp)
    then obtain f where f: "f \<in> set fs" "\<not> fs_arg f" "hd (str_split '','' (field_key f)) = m" "a \<in> set (tl (str_split '','' (field_key f)))"
      by (elim exE conjE)
    then have "names_of f = [m, a]" using sk [OF f(1,2)] by (auto simp: names_of_def split: if_splits)
    then show ?thesis using f(1) by blast
  qed
  show "pr_aliases p a \<noteq> None" if f: "f \<in> set fs" "names_of f = [m, a]"
  proof -
    have "\<not> fs_arg f" using f(2) none by force
    then have "a \<in> set (tl (str_split '','' (field_key f)))" using sk [OF f(1)] f(2) by simp
    then show ?thesis using D f(1) \<open>\<not> fs_arg f\<close> by blast
  qed
qed

lemma names_disjoint:
  assumes "well_declared fs" "f \<in> set fs" "g \<in> set fs" "n \<in> set (names_of f)" "n \<in> set (names_of g)"
  shows "names_of f = names_of g"
proof (rule ccontr)
  assume neq: "names_of f \<noteq> names_of g"
  have "distinct (concat (map names_of fs))" using assms(1) by (simp add: well_declared_def)
  then have "\<forall>ys zs. ys \<in> set (map names_of fs) \<and> zs \<in> set (map names_of fs) \<and> ys \<noteq> zs \<longrightarrow> set ys \<inter> set zs = {}"
    unfolding distinct_concat_iff by (elim conjE)
  moreover have "names_of f \<in> set (map names_of fs)" "names_of g \<in> set (map names_of fs)" using assms(2,3) by simp_all
  ultimately have "set (names_of f) \<inter> set (names_of g) = {}" using neq by blast
  then show False using assms(4,5) by blast
qed

lemma names_distinct: "well_declared fs \<Longrightarrow> f \<in> set fs \<Longrightarrow> distinct (names_of f)"
  unfolding well_declared_def distinct_concat_iff by auto

text \<open>Setting any name of a field sets all of them, and no other option of the command does.\<close>

lemma touches_names:
  assumes "well_declared fs" "declares (supported_of_fields fs) p" "f \<in> set fs" "k \<in> set (names_of f)"
  shows "touches p n k = (n \<in> set (names_of f))"
proof -
  note d = declares_fields [OF assms(1,2)]
  note nd = names_disjoint [OF assms(1)]
  have same: "m \<in> set (names_of f)" if "pr_aliases p a = Some m" "a \<in> set (names_of f)" for a m
    using d(2) [OF that(1)] nd [OF _ assms(3) _ that(2)] by (metis list.set_intros(1,2))
  have same': "a \<in> set (names_of f)" if "pr_aliases p a = Some m" "m \<in> set (names_of f)" for a m
    using d(2) [OF that(1)] nd [OF _ assms(3) _ that(2)] by (metis list.set_intros(1,2))
  have "touches p n k" if n: "n \<in> set (names_of f)"
  proof (cases "n = k")
    case False
    then obtain m a where f: "names_of f = [m, a]" "n \<in> {m, a}" "k \<in> {m, a}" "m \<noteq> a"
      using n assms(4) names_distinct [OF assms(1,3)] by (auto simp: names_of_def split: if_splits)
    have "pr_aliases p a = Some m"
      using d(3) [OF assms(3) f(1)] d(2) [of a] nd [OF _ assms(3), of _ a] f(1) by force
    moreover have "pr_aliases p m = None"
    proof (rule ccontr)
      assume "pr_aliases p m \<noteq> None"
      then obtain b g where "g \<in> set fs" "names_of g = [b, m]" using d(2) by blast
      then show False using nd [OF _ assms(3), of g m] f(1,4) by simp
    qed
    ultimately show ?thesis using f False by (auto simp: touches_def)
  qed (simp add: touches_def)
  then show ?thesis using same same' assms(4) unfolding touches_def by blast
qed

lemma last_given_names:
  assumes "well_declared fs" "declares (supported_of_fields fs) p" "f \<in> set fs" "k \<in> set (names_of f)"
  shows "last_given p k items = given_by f items"
  unfolding last_given_def given_by_def
  by (rule fold_cong [OF refl refl]) (auto simp: given_to_def touches_names [OF assms] fun_eq_iff split: option.splits)

lemma declared_item_ok:
  assumes "well_declared fs" "declares (supported_of_fields fs) p" "declared_item fs i"
  shows "item_ok p i"
  using assms(3) by (cases i) (simp_all add: declares_fields(1) [OF assms(1,2)])

text \<open>C17. From the command line to the input of the command. For fields whose option names are distinct and hold
  no comma, every field that is an option gets the last value given under its long or its short name (the zero
  value when there is none or when it is empty), and every positional field gets the first positional argument.\<close>

theorem input_from_command_line:
  assumes "well_declared fs" "list_all (declared_item fs) items"
  shows "fill_input_from_parser
           (fst (parse_with_args (prog # concat (map render items)) (supported_of_fields fs) options)) fs =
         map (\<lambda>f. set_or_zero (fs_kind f)
           (if fs_arg f then (case positionals items of [] \<Rightarrow> [] | s # rest \<Rightarrow> s)
            else (case given_by f items of Some v \<Rightarrow> v | None \<Rightarrow> []))) fs"
proof -
  define p where "p = fold add_supported (supported_of_fields fs)
      \<lparr>pr_args = prog # concat (map render items), pr_options = Map.empty, pr_arguments = [], pr_supported = Map.empty,
       pr_aliases = Map.empty, pr_option = (case options of [] \<Rightarrow> no_option | o1 # _ \<Rightarrow> o1)\<rparr>"
  have all: "list_all snd (supported_of_fields fs)" by (auto simp: list_all_iff supported_of_fields_set)
  have dec: "declares (supported_of_fields fs) p" unfolding p_def by (rule fold_add_supported [OF all]) simp_all
  have keep: "pr_args (fold add_supported L q) = pr_args q \<and> pr_options (fold add_supported L q) = pr_options q \<and>
      pr_arguments (fold add_supported L q) = pr_arguments q" for L q
  proof (induction L arbitrary: q)
    case (Cons x L)
    have "pr_args (fold (\<lambda>a p. p\<lparr>pr_aliases := (pr_aliases p)(a \<mapsto> m), pr_supported := (pr_supported p)(a \<mapsto> b)\<rparr>) as r) = pr_args r \<and>
        pr_options (fold (\<lambda>a p. p\<lparr>pr_aliases := (pr_aliases p)(a \<mapsto> m), pr_supported := (pr_supported p)(a \<mapsto> b)\<rparr>) as r) = pr_options r \<and>
        pr_arguments (fold (\<lambda>a p. p\<lparr>pr_aliases := (pr_aliases p)(a \<mapsto> m), pr_supported := (pr_supported p)(a \<mapsto> b)\<rparr>) as r) = pr_arguments r"
      for m b as and r :: parser by (induction as arbitrary: r) auto
    then show ?case using Cons [of "add_supported x q"] by (simp add: add_supported_def split: list.splits)
  qed simp
  let ?q = "parse_loop (concat (map render items)) p"
  have q: "fst (parse_with_args (prog # concat (map render items)) (supported_of_fields fs) options) = ?q"
    using keep by (simp add: parse_with_args_def parse_def p_def [symmetric]) (simp add: p_def keep)
  have ok: "list_all (item_ok p) items"
    using assms(2) declared_item_ok [OF assms(1) dec] by (auto simp: list_all_iff)
  have args: "pr_arguments ?q = positionals items"
    using parse_loop_items [OF ok, of "[]"] fold_item_effect [of items p] by (simp add: p_def keep)
  have opts: "pr_options ?q k = last_given p k items" for k
    using parse_loop_items [OF ok, of "[]"] fold_item_effect [of items p k] by (simp add: p_def keep split: option.splits)
  have "fill_field ?q f = set_or_zero (fs_kind f)
           (if fs_arg f then (case positionals items of [] \<Rightarrow> [] | s # rest \<Rightarrow> s)
            else (case given_by f items of Some v \<Rightarrow> v | None \<Rightarrow> []))" if f: "f \<in> set fs" for f
  proof (cases "fs_arg f")
    case True
    then show ?thesis by (simp add: fill_field_def get_arg_def args set_or_zero_def hd_conv_nth split: list.splits)
  next
    case False
    have "get_opt ?q k = (case given_by f items of Some v \<Rightarrow> v | None \<Rightarrow> [])" if "k \<in> set (names_of f)" for k
      using last_given_names [OF assms(1) dec f that, of items] by (simp add: get_opt_def opts split: option.splits)
    then show ?thesis using False by (simp add: fill_field_def names_of_def set_or_zero_def Let_def)
  qed
  then show ?thesis unfolding q fill_input_from_parser_def by simp
qed

lemma input_from_command_line_witness:
  "fill_input_from_parser (fst (parse_with_args [''cp'', ''a.txt'', ''-o'', ''b'']
     (supported_of_fields [\<lparr>fs_name = ''out'', fs_short = ''o'', fs_arg = False, fs_kind = KString\<rparr>,
        \<lparr>fs_name = ''src'', fs_short = [], fs_arg = True, fs_kind = KString\<rparr>]) []))
     [\<lparr>fs_name = ''out'', fs_short = ''o'', fs_arg = False, fs_kind = KString\<rparr>,
      \<lparr>fs_name = ''src'', fs_short = [], fs_arg = True, fs_kind = KString\<rparr>] = [VString ''b'', VString ''a.txt'']"
  using input_from_command_line [of "[\<lparr>fs_name = ''out'', fs_short = ''o'', fs_arg = False, fs_kind = KString\<rparr>,
      \<lparr>fs_name = ''src'', fs_short = [], fs_arg = True, fs_kind = KString\<rparr>]"
      "[Positional ''a.txt'', Short CHR ''o'' ''b'']" "''cp''" "[]"]
  by (simp add: well_declared_def names_of_def plain_def has_prefix_def positionals_def given_by_def set_or_zero_def
      set_field_value_def)

text \<open>A boolean option written as a bare flag stays false: every option of a struct takes a value, and without one it
  is set to the empty text, which is not stored.\<close>

lemma bare_flag_is_false:
  "fill_input_from_parser (fst (parse_with_args [''run'', ''--verbose'']
     (supported_of_fields [\<lparr>fs_name = ''verbose'', fs_short = [], fs_arg = False, fs_kind = KBool\<rparr>]) []))
     [\<lparr>fs_name = ''verbose'', fs_short = [], fs_arg = False, fs_kind = KBool\<rparr>] = [VBool False]"
  by (simp add: supported_of_fields_def parse_with_args_def parse_def add_supported_def str_split_none parse_item_def
      has_prefix_def split_n_def gen_split_def numeral_2_eq_2 unknown_option_def needs_value_def follow_option_def
      set_option_value_def fill_input_from_parser_def fill_field_def get_opt_def zero_value_def no_option_def)

end
