(* ===== verification/Generate.thy ===== *)
theory Generate
  imports Numbers "HOL-Library.Word"
begin

text \<open>
  tools/generate/generate.go: random integers, strings, captchas, addresses, times and passwords. The source of
  randomness \<open>crypto/rand.Reader\<close> is a tape: each draw takes one entry, an error or a number that is reduced to
  the range asked for, and an exhausted tape is an error. Every sequence of answers of \<open>rand.Int\<close> is that of a tape.
\<close>

unbundle bit_operations_syntax

subsection \<open>Drawing\<close>

type_synonym tape = "(string + nat) list"
type_synonym 'a gen = "tape \<Rightarrow> (string + 'a) outcome \<times> tape"

definition ret :: "'a \<Rightarrow> 'a gen" where
  "ret x t = (Done (Inr x), t)"

definition fail :: "string \<Rightarrow> 'a gen" where
  "fail e t = (Done (Inl e), t)"

definition bind_gen :: "'a gen \<Rightarrow> ('a \<Rightarrow> 'b gen) \<Rightarrow> 'b gen" where
  "bind_gen m f t =
     (case m t of
        (Done (Inr x), t') \<Rightarrow> f x t'
      | (Done (Inl e), t') \<Rightarrow> (Done (Inl e), t')
      | (Panic p, t') \<Rightarrow> (Panic p, t')
      | (Blocked, t') \<Rightarrow> (Blocked, t'))"

text \<open>\<open>rand.Int\<close> panics on a bound that is not positive.\<close>

definition rand_int :: "int \<Rightarrow> int gen" where
  "rand_int bound t =
     (if bound \<le> 0 then (Panic ''crypto/rand: argument to Int is <= 0'', t)
      else case t of
        [] \<Rightarrow> (Done (Inl ''EOF''), [])
      | Inl e # t' \<Rightarrow> (Done (Inl e), t')
      | Inr k # t' \<Rightarrow> (Done (Inr (int k mod bound)), t'))"

text \<open>The \<open>Must\<close> variants panic on an error.\<close>

definition must :: "'a gen \<Rightarrow> tape \<Rightarrow> 'a outcome \<times> tape" where
  "must m t =
     (case m t of
        (Done (Inr x), t') \<Rightarrow> (Done x, t')
      | (Done (Inl e), t') \<Rightarrow> (Panic e, t')
      | (Panic p, t') \<Rightarrow> (Panic p, t')
      | (Blocked, t') \<Rightarrow> (Blocked, t'))"

subsection \<open>Integers and strings\<close>

definition random_int :: "int \<Rightarrow> int \<Rightarrow> int gen" where
  "random_int lo hi =
     (if lo > hi then fail ''min cannot be greater than max''
      else bind_gen (rand_int (wrap64 (wrap64 (hi - lo) + 1))) (\<lambda>n. ret (wrap64 (lo + n))))"

definition must_random_int :: "int \<Rightarrow> int \<Rightarrow> tape \<Rightarrow> int outcome \<times> tape" where
  "must_random_int lo hi = must (random_int lo hi)"

fun repeat_gen :: "nat \<Rightarrow> 'a gen \<Rightarrow> 'a list gen" where
  "repeat_gen 0 m = ret []"
| "repeat_gen (Suc n) m = bind_gen m (\<lambda>x. bind_gen (repeat_gen n m) (\<lambda>xs. ret (x # xs)))"

definition lower_set :: string where "lower_set = ''abcdefghijklmnopqrstuvwxyz''"
definition upper_set :: string where "upper_set = ''ABCDEFGHIJKLMNOPQRSTUVWXYZ''"
definition digit_set :: string where "digit_set = ''0123456789''"
definition symbol_set :: string where "symbol_set = ''!@#$%^&*()_+-=[]{}|;:,.<>?''"

definition random_string :: "int \<Rightarrow> string list \<Rightarrow> string gen" where
  "random_string len charsets =
     (if len \<le> 0 then fail ''length must be greater than 0''
      else let charset = (if charsets \<noteq> [] then concat charsets else lower_set @ upper_set @ digit_set) in
      if charset = [] then fail ''charset cannot be empty''
      else repeat_gen (nat len) (bind_gen (rand_int (int (length charset))) (\<lambda>n. ret (charset ! nat n))))"

definition must_random_string :: "int \<Rightarrow> string list \<Rightarrow> tape \<Rightarrow> string outcome \<times> tape" where
  "must_random_string len charsets = must (random_string len charsets)"

definition random_string_with_charset :: "int \<Rightarrow> string \<Rightarrow> string gen" where
  "random_string_with_charset len charset = random_string len [charset]"

definition captcha :: "int \<Rightarrow> string gen" where
  "captcha len =
     (if len \<le> 0 then fail ''length must be greater than 0''
      else repeat_gen (nat len) (bind_gen (random_int 0 9) (\<lambda>n. ret (char_of (48 + nat n mod 256)))))"

definition must_captcha :: "int \<Rightarrow> tape \<Rightarrow> string outcome \<times> tape" where
  "must_captcha len = must (captcha len)"

definition alpha_captcha :: "int \<Rightarrow> string gen" where
  "alpha_captcha len = random_string len [lower_set @ upper_set]"

definition must_alpha_captcha :: "int \<Rightarrow> tape \<Rightarrow> string outcome \<times> tape" where
  "must_alpha_captcha len = must (alpha_captcha len)"

definition alpha_numeric_captcha :: "int \<Rightarrow> string gen" where
  "alpha_numeric_captcha len = random_string len [lower_set @ upper_set @ digit_set]"

definition must_alpha_numeric_captcha :: "int \<Rightarrow> tape \<Rightarrow> string outcome \<times> tape" where
  "must_alpha_numeric_captcha len = must (alpha_numeric_captcha len)"

subsection \<open>Addresses, booleans and times\<close>

definition random_byte :: "8 word gen" where
  "random_byte = bind_gen (random_int 0 255) (\<lambda>n. ret (word_of_int n))"

definition ip_text :: "8 word list \<Rightarrow> string" where
  "ip_text bs = join_strs ''.'' (map (\<lambda>b. dec_nat (unat b)) bs)"

definition random_ip :: "string gen" where
  "random_ip = bind_gen (repeat_gen 4 random_byte) (\<lambda>bs. ret (ip_text bs))"

definition must_random_ip :: "tape \<Rightarrow> string outcome \<times> tape" where
  "must_random_ip = must random_ip"

definition hex2 :: "8 word \<Rightarrow> string" where
  "hex2 b = [digit_char (unat b div 16), digit_char (unat b mod 16)]"

definition mac_text :: "8 word list \<Rightarrow> string" where
  "mac_text bs = join_strs '':'' (map hex2 bs)"

definition local_unicast :: "8 word list \<Rightarrow> 8 word list" where
  "local_unicast mac = (let m1 = mac[0 := mac ! 0 AND 0xFE] in m1[0 := m1 ! 0 OR 0x02])"

definition random_mac :: "string gen" where
  "random_mac = bind_gen (repeat_gen 6 random_byte) (\<lambda>bs. ret (mac_text (local_unicast bs)))"

definition must_random_mac :: "tape \<Rightarrow> string outcome \<times> tape" where
  "must_random_mac = must random_mac"

definition random_bool :: "bool gen" where
  "random_bool = bind_gen (random_int 0 1) (\<lambda>v. ret (v = 1))"

definition must_random_bool :: "tape \<Rightarrow> bool outcome \<times> tape" where
  "must_random_bool = must random_bool"

text \<open>Times are in nanoseconds; \<open>Unix\<close> is the second they fall in.\<close>

definition unix :: "time \<Rightarrow> int" where
  "unix t = t div 10 ^ 9"

definition random_timestamp :: "time \<Rightarrow> time \<Rightarrow> int gen" where
  "random_timestamp start stop =
     (if start > stop then fail ''start time cannot be after end time'' else random_int (unix start) (unix stop))"

definition must_random_timestamp :: "time \<Rightarrow> time \<Rightarrow> tape \<Rightarrow> int outcome \<times> tape" where
  "must_random_timestamp start stop = must (random_timestamp start stop)"

definition random_time :: "time \<Rightarrow> time \<Rightarrow> time gen" where
  "random_time start stop = bind_gen (random_timestamp start stop) (\<lambda>ts. ret (ts * 10 ^ 9))"

definition must_random_time :: "time \<Rightarrow> time \<Rightarrow> tape \<Rightarrow> time outcome \<times> tape" where
  "must_random_time start stop = must (random_time start stop)"

subsection \<open>Passwords\<close>

text \<open>A string that could not be drawn is left out.\<close>

definition append_drawn :: "string gen \<Rightarrow> string \<Rightarrow> tape \<Rightarrow> string outcome \<times> tape" where
  "append_drawn m acc t =
     (case m t of
        (Done (Inr s), t') \<Rightarrow> (Done (acc @ s), t')
      | (Done (Inl e), t') \<Rightarrow> (Done acc, t')
      | (Panic p, t') \<Rightarrow> (Panic p, t')
      | (Blocked, t') \<Rightarrow> (Blocked, t'))"

definition swap :: "'a list \<Rightarrow> nat \<Rightarrow> nat \<Rightarrow> 'a list" where
  "swap xs i j = xs[i := xs ! j, j := xs ! i]"

fun shuffle_loop :: "nat list \<Rightarrow> string \<Rightarrow> tape \<Rightarrow> string outcome \<times> tape" where
  "shuffle_loop [] pw t = (Done pw, t)"
| "shuffle_loop (i # is_left) pw t =
     (case random_int 0 (int (length pw) - 1) t of
        (Done (Inr j), t') \<Rightarrow> shuffle_loop is_left (swap pw i (nat j)) t'
      | (Done (Inl e), t') \<Rightarrow> shuffle_loop is_left pw t'
      | (Panic p, t') \<Rightarrow> (Panic p, t')
      | (Blocked, t') \<Rightarrow> (Blocked, t'))"

fun append_all :: "string gen list \<Rightarrow> string \<Rightarrow> tape \<Rightarrow> string outcome \<times> tape" where
  "append_all [] acc t = (Done acc, t)"
| "append_all (m # ms) acc t =
     (case append_drawn m acc t of (Done acc', t') \<Rightarrow> append_all ms acc' t' | r \<Rightarrow> r)"

definition generate_strong_password :: "int \<Rightarrow> string gen" where
  "generate_strong_password len t =
     (if len < 8 then fail ''password length should be at least 8'' t
      else case append_all (map (\<lambda>cs. random_string 1 [cs]) [lower_set, upper_set, digit_set, symbol_set]) [] t of
        (Done pw, t1) \<Rightarrow>
          (let remaining = len - int (length pw) in
           case (if remaining > 0
                 then append_drawn (random_string remaining [lower_set, upper_set, digit_set, symbol_set]) pw t1
                 else (Done pw, t1)) of
             (Done pw2, t2) \<Rightarrow>
               (case shuffle_loop [0..<length pw2] pw2 t2 of
                  (Done pw3, t3) \<Rightarrow> (Done (Inr pw3), t3)
                | (Panic p, t3) \<Rightarrow> (Panic p, t3)
                | (Blocked, t3) \<Rightarrow> (Blocked, t3))
           | (Panic p, t2) \<Rightarrow> (Panic p, t2)
           | (Blocked, t2) \<Rightarrow> (Blocked, t2))
      | (Panic p, t1) \<Rightarrow> (Panic p, t1)
      | (Blocked, t1) \<Rightarrow> (Blocked, t1))"

definition must_generate_strong_password :: "int \<Rightarrow> tape \<Rightarrow> string outcome \<times> tape" where
  "must_generate_strong_password len = must (generate_strong_password len)"

subsection \<open>What is generated\<close>

lemma bind_gen_done [simp]: "m t = (Done (Inr x), t') \<Longrightarrow> bind_gen m f t = f x t'"
  by (simp add: bind_gen_def)

lemma random_int_bound:
  assumes "fits64 lo" "fits64 hi" "lo \<le> hi"
  shows "hi - lo < 2 ^ 63 - 1 \<Longrightarrow> wrap64 (wrap64 (hi - lo) + 1) = hi - lo + 1"
    and "hi - lo \<ge> 2 ^ 63 - 1 \<Longrightarrow> wrap64 (wrap64 (hi - lo) + 1) \<le> 0"
proof -
  show "wrap64 (wrap64 (hi - lo) + 1) = hi - lo + 1" if "hi - lo < 2 ^ 63 - 1"
  proof -
    have "fits64 (hi - lo)" "fits64 (hi - lo + 1)" using assms(3) that by (simp_all add: fits64_def)
    then show ?thesis by (simp add: wrap64_id)
  qed
  show "wrap64 (wrap64 (hi - lo) + 1) \<le> 0" if big: "hi - lo \<ge> 2 ^ 63 - 1"
  proof (cases "hi - lo = 2 ^ 63 - 1")
    case True
    then have "fits64 (hi - lo)" by (simp add: fits64_def)
    then have "wrap64 (wrap64 (hi - lo) + 1) = wrap64 (2 ^ 63)" by (simp add: wrap64_id True)
    then show ?thesis by (simp add: wrap64_def)
  next
    case False
    have range: "2 ^ 63 \<le> hi - lo" "hi - lo < 2 ^ 64" using big False assms(1,2) by (simp_all add: fits64_def)
    then have w: "wrap64 (hi - lo) = hi - lo - 2 ^ 64" by (intro wrap64_high) simp_all
    have "fits64 (hi - lo - 2 ^ 64 + 1)" using range by (simp add: fits64_def)
    then show ?thesis unfolding w using range by (simp add: wrap64_id)
  qed
qed

lemma draw_range: "lo \<le> hi \<Longrightarrow> int k mod (hi - lo + 1) \<le> hi - lo"
proof -
  assume "lo \<le> hi"
  then have "int k mod (hi - lo + 1) < hi - lo + 1" by (intro pos_mod_bound) simp
  then show ?thesis by linarith
qed

lemma random_int_draw:
  assumes "fits64 lo" "fits64 hi" "lo \<le> hi" "hi - lo < 2 ^ 63 - 1"
  shows "random_int lo hi (Inr k # t) = (Done (Inr (lo + int k mod (hi - lo + 1))), t)"
proof -
  have n: "0 \<le> int k mod (hi - lo + 1)" "int k mod (hi - lo + 1) \<le> hi - lo" using assms(3) draw_range by simp_all
  have "fits64 (lo + int k mod (hi - lo + 1))"
    unfolding fits64_def
  proof
    show "- (2 ^ 63) \<le> lo + int k mod (hi - lo + 1)" using n(1) assms(1) unfolding fits64_def by linarith
    show "lo + int k mod (hi - lo + 1) < 2 ^ 63" using n(2) assms(2) unfolding fits64_def by linarith
  qed
  then show ?thesis
    using assms(3) by (simp add: random_int_def rand_int_def random_int_bound(1) [OF assms] bind_gen_def ret_def wrap64_id)
qed

text \<open>C0. \<open>RandomInt\<close> can return every integer of the range it is asked for and no other, and does not panic, as long as
  the range has less than \<open>2 ^ 63\<close> integers. Asked for a larger range it always panics: the number of
  integers has wrapped to one that is not positive.\<close>

theorem random_int_exact:
  assumes "fits64 lo" "fits64 hi" "lo \<le> hi"
  shows "if hi - lo + 1 < 2 ^ 63
         then {n. \<exists>t. fst (random_int lo hi t) = Done (Inr n)} = {lo..hi} \<and> (\<forall>t p. fst (random_int lo hi t) \<noteq> Panic p)
         else (\<forall>t. \<exists>p. fst (random_int lo hi t) = Panic p)"
proof (cases "hi - lo + 1 < 2 ^ 63")
  case True
  then have small: "hi - lo < 2 ^ 63 - 1" by linarith
  note draw = random_int_draw [OF assms small]
  have b: "wrap64 (wrap64 (hi - lo) + 1) = hi - lo + 1" by (rule random_int_bound(1) [OF assms small])
  have other: "random_int lo hi [] = (Done (Inl ''EOF''), [])" "random_int lo hi (Inl e # t) = (Done (Inl e), t)" for e t
    using assms(3) by (simp_all add: random_int_def rand_int_def b bind_gen_def)
  have cases3: "P t" if "P []" "\<And>e t. P (Inl e # t)" "\<And>k t. P (Inr k # t)" for P :: "tape \<Rightarrow> bool" and t
    using that by (cases t) (auto, metis sum.exhaust)
  have "n \<in> {lo..hi}" if "fst (random_int lo hi t) = Done (Inr n)" for n t
    using that
  proof (induct t rule: cases3)
    case (3 k t)
    then show ?case using draw_range [OF assms(3), of k] assms(3) by (auto simp: draw)
  qed (simp_all add: other)
  moreover have "\<exists>t. fst (random_int lo hi t) = Done (Inr n)" if "n \<in> {lo..hi}" for n
  proof -
    have "fst (random_int lo hi [Inr (nat (n - lo))]) = Done (Inr n)" using that by (simp add: draw)
    then show ?thesis ..
  qed
  moreover have "fst (random_int lo hi t) \<noteq> Panic p" for t p
    by (induct t rule: cases3) (simp_all add: draw other)
  ultimately show ?thesis using True by auto
next
  case False
  then have "wrap64 (wrap64 (hi - lo) + 1) \<le> 0" by (intro random_int_bound(2) [OF assms]) linarith
  then have "\<exists>p. fst (random_int lo hi t) = Panic p" for t
    using assms(3) by (simp add: random_int_def rand_int_def bind_gen_def)
  then show ?thesis using False by simp
qed

lemma random_int_exact_witness:
  "{n. \<exists>t. fst (random_int 1 6 t) = Done (Inr n)} = {1..6} \<and> (\<exists>p. fst (random_int (- (2 ^ 62)) (2 ^ 62) []) = Panic p)"
  using random_int_exact [of 1 6] random_int_exact [of "- (2 ^ 62)" "2 ^ 62"] by (simp add: fits64_def)

lemma repeat_gen_run:
  assumes "\<And>k t. \<exists>x. m (Inr k # t) = (Done (Inr x), t) \<and> P x"
  shows "\<exists>xs. repeat_gen (length ks) m (map Inr ks @ t) = (Done (Inr xs), t) \<and> length xs = length ks \<and> (\<forall>x \<in> set xs. P x)"
proof (induction ks)
  case (Cons k ks)
  obtain x where x: "m (Inr k # map Inr ks @ t) = (Done (Inr x), map Inr ks @ t)" "P x" using assms by blast
  obtain xs where "repeat_gen (length ks) m (map Inr ks @ t) = (Done (Inr xs), t)" "length xs = length ks" "\<forall>x \<in> set xs. P x"
    using Cons.IH by blast
  then have "repeat_gen (length (k # ks)) m (map Inr (k # ks) @ t) = (Done (Inr (x # xs)), t) \<and>
      length (x # xs) = length (k # ks) \<and> (\<forall>x \<in> set (x # xs). P x)"
    using x by (simp add: ret_def)
  then show ?case by blast
qed (simp add: ret_def)

lemma random_string_run:
  assumes "charsets \<noteq> []" "concat charsets \<noteq> []" "ks \<noteq> []"
  obtains s where "random_string (int (length ks)) charsets (map Inr ks @ t) = (Done (Inr s), t)"
    "length s = length ks" "set s \<subseteq> set (concat charsets)"
proof -
  let ?cs = "concat charsets"
  have pos: "0 < length ?cs" using assms(2) by (cases ?cs) simp_all
  have "\<exists>c. bind_gen (rand_int (int (length ?cs))) (\<lambda>n. ret (?cs ! nat n)) (Inr k # t') = (Done (Inr c), t') \<and> c \<in> set ?cs" for k t'
    using pos nth_mem [of "k mod length ?cs" ?cs] by (simp add: bind_gen_def rand_int_def ret_def nat_mod_distrib)
  then obtain s where s: "repeat_gen (length ks) (bind_gen (rand_int (int (length ?cs))) (\<lambda>n. ret (?cs ! nat n))) (map Inr ks @ t) =
      (Done (Inr s), t)" "length s = length ks" "\<forall>c \<in> set s. c \<in> set ?cs"
    using repeat_gen_run [of "bind_gen (rand_int (int (length ?cs))) (\<lambda>n. ret (?cs ! nat n))" "\<lambda>c. c \<in> set ?cs"] by metis
  show ?thesis
  proof (rule that [OF _ s(2)])
    show "random_string (int (length ks)) charsets (map Inr ks @ t) = (Done (Inr s), t)"
      using assms s(1) by (auto simp: random_string_def Let_def)
  qed (use s(3) in blast)
qed

lemma shuffle_run:
  "ns \<noteq> [] \<Longrightarrow> \<forall>i \<in> set is_left. i < length pw \<Longrightarrow> pw \<noteq> [] \<Longrightarrow> int (length pw) < 2 ^ 63 \<Longrightarrow> length ks = length is_left \<Longrightarrow>
     \<exists>pw'. shuffle_loop is_left pw (map Inr ks @ t) = (Done pw', t) \<and> mset pw' = mset pw"
proof (induction is_left arbitrary: pw ks)
  case (Cons i is_left)
  then obtain k ks' where ks: "ks = k # ks'" "length ks' = length is_left" by (cases ks) auto
  let ?j = "k mod length pw"
  have len: "0 < length pw" using Cons.prems(3) by (cases pw) simp_all
  have j: "?j < length pw" using len by simp
  have d: "random_int 0 (int (length pw) - 1) (map Inr ks @ t) = (Done (Inr (int ?j)), map Inr ks' @ t)"
    using len Cons.prems(4) random_int_draw [of 0 "int (length pw) - 1" k "map Inr ks' @ t"]
    by (simp add: ks fits64_def zmod_int)
  have m: "mset (swap pw i ?j) = mset pw"
    using mset_swap [of ?j pw i] j Cons.prems(2) by (simp add: swap_def)
  then have "length (swap pw i ?j) = length pw" by (metis size_mset)
  then obtain pw' where "shuffle_loop is_left (swap pw i ?j) (map Inr ks' @ t) = (Done pw', t)" "mset pw' = mset (swap pw i ?j)"
    using Cons.IH [of "swap pw i ?j" ks'] Cons.prems ks by (metis length_0_conv list.set_intros(2))
  then show ?case using d m by (auto simp: ks)
qed simp

lemma append_drawn_string:
  assumes "charsets \<noteq> []" "concat charsets \<noteq> []" "ks \<noteq> []" "n = int (length ks)"
  obtains s where "append_drawn (random_string n charsets) acc (map Inr ks @ t) = (Done (acc @ s), t)"
    "length s = length ks" "set s \<subseteq> set (concat charsets)"
proof -
  obtain s where "random_string n charsets (map Inr ks @ t) = (Done (Inr s), t)" "length s = length ks" "set s \<subseteq> set (concat charsets)"
    using random_string_run [OF assms(1-3), of t] assms(4) by metis
  then show ?thesis by (intro that [of s]) (simp_all add: append_drawn_def)
qed

lemma one_of_each:
  "\<forall>cs \<in> set css. cs \<noteq> [] \<Longrightarrow> length ks = length css \<Longrightarrow>
     \<exists>s. append_all (map (\<lambda>cs. random_string 1 [cs]) css) acc (map Inr ks @ t) = (Done (acc @ s), t) \<and>
         length s = length css \<and> (\<forall>cs \<in> set css. set s \<inter> set cs \<noteq> {}) \<and> set s \<subseteq> set (concat css)"
proof (induction css arbitrary: acc ks)
  case (Cons cs css)
  then obtain k ks' where ks: "ks = k # ks'" "length ks' = length css" by (cases ks) auto
  obtain c where c: "append_drawn (random_string 1 [cs]) acc (map Inr [k] @ map Inr ks' @ t) = (Done (acc @ c), map Inr ks' @ t)"
    "length c = 1" "set c \<subseteq> set (concat [cs])"
    using Cons.prems(1) append_drawn_string [of "[cs]" "[k]" 1 acc "map Inr ks' @ t"] by auto
  obtain s where s: "append_all (map (\<lambda>cs. random_string 1 [cs]) css) (acc @ c) (map Inr ks' @ t) = (Done ((acc @ c) @ s), t)"
    "length s = length css" "\<forall>cs \<in> set css. set s \<inter> set cs \<noteq> {}" "set s \<subseteq> set (concat css)"
    using Cons.IH [of ks' "acc @ c"] Cons.prems(1) ks(2) by auto
  have "set c \<inter> set cs \<noteq> {}" using c(2,3) by (cases c) auto
  then have "append_all (map (\<lambda>cs. random_string 1 [cs]) (cs # css)) acc (map Inr ks @ t) = (Done (acc @ c @ s), t) \<and>
      length (c @ s) = length (cs # css) \<and> (\<forall>x \<in> set (cs # css). set (c @ s) \<inter> set x \<noteq> {}) \<and> set (c @ s) \<subseteq> set (concat (cs # css))"
    using c s by (auto simp: ks)
  then show ?case by blast
qed simp

definition password_classes :: "string list" where
  "password_classes = [lower_set, upper_set, digit_set, symbol_set]"

text \<open>C31. When the source of randomness gives what is asked of it, a strong password has the length asked for, consists of
  characters of the four classes and has one of each: the shuffle loses nothing. Two draws are made per
  character.\<close>

theorem strong_password_classes:
  assumes "8 \<le> n" "int n < 2 ^ 63" "length ks = 2 * n"
  shows "\<exists>pw. generate_strong_password (int n) (map Inr ks @ t) = (Done (Inr pw), t) \<and> length pw = n \<and>
           set pw \<subseteq> set (concat password_classes) \<and> (\<forall>cs \<in> set password_classes. set pw \<inter> set cs \<noteq> {})"
proof -
  define k1 where "k1 = take 4 ks"
  define k2 where "k2 = take (n - 4) (drop 4 ks)"
  define k3 where "k3 = drop n ks"
  have n: "n - 4 + 4 = n" using assms(1) by simp
  have ks: "ks = k1 @ k2 @ k3"
    unfolding k1_def k2_def k3_def using append_take_drop_id [of 4 ks] append_take_drop_id [of "n - 4" "drop 4 ks"] by (simp add: n)
  have len: "length k1 = length password_classes" "length k2 = n - 4" "length k3 = n"
    using assms by (simp_all add: k1_def k2_def k3_def password_classes_def)
  have ne: "\<forall>cs \<in> set password_classes. cs \<noteq> []"
    by (simp add: password_classes_def lower_set_def upper_set_def digit_set_def symbol_set_def)
  obtain s1 where s1: "append_all (map (\<lambda>cs. random_string 1 [cs]) password_classes) [] (map Inr k1 @ map Inr k2 @ map Inr k3 @ t) =
      (Done ([] @ s1), map Inr k2 @ map Inr k3 @ t)" "length s1 = length password_classes"
      "\<forall>cs \<in> set password_classes. set s1 \<inter> set cs \<noteq> {}" "set s1 \<subseteq> set (concat password_classes)"
    using one_of_each [OF ne len(1), of "[]" "map Inr k2 @ map Inr k3 @ t"] by blast
  have l1: "length s1 = 4" using s1(2) by (simp add: password_classes_def)
  have "concat password_classes \<noteq> []" by (simp add: password_classes_def lower_set_def)
  moreover have "k2 \<noteq> []" using len(2) assms(1) by auto
  ultimately obtain s2 where s2: "append_drawn (random_string (int n - 4) password_classes) s1 (map Inr k2 @ map Inr k3 @ t) =
      (Done (s1 @ s2), map Inr k3 @ t)" "length s2 = n - 4" "set s2 \<subseteq> set (concat password_classes)"
    using append_drawn_string [of password_classes k2 "int n - 4" s1 "map Inr k3 @ t"] len(2) assms(1)
    by (auto simp: password_classes_def)
  have l2: "length (s1 @ s2) = n" using l1 s2(2) assms(1) by simp
  have "k3 \<noteq> []" "s1 @ s2 \<noteq> []" using len(3) l1 assms(1) by auto
  then obtain pw where pw: "shuffle_loop [0..<n] (s1 @ s2) (map Inr k3 @ t) = (Done pw, t)" "mset pw = mset (s1 @ s2)"
    using shuffle_run [of k3 "[0..<n]" "s1 @ s2" k3 t] l2 assms(2) len(3) by auto
  have "generate_strong_password (int n) (map Inr ks @ t) = (Done (Inr pw), t)"
    using s1(1) s2(1) pw(1) l1 l2 assms(1) by (simp add: generate_strong_password_def ks password_classes_def)
  moreover have "length pw = n" using pw(2) l2 by (metis size_mset)
  moreover have "set pw = set s1 \<union> set s2" using pw(2) by (metis set_append set_mset_mset)
  ultimately show ?thesis using s1(3,4) s2(3) by blast
qed

lemma strong_password_classes_witness:
  "\<exists>pw. generate_strong_password 8 (map Inr (replicate 16 3)) = (Done (Inr pw), []) \<and> length pw = 8"
  using strong_password_classes [of 8 "replicate 16 3" "[]"] by auto

text \<open>When every draw fails, the password is empty and the error nil.\<close>

lemma string_without_randomness:
  assumes "0 < n" "css \<noteq> []" "concat css \<noteq> []"
  shows "append_drawn (random_string n css) acc [] = (Done acc, [])"
proof -
  obtain m where "nat n = Suc m" using assms(1) by (metis gr0_conv_Suc zero_less_nat_eq)
  moreover have "0 < length (concat css)" using assms(3) by blast
  ultimately have "random_string n css [] = (Done (Inl ''EOF''), [])"
    using assms by (auto simp: random_string_def Let_def bind_gen_def rand_int_def)
  then show ?thesis by (simp add: append_drawn_def)
qed

lemma password_without_randomness:
  assumes "8 \<le> n"
  shows "generate_strong_password n [] = (Done (Inr []), [])"
proof -
  have "append_drawn (random_string n [lower_set, upper_set, digit_set, symbol_set]) [] [] = (Done [], [])"
    using assms by (intro string_without_randomness) (simp_all add: lower_set_def)
  moreover have "append_drawn (random_string 1 [cs]) [] [] = (Done [], [])" if "cs \<noteq> []" for cs
    using that by (intro string_without_randomness) simp_all
  ultimately show ?thesis using assms
    by (simp add: generate_strong_password_def lower_set_def upper_set_def digit_set_def symbol_set_def)
qed

text \<open>Random hardware addresses are locally administered unicast addresses: of the first byte, bit 0 is clear and bit
  1 set, and every other bit of the six bytes is as drawn.\<close>

theorem mac_is_local_unicast:
  assumes "length mac = 6"
  shows "(\<forall>i < 8. bit (local_unicast mac ! 0) i = (i = 1 \<or> i \<noteq> 0 \<and> bit (mac ! 0) i)) \<and> tl (local_unicast mac) = tl mac"
proof -
  have "bit (local_unicast mac ! 0) i = (i = 1 \<or> i \<noteq> 0 \<and> bit (mac ! 0) i)" if "i < 8" for i
  proof -
    have b: "bit (0xFE :: 8 word) i = (i \<noteq> 0)" "bit (0x02 :: 8 word) i = (i = 1)"
      using that by (auto simp: numeral_eq_Suc less_Suc_eq)
    have "local_unicast mac ! 0 = (mac ! 0 AND 0xFE) OR 0x02" using assms by (simp add: local_unicast_def Let_def)
    then show ?thesis unfolding bit_and_iff bit_or_iff b by (auto simp only: bit_and_iff bit_or_iff b)
  qed
  moreover have "tl (local_unicast mac) = tl mac" by (cases mac) (simp_all add: local_unicast_def)
  ultimately show ?thesis by blast
qed

end
