(* ===== verification/Converter.thy ===== *)
theory Converter
  imports Tags StrTools
begin

text \<open>
  tools/converter/converter.go: the conversion of maps, structs, slices and basic values into a target, as
  \<open>reflect\<close> does it. A \<open>reflect.Value\<close> is a value of \<open>rval\<close> that knows its type; a settable
  target is passed in and returned as it is left, with an error or not. Types are finite trees: a struct does not contain
  itself, basic types are not named, and no field is embedded. Floats are rationals; rounding, \<open>%v\<close>
  of floats and composites, \<open>ParseFloat\<close> and the conversion of floats that are out of range are the record \<open>conv_lib\<close>.
\<close>

subsection \<open>Types and values\<close>

datatype width = WWord | W8 | W16 | W32 | W64

definition bits :: "width \<Rightarrow> nat" where
  "bits w = (case w of WWord \<Rightarrow> 64 | W8 \<Rightarrow> 8 | W16 \<Rightarrow> 16 | W32 \<Rightarrow> 32 | W64 \<Rightarrow> 64)"

text \<open>A field of a struct is its name, its \<open>validate\<close> tag, and its type or value.\<close>

datatype gtype =
    GString | GBool | GInt width | GUint width | GFloat32 | GFloat64 | GIface
  | GPtr gtype | GSlice gtype | GArray nat gtype | GMap gtype gtype | GStruct string "(string \<times> string \<times> gtype) list"

datatype rval =
    RStr string | RBool bool | RInt width int | RUint width int | RF32 rat | RF64 rat
  | RIface "rval option" | RPtr gtype "rval option" | RSlice gtype "rval list option" | RArray gtype "rval list"
  | RMap gtype gtype "(rval \<times> rval) list option" | RStruct string "(string \<times> string \<times> rval) list"

fun type_of :: "rval \<Rightarrow> gtype" where
  "type_of (RStr s) = GString"
| "type_of (RBool b) = GBool"
| "type_of (RInt w n) = GInt w"
| "type_of (RUint w n) = GUint w"
| "type_of (RF32 q) = GFloat32"
| "type_of (RF64 q) = GFloat64"
| "type_of (RIface v) = GIface"
| "type_of (RPtr t v) = GPtr t"
| "type_of (RSlice t vs) = GSlice t"
| "type_of (RArray t vs) = GArray (length vs) t"
| "type_of (RMap k t m) = GMap k t"
| "type_of (RStruct n fs) = GStruct n (map (\<lambda>(x, t, v). (x, t, type_of v)) fs)"

fun zero :: "gtype \<Rightarrow> rval" where
  "zero GString = RStr []"
| "zero GBool = RBool False"
| "zero (GInt w) = RInt w 0"
| "zero (GUint w) = RUint w 0"
| "zero GFloat32 = RF32 0"
| "zero GFloat64 = RF64 0"
| "zero GIface = RIface None"
| "zero (GPtr t) = RPtr t None"
| "zero (GSlice t) = RSlice t None"
| "zero (GArray n t) = RArray t (replicate n (zero t))"
| "zero (GMap k t) = RMap k t None"
| "zero (GStruct n fs) = RStruct n (map (\<lambda>(x, tg, t). (x, tg, zero t)) fs)"

definition fits_int :: "width \<Rightarrow> int \<Rightarrow> bool" where
  "fits_int w n = (- (2 ^ (bits w - 1)) \<le> n \<and> n < 2 ^ (bits w - 1))"

definition fits_uint :: "width \<Rightarrow> int \<Rightarrow> bool" where
  "fits_uint w n = (0 \<le> n \<and> n < 2 ^ bits w)"

definition cut_int :: "width \<Rightarrow> int \<Rightarrow> int" where
  "cut_int w n = (n + 2 ^ (bits w - 1)) mod 2 ^ bits w - 2 ^ (bits w - 1)"

definition cut_uint :: "width \<Rightarrow> int \<Rightarrow> int" where
  "cut_uint w n = n mod 2 ^ bits w"

text \<open>What a value is as a Go value: numbers fit their types, elements and fields have theirs.\<close>

fun well_typed :: "rval \<Rightarrow> bool" where
  "well_typed (RInt w n) = fits_int w n"
| "well_typed (RUint w n) = fits_uint w n"
| "well_typed (RIface v) = (case v of None \<Rightarrow> True | Some x \<Rightarrow> well_typed x \<and> type_of x \<noteq> GIface)"
| "well_typed (RPtr t v) = (case v of None \<Rightarrow> True | Some x \<Rightarrow> well_typed x \<and> type_of x = t)"
| "well_typed (RSlice t vs) = (case vs of None \<Rightarrow> True | Some xs \<Rightarrow> \<forall>x \<in> set xs. well_typed x \<and> type_of x = t)"
| "well_typed (RArray t vs) = (\<forall>x \<in> set vs. well_typed x \<and> type_of x = t)"
| "well_typed (RMap k t m) = (case m of None \<Rightarrow> True
     | Some xs \<Rightarrow> \<forall>p \<in> set xs. well_typed (fst p) \<and> type_of (fst p) = k \<and> well_typed (snd p) \<and> type_of (snd p) = t)"
| "well_typed (RStruct n fs) = (\<forall>f \<in> set fs. well_typed (snd (snd f)))"
| "well_typed _ = True"

subsection \<open>Options, errors, the library\<close>

record convert_options =
  co_strict :: bool
  co_ignore_empty :: bool
  co_case_insensitive :: bool
  co_validate :: bool
  co_mapping :: "(string, string) gomap"

definition new_converter :: convert_options where
  "new_converter = \<lparr>co_strict = False, co_ignore_empty = False, co_case_insensitive = False, co_validate = True, co_mapping = []\<rparr>"

text \<open>\<open>SetOptions(nil)\<close> changes nothing.\<close>

definition set_options :: "convert_options option \<Rightarrow> convert_options \<Rightarrow> convert_options" where
  "set_options o1 opt = (case o1 of None \<Rightarrow> opt | Some x \<Rightarrow> x)"

definition with_strict_mode :: "bool \<Rightarrow> convert_options \<Rightarrow> convert_options" where
  "with_strict_mode b opt = opt\<lparr>co_strict := b\<rparr>"

definition with_ignore_empty :: "bool \<Rightarrow> convert_options \<Rightarrow> convert_options" where
  "with_ignore_empty b opt = opt\<lparr>co_ignore_empty := b\<rparr>"

definition with_case_insensitive :: "bool \<Rightarrow> convert_options \<Rightarrow> convert_options" where
  "with_case_insensitive b opt = opt\<lparr>co_case_insensitive := b\<rparr>"

definition with_validate :: "bool \<Rightarrow> convert_options \<Rightarrow> convert_options" where
  "with_validate b opt = opt\<lparr>co_validate := b\<rparr>"

definition with_field_mapping :: "(string, string) gomap \<Rightarrow> convert_options \<Rightarrow> convert_options" where
  "with_field_mapping m opt = opt\<lparr>co_mapping := m\<rparr>"

record conv_lib =
  cl_ucd :: ucd
  cl_fold :: "nat \<Rightarrow> nat"
  cl_show :: "rval \<Rightarrow> string"
  cl_key :: "rval \<Rightarrow> string"
  cl_parse_float :: "string \<Rightarrow> rat option"
  cl_float64 :: "int \<Rightarrow> rat"
  cl_float32 :: "rat \<Rightarrow> rat"
  cl_oob_int :: "rat \<Rightarrow> int"
  cl_oob_uint :: "rat \<Rightarrow> int"
  cl_venv :: venv

datatype conv_msg =
    NotInTarget | CreateFailed tag_error | BetweenTwo | BetweenNumeric | SizeNumber num_error | NotValid string
  | BadText string gtype | NoConversion gtype gtype

text \<open>A \<open>ConvertError\<close> with its field, message and value, or an error of another kind.\<close>

datatype conv_error =
    FieldError string conv_msg rval
  | KeyNotString gtype | NotToStruct gtype | NotToArray gtype | NotToMap gtype | LengthMismatch nat nat
  | TargetNotStructPtr | TargetNotStruct | TargetNotSlicePtr | TargetNotSlice | SourceNotSlice | ElemNotStruct

type_synonym conv_result = "(rval \<times> conv_error option) outcome"
type_synonym conversion = "rval \<Rightarrow> rval \<Rightarrow> string \<Rightarrow> conv_result"

text \<open>\<open>isEmpty\<close>.\<close>

definition is_nil_or :: "'a option \<Rightarrow> ('a \<Rightarrow> bool) \<Rightarrow> bool" where
  "is_nil_or x P = (case x of None \<Rightarrow> True | Some y \<Rightarrow> P y)"

definition is_empty_value :: "rval \<Rightarrow> bool" where
  "is_empty_value v =
     (case v of
        RStr s \<Rightarrow> trim_space s = []
      | RInt w n \<Rightarrow> n = 0
      | RUint w n \<Rightarrow> n = 0
      | RF32 q \<Rightarrow> q = 0
      | RF64 q \<Rightarrow> q = 0
      | RBool b \<Rightarrow> \<not> b
      | RSlice t vs \<Rightarrow> is_nil_or vs (\<lambda>xs. xs = [])
      | RArray t vs \<Rightarrow> vs = []
      | RMap k t m \<Rightarrow> is_nil_or m (\<lambda>xs. xs = [])
      | RPtr t x \<Rightarrow> x = None
      | RIface x \<Rightarrow> x = None
      | RStruct n fs \<Rightarrow> False)"

text \<open>\<open>isExported\<close>, and what \<open>reflect\<close> lets be set.\<close>

definition is_exported :: "string \<Rightarrow> bool" where
  "is_exported n = (65 \<le> (of_char (hd n) :: nat) \<and> (of_char (hd n) :: nat) \<le> 90)"

definition can_set :: "conv_lib \<Rightarrow> string \<Rightarrow> bool" where
  "can_set l n = (runes n \<noteq> [] \<and> uc_upper (cl_ucd l) (hd (runes n)))"

subsection \<open>Names of fields\<close>

definition upper_first :: "conv_lib \<Rightarrow> string \<Rightarrow> string" where
  "upper_first l n = to_upper (cl_ucd l) (take 1 n) @ drop 1 n"

definition get_field_name :: "conv_lib \<Rightarrow> convert_options \<Rightarrow> string \<Rightarrow> string" where
  "get_field_name l opt n =
     (if co_case_insensitive opt then n
      else case gm_get (co_mapping opt) n of
        Some m \<Rightarrow> m
      | None \<Rightarrow> if n \<noteq> [] then upper_first l n else n)"

fun index_of :: "('a \<Rightarrow> bool) \<Rightarrow> 'a list \<Rightarrow> nat option" where
  "index_of P [] = None"
| "index_of P (x # xs) = (if P x then Some 0 else map_option Suc (index_of P xs))"

definition equal_fold :: "conv_lib \<Rightarrow> string \<Rightarrow> string \<Rightarrow> bool" where
  "equal_fold l s t = (map (cl_fold l) (runes s) = map (cl_fold l) (runes t))"

text \<open>The index of the field that is found.\<close>

definition find_field_by_name :: "conv_lib \<Rightarrow> convert_options \<Rightarrow> string list \<Rightarrow> string \<Rightarrow> nat option" where
  "find_field_by_name l opt names n =
     (case index_of (\<lambda>x. x = n) names of
        Some i \<Rightarrow> Some i
      | None \<Rightarrow>
        (case (if co_case_insensitive opt then index_of (\<lambda>x. equal_fold l x n) names else None) of
           Some i \<Rightarrow> Some i
         | None \<Rightarrow>
           (case (if n \<noteq> [] then index_of (\<lambda>x. x = upper_first l n) names else None) of
              Some i \<Rightarrow> Some i
            | None \<Rightarrow> index_of (\<lambda>x. x = to_upper (cl_ucd l) n) names)))"

subsection \<open>Basic types\<close>

definition is_numeric :: "gtype \<Rightarrow> bool" where
  "is_numeric t = (case t of GInt w \<Rightarrow> True | GUint w \<Rightarrow> True | GFloat32 \<Rightarrow> True | GFloat64 \<Rightarrow> True | _ \<Rightarrow> False)"

definition trunc_rat :: "rat \<Rightarrow> int" where
  "trunc_rat q = (if 0 \<le> q then \<lfloor>q\<rfloor> else \<lceil>q\<rceil>)"

definition float_to_int64 :: "conv_lib \<Rightarrow> rat \<Rightarrow> int" where
  "float_to_int64 l q = (if fits_int W64 (trunc_rat q) then trunc_rat q else cl_oob_int l q)"

definition float_to_uint64 :: "conv_lib \<Rightarrow> rat \<Rightarrow> int" where
  "float_to_uint64 l q = (if fits_uint W64 (trunc_rat q) then trunc_rat q else cl_oob_uint l q)"

text \<open>\<open>ConvertibleTo\<close> and \<open>Convert\<close> between numbers; integers keep their low bits.\<close>

definition convert_number :: "conv_lib \<Rightarrow> rval \<Rightarrow> gtype \<Rightarrow> rval option" where
  "convert_number l v t =
     (case (v, t) of
        (RInt _ n, GInt w) \<Rightarrow> Some (RInt w (cut_int w n))
      | (RUint _ n, GInt w) \<Rightarrow> Some (RInt w (cut_int w n))
      | (RF32 q, GInt w) \<Rightarrow> Some (RInt w (cut_int w (float_to_int64 l q)))
      | (RF64 q, GInt w) \<Rightarrow> Some (RInt w (cut_int w (float_to_int64 l q)))
      | (RInt _ n, GUint w) \<Rightarrow> Some (RUint w (cut_uint w n))
      | (RUint _ n, GUint w) \<Rightarrow> Some (RUint w (cut_uint w n))
      | (RF32 q, GUint w) \<Rightarrow> Some (RUint w (cut_uint w (float_to_uint64 l q)))
      | (RF64 q, GUint w) \<Rightarrow> Some (RUint w (cut_uint w (float_to_uint64 l q)))
      | (RInt _ n, GFloat32) \<Rightarrow> Some (RF32 (cl_float32 l (cl_float64 l n)))
      | (RUint _ n, GFloat32) \<Rightarrow> Some (RF32 (cl_float32 l (cl_float64 l n)))
      | (RF32 q, GFloat32) \<Rightarrow> Some (RF32 q)
      | (RF64 q, GFloat32) \<Rightarrow> Some (RF32 (cl_float32 l q))
      | (RInt _ n, GFloat64) \<Rightarrow> Some (RF64 (cl_float64 l n))
      | (RUint _ n, GFloat64) \<Rightarrow> Some (RF64 (cl_float64 l n))
      | (RF32 q, GFloat64) \<Rightarrow> Some (RF64 q)
      | (RF64 q, GFloat64) \<Rightarrow> Some (RF64 q)
      | _ \<Rightarrow> None)"

text \<open>The other conversions of \<open>Convert\<close>: anything into an interface, bytes and runes into a string.\<close>

definition bytes_of :: "rval list option \<Rightarrow> string" where
  "bytes_of vs = (case vs of None \<Rightarrow> [] | Some xs \<Rightarrow> map (\<lambda>x. case x of RUint w n \<Rightarrow> char_of (nat n) | _ \<Rightarrow> CHR 0x00) xs)"

definition runes_text :: "rval list option \<Rightarrow> string" where
  "runes_text vs = (case vs of None \<Rightarrow> []
     | Some xs \<Rightarrow> concat (map (\<lambda>x. case x of RInt w n \<Rightarrow> encode_rune (if n < 0 then 65533 else nat n) | _ \<Rightarrow> []) xs))"

definition convertible :: "conv_lib \<Rightarrow> rval \<Rightarrow> gtype \<Rightarrow> rval option" where
  "convertible l v t =
     (case (v, t) of
        (_, GIface) \<Rightarrow> Some (RIface (Some v))
      | (RSlice (GUint W8) vs, GString) \<Rightarrow> Some (RStr (bytes_of vs))
      | (RSlice (GInt W32) vs, GString) \<Rightarrow> Some (RStr (runes_text vs))
      | _ \<Rightarrow> convert_number l v t)"

definition show_value :: "conv_lib \<Rightarrow> rval \<Rightarrow> string" where
  "show_value l v =
     (case v of
        RStr s \<Rightarrow> s
      | RBool b \<Rightarrow> if b then ''true'' else ''false''
      | RInt w n \<Rightarrow> dec_of n
      | RUint w n \<Rightarrow> dec_of n
      | _ \<Rightarrow> cl_show l v)"

definition parse_bool :: "string \<Rightarrow> bool option" where
  "parse_bool s =
     (if s \<in> {''1'', ''t'', ''T'', ''true'', ''TRUE'', ''True''} then Some True
      else if s \<in> {''0'', ''f'', ''F'', ''false'', ''FALSE'', ''False''} then Some False else None)"

definition parse_uint64 :: "string \<Rightarrow> int option" where
  "parse_uint64 s = (case parse_uint_in 10 s of POk n \<Rightarrow> Some (int n) | _ \<Rightarrow> None)"

text \<open>The conversions written out by hand, reached when \<open>Convert\<close> does not apply.\<close>

definition convert_by_hand :: "conv_lib \<Rightarrow> rval \<Rightarrow> gtype \<Rightarrow> conv_msg + rval" where
  "convert_by_hand l v t =
     (case (t, v) of
        (GString, _) \<Rightarrow> Inr (RStr (show_value l v))
      | (GInt w, RStr s) \<Rightarrow> (case parse_int s 10 of Inl e \<Rightarrow> Inl (BadText s t) | Inr n \<Rightarrow> Inr (RInt w (cut_int w n)))
      | (GInt w, RBool b) \<Rightarrow> Inr (RInt w (if b then 1 else 0))
      | (GUint w, RStr s) \<Rightarrow> (case parse_uint64 s of None \<Rightarrow> Inl (BadText s t) | Some n \<Rightarrow> Inr (RUint w (cut_uint w n)))
      | (GUint w, RBool b) \<Rightarrow> Inr (RUint w (if b then 1 else 0))
      | (GFloat32, RStr s) \<Rightarrow> (case cl_parse_float l s of None \<Rightarrow> Inl (BadText s t) | Some q \<Rightarrow> Inr (RF32 (cl_float32 l q)))
      | (GFloat32, RBool b) \<Rightarrow> Inr (RF32 (if b then 1 else 0))
      | (GFloat64, RStr s) \<Rightarrow> (case cl_parse_float l s of None \<Rightarrow> Inl (BadText s t) | Some q \<Rightarrow> Inr (RF64 q))
      | (GFloat64, RBool b) \<Rightarrow> Inr (RF64 (if b then 1 else 0))
      | (GBool, RStr s) \<Rightarrow> (case parse_bool s of None \<Rightarrow> Inl (BadText s t) | Some b \<Rightarrow> Inr (RBool b))
      | (GBool, RInt w n) \<Rightarrow> Inr (RBool (n \<noteq> 0))
      | (GBool, RUint w n) \<Rightarrow> Inr (RBool (n \<noteq> 0))
      | (GBool, RF32 q) \<Rightarrow> Inr (RBool (q \<noteq> 0))
      | (GBool, RF64 q) \<Rightarrow> Inr (RBool (q \<noteq> 0))
      | _ \<Rightarrow> Inl (NoConversion (type_of v) t))"

definition convert_basic_type :: "conv_lib \<Rightarrow> rval \<Rightarrow> gtype \<Rightarrow> conv_msg + rval" where
  "convert_basic_type l v t =
     (if type_of v = t then Inr v
      else case v of
        RIface None \<Rightarrow> Inr (zero t)
      | _ \<Rightarrow>
        (let u = (case v of RIface (Some x) \<Rightarrow> x | _ \<Rightarrow> v) in
         if type_of u = t then Inr u
         else if (is_numeric (type_of u) \<and> t = GString) \<or> (type_of u = GString \<and> is_numeric t) then convert_by_hand l u t
         else case convertible l u t of
           Some x \<Rightarrow> Inr x
         | None \<Rightarrow> convert_by_hand l u t))"

definition convert_to_basic :: "conv_lib \<Rightarrow> convert_options \<Rightarrow> gtype \<Rightarrow> conversion" where
  "convert_to_basic l opt t src tgt path =
     (if co_ignore_empty opt \<and> is_empty_value src then Done (tgt, None)
      else case convert_basic_type l src t of
        Inl m \<Rightarrow> Done (tgt, Some (FieldError path m src))
      | Inr v \<Rightarrow> Done (v, None))"

subsection \<open>Validation\<close>

text \<open>The dynamic value a validator sees.\<close>

fun dyn :: "rval \<Rightarrow> tval" where
  "dyn (RStr s) = TString s"
| "dyn (RBool b) = TBool b"
| "dyn (RInt w n) = (case w of WWord \<Rightarrow> TInt n | W8 \<Rightarrow> TInt8 n | W16 \<Rightarrow> TInt16 n | W32 \<Rightarrow> TInt32 n | W64 \<Rightarrow> TInt64 n)"
| "dyn (RUint w n) = (case w of WWord \<Rightarrow> TUint n | W8 \<Rightarrow> TUint8 n | W16 \<Rightarrow> TUint16 n | W32 \<Rightarrow> TUint32 n | W64 \<Rightarrow> TUint64 n)"
| "dyn (RF32 q) = TFloat32 q"
| "dyn (RF64 q) = TFloat64 q"
| "dyn (RIface v) = (case v of None \<Rightarrow> TNil | Some x \<Rightarrow> dyn x)"
| "dyn (RSlice t vs) =
     (let xs = (case vs of None \<Rightarrow> [] | Some ys \<Rightarrow> map dyn ys) in
      if t = GString then TStrings (map (\<lambda>x. case x of TString s \<Rightarrow> s | _ \<Rightarrow> []) xs)
      else if t = GIface then TAnys xs else TSlice xs)"
| "dyn (RArray t vs) = TSlice (map dyn vs)"
| "dyn _ = TOther"

definition tag_check :: "(tag_error + 'a) \<Rightarrow> ('a \<Rightarrow> validator) \<Rightarrow> conv_msg + validator option" where
  "tag_check r f = (case r of Inl e \<Rightarrow> Inl (CreateFailed e) | Inr x \<Rightarrow> Inr (Some (f x)))"

definition create_validator :: "tag \<Rightarrow> conv_msg + validator option" where
  "create_validator t =
     (let n = tag_name t; values = str_split '','' (tag_value t) in
      if n = ''required'' then Inr (Some VRequired)
      else if n = ''min'' then tag_check (parse_min (Some t)) VMin
      else if n = ''max'' then tag_check (parse_max (Some t)) VMax
      else if n = ''length'' then tag_check (parse_length (Some t)) VLength
      else if n = ''email'' then Inr (Some VEmail)
      else if n = ''ip'' then Inr (Some VIP)
      else if n = ''ipv4'' then Inr (Some VIPv4)
      else if n = ''ipv6'' then Inr (Some VIPv6)
      else if n = ''url'' then Inr (Some VURL)
      else if n = ''json'' then Inr (Some VJSON)
      else if n = ''integer'' then Inr (Some VInteger)
      else if n = ''float'' then Inr (Some VFloat)
      else if n = ''boolean'' then Inr (Some VBoolean)
      else if n = ''regex'' then tag_check (parse_pattern (Some t)) VRegex
      else if n = ''not-regex'' then tag_check (parse_pattern (Some t)) VNotRegex
      else if n = ''in'' then Inr (Some (VIn values))
      else if n = ''not-in'' then Inr (Some (VNotIn values))
      else if n = ''between'' then
        (if length values \<noteq> 2 then Inl BetweenTwo
         else case (atoi (values ! 0), atoi (values ! 1)) of
           (Inr lo, Inr hi) \<Rightarrow> Inr (Some (VBetween lo hi))
         | _ \<Rightarrow> Inl BetweenNumeric)
      else if n = ''size'' then (case atoi (tag_value t) of Inl e \<Rightarrow> Inl (SizeNumber e) | Inr k \<Rightarrow> Inr (Some (VSize k)))
      else Inr None)"

type_synonym check_result = "conv_error option outcome"

fun validate_tags :: "conv_lib \<Rightarrow> tag list \<Rightarrow> rval \<Rightarrow> string \<Rightarrow> check_result" where
  "validate_tags l [] v path = Done None"
| "validate_tags l (t # ts) v path =
     (if is_ignore_tag (tag_original t) then validate_tags l ts v path
      else case create_validator t of
        Inl m \<Rightarrow> Done (Some (FieldError path m v))
      | Inr None \<Rightarrow> validate_tags l ts v path
      | Inr (Some w) \<Rightarrow>
          (case validate (cl_venv l) w (dyn v) of
             Done None \<Rightarrow> validate_tags l ts v path
           | Done (Some e) \<Rightarrow> Done (Some (FieldError path (NotValid e) v))
           | Panic p \<Rightarrow> Panic p
           | Blocked \<Rightarrow> Blocked))"

definition validate_field :: "conv_lib \<Rightarrow> convert_options \<Rightarrow> string \<Rightarrow> rval \<Rightarrow> string \<Rightarrow> check_result" where
  "validate_field l opt tg v path =
     (if tg = [] then Done None
      else if co_ignore_empty opt \<and> is_empty_value v then Done None
      else validate_tags l (parse_all tg) v path)"

fun validate_fields :: "conv_lib \<Rightarrow> convert_options \<Rightarrow> (string \<times> string \<times> rval) list \<Rightarrow> string \<Rightarrow> check_result" where
  "validate_fields l opt [] path = Done None"
| "validate_fields l opt ((n, tg, v) # fs) path =
     (if \<not> is_exported n then validate_fields l opt fs path
      else case validate_field l opt tg v (path @ n) of
        Done None \<Rightarrow> validate_fields l opt fs path
      | r \<Rightarrow> r)"

text \<open>A struct whose fields are all empty is not validated.\<close>

definition validate_struct :: "conv_lib \<Rightarrow> convert_options \<Rightarrow> (string \<times> string \<times> rval) list \<Rightarrow> string \<Rightarrow> check_result" where
  "validate_struct l opt fs path =
     (if \<not> co_validate opt then Done None
      else if list_all (\<lambda>f. is_empty_value (snd (snd f))) fs then Done None
      else validate_fields l opt fs path)"

subsection \<open>Structs, slices, maps and pointers\<close>

text \<open>The function argument \<open>conv\<close> is \<open>convertValue\<close> at the type of a field, element or pointed-to value.\<close>

definition map_done :: "('a \<Rightarrow> 'b) \<Rightarrow> ('a \<times> conv_error option) outcome \<Rightarrow> ('b \<times> conv_error option) outcome" where
  "map_done f r = (case r of Done (x, e) \<Rightarrow> Done (f x, e) | Panic p \<Rightarrow> Panic p | Blocked \<Rightarrow> Blocked)"

type_synonym vfield = "string \<times> string \<times> rval"

definition set_field :: "conv_lib \<Rightarrow> conversion \<Rightarrow> vfield \<Rightarrow> rval \<Rightarrow> string \<Rightarrow> (vfield \<times> conv_error option) outcome" where
  "set_field l conv f v path =
     (case f of (n, tg, x) \<Rightarrow>
        if can_set l n then map_done (\<lambda>x'. (n, tg, x')) (conv v x path) else Done (f, None))"

fun struct_loop :: "conv_lib \<Rightarrow> convert_options \<Rightarrow> conversion list \<Rightarrow> (string \<times> rval) list \<Rightarrow> vfield list \<Rightarrow> string \<Rightarrow>
    (vfield list \<times> conv_error option) outcome" where
  "struct_loop l opt convs [] fs path = Done (fs, None)"
| "struct_loop l opt convs ((key, v) # kvs) fs path =
     (let n = get_field_name l opt key in
      case find_field_by_name l opt (map fst fs) n of
        None \<Rightarrow> if co_strict opt then Done (fs, Some (FieldError (path @ n) NotInTarget v))
                else struct_loop l opt convs kvs fs path
      | Some i \<Rightarrow>
          if co_ignore_empty opt \<and> is_empty_value v then struct_loop l opt convs kvs fs path
          else case set_field l (convs ! i) (fs ! i) v (path @ n @ ''.'') of
            Done (f, None) \<Rightarrow> struct_loop l opt convs kvs (fs[i := f]) path
          | Done (f, Some e) \<Rightarrow> Done (fs[i := f], Some e)
          | Panic p \<Rightarrow> Panic p
          | Blocked \<Rightarrow> Blocked)"

text \<open>The names and values a source offers: the entries of a map in the order they are ranged over, or the exported fields.\<close>

definition struct_source :: "rval \<Rightarrow> conv_error + (string \<times> rval) list" where
  "struct_source src =
     (case src of
        RMap k t m \<Rightarrow>
          if k \<noteq> GString then Inl (KeyNotString k)
          else Inr (case m of None \<Rightarrow> [] | Some kvs \<Rightarrow> map (\<lambda>(a, v). (case a of RStr s \<Rightarrow> s | _ \<Rightarrow> [], v)) kvs)
      | RStruct n fs \<Rightarrow> Inr (map (\<lambda>(x, tg, v). (x, v)) (filter (\<lambda>f. is_exported (fst f)) fs))
      | _ \<Rightarrow> Inl (NotToStruct (type_of src)))"

definition convert_to_struct :: "conv_lib \<Rightarrow> convert_options \<Rightarrow> conversion list \<Rightarrow> conversion" where
  "convert_to_struct l opt convs src tgt path =
     (case tgt of
        RStruct n fs \<Rightarrow>
          (case struct_source src of
             Inl e \<Rightarrow> Done (tgt, Some e)
           | Inr kvs \<Rightarrow>
               (case struct_loop l opt convs kvs fs path of
                  Done (fs', None) \<Rightarrow>
                    (case validate_struct l opt fs' path of
                       Done e \<Rightarrow> Done (RStruct n fs', e)
                     | Panic p \<Rightarrow> Panic p
                     | Blocked \<Rightarrow> Blocked)
                | Done (fs', Some e) \<Rightarrow> Done (RStruct n fs', Some e)
                | Panic p \<Rightarrow> Panic p
                | Blocked \<Rightarrow> Blocked))
      | _ \<Rightarrow> Done (tgt, None))"

definition elements_of :: "rval \<Rightarrow> rval list option" where
  "elements_of v =
     (case v of RSlice t None \<Rightarrow> Some [] | RSlice t (Some xs) \<Rightarrow> Some xs | RArray t xs \<Rightarrow> Some xs | _ \<Rightarrow> None)"

text \<open>An element that is a pointer: a nil target is allocated, a nil source leaves the target, others are followed.\<close>

definition alloc_elem :: "rval \<Rightarrow> rval" where
  "alloc_elem v = (case v of RPtr t None \<Rightarrow> RPtr t (Some (zero t)) | _ \<Rightarrow> v)"

definition deref_source :: "rval \<Rightarrow> rval option" where
  "deref_source v = (case v of RPtr t x \<Rightarrow> x | _ \<Rightarrow> Some v)"

definition conv_elem :: "conversion \<Rightarrow> conversion" where
  "conv_elem conv src tgt path =
     (case tgt of
        RPtr t (Some x) \<Rightarrow> map_done (\<lambda>x'. RPtr t (Some x')) (conv src x path)
      | _ \<Rightarrow> conv src tgt path)"

definition pointer_step :: "conversion \<Rightarrow> conversion" where
  "pointer_step conv src tgt path =
     (case deref_source src of None \<Rightarrow> Done (alloc_elem tgt, None) | Some s \<Rightarrow> conv_elem conv s (alloc_elem tgt) path)"

definition array_step :: "conversion \<Rightarrow> conversion" where
  "array_step conv src tgt path =
     (case src of
        RIface None \<Rightarrow> Done (tgt, None)
      | RIface (Some x) \<Rightarrow> pointer_step conv x tgt path
      | _ \<Rightarrow> pointer_step conv src tgt path)"

fun array_loop :: "(nat \<Rightarrow> rval \<Rightarrow> rval \<Rightarrow> conv_result) \<Rightarrow> nat \<Rightarrow> rval list \<Rightarrow> rval list \<Rightarrow> (rval list \<times> conv_error option) outcome" where
  "array_loop step i (s # ss) (t # ts) =
     (case step i s t of
        Done (t', None) \<Rightarrow> map_done (\<lambda>ts'. t' # ts') (array_loop step (Suc i) ss ts)
      | Done (t', Some e) \<Rightarrow> Done (t' # ts, Some e)
      | Panic p \<Rightarrow> Panic p
      | Blocked \<Rightarrow> Blocked)"
| "array_loop step i _ ts = Done (ts, None)"

definition make_slice :: "rval \<Rightarrow> nat \<Rightarrow> rval" where
  "make_slice v n = (case v of RSlice t None \<Rightarrow> RSlice t (Some (replicate n (zero t))) | _ \<Rightarrow> v)"

definition fill_slice :: "(nat \<Rightarrow> rval \<Rightarrow> rval \<Rightarrow> conv_result) \<Rightarrow> rval list \<Rightarrow> rval \<Rightarrow> conv_result" where
  "fill_slice step srcs tgt =
     (case make_slice tgt (length srcs) of
        RSlice t (Some ts) \<Rightarrow>
          if length ts \<noteq> length srcs then Done (RSlice t (Some ts), Some (LengthMismatch (length srcs) (length ts)))
          else map_done (\<lambda>ts'. RSlice t (Some ts')) (array_loop step 0 srcs ts)
      | v \<Rightarrow> Done (v, None))"

text \<open>\<open>IsNil\<close> of an array panics.\<close>

definition convert_to_array :: "conversion \<Rightarrow> conversion" where
  "convert_to_array conv src tgt path =
     (case elements_of src of
        None \<Rightarrow> Done (tgt, Some (NotToArray (type_of src)))
      | Some srcs \<Rightarrow>
          (case tgt of
             RArray t xs \<Rightarrow> Panic ''reflect: call of reflect.Value.IsNil on array Value''
           | _ \<Rightarrow> fill_slice (\<lambda>i s t. array_step conv s t (path @ ''['' @ dec_nat i @ ''].'')) srcs tgt))"

definition key_text :: "conv_lib \<Rightarrow> rval \<Rightarrow> string" where
  "key_text l k = (case k of RStr s \<Rightarrow> s | _ \<Rightarrow> cl_key l k)"

definition assign_key :: "rval \<Rightarrow> gtype \<Rightarrow> rval option" where
  "assign_key k t = (if type_of k = t then Some k else if t = GIface then Some (RIface (Some k)) else None)"

fun map_loop :: "conv_lib \<Rightarrow> convert_options \<Rightarrow> conversion \<Rightarrow> gtype \<Rightarrow> gtype \<Rightarrow> (rval \<times> rval) list \<Rightarrow> (rval, rval) gomap \<Rightarrow> string \<Rightarrow>
    ((rval, rval) gomap \<times> conv_error option) outcome" where
  "map_loop l opt conv kt t [] m path = Done (m, None)"
| "map_loop l opt conv kt t ((k, v) # kvs) m path =
     (if co_ignore_empty opt \<and> is_empty_value v then map_loop l opt conv kt t kvs m path
      else case conv v (zero t) (path @ key_text l k @ ''.'') of
        Done (x, None) \<Rightarrow>
          (case assign_key k kt of
             None \<Rightarrow> Panic ''reflect.Value.SetMapIndex: value of wrong type''
           | Some k' \<Rightarrow> map_loop l opt conv kt t kvs (gm_put k' x m) path)
      | Done (x, Some e) \<Rightarrow> Done (m, Some e)
      | Panic p \<Rightarrow> Panic p
      | Blocked \<Rightarrow> Blocked)"

definition convert_to_map :: "conv_lib \<Rightarrow> convert_options \<Rightarrow> conversion \<Rightarrow> conversion" where
  "convert_to_map l opt conv src tgt path =
     (case (src, tgt) of
        (RMap _ _ sm, RMap kt t m) \<Rightarrow>
          map_done (\<lambda>m'. RMap kt t (Some m'))
            (map_loop l opt conv kt t (case sm of None \<Rightarrow> [] | Some kvs \<Rightarrow> kvs) (case m of None \<Rightarrow> [] | Some kvs \<Rightarrow> kvs) path)
      | _ \<Rightarrow> Done (tgt, Some (NotToMap (type_of src))))"

definition convert_to_ptr :: "conversion \<Rightarrow> conversion" where
  "convert_to_ptr conv src tgt path =
     (case tgt of
        RPtr t x \<Rightarrow> map_done (\<lambda>y. RPtr t (Some y)) (conv src (case x of None \<Rightarrow> zero t | Some y \<Rightarrow> y) path)
      | _ \<Rightarrow> Done (tgt, None))"

text \<open>The source of \<open>convertValue\<close> once an interface is opened; None when there is nothing to convert.\<close>

definition open_source :: "rval \<Rightarrow> rval option" where
  "open_source src =
     (case (case src of RIface x \<Rightarrow> x | _ \<Rightarrow> Some src) of
        Some (RPtr t None) \<Rightarrow> None
      | r \<Rightarrow> r)"

definition with_source :: "conversion \<Rightarrow> conversion" where
  "with_source conv src tgt path = (case open_source src of None \<Rightarrow> Done (tgt, None) | Some s \<Rightarrow> conv s tgt path)"

fun convert_value :: "conv_lib \<Rightarrow> convert_options \<Rightarrow> gtype \<Rightarrow> conversion" where
  "convert_value l opt (GStruct n fs) =
     with_source (convert_to_struct l opt (map (\<lambda>(x, tg, t). convert_value l opt t) fs))"
| "convert_value l opt (GSlice t) =
     with_source (convert_to_array (case t of GPtr u \<Rightarrow> convert_value l opt u | _ \<Rightarrow> convert_value l opt t))"
| "convert_value l opt (GArray n t) =
     with_source (convert_to_array (case t of GPtr u \<Rightarrow> convert_value l opt u | _ \<Rightarrow> convert_value l opt t))"
| "convert_value l opt (GMap k t) = with_source (convert_to_map l opt (convert_value l opt t))"
| "convert_value l opt (GPtr t) = with_source (convert_to_ptr (convert_value l opt t))"
| "convert_value l opt t = with_source (convert_to_basic l opt t)"

subsection \<open>The operations\<close>

definition convert_to :: "conv_lib \<Rightarrow> convert_options \<Rightarrow> rval \<Rightarrow> rval \<Rightarrow> conv_result" where
  "convert_to l opt src target =
     (case target of
        RPtr t (Some (RStruct n fs)) \<Rightarrow>
          map_done (\<lambda>v. RPtr t (Some v)) (convert_value l opt (type_of (RStruct n fs)) src (RStruct n fs) [])
      | _ \<Rightarrow> Done (target, Some TargetNotStructPtr))"

text \<open>The type of the target, a pointer followed once; \<open>Kind\<close> of the type of nil panics.\<close>

definition target_type :: "rval \<Rightarrow> gtype outcome" where
  "target_type target =
     (case (case target of RIface x \<Rightarrow> x | _ \<Rightarrow> Some target) of
        None \<Rightarrow> Panic ''runtime error: invalid memory address or nil pointer dereference''
      | Some v \<Rightarrow> Done (case type_of v of GPtr t \<Rightarrow> t | t \<Rightarrow> t))"

text \<open>A new object, or nil with an error.\<close>

type_synonym new_result = "(rval option \<times> conv_error option) outcome"

definition new_of :: "(rval \<Rightarrow> rval) \<Rightarrow> conv_result \<Rightarrow> new_result" where
  "new_of f r =
     (case r of
        Done (v, None) \<Rightarrow> Done (Some (f v), None)
      | Done (v, Some e) \<Rightarrow> Done (None, Some e)
      | Panic p \<Rightarrow> Panic p
      | Blocked \<Rightarrow> Blocked)"

definition convert_new :: "conv_lib \<Rightarrow> convert_options \<Rightarrow> rval \<Rightarrow> rval \<Rightarrow> new_result" where
  "convert_new l opt src target =
     (case target_type target of
        Done (GStruct n fs) \<Rightarrow>
          new_of (\<lambda>v. RPtr (GStruct n fs) (Some v)) (convert_value l opt (GStruct n fs) src (zero (GStruct n fs)) [])
      | Done t \<Rightarrow> Done (None, Some TargetNotStruct)
      | Panic p \<Rightarrow> Panic p
      | Blocked \<Rightarrow> Blocked)"

definition map_to_struct :: "conv_lib \<Rightarrow> convert_options \<Rightarrow> rval \<Rightarrow> rval \<Rightarrow> conv_result" where
  "map_to_struct = convert_to"

definition map_to_struct_new :: "conv_lib \<Rightarrow> convert_options \<Rightarrow> rval \<Rightarrow> rval \<Rightarrow> new_result" where
  "map_to_struct_new = convert_new"

definition struct_to_struct :: "conv_lib \<Rightarrow> convert_options \<Rightarrow> rval \<Rightarrow> rval \<Rightarrow> conv_result" where
  "struct_to_struct = convert_to"

definition struct_to_struct_new :: "conv_lib \<Rightarrow> convert_options \<Rightarrow> rval \<Rightarrow> rval \<Rightarrow> new_result" where
  "struct_to_struct_new = convert_new"

definition elem_type :: "gtype \<Rightarrow> gtype" where
  "elem_type t = (case t of GPtr u \<Rightarrow> u | _ \<Rightarrow> t)"

definition no_slice :: "rval \<Rightarrow> bool" where
  "no_slice target = (case target of RPtr t (Some (RSlice u xs)) \<Rightarrow> False | _ \<Rightarrow> True)"

definition into_slice :: "(nat \<Rightarrow> gtype \<Rightarrow> rval \<Rightarrow> rval \<Rightarrow> conv_result) \<Rightarrow> rval list \<Rightarrow> rval \<Rightarrow> conv_result" where
  "into_slice step srcs target =
     (case target of
        RPtr t (Some (RSlice u xs)) \<Rightarrow> map_done (\<lambda>v. RPtr t (Some v)) (fill_slice (\<lambda>i. step i (elem_type u)) srcs (RSlice u xs))
      | _ \<Rightarrow> Done (target, Some TargetNotSlicePtr))"

definition map_array_to_struct_array :: "conv_lib \<Rightarrow> convert_options \<Rightarrow> rval list \<Rightarrow> rval \<Rightarrow> conv_result" where
  "map_array_to_struct_array l opt srcs target =
     into_slice (\<lambda>i t s x. conv_elem (convert_value l opt t) s (alloc_elem x) []) srcs target"

definition struct_array_to_struct_array :: "conv_lib \<Rightarrow> convert_options \<Rightarrow> rval \<Rightarrow> rval \<Rightarrow> conv_result" where
  "struct_array_to_struct_array l opt src target =
     (if no_slice target then Done (target, Some TargetNotSlicePtr)
      else case elements_of src of
        None \<Rightarrow> Done (target, Some SourceNotSlice)
      | Some srcs \<Rightarrow> into_slice (\<lambda>i t s x. pointer_step (convert_value l opt t) s x []) srcs target)"

text \<open>New slices: an element is converted into a fresh struct, whose value or address is stored.\<close>

fun new_elems :: "(rval \<Rightarrow> rval \<Rightarrow> conv_result) \<Rightarrow> (rval \<Rightarrow> rval) \<Rightarrow> gtype \<Rightarrow> rval \<Rightarrow> rval list \<Rightarrow>
    (rval list \<times> conv_error option) outcome" where
  "new_elems conv store t blank [] = Done ([], None)"
| "new_elems conv store t blank (s # ss) =
     (case deref_source s of
        None \<Rightarrow> map_done (\<lambda>vs. blank # vs) (new_elems conv store t blank ss)
      | Some x \<Rightarrow>
          (case conv x (zero t) of
             Done (v, None) \<Rightarrow> map_done (\<lambda>vs. store v # vs) (new_elems conv store t blank ss)
           | Done (v, Some e) \<Rightarrow> Done ([], Some e)
           | Panic p \<Rightarrow> Panic p
           | Blocked \<Rightarrow> Blocked))"

definition new_slice :: "conv_lib \<Rightarrow> convert_options \<Rightarrow> conv_error + rval list \<Rightarrow> rval \<Rightarrow> new_result" where
  "new_slice l opt srcs target =
     (case target_type target of
        Done (GSlice u) \<Rightarrow>
          (case elem_type u of
             GStruct n fs \<Rightarrow>
               (case srcs of
                  Inl e \<Rightarrow> Done (None, Some e)
                | Inr ss \<Rightarrow>
                    new_of (\<lambda>v. v) (map_done (\<lambda>vs. RSlice u (Some vs))
                      (new_elems (\<lambda>s x. convert_value l opt (GStruct n fs) s x [])
                         (\<lambda>v. if u = GStruct n fs then v else RPtr (GStruct n fs) (Some v)) (GStruct n fs) (zero u) ss)))
           | _ \<Rightarrow> Done (None, Some ElemNotStruct))
      | Done t \<Rightarrow> Done (None, Some TargetNotSlice)
      | Panic p \<Rightarrow> Panic p
      | Blocked \<Rightarrow> Blocked)"

definition map_array_to_struct_array_new :: "conv_lib \<Rightarrow> convert_options \<Rightarrow> rval list \<Rightarrow> rval \<Rightarrow> new_result" where
  "map_array_to_struct_array_new l opt srcs target = new_slice l opt (Inr srcs) target"

definition struct_array_to_struct_array_new :: "conv_lib \<Rightarrow> convert_options \<Rightarrow> rval \<Rightarrow> rval \<Rightarrow> new_result" where
  "struct_array_to_struct_array_new l opt src target =
     new_slice l opt (case elements_of src of None \<Rightarrow> Inl SourceNotSlice | Some ss \<Rightarrow> Inr ss) target"

subsection \<open>Numbers keep their value exactly when they fit\<close>

lemma bits_pos: "0 < bits w" by (cases w) (simp_all add: bits_def)

lemma half_bits: "2 ^ bits w = 2 * (2 ^ (bits w - 1) :: int)"
  using bits_pos [of w] by (cases "bits w") simp_all

lemma fits_cut_int: "fits_int w (cut_int w n)"
proof -
  have "0 \<le> (n + 2 ^ (bits w - 1)) mod (2 ^ bits w :: int)" "(n + 2 ^ (bits w - 1)) mod (2 ^ bits w :: int) < 2 ^ bits w" by simp_all
  then show ?thesis unfolding fits_int_def cut_int_def half_bits by linarith
qed

lemma fits_cut_uint: "fits_uint w (cut_uint w n)"
  by (simp add: fits_uint_def cut_uint_def)

lemma cut_int_same: "cut_int w n = n \<longleftrightarrow> fits_int w n"
proof
  assume "fits_int w n"
  then have "0 \<le> n + 2 ^ (bits w - 1)" "n + 2 ^ (bits w - 1) < 2 ^ bits w" unfolding fits_int_def half_bits by linarith+
  then show "cut_int w n = n" by (simp add: cut_int_def)
qed (metis fits_cut_int)

lemma cut_uint_same: "cut_uint w n = n \<longleftrightarrow> fits_uint w n"
  by (metis fits_cut_uint cut_uint_def fits_uint_def mod_pos_pos_trivial)

definition int_of :: "rval \<Rightarrow> int option" where
  "int_of v = (case v of RInt w n \<Rightarrow> Some n | RUint w n \<Rightarrow> Some n | _ \<Rightarrow> None)"

definition holds_int :: "gtype \<Rightarrow> int \<Rightarrow> bool" where
  "holds_int t n = (case t of GInt w \<Rightarrow> fits_int w n | GUint w \<Rightarrow> fits_uint w n | _ \<Rightarrow> False)"

definition is_integer :: "gtype \<Rightarrow> bool" where
  "is_integer t = (case t of GInt w \<Rightarrow> True | GUint w \<Rightarrow> True | _ \<Rightarrow> False)"

text \<open>Converting an integer into an integer type never reports an overflow: the result has the value of the source
  exactly when the target type can hold it, and otherwise silently another value; the decimal text of an
  integer is cut down in the same way.\<close>

theorem integer_conversion_exact:
  assumes "well_typed v" "int_of v = Some n" "is_integer t"
  shows "(\<exists>x m. convert_basic_type l v t = Inr x \<and> type_of x = t \<and> int_of x = Some m \<and> (m = n \<longleftrightarrow> holds_int t n)) \<and>
         (fits64 k \<longrightarrow> convert_basic_type l (RStr (dec_of k)) (GInt w) = Inr (RInt w (cut_int w k)))"
proof (rule conjI)
  show "fits64 k \<longrightarrow> convert_basic_type l (RStr (dec_of k)) (GInt w) = Inr (RInt w (cut_int w k))"
    using atoi_dec_of [of k]
    by (simp add: convert_basic_type_def is_numeric_def convert_by_hand_def atoi_def Let_def)
  show "\<exists>x m. convert_basic_type l v t = Inr x \<and> type_of x = t \<and> int_of x = Some m \<and> (m = n \<longleftrightarrow> holds_int t n)"
  proof (cases "type_of v = t")
  case True
  then show ?thesis
    using assms by (cases v) (auto simp: convert_basic_type_def int_of_def holds_int_def)
next
  case False
  obtain w where "v = RInt w n \<or> v = RUint w n"
    using assms(2) by (cases v) (auto simp: int_of_def)
  moreover obtain w' where "t = GInt w' \<or> t = GUint w'"
    using assms(3) by (cases t) (auto simp: is_integer_def)
  ultimately show ?thesis
    using False cut_int_same [of w' n] cut_uint_same [of w' n]
    by (elim disjE) (simp_all add: convert_basic_type_def convertible_def convert_number_def is_numeric_def int_of_def holds_int_def Let_def)
  qed
qed

definition demo_lib :: conv_lib where
  "demo_lib = \<lparr>cl_ucd = ascii_ucd, cl_fold = uc_to_lower ascii_ucd, cl_show = (\<lambda>v. ''?''), cl_key = (\<lambda>v. ''?''),
     cl_parse_float = (\<lambda>s. None), cl_float64 = of_int, cl_float32 = (\<lambda>q. q), cl_oob_int = (\<lambda>q. - (2 ^ 63)),
     cl_oob_uint = (\<lambda>q. 2 ^ 63),
     cl_venv = \<lparr>ve_regexp = (\<lambda>p. None), ve_time_parse = (\<lambda>f s. False), ve_json = (\<lambda>s. False), ve_parse_float = (\<lambda>s. False),
       ve_float_int = (\<lambda>q. 0)\<rparr>\<rparr>"

lemma integer_conversion_exact_witness:
  "\<exists>x m. convert_basic_type demo_lib (RInt WWord 300) (GUint W8) = Inr x \<and> int_of x = Some m \<and> m \<noteq> 300"
proof -
  have "well_typed (RInt WWord 300)" "int_of (RInt WWord 300) = Some 300" "is_integer (GUint W8)"
    by (simp_all add: fits_int_def bits_def int_of_def is_integer_def)
  from integer_conversion_exact [OF this, of demo_lib 0 W8] show ?thesis
    by (auto simp: holds_int_def fits_uint_def bits_def)
qed

subsection \<open>Conversions keep types\<close>

lemma fits_01: "fits_int w 0" "fits_int w 1" "fits_uint w 0" "fits_uint w 1"
  by (cases w; simp add: fits_int_def fits_uint_def bits_def)+

lemma zero_typed: "well_typed (zero t) \<and> type_of (zero t) = t"
proof (induction t)
  case (GStruct n fs)
  have "type_of (zero t) = t \<and> well_typed (zero t)" if "(x, tg, t) \<in> set fs" for x tg t
    using GStruct that by fastforce
  moreover from this have "map (\<lambda>f. (fst f, fst (snd f), type_of (zero (snd (snd f))))) fs = fs"
    by (intro map_idI) auto
  ultimately show ?case by (auto simp: comp_def split_beta)
qed (auto simp: fits_01)

definition keeps :: "gtype \<Rightarrow> conversion \<Rightarrow> bool" where
  "keeps t conv = (\<forall>src tgt path tgt' e. well_typed src \<longrightarrow> well_typed tgt \<longrightarrow> type_of tgt = t \<longrightarrow>
     conv src tgt path = Done (tgt', e) \<longrightarrow> well_typed tgt' \<and> type_of tgt' = t)"

lemma keepsI:
  assumes "\<And>src tgt path tgt' e. well_typed src \<Longrightarrow> well_typed tgt \<Longrightarrow> type_of tgt = t \<Longrightarrow> conv src tgt path = Done (tgt', e) \<Longrightarrow>
     well_typed tgt' \<and> type_of tgt' = t"
  shows "keeps t conv"
  unfolding keeps_def by (intro allI impI) (rule assms)

lemma keepsD: "keeps t conv \<Longrightarrow> conv src tgt path = Done (tgt', e) \<Longrightarrow> well_typed src \<Longrightarrow> well_typed tgt \<Longrightarrow> type_of tgt = t \<Longrightarrow>
    well_typed tgt' \<and> type_of tgt' = t"
  unfolding keeps_def by blast

lemma map_done_Done: "map_done f r = Done (y, e) \<longleftrightarrow> (\<exists>x. r = Done (x, e) \<and> y = f x)"
  by (auto simp: map_done_def split: outcome.splits)

lemma convert_number_typed: "convert_number l v t = Some x \<Longrightarrow> well_typed x \<and> type_of x = t"
  by (auto simp: convert_number_def fits_cut_int fits_cut_uint split: rval.splits gtype.splits)

lemma convert_by_hand_typed: "convert_by_hand l v t = Inr x \<Longrightarrow> well_typed x \<and> type_of x = t"
  by (auto simp: convert_by_hand_def fits_cut_int fits_cut_uint fits_01
      split: gtype.splits rval.splits sum.splits option.splits)

lemma convertible_typed:
  "convertible l v t = Some x \<Longrightarrow> well_typed v \<Longrightarrow> type_of v \<noteq> t \<Longrightarrow> well_typed x \<and> type_of x = t"
  by (auto simp: convertible_def split: gtype.splits rval.splits width.splits dest: convert_number_typed)

lemma convert_basic_type_typed:
  assumes "convert_basic_type l v t = Inr x" "well_typed v"
  shows "well_typed x \<and> type_of x = t"
proof (cases "type_of v = t \<or> v = RIface None")
  case True
  then show ?thesis using assms zero_typed [of t] by (auto simp: convert_basic_type_def split: if_splits)
next
  case False
  define u where "u = (case v of RIface (Some x) \<Rightarrow> x | _ \<Rightarrow> v)"
  have "u = v \<or> v = RIface (Some u)" by (cases v) (auto simp: u_def split: option.splits)
  then have u: "well_typed u" using assms(2) by auto
  have "convert_basic_type l v t = (if type_of u = t then Inr u
         else if (is_numeric (type_of u) \<and> t = GString) \<or> (type_of u = GString \<and> is_numeric t) then convert_by_hand l u t
         else case convertible l u t of Some x \<Rightarrow> Inr x | None \<Rightarrow> convert_by_hand l u t)"
    using False by (auto simp: convert_basic_type_def u_def Let_def split: rval.splits option.splits)
  then show ?thesis
    using assms(1) u convertible_typed [of l u t] convert_by_hand_typed [of l u t]
    by (auto split: if_splits option.splits)
qed

lemma convert_to_basic_keeps: "keeps t (convert_to_basic l opt t)"
  by (rule keepsI) (auto simp: convert_to_basic_def split: if_splits sum.splits dest: convert_basic_type_typed)

lemma index_of_less: "index_of P xs = Some i \<Longrightarrow> i < length xs"
  by (induction P xs arbitrary: i rule: index_of.induct) (auto split: if_splits)

lemma find_field_less: "find_field_by_name l opt names n = Some i \<Longrightarrow> i < length names"
  by (auto simp: find_field_by_name_def split: option.splits if_splits dest: index_of_less)

definition field_types :: "vfield list \<Rightarrow> (string \<times> string \<times> gtype) list" where
  "field_types fs = map (\<lambda>(x, t, v). (x, t, type_of v)) fs"

definition fields_typed :: "vfield list \<Rightarrow> bool" where
  "fields_typed fs = (\<forall>f \<in> set fs. well_typed (snd (snd f)))"

lemma set_field_typed:
  assumes "set_field l conv f v path = Done (f', e)" "keeps (type_of (snd (snd f))) conv" "well_typed v" "well_typed (snd (snd f))"
  shows "well_typed (snd (snd f')) \<and> (case f' of (x, t, v) \<Rightarrow> (x, t, type_of v)) = (case f of (x, t, v) \<Rightarrow> (x, t, type_of v))"
proof -
  obtain n tg x where f: "f = (n, tg, x)" by (cases f)
  show ?thesis
  proof (cases "can_set l n")
    case True
    then obtain x' where "conv v x path = Done (x', e)" "f' = (n, tg, x')"
      using assms(1) by (auto simp: set_field_def f map_done_Done)
    then show ?thesis using keepsD [OF assms(2)] assms(3,4) f by fastforce
  next
    case False
    then show ?thesis using assms by (auto simp: set_field_def f)
  qed
qed

lemma update_field_typed:
  assumes "find_field_by_name l opt (map fst fs) n = Some i" "set_field l (convs ! i) (fs ! i) v p = Done (f, e)"
    "well_typed v" "fields_typed fs" "list_all2 (\<lambda>conv f. keeps (snd (snd f)) conv) convs (field_types fs)"
  shows "fields_typed (fs[i := f]) \<and> field_types (fs[i := f]) = field_types fs"
proof -
  have i: "i < length fs" using find_field_less [OF assms(1)] by simp
  then have "keeps (type_of (snd (snd (fs ! i)))) (convs ! i)"
    using assms(5) by (auto simp: field_types_def list_all2_conv_all_nth split_beta)
  moreover have "well_typed (snd (snd (fs ! i)))" using assms(4) i by (auto simp: fields_typed_def)
  ultimately have f: "well_typed (snd (snd f)) \<and> (case f of (x, t, v) \<Rightarrow> (x, t, type_of v)) = (case fs ! i of (x, t, v) \<Rightarrow> (x, t, type_of v))"
    using set_field_typed [OF assms(2)] assms(3) by simp
  have "field_types (fs[i := f]) = (field_types fs)[i := (case fs ! i of (x, t, v) \<Rightarrow> (x, t, type_of v))]"
    using f by (simp add: field_types_def map_update)
  also have "\<dots> = field_types fs" using i by (simp add: field_types_def list_update_same_conv)
  finally show ?thesis using f assms(4) set_update_subset_insert [of fs i f] by (auto simp: fields_typed_def)
qed

lemma struct_loop_typed:
  "struct_loop l opt convs kvs fs path = Done (fs', e) \<Longrightarrow> \<forall>kv \<in> set kvs. well_typed (snd kv) \<Longrightarrow> fields_typed fs \<Longrightarrow>
     list_all2 (\<lambda>conv f. keeps (snd (snd f)) conv) convs (field_types fs) \<Longrightarrow> fields_typed fs' \<and> field_types fs' = field_types fs"
proof (induction kvs arbitrary: fs)
  case (Cons kv kvs)
  obtain key v where kv: "kv = (key, v)" by (cases kv)
  let ?n = "get_field_name l opt key"
  note typed = update_field_typed [OF _ _ _ Cons.prems(3,4), where l = l and opt = opt and n = ?n and v = v and p = "path @ ?n @ ''.''"]
  show ?case
  proof (cases "find_field_by_name l opt (map fst fs) ?n")
    case None
    then show ?thesis using Cons by (auto simp: kv split: if_splits)
  next
    case (Some i)
    show ?thesis
    proof (cases "co_ignore_empty opt \<and> is_empty_value v")
      case True
      then show ?thesis using Some Cons by (auto simp: kv)
    next
      case False
      then obtain f e' where f: "set_field l (convs ! i) (fs ! i) v (path @ ?n @ ''.'') = Done (f, e')"
        using Cons.prems(1) Some by (auto simp: kv split: outcome.splits)
      have t: "fields_typed (fs[i := f]) \<and> field_types (fs[i := f]) = field_types fs"
        using typed [OF Some f] Cons.prems(2) by (simp add: kv)
      show ?thesis using Cons.IH [of "fs[i := f]"] Cons.prems False Some f t by (cases e') (auto simp: kv)
    qed
  qed
qed simp

lemma struct_source_typed: "struct_source src = Inr kvs \<Longrightarrow> well_typed src \<Longrightarrow> \<forall>kv \<in> set kvs. well_typed (snd kv)"
  by (cases src) (fastforce simp: struct_source_def split: if_splits option.splits)+

lemma convert_to_struct_keeps:
  assumes "list_all2 (\<lambda>conv f. keeps (snd (snd f)) conv) convs fts"
  shows "keeps (GStruct n fts) (convert_to_struct l opt convs)"
proof (rule keepsI)
  fix src tgt path tgt' e
  assume src: "well_typed src" and tgt: "well_typed tgt" "type_of tgt = GStruct n fts"
    and run: "convert_to_struct l opt convs src tgt path = Done (tgt', e)"
  obtain fs where fs: "tgt = RStruct n fs" "field_types fs = fts" using tgt(2) by (cases tgt) (auto simp: field_types_def)
  show "well_typed tgt' \<and> type_of tgt' = GStruct n fts"
  proof (cases "struct_source src")
    case (Inl a)
    then show ?thesis using run tgt by (auto simp: convert_to_struct_def fs(1))
  next
    case (Inr kvs)
    then obtain fs' e' where loop: "struct_loop l opt convs kvs fs path = Done (fs', e')" "tgt' = RStruct n fs'"
      using run by (auto simp: convert_to_struct_def fs(1) split: outcome.splits option.splits)
    have "fields_typed fs' \<and> field_types fs' = field_types fs"
      using struct_loop_typed [OF loop(1)] struct_source_typed [OF Inr src] tgt(1) assms fs by (simp add: fields_typed_def)
    then show ?thesis using fs(2) loop(2) by (simp add: fields_typed_def field_types_def)
  qed
qed

lemma elements_typed: "elements_of src = Some xs \<Longrightarrow> well_typed src \<Longrightarrow> \<forall>x \<in> set xs. well_typed x"
  by (cases src) (auto simp: elements_of_def split: option.splits)

lemma alloc_elem_typed: "well_typed v \<Longrightarrow> well_typed (alloc_elem v) \<and> type_of (alloc_elem v) = type_of v"
  using zero_typed by (cases v) (auto simp: alloc_elem_def split: option.splits)

lemma alloc_elem_not_nil: "alloc_elem v \<noteq> RPtr t None"
  by (auto simp: alloc_elem_def split: rval.splits option.splits)

lemma deref_typed: "deref_source v = Some x \<Longrightarrow> well_typed v \<Longrightarrow> well_typed x"
  by (cases v) (auto simp: deref_source_def)

lemma conv_elem_typed:
  assumes "keeps (elem_type t) conv" "well_typed src" "well_typed tgt" "type_of tgt = t" "\<forall>u. tgt \<noteq> RPtr u None"
    "conv_elem conv src tgt path = Done (tgt', e)"
  shows "well_typed tgt' \<and> type_of tgt' = t"
proof (cases "\<exists>u x. tgt = RPtr u (Some x)")
  case True
  then obtain u x where x: "tgt = RPtr u (Some x)" by blast
  then obtain x' where "conv src x path = Done (x', e)" "tgt' = RPtr u (Some x')"
    using assms(6) by (auto simp: conv_elem_def map_done_Done)
  then show ?thesis using keepsD [OF assms(1)] assms(2-4) x by (fastforce simp: elem_type_def)
next
  case False
  have "conv_elem conv src tgt path = conv src tgt path"
    using False by (auto simp: conv_elem_def split: rval.splits option.splits)
  moreover have "elem_type t = t" using False assms(4,5) by (cases tgt) (auto simp: elem_type_def)
  ultimately show ?thesis using keepsD [OF assms(1)] assms(2-4,6) by metis
qed

lemma pointer_step_typed:
  assumes "keeps (elem_type t) conv" "well_typed src" "well_typed tgt" "type_of tgt = t" "pointer_step conv src tgt path = Done (tgt', e)"
  shows "well_typed tgt' \<and> type_of tgt' = t"
proof (cases "deref_source src")
  case None
  then show ?thesis using assms alloc_elem_typed [of tgt] by (auto simp: pointer_step_def)
next
  case (Some x)
  have run: "conv_elem conv x (alloc_elem tgt) path = Done (tgt', e)" using assms(5) by (simp add: pointer_step_def Some)
  have a: "well_typed (alloc_elem tgt)" "type_of (alloc_elem tgt) = t" using alloc_elem_typed [OF assms(3)] assms(4) by simp_all
  show ?thesis
    by (rule conv_elem_typed [OF assms(1) deref_typed [OF Some assms(2)] a _ run]) (simp add: alloc_elem_not_nil)
qed

lemma array_step_typed:
  assumes "keeps (elem_type t) conv" "well_typed src" "well_typed tgt" "type_of tgt = t" "array_step conv src tgt path = Done (tgt', e)"
  shows "well_typed tgt' \<and> type_of tgt' = t"
proof -
  have "tgt' = tgt \<or> (\<exists>x. well_typed x \<and> pointer_step conv x tgt path = Done (tgt', e))"
  proof (cases "\<exists>o1. src = RIface o1")
    case True
    then obtain o1 where o1: "src = RIface o1" by blast
    show ?thesis
    proof (cases o1)
      case None
      then show ?thesis using assms(5) by (simp add: array_step_def o1)
    next
      case (Some x)
      then have "well_typed x" "pointer_step conv x tgt path = Done (tgt', e)" using assms(2,5) by (simp_all add: array_step_def o1)
      then show ?thesis by blast
    qed
  next
    case False
    then have "array_step conv src tgt path = pointer_step conv src tgt path" by (cases src) (simp_all add: array_step_def)
    then show ?thesis using assms(2,5) by metis
  qed
  then show ?thesis
  proof (elim disjE exE conjE)
    assume "tgt' = tgt"
    then show ?thesis using assms(3,4) by simp
  next
    fix x assume "well_typed x" "pointer_step conv x tgt path = Done (tgt', e)"
    then show ?thesis by (rule pointer_step_typed [OF assms(1) _ assms(3,4)])
  qed
qed

definition step_keeps :: "gtype \<Rightarrow> (nat \<Rightarrow> rval \<Rightarrow> rval \<Rightarrow> conv_result) \<Rightarrow> bool" where
  "step_keeps t step = (\<forall>i s x x' e'. well_typed s \<longrightarrow> well_typed x \<longrightarrow> type_of x = t \<longrightarrow> step i s x = Done (x', e') \<longrightarrow>
     well_typed x' \<and> type_of x' = t)"

lemma step_keepsD: "step_keeps t step \<Longrightarrow> step i s x = Done (x', e') \<Longrightarrow> well_typed s \<Longrightarrow> well_typed x \<Longrightarrow> type_of x = t \<Longrightarrow>
    well_typed x' \<and> type_of x' = t"
  unfolding step_keeps_def by blast

lemma array_loop_typed:
  assumes "step_keeps t step"
  shows "array_loop step i ss ts = Done (ts', e) \<Longrightarrow> \<forall>s \<in> set ss. well_typed s \<Longrightarrow> \<forall>x \<in> set ts. well_typed x \<and> type_of x = t \<Longrightarrow>
     length ts' = length ts \<and> (\<forall>x \<in> set ts'. well_typed x \<and> type_of x = t)"
proof (induction ss arbitrary: i ts ts')
  case (Cons s ss)
  show ?case
  proof (cases ts)
    case Nil
    then show ?thesis using Cons.prems(1) by simp
  next
    case ts: (Cons x ts2)
    obtain x' e' where x: "step i s x = Done (x', e')"
      using Cons.prems(1) ts by (auto split: outcome.splits)
    have t: "well_typed x' \<and> type_of x' = t" using step_keepsD [OF assms x] Cons.prems(2,3) ts by simp
    show ?thesis
    proof (cases e')
      case None
      then obtain ts3 where r: "array_loop step (Suc i) ss ts2 = Done (ts3, e)" "ts' = x' # ts3"
        using Cons.prems(1) ts x by (auto simp: map_done_Done)
      have "length ts3 = length ts2 \<and> (\<forall>x \<in> set ts3. well_typed x \<and> type_of x = t)"
        by (rule Cons.IH [OF r(1)]) (use Cons.prems(2,3) ts in simp_all)
      then show ?thesis using r(2) ts t by simp
    next
      case (Some e1)
      then have "ts' = x' # ts2" using Cons.prems(1) ts x by simp
      then show ?thesis using Cons.prems(3) ts t by simp
    qed
  qed
qed simp

lemma fill_slice_typed:
  assumes "step_keeps t step"
    and "\<forall>s \<in> set srcs. well_typed s" "well_typed tgt" "type_of tgt = GSlice t" "fill_slice step srcs tgt = Done (tgt', e)"
  shows "well_typed tgt' \<and> type_of tgt' = GSlice t"
proof -
  obtain o1 where o1: "tgt = RSlice t o1" using assms(4) by (cases tgt) auto
  define ts where "ts = (case o1 of None \<Rightarrow> replicate (length srcs) (zero t) | Some xs \<Rightarrow> xs)"
  have mk: "make_slice tgt (length srcs) = RSlice t (Some ts)" by (cases o1) (auto simp: make_slice_def o1 ts_def)
  have typed: "\<forall>x \<in> set ts. well_typed x \<and> type_of x = t" using assms(3) zero_typed by (auto simp: ts_def o1 split: option.splits)
  show ?thesis
  proof (cases "length ts = length srcs")
    case True
    then obtain ts' where "array_loop step 0 srcs ts = Done (ts', e)" "tgt' = RSlice t (Some ts')"
      using assms(5) by (auto simp: fill_slice_def mk map_done_Done)
    then show ?thesis using array_loop_typed [OF assms(1) _ assms(2) typed] by simp
  next
    case False
    then show ?thesis using assms(5) typed by (auto simp: fill_slice_def mk)
  qed
qed

lemma array_step_keeps: "keeps (elem_type t) conv \<Longrightarrow> step_keeps t (\<lambda>i s x. array_step conv s x (p i))"
  unfolding step_keeps_def by (intro allI impI) (rule array_step_typed)

lemma convert_to_array_keeps:
  assumes "keeps (elem_type t) conv"
  shows "keeps (GSlice t) (convert_to_array conv)" "keeps (GArray n t) (convert_to_array conv)"
proof -
  show "keeps (GSlice t) (convert_to_array conv)"
  proof (rule keepsI)
    fix src tgt path tgt' e
    assume src: "well_typed src" and tgt: "well_typed tgt" "type_of tgt = GSlice t"
      and run: "convert_to_array conv src tgt path = Done (tgt', e)"
    obtain o1 where o1: "tgt = RSlice t o1" using tgt(2) by (cases tgt) auto
    show "well_typed tgt' \<and> type_of tgt' = GSlice t"
    proof (cases "elements_of src")
      case None
      then show ?thesis using run tgt by (auto simp: convert_to_array_def)
    next
      case (Some srcs)
      show ?thesis
        by (rule fill_slice_typed [OF array_step_keeps [OF assms, where p = "\<lambda>i. path @ ''['' @ dec_nat i @ ''].''"]
              elements_typed [OF Some src] tgt]) (use run in \<open>simp add: convert_to_array_def Some o1\<close>)
    qed
  qed
  show "keeps (GArray n t) (convert_to_array conv)"
  proof (rule keepsI)
    fix src tgt path tgt' e
    assume tgt: "well_typed tgt" "type_of tgt = GArray n t" and run: "convert_to_array conv src tgt path = Done (tgt', e)"
    obtain xs where "tgt = RArray t xs" using tgt(2) by (cases tgt) auto
    then show "well_typed tgt' \<and> type_of tgt' = GArray n t"
      using run tgt by (auto simp: convert_to_array_def split: option.splits)
  qed
qed

definition entries_typed :: "gtype \<Rightarrow> gtype \<Rightarrow> (rval \<times> rval) list \<Rightarrow> bool" where
  "entries_typed k t m = (\<forall>p \<in> set m. well_typed (fst p) \<and> type_of (fst p) = k \<and> well_typed (snd p) \<and> type_of (snd p) = t)"

lemma set_gm_put: "p \<in> set (gm_put k x m) \<Longrightarrow> p = (k, x) \<or> p \<in> set m"
  by (induction m) (auto split: if_splits)

lemma map_loop_typed:
  assumes "keeps t conv"
  shows "map_loop l opt conv kt t kvs m path = Done (m', e) \<Longrightarrow>
     \<forall>p \<in> set kvs. well_typed (fst p) \<and> well_typed (snd p) \<Longrightarrow> entries_typed kt t m \<Longrightarrow> entries_typed kt t m'"
proof (induction kvs arbitrary: m)
  case (Cons kv kvs)
  obtain k v where kv: "kv = (k, v)" by (cases kv)
  have typed_kv: "well_typed k" "well_typed v" using Cons.prems(2) by (simp_all add: kv)
  have rest: "\<forall>p \<in> set kvs. well_typed (fst p) \<and> well_typed (snd p)" using Cons.prems(2) by simp
  show ?case
  proof (cases "co_ignore_empty opt \<and> is_empty_value v")
    case True
    then have "map_loop l opt conv kt t kvs m path = Done (m', e)" using Cons.prems(1) by (simp add: kv)
    then show ?thesis by (rule Cons.IH [OF _ rest Cons.prems(3)])
  next
    case False
    then obtain x e' where x: "conv v (zero t) (path @ key_text l k @ ''.'') = Done (x, e')"
      using Cons.prems(1) unfolding kv map_loop.simps if_not_P [OF False] by (auto split: outcome.splits)
    have typed: "well_typed x \<and> type_of x = t"
      using keepsD [OF assms x typed_kv(2)] zero_typed [of t] by simp
    show ?thesis
    proof (cases e')
      case None
      then obtain k' where k': "assign_key k kt = Some k'" "map_loop l opt conv kt t kvs (gm_put k' x m) path = Done (m', e)"
        using Cons.prems(1) False x by (simp add: kv split: option.splits)
      have "well_typed k' \<and> type_of k' = kt"
        using k'(1) typed_kv(1) by (auto simp: assign_key_def split: if_splits)
      then have "entries_typed kt t (gm_put k' x m)"
        using typed Cons.prems(3) by (auto simp: entries_typed_def dest!: set_gm_put)
      then show ?thesis by (rule Cons.IH [OF k'(2) rest])
    next
      case (Some e1)
      then have "m' = m" using Cons.prems(1) False x by (simp add: kv)
      then show ?thesis using Cons.prems(3) by simp
    qed
  qed
qed simp

lemma convert_to_map_keeps:
  assumes "keeps t conv"
  shows "keeps (GMap k t) (convert_to_map l opt conv)"
proof (rule keepsI)
  fix src tgt path tgt' e
  assume src: "well_typed src" and tgt: "well_typed tgt" "type_of tgt = GMap k t"
    and run: "convert_to_map l opt conv src tgt path = Done (tgt', e)"
  obtain m where m: "tgt = RMap k t m" using tgt(2) by (cases tgt) auto
  show "well_typed tgt' \<and> type_of tgt' = GMap k t"
  proof (cases "\<exists>a b sm. src = RMap a b sm")
    case True
    then obtain a b sm where sm: "src = RMap a b sm" by blast
    define kvs where "kvs = (case sm of None \<Rightarrow> [] | Some kvs \<Rightarrow> kvs)"
    define m0 where "m0 = (case m of None \<Rightarrow> [] | Some kvs \<Rightarrow> kvs)"
    have kvs: "\<forall>p \<in> set kvs. well_typed (fst p) \<and> well_typed (snd p)"
    proof
      fix p assume "p \<in> set kvs"
      then show "well_typed (fst p) \<and> well_typed (snd p)" using src by (cases sm) (simp_all add: sm kvs_def)
    qed
    have m0: "entries_typed k t m0"
    proof (cases m)
      case None
      then show ?thesis by (simp add: m0_def entries_typed_def)
    next
      case (Some kvs)
      then have "well_typed (RMap k t (Some kvs))" using tgt(1) m by simp
      then show ?thesis unfolding m0_def Some entries_typed_def by (simp only: well_typed.simps option.case)
    qed
    obtain m' where m': "map_loop l opt conv k t kvs m0 path = Done (m', e)" "tgt' = RMap k t (Some m')"
      using run by (auto simp: convert_to_map_def sm m kvs_def m0_def map_done_Done)
    then show ?thesis using map_loop_typed [OF assms m'(1) kvs m0] by (simp add: entries_typed_def)
  next
    case False
    then have "tgt' = tgt" using run by (cases src) (simp_all add: convert_to_map_def m)
    then show ?thesis using tgt by simp
  qed
qed

lemma convert_to_ptr_keeps:
  assumes "keeps t conv"
  shows "keeps (GPtr t) (convert_to_ptr conv)"
proof (rule keepsI)
  fix src tgt path tgt' e
  assume src: "well_typed src" and tgt: "well_typed tgt" "type_of tgt = GPtr t"
    and run: "convert_to_ptr conv src tgt path = Done (tgt', e)"
  obtain x where x: "tgt = RPtr t x" using tgt(2) by (cases tgt) auto
  define y where "y = (case x of None \<Rightarrow> zero t | Some y \<Rightarrow> y)"
  have y: "well_typed y" "type_of y = t" using tgt(1) zero_typed [of t] by (simp_all add: x y_def split: option.splits)
  obtain y' where y': "conv src y path = Done (y', e)" "tgt' = RPtr t (Some y')"
    using run by (auto simp: convert_to_ptr_def x y_def map_done_Done)
  then show "well_typed tgt' \<and> type_of tgt' = GPtr t" using keepsD [OF assms y'(1) src y] by simp
qed

lemma open_source_typed: "open_source src = Some s \<Longrightarrow> well_typed src \<Longrightarrow> well_typed s"
  by (cases src) (auto simp: open_source_def split: option.splits rval.splits)

lemma with_source_keeps:
  assumes "keeps t conv"
  shows "keeps t (with_source conv)"
proof (rule keepsI)
  fix src tgt path tgt' e
  assume src: "well_typed src" and tgt: "well_typed tgt" "type_of tgt = t" and run: "with_source conv src tgt path = Done (tgt', e)"
  show "well_typed tgt' \<and> type_of tgt' = t"
  proof (cases "open_source src")
    case None
    then show ?thesis using run tgt by (simp add: with_source_def)
  next
    case (Some s)
    then have "conv s tgt path = Done (tgt', e)" using run by (simp add: with_source_def)
    then show ?thesis by (rule keepsD [OF assms _ open_source_typed [OF Some src] tgt])
  qed
qed

lemma convert_value_keeps: "keeps t (convert_value l opt t)"
proof (induction l opt t rule: convert_value.induct)
  case (1 l opt n fs)
  have "list_all2 (\<lambda>conv f. keeps (snd (snd f)) conv) (map (\<lambda>(x, tg, t). convert_value l opt t) fs) fs"
  proof -
    have "\<forall>f \<in> set fs. keeps (snd (snd f)) (convert_value l opt (snd (snd f)))" using 1 by (metis prod.collapse)
    then show ?thesis by (simp add: list_all2_conv_all_nth split_beta)
  qed
  then show ?case by (simp add: with_source_keeps convert_to_struct_keeps)
next
  case (2 l opt t)
  have "keeps (elem_type t) (case t of GPtr u \<Rightarrow> convert_value l opt u | _ \<Rightarrow> convert_value l opt t)"
    using 2 by (cases t) (simp_all add: elem_type_def)
  then show ?case by (simp add: with_source_keeps convert_to_array_keeps)
next
  case (3 l opt n t)
  have "keeps (elem_type t) (case t of GPtr u \<Rightarrow> convert_value l opt u | _ \<Rightarrow> convert_value l opt t)"
    using 3 by (cases t) (simp_all add: elem_type_def)
  then show ?case by (simp add: with_source_keeps convert_to_array_keeps)
qed (simp_all add: with_source_keeps convert_to_map_keeps convert_to_ptr_keeps convert_to_basic_keeps)

text \<open>C9. The target keeps its type, and stays a value of it, whatever the source and whether or not the conversion
  fails on the way: numbers fit their widths and every field, element, entry and pointer holds what its type says. A new object
  is a pointer to a value of the struct type asked for.\<close>

theorem conversion_keeps_types:
  assumes "well_typed src" "well_typed target" "convert_to l opt src target = Done (target', e)"
  shows "well_typed target' \<and> type_of target' = type_of target \<and>
    (\<forall>v. convert_new l opt src target = Done (Some v, None) \<longrightarrow>
       (\<exists>n fs. target_type target = Done (GStruct n fs) \<and> well_typed v \<and> type_of v = GPtr (GStruct n fs)))"
proof -
  note keeps = keepsD [OF convert_value_keeps]
  have "well_typed target' \<and> type_of target' = type_of target"
  proof (cases "\<exists>t n fs. target = RPtr t (Some (RStruct n fs))")
    case True
    then obtain t n fs where t: "target = RPtr t (Some (RStruct n fs))" by blast
    obtain v where v: "convert_value l opt (type_of (RStruct n fs)) src (RStruct n fs) [] = Done (v, e)" "target' = RPtr t (Some v)"
      using assms(3) by (auto simp: convert_to_def t map_done_Done simp del: type_of.simps)
    have ty: "well_typed (RStruct n fs)" "t = type_of (RStruct n fs)" using assms(2) by (simp_all add: t)
    show ?thesis using keeps [OF v(1) assms(1) ty(1) refl] v(2) by (simp add: t ty(2) del: type_of.simps(12))
  next
    case False
    then have "target' = target" using assms(3) by (auto simp: convert_to_def split: rval.splits option.splits)
    then show ?thesis using assms(2) by simp
  qed
  moreover have "\<exists>n fs. target_type target = Done (GStruct n fs) \<and> well_typed v \<and> type_of v = GPtr (GStruct n fs)"
    if new: "convert_new l opt src target = Done (Some v, None)" for v
  proof -
    obtain n fs where ty: "target_type target = Done (GStruct n fs)"
      using new by (auto simp: convert_new_def split: outcome.splits gtype.splits)
    then obtain w where w: "convert_value l opt (GStruct n fs) src (zero (GStruct n fs)) [] = Done (w, None)"
        "v = RPtr (GStruct n fs) (Some w)"
      using new by (auto simp: convert_new_def new_of_def split: outcome.splits option.splits)
    show ?thesis using keeps [OF w(1) assms(1)] zero_typed [of "GStruct n fs"] ty w(2) by simp
  qed
  ultimately show ?thesis by blast
qed

lemma conversion_keeps_types_witness:
  "\<exists>x. convert_to demo_lib new_converter (RMap GString GIface (Some [(RStr ''size'', RIface (Some (RInt WWord 300)))]))
       (RPtr (GStruct ''T'' [(''Size'', [], GUint W8)]) (Some (RStruct ''T'' [(''Size'', [], RUint W8 0)]))) =
       Done (RPtr (GStruct ''T'' [(''Size'', [], GUint W8)]) (Some (RStruct ''T'' [(''Size'', [], RUint W8 x)])), None) \<and>
     0 \<le> x \<and> x < 256"
proof -
  have r: "runes ''Size'' = [83, 105, 122, 101]" "runes ''s'' = [115]"
    by (simp_all add: runes_ascii ascii_def)
  have "char_of (83 :: nat) = CHR ''S''" by (simp add: char_of_eq_iff)
  then have up: "upper_first demo_lib ''size'' = ''Size''"
    by (simp add: upper_first_def to_upper_def r demo_lib_def ascii_ucd_def string_of_runes_def encode_rune_def)
  have name: "get_field_name demo_lib new_converter ''size'' = ''Size''" by (simp add: get_field_name_def new_converter_def up)
  have find: "find_field_by_name demo_lib new_converter [''Size''] ''Size'' = Some 0" by (simp add: find_field_by_name_def)
  have set: "can_set demo_lib ''Size''" by (simp add: can_set_def r demo_lib_def ascii_ucd_def)
  have conv: "convert_to_basic demo_lib new_converter (GUint W8) (RInt WWord 300) (RUint W8 0) p = Done (RUint W8 44, None)" for p
    by (simp add: convert_to_basic_def convert_basic_type_def convertible_def convert_number_def
        cut_uint_def bits_def is_numeric_def new_converter_def)
  have run: "convert_to demo_lib new_converter (RMap GString GIface (Some [(RStr ''size'', RIface (Some (RInt WWord 300)))]))
       (RPtr (GStruct ''T'' [(''Size'', [], GUint W8)]) (Some (RStruct ''T'' [(''Size'', [], RUint W8 0)]))) =
       Done (RPtr (GStruct ''T'' [(''Size'', [], GUint W8)]) (Some (RStruct ''T'' [(''Size'', [], RUint W8 44)])), None)"
    by (simp add: convert_to_def with_source_def open_source_def convert_to_struct_def struct_source_def name find set
        set_field_def conv map_done_def Let_def validate_struct_def validate_field_def is_exported_def is_empty_value_def)
  show ?thesis
    using conversion_keeps_types [OF _ _ run] run by (auto simp: fits_uint_def fits_int_def bits_def)
qed

subsection \<open>Copying\<close>

text \<open>Types that are copied whole: no pointers, arrays and interfaces, and structs with distinct exported ASCII field names.\<close>

fun copyable :: "gtype \<Rightarrow> bool" where
  "copyable (GPtr t) = False"
| "copyable (GArray n t) = False"
| "copyable GIface = False"
| "copyable (GSlice t) = copyable t"
| "copyable (GMap k t) = copyable t"
| "copyable (GStruct n fs) = (distinct (map fst fs) \<and> (\<forall>f \<in> set fs. fst f \<noteq> [] \<and> is_exported (fst f) \<and> copyable (snd (snd f))))"
| "copyable _ = True"

text \<open>The entries of a Go map have distinct keys.\<close>

fun maps_ok :: "rval \<Rightarrow> bool" where
  "maps_ok (RSlice t vs) = (case vs of None \<Rightarrow> True | Some xs \<Rightarrow> \<forall>x \<in> set xs. maps_ok x)"
| "maps_ok (RMap k t m) = (case m of None \<Rightarrow> True | Some xs \<Rightarrow> distinct (map fst xs) \<and> (\<forall>p \<in> set xs. maps_ok (snd p)))"
| "maps_ok (RStruct n fs) = (\<forall>f \<in> set fs. maps_ok (snd (snd f)))"
| "maps_ok _ = True"

text \<open>A copy has empty slices and maps in the place of nil ones.\<close>

fun filled :: "rval \<Rightarrow> rval" where
  "filled (RSlice t vs) = RSlice t (Some (case vs of None \<Rightarrow> [] | Some xs \<Rightarrow> map filled xs))"
| "filled (RMap k t m) = RMap k t (Some (case m of None \<Rightarrow> [] | Some xs \<Rightarrow> map (\<lambda>p. (fst p, filled (snd p))) xs))"
| "filled (RStruct n fs) = RStruct n (map (\<lambda>(x, tg, v). (x, tg, filled v)) fs)"
| "filled v = v"

definition plain_options :: "convert_options \<Rightarrow> bool" where
  "plain_options opt = (\<not> co_ignore_empty opt \<and> \<not> co_validate opt \<and> co_mapping opt = [])"

text \<open>The tables of package unicode know the capitals of ASCII.\<close>

definition ascii_capitals :: "ucd \<Rightarrow> bool" where
  "ascii_capitals u = (\<forall>r. 65 \<le> r \<and> r \<le> 90 \<longrightarrow> uc_upper u r \<and> uc_to_upper u r = r)"

definition copies :: "conversion \<Rightarrow> gtype \<Rightarrow> bool" where
  "copies conv t = (\<forall>src path. well_typed src \<longrightarrow> maps_ok src \<longrightarrow> type_of src = t \<longrightarrow>
     conv src (zero t) path = Done (filled src, None))"

lemma copiesD: "copies conv t \<Longrightarrow> well_typed src \<Longrightarrow> maps_ok src \<Longrightarrow> type_of src = t \<Longrightarrow>
    conv src (zero t) path = Done (filled src, None)"
  unfolding copies_def by blast

lemma exported_name:
  assumes "ascii_capitals (cl_ucd l)" "x \<noteq> []" "is_exported x" "co_mapping opt = []"
  shows "can_set l x" "get_field_name l opt x = x"
proof -
  obtain c s where x: "x = c # s" using assms(2) by (cases x) auto
  have c: "65 \<le> (of_char c :: nat)" "(of_char c :: nat) \<le> 90" using assms(3) by (simp_all add: is_exported_def x)
  have r: "runes x = of_char c # runes s" "runes [c] = [of_char c]"
    using c by (simp_all add: x runes_def segments_ascii_Cons)
  show "can_set l x" using assms(1) c by (simp add: can_set_def r ascii_capitals_def)
  have "to_upper (cl_ucd l) [c] = [c]"
    using assms(1) c by (simp add: to_upper_def r string_of_runes_def encode_rune_def ascii_capitals_def)
  then show "get_field_name l opt x = x" using assms(4) by (simp add: get_field_name_def upper_first_def x)
qed

lemma index_of_distinct: "distinct xs \<Longrightarrow> i < length xs \<Longrightarrow> index_of (\<lambda>x. x = xs ! i) xs = Some i"
proof (induction xs arbitrary: i)
  case (Cons x xs)
  then show ?case by (cases i) (auto simp: nth_mem)
qed simp

definition fill_field :: "vfield \<Rightarrow> vfield" where
  "fill_field = (\<lambda>(x, tg, v). (x, tg, filled v))"

definition blank_field :: "vfield \<Rightarrow> vfield" where
  "blank_field = (\<lambda>(x, tg, v). (x, tg, zero (type_of v)))"

lemma field_names: "map fst (map fill_field fs) = map fst fs" "map fst (map blank_field fs) = map fst fs"
  by (auto simp: fill_field_def blank_field_def)

lemma struct_loop_copies:
  assumes "plain_options opt" "ascii_capitals (cl_ucd l)"
  shows "distinct (map fst (pre @ suf)) \<Longrightarrow> \<forall>f \<in> set suf. fst f \<noteq> [] \<and> is_exported (fst f) \<and> well_typed (snd (snd f)) \<and> maps_ok (snd (snd f)) \<Longrightarrow>
     \<forall>i < length suf. copies (convs ! (length pre + i)) (type_of (snd (snd (suf ! i)))) \<Longrightarrow>
     struct_loop l opt convs (map (\<lambda>(x, tg, v). (x, v)) suf) (map fill_field pre @ map blank_field suf) path =
       Done (map fill_field (pre @ suf), None)"
proof (induction suf arbitrary: pre)
  case (Cons f suf)
  obtain x tg v where f: "f = (x, tg, v)" by (cases f)
  have ok: "x \<noteq> []" "is_exported x" "well_typed v" "maps_ok v" using Cons.prems(2) by (simp_all add: f)
  have opt: "co_mapping opt = []" "\<not> co_ignore_empty opt" using assms(1) by (simp_all add: plain_options_def)
  note name = exported_name [OF assms(2) ok(1,2) opt(1)]
  have names: "map fst (map fill_field pre @ map blank_field (f # suf)) = map fst (pre @ f # suf)"
    by (simp only: map_append field_names)
  have "map fst (pre @ f # suf) ! length pre = x" by (simp add: nth_append f)
  then have "index_of (\<lambda>y. y = x) (map fst (pre @ f # suf)) = Some (length pre)"
    using index_of_distinct [OF Cons.prems(1), of "length pre"] by simp
  then have find: "find_field_by_name l opt (map fst (map fill_field pre @ map blank_field (f # suf))) x = Some (length pre)"
    unfolding names by (simp add: find_field_by_name_def)
  have conv: "(convs ! length pre) v (zero (type_of v)) p = Done (filled v, None)" for p
  proof (rule copiesD)
    show "copies (convs ! length pre) (type_of v)" using Cons.prems(3) by (force simp: f)
  qed (use ok in simp_all)
  have set: "set_field l (convs ! length pre) ((map fill_field pre @ map blank_field (f # suf)) ! length pre) v p =
      Done ((x, tg, filled v), None)" for p
    using name(1) conv by (simp add: set_field_def f blank_field_def nth_append map_done_def)
  have upd: "(map fill_field pre @ map blank_field (f # suf))[length pre := (x, tg, filled v)] =
      map fill_field (pre @ [f]) @ map blank_field suf"
    by (simp add: f fill_field_def list_update_append)
  have "struct_loop l opt convs (map (\<lambda>(x, tg, v). (x, v)) suf) (map fill_field (pre @ [f]) @ map blank_field suf) path =
      Done (map fill_field ((pre @ [f]) @ suf), None)"
  proof (rule Cons.IH)
    show "\<forall>i < length suf. copies (convs ! (length (pre @ [f]) + i)) (type_of (snd (snd (suf ! i))))"
      using Cons.prems(3) by force
  qed (use Cons.prems(1,2) in simp_all)
  then show ?case
    using find set opt(2) by (simp only: f list.map prod.case struct_loop.simps Let_def name(2) option.case upd [unfolded f list.map]
        outcome.case simp_thms if_False append_assoc append_Cons append_Nil)
qed simp

lemma array_loop_copies:
  assumes "\<And>i x. x \<in> set xs \<Longrightarrow> step i x (zero t) = Done (filled x, None)"
  shows "array_loop step i xs (replicate (length xs) (zero t)) = Done (map filled xs, None)"
  using assms
proof (induction xs arbitrary: i)
  case (Cons x xs)
  then show ?case by (simp add: map_done_def)
qed simp

lemma map_loop_copies:
  assumes "\<not> co_ignore_empty opt" "copies conv t"
  shows "distinct (map fst m @ map fst kvs) \<Longrightarrow>
     \<forall>p \<in> set kvs. type_of (fst p) = kt \<and> well_typed (snd p) \<and> maps_ok (snd p) \<and> type_of (snd p) = t \<Longrightarrow>
     map_loop l opt conv kt t kvs m path = Done (m @ map (\<lambda>p. (fst p, filled (snd p))) kvs, None)"
proof (induction kvs arbitrary: m)
  case (Cons kv kvs)
  obtain k v where kv: "kv = (k, v)" by (cases kv)
  have v: "type_of k = kt" "well_typed v" "maps_ok v" "type_of v = t" using Cons.prems(2) by (simp_all add: kv)
  have "k \<notin> set (map fst m)" using Cons.prems(1) by (auto simp: kv)
  then have put: "gm_put k (filled v) m = m @ [(k, filled v)]" by (induction m) auto
  have "map_loop l opt conv kt t kvs (m @ [(k, filled v)]) path =
      Done ((m @ [(k, filled v)]) @ map (\<lambda>p. (fst p, filled (snd p))) kvs, None)"
    by (rule Cons.IH) (use Cons.prems in \<open>simp_all add: kv\<close>)
  then show ?case
    using assms(1) copiesD [OF assms(2) v(2-4)] v(1) by (simp add: kv assign_key_def put)
qed simp

lemma open_plain: "copyable (type_of v) \<Longrightarrow> open_source v = Some v"
  by (cases v) (auto simp: open_source_def)

lemma basic_copies:
  assumes "plain_options opt" "t \<in> {GString, GBool, GFloat32, GFloat64} \<or> (\<exists>w. t = GInt w \<or> t = GUint w)"
  shows "copies (with_source (convert_to_basic l opt t)) t"
  unfolding copies_def
proof (intro allI impI)
  fix src path
  assume src: "type_of src = t"
  have "open_source src = Some src" by (rule open_plain) (use src assms(2) in auto)
  moreover have "filled src = src" using src assms(2) by (cases src) auto
  ultimately show "with_source (convert_to_basic l opt t) src (zero t) path = Done (filled src, None)"
    using src assms(1) by (simp add: with_source_def convert_to_basic_def convert_basic_type_def plain_options_def)
qed

lemma convert_value_copies:
  assumes "plain_options opt" "ascii_capitals (cl_ucd l)"
  shows "copyable t \<Longrightarrow> copies (convert_value l opt t) t"
proof (induction t)
  case (GStruct n fs)
  show ?case
    unfolding copies_def
  proof (intro allI impI)
    fix src path
    assume src: "well_typed src" "maps_ok src" "type_of src = GStruct n fs"
    then obtain sfs where sfs: "src = RStruct n sfs" "fs = map (\<lambda>(x, t, v). (x, t, type_of v)) sfs" by (cases src) auto
    have names: "map fst fs = map fst sfs" by (auto simp: sfs(2))
    have cop: "\<forall>f \<in> set sfs. fst f \<noteq> [] \<and> is_exported (fst f) \<and> copyable (type_of (snd (snd f)))"
      using GStruct.prems by (fastforce simp: sfs(2))
    have blank: "zero (GStruct n fs) = RStruct n (map fill_field [] @ map blank_field sfs)"
      by (auto simp: sfs(2) blank_field_def)
    let ?convs = "map (\<lambda>(x, tg, t). convert_value l opt t) fs"
    have loop: "struct_loop l opt ?convs (map (\<lambda>(x, tg, v). (x, v)) sfs) (map fill_field [] @ map blank_field sfs) path =
        Done (map fill_field ([] @ sfs), None)"
    proof (rule struct_loop_copies [OF assms])
      show "distinct (map fst ([] @ sfs))" using GStruct.prems names by simp
      show "\<forall>f \<in> set sfs. fst f \<noteq> [] \<and> is_exported (fst f) \<and> well_typed (snd (snd f)) \<and> maps_ok (snd (snd f))"
        using cop src(1,2) by (simp add: sfs(1))
      show "\<forall>i < length sfs. copies (?convs ! (length [] + i)) (type_of (snd (snd (sfs ! i))))"
      proof (intro allI impI)
        fix i assume i: "i < length sfs"
        let ?f = "sfs ! i"
        have mem: "(fst ?f, fst (snd ?f), type_of (snd (snd ?f))) \<in> set fs"
          using nth_mem [OF i] by (simp add: sfs(2) split_beta)
        have "copies (convert_value l opt (type_of (snd (snd ?f)))) (type_of (snd (snd ?f)))"
          by (rule GStruct.IH [OF mem]) (use cop i in \<open>auto simp: prod_set_defs\<close>)
        then show "copies (?convs ! (length [] + i)) (type_of (snd (snd ?f)))" using i by (simp add: sfs(2) split_beta)
      qed
    qed
    have "filter (\<lambda>f. is_exported (fst f)) sfs = sfs" using cop by (simp add: filter_id_conv)
    then have "struct_source src = Inr (map (\<lambda>(x, tg, v). (x, v)) sfs)" by (simp add: struct_source_def sfs(1))
    then have "convert_to_struct l opt ?convs src (zero (GStruct n fs)) path = Done (RStruct n (map fill_field sfs), None)"
      using loop assms(1) by (simp only: convert_to_struct_def blank rval.case sum.case outcome.case prod.case option.case append_Nil
          validate_struct_def plain_options_def simp_thms if_True)
    then show "convert_value l opt (GStruct n fs) src (zero (GStruct n fs)) path = Done (filled src, None)"
      by (simp add: with_source_def open_source_def sfs(1) fill_field_def del: zero.simps)
  qed
next
  case (GSlice t)
  have cop: "copyable t" using GSlice.prems by simp
  have conv: "(case t of GPtr u \<Rightarrow> convert_value l opt u | _ \<Rightarrow> convert_value l opt t) = convert_value l opt t"
    using cop by (cases t) simp_all
  show ?case
    unfolding copies_def
  proof (intro allI impI)
    fix src path
    assume src: "well_typed src" "maps_ok src" "type_of src = GSlice t"
    then obtain vs where vs: "src = RSlice t vs" by (cases src) auto
    define xs where "xs = (case vs of None \<Rightarrow> [] | Some xs \<Rightarrow> xs)"
    have xs: "\<forall>x \<in> set xs. well_typed x \<and> maps_ok x \<and> type_of x = t" using src by (cases vs) (simp_all add: vs xs_def)
    have "array_step (convert_value l opt t) x (zero t) p = Done (filled x, None)" if "x \<in> set xs" for x p
    proof -
      have x: "well_typed x" "maps_ok x" "type_of x = t" using xs that by simp_all
      have "array_step (convert_value l opt t) x (zero t) p = convert_value l opt t x (zero t) p"
        using cop x(3) by (cases t; cases x) (auto simp: array_step_def pointer_step_def deref_source_def conv_elem_def alloc_elem_def)
      then show ?thesis using copiesD [OF GSlice.IH [OF cop] x] by simp
    qed
    then have loop: "array_loop (\<lambda>i s x. array_step (convert_value l opt t) s x (path @ ''['' @ dec_nat i @ ''].'')) 0 xs
        (replicate (length xs) (zero t)) = Done (map filled xs, None)"
      by (intro array_loop_copies) simp
    have "elements_of src = Some xs" by (cases vs) (simp_all add: elements_of_def vs xs_def)
    then have "convert_to_array (convert_value l opt t) src (zero (GSlice t)) path = Done (RSlice t (Some (map filled xs)), None)"
      using loop by (simp add: convert_to_array_def fill_slice_def make_slice_def map_done_def)
    moreover have "filled src = RSlice t (Some (map filled xs))" by (cases vs) (simp_all add: vs xs_def)
    ultimately show "convert_value l opt (GSlice t) src (zero (GSlice t)) path = Done (filled src, None)"
      by (simp only: convert_value.simps conv with_source_def) (simp add: open_source_def vs)
  qed
next
  case (GMap k t)
  have cop: "copyable t" using GMap.prems by simp
  have opt: "\<not> co_ignore_empty opt" using assms(1) by (simp add: plain_options_def)
  show ?case
    unfolding copies_def
  proof (intro allI impI)
    fix src path
    assume src: "well_typed src" "maps_ok src" "type_of src = GMap k t"
    then obtain m where m: "src = RMap k t m" by (cases src) auto
    define kvs where "kvs = (case m of None \<Rightarrow> [] | Some kvs \<Rightarrow> kvs)"
    have "\<forall>p \<in> set kvs. type_of (fst p) = k \<and> well_typed (snd p) \<and> maps_ok (snd p) \<and> type_of (snd p) = t"
    proof
      fix p assume "p \<in> set kvs"
      then show "type_of (fst p) = k \<and> well_typed (snd p) \<and> maps_ok (snd p) \<and> type_of (snd p) = t"
        using src by (cases m) (simp_all add: m kvs_def)
    qed
    moreover have "distinct (map fst kvs)" using src(2) by (cases m) (simp_all add: m kvs_def)
    ultimately have "map_loop l opt (convert_value l opt t) k t kvs [] path = Done ([] @ map (\<lambda>p. (fst p, filled (snd p))) kvs, None)"
      by (intro map_loop_copies [OF opt GMap.IH(2) [OF cop]]) simp_all
    then have "convert_to_map l opt (convert_value l opt t) src (zero (GMap k t)) path =
        Done (RMap k t (Some (map (\<lambda>p. (fst p, filled (snd p))) kvs)), None)"
      by (simp add: convert_to_map_def m kvs_def map_done_def)
    moreover have "filled src = RMap k t (Some (map (\<lambda>p. (fst p, filled (snd p))) kvs))" by (cases m) (simp_all add: m kvs_def)
    ultimately show "convert_value l opt (GMap k t) src (zero (GMap k t)) path = Done (filled src, None)"
      by (simp only: convert_value.simps with_source_def) (simp add: open_source_def m)
  qed
qed (use assms(1) in \<open>simp_all add: basic_copies\<close>)




text \<open>An array in the target panics, whatever list the source is.\<close>

lemma arrays_panic:
  "elements_of src = Some xs \<Longrightarrow> \<exists>p. convert_value l opt (GArray n t) src (RArray t ys) path = Panic p"
  by (cases src) (auto simp: elements_of_def with_source_def open_source_def convert_to_array_def)

text \<open>A struct without exported fields, like \<open>time.Time\<close>, leaves the target as it was, without an error.\<close>

lemma opaque_struct_not_copied:
  assumes "\<forall>f \<in> set fs. \<not> is_exported (fst f)" "\<not> co_validate opt" "type_of tgt = GStruct n (field_types fs)"
  shows "convert_value l opt (GStruct n (field_types fs)) (RStruct n fs) tgt path = Done (tgt, None)"
proof -
  have "filter (\<lambda>f. is_exported (fst f)) fs = []" using assms(1) by (simp add: filter_empty_conv)
  moreover obtain tfs where "tgt = RStruct n tfs" using assms(3) by (cases tgt) auto
  ultimately show ?thesis
    using assms(2) by (simp add: with_source_def open_source_def convert_to_struct_def struct_source_def validate_struct_def)
qed

subsection \<open>Rules that cannot be used\<close>

lemma fields_by_pieces: "\<forall>c \<in> set acc. \<not> f c \<Longrightarrow> x \<in> set (fields_by f acc s) \<Longrightarrow> c \<in> set x \<Longrightarrow> \<not> f c"
proof (induction s arbitrary: acc)
  case Nil
  then show ?case by (cases "acc = []") auto
next
  case (Cons a s)
  show ?case
  proof (cases "f a")
    case True
    then have "x = acc \<or> x \<in> set (fields_by f [] s)" using Cons.prems(2) by (cases "acc = []") auto
    then show ?thesis using Cons.IH [of "[]"] Cons.prems(1,3) by auto
  next
    case False
    show ?thesis by (rule Cons.IH [of "acc @ [a]"]) (use Cons.prems False in auto)
  qed
qed

lemma trim_space_subset: "set (trim_space s) \<subseteq> set s"
proof
  fix c assume "c \<in> set (trim_space s)"
  then obtain p where p: "p \<in> set (trim_segments (segments s))" "c \<in> set (snd p)" by (auto simp: trim_space_def)
  then have "p \<in> set (segments s)" by (auto simp: trim_segments_def dest!: set_dropWhileD)
  then have "c \<in> set (concat (map snd (segments s)))" using p(2) by auto
  then show "c \<in> set s" by (simp add: segments_bytes)
qed

lemma parse_tag_value:
  assumes "parse_tag s = Some t" "c \<notin> set s"
  shows "c \<notin> set (tag_value t)"
proof -
  have sub: "set (hd (str_split '','' s)) \<subseteq> set s"
    using str_index_split [of s "'',''"] by (subst str_split.simps) (auto split: option.splits dest: in_set_takeD)
  define main where "main = trim_space (hd (str_split '','' s))"
  have "c \<notin> set main" using sub trim_space_subset [of "hd (str_split '','' s)"] assms(2) by (auto simp: main_def)
  then have "c \<notin> set (trim_space (drop (Suc i) main))" for i
    using trim_space_subset [of "drop (Suc i) main"] by (auto dest: in_set_dropD)
  then show ?thesis
    using assms(1) by (auto simp: parse_tag_def Let_def bare_tag_def main_def [symmetric] split: if_splits option.splits)
qed

text \<open>C0. A rule is cut at commas and blanks before it is read, so no value a rule reads has a comma, and the rule \<open>between\<close>,
  whose value is two numbers with a comma between them, always fails: a struct with that rule on a field is never valid.\<close>

theorem between_unusable:
  assumes "t \<in> set (parse_all s)" "tag_name t = ''between''"
  shows "create_validator t = Inl BetweenTwo"
proof -
  obtain part where part: "part \<in> set (fields_by (\<lambda>c. c = CHR '' '' \<or> c = CHR '','') [] s)" "parse_tag (trim_space part) = Some t"
    using assms(1) by (auto simp: parse_all_def List.map_filter_def Let_def split: if_splits)
  have "CHR '','' \<notin> set part" using fields_by_pieces [OF _ part(1), of "CHR '',''"] by auto
  then have "CHR '','' \<notin> set (trim_space part)" using trim_space_subset by blast
  then have "CHR '','' \<notin> set (tag_value t)" by (rule parse_tag_value [OF part(2)])
  then show ?thesis using assms(2) by (simp add: create_validator_def Let_def str_split_none)
qed

lemma between_unusable_witness:
  "create_validator (bare_tag ''between'' ''1'' ''between:1'') = Inl BetweenTwo"
proof (rule between_unusable)
  have t: "trim_space ''between:1'' = ''between:1''" "trim_space ''between'' = ''between''" "trim_space ''1'' = ''1''"
    by (intro trim_space_id, simp add: no_outer_space_def segments_ascii_Cons rune_is_space_def)+
  have "str_index ''between:1'' '':'' = Some 7" by (simp add: has_prefix_def)
  then show "bare_tag ''between'' ''1'' ''between:1'' \<in> set (parse_all ''between:1'')"
    by (simp add: parse_all_def List.map_filter_def Let_def t parse_tag_def str_split_none ignore_tag_def parse_options_def bare_tag_def)
qed (simp add: bare_tag_def)

end
