(* ===== verification/WebParam.thy ===== *)
theory WebParam
  imports Converter
begin

text \<open>
  frame/pkg/web/param.go: the parameters of a handler, read from the body, the query, the path, the headers and the form
  of a request, with defaults and validation. The binding of the body (\<open>ShouldBind\<close>) and the struct validator of
  go-playground are parameters; values are those of the theory Converter.
\<close>

subsection \<open>Fields and requests\<close>

text \<open>A field of a parameter struct: its name, the values of its tag, whether its type is called \<open>Meta\<close>, whether it is
  exported, and its type.\<close>

record param_field =
  pf_name :: string
  pf_tags :: struct_field
  pf_is_meta :: bool
  pf_exported :: bool
  pf_type :: gtype

datatype param_source = FromQuery | FromPath | FromHeader | FromBody | FromForm | FromOther string

definition param_source :: "string \<Rightarrow> param_source" where
  "param_source s =
     (if s = ''query'' then FromQuery else if s = ''path'' then FromPath else if s = ''header'' then FromHeader
      else if s = ''body'' then FromBody else if s = ''form'' then FromForm else FromOther s)"

record param_meta =
  pm_name :: string
  pm_source :: param_source
  pm_type :: gtype
  pm_default :: string

definition parse_param_meta :: "param_field \<Rightarrow> param_meta" where
  "parse_param_meta f =
     \<lparr>pm_name = (if get_tag_value (pf_tags f) ''name'' \<noteq> [] then get_tag_value (pf_tags f) ''name''
                 else if get_tag_value (pf_tags f) ''json'' \<noteq> [] then get_tag_value (pf_tags f) ''json'' else pf_name f),
      pm_source = (if get_tag_value (pf_tags f) ''source'' \<noteq> [] then param_source (get_tag_value (pf_tags f) ''source'') else FromBody),
      pm_type = pf_type f,
      pm_default = get_tag_value (pf_tags f) ''d''\<rparr>"

record request =
  rq_query :: "string \<Rightarrow> string"
  rq_path :: "string \<Rightarrow> string"
  rq_header :: "string \<Rightarrow> string"
  rq_form :: "string \<Rightarrow> string"

text \<open>An error of the struct validator: its list of failed fields (field, tag, parameter), or another error.\<close>

datatype struct_errors = Fields "(string \<times> string \<times> string) list" | OtherError string

record weblib =
  wb_conv :: conv_lib
  wb_bind :: "rval list \<Rightarrow> rval list \<times> string option"
  wb_validate :: "rval list \<Rightarrow> struct_errors option"

datatype param_error = BindError string | ValueError string gtype | DefaultError string param_error | StructError string
  | RuleError string string | BadParam

subsection \<open>Setting a field\<close>

definition set_field_value :: "conv_lib \<Rightarrow> rval \<Rightarrow> string \<Rightarrow> param_error + rval" where
  "set_field_value l v s =
     (if s = [] then Inr v
      else let bad = Inl (ValueError s (type_of v)) in
      case type_of v of
        GString \<Rightarrow> Inr (RStr s)
      | GInt w \<Rightarrow> (case parse_int s 10 of Inl e \<Rightarrow> bad | Inr n \<Rightarrow> Inr (RInt w (cut_int w n)))
      | GUint w \<Rightarrow> (case parse_uint64 s of None \<Rightarrow> bad | Some n \<Rightarrow> Inr (RUint w (cut_uint w n)))
      | GFloat32 \<Rightarrow> (case cl_parse_float l s of None \<Rightarrow> bad | Some q \<Rightarrow> Inr (RF32 (cl_float32 l q)))
      | GFloat64 \<Rightarrow> (case cl_parse_float l s of None \<Rightarrow> bad | Some q \<Rightarrow> Inr (RF64 q))
      | GBool \<Rightarrow> (case parse_bool s of None \<Rightarrow> bad | Some b \<Rightarrow> Inr (RBool b))
      | GSlice t \<Rightarrow> Inr (if t = GString then RSlice GString (Some (map RStr (str_split '','' s))) else v)
      | _ \<Rightarrow> bad)"

definition set_from_query :: "conv_lib \<Rightarrow> request \<Rightarrow> string \<Rightarrow> rval \<Rightarrow> param_error + rval" where
  "set_from_query l r n v = set_field_value l v (rq_query r n)"

definition set_from_path :: "conv_lib \<Rightarrow> request \<Rightarrow> string \<Rightarrow> rval \<Rightarrow> param_error + rval" where
  "set_from_path l r n v = set_field_value l v (rq_path r n)"

definition set_from_header :: "conv_lib \<Rightarrow> request \<Rightarrow> string \<Rightarrow> rval \<Rightarrow> param_error + rval" where
  "set_from_header l r n v = set_field_value l v (rq_header r n)"

definition set_from_form :: "conv_lib \<Rightarrow> request \<Rightarrow> string \<Rightarrow> rval \<Rightarrow> param_error + rval" where
  "set_from_form l r n v = set_field_value l v (rq_form r n)"

text \<open>The value of one field after the body was bound: its source, then its default when it is zero.\<close>

definition from_source :: "conv_lib \<Rightarrow> request \<Rightarrow> param_meta \<Rightarrow> rval \<Rightarrow> param_error + rval" where
  "from_source l r m v =
     (case pm_source m of
        FromQuery \<Rightarrow> set_from_query l r (pm_name m) v
      | FromPath \<Rightarrow> set_from_path l r (pm_name m) v
      | FromHeader \<Rightarrow> set_from_header l r (pm_name m) v
      | FromForm \<Rightarrow> set_from_form l r (pm_name m) v
      | FromBody \<Rightarrow> Inr v
      | FromOther s \<Rightarrow> Inr v)"

definition with_default :: "conv_lib \<Rightarrow> param_field \<Rightarrow> string \<Rightarrow> rval \<Rightarrow> param_error + rval" where
  "with_default l f d v =
     (if d \<noteq> [] \<and> v = zero (type_of v) then
        (case set_field_value l v d of Inl e \<Rightarrow> Inl (DefaultError (pf_name f) e) | Inr v' \<Rightarrow> Inr v')
      else Inr v)"

definition field_param :: "conv_lib \<Rightarrow> request \<Rightarrow> param_field \<Rightarrow> rval \<Rightarrow> param_error + rval" where
  "field_param l r f v =
     (if \<not> pf_exported f \<or> pf_is_meta f then Inr v
      else let m = parse_param_meta f in
      case from_source l r m v of Inl e \<Rightarrow> Inl e | Inr v' \<Rightarrow> with_default l f (pm_default m) v')"

fun params_loop :: "conv_lib \<Rightarrow> request \<Rightarrow> (param_field \<times> rval) list \<Rightarrow> param_error + rval list" where
  "params_loop l r [] = Inr []"
| "params_loop l r ((f, v) # fvs) =
     (case field_param l r f v of
        Inl e \<Rightarrow> Inl e
      | Inr v' \<Rightarrow> (case params_loop l r fvs of Inl e \<Rightarrow> Inl e | Inr vs \<Rightarrow> Inr (v' # vs)))"

definition has_body_fields :: "param_field list \<Rightarrow> bool" where
  "has_body_fields fs = list_ex (\<lambda>f. pf_exported f \<and> \<not> pf_is_meta f \<and>
     (get_tag_value (pf_tags f) ''source'' = [] \<or> get_tag_value (pf_tags f) ''source'' = ''body'')) fs"

subsection \<open>Validation\<close>

text \<open>A rule with an unreadable number, and a rule with an unknown name, is skipped.\<close>

definition number_rule :: "venv \<Rightarrow> string \<Rightarrow> (int \<Rightarrow> validator) \<Rightarrow> tval \<Rightarrow> verdict" where
  "number_rule v s f x = (case atoi s of Inl e \<Rightarrow> valid | Inr n \<Rightarrow> validate v (f n) x)"

definition validate_with_tag :: "venv \<Rightarrow> tag \<Rightarrow> tval \<Rightarrow> verdict" where
  "validate_with_tag v t x =
     (let n = tag_name t in
      if n = ''required'' then validate v VRequired x
      else if n = ''email'' then validate v VEmail x
      else if n = ''phone'' then validate v VPhone x
      else if n = ''phone-loose'' then validate v VPhoneLoose x
      else if n = ''telephone'' then validate v VTelephone x
      else if n = ''password'' then validate v VPassword x
      else if n = ''password2'' then validate v VPassword2 x
      else if n = ''min'' then number_rule v (tag_value t) VMin x
      else if n = ''max'' then number_rule v (tag_value t) VMax x
      else if n = ''length'' then number_rule v (tag_value t) VLength x
      else if n = ''pattern'' then validate v (VPattern (tag_value t)) x
      else if n = ''date'' then validate v VDate x
      else if n = ''datetime'' then validate v VDateTime x
      else if n = ''date-format'' then validate v (VDateFormat (tag_value t)) x
      else if n = ''array'' then validate v VArray x
      else if n = ''enum'' then validate v (VEnums (str_split '','' (tag_value t))) x
      else if n = ''format'' then validate v (VFormat (tag_value t)) x
      else valid)"

type_synonym param_check = "param_error option outcome"

fun validate_with_landc_tools :: "venv \<Rightarrow> string \<Rightarrow> tag list \<Rightarrow> tval \<Rightarrow> param_check" where
  "validate_with_landc_tools v n [] x = Done None"
| "validate_with_landc_tools v n (t # ts) x =
     (case validate_with_tag v t x of
        Done None \<Rightarrow> validate_with_landc_tools v n ts x
      | Done (Some e) \<Rightarrow> Done (Some (RuleError n e))
      | Panic p \<Rightarrow> Panic p
      | Blocked \<Rightarrow> Blocked)"

definition validate_param_field :: "venv \<Rightarrow> param_field \<Rightarrow> rval \<Rightarrow> param_check" where
  "validate_param_field v f x =
     (if get_tag_value (pf_tags f) ''binding'' \<noteq> [] then Done None
      else validate_with_landc_tools v (pf_name f) (parse_all (pf_tags f ''validate'')) (dyn x))"

fun validate_params :: "venv \<Rightarrow> (param_field \<times> rval) list \<Rightarrow> param_check" where
  "validate_params v [] = Done None"
| "validate_params v ((f, x) # fvs) =
     (if \<not> pf_exported f then validate_params v fvs
      else case validate_param_field v f x of Done None \<Rightarrow> validate_params v fvs | r \<Rightarrow> r)"

definition field_message :: "string \<times> string \<times> string \<Rightarrow> string" where
  "field_message e =
     (case e of (n, t, p) \<Rightarrow>
        if t = ''required'' then n @ '' is required''
        else if t = ''email'' then n @ '' must be a valid email''
        else if t = ''min'' then n @ '' must be at least '' @ p
        else if t = ''max'' then n @ '' must be at most '' @ p
        else if t = ''len'' then n @ '' must be '' @ p @ '' characters''
        else if t = ''gt'' then n @ '' must be greater than '' @ p
        else if t = ''gte'' then n @ '' must be greater than or equal to '' @ p
        else if t = ''lt'' then n @ '' must be less than '' @ p
        else if t = ''lte'' then n @ '' must be less than or equal to '' @ p
        else n @ '' validation failed on '' @ t)"

definition format_validation_error :: "struct_errors \<Rightarrow> string" where
  "format_validation_error e =
     (case e of
        Fields es \<Rightarrow> ''validation failed: '' @ join_strs ''; '' (map field_message es)
      | OtherError s \<Rightarrow> s)"

subsection \<open>The parameters of a request\<close>

definition bind_body :: "weblib \<Rightarrow> param_field list \<Rightarrow> param_error + rval list" where
  "bind_body w fs =
     (let vs = map (\<lambda>f. zero (pf_type f)) fs in
      if \<not> has_body_fields fs then Inr vs
      else case wb_bind w vs of
        (vs', None) \<Rightarrow> Inr vs'
      | (vs', Some e) \<Rightarrow> if e \<noteq> ''EOF'' then Inl (BindError e) else Inr vs')"

definition parse_params_from_context :: "weblib \<Rightarrow> request \<Rightarrow> param_field list \<Rightarrow> (param_error + rval list) outcome" where
  "parse_params_from_context w r fs =
     (case bind_body w fs of
        Inl e \<Rightarrow> Done (Inl e)
      | Inr vs \<Rightarrow>
          (case params_loop (wb_conv w) r (zip fs vs) of
             Inl e \<Rightarrow> Done (Inl e)
           | Inr vs' \<Rightarrow>
               (case wb_validate w vs' of
                  Some e \<Rightarrow> Done (Inl (StructError (format_validation_error e)))
                | None \<Rightarrow>
                    (case validate_params (cl_venv (wb_conv w)) (zip fs vs') of
                       Done None \<Rightarrow> Done (Inr vs')
                     | Done (Some e) \<Rightarrow> Done (Inl e)
                     | Panic p \<Rightarrow> Panic p
                     | Blocked \<Rightarrow> Blocked))))"

subsection \<open>What a handler receives\<close>

lemma params_loop_nth:
  "params_loop l r fvs = Inr vs \<Longrightarrow> length vs = length fvs \<and>
     (\<forall>i < length fvs. field_param l r (fst (fvs ! i)) (snd (fvs ! i)) = Inr (vs ! i))"
proof (induction fvs arbitrary: vs)
  case (Cons fv fvs)
  obtain f v where fv: "fv = (f, v)" by (cases fv)
  obtain v' vs' where v': "field_param l r f v = Inr v'" "params_loop l r fvs = Inr vs'" "vs = v' # vs'"
    using Cons.prems by (auto simp: fv split: sum.splits)
  show ?case using Cons.IH [OF v'(2)] v' by (auto simp: fv less_Suc_eq_0_disj)
qed simp

lemma validate_with_landc_tools_None:
  "validate_with_landc_tools v n ts x = Done None \<longleftrightarrow> (\<forall>t \<in> set ts. validate_with_tag v t x = valid)"
  by (induction ts) (auto split: outcome.splits option.splits)

lemma validate_params_None:
  "validate_params v fvs = Done None \<longleftrightarrow> (\<forall>(f, x) \<in> set fvs. pf_exported f \<longrightarrow> validate_param_field v f x = Done None)"
proof (induction fvs)
  case (Cons fv fvs)
  obtain f x where fv: "fv = (f, x)" by (cases fv)
  show ?case
  proof (cases "pf_exported f")
    case True
    then have "validate_params v (fv # fvs) = Done None \<longleftrightarrow> validate_param_field v f x = Done None \<and> validate_params v fvs = Done None"
      by (auto simp: fv split: outcome.splits option.splits)
    then show ?thesis using Cons True by (simp add: fv)
  next
    case False
    then show ?thesis using Cons by (simp add: fv)
  qed
qed simp

lemma parse_params_runs:
  assumes "parse_params_from_context w r fs = Done (Inr vs)"
  obtains bs where "bind_body w fs = Inr bs" "params_loop (wb_conv w) r (zip fs bs) = Inr vs" "wb_validate w vs = None"
    "validate_params (cl_venv (wb_conv w)) (zip fs vs) = Done None"
  using assms by (auto simp: parse_params_from_context_def split: sum.splits option.splits outcome.splits)

text \<open>The text a source gives for a field; a body field has none of its own.\<close>

definition given_text :: "request \<Rightarrow> param_meta \<Rightarrow> string" where
  "given_text r m =
     (case pm_source m of
        FromQuery \<Rightarrow> rq_query r (pm_name m)
      | FromPath \<Rightarrow> rq_path r (pm_name m)
      | FromHeader \<Rightarrow> rq_header r (pm_name m)
      | FromForm \<Rightarrow> rq_form r (pm_name m)
      | _ \<Rightarrow> [])"


text \<open>A header parameter that the request does not send is taken from the body.\<close>

definition user_field :: param_field where
  "user_field = \<lparr>pf_name = ''User'', pf_tags = (\<lambda>k. if k = ''source'' then ''header'' else if k = ''name'' then ''X-User'' else []),
     pf_is_meta = False, pf_exported = True, pf_type = GString\<rparr>"

definition note_field :: param_field where
  "note_field = \<lparr>pf_name = ''Note'', pf_tags = (\<lambda>k. []), pf_is_meta = False, pf_exported = True, pf_type = GString\<rparr>"

definition demo_weblib :: "rval list \<Rightarrow> weblib" where
  "demo_weblib body = \<lparr>wb_conv = demo_lib, wb_bind = (\<lambda>vs. (body, None)), wb_validate = (\<lambda>vs. None)\<rparr>"

definition empty_request :: request where
  "empty_request = \<lparr>rq_query = (\<lambda>n. []), rq_path = (\<lambda>n. []), rq_header = (\<lambda>n. []), rq_form = (\<lambda>n. [])\<rparr>"


end
