(* ===== verification/Scheduler.thy ===== *)
theory Scheduler
  imports MemStore ServiceRegistry
begin

text \<open>
  workflow/pkg/scheduler/scheduler.go over the memory store: start and stop, the three
  background loops and the goroutines that dispatch polled tasks. A world holds the scheduler,
  the store it shares with the engine, the state of the service registry (a parameter, None for
  the nil registry) and the dispatch goroutines with the task snapshots they own. Every action
  of one goroutine up to its next store call is a step; a run is any sequence of steps, mixed
  with store calls of others. \<open>RegisterWorker\<close> and \<open>GetPendingTasks\<close> of the memory store answer
  no error, so the branches that handle one are not reachable here; log lines are left out.
\<close>

subsection \<open>Configuration and state\<close>

record scheduler_config =
  sc_poll_interval :: duration
  sc_batch_size :: int
  sc_heartbeat_interval :: duration
  sc_dead_worker_timeout :: duration
  sc_task_lock_ttl :: duration
  sc_enable_auto_remove :: bool
  sc_service_name :: string
  sc_service_port :: int

definition default_scheduler_config :: scheduler_config where
  "default_scheduler_config =
     \<lparr>sc_poll_interval = 2 * second, sc_batch_size = 20, sc_heartbeat_interval = 10 * second,
      sc_dead_worker_timeout = 30 * second, sc_task_lock_ttl = 60 * second,
      sc_enable_auto_remove = True, sc_service_name = ''workflow-worker'', sc_service_port = 0\<rparr>"

datatype sched_loop = HeartbeatLoop | PollLoop | CleanupLoop

text \<open>\<open>sd_ctx\<close> tells whether the context is alive, \<open>sd_stopping\<close> that \<open>Stop\<close> holds the mutex and
  waits for the loops; the flag of a loop tells whether its ticker has been made.\<close>

record scheduler =
  sd_worker_id :: string
  sd_worker_grp :: string
  sd_address :: string
  sd_config :: scheduler_config
  sd_running :: bool
  sd_ctx :: bool
  sd_stopping :: bool
  sd_loops :: "(sched_loop, bool) gomap"

definition new_scheduler :: "time \<Rightarrow> string \<Rightarrow> string \<Rightarrow> string \<Rightarrow> scheduler_config \<Rightarrow> scheduler" where
  "new_scheduler now i grp addr c =
     \<lparr>sd_worker_id = (if i = [] then ''wf-worker-'' @ dec_of now else i), sd_worker_grp = grp,
      sd_address = addr, sd_config = c, sd_running = False, sd_ctx = False, sd_stopping = False,
      sd_loops = []\<rparr>"

text \<open>The registry of services, as the scheduler calls it.\<close>

record 'r registrar =
  rg_register :: "service_instance \<Rightarrow> 'r \<Rightarrow> gerr option \<times> 'r"
  rg_deregister :: "service_instance \<Rightarrow> 'r \<Rightarrow> gerr option \<times> 'r"

text \<open>A dispatch goroutine before its lookup of the execution, and before its write.\<close>

datatype dispatch = Looking task | Skipping task

record 'r sched_world =
  sw_sd :: scheduler
  sw_store :: mem_store
  sw_reg :: 'r
  sw_goroutines :: "dispatch list"
  sw_now :: time

subsection \<open>Start and stop\<close>

definition worker_instance :: "scheduler \<Rightarrow> service_instance" where
  "worker_instance sd =
     \<lparr>si_id = sd_worker_id sd, si_name = sc_service_name (sd_config sd), si_version = [],
      si_address = sd_address sd, si_port = sc_service_port (sd_config sd),
      si_metadata = [(''group'', sd_worker_grp sd), (''type'', ''workflow-worker'')], si_weight = 1\<rparr>"

definition db_worker :: "scheduler \<Rightarrow> time \<Rightarrow> worker" where
  "db_worker sd now =
     \<lparr>wk_id = sd_worker_id sd, wk_address = sd_address sd, wk_group = sd_worker_grp sd,
      wk_status = ''ACTIVE'', wk_tags = [], wk_heartbeat = now, wk_started_at = now,
      wk_created_at = 0, wk_updated_at = 0\<rparr>"

text \<open>\<open>live\<close> is the state of the context that the caller passes.\<close>

definition sched_start :: "'r registrar option \<Rightarrow> bool \<Rightarrow> 'r sched_world \<Rightarrow>
    gerr option \<times> 'r sched_world" where
  "sched_start reg live w =
     (let sd = sw_sd w
      in if sd_running sd then (Some (ErrMsg ''scheduler already running''), w)
         else let sd1 = sd\<lparr>sd_ctx := live, sd_running := True\<rparr>;
                  loops = (PollLoop, False) #
                    (if sc_enable_auto_remove (sd_config sd) then [(CleanupLoop, False)] else [])
              in (case reg of
                    Some g \<Rightarrow> (case rg_register g (worker_instance sd) (sw_reg w) of
                        (Some e, r) \<Rightarrow>
                          (Some (ErrMsg (''etcd register worker failed: '' @ gerr_text e)),
                           w\<lparr>sw_sd := sd1\<lparr>sd_running := False\<rparr>, sw_reg := r\<rparr>)
                      | (None, r) \<Rightarrow> (None, w\<lparr>sw_sd := sd1\<lparr>sd_loops := loops\<rparr>, sw_reg := r\<rparr>))
                  | None \<Rightarrow> (None,
                      w\<lparr>sw_sd := sd1\<lparr>sd_loops := (HeartbeatLoop, False) # loops\<rparr>,
                        sw_store := register_worker (sw_store w) (db_worker sd (sw_now w))\<rparr>)))"

text \<open>\<open>Stop\<close> up to \<open>wg.Wait\<close>, and after it; the error of the registry is only logged.\<close>

definition stop_begin :: "'r sched_world \<Rightarrow> 'r sched_world" where
  "stop_begin w = (if \<not> sd_running (sw_sd w) then w
     else w\<lparr>sw_sd := (sw_sd w)\<lparr>sd_ctx := False, sd_stopping := True\<rparr>\<rparr>)"

definition stop_finish :: "'r registrar option \<Rightarrow> 'r sched_world \<Rightarrow> 'r sched_world" where
  "stop_finish reg w =
     (let sd = sw_sd w;
          r = (case reg of None \<Rightarrow> sw_reg w
               | Some g \<Rightarrow> snd (rg_deregister g
                   \<lparr>si_id = sd_worker_id sd, si_name = sc_service_name (sd_config sd),
                    si_version = [], si_address = sd_address sd, si_port = 0, si_metadata = [],
                    si_weight = 0\<rparr> (sw_reg w)))
      in w\<lparr>sw_sd := sd\<lparr>sd_running := False, sd_stopping := False\<rparr>, sw_reg := r\<rparr>)"

subsection \<open>The loops\<close>

definition heartbeat :: "'r sched_world \<Rightarrow> 'r sched_world" where
  "heartbeat w = w\<lparr>sw_store := fst (settle (sw_store w)
     (update_worker_heartbeat (sw_now w) (sw_store w) (sd_worker_id (sw_sd w))))\<rparr>"

text \<open>\<open>int64(d.Seconds())\<close>: the sum of floats is below the next second while the duration is
  below \<open>2^22\<close> seconds.\<close>

definition whole_seconds :: "duration \<Rightarrow> int" where
  "whole_seconds d = (if d < 0 then - (- d div second) else d div second)"

definition poll_and_dispatch :: "'r sched_world \<Rightarrow> 'r sched_world" where
  "poll_and_dispatch w = w\<lparr>sw_goroutines := sw_goroutines w @ map Looking
     (get_pending_tasks (sw_store w) (sw_now w div second) (sc_batch_size (sd_config (sw_sd w))))\<rparr>"

fun loop_tick :: "sched_loop \<Rightarrow> 'r sched_world \<Rightarrow> 'r sched_world" where
  "loop_tick HeartbeatLoop w = heartbeat w"
| "loop_tick PollLoop w = poll_and_dispatch w"
| "loop_tick CleanupLoop w = w\<lparr>sw_store := remove_dead_workers (sw_now w) (sw_store w)
     (whole_seconds (sc_dead_worker_timeout (sd_config (sw_sd w))))\<rparr>"

fun loop_interval :: "scheduler_config \<Rightarrow> sched_loop \<Rightarrow> duration" where
  "loop_interval c HeartbeatLoop = sc_heartbeat_interval c"
| "loop_interval c PollLoop = sc_poll_interval c"
| "loop_interval c CleanupLoop = wrap64 (2 * sc_heartbeat_interval c)"

text \<open>A loop begins by making its ticker, which panics on an interval that is not positive;
  the heartbeat loop then sends its first heartbeat.\<close>

definition loop_begin :: "sched_loop \<Rightarrow> 'r sched_world \<Rightarrow> 'r sched_world outcome" where
  "loop_begin l w =
     (if loop_interval (sd_config (sw_sd w)) l \<le> 0 then Panic ''non-positive interval for NewTicker''
      else let w1 = w\<lparr>sw_sd := (sw_sd w)\<lparr>sd_loops := gm_put l True (sd_loops (sw_sd w))\<rparr>\<rparr>
           in Done (if l = HeartbeatLoop then heartbeat w1 else w1))"

definition loop_exit :: "sched_loop \<Rightarrow> 'r sched_world \<Rightarrow> 'r sched_world" where
  "loop_exit l w = w\<lparr>sw_sd := (sw_sd w)\<lparr>sd_loops := gm_del l (sd_loops (sw_sd w))\<rparr>\<rparr>"

subsection \<open>Dispatching a task\<close>

text \<open>\<open>dispatchTask\<close>: the lookup decides whether the goroutine ends or writes its snapshot.\<close>

definition dispatch_task :: "mem_store \<Rightarrow> task \<Rightarrow> dispatch option" where
  "dispatch_task s t = (case get_execution s (tk_execution_id t) of
       Inl err \<Rightarrow> None
     | Inr e \<Rightarrow> if execution_is_final e \<or> ex_status e = ExPaused
               then Some (Skipping (t\<lparr>tk_status := TkSkipped\<rparr>)) else None)"

definition drop_nth :: "nat \<Rightarrow> 'a list \<Rightarrow> 'a list" where
  "drop_nth k xs = take k xs @ drop (Suc k) xs"

definition goroutine_step :: "nat \<Rightarrow> 'r sched_world \<Rightarrow> 'r sched_world" where
  "goroutine_step k w =
     (if length (sw_goroutines w) \<le> k then w
      else case sw_goroutines w ! k of
          Looking t \<Rightarrow> (case dispatch_task (sw_store w) t of
              None \<Rightarrow> w\<lparr>sw_goroutines := drop_nth k (sw_goroutines w)\<rparr>
            | Some d \<Rightarrow> w\<lparr>sw_goroutines := (sw_goroutines w)[k := d]\<rparr>)
        | Skipping t \<Rightarrow> w\<lparr>sw_store := fst (settle (sw_store w) (update_task (sw_store w) t)),
              sw_goroutines := drop_nth k (sw_goroutines w)\<rparr>)"

subsection \<open>Runs\<close>

text \<open>What can happen next: a call, a step of a loop or of a dispatch goroutine, the end of the
  caller's context, time, or a store call of somebody else. An action that is not possible in
  the world leaves it as it is.\<close>

datatype sched_action =
    CallStart bool | CallStop | StopFinish
  | LoopBegin sched_loop | LoopTick sched_loop | LoopExit sched_loop
  | Goroutine nat | ParentEnds | Elapse nat | StoreCall store_op

fun sched_act :: "'r registrar option \<Rightarrow> sched_action \<Rightarrow> 'r sched_world \<Rightarrow> 'r sched_world outcome" where
  "sched_act reg (CallStart live) w =
     Done (if sd_stopping (sw_sd w) then w else snd (sched_start reg live w))"
| "sched_act reg CallStop w = Done (if sd_stopping (sw_sd w) then w else stop_begin w)"
| "sched_act reg StopFinish w =
     Done (if sd_stopping (sw_sd w) \<and> sd_loops (sw_sd w) = [] then stop_finish reg w else w)"
| "sched_act reg (LoopBegin l) w =
     (if gm_get (sd_loops (sw_sd w)) l = Some False then loop_begin l w else Done w)"
| "sched_act reg (LoopTick l) w =
     Done (if gm_get (sd_loops (sw_sd w)) l = Some True then loop_tick l w else w)"
| "sched_act reg (LoopExit l) w =
     Done (if gm_get (sd_loops (sw_sd w)) l = Some True \<and> \<not> sd_ctx (sw_sd w)
           then loop_exit l w else w)"
| "sched_act reg (Goroutine k) w = Done (goroutine_step k w)"
| "sched_act reg ParentEnds w = Done (w\<lparr>sw_sd := (sw_sd w)\<lparr>sd_ctx := False\<rparr>\<rparr>)"
| "sched_act reg (Elapse d) w = Done (w\<lparr>sw_now := sw_now w + int d\<rparr>)"
| "sched_act reg (StoreCall a) w = Done (w\<lparr>sw_store := fst (store_step (sw_store w) a)\<rparr>)"

fun sched_run :: "'r registrar option \<Rightarrow> sched_action list \<Rightarrow> 'r sched_world \<Rightarrow> 'r sched_world outcome" where
  "sched_run reg [] w = Done w"
| "sched_run reg (a # as) w = bind_outcome (sched_act reg a w) (sched_run reg as)"

definition sched_world_of :: "scheduler \<Rightarrow> mem_store \<Rightarrow> 'r \<Rightarrow> time \<Rightarrow> 'r sched_world" where
  "sched_world_of sd s r now =
     \<lparr>sw_sd = sd, sw_store = s, sw_reg = r, sw_goroutines = [], sw_now = now\<rparr>"

subsection \<open>Facts about runs\<close>

lemma sched_run_induct [consumes 1, case_names nil step]:
  assumes "sched_run reg as w = Done w'" "P w"
    and step: "\<And>a v v'. a \<in> set as \<Longrightarrow> P v \<Longrightarrow> sched_act reg a v = Done v' \<Longrightarrow> P v'"
  shows "P w'"
  using assms
proof (induction as arbitrary: w)
  case Nil
  then show ?case by simp
next
  case (Cons a as)
  obtain v where a: "sched_act reg a w = Done v" and as: "sched_run reg as v = Done w'"
    using Cons.prems(1) by (auto simp: bind_outcome_Done_iff)
  have "P v" by (rule Cons.prems(3) [OF _ Cons.prems(2) a]) simp
  with as show ?case by (rule Cons.IH) (use Cons.prems(3) in auto)
qed

lemma sched_run_append:
  "sched_run reg (as @ bs) w = bind_outcome (sched_run reg as w) (sched_run reg bs)"
proof (induction as arbitrary: w)
  case (Cons a as)
  then show ?case by (cases "sched_act reg a w") simp_all
qed simp

lemmas sched_defs = sched_start_def stop_begin_def stop_finish_def heartbeat_def
  poll_and_dispatch_def loop_begin_def loop_exit_def goroutine_step_def Let_def

text \<open>The frame of an action: what it may do to the tasks and the executions.\<close>

lemma settle_heartbeat_frame [simp]:
  "ms_tasks (fst (settle s (update_worker_heartbeat now s i))) = ms_tasks s"
  "ms_executions (fst (settle s (update_worker_heartbeat now s i))) = ms_executions s"
  by (simp_all add: settle_def update_worker_heartbeat_def split: option.splits sum.splits)

lemma heartbeat_frame [simp]:
  "ms_tasks (sw_store (heartbeat w)) = ms_tasks (sw_store w)"
  "ms_executions (sw_store (heartbeat w)) = ms_executions (sw_store w)"
  "sw_goroutines (heartbeat w) = sw_goroutines w"
  "sw_sd (heartbeat w) = sw_sd w"
  by (simp_all add: heartbeat_def)

lemma loop_tick_frame:
  "ms_tasks (sw_store (loop_tick l w)) = ms_tasks (sw_store w)"
  "ms_executions (sw_store (loop_tick l w)) = ms_executions (sw_store w)"
  "sw_sd (loop_tick l w) = sw_sd w"
  "l \<noteq> PollLoop \<Longrightarrow> sw_goroutines (loop_tick l w) = sw_goroutines w"
  by (cases l; simp add: poll_and_dispatch_def remove_dead_workers_def Let_def)+

lemma sched_start_frame:
  "ms_tasks (sw_store (snd (sched_start reg live w))) = ms_tasks (sw_store w)"
  "ms_executions (sw_store (snd (sched_start reg live w))) = ms_executions (sw_store w)"
  "sw_goroutines (snd (sched_start reg live w)) = sw_goroutines w"
  by (simp_all add: sched_start_def register_worker_def Let_def split: option.splits prod.splits)

subsection \<open>The life cycle\<close>

definition expected_loops :: "'r registrar option \<Rightarrow> scheduler_config \<Rightarrow> sched_loop set" where
  "expected_loops reg c = {PollLoop} \<union> (if reg = None then {HeartbeatLoop} else {}) \<union>
     (if sc_enable_auto_remove c then {CleanupLoop} else {})"

definition sched_ok :: "'r registrar option \<Rightarrow> scheduler \<Rightarrow> bool" where
  "sched_ok reg sd \<longleftrightarrow> gm_ok (sd_loops sd) \<and>
     fst ` set (sd_loops sd) \<subseteq> expected_loops reg (sd_config sd) \<and>
     (\<not> sd_running sd \<longrightarrow> sd_loops sd = [] \<and> \<not> sd_stopping sd) \<and>
     (sd_stopping sd \<longrightarrow> \<not> sd_ctx sd)"

lemma sched_ok_start: "sched_ok reg (sw_sd w) \<Longrightarrow> sched_ok reg (sw_sd (snd (sched_start reg live w)))"
  by (cases reg) (auto simp: sched_ok_def sched_start_def expected_loops_def gm_ok_def Let_def
      split: prod.splits option.splits)

lemma sched_ok_act:
  assumes ok: "sched_ok reg (sw_sd w)" and act: "sched_act reg a w = Done w'"
  shows "sched_ok reg (sw_sd w') \<and> sd_config (sw_sd w') = sd_config (sw_sd w)"
proof (cases a)
  case (CallStart live)
  then show ?thesis
    using act sched_ok_start [OF ok, of live] ok
    by (auto simp: sched_start_def Let_def split: option.splits prod.splits if_splits)
next
  case (LoopBegin l)
  show ?thesis
  proof (cases "gm_get (sd_loops (sw_sd w)) l = Some False")
    case True
    let ?w1 = "w\<lparr>sw_sd := (sw_sd w)\<lparr>sd_loops := gm_put l True (sd_loops (sw_sd w))\<rparr>\<rparr>"
    have "l \<in> fst ` set (sd_loops (sw_sd w))" "sd_loops (sw_sd w) \<noteq> []"
      using True by (auto dest!: map_of_SomeD intro!: image_eqI)
    then have "sched_ok reg (sw_sd ?w1)"
      using ok by (auto simp: sched_ok_def dom_update)
    moreover have "sw_sd w' = sw_sd ?w1"
      using act LoopBegin True by (auto simp: loop_begin_def Let_def split: if_splits)
    ultimately show ?thesis by simp
  next
    case False
    then show ?thesis using act ok LoopBegin by simp
  qed
next
  case (LoopTick l)
  then show ?thesis using act ok by (auto simp: loop_tick_frame)
next
  case (LoopExit l)
  have "fst ` set (gm_del l (sd_loops (sw_sd w))) \<subseteq> fst ` set (sd_loops (sw_sd w))"
    by (auto simp: AList.delete_eq)
  then have "sched_ok reg (sw_sd (loop_exit l w))"
    using ok subset_trans [of "fst ` set (gm_del l (sd_loops (sw_sd w)))"]
    by (simp add: sched_ok_def loop_exit_def)
  moreover have "w' = loop_exit l w \<or> w' = w" using act LoopExit by (auto split: if_splits)
  ultimately show ?thesis using ok by (auto simp: loop_exit_def)
next
  case (Goroutine k)
  then show ?thesis
    using act ok by (auto simp: goroutine_step_def split: dispatch.splits option.splits)
next
  case StopFinish
  have "sched_ok reg (sw_sd (stop_finish reg w))" if "sd_loops (sw_sd w) = []"
    using ok that by (simp add: sched_ok_def stop_finish_def Let_def)
  then show ?thesis using act ok StopFinish by (auto simp: stop_finish_def Let_def split: if_splits)
next
  case CallStop
  have "sched_ok reg (sw_sd (stop_begin w))"
    using ok by (simp add: sched_ok_def stop_begin_def)
  then show ?thesis using act ok CallStop by (auto simp: stop_begin_def split: if_splits)
next
  case ParentEnds
  have "sched_ok reg ((sw_sd w)\<lparr>sd_ctx := False\<rparr>)"
    using ok by (simp add: sched_ok_def)
  then show ?thesis using act ParentEnds by auto
qed (use act ok in auto)

text \<open>C0. Life cycle of the scheduler: in every run from a new scheduler each background loop
  runs at most once, only the loops of the configuration run, a scheduler that is not running
  has no loop left (so \<open>Stop\<close> returns only after the last one), and while it stops its context
  has ended.\<close>

theorem scheduler_life_cycle:
  assumes "sched_run reg as (sched_world_of (new_scheduler now i grp addr c) s r t) = Done w"
  shows "distinct (map fst (sd_loops (sw_sd w))) \<and>
     fst ` set (sd_loops (sw_sd w)) \<subseteq> expected_loops reg c \<and>
     (sd_loops (sw_sd w) \<noteq> [] \<longrightarrow> sd_running (sw_sd w)) \<and>
     (sd_stopping (sw_sd w) \<longrightarrow> sd_running (sw_sd w) \<and> \<not> sd_ctx (sw_sd w))"
proof -
  have "sched_ok reg (sw_sd w) \<and> sd_config (sw_sd w) = c"
    using assms
  proof (induction rule: sched_run_induct)
    case nil
    then show ?case by (simp add: sched_world_of_def new_scheduler_def sched_ok_def)
  next
    case (step a v v')
    then show ?case using sched_ok_act [of reg v a v'] by simp
  qed
  then show ?thesis by (auto simp: sched_ok_def gm_ok_def)
qed

subsection \<open>What the scheduler does to tasks\<close>

abbreviation skip :: "task \<Rightarrow> task" where
  "skip t \<equiv> t\<lparr>tk_status := TkSkipped\<rparr>"

definition doomed :: "mem_store \<Rightarrow> task \<Rightarrow> bool" where
  "doomed s t \<longleftrightarrow> (\<exists>e. get_execution s (tk_execution_id t) = Inr e \<and>
     (execution_is_final e \<or> ex_status e = ExPaused))"

lemma dispatch_task_doomed:
  "dispatch_task s t = (if doomed s t then Some (Skipping (skip t)) else None)"
  by (auto simp: dispatch_task_def doomed_def split: sum.splits)

lemma doomed_cong: "ms_executions s = ms_executions s' \<Longrightarrow> doomed s t = doomed s' t"
  by (simp add: doomed_def get_execution_def)

fun own_action :: "sched_action \<Rightarrow> bool" where
  "own_action (StoreCall a) = False"
| "own_action a = True"

text \<open>The store \<open>s\<close> is the one before the run; \<open>eligible\<close> tasks are those the scheduler may skip.\<close>

definition eligible :: "mem_store \<Rightarrow> task \<Rightarrow> bool" where
  "eligible s t \<longleftrightarrow> gm_get (ms_tasks s) (tk_id t) = Some t \<and> tk_status t = TkPending"

fun dispatch_ok :: "mem_store \<Rightarrow> dispatch \<Rightarrow> bool" where
  "dispatch_ok s (Looking t) = eligible s t"
| "dispatch_ok s (Skipping t) = (\<exists>u. eligible s u \<and> doomed s u \<and> t = skip u)"

definition task_ok :: "mem_store \<Rightarrow> string \<Rightarrow> task option \<Rightarrow> bool" where
  "task_ok s i t \<longleftrightarrow> t = gm_get (ms_tasks s) i \<or>
     (\<exists>u. tk_id u = i \<and> eligible s u \<and> doomed s u \<and> t = Some (skip u))"

definition tracks :: "mem_store \<Rightarrow> 'r sched_world \<Rightarrow> bool" where
  "tracks s w \<longleftrightarrow> ms_executions (sw_store w) = ms_executions s \<and>
     keyed tk_id (ms_tasks (sw_store w)) \<and>
     (\<forall>i. task_ok s i (gm_get (ms_tasks (sw_store w)) i)) \<and>
     (\<forall>d \<in> set (sw_goroutines w). dispatch_ok s d)"

lemma tracks_cong:
  assumes "tracks s w" "ms_executions (sw_store w') = ms_executions (sw_store w)"
    "ms_tasks (sw_store w') = ms_tasks (sw_store w)" "set (sw_goroutines w') \<subseteq> set (sw_goroutines w)"
  shows "tracks s w'"
  using assms by (auto simp: tracks_def)

lemma pending_task_mem:
  assumes "keyed tk_id (ms_tasks s)" "t \<in> set (get_pending_tasks s now limit)"
  shows "gm_get (ms_tasks s) (tk_id t) = Some t \<and> tk_status t = TkPending"
proof -
  have "t \<in> set (filter (task_due (now * second)) (map snd (ms_tasks s)))"
    using assms(2) by (auto simp: get_pending_tasks_def limit_to_def Let_def dest!: in_set_takeD split: if_splits)
  then show ?thesis
    using keyed_get_key [OF assms(1), of t] by (auto simp: task_due_def)
qed

lemma tracks_poll: "tracks s w \<Longrightarrow> tracks s (poll_and_dispatch w)"
proof -
  assume tr: "tracks s w"
  have "eligible s t"
    if "t \<in> set (get_pending_tasks (sw_store w) (sw_now w div second)
      (sc_batch_size (sd_config (sw_sd w))))" for t
  proof -
    have t: "gm_get (ms_tasks (sw_store w)) (tk_id t) = Some t" "tk_status t = TkPending"
      using pending_task_mem [OF _ that] tr by (simp_all add: tracks_def)
    have "task_ok s (tk_id t) (Some t)"
      using tr t(1) by (simp add: tracks_def) metis
    then show ?thesis using t(2) by (auto simp: task_ok_def eligible_def)
  qed
  with tr show ?thesis by (auto simp: tracks_def poll_and_dispatch_def)
qed

lemma set_drop_nth: "set (drop_nth k xs) \<subseteq> set xs"
  by (auto simp: drop_nth_def dest: in_set_takeD in_set_dropD)

lemma tracks_goroutine:
  assumes tr: "tracks s w"
  shows "tracks s (goroutine_step k w)"
proof (cases "k < length (sw_goroutines w)")
  case True
  then have mem: "sw_goroutines w ! k \<in> set (sw_goroutines w)" by simp
  show ?thesis
  proof (cases "sw_goroutines w ! k")
    case (Looking t)
    then have "eligible s t" using tr mem by (fastforce simp: tracks_def)
    moreover have "doomed (sw_store w) t = doomed s t"
      using tr by (intro doomed_cong) (simp add: tracks_def)
    ultimately have "doomed (sw_store w) t \<Longrightarrow> dispatch_ok s (Skipping (skip t))" by auto
    moreover have "set (sw_goroutines (goroutine_step k w)) \<subseteq> set (sw_goroutines w) \<union>
        (if doomed (sw_store w) t then {Skipping (skip t)} else {})"
      using True Looking set_drop_nth [of k "sw_goroutines w"]
        set_update_subset_insert [of "sw_goroutines w" k "Skipping (skip t)"]
      by (simp add: goroutine_step_def dispatch_task_doomed)
    moreover have "sw_store (goroutine_step k w) = sw_store w"
      using True Looking by (simp add: goroutine_step_def split: option.splits)
    ultimately show ?thesis
      using tr unfolding tracks_def by (auto dest!: subsetD split: if_splits)
  next
    case (Skipping t)
    then obtain u where u: "eligible s u" "doomed s u" "t = skip u"
      using tr mem by (fastforce simp: tracks_def)
    then have id: "tk_id t = tk_id u" by simp
    from u have "task_ok s (tk_id u) (Some t)" by (auto simp: task_ok_def)
    then show ?thesis
      using tr True Skipping id set_drop_nth [of k "sw_goroutines w"]
      by (auto simp: tracks_def goroutine_step_def update_task_def settle_def keyed_put)
  qed
qed (use tr in \<open>simp add: goroutine_step_def\<close>)

lemma tracks_act:
  assumes tr: "tracks s w" and own: "own_action a" and act: "sched_act reg a w = Done w'"
  shows "tracks s w'"
proof (cases a)
  case (CallStart live)
  have "tracks s (snd (sched_start reg live w))"
    by (rule tracks_cong [OF tr]) (simp_all add: sched_start_frame)
  then show ?thesis using act tr CallStart by (auto split: if_splits)
next
  case CallStop
  then show ?thesis
    using act by (intro tracks_cong [OF tr]) (auto simp: stop_begin_def split: if_splits)
next
  case StopFinish
  then show ?thesis
    using act by (intro tracks_cong [OF tr]) (auto simp: stop_finish_def Let_def split: if_splits)
next
  case (LoopBegin l)
  then show ?thesis
    using act by (intro tracks_cong [OF tr]) (auto simp: loop_begin_def Let_def split: if_splits)
next
  case (LoopTick l)
  then show ?thesis
    using act tracks_poll [OF tr]
    by (cases "l = PollLoop") (auto intro: tracks_cong [OF tr] simp: loop_tick_frame split: if_splits)
next
  case (LoopExit l)
  then show ?thesis
    using act by (intro tracks_cong [OF tr]) (auto simp: loop_exit_def split: if_splits)
next
  case (Goroutine k)
  then show ?thesis using act tracks_goroutine [OF tr] by auto
qed (use act own in \<open>auto intro: tracks_cong [OF tr]\<close>)

lemma tracks_init: "store_ok s \<Longrightarrow> tracks s (sched_world_of sd s r now)"
  by (simp add: tracks_def sched_world_of_def task_ok_def store_ok_def)

lemma tracks_run:
  assumes "sched_run reg as w = Done w'" "tracks s w" "list_all own_action as"
  shows "tracks s w'"
  using assms(1,2)
  by (induction rule: sched_run_induct)
    (use assms(3) in \<open>auto simp: list_all_iff intro: tracks_act\<close>)


text \<open>The tasks of paused executions that a poll found: still with a goroutine, or skipped.\<close>

definition chased :: "mem_store \<Rightarrow> task \<Rightarrow> 'r sched_world \<Rightarrow> bool" where
  "chased s t w \<longleftrightarrow> Looking t \<in> set (sw_goroutines w) \<or>
     Skipping (skip t) \<in> set (sw_goroutines w) \<or>
     gm_get (ms_tasks (sw_store w)) (tk_id t) = Some (skip t)"

lemma set_drop_nth_keeps: "d \<in> set xs \<Longrightarrow> k < length xs \<Longrightarrow> d \<noteq> xs ! k \<Longrightarrow> d \<in> set (drop_nth k xs)"
  by (metis Un_iff drop_nth_def id_take_nth_drop set_ConsD set_append)

lemma set_update_keeps: "d \<in> set xs \<Longrightarrow> k < length xs \<Longrightarrow> d \<noteq> xs ! k \<Longrightarrow> d \<in> set (xs[k := e])"
  by (metis in_set_conv_nth length_list_update nth_list_update_neq)

lemma skip_unique:
  assumes "eligible s t" "dispatch_ok s (Skipping t')" "tk_id t' = tk_id t"
  shows "t' = skip t"
proof -
  obtain u where u: "eligible s u" "t' = skip u" using assms(2) by auto
  then have "tk_id u = tk_id t" using assms(3) by simp
  then have "Some u = Some t" using u(1) assms(1) unfolding eligible_def by metis
  then show ?thesis using u(2) by simp
qed

lemma chased_goroutine:
  assumes tr: "tracks s w" and el: "eligible s t" and dm: "doomed s t" and ch: "chased s t w"
  shows "chased s t (goroutine_step k w)"
proof (cases "k < length (sw_goroutines w)")
  case True
  then have mem: "sw_goroutines w ! k \<in> set (sw_goroutines w)" by simp
  have dm': "doomed (sw_store w) t"
    using tr dm doomed_cong [of "sw_store w" s t] by (simp add: tracks_def)
  have has: "gm_has (ms_tasks (sw_store w)) (tk_id t)"
  proof -
    have "task_ok s (tk_id t) (gm_get (ms_tasks (sw_store w)) (tk_id t))"
      using tr by (simp add: tracks_def)
    then show ?thesis using el unfolding task_ok_def eligible_def by (metis option.discI)
  qed
  show ?thesis
  proof (cases "sw_goroutines w ! k")
    case (Looking u)
    show ?thesis
    proof (cases "u = t")
      case True
      then have "Skipping (skip t) \<in> set (sw_goroutines (goroutine_step k w))"
        using Looking dm' \<open>k < length (sw_goroutines w)\<close>
        by (simp add: goroutine_step_def dispatch_task_doomed set_update_memI)
      then show ?thesis by (simp add: chased_def)
    next
      case False
      then show ?thesis
        using ch Looking \<open>k < length (sw_goroutines w)\<close>
        by (auto simp: chased_def goroutine_step_def
            intro: set_drop_nth_keeps set_update_keeps split: option.splits)
    qed
  next
    case (Skipping u)
    then have u: "dispatch_ok s (Skipping u)" using tr mem by (fastforce simp: tracks_def)
    have new: "gm_get (ms_tasks (sw_store (goroutine_step k w))) (tk_id t) =
        (if tk_id u = tk_id t then Some (skip t) else gm_get (ms_tasks (sw_store w)) (tk_id t))"
      using True Skipping has skip_unique [OF el u]
      by (auto simp: goroutine_step_def update_task_def settle_def)
    have "d \<in> set (sw_goroutines (goroutine_step k w))"
      if "d \<in> set (sw_goroutines w)" "d \<noteq> Skipping u" for d
      using True Skipping that by (simp add: goroutine_step_def set_drop_nth_keeps)
    then show ?thesis
      using ch new by (cases "u = skip t") (auto simp: chased_def)
  qed
qed (use ch in \<open>simp add: goroutine_step_def\<close>)

lemma chased_cong:
  assumes "chased s t w" "ms_tasks (sw_store w') = ms_tasks (sw_store w)"
    "set (sw_goroutines w) \<subseteq> set (sw_goroutines w')"
  shows "chased s t w'"
  using assms by (auto simp: chased_def)

lemma chased_act:
  assumes tr: "tracks s w" and el: "eligible s t" and dm: "doomed s t" and ch: "chased s t w"
    and own: "own_action a" and act: "sched_act reg a w = Done w'"
  shows "chased s t w'"
proof (cases a)
  case (CallStart live)
  have "chased s t (snd (sched_start reg live w))"
    by (rule chased_cong [OF ch]) (simp_all add: sched_start_frame)
  then show ?thesis using act ch CallStart by (auto split: if_splits)
next
  case (LoopTick l)
  have "chased s t (loop_tick l w)"
  proof (rule chased_cong [OF ch])
    show "set (sw_goroutines w) \<subseteq> set (sw_goroutines (loop_tick l w))"
      by (cases l) (simp_all add: poll_and_dispatch_def)
  qed (simp add: loop_tick_frame)
  then show ?thesis using act ch LoopTick by (auto split: if_splits)
next
  case (Goroutine k)
  then show ?thesis using act chased_goroutine [OF tr el dm ch] by auto
next
  case CallStop
  then show ?thesis
    using act by (intro chased_cong [OF ch]) (auto simp: stop_begin_def split: if_splits)
next
  case StopFinish
  then show ?thesis
    using act by (intro chased_cong [OF ch]) (auto simp: stop_finish_def Let_def split: if_splits)
next
  case (LoopBegin l)
  then show ?thesis
    using act by (intro chased_cong [OF ch]) (auto simp: loop_begin_def Let_def split: if_splits)
next
  case (LoopExit l)
  then show ?thesis
    using act by (intro chased_cong [OF ch]) (auto simp: loop_exit_def split: if_splits)
qed (use act own in \<open>auto intro: chased_cong [OF ch]\<close>)

text \<open>C10. Pausing loses work: a pending task that a poll finds while its execution is paused
  has the final status SKIPPED once the dispatch goroutines have ended, whatever the scheduler
  does in between, although the execution can still be resumed.\<close>

theorem paused_tasks_are_lost:
  assumes ok: "store_ok s" and own: "list_all own_action as"
    and polled: "t \<in> set (get_pending_tasks s (now div second) (sc_batch_size (sd_config sd)))"
    and exe: "get_execution s (tk_execution_id t) = Inr e" "ex_status e = ExPaused"
    and loop: "gm_get (sd_loops sd) PollLoop = Some True"
    and run: "sched_run reg (LoopTick PollLoop # as) (sched_world_of sd s r now) = Done w"
    and ended: "sw_goroutines w = []"
  shows "gm_get (ms_tasks (sw_store w)) (tk_id t) = Some (t\<lparr>tk_status := TkSkipped\<rparr>) \<and>
     task_is_final (t\<lparr>tk_status := TkSkipped\<rparr>) \<and> can_transition e ExRunning"
proof -
  let ?w0 = "sched_world_of sd s r now"
  have run': "sched_run reg as (poll_and_dispatch ?w0) = Done w"
    using run loop by (simp add: sched_world_of_def)
  have el: "eligible s t"
    using pending_task_mem [OF _ polled] ok by (simp add: store_ok_def eligible_def)
  have dm: "doomed s t" using exe by (auto simp: doomed_def)
  have "tracks s w \<and> chased s t w"
    using run'
  proof (induction rule: sched_run_induct)
    case nil
    show ?case
      using tracks_poll [OF tracks_init [OF ok], of sd r now] polled
      by (simp add: chased_def poll_and_dispatch_def sched_world_of_def)
  next
    case (step a v v')
    then have "own_action a" using own by (simp add: list_all_iff)
    then show ?case
      using step tracks_act [of s v a reg v'] chased_act [OF _ el dm, of v a reg v'] by blast
  qed
  then show ?thesis
    using ended exe(2)
    by (simp add: chased_def task_is_final_def can_transition_def execution_is_final_def)
qed

definition sample_task :: "string \<Rightarrow> string \<Rightarrow> task_status \<Rightarrow> task" where
  "sample_task i x st =
     \<lparr>tk_id = i, tk_execution_id = x, tk_node_id = ''n'', tk_node_name = ''n'', tk_node_type = ''t'',
      tk_status = st, tk_input = None, tk_output = None, tk_error = [], tk_retry_count = 0,
      tk_max_retries = 0, tk_is_retry = False, tk_attempt_id = [], tk_worker_id = [],
      tk_scheduled_at = None, tk_started_at = None, tk_finished_at = None, tk_created_at = 0,
      tk_updated_at = 0\<rparr>"

definition paused_store :: mem_store where
  "paused_store = new_memory_store\<lparr>
     ms_executions := [(''a'', (sample_execution ''a'' 0 10)\<lparr>ex_status := ExPaused\<rparr>)],
     ms_tasks := [(''x'', sample_task ''x'' ''a'' TkPending)]\<rparr>"

definition sample_scheduler :: scheduler where
  "sample_scheduler = (new_scheduler 7 [] ''g'' ''h'' default_scheduler_config)
     \<lparr>sd_running := True, sd_ctx := True, sd_loops := [(PollLoop, True)]\<rparr>"

lemma paused_store_ok: "store_ok paused_store"
  by (simp add: paused_store_def store_ok_def new_memory_store_def keyed_def gm_ok_def
      sample_execution_def sample_task_def)

lemmas sample_run_defs = sched_world_of_def poll_and_dispatch_def goroutine_step_def
  get_pending_tasks_def limit_to_def task_due_def paused_store_def sample_scheduler_def
  new_scheduler_def sample_task_def sample_execution_def new_memory_store_def second_def
  default_scheduler_config_def millisecond_def dispatch_task_def get_execution_def drop_nth_def
  update_task_def settle_def


theorem paused_tasks_are_lost_witness:
  "\<exists>w. sched_run None [LoopTick PollLoop, Goroutine 0, Goroutine 0]
        (sched_world_of sample_scheduler paused_store () 5) = Done w \<and>
      gm_get (ms_tasks (sw_store w)) ''x'' = Some (sample_task ''x'' ''a'' TkSkipped)"
proof -
  obtain w where w: "sched_run None [LoopTick PollLoop, Goroutine 0, Goroutine 0]
      (sched_world_of sample_scheduler paused_store () 5) = Done w" and ended: "sw_goroutines w = []"
    by (simp add: sample_run_defs execution_is_final_def)
  then show ?thesis
    using paused_tasks_are_lost [OF paused_store_ok, of "[Goroutine 0, Goroutine 0]"
        "sample_task ''x'' ''a'' TkPending" 5 sample_scheduler
        "(sample_execution ''a'' 0 10)\<lparr>ex_status := ExPaused\<rparr>" None "()" w] w
    by (simp add: sample_run_defs)
qed

theorem scheduler_life_cycle_witness:
  "\<exists>w. sched_run None [CallStart True, LoopBegin PollLoop, CallStop]
        (sched_world_of (new_scheduler 7 [] ''g'' ''h'' default_scheduler_config)
          new_memory_store () 5) = Done w \<and> sd_stopping (sw_sd w) \<and> \<not> sd_ctx (sw_sd w)"
proof -
  let ?w = "sched_world_of (new_scheduler 7 [] ''g'' ''h'' default_scheduler_config)
      new_memory_store () 5"
  obtain w where w: "sched_run None [CallStart True, LoopBegin PollLoop, CallStop] ?w = Done w"
    and st: "sd_stopping (sw_sd w)"
    by (simp add: sched_defs sched_world_of_def new_scheduler_def default_scheduler_config_def
        duration_units)
  then show ?thesis using scheduler_life_cycle [OF w] by blast
qed

subsection \<open>Stale snapshots and late heartbeats\<close>

lemma store_step_keeps_tasks:
  "gm_has (ms_tasks s) i \<Longrightarrow> gm_has (ms_tasks (fst (store_step s a))) i"
  by (cases a) (auto simp: store_writes split: option.splits sum.splits)

fun foreign :: "sched_action \<Rightarrow> bool" where
  "foreign (StoreCall a) = True"
| "foreign a = False"

text \<open>C0. A dispatch goroutine that has seen a paused execution overwrites the task with its
  snapshot: whatever others store in between, a completion with its output included, the task
  ends as the snapshot with the status SKIPPED, for \<open>UpdateTask\<close> checks no version.\<close>

theorem stale_snapshot_overwrites:
  assumes "sw_goroutines w = [Skipping t]" "gm_has (ms_tasks (sw_store w)) (tk_id t)"
    "list_all foreign as" "sched_run reg (as @ [Goroutine 0]) w = Done w'"
  shows "gm_get (ms_tasks (sw_store w')) (tk_id t) = Some t"
proof -
  obtain v where v: "sched_run reg as w = Done v" and last: "sched_act reg (Goroutine 0) v = Done w'"
    using assms(4) by (auto simp: sched_run_append bind_outcome_Done_iff)
  have "sw_goroutines v = [Skipping t] \<and> gm_has (ms_tasks (sw_store v)) (tk_id t)"
    using v
  proof (induction rule: sched_run_induct)
    case (step a u u')
    have "foreign a" using step(1) assms(3) by (simp add: list_all_iff)
    then obtain b where "a = StoreCall b" by (cases a) auto
    then show ?case using step store_step_keeps_tasks [of "sw_store u" "tk_id t" b] by auto
  qed (use assms in simp)
  then show ?thesis
    using last by (auto simp: goroutine_step_def update_task_def settle_def)
qed

theorem stale_snapshot_overwrites_witness:
  "\<exists>w'. sched_run None [StoreCall (OpUpdateTask (sample_task ''x'' ''a'' TkCompleted)), Goroutine 0]
        ((sched_world_of sample_scheduler paused_store () 5)
          \<lparr>sw_goroutines := [Skipping (sample_task ''x'' ''a'' TkSkipped)]\<rparr>) = Done w' \<and>
      gm_get (ms_tasks (sw_store w')) ''x'' = Some (sample_task ''x'' ''a'' TkSkipped)"
proof -
  let ?w = "(sched_world_of sample_scheduler paused_store () 5)
      \<lparr>sw_goroutines := [Skipping (sample_task ''x'' ''a'' TkSkipped)]\<rparr>"
  obtain w' where w: "sched_run None
      ([StoreCall (OpUpdateTask (sample_task ''x'' ''a'' TkCompleted))] @ [Goroutine 0]) ?w = Done w'"
    by simp
  then show ?thesis
    using stale_snapshot_overwrites [OF _ _ _ w, of "sample_task ''x'' ''a'' TkSkipped"]
    by (simp add: sched_world_of_def paused_store_def sample_task_def)
qed

fun registers :: "sched_action \<Rightarrow> bool" where
  "registers (CallStart live) = True"
| "registers (StoreCall (OpRegisterWorker k)) = True"
| "registers a = False"

lemma heartbeat_absent:
  "gm_get (ms_workers (sw_store w)) i = None \<Longrightarrow> gm_get (ms_workers (sw_store (heartbeat w))) i = None"
  by (auto simp: heartbeat_def settle_def update_worker_heartbeat_def split: option.splits)

lemma remove_dead_absent:
  "gm_get (ms_workers s) i = None \<Longrightarrow> gm_get (ms_workers (remove_dead_workers now s t)) i = None"
  by (auto simp: remove_dead_workers_def Let_def map_of_eq_None_iff)

lemma absent_act:
  assumes abs: "gm_get (ms_workers (sw_store w)) i = None" and nr: "\<not> registers a"
    and act: "sched_act reg a w = Done w'"
  shows "gm_get (ms_workers (sw_store w')) i = None"
proof (cases a)
  case (LoopBegin l)
  then show ?thesis
    using act abs by (auto simp: loop_begin_def Let_def intro!: heartbeat_absent split: if_splits)
next
  case (LoopTick l)
  have "gm_get (ms_workers (sw_store (loop_tick l w))) i = None"
    by (cases l) (use abs in \<open>simp_all add: heartbeat_absent remove_dead_absent poll_and_dispatch_def\<close>)
  then show ?thesis using act abs LoopTick by (auto split: if_splits)
next
  case (Goroutine k)
  have "ms_workers (fst (settle s (update_task s t))) = ms_workers s" for s t
    by (simp add: settle_def update_task_def)
  then show ?thesis
    using act abs Goroutine
    by (auto simp: goroutine_step_def split: dispatch.splits option.splits if_splits)
next
  case (StoreCall b)
  then show ?thesis
    using act abs nr remove_dead_absent [OF abs]
    by (cases b) (auto simp: create_workflow_def update_workflow_def create_execution_def
        update_execution_def create_task_def update_task_def settle_def Let_def
        update_worker_heartbeat_def split: option.splits sum.splits if_splits)
qed (use act abs nr in \<open>auto simp: stop_begin_def stop_finish_def loop_exit_def Let_def split: if_splits\<close>)

text \<open>A late heartbeat is final: once a cleanup finds the heartbeat of a worker older than
  the timeout, the worker is gone and never listed again, although its scheduler keeps running
  and beating, until somebody registers a worker anew.\<close>

theorem late_heartbeat_is_final:
  assumes ok: "store_ok (sw_store w)"
    and loop: "gm_get (sd_loops (sw_sd w)) CleanupLoop = Some True"
    and timeout: "whole_seconds (sc_dead_worker_timeout (sd_config (sw_sd w))) = d" "0 \<le> d" "d * second < 2 ^ 63"
    and late: "gm_get (ms_workers (sw_store w)) i = Some k" "wk_heartbeat k < sw_now w - d * second"
    and run: "sched_run reg (LoopTick CleanupLoop # as) w = Done w'"
    and as: "list_all (\<lambda>a. \<not> registers a) as"
  shows "gm_get (ms_workers (sw_store w')) i = None"
proof -
  have "fits64 (- d * second)"
    using timeout(2,3) by (auto simp: fits64_def second_def millisecond_def)
  then have "wrap64 (- d * second) = - (d * second)" by (simp add: wrap64_id)
  then have gone: "gm_get (ms_workers (sw_store (loop_tick CleanupLoop w))) i = None"
    using ok late timeout(1)
    by (simp add: remove_dead_workers_def Let_def store_ok_def keyed_def gm_get_filter)
  have "sched_run reg as (loop_tick CleanupLoop w) = Done w'"
    using run loop by (simp del: loop_tick.simps)
  then show ?thesis
    by (induction rule: sched_run_induct)
      (use gone as in \<open>auto simp: list_all_iff intro: absent_act\<close>)
qed

theorem late_heartbeat_is_final_witness:
  "\<exists>w'. sched_run None [LoopTick CleanupLoop, LoopTick HeartbeatLoop]
        (sched_world_of (sample_scheduler\<lparr>sd_loops := [(CleanupLoop, True), (HeartbeatLoop, True)]\<rparr>)
          (register_worker new_memory_store (db_worker sample_scheduler 0)) () (31 * second)) = Done w' \<and>
      gm_get (ms_workers (sw_store w')) (sd_worker_id sample_scheduler) = None"
proof -
  let ?w = "sched_world_of (sample_scheduler\<lparr>sd_loops := [(CleanupLoop, True), (HeartbeatLoop, True)]\<rparr>)
      (register_worker new_memory_store (db_worker sample_scheduler 0)) () (31 * second)"
  obtain w' where w: "sched_run None [LoopTick CleanupLoop, LoopTick HeartbeatLoop] ?w = Done w'"
    by simp
  have "store_ok (sw_store ?w)"
    by (simp add: sched_world_of_def store_ok_def register_worker_def new_memory_store_def
        db_worker_def keyed_def gm_ok_def)
  then show ?thesis
    using late_heartbeat_is_final [OF _ _ _ _ _ _ _ w, of 30 "sd_worker_id sample_scheduler"
        "db_worker sample_scheduler 0"] w
    by (simp add: sched_world_of_def sample_scheduler_def new_scheduler_def db_worker_def
        default_scheduler_config_def whole_seconds_def duration_units register_worker_def
        new_memory_store_def)
qed

end
