(* ===== verification/Tracing.thy ===== *)
theory Tracing
  imports Engine
begin

text \<open>
  \<open>GetExecutionTracing\<close> of workflow/pkg/engine/engine.go: the tree a front end shows of an
  execution, built from the stored tasks and the nodes of the definition. A node hangs under the
  condition or switch node an edge leads from, else it is a root. The recursion of
  \<open>attachChildren\<close> has fuel, and running out of it is the stack overflow of the code. The map of
  children is read under its keys; the order in which the code ranges over the keys is a
  parameter. The nodes are values: with distinct IDs, which \<open>IsValid\<close> demands, every pointer of
  the code is attached once. \<open>Input\<close> and \<open>Iterations\<close> of a tree node are never set and left out.
\<close>

subsection \<open>The tree\<close>

datatype tracing_node = TracingNode (tn_id: node_id) (tn_name: string) (tn_type: node_type)
  (tn_status: string) (tn_elapsed_ms: int) (tn_output: "json option") (tn_error: string)
  (tn_children: "tracing_node list") (tn_branch_id: string)

record task_info =
  ti_status :: string
  ti_elapsed_ms :: int
  ti_output :: "json option"
  ti_error :: string

definition milliseconds :: "duration \<Rightarrow> int" where
  "milliseconds d = (if d < 0 then - (- d div millisecond) else d div millisecond)"

definition task_info_of :: "codec \<Rightarrow> task \<Rightarrow> task_info" where
  "task_info_of cd t =
     \<lparr>ti_status = task_status_str (tk_status t),
      ti_elapsed_ms = (case (tk_started_at t, tk_finished_at t) of
         (Some a, Some b) \<Rightarrow> milliseconds (b - a) | _ \<Rightarrow> 0),
      ti_output = (if tk_output t = None then None else cd_unmarshal_value cd (tk_output t)),
      ti_error = tk_error t\<rparr>"

text \<open>A later task of a node replaces an earlier one.\<close>

definition node_tasks :: "codec \<Rightarrow> task list \<Rightarrow> (node_id, task_info) gomap" where
  "node_tasks cd ts = fold (\<lambda>t m. gm_put (tk_node_id t) (task_info_of cd t) m) ts []"

definition tracing_node_of :: "node \<Rightarrow> task_info \<Rightarrow> tracing_node" where
  "tracing_node_of n i = TracingNode (nd_id n) (nd_name n) (nd_type n) (ti_status i)
     (ti_elapsed_ms i) (ti_output i) (ti_error i) [] []"

type_synonym tracing_key = "node_id \<times> string"

text \<open>The parent and branch of a node: the last edge that comes from a condition or a switch.\<close>

definition parent_key :: "workflow \<Rightarrow> node_id \<Rightarrow> tracing_key" where
  "parent_key g i = fold
     (\<lambda>e k. if ed_target_id e = i
            then (case find_node_by_id g (ed_source_id e) of
                None \<Rightarrow> k
              | Some p \<Rightarrow> if nd_type p = NodeTypeCondition \<or> nd_type p = NodeTypeSwitch
                          then (ed_source_id e, ed_source_port e) else k)
            else k) (wf_edges g) ([], [])"

text \<open>The appends to the map of children, with their keys, in the order of the code.\<close>

definition tracing_entries :: "workflow \<Rightarrow> (node_id, task_info) gomap \<Rightarrow>
    (tracing_key \<times> tracing_node) list" where
  "tracing_entries g infos = List.map_filter
     (\<lambda>n. map_option (\<lambda>i. (parent_key g (nd_id n), tracing_node_of n i)) (gm_get infos (nd_id n)))
     (wf_nodes g)"

definition under :: "(tracing_key \<times> tracing_node) list \<Rightarrow> tracing_key \<Rightarrow> tracing_node list" where
  "under es k = map snd (filter (\<lambda>e. fst e = k) es)"

type_synonym key_order = "node_id \<Rightarrow> tracing_key list \<Rightarrow> tracing_key list"

text \<open>The nodes \<open>attachChildren\<close> visits below a parent, with the branch each gets.\<close>

definition kids :: "(tracing_key \<times> tracing_node) list \<Rightarrow> key_order \<Rightarrow> node_id \<Rightarrow>
    (string \<times> tracing_node) list" where
  "kids es ord i = map (Pair []) (under es (i, [])) @
     concat (map (\<lambda>k. map (Pair (snd k)) (under es k))
       (filter (\<lambda>k. fst k = i \<and> snd k \<noteq> []) (ord i (remdups (map fst es)))))"

fun set_branch :: "string \<Rightarrow> tracing_node \<Rightarrow> tracing_node" where
  "set_branch b (TracingNode i nm ty st ms out err cs b0) = TracingNode i nm ty st ms out err cs b"

fun add_children :: "tracing_node \<Rightarrow> tracing_node list \<Rightarrow> tracing_node" where
  "add_children (TracingNode i nm ty st ms out err cs0 b) cs =
     TracingNode i nm ty st ms out err (cs0 @ cs) b"

fun attach_children :: "nat \<Rightarrow> (tracing_key \<times> tracing_node) list \<Rightarrow> key_order \<Rightarrow> tracing_node \<Rightarrow>
    tracing_node option" where
  "attach_children 0 es ord t = None"
| "attach_children (Suc n) es ord t = map_option (add_children t)
     (those (map (\<lambda>(b, c). map_option (set_branch b) (attach_children n es ord c))
       (kids es ord (tn_id t))))"

definition get_execution_tracing :: "nat \<Rightarrow> codec \<Rightarrow> key_order \<Rightarrow> mem_store \<Rightarrow> string \<Rightarrow>
    (store_error + tracing_node list) option" where
  "get_execution_tracing fuel cd ord s i =
     (let infos = node_tasks cd (list_tasks s i)
      in case get_execution s i of
           Inl err \<Rightarrow> Some (Inl err)
         | Inr e \<Rightarrow> (case get_workflow_with_nodes s (ex_workflow_id e) of
             Inl err \<Rightarrow> Some (Inl err)
           | Inr g \<Rightarrow> let es = tracing_entries g infos
               in map_option Inr (those (map (attach_children fuel es ord) (under es ([], []))))))"

subsection \<open>Entries and their chains of parents\<close>

lemma those_Some: "those xs = Some ys \<longleftrightarrow> xs = map Some ys"
  by (induction xs arbitrary: ys) (auto split: option.splits)

lemma those_None: "those xs = None \<longleftrightarrow> None \<in> set xs"
  by (induction xs) (auto split: option.splits)

lemma attach_SucD:
  "attach_children (Suc n) es ord t = Some u \<Longrightarrow>
     \<exists>cs. u = add_children t cs \<and>
       map (\<lambda>(b, c). map_option (set_branch b) (attach_children n es ord c)) (kids es ord (tn_id t)) =
       map Some cs"
  by (auto simp: those_Some)

lemma tn_id_set_branch [simp]: "tn_id (set_branch b t) = tn_id t" "tn_children (set_branch b t) = tn_children t"
  by (cases t; simp)+

lemma tn_id_add_children [simp]: "tn_id (add_children t cs) = tn_id t"
  "tn_children (add_children t cs) = tn_children t @ cs"
  by (cases t; simp)+

lemma tn_id_attach: "attach_children n es ord t = Some u \<Longrightarrow> tn_id u = tn_id t"
  by (cases n) (auto dest!: attach_SucD simp del: attach_children.simps(2))

text \<open>What the entries of a valid definition are: distinct, non-empty IDs, no children yet.\<close>

definition entries_ok :: "(tracing_key \<times> tracing_node) list \<Rightarrow> bool" where
  "entries_ok es \<longleftrightarrow> distinct (map (tn_id \<circ> snd) es) \<and>
     (\<forall>e \<in> set es. tn_id (snd e) \<noteq> [] \<and> tn_children (snd e) = [])"

definition order_ok :: "key_order \<Rightarrow> bool" where
  "order_ok ord \<longleftrightarrow> (\<forall>i ks. mset (ord i ks) = mset ks)"

fun chain :: "(tracing_key \<times> tracing_node) list \<Rightarrow> node_id list \<Rightarrow> bool" where
  "chain es [] = False"
| "chain es [x] = (\<exists>t. (([], []), t) \<in> set es \<and> tn_id t = x)"
| "chain es (x # y # P) = ((\<exists>b t. ((y, b), t) \<in> set es \<and> tn_id t = x) \<and> chain es (y # P))"

lemma entry_unique:
  assumes "entries_ok es" "(k, t) \<in> set es" "(k', t') \<in> set es" "tn_id t = tn_id t'"
  shows "k = k' \<and> t = t'"
proof -
  have "inj_on (tn_id \<circ> snd) (set es)"
    using assms(1) by (simp add: entries_ok_def distinct_map)
  from inj_onD [OF this _ assms(2,3)] assms(4) show ?thesis by simp
qed

lemma chain_head: "chain es (x # P) \<Longrightarrow> \<exists>k t. (k, t) \<in> set es \<and> tn_id t = x"
  by (cases P) auto

lemma chain_unique:
  assumes ok: "entries_ok es"
  shows "chain es (x # P) \<Longrightarrow> chain es (x # Q) \<Longrightarrow> P = Q"
proof (induction P arbitrary: x Q)
  case Nil
  then obtain t where t: "(([], []), t) \<in> set es" "tn_id t = x" by auto
  show ?case
  proof (cases Q)
    case (Cons y R)
    then obtain b t' where "((y, b), t') \<in> set es" "tn_id t' = x" and ch: "chain es (y # R)"
      using Nil.prems(2) by auto
    then have "y = []" using entry_unique [OF ok t(1), of "(y, b)" t'] t(2) by simp
    then show ?thesis using chain_head [OF ch] ok by (force simp: entries_ok_def)
  qed simp
next
  case (Cons y P)
  then obtain b t where t: "((y, b), t) \<in> set es" "tn_id t = x" and ch: "chain es (y # P)" by auto
  show ?case
  proof (cases Q)
    case Nil
    then obtain t' where "(([], []), t') \<in> set es" "tn_id t' = x" using Cons.prems(2) by auto
    then have "y = []" using entry_unique [OF ok t(1), of "([], [])" t'] t(2) by simp
    then show ?thesis using chain_head [OF ch] ok by (force simp: entries_ok_def)
  next
    case (Cons z R)
    then obtain b' t' where "((z, b'), t') \<in> set es" "tn_id t' = x" and ch': "chain es (z # R)"
      using Cons.prems(2) by auto
    then have "z = y" using entry_unique [OF ok t(1), of "(z, b')" t'] t(2) by simp
    then show ?thesis using Cons.IH [OF ch] ch' Cons by simp
  qed
qed

lemma chain_suffix: "chain es (A @ x # B) \<Longrightarrow> chain es (x # B)"
proof (induction A)
  case (Cons a A)
  then show ?case by (cases A) auto
qed simp

lemma chain_distinct:
  assumes "entries_ok es"
  shows "chain es P \<Longrightarrow> distinct P"
proof (induction P)
  case (Cons x P)
  have "x \<notin> set P"
  proof
    assume "x \<in> set P"
    then obtain A B where P: "P = A @ x # B" by (auto simp: in_set_conv_decomp)
    then have "chain es (x # B)" using Cons.prems chain_suffix [of es "x # A" x B] by simp
    then have "P = B" using chain_unique [OF assms Cons.prems] by simp
    then have "length P = length A + Suc (length P)" using arg_cong [OF P, of length] by simp
    then show False by simp
  qed
  then show ?case
    using Cons by (cases P) auto
qed simp

lemma entry_id: "(k, t) \<in> set es \<Longrightarrow> tn_id t \<in> tn_id ` snd ` set es"
  by (metis image_eqI snd_conv)

lemma chain_ids: "chain es P \<Longrightarrow> set P \<subseteq> tn_id ` snd ` set es"
proof (induction P)
  case (Cons x P)
  have "x \<in> tn_id ` snd ` set es" using chain_head [OF Cons.prems] entry_id by metis
  moreover have "set P \<subseteq> tn_id ` snd ` set es" using Cons by (cases P) auto
  ultimately show ?case by simp
qed simp

lemma chain_length:
  assumes "entries_ok es" "chain es P"
  shows "length P \<le> length es"
proof -
  have "length P = card (set P)" using chain_distinct [OF assms] by (simp add: distinct_card)
  also have "\<dots> \<le> card (tn_id ` snd ` set es)"
    by (rule card_mono) (simp_all add: chain_ids [OF assms(2)])
  also have "\<dots> \<le> length es"
    by (metis card_image_le card_length finite_imageI List.finite_set le_trans)
  finally show ?thesis .
qed

subsection \<open>The children of a node\<close>

lemma under_mem: "t \<in> set (under es k) \<longleftrightarrow> (k, t) \<in> set es"
  by (force simp: under_def)

lemma order_set: "order_ok ord \<Longrightarrow> set (ord i ks) = set ks"
  by (metis order_ok_def set_mset_mset)

lemma kids_mem:
  assumes "order_ok ord"
  shows "(b, c) \<in> set (kids es ord i) \<longleftrightarrow> ((i, b), c) \<in> set es"
proof
  assume "(b, c) \<in> set (kids es ord i)"
  then show "((i, b), c) \<in> set es" by (auto simp: kids_def under_mem)
next
  assume mem: "((i, b), c) \<in> set es"
  then have key: "(i, b) \<in> set (ord i (remdups (map fst es)))"
    by (force simp: order_set [OF assms])
  show "(b, c) \<in> set (kids es ord i)"
  proof (cases "b = []")
    case True
    then show ?thesis using mem by (auto simp: kids_def under_mem)
  next
    case False
    then show ?thesis using mem key by (fastforce simp: kids_def under_mem)
  qed
qed

lemma distinct_under:
  assumes "entries_ok es"
  shows "distinct (map tn_id (under es k))"
proof -
  have "distinct (map (tn_id \<circ> snd) (filter (\<lambda>e. fst e = k) es))"
    using assms by (intro distinct_filter_map) (simp add: entries_ok_def)
  then show ?thesis by (simp add: under_def)
qed

lemma distinct_under_all:
  assumes ok: "entries_ok es"
  shows "distinct ks \<Longrightarrow> distinct (map tn_id (concat (map (under es) ks)))"
proof (induction ks)
  case (Cons k ks)
  have "tn_id t \<noteq> tn_id t'" if "t \<in> set (under es k)" "t' \<in> set (under es k')" "k' \<in> set ks" for t t' k'
    using entry_unique [OF ok, of k t k' t'] that Cons.prems by (auto simp: under_mem)
  then have "set (map tn_id (under es k)) \<inter> set (map tn_id (concat (map (under es) ks))) = {}"
    by fastforce
  moreover have "distinct (map tn_id (concat (map (under es) ks)))" using Cons by simp
  ultimately show ?case
    using distinct_under [OF ok, of k] by (simp only: list.map concat.simps map_append distinct_append)
qed simp

lemma distinct_kids:
  assumes ok: "entries_ok es" and ord: "order_ok ord"
  shows "distinct (map (tn_id \<circ> snd) (kids es ord i))"
proof -
  let ?ks = "filter (\<lambda>k. fst k = i \<and> snd k \<noteq> []) (ord i (remdups (map fst es)))"
  have "distinct (ord i (remdups (map fst es)))"
    using ord by (metis distinct_remdups mset_eq_imp_distinct_iff order_ok_def)
  then have "distinct ((i, []) # ?ks)" by simp
  from distinct_under_all [OF ok this] show ?thesis
    by (simp add: kids_def map_concat comp_def)
qed

lemma chain_kid: "chain es (i # P) \<Longrightarrow> ((i, b), c) \<in> set es \<Longrightarrow> chain es (tn_id c # i # P)"
  by auto

subsection \<open>The recursion ends\<close>

lemma attach_total:
  assumes ok: "entries_ok es" and ord: "order_ok ord"
  shows "chain es (tn_id t # P) \<Longrightarrow> length es \<le> n + length P \<Longrightarrow> attach_children n es ord t \<noteq> None"
proof (induction n arbitrary: t P)
  case 0
  then show ?case using chain_length [OF ok 0(1)] by simp
next
  case (Suc n)
  have "attach_children n es ord c \<noteq> None" if "(b, c) \<in> set (kids es ord (tn_id t))" for b c
  proof (rule Suc.IH)
    have "((tn_id t, b), c) \<in> set es" using that by (simp add: kids_mem [OF ord])
    then show "chain es (tn_id c # tn_id t # P)" by (rule chain_kid [OF Suc.prems(1)])
    show "length es \<le> n + length (tn_id t # P)" using Suc.prems(2) by simp
  qed
  then have "None \<notin> set (map (\<lambda>(b, c). map_option (set_branch b) (attach_children n es ord c))
      (kids es ord (tn_id t)))" by force
  then show ?case by (simp add: those_None)
qed

primrec tree_ids :: "tracing_node \<Rightarrow> node_id list" where
  "tree_ids (TracingNode i nm ty st ms out err cs b) = i # concat (map tree_ids cs)"

lemma tree_ids_unfold: "tree_ids t = tn_id t # concat (map tree_ids (tn_children t))"
  by (cases t) simp

lemma tree_ids_set_branch [simp]: "tree_ids (set_branch b t) = tree_ids t"
  by (simp add: tree_ids_unfold)

subsection \<open>What the tree shows\<close>

lemma distinct_concat_keyed:
  assumes "distinct (map h xs)" "\<And>x. x \<in> set xs \<Longrightarrow> distinct (f x)"
    "\<And>x y. x \<in> set xs \<Longrightarrow> y \<in> set xs \<Longrightarrow> h x \<noteq> h y \<Longrightarrow> set (f x) \<inter> set (f y) = {}"
  shows "distinct (concat (map f xs))"
  using assms
proof (induction xs)
  case (Cons x xs)
  have "set (f x) \<inter> set (f y) = {}" if "y \<in> set xs" for y
  proof (rule Cons.prems(3))
    show "h x \<noteq> h y" using Cons.prems(1) that by auto
  qed (use that in simp_all)
  then have "set (f x) \<inter> set (concat (map f xs)) = {}" by fastforce
  moreover have "distinct (concat (map f xs))"
    using Cons.prems by (intro Cons.IH) simp_all
  ultimately show ?case using Cons.prems(2) by simp
qed simp

text \<open>The IDs whose chain of parents passes through a node.\<close>

definition below :: "(tracing_key \<times> tracing_node) list \<Rightarrow> node_id list \<Rightarrow> node_id set" where
  "below es P = {hd (A @ P) | A. chain es (A @ P)}"

lemma below_self: "chain es (x # P) \<Longrightarrow> x \<in> below es (x # P)"
  unfolding below_def by (rule CollectI) (rule exI [of _ "[]"], simp)

lemma below_unfold:
  assumes "chain es (x # P)"
  shows "below es (x # P) =
    insert x (\<Union>((\<lambda>(b, c). below es (tn_id c # x # P)) ` {(b, c). ((x, b), c) \<in> set es}))"
proof (intro equalityI subsetI)
  fix y assume "y \<in> below es (x # P)"
  then obtain A where A: "chain es (A @ x # P)" "y = hd (A @ x # P)" by (auto simp: below_def)
  show "y \<in> insert x (\<Union>((\<lambda>(b, c). below es (tn_id c # x # P)) ` {(b, c). ((x, b), c) \<in> set es}))"
  proof (cases A rule: rev_cases)
    case (snoc B z)
    then have "chain es (z # x # P)" using A(1) chain_suffix [of es B z "x # P"] by simp
    then obtain b c where c: "((x, b), c) \<in> set es" "tn_id c = z" by auto
    have "y \<in> below es (z # x # P)"
      using A snoc unfolding below_def by auto
    then show ?thesis using c by blast
  qed (use A in simp)
next
  fix y
  assume "y \<in> insert x (\<Union>((\<lambda>(b, c). below es (tn_id c # x # P)) ` {(b, c). ((x, b), c) \<in> set es}))"
  then show "y \<in> below es (x # P)"
  proof (elim insertE UN_E)
    fix bc assume "y \<in> (case bc of (b, c) \<Rightarrow> below es (tn_id c # x # P))"
    then obtain A c where "chain es (A @ tn_id c # x # P)" "y = hd (A @ tn_id c # x # P)"
      by (auto simp: below_def split: prod.splits)
    then have "chain es ((A @ [tn_id c]) @ x # P)" "y = hd ((A @ [tn_id c]) @ x # P)" by simp_all
    then show ?thesis unfolding below_def by blast
  qed (use below_self [OF assms] in simp)
qed

lemma below_above:
  assumes ok: "entries_ok es" and ch: "chain es (c # P)"
  shows "below es (c # P) \<inter> set P = {}"
proof -
  have "hd (A @ c # P) \<notin> set P" if "chain es (A @ c # P)" for A
    using chain_distinct [OF ok that] by (cases A) auto
  then show ?thesis by (auto simp: below_def)
qed

lemma branches_disjoint:
  assumes ok: "entries_ok es" and ne: "c \<noteq> d"
  shows "below es (c # P) \<inter> below es (d # P) = {}"
proof -
  have False if A: "chain es (A @ c # P)" and B: "chain es (B @ d # P)"
    and hd: "hd (A @ c # P) = hd (B @ d # P)" for A B
  proof -
    obtain x Q where Q: "A @ c # P = x # Q" by (cases A) auto
    obtain R where R: "B @ d # P = x # R" using hd Q by (cases B) auto
    have "Q = R" using chain_unique [OF ok, of x Q R] A B Q R by simp
    then have "(A @ [c]) @ P = (B @ [d]) @ P" using Q R by simp
    then have "A @ [c] = B @ [d]" by (rule append_same_eq [THEN iffD1])
    then show False using ne by simp
  qed
  then show ?thesis unfolding below_def by blast
qed

lemma attach_ids:
  assumes ok: "entries_ok es" and ord: "order_ok ord"
  shows "(k, t) \<in> set es \<Longrightarrow> chain es (tn_id t # P) \<Longrightarrow> attach_children n es ord t = Some u \<Longrightarrow>
    set (tree_ids u) = below es (tn_id t # P) \<and> distinct (tree_ids u)"
proof (induction n arbitrary: k t P u)
  case 0
  then show ?case by simp
next
  case (Suc n)
  let ?i = "tn_id t"
  let ?ks = "kids es ord ?i"
  let ?f = "\<lambda>bc. tree_ids (the (attach_children n es ord (snd bc)))"
  obtain cs where u: "u = add_children t cs" and
    cs: "map (\<lambda>(b, c). map_option (set_branch b) (attach_children n es ord c)) ?ks = map Some cs"
    using attach_SucD [OF Suc.prems(3)] by blast
  have kid: "set (?f bc) = below es (tn_id (snd bc) # ?i # P) \<and> distinct (?f bc)"
    if bc: "bc \<in> set ?ks" for bc
  proof -
    obtain b c where [simp]: "bc = (b, c)" by (cases bc)
    have c: "((?i, b), c) \<in> set es" using bc by (simp add: kids_mem [OF ord])
    have "map_option (set_branch b) (attach_children n es ord c) \<in> set (map Some cs)"
      unfolding cs [symmetric] using bc by force
    then obtain w where "attach_children n es ord c = Some w" by auto
    then show ?thesis
      using Suc.IH [OF c chain_kid [OF Suc.prems(2) c]] by simp
  qed
  have "map tree_ids cs = map ?f ?ks"
  proof -
    have "map (tree_ids \<circ> the) (map Some cs) = map ?f ?ks"
      unfolding cs [symmetric] map_map
    proof (rule map_cong [OF refl])
      fix bc assume "bc \<in> set ?ks"
      then have "(case bc of (b, c) \<Rightarrow> map_option (set_branch b) (attach_children n es ord c)) \<in>
          set (map Some cs)" unfolding cs [symmetric] by force
      then show "((tree_ids \<circ> the) \<circ> (\<lambda>(b, c). map_option (set_branch b) (attach_children n es ord c))) bc = ?f bc"
        by (cases bc) auto
    qed
    then show ?thesis by (simp add: comp_def)
  qed
  moreover have "tn_children t = []" using ok Suc.prems(1) by (force simp: entries_ok_def)
  ultimately have ids: "tree_ids u = ?i # concat (map ?f ?ks)"
    by (simp add: u tree_ids_unfold [of "add_children t cs"])
  have sets: "set (concat (map ?f ?ks)) = (\<Union>bc \<in> set ?ks. below es (tn_id (snd bc) # ?i # P))"
    using kid by auto
  have "(\<Union>bc \<in> set ?ks. below es (tn_id (snd bc) # ?i # P)) =
      \<Union>((\<lambda>(b, c). below es (tn_id c # ?i # P)) ` {(b, c). ((?i, b), c) \<in> set es})"
  proof -
    have "set ?ks = {(b, c). ((?i, b), c) \<in> set es}" by (auto simp: kids_mem [OF ord])
    then show ?thesis by (simp add: case_prod_beta)
  qed
  then have "set (tree_ids u) = below es (?i # P)"
    using below_unfold [OF Suc.prems(2)] sets ids by simp
  moreover have "distinct (concat (map ?f ?ks))"
  proof (rule distinct_concat_keyed [OF distinct_kids [OF ok ord, of ?i]])
    show "distinct (?f bc)" if "bc \<in> set ?ks" for bc using kid [OF that] by simp
    show "set (?f bc) \<inter> set (?f bd) = {}"
      if "bc \<in> set ?ks" "bd \<in> set ?ks" "(tn_id \<circ> snd) bc \<noteq> (tn_id \<circ> snd) bd" for bc bd
      using kid [OF that(1)] kid [OF that(2)] branches_disjoint [OF ok] that(3) by simp
  qed
  moreover have "?i \<notin> set (concat (map ?f ?ks))"
  proof -
    have "?i \<notin> below es (tn_id (snd bc) # ?i # P)" if "bc \<in> set ?ks" for bc
    proof -
      have "((?i, fst bc), snd bc) \<in> set es" using that kids_mem [OF ord, of "fst bc" "snd bc"] by simp
      from below_above [OF ok chain_kid [OF Suc.prems(2) this]] show ?thesis by auto
    qed
    then show ?thesis unfolding sets by blast
  qed
  ultimately show ?case by (simp add: ids)
qed

lemma tracing_entries_ok:
  assumes "workflow_is_valid g"
  shows "entries_ok (tracing_entries g infos)" "length (tracing_entries g infos) \<le> length (wf_nodes g)"
proof -
  have nodes: "distinct (map nd_id (wf_nodes g))" "[] \<notin> set (map nd_id (wf_nodes g))"
    using assms by (auto simp: workflow_is_valid_def valid_nodes_iff split: if_splits)
  let ?P = "\<lambda>n. gm_get infos (nd_id n) \<noteq> None"
  have es: "tracing_entries g infos = map
      (\<lambda>n. (parent_key g (nd_id n), tracing_node_of n (the (gm_get infos (nd_id n)))))
      (filter ?P (wf_nodes g))"
    by (auto simp: tracing_entries_def List.map_filter_def intro!: arg_cong2 [where f = map])
  show "length (tracing_entries g infos) \<le> length (wf_nodes g)"
    by (simp add: es)
  have "map (tn_id \<circ> snd) (tracing_entries g infos) = map nd_id (filter ?P (wf_nodes g))"
    by (simp add: es tracing_node_of_def comp_def)
  then show "entries_ok (tracing_entries g infos)"
    using nodes distinct_filter_map [OF nodes(1), of ?P]
    unfolding entries_ok_def es by (auto simp: tracing_node_of_def comp_def image_iff)
qed

lemma chains_by_root:
  "{x. \<exists>P. chain es (x # P)} = (\<Union>r \<in> set (under es ([], [])). below es [tn_id r])"
proof (intro equalityI subsetI)
  fix x assume "x \<in> {x. \<exists>P. chain es (x # P)}"
  then obtain P where P: "chain es (x # P)" by blast
  obtain A z where Az: "x # P = A @ [z]" by (metis append_butlast_last_id list.distinct(1))
  then have "chain es [z]" using P chain_suffix [of es A z "[]"] by simp
  then obtain r where r: "(([], []), r) \<in> set es" "tn_id r = z" by auto
  have "x \<in> below es [z]"
    using P Az unfolding below_def by (metis (mono_tags, lifting) CollectI list.sel(1))
  then show "x \<in> (\<Union>r \<in> set (under es ([], [])). below es [tn_id r])"
    using r by (auto simp: under_mem)
next
  fix x assume "x \<in> (\<Union>r \<in> set (under es ([], [])). below es [tn_id r])"
  then obtain A r where "chain es (A @ [tn_id r])" "x = hd (A @ [tn_id r])"
    by (auto simp: below_def)
  then have "chain es (x # tl (A @ [tn_id r]))" by (cases A) auto
  then show "x \<in> {x. \<exists>P. chain es (x # P)}" by blast
qed

text \<open>C22. The tracing tree of a valid definition: the recursion ends within as many levels as there
  are nodes, whatever the edges, cycles included, and however the map of children is ordered;
  every node occurs at most once, and the nodes that occur are those whose chain of branch
  parents, up to a root, has tasks.\<close>

theorem tracing_tree_exact:
  assumes "get_execution s i = Inr e" "get_workflow_with_nodes s (ex_workflow_id e) = Inr g"
    "workflow_is_valid g" "order_ok ord" "length (wf_nodes g) \<le> n"
  shows "\<exists>forest. get_execution_tracing n cd ord s i = Some (Inr forest) \<and>
     distinct (concat (map tree_ids forest)) \<and>
     set (concat (map tree_ids forest)) =
       {x. \<exists>P. chain (tracing_entries g (node_tasks cd (list_tasks s i))) (x # P)}"
proof -
  define es where "es = tracing_entries g (node_tasks cd (list_tasks s i))"
  have ok: "entries_ok es" and len: "length es \<le> n"
    using tracing_entries_ok [OF assms(3), of "node_tasks cd (list_tasks s i)"] assms(5)
    by (simp_all add: es_def)
  let ?roots = "under es ([], [])"
  let ?f = "\<lambda>r. tree_ids (the (attach_children n es ord r))"
  have root: "(([], []), r) \<in> set es" "chain es [tn_id r]" if "r \<in> set ?roots" for r
    using that by (auto simp: under_mem)
  have total: "attach_children n es ord r \<noteq> None" if "r \<in> set ?roots" for r
    using attach_total [OF ok assms(4) root(2) [OF that]] len by simp
  then obtain forest where forest: "those (map (attach_children n es ord) ?roots) = Some forest"
    by (force simp: those_None simp flip: not_None_eq)
  have ids: "set (?f r) = below es [tn_id r] \<and> distinct (?f r)" if "r \<in> set ?roots" for r
    using attach_ids [OF ok assms(4) root(1) [OF that], of "[]" n] root(2) [OF that] total [OF that] by auto
  have f: "map tree_ids forest = map ?f ?roots"
  proof -
    have "map (tree_ids \<circ> the) (map Some forest) = map ?f ?roots"
      unfolding forest [unfolded those_Some, symmetric] map_map by simp
    then show ?thesis by (simp add: comp_def)
  qed
  have "distinct (concat (map ?f ?roots))"
  proof (rule distinct_concat_keyed [OF distinct_under [OF ok]])
    show "set (?f r) \<inter> set (?f q) = {}"
      if "r \<in> set ?roots" "q \<in> set ?roots" "tn_id r \<noteq> tn_id q" for r q
      using ids [OF that(1)] ids [OF that(2)] branches_disjoint [OF ok that(3), of "[]"] by simp
  qed (use ids in blast)
  moreover have "set (concat (map ?f ?roots)) = {x. \<exists>P. chain es (x # P)}"
    using ids by (simp add: chains_by_root)
  ultimately have "distinct (concat (map tree_ids forest)) \<and>
      set (concat (map tree_ids forest)) = {x. \<exists>P. chain es (x # P)}"
    unfolding f by blast
  moreover have "get_execution_tracing n cd ord s i = Some (Inr forest)"
    using assms(1,2) forest by (simp add: get_execution_tracing_def Let_def flip: es_def)
  ultimately show ?thesis unfolding es_def by blast
qed

text \<open>A condition with a branch below it; the second node has no task.\<close>

definition traced_workflow :: workflow where
  "traced_workflow = sample_workflow
     [sample_node ''c'' NodeTypeCondition 0, sample_node ''d'' ''TEST'' 1, sample_node ''e'' ''TEST'' 2]
     [sample_edge ''c'' ''e'' ''yes'', sample_edge ''c'' ''d'' ''no'']"

definition traced_store :: "task list \<Rightarrow> mem_store" where
  "traced_store ts = new_memory_store\<lparr>
     ms_workflows := [(''w'', traced_workflow)],
     ms_executions := [(''a'', sample_execution ''a'' 0 10)],
     ms_tasks := map (\<lambda>t. (tk_id t, t)) ts\<rparr>"

theorem tracing_tree_exact_witness:
  "\<forall>cd ts. \<exists>forest. get_execution_tracing 3 cd (\<lambda>i ks. ks) (traced_store ts) ''a'' = Some (Inr forest) \<and>
     distinct (concat (map tree_ids forest))"
proof (intro allI)
  fix cd ts
  have "get_execution (traced_store ts) ''a'' = Inr (sample_execution ''a'' 0 10)"
    by (simp add: traced_store_def get_execution_def)
  moreover have "get_workflow_with_nodes (traced_store ts) (ex_workflow_id (sample_execution ''a'' 0 10)) =
      Inr traced_workflow"
    by (simp add: traced_store_def get_workflow_with_nodes_def sample_execution_def)
  moreover have "workflow_is_valid traced_workflow" "length (wf_nodes traced_workflow) \<le> 3"
    by (simp_all add: traced_workflow_def workflow_is_valid_def sample_workflow_def sample_node_def)
  moreover have "order_ok (\<lambda>i ks. ks)" by (simp add: order_ok_def)
  ultimately show "\<exists>forest. get_execution_tracing 3 cd (\<lambda>i ks. ks) (traced_store ts) ''a'' = Some (Inr forest) \<and>
     distinct (concat (map tree_ids forest))"
    using tracing_tree_exact [of "traced_store ts" "''a''" "sample_execution ''a'' 0 10" traced_workflow
        "\<lambda>i ks. ks" 3 cd] by blast
qed

end
