(* ===== verification/Observer.thy ===== *)
theory Observer
  imports WfModel
begin

text \<open>
  workflow/pkg/observer/observer.go: the observer interface, the manager that fans a
  notification out, the observer that logs and the one that does nothing. An observer is a
  function on a state \<open>'s\<close> of what observers keep; it can panic or block, which the caller of
  the notification sees.
\<close>

subsection \<open>Notifications\<close>

text \<open>The nine methods of the interface with their arguments; a nil error is None.\<close>

datatype obs_call =
    OnExecutionStarted execution | OnExecutionCompleted execution "gerr option"
  | OnExecutionPaused execution | OnExecutionResumed execution | OnExecutionCancelled execution
  | OnTaskStarted task node | OnTaskCompleted task node "gerr option"
  | OnTaskRetrying task int | OnTaskSkipped task string

type_synonym 's observer = "obs_call \<Rightarrow> 's \<Rightarrow> 's outcome"

subsection \<open>The manager\<close>

record 's observer_manager =
  om_observers :: "'s observer list"

definition new_observer_manager :: "'s observer_manager" where
  "new_observer_manager = \<lparr>om_observers = []\<rparr>"

definition register_observer :: "'s observer_manager \<Rightarrow> 's observer \<Rightarrow> 's observer_manager" where
  "register_observer m ob = m\<lparr>om_observers := om_observers m @ [ob]\<rparr>"

fun dispatch_to :: "'s observer list \<Rightarrow> obs_call \<Rightarrow> 's \<Rightarrow> 's outcome" where
  "dispatch_to [] c s = Done s"
| "dispatch_to (ob # obs) c s = bind_outcome (ob c s) (dispatch_to obs c)"

text \<open>The nine methods of the manager only differ in the call they pass on, so the manager is
  an observer itself.\<close>

definition manager_notify :: "'s observer_manager \<Rightarrow> 's observer" where
  "manager_notify m c s = dispatch_to (om_observers m) c s"

fun notify_all :: "'s observer \<Rightarrow> obs_call list \<Rightarrow> 's \<Rightarrow> 's outcome" where
  "notify_all ob [] s = Done s"
| "notify_all ob (c # cs) s = bind_outcome (ob c s) (notify_all ob cs)"

subsection \<open>The log observer\<close>

datatype log_level = DebugLevel | InfoLevel | WarnLevel | ErrorLevel | OtherLevel

datatype field_value = FString string | FInt int

record log_line =
  ll_level :: log_level
  ll_msg :: string
  ll_fields :: "(string \<times> field_value) list"

text \<open>\<open>log\<close> writes nothing at a level it does not know.\<close>

definition log_write :: "log_level \<Rightarrow> string \<Rightarrow> (string \<times> field_value) list \<Rightarrow> log_line list \<Rightarrow>
    log_line list" where
  "log_write level msg fs out =
     (if level = OtherLevel then out
      else out @ [\<lparr>ll_level = level, ll_msg = msg, ll_fields = fs\<rparr>])"

definition error_level :: "gerr option \<Rightarrow> log_level" where
  "error_level err = (if err = None then InfoLevel else ErrorLevel)"

definition error_field :: "gerr option \<Rightarrow> (string \<times> field_value) list" where
  "error_field err = (case err of None \<Rightarrow> [] | Some e \<Rightarrow> [(''error'', FString (gerr_text e))])"

fun log_observe :: "obs_call \<Rightarrow> log_line list \<Rightarrow> log_line list" where
  "log_observe (OnExecutionStarted e) out = log_write InfoLevel ''[wf] execution started''
     [(''execution_id'', FString (ex_id e)), (''workflow_id'', FString (ex_workflow_id e)),
      (''workflow_name'', FString (ex_workflow_name e)),
      (''trigger_type'', FString (trigger_type_str (ex_trigger_type e)))] out"
| "log_observe (OnExecutionCompleted e err) out = log_write (error_level err) ''[wf] execution completed''
     ([(''execution_id'', FString (ex_id e)), (''workflow_id'', FString (ex_workflow_id e)),
       (''status'', FString (exec_status_str (ex_status e)))] @ error_field err) out"
| "log_observe (OnExecutionPaused e) out = log_write InfoLevel ''[wf] execution paused''
     [(''execution_id'', FString (ex_id e)), (''current_node'', FString (ex_current_node_id e))] out"
| "log_observe (OnExecutionResumed e) out = log_write InfoLevel ''[wf] execution resumed''
     [(''execution_id'', FString (ex_id e))] out"
| "log_observe (OnExecutionCancelled e) out = log_write WarnLevel ''[wf] execution canceled''
     [(''execution_id'', FString (ex_id e))] out"
| "log_observe (OnTaskStarted t n) out = log_write InfoLevel ''[wf] task started''
     [(''task_id'', FString (tk_id t)), (''node_name'', FString (tk_node_name t)),
      (''node_type'', FString (tk_node_type t)), (''execution_id'', FString (tk_execution_id t))] out"
| "log_observe (OnTaskCompleted t n err) out = log_write (error_level err) ''[wf] task completed''
     ([(''task_id'', FString (tk_id t)), (''node_name'', FString (tk_node_name t)),
       (''retry_count'', FInt (tk_retry_count t))] @ error_field err) out"
| "log_observe (OnTaskRetrying t attempt) out = log_write WarnLevel ''[wf] task retrying''
     [(''task_id'', FString (tk_id t)), (''node_name'', FString (tk_node_name t)),
      (''attempt'', FInt attempt), (''max_retries'', FInt (tk_max_retries t))] out"
| "log_observe (OnTaskSkipped t reason) out = log_write InfoLevel ''[wf] task skipped''
     [(''task_id'', FString (tk_id t)), (''node_name'', FString (tk_node_name t)),
      (''reason'', FString reason)] out"

definition log_observer :: "log_line list observer" where
  "log_observer c out = Done (log_observe c out)"

definition trace_observer :: "'s observer" where
  "trace_observer c s = Done s"

subsection \<open>Fan-out\<close>

lemma dispatch_append:
  "dispatch_to (xs @ ys) c s = bind_outcome (dispatch_to xs c s) (dispatch_to ys c)"
proof (induction xs arbitrary: s)
  case (Cons ob xs)
  then show ?case by (cases "ob c s") simp_all
qed simp

lemma dispatch_manager:
  "dispatch_to (xs @ manager_notify m # ys) c s = dispatch_to (xs @ om_observers m @ ys) c s"
  by (cases "dispatch_to xs c s") (simp_all add: dispatch_append manager_notify_def)

lemma dispatch_trace: "dispatch_to (xs @ trace_observer # ys) c s = dispatch_to (xs @ ys) c s"
  by (cases "dispatch_to xs c s") (simp_all add: dispatch_append trace_observer_def)

lemma notify_all_cong: "(\<And>c s. f c s = g c s) \<Longrightarrow> notify_all f cs s = notify_all g cs s"
proof (induction cs arbitrary: s)
  case (Cons c cs)
  then show ?case by (cases "g c s") simp_all
qed simp


lemma log_observe_one: "\<exists>l. log_observe c out = out @ [l]"
  by (cases c) (simp_all add: log_write_def error_level_def)

text \<open>The observers registered one by one.\<close>

definition register_all :: "'s observer list \<Rightarrow> 's observer_manager" where
  "register_all obs = fold (\<lambda>ob m. register_observer m ob) obs new_observer_manager"

lemma register_all_observers: "om_observers (register_all obs) = obs"
proof -
  have "om_observers (fold (\<lambda>ob m. register_observer m ob) obs m) = om_observers m @ obs" for m
    by (induction obs arbitrary: m) (simp_all add: register_observer_def)
  then show ?thesis by (simp add: register_all_def new_observer_manager_def)
qed

text \<open>Each notification makes every registered log observer write exactly one line, in the order
  of the notifications; an error is logged, with its text, exactly when there is one.\<close>

theorem log_lines_exact:
  "\<exists>lines. notify_all (manager_notify (register_all (replicate n log_observer))) cs out =
       Done (out @ lines) \<and> length lines = n * length cs \<and>
     log_observe (OnExecutionCompleted e err) [] = [\<lparr>
       ll_level = (if err = None then InfoLevel else ErrorLevel), ll_msg = ''[wf] execution completed'',
       ll_fields = [(''execution_id'', FString (ex_id e)), (''workflow_id'', FString (ex_workflow_id e)),
         (''status'', FString (exec_status_str (ex_status e)))] @
         (case err of None \<Rightarrow> [] | Some x \<Rightarrow> [(''error'', FString (gerr_text x))])\<rparr>]"
proof -
  have one: "\<exists>lines. dispatch_to (replicate n log_observer) c out = Done (out @ lines) \<and> length lines = n"
    for c out
  proof (induction n arbitrary: out)
    case (Suc n)
    obtain l where l: "log_observe c out = out @ [l]" using log_observe_one by blast
    obtain ls where "dispatch_to (replicate n log_observer) c (out @ [l]) = Done ((out @ [l]) @ ls)"
      "length ls = n" using Suc.IH by blast
    then show ?case
      by (intro exI [of _ "l # ls"]) (simp add: log_observer_def [of c] l)
  qed simp
  have "\<exists>lines. notify_all (manager_notify (register_all (replicate n log_observer))) cs out =
      Done (out @ lines) \<and> length lines = n * length cs"
  proof (induction cs arbitrary: out)
    case (Cons c cs)
    obtain ls where "dispatch_to (replicate n log_observer) c out = Done (out @ ls)" "length ls = n"
      using one by blast
    moreover obtain ms where "notify_all (manager_notify (register_all (replicate n log_observer))) cs
        (out @ ls) = Done ((out @ ls) @ ms)" "length ms = n * length cs"
      using Cons.IH by blast
    ultimately show ?case
      by (intro exI [of _ "ls @ ms"]) (simp add: manager_notify_def [of _ c] register_all_observers)
  qed simp
  then show ?thesis
    by (auto simp: log_write_def error_level_def error_field_def)
qed

end
