(* ===== verification/I18n.thy ===== *)
theory I18n
  imports StrTools
begin

text \<open>
  frame/pkg/i18n/i18n.go: the translator, its loading of language files, the choice of the
  language of a request and the formatting of messages. The file system, the JSON and YAML
  parsers, the \<open>%v\<close> verb and \<open>fmt.Sprintf\<close> are parameters. Each method of the translator runs
  under its lock; the nested maps of a file are association lists in iteration order.
\<close>

subsection \<open>The translator\<close>

record translator =
  tl_default :: string
  tl_messages :: "(string, (string, string) gomap) gomap"

definition new_translator :: "string \<Rightarrow> translator" where
  "new_translator lg = \<lparr>tl_default = lg, tl_messages = []\<rparr>"

definition set_default :: "translator \<Rightarrow> string \<Rightarrow> translator" where
  "set_default t lg = t\<lparr>tl_default := lg\<rparr>"

definition default_lang :: "translator \<Rightarrow> string" where
  "default_lang t = tl_default t"

definition put_all :: "('k \<times> 'v) list \<Rightarrow> ('k, 'v) gomap \<Rightarrow> ('k, 'v) gomap" where
  "put_all kvs m = fold (\<lambda>(k, v) r. gm_put k v r) kvs m"

definition register_messages :: "translator \<Rightarrow> string \<Rightarrow> (string, string) gomap \<Rightarrow> translator" where
  "register_messages t lg msgs =
     (let old = (case gm_get (tl_messages t) lg of None \<Rightarrow> [] | Some m \<Rightarrow> m)
      in t\<lparr>tl_messages := gm_put lg (put_all msgs old) (tl_messages t)\<rparr>)"

definition has_lang :: "translator \<Rightarrow> string \<Rightarrow> bool" where
  "has_lang t lg = gm_has (tl_messages t) lg"

definition languages :: "translator \<Rightarrow> string list" where
  "languages t = map fst (tl_messages t)"

subsection \<open>Formatting\<close>

record 'a fmtlib =
  fm_verb :: "'a \<Rightarrow> string"
  fm_sprintf :: "string \<Rightarrow> 'a list \<Rightarrow> string"

definition placeholder :: "nat \<Rightarrow> string" where
  "placeholder i = ''{'' @ dec_of (int i) @ ''}''"

fun format_loop :: "'a fmtlib \<Rightarrow> nat \<Rightarrow> 'a list \<Rightarrow> string \<Rightarrow> bool \<Rightarrow> string \<times> bool" where
  "format_loop f i [] result found = (result, found)"
| "format_loop f i (a # as) result found =
     (if str_has result (placeholder i)
      then format_loop f (Suc i) as (replace_all result (placeholder i) (fm_verb f a)) True
      else format_loop f (Suc i) as result found)"

definition format_message :: "'a fmtlib \<Rightarrow> string \<Rightarrow> 'a list \<Rightarrow> string" where
  "format_message f msg as =
     (if length as = 0 then msg
      else let (result, found) = format_loop f 0 as msg False
           in if found then result
              else if str_has msg ''%'' then fm_sprintf f msg as else msg)"

subsection \<open>Translation\<close>

definition message_of :: "translator \<Rightarrow> string \<Rightarrow> string \<Rightarrow> string option" where
  "message_of t lg key = (case gm_get (tl_messages t) lg of
       None \<Rightarrow> None | Some msgs \<Rightarrow> gm_get msgs key)"

definition base_lang :: "string \<Rightarrow> string" where
  "base_lang lg = hd (str_split ''-'' lg)"

definition tr :: "'a fmtlib \<Rightarrow> translator \<Rightarrow> string \<Rightarrow> string \<Rightarrow> 'a list \<Rightarrow> string" where
  "tr f t lg key as =
     (case message_of t lg key of
        Some msg \<Rightarrow> format_message f msg as
      | None \<Rightarrow>
          (case (if base_lang lg \<noteq> lg then message_of t (base_lang lg) key else None) of
             Some msg \<Rightarrow> format_message f msg as
           | None \<Rightarrow>
               (case (if lg \<noteq> tl_default t then message_of t (tl_default t) key else None) of
                  Some msg \<Rightarrow> format_message f msg as
                | None \<Rightarrow> key)))"

definition translate_default :: "'a fmtlib \<Rightarrow> translator \<Rightarrow> string \<Rightarrow> 'a list \<Rightarrow> string" where
  "translate_default f t key as = tr f t (default_lang t) key as"

subsection \<open>Language files\<close>

text \<open>A decoded value: a text, a nested map, or another value as its \<open>%v\<close> text.\<close>

datatype msg_value = MStr string | MMap "(string \<times> msg_value) list" | MOther string

function flatten_pairs :: "string \<Rightarrow> (string \<times> msg_value) list \<Rightarrow> (string \<times> string) list" where
  "flatten_pairs pre [] = []"
| "flatten_pairs pre ((k, v) # m) =
     (let key = (if pre \<noteq> [] then pre @ ''.'' @ k else k)
      in (case v of MStr s \<Rightarrow> [(key, s)] | MMap m' \<Rightarrow> flatten_pairs key m' | MOther s \<Rightarrow> [(key, s)])
         @ flatten_pairs pre m)"
  by pat_completeness auto
termination
  by (relation "measure (\<lambda>(pre, m). size_list (size_prod (\<lambda>_. 0) size) m)") auto

definition flatten_map :: "string \<Rightarrow> (string \<times> msg_value) list \<Rightarrow> (string, string) gomap \<Rightarrow>
    (string, string) gomap" where
  "flatten_map pre m result = put_all (flatten_pairs pre m) result"

text \<open>\<open>filepath.Ext\<close>: from the last dot of the last element of the path.\<close>

definition file_ext :: "string \<Rightarrow> string" where
  "file_ext p = (let base = rev (takeWhile (\<lambda>c. c \<noteq> CHR ''/'') (rev p))
     in case str_last_index base ''.'' of None \<Rightarrow> [] | Some i \<Rightarrow> drop i base)"

record fslib =
  fl_read_dir :: "string \<Rightarrow> gerr + (string \<times> bool) list"
  fl_read_file :: "string \<Rightarrow> gerr + string"
  fl_join :: "string \<Rightarrow> string \<Rightarrow> string"
  fl_json :: "string \<Rightarrow> gerr + (string \<times> msg_value) list"
  fl_yaml :: "string \<Rightarrow> gerr + (string \<times> msg_value) list"
  fl_ucd :: ucd

definition parse_messages :: "fslib \<Rightarrow> string \<Rightarrow> string \<Rightarrow> gerr + (string, string) gomap" where
  "parse_messages fl path data =
     (let ext = to_lower (fl_ucd fl) (file_ext path)
      in if ext = ''.json'' then (case fl_json fl data of
             Inl e \<Rightarrow> Inl (ErrMsg (''failed to parse JSON '' @ path @ '': '' @ gerr_text e))
           | Inr raw \<Rightarrow> Inr (flatten_map [] raw []))
         else if ext = ''.yaml'' \<or> ext = ''.yml'' then (case fl_yaml fl data of
             Inl e \<Rightarrow> Inl (ErrMsg (''failed to parse YAML '' @ path @ '': '' @ gerr_text e))
           | Inr raw \<Rightarrow> Inr (flatten_map [] raw []))
         else Inl (ErrMsg (''unsupported file format: '' @ ext)))"

definition load_file :: "fslib \<Rightarrow> translator \<Rightarrow> string \<Rightarrow> string \<Rightarrow> gerr option \<times> translator" where
  "load_file fl t lg path =
     (case fl_read_file fl path of
        Inl e \<Rightarrow> (Some e, t)
      | Inr data \<Rightarrow> (case parse_messages fl path data of
            Inl e \<Rightarrow> (Some e, t)
          | Inr msgs \<Rightarrow> (None, register_messages t lg msgs)))"

fun load_entries :: "fslib \<Rightarrow> string \<Rightarrow> (string \<times> bool) list \<Rightarrow> translator \<Rightarrow> gerr option \<times> translator" where
  "load_entries fl dir [] t = (None, t)"
| "load_entries fl dir ((name, is_dir) # es) t =
     (if is_dir then load_entries fl dir es t
      else let path = fl_join fl dir name
           in (case load_file fl t (remove_suffix name (file_ext name)) path of
                 (Some e, t1) \<Rightarrow> (Some (ErrMsg (''failed to load '' @ path @ '': '' @ gerr_text e)), t1)
               | (None, t1) \<Rightarrow> load_entries fl dir es t1))"

definition load_dir :: "fslib \<Rightarrow> translator \<Rightarrow> string \<Rightarrow> gerr option \<times> translator" where
  "load_dir fl t dir =
     (case fl_read_dir fl dir of
        Inl e \<Rightarrow> (Some (ErrMsg (''failed to read i18n directory '' @ dir @ '': '' @ gerr_text e)), t)
      | Inr es \<Rightarrow> load_entries fl dir es t)"

subsection \<open>The language of a request\<close>

record lang_request =
  lr_query :: string
  lr_header :: string
  lr_accept :: string

definition parse_accept_language :: "string \<Rightarrow> string list" where
  "parse_accept_language header = filter (\<lambda>lg. lg \<noteq> [] \<and> lg \<noteq> ''*'')
     (map (\<lambda>part. trim_space (hd (str_split '';'' part))) (str_split '','' header))"

fun first_supported :: "translator \<Rightarrow> string list \<Rightarrow> string option" where
  "first_supported t [] = None"
| "first_supported t (lg # ls) =
     (if has_lang t lg then Some lg
      else if has_lang t (base_lang lg) then Some (base_lang lg)
      else first_supported t ls)"

definition detect_language :: "lang_request \<Rightarrow> translator \<Rightarrow> string" where
  "detect_language r t =
     (if lr_query r \<noteq> [] \<and> has_lang t (lr_query r) then lr_query r
      else if lr_header r \<noteq> [] \<and> has_lang t (lr_header r) then lr_header r
      else case (if lr_accept r \<noteq> [] then first_supported t (parse_accept_language (lr_accept r))
                 else None) of
          Some lg \<Rightarrow> lg
        | None \<Rightarrow> default_lang t)"

text \<open>The keys of the gin context; a value that is not a string is None.\<close>

type_synonym lang_keys = "string \<Rightarrow> string option option"

definition lang_middleware :: "translator \<Rightarrow> lang_request \<Rightarrow> lang_keys \<Rightarrow> lang_keys" where
  "lang_middleware t r keys = keys(''landc_i18n_lang'' := Some (Some (detect_language r t)))"

definition lang_from_context :: "lang_keys \<Rightarrow> string outcome" where
  "lang_from_context keys = (case keys ''landc_i18n_lang'' of
       None \<Rightarrow> Done []
     | Some None \<Rightarrow> Panic ''interface conversion: interface is not string''
     | Some (Some lg) \<Rightarrow> Done lg)"

definition tr_context :: "'a fmtlib \<Rightarrow> lang_keys \<Rightarrow> translator \<Rightarrow> string \<Rightarrow> 'a list \<Rightarrow> string outcome" where
  "tr_context f keys t key as = bind_outcome (lang_from_context keys)
     (\<lambda>lg. Done (tr f t (if lg = [] then default_lang t else lg) key as))"

subsection \<open>Flattening\<close>

text \<open>A nested map as its leaves with their paths, and the lookup along a path.\<close>

fun leaves :: "msg_value \<Rightarrow> (string list \<times> string) list" where
  "leaves (MStr s) = [([], s)]"
| "leaves (MOther s) = [([], s)]"
| "leaves (MMap m) = concat (map (\<lambda>x. map (\<lambda>(p, s). (fst x # p, s)) (leaves (snd x))) m)"

fun value_at :: "string list \<Rightarrow> msg_value \<Rightarrow> string option" where
  "value_at [] (MStr s) = Some s"
| "value_at [] (MOther s) = Some s"
| "value_at [] (MMap m) = None"
| "value_at (k # p) (MMap m) = (case map_of m k of None \<Rightarrow> None | Some v \<Rightarrow> value_at p v)"
| "value_at (k # p) v = None"

text \<open>Keys without dots that are not empty; a decoded map has every key once.\<close>

fun keys_ok :: "msg_value \<Rightarrow> bool" where
  "keys_ok (MMap m) = (distinct (map fst m) \<and>
     (\<forall>x \<in> set m. fst x \<noteq> [] \<and> CHR ''.'' \<notin> set (fst x) \<and> keys_ok (snd x)))"
| "keys_ok v = True"

lemma keys_ok_ConsD:
  assumes "keys_ok (MMap ((k, v) # m))"
  shows "k \<noteq> []" "CHR ''.'' \<notin> set k" "keys_ok v" "keys_ok (MMap m)" "k \<notin> fst ` set m"
  using assms by auto

lemma join_glue: "join_strs sep (x # y # zs) = join_strs sep ((x @ sep @ y) # zs)"
  by (cases zs) simp_all

definition dotted :: "string \<Rightarrow> string list \<Rightarrow> string" where
  "dotted pre p = join_strs ''.'' (if pre = [] then p else pre # p)"

lemma dotted_Cons: "k \<noteq> [] \<Longrightarrow>
    dotted pre (k # p) = dotted (if pre \<noteq> [] then pre @ ''.'' @ k else k) p"
  by (auto simp: dotted_def join_glue simp del: join_strs.simps)

lemma flatten_leaves:
  "keys_ok (MMap m) \<Longrightarrow> flatten_pairs pre m = map (\<lambda>(p, s). (dotted pre p, s)) (leaves (MMap m))"
proof (induction pre m rule: flatten_pairs.induct)
  case (2 pre k v m)
  note ok = keys_ok_ConsD [OF 2(3)]
  let ?key = "if pre \<noteq> [] then pre @ ''.'' @ k else k"
  have key: "?key \<noteq> []" using ok(1) by simp
  have self: "dotted ?key [] = ?key" using key by (simp add: dotted_def)
  have "(case v of MStr s \<Rightarrow> [(?key, s)] | MMap m' \<Rightarrow> flatten_pairs ?key m' | MOther s \<Rightarrow> [(?key, s)]) =
      map (\<lambda>(p, s). (dotted ?key p, s)) (leaves v)"
  proof (cases v)
    case (MMap m')
    then show ?thesis using 2(1) [OF refl MMap] ok(3) by simp
  qed (use self in \<open>simp_all del: if_not_P\<close>)
  also have "\<dots> = map (\<lambda>(p, s). (dotted pre p, s)) (map (\<lambda>(p, s). (k # p, s)) (leaves v))"
    using dotted_Cons [OF ok(1), of pre] by (simp add: case_prod_beta)
  finally show ?case using 2(2) [OF refl ok(4)] by (simp add: Let_def)
qed simp

lemma map_of_Cons_keys: "map_of (map (\<lambda>(p, s). (k # p, s)) ls) q =
    (case q of [] \<Rightarrow> None | x # q' \<Rightarrow> if x = k then map_of ls q' else None)"
  by (induction ls) (auto split: list.splits)

lemma leaves_map_of: "keys_ok v \<Longrightarrow> map_of (leaves v) p = value_at p v"
proof (induction v arbitrary: p rule: leaves.induct)
  case (3 m)
  have "map_of (concat (map (\<lambda>x. map (\<lambda>(p, s). (fst x # p, s)) (leaves (snd x))) m')) p =
      value_at p (MMap m')" if "set m' \<subseteq> set m" "distinct (map fst m')" for m'
    using that
  proof (induction m')
    case Nil
    then show ?case by (cases p) simp_all
  next
    case (Cons x m')
    obtain k v where x: "x = (k, v)" by (cases x)
    have xm: "x \<in> set m" using Cons.prems(1) by simp
    then have v: "keys_ok v" using 3(2) x by force
    have rest: "map_of (concat (map (\<lambda>x. map (\<lambda>(p, s). (fst x # p, s)) (leaves (snd x))) m')) p =
        value_at p (MMap m')" using Cons.IH Cons.prems by simp
    have absent: "map_of m' k = None" using Cons.prems(2) x by (simp add: map_of_eq_None_iff)
    have "map_of (leaves v) q = value_at q v" for q using 3(1) [OF xm] v x by simp
    then show ?case
      using rest absent
      by (cases p) (auto simp: x map_of_append map_add_def map_of_Cons_keys split: option.splits)
  qed
  from this [of m] 3(2) show ?case by simp
next
  case (1 s)
  then show ?case by (cases p) simp_all
next
  case (2 s)
  then show ?case by (cases p) simp_all
qed

lemma leaves_dotfree: "keys_ok v \<Longrightarrow> (p, s) \<in> set (leaves v) \<Longrightarrow> \<forall>k \<in> set p. CHR ''.'' \<notin> set k"
proof (induction v arbitrary: p rule: leaves.induct)
  case (3 m)
  then obtain x q where x: "x \<in> set m" "(q, s) \<in> set (leaves (snd x))" "p = fst x # q" by auto
  then show ?case using 3(1) [OF x(1) _ x(2)] 3(2) by auto
qed auto

lemma leaves_distinct: "keys_ok v \<Longrightarrow> distinct (map fst (leaves v))"
proof (induction v rule: leaves.induct)
  case (3 m)
  have "distinct (map fst (concat (map (\<lambda>x. map (\<lambda>(p, s). (fst x # p, s)) (leaves (snd x))) m')))"
    if "set m' \<subseteq> set m" "distinct (map fst m')" for m'
    using that
  proof (induction m')
    case (Cons x m')
    have "distinct (map fst (leaves (snd x)))" using 3 Cons.prems(1) by simp
    then have a: "distinct (map ((#) (fst x)) (map fst (leaves (snd x))))"
      by (rule distinct_map [THEN iffD2, OF conjI]) (simp add: inj_on_def)
    have b: "map fst (map (\<lambda>(p, s). (fst x # p, s)) (leaves (snd x))) =
        map ((#) (fst x)) (map fst (leaves (snd x)))" by (simp add: case_prod_beta comp_def)
    have c: "set (map ((#) (fst x)) (map fst (leaves (snd x)))) \<inter>
        set (map fst (concat (map (\<lambda>x. map (\<lambda>(p, s). (fst x # p, s)) (leaves (snd x))) m'))) = {}"
    proof -
      have "fst x \<notin> fst ` set m'" using Cons.prems(2) by simp
      then have "\<forall>y \<in> set m'. fst y \<noteq> fst x" by (metis image_eqI)
      then show ?thesis by auto
    qed
    have "distinct (map fst (concat (map (\<lambda>x. map (\<lambda>(p, s). (fst x # p, s)) (leaves (snd x))) m')))"
      using Cons by simp
    then show ?case
      unfolding list.map concat.simps map_append b distinct_append using a c by blast
  qed simp
  from this [of m] 3(2) show ?case by simp
qed simp_all

lemma put_all_get:
  "distinct (map fst kvs) \<Longrightarrow> gm_get (put_all kvs m) k =
     (case map_of kvs k of None \<Rightarrow> gm_get m k | Some v \<Rightarrow> Some v)"
proof (induction kvs arbitrary: m)
  case (Cons kv kvs)
  obtain k' v where kv: "kv = (k', v)" by (cases kv)
  have "gm_get (put_all (kv # kvs) m) k = gm_get (put_all kvs (gm_put k' v m)) k"
    by (simp add: put_all_def kv)
  also have "\<dots> = (case map_of kvs k of None \<Rightarrow> gm_get (gm_put k' v m) k | Some v \<Rightarrow> Some v)"
    using Cons by simp
  finally have put: "gm_get (put_all (kv # kvs) m) k =
      (case map_of kvs k of None \<Rightarrow> gm_get (gm_put k' v m) k | Some v \<Rightarrow> Some v)" .
  have "map_of kvs k' = None" using Cons.prems by (simp add: kv map_of_eq_None_iff)
  then show ?case unfolding put by (auto simp: kv split: option.splits)
qed (simp add: put_all_def)

lemma split_join_dots: "join_strs [c] (str_split [c] s) = s \<and> (\<forall>x \<in> set (str_split [c] s). c \<notin> set x) \<and>
    str_split [c] s \<noteq> []"
proof (induction "length s" arbitrary: s rule: less_induct)
  case less
  show ?case
  proof (cases "c \<in> set s")
    case False
    then show ?thesis by (simp add: str_split_none)
  next
    case True
    then obtain a b where s: "s = a @ c # b" "c \<notin> set a" by (meson split_list_first)
    have IH: "join_strs [c] (str_split [c] b) = b" "\<forall>x \<in> set (str_split [c] b). c \<notin> set x"
      "str_split [c] b \<noteq> []" using less [of b] s by auto
    have "join_strs [c] (a # str_split [c] b) = a @ c # b"
      using IH by (cases "str_split [c] b") simp_all
    then show ?thesis using IH s by (simp add: str_split_char)
  qed
qed

lemma flatten_lookup:
  assumes ok: "keys_ok (MMap m)"
  shows "gm_get (flatten_map [] m []) key = value_at (str_split ''.'' key) (MMap m) \<and>
    gm_ok (flatten_map [] m [])"
proof -
  let ?L = "leaves (MMap m)"
  have ne: "p \<noteq> []" if "p \<in> set (map fst ?L)" for p using that by auto
  have split: "str_split ''.'' (dotted [] p) = p" if "p \<in> set (map fst ?L)" for p
    using str_split_join [of p "CHR ''.''"] leaves_dotfree [OF ok] ne [OF that] that
    by (fastforce simp: dotted_def)
  have pairs: "flatten_pairs [] m = map (\<lambda>(p, s). (dotted [] p, s)) ?L" by (rule flatten_leaves [OF ok])
  have "map fst (flatten_pairs [] m) = map (dotted []) (map fst ?L)"
    by (simp add: pairs case_prod_beta comp_def)
  moreover have "inj_on (dotted []) (set (map fst ?L))"
    by (rule inj_on_inverseI [of _ "str_split ''.''"]) (rule split)
  ultimately have dist: "distinct (map fst (flatten_pairs [] m))"
    using distinct_map [THEN iffD2, OF conjI, OF leaves_distinct [OF ok]] by simp
  have look: "map_of (map (\<lambda>(p, s). (dotted [] p, s)) ls) key = map_of ls (str_split ''.'' key)"
    if "set ls \<subseteq> set ?L" for ls
    using that
  proof (induction ls)
    case (Cons x ls)
    then have "str_split ''.'' (dotted [] (fst x)) = fst x" by (intro split) auto
    moreover have "dotted [] (str_split ''.'' key) = key"
      using split_join_dots [of "CHR ''.''" key] by (simp add: dotted_def)
    ultimately have "dotted [] (fst x) = key \<longleftrightarrow> fst x = str_split ''.'' key" by metis
    then show ?case using Cons by (auto simp: case_prod_beta)
  qed simp
  have "gm_ok (put_all kvs r)" if "gm_ok r" for kvs and r :: "(string, string) gomap"
    using that by (induction kvs arbitrary: r) (auto simp: put_all_def)
  then show ?thesis
    using put_all_get [OF dist, of "[]" key] look [OF subset_refl] leaves_map_of [OF ok]
    by (auto simp: flatten_map_def pairs split: option.splits)
qed

subsection \<open>Translation\<close>

definition messages_of :: "translator \<Rightarrow> string \<Rightarrow> (string, string) gomap" where
  "messages_of t lg = (case gm_get (tl_messages t) lg of None \<Rightarrow> [] | Some m \<Rightarrow> m)"

lemma message_of_messages: "message_of t lg key = gm_get (messages_of t lg) key"
  by (simp add: message_of_def messages_of_def split: option.splits)

lemma messages_of_register: "messages_of (register_messages t lg msgs) l =
    (if l = lg then put_all msgs (messages_of t lg) else messages_of t l)"
  by (simp add: messages_of_def register_messages_def Let_def)

text \<open>The translation of a key is the message of the first of the language, its base language
  and the default language that has one, formatted; else it is the key.\<close>

theorem tr_fallback_order:
  "tr f t lg key as =
     (case List.find (\<lambda>l. message_of t l key \<noteq> None) [lg, base_lang lg, tl_default t] of
        None \<Rightarrow> key
      | Some l \<Rightarrow> format_message f (the (message_of t l key)) as)"
  by (cases "message_of t lg key"; cases "message_of t (base_lang lg) key";
      cases "message_of t (tl_default t) key") (auto simp: tr_def)


definition sample_fs :: fslib where
  "sample_fs = \<lparr>fl_read_dir = (\<lambda>d. Inr [(''en.json'', False)]), fl_read_file = (\<lambda>p. Inr ''x''),
     fl_join = (\<lambda>d n. d @ ''/'' @ n),
     fl_json = (\<lambda>d. Inr [(''user'', MMap [(''hi'', MStr ''Hello {0}'')]), (''n'', MOther ''1'')]),
     fl_yaml = (\<lambda>d. Inl (ErrMsg [])), fl_ucd = ascii_ucd\<rparr>"


subsection \<open>Requests\<close>

lemma first_supported_Some:
  "first_supported t ls = Some l \<Longrightarrow> has_lang t l \<and> (\<exists>x \<in> set ls. l = x \<or> l = base_lang x)"
  by (induction ls) (auto split: if_splits)

text \<open>The language of a request is one the translator knows, or its default; the query goes
  before the header, and both before Accept-Language; a language that is none of the default is
  one the client named, in full or by its base.\<close>

theorem detected_language_known:
  "(has_lang t (detect_language r t) \<or> detect_language r t = tl_default t) \<and>
   (detect_language r t \<noteq> tl_default t \<longrightarrow>
      (\<exists>x \<in> set (lr_query r # lr_header r # parse_accept_language (lr_accept r)).
         detect_language r t = x \<or> detect_language r t = base_lang x)) \<and>
   (lr_query r \<noteq> [] \<and> has_lang t (lr_query r) \<longrightarrow> detect_language r t = lr_query r) \<and>
   tr_context f (lang_middleware t r keys) t key as =
     Done (tr f t (if detect_language r t = [] then tl_default t else detect_language r t) key as)"
proof -
  have ctx: "tr_context f (lang_middleware t r keys) t key as =
      Done (tr f t (if detect_language r t = [] then tl_default t else detect_language r t) key as)"
    by (simp add: tr_context_def lang_middleware_def lang_from_context_def default_lang_def)
  let ?q = "lr_query r \<noteq> [] \<and> has_lang t (lr_query r)"
  let ?h = "lr_header r \<noteq> [] \<and> has_lang t (lr_header r)"
  let ?a = "if lr_accept r \<noteq> [] then first_supported t (parse_accept_language (lr_accept r)) else None"
  have d: "detect_language r t = (if ?q then lr_query r else if ?h then lr_header r
      else case ?a of Some l \<Rightarrow> l | None \<Rightarrow> tl_default t)"
    unfolding detect_language_def default_lang_def ..
  consider "?q" | "\<not> ?q" "?h" | "\<not> ?q" "\<not> ?h" by blast
  then show ?thesis
  proof cases
    case 3
    show ?thesis
    proof (cases ?a)
      case None
      have "detect_language r t = tl_default t" unfolding d None using 3 by auto
      then show ?thesis using 3(1) ctx by auto
    next
      case (Some l)
      have l: "detect_language r t = l" unfolding d Some using 3 by auto
      have "first_supported t (parse_accept_language (lr_accept r)) = Some l"
        using Some by (simp split: if_splits)
      from first_supported_Some [OF this] show ?thesis unfolding l using 3(1) ctx l by auto
    qed
  qed (use ctx in \<open>simp_all add: d\<close>)
qed

theorem detected_language_known_witness:
  "detect_language \<lparr>lr_query = [], lr_header = ''en'', lr_accept = ''zh''\<rparr>
     (register_messages (new_translator ''fr'') ''en'' []) = ''en'' \<and>
   (\<exists>x \<in> {[], ''en'', ''zh''}. ''en'' = x \<or> ''en'' = base_lang x)"
proof -
  let ?t = "register_messages (new_translator ''fr'') ''en'' []"
  let ?r = "\<lparr>lr_query = [], lr_header = ''en'', lr_accept = ''zh''\<rparr>"
  have "detect_language ?r ?t = ''en''"
    by (simp add: detect_language_def has_lang_def register_messages_def new_translator_def)
  moreover have "tl_default ?t = ''fr''"
    by (simp add: register_messages_def new_translator_def)
  moreover have "parse_accept_language ''zh'' = [''zh'']"
    by code_simp
  ultimately show ?thesis using detected_language_known [of ?t ?r] by simp
qed

text \<open>A text put in for one placeholder is searched for the next ones.\<close>

theorem argument_is_expanded_again:
  "format_message \<lparr>fm_verb = id, fm_sprintf = (\<lambda>m as. m)\<rparr> ''{0}: {1}'' [''{1}'', ''secret''] =
     ''secret: secret''"
  by code_simp

end
