(* ===== verification/ConfigFile.thy ===== *)
theory ConfigFile
  imports I18n
begin

text \<open>
  frame/pkg/config: the configuration record with its defaults, the loading of files, the free
  section Other, and env.go with the overrides from the environment and the file watcher. The
  file system, the environment and the codecs of encoding/json and yaml.v3 are parameters: a
  codec fills the declared sections in place, gives the top-level keys of a document, and
  renders the declared sections as a map. The pointers to a configuration are values here. The
  order of a map of keys is that of its list.
\<close>

subsection \<open>The record and its defaults\<close>

text \<open>A decoded value: the two kinds of maps the YAML packages make are told apart.\<close>

datatype 'o cfg_value = CNull | CBool bool | CStr string | CMap "(string \<times> 'o cfg_value) list"
  | CAnyMap "('o cfg_value \<times> 'o cfg_value) list" | COther 'o

record jwt_config =
  jw_secret :: string
  jw_expire_time :: string
  jw_issuer :: string
  jw_signing_method :: string
  jw_private_key_path :: string
  jw_public_key_path :: string

record health_check_config =
  hc_enabled :: bool
  hc_liveness_path :: string
  hc_readiness_path :: string
  hc_startup_path :: string
  hc_database_check :: bool
  hc_redis_check :: bool

record server_config =
  sv_addr :: string
  sv_port :: int
  sv_read_timeout :: int
  sv_write_timeout :: int
  sv_use_default_routes :: bool
  sv_health_check :: health_check_config
  sv_request_timeout :: int

record database_config =
  db_driver :: string
  db_dsn :: string
  db_max_open_conns :: int
  db_max_idle_conns :: int
  db_conn_max_lifetime :: int
  db_auto_migrate :: bool

record redis_config =
  rd_addr :: string
  rd_password :: string
  rd_db :: int
  rd_pool_size :: int

record log_config =
  lc_level :: string
  lc_format :: string
  lc_output :: string
  lc_max_size :: int
  lc_max_backups :: int
  lc_max_age :: int

record 'o config =
  cf_server :: server_config
  cf_database :: database_config
  cf_redis :: redis_config
  cf_log :: log_config
  cf_jwt :: jwt_config
  cf_other :: "(string, 'o cfg_value) gomap option"

type_synonym environment = "string \<Rightarrow> string"

definition default_config :: "environment \<Rightarrow> 'o config" where
  "default_config env =
     (let dsn = env ''LANDC_DB_DSN''
      in \<lparr>cf_server = \<lparr>sv_addr = ''0.0.0.0'', sv_port = 8080, sv_read_timeout = 60,
            sv_write_timeout = 60, sv_use_default_routes = True,
            sv_health_check = \<lparr>hc_enabled = True, hc_liveness_path = ''/health'',
              hc_readiness_path = ''/ready'', hc_startup_path = [], hc_database_check = True,
              hc_redis_check = False\<rparr>, sv_request_timeout = 0\<rparr>,
          cf_database = \<lparr>db_driver = ''mysql'',
            db_dsn = (if dsn = [] then ''root:password@tcp(localhost:3306)/database?charset=utf8mb4&parseTime=True&loc=Local''
                      else dsn),
            db_max_open_conns = 100, db_max_idle_conns = 10, db_conn_max_lifetime = 3600,
            db_auto_migrate = False\<rparr>,
          cf_redis = \<lparr>rd_addr = ''localhost:6379'', rd_password = [], rd_db = 0, rd_pool_size = 10\<rparr>,
          cf_log = \<lparr>lc_level = ''info'', lc_format = ''json'', lc_output = ''stdout'',
            lc_max_size = 100, lc_max_backups = 3, lc_max_age = 28\<rparr>,
          cf_jwt = \<lparr>jw_secret = env ''LANDC_JWT_SECRET'', jw_expire_time = ''2h'', jw_issuer = ''app'',
            jw_signing_method = [], jw_private_key_path = [], jw_public_key_path = []\<rparr>,
          cf_other = Some []\<rparr>)"

definition get_server_addr :: "'o config \<Rightarrow> string" where
  "get_server_addr c =
     (let s = cf_server c
      in if sv_addr s = [] then '':8080''
         else if sv_port s = 0 then sv_addr s
         else sv_addr s @ '':'' @ dec_of (sv_port s))"

definition validate_config :: "'o config \<Rightarrow> gerr option" where
  "validate_config c =
     (if sv_port (cf_server c) < 0 \<or> sv_port (cf_server c) > 65535
      then Some (ErrMsg (''invalid server port: '' @ dec_of (sv_port (cf_server c))))
      else if db_driver (cf_database c) = [] then Some (ErrMsg ''database driver cannot be empty'')
      else if db_dsn (cf_database c) = [] then Some (ErrMsg ''database DSN cannot be empty'')
      else None)"

subsection \<open>The free section\<close>

fun as_string_map :: "'o cfg_value \<Rightarrow> (string \<times> 'o cfg_value) list option" where
  "as_string_map (CMap m) = Some m"
| "as_string_map (CAnyMap m) =
     Some (put_all (List.map_filter (\<lambda>(k, v). case k of CStr s \<Rightarrow> Some (s, v) | _ \<Rightarrow> None) m) [])"
| "as_string_map v = None"

text \<open>The sub-keys of the key other are lifted; a key that exists already stays. An absent key
  reads as nil, which is no map.\<close>

definition lift_keys :: "(string \<times> 'o cfg_value) list \<Rightarrow> (string, 'o cfg_value) gomap \<Rightarrow>
    (string, 'o cfg_value) gomap" where
  "lift_keys section other = fold (\<lambda>(k, v) m. if gm_has m k then m else gm_put k v m) section other"

definition flatten_other_section :: "(string, 'o cfg_value) gomap \<Rightarrow> (string, 'o cfg_value) gomap" where
  "flatten_other_section other =
     (case Option.bind (gm_get other ''other'') as_string_map of
        None \<Rightarrow> other
      | Some section \<Rightarrow> lift_keys section other)"

definition get_other :: "'o config \<Rightarrow> string \<Rightarrow> 'o cfg_value option" where
  "get_other c key = (case cf_other c of None \<Rightarrow> None | Some m \<Rightarrow> gm_get m key)"

fun walk_path :: "'o cfg_value \<Rightarrow> string list \<Rightarrow> 'o cfg_value option" where
  "walk_path cur [] = Some cur"
| "walk_path cur (key # path) =
     (case as_string_map cur of
        None \<Rightarrow> None
      | Some m \<Rightarrow> (case gm_get m key of None \<Rightarrow> None | Some v \<Rightarrow> walk_path v path))"

text \<open>The configuration may be the nil pointer.\<close>

definition get_other_path :: "'o config option \<Rightarrow> string list \<Rightarrow> 'o cfg_value option" where
  "get_other_path c path =
     (case c of
        None \<Rightarrow> None
      | Some cfg \<Rightarrow> if length path = 0 then None
          else (case cf_other cfg of None \<Rightarrow> None | Some m \<Rightarrow> walk_path (CMap m) path))"

definition get_other_string :: "'o config option \<Rightarrow> string list \<Rightarrow> string" where
  "get_other_string c path = (case get_other_path c path of Some (CStr s) \<Rightarrow> s | _ \<Rightarrow> [])"

definition get_other_bool :: "'o config option \<Rightarrow> string list \<Rightarrow> bool \<times> bool" where
  "get_other_bool c path = (case get_other_path c path of Some (CBool b) \<Rightarrow> (b, True) | _ \<Rightarrow> (False, False))"

definition set_other :: "'o config \<Rightarrow> string \<Rightarrow> 'o cfg_value \<Rightarrow> 'o config" where
  "set_other c key v = c\<lparr>cf_other := Some (gm_put key v (case cf_other c of None \<Rightarrow> [] | Some m \<Rightarrow> m))\<rparr>"

definition has_other :: "'o config \<Rightarrow> string \<Rightarrow> bool" where
  "has_other c key = (case cf_other c of None \<Rightarrow> False | Some m \<Rightarrow> gm_has m key)"

definition delete_other :: "'o config \<Rightarrow> string \<Rightarrow> 'o config" where
  "delete_other c key = c\<lparr>cf_other := map_option (gm_del key) (cf_other c)\<rparr>"

definition all_other :: "'o config \<Rightarrow> (string, 'o cfg_value) gomap option" where
  "all_other c = map_option (\<lambda>m. put_all m []) (cf_other c)"

subsection \<open>Codecs\<close>

record ('o, 'd) cfg_codec =
  cc_sections :: "'d \<Rightarrow> 'o config \<Rightarrow> gerr + 'o config"
  cc_top :: "'d \<Rightarrow> gerr + (string \<times> 'o cfg_value) list"
  cc_render :: "'o config \<Rightarrow> gerr + (string \<times> 'o cfg_value) list"
  cc_print :: "(string \<times> 'o cfg_value) list \<Rightarrow> gerr + 'd"

definition known_keys :: "string list" where
  "known_keys = [''server'', ''database'', ''redis'', ''log'', ''jwt'']"

text \<open>\<open>UnmarshalJSON\<close> and \<open>UnmarshalYAML\<close>: the declared sections in place, then every other
  top-level key.\<close>

definition unmarshal_config :: "('o, 'd) cfg_codec \<Rightarrow> 'd \<Rightarrow> 'o config \<Rightarrow> gerr + 'o config" where
  "unmarshal_config cc d c =
     (case cc_sections cc d c of
        Inl e \<Rightarrow> Inl e
      | Inr c1 \<Rightarrow> (case cc_top cc d of
            Inl e \<Rightarrow> Inl e
          | Inr raw \<Rightarrow> Inr (c1\<lparr>cf_other := Some (flatten_other_section
              (put_all (filter (\<lambda>kv. fst kv \<notin> set known_keys) raw) []))\<rparr>)))"

text \<open>\<open>MarshalJSON\<close> and \<open>MarshalYAML\<close>: the keys of Other are written over the declared ones.\<close>

definition marshal_config :: "('o, 'd) cfg_codec \<Rightarrow> 'o config \<Rightarrow> gerr + 'd" where
  "marshal_config cc c =
     (case cc_render cc c of
        Inl e \<Rightarrow> Inl e
      | Inr m \<Rightarrow> cc_print cc (put_all (case cf_other c of None \<Rightarrow> [] | Some other \<Rightarrow> other) m))"

text \<open>\<open>UnmarshalOther\<close> goes through JSON text into a target.\<close>

definition unmarshal_other :: "('o cfg_value \<Rightarrow> gerr + string) \<Rightarrow> (string \<Rightarrow> 't \<Rightarrow> gerr option \<times> 't) \<Rightarrow>
    (string \<Rightarrow> string) \<Rightarrow> 'o config \<Rightarrow> string \<Rightarrow> 't \<Rightarrow> gerr option \<times> 't" where
  "unmarshal_other enc dec quote c key target =
     (case get_other c key of
        None \<Rightarrow> (Some (ErrMsg (''other key '' @ quote key @ '' not found'')), target)
      | Some v \<Rightarrow> (case enc v of
            Inl e \<Rightarrow> (Some (ErrMsg (''failed to marshal other value for key '' @ quote key @ '': '' @ gerr_text e)), target)
          | Inr text \<Rightarrow> (case dec text target of
                (Some e, t) \<Rightarrow> (Some (ErrMsg (''failed to unmarshal other key '' @ quote key @ '': '' @ gerr_text e)), t)
              | (None, t) \<Rightarrow> (None, t))))"

subsection \<open>Files\<close>

record 'o config_env =
  ce_env :: environment
  ce_exists :: "string \<Rightarrow> bool"
  ce_read :: "string \<Rightarrow> gerr + string"
  ce_json :: "('o, string) cfg_codec"
  ce_yaml :: "('o, string) cfg_codec"

definition load_with :: "'o config_env \<Rightarrow> ('o, string) cfg_codec \<Rightarrow> string \<Rightarrow> string \<Rightarrow> gerr + 'o config" where
  "load_with ce cc kind path =
     (case ce_read ce path of
        Inl e \<Rightarrow> Inl (ErrMsg (''failed to read config file: '' @ gerr_text e))
      | Inr data \<Rightarrow> (case unmarshal_config cc data (default_config (ce_env ce)) of
            Inl e \<Rightarrow> Inl (ErrMsg (''failed to parse '' @ kind @ '' config: '' @ gerr_text e))
          | Inr c \<Rightarrow> Inr c))"

definition load_json_config :: "'o config_env \<Rightarrow> string \<Rightarrow> gerr + 'o config" where
  "load_json_config ce path = load_with ce (ce_json ce) ''JSON'' path"

definition load_yaml_config :: "'o config_env \<Rightarrow> string \<Rightarrow> gerr + 'o config" where
  "load_yaml_config ce path = load_with ce (ce_yaml ce) ''YAML'' path"

definition load_config_from_file :: "'o config_env \<Rightarrow> string \<Rightarrow> gerr + 'o config" where
  "load_config_from_file ce path =
     (if \<not> ce_exists ce path then Inl (ErrMsg (''config file not found: '' @ path))
      else let ext = file_ext path
           in if ext = ''.json'' then load_json_config ce path
              else if ext = ''.yaml'' \<or> ext = ''.yml'' then load_yaml_config ce path
              else Inl (ErrMsg (''unsupported config file format: '' @ ext)))"

subsection \<open>The environment\<close>

definition env_text :: "environment \<Rightarrow> string \<Rightarrow> string \<Rightarrow> string" where
  "env_text env key cur = (if env key \<noteq> [] then env key else cur)"

definition env_number :: "environment \<Rightarrow> string \<Rightarrow> int \<Rightarrow> int" where
  "env_number env key cur =
     (if env key \<noteq> [] then (case atoi (env key) of Inl e \<Rightarrow> cur | Inr n \<Rightarrow> n) else cur)"

definition apply_env_overrides :: "environment \<Rightarrow> 'o config \<Rightarrow> 'o config" where
  "apply_env_overrides env c =
     (let s = cf_server c; d = cf_database c; r = cf_redis c; l = cf_log c
      in c\<lparr>cf_server := s\<lparr>
             sv_addr := env_text env ''LANDC_SERVER_ADDR'' (sv_addr s),
             sv_port := env_number env ''LANDC_SERVER_PORT'' (sv_port s),
             sv_read_timeout := env_number env ''LANDC_SERVER_READ_TIMEOUT'' (sv_read_timeout s),
             sv_write_timeout := env_number env ''LANDC_SERVER_WRITE_TIMEOUT'' (sv_write_timeout s)\<rparr>,
           cf_database := d\<lparr>
             db_driver := env_text env ''LANDC_DATABASE_DRIVER'' (db_driver d),
             db_dsn := env_text env ''LANDC_DATABASE_DSN'' (db_dsn d),
             db_max_open_conns := env_number env ''LANDC_DATABASE_MAX_OPEN_CONNS'' (db_max_open_conns d),
             db_max_idle_conns := env_number env ''LANDC_DATABASE_MAX_IDLE_CONNS'' (db_max_idle_conns d)\<rparr>,
           cf_redis := r\<lparr>
             rd_addr := env_text env ''LANDC_REDIS_ADDR'' (rd_addr r),
             rd_password := env_text env ''LANDC_REDIS_PASSWORD'' (rd_password r),
             rd_db := env_number env ''LANDC_REDIS_DB'' (rd_db r)\<rparr>,
           cf_log := l\<lparr>
             lc_level := env_text env ''LANDC_LOG_LEVEL'' (lc_level l),
             lc_format := env_text env ''LANDC_LOG_FORMAT'' (lc_format l),
             lc_output := env_text env ''LANDC_LOG_OUTPUT'' (lc_output l)\<rparr>\<rparr>)"

definition get_env :: "environment \<Rightarrow> string \<Rightarrow> string \<Rightarrow> string" where
  "get_env env key dflt = (if env key \<noteq> [] then env key else dflt)"

definition get_env_int :: "environment \<Rightarrow> string \<Rightarrow> int \<Rightarrow> int" where
  "get_env_int env key dflt =
     (if env key \<noteq> [] then (case atoi (env key) of Inl e \<Rightarrow> dflt | Inr n \<Rightarrow> n) else dflt)"

definition get_env_bool :: "ucd \<Rightarrow> environment \<Rightarrow> string \<Rightarrow> bool \<Rightarrow> bool" where
  "get_env_bool u env key dflt =
     (if env key \<noteq> []
      then (let v = to_lower u (env key) in v = ''true'' \<or> v = ''1'' \<or> v = ''yes'')
      else dflt)"

subsection \<open>The global configuration\<close>

definition init_with_config :: "'o config option \<Rightarrow> 'o config option \<Rightarrow> gerr option \<times> 'o config option" where
  "init_with_config cfg global =
     (case cfg of None \<Rightarrow> (Some (ErrMsg ''config cannot be nil''), global) | Some c \<Rightarrow> (None, Some c))"

definition init_with_path :: "'o config_env \<Rightarrow> bool \<Rightarrow> string \<Rightarrow> 'o config option \<Rightarrow>
    gerr option \<times> 'o config option" where
  "init_with_path ce overrides path global =
     (if global \<noteq> None then (None, global)
      else (case load_config_from_file ce path of
          Inl e \<Rightarrow> (Some (ErrMsg (''failed to load config from file: '' @ gerr_text e)), global)
        | Inr c \<Rightarrow> (None, Some (if overrides then apply_env_overrides (ce_env ce) c else c))))"

definition init_with_default :: "'o config_env \<Rightarrow> 'o config option \<Rightarrow> gerr option \<times> 'o config option" where
  "init_with_default ce global =
     (if global \<noteq> None then (None, global) else (None, Some (default_config (ce_env ce))))"

subsection \<open>The watcher\<close>

text \<open>The last modification time is None for the zero time; \<open>wt_seen\<close> lists the configurations the
  callback got. A tick finds what \<open>os.Stat\<close> and the file give at that time.\<close>

record 'o watch =
  wt_last :: "time option"
  wt_global :: "'o config option"
  wt_seen :: "'o config list"
  wt_done :: bool

definition watch_start :: "gerr + time \<Rightarrow> duration \<Rightarrow> 'o config option \<Rightarrow> 'o watch outcome" where
  "watch_start stat interval global =
     (if interval \<le> 0 then Panic ''non-positive interval for NewTicker''
      else Done \<lparr>wt_last = (case stat of Inl e \<Rightarrow> None | Inr t \<Rightarrow> Some t), wt_global = global,
                wt_seen = [], wt_done = False\<rparr>)"

definition watch_tick :: "'o config_env \<Rightarrow> string \<Rightarrow> bool \<Rightarrow> gerr + time \<Rightarrow> 'o watch \<Rightarrow> 'o watch" where
  "watch_tick ce path has_callback stat w =
     (case stat of
        Inl e \<Rightarrow> w
      | Inr t \<Rightarrow>
          if (case wt_last w of None \<Rightarrow> True | Some l \<Rightarrow> l < t)
          then let w1 = w\<lparr>wt_last := Some t\<rparr>
               in (case load_config_from_file ce path of
                     Inl e \<Rightarrow> w1
                   | Inr c \<Rightarrow> let c1 = apply_env_overrides (ce_env ce) c
                       in w1\<lparr>wt_global := Some c1,
                             wt_seen := (if has_callback then wt_seen w @ [c1] else wt_seen w)\<rparr>)
          else w)"

text \<open>The function \<open>WatchConfig\<close> returns.\<close>

definition watch_stop :: "'o watch \<Rightarrow> 'o watch outcome" where
  "watch_stop w = (if wt_done w then Panic ''close of closed channel'' else Done (w\<lparr>wt_done := True\<rparr>))"

fun watch_run :: "string \<Rightarrow> bool \<Rightarrow> ('o config_env \<times> (gerr + time)) list \<Rightarrow> 'o watch \<Rightarrow> 'o watch" where
  "watch_run path cb [] w = w"
| "watch_run path cb ((ce, stat) # es) w =
     (if wt_done w then w else watch_run path cb es (watch_tick ce path cb stat w))"

subsection \<open>Overrides\<close>

lemma env_text_idem [simp]: "env_text env key (env_text env key cur) = env_text env key cur"
  by (simp add: env_text_def)

lemma env_number_idem [simp]: "env_number env key (env_number env key cur) = env_number env key cur"
  by (simp add: env_number_def split: sum.splits)

text \<open>The overrides of the environment: applied twice they do what they do once; they leave the
  JWT section and the free section alone; and without any variable nothing changes.\<close>

theorem env_overrides_idempotent:
  "apply_env_overrides env (apply_env_overrides env c) = apply_env_overrides env c \<and>
   cf_jwt (apply_env_overrides env c) = cf_jwt c \<and> cf_other (apply_env_overrides env c) = cf_other c \<and>
   apply_env_overrides (\<lambda>_. []) c = c"
  by (simp add: apply_env_overrides_def Let_def) (simp add: env_text_def env_number_def)

text \<open>A reload that fails is not tried again: the watcher has taken the time of the file, so until
  the file gets a newer time the old configuration stays, however good the file has become.\<close>

theorem failed_reload_is_not_retried:
  assumes "load_config_from_file ce path = Inl e" "wt_last w = Some l" "l < t" "\<not> wt_done w"
    "list_all (\<lambda>x. case snd x of Inl e \<Rightarrow> True | Inr t' \<Rightarrow> t' \<le> t) es"
  shows "wt_global (watch_run path cb ((ce, Inr t) # es) w) = wt_global w \<and>
     wt_seen (watch_run path cb ((ce, Inr t) # es) w) = wt_seen w"
proof -
  let ?w = "w\<lparr>wt_last := Some t\<rparr>"
  have "watch_run path cb es ?w = ?w"
    using assms(5)
  proof (induction es)
    case (Cons x es)
    obtain ce' stat where x: "x = (ce', stat)" by (cases x)
    have "watch_tick ce' path cb stat ?w = ?w"
      using Cons.prems by (auto simp: x watch_tick_def split: sum.splits)
    then show ?case using Cons assms(4) by (simp add: x)
  qed simp
  moreover have "watch_run path cb ((ce, Inr t) # es) w = watch_run path cb es ?w"
    using assms(1-4) by (simp add: watch_tick_def Let_def)
  ultimately show ?thesis by simp
qed

subsection \<open>What the code relies on in a codec\<close>

text \<open>A printed map reads back as the same map; a rendered configuration has exactly the declared
  keys; and the sections of a document that has the rendered ones are decoded to the sections
  rendered, whatever is filled in place.\<close>

definition same_sections :: "'o config \<Rightarrow> 'o config \<Rightarrow> bool" where
  "same_sections c c' \<longleftrightarrow> cf_server c = cf_server c' \<and> cf_database c = cf_database c' \<and>
     cf_redis c = cf_redis c' \<and> cf_log c = cf_log c' \<and> cf_jwt c = cf_jwt c'"

definition codec_prints :: "('o, 'd) cfg_codec \<Rightarrow> bool" where
  "codec_prints cc \<longleftrightarrow> (\<forall>m d. cc_print cc m = Inr d \<longrightarrow> gm_ok m \<longrightarrow>
     (\<exists>m'. cc_top cc d = Inr m' \<and> gm_ok m' \<and> map_of m' = map_of m))"

definition codec_renders :: "('o, 'd) cfg_codec \<Rightarrow> bool" where
  "codec_renders cc \<longleftrightarrow> (\<forall>c m. cc_render cc c = Inr m \<longrightarrow> gm_ok m \<and> fst ` set m = set known_keys)"

definition codec_decodes :: "('o, 'd) cfg_codec \<Rightarrow> bool" where
  "codec_decodes cc \<longleftrightarrow> (\<forall>c m0 m d base. cc_render cc c = Inr m0 \<longrightarrow> cc_print cc m = Inr d \<longrightarrow>
     gm_ok m \<longrightarrow> (\<forall>k \<in> set known_keys. map_of m k = map_of m0 k) \<longrightarrow>
     (\<exists>c1. cc_sections cc d base = Inr c1 \<and> same_sections c1 c))"

lemma put_all_ok: "gm_ok m \<Longrightarrow> gm_ok (put_all kvs m)"
  by (induction kvs arbitrary: m) (auto simp: put_all_def)

lemma put_all_map: "gm_ok kvs \<Longrightarrow> map_of (put_all kvs m) k =
    (case map_of kvs k of None \<Rightarrow> map_of m k | Some v \<Rightarrow> Some v)"
  by (rule put_all_get) (simp add: gm_ok_def)

lemma filter_keys_map:
  "gm_ok m \<Longrightarrow> map_of (filter (\<lambda>kv. fst kv \<notin> K) m) k = (if k \<in> K then None else map_of m k)"
  by (induction m) (auto simp: gm_ok_def)

lemma filter_keys_ok: "gm_ok m \<Longrightarrow> gm_ok (filter (\<lambda>kv. fst kv \<notin> K) m)"
  by (rule gm_ok_filter)

lemma lift_keys_get:
  "gm_ok sec \<Longrightarrow> gm_get (lift_keys sec other) key =
     (case gm_get other key of Some v \<Rightarrow> Some v | None \<Rightarrow> gm_get sec key)"
proof (induction sec arbitrary: other)
  case (Cons kv sec)
  obtain k v where kv: "kv = (k, v)" by (cases kv)
  have "gm_get sec k = None" "gm_ok sec"
    using Cons.prems by (auto simp: kv gm_ok_def map_of_eq_None_iff)
  then show ?case using Cons.IH by (auto simp: kv lift_keys_def split: option.splits)
qed (simp add: lift_keys_def split: option.splits)

lemma lift_keys_ok: "gm_ok other \<Longrightarrow> gm_ok (lift_keys sec other)"
  by (induction sec arbitrary: other) (auto simp: lift_keys_def)


text \<open>The provision is needed: a document whose section other has a key with the name of a
  declared section, as the comment of GetOtherPath suggests, is read into a configuration that
  is written out with that value in place of the section it has.\<close>

theorem lifted_section_replaces_declared:
  assumes codec: "codec_prints cc" "codec_renders cc"
    and top: "cc_top cc d0 = Inr raw" "gm_ok raw" "map_of raw ''other'' = Some (CMap sec)"
    and sec: "gm_ok sec" "map_of sec k = Some v" "k \<in> set known_keys"
    and load: "unmarshal_config cc d0 base = Inr c"
    and out: "marshal_config cc c = Inr d"
  shows "\<exists>m. cc_top cc d = Inr m \<and> map_of m k = Some v"
proof -
  let ?raw = "put_all (filter (\<lambda>kv. fst kv \<notin> set known_keys) raw) []"
  have look: "map_of ?raw x = (if x \<in> set known_keys then None else map_of raw x)" for x
    using filter_keys_map [OF top(2), of "set known_keys" x]
    by (simp add: put_all_map [OF filter_keys_ok [OF top(2)]] split: option.splits)
  let ?flat = "lift_keys sec ?raw"
  have "''other'' \<notin> set known_keys" by (simp add: known_keys_def)
  then have "gm_get ?raw ''other'' = Some (CMap sec)" by (simp add: look top(3))
  then have flat: "flatten_other_section ?raw = ?flat" by (simp add: flatten_other_section_def)
  then have c: "cf_other c = Some ?flat"
    using load top(1) by (auto simp: unmarshal_config_def split: sum.splits)
  have v: "gm_get ?flat k = Some v" using lift_keys_get [OF sec(1)] sec(2,3) by (simp add: look)
  have okf: "gm_ok ?flat" by (intro lift_keys_ok put_all_ok gm_ok_Nil)
  obtain m0 where m0: "cc_render cc c = Inr m0" and print: "cc_print cc (put_all ?flat m0) = Inr d"
    using out c by (auto simp: marshal_config_def split: sum.splits)
  have "gm_ok m0" using codec(2) m0 by (auto simp: codec_renders_def)
  then obtain m' where m': "cc_top cc d = Inr m'" "map_of m' = map_of (put_all ?flat m0)"
    using codec(1) print put_all_ok unfolding codec_prints_def by blast
  have "map_of (put_all ?flat m0) k = Some v" using v by (simp only: put_all_map [OF okf] option.case)
  then have "map_of m' k = Some v" unfolding m'(2) .
  with m'(1) show ?thesis by (intro exI conjI)
qed

text \<open>A codec on maps whose sections are whole configurations.\<close>

definition sample_codec :: "(unit config, (string \<times> unit config cfg_value) list) cfg_codec" where
  "sample_codec = \<lparr>
     cc_sections = (\<lambda>d c. Inr (case map_of d ''server'' of
         Some (COther src) \<Rightarrow> (c\<lparr>cf_server := cf_server src, cf_database := cf_database src,
            cf_redis := cf_redis src, cf_log := cf_log src, cf_jwt := cf_jwt src\<rparr>) | _ \<Rightarrow> c)),
     cc_top = (\<lambda>d. Inr d),
     cc_render = (\<lambda>c. Inr (map (\<lambda>k. (k, COther \<lparr>cf_server = cf_server c, cf_database = cf_database c,
         cf_redis = cf_redis c, cf_log = cf_log c, cf_jwt = cf_jwt c, cf_other = None\<rparr>)) known_keys)),
     cc_print = (\<lambda>m. Inr m)\<rparr>"

lemma sample_codec_ok: "codec_prints sample_codec" "codec_renders sample_codec" "codec_decodes sample_codec"
proof -
  show "codec_prints sample_codec" by (simp add: codec_prints_def sample_codec_def)
  show "codec_renders sample_codec"
    by (auto simp: codec_renders_def sample_codec_def gm_ok_def known_keys_def)
  show "codec_decodes sample_codec"
    by (auto simp: codec_decodes_def sample_codec_def known_keys_def same_sections_def)
qed

definition sample_config :: "unit config config" where
  "sample_config = (default_config (\<lambda>_. []))\<lparr>cf_other := Some [(''feature'', CBool True)]\<rparr>"


theorem lifted_section_replaces_declared_witness:
  "\<exists>c d m. unmarshal_config sample_codec [(''other'', CMap [(''server'', CBool True)])]
      (default_config (\<lambda>_. [])) = Inr c \<and> marshal_config sample_codec c = Inr d \<and>
      cc_top sample_codec d = Inr m \<and> map_of m ''server'' = Some (CBool True)"
proof -
  let ?raw = "[(''other'', CMap [(''server'', CBool True)])]"
  obtain c where c: "unmarshal_config sample_codec ?raw (default_config (\<lambda>_. [])) = Inr c"
    by (simp add: unmarshal_config_def sample_codec_def)
  obtain d where d: "marshal_config sample_codec c = Inr d"
    by (simp add: marshal_config_def sample_codec_def)
  have "\<exists>m. cc_top sample_codec d = Inr m \<and> map_of m ''server'' = Some (CBool True)"
    by (rule lifted_section_replaces_declared [OF sample_codec_ok(1,2) _ _ _ _ _ _ c d,
          where raw = ?raw and sec = "[(''server'', CBool True)]"])
      (simp_all add: sample_codec_def gm_ok_def known_keys_def)
  then show ?thesis using c d by blast
qed

theorem failed_reload_is_not_retried_witness:
  "wt_global (watch_run ''c'' True
      [(\<lparr>ce_env = (\<lambda>_. []), ce_exists = (\<lambda>_. False), ce_read = (\<lambda>_. Inr []),
         ce_json = \<lparr>cc_sections = (\<lambda>d c. Inr c), cc_top = (\<lambda>d. Inr []), cc_render = (\<lambda>c. Inr []), cc_print = (\<lambda>m. Inr [])\<rparr>,
         ce_yaml = \<lparr>cc_sections = (\<lambda>d c. Inr c), cc_top = (\<lambda>d. Inr []), cc_render = (\<lambda>c. Inr []), cc_print = (\<lambda>m. Inr [])\<rparr>\<rparr>,
        Inr 5)]
      \<lparr>wt_last = Some 1, wt_global = Some sample_config, wt_seen = [], wt_done = False\<rparr>) = Some sample_config"
  (is "wt_global (watch_run _ _ [(?ce, _)] ?w) = _")
proof -
  have "load_config_from_file ?ce ''c'' = Inl (ErrMsg (''config file not found: '' @ ''c''))"
    by (simp add: load_config_from_file_def)
  from failed_reload_is_not_retried [OF this, of ?w 1 5 "[]" True] show ?thesis by simp
qed

end
