(* ===== verification/Cron.thy ===== *)
theory Cron
  imports Prelude
begin

text \<open>
  frame/pkg/cron/cron.go: the table of named tasks over the cron library, the global scheduler
  and the execution of a task. The library is a parameter: adding a function with a spec fails
  or gives the ID of a new entry. The methods run under the lock of the scheduler. Log lines of
  an execution are kept, those of the bookkeeping are left out.
\<close>

subsection \<open>State\<close>

text \<open>The function of a task on a state \<open>'x\<close> of the program; None is the nil function.\<close>

record 'x cron_task =
  ct_name :: string
  ct_spec :: string
  ct_func :: "('x \<Rightarrow> gerr option outcome \<times> 'x) option"
  ct_entry_id :: nat

text \<open>\<open>AddFunc\<close>, \<open>Remove\<close>, \<open>Start\<close> and \<open>Stop\<close> of the library; an entry runs the named task.\<close>

record 'c cron_lib =
  cn_add :: "string \<Rightarrow> string \<Rightarrow> 'c \<Rightarrow> gerr + (nat \<times> 'c)"
  cn_remove :: "nat \<Rightarrow> 'c \<Rightarrow> 'c"
  cn_start :: "'c \<Rightarrow> 'c"
  cn_stop :: "'c \<Rightarrow> 'c"
  cn_entries :: "'c \<Rightarrow> nat set"

record ('x, 'c) cron_scheduler =
  cs_cron :: 'c
  cs_tasks :: "(string, 'x cron_task) gomap"

definition new_cron_scheduler :: "'c \<Rightarrow> ('x, 'c) cron_scheduler" where
  "new_cron_scheduler c = \<lparr>cs_cron = c, cs_tasks = []\<rparr>"

subsection \<open>Operations\<close>

text \<open>The ID of the entry is written into the task of the caller, too.\<close>

definition add_task :: "'c cron_lib \<Rightarrow> 'x cron_task \<Rightarrow> ('x, 'c) cron_scheduler \<Rightarrow>
    gerr option \<times> 'x cron_task \<times> ('x, 'c) cron_scheduler" where
  "add_task lib t s =
     (if ct_func t = None then (Some (ErrMsg (''task '' @ [CHR 0x27] @ ct_name t @ [CHR 0x27] @ '' function is nil'')), t, s)
      else if gm_has (cs_tasks s) (ct_name t)
      then (Some (ErrMsg (''task '' @ [CHR 0x27] @ ct_name t @ [CHR 0x27] @ '' already exists'')), t, s)
      else (case cn_add lib (ct_spec t) (ct_name t) (cs_cron s) of
          Inl e \<Rightarrow> (Some (ErrMsg (''add cron task '' @ [CHR 0x27] @ ct_name t @ [CHR 0x27] @ '' failed: '' @ gerr_text e)), t, s)
        | Inr (i, c) \<Rightarrow> let t1 = t\<lparr>ct_entry_id := i\<rparr>
            in (None, t1, s\<lparr>cs_cron := c, cs_tasks := gm_put (ct_name t) t1 (cs_tasks s)\<rparr>)))"

definition remove_task :: "'c cron_lib \<Rightarrow> string \<Rightarrow> ('x, 'c) cron_scheduler \<Rightarrow>
    gerr option \<times> ('x, 'c) cron_scheduler" where
  "remove_task lib name s =
     (case gm_get (cs_tasks s) name of
        None \<Rightarrow> (Some (ErrMsg (''task '' @ [CHR 0x27] @ name @ [CHR 0x27] @ '' not found'')), s)
      | Some t \<Rightarrow> (None, s\<lparr>cs_cron := cn_remove lib (ct_entry_id t) (cs_cron s),
                           cs_tasks := gm_del name (cs_tasks s)\<rparr>))"

definition start_cron :: "'c cron_lib \<Rightarrow> ('x, 'c) cron_scheduler \<Rightarrow> ('x, 'c) cron_scheduler" where
  "start_cron lib s = s\<lparr>cs_cron := cn_start lib (cs_cron s)\<rparr>"

definition stop_cron :: "'c cron_lib \<Rightarrow> ('x, 'c) cron_scheduler \<Rightarrow> ('x, 'c) cron_scheduler" where
  "stop_cron lib s = s\<lparr>cs_cron := cn_stop lib (cs_cron s)\<rparr>"

definition list_cron_tasks :: "('x, 'c) cron_scheduler \<Rightarrow> 'x cron_task list" where
  "list_cron_tasks s = map snd (cs_tasks s)"

text \<open>The log of an execution: its start, and its end with the error if there is one.\<close>

datatype cron_log = TaskExecuting string | TaskFailed string string | TaskDone string

definition execute_task :: "'x cron_task \<Rightarrow> 'x \<Rightarrow> cron_log list outcome \<times> 'x" where
  "execute_task t x =
     (case ct_func t of
        None \<Rightarrow> (Panic ''nil pointer dereference'', x)
      | Some f \<Rightarrow> (case f x of
            (Panic m, x1) \<Rightarrow> (Panic m, x1)
          | (Blocked, x1) \<Rightarrow> (Blocked, x1)
          | (Done (Some e), x1) \<Rightarrow> (Done [TaskExecuting (ct_name t), TaskFailed (ct_name t) (gerr_text e)], x1)
          | (Done None, x1) \<Rightarrow> (Done [TaskExecuting (ct_name t), TaskDone (ct_name t)], x1)))"

subsection \<open>The global scheduler\<close>

definition init_global_scheduler :: "'c \<Rightarrow> ('x, 'c) cron_scheduler option \<Rightarrow> ('x, 'c) cron_scheduler" where
  "init_global_scheduler c g = (case g of None \<Rightarrow> new_cron_scheduler c | Some s \<Rightarrow> s)"

definition add_func :: "'c cron_lib \<Rightarrow> 'c \<Rightarrow> string \<Rightarrow> string \<Rightarrow> ('x \<Rightarrow> gerr option outcome \<times> 'x) option \<Rightarrow>
    ('x, 'c) cron_scheduler option \<Rightarrow> gerr option \<times> ('x, 'c) cron_scheduler option" where
  "add_func lib c name spec f g =
     (let s = init_global_scheduler c g;
          (e, t, s1) = add_task lib \<lparr>ct_name = name, ct_spec = spec, ct_func = f, ct_entry_id = 0\<rparr> s
      in (e, Some s1))"

definition start_global :: "'c cron_lib \<Rightarrow> ('x, 'c) cron_scheduler option \<Rightarrow> ('x, 'c) cron_scheduler option" where
  "start_global lib g = map_option (start_cron lib) g"

definition stop_global :: "'c cron_lib \<Rightarrow> ('x, 'c) cron_scheduler option \<Rightarrow> ('x, 'c) cron_scheduler option" where
  "stop_global lib g = map_option (stop_cron lib) g"

datatype 'x cron_op = AddOp "'x cron_task" | RemoveOp string | StartOp | StopOp

fun cron_step :: "'c cron_lib \<Rightarrow> 'x cron_op \<Rightarrow> ('x, 'c) cron_scheduler \<Rightarrow> ('x, 'c) cron_scheduler" where
  "cron_step lib (AddOp t) s = snd (snd (add_task lib t s))"
| "cron_step lib (RemoveOp name) s = snd (remove_task lib name s)"
| "cron_step lib StartOp s = start_cron lib s"
| "cron_step lib StopOp s = stop_cron lib s"

subsection \<open>The table and the entries of the library\<close>

text \<open>What the code relies on: a new entry has a new ID, a removal removes its entry only, and
  starting and stopping keep the entries.\<close>

definition cron_lib_ok :: "'c cron_lib \<Rightarrow> bool" where
  "cron_lib_ok lib \<longleftrightarrow>
     (\<forall>spec name c i c'. cn_add lib spec name c = Inr (i, c') \<longrightarrow>
        i \<notin> cn_entries lib c \<and> cn_entries lib c' = insert i (cn_entries lib c)) \<and>
     (\<forall>i c. cn_entries lib (cn_remove lib i c) = cn_entries lib c - {i}) \<and>
     (\<forall>c. cn_entries lib (cn_start lib c) = cn_entries lib c) \<and>
     (\<forall>c. cn_entries lib (cn_stop lib c) = cn_entries lib c)"

definition cron_in_step :: "'c cron_lib \<Rightarrow> ('x, 'c) cron_scheduler \<Rightarrow> bool" where
  "cron_in_step lib s \<longleftrightarrow> gm_ok (cs_tasks s) \<and>
     (\<forall>(k, t) \<in> set (cs_tasks s). ct_name t = k \<and> ct_func t \<noteq> None) \<and>
     inj_on (ct_entry_id \<circ> snd) (set (cs_tasks s)) \<and>
     (ct_entry_id \<circ> snd) ` set (cs_tasks s) = cn_entries lib (cs_cron s)"

lemma gm_put_fresh: "gm_get m k = None \<Longrightarrow> gm_put k v m = m @ [(k, v)]"
  by (induction m) (auto split: if_splits)

lemma set_gm_del: "set (gm_del k m) = {x \<in> set m. fst x \<noteq> k}"
  by (induction m) auto

lemma in_step_add:
  assumes lib: "cron_lib_ok lib" and s: "cron_in_step lib s"
  shows "cron_in_step lib (snd (snd (add_task lib t s)))"
proof (cases "ct_func t = None \<or> gm_has (cs_tasks s) (ct_name t)")
  case False
  then have new: "gm_get (cs_tasks s) (ct_name t) = None" by simp
  show ?thesis
  proof (cases "cn_add lib (ct_spec t) (ct_name t) (cs_cron s)")
    case (Inr ic)
    then obtain i c where ic: "cn_add lib (ct_spec t) (ct_name t) (cs_cron s) = Inr (i, c)" by (cases ic) auto
    then have i: "i \<notin> cn_entries lib (cs_cron s)" "cn_entries lib c = insert i (cn_entries lib (cs_cron s))"
      using lib [unfolded cron_lib_ok_def, THEN conjunct1, rule_format, OF ic] by simp_all
    let ?t = "t\<lparr>ct_entry_id := i\<rparr>"
    have put: "gm_put (ct_name t) ?t (cs_tasks s) = cs_tasks s @ [(ct_name t, ?t)]"
      by (rule gm_put_fresh [OF new])
    have res: "snd (snd (add_task lib t s)) = s\<lparr>cs_cron := c, cs_tasks := cs_tasks s @ [(ct_name t, ?t)]\<rparr>"
      using False ic put by (auto simp: add_task_def Let_def)
    let ?id = "ct_entry_id \<circ> snd" and ?m = "cs_tasks s"
    have m: "gm_ok ?m" "\<forall>(k, t) \<in> set ?m. ct_name t = k \<and> ct_func t \<noteq> None" "inj_on ?id (set ?m)"
      "?id ` set ?m = cn_entries lib (cs_cron s)" using s by (simp_all add: cron_in_step_def)
    have "i \<notin> ?id ` set ?m" unfolding m(4) by (rule i(1))
    then have inj: "inj_on ?id (set (?m @ [(ct_name t, ?t)]))"
      using m(3) by (simp add: inj_on_insert) (metis (no_types, lifting) Diff_iff comp_apply image_iff)
    have "?id ` set (?m @ [(ct_name t, ?t)]) = insert i (?id ` set ?m)" by simp
    then have ids: "?id ` set (?m @ [(ct_name t, ?t)]) = cn_entries lib c" unfolding m(4) i(2) .
    have "ct_name t \<notin> fst ` set ?m" using new by (simp add: map_of_eq_None_iff)
    then have "gm_ok (?m @ [(ct_name t, ?t)])" using m(1) by (simp add: gm_ok_def)
    moreover have "\<forall>(k, t) \<in> set (?m @ [(ct_name t, ?t)]). ct_name t = k \<and> ct_func t \<noteq> None"
      using m(2) False by simp
    ultimately show ?thesis using inj ids unfolding res cron_in_step_def by simp
  qed (use s False in \<open>auto simp: add_task_def\<close>)
qed (use s in \<open>auto simp: add_task_def\<close>)

lemma in_step_remove:
  assumes lib: "cron_lib_ok lib" and s: "cron_in_step lib s"
  shows "cron_in_step lib (snd (remove_task lib name s))"
proof (cases "gm_get (cs_tasks s) name")
  case (Some t)
  let ?m = "cs_tasks s"
  have inj: "inj_on (ct_entry_id \<circ> snd) (set ?m)" and ok: "gm_ok ?m" using s by (simp_all add: cron_in_step_def)
  have mem: "(name, t) \<in> set ?m" using Some by (rule map_of_SomeD)
  have set: "set (gm_del name ?m) = set ?m - {(name, t)}"
  proof -
    have u: "(name, t') \<in> set ?m \<Longrightarrow> t' = t" for t'
      using gm_get_mem [OF ok, of name t'] Some by simp
    have "(k, t') \<in> {x \<in> set ?m. fst x \<noteq> name} \<longleftrightarrow> (k, t') \<in> set ?m - {(name, t)}" for k t'
    proof (cases "k = name")
      case True
      then show ?thesis using u [of t'] by auto
    qed simp
    then show ?thesis unfolding set_gm_del by (intro set_eqI) (simp only: split_paired_all)
  qed
  have "(ct_entry_id \<circ> snd) ` (set ?m - {(name, t)}) = (ct_entry_id \<circ> snd) ` set ?m - {ct_entry_id t}"
    using inj_on_image_set_diff [OF inj, of "set ?m" "{(name, t)}"] mem by auto
  moreover have "inj_on (ct_entry_id \<circ> snd) (set ?m - {(name, t)})" by (rule inj_on_diff [OF inj])
  moreover have "cn_entries lib (cn_remove lib (ct_entry_id t) (cs_cron s)) =
      cn_entries lib (cs_cron s) - {ct_entry_id t}" using lib by (simp add: cron_lib_ok_def)
  moreover have "(ct_entry_id \<circ> snd) ` set ?m = cn_entries lib (cs_cron s)"
    "\<forall>(k, t) \<in> set ?m. ct_name t = k \<and> ct_func t \<noteq> None" using s by (simp_all add: cron_in_step_def)
  moreover have "snd (remove_task lib name s) =
      s\<lparr>cs_cron := cn_remove lib (ct_entry_id t) (cs_cron s), cs_tasks := gm_del name ?m\<rparr>"
    using Some by (simp add: remove_task_def)
  ultimately show ?thesis using ok by (simp add: cron_in_step_def set)
qed (use s in \<open>simp add: remove_task_def\<close>)

lemma in_step_step:
  assumes "cron_lib_ok lib" "cron_in_step lib s"
  shows "cron_in_step lib (cron_step lib a s)"
proof (cases a)
  case (AddOp t)
  then show ?thesis using in_step_add [OF assms, of t] by simp
next
  case (RemoveOp name)
  then show ?thesis using in_step_remove [OF assms, of name] by simp
qed (use assms in \<open>simp_all add: start_cron_def stop_cron_def cron_in_step_def cron_lib_ok_def\<close>)

text \<open>After any calls the library runs exactly one entry for each listed task, and every listed task
  has a function and the name it is listed under: no entry outlives its task, and no task is
  listed without an entry.\<close>

theorem cron_entries_match_tasks:
  assumes "cron_lib_ok lib" "cn_entries lib c = {}"
    "s = fold (cron_step lib) ops (new_cron_scheduler c)"
  shows "cn_entries lib (cs_cron s) = set (map ct_entry_id (list_cron_tasks s)) \<and>
     distinct (map ct_entry_id (list_cron_tasks s)) \<and> distinct (map ct_name (list_cron_tasks s)) \<and>
     (\<forall>t \<in> set (list_cron_tasks s). ct_func t \<noteq> None)"
proof -
  have "cron_in_step lib (fold (cron_step lib) ops s0)" if "cron_in_step lib s0" for s0
    using that assms(1) by (induction ops arbitrary: s0) (simp_all add: in_step_step)
  moreover have "cron_in_step lib (new_cron_scheduler c)"
    using assms(2) by (simp add: cron_in_step_def new_cron_scheduler_def)
  ultimately have s: "cron_in_step lib s" using assms(3) by blast
  then have funcs: "\<forall>(k, t) \<in> set (cs_tasks s). ct_name t = k \<and> ct_func t \<noteq> None"
    by (simp add: cron_in_step_def)
  then have names: "map ct_name (map snd (cs_tasks s)) = map fst (cs_tasks s)" by auto
  have "distinct (cs_tasks s)" using s by (simp add: cron_in_step_def gm_ok_def distinct_map)
  then have "distinct (map (ct_entry_id \<circ> snd) (cs_tasks s))"
    using s by (simp add: cron_in_step_def distinct_map)
  moreover have "\<forall>t \<in> set (list_cron_tasks s). ct_func t \<noteq> None"
    using funcs unfolding list_cron_tasks_def by fastforce
  moreover have "set (map ct_entry_id (list_cron_tasks s)) = cn_entries lib (cs_cron s)"
    using s by (simp add: cron_in_step_def list_cron_tasks_def image_comp)
  moreover have "distinct (map ct_name (list_cron_tasks s))"
    unfolding list_cron_tasks_def names using s by (simp add: cron_in_step_def gm_ok_def)
  ultimately show ?thesis by (simp add: list_cron_tasks_def)
qed

text \<open>A library that counts its entries.\<close>

definition counting_cron :: "(nat \<times> nat list) cron_lib" where
  "counting_cron = \<lparr>cn_add = (\<lambda>spec name (n, es). if spec = [] then Inl (ErrMsg ''empty spec string'')
       else Inr (Suc n + sum_list es, (n, (Suc n + sum_list es) # es))),
     cn_remove = (\<lambda>i (n, es). (n, removeAll i es)), cn_start = id, cn_stop = id,
     cn_entries = (\<lambda>(n, es). set es)\<rparr>"

lemma counting_cron_ok: "cron_lib_ok counting_cron"
proof -
  have "Suc n + sum_list es \<notin> set es" for n and es :: "nat list"
    using member_le_sum_list [of "Suc n + sum_list es" es] by auto
  then show ?thesis by (auto simp: cron_lib_ok_def counting_cron_def split: if_splits)
qed

definition sample_cron_task :: "string \<Rightarrow> unit cron_task" where
  "sample_cron_task name = \<lparr>ct_name = name, ct_spec = ''0 * * * * *'', ct_func = Some (\<lambda>x. (Done None, x)), ct_entry_id = 0\<rparr>"

theorem cron_entries_match_tasks_witness:
  "cn_entries counting_cron (cs_cron (fold (cron_step counting_cron)
      [AddOp (sample_cron_task ''a''), AddOp (sample_cron_task ''b''), AddOp (sample_cron_task ''a''), RemoveOp ''a'']
      (new_cron_scheduler (0, [])))) = {2}"
proof -
  let ?s = "fold (cron_step counting_cron)
      [AddOp (sample_cron_task ''a''), AddOp (sample_cron_task ''b''), AddOp (sample_cron_task ''a''), RemoveOp ''a'']
      (new_cron_scheduler (0, []))"
  have "cn_entries counting_cron (0, []) = {}" by (simp add: counting_cron_def)
  from cron_entries_match_tasks [OF counting_cron_ok this refl, of
      "[AddOp (sample_cron_task ''a''), AddOp (sample_cron_task ''b''), AddOp (sample_cron_task ''a''), RemoveOp ''a'']"]
  have "cn_entries counting_cron (cs_cron ?s) = set (map ct_entry_id (list_cron_tasks ?s))" by blast
  also have "map ct_entry_id (list_cron_tasks ?s) = [2]"
    by (simp add: new_cron_scheduler_def add_task_def remove_task_def counting_cron_def sample_cron_task_def
        list_cron_tasks_def Let_def)
  finally show ?thesis by simp
qed

end
