(* ===== verification/Upload.thy ===== *)
theory Upload
  imports I18n
begin

text \<open>
  frame/pkg/web/upload.go: the checks on an uploaded file, its name, and where it is stored; with
  the part of \<open>path/filepath\<close> it uses (Base, Clean, Join on Unix). The file system is a parameter
  on a state \<open>'w\<close>, as are \<open>strings.EqualFold\<close>, the UUID and the \<open>%q\<close> verb; the parsing of the
  multipart form gives the headers of its files.
\<close>

subsection \<open>Package filepath\<close>

definition path_base :: "string \<Rightarrow> string" where
  "path_base p =
     (if p = [] then ''.''
      else let q = rev (dropWhile (\<lambda>c. c = CHR ''/'') (rev p));
               b = rev (takeWhile (\<lambda>c. c \<noteq> CHR ''/'') (rev q))
           in if b = [] then ''/'' else b)"

text \<open>\<open>Clean\<close> works on the elements between slashes; the result list is kept in reverse.\<close>

fun clean_elems :: "bool \<Rightarrow> string list \<Rightarrow> string list \<Rightarrow> string list" where
  "clean_elems rooted [] acc = acc"
| "clean_elems rooted (e # es) acc =
     (if e = [] \<or> e = ''.'' then clean_elems rooted es acc
      else if e = ''..''
      then (case acc of
              [] \<Rightarrow> clean_elems rooted es (if rooted then [] else [''..''])
            | x # xs \<Rightarrow> clean_elems rooted es (if x = ''..'' then ''..'' # acc else xs))
      else clean_elems rooted es (e # acc))"

definition is_rooted :: "string \<Rightarrow> bool" where
  "is_rooted p = has_prefix p ''/''"

definition path_elems :: "string \<Rightarrow> string list" where
  "path_elems p = rev (clean_elems (is_rooted p) (str_split ''/'' p) [])"

definition path_clean :: "string \<Rightarrow> string" where
  "path_clean p =
     (let q = (if is_rooted p then ''/'' else []) @ join_strs ''/'' (path_elems p)
      in if q = [] then ''.'' else q)"

definition path_join :: "string \<Rightarrow> string \<Rightarrow> string" where
  "path_join a b =
     (if a = [] \<and> b = [] then []
      else path_clean (if a = [] then b else if b = [] then a else a @ ''/'' @ b))"

subsection \<open>Configuration\<close>

record 'w upload_config =
  uc_max_file_size :: int
  uc_allowed_extensions :: "string list"
  uc_upload_dir :: string
  uc_file_name_func :: "(string \<Rightarrow> 'w \<Rightarrow> string \<times> 'w) option"

record ('f, 'w) upload_lib =
  ul_ucd :: ucd
  ul_fold :: "string \<Rightarrow> string \<Rightarrow> bool"
  ul_quote :: "string \<Rightarrow> string"
  ul_uuid :: "'w \<Rightarrow> string \<times> 'w"
  ul_mkdir_all :: "string \<Rightarrow> 'w \<Rightarrow> gerr option \<times> 'w"
  ul_create :: "string \<Rightarrow> 'w \<Rightarrow> gerr option \<times> 'w"
  ul_copy :: "string \<Rightarrow> 'f \<Rightarrow> 'w \<Rightarrow> (gerr + int) \<times> 'w"
  ul_remove :: "string \<Rightarrow> 'w \<Rightarrow> 'w"
  ul_exists :: "string \<Rightarrow> 'w \<Rightarrow> bool"

record 'f file_header =
  fh_filename :: string
  fh_size :: int
  fh_content_type :: string
  fh_open :: "gerr + 'f"

record upload_result =
  ur_original_name :: string
  ur_file_name :: string
  ur_file_path :: string
  ur_file_size :: int
  ur_mime_type :: string

definition uuid_name :: "('f, 'w) upload_lib \<Rightarrow> string \<Rightarrow> 'w \<Rightarrow> string \<times> 'w" where
  "uuid_name lib original w = (case ul_uuid lib w of (u, w1) \<Rightarrow> (u @ file_ext original, w1))"

definition default_upload_config :: "('f, 'w) upload_lib \<Rightarrow> 'w upload_config" where
  "default_upload_config lib =
     \<lparr>uc_max_file_size = 33554432, uc_allowed_extensions = [], uc_upload_dir = ''./uploads'',
      uc_file_name_func = Some (uuid_name lib)\<rparr>"

definition apply_upload_defaults :: "('f, 'w) upload_lib \<Rightarrow> 'w upload_config \<Rightarrow> 'w upload_config" where
  "apply_upload_defaults lib c = c\<lparr>
     uc_max_file_size := (if uc_max_file_size c \<le> 0 then 33554432 else uc_max_file_size c),
     uc_upload_dir := (if uc_upload_dir c = [] then ''./uploads'' else uc_upload_dir c),
     uc_file_name_func := (if uc_file_name_func c = None then Some (uuid_name lib) else uc_file_name_func c)\<rparr>"

subsection \<open>Checking and storing a file\<close>

definition extension_allowed :: "('f, 'w) upload_lib \<Rightarrow> string list \<Rightarrow> string \<Rightarrow> bool" where
  "extension_allowed lib exts ext = list_ex (\<lambda>e. ul_fold lib e ext \<or> ul_fold lib (''.'' @ e) ext) exts"

definition validate_file :: "('f, 'w) upload_lib \<Rightarrow> 'w upload_config \<Rightarrow> 'f file_header \<Rightarrow> gerr option" where
  "validate_file lib c h =
     (if fh_size h > uc_max_file_size c
      then Some (ErrMsg (''file '' @ fh_filename h @ '' exceeds maximum size ('' @ dec_of (uc_max_file_size c) @ '' bytes)''))
      else if length (uc_allowed_extensions c) > 0
      then (let ext = to_lower (ul_ucd lib) (file_ext (fh_filename h))
            in if extension_allowed lib (uc_allowed_extensions c) ext then None
               else Some (ErrMsg (''file extension '' @ ext @ '' is not allowed'')))
      else None)"

text \<open>The call of a nil name function panics; the defaults are applied before.\<close>

definition save_file :: "('f, 'w) upload_lib \<Rightarrow> 'w upload_config \<Rightarrow> 'f file_header \<Rightarrow> 'f \<Rightarrow> 'w \<Rightarrow>
    (gerr + upload_result) outcome \<times> 'w" where
  "save_file lib c h file w =
     (case ul_mkdir_all lib (uc_upload_dir c) w of
        (Some e, w1) \<Rightarrow> (Done (Inl (ErrMsg (''failed to create upload directory: '' @ gerr_text e))), w1)
      | (None, w1) \<Rightarrow>
          (case uc_file_name_func c of
             None \<Rightarrow> (Panic ''nil pointer dereference'', w1)
           | Some f \<Rightarrow>
               let (name0, w2) = f (fh_filename h) w1;
                   name = path_base name0
               in if name = ''.'' \<or> name = ''/'' \<or> name = []
                  then (Done (Inl (ErrMsg ''invalid file name generated by FileNameFunc'')), w2)
                  else let dest = path_join (uc_upload_dir c) name
                    in (case ul_create lib dest w2 of
                          (Some e, w3) \<Rightarrow> (Done (Inl (ErrMsg (''failed to create destination file: '' @ gerr_text e))), w3)
                        | (None, w3) \<Rightarrow>
                            (case ul_copy lib dest file w3 of
                               (Inl e, w4) \<Rightarrow> (Done (Inl (ErrMsg (''failed to save file: '' @ gerr_text e))), ul_remove lib dest w4)
                             | (Inr n, w4) \<Rightarrow> (Done (Inr
                                 \<lparr>ur_original_name = fh_filename h, ur_file_name = name, ur_file_path = dest,
                                  ur_file_size = n, ur_mime_type = fh_content_type h\<rparr>), w4)))))"

subsection \<open>Requests\<close>

definition config_of :: "('f, 'w) upload_lib \<Rightarrow> 'w upload_config option \<Rightarrow> 'w upload_config" where
  "config_of lib cfg = apply_upload_defaults lib (case cfg of None \<Rightarrow> default_upload_config lib | Some c \<Rightarrow> c)"

text \<open>The form gives the file of the field, opened, with its header.\<close>

definition upload_file :: "('f, 'w) upload_lib \<Rightarrow> (string \<Rightarrow> gerr + ('f \<times> 'f file_header)) \<Rightarrow> string \<Rightarrow>
    'w upload_config option \<Rightarrow> 'w \<Rightarrow> (gerr + upload_result) outcome \<times> 'w" where
  "upload_file lib form field cfg w =
     (let c = config_of lib cfg
      in case form field of
           Inl e \<Rightarrow> (Done (Inl (ErrMsg (''failed to get file from field '' @ [CHR 0x27] @ field @ [CHR 0x27] @ '': '' @ gerr_text e))), w)
         | Inr (file, h) \<Rightarrow> (case validate_file lib c h of
               Some e \<Rightarrow> (Done (Inl e), w)
             | None \<Rightarrow> save_file lib c h file w))"

text \<open>The loop over the files answers the results so far, with the error that ended it.\<close>

fun upload_loop :: "('f, 'w) upload_lib \<Rightarrow> 'w upload_config \<Rightarrow> 'f file_header list \<Rightarrow> upload_result list \<Rightarrow> 'w \<Rightarrow>
    (upload_result list \<times> gerr option) outcome \<times> 'w" where
  "upload_loop lib c [] rs w = (Done (rs, None), w)"
| "upload_loop lib c (h # hs) rs w =
     (case validate_file lib c h of
        Some e \<Rightarrow> (Done (rs, Some e), w)
      | None \<Rightarrow> (case fh_open h of
            Inl e \<Rightarrow> (Done (rs, Some (ErrMsg (''failed to open file '' @ fh_filename h @ '': '' @ gerr_text e))), w)
          | Inr file \<Rightarrow> (case save_file lib c h file w of
                (Panic m, w1) \<Rightarrow> (Panic m, w1)
              | (Blocked, w1) \<Rightarrow> (Blocked, w1)
              | (Done (Inl e), w1) \<Rightarrow> (Done (rs, Some e), w1)
              | (Done (Inr r), w1) \<Rightarrow> upload_loop lib c hs (rs @ [r]) w1)))"

definition upload_files :: "('f, 'w) upload_lib \<Rightarrow> gerr + (string \<Rightarrow> 'f file_header list) \<Rightarrow> string \<Rightarrow>
    'w upload_config option \<Rightarrow> 'w \<Rightarrow> (upload_result list \<times> gerr option) outcome \<times> 'w" where
  "upload_files lib form field cfg w =
     (let c = config_of lib cfg
      in case form of
           Inl e \<Rightarrow> (Done ([], Some (ErrMsg (''failed to parse multipart form: '' @ gerr_text e))), w)
         | Inr files \<Rightarrow>
             if length (files field) = 0
             then (Done ([], Some (ErrMsg (''no files found for field '' @ [CHR 0x27] @ field @ [CHR 0x27]))), w)
             else upload_loop lib c (files field) [] w)"

subsection \<open>Downloads\<close>

datatype served = NotFound int string | Served "(string \<times> string) list" string

definition serve_file :: "('f, 'w) upload_lib \<Rightarrow> string \<Rightarrow> string \<Rightarrow> 'w \<Rightarrow> served" where
  "serve_file lib path name w =
     (if \<not> ul_exists lib path w then NotFound 40400 ''File not found''
      else let dn = (if name = [] then path_base path else name)
           in Served [(''Content-Disposition'', ''attachment; filename='' @ ul_quote lib dn)] path)"

definition serve_file_inline :: "('f, 'w) upload_lib \<Rightarrow> string \<Rightarrow> 'w \<Rightarrow> served" where
  "serve_file_inline lib path w =
     (if \<not> ul_exists lib path w then NotFound 40400 ''File not found''
      else Served [(''Content-Disposition'', ''inline'')] path)"

subsection \<open>Where a file ends up\<close>

lemma path_base_cases: "path_base p = ''/'' \<or> path_base p \<noteq> [] \<and> CHR ''/'' \<notin> set (path_base p)"
  by (auto simp: path_base_def Let_def dest: set_takeWhileD)

lemma str_split_char_append: "str_split [c] (a @ c # b) = str_split [c] a @ str_split [c] b"
proof (induction "length a" arbitrary: a rule: less_induct)
  case less
  show ?case
  proof (cases "c \<in> set a")
    case False
    then show ?thesis by (simp add: str_split_char str_split_none)
  next
    case True
    then obtain x y where a: "a = x @ c # y" "c \<notin> set x" by (meson split_list_first)
    then have "str_split [c] (y @ c # b) = str_split [c] y @ str_split [c] b" using less by simp
    then show ?thesis using a by (simp add: str_split_char)
  qed
qed

lemma clean_elems_snoc:
  "e \<noteq> [] \<Longrightarrow> e \<noteq> ''.'' \<Longrightarrow> e \<noteq> ''..'' \<Longrightarrow>
     clean_elems rooted (es @ [e]) acc = e # clean_elems rooted es acc"
  by (induction rooted es acc rule: clean_elems.induct) (auto split: list.splits)

lemma path_elems_child:
  assumes "dir \<noteq> []" "CHR ''/'' \<notin> set name" "name \<notin> {[], ''.'', ''..''}"
  shows "path_elems (dir @ ''/'' @ name) = path_elems dir @ [name]"
proof -
  have "is_rooted (dir @ ''/'' @ name) = is_rooted dir"
    using assms(1) by (cases dir) (simp_all add: is_rooted_def has_prefix_def)
  moreover have "str_split ''/'' (dir @ ''/'' @ name) = str_split ''/'' dir @ [name]"
    using str_split_char_append [of "CHR ''/''" dir name] assms(2) by (simp add: str_split_none)
  ultimately show ?thesis using assms(3) by (simp add: path_elems_def clean_elems_snoc)
qed

definition child_path :: "string \<Rightarrow> string \<Rightarrow> string" where
  "child_path dir name = (if is_rooted dir then ''/'' else []) @ join_strs ''/'' (path_elems dir @ [name])"

lemma join_strs_snoc_ne: "x \<noteq> [] \<Longrightarrow> join_strs sep (xs @ [x]) \<noteq> []"
  by (induction sep xs rule: join_strs.induct) auto

lemma path_join_child:
  assumes "dir \<noteq> []" "CHR ''/'' \<notin> set name" "name \<notin> {[], ''.'', ''..''}"
  shows "path_join dir name = child_path dir name"
proof -
  have "is_rooted (dir @ ''/'' @ name) = is_rooted dir"
    using assms(1) by (cases dir) (simp_all add: is_rooted_def has_prefix_def)
  then show ?thesis
    using assms path_elems_child [OF assms] join_strs_snoc_ne [of name "''/''" "path_elems dir"]
    by (simp add: path_join_def path_clean_def child_path_def Let_def)
qed

text \<open>What every result tells of its file.\<close>

definition stored_well :: "('f, 'w) upload_lib \<Rightarrow> 'w upload_config \<Rightarrow> 'f file_header \<Rightarrow> upload_result \<Rightarrow> bool" where
  "stored_well lib c h r \<longleftrightarrow>
     ur_file_name r \<noteq> [] \<and> CHR ''/'' \<notin> set (ur_file_name r) \<and>
     (ur_file_name r = ''..'' \<or> ur_file_path r = child_path (uc_upload_dir c) (ur_file_name r)) \<and>
     ur_original_name r = fh_filename h \<and> fh_size h \<le> uc_max_file_size c \<and>
     (uc_allowed_extensions c = [] \<or>
      extension_allowed lib (uc_allowed_extensions c) (to_lower (ul_ucd lib) (file_ext (fh_filename h))))"

lemma validate_file_None: "validate_file lib c h = None \<Longrightarrow> fh_size h \<le> uc_max_file_size c \<and>
     (uc_allowed_extensions c = [] \<or>
      extension_allowed lib (uc_allowed_extensions c) (to_lower (ul_ucd lib) (file_ext (fh_filename h))))"
  by (auto simp: validate_file_def Let_def split: if_splits)

lemma save_file_stored:
  assumes "uc_upload_dir c \<noteq> []" "validate_file lib c h = None"
    "save_file lib c h file w = (Done (Inr r), w1)"
  shows "stored_well lib c h r"
proof -
  obtain f where f: "uc_file_name_func c = Some f"
    using assms(3) by (auto simp: save_file_def split: prod.splits option.splits)
  obtain m w2 where mk: "ul_mkdir_all lib (uc_upload_dir c) w = (m, w2)" by fastforce
  have "m = None" using assms(3) mk by (cases m) (simp_all add: save_file_def)
  note mk = mk [unfolded this]
  obtain name0 w3 where steps: "f (fh_filename h) w2 = (name0, w3)" by fastforce
  let ?n = "path_base name0"
  have ok: "\<not> (?n = ''.'' \<or> ?n = ''/'' \<or> ?n = [])"
    using assms(3) f mk steps by (auto simp: save_file_def Let_def simp del: de_Morgan_disj)
  have r: "ur_file_name r = ?n" "ur_file_path r = path_join (uc_upload_dir c) ?n"
      "ur_original_name r = fh_filename h"
    using assms(3) f mk steps ok by (auto simp: save_file_def Let_def split: prod.splits option.splits sum.splits)
  have slash: "CHR ''/'' \<notin> set ?n" using path_base_cases [of name0] ok by metis
  have "?n = ''..'' \<or> ur_file_path r = child_path (uc_upload_dir c) ?n"
  proof (cases "?n = ''..''")
    case False
    then have "?n \<notin> {[], ''.'', ''..''}" using ok by simp
    from path_join_child [OF assms(1) slash this] show ?thesis using r(2) by simp
  qed (rule disjI1)
  then show ?thesis
    unfolding stored_well_def r(1) r(3)
    using ok slash validate_file_None [OF assms(2)] by simp
qed

lemma config_of_dir: "uc_upload_dir (config_of lib cfg) \<noteq> []"
  by (simp add: config_of_def apply_upload_defaults_def)

lemma upload_loop_stored:
  "uc_upload_dir c \<noteq> [] \<Longrightarrow> upload_loop lib c hs rs w = (Done (out, err), w') \<Longrightarrow>
    \<exists>new. out = rs @ new \<and> list_all2 (stored_well lib c) (take (length new) hs) new \<and>
      (err = None \<longrightarrow> length new = length hs)"
proof (induction lib c hs rs w rule: upload_loop.induct)
  case (2 lib c h hs rs w)
  show ?case
  proof (cases "validate_file lib c h = None \<and> (\<exists>fl. fh_open h = Inr fl)")
    case False
    have "out = rs \<and> err \<noteq> None"
    proof (cases "validate_file lib c h")
      case None
      then obtain e where "fh_open h = Inl e" using False by (cases "fh_open h") auto
      then show ?thesis using 2(3) None by auto
    next
      case (Some e)
      from 2(3) have "out = rs \<and> err = Some e" by (simp add: Some eq_commute)
      then show ?thesis by simp
    qed
    then show ?thesis by simp
  next
    case True
    then obtain fl where opn: "validate_file lib c h = None" "fh_open h = Inr fl" by blast
    obtain o1 w1 where sv: "save_file lib c h fl w = (o1, w1)" by fastforce
    show ?thesis
    proof (cases "\<exists>r. o1 = Done (Inr r)")
      case False
      then show ?thesis using 2(3) opn sv by (auto split: outcome.splits sum.splits)
    next
      case True
      then obtain r where r: "o1 = Done (Inr r)" by blast
      have loop: "upload_loop lib c hs (rs @ [r]) w1 = (Done (out, err), w')" using 2(3) opn sv r by simp
      obtain new where new: "out = (rs @ [r]) @ new"
        "list_all2 (stored_well lib c) (take (length new) hs) new" "err = None \<longrightarrow> length new = length hs"
        using 2(1) [OF opn sv [symmetric] r refl 2(2) loop] by blast
      have "stored_well lib c h r"
        using save_file_stored [OF 2(2) opn(1)] sv r by simp
      then show ?thesis using new by (intro exI [of _ "r # new"]) simp
    qed
  qed
qed simp

text \<open>Uploads stay in their directory: every file reported as stored passed the size limit and
  the list of extensions, its name is one path element, and it lies directly in the upload
  directory (a name function that answers .. aims at its parent, which the file system refuses
  to create); the results are those of the first files of the form, in order, and of all of
  them when there is no error.\<close>

theorem uploads_stay_inside:
  assumes "upload_files lib (Inr files) field cfg w = (Done (rs, err), w')"
  shows "list_all2 (stored_well lib (config_of lib cfg)) (take (length rs) (files field)) rs \<and>
     (err = None \<longrightarrow> length rs = length (files field))"
proof (cases "files field = []")
  case True
  then show ?thesis using assms by (auto simp: upload_files_def Let_def)
next
  case False
  then have "upload_loop lib (config_of lib cfg) (files field) [] w = (Done (rs, err), w')"
    using assms by (simp add: upload_files_def Let_def)
  from upload_loop_stored [OF config_of_dir this] show ?thesis by simp
qed

definition sample_upload_lib :: "(unit, nat) upload_lib" where
  "sample_upload_lib = \<lparr>ul_ucd = ascii_ucd, ul_fold = (=), ul_quote = id, ul_uuid = (\<lambda>n. (''u'', Suc n)),
     ul_mkdir_all = (\<lambda>d n. (None, n)), ul_create = (\<lambda>p n. (None, n)), ul_copy = (\<lambda>p f n. (Inr 3, n)),
     ul_remove = (\<lambda>p n. n), ul_exists = (\<lambda>p n. True)\<rparr>"

theorem uploads_stay_inside_witness:
  "\<exists>rs w'. upload_files sample_upload_lib (Inr (\<lambda>f. [\<lparr>fh_filename = ''a.txt'', fh_size = 3,
       fh_content_type = ''text/plain'', fh_open = Inr ()\<rparr>])) ''file''
       (Some \<lparr>uc_max_file_size = 5, uc_allowed_extensions = [], uc_upload_dir = ''/data'',
          uc_file_name_func = Some (\<lambda>s n. (''../../etc/passwd'', n))\<rparr>) 0 = (Done (rs, None), w') \<and>
     length rs = 1"
proof -
  let ?h = "\<lparr>fh_filename = ''a.txt'', fh_size = 3, fh_content_type = ''text/plain'', fh_open = Inr ()\<rparr>"
  let ?c = "Some \<lparr>uc_max_file_size = 5, uc_allowed_extensions = [], uc_upload_dir = ''/data'',
      uc_file_name_func = Some (\<lambda>s n. (''../../etc/passwd'', n))\<rparr> :: nat upload_config option"
  obtain rs w' where up: "upload_files sample_upload_lib (Inr (\<lambda>f. [?h])) ''file'' ?c 0 = (Done (rs, None), w')"
    by (simp add: upload_files_def config_of_def apply_upload_defaults_def validate_file_def save_file_def
        sample_upload_lib_def path_base_def Let_def)
  from uploads_stay_inside [OF this] up show ?thesis by simp
qed

end
