(* ===== verification/Logging.thy ===== *)
theory Logging
  imports GoStrings
begin

text \<open>
  log/internal/logger: levels, fields, options and the configuration record, the console and the
  standard logger, the factory of loggers and the global logger with its lock-free
  initialisation. Field values are a type \<open>'v\<close>; \<open>%v\<close>, \<open>Sprintf\<close>, \<open>json.Marshal\<close> and the prefix
  of package log are parameters, as is the text of the time of a call. A logger is an object
  of a heap, because its level is changed in place; a sink is named by how it was opened.
\<close>

subsection \<open>Levels, fields and the size limit\<close>

type_synonym log_level = int
type_synonym 'v log_fields = "(string \<times> 'v) list"

definition debug_level :: log_level where "debug_level = 0"
definition info_level :: log_level where "info_level = 1"
definition warn_level :: log_level where "warn_level = 2"
definition error_level :: log_level where "error_level = 3"
definition fatal_level :: log_level where "fatal_level = 4"
definition panic_level :: log_level where "panic_level = 5"

lemmas level_defs = debug_level_def info_level_def warn_level_def error_level_def fatal_level_def panic_level_def

definition level_text :: "log_level \<Rightarrow> string" where
  "level_text l =
     (if l = debug_level then ''DEBUG'' else if l = info_level then ''INFO''
      else if l = warn_level then ''WARN'' else if l = error_level then ''ERROR''
      else if l = fatal_level then ''FATAL'' else if l = panic_level then ''PANIC'' else ''UNKNOWN'')"

definition copy_fields :: "'v log_fields \<Rightarrow> 'v log_fields" where
  "copy_fields src = src"

definition merge_fields :: "'v log_fields \<Rightarrow> 'v log_fields \<Rightarrow> 'v log_fields" where
  "merge_fields base extra = base @ extra"

text \<open>The loop that drops bytes from the end until the rest is valid.\<close>

fun drop_invalid :: "string \<Rightarrow> string" where
  "drop_invalid s = (if s \<noteq> [] \<and> \<not> valid_utf8 s then drop_invalid (butlast s) else s)"

declare drop_invalid.simps [simp del]

definition safe_limit :: "string \<Rightarrow> int \<Rightarrow> string outcome" where
  "safe_limit msg kb =
     (if kb \<le> 0 then Done msg
      else let size = wrap64 (kb * 1024)
           in if int (length msg) \<le> size then Done msg
              else if size - 3 < 0 then Panic ''slice bounds out of range''
              else Done (drop_invalid (take (nat (size - 3)) msg) @ ''...''))"

subsection \<open>Options and configuration\<close>

datatype config_value = CLevel log_level | CString string | CInt64 int | CDuration duration | CInt int | CBool bool | COther string

record logger_options =
  lo_level :: log_level
  lo_format :: string
  lo_output_path :: string
  lo_max_log_size :: int
  lo_max_log_age :: duration
  lo_max_log_files :: int
  lo_compress_logs :: bool
  lo_max_message_size :: int
  lo_config :: "(string, config_value) gomap option"

type_synonym log_option = "logger_options \<Rightarrow> logger_options"

definition default_logger_options :: logger_options where
  "default_logger_options = \<lparr>lo_level = info_level, lo_format = ''text'', lo_output_path = ''stdout'',
     lo_max_log_size = 100, lo_max_log_age = 7 * 24 * hour, lo_max_log_files = 10,
     lo_compress_logs = False, lo_max_message_size = 0, lo_config = Some []\<rparr>"

definition with_level :: "log_level \<Rightarrow> log_option" where
  "with_level l opt = opt\<lparr>lo_level := l\<rparr>"
definition with_format :: "string \<Rightarrow> log_option" where
  "with_format f opt = opt\<lparr>lo_format := f\<rparr>"
definition with_output_path :: "string \<Rightarrow> log_option" where
  "with_output_path p opt = opt\<lparr>lo_output_path := p\<rparr>"
definition with_config :: "(string, config_value) gomap option \<Rightarrow> log_option" where
  "with_config c opt = opt\<lparr>lo_config := c\<rparr>"
definition with_max_log_size :: "int \<Rightarrow> log_option" where
  "with_max_log_size n opt = opt\<lparr>lo_max_log_size := n\<rparr>"
definition with_max_log_age :: "duration \<Rightarrow> log_option" where
  "with_max_log_age d opt = opt\<lparr>lo_max_log_age := d\<rparr>"
definition with_max_log_files :: "int \<Rightarrow> log_option" where
  "with_max_log_files n opt = opt\<lparr>lo_max_log_files := n\<rparr>"
definition with_compress_logs :: "bool \<Rightarrow> log_option" where
  "with_compress_logs b opt = opt\<lparr>lo_compress_logs := b\<rparr>"
definition with_max_message_size :: "int \<Rightarrow> log_option" where
  "with_max_message_size n opt = opt\<lparr>lo_max_message_size := n\<rparr>"

lemmas option_setters = with_level_def with_format_def with_output_path_def with_config_def with_max_log_size_def
  with_max_log_age_def with_max_log_files_def with_compress_logs_def with_max_message_size_def

definition apply_options :: "log_option list \<Rightarrow> logger_options" where
  "apply_options opts = fold (\<lambda>opt o1. opt o1) opts default_logger_options"

record log_config =
  lc_provider :: string
  lc_name :: string
  lc_level :: log_level
  lc_format :: string
  lc_output_path :: string
  lc_max_log_size :: int
  lc_max_log_age :: duration
  lc_max_log_files :: int
  lc_compress_logs :: bool
  lc_max_message_size :: int
  lc_extra_config :: "(string, config_value) gomap option"

definition new_log_config :: log_config where
  "new_log_config = \<lparr>lc_provider = ''console'', lc_name = ''app'', lc_level = info_level, lc_format = ''text'',
     lc_output_path = ''stdout'', lc_max_log_size = 100, lc_max_log_age = 7 * 24 * hour, lc_max_log_files = 10,
     lc_compress_logs = False, lc_max_message_size = 0, lc_extra_config = Some []\<rparr>"

definition with_extra_config :: "string \<Rightarrow> config_value \<Rightarrow> log_config \<Rightarrow> log_config" where
  "with_extra_config k v c =
     c\<lparr>lc_extra_config := Some (gm_put k v (case lc_extra_config c of None \<Rightarrow> [] | Some m \<Rightarrow> m))\<rparr>"

definition with_extra_configs :: "(string, config_value) gomap \<Rightarrow> log_config \<Rightarrow> log_config" where
  "with_extra_configs cs c =
     c\<lparr>lc_extra_config := Some (fold (\<lambda>(k, v) m. gm_put k v m) cs (case lc_extra_config c of None \<Rightarrow> [] | Some m \<Rightarrow> m))\<rparr>"

definition to_options :: "log_config \<Rightarrow> log_option list" where
  "to_options c = [with_level (lc_level c), with_format (lc_format c), with_output_path (lc_output_path c),
     with_max_log_size (lc_max_log_size c), with_max_log_age (lc_max_log_age c),
     with_max_log_files (lc_max_log_files c), with_compress_logs (lc_compress_logs c),
     with_max_message_size (lc_max_message_size c), with_config (lc_extra_config c)]"

definition apply_log_defaults :: "log_config \<Rightarrow> log_config" where
  "apply_log_defaults c = c\<lparr>
     lc_provider := (if lc_provider c = [] then ''console'' else lc_provider c),
     lc_name := (if lc_name c = [] then ''app'' else lc_name c),
     lc_output_path := (if lc_output_path c = [] then ''stdout'' else lc_output_path c),
     lc_format := (if lc_format c = [] then ''text''
                   else if lc_format c \<noteq> ''text'' \<and> lc_format c \<noteq> ''json'' then ''text'' else lc_format c),
     lc_max_log_size := (if lc_max_log_size c \<le> 0 then 100 else lc_max_log_size c),
     lc_max_log_age := (if lc_max_log_age c \<le> 0 then 7 * 24 * hour else lc_max_log_age c),
     lc_max_log_files := (if lc_max_log_files c \<le> 0 then 10 else lc_max_log_files c)\<rparr>"

definition validate_log_config :: "log_config \<Rightarrow> bool \<times> log_config" where
  "validate_log_config c = (True, apply_log_defaults c)"

text \<open>Type assertions on the values of a map: another type, or no entry, adds no option.\<close>

definition parse_config_to_options :: "(string, config_value) gomap \<Rightarrow> log_option list" where
  "parse_config_to_options m =
     (case gm_get m ''level'' of Some (CLevel l) \<Rightarrow> [with_level l] | _ \<Rightarrow> []) @
     (case gm_get m ''format'' of Some (CString f) \<Rightarrow> [with_format f] | _ \<Rightarrow> []) @
     (case gm_get m ''outputPath'' of Some (CString p) \<Rightarrow> [with_output_path p] | _ \<Rightarrow> []) @
     (case gm_get m ''maxLogSize'' of Some (CInt64 n) \<Rightarrow> [with_max_log_size n] | _ \<Rightarrow> []) @
     (case gm_get m ''maxLogAge'' of Some (CDuration d) \<Rightarrow> [with_max_log_age d] | _ \<Rightarrow> []) @
     (case gm_get m ''maxLogFiles'' of Some (CInt n) \<Rightarrow> [with_max_log_files n] | _ \<Rightarrow> []) @
     (case gm_get m ''compressLogs'' of Some (CBool b) \<Rightarrow> [with_compress_logs b] | _ \<Rightarrow> []) @
     (case gm_get m ''maxMessageSize'' of Some (CInt n) \<Rightarrow> [with_max_message_size n] | _ \<Rightarrow> [])"

subsection \<open>Loggers\<close>

record 'v log_lib =
  ll_str :: "string \<Rightarrow> 'v"
  ll_verb :: "'v \<Rightarrow> string"
  ll_sprintf :: "string \<Rightarrow> 'v list \<Rightarrow> string"
  ll_json :: "(string, 'v) gomap \<Rightarrow> string option"
  ll_std_prefix :: "string \<Rightarrow> string"

datatype sink = Stdout | Rotating string int int int bool

definition open_sink :: "logger_options \<Rightarrow> sink" where
  "open_sink o1 =
     (if lo_output_path o1 = ''stdout'' then Stdout
      else Rotating (lo_output_path o1) (lo_max_log_size o1)
             (sgn (lo_max_log_age o1) * (abs (lo_max_log_age o1) div (24 * hour)))
             (lo_max_log_files o1) (lo_compress_logs o1))"

datatype log_kind = ConsoleKind | StdKind

record 'v logger =
  lg_kind :: log_kind
  lg_level :: log_level
  lg_fields :: "'v log_fields"
  lg_ctx :: nat
  lg_sink :: sink
  lg_name :: string
  lg_format :: string
  lg_max_message_size :: int

definition new_logger :: "log_kind \<Rightarrow> string \<Rightarrow> log_option list \<Rightarrow> 'v logger" where
  "new_logger kind name opts =
     (let o1 = apply_options opts
      in \<lparr>lg_kind = kind, lg_level = lo_level o1, lg_fields = [], lg_ctx = 0, lg_sink = open_sink o1,
          lg_name = name, lg_format = lo_format o1, lg_max_message_size = lo_max_message_size o1\<rparr>)"

definition new_console_logger :: "string \<Rightarrow> log_option list \<Rightarrow> 'v logger" where
  "new_console_logger = new_logger ConsoleKind"

definition new_std_logger :: "string \<Rightarrow> log_option list \<Rightarrow> 'v logger" where
  "new_std_logger = new_logger StdKind"

definition field_text :: "'v log_lib \<Rightarrow> 'v log_fields \<Rightarrow> string" where
  "field_text lib fs = concat (map (\<lambda>(k, v). '' '' @ k @ ''='' @ ll_verb lib v) fs)"

definition json_fields :: "'v log_lib \<Rightarrow> string \<Rightarrow> log_level \<Rightarrow> string \<Rightarrow> string \<Rightarrow> 'v log_fields \<Rightarrow> (string, 'v) gomap" where
  "json_fields lib ts lvl name msg fs =
     fold (\<lambda>(k, v) m. gm_put k v m) fs
       [(''time'', ll_str lib ts), (''level'', ll_str lib (level_text lvl)),
        (''logger'', ll_str lib name), (''msg'', ll_str lib msg)]"

definition console_text :: "'v log_lib \<Rightarrow> string \<Rightarrow> log_level \<Rightarrow> string \<Rightarrow> string \<Rightarrow> 'v log_fields \<Rightarrow> string" where
  "console_text lib ts lvl name msg fs =
     ts @ '' ['' @ level_text lvl @ ''] ['' @ name @ ''] '' @ msg @ field_text lib fs"

definition std_text :: "'v log_lib \<Rightarrow> log_level \<Rightarrow> string \<Rightarrow> string \<Rightarrow> 'v log_fields \<Rightarrow> string" where
  "std_text lib lvl name msg fs = ''['' @ level_text lvl @ ''] ['' @ name @ ''] '' @ msg @ field_text lib fs"

definition console_format :: "'v log_lib \<Rightarrow> string \<Rightarrow> log_level \<Rightarrow> string \<Rightarrow> 'v log_fields \<Rightarrow> 'v logger \<Rightarrow> string outcome" where
  "console_format lib ts lvl msg fs l =
     (let all = merge_fields (lg_fields l) fs;
          txt = console_text lib ts lvl (lg_name l) msg all
      in if lg_format l = ''json''
         then (case ll_json lib (json_fields lib ts lvl (lg_name l) msg all) of
                 None \<Rightarrow> safe_limit txt (lg_max_message_size l)
               | Some j \<Rightarrow> safe_limit j (lg_max_message_size l))
         else safe_limit txt (lg_max_message_size l))"

definition std_format :: "'v log_lib \<Rightarrow> string \<Rightarrow> log_level \<Rightarrow> string \<Rightarrow> 'v log_fields \<Rightarrow> 'v logger \<Rightarrow> string outcome" where
  "std_format lib ts lvl msg fs l =
     (let all = merge_fields (lg_fields l) fs;
          txt = std_text lib lvl (lg_name l) msg all
      in if lg_format l = ''json''
         then (case ll_json lib (json_fields lib ts lvl (lg_name l) msg all) of
                 None \<Rightarrow> safe_limit txt (lg_max_message_size l)
               | Some j \<Rightarrow> safe_limit j (lg_max_message_size l))
         else safe_limit txt (lg_max_message_size l))"

text \<open>\<open>Debug\<close> to \<open>Panic\<close> get a message and fields, \<open>Debugf\<close> to \<open>Panicf\<close> a format with arguments.\<close>

datatype 'v log_call = LogMsg string "'v log_fields" | LogFmt string "'v list"

fun call_text :: "'v log_lib \<Rightarrow> 'v log_call \<Rightarrow> string \<times> 'v log_fields" where
  "call_text lib (LogMsg m fs) = (m, fs)"
| "call_text lib (LogFmt f as) = (ll_sprintf lib f as, [])"

datatype log_end = Returned | Exited | Panicked string

definition log_enabled :: "'v logger \<Rightarrow> log_level \<Rightarrow> bool" where
  "log_enabled l lvl = (lg_level l \<le> lvl)"

definition after_line :: "log_level \<Rightarrow> string \<Rightarrow> log_end" where
  "after_line lvl txt =
     (if lvl = fatal_level then Exited else if lvl = panic_level then Panicked txt else Returned)"

definition console_log :: "'v log_lib \<Rightarrow> string \<Rightarrow> log_level \<Rightarrow> 'v log_call \<Rightarrow> 'v logger \<Rightarrow> log_end \<times> (sink \<times> string) list" where
  "console_log lib ts lvl c l =
     (if log_enabled l lvl
      then (case console_format lib ts lvl (fst (call_text lib c)) (snd (call_text lib c)) l of
              Done txt \<Rightarrow> (after_line lvl txt, [(lg_sink l, txt @ [CHR 0x0A])])
            | Panic m \<Rightarrow> (Panicked m, [])
            | Blocked \<Rightarrow> (Returned, []))
      else (Returned, []))"

definition std_log :: "'v log_lib \<Rightarrow> string \<Rightarrow> log_level \<Rightarrow> 'v log_call \<Rightarrow> 'v logger \<Rightarrow> log_end \<times> (sink \<times> string) list" where
  "std_log lib ts lvl c l =
     (if log_enabled l lvl
      then (case std_format lib ts lvl (fst (call_text lib c)) (snd (call_text lib c)) l of
              Done txt \<Rightarrow> (after_line lvl txt, [(lg_sink l, ll_std_prefix lib ts @ txt @ [CHR 0x0A])])
            | Panic m \<Rightarrow> (Panicked m, [])
            | Blocked \<Rightarrow> (Returned, []))
      else (Returned, []))"

definition logger_log :: "'v log_lib \<Rightarrow> string \<Rightarrow> log_level \<Rightarrow> 'v log_call \<Rightarrow> 'v logger \<Rightarrow> log_end \<times> (sink \<times> string) list" where
  "logger_log lib ts lvl c l =
     (case lg_kind l of ConsoleKind \<Rightarrow> console_log lib ts lvl c l | StdKind \<Rightarrow> std_log lib ts lvl c l)"

subsection \<open>Loggers in memory\<close>

record 'v log_world =
  lw_heap :: "'v logger list"
  lw_out :: "(sink \<times> string) list"

definition alloc_logger :: "'v logger \<Rightarrow> 'v log_world \<Rightarrow> nat \<times> 'v log_world" where
  "alloc_logger l w = (length (lw_heap w), w\<lparr>lw_heap := lw_heap w @ [l]\<rparr>)"

definition set_level :: "nat \<Rightarrow> log_level \<Rightarrow> 'v log_world \<Rightarrow> 'v log_world" where
  "set_level a lvl w = w\<lparr>lw_heap := (lw_heap w)[a := (lw_heap w ! a)\<lparr>lg_level := lvl\<rparr>]\<rparr>"

definition get_level :: "nat \<Rightarrow> 'v log_world \<Rightarrow> log_level" where
  "get_level a w = lg_level (lw_heap w ! a)"

definition with_fields :: "nat \<Rightarrow> 'v log_fields \<Rightarrow> 'v log_world \<Rightarrow> nat \<times> 'v log_world" where
  "with_fields a fs w =
     (let l = lw_heap w ! a in alloc_logger (l\<lparr>lg_fields := merge_fields (lg_fields l) fs\<rparr>) w)"

definition with_field :: "nat \<Rightarrow> string \<Rightarrow> 'v \<Rightarrow> 'v log_world \<Rightarrow> nat \<times> 'v log_world" where
  "with_field a k v = with_fields a [(k, v)]"

definition with_error :: "nat \<Rightarrow> 'v \<Rightarrow> 'v log_world \<Rightarrow> nat \<times> 'v log_world" where
  "with_error a e = with_field a ''error'' e"

definition with_time :: "nat \<Rightarrow> 'v \<Rightarrow> 'v log_world \<Rightarrow> nat \<times> 'v log_world" where
  "with_time a t = with_field a ''time'' t"

definition with_context :: "nat \<Rightarrow> nat \<Rightarrow> 'v log_world \<Rightarrow> nat \<times> 'v log_world" where
  "with_context a ctx w =
     (let l = lw_heap w ! a in alloc_logger (l\<lparr>lg_fields := copy_fields (lg_fields l), lg_ctx := ctx\<rparr>) w)"

definition log_at :: "'v log_lib \<Rightarrow> string \<Rightarrow> nat \<Rightarrow> log_level \<Rightarrow> 'v log_call \<Rightarrow> 'v log_world \<Rightarrow> log_end \<times> 'v log_world" where
  "log_at lib ts a lvl c w =
     (case logger_log lib ts lvl c (lw_heap w ! a) of
        (e, lines) \<Rightarrow> (e, w\<lparr>lw_out := lw_out w @ lines\<rparr>))"

subsection \<open>The factory\<close>

record ('l, 'w) log_provider =
  pv_create :: "string \<Rightarrow> log_option list \<Rightarrow> 'w \<Rightarrow> 'l \<times> 'w"
  pv_create_with_config :: "string \<Rightarrow> (string, config_value) gomap \<Rightarrow> 'w \<Rightarrow> 'l \<times> 'w"

definition console_provider :: "(nat, 'v log_world) log_provider" where
  "console_provider = \<lparr>pv_create = (\<lambda>name opts. alloc_logger (new_console_logger name opts)),
     pv_create_with_config = (\<lambda>name m. alloc_logger (new_console_logger name (parse_config_to_options m)))\<rparr>"

definition std_provider :: "(nat, 'v log_world) log_provider" where
  "std_provider = \<lparr>pv_create = (\<lambda>name opts. alloc_logger (new_std_logger name opts)),
     pv_create_with_config = (\<lambda>name m. alloc_logger (new_std_logger name (parse_config_to_options m)))\<rparr>"

record ('l, 'w) log_factory =
  lf_providers :: "(string, ('l, 'w) log_provider) gomap"
  lf_default :: string

definition new_log_factory :: "('l, 'w) log_factory" where
  "new_log_factory = \<lparr>lf_providers = [], lf_default = ''console''\<rparr>"

definition register_provider :: "string \<Rightarrow> ('l, 'w) log_provider \<Rightarrow> ('l, 'w) log_factory \<Rightarrow> ('l, 'w) log_factory" where
  "register_provider name p f = f\<lparr>lf_providers := gm_put name p (lf_providers f)\<rparr>"

definition unregister_provider :: "string \<Rightarrow> ('l, 'w) log_factory \<Rightarrow> ('l, 'w) log_factory" where
  "unregister_provider name f = f\<lparr>lf_providers := gm_del name (lf_providers f)\<rparr>"

definition set_default_provider :: "string \<Rightarrow> ('l, 'w) log_factory \<Rightarrow> ('l, 'w) log_factory" where
  "set_default_provider name f = f\<lparr>lf_default := name\<rparr>"

definition get_provider :: "string \<Rightarrow> ('l, 'w) log_factory \<Rightarrow> ('l, 'w) log_provider option" where
  "get_provider name f = gm_get (lf_providers f) name"

definition get_log_factory :: "(nat, 'v log_world) log_factory" where
  "get_log_factory = set_default_provider ''console''
     (register_provider ''std'' std_provider (register_provider ''console'' console_provider new_log_factory))"

text \<open>\<open>con\<close> is the console provider, whose \<open>NewConsoleLogger\<close> is the last resort.\<close>

definition create_with_provider :: "('l, 'w) log_provider \<Rightarrow> ('l, 'w) log_factory \<Rightarrow> string \<Rightarrow> string \<Rightarrow>
    log_option list \<Rightarrow> 'w \<Rightarrow> 'l \<times> 'w" where
  "create_with_provider con f name pn opts w =
     (case get_provider pn f of
        Some p \<Rightarrow> pv_create p name opts w
      | None \<Rightarrow> (case get_provider (lf_default f) f of
            Some p \<Rightarrow> pv_create p name opts w
          | None \<Rightarrow> pv_create con name opts w))"

definition create_logger :: "('l, 'w) log_provider \<Rightarrow> ('l, 'w) log_factory \<Rightarrow> string \<Rightarrow> 'w \<Rightarrow> 'l \<times> 'w" where
  "create_logger con f name w = create_with_provider con f name (lf_default f) [] w"

definition create_with_map :: "('l, 'w) log_provider \<Rightarrow> ('l, 'w) log_factory \<Rightarrow> string \<Rightarrow>
    (string, config_value) gomap \<Rightarrow> 'w \<Rightarrow> 'l \<times> 'w" where
  "create_with_map con f name m w =
     (let pn = (case gm_get m ''provider'' of Some (CString s) \<Rightarrow> s | _ \<Rightarrow> lf_default f)
      in case get_provider pn f of
           Some p \<Rightarrow> pv_create_with_config p name m w
         | None \<Rightarrow> (case get_provider (lf_default f) f of
               Some p \<Rightarrow> pv_create_with_config p name m w
             | None \<Rightarrow> pv_create con name [] w))"

definition create_with_log_config :: "('l, 'w) log_provider \<Rightarrow> ('l, 'w) log_factory \<Rightarrow> log_config \<Rightarrow> 'w \<Rightarrow>
    log_config \<times> 'l \<times> 'w" where
  "create_with_log_config con f c0 w =
     (let c = apply_log_defaults c0
      in (c, case get_provider (lc_provider c) f of
               Some p \<Rightarrow> pv_create p (lc_name c) (to_options c) w
             | None \<Rightarrow> (case get_provider (lf_default f) f of
                   Some p \<Rightarrow> pv_create p (lc_name c) (to_options c) w
                 | None \<Rightarrow> pv_create con (lc_name c) (to_options c) w)))"

subsection \<open>The global logger\<close>

text \<open>
  \<open>GetLogger\<close> and \<open>SetGlobalLogger\<close> by goroutines, one atomic access of the shared variables per
  step: where each goroutine stands, the stored logger and the flag of the initialisation.
\<close>

datatype 'l glog_pc = GetLoad | GetSwap | GetCreate | GetStore 'l | GetSpin | Got 'l
  | SetStore 'l | SetFlag 'l | SetDone 'l

record ('l, 'w) glog =
  gl_holder :: "'l option"
  gl_init :: bool
  gl_world :: 'w
  gl_pcs :: "'l glog_pc list"

definition glog_goto :: "nat \<Rightarrow> 'l glog_pc \<Rightarrow> ('l, 'w) glog \<Rightarrow> ('l, 'w) glog" where
  "glog_goto i p g = g\<lparr>gl_pcs := (gl_pcs g)[i := p]\<rparr>"

definition glog_step :: "('l, 'w) log_provider \<Rightarrow> ('l, 'w) log_factory \<Rightarrow> nat \<Rightarrow> ('l, 'w) glog \<Rightarrow> ('l, 'w) glog" where
  "glog_step con f i g =
     (case gl_pcs g ! i of
        GetLoad \<Rightarrow> (case gl_holder g of Some l \<Rightarrow> glog_goto i (Got l) g | None \<Rightarrow> glog_goto i GetSwap g)
      | GetSwap \<Rightarrow> (if gl_init g then glog_goto i GetSpin g else glog_goto i GetCreate (g\<lparr>gl_init := True\<rparr>))
      | GetCreate \<Rightarrow> (case create_logger con f ''global'' (gl_world g) of
            (l, w) \<Rightarrow> glog_goto i (GetStore l) (g\<lparr>gl_world := w\<rparr>))
      | GetStore l \<Rightarrow> glog_goto i (Got l) (g\<lparr>gl_holder := Some l\<rparr>)
      | GetSpin \<Rightarrow> (case gl_holder g of Some l \<Rightarrow> glog_goto i (Got l) g | None \<Rightarrow> g)
      | SetStore l \<Rightarrow> glog_goto i (SetFlag l) (g\<lparr>gl_holder := Some l\<rparr>)
      | SetFlag l \<Rightarrow> glog_goto i (SetDone l) (g\<lparr>gl_init := True\<rparr>)
      | Got l \<Rightarrow> g
      | SetDone l \<Rightarrow> g)"

definition glog_start :: "'w \<Rightarrow> 'l glog_pc list \<Rightarrow> ('l, 'w) glog" where
  "glog_start w ps = \<lparr>gl_holder = None, gl_init = False, gl_world = w, gl_pcs = ps\<rparr>"

text \<open>\<open>ResetLogFactory\<close>, for tests between runs.\<close>

definition reset_log_factory :: "('l, 'w) glog \<Rightarrow> ('l, 'w) glog" where
  "reset_log_factory g = g\<lparr>gl_holder := None, gl_init := False\<rparr>"

inductive glog_reach :: "('l, 'w) log_provider \<Rightarrow> ('l, 'w) log_factory \<Rightarrow> ('l, 'w) glog \<Rightarrow> ('l, 'w) glog \<Rightarrow> bool"
  for con f where
  glog_refl: "glog_reach con f g g"
| glog_more: "glog_reach con f g h \<Longrightarrow> i < length (gl_pcs h) \<Longrightarrow> glog_reach con f g (glog_step con f i h)"

subsection \<open>The size limit keeps whole characters\<close>

lemma valid_utf8_Nil: "valid_utf8 []"
  by (simp add: valid_utf8_def runes_def string_of_runes_def)

lemma drop_invalid_longest:
  "\<exists>n \<le> length s. drop_invalid s = take n s \<and> valid_utf8 (take n s) \<and>
     (\<forall>m. n < m \<and> m \<le> length s \<longrightarrow> \<not> valid_utf8 (take m s))"
proof (induction s rule: drop_invalid.induct)
  case (1 s)
  show ?case
  proof (cases "s \<noteq> [] \<and> \<not> valid_utf8 s")
    case True
    then obtain n where n: "n \<le> length (butlast s)" "drop_invalid (butlast s) = take n (butlast s)"
      "valid_utf8 (take n (butlast s))"
      "\<And>m. n < m \<Longrightarrow> m \<le> length (butlast s) \<Longrightarrow> \<not> valid_utf8 (take m (butlast s))"
      using 1 by blast
    have tk: "take m (butlast s) = take m s" if "m \<le> length (butlast s)" for m
      using that by (cases s rule: rev_cases) simp_all
    have "\<not> valid_utf8 (take m s)" if "n < m" "m \<le> length s" for m
    proof (cases "m = length s")
      case True
      then show ?thesis using \<open>s \<noteq> [] \<and> \<not> valid_utf8 s\<close> by simp
    next
      case False
      then have "m \<le> length (butlast s)" using that by simp
      then show ?thesis using n(4) [OF that(1)] tk by metis
    qed
    moreover have "drop_invalid s = take n s" using True n(1,2) tk by (simp add: drop_invalid.simps [of s])
    ultimately show ?thesis using n(1,3) tk [OF n(1)] by (intro exI [of _ n]) auto
  next
    case False
    then have "drop_invalid s = s" "valid_utf8 s" by (auto simp: drop_invalid.simps [of s] valid_utf8_Nil)
    then show ?thesis by (intro exI [of _ "length s"]) simp
  qed
qed

lemma encode_rune_length: "1 \<le> length (encode_rune r) \<and> length (encode_rune r) \<le> 4"
  by (simp add: encode_rune_def)

lemma runes_cut:
  "n \<le> length (string_of_runes rs) \<Longrightarrow>
     \<exists>k. length (string_of_runes (take k rs)) \<le> n \<and> n < length (string_of_runes (take k rs)) + 4"
proof (induction rs arbitrary: n)
  case Nil
  then show ?case by (simp add: string_of_runes_def)
next
  case (Cons r rs)
  show ?case
  proof (cases "length (encode_rune r) \<le> n")
    case True
    then have "n - length (encode_rune r) \<le> length (string_of_runes rs)"
      using Cons.prems by (simp add: string_of_runes_def)
    then obtain k where "length (string_of_runes (take k rs)) \<le> n - length (encode_rune r)"
      "n - length (encode_rune r) < length (string_of_runes (take k rs)) + 4" using Cons.IH by blast
    moreover have "length (string_of_runes (take (Suc k) (r # rs))) =
        length (encode_rune r) + length (string_of_runes (take k rs))" by (simp add: string_of_runes_def)
    ultimately show ?thesis using True by (intro exI [of _ "Suc k"]) linarith
  next
    case False
    then have "n < 4" using encode_rune_length [of r] by linarith
    then show ?thesis by (intro exI [of _ 0]) (simp add: string_of_runes_def)
  qed
qed

lemma valid_prefix_near:
  assumes "valid_utf8 s" "n \<le> length s"
  obtains k where "k \<le> n" "n < k + 4" "valid_utf8 (take k s)"
proof -
  have s: "string_of_runes (runes s) = s" using assms(1) by (simp add: valid_utf8_def)
  then obtain j where j: "length (string_of_runes (take j (runes s))) \<le> n"
      "n < length (string_of_runes (take j (runes s))) + 4"
    using runes_cut [of n "runes s"] assms(2) by auto
  have "string_of_runes (take j (runes s)) @ string_of_runes (drop j (runes s)) = string_of_runes (runes s)"
    unfolding string_of_runes_def by (metis append_take_drop_id concat_append map_append)
  then have "take (length (string_of_runes (take j (runes s)))) s = string_of_runes (take j (runes s))"
    using s by (metis append_eq_conv_conj)
  moreover have "list_all scalar (take j (runes s))"
    using runes_scalar [of s] by (auto simp: list_all_iff dest: in_set_takeD)
  ultimately have "valid_utf8 (take (length (string_of_runes (take j (runes s)))) s)"
    by (simp add: valid_utf8_of_runes)
  then show ?thesis using that j by blast
qed

lemma safe_limit_cut:
  assumes "0 < kb" "kb < 2 ^ 53" "int (length msg) > 1024 * kb"
  shows "safe_limit msg kb = Done (drop_invalid (take (nat (1024 * kb - 3)) msg) @ ''...'')"
proof -
  have "wrap64 (kb * 1024) = kb * 1024" using assms(1,2) by (intro wrap64_id) (simp add: fits64_def)
  then show ?thesis using assms by (simp add: safe_limit_def Let_def mult.commute)
qed

text \<open>A limited message: up to 2^53 - 1 KB nothing panics, a message that fits is kept, a
  longer one becomes a prefix of valid UTF-8 and an ellipsis that together fit; the prefix is the
  longest valid one, and of a valid message it lacks at most three bytes of the room there is.\<close>

theorem message_limit_exact:
  assumes "0 < kb" "kb < 2 ^ 53"
  shows "\<exists>n. safe_limit msg kb =
       Done (if int (length msg) \<le> 1024 * kb then msg else take n msg @ ''...'') \<and>
     int n + 3 \<le> 1024 * kb \<and> valid_utf8 (take n msg) \<and>
     (\<forall>m. n < m \<and> int m + 3 \<le> 1024 * kb \<and> m \<le> length msg \<longrightarrow> \<not> valid_utf8 (take m msg)) \<and>
     (valid_utf8 msg \<and> int (length msg) > 1024 * kb \<longrightarrow> 1024 * kb \<le> int n + 6)"
proof -
  let ?L = "nat (1024 * kb - 3)"
  obtain n where n: "n \<le> length (take ?L msg)" "drop_invalid (take ?L msg) = take n (take ?L msg)"
    "valid_utf8 (take n (take ?L msg))"
    "\<And>m. n < m \<Longrightarrow> m \<le> length (take ?L msg) \<Longrightarrow> \<not> valid_utf8 (take m (take ?L msg))"
    using drop_invalid_longest [of "take ?L msg"] by blast
  have nL: "n \<le> ?L" "n \<le> length msg" using n(1) by simp_all
  then have tn: "take n (take ?L msg) = take n msg" by (simp add: min_absorb1)
  have longest: "\<not> valid_utf8 (take m msg)" if "n < m" "m \<le> ?L" "m \<le> length msg" for m
    using n(4) [OF that(1)] that(2,3) by (simp add: min_absorb1)
  have near: "1024 * kb \<le> int n + 6" if "valid_utf8 msg" "int (length msg) > 1024 * kb"
  proof -
    note v = that(1)
    have L: "?L \<le> length msg" using that(2) by linarith
    obtain k where k: "k \<le> ?L" "?L < k + 4" "valid_utf8 (take k msg)"
      using valid_prefix_near [OF v L] by blast
    have "k \<le> n" using longest [of k] k(1,3) L by fastforce
    then show ?thesis using k(2) by linarith
  qed
  have "safe_limit msg kb = Done (if int (length msg) \<le> 1024 * kb then msg else take n msg @ ''...'')"
  proof (cases "int (length msg) \<le> 1024 * kb")
    case True
    have "wrap64 (kb * 1024) = kb * 1024" using assms by (intro wrap64_id) (simp add: fits64_def)
    then show ?thesis using True assms by (simp add: safe_limit_def Let_def mult.commute)
  next
    case False
    then show ?thesis using safe_limit_cut [OF assms, of msg] n(2) tn by simp
  qed
  moreover have "int n + 3 \<le> 1024 * kb" using nL(1) assms(1) by linarith
  moreover have "\<not> valid_utf8 (take m msg)" if "n < m" "int m + 3 \<le> 1024 * kb" "m \<le> length msg" for m
    using longest that by (simp add: le_nat_iff)
  ultimately show ?thesis using n(3) tn near by (intro exI [of _ n]) auto
qed

theorem message_limit_exact_witness:
  "\<exists>n. safe_limit (replicate 1025 CHR ''a'') 1 = Done (take n (replicate 1025 CHR ''a'') @ ''...'') \<and>
     1018 \<le> n \<and> n \<le> 1021"
proof -
  have "ascii (replicate 1025 CHR ''a'')" by (simp add: ascii_def list_all_iff)
  then have "valid_utf8 (replicate 1025 CHR ''a'')" by (rule ascii_valid_utf8)
  then show ?thesis using message_limit_exact [of 1 "replicate 1025 CHR ''a''"] by (auto simp del: replicate_Suc)
qed

subsection \<open>What loggers print\<close>

lemma context_is_not_printed: "logger_log lib ts lvl c (l\<lparr>lg_ctx := x\<rparr>) = logger_log lib ts lvl c l"
  by (cases "lg_kind l")
    (simp_all add: logger_log_def console_log_def std_log_def console_format_def std_format_def log_enabled_def Let_def
      split: option.split outcome.split)

lemma fatal_below_level_returns:
  "lg_level l = panic_level \<Longrightarrow> logger_log lib ts fatal_level c l = (Returned, [])"
  by (simp add: logger_log_def console_log_def std_log_def log_enabled_def level_defs split: log_kind.split)

lemma message_key_overrides_level:
  "gm_get (json_fields lib ts lvl name msg (fs @ [(''level'', v)])) ''level'' = Some v"
  by (simp add: json_fields_def)

datatype 'v log_op = OpSetLevel nat log_level | OpWithFields nat "'v log_fields" | OpWithContext nat nat
  | OpLog string nat log_level "'v log_call"

fun run_log_op :: "'v log_lib \<Rightarrow> 'v log_op \<Rightarrow> 'v log_world \<Rightarrow> 'v log_world" where
  "run_log_op lib (OpSetLevel a lvl) w = set_level a lvl w"
| "run_log_op lib (OpWithFields a fs) w = snd (with_fields a fs w)"
| "run_log_op lib (OpWithContext a x) w = snd (with_context a x w)"
| "run_log_op lib (OpLog ts a lvl c) w = snd (log_at lib ts a lvl c w)"

fun level_after :: "nat \<Rightarrow> 'v log_op list \<Rightarrow> log_level \<Rightarrow> log_level" where
  "level_after a [] lvl = lvl"
| "level_after a (OpSetLevel b l # ops) lvl = level_after a ops (if a = b then l else lvl)"
| "level_after a (op # ops) lvl = level_after a ops lvl"

lemma run_log_op_object:
  assumes "a < length (lw_heap w)"
  shows "length (lw_heap w) \<le> length (lw_heap (run_log_op lib op w)) \<and>
    lw_heap (run_log_op lib op w) ! a =
      (lw_heap w ! a)\<lparr>lg_level := level_after a [op] (lg_level (lw_heap w ! a))\<rparr>"
  using assms
  by (cases op) (auto simp: set_level_def with_fields_def with_context_def log_at_def alloc_logger_def Let_def
      nth_append nth_list_update split: prod.splits)

lemma level_after_Cons: "level_after a (op # ops) lvl = level_after a ops (level_after a [op] lvl)"
  by (cases op) simp_all

text \<open>Loggers do not disturb each other: whatever is logged, derived and set by whoever holds
  loggers, a logger keeps its sink, name, format and fields, and its level is the one last set on
  itself; a logger derived from it starts with its level and its fields followed by the new ones.\<close>

theorem logger_object_frame:
  assumes "a < length (lw_heap w)"
  shows "lw_heap (fold (run_log_op lib) ops w) ! a =
       (lw_heap w ! a)\<lparr>lg_level := level_after a ops (lg_level (lw_heap w ! a))\<rparr> \<and>
     (case with_fields a fs (fold (run_log_op lib) ops w) of (b, w2) \<Rightarrow>
        b \<ge> length (lw_heap w) \<and>
        lw_heap w2 ! b = (lw_heap w ! a)\<lparr>lg_level := level_after a ops (lg_level (lw_heap w ! a)),
          lg_fields := lg_fields (lw_heap w ! a) @ fs\<rparr>)"
proof -
  have obj: "length (lw_heap w) \<le> length (lw_heap (fold (run_log_op lib) ops w)) \<and>
      lw_heap (fold (run_log_op lib) ops w) ! a =
       (lw_heap w ! a)\<lparr>lg_level := level_after a ops (lg_level (lw_heap w ! a))\<rparr>"
    using assms
  proof (induction ops arbitrary: w)
    case (Cons op ops)
    let ?w1 = "run_log_op lib op w"
    note one = run_log_op_object [OF Cons.prems, of lib op]
    have "a < length (lw_heap ?w1)" using one Cons.prems by linarith
    from Cons.IH [OF this] show ?case using one by (simp add: level_after_Cons [of a op ops])
  qed simp
  then show ?thesis by (simp add: with_fields_def alloc_logger_def merge_fields_def Let_def nth_append)
qed

definition sample_log_lib :: "string log_lib" where
  "sample_log_lib = \<lparr>ll_str = id, ll_verb = id, ll_sprintf = (\<lambda>f as. f), ll_json = (\<lambda>m. None), ll_std_prefix = id\<rparr>"

definition sample_log_world :: "string log_world" where
  "sample_log_world = \<lparr>lw_heap = [new_console_logger ''app'' []], lw_out = []\<rparr>"

theorem logger_object_frame_witness:
  "lw_heap (fold (run_log_op sample_log_lib) [OpWithFields 0 [(''k'', ''v'')], OpSetLevel 1 5, OpSetLevel 0 3]
      sample_log_world) ! 0 = (lw_heap sample_log_world ! 0)\<lparr>lg_level := 3\<rparr>"
  using logger_object_frame [of 0 sample_log_world sample_log_lib
      "[OpWithFields 0 [(''k'', ''v'')], OpSetLevel 1 5, OpSetLevel 0 3]" "[]"]
  by (simp add: sample_log_world_def)

subsection \<open>Configurations and providers\<close>

lemma apply_to_options:
  "apply_options (to_options c) = \<lparr>lo_level = lc_level c, lo_format = lc_format c, lo_output_path = lc_output_path c,
     lo_max_log_size = lc_max_log_size c, lo_max_log_age = lc_max_log_age c, lo_max_log_files = lc_max_log_files c,
     lo_compress_logs = lc_compress_logs c, lo_max_message_size = lc_max_message_size c, lo_config = lc_extra_config c\<rparr>"
  by (simp add: apply_options_def to_options_def option_setters default_logger_options_def)

lemma apply_log_defaults_idem: "apply_log_defaults (apply_log_defaults c) = apply_log_defaults c"
  by (simp add: apply_log_defaults_def hour_def minute_def second_def millisecond_def)

lemma map_config_lost:
  "lf_providers f = [] \<Longrightarrow> create_with_map con f name m w = pv_create con name [] w"
  by (simp add: create_with_map_def get_provider_def Let_def)

text \<open>From configuration to logger: the logger made for a configuration by the factory as it
  starts has the name, level, format, path and limits of the configuration after its defaults,
  is of the kind of its provider, a console logger for any provider that is not registered, and making it again gives the same.\<close>

theorem configured_logger_exact:
  "case create_with_log_config console_provider get_log_factory c w of (c', a, w') \<Rightarrow>
     c' = apply_log_defaults c \<and> apply_log_defaults c' = c' \<and>
     lc_format c' \<in> {''text'', ''json''} \<and> lc_name c' \<noteq> [] \<and> lc_max_log_size c' > 0 \<and>
     lc_max_log_age c' > 0 \<and> lc_max_log_files c' > 0 \<and>
     a = length (lw_heap w) \<and> lw_heap w' = lw_heap w @ [
       \<lparr>lg_kind = (if lc_provider c = ''std'' then StdKind else ConsoleKind), lg_level = lc_level c, lg_fields = [],
        lg_ctx = 0, lg_sink = (if lc_output_path c' = ''stdout'' then Stdout
          else Rotating (lc_output_path c') (lc_max_log_size c') (lc_max_log_age c' div (24 * hour))
                 (lc_max_log_files c') (lc_compress_logs c)),
        lg_name = lc_name c', lg_format = lc_format c', lg_max_message_size = lc_max_message_size c\<rparr>]"
proof -
  let ?c = "apply_log_defaults c"
  let ?k = "if lc_provider c = ''std'' then StdKind else ConsoleKind"
  have p: "lc_provider ?c = (if lc_provider c = [] then ''console'' else lc_provider c)"
    by (simp add: apply_log_defaults_def)
  have made: "create_with_log_config console_provider get_log_factory c w =
      (?c, alloc_logger (new_logger ?k (lc_name ?c) (to_options ?c)) w)"
    by (simp add: create_with_log_config_def Let_def get_log_factory_def get_provider_def register_provider_def
        set_default_provider_def new_log_factory_def console_provider_def std_provider_def
        new_console_logger_def new_std_logger_def p)
  have pos: "lc_max_log_age ?c > 0" by (simp add: apply_log_defaults_def hour_def minute_def second_def millisecond_def)
  have logger: "new_logger ?k (lc_name ?c) (to_options ?c) =
      \<lparr>lg_kind = ?k, lg_level = lc_level c, lg_fields = [],
        lg_ctx = 0, lg_sink = (if lc_output_path ?c = ''stdout'' then Stdout
          else Rotating (lc_output_path ?c) (lc_max_log_size ?c) (lc_max_log_age ?c div (24 * hour))
                 (lc_max_log_files ?c) (lc_compress_logs c)),
        lg_name = lc_name ?c, lg_format = lc_format ?c, lg_max_message_size = lc_max_message_size c\<rparr>"
    using pos unfolding new_logger_def Let_def apply_to_options
    by (simp add: open_sink_def) (simp add: apply_log_defaults_def)
  have valid: "lc_format ?c \<in> {''text'', ''json''}" "lc_name ?c \<noteq> []" "lc_max_log_size ?c > 0" "lc_max_log_files ?c > 0"
    by (auto simp: apply_log_defaults_def)
  show ?thesis
    unfolding made logger using valid pos by (simp add: alloc_logger_def apply_log_defaults_idem)
qed

subsection \<open>One global logger\<close>

fun glog_creator :: "'l glog_pc \<Rightarrow> bool" where
  "glog_creator GetCreate = True"
| "glog_creator (GetStore l) = True"
| "glog_creator p = False"

fun glog_finished :: "'l glog_pc \<Rightarrow> bool" where
  "glog_finished (Got l) = True"
| "glog_finished (SetDone l) = True"
| "glog_finished p = False"

fun glog_entry :: "'l glog_pc \<Rightarrow> bool" where
  "glog_entry GetLoad = True"
| "glog_entry (SetStore l) = True"
| "glog_entry p = False"

definition creators :: "('l, 'w) glog \<Rightarrow> nat" where
  "creators g = length (filter glog_creator (gl_pcs g))"

definition glog_inv :: "('l, 'w) glog \<Rightarrow> bool" where
  "glog_inv g \<longleftrightarrow>
     creators g + (if gl_init g then 0 else 1) \<le> 1 \<and>
     (gl_init g \<and> gl_holder g = None \<longrightarrow> creators g = 1) \<and>
     (GetSpin \<in> set (gl_pcs g) \<longrightarrow> gl_init g) \<and>
     (\<forall>l. SetFlag l \<in> set (gl_pcs g) \<longrightarrow> gl_holder g \<noteq> None)"

lemma length_filter_update:
  "i < length xs \<Longrightarrow> length (filter P (xs[i := y])) + (if P (xs ! i) then 1 else 0) =
     length (filter P xs) + (if P y then 1 else 0)"
proof (induction xs arbitrary: i)
  case (Cons x xs)
  show ?case
  proof (cases i)
    case (Suc j)
    then show ?thesis using Cons.IH [of j] Cons.prems by simp
  qed simp
qed simp

lemma creators_goto:
  "i < length (gl_pcs g) \<Longrightarrow> creators (glog_goto i p g) + (if glog_creator (gl_pcs g ! i) then 1 else 0) =
     creators g + (if glog_creator p then 1 else 0)"
  unfolding creators_def glog_goto_def using length_filter_update [of i "gl_pcs g" glog_creator p] by simp

lemma glog_goto_simps [simp]:
  "gl_holder (glog_goto i p g) = gl_holder g" "gl_init (glog_goto i p g) = gl_init g"
  "gl_pcs (glog_goto i p g) = (gl_pcs g)[i := p]" "gl_world (glog_goto i p g) = gl_world g"
  by (simp_all add: glog_goto_def)

lemma creators_fields [simp]:
  "creators (g\<lparr>gl_holder := x\<rparr>) = creators g" "creators (g\<lparr>gl_init := b\<rparr>) = creators g"
  "creators (g\<lparr>gl_world := w\<rparr>) = creators g"
  by (simp_all add: creators_def)

lemma in_set_update: "x \<in> set (xs[i := y]) \<Longrightarrow> x \<noteq> y \<Longrightarrow> x \<in> set xs"
  using set_update_subset_insert [of xs i y] by blast

lemma glog_step_inv:
  assumes "i < length (gl_pcs g)" "glog_inv g"
  shows "glog_inv (glog_step con f i g)"
proof -
  note inv = assms(2) [unfolded glog_inv_def]
  have here: "gl_pcs g ! i \<in> set (gl_pcs g)" using assms(1) by simp
  note go = creators_goto [OF assms(1)]
  show ?thesis
  proof (cases "gl_pcs g ! i")
    case GetLoad
    then show ?thesis using inv go [of "case gl_holder g of Some l \<Rightarrow> Got l | None \<Rightarrow> GetSwap"]
      by (auto simp: glog_step_def glog_inv_def split: option.splits dest!: in_set_update)
  next
    case GetSwap
    have "creators (glog_goto i GetCreate (g\<lparr>gl_init := True\<rparr>)) = creators g + 1"
      using creators_goto [of i "g\<lparr>gl_init := True\<rparr>" GetCreate] assms(1) GetSwap by simp
    then show ?thesis using inv GetSwap go [of GetSpin]
      by (auto simp: glog_step_def glog_inv_def dest!: in_set_update split: if_splits)
  next
    case GetCreate
    obtain l w where lw: "create_logger con f ''global'' (gl_world g) = (l, w)" by fastforce
    have "creators (glog_goto i (GetStore l) (g\<lparr>gl_world := w\<rparr>)) = creators g"
      using creators_goto [of i "g\<lparr>gl_world := w\<rparr>" "GetStore l"] assms(1) GetCreate by simp
    then show ?thesis using inv GetCreate lw
      by (auto simp: glog_step_def glog_inv_def dest!: in_set_update split: if_splits)
  next
    case (GetStore l)
    have "creators (glog_goto i (Got l) (g\<lparr>gl_holder := Some l\<rparr>)) + 1 = creators g"
      using creators_goto [of i "g\<lparr>gl_holder := Some l\<rparr>" "Got l"] assms(1) GetStore by simp
    then show ?thesis using inv GetStore
      by (auto simp: glog_step_def glog_inv_def dest!: in_set_update split: if_splits)
  next
    case GetSpin
    then show ?thesis using inv go [of "Got l" for l] here
      by (auto simp: glog_step_def glog_inv_def split: option.splits dest!: in_set_update)
  next
    case (SetStore l)
    have "creators (glog_goto i (SetFlag l) (g\<lparr>gl_holder := Some l\<rparr>)) = creators g"
      using creators_goto [of i "g\<lparr>gl_holder := Some l\<rparr>" "SetFlag l"] assms(1) SetStore by simp
    then show ?thesis using inv SetStore
      by (auto simp: glog_step_def glog_inv_def dest!: in_set_update split: if_splits)
  next
    case (SetFlag l)
    have "creators (glog_goto i (SetDone l) (g\<lparr>gl_init := True\<rparr>)) = creators g"
      using creators_goto [of i "g\<lparr>gl_init := True\<rparr>" "SetDone l"] assms(1) SetFlag by simp
    moreover have "gl_holder g \<noteq> None" using inv here SetFlag by metis
    ultimately show ?thesis using inv SetFlag
      by (auto simp: glog_step_def glog_inv_def dest!: in_set_update split: if_splits)
  qed (use assms(2) in \<open>simp_all add: glog_step_def\<close>)
qed

lemma glog_start_inv: "list_all glog_entry ps \<Longrightarrow> glog_inv (glog_start w ps)"
proof -
  assume a: "list_all glog_entry ps"
  then have "filter glog_creator ps = []"
    by (induction ps) (auto elim!: glog_entry.elims)
  moreover have "GetSpin \<notin> set ps" "\<And>l. SetFlag l \<notin> set ps" using a by (auto simp: list_all_iff)
  ultimately show ?thesis by (simp add: glog_inv_def glog_start_def creators_def)
qed

lemma glog_reach_inv: "glog_reach con f g h \<Longrightarrow> glog_inv g \<Longrightarrow> glog_inv h"
  by (induction rule: glog_reach.induct) (auto intro: glog_step_inv)

text \<open>A goroutine that is not finished can move, unless it waits for the one that creates.\<close>

lemma glog_stuck_finished:
  assumes "glog_inv g" "\<And>i. i < length (gl_pcs g) \<Longrightarrow> glog_step con f i g = g" "i < length (gl_pcs g)"
  shows "glog_finished (gl_pcs g ! i)"
proof -
  have same: "gl_pcs (glog_step con f j g) ! j = gl_pcs g ! j" if "j < length (gl_pcs g)" for j
    using assms(2) [OF that] by simp
  have no_creator: "\<not> glog_creator (gl_pcs g ! j)" if "j < length (gl_pcs g)" for j
    using same [OF that] that by (cases "gl_pcs g ! j") (auto simp: glog_step_def split: prod.splits)
  then have none: "creators g = 0" by (auto simp: creators_def filter_empty_conv in_set_conv_nth)
  show ?thesis
  proof (cases "gl_pcs g ! i")
    case GetSpin
    then have "gl_init g" using assms(1,3) by (metis glog_inv_def nth_mem)
    then have "gl_holder g \<noteq> None" using assms(1) none by (auto simp: glog_inv_def)
    then show ?thesis using same [OF assms(3)] GetSpin assms(3) by (auto simp: glog_step_def)
  qed (use same [OF assms(3)] assms(3) no_creator in
      \<open>auto simp: glog_step_def split: option.splits if_splits prod.splits\<close>)
qed

text \<open>Settled on a logger: it is stored, nobody creates or sets one, nobody can start to create.\<close>

definition glog_settled :: "'l \<Rightarrow> ('l, 'w) glog \<Rightarrow> bool" where
  "glog_settled l g \<longleftrightarrow> gl_holder g = Some l \<and> creators g = 0 \<and> (\<forall>x. SetStore x \<notin> set (gl_pcs g)) \<and>
     (GetSwap \<in> set (gl_pcs g) \<longrightarrow> gl_init g)"

lemma glog_settled_step:
  assumes "i < length (gl_pcs g)" "glog_settled l g"
  shows "glog_settled l (glog_step con f i g) \<and>
     (\<forall>x. gl_pcs (glog_step con f i g) ! i = Got x \<longrightarrow> gl_pcs g ! i = Got x \<or> x = l)"
proof -
  note st = assms(2) [unfolded glog_settled_def]
  have here: "gl_pcs g ! i \<in> set (gl_pcs g)" using assms(1) by simp
  have nc: "\<not> glog_creator (gl_pcs g ! i)" using st here by (auto simp: creators_def filter_empty_conv)
  note go = creators_goto [OF assms(1)]
  show ?thesis
  proof (cases "gl_pcs g ! i")
    case GetLoad
    then show ?thesis using st go [of "Got l"] assms(1)
      by (auto simp: glog_step_def glog_settled_def dest!: in_set_update)
  next
    case GetSwap
    then show ?thesis using st here go [of GetSpin] assms(1)
      by (auto simp: glog_step_def glog_settled_def dest!: in_set_update)
  next
    case GetSpin
    then show ?thesis using st go [of "Got l"] assms(1)
      by (auto simp: glog_step_def glog_settled_def dest!: in_set_update)
  next
    case (SetFlag x)
    have "creators (glog_goto i (SetDone x) (g\<lparr>gl_init := True\<rparr>)) = creators g"
      using creators_goto [of i "g\<lparr>gl_init := True\<rparr>" "SetDone x"] assms(1) SetFlag by simp
    then show ?thesis using st SetFlag assms(1)
      by (auto simp: glog_step_def glog_settled_def dest!: in_set_update)
  qed (use st here nc assms(1) in \<open>auto simp: glog_step_def glog_settled_def\<close>)
qed

lemma glog_step_length [simp]: "length (gl_pcs (glog_step con f i g)) = length (gl_pcs g)"
  by (simp add: glog_step_def split: glog_pc.split option.split prod.split)

lemma glog_settled_reach:
  "glog_reach con f g h \<Longrightarrow> glog_settled l g \<Longrightarrow>
     glog_settled l h \<and> length (gl_pcs h) = length (gl_pcs g) \<and>
     (\<forall>i x. i < length (gl_pcs h) \<and> gl_pcs h ! i = Got x \<longrightarrow> gl_pcs g ! i = Got x \<or> x = l)"
proof (induction rule: glog_reach.induct)
  case (glog_more g h j)
  note s = glog_settled_step [OF glog_more.hyps(2), of l con f]
  have ih: "glog_settled l h" "length (gl_pcs h) = length (gl_pcs g)"
      "\<And>i x. i < length (gl_pcs h) \<Longrightarrow> gl_pcs h ! i = Got x \<Longrightarrow> gl_pcs g ! i = Got x \<or> x = l"
    using glog_more.IH [OF glog_more.prems] by blast+
  have other: "i \<noteq> j \<Longrightarrow> gl_pcs (glog_step con f j h) ! i = gl_pcs h ! i" for i
    by (simp add: glog_step_def split: glog_pc.split option.split prod.split)
  show ?case
  proof (intro conjI allI impI)
    fix i x assume i: "i < length (gl_pcs (glog_step con f j h)) \<and> gl_pcs (glog_step con f j h) ! i = Got x"
    show "gl_pcs g ! i = Got x \<or> x = l"
    proof (cases "i = j")
      case True
      then show ?thesis using s [OF ih(1)] i ih(3) [of i x] by auto
    next
      case False
      then show ?thesis using other i ih(3) [of i x] by simp
    qed
  qed (use s [OF ih(1)] ih(2) in simp_all)
qed simp


definition sample_log_provider :: "(string, unit) log_provider" where
  "sample_log_provider = \<lparr>pv_create = (\<lambda>name opts w. (''default'', w)), pv_create_with_config = (\<lambda>name m w. (''default'', w))\<rparr>"

text \<open>A logger that was set can be lost: a \<open>GetLogger\<close> that began before stores its default over it.\<close>

lemma set_logger_lost:
  "\<exists>g. glog_reach sample_log_provider new_log_factory (glog_start () [GetLoad, SetStore ''mine'']) g \<and>
     gl_pcs g = [Got ''default'', SetDone ''mine''] \<and> gl_holder g = Some ''default''"
proof -
  let ?s = "\<lambda>i g. glog_step sample_log_provider new_log_factory i g"
  let ?g0 = "glog_start () [GetLoad, SetStore ''mine'']"
  note step_simps = glog_step_def glog_start_def glog_goto_def create_logger_def create_with_provider_def
    get_provider_def new_log_factory_def sample_log_provider_def
  have "glog_reach sample_log_provider new_log_factory ?g0 (?s 0 (?s 1 (?s 1 (?s 0 (?s 0 (?s 0 ?g0))))))"
    by (intro glog_reach.intros) (simp_all add: glog_start_def)
  moreover have "gl_pcs (?s 0 (?s 1 (?s 1 (?s 0 (?s 0 (?s 0 ?g0)))))) = [Got ''default'', SetDone ''mine''] \<and>
      gl_holder (?s 0 (?s 1 (?s 1 (?s 0 (?s 0 (?s 0 ?g0)))))) = Some ''default''"
    by (simp add: step_simps)
  ultimately show ?thesis by blast
qed


end
