(* ===== verification/WorkflowApi.thy ===== *)
theory WorkflowApi
  imports EngineSafety
begin

text \<open>
  The API of the workflow module: the controllers (workflow/internal/controller) and services
  (workflow/internal/service_impl) over the engine and the memory store, with the requests
  and responses of workflow/api/v1. The binding of a request is done by the web layer before; the
  format of a time is a parameter.
\<close>

subsection \<open>Requests and responses\<close>

record api_node =
  an_id :: string
  an_name :: string
  an_type :: string
  an_config :: string
  an_timeout :: int
  an_max_retries :: int
  an_retry_mode :: string
  an_order_no :: int

record api_edge =
  ae_id :: string
  ae_source_id :: string
  ae_target_id :: string
  ae_label :: string
  ae_order_no :: int

record create_workflow_request =
  cq_name :: string
  cq_description :: string
  cq_nodes :: "api_node list"
  cq_edges :: "api_edge list"
  cq_timeout :: int
  cq_max_retries :: int

record workflow_response =
  wp_id :: string
  wp_name :: string
  wp_description :: string
  wp_version :: int
  wp_status :: string
  wp_nodes :: "api_node list"
  wp_edges :: "api_edge list"
  wp_created_at :: string
  wp_updated_at :: string

record start_workflow_request =
  sq_workflow_id :: string
  sq_trigger_type :: string
  sq_trigger_id :: string
  sq_input :: string

record execution_response =
  xp_id :: string
  xp_workflow_id :: string
  xp_workflow_name :: string
  xp_status :: string
  xp_trigger_type :: string
  xp_error :: string
  xp_started_at :: "string option"
  xp_finished_at :: "string option"
  xp_created_at :: string

record task_item =
  ti_id :: string
  ti_node_name :: string
  ti_node_type :: string
  ti_status :: string
  ti_retry_count :: int
  ti_error :: string
  ti_started_at :: string
  ti_finished_at :: string

record 'a list_response =
  lr_total :: int
  lr_items :: "'a list"

text \<open>\<open>model.TriggerType(s)\<close>: any string is one.\<close>

definition trigger_type_of :: "string \<Rightarrow> trigger_type" where
  "trigger_type_of s =
     (if s = ''MANUAL'' then TrManual else if s = ''SCHEDULE'' then TrSchedule else if s = ''EVENT'' then TrEvent
      else if s = ''API'' then TrApi else if s = ''SUB_WORKFLOW'' then TrSubWorkflow else TrOther s)"

subsection \<open>The services\<close>

definition node_of_request :: "string \<Rightarrow> api_node \<Rightarrow> node" where
  "node_of_request wid n =
     \<lparr>nd_id = an_id n, nd_workflow_id = wid, nd_name = an_name n, nd_type = an_type n, nd_description = [],
      nd_timeout = an_timeout n, nd_max_retries = an_max_retries n, nd_retry_delay = 0,
      nd_retry_mode = an_retry_mode n, nd_retry_max_delay = 0, nd_skip_on_failure = False,
      nd_config = (if an_config n \<noteq> [] then Some (an_config n) else None),
      nd_input_mapping = None, nd_output_mapping = None, nd_condition_expr = [], nd_parallel_branches = 0,
      nd_output_schema = None, nd_order_no = an_order_no n, nd_created_at = 0, nd_updated_at = 0\<rparr>"

definition edge_of_request :: "string \<Rightarrow> api_edge \<Rightarrow> edge" where
  "edge_of_request wid e =
     \<lparr>ed_id = ae_id e, ed_workflow_id = wid, ed_source_id = ae_source_id e, ed_target_id = ae_target_id e,
      ed_source_port = [], ed_target_port = [], ed_condition_expr = [], ed_label = ae_label e, ed_internal = False,
      ed_order_no = ae_order_no e, ed_created_at = 0\<rparr>"

definition workflow_of_request :: "string \<Rightarrow> create_workflow_request \<Rightarrow> workflow" where
  "workflow_of_request wid q =
     \<lparr>wf_id = wid, wf_name = cq_name q, wf_description = cq_description q, wf_version = 1, wf_status = WfActive,
      wf_timeout = cq_timeout q, wf_max_retries = cq_max_retries q,
      wf_nodes = map (node_of_request wid) (cq_nodes q), wf_edges = map (edge_of_request wid) (cq_edges q),
      wf_created_at = 0, wf_updated_at = 0\<rparr>"

definition svc_create :: "'x engine_env \<Rightarrow> create_workflow_request \<Rightarrow> 'x world \<Rightarrow> (gerr + workflow) \<times> 'x world" where
  "svc_create v q w =
     (let (k, w1) = fresh w;
          g = workflow_of_request (en_uuid v k) q
      in if \<not> workflow_is_valid g then (Inl (ErrMsg ''invalid workflow definition''), w1)
         else (case create_workflow (ew_store w1) g of
                 Inl e \<Rightarrow> (Inl (store_err e), w1)
               | Inr s \<Rightarrow> (Inr g, w1\<lparr>ew_store := s\<rparr>)))"

definition svc_get :: "string \<Rightarrow> 'x world \<Rightarrow> gerr + workflow" where
  "svc_get i w = map_sum store_err id (get_workflow_with_nodes (ew_store w) i)"

text \<open>\<open>(page - 1) * sz\<close> on 64-bit integers.\<close>

definition page_offset :: "int \<Rightarrow> int \<Rightarrow> int" where
  "page_offset page sz = wrap64 (wrap64 (page - 1) * sz)"

definition svc_list :: "int \<Rightarrow> int \<Rightarrow> 'x world \<Rightarrow> (workflow list \<times> int) outcome" where
  "svc_list page sz w = list_workflows (ew_store w) (page_offset page sz) sz"

definition svc_delete :: "string \<Rightarrow> gerr option" where
  "svc_delete i = Some (ErrMsg ''not implemented'')"

definition svc_list_executions :: "string \<Rightarrow> string \<Rightarrow> int \<Rightarrow> int \<Rightarrow> 'x world \<Rightarrow> (execution list \<times> int) outcome" where
  "svc_list_executions wid status page sz w = list_executions (ew_store w) wid (page_offset page sz) sz"

definition svc_get_execution :: "string \<Rightarrow> 'x world \<Rightarrow> gerr + execution" where
  "svc_get_execution i w = map_sum store_err id (get_execution (ew_store w) i)"

subsection \<open>The controllers\<close>

definition to_api_node :: "node \<Rightarrow> api_node" where
  "to_api_node n = \<lparr>an_id = nd_id n, an_name = nd_name n, an_type = nd_type n, an_config = [],
     an_timeout = nd_timeout n, an_max_retries = nd_max_retries n, an_retry_mode = nd_retry_mode n,
     an_order_no = nd_order_no n\<rparr>"

definition to_api_edge :: "edge \<Rightarrow> api_edge" where
  "to_api_edge e = \<lparr>ae_id = ed_id e, ae_source_id = ed_source_id e, ae_target_id = ed_target_id e,
     ae_label = ed_label e, ae_order_no = ed_order_no e\<rparr>"

definition to_workflow_response :: "(time \<Rightarrow> string) \<Rightarrow> workflow \<Rightarrow> workflow_response" where
  "to_workflow_response tf g =
     \<lparr>wp_id = wf_id g, wp_name = wf_name g, wp_description = wf_description g, wp_version = wf_version g,
      wp_status = workflow_status_str (wf_status g), wp_nodes = map to_api_node (wf_nodes g),
      wp_edges = map to_api_edge (wf_edges g), wp_created_at = tf (wf_created_at g), wp_updated_at = tf (wf_updated_at g)\<rparr>"

definition to_execution_response :: "(time \<Rightarrow> string) \<Rightarrow> execution \<Rightarrow> execution_response" where
  "to_execution_response tf e =
     \<lparr>xp_id = ex_id e, xp_workflow_id = ex_workflow_id e, xp_workflow_name = ex_workflow_name e,
      xp_status = exec_status_str (ex_status e), xp_trigger_type = trigger_type_str (ex_trigger_type e),
      xp_error = ex_error e, xp_started_at = map_option tf (ex_started_at e),
      xp_finished_at = map_option tf (ex_finished_at e), xp_created_at = tf (ex_created_at e)\<rparr>"

definition to_task_item :: "(time \<Rightarrow> string) \<Rightarrow> task \<Rightarrow> task_item" where
  "to_task_item tf t =
     \<lparr>ti_id = tk_id t, ti_node_name = tk_node_name t, ti_node_type = tk_node_type t,
      ti_status = task_status_str (tk_status t), ti_retry_count = tk_retry_count t, ti_error = tk_error t,
      ti_started_at = (case tk_started_at t of None \<Rightarrow> [] | Some x \<Rightarrow> tf x),
      ti_finished_at = (case tk_finished_at t of None \<Rightarrow> [] | Some x \<Rightarrow> tf x)\<rparr>"

definition ctl_create :: "'x engine_env \<Rightarrow> create_workflow_request \<Rightarrow> 'x world \<Rightarrow> (gerr + string) \<times> 'x world" where
  "ctl_create v q w = (case svc_create v q w of (r, w1) \<Rightarrow> (map_sum id wf_id r, w1))"

definition ctl_get :: "(time \<Rightarrow> string) \<Rightarrow> string \<Rightarrow> 'x world \<Rightarrow> gerr + workflow_response" where
  "ctl_get tf i w = map_sum id (to_workflow_response tf) (svc_get i w)"

definition ctl_list :: "(time \<Rightarrow> string) \<Rightarrow> int \<Rightarrow> int \<Rightarrow> 'x world \<Rightarrow> workflow_response list_response outcome" where
  "ctl_list tf page sz w = bind_outcome (svc_list page sz w)
     (\<lambda>(items, n). Done \<lparr>lr_total = n, lr_items = map (to_workflow_response tf) items\<rparr>)"

definition ctl_delete :: "string \<Rightarrow> gerr + bool" where
  "ctl_delete i = (case svc_delete i of Some e \<Rightarrow> Inl e | None \<Rightarrow> Inr True)"

definition ctl_start :: "'x engine_env \<Rightarrow> nat \<Rightarrow> start_workflow_request \<Rightarrow> 'x world \<Rightarrow> (gerr + string) outcome \<times> 'x world" where
  "ctl_start v ctx q w =
     (let input = (if sq_input q \<noteq> [] then Some (sq_input q) else None);
          tt = (if sq_trigger_type q = [] then TrApi else trigger_type_of (sq_trigger_type q))
      in start_workflow v ctx (sq_workflow_id q) input tt (sq_trigger_id q) w)"

definition ctl_get_execution :: "(time \<Rightarrow> string) \<Rightarrow> string \<Rightarrow> 'x world \<Rightarrow> gerr + execution_response" where
  "ctl_get_execution tf i w = map_sum id (to_execution_response tf) (svc_get_execution i w)"

definition ctl_list_executions :: "(time \<Rightarrow> string) \<Rightarrow> string \<Rightarrow> string \<Rightarrow> int \<Rightarrow> int \<Rightarrow> 'x world \<Rightarrow>
    execution_response list_response outcome" where
  "ctl_list_executions tf wid status page sz w = bind_outcome (svc_list_executions wid status page sz w)
     (\<lambda>(items, n). Done \<lparr>lr_total = n, lr_items = map (to_execution_response tf) items\<rparr>)"

definition answer_success :: "gerr option \<times> 'x world \<Rightarrow> (gerr + bool) \<times> 'x world" where
  "answer_success r = (case r of (Some e, w) \<Rightarrow> (Inl e, w) | (None, w) \<Rightarrow> (Inr True, w))"

definition ctl_pause :: "'x engine_env \<Rightarrow> string \<Rightarrow> 'x world \<Rightarrow> ((gerr + bool) \<times> 'x world) outcome" where
  "ctl_pause v i w = bind_outcome (pause_workflow v i w) (\<lambda>r. Done (answer_success r))"

definition ctl_resume :: "'x engine_env \<Rightarrow> nat \<Rightarrow> string \<Rightarrow> 'x world \<Rightarrow> ((gerr + bool) \<times> 'x world) outcome" where
  "ctl_resume v ctx i w = bind_outcome (resume_workflow v ctx i w) (\<lambda>r. Done (answer_success r))"

definition ctl_cancel :: "'x engine_env \<Rightarrow> string \<Rightarrow> 'x world \<Rightarrow> (gerr + bool) \<times> 'x world" where
  "ctl_cancel v i w = answer_success (cancel_workflow v i w)"

definition ctl_tasks :: "(time \<Rightarrow> string) \<Rightarrow> string \<Rightarrow> 'x world \<Rightarrow> task_item list" where
  "ctl_tasks tf i w = map (to_task_item tf) (list_tasks (ew_store w) i)"

subsection \<open>Creating and reading back\<close>

definition request_accepted :: "create_workflow_request \<Rightarrow> bool" where
  "request_accepted q \<longleftrightarrow> cq_name q \<noteq> [] \<and> cq_nodes q \<noteq> [] \<and> distinct (map an_id (cq_nodes q)) \<and>
     [] \<notin> set (map an_id (cq_nodes q))"

lemma workflow_of_request_valid: "workflow_is_valid (workflow_of_request i q) \<longleftrightarrow> request_accepted q"
  by (auto simp: workflow_is_valid_def valid_nodes_iff request_accepted_def workflow_of_request_def
      node_of_request_def comp_def)

lemma node_and_back: "to_api_node (node_of_request i n) = n\<lparr>an_config := []\<rparr>"
  by (simp add: to_api_node_def node_of_request_def)

lemma edge_and_back: "to_api_edge (edge_of_request i e) = e"
  by (simp add: to_api_edge_def edge_of_request_def)

lemma response_of_request:
  "to_workflow_response tf (workflow_of_request i q) =
     \<lparr>wp_id = i, wp_name = cq_name q, wp_description = cq_description q, wp_version = 1, wp_status = ''ACTIVE'',
      wp_nodes = map (\<lambda>n. n\<lparr>an_config := []\<rparr>) (cq_nodes q), wp_edges = cq_edges q,
      wp_created_at = tf 0, wp_updated_at = tf 0\<rparr>"
  by (simp add: to_workflow_response_def workflow_of_request_def comp_def node_and_back edge_and_back)

lemma ctl_create_cases:
  "ctl_create v q w =
     (let i = en_uuid v (ew_next w); w1 = w\<lparr>ew_next := Suc (ew_next w)\<rparr>
      in if \<not> request_accepted q then (Inl (ErrMsg ''invalid workflow definition''), w1)
         else if gm_has (ms_workflows (ew_store w)) i
         then (Inl (store_err (ErrDuplicateTriggerID i [])), w1)
         else (Inr i, w1\<lparr>ew_store := (ew_store w)\<lparr>ms_workflows :=
                 gm_put i (workflow_of_request i q) (ms_workflows (ew_store w))\<rparr>\<rparr>))"
proof -
  have "wf_id (workflow_of_request i q) = i" for i by (simp add: workflow_of_request_def)
  then show ?thesis
    by (simp add: ctl_create_def svc_create_def fresh_def workflow_of_request_valid create_workflow_def Let_def)
qed

text \<open>C39. What was created can be read back: \<open>Create\<close> answers an ID exactly for a named request
  whose nodes have distinct, non-empty IDs, when the ID drawn is new; then \<open>Get\<close> of that ID
  answers the request: name, description, edges, and the nodes, but without their
  configurations; other workflows are answered as before.\<close>

theorem created_workflow_reads_back:
  assumes "ctl_create v q w = (r, w1)" "\<not> gm_has (ms_workflows (ew_store w)) (en_uuid v (ew_next w))"
  shows "(request_accepted q \<longleftrightarrow> (\<exists>i. r = Inr i)) \<and>
     (\<forall>i. r = Inr i \<longrightarrow>
        ctl_get tf i w1 = Inr
          \<lparr>wp_id = i, wp_name = cq_name q, wp_description = cq_description q, wp_version = 1,
           wp_status = ''ACTIVE'', wp_nodes = map (\<lambda>n. n\<lparr>an_config := []\<rparr>) (cq_nodes q), wp_edges = cq_edges q,
           wp_created_at = tf 0, wp_updated_at = tf 0\<rparr> \<and>
        (\<forall>j. j \<noteq> i \<longrightarrow> ctl_get tf j w1 = ctl_get tf j w))"
proof (cases "request_accepted q")
  case False
  then have "r = Inl (ErrMsg ''invalid workflow definition'')"
    using assms(1) unfolding ctl_create_cases by (simp add: Let_def)
  then show ?thesis using False by simp
next
  case True
  let ?i = "en_uuid v (ew_next w)"
  have r: "r = Inr ?i" and st: "ms_workflows (ew_store w1) =
      gm_put ?i (workflow_of_request ?i q) (ms_workflows (ew_store w))"
    using assms True unfolding ctl_create_cases by (auto simp: Let_def)
  have "gm_get (ms_workflows (ew_store w1)) ?i = Some (workflow_of_request ?i q)"
    "\<And>j. j \<noteq> ?i \<Longrightarrow> gm_get (ms_workflows (ew_store w1)) j = gm_get (ms_workflows (ew_store w)) j"
    by (simp_all add: st)
  then show ?thesis using True r
    by (simp add: ctl_get_def svc_get_def get_workflow_with_nodes_def response_of_request)
qed

definition sample_create_request :: create_workflow_request where
  "sample_create_request = \<lparr>cq_name = ''n'', cq_description = [],
     cq_nodes = [\<lparr>an_id = ''a'', an_name = ''a'', an_type = ''INPUT'', an_config = ''{}'', an_timeout = 0,
                  an_max_retries = 0, an_retry_mode = [], an_order_no = 0\<rparr>],
     cq_edges = [\<lparr>ae_id = ''e'', ae_source_id = ''a'', ae_target_id = ''a'', ae_label = [], ae_order_no = 0\<rparr>],
     cq_timeout = 0, cq_max_retries = 0\<rparr>"

theorem created_workflow_reads_back_witness:
  "\<exists>i w1. ctl_create (sample_env 0) sample_create_request ((sample_world ExPending)\<lparr>ew_store := new_memory_store\<rparr>) = (Inr i, w1) \<and>
     map_sum id wp_name (ctl_get (\<lambda>t. ''now'') i w1) = Inr ''n''"
proof -
  let ?w = "(sample_world ExPending)\<lparr>ew_store := new_memory_store\<rparr>"
  obtain r w1 where c: "ctl_create (sample_env 0) sample_create_request ?w = (r, w1)" by fastforce
  have new: "\<not> gm_has (ms_workflows (ew_store ?w)) (en_uuid (sample_env 0) (ew_next ?w))"
    by (simp add: new_memory_store_def)
  have "request_accepted sample_create_request"
    by (simp add: request_accepted_def sample_create_request_def)
  then obtain i where i: "r = Inr i" using created_workflow_reads_back [OF c new] by blast
  then show ?thesis using created_workflow_reads_back [OF c new, of "\<lambda>t. ''now''"] c
    by (simp add: sample_create_request_def)
qed

text \<open>The reference of an edge to its own source passes; the cycle is found when the run starts.\<close>

lemma cyclic_request_accepted:
  "request_accepted sample_create_request \<and> ae_source_id (hd (cq_edges sample_create_request)) =
     ae_target_id (hd (cq_edges sample_create_request))"
  by (simp add: request_accepted_def sample_create_request_def)

text \<open>C0. What was created can be started: after a successful \<open>Create\<close> a start without a trigger
  ID answers the ID of a new pending execution of that workflow, which \<open>Get\<close> then shows, with the
  trigger type of the request, API when it has none.\<close>

theorem created_workflow_starts:
  assumes "ctl_create v q w = (Inr i, w1)" "\<not> gm_has (ms_executions (ew_store w)) (en_uuid v (ew_next w1))"
    "sq_workflow_id s = i" "sq_trigger_id s = []"
  shows "\<exists>w2. ctl_start v ctx s w1 = (Done (Inr (en_uuid v (ew_next w1))), w2) \<and>
     ctl_get_execution tf (en_uuid v (ew_next w1)) w2 = Inr
       \<lparr>xp_id = en_uuid v (ew_next w1), xp_workflow_id = i, xp_workflow_name = cq_name q, xp_status = ''PENDING'',
        xp_trigger_type = (if sq_trigger_type s = [] then ''API'' else sq_trigger_type s), xp_error = [],
        xp_started_at = None, xp_finished_at = None, xp_created_at = tf 0\<rparr>"
proof -
  let ?g = "workflow_of_request i q"
  have store: "gm_get (ms_workflows (ew_store w1)) i = Some ?g" "ms_executions (ew_store w1) = ms_executions (ew_store w)"
    using assms(1) unfolding ctl_create_cases by (auto simp: Let_def split: if_splits)
  have get: "get_workflow_with_nodes (ew_store w1) i = Inr ?g" using store(1) by (simp add: get_workflow_with_nodes_def)
  have g: "wf_status ?g = WfActive" "wf_id ?g = i" "wf_name ?g = cq_name q" by (simp_all add: workflow_of_request_def)
  have tt: "trigger_type_str (if sq_trigger_type s = [] then TrApi else trigger_type_of (sq_trigger_type s)) =
      (if sq_trigger_type s = [] then ''API'' else sq_trigger_type s)"
    by (simp add: trigger_type_of_def)
  show ?thesis
    using assms(2-4) store(2) get g
    by (simp add: ctl_start_def start_workflow_def create_and_spawn_def fresh_def create_execution_def
        new_execution_def ctl_get_execution_def svc_get_execution_def get_execution_def Let_def
        to_execution_response_def tt)
qed

theorem created_workflow_starts_witness:
  "\<exists>i w1 w2 e. ctl_create (sample_env 0) sample_create_request ((sample_world ExPending)\<lparr>ew_store := new_memory_store\<rparr>) = (Inr i, w1) \<and>
     ctl_start (sample_env 0) 0 \<lparr>sq_workflow_id = i, sq_trigger_type = [], sq_trigger_id = [], sq_input = []\<rparr> w1 =
       (Done (Inr e), w2)"
proof -
  let ?w = "(sample_world ExPending)\<lparr>ew_store := new_memory_store\<rparr>"
  have "request_accepted sample_create_request"
    by (simp add: request_accepted_def sample_create_request_def)
  then obtain i w1 where c: "ctl_create (sample_env 0) sample_create_request ?w = (Inr i, w1)"
    unfolding ctl_create_cases by (simp add: Let_def new_memory_store_def)
  have new: "\<not> gm_has (ms_executions (ew_store ?w)) (en_uuid (sample_env 0) (ew_next w1))"
    by (simp add: new_memory_store_def)
  let ?s = "\<lparr>sq_workflow_id = i, sq_trigger_type = [], sq_trigger_id = [], sq_input = []\<rparr>"
  obtain w2 where "ctl_start (sample_env 0) 0 ?s w1 = (Done (Inr (en_uuid (sample_env 0) (ew_next w1))), w2)"
    using created_workflow_starts [OF c new, of ?s 0] by auto
  with c show ?thesis by blast
qed

subsection \<open>Lists\<close>

lemma chunks_concat: "concat (map (\<lambda>p. take s (drop (p * s) xs)) [0..<k]) = take (k * s) xs"
proof (induction k)
  case (Suc k)
  then show ?case using take_add [of "k * s" s xs] by (simp add: add.commute)
qed simp

lemma page_offset_exact:
  assumes "0 < sz" "(int p + 1) * sz < 2 ^ 63"
  shows "page_offset (int p + 1) sz = int p * sz"
proof -
  have le: "int p * sz \<ge> 0" "int p \<le> int p * sz" "int p * sz \<le> (int p + 1) * sz"
    using assms(1) mult_left_mono [of 1 sz "int p"] by (simp_all add: algebra_simps)
  then have "wrap64 (int p) = int p" "wrap64 (int p * sz) = int p * sz"
    using assms(2) by (intro wrap64_id; simp add: fits64_def; linarith)+
  then show ?thesis by (simp add: page_offset_def)
qed

lemma page_zero_panics:
  "0 < sz \<Longrightarrow> sz < 2 ^ 63 \<Longrightarrow> int (length (ms_executions (ew_store w))) < 2 ^ 63 \<Longrightarrow>
     ctl_list_executions tf wid status 0 sz w = Panic ''slice bounds out of range''"
proof -
  assume a: "0 < sz" "sz < 2 ^ 63" "int (length (ms_executions (ew_store w))) < 2 ^ 63"
  let ?all = "sort_desc ex_created_at
      (filter (\<lambda>e. wid = [] \<or> ex_workflow_id e = wid) (map snd (ms_executions (ew_store w))))"
  have "wrap64 (- 1) = - 1" "wrap64 (- sz) = - sz" using a by (intro wrap64_id; simp add: fits64_def)+
  then have off: "page_offset 0 sz = - sz" by (simp add: page_offset_def)
  have "length ?all \<le> length (ms_executions (ew_store w))"
    by (metis length_filter_le length_map length_sort_desc)
  then have len: "int (length ?all) < 2 ^ 63" using a(3) by linarith
  have "fits64 sz" using a by (simp add: fits64_def)
  from slice_page [OF this len, of "- sz"] show ?thesis
    using a(1) by (simp add: ctl_list_executions_def svc_list_executions_def list_executions_def off Let_def)
qed

lemma ctl_list_executions_page:
  fixes w :: "'x world" and wid :: string
  defines "all \<equiv> sort_desc ex_created_at
      (filter (\<lambda>e. wid = [] \<or> ex_workflow_id e = wid) (map snd (ms_executions (ew_store w))))"
  assumes "0 < sz" "int (length (ms_executions (ew_store w))) + (int p + 1) * sz < 2 ^ 63"
  shows "ctl_list_executions tf wid status (int p + 1) sz w =
    Done \<lparr>lr_total = int (length all), lr_items = map (to_execution_response tf) (take (nat sz) (drop (p * nat sz) all))\<rparr>"
proof -
  have n: "length all \<le> length (ms_executions (ew_store w))"
    unfolding all_def by (metis length_filter_le length_map length_sort_desc)
  have ge: "int p * sz \<ge> 0" "sz \<le> (int p + 1) * sz" "int p * sz \<le> (int p + 1) * sz"
    using assms(2) by (simp_all add: algebra_simps)
  have fits: "fits64 sz" "int (length all) < 2 ^ 63" "(int p + 1) * sz < 2 ^ 63"
    using assms(2,3) n ge by (simp_all add: fits64_def; linarith)+
  have bound: "\<not> 2 ^ 63 \<le> min (int p * sz) (int (length all)) + sz" using assms(3) n ge by linarith
  have nat: "nat (int p * sz) = p * nat sz" using assms(2) by (simp add: nat_mult_distrib)
  show ?thesis
    using slice_page [OF fits(1,2), of "int p * sz"] assms(2) ge(1) bound
    by (simp add: ctl_list_executions_def svc_list_executions_def list_executions_def Let_def
        page_offset_exact [OF assms(2) fits(3)] nat flip: all_def)
qed

text \<open>Paging over the executions loses nothing: for a page size above 0 the pages 1 to k, k being enough
  for all, are consecutive parts of one list of all executions of the workflow, newest first,
  each with the full count; the status of the request changes nothing. (Page 0 panics.)\<close>

theorem execution_pages_cover:
  fixes w :: "'x world"
  assumes "0 < sz" "int (length (ms_executions (ew_store w))) \<le> int k * sz"
    "int (length (ms_executions (ew_store w))) + int k * sz < 2 ^ 63"
  shows "\<exists>all pages. length pages = k \<and> concat pages = map (to_execution_response tf) all \<and>
     mset all = {# e \<in># mset (map snd (ms_executions (ew_store w))). wid = [] \<or> ex_workflow_id e = wid #} \<and>
     sorted (map (\<lambda>e. - ex_created_at e) all) \<and>
     (\<forall>p < k. \<forall>status. ctl_list_executions tf wid status (int p + 1) sz w =
        Done \<lparr>lr_total = int (length all), lr_items = pages ! p\<rparr>)"
proof -
  define all where "all = sort_desc ex_created_at
      (filter (\<lambda>e. wid = [] \<or> ex_workflow_id e = wid) (map snd (ms_executions (ew_store w))))"
  define pages where "pages = map (\<lambda>p. map (to_execution_response tf) (take (nat sz) (drop (p * nat sz) all))) [0..<k]"
  have "length all \<le> length (ms_executions (ew_store w))"
    unfolding all_def by (metis length_filter_le length_map length_sort_desc)
  moreover have "int (k * nat sz) = int k * sz" using assms(1) by simp
  ultimately have "length all \<le> k * nat sz" using assms(2) by linarith
  then have "take (k * nat sz) all = all" by simp
  moreover have "concat pages = map (to_execution_response tf) (concat (map (\<lambda>p. take (nat sz) (drop (p * nat sz) all)) [0..<k]))"
    unfolding pages_def by (simp add: map_concat comp_def)
  ultimately have "concat pages = map (to_execution_response tf) all" by (simp only: chunks_concat)
  moreover have "ctl_list_executions tf wid status (int p + 1) sz w =
      Done \<lparr>lr_total = int (length all), lr_items = pages ! p\<rparr>" if "p < k" for p status
  proof -
    have "(int p + 1) * sz \<le> int k * sz" using that assms(1) by (intro mult_right_mono) simp_all
    then have "int (length (ms_executions (ew_store w))) + (int p + 1) * sz < 2 ^ 63" using assms(3) by linarith
    from ctl_list_executions_page [OF assms(1) this, of tf wid status] show ?thesis
      using that by (simp add: pages_def flip: all_def)
  qed
  moreover have "mset all = {# e \<in># mset (map snd (ms_executions (ew_store w))). wid = [] \<or> ex_workflow_id e = wid #}"
    "sorted (map (\<lambda>e. - ex_created_at e) all)" "length pages = k"
    by (simp_all add: all_def sorted_sort_desc pages_def)
  ultimately show ?thesis by (intro exI [of _ all] exI [of _ pages]) blast
qed

theorem execution_pages_cover_witness:
  "\<exists>all pages. concat pages = map (to_execution_response (\<lambda>t. ''now'')) all \<and> length pages = 2 \<and>
     mset all = mset (map snd (ms_executions (ew_store (sample_world ExPending))))"
  using execution_pages_cover [of 1 "sample_world ExPending" 2 "\<lambda>t. ''now''" "[]"]
  by (simp add: sample_world_def) blast

end
