(* ===== verification/WebHandler.thy ===== *)
theory WebHandler
  imports ApiCore StrTools FrameCache
begin

text \<open>
  frame/pkg/web without parameters and uploads: what becomes a route (register.go, meta.go, options.go,
  routes.go, library.go, with frame/pkg/meta), what a handler answers (handler.go, errors.go), and
  the tables of the server (server.go). A controller is its methods with the types of their
  parameters, as \<open>reflect\<close> shows them; gin is a table of routes and a check that may
  refuse one by a panic. Reading the parameters and running a method are functions of the request.
\<close>

subsection \<open>Status codes\<close>

definition status_ranges :: "(int \<times> int \<times> int) list" where
  "status_ranges = [(40100, 40199, 401), (40300, 40399, 403), (40400, 40499, 404), (40500, 40599, 405),
     (40900, 40999, 409), (42200, 42299, 422), (50100, 50199, 501), (50200, 50299, 502), (50300, 50399, 503),
     (50400, 50499, 504)]"

definition http_status_from_code :: "int \<Rightarrow> int" where
  "http_status_from_code code =
     (case List.find (\<lambda>(from1, to1, st). code \<ge> from1 \<and> code \<le> to1) status_ranges of
        Some (_, _, st) \<Rightarrow> st
      | None \<Rightarrow> if code \<ge> 40000 \<and> code < 50000 then 400
                else if code \<ge> 50000 \<and> code < 60000 then 500 else 400)"

subsection \<open>Struct tags of package meta\<close>

text \<open>A field of a struct: whether its type is named Meta, its tags, whether it is a struct,
  whether it is exported, and the fields of that struct.\<close>

datatype meta_field = MetaField bool "(string, string) gomap" bool bool "meta_field list"

definition meta_tags :: "string list" where
  "meta_tags = [''meta'', ''db'', ''table'', ''orm'', ''json'', ''yaml'', ''path'', ''method'', ''description'', ''group'']"

definition tag_value :: "(string, string) gomap \<Rightarrow> string \<Rightarrow> string" where
  "tag_value tags k = (case gm_get tags k of Some v \<Rightarrow> v | None \<Rightarrow> [])"

definition put_meta_tags :: "(string, string) gomap \<Rightarrow> (string, string) gomap \<Rightarrow> (string, string) gomap" where
  "put_meta_tags tags m = fold (\<lambda>k m1. if tag_value tags k \<noteq> [] then gm_put k (tag_value tags k) m1 else m1) meta_tags m"

text \<open>\<open>Interface\<close> of an unexported field panics; the fields of a value that was passed by a pointer
  are addressable and not entered.\<close>

fun meta_fields :: "bool \<Rightarrow> meta_field list \<Rightarrow> (string, string) gomap \<Rightarrow> (string, string) gomap outcome" where
  "meta_fields addressable [] m = Done m"
| "meta_fields addressable (MetaField is_meta tags is_struct exported inner # fs) m =
     (let m1 = (if is_meta then put_meta_tags tags m else m)
      in if is_struct \<and> \<not> addressable
         then (if \<not> exported then Panic ''cannot return value obtained from unexported field or method''
               else bind_outcome (meta_fields False inner [])
                      (\<lambda>e. meta_fields addressable fs (fold (\<lambda>(k, v) m2. gm_put k v m2) e m1)))
         else meta_fields addressable fs m1)"

definition meta_data :: "bool \<Rightarrow> meta_field list \<Rightarrow> (string, string) gomap outcome" where
  "meta_data by_pointer fs = meta_fields by_pointer fs []"

subsection \<open>Methods of a controller\<close>

text \<open>The parameters after the receiver: \<open>*gin.Context\<close>, \<open>context.Context\<close>, another interface that
  implements it (and whether the context of a request has its type), a struct or a pointer
  to one, anything else.\<close>

datatype arg_type = ArgGin | ArgContext | ArgContextLike bool | ArgStruct bool "meta_field list" | ArgOther

fun implements_context :: "arg_type \<Rightarrow> bool" where
  "implements_context ArgGin = True"
| "implements_context ArgContext = True"
| "implements_context (ArgContextLike b) = True"
| "implements_context _ = False"

record method_sig =
  mg_name :: string
  mg_ins :: "arg_type list"

record method_meta =
  mm_name :: string
  mm_path :: string
  mm_http_method :: string
  mm_description :: string

definition context_args :: "arg_type list \<Rightarrow> nat" where
  "context_args ins = (case ins of a # _ \<Rightarrow> if implements_context a then 1 else 0 | [] \<Rightarrow> 0)"

definition default_meta :: "ucd \<Rightarrow> string \<Rightarrow> method_meta" where
  "default_meta u name = \<lparr>mm_name = name, mm_path = ''/'' @ to_lower u name, mm_http_method = ''GET'', mm_description = []\<rparr>"

definition meta_of_data :: "ucd \<Rightarrow> string \<Rightarrow> (string, string) gomap \<Rightarrow> method_meta" where
  "meta_of_data u name d =
     \<lparr>mm_name = name,
      mm_path = (if tag_value d ''path'' = [] then ''/'' @ to_lower u name else tag_value d ''path''),
      mm_http_method = (if tag_value d ''method'' = [] then ''GET'' else tag_value d ''method''),
      mm_description = tag_value d ''description''\<rparr>"

definition parse_method_meta :: "ucd \<Rightarrow> method_sig \<Rightarrow> method_meta outcome" where
  "parse_method_meta u m =
     (let ins = mg_ins m; k = context_args ins
      in if length ins < k + 1 then Done (default_meta u (mg_name m))
         else (case ins ! k of
                 ArgStruct ptr fs \<Rightarrow> bind_outcome (meta_data False fs) (\<lambda>d. Done (meta_of_data u (mg_name m) d))
               | ArgGin \<Rightarrow> Panic ''cannot return value obtained from unexported field or method''
               | _ \<Rightarrow> Done (default_meta u (mg_name m))))"

definition is_exported :: "string \<Rightarrow> bool" where
  "is_exported name = (case name of [] \<Rightarrow> False | c # _ \<Rightarrow> (of_char c :: nat) \<ge> 65 \<and> (of_char c :: nat) \<le> 90)"

subsection \<open>Answers\<close>

record 'd web_answer =
  wa_status :: int
  wa_code :: int
  wa_message :: string
  wa_data :: "'d option"

text \<open>A result of a method by its declared type: no error type, the interface \<open>error\<close>, or the
  pointer type of the business error, whose nil is an error value that is not nil.\<close>

datatype 'd web_result = WebData 'd | WebErr "goerr option" | WebErrPtr "goerr option"

text \<open>\<open>errors.As\<close>: the first business error in the chain.\<close>

fun as_api :: "goerr \<Rightarrow> (int \<times> string) option" where
  "as_api (ApiErr code msg d c) = Some (code, msg)"
| "as_api (OtherErr t None) = None"
| "as_api (OtherErr t (Some e)) = as_api e"

definition internal_answer :: "'d web_answer" where
  "internal_answer = \<lparr>wa_status = 500, wa_code = 50000, wa_message = ''internal server error'', wa_data = None\<rparr>"

definition success_answer :: "'d option \<Rightarrow> 'd web_answer" where
  "success_answer d = \<lparr>wa_status = 200, wa_code = 10000, wa_message = ''success'', wa_data = d\<rparr>"

definition error_answer :: "goerr \<Rightarrow> 'd web_answer" where
  "error_answer e =
     (case as_api e of
        Some (code, msg) \<Rightarrow> \<lparr>wa_status = http_status_from_code code, wa_code = code, wa_message = msg, wa_data = None\<rparr>
      | None \<Rightarrow> internal_answer)"

fun declared_error :: "'d web_result \<Rightarrow> bool" where
  "declared_error (WebData d) = False"
| "declared_error _ = True"

definition plain_answer :: "'d web_result list \<Rightarrow> 'd web_result web_answer" where
  "plain_answer rs =
     (if length rs > 1 then success_answer (Some (hd rs))
      else if length rs = 1 \<and> \<not> declared_error (last rs) then success_answer (Some (hd rs))
      else success_answer None)"

definition answer_of_results :: "'d web_result list \<Rightarrow> 'd web_result web_answer outcome" where
  "answer_of_results rs =
     (if rs = [] then Done (success_answer None)
      else (case last rs of
              WebErr (Some e) \<Rightarrow> Done (error_answer e)
            | WebErrPtr (Some e) \<Rightarrow> Done (error_answer e)
            | WebErrPtr None \<Rightarrow> Panic ''invalid memory address or nil pointer dereference''
            | _ \<Rightarrow> Done (plain_answer rs)))"

text \<open>What a run of the method leaves: its results or a panic, what it wrote itself through
  gin, and whether it aborted the request.\<close>

record 'd method_run =
  mr_results :: "'d web_result list"
  mr_panic :: "string option"
  mr_writes :: "'d web_result web_answer list"
  mr_aborted :: bool

text \<open>\<open>Call\<close> takes as many arguments as the method has parameters, of their types; the parsed
  parameters are always a pointer.\<close>

definition callable :: "arg_type list \<Rightarrow> bool" where
  "callable ins =
     (let rest = drop (context_args ins) ins
      in (context_args ins = 1 \<longrightarrow> hd ins \<noteq> ArgContextLike False) \<and>
         (case rest of [] \<Rightarrow> True | [ArgStruct ptr fs] \<Rightarrow> ptr | _ \<Rightarrow> False))"

definition parse_argument :: "('req \<Rightarrow> (string + 'p) outcome) \<Rightarrow> arg_type \<Rightarrow> 'req \<Rightarrow> (string + 'p) outcome" where
  "parse_argument parse a req =
     (case a of
        ArgStruct ptr fs \<Rightarrow> parse req
      | ArgGin \<Rightarrow> parse req
      | _ \<Rightarrow> Done (Inl ''parameter must be a struct or pointer to struct''))"

definition run_method :: "arg_type list \<Rightarrow> 'd method_run \<Rightarrow> 'd web_result web_answer list" where
  "run_method ins r =
     (if \<not> callable ins then [internal_answer]
      else mr_writes r @
        (if mr_panic r \<noteq> None then [internal_answer]
         else if mr_aborted r then []
         else (case answer_of_results (mr_results r) of Done a \<Rightarrow> [a] | _ \<Rightarrow> [internal_answer])))"

text \<open>Everything a handler writes on a request. A parser that blocks keeps the request.\<close>

definition web_handler :: "method_sig \<Rightarrow> ('req \<Rightarrow> (string + 'p) outcome) \<Rightarrow> ('req \<Rightarrow> 'p option \<Rightarrow> 'd method_run) \<Rightarrow>
    'req \<Rightarrow> 'd web_result web_answer list" where
  "web_handler m parse run req =
     (let ins = mg_ins m; k = context_args ins
      in if length ins > k
         then (case parse_argument parse (ins ! k) req of
                 Done (Inl e) \<Rightarrow> [\<lparr>wa_status = 400, wa_code = 40000, wa_message = e, wa_data = None\<rparr>]
               | Done (Inr p) \<Rightarrow> run_method ins (run req (Some p))
               | Panic msg \<Rightarrow> [internal_answer]
               | Blocked \<Rightarrow> [])
         else run_method ins (run req None))"

subsection \<open>Registration\<close>

record 'm register_options =
  ro_prefix :: string
  ro_method_paths :: "(string, string) gomap"
  ro_method_http :: "(string, string) gomap"
  ro_method_mws :: "(string, 'm list) gomap"
  ro_controller_mws :: "'m list"

datatype 'm register_option = WithPrefix string | WithMethodPath string string | WithMethodHTTPMethod string string
  | WithMethodMiddleware string "'m list" | WithControllerMiddleware "'m list"

definition no_options :: "'m register_options" where
  "no_options = \<lparr>ro_prefix = [], ro_method_paths = [], ro_method_http = [], ro_method_mws = [], ro_controller_mws = []\<rparr>"

definition method_mws :: "'m register_options \<Rightarrow> string \<Rightarrow> 'm list" where
  "method_mws ro name = (case gm_get (ro_method_mws ro) name of Some mws \<Rightarrow> mws | None \<Rightarrow> [])"

fun apply_option :: "'m register_option \<Rightarrow> 'm register_options \<Rightarrow> 'm register_options" where
  "apply_option (WithPrefix p) ro = ro\<lparr>ro_prefix := p\<rparr>"
| "apply_option (WithMethodPath m p) ro = ro\<lparr>ro_method_paths := gm_put m p (ro_method_paths ro)\<rparr>"
| "apply_option (WithMethodHTTPMethod m h) ro = ro\<lparr>ro_method_http := gm_put m h (ro_method_http ro)\<rparr>"
| "apply_option (WithMethodMiddleware m mws) ro =
     ro\<lparr>ro_method_mws := gm_put m (method_mws ro m @ mws) (ro_method_mws ro)\<rparr>"
| "apply_option (WithControllerMiddleware mws) ro = ro\<lparr>ro_controller_mws := ro_controller_mws ro @ mws\<rparr>"

definition options_of :: "'m register_option list \<Rightarrow> 'm register_options" where
  "options_of opts = fold apply_option opts no_options"

record route_info =
  ri_method :: string
  ri_path :: string
  ri_description :: string
  ri_handler :: string

definition join_path :: "string \<Rightarrow> string \<Rightarrow> string" where
  "join_path grp path =
     rev (dropWhile (\<lambda>c. c = CHR ''/'') (rev grp)) @ (if has_prefix path ''/'' then path else ''/'' @ path)"

text \<open>A position in gin's tree of groups, and a route as it is handed to gin.\<close>

record 'm router =
  rt_groups :: "string list"
  rt_mws :: "'m list"

record 'm gin_route =
  gr_method :: string
  gr_groups :: "string list"
  gr_path :: string
  gr_mws :: "'m list"
  gr_handler :: string

type_synonym 'm gin_check = "'m gin_route list \<Rightarrow> 'm gin_route \<Rightarrow> string option"

definition router_group :: "string \<Rightarrow> 'm list \<Rightarrow> 'm router \<Rightarrow> 'm router" where
  "router_group path mws r = \<lparr>rt_groups = rt_groups r @ [path], rt_mws = rt_mws r @ mws\<rparr>"

record controller =
  ct_fields :: "meta_field list option"
  ct_methods :: "method_sig list"

fun first_is_meta :: "meta_field list \<Rightarrow> bool" where
  "first_is_meta [] = False"
| "first_is_meta (MetaField is_meta tags st ex inner # fs) = (is_meta \<or> first_is_meta fs)"

definition get_group_path :: "controller \<Rightarrow> string outcome" where
  "get_group_path c =
     (case ct_fields c of
        None \<Rightarrow> Done []
      | Some fs \<Rightarrow> if first_is_meta fs then bind_outcome (meta_data False fs) (\<lambda>d. Done (tag_value d ''path'')) else Done [])"

definition http_verbs :: "string list" where
  "http_verbs = [''GET'', ''POST'', ''PUT'', ''DELETE'', ''PATCH'', ''OPTIONS'', ''HEAD'']"

definition override :: "(string, string) gomap \<Rightarrow> string \<Rightarrow> string \<Rightarrow> string" where
  "override m name dflt = (case gm_get m name of Some v \<Rightarrow> if v \<noteq> [] then v else dflt | None \<Rightarrow> dflt)"

fun register_methods :: "ucd \<Rightarrow> 'm gin_check \<Rightarrow> 'm register_options \<Rightarrow> 'm router \<Rightarrow> string \<Rightarrow> method_sig list \<Rightarrow>
    route_info list \<Rightarrow> 'm gin_route list \<Rightarrow> (gerr + route_info list) outcome \<times> 'm gin_route list" where
  "register_methods u chk ro r grp [] acc tab = (Done (Inr acc), tab)"
| "register_methods u chk ro r grp (m # ms) acc tab =
     (if \<not> is_exported (mg_name m) then register_methods u chk ro r grp ms acc tab
      else (case parse_method_meta u m of
              Panic p \<Rightarrow> (Panic p, tab)
            | Blocked \<Rightarrow> (Blocked, tab)
            | Done mm \<Rightarrow>
                if mm_http_method mm = [] then register_methods u chk ro r grp ms acc tab
                else
                  let path = override (ro_method_paths ro) (mg_name m) (mm_path mm);
                      http = override (ro_method_http ro) (mg_name m) (mm_http_method mm);
                      route = \<lparr>gr_method = to_upper u http, gr_groups = rt_groups r, gr_path = path,
                               gr_mws = rt_mws r @ method_mws ro (mg_name m), gr_handler = mg_name m\<rparr>
                  in if to_upper u http \<notin> set http_verbs
                     then (Done (Inl (ErrMsg (''unsupported HTTP method: '' @ http))), tab)
                     else (case chk tab route of
                             Some p \<Rightarrow> (Panic p, tab)
                           | None \<Rightarrow> register_methods u chk ro r grp ms
                               (acc @ [\<lparr>ri_method = to_upper u http, ri_path = join_path grp path,
                                        ri_description = mm_description mm, ri_handler = mg_name m\<rparr>])
                               (tab @ [route]))))"

definition register_handlers :: "ucd \<Rightarrow> 'm gin_check \<Rightarrow> 'm router \<Rightarrow> controller \<Rightarrow> 'm register_option list \<Rightarrow>
    'm gin_route list \<Rightarrow> (gerr + route_info list) outcome \<times> 'm gin_route list" where
  "register_handlers u chk r c opts tab =
     (case get_group_path c of
        Panic p \<Rightarrow> (Panic p, tab)
      | Blocked \<Rightarrow> (Blocked, tab)
      | Done g0 \<Rightarrow>
          let ro = options_of opts;
              g = (if ro_prefix ro \<noteq> [] then join_path (ro_prefix ro) g0 else g0);
              r1 = (if g \<noteq> [] then router_group g [] r else r);
              r2 = (if length (ro_controller_mws ro) > 0 then router_group [] (ro_controller_mws ro) r1 else r1)
          in register_methods u chk ro r2 g (ct_methods c) [] tab)"

text \<open>\<open>RegisterHandlers\<close> for a router or a controller that may be nil.\<close>

definition register_handlers_checked :: "ucd \<Rightarrow> 'm gin_check \<Rightarrow> 'm router option \<Rightarrow> controller option \<Rightarrow> 'm register_option list \<Rightarrow>
    'm gin_route list \<Rightarrow> (gerr + route_info list) outcome \<times> 'm gin_route list" where
  "register_handlers_checked u chk r c opts tab =
     (case r of None \<Rightarrow> (Done (Inl (ErrMsg ''web: router must not be nil'')), tab)
      | Some r1 \<Rightarrow> (case c of None \<Rightarrow> (Done (Inl (ErrMsg ''web: controller instance must not be nil'')), tab)
          | Some c1 \<Rightarrow> register_handlers u chk r1 c1 opts tab))"

subsection \<open>The server\<close>

record 'm server =
  sv_table :: "'m gin_route list"
  sv_routes :: "route_info list"
  sv_controllers :: "(controller \<times> route_info list) list"

definition root_router :: "'m router" where
  "root_router = \<lparr>rt_groups = [], rt_mws = []\<rparr>"

definition add_routes :: "route_info list \<Rightarrow> 'm server \<Rightarrow> 'm server" where
  "add_routes rs s = s\<lparr>sv_routes := sv_routes s @ rs\<rparr>"

definition all_routes :: "'m server \<Rightarrow> route_info list" where
  "all_routes s = sv_routes s"

text \<open>\<open>RegisterHandler\<close> of the server and of a group differ in the router.\<close>

definition register_at :: "ucd \<Rightarrow> 'm gin_check \<Rightarrow> 'm router \<Rightarrow> controller \<Rightarrow> 'm register_option list \<Rightarrow> 'm server \<Rightarrow>
    gerr option outcome \<times> 'm server" where
  "register_at u chk r c opts s =
     (case register_handlers u chk r c opts (sv_table s) of
        (Done (Inl e), tab) \<Rightarrow> (Done (Some e), s\<lparr>sv_table := tab\<rparr>)
      | (Done (Inr rs), tab) \<Rightarrow>
          (Done None, (add_routes rs (s\<lparr>sv_table := tab\<rparr>))\<lparr>sv_controllers := sv_controllers s @ [(c, rs)]\<rparr>)
      | (Panic p, tab) \<Rightarrow> (Panic p, s\<lparr>sv_table := tab\<rparr>)
      | (Blocked, tab) \<Rightarrow> (Blocked, s\<lparr>sv_table := tab\<rparr>))"

definition register_handler :: "ucd \<Rightarrow> 'm gin_check \<Rightarrow> controller \<Rightarrow> 'm register_option list \<Rightarrow> 'm server \<Rightarrow>
    gerr option outcome \<times> 'm server" where
  "register_handler u chk = register_at u chk root_router"

definition server_group :: "string \<Rightarrow> 'm list \<Rightarrow> 'm router" where
  "server_group path mws = router_group path mws root_router"

definition group_register_handler :: "ucd \<Rightarrow> 'm gin_check \<Rightarrow> 'm router \<Rightarrow> controller \<Rightarrow> 'm register_option list \<Rightarrow> 'm server \<Rightarrow>
    gerr option outcome \<times> 'm server" where
  "group_register_handler = register_at"

subsection \<open>Libraries with resources of their own\<close>

datatype 'm library_option = LibScope scope | LibOptions "'m register_option list"

fun apply_library_option :: "'m library_option \<Rightarrow> scope \<times> 'm register_option list \<Rightarrow> scope \<times> 'm register_option list" where
  "apply_library_option (LibScope s) (sc, opts) = (s, opts)"
| "apply_library_option (LibOptions os) (sc, opts) = (sc, opts @ os)"

record named_resources =
  nr_config :: "string \<Rightarrow> bool"
  nr_db :: "string \<Rightarrow> bool"
  nr_cache :: "string \<Rightarrow> bool"

definition missing_text :: "(string \<Rightarrow> string) \<Rightarrow> string \<Rightarrow> string \<Rightarrow> string \<Rightarrow> string \<Rightarrow> gerr" where
  "missing_text quote sname kind name init =
     ErrMsg (''resource scope '' @ quote sname @ '': named '' @ kind @ '' '' @ quote name @ '' not registered ('' @ init @ '')'')"

definition validate_scope :: "(string \<Rightarrow> string) \<Rightarrow> named_resources \<Rightarrow> scope \<Rightarrow> gerr option" where
  "validate_scope quote nr sc =
     (if sc_config sc \<noteq> [] \<and> \<not> nr_config nr (sc_config sc)
      then Some (missing_text quote (sc_name sc) ''config'' (sc_config sc) ''config.InitNamedConfig'')
      else if sc_db sc \<noteq> [] \<and> \<not> nr_db nr (sc_db sc)
      then Some (missing_text quote (sc_name sc) ''db'' (sc_db sc) ''db.InitNamedDB'')
      else if sc_cache sc \<noteq> [] \<and> \<not> nr_cache nr (sc_cache sc)
      then Some (missing_text quote (sc_name sc) ''cache'' (sc_cache sc) ''cache.InitNamedCache'')
      else None)"

definition library_options :: "(scope \<Rightarrow> 'm) \<Rightarrow> 'm library_option list \<Rightarrow> scope \<times> 'm register_option list" where
  "library_options smw opts =
     (let (sc, ro) = fold apply_library_option opts (\<lparr>sc_name = [], sc_config = [], sc_db = [], sc_cache = []\<rparr>, [])
      in (sc, ro @ (if \<not> scope_empty sc then [WithControllerMiddleware [smw sc]] else [])))"

definition register_library :: "ucd \<Rightarrow> 'm gin_check \<Rightarrow> (string \<Rightarrow> string) \<Rightarrow> named_resources \<Rightarrow> (scope \<Rightarrow> 'm) \<Rightarrow> controller \<Rightarrow>
    'm library_option list \<Rightarrow> 'm server \<Rightarrow> gerr option outcome \<times> 'm server" where
  "register_library u chk quote nr smw c opts s =
     (let (sc, ro) = library_options smw opts
      in case validate_scope quote nr sc of
           Some e \<Rightarrow> (Done (Some e), s)
         | None \<Rightarrow> register_handler u chk c ro s)"

subsection \<open>What a handler answers\<close>

lemma status_exact:
  "http_status_from_code code =
     (if code div 100 \<in> {401, 403, 404, 405, 409, 422, 501, 502, 503, 504} then code div 100
      else if 50000 \<le> code \<and> code < 60000 then 500 else 400)"
proof -
  have band: "code \<ge> 100 * k \<and> code \<le> 100 * k + 99 \<longleftrightarrow> code div 100 = k" for k :: int by auto
  show ?thesis
    using band [of 401] band [of 403] band [of 404] band [of 405] band [of 409] band [of 422] band [of 501]
      band [of 502] band [of 503] band [of 504]
    by (auto simp: http_status_from_code_def status_ranges_def)
qed

lemma status_range: "400 \<le> http_status_from_code code \<and> http_status_from_code code < 600"
  by (auto simp: status_exact)

definition accepted_argument :: "method_sig \<Rightarrow> ('req \<Rightarrow> (string + 'p) outcome) \<Rightarrow> 'req \<Rightarrow> 'p option option" where
  "accepted_argument m parse req =
     (let ins = mg_ins m; k = context_args ins
      in if length ins > k
         then (case parse_argument parse (ins ! k) req of Done (Inr p) \<Rightarrow> Some (Some p) | _ \<Rightarrow> None)
         else Some None)"

definition failed_run :: "'d method_run \<Rightarrow> bool" where
  "failed_run r \<longleftrightarrow> mr_panic r \<noteq> None \<or>
     (mr_results r \<noteq> [] \<and> (last (mr_results r) = WebErrPtr None \<or> (\<exists>e. last (mr_results r) \<in> {WebErr (Some e), WebErrPtr (Some e)})))"

definition error_shape :: "'d web_answer \<Rightarrow> bool" where
  "error_shape a \<longleftrightarrow> 400 \<le> wa_status a \<and> wa_status a < 600 \<and> wa_data a = None"

lemma error_answer_shape: "error_shape (error_answer e)"
  using status_range by (auto simp: error_answer_def error_shape_def internal_answer_def split: option.split)

lemma answer_of_results_cases:
  "(\<exists>a. answer_of_results rs = Done a \<and> wa_status a = 200 \<and> wa_code a = 10000 \<and>
      \<not> (rs \<noteq> [] \<and> (last rs = WebErrPtr None \<or> (\<exists>e. last rs \<in> {WebErr (Some e), WebErrPtr (Some e)})))) \<or>
   (\<exists>e. answer_of_results rs = Done (error_answer e) \<and> rs \<noteq> [] \<and> last rs \<in> {WebErr (Some e), WebErrPtr (Some e)}) \<or>
   (\<exists>p. answer_of_results rs = Panic p \<and> rs \<noteq> [] \<and> last rs = WebErrPtr None)"
proof (cases "rs = []")
  case True
  then show ?thesis by (simp add: answer_of_results_def success_answer_def)
next
  case False
  have plain: "wa_status (plain_answer rs) = 200" "wa_code (plain_answer rs) = 10000"
    by (simp_all add: plain_answer_def success_answer_def)
  show ?thesis
  proof (cases "last rs")
    case (WebData d)
    then show ?thesis using False plain by (simp add: answer_of_results_def)
  next
    case (WebErr e)
    then show ?thesis using False plain by (cases e) (simp_all add: answer_of_results_def)
  next
    case (WebErrPtr e)
    then show ?thesis using False by (cases e) (simp_all add: answer_of_results_def)
  qed
qed

lemma run_method_quiet:
  assumes "mr_writes r = []" "\<not> mr_aborted r"
  shows "\<exists>a. run_method ins r = [a] \<and>
     (if callable ins \<and> \<not> failed_run r then wa_status a = 200 \<and> wa_code a = 10000 else error_shape a) \<and>
     (\<forall>e. callable ins \<and> mr_panic r = None \<and> mr_results r \<noteq> [] \<and> last (mr_results r) \<in> {WebErr (Some e), WebErrPtr (Some e)} \<longrightarrow>
        a = error_answer e)"
proof -
  have int: "error_shape internal_answer" by (simp add: error_shape_def internal_answer_def)
  consider "\<not> callable ins" | "callable ins" "mr_panic r \<noteq> None" | "callable ins" "mr_panic r = None" by blast
  then show ?thesis
  proof cases
    case 3
    from answer_of_results_cases [of "mr_results r"] show ?thesis
    proof (elim disjE exE conjE)
      fix a assume "answer_of_results (mr_results r) = Done a" "wa_status a = 200" "wa_code a = 10000"
        "\<not> (mr_results r \<noteq> [] \<and> (last (mr_results r) = WebErrPtr None \<or>
            (\<exists>e. last (mr_results r) \<in> {WebErr (Some e), WebErrPtr (Some e)})))"
      then show ?thesis using 3 assms by (intro exI [of _ a]) (auto simp: run_method_def failed_run_def)
    next
      fix e assume e: "answer_of_results (mr_results r) = Done (error_answer e)" "mr_results r \<noteq> []"
        "last (mr_results r) \<in> {WebErr (Some e), WebErrPtr (Some e)}"
      then have "failed_run r" by (auto simp: failed_run_def)
      then show ?thesis using 3 assms e error_answer_shape [of e]
        by (intro exI [of _ "error_answer e"]) (auto simp: run_method_def)
    next
      fix p assume p: "answer_of_results (mr_results r) = Panic p" "mr_results r \<noteq> []" "last (mr_results r) = WebErrPtr None"
      then have "failed_run r" by (auto simp: failed_run_def)
      then show ?thesis using 3 assms p int by (intro exI [of _ internal_answer]) (auto simp: run_method_def)
    qed
  qed (use int assms in \<open>auto simp: run_method_def failed_run_def\<close>)
qed

text \<open>C11. One answer for every request: when the method writes nothing by itself and does not
  abort, a handler writes exactly one answer. It is a success (200, code 10000) exactly when the
  parameters were accepted, the method could be called with them, did not panic and returned no
  error, and otherwise a 4xx or 5xx without data. An error of the method shows only the code and
  message of the first business error in its chain, and nothing of an error that has none; a
  panic shows nothing.\<close>

theorem handler_answers_once:
  assumes "parse req \<noteq> Blocked" "\<And>p. mr_writes (run req p) = []" "\<And>p. \<not> mr_aborted (run req p)"
  shows "\<exists>a. web_handler m parse run req = [a] \<and>
     (if callable (mg_ins m) \<and> (\<exists>p. accepted_argument m parse req = Some p \<and> \<not> failed_run (run req p))
      then wa_status a = 200 \<and> wa_code a = 10000 else error_shape a) \<and>
     (\<forall>p e. callable (mg_ins m) \<and> accepted_argument m parse req = Some p \<and> mr_panic (run req p) = None \<and>
        mr_results (run req p) \<noteq> [] \<and> last (mr_results (run req p)) \<in> {WebErr (Some e), WebErrPtr (Some e)} \<longrightarrow>
        a = (case as_api e of
               Some (code, msg) \<Rightarrow> \<lparr>wa_status = http_status_from_code code, wa_code = code, wa_message = msg, wa_data = None\<rparr>
             | None \<Rightarrow> \<lparr>wa_status = 500, wa_code = 50000, wa_message = ''internal server error'', wa_data = None\<rparr>))"
proof (cases "accepted_argument m parse req")
  case None
  let ?k = "context_args (mg_ins m)"
  have k: "length (mg_ins m) > ?k" using None by (auto simp: accepted_argument_def Let_def split: if_splits)
  have nb: "parse_argument parse (mg_ins m ! ?k) req \<noteq> Blocked"
    using assms(1) by (simp add: parse_argument_def split: arg_type.split)
  have "\<exists>a. web_handler m parse run req = [a] \<and> error_shape a"
  proof (cases "parse_argument parse (mg_ins m ! ?k) req")
    case (Done x)
    then obtain e where "x = Inl e" using None k by (cases x) (simp_all add: accepted_argument_def Let_def)
    then show ?thesis using Done k by (simp add: web_handler_def Let_def error_shape_def)
  next
    case (Panic p)
    then show ?thesis using k by (simp add: web_handler_def Let_def error_shape_def internal_answer_def)
  next
    case Blocked
    then show ?thesis using nb by simp
  qed
  then show ?thesis using None by auto
next
  case (Some p)
  have "web_handler m parse run req = run_method (mg_ins m) (run req p)"
  proof (cases "length (mg_ins m) > context_args (mg_ins m)")
    case True
    then obtain q where "parse_argument parse (mg_ins m ! context_args (mg_ins m)) req = Done (Inr q)" "p = Some q"
      using Some by (auto simp: accepted_argument_def Let_def split: outcome.splits sum.splits)
    then show ?thesis using True by (simp add: web_handler_def Let_def)
  next
    case False
    then show ?thesis using Some by (simp add: web_handler_def accepted_argument_def Let_def)
  qed
  then show ?thesis
    using run_method_quiet [of "run req p" "mg_ins m", OF assms(2,3)] Some
    unfolding error_answer_def internal_answer_def by auto
qed

definition login_method :: method_sig where
  "login_method = \<lparr>mg_name = ''Login'',
     mg_ins = [ArgContext, ArgStruct True [MetaField True [(''path'', ''/login''), (''method'', ''post'')] True True []]]\<rparr>"

theorem handler_answers_once_witness:
  "web_handler login_method (\<lambda>req. Done (Inr ()))
     (\<lambda>req p. \<lparr>mr_results = [WebData (), WebErr (Some (OtherErr ''wrap'' (Some (ApiErr 40101 ''no'' None None))))],
        mr_panic = None, mr_writes = [], mr_aborted = False\<rparr>) () =
     [\<lparr>wa_status = 401, wa_code = 40101, wa_message = ''no'', wa_data = None\<rparr>]"
proof -
  let ?e = "OtherErr ''wrap'' (Some (ApiErr 40101 ''no'' None None))"
  let ?run = "\<lambda>(req :: unit) (p :: unit option). \<lparr>mr_results = [WebData (), WebErr (Some ?e)],
        mr_panic = None, mr_writes = [], mr_aborted = False\<rparr>"
  have c: "callable (mg_ins login_method)" "accepted_argument login_method (\<lambda>req. Done (Inr ())) () = Some (Some ())"
    by (simp_all add: login_method_def callable_def context_args_def accepted_argument_def parse_argument_def)
  obtain a where "web_handler login_method (\<lambda>req. Done (Inr ())) ?run () = [a]"
    "a = (case as_api ?e of
       Some (code, msg) \<Rightarrow> \<lparr>wa_status = http_status_from_code code, wa_code = code, wa_message = msg, wa_data = None\<rparr>
     | None \<Rightarrow> \<lparr>wa_status = 500, wa_code = 50000, wa_message = ''internal server error'', wa_data = None\<rparr>)"
    using handler_answers_once [of "\<lambda>req. Done (Inr ())" "()" ?run login_method] c by auto
  then show ?thesis by (simp add: status_exact)
qed

text \<open>A struct parameter by value is accepted when the route is made, and panics on every call.\<close>

lemma value_parameter_panics:
  "mg_ins m = [ArgStruct False fs] \<Longrightarrow> parse req = Done (Inr p) \<Longrightarrow> web_handler m parse run req = [internal_answer]"
  by (simp add: web_handler_def context_args_def parse_argument_def run_method_def callable_def)

text \<open>A method that declares \<open>*core.Error\<close> and returns nil answers an internal error.\<close>

lemma nil_error_pointer_fails:
  "callable ins \<Longrightarrow> mr_results r = [WebErrPtr None] \<Longrightarrow> mr_panic r = None \<Longrightarrow> mr_writes r = [] \<Longrightarrow> \<not> mr_aborted r \<Longrightarrow>
     run_method ins r = [internal_answer]"
  by (simp add: run_method_def answer_of_results_def)

subsection \<open>What becomes a route\<close>

lemma parse_method_meta_method: "parse_method_meta u m = Done mm \<Longrightarrow> mm_http_method mm \<noteq> []"
  by (auto simp: parse_method_meta_def default_meta_def meta_of_data_def bind_outcome_Done_iff Let_def
      split: if_splits arg_type.splits)

definition meta_or_default :: "ucd \<Rightarrow> method_sig \<Rightarrow> method_meta" where
  "meta_or_default u m = (case parse_method_meta u m of Done mm \<Rightarrow> mm | _ \<Rightarrow> default_meta u (mg_name m))"

definition planned_route :: "ucd \<Rightarrow> 'm register_options \<Rightarrow> 'm router \<Rightarrow> method_sig \<Rightarrow> 'm gin_route" where
  "planned_route u ro r m =
     \<lparr>gr_method = to_upper u (override (ro_method_http ro) (mg_name m) (mm_http_method (meta_or_default u m))),
      gr_groups = rt_groups r,
      gr_path = override (ro_method_paths ro) (mg_name m) (mm_path (meta_or_default u m)),
      gr_mws = rt_mws r @ method_mws ro (mg_name m), gr_handler = mg_name m\<rparr>"

definition planned_info :: "ucd \<Rightarrow> 'm register_options \<Rightarrow> string \<Rightarrow> 'm router \<Rightarrow> method_sig \<Rightarrow> route_info" where
  "planned_info u ro grp r m =
     \<lparr>ri_method = gr_method (planned_route u ro r m), ri_path = join_path grp (gr_path (planned_route u ro r m)),
      ri_description = mm_description (meta_or_default u m), ri_handler = mg_name m\<rparr>"

definition exported_methods :: "method_sig list \<Rightarrow> method_sig list" where
  "exported_methods ms = filter (\<lambda>m. is_exported (mg_name m)) ms"

lemma register_methods_exact:
  "register_methods u chk ro r grp ms acc tab = (Done (Inr out), tab') \<Longrightarrow>
     out = acc @ map (planned_info u ro grp r) (exported_methods ms) \<and>
     tab' = tab @ map (planned_route u ro r) (exported_methods ms) \<and>
     (\<forall>m \<in> set (exported_methods ms). gr_method (planned_route u ro r m) \<in> set http_verbs)"
proof (induction ms arbitrary: acc tab)
  case Nil
  then show ?case by (simp add: exported_methods_def)
next
  case (Cons m ms)
  show ?case
  proof (cases "is_exported (mg_name m)")
    case False
    then show ?thesis using Cons.IH [of acc tab] Cons.prems by (simp add: exported_methods_def)
  next
    case True
    obtain mm where mm: "parse_method_meta u m = Done mm"
      using Cons.prems True by (cases "parse_method_meta u m") simp_all
    note ne = parse_method_meta_method [OF mm]
    have md: "meta_or_default u m = mm" by (simp add: meta_or_default_def mm)
    have route: "\<lparr>gr_method = to_upper u (override (ro_method_http ro) (mg_name m) (mm_http_method mm)),
        gr_groups = rt_groups r, gr_path = override (ro_method_paths ro) (mg_name m) (mm_path mm),
        gr_mws = rt_mws r @ method_mws ro (mg_name m), gr_handler = mg_name m\<rparr> = planned_route u ro r m"
      by (simp add: planned_route_def md)
    have verb: "gr_method (planned_route u ro r m) \<in> set http_verbs"
      using Cons.prems True mm ne by (auto simp: Let_def planned_route_def md split: if_splits)
    then have up: "to_upper u (override (ro_method_http ro) (mg_name m) (mm_http_method mm)) \<in> set http_verbs"
      by (simp add: planned_route_def md)
    have free: "chk tab (planned_route u ro r m) = None"
      using Cons.prems True mm ne up by (cases "chk tab (planned_route u ro r m)") (simp_all add: Let_def route)
    have info: "\<lparr>ri_method = to_upper u (override (ro_method_http ro) (mg_name m) (mm_http_method mm)),
        ri_path = join_path grp (override (ro_method_paths ro) (mg_name m) (mm_path mm)),
        ri_description = mm_description mm, ri_handler = mg_name m\<rparr> = planned_info u ro grp r m"
      by (simp add: planned_info_def planned_route_def md)
    have "register_methods u chk ro r grp ms (acc @ [planned_info u ro grp r m]) (tab @ [planned_route u ro r m]) =
        (Done (Inr out), tab')"
      using Cons.prems True mm ne up free by (simp add: Let_def route info)
    from Cons.IH [OF this] show ?thesis using True verb by (auto simp: exported_methods_def)
  qed
qed

fun controller_part :: "'m register_option \<Rightarrow> 'm list" where
  "controller_part (WithControllerMiddleware mws) = mws"
| "controller_part _ = []"

fun method_part :: "string \<Rightarrow> 'm register_option \<Rightarrow> 'm list" where
  "method_part n (WithMethodMiddleware m mws) = (if m = n then mws else [])"
| "method_part n _ = []"

lemma apply_option_parts:
  "ro_controller_mws (apply_option opt ro) = ro_controller_mws ro @ controller_part opt"
  "method_mws (apply_option opt ro) n = method_mws ro n @ method_part n opt"
  by (cases opt; simp add: method_mws_def)+

lemma fold_option_parts:
  "ro_controller_mws (fold apply_option opts ro) = ro_controller_mws ro @ concat (map controller_part opts)"
  "method_mws (fold apply_option opts ro) n = method_mws ro n @ concat (map (method_part n) opts)"
  by (induction opts arbitrary: ro) (simp_all add: apply_option_parts)

lemma options_of_parts:
  "ro_controller_mws (options_of opts) = concat (map controller_part opts)"
  "method_mws (options_of opts) n = concat (map (method_part n) opts)"
  by (simp_all add: options_of_def fold_option_parts) (simp_all add: no_options_def method_mws_def)

lemma planned_route_simps [simp]:
  "gr_handler (planned_route u ro r m) = mg_name m"
  "gr_mws (planned_route u ro r m) = rt_mws r @ method_mws ro (mg_name m)"
  "ri_handler (planned_info u ro grp r m) = mg_name m"
  "ri_method (planned_info u ro grp r m) = gr_method (planned_route u ro r m)"
  "ri_path (planned_info u ro grp r m) = join_path grp (gr_path (planned_route u ro r m))"
  by (simp_all add: planned_route_def planned_info_def)

text \<open>The routes a successful registration adds, and what it lists.\<close>

lemma register_handlers_exact:
  assumes "register_handlers u chk r c opts tab = (Done (Inr rs), tab')"
  shows "\<exists>g0 new. get_group_path c = Done g0 \<and> tab' = tab @ new \<and>
     map gr_handler new = map mg_name (exported_methods (ct_methods c)) \<and>
     (\<forall>x \<in> set new. gr_method x \<in> set http_verbs \<and>
        gr_mws x = rt_mws r @ concat (map controller_part opts) @ concat (map (method_part (gr_handler x)) opts)) \<and>
     map ri_handler rs = map gr_handler new \<and> map ri_method rs = map gr_method new \<and>
     map ri_path rs = map (\<lambda>x. join_path
        (if ro_prefix (options_of opts) \<noteq> [] then join_path (ro_prefix (options_of opts)) g0 else g0) (gr_path x)) new"
proof -
  obtain g0 where g0: "get_group_path c = Done g0"
    using assms by (cases "get_group_path c") (simp_all add: register_handlers_def)
  let ?ro = "options_of opts"
  let ?g = "if ro_prefix ?ro \<noteq> [] then join_path (ro_prefix ?ro) g0 else g0"
  let ?r1 = "if ?g \<noteq> [] then router_group ?g [] r else r"
  let ?r2 = "if length (ro_controller_mws ?ro) > 0 then router_group [] (ro_controller_mws ?ro) ?r1 else ?r1"
  have mws: "rt_mws ?r2 = rt_mws r @ concat (map controller_part opts)"
    by (auto simp: router_group_def simp flip: options_of_parts(1))
  have "register_methods u chk ?ro ?r2 ?g (ct_methods c) [] tab = (Done (Inr rs), tab')"
    using assms by (simp add: register_handlers_def g0 Let_def)
  note exact = register_methods_exact [OF this]
  show ?thesis
    using g0 exact mws
    by (intro exI [of _ g0] exI [of _ "map (planned_route u ?ro ?r2) (exported_methods (ct_methods c))"])
      (auto simp: comp_def options_of_parts(2))
qed

lemma register_at_Done:
  assumes "register_at u chk r c opts s = (Done None, s')"
  obtains rs where "register_handlers u chk r c opts (sv_table s) = (Done (Inr rs), sv_table s')"
    "sv_routes s' = sv_routes s @ rs"
  using assms by (auto simp: register_at_def add_routes_def split: prod.splits outcome.splits sum.splits)

text \<open>C36. A registration that succeeds registers exactly the exported methods, in their order: for
  each there is one route, under a known verb, whose chain is the middlewares of the router, those
  of the controller in the order of the options, those of the method in the order of the options,
  and the method; the server lists the same routes with the prefix and the group before the path.\<close>

theorem registration_exact:
  assumes "register_at u chk r c opts s = (Done None, s')"
  shows "\<exists>g0 new infos. get_group_path c = Done g0 \<and> sv_table s' = sv_table s @ new \<and> sv_routes s' = sv_routes s @ infos \<and>
     map gr_handler new = map mg_name (exported_methods (ct_methods c)) \<and>
     (\<forall>x \<in> set new. gr_method x \<in> set http_verbs \<and>
        gr_mws x = rt_mws r @ concat (map controller_part opts) @ concat (map (method_part (gr_handler x)) opts)) \<and>
     map ri_handler infos = map gr_handler new \<and> map ri_method infos = map gr_method new \<and>
     map ri_path infos = map (\<lambda>x. join_path
        (if ro_prefix (options_of opts) \<noteq> [] then join_path (ro_prefix (options_of opts)) g0 else g0) (gr_path x)) new"
proof -
  obtain rs where "register_handlers u chk r c opts (sv_table s) = (Done (Inr rs), sv_table s')"
      "sv_routes s' = sv_routes s @ rs"
    using register_at_Done [OF assms] by blast
  with register_handlers_exact [OF this(1)] show ?thesis by blast
qed

definition sample_controller :: controller where
  "sample_controller = \<lparr>ct_fields = Some [MetaField True [(''path'', ''/user'')] True True []],
     ct_methods = [login_method, \<lparr>mg_name = ''helper'', mg_ins = []\<rparr>]\<rparr>"

theorem registration_exact_witness:
  "\<exists>s'. register_at ascii_ucd (\<lambda>tab x. None) root_router sample_controller
       [WithControllerMiddleware [1], WithMethodMiddleware ''Login'' [2], WithControllerMiddleware [3 :: nat]]
       \<lparr>sv_table = [], sv_routes = [], sv_controllers = []\<rparr> = (Done None, s') \<and>
     map gr_mws (sv_table s') = [[1, 3, 2]]"
proof -
  let ?opts = "[WithControllerMiddleware [1], WithMethodMiddleware ''Login'' [2], WithControllerMiddleware [3 :: nat]]"
  let ?s = "\<lparr>sv_table = [], sv_routes = [], sv_controllers = []\<rparr> :: nat server"
  have up: "to_upper ascii_ucd ''post'' = ''POST''" by code_simp
  obtain s' where s': "register_at ascii_ucd (\<lambda>tab x. None) root_router sample_controller ?opts ?s = (Done None, s')"
    by (simp add: register_at_def register_handlers_def get_group_path_def sample_controller_def login_method_def
        meta_data_def put_meta_tags_def meta_tags_def tag_value_def is_exported_def parse_method_meta_def
        context_args_def meta_of_data_def override_def options_of_def no_options_def up http_verbs_def Let_def)
  from registration_exact [OF this] obtain new where new: "sv_table s' = new"
    "map gr_handler new = map mg_name (exported_methods (ct_methods sample_controller))"
    "\<forall>x \<in> set new. gr_mws x = rt_mws root_router @ concat (map controller_part ?opts) @
       concat (map (method_part (gr_handler x)) ?opts)"
    by auto
  have "map gr_handler new = [''Login'']"
    using new(2) by (simp add: exported_methods_def sample_controller_def login_method_def is_exported_def)
  then obtain x where x: "new = [x]" "gr_handler x = ''Login''" by (auto simp: map_eq_Cons_conv)
  then have "gr_mws x = [1, 3, 2]" using new(3) by (simp add: root_router_def)
  then show ?thesis using s' new(1) x by simp
qed

text \<open>A verb that is not known stops a registration in the middle: the routes made before stay in
  gin's table, and the server does not list them.\<close>

lemma failed_registration_keeps_routes:
  assumes "register_methods u chk ro r grp ms acc tab = (out, tab')"
  shows "\<exists>new. tab' = tab @ new"
  using assms
proof (induction ms arbitrary: acc tab)
  case (Cons m ms)
  show ?case
  proof (cases "is_exported (mg_name m)")
    case False
    then show ?thesis using Cons by simp
  next
    case True
    show ?thesis
    proof (cases "parse_method_meta u m")
      case (Done mm)
      note ne = parse_method_meta_method [OF Done]
      let ?http = "override (ro_method_http ro) (mg_name m) (mm_http_method mm)"
      show ?thesis
      proof (cases "to_upper u ?http \<in> set http_verbs")
        case False
        then show ?thesis using Cons.prems True Done ne by (simp add: Let_def)
      next
        case verb: True
        let ?route = "\<lparr>gr_method = to_upper u ?http, gr_groups = rt_groups r,
            gr_path = override (ro_method_paths ro) (mg_name m) (mm_path mm),
            gr_mws = rt_mws r @ method_mws ro (mg_name m), gr_handler = mg_name m\<rparr>"
        show ?thesis
        proof (cases "chk tab ?route")
          case None
          then obtain acc1 where "register_methods u chk ro r grp ms acc1 (tab @ [?route]) = (out, tab')"
            using Cons.prems True Done ne verb by (simp add: Let_def)
          from Cons.IH [OF this] show ?thesis by auto
        next
          case (Some p)
          then show ?thesis using Cons.prems True Done ne verb by (simp add: Let_def)
        qed
      qed
    qed (use Cons.prems True in simp_all)
  qed
qed simp

lemma failed_registration_lists_nothing:
  "register_at u chk r c opts s = (Done (Some e), s') \<Longrightarrow>
     sv_routes s' = sv_routes s \<and> sv_controllers s' = sv_controllers s"
  by (auto simp: register_at_def add_routes_def split: prod.splits outcome.splits sum.splits)

lemma every_exported_method_is_served:
  "is_exported (mg_name m) \<Longrightarrow> mg_ins m = [] \<Longrightarrow> meta_or_default u m = default_meta u (mg_name m)"
  by (simp add: meta_or_default_def parse_method_meta_def context_args_def)

text \<open>A library gets its own resources or is not registered: when a named resource of its scope
  is missing, nothing is registered and the server stays as it was; otherwise, if it names any,
  every one of its routes runs the scope's middleware last of the controller's, before those of
  the method, and so before the method.\<close>

theorem library_has_its_scope:
  assumes "register_library u chk quote nr smw c opts s = (res, s')"
    "library_options smw opts = (sc, ro)"
  shows "(\<not> ((sc_config sc = [] \<or> nr_config nr (sc_config sc)) \<and> (sc_db sc = [] \<or> nr_db nr (sc_db sc)) \<and>
            (sc_cache sc = [] \<or> nr_cache nr (sc_cache sc))) \<longrightarrow> s' = s \<and> (\<exists>e. res = Done (Some e))) \<and>
     (res = Done None \<and> \<not> scope_empty sc \<longrightarrow>
        (\<exists>new user. sv_table s' = sv_table s @ new \<and> ro = user @ [WithControllerMiddleware [smw sc]] \<and>
           (\<forall>x \<in> set new. gr_mws x = concat (map controller_part user) @ [smw sc] @
              concat (map (method_part (gr_handler x)) user))))"
proof -
  have missing: "validate_scope quote nr sc = None \<longleftrightarrow> (sc_config sc = [] \<or> nr_config nr (sc_config sc)) \<and>
      (sc_db sc = [] \<or> nr_db nr (sc_db sc)) \<and> (sc_cache sc = [] \<or> nr_cache nr (sc_cache sc))"
    by (simp add: validate_scope_def)
  have run: "register_library u chk quote nr smw c opts s = (case validate_scope quote nr sc of
      Some e \<Rightarrow> (Done (Some e), s) | None \<Rightarrow> register_handler u chk c ro s)"
    by (simp add: register_library_def assms(2))
  have first: "s' = s \<and> (\<exists>e. res = Done (Some e))" if "validate_scope quote nr sc \<noteq> None"
    using that run assms(1) by auto
  have second: "\<exists>new user. sv_table s' = sv_table s @ new \<and> ro = user @ [WithControllerMiddleware [smw sc]] \<and>
      (\<forall>x \<in> set new. gr_mws x = concat (map controller_part user) @ [smw sc] @ concat (map (method_part (gr_handler x)) user))"
    if r: "res = Done None" and ne: "\<not> scope_empty sc"
  proof -
    have "validate_scope quote nr sc = None" using r run assms(1) by (cases "validate_scope quote nr sc") simp_all
    then have reg: "register_at u chk root_router c ro s = (Done None, s')"
      using run assms(1) r by (simp add: register_handler_def)
    obtain user where user: "ro = user @ [WithControllerMiddleware [smw sc]]"
      using assms(2) ne by (auto simp: library_options_def split: prod.splits if_splits)
    obtain rs where "register_handlers u chk root_router c ro (sv_table s) = (Done (Inr rs), sv_table s')"
      using register_at_Done [OF reg] by blast
    from register_handlers_exact [OF this] obtain new where "sv_table s' = sv_table s @ new"
      "\<forall>x \<in> set new. gr_mws x = rt_mws root_router @ concat (map controller_part ro) @ concat (map (method_part (gr_handler x)) ro)"
      by blast
    then show ?thesis using user by (auto simp: root_router_def)
  qed
  show ?thesis using first second missing by blast
qed

theorem library_has_its_scope_witness:
  "register_library ascii_ucd (\<lambda>tab x. None) id \<lparr>nr_config = (\<lambda>n. False), nr_db = (\<lambda>n. False), nr_cache = (\<lambda>n. True)\<rparr>
     sc_name sample_controller [LibScope \<lparr>sc_name = ''lum'', sc_config = [], sc_db = ''d'', sc_cache = []\<rparr>]
     \<lparr>sv_table = [], sv_routes = [], sv_controllers = []\<rparr> \<noteq>
   (Done None, \<lparr>sv_table = [], sv_routes = [], sv_controllers = []\<rparr>)"
proof -
  let ?nr = "\<lparr>nr_config = (\<lambda>n. False), nr_db = (\<lambda>n. False), nr_cache = (\<lambda>n. True)\<rparr>"
  let ?sc = "\<lparr>sc_name = ''lum'', sc_config = [], sc_db = ''d'', sc_cache = []\<rparr>"
  let ?s = "\<lparr>sv_table = [], sv_routes = [], sv_controllers = []\<rparr> :: string server"
  obtain res s' where reg: "register_library ascii_ucd (\<lambda>tab x. None) id ?nr sc_name sample_controller [LibScope ?sc] ?s = (res, s')"
    by fastforce
  have "library_options sc_name [LibScope ?sc] = (?sc, [WithControllerMiddleware [''lum'']])"
    by (simp add: library_options_def scope_empty_def)
  from library_has_its_scope [OF reg this] have "\<exists>e. res = Done (Some e)" by simp
  then show ?thesis using reg by auto
qed

end
