(* ===== verification/Spec2Isabelle.thy ===== *)
theory Spec2Isabelle
  imports EngineRun MemLock Limiter TokenBucket Numbers SaasScope ServiceRegistry WebSession Migrations Tags StrTools WsHub GinMiddleware DiModules ProxyCall ExecNodes CmdLine Generate WebParam Scheduler Tracing Observer ConfigFile Cron Upload Logging WorkflowApi WebHandler
begin

text \<open>
  A verification library for landc-go, a set of Go modules for web services: workflow/ (a workflow
  engine), frame/ (a web framework), saas/ (tenants and who may see what), api/ (errors, responses,
  gin middlewares) and tools/ (caches, limiters, validators, converters, text and numbers). The
  definitions follow the Go functions one by one and are executable; the lemmas say what each
  component promises and that it keeps the promise. Paths below are relative to the repository.

  \<^bold>\<open>How Go is represented.\<close> Theory Prelude holds the shared vocabulary. A string is a list of bytes.
  A map is an association list with the invariant \<open>gm_ok\<close> (distinct keys); where Go ranges over
  a map, the order of the list is the order of that range, and the theorems hold for every order.
  A 64-bit integer is an \<open>int\<close>; where an overflow can matter the result goes through \<open>wrap64\<close>, and
  random bits and hashes are words. Floats are rationals or reals: rounding, NaN and infinities are
  outside the model, and functions that depend on them are left out. An error is a value
  (\<open>gerr option\<close>, or \<open>Inl\<close> of a sum); a panic and a call that blocks for good are the values
  \<open>Panic\<close> and \<open>Blocked\<close> of \<open>outcome\<close>. A struct is a record, a struct shared through pointers lives
  in a state that is passed on. Goroutines are steps: a transition relation, or a function of a
  script of events, that any scheduler may interleave; a method that runs under one mutex is one
  step. Logging and trace spans are left out unless the log is the point.

  \<^bold>\<open>Parameters.\<close> Code outside the repository is an argument: JSON and YAML codecs, the JWT
  library, x509, gorm, etcd, Redis, the file system, the Unicode tables, the goja engine, random
  sources, the clock. What the code relies on is a named hypothesis or the assumption of a locale
  (listed at the end), and each is met by a concrete instance in a witness or an interpretation.

  \<^bold>\<open>The workflow engine (workflow/pkg).\<close>
  WfModel: the records and status enumerations of model/ with their transitions.
  Dag: engine/dag.go, the graph of a definition with its cycle search, topological order, ready
  nodes and branch ports; cycles are found exactly, the order respects dependencies, some
  node is ready until the run is done. The searches take the number of nodes and edges plus one as fuel, and
  \<open>detect_cycle_total\<close> and \<open>topo_loop_total\<close> show that this is enough.
  ExecContext: engine/context.go, node outputs and input mapping over a codec.
  ExecNodes: executor/nodes.go, the built-in nodes and the ports their output picks.
  Retry: executor/executor.go (strategies, retry decorator) and registry.go.
  MemStore: store/store.go and memory_store.go, every operation, with optimistic versions: of two updates
  that carry the same version one succeeds.
  Idempotent: idempotent/idempotent.go, refined to an ideal table of deadlines.
  Engine: engine/engine.go and hooks.go over the memory store: start, the batch loop
  with its event channel, pause, resume, cancel, debugging, runs of a single node, waiting. EngineSafety: what the channel does after
  a pause (later events panic), how a failed run loses its last event, that a cancellation
  is final, that a start with a trigger ID is idempotent. EngineRun: an undisturbed run returns with
  every node completed once, in dependency order, whatever the order within a batch; the loop
  carries fuel, and the theorem gives a bound that is enough.
  Tracing: \<open>GetExecutionTracing\<close> of engine.go. The levels of the tree are built with the number of nodes
  as fuel; no node occurs twice, so this is enough.
  Observer: observer/observer.go, notifications and their fan-out.
  Scheduler: scheduler/scheduler.go as steps of a world it shares with the other users of the store;
  it never runs a task, and skips the pending tasks of paused executions.
  WorkflowApi: workflow/internal (controllers and services) with the requests of workflow/api/v1; what
  was created reads back, starts, and is found by paging.
  MemLock: lock/lock.go and memory_lock.go, leases with tokens, renewal goroutines as steps; mutual exclusion.

  \<^bold>\<open>Tools (tools/).\<close>
  LruCache: cache/cache.go, list and map of the LRU cache with expirations, refined to a
  recency list, with its goroutines as steps. FrameCache: frame/pkg/cache and frame/pkg/resource over
  it. Limiter: ratelimit/cache_limiter.go and verifycode/manager.go over a cache, with the wrappers in
  frame/pkg/ratelimit and frame/pkg/verifycode. TokenBucket: ratelimit/tokenbucket.go with the
  rate and circuit breaker middlewares of frame/pkg/middleware.
  GoStrings: UTF-8 and the functions of package strings that the sources use. GoRegexp: the patterns
  the sources write down, as a matcher with its correctness. Numbers: num/number.go.
  StrTools: str/string.go. Validators: tag/validate.go. Tags: tag/tag.go.
  Converter: converter/converter.go over finite trees of types and values; a conversion keeps
  the type of its target. Generate: generate/generate.go over a tape of random draws.

  \<^bold>\<open>Framework (frame/pkg).\<close>
  Di, DiModules, ProxyCall: di/container.go and registry.go, module.go, gateway.go. Factories are finite
  trees of container calls. WebHandler: web/register.go, meta.go, options.go, routes.go, library.go, handler.go,
  errors.go and the tables of server.go; which methods become routes, with which chain, and what a request
  is answered. WebParam, Upload, WebSession: web/param.go, web/upload.go, session/session.go.
  Migrations: db/migration.go. WsHub: websocket/websocket.go as an inductive step relation over the
  channels of the hub. ServiceRegistry: registry/registry.go. CmdLine: cmd/ (parser, choice of a command,
  filling of its input). I18n: i18n/i18n.go. ConfigFile: config/config.go and env.go.
  Cron: cron/cron.go. Auth: auth/auth.go.

  \<^bold>\<open>Requests (api/, frame/pkg/middleware, frame/pkg/response).\<close>
  ApiCore: errors, conversion, envelopes, headers and the client address. GinMiddleware: CSRF,
  idempotency keys, CORS, bearer tokens, roles, recovery, with the rest of the chain as a function.

  \<^bold>\<open>Logs (log/internal/logger).\<close>
  Logging: levels, options, loggers on a heap, the factory, and the global logger whose accesses of the
  shared variables are the steps of its goroutines.

  \<^bold>\<open>Tenants (saas/pkg).\<close>
  Saas: ownership and access records, grants and revocations. SaasScope: the clauses the
  query scopes add, constraints, tenant paths and the tenant tree.
\<close>

text \<open>
  \<^bold>\<open>Interfaces.\<close> Where a component relies on another through an interface, the laws are a locale
  and the model of the provider interprets it:
  \<^item> \<open>MemStore.versioned_store\<close> (updates are guarded by a version), by the memory store;
  \<^item> \<open>MemLock.lease\<close> (an owner keeps the lease until it ends), by the memory lock;
  \<^item> \<open>Limiter.code_store\<close> (the cache under limiters and codes), by the local cache;
  \<^item> \<open>Saas.gorm_tables\<close> and \<open>SaasScope.tenant_table\<close> (the queries the managers make), by lists of rows;
  \<^item> \<open>Migrations.migration_db\<close> (the table of applied versions), by a list of records;
  \<^item> \<open>WebSession.session_laws\<close> (what a session store keeps), by the memory store of sessions.
  Further hypotheses are predicates on a parameter, such as \<open>jwt_lib_ok\<close> (signing and parsing as the
  library documents it) and the laws of codecs in the round trips.

  \<^bold>\<open>Groups of lemmas.\<close> Each theory proves first the invariant of its state and that every operation
  keeps it, then the answer of each operation on every branch, then what follows for sequences
  of operations. Refinements relate an implementation to an abstract machine (recency list, table
  of deadlines, sets of open leases, path lookup in nested messages). Lemmas that show unexpected
  behaviour of the code (an event after a pause, an expanded placeholder, two X-Forwarded-For
  lines) are stated like all others.

  \<^bold>\<open>Fuel.\<close> Recursion is structural or has a measure where the code's loop has one. The fuel of the
  graph searches is the number of nodes and edges plus one, that of the tracing tree the number of nodes, that of the batch loop is given by
  the theorem on undisturbed runs; running out of fuel is a value of its own, and the theorems
  show it does not occur. Retry loops are bounded by the number of attempts of their strategy.

  \<^bold>\<open>Not modelled.\<close> Code that only calls a library or a network service: Redis and database
  stores, mail, HTTP and gRPC clients, starting and stopping of the web server, OpenAPI
  and code generators, the zap and logrus back ends, the command line program, examples; and functions whose result is
  the rounding of floats. The HTTP, script and sub-workflow executors are parameters of the retry
  decorator.
\<close>

end
